(* ===== verification/Prelude.thy ===== *)
theory Prelude
  imports Main "HOL-Library.Word"
begin

text \<open>
  Shared vocabulary of the development. Python integers are \<open>int\<close>; a shift by a
  non-negative amount is \<open>push_bit\<close> or \<open>drop_bit\<close>, \<open>&\<close>, \<open>|\<close>, \<open>^\<close> and \<open>~\<close> are the bit
  operations of \<open>int\<close>, which, like Python's, read a negative number as an infinite
  two's complement string. A truth value used as a number is \<open>of_bool\<close>.
  Raised exceptions are values: \<open>Inl\<close> of an error type, or \<open>None\<close> where the code
  has one kind of failure only.
\<close>

unbundle bit_operations_syntax

named_theorems bits_simps "reading single bits of the model's masks and words"
named_theorems wf_intros "well-formedness of the states the operations return"

section \<open>Bits of integers\<close>

abbreviation shr :: "int \<Rightarrow> int \<Rightarrow> int" where
  "shr x n \<equiv> drop_bit (nat n) x"

abbreviation shl :: "int \<Rightarrow> int \<Rightarrow> int" where
  "shl x n \<equiv> push_bit (nat n) x"

text \<open>\<open>x >> i & 1\<close> and \<open>bool(x >> i & 1)\<close>.\<close>

definition bit_at :: "int \<Rightarrow> int \<Rightarrow> int" where
  "bit_at x i = shr x i AND 1"

definition has_bit :: "int \<Rightarrow> int \<Rightarrow> bool" where
  "has_bit x i \<longleftrightarrow> shr x i AND 1 \<noteq> 0"

lemma bit_at_of_bool [bits_simps]: "bit_at x i = of_bool (bit x (nat i))"
  by (simp add: bit_at_def and_one_eq mod_2_eq_odd bit_iff_odd_drop_bit)

lemma has_bit_iff [bits_simps]: "has_bit x i \<longleftrightarrow> bit x (nat i)"
  by (simp add: has_bit_def and_one_eq mod_2_eq_odd bit_iff_odd_drop_bit)

lemma bit_at_01: "bit_at x i = 0 \<or> bit_at x i = 1"
  by (simp add: bit_at_of_bool)

text \<open>A mask of \<open>n\<close> low bits is \<open>(1 << n) - 1\<close>.\<close>

lemma push_bit_one_minus: "push_bit n (1::int) - 1 = mask n"
  by (simp add: mask_eq_exp_minus_1 push_bit_eq_mult)

lemma and_mask_bounds:
  fixes x :: int
  shows "0 \<le> x AND mask n" and "x AND mask n < 2 ^ n"
  by (simp_all add: take_bit_eq_mask [symmetric])

lemma mask_numerals:
  "(1::int) = mask 1" "(3::int) = mask 2" "(7::int) = mask 3" "(15::int) = mask 4"
  "(31::int) = mask 5" "(255::int) = mask 8" "(65535::int) = mask 16"
  "(0xFFFFFF::int) = mask 24" "(0xFFFFFFFF::int) = mask 32"
  by (simp_all add: mask_eq_exp_minus_1)

text \<open>The masks of the code as \<open>take_bit\<close>.\<close>

lemma and_15_take: "(x::int) AND 15 = take_bit 4 x"
  by (simp add: take_bit_eq_mask mask_eq_exp_minus_1)
lemma and_255_take: "(x::int) AND 255 = take_bit 8 x"
  by (simp add: take_bit_eq_mask mask_eq_exp_minus_1)
lemma and_65535_take: "(x::int) AND 65535 = take_bit 16 x"
  by (simp add: take_bit_eq_mask mask_eq_exp_minus_1)
lemma and_m24_take: "(x::int) AND 0xFFFFFF = take_bit 24 x"
  by (simp add: take_bit_eq_mask mask_eq_exp_minus_1)
lemma and_m32_take: "(x::int) AND 0xFFFFFFFF = take_bit 32 x"
  by (simp add: take_bit_eq_mask mask_eq_exp_minus_1)
lemma and_31_take: "(x::int) AND 31 = take_bit 5 x"
  by (simp add: take_bit_eq_mask mask_eq_exp_minus_1)
lemma and_7_take: "(x::int) AND 7 = take_bit 3 x"
  by (simp add: take_bit_eq_mask mask_eq_exp_minus_1)
lemma and_3_take: "(x::int) AND 3 = take_bit 2 x"
  by (simp add: take_bit_eq_mask mask_eq_exp_minus_1)
lemma and_1_take: "(x::int) AND 1 = take_bit 1 x"
  by (simp add: take_bit_eq_mask mask_eq_exp_minus_1)

lemmas and_takes = and_15_take and_255_take and_65535_take and_m24_take and_m32_take
  and_31_take and_7_take and_3_take and_1_take

lemma take_bit_range:
  fixes x :: int
  shows "0 \<le> take_bit n x" and "take_bit n x < 2 ^ n"
  by simp_all

lemma and_range:
  fixes x y :: int
  assumes "0 \<le> y" "y < b"
  shows "0 \<le> x AND y \<and> x AND y < b"
  using assms AND_upper2 [of y x] by (simp add: le_less_trans)

lemma or_lt_pow:
  fixes x y :: int
  assumes "0 \<le> x" "x < 2 ^ n" "0 \<le> y" "y < 2 ^ n"
  shows "0 \<le> x OR y \<and> x OR y < 2 ^ n"
  using assms OR_upper [of x n y] by (simp add: or_nonnegative_int_iff)

lemma xor_lt_pow:
  fixes x y :: int
  assumes "0 \<le> x" "x < 2 ^ n" "0 \<le> y" "y < 2 ^ n"
  shows "0 \<le> x XOR y \<and> x XOR y < 2 ^ n"
  using assms XOR_upper [of x n y] by (simp add: xor_nonnegative_int_iff)

lemma and_not_zero_iff:
  fixes a b :: int
  shows "a AND NOT b = 0 \<longleftrightarrow> (\<forall>n. bit a n \<longrightarrow> bit b n)"
  by (auto simp: bit_eq_iff bit_simps)

lemma and_zero_iff:
  fixes a b :: int
  shows "a AND b = 0 \<longleftrightarrow> (\<forall>n. \<not> (bit a n \<and> bit b n))"
  by (auto simp: bit_eq_iff bit_simps)

section \<open>Ranges\<close>

text \<open>Python's \<open>range(n)\<close> for an integer bound.\<close>

definition py_range :: "int \<Rightarrow> int list" where
  "py_range n = map int [0..<nat n]"

lemma set_py_range [simp]: "set (py_range n) = {0..<n}"
proof -
  have "int ` {0..<nat n} = {0..<n}"
    by (cases "0 \<le> n") (auto simp: image_iff intro: exI [of _ "nat _"]
      intro!: bexI [of _ "nat _"])
  then show ?thesis by (simp add: py_range_def)
qed

lemma length_py_range [simp]: "length (py_range n) = nat n"
  by (simp add: py_range_def)

lemma py_range_nth [simp]: "i < nat n \<Longrightarrow> py_range n ! i = int i"
  by (simp add: py_range_def)

section \<open>Errors as sums\<close>

text \<open>Sequencing of fallible operations: the first error ends the computation.\<close>

definition and_then :: "'e + 'a \<Rightarrow> ('a \<Rightarrow> 'e + 'b) \<Rightarrow> 'e + 'b" where
  "and_then m f = (case m of Inl e \<Rightarrow> Inl e | Inr a \<Rightarrow> f a)"

lemma and_then_simps [simp]:
  "and_then (Inl e) f = Inl e"
  "and_then (Inr a) f = f a"
  by (simp_all add: and_then_def)

lemma and_then_Inr_iff:
  "and_then m f = Inr b \<longleftrightarrow> (\<exists>a. m = Inr a \<and> f a = Inr b)"
  by (cases m) auto

lemma and_then_assoc: "and_then (and_then m f) g = and_then m (\<lambda>a. and_then (f a) g)"
  by (cases m) simp_all

text \<open>\<open>raise_if c e\<close>: an \<open>if c: raise e\<close> statement.\<close>

definition raise_if :: "bool \<Rightarrow> 'e \<Rightarrow> 'e + unit" where
  "raise_if c e = (if c then Inl e else Inr ())"

lemma raise_if_Inr [simp]: "raise_if c e = Inr u \<longleftrightarrow> \<not> c"
  by (simp add: raise_if_def)

section \<open>Lists\<close>

lemma list_all_update:
  "list_all P xs \<Longrightarrow> P x \<Longrightarrow> list_all P (xs[i := x])"
  by (cases "i < length xs") (auto simp: list_all_length nth_list_update)

lemma list_all_nth: "list_all P xs \<Longrightarrow> i < length xs \<Longrightarrow> P (xs ! i)"
  by (simp add: list_all_length)

section \<open>Text\<close>

text \<open>Python's \<open>%d\<close>, \<open>%x\<close> padded with zeros, and \<open>join\<close>.\<close>

definition digit :: "nat \<Rightarrow> char" where
  "digit d = ''0123456789abcdef'' ! d"

fun digits :: "nat \<Rightarrow> nat \<Rightarrow> string" where
  "digits base n =
     (if base < 2 \<or> n < base then [digit n] else digits base (n div base) @ [digit (n mod base)])"

declare digits.simps [simp del]

definition decimal :: "int \<Rightarrow> string" where
  "decimal n = (if n < 0 then ''-'' @ digits 10 (nat (- n)) else digits 10 (nat n))"

definition hex_pad :: "nat \<Rightarrow> int \<Rightarrow> string" where
  "hex_pad width n = (let ds = digits 16 (nat n) in replicate (width - length ds) CHR ''0'' @ ds)"

fun join :: "string \<Rightarrow> string list \<Rightarrow> string" where
  "join sep [] = []"
| "join sep [s] = s"
| "join sep (s # ss) = s @ sep @ join sep ss"

section \<open>Stateful operations that may raise\<close>

text \<open>
  A Python method that mutates objects and may raise is a function from the state to a result
  and the state it leaves behind: an exception keeps the mutations made before it.
\<close>

type_synonym ('s, 'e, 'a) act = "'s \<Rightarrow> ('e + 'a) \<times> 's"

definition act_return :: "'a \<Rightarrow> ('s, 'e, 'a) act" where
  "act_return a = (\<lambda>s. (Inr a, s))"

definition act_raise :: "'e \<Rightarrow> ('s, 'e, 'a) act" where
  "act_raise e = (\<lambda>s. (Inl e, s))"

definition act_bind :: "('s, 'e, 'a) act \<Rightarrow> ('a \<Rightarrow> ('s, 'e, 'b) act) \<Rightarrow> ('s, 'e, 'b) act" where
  "act_bind m f = (\<lambda>s. case m s of (Inl e, s') \<Rightarrow> (Inl e, s') | (Inr a, s') \<Rightarrow> f a s')"

definition act_get :: "('s \<Rightarrow> 'a) \<Rightarrow> ('s, 'e, 'a) act" where
  "act_get f = (\<lambda>s. (Inr (f s), s))"

definition act_mod :: "('s \<Rightarrow> 's) \<Rightarrow> ('s, 'e, unit) act" where
  "act_mod f = (\<lambda>s. (Inr (), f s))"

text \<open>A check that raises, and a fallible pure computation.\<close>

definition act_require :: "bool \<Rightarrow> 'e \<Rightarrow> ('s, 'e, unit) act" where
  "act_require c e = (if c then act_return () else act_raise e)"

definition act_lift :: "'e + 'a \<Rightarrow> ('s, 'e, 'a) act" where
  "act_lift r = (\<lambda>s. (r, s))"

text \<open>\<open>for x in xs\<close>.\<close>

fun act_for :: "'x list \<Rightarrow> ('x \<Rightarrow> ('s, 'e, unit) act) \<Rightarrow> ('s, 'e, unit) act" where
  "act_for [] f = act_return ()"
| "act_for (x # xs) f = act_bind (f x) (\<lambda>_. act_for xs f)"

fun act_times :: "nat \<Rightarrow> ('s, 'e, unit) act \<Rightarrow> ('s, 'e, unit) act" where
  "act_times 0 f = act_return ()"
| "act_times (Suc n) f = act_bind f (\<lambda>_. act_times n f)"

lemma act_bind_run:
  "m s = (Inr a, s') \<Longrightarrow> act_bind m f s = f a s'"
  "m s = (Inl e, s') \<Longrightarrow> act_bind m f s = (Inl e, s')"
  by (simp_all add: act_bind_def)

lemma act_run [simp]:
  "act_return a s = (Inr a, s)" "act_raise e s = (Inl e, s)"
  "act_get g s = (Inr (g s), s)" "act_mod h s = (Inr (), h s)" "act_lift r s = (r, s)"
  "act_require c e s = (if c then Inr () else Inl e, s)"
  by (simp_all add: act_return_def act_raise_def act_get_def act_mod_def act_lift_def
    act_require_def)

lemma act_bind_simps [simp]:
  "act_bind (act_return a) f = f a"
  "act_bind (act_raise e) f = act_raise e"
  "act_bind m act_return = m"
  by (auto simp: act_bind_def act_return_def act_raise_def fun_eq_iff split: sum.splits prod.splits)

lemma act_bind_basic [simp]:
  "act_bind (act_mod g) f s = f () (g s)"
  "act_bind (act_get k) f2 s = f2 (k s) s"
  "act_bind (act_lift (Inr a)) f3 s = f3 a s"
  "act_bind (act_lift (Inl e)) f3 s = (Inl e, s)"
  "act_bind (act_require c e) f s = (if c then f () s else (Inl e, s))"
  by (simp_all add: act_bind_def)

lemma act_bind_assoc: "act_bind (act_bind m f) g = act_bind m (\<lambda>a. act_bind (f a) g)"
  by (auto simp: act_bind_def fun_eq_iff split: sum.splits prod.splits)

text \<open>A postcondition for normal returns and one for exceptions.\<close>

definition act_post ::
  "('a \<Rightarrow> 's \<Rightarrow> bool) \<Rightarrow> ('e \<Rightarrow> 's \<Rightarrow> bool) \<Rightarrow> ('e + 'a) \<times> 's \<Rightarrow> bool" where
  "act_post Q E r = (case r of (Inr a, s') \<Rightarrow> Q a s' | (Inl e, s') \<Rightarrow> E e s')"

lemma act_post_simps [simp]:
  "act_post Q E (Inr a, s) = Q a s" "act_post Q E (Inl e, s) = E e s"
  by (simp_all add: act_post_def)

lemma act_post_bind:
  assumes "act_post (\<lambda>a s'. act_post Q E (f a s')) E (m s)"
  shows "act_post Q E (act_bind m f s)"
  using assms by (auto simp: act_post_def act_bind_def split: sum.splits prod.splits)

lemma act_post_mono:
  assumes "act_post Q E r" "\<And>a s. Q a s \<Longrightarrow> Q' a s" "\<And>e s. E e s \<Longrightarrow> E' e s"
  shows "act_post Q' E' r"
  using assms by (auto simp: act_post_def split: sum.splits prod.splits)

lemma act_post_seq:
  assumes "act_post R E (m s)" "\<And>a s'. R a s' \<Longrightarrow> act_post Q E (f a s')"
  shows "act_post Q E (act_bind m f s)"
  by (rule act_post_bind, rule act_post_mono [OF assms(1)]) (use assms(2) in auto)

text \<open>A postcondition for normal returns only.\<close>

abbreviation ok_post :: "('a \<Rightarrow> 's \<Rightarrow> bool) \<Rightarrow> ('e + 'a) \<times> 's \<Rightarrow> bool" where
  "ok_post Q r \<equiv> act_post Q (\<lambda>_ _. True) r"

lemma act_postD:
  "act_post Q E r \<Longrightarrow> r = (Inr a, s) \<Longrightarrow> Q a s"
  "act_post Q E r \<Longrightarrow> r = (Inl e, s) \<Longrightarrow> E e s"
  by simp_all

end
