(* ===== verification/Engine.thy ===== *)
theory Engine
  imports Prelude
begin

text \<open>
  One engine of the instruction-set reference model, \<open>test/model/reference.py\<close>: its
  state (\<open>Engine\<close>, \<open>Transfer\<close>), the encoders, \<open>_fail\<close>, \<open>_start\<close>, \<open>_drive\<close>,
  \<open>_shift_out\<close>, \<open>_shift_in\<close> and the single-cycle \<open>_step\<close> with its operand checks,
  its fused transfer and its thirty instructions. \<open>None\<close> as the result of a step stands
  for an exception (a read of an empty queue); it is shown never to happen in a
  well-formed chip.
\<close>

section \<open>State\<close>

record config =
  cfg_engines :: int
  cfg_width :: int
  cfg_program_words :: int
  cfg_fifo_words :: int
  cfg_fused :: bool
  cfg_prefetch :: bool

definition default_config :: config where
  "default_config = \<lparr>cfg_engines = 4, cfg_width = 32, cfg_program_words = 64,
     cfg_fifo_words = 8, cfg_fused = True, cfg_prefetch = False\<rparr>"

text \<open>\<open>Config.__post_init__\<close>: the configurations that are accepted.\<close>

definition config_ok :: "config \<Rightarrow> bool" where
  "config_ok c \<longleftrightarrow>
     \<not> ((cfg_engines c \<noteq> 2 \<and> cfg_engines c \<noteq> 4) \<or> (cfg_width c \<noteq> 16 \<and> cfg_width c \<noteq> 32)) \<and>
     \<not> ((cfg_program_words c \<noteq> 32 \<and> cfg_program_words c \<noteq> 64 \<and> cfg_program_words c \<noteq> 128)
        \<or> (cfg_fifo_words c \<noteq> 8 \<and> cfg_fifo_words c \<noteq> 32))"

record transfer =
  t_bits :: int
  t_half_period :: int
  t_flags :: int
  t_remaining :: int
  t_transitions :: int

record engine =
  e_program :: "int list"
  e_committed :: bool
  e_writing :: bool
  e_running :: bool
  e_stalled :: bool
  e_fault :: int
  e_pc :: int
  e_regs :: "int list"
  e_tx :: "int list"
  e_rx :: "int list"
  e_ownership :: int
  e_open_drain :: int
  e_values :: int
  e_direction :: int
  e_repeat :: int
  e_wait :: int
  e_limit :: int
  e_blocked :: int
  e_event :: bool
  e_trigger :: "(int \<times> int) option"
  e_pins :: "int \<times> int \<times> int"
  e_completed :: int
  e_transfer :: "transfer option"

definition new_engine :: engine where
  "new_engine = \<lparr>e_program = [], e_committed = False, e_writing = False, e_running = False,
     e_stalled = False, e_fault = 0, e_pc = 0, e_regs = [0, 0, 0, 0], e_tx = [], e_rx = [],
     e_ownership = 0, e_open_drain = 0, e_values = 0, e_direction = 0, e_repeat = 0,
     e_wait = 0, e_limit = 65535, e_blocked = 0, e_event = False, e_trigger = None,
     e_pins = (0, 0, 0), e_completed = 0, e_transfer = None\<rparr>"

text \<open>\<open>Fault\<close>: three names of the enumeration share the value 1.\<close>

abbreviation (input) INVALID_OPCODE :: int where "INVALID_OPCODE \<equiv> 1"
abbreviation (input) INVALID_OPERAND :: int where "INVALID_OPERAND \<equiv> 1"
abbreviation (input) PIN_OWNERSHIP :: int where "PIN_OWNERSHIP \<equiv> 1"
abbreviation (input) PC_RANGE :: int where "PC_RANGE \<equiv> 2"
abbreviation (input) TIMEOUT :: int where "TIMEOUT \<equiv> 3"
abbreviation (input) RX_OVERFLOW :: int where "RX_OVERFLOW \<equiv> 4"

section \<open>Encoders\<close>

definition instruction :: "int \<Rightarrow> int \<Rightarrow> int \<Rightarrow> int \<Rightarrow> int option" where
  "instruction op a b c =
     (if \<exists>x \<in> set [op, a, b, c]. \<not> (0 \<le> x \<and> x \<le> 255) then None
      else Some (shl op 24 OR shl a 16 OR shl b 8 OR c))"

definition immediate :: "int \<Rightarrow> int \<Rightarrow> int option" where
  "immediate op value =
     (if \<not> (0 \<le> op \<and> op \<le> 255) \<or> \<not> (0 \<le> value \<and> value < shl 1 24) then None
      else Some (shl op 24 OR value))"

text \<open>The fields of an instruction word, as \<open>_step\<close> reads them.\<close>

definition word_op :: "int \<Rightarrow> int" where "word_op w = shr w 24"
definition word_a :: "int \<Rightarrow> int" where "word_a w = shr w 16 AND 255"
definition word_b :: "int \<Rightarrow> int" where "word_b w = shr w 8 AND 255"
definition word_c :: "int \<Rightarrow> int" where "word_c w = w AND 255"
definition word_imm24 :: "int \<Rightarrow> int" where "word_imm24 w = w AND 0xFFFFFF"
definition word_imm16 :: "int \<Rightarrow> int" where "word_imm16 w = w AND 65535"

lemmas word_fields = word_op_def word_a_def word_b_def word_c_def word_imm24_def word_imm16_def

section \<open>Operations of one engine\<close>

definition cfg_mask :: "config \<Rightarrow> int" where
  "cfg_mask c = shl 1 (cfg_width c) - 1"

definition fail :: "engine \<Rightarrow> int \<Rightarrow> engine" where
  "fail e code = e\<lparr>e_fault := code, e_running := False, e_stalled := False,
     e_direction := 0, e_transfer := None\<rparr>"

definition start :: "engine \<Rightarrow> engine" where
  "start e = e\<lparr>e_running := True, e_stalled := False,
     e_pc := 0, e_values := 0, e_direction := 0, e_repeat := 0, e_wait := 0,
     e_blocked := 0, e_completed := 0, e_regs := [0, 0, 0, 0], e_limit := 65535,
     e_pins := (0, 0, 0), e_transfer := None\<rparr>"

definition drive :: "engine \<Rightarrow> int \<Rightarrow> int \<Rightarrow> engine" where
  "drive e pin value =
     e\<lparr>e_values := (e_values e AND NOT (shl 1 pin)) OR shl (value AND 1) pin\<rparr>"

definition reg :: "engine \<Rightarrow> int \<Rightarrow> int" where
  "reg e i = e_regs e ! nat i"

definition set_reg :: "engine \<Rightarrow> int \<Rightarrow> int \<Rightarrow> engine" where
  "set_reg e i v = e\<lparr>e_regs := (e_regs e)[nat i := v]\<rparr>"

text \<open>The bit \<open>regs[0] >> (width - 1) if msb else regs[0]\<close> that a shift presents, and
  the shifted register.\<close>

definition out_bit :: "config \<Rightarrow> engine \<Rightarrow> bool \<Rightarrow> int" where
  "out_bit c e msb = (if msb then shr (reg e 0) (cfg_width c - 1) else reg e 0)"

definition shifted_tx :: "config \<Rightarrow> engine \<Rightarrow> bool \<Rightarrow> int" where
  "shifted_tx c e msb = (if msb then shl (reg e 0) 1 else shr (reg e 0) 1) AND cfg_mask c"

definition shift_out :: "config \<Rightarrow> engine \<Rightarrow> int \<Rightarrow> bool \<Rightarrow> engine" where
  "shift_out c e pin msb =
     (let e1 = drive e pin (out_bit c e msb) in set_reg e1 0 (shifted_tx c e1 msb))"

definition shift_in :: "config \<Rightarrow> int \<Rightarrow> engine \<Rightarrow> int \<Rightarrow> bool \<Rightarrow> engine" where
  "shift_in c sync2 e pin msb =
     (let b = bit_at sync2 pin in
      set_reg e 1 ((if msb then shl (reg e 1) 1 OR b
                    else shr (reg e 1) 1 OR shl b (cfg_width c - 1)) AND cfg_mask c))"

section \<open>One cycle of a fused transfer\<close>

text \<open>The transition of \<open>XFER\<close> when its half-period counter has run out.\<close>

definition transfer_edge :: "config \<Rightarrow> int \<Rightarrow> engine \<Rightarrow> transfer \<Rightarrow> engine" where
  "transfer_edge c sync2 e t =
     (let (clock, tx, rx) = e_pins e;
          active = (t_transitions t mod 2 = 0);
          cpol = has_bit (t_flags t) 0; cpha = has_bit (t_flags t) 1;
          msb = has_bit (t_flags t) 2; drv = has_bit (t_flags t) 3;
          sample = has_bit (t_flags t) 4;
          e1 = drive e clock (of_bool (cpol \<noteq> active));
          e2 = (if drv \<and> cpha \<and> active then shift_out c e1 tx msb else e1);
          e3 = (if drv \<and> \<not> cpha \<and> \<not> active
                then (let f = set_reg e2 0 (shifted_tx c e2 msb) in
                      if t_transitions t < 2 * t_bits t - 1
                      then drive f tx (out_bit c f msb) else f)
                else e2);
          e4 = (if sample \<and> (if cpha then \<not> active else active)
                then shift_in c sync2 e3 rx msb else e3);
          k = t_transitions t + 1
      in if k = 2 * t_bits t
         then e4\<lparr>e_transfer := None, e_pc := e_pc e4 + 1,
                 e_completed := (e_completed e4 + 1) AND 0xFFFFFFFF\<rparr>
         else e4\<lparr>e_transfer := Some (t\<lparr>t_transitions := k,
                                        t_remaining := t_half_period t\<rparr>)\<rparr>)"

definition step_transfer :: "config \<Rightarrow> int \<Rightarrow> engine \<Rightarrow> transfer \<Rightarrow> engine" where
  "step_transfer c sync2 e t =
     (let t' = t\<lparr>t_remaining := t_remaining t - 1\<rparr> in
      if t_remaining t' \<noteq> 0 then e\<lparr>e_transfer := Some t'\<rparr>
      else transfer_edge c sync2 e t')"

section \<open>Operand checks\<close>

text \<open>The \<open>elif\<close> chain that sets \<open>invalid\<close>, or fails with the opcode itself; the
  second half of the checks is on pin ownership.\<close>

definition operand_check :: "config \<Rightarrow> int \<Rightarrow> int option" where
  "operand_check cfg w =
     (let op = word_op w; a = word_a w; b = word_b w; c = word_c w; imm24 = word_imm24 w;
          check = (\<lambda>invalid. if invalid then Some INVALID_OPERAND else None)
      in if op \<in> {0, 1, 6, 15} then check (imm24 \<noteq> 0)
         else if op = 7 then check (a > 1 \<or> b \<noteq> 0 \<or> c \<noteq> 0)
         else if op \<in> {2, 3} then check (shr imm24 8 \<noteq> 0)
         else if op \<in> {8, 9} then check (a > 7 \<or> b \<noteq> 0 \<or> c > 1)
         else if op = 10 then check (a \<noteq> 0)
         else if op = 12 then check (imm24 = 0)
         else if op = 13 then check (a > 7 \<or> b > 1 \<or> c \<noteq> 0)
         else if op = 14 then check (shr imm24 (cfg_engines cfg) \<noteq> 0)
         else if op = 16 then check (shr imm24 9 \<noteq> 0)
         else if op = 17 then
           check (\<not> cfg_fused cfg \<or> \<not> (1 \<le> a \<and> a \<le> cfg_width cfg) \<or> b = 0 \<or> c > 31)
         else if op \<in> {18, 20, 21, 22, 23} then check (a > 3 \<or> b > 3 \<or> c \<noteq> 0)
         else if op \<in> {19, 26} then check (a > 3)
         else if op \<in> {24, 25} then check (a > 3 \<or> b \<noteq> 0 \<or> c \<ge> cfg_width cfg)
         else if op \<in> {27, 28} then check (a > 3 \<or> b \<noteq> 0 \<or> c \<noteq> 0)
         else if op = 29 then check (\<not> (0 < imm24 \<and> imm24 \<le> 255))
         else if op \<notin> {4, 5, 11} then Some INVALID_OPCODE
         else None)"

definition ownership_check :: "int \<Rightarrow> int \<Rightarrow> bool" where
  "ownership_check ownership w =
     (let op = word_op w; a = word_a w; imm24 = word_imm24 w in
      (op \<in> {2, 3} \<and> imm24 AND NOT ownership \<noteq> 0) \<or>
      (op = 8 \<and> \<not> has_bit ownership a))"

section \<open>Instructions\<close>

type_synonym step_result = "(engine \<times> bool \<times> bool \<times> int) option"

text \<open>A step without queue effect, and the common end of an instruction that completes.\<close>

definition quiet :: "engine \<Rightarrow> step_result" where
  "quiet e = Some (e, False, False, 0)"

definition retire :: "engine \<Rightarrow> int \<Rightarrow> bool \<Rightarrow> bool \<Rightarrow> int \<Rightarrow> step_result" where
  "retire e next_pc pop push signal =
     Some (e\<lparr>e_pc := next_pc, e_completed := (e_completed e + 1) AND 0xFFFFFFFF\<rparr>,
           pop, push, signal)"

text \<open>\<open>PULL\<close> (6) and \<open>PUSH\<close> (7).\<close>

definition exec_pull :: "engine \<Rightarrow> bool \<Rightarrow> step_result" where
  "exec_pull e tx_available =
     (if \<not> tx_available then quiet (e\<lparr>e_stalled := True\<rparr>)
      else case e_tx e of
             [] \<Rightarrow> None
           | x # _ \<Rightarrow> retire (set_reg e 0 x) (e_pc e + 1) True False 0)"

definition exec_push :: "engine \<Rightarrow> int \<Rightarrow> bool \<Rightarrow> step_result" where
  "exec_push e a rx_space =
     (if \<not> rx_space
      then quiet (if a \<noteq> 0 then fail e RX_OVERFLOW else e\<lparr>e_stalled := True\<rparr>)
      else retire e (e_pc e + 1) False True 0)"

text \<open>\<open>WAITPIN\<close> (13) and \<open>WAITEVENT\<close> (15).\<close>

definition exec_wait :: "int \<Rightarrow> engine \<Rightarrow> int \<Rightarrow> int \<Rightarrow> int \<Rightarrow> step_result" where
  "exec_wait sync2 e op a b =
     (let ready = (if op = 13 then bit_at sync2 a = b else e_event e) in
      if \<not> ready then
        (let e1 = e\<lparr>e_blocked := e_blocked e + 1, e_stalled := True\<rparr> in
         quiet (if e_blocked e1 \<ge> e_limit e1 then fail e1 TIMEOUT else e1))
      else
        (let e1 = (if op = 15 then e\<lparr>e_event := False\<rparr> else e) in
         retire (e1\<lparr>e_blocked := 0\<rparr>) (e_pc e + 1) False False 0))"

text \<open>\<open>XFER\<close> (17): start of a fused transfer.\<close>

definition exec_xfer :: "config \<Rightarrow> engine \<Rightarrow> int \<Rightarrow> int \<Rightarrow> int \<Rightarrow> step_result" where
  "exec_xfer cfg e a b c =
     (let (clock, tx, _) = e_pins e;
          required = shl 1 clock OR (if c AND 8 \<noteq> 0 then shl 1 tx else 0)
      in if required AND NOT (e_ownership e) \<noteq> 0 \<or> (c AND 8 \<noteq> 0 \<and> clock = tx)
         then quiet (fail e PIN_OWNERSHIP)
         else
           (let e1 = drive e clock (c AND 1);
                e2 = (if c AND 8 \<noteq> 0 \<and> c AND 2 = 0
                      then drive e1 tx (out_bit cfg e1 (c AND 4 \<noteq> 0)) else e1)
            in quiet (e2\<lparr>e_transfer := Some \<lparr>t_bits = a, t_half_period = b, t_flags = c,
                                              t_remaining = b, t_transitions = 0\<rparr>\<rparr>)))"

text \<open>The register instructions 18 to 28, but for the jump \<open>JZ\<close> (26).\<close>

definition exec_alu :: "config \<Rightarrow> int \<Rightarrow> engine \<Rightarrow> int \<Rightarrow> int \<Rightarrow> int \<Rightarrow> int \<Rightarrow> int \<Rightarrow> engine" where
  "exec_alu cfg timestamp e op a b c imm16 =
     (if op = 18 then set_reg e a (reg e b)
      else if op = 19 then set_reg e a imm16
      else if op = 20 then set_reg e a ((reg e a + reg e b) AND cfg_mask cfg)
      else if op = 21 then set_reg e a (reg e a XOR reg e b)
      else if op = 22 then set_reg e a (reg e a AND reg e b)
      else if op = 23 then set_reg e a (reg e a OR reg e b)
      else if op = 24 then set_reg e a (shl (reg e a) c AND cfg_mask cfg)
      else if op = 25 then set_reg e a (shr (reg e a) c)
      else if op = 27 then set_reg e a (reg e a XOR cfg_mask cfg)
      else set_reg e a (timestamp AND cfg_mask cfg))"

definition execute ::
  "config \<Rightarrow> int \<Rightarrow> int \<Rightarrow> engine \<Rightarrow> int \<Rightarrow> bool \<Rightarrow> bool \<Rightarrow> step_result" where
  "execute cfg sync2 timestamp e w tx_available rx_space =
     (let op = word_op w; a = word_a w; b = word_b w; c = word_c w;
          imm24 = word_imm24 w; imm16 = word_imm16 w; next_pc = e_pc e + 1;
          done = (\<lambda>e'. retire e' next_pc False False 0)
      in if op = 0 then done e
         else if op = 1 then done (e\<lparr>e_running := False, e_direction := 0\<rparr>)
         else if op = 2 then done (e\<lparr>e_values := imm24\<rparr>)
         else if op = 3 then done (e\<lparr>e_direction := imm24\<rparr>)
         else if op = 4 then done (e\<lparr>e_wait := imm24\<rparr>)
         else if op = 5 then retire e imm24 False False 0
         else if op = 6 then exec_pull e tx_available
         else if op = 7 then exec_push e a rx_space
         else if op = 8 then done (shift_out cfg e a (c \<noteq> 0))
         else if op = 9 then done (shift_in cfg sync2 e a (c \<noteq> 0))
         else if op = 10 then done (e\<lparr>e_repeat := imm16\<rparr>)
         else if op = 11 then
           (if e_repeat e \<noteq> 0
            then retire (e\<lparr>e_repeat := e_repeat e - 1\<rparr>) imm24 False False 0 else done e)
         else if op = 12 then done (e\<lparr>e_limit := imm24\<rparr>)
         else if op = 13 \<or> op = 15 then exec_wait sync2 e op a b
         else if op = 14 then retire e next_pc False False imm24
         else if op = 16 then
           done (e\<lparr>e_pins := (imm24 AND 7, shr imm24 3 AND 7, shr imm24 6 AND 7)\<rparr>)
         else if op = 17 then exec_xfer cfg e a b c
         else if op = 26 then
           (if reg e a = 0 then retire e imm16 False False 0 else done e)
         else if op \<in> {18, 19, 20, 21, 22, 23, 24, 25, 27, 28}
         then done (exec_alu cfg timestamp e op a b c imm16)
         else quiet (fail e imm24))"

definition step :: "config \<Rightarrow> int \<Rightarrow> int \<Rightarrow> engine \<Rightarrow> bool \<Rightarrow> bool \<Rightarrow> step_result" where
  "step cfg sync2 timestamp e0 tx_available rx_space =
     (let e = e0\<lparr>e_stalled := False\<rparr> in
      if \<not> e_running e then quiet e
      else if e_wait e \<noteq> 0 then quiet (e\<lparr>e_wait := e_wait e - 1\<rparr>)
      else case e_transfer e of
             Some t \<Rightarrow> quiet (step_transfer cfg sync2 e t)
           | None \<Rightarrow>
               if \<not> (0 \<le> e_pc e \<and> e_pc e < int (length (e_program e))) \<or> \<not> e_committed e
               then quiet (fail e PC_RANGE)
               else (let w = e_program e ! nat (e_pc e) in
                     case operand_check cfg w of
                       Some code \<Rightarrow> quiet (fail e code)
                     | None \<Rightarrow>
                         if ownership_check (e_ownership e) w
                         then quiet (fail e PIN_OWNERSHIP)
                         else execute cfg sync2 timestamp e w tx_available rx_space))"

text \<open>\<open>_stalled\<close>: whether the engine will wait at its current instruction.\<close>

definition stalled_now :: "config \<Rightarrow> int \<Rightarrow> engine \<Rightarrow> bool" where
  "stalled_now cfg sync2 e =
     (if \<not> e_running e \<or> e_fault e \<noteq> 0 \<or> e_wait e \<noteq> 0 \<or> e_transfer e \<noteq> None
         \<or> \<not> (0 \<le> e_pc e \<and> e_pc e < int (length (e_program e))) then False
      else (let w = e_program e ! nat (e_pc e);
                op = shr w 24; a = shr w 16 AND 7; b = shr w 8 AND 1
            in (op = 6 \<and> e_tx e = [])
               \<or> (op = 7 \<and> w AND 0xFFFFFF = 0 \<and> int (length (e_rx e)) = cfg_fifo_words cfg)
               \<or> (op = 13 \<and> bit_at sync2 a \<noteq> b)
               \<or> (op = 15 \<and> \<not> e_event e)))"

end
