(* ===== verification/Chip.thy ===== *)
theory Chip
  imports Engine
begin

text \<open>
  The whole chip of the reference model (\<open>class Reference\<close> of
  \<open>test/model/reference.py\<close>): the engines, the nibble-wide host port with its four
  windows, the host commands, the queue mover and the triggers. \<open>outputs\<close> reads the
  combinational outputs before an edge, \<open>tick\<close> applies one edge. The phases of \<open>tick\<close>
  are definitions of their own, composed in the order of the code. \<open>None\<close> as the result
  of a tick is an exception (\<open>IndexError\<close> of \<open>popleft\<close> or of \<open>e.tx[0]\<close>).
\<close>

section \<open>State\<close>

record outputs =
  o_uo :: int
  o_uio_out :: int
  o_uio_oe :: int

record chip =
  r_engines :: "engine list"
  r_timestamp :: int
  r_sync1 :: int
  r_sync2 :: int
  r_previous_pins :: int
  r_selected :: int
  r_read_select :: int
  r_host_fault :: bool
  r_routes :: "(int \<times> int) option list"
  r_round_robin :: int
  r_window :: int
  r_write_index :: int
  r_write_word :: int
  r_read_index :: int
  r_read_word :: "int option"
  r_read_engine :: "int option"
  r_starts :: "int set"
  r_stops :: "int set"

definition reset :: "config \<Rightarrow> chip" where
  "reset cfg = \<lparr>r_engines = replicate (nat (cfg_engines cfg)) new_engine,
     r_timestamp = 0, r_sync1 = 0, r_sync2 = 0, r_previous_pins = 0,
     r_selected = 0, r_read_select = 0, r_host_fault = False,
     r_routes = replicate (nat (cfg_engines cfg)) None, r_round_robin = 0, r_window = 0,
     r_write_index = 0, r_write_word = 0, r_read_index = 0, r_read_word = None,
     r_read_engine = None, r_starts = {}, r_stops = {}\<rparr>"

definition eng :: "chip \<Rightarrow> int \<Rightarrow> engine" where
  "eng r i = r_engines r ! nat i"

definition upd_eng :: "chip \<Rightarrow> int \<Rightarrow> (engine \<Rightarrow> engine) \<Rightarrow> chip" where
  "upd_eng r i f = r\<lparr>r_engines := (r_engines r)[nat i := f (eng r i)]\<rparr>"

definition sel_engine :: "chip \<Rightarrow> engine" where
  "sel_engine r = eng r (r_selected r)"

section \<open>Reading\<close>

definition status :: "chip \<Rightarrow> int" where
  "status r =
     (let e = sel_engine r; s = r_read_select r in
      if s = 0 then of_bool (e_running e) OR shl (of_bool (e_committed e)) 1
                    OR shl (of_bool (e_stalled e)) 2 OR shl (of_bool (e_fault e \<noteq> 0)) 3
                    OR shl (e_fault e) 8
      else if s = 1 then r_timestamp r
      else if s = 2 then int (length (e_tx e)) OR shl (int (length (e_rx e))) 16
      else if s = 3 then e_pc e
      else if s = 4 then of_bool (e_event e)
      else if s = 5 then e_completed e
      else if s = 6 then reg e 1
      else 2)"

definition read_port :: "chip \<Rightarrow> int \<Rightarrow> bool \<times> int \<times> int" where
  "read_port r window =
     (let current = (window = r_window r); index = (if current then r_read_index r else 0) in
      case r_read_word r of
        Some w \<Rightarrow>
          if current then (True, w, index)
          else if window = 0 then (True, status r, 0)
          else if window = 3 \<and> e_rx (sel_engine r) \<noteq> [] then (True, hd (e_rx (sel_engine r)), 0)
          else (False, 0, 0)
      | None \<Rightarrow>
          if window = 0 then (True, status r, 0)
          else if window = 3 \<and> e_rx (sel_engine r) \<noteq> [] then (True, hd (e_rx (sel_engine r)), 0)
          else (False, 0, 0))"

text \<open>The drivers of the eight pads: the engines that run without a fault.\<close>

definition drives :: "engine \<Rightarrow> bool" where
  "drives e \<longleftrightarrow> e_running e \<and> e_fault e = 0"

definition pad_values :: "engine \<Rightarrow> int" where
  "pad_values e = (if drives e then (e_values e AND e_ownership e) AND NOT (e_open_drain e) else 0)"

definition pad_enables :: "engine \<Rightarrow> int" where
  "pad_enables e =
     (if drives e
      then (e_direction e AND e_ownership e) AND NOT (e_open_drain e AND e_values e) else 0)"

definition ready :: "config \<Rightarrow> chip \<Rightarrow> int \<Rightarrow> bool" where
  "ready cfg r window =
     (let s = sel_engine r in
      window = r_window r \<and>
      (window = 0
       \<or> (window = 1 \<and> \<not> e_running s \<and> e_writing s
          \<and> int (length (e_program s)) < cfg_program_words cfg)
       \<or> (window = 2 \<and> int (length (e_tx s)) < cfg_fifo_words cfg)))"

definition outputs :: "config \<Rightarrow> chip \<Rightarrow> int \<Rightarrow> bool \<Rightarrow> bool \<Rightarrow> outputs" where
  "outputs cfg r ui rst enabled =
     (if rst \<or> \<not> enabled then \<lparr>o_uo = 0, o_uio_out = 0, o_uio_oe = 0\<rparr>
      else
        (let window = shr ui 6 AND 3; current = (window = r_window r);
             valid = (current \<and> r_read_word r \<noteq> None);
             word = (if valid then the (r_read_word r) else 0);
             read_index = (if current then r_read_index r else 0);
             irq = (\<exists>e \<in> set (r_engines r). e_event e \<or> e_rx e \<noteq> []);
             fault = (r_host_fault r \<or> (\<exists>e \<in> set (r_engines r). e_fault e \<noteq> 0));
             uo = (shr word (read_index * 4) AND 15) OR shl (of_bool (ready cfg r window)) 4
                  OR shl (of_bool valid) 5 OR shl (of_bool irq) 6 OR shl (of_bool fault) 7
         in \<lparr>o_uo = uo,
             o_uio_out = fold (\<lambda>e v. v OR pad_values e) (r_engines r) 0 AND 255,
             o_uio_oe = fold (\<lambda>e v. v OR pad_enables e) (r_engines r) 0 AND 255\<rparr>))"

section \<open>Host commands\<close>

text \<open>
  \<open>command\<close> applies one complete command word. Each command first decides \<open>reject\<close> on
  the state and the payload; a rejected command changes nothing but sets the sticky host
  fault. The result is the new state and whether the command was accepted.
\<close>

definition other_owned :: "chip \<Rightarrow> int" where
  "other_owned r =
     fold (\<lambda>i other. if i \<noteq> r_selected r then other OR e_ownership (eng r i) else other)
       (py_range (int (length (r_engines r)))) 0"

definition chosen_engines :: "config \<Rightarrow> int \<Rightarrow> int list" where
  "chosen_engines cfg m = filter (\<lambda>i. has_bit m i) (py_range (cfg_engines cfg))"

definition for_chosen :: "int list \<Rightarrow> (engine \<Rightarrow> engine) \<Rightarrow> chip \<Rightarrow> chip" where
  "for_chosen is f r = fold (\<lambda>i s. upd_eng s i f) is r"

text \<open>Whether a command is rejected.\<close>

definition command_rejected :: "config \<Rightarrow> chip \<Rightarrow> int \<Rightarrow> int \<Rightarrow> bool" where
  "command_rejected cfg r op payload =
     (let e = sel_engine r;
          emask = shl 1 (cfg_engines cfg) - 1;
          selected_mask = (if op = 7 then payload AND NOT (shl 1 23) else payload);
          chosen = chosen_engines cfg selected_mask
      in if op = 0 then payload \<ge> cfg_engines cfg
         else if op = 1 then payload \<noteq> 0
         else if op = 2 then
           shr payload 16 \<noteq> 0 \<or> e_running e \<or> \<not> e_writing e
           \<or> \<not> (0 < payload \<and> payload \<le> cfg_program_words cfg)
           \<or> payload \<noteq> int (length (e_program e))
         else if op = 3 then
           (let owned = payload AND 255; drain = shr payload 8 AND 255 in
            shr payload 16 \<noteq> 0 \<or> e_running e \<or> owned AND other_owned r \<noteq> 0
            \<or> drain AND NOT owned \<noteq> 0)
         else if op \<in> {4, 5, 7, 9} then
           selected_mask AND NOT emask \<noteq> 0
           \<or> (op = 4 \<and> (\<exists>i \<in> set chosen. \<not> e_committed (eng r i) \<or> e_fault (eng r i) \<noteq> 0))
           \<or> (op = 7 \<and> (\<exists>i \<in> set chosen. e_running (eng r i)))
         else if op = 6 then
           (let source = payload AND 3; dest = shr payload 2 AND 3 in
            shr payload 21 \<noteq> 0 \<or> source \<ge> cfg_engines cfg \<or> dest \<ge> cfg_engines cfg)
         else if op = 8 then payload > 7
         else if op = 10 then payload \<noteq> 0 \<or> e_running e
         else if op = 11 then shr payload 6 \<noteq> 0 \<or> e_running e
         else True)"

text \<open>\<open>FLUSH\<close> (10) also removes every route from or to the flushed engine.\<close>

definition flush_routes :: "chip \<Rightarrow> (int \<times> int) option list" where
  "flush_routes r =
     map (\<lambda>source. case r_routes r ! nat source of
            None \<Rightarrow> None
          | Some (d, n) \<Rightarrow>
              if source = r_selected r \<or> d = r_selected r then None else Some (d, n))
       (py_range (int (length (r_routes r))))"

text \<open>The effect of an accepted command.\<close>

definition command_effect :: "config \<Rightarrow> chip \<Rightarrow> int \<Rightarrow> int \<Rightarrow> chip" where
  "command_effect cfg r op payload =
     (let sel = r_selected r;
          selected_mask = (if op = 7 then payload AND NOT (shl 1 23) else payload);
          chosen = chosen_engines cfg selected_mask
      in if op = 0 then r\<lparr>r_selected := payload\<rparr>
         else if op = 1 then
           (upd_eng r sel (\<lambda>e. e\<lparr>e_running := False, e_committed := False, e_direction := 0,
                                 e_program := [], e_writing := True\<rparr>))
             \<lparr>r_stops := insert sel (r_stops r)\<rparr>
         else if op = 2 then upd_eng r sel (\<lambda>e. e\<lparr>e_committed := True, e_writing := False\<rparr>)
         else if op = 3 then
           upd_eng r sel (\<lambda>e. e\<lparr>e_ownership := payload AND 255,
                                e_open_drain := shr payload 8 AND 255\<rparr>)
         else if op = 4 then
           (for_chosen chosen start r)\<lparr>r_starts := r_starts r \<union> set chosen\<rparr>
         else if op = 5 then
           (for_chosen chosen (\<lambda>e. e\<lparr>e_running := False, e_direction := 0\<rparr>) r)
             \<lparr>r_stops := r_stops r \<union> set chosen\<rparr>
         else if op = 7 then
           (let r1 = (if has_bit payload 23 then r\<lparr>r_host_fault := False\<rparr> else r) in
            for_chosen chosen (\<lambda>e. e\<lparr>e_fault := 0\<rparr>) r1)
         else if op = 9 then for_chosen chosen (\<lambda>e. e\<lparr>e_event := True\<rparr>) r
         else if op = 6 then
           (let source = payload AND 3; dest = shr payload 2 AND 3;
                enable = (payload AND 16 \<noteq> 0); count = shr payload 5 AND 65535
            in r\<lparr>r_routes := (r_routes r)[nat source :=
                   (if enable \<and> count \<noteq> 0 then Some (dest, count) else None)]\<rparr>)
         else if op = 8 then r\<lparr>r_read_select := payload\<rparr>
         else if op = 10 then
           (upd_eng r sel (\<lambda>e. e\<lparr>e_tx := [], e_rx := []\<rparr>))\<lparr>r_routes := flush_routes r\<rparr>
         else
           upd_eng r sel (\<lambda>e. e\<lparr>e_trigger :=
             (if payload AND 32 \<noteq> 0 then Some (payload AND 7, shr payload 3 AND 3)
              else None)\<rparr>))"

definition command :: "config \<Rightarrow> chip \<Rightarrow> int \<Rightarrow> chip \<times> bool" where
  "command cfg r word =
     (let op = shr word 24; payload = word AND 0xFFFFFF in
      if command_rejected cfg r op payload then (r\<lparr>r_host_fault := True\<rparr>, False)
      else (command_effect cfg r op payload, True))"

definition program_word :: "config \<Rightarrow> chip \<Rightarrow> int \<Rightarrow> chip \<times> bool" where
  "program_word cfg r word =
     (let e = sel_engine r in
      if e_running e \<or> \<not> e_writing e \<or> int (length (e_program e)) = cfg_program_words cfg
      then (r\<lparr>r_host_fault := True\<rparr>, False)
      else (upd_eng r (r_selected r)
              (\<lambda>e. e\<lparr>e_program := e_program e @ [word AND 0xFFFFFFFF]\<rparr>), True))"

section \<open>One clock edge\<close>

text \<open>A change of the window drops the partial transfers of the old one.\<close>

definition window_change :: "chip \<Rightarrow> int \<Rightarrow> chip" where
  "window_change r window =
     (if window \<noteq> r_window r
      then r\<lparr>r_window := window, r_write_index := 0, r_write_word := 0, r_read_index := 0,
             r_read_word := None, r_read_engine := None\<rparr>
      else r)"

text \<open>Triggers: an edge or a level on the synchronised pins sets an event bit.\<close>

definition trigger_detected :: "chip \<Rightarrow> engine \<Rightarrow> bool" where
  "trigger_detected r e =
     (case e_trigger e of None \<Rightarrow> False
      | Some (pin, mode) \<Rightarrow>
          (let current = has_bit (r_sync2 r) pin; previous = has_bit (r_previous_pins r) pin in
           [current \<and> \<not> previous, previous \<and> \<not> current, current, \<not> current] ! nat mode))"

definition trigger_events :: "chip \<Rightarrow> int" where
  "trigger_events r =
     fold (\<lambda>i ev. ev OR shl (of_bool (trigger_detected r (eng r i))) i)
       (py_range (int (length (r_engines r)))) 0"

text \<open>A read word is presented from the second cycle in its window on.\<close>

definition present_read :: "chip \<Rightarrow> int \<Rightarrow> bool \<Rightarrow> chip" where
  "present_read r window changed =
     (let (valid, word, _) = read_port r window in
      if valid \<and> r_read_word r = None \<and> \<not> changed
      then r\<lparr>r_read_word := Some word,
             r_read_engine := (if window = 3 then Some (r_selected r) else None)\<rparr>
      else r)"

text \<open>An accepted read nibble; the eighth one releases the word and, in the RX window,
  names the engine whose queue is popped.\<close>

definition accept_read :: "chip \<Rightarrow> int \<Rightarrow> int \<Rightarrow> chip \<times> int option" where
  "accept_read r ui pre_uo =
     (if ui AND 32 \<noteq> 0 \<and> pre_uo AND 32 \<noteq> 0 then
        (if r_read_index r = 7
         then (r\<lparr>r_read_index := 0, r_read_word := None, r_read_engine := None\<rparr>,
               r_read_engine r)
         else (r\<lparr>r_read_index := r_read_index r + 1\<rparr>, None))
      else (r, None))"

text \<open>What an accepted write nibble asks of the rest of the edge.\<close>

record write_effect =
  w_event :: int
  w_tx :: "(int \<times> int) option"
  w_edited_route :: "int option"
  w_external :: int

text \<open>The eighth nibble completes a word, which the window's component takes.\<close>

definition complete_word ::
  "config \<Rightarrow> chip \<Rightarrow> int \<Rightarrow> int \<Rightarrow> int \<Rightarrow> chip \<times> write_effect" where
  "complete_word cfg r window word external =
     (let none = \<lparr>w_event = 0, w_tx = None, w_edited_route = None, w_external = external\<rparr> in
      if window = 0 then
        (let (r', accepted) = command cfg r word in
         if \<not> accepted then (r', none)
         else (r', none\<lparr>
                w_event := (if shr word 24 = 9 then word AND 0xFFFFFF else 0),
                w_edited_route := (if shr word 24 = 6 then Some (word AND 3) else None),
                w_external := (if shr word 24 = 11
                               then external AND NOT (shl 1 (r_selected r')) else external)\<rparr>))
      else if window = 1 then (fst (program_word cfg r word), none)
      else if window = 2 then (r, none\<lparr>w_tx := Some (r_selected r, word AND cfg_mask cfg)\<rparr>)
      else (r, none))"

definition accept_write ::
  "config \<Rightarrow> chip \<Rightarrow> int \<Rightarrow> int \<Rightarrow> int \<Rightarrow> int \<Rightarrow> chip \<times> write_effect" where
  "accept_write cfg r window ui pre_uo external =
     (if ui AND 16 \<noteq> 0 \<and> pre_uo AND 16 \<noteq> 0 then
        (let word = r_write_word r OR shl (ui AND 15) (4 * r_write_index r) in
         if r_write_index r = 7
         then complete_word cfg (r\<lparr>r_write_index := 0, r_write_word := 0\<rparr>) window word external
         else (r\<lparr>r_write_word := word, r_write_index := r_write_index r + 1\<rparr>,
               \<lparr>w_event = 0, w_tx = None, w_edited_route = None, w_external = external\<rparr>))
      else (r, \<lparr>w_event = 0, w_tx = None, w_edited_route = None, w_external = external\<rparr>))"

text \<open>The autonomous mover: the first source after the round-robin pointer whose route
  can move a word. Queue levels are those before the edge; the RX head that the host
  is reading is not taken, nor a destination that the host writes on this edge.\<close>

definition dma_ready ::
  "config \<Rightarrow> chip \<Rightarrow> int list \<Rightarrow> int list \<Rightarrow> int option \<Rightarrow> write_effect \<Rightarrow> int \<Rightarrow> bool" where
  "dma_ready cfg r tx_counts rx_counts reserved w source =
     (case r_routes r ! nat source of
        None \<Rightarrow> False
      | Some (dest, count) \<Rightarrow>
          w_edited_route w \<noteq> Some source
          \<and> rx_counts ! nat source \<noteq> 0 \<and> reserved \<noteq> Some source
          \<and> tx_counts ! nat dest < cfg_fifo_words cfg
          \<and> (case w_tx w of None \<Rightarrow> True | Some (d, _) \<Rightarrow> d \<noteq> dest))"

definition dma_order :: "config \<Rightarrow> chip \<Rightarrow> int list" where
  "dma_order cfg r =
     map (\<lambda>offset. (r_round_robin r + offset) mod cfg_engines cfg) (py_range (cfg_engines cfg))"

definition dma_move ::
  "config \<Rightarrow> chip \<Rightarrow> int list \<Rightarrow> int list \<Rightarrow> int list \<Rightarrow> int option \<Rightarrow> write_effect
   \<Rightarrow> chip \<times> (int \<times> int \<times> int) option" where
  "dma_move cfg r tx_counts rx_counts rx_heads reserved w =
     (case find (dma_ready cfg r tx_counts rx_counts reserved w) (dma_order cfg r) of
        None \<Rightarrow> (r, None)
      | Some source \<Rightarrow>
          (case r_routes r ! nat source of
             None \<Rightarrow> (r, None)
           | Some (dest, count) \<Rightarrow>
               (r\<lparr>r_routes := (r_routes r)[nat source :=
                    (if count > 1 then Some (dest, count - 1) else None)],
                  r_round_robin := (source + 1) mod cfg_engines cfg\<rparr>,
                Some (source, dest, rx_heads ! nat source))))"

text \<open>One step of every engine; an engine that was started or stopped on this edge
  does not step. Every engine first gets back the event it had before the edge.\<close>

type_synonym change = "bool \<times> bool \<times> int"

definition step_engine ::
  "config \<Rightarrow> chip \<Rightarrow> bool list \<Rightarrow> int list \<Rightarrow> int list \<Rightarrow> int \<Rightarrow> (engine \<times> change) option" where
  "step_engine cfg r event_before tx_counts rx_counts i =
     (let e = (eng r i)\<lparr>e_event := event_before ! nat i\<rparr> in
      if i \<in> r_starts r \<or> i \<in> r_stops r then Some (e, (False, False, 0))
      else step cfg (r_sync2 r) (r_timestamp r) e (tx_counts ! nat i \<noteq> 0)
             (rx_counts ! nat i < cfg_fifo_words cfg))"

definition step_engines ::
  "config \<Rightarrow> chip \<Rightarrow> bool list \<Rightarrow> int list \<Rightarrow> int list \<Rightarrow> (engine \<times> change) list option" where
  "step_engines cfg r event_before tx_counts rx_counts =
     those (map (step_engine cfg r event_before tx_counts rx_counts)
       (py_range (int (length (r_engines r)))))"

text \<open>The queue changes of one engine: \<open>popleft\<close> of an empty queue raises.\<close>

definition pop_tx :: "engine \<Rightarrow> engine option" where
  "pop_tx e = (case e_tx e of [] \<Rightarrow> None | _ # q \<Rightarrow> Some (e\<lparr>e_tx := q\<rparr>))"

definition pop_rx :: "engine \<Rightarrow> engine option" where
  "pop_rx e = (case e_rx e of [] \<Rightarrow> None | _ # q \<Rightarrow> Some (e\<lparr>e_rx := q\<rparr>))"

definition apply_change :: "engine \<Rightarrow> change \<Rightarrow> bool \<Rightarrow> bool \<Rightarrow> engine option" where
  "apply_change e ch take_rx signalled =
     (case ch of (pop, push, _) \<Rightarrow>
        Option.bind (if pop then pop_tx e else Some e) (\<lambda>e1.
        Option.bind (if take_rx then pop_rx e1 else Some e1) (\<lambda>e2.
          let e3 = (if push then e2\<lparr>e_rx := e_rx e2 @ [reg e2 1]\<rparr> else e2)
          in Some (if signalled then e3\<lparr>e_event := True\<rparr> else e3))))"

definition apply_changes ::
  "(engine \<times> change) list \<Rightarrow> int option \<Rightarrow> (int \<times> int \<times> int) option \<Rightarrow> int
   \<Rightarrow> engine list option" where
  "apply_changes steps host_rx dma signals =
     those (map (\<lambda>i. case steps ! nat i of (e, ch) \<Rightarrow>
              apply_change e ch (host_rx = Some i \<or> (\<exists>d. dma = Some (i, d))) (has_bit signals i))
            (py_range (int (length steps))))"

lemma apply_changes_code [code]:
  "apply_changes steps host_rx dma signals =
     those (map (\<lambda>i. case steps ! nat i of (e, ch) \<Rightarrow>
              apply_change e ch (host_rx = Some i \<or> map_option fst dma = Some i) (has_bit signals i))
            (py_range (int (length steps))))"
proof -
  have "(\<exists>d. dma = Some (i, d)) \<longleftrightarrow> map_option fst dma = Some i" for i by auto
  then show ?thesis by (simp add: apply_changes_def)
qed

definition append_tx :: "engine list \<Rightarrow> int \<Rightarrow> int \<Rightarrow> engine list" where
  "append_tx es i word =
     es[nat i := (es ! nat i)\<lparr>e_tx := e_tx (es ! nat i) @ [word]\<rparr>]"

text \<open>The end of the edge: host and mover words are enqueued, the pins move through the
  synchroniser, the timestamp advances and \<open>stalled\<close> is recomputed.\<close>

definition finish_edge ::
  "config \<Rightarrow> chip \<Rightarrow> engine list \<Rightarrow> (int \<times> int) option \<Rightarrow> (int \<times> int \<times> int) option \<Rightarrow> int
   \<Rightarrow> chip" where
  "finish_edge cfg r es host_tx dma pins =
     (let es1 = (case host_tx of None \<Rightarrow> es | Some (i, w) \<Rightarrow> append_tx es i w);
          es2 = (case dma of None \<Rightarrow> es1 | Some (_, dest, w) \<Rightarrow> append_tx es1 dest w)
      in r\<lparr>r_engines := map (\<lambda>e. e\<lparr>e_stalled := stalled_now cfg (r_sync1 r) e\<rparr>) es2,
           r_starts := {}, r_stops := {},
           r_previous_pins := r_sync2 r, r_sync2 := r_sync1 r, r_sync1 := pins AND 255,
           r_timestamp := (r_timestamp r + 1) AND 0xFFFFFFFF\<rparr>)"

text \<open>The host's part of the edge, up to the mover.\<close>

definition host_phase ::
  "config \<Rightarrow> chip \<Rightarrow> int \<Rightarrow> chip \<times> int option \<times> write_effect" where
  "host_phase cfg r ui =
     (let window = shr ui 6 AND 3; changed = (window \<noteq> r_window r);
          pre_uo = o_uo (outputs cfg r ui False True);
          r1 = window_change r window;
          external = trigger_events r1;
          r2 = present_read r1 window changed;
          (r3, host_rx) = accept_read r2 ui pre_uo;
          (r4, w) = accept_write cfg r3 window ui pre_uo external
      in (r4, host_rx, w))"

text \<open>The engines' part of the edge. \<open>r0\<close> is the chip before the edge, for the queue
  levels, the RX heads and the events.\<close>

definition engine_phase ::
  "config \<Rightarrow> chip \<Rightarrow> chip \<Rightarrow> int option \<Rightarrow> write_effect \<Rightarrow> int option \<Rightarrow> int \<Rightarrow> chip option" where
  "engine_phase cfg r0 r host_rx w reserved pins =
     (let es = r_engines r0;
          tx_counts = map (\<lambda>e. int (length (e_tx e))) es;
          rx_counts = map (\<lambda>e. int (length (e_rx e))) es;
          rx_heads = map (\<lambda>e. if e_rx e \<noteq> [] then hd (e_rx e) else 0) es;
          event_before = map e_event es;
          (r1, dma) = dma_move cfg r tx_counts rx_counts rx_heads reserved w
      in Option.bind (step_engines cfg r1 event_before tx_counts rx_counts) (\<lambda>steps.
         let signals = fold (\<lambda>s m. m OR snd (snd (snd s))) steps (w_event w OR w_external w) in
         Option.bind (apply_changes steps host_rx dma signals) (\<lambda>es'.
           Some (finish_edge cfg r1 es' (w_tx w) dma pins))))"

definition tick ::
  "config \<Rightarrow> chip \<Rightarrow> int \<Rightarrow> int \<Rightarrow> bool \<Rightarrow> bool \<Rightarrow> (chip \<times> outputs) option" where
  "tick cfg r ui pins rst enabled =
     (if rst \<or> \<not> enabled then Some (reset cfg, outputs cfg (reset cfg) ui rst enabled)
      else
        (let window = shr ui 6 AND 3;
             reserved = (if window = 3 \<and> window = r_window r then Some (r_selected r) else None);
             (r1, host_rx, w) = host_phase cfg r ui
         in Option.bind (engine_phase cfg r r1 host_rx w reserved pins)
              (\<lambda>r'. Some (r', outputs cfg r' ui False True))))"

end
