(* ===== verification/Engine_Inv.thy ===== *)
theory Engine_Inv
  imports Engine
begin

text \<open>
  The type invariant of one engine of the reference model and its preservation by every
  operation of \<open>Engine\<close>: program, register and queue words in range, masks of eight
  bits with the open-drain pins among the owned ones, counters non-negative, a fused
  transfer with counters in range, and a running engine committed and without a fault.
\<close>

section \<open>The invariant\<close>

definition wf_transfer :: "config \<Rightarrow> transfer \<Rightarrow> bool" where
  "wf_transfer cfg t \<longleftrightarrow>
     1 \<le> t_bits t \<and> t_bits t \<le> cfg_width cfg \<and> 1 \<le> t_half_period t \<and> t_half_period t \<le> 255
     \<and> 0 \<le> t_flags t \<and> t_flags t \<le> 31 \<and> 1 \<le> t_remaining t
     \<and> t_remaining t \<le> t_half_period t \<and> 0 \<le> t_transitions t
     \<and> t_transitions t < 2 * t_bits t"

definition word_in :: "config \<Rightarrow> int \<Rightarrow> bool" where
  "word_in cfg x \<longleftrightarrow> 0 \<le> x \<and> x < 2 ^ nat (cfg_width cfg)"

definition byte :: "int \<Rightarrow> bool" where
  "byte x \<longleftrightarrow> 0 \<le> x \<and> x < 256"

definition pin_no :: "int \<Rightarrow> bool" where
  "pin_no p \<longleftrightarrow> 0 \<le> p \<and> p \<le> 7"

definition wf_program :: "config \<Rightarrow> int list \<Rightarrow> bool" where
  "wf_program cfg p \<longleftrightarrow>
     int (length p) \<le> cfg_program_words cfg \<and> list_all (\<lambda>w. 0 \<le> w \<and> w < 2 ^ 32) p"

definition wf_regs :: "config \<Rightarrow> int list \<Rightarrow> bool" where
  "wf_regs cfg rs \<longleftrightarrow> length rs = 4 \<and> list_all (word_in cfg) rs"

definition wf_queue :: "config \<Rightarrow> int list \<Rightarrow> bool" where
  "wf_queue cfg q \<longleftrightarrow> int (length q) \<le> cfg_fifo_words cfg \<and> list_all (word_in cfg) q"

definition wf_counters :: "engine \<Rightarrow> bool" where
  "wf_counters e \<longleftrightarrow>
     0 \<le> e_repeat e \<and> e_repeat e < 65536 \<and> 0 \<le> e_wait e \<and> e_wait e < 2 ^ 24
     \<and> 0 < e_limit e \<and> e_limit e < 2 ^ 24 \<and> 0 \<le> e_blocked e
     \<and> 0 \<le> e_pc e \<and> e_pc e < 2 ^ 24 \<and> 0 \<le> e_completed e \<and> e_completed e < 2 ^ 32
     \<and> byte (e_fault e)"

definition wf_masks :: "engine \<Rightarrow> bool" where
  "wf_masks e \<longleftrightarrow>
     byte (e_ownership e) \<and> byte (e_open_drain e) \<and> e_open_drain e AND NOT (e_ownership e) = 0
     \<and> byte (e_values e) \<and> byte (e_direction e)
     \<and> pin_no (fst (e_pins e)) \<and> pin_no (fst (snd (e_pins e))) \<and> pin_no (snd (snd (e_pins e)))
     \<and> pred_option (\<lambda>tr. pin_no (fst tr) \<and> 0 \<le> snd tr \<and> snd tr \<le> 3) (e_trigger e)"

definition wf_run :: "config \<Rightarrow> engine \<Rightarrow> bool" where
  "wf_run cfg e \<longleftrightarrow>
     pred_option (wf_transfer cfg) (e_transfer e)
     \<and> (e_transfer e \<noteq> None \<longrightarrow> e_pc e < cfg_program_words cfg)
     \<and> (e_committed e \<longrightarrow> \<not> e_writing e)
     \<and> (e_running e \<longrightarrow> e_committed e \<and> e_fault e = 0)"

definition wf_engine :: "config \<Rightarrow> engine \<Rightarrow> bool" where
  "wf_engine cfg e \<longleftrightarrow>
     wf_program cfg (e_program e) \<and> wf_regs cfg (e_regs e) \<and> wf_queue cfg (e_tx e)
     \<and> wf_queue cfg (e_rx e) \<and> wf_counters e \<and> wf_masks e \<and> wf_run cfg e"

lemmas wf_parts = wf_counters_def wf_masks_def wf_run_def byte_def pin_no_def

section \<open>Ranges of the fields of an instruction word\<close>

lemma config_okD:
  assumes "config_ok cfg"
  shows "cfg_engines cfg \<in> {2, 4}" "cfg_width cfg \<in> {16, 32}"
    "cfg_program_words cfg \<in> {32, 64, 128}" "cfg_fifo_words cfg \<in> {8, 32}"
  using assms by (auto simp: config_ok_def)

lemma config_ok_ranges:
  assumes "config_ok cfg"
  shows "1 \<le> cfg_width cfg" "cfg_width cfg \<le> 32" "cfg_program_words cfg \<le> 128"
    "0 < cfg_engines cfg" "cfg_engines cfg \<le> 4" "0 < cfg_fifo_words cfg" "cfg_fifo_words cfg \<le> 32"
    "0 < cfg_program_words cfg"
  using config_okD [OF assms] by auto

lemma word_field_ranges:
  "0 \<le> word_a w" "word_a w < 256" "0 \<le> word_b w" "word_b w < 256"
  "0 \<le> word_c w" "word_c w < 256" "0 \<le> word_imm24 w" "word_imm24 w < 2 ^ 24"
  "0 \<le> word_imm16 w" "word_imm16 w < 65536"
  using take_bit_int_less_exp [of 8 "shr w 16"] take_bit_int_less_exp [of 8 "shr w 8"]
    take_bit_int_less_exp [of 8 w] take_bit_int_less_exp [of 24 w] take_bit_int_less_exp [of 16 w]
  by (simp_all add: word_fields and_takes)

lemma shr_zero_bound:
  fixes x :: int
  assumes "drop_bit n x = 0" "0 \<le> x"
  shows "x < 2 ^ n"
proof -
  have "x div 2 ^ n = 0" using assms(1) by (simp add: drop_bit_eq_div)
  then show ?thesis using assms(2) by (auto simp: zdiv_eq_0_iff)
qed

lemma cfg_mask_eq: "cfg_mask cfg = mask (nat (cfg_width cfg))"
  by (simp add: cfg_mask_def mask_eq_exp_minus_1)

lemma and_cfg_mask: "x AND cfg_mask cfg = take_bit (nat (cfg_width cfg)) x"
  by (simp add: cfg_mask_eq take_bit_eq_mask)

lemma word_in_mask [simp]: "word_in cfg (x AND cfg_mask cfg)"
  by (simp add: word_in_def and_cfg_mask)

lemma word_in_bitwise:
  assumes "word_in cfg x" "word_in cfg y"
  shows "word_in cfg (x AND y)" "word_in cfg (x OR y)" "word_in cfg (x XOR y)"
  using assms and_range [of y "2 ^ nat (cfg_width cfg)" x]
    or_lt_pow [of x "nat (cfg_width cfg)" y] xor_lt_pow [of x "nat (cfg_width cfg)" y]
  by (auto simp: word_in_def)

lemma word_in_cfg_mask [simp]: "word_in cfg (cfg_mask cfg)"
  by (simp add: word_in_def cfg_mask_def mask_eq_exp_minus_1)

lemma drop_bit_le_self: "0 \<le> (x::int) \<Longrightarrow> drop_bit n x \<le> x"
  using zdiv_mono2 [of x 1 "2 ^ n"] by (simp add: drop_bit_eq_div)

lemma word_in_shr [simp]: "word_in cfg x \<Longrightarrow> word_in cfg (shr x n)"
  using drop_bit_le_self [of x "nat n"] by (auto simp: word_in_def)

lemma word_in_imm16: "config_ok cfg \<Longrightarrow> word_in cfg (word_imm16 w)"
proof -
  assume "config_ok cfg"
  then have "(2::int) ^ 16 \<le> 2 ^ nat (cfg_width cfg)"
    using config_okD(2) [of cfg] by (intro power_increasing) auto
  then show ?thesis
    using word_field_ranges(9,10) [of w] by (simp add: word_in_def)
qed

section \<open>Single operations\<close>

lemma reg_in: "wf_regs cfg (e_regs e) \<Longrightarrow> 0 \<le> i \<Longrightarrow> i \<le> 3 \<Longrightarrow> word_in cfg (reg e i)"
  by (auto simp: wf_regs_def reg_def list_all_length)

lemma wf_regs_update: "wf_regs cfg rs \<Longrightarrow> word_in cfg v \<Longrightarrow> wf_regs cfg (rs[i := v])"
  by (simp add: wf_regs_def list_all_update)

lemma wf_set_reg [wf_intros]: "wf_engine cfg e \<Longrightarrow> word_in cfg v \<Longrightarrow> wf_engine cfg (set_reg e i v)"
  by (auto simp: wf_engine_def set_reg_def wf_regs_update wf_parts split: option.splits)

lemma byte_or: "byte x \<Longrightarrow> byte y \<Longrightarrow> byte (x OR y)"
  using or_lt_pow [of x 8 y] by (simp add: byte_def)

lemma byte_and: "byte x \<Longrightarrow> byte (x AND y)" "byte y \<Longrightarrow> byte (x AND y)"
  using and_range [of y 256 x] and_range [of x 256 y] by (simp_all add: byte_def and.commute)

lemma byte_bit: "pin_no p \<Longrightarrow> byte (shl (v AND 1) p)"
proof -
  assume p: "pin_no p"
  have "v AND 1 \<le> 1" "0 \<le> v AND 1" by (simp_all add: and_one_eq)
  moreover have "(2::int) ^ nat p \<le> 2 ^ 7"
    using p by (intro power_increasing) (auto simp: pin_no_def)
  ultimately show ?thesis
    using mult_mono [of "v AND 1" 1 "2 ^ nat p" "2 ^ 7"]
    by (simp add: byte_def push_bit_eq_mult)
qed

lemma wf_drive [wf_intros]: "wf_engine cfg e \<Longrightarrow> pin_no p \<Longrightarrow> wf_engine cfg (drive e p v)"
proof -
  assume e: "wf_engine cfg e" and p: "pin_no p"
  have "byte ((e_values e AND NOT (shl 1 p)) OR shl (v AND 1) p)"
    by (rule byte_or [OF byte_and(1) byte_bit [OF p]])
      (use e in \<open>simp add: wf_engine_def wf_masks_def\<close>)
  with e show ?thesis
    by (auto simp: wf_engine_def drive_def wf_counters_def wf_masks_def wf_run_def
      simp del: push_bit_and split: option.splits)
qed

lemma drive_simps [simp]:
  "e_pins (drive e p v) = e_pins e" "e_regs (drive e p v) = e_regs e"
  "e_pc (drive e p v) = e_pc e" "reg (drive e p v) i = reg e i"
  "e_running (drive e p v) = e_running e" "e_fault (drive e p v) = e_fault e"
  "e_committed (drive e p v) = e_committed e" "e_writing (drive e p v) = e_writing e"
  "e_ownership (drive e p v) = e_ownership e" "e_transfer (drive e p v) = e_transfer e"
  "e_program (drive e p v) = e_program e" "e_wait (drive e p v) = e_wait e"
  "e_tx (drive e p v) = e_tx e" "e_rx (drive e p v) = e_rx e"
  "e_open_drain (drive e p v) = e_open_drain e" "e_event (drive e p v) = e_event e"
  "e_trigger (drive e p v) = e_trigger e" "e_completed (drive e p v) = e_completed e"
  "e_stalled (drive e p v) = e_stalled e" "e_direction (drive e p v) = e_direction e"
  "e_repeat (drive e p v) = e_repeat e" "e_limit (drive e p v) = e_limit e"
  "e_blocked (drive e p v) = e_blocked e"
  by (simp_all add: drive_def reg_def)

lemma set_reg_simps [simp]:
  "e_pins (set_reg e i v) = e_pins e" "e_pc (set_reg e i v) = e_pc e"
  "e_running (set_reg e i v) = e_running e" "e_fault (set_reg e i v) = e_fault e"
  "e_committed (set_reg e i v) = e_committed e" "e_writing (set_reg e i v) = e_writing e"
  "e_ownership (set_reg e i v) = e_ownership e" "e_transfer (set_reg e i v) = e_transfer e"
  "e_program (set_reg e i v) = e_program e" "e_wait (set_reg e i v) = e_wait e"
  "e_tx (set_reg e i v) = e_tx e" "e_rx (set_reg e i v) = e_rx e"
  "e_open_drain (set_reg e i v) = e_open_drain e" "e_event (set_reg e i v) = e_event e"
  "e_trigger (set_reg e i v) = e_trigger e" "e_completed (set_reg e i v) = e_completed e"
  "e_stalled (set_reg e i v) = e_stalled e" "e_direction (set_reg e i v) = e_direction e"
  "e_repeat (set_reg e i v) = e_repeat e" "e_limit (set_reg e i v) = e_limit e"
  "e_blocked (set_reg e i v) = e_blocked e" "e_values (set_reg e i v) = e_values e"
  by (simp_all add: set_reg_def)

lemma shift_out_simps [simp]:
  "e_pins (shift_out c e p m) = e_pins e" "e_pc (shift_out c e p m) = e_pc e"
  "e_running (shift_out c e p m) = e_running e" "e_fault (shift_out c e p m) = e_fault e"
  "e_committed (shift_out c e p m) = e_committed e" "e_writing (shift_out c e p m) = e_writing e"
  "e_ownership (shift_out c e p m) = e_ownership e" "e_transfer (shift_out c e p m) = e_transfer e"
  "e_program (shift_out c e p m) = e_program e" "e_wait (shift_out c e p m) = e_wait e"
  "e_tx (shift_out c e p m) = e_tx e" "e_rx (shift_out c e p m) = e_rx e"
  "e_open_drain (shift_out c e p m) = e_open_drain e" "e_event (shift_out c e p m) = e_event e"
  "e_trigger (shift_out c e p m) = e_trigger e" "e_completed (shift_out c e p m) = e_completed e"
  "e_stalled (shift_out c e p m) = e_stalled e" "e_direction (shift_out c e p m) = e_direction e"
  "e_repeat (shift_out c e p m) = e_repeat e" "e_limit (shift_out c e p m) = e_limit e"
  "e_blocked (shift_out c e p m) = e_blocked e"
  by (simp_all add: shift_out_def Let_def)

lemma shift_in_simps [simp]:
  "e_pins (shift_in c s e p m) = e_pins e" "e_pc (shift_in c s e p m) = e_pc e"
  "e_running (shift_in c s e p m) = e_running e" "e_fault (shift_in c s e p m) = e_fault e"
  "e_committed (shift_in c s e p m) = e_committed e" "e_writing (shift_in c s e p m) = e_writing e"
  "e_ownership (shift_in c s e p m) = e_ownership e" "e_transfer (shift_in c s e p m) = e_transfer e"
  "e_program (shift_in c s e p m) = e_program e" "e_wait (shift_in c s e p m) = e_wait e"
  "e_tx (shift_in c s e p m) = e_tx e" "e_rx (shift_in c s e p m) = e_rx e"
  "e_open_drain (shift_in c s e p m) = e_open_drain e" "e_event (shift_in c s e p m) = e_event e"
  "e_trigger (shift_in c s e p m) = e_trigger e" "e_completed (shift_in c s e p m) = e_completed e"
  "e_stalled (shift_in c s e p m) = e_stalled e" "e_direction (shift_in c s e p m) = e_direction e"
  "e_repeat (shift_in c s e p m) = e_repeat e" "e_limit (shift_in c s e p m) = e_limit e"
  "e_blocked (shift_in c s e p m) = e_blocked e" "e_values (shift_in c s e p m) = e_values e"
  by (simp_all add: shift_in_def Let_def)

lemma wf_shift_out [wf_intros]:
  "wf_engine cfg e \<Longrightarrow> pin_no p \<Longrightarrow> wf_engine cfg (shift_out cfg e p m)"
  by (simp add: shift_out_def Let_def shifted_tx_def wf_set_reg wf_drive)

lemma wf_shift_in [wf_intros]:
  "wf_engine cfg e \<Longrightarrow> wf_engine cfg (shift_in cfg s e p m)"
  by (simp add: shift_in_def Let_def wf_set_reg)

lemma wf_fail [wf_intros]: "wf_engine cfg e \<Longrightarrow> byte code \<Longrightarrow> wf_engine cfg (fail e code)"
  by (auto simp: wf_engine_def fail_def wf_parts split: option.splits)

lemma wf_start: "wf_engine cfg e \<Longrightarrow> e_committed e \<Longrightarrow> \<not> e_writing e \<Longrightarrow> e_fault e = 0
  \<Longrightarrow> wf_engine cfg (start e)"
  by (simp add: wf_engine_def start_def wf_parts wf_regs_def word_in_def)

section \<open>The step\<close>

text \<open>
  What a step returns: a well-formed engine with the queues untouched (they change at
  the end of the edge), a pop only of a non-empty TX queue, the identity of the engine's
  program, pins and queues kept.
\<close>

definition same_config :: "engine \<Rightarrow> engine \<Rightarrow> bool" where
  "same_config e e' \<longleftrightarrow>
     e_program e' = e_program e \<and> e_committed e' = e_committed e \<and> e_writing e' = e_writing e
     \<and> e_tx e' = e_tx e \<and> e_rx e' = e_rx e \<and> e_ownership e' = e_ownership e
     \<and> e_open_drain e' = e_open_drain e \<and> e_trigger e' = e_trigger e
     \<and> (e_event e' \<longrightarrow> e_event e) \<and> (e_running e' \<longrightarrow> e_running e)"

definition good_result :: "config \<Rightarrow> engine \<Rightarrow> bool \<Rightarrow> bool \<Rightarrow> step_result \<Rightarrow> bool" where
  "good_result cfg e tx_available rx_space res \<longleftrightarrow>
     (case res of None \<Rightarrow> tx_available \<and> e_tx e = []
      | Some (e', pop, push, signal) \<Rightarrow>
          wf_engine cfg e' \<and> same_config e e' \<and> (pop \<longrightarrow> tx_available \<and> e_tx e \<noteq> [])
          \<and> (push \<longrightarrow> rx_space) \<and> 0 \<le> signal)"

lemma same_config_refl [simp]: "same_config e e"
  by (simp add: same_config_def)

lemma good_quiet:
  "wf_engine cfg e' \<Longrightarrow> same_config e e' \<Longrightarrow> good_result cfg e ta rs (quiet e')"
  by (simp add: good_result_def quiet_def)

lemma wf_pc:
  assumes "wf_engine cfg e" "e_transfer e = None" "0 \<le> pc" "pc < 2 ^ 24"
  shows "wf_engine cfg (e\<lparr>e_pc := pc, e_completed := n AND 0xFFFFFFFF\<rparr>)"
  using assms take_bit_int_less_exp [of 32 n]
  by (auto simp: wf_engine_def wf_parts and_takes split: prod.splits)

lemma good_retire:
  assumes "wf_engine cfg e'" "same_config e e'" "e_transfer e' = None" "0 \<le> pc" "pc < 2 ^ 24"
    "pop \<longrightarrow> ta \<and> e_tx e \<noteq> []" "push \<longrightarrow> rs" "0 \<le> signal"
  shows "good_result cfg e ta rs (retire e' pc pop push signal)"
  using assms wf_pc [OF assms(1,3,4,5)]
  by (simp add: good_result_def retire_def same_config_def)

text \<open>The register file of an engine after the ALU instructions.\<close>

lemma wf_exec_alu:
  assumes "config_ok cfg" "wf_engine cfg e" "word_a w \<le> 3" "op \<in> {18, 20, 21, 22, 23} \<longrightarrow> word_b w \<le> 3"
  shows "wf_engine cfg (exec_alu cfg ts e op (word_a w) (word_b w) c (word_imm16 w))"
proof -
  have r: "word_in cfg (reg e (word_a w))"
    using assms(2,3) by (simp add: reg_in wf_engine_def word_field_ranges)
  have r2: "op \<in> {18, 20, 21, 22, 23} \<Longrightarrow> word_in cfg (reg e (word_b w))"
    using assms(2,4) by (simp add: reg_in wf_engine_def word_field_ranges)
  show ?thesis
    using r r2 by (simp add: exec_alu_def wf_set_reg [OF assms(2)] word_in_bitwise
      word_in_imm16 [OF assms(1)])
qed

lemma same_config_exec_alu: "same_config e (exec_alu cfg ts e op a b c i)"
  "e_transfer (exec_alu cfg ts e op a b c i) = e_transfer e"
  by (simp_all add: exec_alu_def same_config_def)

text \<open>Fields that the invariant does not constrain, or only as ranges.\<close>

lemma wf_stalled: "wf_engine cfg (e\<lparr>e_stalled := b\<rparr>) \<longleftrightarrow> wf_engine cfg e"
  by (simp add: wf_engine_def wf_counters_def wf_masks_def wf_run_def)

lemma wf_event: "wf_engine cfg (e\<lparr>e_event := b\<rparr>) \<longleftrightarrow> wf_engine cfg e"
  by (simp add: wf_engine_def wf_counters_def wf_masks_def wf_run_def)

lemma good_pull:
  assumes "wf_engine cfg e" "e_transfer e = None" "e_pc e < 128"
  shows "good_result cfg e ta rs (exec_pull e ta)"
proof (cases "ta \<and> e_tx e \<noteq> []")
  case True
  then obtain x q where q: "e_tx e = x # q" by (cases "e_tx e") auto
  then have "word_in cfg x" using assms(1) by (simp add: wf_engine_def wf_queue_def)
  then have "wf_engine cfg (set_reg e 0 x)" using assms(1) by (rule wf_set_reg [rotated])
  moreover have "0 \<le> e_pc e" using assms(1) by (simp add: wf_engine_def wf_counters_def)
  ultimately show ?thesis
    using True q assms(2,3)
    by (auto simp: exec_pull_def same_config_def intro!: good_retire)
next
  case False
  with assms(1) show ?thesis
    by (auto simp: exec_pull_def same_config_def good_result_def wf_stalled quiet_def
      split: list.splits)
qed

lemma good_push:
  assumes "wf_engine cfg e" "e_transfer e = None" "e_pc e < 128"
  shows "good_result cfg e ta rs (exec_push e a rs)"
proof -
  have pc: "0 \<le> e_pc e" using assms(1) by (simp add: wf_engine_def wf_counters_def)
  show ?thesis
    using assms pc
    by (auto simp: exec_push_def same_config_def wf_stalled fail_def [of _ 4]
      wf_fail [of cfg e 4, unfolded byte_def fail_def] intro!: good_retire good_quiet)
qed

lemma good_wait:
  assumes "wf_engine cfg e" "e_transfer e = None" "e_pc e < 128"
  shows "good_result cfg e ta rs (exec_wait sync2 e op a b)"
proof -
  have pc: "0 \<le> e_pc e" using assms(1) by (simp add: wf_engine_def wf_counters_def)
  have blocked: "wf_engine cfg (e\<lparr>e_blocked := e_blocked e + 1, e_stalled := True\<rparr>)"
    using assms(1) by (simp add: wf_engine_def wf_counters_def wf_masks_def wf_run_def)
  have clear: "wf_engine cfg (e\<lparr>e_event := v, e_blocked := 0\<rparr>)"
    "wf_engine cfg (e\<lparr>e_blocked := 0\<rparr>)" for v
    using assms(1) by (simp_all add: wf_engine_def wf_counters_def wf_masks_def wf_run_def)
  have failed: "wf_engine cfg (fail (e\<lparr>e_blocked := e_blocked e + 1, e_stalled := True\<rparr>) 3)"
    by (rule wf_fail [OF blocked]) (simp add: byte_def)
  show ?thesis
    using assms(2,3) pc blocked clear failed
    by (auto simp: exec_wait_def Let_def same_config_def fail_def
      intro!: good_retire good_quiet)
qed

lemma good_xfer:
  assumes "config_ok cfg" "wf_engine cfg e" "e_transfer e = None" "e_pc e < cfg_program_words cfg"
    "1 \<le> a" "a \<le> cfg_width cfg" "1 \<le> b" "b \<le> 255" "0 \<le> c" "c \<le> 31"
  shows "good_result cfg e ta rs (exec_xfer cfg e a b c)"
proof -
  obtain clock tx rx where p: "e_pins e = (clock, tx, rx)" by (cases "e_pins e") auto
  then have pins: "pin_no clock" "pin_no tx"
    using assms(2) by (simp_all add: wf_engine_def wf_masks_def)
  let ?t = "\<lparr>t_bits = a, t_half_period = b, t_flags = c, t_remaining = b, t_transitions = 0\<rparr>"
  have t: "wf_engine cfg f \<Longrightarrow> e_pc f = e_pc e \<Longrightarrow> wf_engine cfg (f\<lparr>e_transfer := Some ?t\<rparr>)" for f
    using assms by (simp add: wf_engine_def wf_counters_def wf_masks_def wf_run_def wf_transfer_def)
  show ?thesis
    using wf_drive [OF assms(2) pins(1)] wf_drive [OF wf_drive [OF assms(2) pins(1)] pins(2)]
      wf_fail [OF assms(2), of 1]
    by (auto simp: exec_xfer_def Let_def p same_config_def byte_def fail_def
      intro!: good_quiet t)
qed

text \<open>The operand checks give the ranges of the fields that the instructions rely on.\<close>

lemma operand_check_pins:
  assumes "operand_check cfg w = None" "word_op w \<in> {8, 9}"
  shows "pin_no (word_a w)"
  using assms word_field_ranges(1) [of w]
  by (auto simp: operand_check_def Let_def pin_no_def split: if_splits)

lemma operand_check_regs:
  assumes "operand_check cfg w = None" "word_op w \<in> {18..28}"
  shows "word_a w \<le> 3" "word_op w \<in> {18, 20, 21, 22, 23} \<longrightarrow> word_b w \<le> 3"
proof -
  have "word_op w \<in> {18, 19, 20, 21, 22, 23, 24, 25, 26, 27, 28}"
    using assms(2) by simp presburger
  then show "word_a w \<le> 3" "word_op w \<in> {18, 20, 21, 22, 23} \<longrightarrow> word_b w \<le> 3"
    using assms(1) by (auto simp: operand_check_def Let_def split: if_splits)
qed

lemma operand_check_xfer:
  assumes "operand_check cfg w = None" "word_op w = 17"
  shows "1 \<le> word_a w" "word_a w \<le> cfg_width cfg" "1 \<le> word_b w" "word_c w \<le> 31"
  using assms word_field_ranges(3) [of w]
  by (auto simp: operand_check_def Let_def split: if_splits)

lemma operand_check_mask:
  assumes "operand_check cfg w = None" "word_op w \<in> {2, 3}"
  shows "byte (word_imm24 w)"
  using assms word_field_ranges(7) [of w] shr_zero_bound [of 8 "word_imm24 w"]
  by (auto simp: operand_check_def Let_def byte_def split: if_splits)

lemma operand_check_limit:
  assumes "operand_check cfg w = None" "word_op w = 12"
  shows "0 < word_imm24 w"
  using assms word_field_ranges(7) [of w]
  by (auto simp: operand_check_def Let_def split: if_splits)

lemma operand_check_op:
  assumes "operand_check cfg w = None"
  shows "word_op w \<in> {0..29}"
    "word_op w = 29 \<Longrightarrow> 0 < word_imm24 w \<and> word_imm24 w \<le> 255"
  using assms by (auto simp: operand_check_def Let_def split: if_splits)

lemma op_cases:
  assumes "(op::int) \<in> {0..29}"
  shows "op \<in> {0, 1, 2, 3, 4, 5, 6, 7, 8, 9, 10, 11, 12, 13, 14, 15, 16, 17, 26, 29}
    \<or> op \<in> {18, 19, 20, 21, 22, 23, 24, 25, 27, 28}"
proof -
  have "op \<in> set [0..29]" using assms by simp
  then show ?thesis by (simp add: upto_rec1) blast
qed

lemma pin_field: "pin_no (x AND 7)"
  using take_bit_int_less_exp [of 3 x] by (simp add: pin_no_def and_takes)

text \<open>One equation per instruction.\<close>

lemma execute_op:
  "word_op w = 0 \<Longrightarrow> execute cfg s ts e w ta rs =
     retire e (e_pc e + 1) False False 0"
  "word_op w = 1 \<Longrightarrow> execute cfg s ts e w ta rs =
     retire (e\<lparr>e_running := False, e_direction := 0\<rparr>) (e_pc e + 1) False False 0"
  "word_op w = 2 \<Longrightarrow> execute cfg s ts e w ta rs =
     retire (e\<lparr>e_values := word_imm24 w\<rparr>) (e_pc e + 1) False False 0"
  "word_op w = 3 \<Longrightarrow> execute cfg s ts e w ta rs =
     retire (e\<lparr>e_direction := word_imm24 w\<rparr>) (e_pc e + 1) False False 0"
  "word_op w = 4 \<Longrightarrow> execute cfg s ts e w ta rs =
     retire (e\<lparr>e_wait := word_imm24 w\<rparr>) (e_pc e + 1) False False 0"
  "word_op w = 5 \<Longrightarrow> execute cfg s ts e w ta rs =
     retire e (word_imm24 w) False False 0"
  "word_op w = 6 \<Longrightarrow> execute cfg s ts e w ta rs =
     exec_pull e ta"
  "word_op w = 7 \<Longrightarrow> execute cfg s ts e w ta rs =
     exec_push e (word_a w) rs"
  "word_op w = 8 \<Longrightarrow> execute cfg s ts e w ta rs =
     retire (shift_out cfg e (word_a w) (word_c w \<noteq> 0)) (e_pc e + 1) False False 0"
  "word_op w = 9 \<Longrightarrow> execute cfg s ts e w ta rs =
     retire (shift_in cfg s e (word_a w) (word_c w \<noteq> 0)) (e_pc e + 1) False False 0"
  "word_op w = 10 \<Longrightarrow> execute cfg s ts e w ta rs =
     retire (e\<lparr>e_repeat := word_imm16 w\<rparr>) (e_pc e + 1) False False 0"
  "word_op w = 11 \<Longrightarrow> execute cfg s ts e w ta rs =
     (if e_repeat e \<noteq> 0 then retire (e\<lparr>e_repeat := e_repeat e - 1\<rparr>) (word_imm24 w) False False 0 else retire e (e_pc e + 1) False False 0)"
  "word_op w = 12 \<Longrightarrow> execute cfg s ts e w ta rs =
     retire (e\<lparr>e_limit := word_imm24 w\<rparr>) (e_pc e + 1) False False 0"
  "word_op w = 13 \<Longrightarrow> execute cfg s ts e w ta rs =
     exec_wait s e 13 (word_a w) (word_b w)"
  "word_op w = 14 \<Longrightarrow> execute cfg s ts e w ta rs =
     retire e (e_pc e + 1) False False (word_imm24 w)"
  "word_op w = 15 \<Longrightarrow> execute cfg s ts e w ta rs =
     exec_wait s e 15 (word_a w) (word_b w)"
  "word_op w = 16 \<Longrightarrow> execute cfg s ts e w ta rs =
     retire (e\<lparr>e_pins := (word_imm24 w AND 7, shr (word_imm24 w) 3 AND 7, shr (word_imm24 w) 6 AND 7)\<rparr>) (e_pc e + 1) False False 0"
  "word_op w = 17 \<Longrightarrow> execute cfg s ts e w ta rs =
     exec_xfer cfg e (word_a w) (word_b w) (word_c w)"
  "word_op w = 26 \<Longrightarrow> execute cfg s ts e w ta rs =
     (if reg e (word_a w) = 0 then retire e (word_imm16 w) False False 0 else retire e (e_pc e + 1) False False 0)"
  "word_op w = 29 \<Longrightarrow> execute cfg s ts e w ta rs =
     quiet (fail e (word_imm24 w))"
  by (simp_all add: execute_def Let_def)

lemma execute_alu:
  assumes "word_op w \<in> {18, 19, 20, 21, 22, 23, 24, 25, 27, 28}"
  shows "execute cfg s ts e w ta rs =
     retire (exec_alu cfg ts e (word_op w) (word_a w) (word_b w) (word_c w) (word_imm16 w))
       (e_pc e + 1) False False 0"
  using assms by (elim insertE emptyE; simp add: execute_def Let_def)

lemma good_execute:
  assumes cfg: "config_ok cfg" and e: "wf_engine cfg e" "e_transfer e = None"
    and pc: "e_pc e < cfg_program_words cfg" and w: "operand_check cfg w = None"
  shows "good_result cfg e ta rs (execute cfg s ts e w ta rs)"
proof -
  have pc0: "0 \<le> e_pc e" using e by (simp add: wf_engine_def wf_counters_def)
  have pc128: "e_pc e < 128" using pc config_ok_ranges(3) [OF cfg] by simp
  have retire: "wf_engine cfg e' \<Longrightarrow> same_config e e' \<Longrightarrow> e_transfer e' = None
      \<Longrightarrow> 0 \<le> sg \<Longrightarrow> good_result cfg e ta rs (retire e' (e_pc e + 1) False False sg)" for e' sg
    using pc0 pc128 by (intro good_retire) auto
  have jump: "wf_engine cfg e' \<Longrightarrow> same_config e e' \<Longrightarrow> e_transfer e' = None
      \<Longrightarrow> 0 \<le> t \<Longrightarrow> t < 2 ^ 24 \<Longrightarrow> good_result cfg e ta rs (retire e' t False False 0)" for e' t
    by (intro good_retire) auto
  note f = word_field_ranges [of w]
  have mask: "word_op w \<in> {2, 3} \<Longrightarrow> wf_engine cfg (e\<lparr>e_values := word_imm24 w\<rparr>)"
    "word_op w \<in> {2, 3} \<Longrightarrow> wf_engine cfg (e\<lparr>e_direction := word_imm24 w\<rparr>)"
    using e(1) operand_check_mask [OF w]
    by (simp_all add: wf_engine_def wf_counters_def wf_masks_def wf_run_def)
  have upd: "wf_engine cfg (e\<lparr>e_running := False, e_direction := 0\<rparr>)"
    "wf_engine cfg (e\<lparr>e_wait := word_imm24 w\<rparr>)"
    "wf_engine cfg (e\<lparr>e_repeat := word_imm16 w\<rparr>)"
    "e_repeat e \<noteq> 0 \<Longrightarrow> wf_engine cfg (e\<lparr>e_repeat := e_repeat e - 1\<rparr>)"
    "word_op w = 12 \<Longrightarrow> wf_engine cfg (e\<lparr>e_limit := word_imm24 w\<rparr>)"
    "wf_engine cfg (e\<lparr>e_pins := (word_imm24 w AND 7, shr (word_imm24 w) 3 AND 7,
                                  shr (word_imm24 w) 6 AND 7)\<rparr>)"
    using e(1) f operand_check_limit [OF w]
    by (simp_all add: wf_engine_def wf_counters_def wf_masks_def wf_run_def byte_def pin_field)
  have imm: "word_imm16 w < 2 ^ 24" using f(10) by simp
  have fault: "word_op w = 29 \<Longrightarrow> wf_engine cfg (fail e (word_imm24 w))"
    using wf_fail [OF e(1)] operand_check_op(2) [OF w] by (simp add: byte_def)
  have alu: "word_op w \<in> {18, 19, 20, 21, 22, 23, 24, 25, 27, 28} \<Longrightarrow>
      wf_engine cfg (exec_alu cfg ts e (word_op w) (word_a w) (word_b w) (word_c w) (word_imm16 w))"
    using operand_check_regs [OF w] by (intro wf_exec_alu [OF cfg e(1)]) auto
  consider "word_op w \<in> {18, 19, 20, 21, 22, 23, 24, 25, 27, 28}"
    | "word_op w = 0" | "word_op w = 1" | "word_op w = 2" | "word_op w = 3" | "word_op w = 4"
    | "word_op w = 5" | "word_op w = 6" | "word_op w = 7" | "word_op w = 8" | "word_op w = 9"
    | "word_op w = 10" | "word_op w = 11" | "word_op w = 12" | "word_op w = 13" | "word_op w = 14"
    | "word_op w = 15" | "word_op w = 16" | "word_op w = 17" | "word_op w = 26" | "word_op w = 29"
    using op_cases [OF operand_check_op(1) [OF w]] by (elim disjE insertE) blast+
  then show ?thesis
  proof cases
    case 1
    from execute_alu [OF this] retire [OF alu [OF this] same_config_exec_alu(1)] e(2)
    show ?thesis by (simp add: same_config_exec_alu(2))
  next
    case 19
    then show ?thesis
      by (simp add: execute_op(18))
        (intro good_xfer [OF cfg e pc]; use operand_check_xfer [OF w] f in simp)
  next
    case 7
    then show ?thesis using e f by (simp add: execute_op(6) jump)
  next
    case 13
    then show ?thesis using e f upd(4) retire [of e 0]
      by (simp add: execute_op(12) jump same_config_def)
  next
    case 18
    then show ?thesis using e upd(6) by (simp add: execute_op(17) retire same_config_def)
  next
    case 20
    then show ?thesis using e f imm retire [of e 0] by (simp add: execute_op(19) jump)
  next
    case 21
    then show ?thesis
      using fault by (auto simp: execute_op(20) same_config_def fail_def intro!: good_quiet)
  qed (simp_all add: execute_op e pc128 mask upd fault f(7-9) same_config_def
    good_pull good_push good_wait wf_shift_out wf_shift_in operand_check_pins [OF w] retire)
qed

text \<open>The transfer step.\<close>

lemma good_transfer_edge:
  assumes cfg: "config_ok cfg" and e: "wf_engine cfg e" and t: "wf_transfer cfg t"
    and pc: "e_pc e < cfg_program_words cfg"
  shows "wf_engine cfg (transfer_edge cfg s e t)" "same_config e (transfer_edge cfg s e t)"
    "e_pc (transfer_edge cfg s e t) \<in> {e_pc e, e_pc e + 1}"
proof -
  obtain clock tx rx where p: "e_pins e = (clock, tx, rx)" by (cases "e_pins e") auto
  then have pins: "pin_no clock" "pin_no tx" using e by (simp_all add: wf_engine_def wf_masks_def)
  have pc128: "e_pc e < 2 ^ 24 - 1" using pc config_ok_ranges(3) [OF cfg] by simp
  define e3 e4 where "e3 = (let e1 = drive e clock (of_bool (has_bit (t_flags t) 0 \<noteq> (t_transitions t mod 2 = 0)));
          msb = has_bit (t_flags t) 2;
          e2 = (if has_bit (t_flags t) 3 \<and> has_bit (t_flags t) 1 \<and> t_transitions t mod 2 = 0
                then shift_out cfg e1 tx msb else e1)
      in (if has_bit (t_flags t) 3 \<and> \<not> has_bit (t_flags t) 1 \<and> t_transitions t mod 2 \<noteq> 0
                then (let f = set_reg e2 0 (shifted_tx cfg e2 msb) in
                      if t_transitions t < 2 * t_bits t - 1
                      then drive f tx (out_bit cfg f msb) else f)
                else e2))"
    and "e4 = (if has_bit (t_flags t) 4 \<and> (if has_bit (t_flags t) 1 then t_transitions t mod 2 \<noteq> 0
                   else t_transitions t mod 2 = 0)
                then shift_in cfg s e3 rx (has_bit (t_flags t) 2) else e3)"
  have eq: "transfer_edge cfg s e t =
      (if t_transitions t + 1 = 2 * t_bits t
         then e4\<lparr>e_transfer := None, e_pc := e_pc e4 + 1,
                 e_completed := (e_completed e4 + 1) AND 0xFFFFFFFF\<rparr>
         else e4\<lparr>e_transfer := Some (t\<lparr>t_transitions := t_transitions t + 1,
                                        t_remaining := t_half_period t\<rparr>)\<rparr>)"
    by (simp add: transfer_edge_def Let_def p e3_def e4_def)
  have e3: "wf_engine cfg e3" "same_config e e3" "e_pc e3 = e_pc e"
    using e pins by (simp_all add: e3_def Let_def same_config_def wf_drive wf_shift_out wf_set_reg
      shifted_tx_def)
  then have e4: "wf_engine cfg e4" "same_config e e4" "e_pc e4 = e_pc e"
    by (simp_all add: e4_def same_config_def wf_shift_in)
  show "same_config e (transfer_edge cfg s e t)"
    "e_pc (transfer_edge cfg s e t) \<in> {e_pc e, e_pc e + 1}"
    using e4 by (auto simp: eq same_config_def)
  have "0 \<le> e_pc e" using e by (simp add: wf_engine_def wf_counters_def)
  then show "wf_engine cfg (transfer_edge cfg s e t)"
    using e4 t pc pc128 take_bit_int_less_exp [of 32 "e_completed e4 + 1"]
    by (auto simp: eq and_takes wf_engine_def wf_counters_def wf_masks_def wf_run_def wf_transfer_def)
qed

lemma good_step_transfer:
  assumes cfg: "config_ok cfg" and e: "wf_engine cfg e" and t: "e_transfer e = Some t"
  shows "good_result cfg e ta rs (quiet (step_transfer cfg s e t))"
proof -
  have wt: "wf_transfer cfg t" and pc: "e_pc e < cfg_program_words cfg"
    using e t by (simp_all add: wf_engine_def wf_run_def)
  let ?t = "t\<lparr>t_remaining := t_remaining t - 1\<rparr>"
  show ?thesis
  proof (cases "t_remaining t - 1 = 0")
    case True
    have "transfer_edge cfg s e ?t = transfer_edge cfg s e t"
      by (cases t) (simp only: transfer_edge_def transfer.select_convs transfer.update_convs)
    then show ?thesis
      using True good_transfer_edge [OF cfg e wt pc]
      by (simp add: step_transfer_def good_quiet)
  next
    case False
    then have "wf_engine cfg (e\<lparr>e_transfer := Some ?t\<rparr>)"
      using e wt pc by (simp add: wf_engine_def wf_counters_def wf_masks_def wf_run_def wf_transfer_def)
    with False show ?thesis
      by (simp add: step_transfer_def same_config_def good_quiet)
  qed
qed

text \<open>The whole step.\<close>

lemma good_result_stalled:
  "good_result cfg (e\<lparr>e_stalled := b\<rparr>) ta rs res \<longleftrightarrow> good_result cfg e ta rs res"
  by (cases res) (simp_all add: good_result_def same_config_def)

lemma good_step:
  assumes cfg: "config_ok cfg" and e: "wf_engine cfg e"
  shows "good_result cfg e ta rs (step cfg s ts e ta rs)"
proof -
  define f where "f = e\<lparr>e_stalled := False\<rparr>"
  have f: "wf_engine cfg f" using e by (simp add: f_def wf_stalled)
  have wait: "e_wait f \<noteq> 0 \<Longrightarrow> wf_engine cfg (f\<lparr>e_wait := e_wait f - 1\<rparr>)"
    using f by (simp add: wf_engine_def wf_counters_def wf_masks_def wf_run_def)
  have failed: "wf_engine cfg (fail f 1)" "wf_engine cfg (fail f 2)"
    using f by (simp_all add: wf_fail byte_def)
  have check: "operand_check cfg w = Some c \<Longrightarrow> c = 1" for w c
    by (auto simp: operand_check_def Let_def split: if_splits)
  have fl: "int (length (e_program f)) \<le> cfg_program_words cfg"
    using f by (simp add: wf_engine_def wf_program_def)
  have "good_result cfg f ta rs (step cfg s ts e ta rs)"
  proof (cases "e_running f \<and> e_wait f = 0 \<and> e_transfer f = None")
    case False
    then show ?thesis
      using f wait good_step_transfer [OF cfg f]
      by (auto simp: step_def f_def [symmetric] same_config_def intro!: good_quiet
        split: option.splits)
  next
    case True
    then show ?thesis
      using f failed good_execute [OF cfg f] fl
      by (auto simp: step_def f_def [symmetric] Let_def same_config_def fail_def dest: check
        intro!: good_quiet split: option.splits)
  qed
  then show ?thesis by (simp add: f_def good_result_stalled)
qed

end
