(* ===== verification/Chip_Inv.thy ===== *)
theory Chip_Inv
  imports Chip Engine_Inv
begin

text \<open>
  The invariant of the chip and its preservation by every edge. An edge of a well-formed
  chip never raises (no queue is popped while empty) and ends in a well-formed chip:
  queue levels within their capacity, ownership masks pairwise disjoint, host transfers
  in range, and the word a host is reading still at the head of its queue.
\<close>

section \<open>The output byte\<close>

lemma and_bit_iff:
  "(x::int) AND 16 \<noteq> 0 \<longleftrightarrow> bit x 4" "(x::int) AND 32 \<noteq> 0 \<longleftrightarrow> bit x 5"
  "(x::int) AND 64 \<noteq> 0 \<longleftrightarrow> bit x 6" "(x::int) AND 128 \<noteq> 0 \<longleftrightarrow> bit x 7"
  using bit_iff_and_push_bit_not_eq_0 [of x 4] bit_iff_and_push_bit_not_eq_0 [of x 5]
    bit_iff_and_push_bit_not_eq_0 [of x 6] bit_iff_and_push_bit_not_eq_0 [of x 7]
  by (simp_all add: push_bit_eq_mult)

definition irq :: "chip \<Rightarrow> bool" where
  "irq r \<longleftrightarrow> (\<exists>e \<in> set (r_engines r). e_event e \<or> e_rx e \<noteq> [])"

definition fault_line :: "chip \<Rightarrow> bool" where
  "fault_line r \<longleftrightarrow> r_host_fault r \<or> (\<exists>e \<in> set (r_engines r). e_fault e \<noteq> 0)"

lemma outputs_uo_bits:
  fixes cfg r ui
  defines "u \<equiv> o_uo (outputs cfg r ui False True)" and "w \<equiv> shr ui 6 AND 3"
  shows "bit u 4 \<longleftrightarrow> ready cfg r w"
    "bit u 5 \<longleftrightarrow> w = r_window r \<and> r_read_word r \<noteq> None"
    "bit u 6 \<longleftrightarrow> irq r" "bit u 7 \<longleftrightarrow> fault_line r"
    "u AND 15 = (if w = r_window r \<and> r_read_word r \<noteq> None
                 then shr (the (r_read_word r)) (r_read_index r * 4) AND 15 else 0)"
proof -
  define nib where "nib = (if w = r_window r \<and> r_read_word r \<noteq> None
                 then shr (the (r_read_word r)) (r_read_index r * 4) else 0)"
  have u: "u = take_bit 4 nib OR push_bit 4 (of_bool (ready cfg r w))
     OR push_bit 5 (of_bool (w = r_window r \<and> r_read_word r \<noteq> None))
     OR push_bit 6 (of_bool (irq r)) OR push_bit 7 (of_bool (fault_line r))"
    unfolding u_def w_def nib_def
    by (auto simp add: outputs_def Let_def irq_def fault_line_def and_15_take)
  show "bit u 4 \<longleftrightarrow> ready cfg r w"
    "bit u 5 \<longleftrightarrow> w = r_window r \<and> r_read_word r \<noteq> None"
    "bit u 6 \<longleftrightarrow> irq r" "bit u 7 \<longleftrightarrow> fault_line r"
    unfolding u by (auto simp: bit_simps)
  have "u AND 15 = take_bit 4 nib"
    unfolding u and_15_take by (auto simp: take_bit_push_bit)
  then show "u AND 15 = (if w = r_window r \<and> r_read_word r \<noteq> None
                 then shr (the (r_read_word r)) (r_read_index r * 4) AND 15 else 0)"
    by (auto simp: nib_def and_15_take)
qed

section \<open>The invariant\<close>

definition n_eng :: "config \<Rightarrow> nat" where
  "n_eng cfg = nat (cfg_engines cfg)"

definition engine_no :: "config \<Rightarrow> int \<Rightarrow> bool" where
  "engine_no cfg i \<longleftrightarrow> 0 \<le> i \<and> i < cfg_engines cfg"

definition disjoint_pins :: "engine list \<Rightarrow> bool" where
  "disjoint_pins es \<longleftrightarrow>
     (\<forall>i < length es. \<forall>j < length es. i \<noteq> j \<longrightarrow> e_ownership (es ! i) AND e_ownership (es ! j) = 0)"

definition wf_route :: "config \<Rightarrow> int \<times> int \<Rightarrow> bool" where
  "wf_route cfg rt \<longleftrightarrow> engine_no cfg (fst rt) \<and> 1 \<le> snd rt \<and> snd rt \<le> 65535"

definition wf_engines :: "config \<Rightarrow> engine list \<Rightarrow> bool" where
  "wf_engines cfg es \<longleftrightarrow> length es = n_eng cfg \<and> list_all (wf_engine cfg) es \<and> disjoint_pins es"

definition wf_host :: "config \<Rightarrow> chip \<Rightarrow> bool" where
  "wf_host cfg r \<longleftrightarrow>
     engine_no cfg (r_selected r) \<and> 0 \<le> r_read_select r \<and> r_read_select r \<le> 7
     \<and> 0 \<le> r_window r \<and> r_window r \<le> 3 \<and> 0 \<le> r_write_index r \<and> r_write_index r \<le> 7
     \<and> 0 \<le> r_write_word r \<and> r_write_word r < 2 ^ nat (4 * r_write_index r)
     \<and> 0 \<le> r_read_index r \<and> r_read_index r \<le> 7"

text \<open>A word that the host reads from an RX queue stays at the head of that queue.\<close>

definition wf_reading :: "chip \<Rightarrow> bool" where
  "wf_reading r \<longleftrightarrow>
     (case r_read_word r of
        None \<Rightarrow> r_read_engine r = None
      | Some w \<Rightarrow>
          if r_window r = 3
          then r_read_engine r = Some (r_selected r) \<and> e_rx (sel_engine r) \<noteq> []
               \<and> w = hd (e_rx (sel_engine r))
          else r_read_engine r = None)"

lemma wf_reading_engine:
  assumes "wf_reading r" "r_read_engine r = Some i"
  shows "i = r_selected r" "r_window r = 3" "e_rx (sel_engine r) \<noteq> []"
    "r_read_word r = Some (hd (e_rx (sel_engine r)))"
  using assms by (auto simp: wf_reading_def split: option.splits if_splits)

definition wf_mover :: "config \<Rightarrow> chip \<Rightarrow> bool" where
  "wf_mover cfg r \<longleftrightarrow>
     length (r_routes r) = n_eng cfg \<and> list_all (pred_option (wf_route cfg)) (r_routes r)
     \<and> engine_no cfg (r_round_robin r)"

definition wf_pins :: "chip \<Rightarrow> bool" where
  "wf_pins r \<longleftrightarrow>
     byte (r_sync1 r) \<and> byte (r_sync2 r) \<and> byte (r_previous_pins r)
     \<and> 0 \<le> r_timestamp r \<and> r_timestamp r < 2 ^ 32"

definition wf_chip :: "config \<Rightarrow> chip \<Rightarrow> bool" where
  "wf_chip cfg r \<longleftrightarrow>
     wf_engines cfg (r_engines r) \<and> wf_host cfg r \<and> wf_reading r \<and> wf_mover cfg r
     \<and> wf_pins r \<and> r_starts r = {} \<and> r_stops r = {}"

lemma engine_no_nat: "engine_no cfg i \<Longrightarrow> nat i < n_eng cfg"
  by (auto simp: engine_no_def n_eng_def)

lemma wf_engines_eng:
  "wf_engines cfg (r_engines r) \<Longrightarrow> engine_no cfg i \<Longrightarrow> wf_engine cfg (eng r i)"
  by (auto simp: wf_engines_def eng_def list_all_length dest: engine_no_nat)

lemma wf_new_engine: "config_ok cfg \<Longrightarrow> wf_engine cfg new_engine"
  using config_ok_ranges [of cfg]
  by (simp add: wf_engine_def new_engine_def wf_counters_def wf_masks_def wf_run_def wf_program_def
    wf_regs_def wf_queue_def word_in_def byte_def pin_no_def)

lemma wf_reset: "config_ok cfg \<Longrightarrow> wf_chip cfg (reset cfg)"
  using config_ok_ranges [of cfg] wf_new_engine [of cfg]
  by (simp add: wf_chip_def reset_def wf_engines_def wf_host_def wf_reading_def wf_mover_def
    wf_pins_def engine_no_def n_eng_def disjoint_pins_def list_all_length byte_def new_engine_def)

section \<open>Updates of one engine\<close>

lemma eng_fields [simp]:
  "eng (r\<lparr>r_timestamp := x_r_timestamp\<rparr>) i = eng r i"
  "eng (r\<lparr>r_sync1 := x_r_sync1\<rparr>) i = eng r i"
  "eng (r\<lparr>r_sync2 := x_r_sync2\<rparr>) i = eng r i"
  "eng (r\<lparr>r_previous_pins := x_r_previous_pins\<rparr>) i = eng r i"
  "eng (r\<lparr>r_read_select := x_r_read_select\<rparr>) i = eng r i"
  "eng (r\<lparr>r_host_fault := x_r_host_fault\<rparr>) i = eng r i"
  "eng (r\<lparr>r_routes := x_r_routes\<rparr>) i = eng r i"
  "eng (r\<lparr>r_round_robin := x_r_round_robin\<rparr>) i = eng r i"
  "eng (r\<lparr>r_window := x_r_window\<rparr>) i = eng r i"
  "eng (r\<lparr>r_write_index := x_r_write_index\<rparr>) i = eng r i"
  "eng (r\<lparr>r_write_word := x_r_write_word\<rparr>) i = eng r i"
  "eng (r\<lparr>r_read_index := x_r_read_index\<rparr>) i = eng r i"
  "eng (r\<lparr>r_read_word := x_r_read_word\<rparr>) i = eng r i"
  "eng (r\<lparr>r_read_engine := x_r_read_engine\<rparr>) i = eng r i"
  "eng (r\<lparr>r_starts := x_r_starts\<rparr>) i = eng r i"
  "eng (r\<lparr>r_stops := x_r_stops\<rparr>) i = eng r i"
  "eng (r\<lparr>r_selected := k\<rparr>) i = eng r i"
  by (simp_all add: eng_def)

lemma sel_engine_fields [simp]:
  "sel_engine (r\<lparr>r_timestamp := x_r_timestamp\<rparr>) = sel_engine r"
  "sel_engine (r\<lparr>r_sync1 := x_r_sync1\<rparr>) = sel_engine r"
  "sel_engine (r\<lparr>r_sync2 := x_r_sync2\<rparr>) = sel_engine r"
  "sel_engine (r\<lparr>r_previous_pins := x_r_previous_pins\<rparr>) = sel_engine r"
  "sel_engine (r\<lparr>r_read_select := x_r_read_select\<rparr>) = sel_engine r"
  "sel_engine (r\<lparr>r_host_fault := x_r_host_fault\<rparr>) = sel_engine r"
  "sel_engine (r\<lparr>r_routes := x_r_routes\<rparr>) = sel_engine r"
  "sel_engine (r\<lparr>r_round_robin := x_r_round_robin\<rparr>) = sel_engine r"
  "sel_engine (r\<lparr>r_window := x_r_window\<rparr>) = sel_engine r"
  "sel_engine (r\<lparr>r_write_index := x_r_write_index\<rparr>) = sel_engine r"
  "sel_engine (r\<lparr>r_write_word := x_r_write_word\<rparr>) = sel_engine r"
  "sel_engine (r\<lparr>r_read_index := x_r_read_index\<rparr>) = sel_engine r"
  "sel_engine (r\<lparr>r_read_word := x_r_read_word\<rparr>) = sel_engine r"
  "sel_engine (r\<lparr>r_read_engine := x_r_read_engine\<rparr>) = sel_engine r"
  "sel_engine (r\<lparr>r_starts := x_r_starts\<rparr>) = sel_engine r"
  "sel_engine (r\<lparr>r_stops := x_r_stops\<rparr>) = sel_engine r"
  by (simp_all add: sel_engine_def)

lemma upd_eng_simps [simp]:
  "r_timestamp (upd_eng r i f) = r_timestamp r" "r_sync1 (upd_eng r i f) = r_sync1 r"
  "r_sync2 (upd_eng r i f) = r_sync2 r" "r_previous_pins (upd_eng r i f) = r_previous_pins r"
  "r_selected (upd_eng r i f) = r_selected r" "r_read_select (upd_eng r i f) = r_read_select r"
  "r_host_fault (upd_eng r i f) = r_host_fault r" "r_routes (upd_eng r i f) = r_routes r"
  "r_round_robin (upd_eng r i f) = r_round_robin r" "r_window (upd_eng r i f) = r_window r"
  "r_write_index (upd_eng r i f) = r_write_index r" "r_write_word (upd_eng r i f) = r_write_word r"
  "r_read_index (upd_eng r i f) = r_read_index r" "r_read_word (upd_eng r i f) = r_read_word r"
  "r_read_engine (upd_eng r i f) = r_read_engine r" "r_starts (upd_eng r i f) = r_starts r"
  "r_stops (upd_eng r i f) = r_stops r"
  "length (r_engines (upd_eng r i f)) = length (r_engines r)"
  by (simp_all add: upd_eng_def)

lemma eng_upd_eng:
  assumes "nat j < length (r_engines r)"
  shows "eng (upd_eng r i f) j = (if nat i = nat j then f (eng r j) else eng r j)"
  using assms by (auto simp: eng_def upd_eng_def nth_list_update)

lemma disjoint_pins_update:
  assumes "disjoint_pins es" "e_ownership x = e_ownership (es ! i)"
  shows "disjoint_pins (es[i := x])"
proof -
  have "e_ownership (es[i := x] ! k) = e_ownership (es ! k)" if "k < length es" for k
    using assms(2) that by (cases "i < length es") (simp_all add: nth_list_update)
  then show ?thesis using assms(1) by (simp add: disjoint_pins_def)
qed

lemma wf_engines_upd:
  assumes "wf_engines cfg (r_engines r)" "engine_no cfg i"
    "wf_engine cfg (eng r i) \<Longrightarrow> wf_engine cfg (f (eng r i))"
    "e_ownership (f (eng r i)) = e_ownership (eng r i)"
  shows "wf_engines cfg (r_engines (upd_eng r i f))"
  using assms wf_engines_eng [OF assms(1,2)]
  by (simp add: wf_engines_def upd_eng_def list_all_update disjoint_pins_update eng_def)

section \<open>Host commands\<close>

text \<open>What a command or a program word keeps: the part of the invariant without the
  reading state, and the queues of every engine, unless the engine is flushed.\<close>

definition wf_core :: "config \<Rightarrow> chip \<Rightarrow> bool" where
  "wf_core cfg r \<longleftrightarrow>
     wf_engines cfg (r_engines r) \<and> wf_host cfg r \<and> wf_mover cfg r \<and> wf_pins r"

definition queues_kept :: "config \<Rightarrow> chip \<Rightarrow> chip \<Rightarrow> bool" where
  "queues_kept cfg r0 r \<longleftrightarrow>
     (\<forall>i. engine_no cfg i \<longrightarrow>
       (e_tx (eng r i) = e_tx (eng r0 i) \<and> e_rx (eng r i) = e_rx (eng r0 i))
       \<or> (\<not> e_running (eng r i) \<and> e_tx (eng r i) = [] \<and> e_rx (eng r i) = []
          \<and> r_routes r ! nat i = None))"

lemma queues_kept_refl [simp]: "queues_kept cfg r r"
  by (simp add: queues_kept_def)

lemma queues_kept_engines [simp]:
  "r_engines r = r_engines r0 \<Longrightarrow> queues_kept cfg r0 r"
  by (simp add: queues_kept_def eng_def)

lemma queues_kept_upd:
  assumes "length (r_engines r) = n_eng cfg"
    "\<And>e. e_tx (f e) = e_tx e" "\<And>e. e_rx (f e) = e_rx e"
  shows "queues_kept cfg r (upd_eng r i f)"
  using assms by (simp add: queues_kept_def eng_upd_eng engine_no_nat)

lemma queues_kept_field [simp]:
  "queues_kept cfg r0 (r\<lparr>r_starts := x\<rparr>) = queues_kept cfg r0 r"
  "queues_kept cfg r0 (r\<lparr>r_stops := x\<rparr>) = queues_kept cfg r0 r"
  by (simp_all add: queues_kept_def eng_def)

lemma wf_core_upd:
  assumes "wf_core cfg r" "engine_no cfg i"
    "wf_engine cfg (eng r i) \<Longrightarrow> wf_engine cfg (f (eng r i))"
    "e_ownership (f (eng r i)) = e_ownership (eng r i)"
  shows "wf_core cfg (upd_eng r i f)"
  using assms wf_engines_upd [of cfg r i f]
  by (simp add: wf_core_def wf_host_def wf_mover_def wf_pins_def)

lemma set_chosen: "i \<in> set (chosen_engines cfg m) \<longleftrightarrow> engine_no cfg i \<and> has_bit m i"
  by (auto simp: chosen_engines_def engine_no_def)

lemma for_chosen_eng:
  assumes "nat j < length (r_engines r)" "\<forall>i \<in> set is. 0 \<le> i" "0 \<le> j" "distinct is"
  shows "length (r_engines (for_chosen is f r)) = length (r_engines r)
    \<and> eng (for_chosen is f r) j = (if j \<in> set is then f (eng r j) else eng r j)"
  using assms
proof (induction "is" arbitrary: r)
  case Nil
  then show ?case by (simp add: for_chosen_def)
next
  case (Cons i rest)
  have "for_chosen (i # rest) f r = for_chosen rest f (upd_eng r i f)"
    by (simp add: for_chosen_def)
  with Cons show ?case by (auto simp: eng_upd_eng eq_nat_nat_iff)
qed

lemma for_chosen_frame [simp]:
  "r_timestamp (for_chosen is f r) = r_timestamp r" "r_sync1 (for_chosen is f r) = r_sync1 r"
  "r_sync2 (for_chosen is f r) = r_sync2 r"
  "r_previous_pins (for_chosen is f r) = r_previous_pins r"
  "r_selected (for_chosen is f r) = r_selected r"
  "r_read_select (for_chosen is f r) = r_read_select r"
  "r_host_fault (for_chosen is f r) = r_host_fault r" "r_routes (for_chosen is f r) = r_routes r"
  "r_round_robin (for_chosen is f r) = r_round_robin r" "r_window (for_chosen is f r) = r_window r"
  "r_write_index (for_chosen is f r) = r_write_index r"
  "r_write_word (for_chosen is f r) = r_write_word r"
  "r_read_index (for_chosen is f r) = r_read_index r"
  "r_read_word (for_chosen is f r) = r_read_word r"
  "r_read_engine (for_chosen is f r) = r_read_engine r"
  "r_starts (for_chosen is f r) = r_starts r" "r_stops (for_chosen is f r) = r_stops r"
  by (induction "is" arbitrary: r; simp add: for_chosen_def)+

lemma distinct_chosen: "distinct (chosen_engines cfg m)"
  by (simp add: chosen_engines_def py_range_def distinct_map)

lemma eng_for_chosen:
  assumes "length (r_engines r) = n_eng cfg" "engine_no cfg j"
  shows "eng (for_chosen (chosen_engines cfg m) f r) j =
    (if has_bit m j then f (eng r j) else eng r j)"
  using for_chosen_eng [of j r "chosen_engines cfg m" f] assms engine_no_nat [OF assms(2)]
    distinct_chosen [of cfg m] set_chosen [of _ cfg m]
  by (auto simp: engine_no_def)

lemma wf_core_for_chosen:
  assumes "wf_core cfg r"
    "\<And>i. i \<in> set is \<Longrightarrow> engine_no cfg i"
    "distinct is"
    "\<And>i. i \<in> set is \<Longrightarrow> wf_engine cfg (eng r i) \<Longrightarrow> wf_engine cfg (f (eng r i))"
    "\<And>e. e_ownership (f e) = e_ownership e"
  shows "wf_core cfg (for_chosen is f r)"
  using assms
proof (induction "is" arbitrary: r)
  case Nil
  then show ?case by (simp add: for_chosen_def)
next
  case (Cons i rest)
  have step: "for_chosen (i # rest) f r = for_chosen rest f (upd_eng r i f)"
    by (simp add: for_chosen_def)
  have i: "engine_no cfg i" using Cons.prems(2) by simp
  have core: "wf_core cfg (upd_eng r i f)"
    using Cons.prems by (intro wf_core_upd) auto
  have len: "length (r_engines r) = n_eng cfg"
    using Cons.prems(1) by (simp add: wf_core_def wf_engines_def)
  have same: "eng (upd_eng r i f) j = eng r j" if "j \<in> set rest" for j
  proof -
    have "engine_no cfg j" "j \<noteq> i" using Cons.prems(2,3) that by auto
    then show ?thesis using i len by (auto simp: eng_upd_eng engine_no_nat engine_no_def)
  qed
  show ?case
    unfolding step
    using Cons.prems same by (intro Cons.IH core) auto
qed

text \<open>The pins that the other engines own, and why \<open>OWN\<close> keeps the masks disjoint.\<close>

lemma fold_or_zero:
  fixes x :: int
  shows "x AND fold (\<lambda>i m. if P i then m OR g i else m) is acc = 0 \<longleftrightarrow>
    x AND acc = 0 \<and> (\<forall>i \<in> set is. P i \<longrightarrow> x AND g i = 0)"
proof (induction "is" arbitrary: acc)
  case Nil
  then show ?case by simp
next
  case (Cons i rest)
  have "x AND (acc OR g i) = 0 \<longleftrightarrow> x AND acc = 0 \<and> x AND g i = 0"
    by (auto simp: and_zero_iff bit_or_iff)
  with Cons.IH show ?case by auto
qed

lemma other_owned_zero:
  "x AND other_owned r = 0 \<longleftrightarrow>
    (\<forall>i. 0 \<le> i \<and> i < int (length (r_engines r)) \<and> i \<noteq> r_selected r \<longrightarrow>
       x AND e_ownership (eng r i) = 0)"
  unfolding other_owned_def
  using fold_or_zero [of x "\<lambda>i. i \<noteq> r_selected r" "\<lambda>i. e_ownership (eng r i)"
      "py_range (int (length (r_engines r)))" 0]
  by auto

lemma wf_engines_own:
  assumes es: "wf_engines cfg (r_engines r)" and sel: "engine_no cfg (r_selected r)"
    and free: "owned AND other_owned r = 0"
    and e: "wf_engine cfg (f (eng r (r_selected r)))"
    and own: "e_ownership (f (eng r (r_selected r))) = owned"
  shows "wf_engines cfg (r_engines (upd_eng r (r_selected r) f))"
proof -
  let ?i = "nat (r_selected r)" and ?es = "r_engines r"
  have len: "length ?es = n_eng cfg" and i: "?i < length ?es" and s: "0 \<le> r_selected r"
    using es sel engine_no_nat by (auto simp: wf_engines_def engine_no_def)
  have free': "owned AND e_ownership (?es ! j) = 0" if "j < length ?es" "j \<noteq> ?i" for j
  proof -
    have "int j \<noteq> r_selected r" using that(2) by auto
    then show ?thesis
      using free [unfolded other_owned_zero, rule_format, of "int j"] that(1) by (simp add: eng_def)
  qed
  have "disjoint_pins (?es[?i := f (?es ! ?i)])"
    unfolding disjoint_pins_def
  proof (intro allI impI)
    fix j k
    assume j: "j < length (?es[?i := f (?es ! ?i)])" and k: "k < length (?es[?i := f (?es ! ?i)])"
      and "j \<noteq> k"
    then show "e_ownership (?es[?i := f (?es ! ?i)] ! j)
        AND e_ownership (?es[?i := f (?es ! ?i)] ! k) = 0"
      using es free' [of j] free' [of k] own i len
      by (auto simp: nth_list_update wf_engines_def disjoint_pins_def eng_def and.commute)
  qed
  then show ?thesis
    using es e by (simp add: wf_engines_def upd_eng_def list_all_update eng_def)
qed

text \<open>Fields of the payload.\<close>

lemma field_ranges:
  fixes p :: int
  shows "0 \<le> p AND 255 \<and> p AND 255 < 256" "0 \<le> p AND 3 \<and> p AND 3 < 4"
    "0 \<le> p AND 7 \<and> p AND 7 \<le> 7" "0 \<le> p AND 65535 \<and> p AND 65535 \<le> 65535"
  using take_bit_int_less_exp [of 8 p] take_bit_int_less_exp [of 2 p]
    take_bit_int_less_exp [of 3 p] take_bit_int_less_exp [of 16 p]
  by (simp_all add: and_takes)

lemma chosen_wf:
  assumes "wf_core cfg r" "i \<in> set (chosen_engines cfg m)"
  shows "wf_engine cfg (eng r i)"
  using assms by (auto simp: set_chosen wf_core_def intro: wf_engines_eng)

lemma wf_core_start:
  assumes core: "wf_core cfg r"
    and "\<forall>i \<in> set (chosen_engines cfg m). e_committed (eng r i) \<and> e_fault (eng r i) = 0"
  shows "wf_core cfg (for_chosen (chosen_engines cfg m) start r)"
proof (rule wf_core_for_chosen [OF core _ distinct_chosen])
  fix i assume i: "i \<in> set (chosen_engines cfg m)"
  then show "engine_no cfg i" by (simp add: set_chosen)
  assume e: "wf_engine cfg (eng r i)"
  then have "\<not> e_writing (eng r i)"
    using assms(2) i by (simp add: wf_engine_def wf_run_def)
  then show "wf_engine cfg (start (eng r i))"
    using assms(2) i e by (simp add: wf_start)
qed (simp add: start_def)

lemma wf_core_fields [simp]:
  "wf_core cfg (r\<lparr>r_host_fault := b\<rparr>) = wf_core cfg r"
  "wf_core cfg (r\<lparr>r_starts := S\<rparr>) = wf_core cfg r"
  "wf_core cfg (r\<lparr>r_stops := S\<rparr>) = wf_core cfg r"
  "wf_core cfg (r\<lparr>r_read_word := w\<rparr>) = wf_core cfg r"
  "wf_core cfg (r\<lparr>r_read_engine := x\<rparr>) = wf_core cfg r"
  by (simp_all add: wf_core_def wf_host_def wf_mover_def wf_pins_def)

lemma wf_core_routes:
  "wf_core cfg r \<Longrightarrow> length rts = n_eng cfg \<Longrightarrow> list_all (pred_option (wf_route cfg)) rts
    \<Longrightarrow> wf_core cfg (r\<lparr>r_routes := rts\<rparr>)"
  by (simp add: wf_core_def wf_host_def wf_mover_def wf_pins_def)

lemma wf_core_selected: "wf_core cfg r \<Longrightarrow> engine_no cfg (r_selected r)"
  by (simp add: wf_core_def wf_host_def)

lemma wf_core_len: "wf_core cfg r \<Longrightarrow> length (r_engines r) = n_eng cfg"
  by (simp add: wf_core_def wf_engines_def)

lemma wf_core_routesD:
  "wf_core cfg r \<Longrightarrow> length (r_routes r) = n_eng cfg \<and> list_all (pred_option (wf_route cfg)) (r_routes r)"
  by (simp add: wf_core_def wf_mover_def)

lemma wf_flush_routes:
  assumes "wf_core cfg r"
  shows "length (flush_routes r) = n_eng cfg" "list_all (pred_option (wf_route cfg)) (flush_routes r)"
proof -
  note rt = wf_core_routesD [OF assms]
  show "length (flush_routes r) = n_eng cfg" using rt by (simp add: flush_routes_def)
  have "pred_option (wf_route cfg) (r_routes r ! nat s)"
    if "s \<in> {0..<int (length (r_routes r))}" for s
    using rt that by (simp add: list_all_length) (metis nat_less_iff)
  then show "list_all (pred_option (wf_route cfg)) (flush_routes r)"
    by (fastforce simp: flush_routes_def list_all_iff split: option.splits)
qed

lemma flush_routes_selected:
  assumes "wf_core cfg r"
  shows "flush_routes r ! nat (r_selected r) = None"
  using wf_core_routesD [OF assms] wf_core_selected [OF assms]
  by (auto simp: flush_routes_def engine_no_def n_eng_def split: option.splits)

text \<open>The main lemma on commands: an accepted command keeps the core invariant and the
  queues, and no command touches the transfer registers of the host port.\<close>

lemma wf_command_effect:
  assumes cfg: "config_ok cfg" and core: "wf_core cfg r" and p: "0 \<le> p" "p < 2 ^ 24"
    and acc: "\<not> command_rejected cfg r op p"
  shows "wf_core cfg (command_effect cfg r op p)"
proof -
  note sel = wf_core_selected [OF core] and len = wf_core_len [OF core]
  have e: "wf_engine cfg (eng r (r_selected r))"
    using core sel by (auto simp: wf_core_def intro: wf_engines_eng)
  note rng = field_ranges
  consider "op = 0" | "op = 1" | "op = 2" | "op = 3" | "op = 4" | "op = 5" | "op = 6" | "op = 7"
    | "op = 8" | "op = 9" | "op = 10" | "op = 11"
    using acc by (auto simp: command_rejected_def Let_def split: if_splits)
  then show ?thesis
  proof cases
    case 1
    then show ?thesis
      using core acc p by (auto simp: command_effect_def command_rejected_def wf_core_def wf_host_def
        wf_mover_def wf_pins_def engine_no_def)
  next
    case 4
    have free: "(p AND 255) AND other_owned r = 0"
      and drain: "(shr p 8 AND 255) AND NOT (p AND 255) = 0" and idle: "\<not> e_running (eng r (r_selected r))"
      using acc 4 by (simp_all add: command_rejected_def Let_def sel_engine_def)
    let ?f = "\<lambda>e. e\<lparr>e_ownership := p AND 255, e_open_drain := shr p 8 AND 255\<rparr>"
    have "wf_engine cfg (?f (eng r (r_selected r)))"
      using e drain rng(1) by (simp add: wf_engine_def wf_counters_def wf_masks_def wf_run_def byte_def)
    then have "wf_engines cfg (r_engines (upd_eng r (r_selected r) ?f))"
      using core sel free by (intro wf_engines_own) (auto simp: wf_core_def)
    then show ?thesis
      using 4 core by (simp add: command_effect_def wf_core_def wf_host_def wf_mover_def wf_pins_def)
  next
    case 5
    then show ?thesis
      using acc wf_core_start [OF core, of p]
      by (simp add: command_effect_def command_rejected_def Let_def)
  next
    case 6
    have "wf_core cfg (for_chosen (chosen_engines cfg p) (\<lambda>e. e\<lparr>e_running := False, e_direction := 0\<rparr>) r)"
      by (rule wf_core_for_chosen [OF core _ distinct_chosen])
        (auto simp: set_chosen wf_engine_def wf_counters_def wf_masks_def wf_run_def byte_def)
    then show ?thesis using 6 by (simp add: command_effect_def Let_def)
  next
    case 7
    have s: "nat (p AND 3) < n_eng cfg" and d: "engine_no cfg (shr p 2 AND 3)"
      using acc 7 rng(2) [of p] rng(2) [of "shr p 2"] engine_no_nat [of cfg "p AND 3"]
      by (auto simp: command_rejected_def Let_def engine_no_def)
    note rt = wf_core_routesD [OF core]
    have "shr p 5 AND 65535 \<noteq> 0 \<Longrightarrow> wf_route cfg (shr p 2 AND 3, shr p 5 AND 65535)"
      using d rng(4) [of "shr p 5"]
      by (auto simp: wf_route_def int_one_le_iff_zero_less less_le)
    then show ?thesis
      using 7 rt by (auto simp: command_effect_def Let_def intro!: wf_core_routes [OF core] list_all_update)
  next
    case 8
    have "wf_core cfg (for_chosen (chosen_engines cfg (p AND NOT (shl 1 23))) (\<lambda>e. e\<lparr>e_fault := 0\<rparr>) r')"
      if "wf_core cfg r'" for r'
      by (rule wf_core_for_chosen [OF that _ distinct_chosen])
        (auto simp: set_chosen wf_engine_def wf_counters_def wf_masks_def wf_run_def byte_def)
    then show ?thesis using 8 core by (simp add: command_effect_def Let_def)
  next
    case 9
    then show ?thesis
      using core acc p by (simp add: command_effect_def command_rejected_def wf_core_def wf_host_def
        wf_mover_def wf_pins_def)
  next
    case 10
    have "wf_core cfg (for_chosen (chosen_engines cfg p) (\<lambda>e. e\<lparr>e_event := True\<rparr>) r)"
      by (rule wf_core_for_chosen [OF core _ distinct_chosen]) (auto simp: set_chosen wf_event)
    then show ?thesis using 10 by (simp add: command_effect_def Let_def)
  next
    case 11
    have "wf_core cfg (upd_eng r (r_selected r) (\<lambda>e. e\<lparr>e_tx := [], e_rx := []\<rparr>))"
      using config_ok_ranges(6) [OF cfg]
      by (rule_tac wf_core_upd [OF core sel])
        (auto simp: wf_engine_def wf_counters_def wf_masks_def wf_run_def wf_queue_def)
    then show ?thesis
      using 11 wf_flush_routes [OF core] by (simp add: command_effect_def Let_def wf_core_routes)
  next
    case 12
    have "wf_core cfg (upd_eng r (r_selected r) (\<lambda>e. e\<lparr>e_trigger := tr\<rparr>))"
      if "pred_option (\<lambda>tr. pin_no (fst tr) \<and> 0 \<le> snd tr \<and> snd tr \<le> 3) tr" for tr
      by (rule wf_core_upd [OF core sel])
        (use that in \<open>auto simp: wf_engine_def wf_counters_def wf_masks_def wf_run_def\<close>)
    then show ?thesis
      using 12 rng(2) [of "shr p 3"] by (simp add: command_effect_def pin_field)
  next
    case 2
    have "wf_core cfg (upd_eng r (r_selected r) (\<lambda>e. e\<lparr>e_running := False, e_committed := False,
        e_direction := 0, e_program := [], e_writing := True\<rparr>))"
      using e config_ok_ranges(8) [OF cfg]
      by (rule_tac wf_core_upd [OF core sel])
        (simp_all add: wf_engine_def wf_counters_def wf_masks_def wf_run_def wf_program_def byte_def)
    then show ?thesis using 2 by (simp add: command_effect_def Let_def)
  next
    case 3
    have "wf_core cfg (upd_eng r (r_selected r) (\<lambda>e. e\<lparr>e_committed := True, e_writing := False\<rparr>))"
      using e by (rule_tac wf_core_upd [OF core sel])
        (simp_all add: wf_engine_def wf_counters_def wf_masks_def wf_run_def)
    then show ?thesis using 3 by (simp add: command_effect_def Let_def)
  qed
qed

lemma command_effect_frame [simp]:
  "r_window (command_effect cfg r op p) = r_window r"
  "r_write_index (command_effect cfg r op p) = r_write_index r"
  "r_write_word (command_effect cfg r op p) = r_write_word r"
  "r_read_index (command_effect cfg r op p) = r_read_index r"
  "r_read_word (command_effect cfg r op p) = r_read_word r"
  "r_read_engine (command_effect cfg r op p) = r_read_engine r"
  "r_timestamp (command_effect cfg r op p) = r_timestamp r"
  "r_sync1 (command_effect cfg r op p) = r_sync1 r"
  "r_sync2 (command_effect cfg r op p) = r_sync2 r"
  "r_previous_pins (command_effect cfg r op p) = r_previous_pins r"
  by (simp_all add: command_effect_def Let_def)

lemma queues_kept_command_effect:
  assumes core: "wf_core cfg r" and acc: "\<not> command_rejected cfg r op p"
  shows "queues_kept cfg r (command_effect cfg r op p)"
proof -
  note len = wf_core_len [OF core] and sel = wf_core_selected [OF core]
  have chosen: "queues_kept cfg r (for_chosen (chosen_engines cfg m) f r')"
    if "\<And>e. e_tx (f e) = e_tx e" "\<And>e. e_rx (f e) = e_rx e" "r_engines r' = r_engines r" for m f r'
    using that len by (simp add: queues_kept_def eng_for_chosen) (simp add: eng_def)
  show ?thesis
  proof (cases "op = 10")
    case True
    then show ?thesis
      using acc len sel flush_routes_selected [OF core]
      by (auto simp: queues_kept_def command_effect_def command_rejected_def eng_upd_eng
        Let_def n_eng_def sel_engine_def eng_def upd_eng_def nth_list_update engine_no_def
          eq_nat_nat_iff)
  next
    case False
    then show ?thesis
      using len by (simp add: command_effect_def Let_def chosen queues_kept_upd start_def)
  qed
qed

lemma wf_command:
  assumes "config_ok cfg" "wf_core cfg r" "0 \<le> word" "word < 2 ^ 32"
  shows "wf_core cfg (fst (command cfg r word))" "queues_kept cfg r (fst (command cfg r word))"
  using wf_command_effect [OF assms(1,2)] queues_kept_command_effect [OF assms(2)]
    word_field_ranges(7,8) [of word] assms(2)
  by (simp_all add: command_def Let_def word_imm24_def)

lemma command_frame [simp]:
  "r_window (fst (command cfg r w)) = r_window r"
  "r_write_index (fst (command cfg r w)) = r_write_index r"
  "r_write_word (fst (command cfg r w)) = r_write_word r"
  "r_read_index (fst (command cfg r w)) = r_read_index r"
  "r_read_word (fst (command cfg r w)) = r_read_word r"
  "r_read_engine (fst (command cfg r w)) = r_read_engine r"
  by (simp_all add: command_def Let_def)

lemma wf_program_word:
  assumes "config_ok cfg" "wf_core cfg r"
  shows "wf_core cfg (fst (program_word cfg r word))"
    "queues_kept cfg r (fst (program_word cfg r word))"
    "r_window (fst (program_word cfg r word)) = r_window r"
    "r_read_word (fst (program_word cfg r word)) = r_read_word r"
    "r_read_engine (fst (program_word cfg r word)) = r_read_engine r"
proof -
  note sel = wf_core_selected [OF assms(2)] and len = wf_core_len [OF assms(2)]
  let ?f = "\<lambda>e. e\<lparr>e_program := e_program e @ [word AND 0xFFFFFFFF]\<rparr>"
  let ?e = "eng r (r_selected r)"
  have "wf_engine cfg ?e" using assms(2) sel by (auto simp: wf_core_def intro: wf_engines_eng)
  then have "int (length (e_program ?e)) \<noteq> cfg_program_words cfg \<Longrightarrow> wf_core cfg (upd_eng r (r_selected r) ?f)"
    using take_bit_int_less_exp [of 32 word]
    by (rule_tac wf_core_upd [OF assms(2) sel])
      (auto simp: wf_engine_def wf_counters_def wf_masks_def wf_run_def wf_program_def and_takes)
  then show "wf_core cfg (fst (program_word cfg r word))"
    using assms(2) by (simp add: program_word_def Let_def sel_engine_def)
  show "queues_kept cfg r (fst (program_word cfg r word))"
    using len by (simp add: program_word_def Let_def queues_kept_upd)
qed (simp_all add: program_word_def Let_def)

section \<open>The host's part of an edge\<close>

text \<open>
  What holds between the two parts of an edge: the core invariant, queues as before the
  edge unless flushed, the word under reading reserved, a popped engine reserved with a
  non-empty queue, a host word only for a queue with room.
\<close>

definition reserved_engine :: "chip \<Rightarrow> int \<Rightarrow> int option" where
  "reserved_engine r window = (if window = 3 \<and> window = r_window r then Some (r_selected r) else None)"

definition mid_ok ::
  "config \<Rightarrow> chip \<Rightarrow> int option \<Rightarrow> chip \<Rightarrow> int option \<Rightarrow> write_effect \<Rightarrow> bool" where
  "mid_ok cfg r0 reserved r host_rx w \<longleftrightarrow>
     wf_core cfg r \<and> queues_kept cfg r0 r \<and> wf_reading r
     \<and> (r_read_engine r \<noteq> None \<longrightarrow> reserved = Some (r_selected r))
     \<and> (r_window r = 3 \<longrightarrow> w_tx w = None)
     \<and> (\<forall>i. host_rx = Some i \<longrightarrow>
          engine_no cfg i \<and> e_rx (eng r i) \<noteq> [] \<and> r_read_engine r = None \<and> reserved = Some i
          \<and> e_rx (eng r i) = e_rx (eng r0 i))
     \<and> (\<forall>i x. w_tx w = Some (i, x) \<longrightarrow>
          engine_no cfg i \<and> word_in cfg x
          \<and> int (length (e_tx (eng r0 i))) < cfg_fifo_words cfg)"

definition no_effect :: "int \<Rightarrow> write_effect" where
  "no_effect external = \<lparr>w_event = 0, w_tx = None, w_edited_route = None, w_external = external\<rparr>"

text \<open>Changing the window and presenting a word to read.\<close>

lemma wf_core_transfer:
  assumes "wf_core cfg r"
  shows "0 \<le> i \<Longrightarrow> i \<le> 7 \<Longrightarrow> wf_core cfg (r\<lparr>r_read_index := i\<rparr>)"
    "wf_core cfg (r\<lparr>r_write_index := 0, r_write_word := 0\<rparr>)"
    "0 \<le> v \<Longrightarrow> v \<le> 3 \<Longrightarrow> wf_core cfg (r\<lparr>r_window := v, r_write_index := 0, r_write_word := 0,
       r_read_index := 0\<rparr>)"
    "0 \<le> i \<Longrightarrow> i \<le> 7 \<Longrightarrow> 0 \<le> x \<Longrightarrow> x < 2 ^ nat (4 * i)
       \<Longrightarrow> wf_core cfg (r\<lparr>r_write_word := x, r_write_index := i\<rparr>)"
  using assms by (simp_all add: wf_core_def wf_host_def wf_mover_def wf_pins_def)

lemma wf_core_window_change:
  assumes "wf_core cfg r" "0 \<le> v" "v \<le> 3"
  shows "wf_core cfg (window_change r v)"
proof -
  have "wf_core cfg (r\<lparr>r_window := v, r_write_index := 0, r_write_word := 0, r_read_index := 0,
      r_read_word := None, r_read_engine := None\<rparr>)"
    using wf_core_transfer(3) [OF assms] by simp
  then show ?thesis using assms(1) by (simp add: window_change_def)
qed

lemma window_change_simps [simp]:
  "r_engines (window_change r v) = r_engines r"
  "r_selected (window_change r v) = r_selected r"
  "r_window (window_change r v) = v"
  "r_routes (window_change r v) = r_routes r"
  "r_starts (window_change r v) = r_starts r" "r_stops (window_change r v) = r_stops r"
  "v = r_window r \<Longrightarrow> window_change r v = r"
  "v \<noteq> r_window r \<Longrightarrow> r_read_word (window_change r v) = None"
  "v \<noteq> r_window r \<Longrightarrow> r_read_engine (window_change r v) = None"
  by (simp_all add: window_change_def)

lemma wf_reading_window_change: "wf_reading r \<Longrightarrow> wf_reading (window_change r v)"
  by (cases "v = r_window r") (simp_all add: wf_reading_def window_change_def)

lemma present_read_simps [simp]:
  "r_engines (present_read r v c) = r_engines r"
  "r_selected (present_read r v c) = r_selected r"
  "r_window (present_read r v c) = r_window r"
  "r_routes (present_read r v c) = r_routes r"
  "r_starts (present_read r v c) = r_starts r" "r_stops (present_read r v c) = r_stops r"
  "r_read_index (present_read r v c) = r_read_index r"
  "r_write_index (present_read r v c) = r_write_index r"
  "r_write_word (present_read r v c) = r_write_word r"
  by (simp_all add: present_read_def split: prod.splits)

lemma wf_core_present_read: "wf_core cfg r \<Longrightarrow> wf_core cfg (present_read r v c)"
  by (simp add: present_read_def split: prod.splits)

lemma present_read_changed: "present_read r v True = r"
  by (simp add: present_read_def split: prod.splits)

lemma wf_reading_present_read:
  assumes "wf_reading r" "r_window r = v"
  shows "wf_reading (present_read r v c)"
proof (cases "r_read_word r")
  case None
  then show ?thesis
    using assms by (cases "v = 0"; cases "v = 3 \<and> e_rx (sel_engine r) \<noteq> []")
      (auto simp: present_read_def read_port_def wf_reading_def sel_engine_def eng_def)
next
  case (Some w)
  then show ?thesis using assms by (simp add: present_read_def split: prod.splits)
qed

text \<open>An accepted read.\<close>

lemma accept_read_cases:
  obtains (idle) "accept_read r ui pre = (r, None)"
  | (last) "r_read_index r = 7" "accept_read r ui pre =
      (r\<lparr>r_read_index := 0, r_read_word := None, r_read_engine := None\<rparr>, r_read_engine r)"
  | (nibble) "r_read_index r \<noteq> 7"
      "accept_read r ui pre = (r\<lparr>r_read_index := r_read_index r + 1\<rparr>, None)"
proof (cases "ui AND 32 \<noteq> 0 \<and> pre AND 32 \<noteq> 0")
  case False
  then have "accept_read r ui pre = (r, None)" by (simp only: accept_read_def if_False)
  then show thesis by (rule idle)
next
  case True
  then have eq: "accept_read r ui pre = (if r_read_index r = 7
      then (r\<lparr>r_read_index := 0, r_read_word := None, r_read_engine := None\<rparr>, r_read_engine r)
      else (r\<lparr>r_read_index := r_read_index r + 1\<rparr>, None))"
    by (simp only: accept_read_def simp_thms if_True)
  show thesis
  proof (cases "r_read_index r = 7")
    case True
    show thesis by (rule last [OF True]) (simp add: eq True)
  next
    case False
    show thesis by (rule nibble [OF False]) (simp add: eq False)
  qed
qed

lemma wf_accept_read:
  assumes core: "wf_core cfg r" and rd: "wf_reading r"
    and ar: "accept_read r ui pre = (r', host_rx)"
  shows "wf_core cfg r' \<and> wf_reading r' \<and> r_engines r' = r_engines r
    \<and> r_selected r' = r_selected r \<and> r_window r' = r_window r \<and> r_routes r' = r_routes r
    \<and> r_starts r' = r_starts r \<and> r_stops r' = r_stops r
    \<and> (r_read_engine r' \<noteq> None \<longrightarrow> r_read_engine r \<noteq> None)
    \<and> (\<forall>i. host_rx = Some i \<longrightarrow> i = r_selected r \<and> e_rx (eng r i) \<noteq> [] \<and> r_read_engine r' = None
       \<and> r_read_engine r \<noteq> None)"
proof (cases rule: accept_read_cases [of r ui pre])
  case idle
  then show ?thesis using assms by auto
next
  case last
  then have eq: "r' = r\<lparr>r_read_index := 0, r_read_word := None, r_read_engine := None\<rparr>"
    "host_rx = r_read_engine r"
    using ar by simp_all
  have sel: "r_read_engine r = Some i \<Longrightarrow> i = r_selected r \<and> e_rx (eng r i) \<noteq> []" for i
    using wf_reading_engine(1,3) [OF rd] by (auto simp: sel_engine_def)
  show ?thesis
    using wf_core_transfer(1) [OF core, of 0] sel by (simp add: eq wf_reading_def)
next
  case nibble
  then have eq: "r' = r\<lparr>r_read_index := r_read_index r + 1\<rparr>" "host_rx = None"
    using ar by simp_all
  have "wf_core cfg r'"
    unfolding eq by (rule wf_core_transfer(1) [OF core]) (use core nibble(1) in
      \<open>auto simp: wf_core_def wf_host_def\<close>)
  then show ?thesis
    using rd by (simp add: eq wf_reading_def split: option.splits)
qed

lemma write_word_bound:
  assumes "wf_host cfg r"
  shows "0 \<le> r_write_word r OR shl (n AND 15) (4 * r_write_index r)"
    "r_write_word r OR shl (n AND 15) (4 * r_write_index r) < 2 ^ nat (4 * (r_write_index r + 1))"
proof -
  let ?k = "nat (4 * r_write_index r)"
  have idx: "nat (4 * (r_write_index r + 1)) = ?k + 4"
    using assms by (simp add: wf_host_def nat_add_distrib)
  have w: "0 \<le> r_write_word r" "r_write_word r < 2 ^ ?k"
    using assms by (simp_all add: wf_host_def)
  have "0 \<le> n AND 15" "n AND 15 < 16"
    using take_bit_int_less_exp [of 4 n] by (simp_all add: and_takes)
  then have nib: "0 \<le> shl (n AND 15) (4 * r_write_index r)"
    "shl (n AND 15) (4 * r_write_index r) < 2 ^ (?k + 4)"
    by (simp_all add: push_bit_eq_mult power_add del: push_bit_and)
  have "r_write_word r < 2 ^ (?k + 4)"
    using w(2) power_increasing [of ?k "?k + 4" "2::int"] by linarith
  from or_lt_pow [OF w(1) this nib]
  show "0 \<le> r_write_word r OR shl (n AND 15) (4 * r_write_index r)"
    "r_write_word r OR shl (n AND 15) (4 * r_write_index r) < 2 ^ nat (4 * (r_write_index r + 1))"
    unfolding idx by simp_all
qed

text \<open>An accepted write. The words the host completes are 32-bit words.\<close>

definition effect_ok :: "config \<Rightarrow> chip \<Rightarrow> int \<Rightarrow> write_effect \<Rightarrow> bool" where
  "effect_ok cfg r window w \<longleftrightarrow>
     (\<forall>i x. w_tx w = Some (i, x) \<longrightarrow> i = r_selected r \<and> word_in cfg x \<and> window = 2)"

lemma wf_complete_word:
  assumes cfg: "config_ok cfg" and core: "wf_core cfg r" and "0 \<le> word" "word < 2 ^ 32"
    and eq: "complete_word cfg r window word ext = (r', w)"
  shows "wf_core cfg r'" "queues_kept cfg r r'" "effect_ok cfg r window w"
    "window = 2 \<or> window = 3 \<Longrightarrow> r' = r"
    "r_window r' = r_window r" "r_read_word r' = r_read_word r"
    "r_read_engine r' = r_read_engine r"
proof -
  consider (cmd) "window = 0" "r' = fst (command cfg r word)" "w_tx w = None"
    | (prog) "window = 1" "r' = fst (program_word cfg r word)" "w_tx w = None"
    | (tx) "window = 2" "r' = r" "w_tx w = Some (r_selected r, word AND cfg_mask cfg)"
    | (other) "window \<noteq> 0" "window \<noteq> 1" "r' = r" "w_tx w = None"
    using eq by (auto simp: complete_word_def Let_def split: if_splits prod.splits)
  note cases = this
  show "wf_core cfg r'" "queues_kept cfg r r'"
    by (cases rule: cases; simp add: wf_command [OF cfg core assms(3,4)] wf_program_word [OF cfg core]
      core)+
  show "effect_ok cfg r window w"
    by (cases rule: cases) (simp_all add: effect_ok_def)
  show "window = 2 \<or> window = 3 \<Longrightarrow> r' = r"
    by (cases rule: cases) simp_all
  show "r_window r' = r_window r" "r_read_word r' = r_read_word r"
    "r_read_engine r' = r_read_engine r"
    by (cases rule: cases; simp add: wf_program_word [OF cfg core])+
qed

lemma accept_write_cases:
  obtains (idle) "accept_write cfg r v ui pre ext = (r, no_effect ext)"
  | (last) "r_write_index r = 7" "pre AND 16 \<noteq> 0"
      "accept_write cfg r v ui pre ext =
      complete_word cfg (r\<lparr>r_write_index := 0, r_write_word := 0\<rparr>) v
        (r_write_word r OR shl (ui AND 15) (4 * r_write_index r)) ext"
  | (nibble) "r_write_index r \<noteq> 7"
      "accept_write cfg r v ui pre ext =
      (r\<lparr>r_write_word := r_write_word r OR shl (ui AND 15) (4 * r_write_index r),
         r_write_index := r_write_index r + 1\<rparr>, no_effect ext)"
proof (cases "ui AND 16 \<noteq> 0 \<and> pre AND 16 \<noteq> 0")
  case False
  then have "accept_write cfg r v ui pre ext = (r, no_effect ext)"
    by (simp only: accept_write_def no_effect_def if_False)
  then show thesis by (rule idle)
next
  case accepted: True
  show thesis
  proof (cases "r_write_index r = 7")
    case True
    then show thesis
      using accepted
      by (intro last) (simp_all only: accept_write_def Let_def simp_thms if_True)
  next
    case False
    then show thesis
      using accepted
      by (intro nibble) (simp_all only: accept_write_def no_effect_def Let_def simp_thms if_True if_False)
  qed
qed

lemma wf_accept_write:
  assumes cfg: "config_ok cfg" and core: "wf_core cfg r" and rd: "wf_reading r"
    and win: "r_window r = window"
    and eq: "accept_write cfg r window ui pre ext = (r', w)"
  shows "wf_core cfg r' \<and> queues_kept cfg r r' \<and> wf_reading r' \<and> effect_ok cfg r window w
    \<and> (w_tx w \<noteq> None \<longrightarrow> pre AND 16 \<noteq> 0)
    \<and> r_window r' = window \<and> r_read_engine r' = r_read_engine r
    \<and> (window = 3 \<longrightarrow> r_engines r' = r_engines r \<and> r_selected r' = r_selected r)"
proof (cases rule: accept_write_cases [of cfg r window ui pre ext])
  case idle
  then show ?thesis using assms by (auto simp: no_effect_def effect_ok_def)
next
  case last
  let ?r = "r\<lparr>r_write_index := 0, r_write_word := 0\<rparr>"
  let ?x = "r_write_word r OR shl (ui AND 15) (4 * r_write_index r)"
  have h: "wf_host cfg r" using core by (simp add: wf_core_def)
  have x: "0 \<le> ?x" "?x < 2 ^ 32"
    using write_word_bound [OF h, of ui] last(1) by simp_all
  have core': "wf_core cfg ?r" by (rule wf_core_transfer(2) [OF core])
  have eq': "complete_word cfg ?r window ?x ext = (r', w)" using eq last(3) by simp
  note c = wf_complete_word [OF cfg core' x eq']
  have kept: "queues_kept cfg r r'" using c(2) by (simp add: queues_kept_def)
  have "wf_reading r'"
  proof (cases "window = 3")
    case True
    then show ?thesis using c(4) rd by (simp add: wf_reading_def split: option.splits)
  next
    case False
    then show ?thesis using c(5-7) rd win by (auto simp: wf_reading_def split: option.splits)
  qed
  then show ?thesis
    using c kept last(2) win by (simp add: effect_ok_def)
next
  case nibble
  have h: "wf_host cfg r" using core by (simp add: wf_core_def)
  have i: "0 \<le> r_write_index r + 1" "r_write_index r + 1 \<le> 7"
    using h nibble(1) by (auto simp: wf_host_def)
  have r': "r' = r\<lparr>r_write_word := r_write_word r OR shl (ui AND 15) (4 * r_write_index r),
      r_write_index := r_write_index r + 1\<rparr>" and w: "w = no_effect ext"
    using eq nibble(2) by simp_all
  have "wf_core cfg r'"
    unfolding r' by (rule wf_core_transfer(4) [OF core i write_word_bound [OF h]])
  moreover have "wf_reading r'"
    using rd by (simp add: r' wf_reading_def split: option.splits)
  ultimately show ?thesis
    using win by (simp add: r' w no_effect_def effect_ok_def)
qed

text \<open>The host phase as a whole.\<close>

lemma window_field: "0 \<le> shr ui 6 AND 3" "shr ui 6 AND 3 \<le> 3"
  using take_bit_int_less_exp [of 2 "shr ui 6"] by (simp_all add: and_takes)

lemma wf_host_phase:
  assumes cfg: "config_ok cfg" and wf: "wf_chip cfg r"
    and eq: "host_phase cfg r ui = (r', host_rx, w)"
  shows "mid_ok cfg r (reserved_engine r (shr ui 6 AND 3)) r' host_rx w"
proof -
  define v where "v = shr ui 6 AND 3"
  define pre where "pre = o_uo (outputs cfg r ui False True)"
  define r1 where "r1 = window_change r v"
  define r2 where "r2 = present_read r1 v (v \<noteq> r_window r)"
  obtain r3 hrx where ar: "accept_read r2 ui pre = (r3, hrx)" by (cases "accept_read r2 ui pre")
  have aw: "accept_write cfg r3 v ui pre (trigger_events r1) = (r', w)" and hrx: "hrx = host_rx"
    using eq ar by (auto simp: host_phase_def Let_def v_def pre_def r1_def r2_def split: prod.splits)
  have v: "0 \<le> v" "v \<le> 3" unfolding v_def by (rule window_field)+
  have core0: "wf_core cfg r" and rd0: "wf_reading r"
    using wf by (simp_all add: wf_chip_def wf_core_def)
  have core1: "wf_core cfg r1" unfolding r1_def by (rule wf_core_window_change [OF core0 v])
  have rd1: "wf_reading r1" unfolding r1_def by (rule wf_reading_window_change [OF rd0])
  have core2: "wf_core cfg r2" unfolding r2_def by (rule wf_core_present_read [OF core1])
  have rd2: "wf_reading r2"
    unfolding r2_def by (rule wf_reading_present_read [OF rd1]) (simp add: r1_def)
  have eng2: "r_engines r2 = r_engines r" "r_selected r2 = r_selected r" "r_window r2 = v"
    by (simp_all add: r2_def r1_def)
  have fresh: "r_read_engine r2 = None" if "v \<noteq> r_window r"
    using that by (simp add: r2_def r1_def present_read_changed)
  from wf_accept_read [OF core2 rd2 ar]
  have core3: "wf_core cfg r3" and rd3: "wf_reading r3" and eng3: "r_engines r3 = r_engines r"
    and sel3: "r_selected r3 = r_selected r" and win3: "r_window r3 = v"
    and re3: "r_read_engine r3 \<noteq> None \<Longrightarrow> r_read_engine r2 \<noteq> None"
    and pop: "\<And>i. hrx = Some i \<Longrightarrow> i = r_selected r \<and> e_rx (eng r i) \<noteq> [] \<and> r_read_engine r3 = None
      \<and> r_read_engine r2 \<noteq> None"
    using eng2 by (auto simp: eng_def)
  from wf_accept_write [OF cfg core3 rd3 win3 aw]
  have core': "wf_core cfg r'" and kept: "queues_kept cfg r3 r'" and rd': "wf_reading r'"
    and eff: "effect_ok cfg r3 v w" and rdy: "w_tx w \<noteq> None \<Longrightarrow> pre AND 16 \<noteq> 0"
    and win': "r_window r' = v" and re': "r_read_engine r' = r_read_engine r3"
    and same: "v = 3 \<Longrightarrow> r_engines r' = r_engines r3 \<and> r_selected r' = r_selected r3"
    by auto
  have reading: "v = 3 \<and> v = r_window r" if "r_read_engine r2 \<noteq> None"
  proof
    show "v = 3" using that wf_reading_engine(2) [OF rd2] eng2(3) by auto
    show "v = r_window r" using that fresh by (cases "v = r_window r") auto
  qed
  have sel: "engine_no cfg (r_selected r)" by (rule wf_core_selected [OF core0])
  have "queues_kept cfg r r'" using kept eng3 by (simp add: queues_kept_def eng_def)
  moreover have "r_read_engine r' \<noteq> None \<longrightarrow> reserved_engine r v = Some (r_selected r')"
  proof
    assume "r_read_engine r' \<noteq> None"
    then have "r_read_engine r2 \<noteq> None" using re' re3 by simp
    from reading [OF this] show "reserved_engine r v = Some (r_selected r')"
      using same sel3 by (simp add: reserved_engine_def)
  qed
  moreover have "engine_no cfg i \<and> e_rx (eng r' i) \<noteq> [] \<and> r_read_engine r' = None
      \<and> reserved_engine r v = Some i \<and> e_rx (eng r' i) = e_rx (eng r i)" if "host_rx = Some i" for i
    using pop that hrx sel reading same eng3 re' by (auto simp: reserved_engine_def eng_def)
  moreover have "engine_no cfg i \<and> word_in cfg x \<and> int (length (e_tx (eng r i))) < cfg_fifo_words cfg"
    if tx: "w_tx w = Some (i, x)" for i x
  proof -
    have v2: "v = 2" "i = r_selected r" "word_in cfg x" using eff tx sel3 by (simp_all add: effect_ok_def)
    have "bit pre 4" using rdy tx by (simp add: and_bit_iff)
    then have "ready cfg r v" unfolding pre_def v_def by (simp add: outputs_uo_bits)
    then show ?thesis using v2 sel by (simp add: ready_def Let_def sel_engine_def)
  qed
  moreover have "v = 3 \<longrightarrow> w_tx w = None"
    using eff by (cases "w_tx w") (auto simp: effect_ok_def)
  ultimately show ?thesis
    using core' rd' win' unfolding mid_ok_def v_def [symmetric] by blast
qed

section \<open>The engines' part of an edge\<close>

lemma apply_change_eq:
  assumes "pop \<Longrightarrow> e_tx e \<noteq> []" "tk \<Longrightarrow> e_rx e \<noteq> []"
  shows "apply_change e (pop, push, s) tk sg =
    Some (e\<lparr>e_tx := (if pop then tl (e_tx e) else e_tx e),
            e_rx := (if tk then tl (e_rx e) else e_rx e) @ (if push then [reg e 1] else []),
            e_event := e_event e \<or> sg\<rparr>)"
proof -
  have "e_tx e = hd (e_tx e) # tl (e_tx e)" if pop using assms(1) that by simp
  moreover have "e_rx e = hd (e_rx e) # tl (e_rx e)" if tk using assms(2) that by simp
  ultimately show ?thesis
    by (cases pop; cases tk; cases push; cases sg; cases e)
      (auto simp: apply_change_def pop_tx_def pop_rx_def Let_def reg_def split: list.splits)
qed

text \<open>The mover takes a word from a queue that is not empty and not reserved, for a
  queue that has room and that the host does not write.\<close>

lemma dma_move_cases:
  assumes "dma_move cfg r txc rxc heads reserved w = (r', dma)"
  obtains (idle) "r' = r" "dma = None"
  | (move) s d n where "s \<in> set (dma_order cfg r)" "r_routes r ! nat s = Some (d, n)"
      "rxc ! nat s \<noteq> 0" "reserved \<noteq> Some s" "txc ! nat d < cfg_fifo_words cfg"
      "\<And>x. w_tx w \<noteq> Some (d, x)" "dma = Some (s, d, heads ! nat s)"
      "r' = r\<lparr>r_routes := (r_routes r)[nat s := (if n > 1 then Some (d, n - 1) else None)],
              r_round_robin := (s + 1) mod cfg_engines cfg\<rparr>"
proof (cases "find (dma_ready cfg r txc rxc reserved w) (dma_order cfg r)")
  case None
  then show thesis using assms idle by (simp add: dma_move_def)
next
  case (Some s)
  then have s: "s \<in> set (dma_order cfg r)" "dma_ready cfg r txc rxc reserved w s"
    by (auto simp: find_Some_iff)
  obtain d n where route: "r_routes r ! nat s = Some (d, n)"
    using s(2) by (auto simp: dma_ready_def split: option.splits)
  show thesis
    using s route assms Some
    by (intro move [of s d n]) (auto simp: dma_ready_def dma_move_def split: option.splits)
qed

lemma dma_order_engine:
  assumes "config_ok cfg" "s \<in> set (dma_order cfg r)"
  shows "engine_no cfg s"
  using assms config_ok_ranges(4) [OF assms(1)] by (auto simp: dma_order_def engine_no_def)

lemma wf_dma_move:
  assumes cfg: "config_ok cfg" and core: "wf_core cfg r" and rd: "wf_reading r"
    and eq: "dma_move cfg r txc rxc heads reserved w = (r', dma)"
  shows "wf_core cfg r'" "wf_reading r'" "r_engines r' = r_engines r"
    "r_selected r' = r_selected r" "r_read_engine r' = r_read_engine r"
    "r_sync1 r' = r_sync1 r" "r_sync2 r' = r_sync2 r" "r_window r' = r_window r"
    "r_starts r' = r_starts r" "r_stops r' = r_stops r" "r_timestamp r' = r_timestamp r"
proof -
  have upd: "wf_core cfg (r\<lparr>r_routes := rts, r_round_robin := k\<rparr>)"
    if "length rts = n_eng cfg" "list_all (pred_option (wf_route cfg)) rts" "engine_no cfg k" for rts k
    using core that by (simp add: wf_core_def wf_host_def wf_mover_def wf_pins_def)
  note rt = wf_core_routesD [OF core]
  show "wf_core cfg r'"
    using eq
  proof (cases rule: dma_move_cases)
    case idle
    then show ?thesis using core by simp
  next
    case (move s d n)
    have s: "nat s < n_eng cfg" by (rule engine_no_nat [OF dma_order_engine [OF cfg move(1)]])
    have "pred_option (wf_route cfg) (r_routes r ! nat s)" using rt s by (simp add: list_all_nth)
    then have "pred_option (wf_route cfg) (if n > 1 then Some (d, n - 1) else None)"
      using move(2) by (simp add: wf_route_def)
    moreover have "engine_no cfg ((s + 1) mod cfg_engines cfg)"
      using config_ok_ranges(4) [OF cfg] by (simp add: engine_no_def)
    ultimately show ?thesis
      unfolding move(8) using rt by (intro upd) (simp_all add: list_all_update)
  qed
  show "wf_reading r'" using eq
    by (cases rule: dma_move_cases) (use rd in \<open>auto simp: wf_reading_def split: option.splits\<close>)
qed (use eq in \<open>cases rule: dma_move_cases; simp\<close>)+

text \<open>The step of an engine on this edge never raises.\<close>

lemma step_not_running: "\<not> e_running e \<Longrightarrow> step cfg s ts e ta rs = quiet (e\<lparr>e_stalled := False\<rparr>)"
  by (simp add: step_def)

text \<open>What a step leaves alone: the loaded program and the pins; an engine only stops.\<close>

definition ctl_kept :: "engine \<Rightarrow> engine \<Rightarrow> bool" where
  "ctl_kept e e' \<longleftrightarrow>
     e_program e' = e_program e \<and> e_committed e' = e_committed e \<and> e_writing e' = e_writing e
     \<and> e_ownership e' = e_ownership e \<and> e_open_drain e' = e_open_drain e
     \<and> (e_running e' \<longrightarrow> e_running e)"

text \<open>The word a running engine issues, and the engines that take a word from their TX queue or put one
  into their RX queue on an edge, read off the instruction words.\<close>

definition issues_word :: "engine \<Rightarrow> int \<Rightarrow> bool" where
  "issues_word e w \<longleftrightarrow> e_running e \<and> e_committed e \<and> e_wait e = 0 \<and> e_transfer e = None \<and>
     0 \<le> e_pc e \<and> e_pc e < int (length (e_program e)) \<and> w = e_program e ! nat (e_pc e)"

definition pulls :: "engine \<Rightarrow> bool" where
  "pulls e \<longleftrightarrow> (\<exists>w. issues_word e w \<and> word_op w = 6 \<and> word_imm24 w = 0) \<and> e_tx e \<noteq> []"

definition pushes :: "config \<Rightarrow> engine \<Rightarrow> bool" where
  "pushes cfg e \<longleftrightarrow> (\<exists>w. issues_word e w \<and> word_op w = 7 \<and> word_a w \<le> 1 \<and> word_b w = 0 \<and> word_c w = 0) \<and>
     int (length (e_rx e)) < cfg_fifo_words cfg"

definition on_edge :: "chip \<Rightarrow> int \<Rightarrow> bool" where
  "on_edge r i \<longleftrightarrow> i \<notin> r_starts r \<and> i \<notin> r_stops r"

lemma execute_queues:
  assumes "execute cfg s ts e w ta rs = Some (e', pop, push, sg)" "e_regs e \<noteq> []"
  shows "pop \<longleftrightarrow> word_op w = 6 \<and> ta" "pop \<Longrightarrow> reg e' 0 = hd (e_tx e)"
    "push \<longleftrightarrow> word_op w = 7 \<and> rs" "push \<Longrightarrow> reg e' 1 = reg e 1"
  using assms
  by (auto simp: execute_def Let_def retire_def quiet_def exec_pull_def exec_push_def exec_wait_def exec_xfer_def reg_def
    set_reg_def split: prod.splits if_splits list.splits)

lemma step_queues:
  assumes "step cfg s ts e ta rs = Some (e', pop, push, sg)" "wf_engine cfg e"
    "e_running e \<Longrightarrow> ta = (e_tx e \<noteq> [])" "e_running e \<Longrightarrow> rs = (int (length (e_rx e)) < cfg_fifo_words cfg)"
  shows "pop \<longleftrightarrow> pulls e" "pop \<Longrightarrow> reg e' 0 = hd (e_tx e)" "push \<longleftrightarrow> pushes cfg e" "push \<Longrightarrow> reg e' 1 = reg e 1"
proof -
  let ?e = "e\<lparr>e_stalled := False\<rparr>"
  consider (idle) "\<not> e_running e \<or> e_wait e \<noteq> 0 \<or> e_transfer e \<noteq> None"
    | (range) "e_running e" "e_wait e = 0" "e_transfer e = None" "\<not> (0 \<le> e_pc e \<and> e_pc e < int (length (e_program e))) \<or> \<not> e_committed e"
    | (issue) "e_running e" "e_wait e = 0" "e_transfer e = None" "0 \<le> e_pc e" "e_pc e < int (length (e_program e))" "e_committed e"
    by auto
  then have "(pop \<longleftrightarrow> pulls e) \<and> (pop \<longrightarrow> reg e' 0 = hd (e_tx e)) \<and> (push \<longleftrightarrow> pushes cfg e) \<and> (push \<longrightarrow> reg e' 1 = reg e 1)"
  proof cases
    case issue
    define w where "w = e_program e ! nat (e_pc e)"
    have regs: "e_regs ?e \<noteq> []" using assms(2) by (auto simp: wf_engine_def wf_regs_def)
    have pq: "pulls e \<longleftrightarrow> word_op w = 6 \<and> word_imm24 w = 0 \<and> e_tx e \<noteq> []"
      "pushes cfg e \<longleftrightarrow> word_op w = 7 \<and> word_a w \<le> 1 \<and> word_b w = 0 \<and> word_c w = 0 \<and> int (length (e_rx e)) < cfg_fifo_words cfg"
      using issue by (auto simp: pulls_def pushes_def issues_word_def w_def)
    consider (bad) code where "operand_check cfg w = Some code" | (pins) "operand_check cfg w = None" "ownership_check (e_ownership e) w"
      | (run) "operand_check cfg w = None" "\<not> ownership_check (e_ownership e) w" by (cases "operand_check cfg w") auto
    then show ?thesis
    proof cases
      case bad
      then have "\<not> pulls e" "\<not> pushes cfg e" by (auto simp: pq operand_check_def Let_def split: if_splits)
      then show ?thesis using assms(1) issue bad by (auto simp: step_def Let_def w_def quiet_def)
    next
      case pins
      then have "\<not> pulls e" "\<not> pushes cfg e" by (auto simp: pq ownership_check_def)
      then show ?thesis using assms(1) issue pins by (auto simp: step_def Let_def w_def quiet_def)
    next
      case run
      have x: "execute cfg s ts ?e w ta rs = Some (e', pop, push, sg)" using assms(1) issue run by (simp add: step_def Let_def w_def)
      have o: "word_op w = 6 \<Longrightarrow> word_imm24 w = 0" "word_op w = 7 \<Longrightarrow> word_a w \<le> 1 \<and> word_b w = 0 \<and> word_c w = 0"
        using run(1) by (auto simp: operand_check_def Let_def split: if_splits)
      show ?thesis using execute_queues [OF x regs] o assms(3,4) issue(1) by (auto simp: pq reg_def)
    qed
  next
    case idle
    then show ?thesis using assms(1)
      by (auto simp: step_def Let_def quiet_def pulls_def pushes_def issues_word_def split: if_splits option.splits)
  next
    case range
    then show ?thesis using assms(1)
      by (auto simp: step_def Let_def quiet_def pulls_def pushes_def issues_word_def split: if_splits option.splits)
  qed
  then show "pop \<longleftrightarrow> pulls e" "pop \<Longrightarrow> reg e' 0 = hd (e_tx e)" "push \<longleftrightarrow> pushes cfg e" "push \<Longrightarrow> reg e' 1 = reg e 1" by blast+
qed

definition step_ok ::
  "config \<Rightarrow> chip \<Rightarrow> chip \<Rightarrow> int \<Rightarrow> engine \<times> change \<Rightarrow> bool" where
  "step_ok cfg r0 r i res \<longleftrightarrow>
     (case res of (e, pop, push, sg) \<Rightarrow>
        wf_engine cfg e \<and> e_tx e = e_tx (eng r i) \<and> e_rx e = e_rx (eng r i)
        \<and> e_ownership e = e_ownership (eng r i) \<and> ctl_kept (eng r i) e \<and> (pop \<longrightarrow> e_tx e \<noteq> [])
        \<and> (pop \<longleftrightarrow> on_edge r i \<and> pulls (eng r i)) \<and> (pop \<longrightarrow> reg e 0 = hd (e_tx (eng r i)))
        \<and> (push \<longleftrightarrow> on_edge r i \<and> pushes cfg (eng r i)) \<and> (push \<longrightarrow> reg e 1 = reg (eng r i) 1)
        \<and> (push \<longrightarrow> int (length (e_rx (eng r0 i))) < cfg_fifo_words cfg))"

lemma step_engine_ok:
  assumes cfg: "config_ok cfg" and core: "wf_core cfg r" and kept: "queues_kept cfg r0 r"
    and i: "engine_no cfg i" and len: "length (r_engines r0) = n_eng cfg"
  shows "\<exists>res. step_engine cfg r ev (map (\<lambda>e. int (length (e_tx e))) (r_engines r0))
      (map (\<lambda>e. int (length (e_rx e))) (r_engines r0)) i = Some res \<and> step_ok cfg r0 r i res"
proof -
  define e where "e = (eng r i)\<lparr>e_event := ev ! nat i\<rparr>"
  have wf: "wf_engine cfg e"
    using core i wf_engines_eng [of cfg r i] by (simp add: e_def wf_event wf_core_def)
  have eqs: "e_tx e = e_tx (eng r i)" "e_rx e = e_rx (eng r i)" "e_ownership e = e_ownership (eng r i)"
    "e_running e = e_running (eng r i)" "ctl_kept (eng r i) e"
    by (simp_all add: e_def ctl_kept_def)
  let ?ta = "int (length (e_tx (eng r0 i))) \<noteq> 0"
  let ?rs = "int (length (e_rx (eng r0 i))) < cfg_fifo_words cfg"
  have counts: "map (\<lambda>e. int (length (e_tx e))) (r_engines r0) ! nat i = int (length (e_tx (eng r0 i)))"
    "map (\<lambda>e. int (length (e_rx e))) (r_engines r0) ! nat i = int (length (e_rx (eng r0 i)))"
    using engine_no_nat [OF i] len by (simp_all add: eng_def)
  let ?st = "step cfg (r_sync2 r) (r_timestamp r) e ?ta ?rs"
  have good: "good_result cfg e ?ta ?rs ?st" by (rule good_step [OF cfg wf])
  have "?st \<noteq> None"
  proof (cases "e_running e")
    case True
    then have "e_tx (eng r i) = e_tx (eng r0 i)" using kept i eqs by (auto simp: queues_kept_def)
    then have "\<not> (?ta \<and> e_tx e = [])" using eqs(1) by auto
    moreover have "?ta \<and> e_tx e = []" if "?st = None"
    proof -
      have "good_result cfg e ?ta ?rs None" using good that by (simp only:)
      then show ?thesis unfolding good_result_def option.case .
    qed
    ultimately show ?thesis by blast
  next
    case False
    then show ?thesis by (simp add: step_not_running quiet_def)
  qed
  then obtain e' pop push sg where st: "?st = Some (e', pop, push, sg)" by (cases ?st) auto
  have run: "e_running e \<Longrightarrow> e_tx (eng r i) = e_tx (eng r0 i) \<and> e_rx (eng r i) = e_rx (eng r0 i)"
    using kept i eqs by (auto simp: queues_kept_def)
  have pq: "pulls e = pulls (eng r i)" "pushes cfg e = pushes cfg (eng r i)" "reg e 1 = reg (eng r i) 1"
    by (simp_all add: e_def pulls_def pushes_def issues_word_def reg_def)
  have "pop = pulls e \<and> (pop \<longrightarrow> reg e' 0 = hd (e_tx e)) \<and> push = pushes cfg e \<and> (push \<longrightarrow> reg e' 1 = reg e 1)"
    using step_queues [OF st wf] run eqs(1,2) by simp
  then have "step_ok cfg r0 r i (e', pop, push, sg)" if "on_edge r i"
    using good st eqs that unfolding pq by (auto simp: good_result_def step_ok_def same_config_def ctl_kept_def)
  moreover have "step_ok cfg r0 r i (e, False, False, 0)" if "\<not> on_edge r i"
    using wf eqs that by (simp add: step_ok_def)
  moreover have "i \<in> r_starts r \<or> i \<in> r_stops r \<longleftrightarrow> \<not> on_edge r i" by (simp add: on_edge_def)
  ultimately show ?thesis
    using st unfolding step_engine_def Let_def e_def [symmetric] counts by (metis (full_types))
qed

text \<open>All engines of an edge: the steps, then the queue changes.\<close>

lemma those_map_Some:
  assumes "\<And>x. x \<in> set xs \<Longrightarrow> \<exists>y. f x = Some y \<and> P x y"
  shows "\<exists>ys. those (map f xs) = Some ys \<and> length ys = length xs \<and> (\<forall>i < length xs. P (xs ! i) (ys ! i))"
  using assms
proof (induction xs)
  case Nil
  then show ?case by simp
next
  case (Cons x xs)
  obtain y where y: "f x = Some y" "P x y" using Cons.prems by auto
  obtain ys where ys: "those (map f xs) = Some ys" "length ys = length xs"
    "\<forall>i < length xs. P (xs ! i) (ys ! i)"
    using Cons.IH Cons.prems by auto
  have "P ((x # xs) ! i) ((y # ys) ! i)" if "i < length (x # xs)" for i
    using y ys that by (cases i) auto
  with y ys show ?case by (intro exI [of _ "y # ys"]) auto
qed

lemma those_map_nth:
  "those (map f xs) = Some ys \<Longrightarrow> i < length xs \<Longrightarrow> f (xs ! i) = Some (ys ! i)"
proof (induction xs arbitrary: ys i)
  case (Cons x xs)
  then show ?case by (cases i) (auto split: option.splits)
qed simp

lemma step_engines_ok:
  assumes cfg: "config_ok cfg" and core: "wf_core cfg r" and kept: "queues_kept cfg r0 r"
    and len: "length (r_engines r0) = n_eng cfg"
  shows "\<exists>sts. step_engines cfg r ev (map (\<lambda>e. int (length (e_tx e))) (r_engines r0))
      (map (\<lambda>e. int (length (e_rx e))) (r_engines r0)) = Some sts \<and> length sts = n_eng cfg
      \<and> (\<forall>i < n_eng cfg. step_ok cfg r0 r (int i) (sts ! i))"
proof -
  have n: "length (r_engines r) = n_eng cfg" by (rule wf_core_len [OF core])
  have "\<exists>res. step_engine cfg r ev (map (\<lambda>e. int (length (e_tx e))) (r_engines r0))
      (map (\<lambda>e. int (length (e_rx e))) (r_engines r0)) i = Some res \<and> step_ok cfg r0 r i res"
    if "i \<in> set (py_range (int (length (r_engines r))))" for i
  proof -
    have "engine_no cfg i" using that n by (auto simp: engine_no_def n_eng_def split: if_splits)
    from step_engine_ok [OF cfg core kept this len] show ?thesis .
  qed
  from those_map_Some [where xs = "py_range (int (length (r_engines r)))", OF this]
  show ?thesis by (simp add: step_engines_def n)
qed

text \<open>The engine after the changes of the edge.\<close>

definition changed_engine :: "engine \<times> change \<Rightarrow> bool \<Rightarrow> bool \<Rightarrow> engine" where
  "changed_engine st tk sg =
     (case st of (e, pop, push, _) \<Rightarrow>
        e\<lparr>e_tx := (if pop then tl (e_tx e) else e_tx e),
          e_rx := (if tk then tl (e_rx e) else e_rx e) @ (if push then [reg e 1] else []),
          e_event := e_event e \<or> sg\<rparr>)"

definition taken :: "int option \<Rightarrow> (int \<times> int \<times> int) option \<Rightarrow> int \<Rightarrow> bool" where
  "taken host_rx dma i \<longleftrightarrow> host_rx = Some i \<or> (\<exists>d. dma = Some (i, d))"

lemma apply_changes_eq:
  assumes "length sts = n_eng cfg" "\<forall>i < n_eng cfg. step_ok cfg r0 r (int i) (sts ! i)"
    "\<And>i. engine_no cfg i \<Longrightarrow> taken host_rx dma i \<Longrightarrow> e_rx (eng r i) \<noteq> []"
  shows "apply_changes sts host_rx dma signals =
    Some (map (\<lambda>i. changed_engine (sts ! i) (taken host_rx dma (int i)) (has_bit signals (int i)))
            [0..<n_eng cfg])"
proof -
  define f where "f = (\<lambda>i::int. case sts ! nat i of (e, ch) \<Rightarrow>
      apply_change e ch (host_rx = Some i \<or> (\<exists>d. dma = Some (i, d))) (has_bit signals i))"
  define g where "g = (\<lambda>i::int. changed_engine (sts ! nat i) (taken host_rx dma i) (has_bit signals i))"
  have each: "f i = Some (g i)" if "i \<in> set (py_range (int (n_eng cfg)))" for i
  proof -
    have i: "engine_no cfg i" "nat i < n_eng cfg" "int (nat i) = i"
      using that by (auto simp: engine_no_def n_eng_def split: if_splits)
    obtain e pop push sg where st: "sts ! nat i = (e, pop, push, sg)" by (cases "sts ! nat i") auto
    have "pop \<Longrightarrow> e_tx e \<noteq> []" "taken host_rx dma i \<Longrightarrow> e_rx e \<noteq> []"
      using assms(2)[rule_format, OF i(2)] assms(3) [OF i(1)] st i(3) by (auto simp: step_ok_def)
    from apply_change_eq [where pop = pop and e = e and tk = "taken host_rx dma i", OF this]
    show ?thesis by (simp add: f_def g_def st changed_engine_def taken_def)
  qed
  have "those (map f xs) = Some (map g xs)" if "\<And>i. i \<in> set xs \<Longrightarrow> f i = Some (g i)" for xs
    using that by (induction xs) auto
  then have "those (map f (py_range (int (n_eng cfg)))) = Some (map g (py_range (int (n_eng cfg))))"
    using each by blast
  then show ?thesis
    by (simp add: apply_changes_def f_def g_def assms(1) py_range_def comp_def)
qed

lemma wf_changed_engine:
  assumes cfg: "config_ok cfg" and st: "step_ok cfg r0 r i st"
    and rx: "length (e_rx (eng r i)) \<le> length (e_rx (eng r0 i))"
  shows "wf_engine cfg (changed_engine st tk sg)"
    "e_ownership (changed_engine st tk sg) = e_ownership (eng r i)"
    "length (e_tx (changed_engine st tk sg)) \<le> length (e_tx (eng r i))"
    "\<not> tk \<Longrightarrow> \<exists>q. e_rx (changed_engine st tk sg) = e_rx (eng r i) @ q"
proof -
  obtain e pop push s where eq: "st = (e, pop, push, s)" by (cases st) auto
  have e: "wf_engine cfg e" "e_tx e = e_tx (eng r i)" "e_rx e = e_rx (eng r i)"
    "e_ownership e = e_ownership (eng r i)"
    "push \<Longrightarrow> int (length (e_rx (eng r0 i))) < cfg_fifo_words cfg"
    using st by (auto simp: step_ok_def eq)
  have r1: "word_in cfg (reg e 1)" using e(1) by (simp add: reg_in wf_engine_def)
  have tl: "wf_queue cfg q \<Longrightarrow> wf_queue cfg (tl q)" for q
    by (cases q) (simp_all add: wf_queue_def)
  have q: "wf_queue cfg (e_tx e)" "wf_queue cfg (e_rx e)" using e(1) by (simp_all add: wf_engine_def)
  have push: "wf_queue cfg (q @ [reg e 1])"
    if "push" "wf_queue cfg q" "length q \<le> length (e_rx e)" for q
    using that e(3,5) r1 rx by (simp add: wf_queue_def)
  have "wf_queue cfg ((if tk then tl (e_rx e) else e_rx e) @ (if push then [reg e 1] else []))"
    using push [OF _ tl [OF q(2)]] push [OF _ q(2)] tl [OF q(2)] q(2) by simp
  then show "wf_engine cfg (changed_engine st tk sg)"
    using e(1) tl [OF q(1)]
    by (simp add: changed_engine_def eq wf_engine_def wf_counters_def wf_masks_def wf_run_def)
  show "e_ownership (changed_engine st tk sg) = e_ownership (eng r i)"
    "length (e_tx (changed_engine st tk sg)) \<le> length (e_tx (eng r i))"
    "\<not> tk \<Longrightarrow> \<exists>q. e_rx (changed_engine st tk sg) = e_rx (eng r i) @ q"
    using e by (simp_all add: changed_engine_def eq)
qed

text \<open>Enqueueing at the end of the edge, and the whole engine phase.\<close>

lemma wf_append_tx:
  assumes es: "wf_engines cfg es" and i: "engine_no cfg i" and x: "word_in cfg x"
    and room: "int (length (e_tx (es ! nat i))) < cfg_fifo_words cfg"
  shows "wf_engines cfg (append_tx es i x)"
proof -
  have "wf_engine cfg (es ! nat i)"
    using es engine_no_nat [OF i] by (simp add: wf_engines_def list_all_length)
  then have "wf_engine cfg ((es ! nat i)\<lparr>e_tx := e_tx (es ! nat i) @ [x]\<rparr>)"
    using x room by (simp add: wf_engine_def wf_counters_def wf_masks_def wf_run_def wf_queue_def)
  then show ?thesis
    using es by (simp add: wf_engines_def append_tx_def list_all_update disjoint_pins_update)
qed

lemma append_tx_nth:
  assumes "j < length es"
  shows "append_tx es i x ! j =
    (if j = nat i then (es ! j)\<lparr>e_tx := e_tx (es ! j) @ [x]\<rparr> else es ! j)"
  using assms by (auto simp: append_tx_def nth_list_update)

lemma length_append_tx [simp]: "length (append_tx es i x) = length es"
  by (simp add: append_tx_def)

text \<open>The end of the edge keeps the engines well formed: the host's word and the mover's word
  go to different queues, each with room before the edge.\<close>

lemma wf_finish_engines:
  assumes es: "wf_engines cfg es"
    and tx: "\<And>i x. host_tx = Some (i, x) \<Longrightarrow> engine_no cfg i \<and> word_in cfg x
        \<and> int (length (e_tx (es ! nat i))) < cfg_fifo_words cfg"
    and dma: "\<And>s d x. dma = Some (s, d, x) \<Longrightarrow> engine_no cfg d \<and> word_in cfg x
        \<and> int (length (e_tx (es ! nat d))) < cfg_fifo_words cfg \<and> (\<forall>y. host_tx \<noteq> Some (d, y))"
  shows "wf_engines cfg (r_engines (finish_edge cfg r es host_tx dma pins))"
proof -
  let ?es1 = "case host_tx of None \<Rightarrow> es | Some (i, w) \<Rightarrow> append_tx es i w"
  let ?es2 = "case dma of None \<Rightarrow> ?es1 | Some (_, dest, w) \<Rightarrow> append_tx ?es1 dest w"
  have es1: "wf_engines cfg ?es1"
    using es tx by (auto split: option.splits intro: wf_append_tx)
  have es2: "wf_engines cfg ?es2"
  proof (cases dma)
    case None
    then show ?thesis using es1 by simp
  next
    case (Some m)
    obtain s d x where m: "dma = Some (s, d, x)" using Some by (cases m) auto
    have d: "engine_no cfg d" "word_in cfg x" "int (length (e_tx (es ! nat d))) < cfg_fifo_words cfg"
      "\<forall>y. host_tx \<noteq> Some (d, y)" using dma [OF m] by simp_all
    have "?es1 ! nat d = es ! nat d"
    proof (cases host_tx)
      case (Some q)
      obtain i y where q: "host_tx = Some (i, y)" using Some by (cases q) auto
      then have "nat i \<noteq> nat d"
        using d tx [OF q] by (auto simp: engine_no_def)
      then show ?thesis
        using engine_no_nat [OF d(1)] es by (simp add: q append_tx_nth wf_engines_def)
    qed simp
    then have "wf_engines cfg (append_tx ?es1 d x)"
      using d by (intro wf_append_tx [OF es1]) simp_all
    then show ?thesis by (simp add: m)
  qed
  have st: "wf_engines cfg (map (\<lambda>e. e\<lparr>e_stalled := f e\<rparr>) xs)" if "wf_engines cfg xs" for f xs
    using that by (simp add: wf_engines_def list_all_length wf_stalled disjoint_pins_def)
  show ?thesis
    unfolding finish_edge_def Let_def using st [OF es2] by simp
qed

lemma finish_edge_rx:
  assumes "i < length es"
  shows "e_rx (r_engines (finish_edge cfg r es host_tx dma pins) ! i) = e_rx (es ! i)"
  using assms
  by (simp add: finish_edge_def Let_def append_tx_nth split: option.splits)

lemma finish_edge_frame [simp]:
  "r_selected (finish_edge cfg r es t d p) = r_selected r"
  "r_read_select (finish_edge cfg r es t d p) = r_read_select r"
  "r_host_fault (finish_edge cfg r es t d p) = r_host_fault r"
  "r_routes (finish_edge cfg r es t d p) = r_routes r"
  "r_round_robin (finish_edge cfg r es t d p) = r_round_robin r"
  "r_window (finish_edge cfg r es t d p) = r_window r"
  "r_write_index (finish_edge cfg r es t d p) = r_write_index r"
  "r_write_word (finish_edge cfg r es t d p) = r_write_word r"
  "r_read_index (finish_edge cfg r es t d p) = r_read_index r"
  "r_read_word (finish_edge cfg r es t d p) = r_read_word r"
  "r_read_engine (finish_edge cfg r es t d p) = r_read_engine r"
  "r_starts (finish_edge cfg r es t d p) = {}" "r_stops (finish_edge cfg r es t d p) = {}"
  by (simp_all add: finish_edge_def Let_def)

lemma wf_finish_edge:
  assumes core: "wf_core cfg r" and rd: "wf_reading r"
    and es: "wf_engines cfg (r_engines (finish_edge cfg r es t d p))"
    and len: "length es = n_eng cfg"
    and head: "\<And>i. r_read_engine r = Some i \<Longrightarrow> \<exists>q. e_rx (es ! nat i) = e_rx (eng r i) @ q"
  shows "wf_chip cfg (finish_edge cfg r es t d p)"
proof -
  let ?r = "finish_edge cfg r es t d p"
  have sel: "nat (r_selected r) < length es"
    using engine_no_nat [OF wf_core_selected [OF core]] len by simp
  have "wf_reading ?r"
  proof (cases "r_read_engine r")
    case None
    then show ?thesis using rd by (auto simp: wf_reading_def split: option.splits if_splits)
  next
    case (Some i)
    note i = wf_reading_engine [OF rd Some]
    obtain q where q: "e_rx (es ! nat i) = e_rx (eng r i) @ q" using head [OF Some] by blast
    have "e_rx (sel_engine ?r) = e_rx (sel_engine r) @ q"
      using q i(1) by (simp add: sel_engine_def eng_def finish_edge_rx [OF sel])
    then show ?thesis using i Some by (simp add: wf_reading_def)
  qed
  moreover have "wf_pins ?r"
    using core take_bit_int_less_exp [of 32] take_bit_int_less_exp [of 8 p]
    by (simp add: wf_core_def wf_pins_def finish_edge_def Let_def byte_def and_takes)
  ultimately show ?thesis
    using core es by (simp add: wf_chip_def wf_core_def wf_host_def wf_mover_def)
qed

text \<open>
  What an edge does to the queues of one engine: the TX queue loses its head when the
  engine popped it and gains the host's word and then the mover's; the RX queue loses its
  head when the host or the mover took it and gains the word the engine pushed.
\<close>

definition sent_to :: "(int \<times> int) option \<Rightarrow> int \<Rightarrow> int list" where
  "sent_to t i = (case t of None \<Rightarrow> [] | Some (j, x) \<Rightarrow> if j = i then [x] else [])"

definition moved_to :: "(int \<times> int \<times> int) option \<Rightarrow> int \<Rightarrow> int list" where
  "moved_to m i = sent_to (map_option snd m) i"

definition the_move :: "config \<Rightarrow> chip \<Rightarrow> chip \<Rightarrow> int option \<Rightarrow> write_effect
    \<Rightarrow> chip \<times> (int \<times> int \<times> int) option" where
  "the_move cfg r0 r reserved w =
     dma_move cfg r (map (\<lambda>e. int (length (e_tx e))) (r_engines r0))
       (map (\<lambda>e. int (length (e_rx e))) (r_engines r0))
       (map (\<lambda>e. if e_rx e \<noteq> [] then hd (e_rx e) else 0) (r_engines r0)) reserved w"

definition queue_law :: "config \<Rightarrow> chip \<Rightarrow> chip \<Rightarrow> int option \<Rightarrow> write_effect
    \<Rightarrow> (int \<times> int \<times> int) option \<Rightarrow> int \<Rightarrow> bool" where
  "queue_law cfg r r' host_rx w dma i \<longleftrightarrow>
     (taken host_rx dma i \<longrightarrow> e_rx (eng r i) \<noteq> [])
     \<and> (on_edge r i \<and> pulls (eng r i) \<longrightarrow> e_tx (eng r i) \<noteq> [] \<and> reg (eng r' i) 0 = hd (e_tx (eng r i)))
     \<and> e_tx (eng r' i) = (if on_edge r i \<and> pulls (eng r i) then tl (e_tx (eng r i)) else e_tx (eng r i))
          @ sent_to (w_tx w) i @ moved_to dma i
     \<and> e_rx (eng r' i) = (if taken host_rx dma i then tl (e_rx (eng r i)) else e_rx (eng r i))
          @ (if on_edge r i \<and> pushes cfg (eng r i) then [reg (eng r i) 1] else [])"

lemma finish_edge_nth:
  assumes "engine_no cfg i" "length es = n_eng cfg"
    "\<And>j x. t = Some (j, x) \<Longrightarrow> engine_no cfg j" "\<And>s d x. m = Some (s, d, x) \<Longrightarrow> engine_no cfg d"
  shows "e_tx (eng (finish_edge cfg r es t m pins) i) = e_tx (es ! nat i) @ sent_to t i @ moved_to m i"
    "e_rx (eng (finish_edge cfg r es t m pins) i) = e_rx (es ! nat i)"
    "reg (eng (finish_edge cfg r es t m pins) i) k = reg (es ! nat i) k"
proof -
  have nat_eq: "nat i = nat j \<longleftrightarrow> i = j" if "engine_no cfg j" for j
    using assms(1) that by (auto simp: engine_no_def)
  have i: "nat i < length es" using engine_no_nat [OF assms(1)] assms(2) by simp
  show "e_tx (eng (finish_edge cfg r es t m pins) i) = e_tx (es ! nat i) @ sent_to t i @ moved_to m i"
    using assms(3,4) nat_eq i
    by (auto simp: finish_edge_def Let_def eng_def append_tx_nth sent_to_def moved_to_def
      split: option.splits)
  show "e_rx (eng (finish_edge cfg r es t m pins) i) = e_rx (es ! nat i)"
    "reg (eng (finish_edge cfg r es t m pins) i) k = reg (es ! nat i) k"
    using i by (auto simp: finish_edge_def Let_def eng_def append_tx_nth reg_def split: option.splits)
qed

lemma finish_edge_ctl:
  assumes "nat i < length es"
  shows "ctl_kept e (eng (finish_edge cfg r es t m pins) i) = ctl_kept e (es ! nat i)"
  using assms
  by (auto simp: finish_edge_def Let_def eng_def append_tx_nth ctl_kept_def split: option.splits)

definition host_fields ::
  "chip \<Rightarrow> (int \<times> int \<times> bool) \<times> (int \<times> int \<times> int) \<times> int \<times> int option \<times> int option" where
  "host_fields r = ((r_selected r, r_read_select r, r_host_fault r),
     (r_window r, r_write_index r, r_write_word r), r_read_index r, r_read_word r, r_read_engine r)"

lemma host_fields_dma: "dma_move cfg r a b c d w = (r', m) \<Longrightarrow> host_fields r' = host_fields r"
  by (erule dma_move_cases) (simp_all add: host_fields_def)

lemma wf_engine_phase:
  assumes cfg: "config_ok cfg" and wf0: "wf_chip cfg r0"
    and mid: "mid_ok cfg r0 reserved r host_rx w"
  shows "\<exists>r'. engine_phase cfg r0 r host_rx w reserved pins = Some r' \<and> wf_chip cfg r'
    \<and> (\<forall>i. engine_no cfg i \<longrightarrow> queue_law cfg r r' host_rx w (snd (the_move cfg r0 r reserved w)) i
         \<and> ctl_kept (eng r i) (eng r' i))
    \<and> host_fields r' = host_fields r"
proof -
  let ?txc = "map (\<lambda>e. int (length (e_tx e))) (r_engines r0)"
  let ?rxc = "map (\<lambda>e. int (length (e_rx e))) (r_engines r0)"
  let ?heads = "map (\<lambda>e. if e_rx e \<noteq> [] then hd (e_rx e) else 0) (r_engines r0)"
  obtain r1 dma where dm: "dma_move cfg r ?txc ?rxc ?heads reserved w = (r1, dma)"
    by (cases "dma_move cfg r ?txc ?rxc ?heads reserved w") auto
  have core: "wf_core cfg r" and kept: "queues_kept cfg r0 r" and rd: "wf_reading r"
    using mid by (simp_all add: mid_ok_def)
  have wfe0: "wf_engines cfg (r_engines r0)" and len0: "length (r_engines r0) = n_eng cfg"
    using wf0 by (simp_all add: wf_chip_def wf_engines_def)
  note r1 = wf_dma_move [OF cfg core rd dm]
  have eng1: "eng r1 i = eng r i" for i by (simp add: eng_def r1(3))
  text \<open>the queues in the middle of the edge are not longer than before it\<close>
  have shorter: "length (e_tx (eng r i)) \<le> length (e_tx (eng r0 i))"
    "length (e_rx (eng r i)) \<le> length (e_rx (eng r0 i))" if "engine_no cfg i" for i
    using kept that by (auto simp: queues_kept_def)
  text \<open>the mover's source has the queue of before the edge\<close>
  have move: "engine_no cfg s \<and> engine_no cfg d \<and> e_rx (eng r s) = e_rx (eng r0 s)
      \<and> e_rx (eng r0 s) \<noteq> [] \<and> reserved \<noteq> Some s \<and> x = hd (e_rx (eng r0 s))
      \<and> int (length (e_tx (eng r0 d))) < cfg_fifo_words cfg \<and> (\<forall>y. w_tx w \<noteq> Some (d, y))"
    if "dma = Some (s, d, x)" for s d x
    using dm
  proof (cases rule: dma_move_cases)
    case (move s' d' n)
    then have eqs: "s' = s" "d' = d" "x = ?heads ! nat s" using that by simp_all
    have s: "engine_no cfg s" using dma_order_engine [OF cfg move(1)] eqs by simp
    have d: "engine_no cfg d"
      using wf_core_routesD [OF core] engine_no_nat [OF s] move(2) eqs
      by (auto simp: list_all_length wf_route_def dest!: spec [of _ "nat s"])
    have "e_rx (eng r s) = e_rx (eng r0 s)"
      using kept s move(2) eqs by (auto simp: queues_kept_def)
    then show ?thesis
      using move eqs s d engine_no_nat [OF s] engine_no_nat [OF d] len0 by (simp add: eng_def)
  qed (use that in simp)
  have taken_rx: "e_rx (eng r1 i) \<noteq> []" if "engine_no cfg i" "taken host_rx dma i" for i
    using that mid move by (auto simp: taken_def eng1 mid_ok_def)
  have kept1: "queues_kept cfg r0 r1"
  proof -
    have "r_routes r1 ! nat i = None" if "r_routes r ! nat i = None" for i
      using dm
    proof (cases rule: dma_move_cases)
      case (move s d n)
      then have "nat s \<noteq> nat i" using that by auto
      then show ?thesis using that move by simp
    qed (use that in simp)
    then show ?thesis using kept by (auto simp: queues_kept_def eng1)
  qed
  from step_engines_ok [OF cfg r1(1) kept1 len0]
  obtain sts where sts: "step_engines cfg r1 (map e_event (r_engines r0)) ?txc ?rxc = Some sts"
    "length sts = n_eng cfg" "\<forall>i < n_eng cfg. step_ok cfg r0 r1 (int i) (sts ! i)"
    by blast
  define signals where "signals = fold (\<lambda>s m. m OR snd (snd (snd s))) sts (w_event w OR w_external w)"
  define es where "es = map (\<lambda>i. changed_engine (sts ! i) (taken host_rx dma (int i))
    (has_bit signals (int i))) [0..<n_eng cfg]"
  have ac: "apply_changes sts host_rx dma signals = Some es"
    unfolding es_def by (rule apply_changes_eq [OF sts(2,3) taken_rx])
  define r' where "r' = finish_edge cfg r1 es (w_tx w) dma pins"
  have eq: "engine_phase cfg r0 r host_rx w reserved pins = Some r'"
    by (simp add: engine_phase_def Let_def dm sts(1) signals_def [symmetric] ac r'_def)
  have nth: "es ! i = changed_engine (sts ! i) (taken host_rx dma (int i)) (has_bit signals (int i))"
    if "i < n_eng cfg" for i
    using that by (simp add: es_def)
  have i_no: "engine_no cfg (int i)" if "i < n_eng cfg" for i
    using that by (auto simp: engine_no_def n_eng_def)
  have each: "wf_engine cfg (es ! i)" "e_ownership (es ! i) = e_ownership (r_engines r1 ! i)"
    "length (e_tx (es ! i)) \<le> length (e_tx (eng r0 (int i)))"
    "\<not> taken host_rx dma (int i) \<Longrightarrow> \<exists>q. e_rx (es ! i) = e_rx (eng r1 (int i)) @ q"
    if "i < n_eng cfg" for i
  proof -
    have "length (e_rx (eng r1 (int i))) \<le> length (e_rx (eng r0 (int i)))"
      unfolding eng1 by (rule shorter(2) [OF i_no [OF that]])
    note ch = wf_changed_engine [OF cfg sts(3) [rule_format, OF that] this,
        of "taken host_rx dma (int i)" "has_bit signals (int i)", folded nth [OF that]]
    show "wf_engine cfg (es ! i)" "\<not> taken host_rx dma (int i) \<Longrightarrow> \<exists>q. e_rx (es ! i) = e_rx (eng r1 (int i)) @ q"
      by (rule ch)+
    show "e_ownership (es ! i) = e_ownership (r_engines r1 ! i)" using ch(2) by (simp add: eng_def)
    show "length (e_tx (es ! i)) \<le> length (e_tx (eng r0 (int i)))"
      using ch(3) shorter(1) [OF i_no [OF that]] unfolding eng1 by (rule le_trans)
  qed
  have len: "length es = n_eng cfg" by (simp add: es_def)
  have wfe: "wf_engines cfg es"
    using each r1(1) len
    by (auto simp: wf_engines_def list_all_length disjoint_pins_def wf_core_def)
  have head_in: "word_in cfg (hd (e_rx (eng r0 i)))" if "engine_no cfg i" "e_rx (eng r0 i) \<noteq> []" for i
    using wf_engines_eng [OF wfe0 that(1)] that(2)
    by (cases "e_rx (eng r0 i)") (simp_all add: wf_engine_def wf_queue_def)
  have "wf_engines cfg (r_engines r')"
    unfolding r'_def
  proof (rule wf_finish_engines [OF wfe])
    fix i x assume "w_tx w = Some (i, x)"
    then have "engine_no cfg i" "word_in cfg x" "int (length (e_tx (eng r0 i))) < cfg_fifo_words cfg"
      using mid by (simp_all add: mid_ok_def)
    then show "engine_no cfg i \<and> word_in cfg x \<and> int (length (e_tx (es ! nat i))) < cfg_fifo_words cfg"
      using each(3) [OF engine_no_nat, of i] by (auto simp: engine_no_def)
  next
    fix s d x assume "dma = Some (s, d, x)"
    from move [OF this] show "engine_no cfg d \<and> word_in cfg x
        \<and> int (length (e_tx (es ! nat d))) < cfg_fifo_words cfg \<and> (\<forall>y. w_tx w \<noteq> Some (d, y))"
      using each(3) [OF engine_no_nat, of d] head_in by (auto simp: engine_no_def)
  qed
  moreover have "\<exists>q. e_rx (es ! nat i) = e_rx (eng r1 i) @ q" if "r_read_engine r1 = Some i" for i
  proof -
    have i: "engine_no cfg i" "r_read_engine r = Some i" "reserved = Some i"
      using that mid wf_reading_engine(1) [OF rd] wf_core_selected [OF core] r1(5)
      by (auto simp: mid_ok_def)
    have "\<not> taken host_rx dma i" using i mid move by (auto simp: taken_def mid_ok_def)
    then show ?thesis using each(4) [OF engine_no_nat [OF i(1)]] i(1) by (simp add: engine_no_def)
  qed
  moreover have "queue_law cfg r r' host_rx w dma i" if i: "engine_no cfg i" for i
  proof -
    have ii: "nat i < n_eng cfg" "int (nat i) = i" "0 \<le> i"
      using i engine_no_nat by (auto simp: engine_no_def)
    obtain e pop push sg where st: "sts ! nat i = (e, pop, push, sg)" by (cases "sts ! nat i") auto
    have e: "e_tx e = e_tx (eng r i)" "e_rx e = e_rx (eng r i)" "pop \<longrightarrow> e_tx (eng r i) \<noteq> []"
      using sts(3) [rule_format, OF ii(1)] unfolding ii(2) by (auto simp: step_ok_def st eng1)
    have oe: "on_edge r1 i = on_edge r i" by (simp add: on_edge_def r1(9,10))
    have pq: "pop \<longleftrightarrow> on_edge r i \<and> pulls (eng r i)" "pop \<longrightarrow> reg e 0 = hd (e_tx (eng r i))"
      "push \<longleftrightarrow> on_edge r i \<and> pushes cfg (eng r i)" "push \<longrightarrow> reg e 1 = reg (eng r i) 1"
      using sts(3) [rule_format, OF ii(1)] unfolding ii(2) by (simp_all add: step_ok_def st eng1 oe)
    have tk: "taken host_rx dma i \<longrightarrow> e_rx (eng r i) \<noteq> []" using taken_rx [OF i] eng1 by simp
    have fin: "e_tx (eng r' i) = e_tx (es ! nat i) @ sent_to (w_tx w) i @ moved_to dma i"
      "e_rx (eng r' i) = e_rx (es ! nat i)" "reg (eng r' i) 0 = reg (es ! nat i) 0"
      unfolding r'_def using mid move
      by (intro finish_edge_nth [OF i len]; fastforce simp: mid_ok_def)+
    have r0: "reg (eng r' i) 0 = reg e 0" unfolding fin(3) by (simp add: nth [OF ii(1)] changed_engine_def st reg_def)
    show ?thesis
      unfolding queue_law_def using e tk pq r0 by (auto simp: fin(1,2) nth [OF ii(1)] changed_engine_def st ii(2,3) reg_def)
  qed
  moreover have "ctl_kept (eng r i) (eng r' i)" if i: "engine_no cfg i" for i
  proof -
    have ii: "nat i < n_eng cfg" "int (nat i) = i" "0 \<le> i"
      using i engine_no_nat by (auto simp: engine_no_def)
    obtain e pop push sg where st: "sts ! nat i = (e, pop, push, sg)" by (cases "sts ! nat i") auto
    have "ctl_kept (eng r i) e"
      using sts(3) [rule_format, OF ii(1)] unfolding ii(2) by (simp add: step_ok_def st eng1)
    then show ?thesis
      unfolding r'_def using len ii(1)
      by (simp add: finish_edge_ctl nth changed_engine_def st) (simp add: ctl_kept_def)
  qed
  moreover have "host_fields r' = host_fields r"
    using host_fields_dma [OF dm] by (simp add: r'_def host_fields_def)
  moreover have "snd (the_move cfg r0 r reserved w) = dma" by (simp add: the_move_def dm)
  ultimately show ?thesis
    using eq wf_finish_edge [OF r1(1,2)] len unfolding r'_def by blast
qed

section \<open>The edge\<close>

lemma wf_tick:
  assumes "config_ok cfg" "wf_chip cfg r"
  shows "\<exists>r' out. tick cfg r ui pins rst enabled = Some (r', out) \<and> wf_chip cfg r'"
proof (cases "rst \<or> \<not> enabled")
  case True
  then show ?thesis using wf_reset [OF assms(1)] by (simp add: tick_def)
next
  case False
  obtain r1 host_rx w where hp: "host_phase cfg r ui = (r1, host_rx, w)"
    by (cases "host_phase cfg r ui") auto
  from wf_engine_phase [OF assms wf_host_phase [OF assms hp], of pins]
  obtain r' where "engine_phase cfg r r1 host_rx w (reserved_engine r (shr ui 6 AND 3)) pins = Some r'"
    "wf_chip cfg r'" by blast
  then show ?thesis using False by (simp add: tick_def hp Let_def reserved_engine_def)
qed

end
