(* ===== verification/Chip_Props.thy ===== *)
theory Chip_Props
  imports Chip_Inv
begin

text \<open>
  What holds of the chip over whole runs from reset: an edge never raises and keeps the
  invariant, every pad has at most one driver, and the queues lose and gain words only
  where the code says so.
\<close>

section \<open>Runs\<close>

type_synonym edge_input = "int \<times> int \<times> bool \<times> bool"

text \<open>The edges of a run: \<open>ui\<close>, the pins, the reset and the enable input of each.\<close>

fun run_chip :: "config \<Rightarrow> chip \<Rightarrow> edge_input list \<Rightarrow> chip option" where
  "run_chip cfg r [] = Some r"
| "run_chip cfg r ((ui, pins, rst, enabled) # ins) =
     Option.bind (tick cfg r ui pins rst enabled) (\<lambda>(r', _). run_chip cfg r' ins)"

lemma run_chip_append:
  "run_chip cfg r (xs @ ys) = Option.bind (run_chip cfg r xs) (\<lambda>r'. run_chip cfg r' ys)"
proof (induction xs arbitrary: r)
  case (Cons x xs)
  then show ?case by (cases x) (auto split: Option.bind_splits)
qed simp

lemma wf_run_chip:
  assumes "config_ok cfg" "wf_chip cfg r"
  shows "\<exists>r'. run_chip cfg r ins = Some r' \<and> wf_chip cfg r'"
  using assms(2)
proof (induction ins arbitrary: r)
  case Nil
  then show ?case by simp
next
  case (Cons x ins)
  obtain ui pins rst enabled where x: "x = (ui, pins, rst, enabled)" by (cases x)
  from wf_tick [OF assms(1) Cons.prems, of ui pins rst enabled]
  obtain r' out where t: "tick cfg r ui pins rst enabled = Some (r', out)" "wf_chip cfg r'"
    by blast
  from Cons.IH [OF t(2)] show ?case by (simp add: x t(1))
qed

lemma wf_reachable:
  "config_ok cfg \<Longrightarrow> run_chip cfg (reset cfg) ins = Some r \<Longrightarrow> wf_chip cfg r"
  using wf_run_chip [OF _ wf_reset, of cfg ins] by auto

section \<open>Pads\<close>

lemma fold_or_bit:
  "bit (fold (\<lambda>e v. v OR f e) es (a::int)) p \<longleftrightarrow> bit a p \<or> (\<exists>e \<in> set es. bit (f e) p)"
  by (induction es arbitrary: a) (auto simp: bit_simps)

lemma engines_ex:
  assumes "wf_engines cfg (r_engines r)"
  shows "(\<exists>e \<in> set (r_engines r). P e) \<longleftrightarrow> (\<exists>i. engine_no cfg i \<and> P (eng r i))"
proof
  assume "\<exists>e \<in> set (r_engines r). P e"
  then obtain k where "k < length (r_engines r)" "P (r_engines r ! k)" by (auto simp: in_set_conv_nth)
  then have "engine_no cfg (int k) \<and> P (eng r (int k))"
    using assms by (auto simp: wf_engines_def n_eng_def engine_no_def eng_def)
  then show "\<exists>i. engine_no cfg i \<and> P (eng r i)" ..
next
  assume "\<exists>i. engine_no cfg i \<and> P (eng r i)"
  then show "\<exists>e \<in> set (r_engines r). P e"
    using assms by (auto simp: wf_engines_def eng_def dest!: engine_no_nat intro!: bexI [OF _ nth_mem])
qed

lemma pads_bits:
  assumes "wf_engines cfg (r_engines r)" "p < 8"
  shows "bit (o_uio_oe (outputs cfg r ui False True)) p \<longleftrightarrow>
      (\<exists>i. engine_no cfg i \<and> bit (pad_enables (eng r i)) p)"
    "bit (o_uio_out (outputs cfg r ui False True)) p \<longleftrightarrow>
      (\<exists>i. engine_no cfg i \<and> bit (pad_values (eng r i)) p)"
  using assms
  by (simp_all add: outputs_def Let_def and_255_take bit_take_bit_iff fold_or_bit engines_ex)

lemma pad_owned:
  "bit (pad_enables e) p \<Longrightarrow> bit (e_ownership e) p"
  "bit (pad_values e) p \<Longrightarrow> bit (e_ownership e) p"
  "bit (pad_values e) p \<Longrightarrow> \<not> bit (e_open_drain e) p"
  by (simp_all add: pad_enables_def pad_values_def bit_simps split: if_splits)

lemma owner_unique:
  assumes "wf_engines cfg (r_engines r)" "engine_no cfg i" "engine_no cfg j"
    "bit (e_ownership (eng r i)) p" "bit (e_ownership (eng r j)) p"
  shows "i = j"
proof (rule ccontr)
  assume "i \<noteq> j"
  then have "nat i \<noteq> nat j" using assms(2,3) by (auto simp: engine_no_def)
  then have "e_ownership (eng r i) AND e_ownership (eng r j) = 0"
    using assms(1-3) by (auto simp: wf_engines_def disjoint_pins_def eng_def engine_no_nat)
  then show False using assms(4,5) by (auto simp: and_zero_iff)
qed

section \<open>Properties\<close>

text \<open>C1: From reset, no sequence of edges, whatever the host and the pins do and whenever reset
  or enable change, makes the chip raise (no empty queue is ever popped), and the chip stays
  well formed: queue levels within the capacity, ownership masks pairwise disjoint, program
  and registers within their widths, routes to existing engines, and a word that the host
  is reading still at the head of its queue.\<close>

theorem chip_never_raises:
  assumes "config_ok cfg"
  shows "\<exists>r. run_chip cfg (reset cfg) ins = Some r \<and> wf_chip cfg r"
  by (rule wf_run_chip [OF assms wf_reset [OF assms]])

lemma default_config_ok: "config_ok default_config"
  by (simp add: config_ok_def default_config_def)

lemma chip_never_raises_witness:
  "\<exists>r. run_chip default_config (reset default_config) [(0x51, 3, False, True), (0x11, 0, False, True)] = Some r
     \<and> wf_chip default_config r"
  by (rule chip_never_raises [OF default_config_ok])

text \<open>C2: On every reachable state, a pad is enabled exactly when one engine enables it, and that
  engine is the only one; the pad is driven high exactly when one engine drives it high; and
  no pad that its owner declared open drain is ever driven high.\<close>

theorem one_driver_per_pad:
  assumes "config_ok cfg" "run_chip cfg (reset cfg) ins = Some r" "p < 8"
  shows "(bit (o_uio_oe (outputs cfg r ui False True)) p \<longleftrightarrow>
      (\<exists>!i. engine_no cfg i \<and> bit (pad_enables (eng r i)) p))
    \<and> (bit (o_uio_out (outputs cfg r ui False True)) p \<longleftrightarrow>
      (\<exists>!i. engine_no cfg i \<and> bit (pad_values (eng r i)) p))
    \<and> (\<forall>i. engine_no cfg i \<and> bit (e_ownership (eng r i) AND e_open_drain (eng r i)) p
         \<longrightarrow> \<not> bit (o_uio_out (outputs cfg r ui False True)) p)"
proof -
  have wf: "wf_engines cfg (r_engines r)"
    using wf_reachable [OF assms(1,2)] by (simp add: wf_chip_def)
  note bits = pads_bits [OF wf assms(3)] and uniq = owner_unique [OF wf]
  have "\<not> bit (pad_values (eng r j)) p"
    if "engine_no cfg i" "bit (e_ownership (eng r i) AND e_open_drain (eng r i)) p" "engine_no cfg j" for i j
  proof
    assume v: "bit (pad_values (eng r j)) p"
    then have "i = j" using that pad_owned(2) by (intro uniq) (auto simp: bit_and_iff)
    then show False using that(2) pad_owned(3) [OF v] by (simp add: bit_and_iff)
  qed
  then show ?thesis
    unfolding bits using uniq pad_owned by blast
qed

lemma one_driver_per_pad_witness:
  "\<exists>r. run_chip default_config (reset default_config) [] = Some r \<and>
     (bit (o_uio_oe (outputs default_config r 0 False True)) 3 \<longleftrightarrow>
      (\<exists>!i. engine_no default_config i \<and> bit (pad_enables (eng r i)) 3))"
  using one_driver_per_pad [OF default_config_ok, of "[]" "reset default_config" 3 0] by simp

end
