(* ===== verification/Host_Json.thy ===== *)
theory Host_Json
  imports Prelude
begin

text \<open>
  The values \<open>json.load\<close> returns, with Python's equality on them, and the errors of
  \<open>host/pe_host/image.py\<close>. A number with a fraction or an exponent is a finite double, a
  dyadic fraction \<open>m / 2 ^ k\<close>; the non-standard literals NaN and Infinity are left out. An
  object is an association list with distinct keys.
\<close>

datatype json =
    JNull
  | JBool bool
  | JInt int
  | JFloat int nat
  | JStr string
  | JList "json list"
  | JObj "(string \<times> json) list"

text \<open>Numbers compare by value: \<open>True == 1 == 1.0\<close>.\<close>

fun number_of :: "json \<Rightarrow> (int \<times> nat) option" where
  "number_of (JBool b) = Some (of_bool b, 0)"
| "number_of (JInt i) = Some (i, 0)"
| "number_of (JFloat m k) = Some (m, k)"
| "number_of _ = None"

fun number_eq :: "(int \<times> nat) option \<Rightarrow> (int \<times> nat) option \<Rightarrow> bool" where
  "number_eq (Some (m, k)) (Some (m', k')) \<longleftrightarrow> m * 2 ^ k' = m' * 2 ^ k"
| "number_eq _ _ \<longleftrightarrow> False"

lemma size_of_member: "x \<in> set xs \<Longrightarrow> size x < Suc (size_list size xs)"
  by (induction xs) auto

lemma size_of_zip_member:
  "(x, y) \<in> set (zip xs ys) \<Longrightarrow> size x < Suc (size_list size xs)"
  by (drule set_zip_leftD) (rule size_of_member)

lemma size_of_value:
  "(k, v) \<in> set kvs \<Longrightarrow> size v < Suc (size_list (size_prod (\<lambda>x. 0) size) kvs)"
proof (induction kvs)
  case (Cons kv kvs)
  then show ?case by (cases kv) fastforce
qed simp

function py_eq :: "json \<Rightarrow> json \<Rightarrow> bool" where
  "py_eq (JStr s) v = (case v of JStr t \<Rightarrow> s = t | _ \<Rightarrow> False)"
| "py_eq JNull v = (v = JNull)"
| "py_eq (JList xs) v = (case v of
     JList ys \<Rightarrow> length xs = length ys \<and> (\<forall>p \<in> set (zip xs ys). py_eq (fst p) (snd p))
   | _ \<Rightarrow> False)"
| "py_eq (JObj kvs) v = (case v of
     JObj kvs' \<Rightarrow> length kvs = length kvs' \<and>
       (\<forall>kv \<in> set kvs. case map_of kvs' (fst kv) of None \<Rightarrow> False | Some w \<Rightarrow> py_eq (snd kv) w)
   | _ \<Rightarrow> False)"
| "py_eq (JBool b) v = number_eq (number_of (JBool b)) (number_of v)"
| "py_eq (JInt i) v = number_eq (number_of (JInt i)) (number_of v)"
| "py_eq (JFloat m k) v = number_eq (number_of (JFloat m k)) (number_of v)"
  by pat_completeness auto
termination
  by (relation "measure (size \<circ> fst)")
    (auto simp: size_of_member size_of_zip_member dest: size_of_value)

lemma py_eq_simps [simp]:
  "py_eq (JStr s) (JStr t) \<longleftrightarrow> s = t" "py_eq (JInt i) (JInt j) \<longleftrightarrow> i = j"
  "py_eq (JBool b) (JBool c) \<longleftrightarrow> b = c" "py_eq (JStr s) (JInt i) \<longleftrightarrow> False"
  "py_eq (JInt i) (JStr s) \<longleftrightarrow> False" "py_eq JNull v \<longleftrightarrow> v = JNull"
  by (auto split: if_splits)

text \<open>\<open>data.get(key)\<close>, \<open>key in data\<close> and \<open>data[key]\<close> of an object.\<close>

definition obj_get :: "(string \<times> json) list \<Rightarrow> string \<Rightarrow> json" where
  "obj_get kvs key = (case map_of kvs key of None \<Rightarrow> JNull | Some v \<Rightarrow> v)"

definition obj_has :: "(string \<times> json) list \<Rightarrow> string \<Rightarrow> bool" where
  "obj_has kvs key \<longleftrightarrow> map_of kvs key \<noteq> None"

definition obj_get_or :: "(string \<times> json) list \<Rightarrow> string \<Rightarrow> json \<Rightarrow> json" where
  "obj_get_or kvs key d = (case map_of kvs key of None \<Rightarrow> d | Some v \<Rightarrow> v)"

text \<open>The failures of image verification with the values their messages show; \<open>Raised\<close> is an
  exception of Python's own.\<close>

datatype image_error =
    Arch_not_object
  | Arch_lacks string
  | Arch_unknown_schema json
  | Arch_not_positive string
  | Image_not_object
  | Image_bad_schema json
  | Image_lacks string
  | Isa_not_positive
  | Engine_outside json
  | Not_a_mask string
  | Open_drain_outside
  | Words_not_list
  | Words_exceed nat int
  | Word_outside
  | Bytecode_mismatch json string json
  | Source_mismatch json string json
  | Bound_elsewhere json "string list"
  | Needs_isa json int int
  | Not_isa3 json "(int \<times> string) list"
  | Cannot_read string
  | Source_not_found string
  | Scenario_cannot_read string
  | Scenario_bad_schema json
  | Scenario_bound_elsewhere "string list"
  | Scenario_engine json int int
  | Raised string

end
