(* ===== verification/Host_Protocol.thy ===== *)
theory Host_Protocol
  imports Host_Json
begin

text \<open>
  The host library's constants, word encoders and errors: \<open>host/pe_host/protocol.py\<close> and
  \<open>host/pe_host/errors.py\<close>. Every constant of the module is a definition of the same
  name, unfolded by the simplifier; every encoder has its range check as an error branch and a
  lemma that its fields read back.
\<close>

section \<open>Errors\<close>

text \<open>The exceptions of \<open>errors.py\<close> with the data the handlers look at, Python's own
  \<open>ValueError\<close>, and \<open>Model_Raised\<close> for an exception inside the device model.\<close>

datatype host_error =
    HostError string
  | HostTimeout string
  | CommandRejected int int
  | ImageError image_error
  | IsaMismatch int
  | EngineFault
  | PadContention string
  | ReplayDivergence
  | ValueError string
  | KeyError int
  | Model_Raised

section \<open>Constants\<close>

definition UI_NIBBLE :: int where [simp]: "UI_NIBBLE = 0x0F"
definition UI_WVALID :: int where [simp]: "UI_WVALID = 0x10"
definition UI_RREADY :: int where [simp]: "UI_RREADY = 0x20"
definition UI_WINDOW_SHIFT :: int where [simp]: "UI_WINDOW_SHIFT = 6"
definition UO_NIBBLE :: int where [simp]: "UO_NIBBLE = 0x0F"
definition UO_WREADY :: int where [simp]: "UO_WREADY = 0x10"
definition UO_RVALID :: int where [simp]: "UO_RVALID = 0x20"
definition UO_IRQ :: int where [simp]: "UO_IRQ = 0x40"
definition UO_FAULT :: int where [simp]: "UO_FAULT = 0x80"
definition W_COMMAND :: int where [simp]: "W_COMMAND = 0"
definition W_PROGRAM :: int where [simp]: "W_PROGRAM = 1"
definition W_TX :: int where [simp]: "W_TX = 2"
definition W_RX :: int where [simp]: "W_RX = 3"
definition SELECT :: int where [simp]: "SELECT = 0"
definition BEGIN :: int where [simp]: "BEGIN = 1"
definition COMMIT :: int where [simp]: "COMMIT = 2"
definition OWN :: int where [simp]: "OWN = 3"
definition START :: int where [simp]: "START = 4"
definition STOP :: int where [simp]: "STOP = 5"
definition ROUTE :: int where [simp]: "ROUTE = 6"
definition CLEAR :: int where [simp]: "CLEAR = 7"
definition READ_SELECT :: int where [simp]: "READ_SELECT = 8"
definition EVENT :: int where [simp]: "EVENT = 9"
definition FLUSH :: int where [simp]: "FLUSH = 10"
definition TRIGGER :: int where [simp]: "TRIGGER = 11"
definition RS_STATUS :: int where [simp]: "RS_STATUS = 0"
definition RS_TIMESTAMP :: int where [simp]: "RS_TIMESTAMP = 1"
definition RS_LEVELS :: int where [simp]: "RS_LEVELS = 2"
definition RS_PC :: int where [simp]: "RS_PC = 3"
definition RS_EVENT :: int where [simp]: "RS_EVENT = 4"
definition RS_COUNT :: int where [simp]: "RS_COUNT = 5"
definition RS_HELD_RX :: int where [simp]: "RS_HELD_RX = 6"
definition RS_VERSION :: int where [simp]: "RS_VERSION = 7"
definition TRIG_RISING :: int where [simp]: "TRIG_RISING = 0"
definition TRIG_FALLING :: int where [simp]: "TRIG_FALLING = 1"
definition TRIG_HIGH :: int where [simp]: "TRIG_HIGH = 2"
definition TRIG_LOW :: int where [simp]: "TRIG_LOW = 3"
definition CLEAR_HOST_FAULT :: int where [simp]: "CLEAR_HOST_FAULT = 0x800000"
definition ISA_VERSION :: int where [simp]: "ISA_VERSION = 2"

definition COMMAND_NAMES :: "string list" where
  "COMMAND_NAMES = [''SELECT'', ''BEGIN'', ''COMMIT'', ''OWN'', ''START'', ''STOP'', ''ROUTE'',
     ''CLEAR'', ''READ_SELECT'', ''EVENT'', ''FLUSH'', ''TRIGGER'']"

definition READ_SELECT_NAMES :: "string list" where
  "READ_SELECT_NAMES = [''status'', ''timestamp'', ''levels'', ''pc'', ''event'', ''completed'',
     ''held_rx'', ''isa_version'']"

definition FAULT_NAMES :: "int \<Rightarrow> string option" where
  "FAULT_NAMES = map_of
     [(1, ''invalid opcode, operand or pin ownership''),
      (2, ''PC outside the committed image''),
      (3, ''bounded-wait timeout (WAITPIN/WAITEVENT reached LIMIT)''),
      (4, ''strict RX enqueue overflow (PUSH a=1 with RX full; word held in rx)''),
      (64, ''uart-rx: framing error (low stop bit)''),
      (65, ''i2c controller: address or data NACK''),
      (66, ''i2c target: address or direction mismatch''),
      (67, ''i2c target-read: controller ACKed the last byte'')]"

text \<open>The architecture binding: the dictionary of an image and of the device.\<close>

record architecture =
  a_schema_version :: string
  a_engine_count :: int
  a_data_width :: int
  a_program_words :: int
  a_fifo_words :: int
  a_issue :: string
  a_prefetch :: bool

definition DESIGN_ARCHITECTURE :: architecture where
  "DESIGN_ARCHITECTURE = \<lparr>a_schema_version = ''protocol-emulator.architecture.v1'',
     a_engine_count = 4, a_data_width = 32, a_program_words = 64, a_fifo_words = 8,
     a_issue = ''fused'', a_prefetch = False\<rparr>"

definition ARCHITECTURE_KEYS :: "string list" where
  "ARCHITECTURE_KEYS = [''schema_version'', ''engine_count'', ''data_width'', ''program_words'',
     ''fifo_words'', ''issue'', ''prefetch'']"

section \<open>Encoders\<close>

definition fault_name :: "int \<Rightarrow> string" where
  "fault_name code =
     (if code = 0 then ''no fault''
      else case FAULT_NAMES code of
             None \<Rightarrow> ''firmware FAULT '' @ decimal code
           | Some name \<Rightarrow> name)"

definition ui_byte :: "int \<Rightarrow> bool \<Rightarrow> bool \<Rightarrow> int \<Rightarrow> int" where
  "ui_byte window wvalid rready nibble =
     shl (window AND 3) UI_WINDOW_SHIFT OR (if wvalid then UI_WVALID else 0)
     OR (if rready then UI_RREADY else 0) OR (nibble AND 15)"

definition command_word :: "int \<Rightarrow> int \<Rightarrow> host_error + int" where
  "command_word op payload =
     (if \<not> (0 \<le> op \<and> op \<le> 255) \<or> \<not> (0 \<le> payload \<and> payload < shl 1 24)
      then Inl (ValueError ''command op or payload out of range'')
      else Inr (shl op 24 OR payload))"

definition nibbles :: "int \<Rightarrow> int list" where
  "nibbles word = map (\<lambda>i. shr word (4 * i) AND 15) (py_range 8)"

definition own_payload :: "int \<Rightarrow> int \<Rightarrow> host_error + int" where
  "own_payload pins open_drain =
     (if \<not> (0 \<le> pins \<and> pins \<le> 255) \<or> \<not> (0 \<le> open_drain \<and> open_drain \<le> 255)
      then Inl (ValueError ''pin masks are 8 bits'')
      else Inr (pins OR shl open_drain 8))"

definition route_payload :: "int \<Rightarrow> int \<Rightarrow> int \<Rightarrow> bool \<Rightarrow> host_error + int" where
  "route_payload source destination count enable =
     (if \<not> (0 \<le> source \<and> source \<le> 3) \<or> \<not> (0 \<le> destination \<and> destination \<le> 3)
      then Inl (ValueError ''route endpoints are engines 0..3'')
      else if \<not> (0 \<le> count \<and> count \<le> 0xFFFF)
      then Inl (ValueError ''route word count is 16 bits'')
      else Inr (source OR shl destination 2 OR (if enable then 16 else 0) OR shl count 5))"

definition trigger_payload :: "int \<Rightarrow> int \<Rightarrow> bool \<Rightarrow> host_error + int" where
  "trigger_payload pin mode enable =
     (if \<not> (0 \<le> pin \<and> pin \<le> 7) \<or> \<not> (0 \<le> mode \<and> mode \<le> 3)
      then Inl (ValueError ''trigger pin 0..7, mode 0..3'')
      else Inr (pin OR shl mode 3 OR (if enable then 32 else 0)))"

definition split_levels :: "int \<Rightarrow> int \<times> int" where
  "split_levels word = (word AND 0xFFFF, shr word 16 AND 0xFFFF)"

record engine_status =
  s_word :: int
  s_engine :: "int option"
  s_running :: bool
  s_committed :: bool
  s_stalled :: bool
  s_faulted :: bool
  s_fault :: int

definition Status :: "int \<Rightarrow> int option \<Rightarrow> engine_status" where
  "Status word engine = \<lparr>s_word = word, s_engine = engine, s_running = (word AND 1 \<noteq> 0),
     s_committed = (word AND 2 \<noteq> 0), s_stalled = (word AND 4 \<noteq> 0),
     s_faulted = (word AND 8 \<noteq> 0),
     s_fault = (if word AND 8 \<noteq> 0 then shr word 8 AND 0xFF else 0)\<rparr>"

definition status_repr :: "engine_status \<Rightarrow> string" where
  "status_repr s =
     (let flags = (if s_running s then [''running''] else [])
                @ (if s_committed s then [''committed''] else [])
                @ (if s_stalled s then [''stalled''] else [])
                @ (if s_faulted s
                   then [''fault '' @ decimal (s_fault s) @ '' ('' @ fault_name (s_fault s) @ '')'']
                   else []);
          place = (case s_engine s of None \<Rightarrow> [] | Some e \<Rightarrow> '' engine '' @ decimal e)
      in ''<Status'' @ place @ '' 0x'' @ hex_pad 8 (s_word s) @ '' ''
         @ (if flags = [] then ''halted'' else join '', '' flags) @ ''>'')"

record decoded_uo =
  d_nibble :: int
  d_write_ready :: bool
  d_read_valid :: bool
  d_irq :: bool
  d_fault :: bool

definition decode_uo :: "int \<Rightarrow> decoded_uo" where
  "decode_uo uo = \<lparr>d_nibble = uo AND 15, d_write_ready = (uo AND UO_WREADY \<noteq> 0),
     d_read_valid = (uo AND UO_RVALID \<noteq> 0), d_irq = (uo AND UO_IRQ \<noteq> 0),
     d_fault = (uo AND UO_FAULT \<noteq> 0)\<rparr>"

end
