(* ===== verification/Host_Port.thy ===== *)
theory Host_Port
  imports Host_Protocol Chip
begin

text \<open>
  The ports of the host library: the shared helpers of \<open>host/pe_host/ports/base.py\<close>
  (\<open>env_drive\<close>, \<open>resolve_pads\<close>) and the port on the reference model,
  \<open>host/pe_host/ports/model.py\<close>, which advances the model by one edge per cycle. The pad
  environment is a parameter: a state and its \<open>step\<close>.
\<close>

section \<open>Operations of a port\<close>

text \<open>What \<open>ProtocolEmulator\<close> uses of a port object.\<close>

record 'p port_ops =
  po_cycle :: "int \<Rightarrow> ('p, host_error, int) act"
  po_reset :: "int \<Rightarrow> ('p, host_error, unit) act"
  po_deselect :: "int \<Rightarrow> ('p, host_error, unit) act"
  po_free_run :: "int \<Rightarrow> int \<Rightarrow> ('p, host_error, unit) act"
  po_uo_visible :: "'p \<Rightarrow> int"
  po_count :: "'p \<Rightarrow> int"
  po_forbidden :: "'p \<Rightarrow> int"
  po_set_forbidden :: "int \<Rightarrow> 'p \<Rightarrow> 'p"

text \<open>\<open>Port.free_run\<close>: the edges are supplied by hand.\<close>

definition port_free_run :: "(int \<Rightarrow> ('p, host_error, int) act) \<Rightarrow> int \<Rightarrow> int \<Rightarrow> ('p, host_error, unit) act" where
  "port_free_run cycle cycles freq_hz =
     act_times (nat cycles) (act_bind (cycle 0) (\<lambda>_. act_return ()))"

section \<open>Pads\<close>

definition resolve_pads :: "int \<Rightarrow> int \<Rightarrow> int \<Rightarrow> int \<Rightarrow> int \<Rightarrow> host_error + int" where
  "resolve_pads chip_out chip_oe env_en env_val pullups =
     (let both = chip_oe AND env_en in
      if both AND (chip_out XOR env_val) \<noteq> 0 then Inl (PadContention ''pad fight'')
      else (let driven = chip_oe OR env_en in
            Inr (((pullups AND NOT driven) OR (chip_out AND chip_oe) OR (env_val AND env_en))
                 AND 0xFF)))"

section \<open>The port on the reference model\<close>

text \<open>\<open>pins\<close> is an integer or a supplier called with the cycle and the outputs.\<close>

datatype pin_source = Pins_Int int | Pins_Call "int \<Rightarrow> outputs \<Rightarrow> int"

record trace_entry =
  tr_cycle :: int
  tr_ui :: int
  tr_pads :: int
  tr_reset :: bool
  tr_enabled :: bool
  tr_pre :: outputs
  tr_after :: outputs

record 'v model_port =
  mp_model :: chip
  mp_env :: "'v option"
  mp_count :: int
  mp_forbidden :: int
  mp_strict_env :: bool
  mp_env_violations :: int
  mp_drive_en :: int
  mp_drive_val :: int
  mp_pins :: "pin_source option"
  mp_pullups :: int
  mp_trace :: "trace_entry list option"
  mp_replay :: "int list option"

definition config_from_architecture :: "architecture \<Rightarrow> config" where
  "config_from_architecture a = \<lparr>cfg_engines = a_engine_count a, cfg_width = a_data_width a,
     cfg_program_words = a_program_words a, cfg_fifo_words = a_fifo_words a,
     cfg_fused = (a_issue a = ''fused''), cfg_prefetch = a_prefetch a\<rparr>"

definition new_model_port ::
  "config \<Rightarrow> 'v option \<Rightarrow> pin_source option \<Rightarrow> int \<Rightarrow> bool \<Rightarrow> bool \<Rightarrow> 'v model_port" where
  "new_model_port cfg env pins pullups rec rec_replay =
     \<lparr>mp_model = Chip.reset cfg, mp_env = env, mp_count = 0, mp_forbidden = 0,
      mp_strict_env = True, mp_env_violations = 0, mp_drive_en = 0, mp_drive_val = 0,
      mp_pins = pins, mp_pullups = pullups, mp_trace = (if rec then Some [] else None),
      mp_replay = (if rec_replay then Some [] else None)\<rparr>"

text \<open>\<open>env_drive\<close>: the environment's drive for the observed pads. A drive of a pin that the
  chip owns push-pull is an error, or is masked when the port is not strict.\<close>

definition env_drive ::
  "('v \<Rightarrow> int \<Rightarrow> int \<Rightarrow> 'v \<times> int \<times> int) \<Rightarrow> 'v \<Rightarrow> int
   \<Rightarrow> ('v model_port, host_error, int \<times> int) act" where
  "env_drive env_step env pads =
     (\<lambda>p. let (env', en, val) = env_step env (mp_count p) pads;
              p1 = p\<lparr>mp_env := Some env'\<rparr>;
              bad = en AND mp_forbidden p;
              p2 = (if bad \<noteq> 0 then p1\<lparr>mp_env_violations := mp_env_violations p1 + 1\<rparr> else p1)
          in if bad \<noteq> 0 \<and> mp_strict_env p
             then (Inl (PadContention ''environment tried to drive uio pins''), p2)
             else (let en1 = (if bad \<noteq> 0 then en AND NOT bad else en); en2 = en1 AND 0xFF
                   in (Inr (en2, val AND en2), p2)))"

definition model_pads ::
  "('v \<Rightarrow> int \<Rightarrow> int \<Rightarrow> 'v \<times> int \<times> int) \<Rightarrow> outputs
   \<Rightarrow> ('v model_port, host_error, int \<times> int) act" where
  "model_pads env_step post = (\<lambda>p.
     case mp_pins p of
       Some (Pins_Int n) \<Rightarrow> (Inr (n AND 0xFF, 0), p)
     | Some (Pins_Call f) \<Rightarrow> (Inr (f (mp_count p) post AND 0xFF, 0), p)
     | None \<Rightarrow>
         (case mp_env p of
            None \<Rightarrow>
              act_bind (act_lift (resolve_pads (o_uio_out post) (o_uio_oe post) 0 0 (mp_pullups p)))
                (\<lambda>pads. act_return (pads, 0)) p
          | Some env \<Rightarrow>
              act_bind (act_lift (resolve_pads (o_uio_out post) (o_uio_oe post) (mp_drive_en p)
                                    (mp_drive_val p) (mp_pullups p))) (\<lambda>observed.
              act_bind (env_drive env_step env observed) (\<lambda>(en, val).
              act_bind (act_mod (\<lambda>q. q\<lparr>mp_drive_en := en, mp_drive_val := val\<rparr>)) (\<lambda>_.
              act_bind (act_lift (resolve_pads (o_uio_out post) (o_uio_oe post) en val
                                    (mp_pullups p))) (\<lambda>pads.
              act_return (pads, observed))))) p))"

definition model_step ::
  "config \<Rightarrow> ('v \<Rightarrow> int \<Rightarrow> int \<Rightarrow> 'v \<times> int \<times> int) \<Rightarrow> int \<Rightarrow> bool \<Rightarrow> bool
   \<Rightarrow> ('v model_port, host_error, int) act" where
  "model_step cfg env_step ui rst enabled =
     act_bind (act_get (\<lambda>p. Chip.outputs cfg (mp_model p) 0 False True)) (\<lambda>post.
     act_bind (model_pads env_step post) (\<lambda>(pads, observed).
     act_bind (act_get mp_model) (\<lambda>m.
     let pre = Chip.outputs cfg m ui rst enabled in
     case tick cfg m ui pads rst enabled of
       None \<Rightarrow> act_raise Model_Raised
     | Some (m', after) \<Rightarrow>
         act_bind (act_mod (\<lambda>p.
           p\<lparr>mp_model := m',
             mp_trace := map_option (\<lambda>t. t @ [\<lparr>tr_cycle = mp_count p, tr_ui = ui, tr_pads = pads,
               tr_reset = rst, tr_enabled = enabled, tr_pre = pre, tr_after = after\<rparr>]) (mp_trace p),
             mp_replay := map_option (\<lambda>t. t @
               [(if rst then 1 else 0) OR (if enabled then 0 else 2), ui, o_uo pre, observed,
                (if mp_env p \<noteq> None then mp_drive_en p else 0),
                (if mp_env p \<noteq> None then mp_drive_val p else 0)]) (mp_replay p),
             mp_count := mp_count p + 1\<rparr>)) (\<lambda>_.
         act_return (o_uo pre)))))"

definition model_cycle ::
  "config \<Rightarrow> ('v \<Rightarrow> int \<Rightarrow> int \<Rightarrow> 'v \<times> int \<times> int) \<Rightarrow> int \<Rightarrow> ('v model_port, host_error, int) act" where
  "model_cycle cfg env_step ui = model_step cfg env_step ui False True"

definition model_reset ::
  "config \<Rightarrow> ('v \<Rightarrow> int \<Rightarrow> int \<Rightarrow> 'v \<times> int \<times> int) \<Rightarrow> int \<Rightarrow> ('v model_port, host_error, unit) act" where
  "model_reset cfg env_step cycles =
     act_times (nat cycles) (act_bind (model_step cfg env_step 0 True True) (\<lambda>_. act_return ()))"

definition model_deselect ::
  "config \<Rightarrow> ('v \<Rightarrow> int \<Rightarrow> int \<Rightarrow> 'v \<times> int \<times> int) \<Rightarrow> int \<Rightarrow> ('v model_port, host_error, unit) act" where
  "model_deselect cfg env_step cycles =
     act_times (nat cycles) (act_bind (model_step cfg env_step 0 False False) (\<lambda>_. act_return ()))"

text \<open>The port object that the host library gets.\<close>

definition model_ops ::
  "config \<Rightarrow> ('v \<Rightarrow> int \<Rightarrow> int \<Rightarrow> 'v \<times> int \<times> int) \<Rightarrow> 'v model_port port_ops" where
  "model_ops cfg env_step =
     \<lparr>po_cycle = model_cycle cfg env_step, po_reset = model_reset cfg env_step,
      po_deselect = model_deselect cfg env_step,
      po_free_run = port_free_run (model_cycle cfg env_step),
      po_uo_visible = (\<lambda>_. 0xFF), po_count = mp_count, po_forbidden = mp_forbidden,
      po_set_forbidden = (\<lambda>m p. p\<lparr>mp_forbidden := m\<rparr>)\<rparr>"

end
