(* ===== verification/Host_Emulator.thy ===== *)
theory Host_Emulator
  imports Host_Port
begin

text \<open>
  The host library's one API, \<open>class ProtocolEmulator\<close> of \<open>host/pe_host/host.py\<close>, over any
  port (\<open>port_ops\<close>): the nibble handshakes with their cycle budgets, the commands with the
  inference of acceptance from the FAULT pin and the library's record of the selections, the
  reads, the loading of programs, queues, faults and waiting. The log callback is left out.
\<close>

section \<open>State\<close>

record 'p host =
  h_port :: 'p
  h_timeout :: int
  h_architecture :: architecture
  h_isa_versions :: "int list"
  h_strict :: bool
  h_uo :: int
  h_window :: int
  h_selected :: int
  h_read_selected :: int
  h_device_isa :: "int option"
  h_first_uo :: int
  h_last_ok :: "bool option"

type_synonym ('p, 'a) host_act = "('p host, host_error, 'a) act"

definition new_host :: "'p \<Rightarrow> int \<Rightarrow> architecture \<Rightarrow> int list \<Rightarrow> bool \<Rightarrow> 'p host" where
  "new_host port timeout arch isa_versions strict =
     \<lparr>h_port = port, h_timeout = timeout, h_architecture = arch, h_isa_versions = isa_versions,
      h_strict = strict, h_uo = 0, h_window = 0, h_selected = 0, h_read_selected = 0,
      h_device_isa = None, h_first_uo = 0, h_last_ok = None\<rparr>"

definition h_engines :: "'p host \<Rightarrow> int" where
  "h_engines h = a_engine_count (h_architecture h)"

definition all_engines :: "'p host \<Rightarrow> int" where
  "all_engines h = shl 1 (h_engines h) - 1"

definition on_port :: "('p, host_error, 'a) act \<Rightarrow> ('p, 'a) host_act" where
  "on_port m = (\<lambda>h. case m (h_port h) of (r, p) \<Rightarrow> (r, h\<lparr>h_port := p\<rparr>))"

definition set_uo :: "int \<Rightarrow> ('p, unit) host_act" where
  "set_uo u = act_mod (\<lambda>h. h\<lparr>h_uo := u\<rparr>)"

definition port_cycle :: "'p port_ops \<Rightarrow> int \<Rightarrow> ('p, int) host_act" where
  "port_cycle ops ui = on_port (po_cycle ops ui)"

section \<open>Primitives\<close>

definition host_irq :: "'p host \<Rightarrow> bool" where
  "host_irq h \<longleftrightarrow> h_uo h AND UO_IRQ \<noteq> 0"

definition fault_pin :: "'p host \<Rightarrow> bool" where
  "fault_pin h \<longleftrightarrow> h_uo h AND UO_FAULT \<noteq> 0"

definition fault_visible :: "'p port_ops \<Rightarrow> 'p host \<Rightarrow> bool" where
  "fault_visible ops h \<longleftrightarrow> po_uo_visible ops (h_port h) AND UO_FAULT \<noteq> 0"

definition static_acceptance :: "'p host \<Rightarrow> int \<Rightarrow> int \<Rightarrow> bool option" where
  "static_acceptance h op payload =
     (if op = SELECT then Some (payload < h_engines h)
      else if op = READ_SELECT then Some (payload \<le> RS_VERSION)
      else None)"

definition host_cycle :: "'p port_ops \<Rightarrow> int option \<Rightarrow> ('p, int) host_act" where
  "host_cycle ops ui =
     act_bind (act_get h_window) (\<lambda>w.
     act_bind (port_cycle ops (case ui of None \<Rightarrow> shl w 6 | Some u \<Rightarrow> u)) (\<lambda>u.
     act_bind (set_uo u) (\<lambda>_. act_return u)))"

definition idle :: "'p port_ops \<Rightarrow> int \<Rightarrow> ('p, int) host_act" where
  "idle ops count =
     act_bind (act_get h_window) (\<lambda>w.
     act_bind (act_times (nat count) (act_bind (port_cycle ops (shl w 6)) set_uo)) (\<lambda>_.
     act_get h_uo))"

definition forget :: "'p port_ops \<Rightarrow> ('p, unit) host_act" where
  "forget ops = act_mod (\<lambda>h. h\<lparr>h_window := 0, h_selected := 0, h_read_selected := 0, h_uo := 0,
     h_port := po_set_forbidden ops 0 (h_port h)\<rparr>)"

definition host_reset :: "'p port_ops \<Rightarrow> int \<Rightarrow> ('p, unit) host_act" where
  "host_reset ops cycles = act_bind (on_port (po_reset ops cycles)) (\<lambda>_. forget ops)"

definition host_deselect :: "'p port_ops \<Rightarrow> int \<Rightarrow> ('p, unit) host_act" where
  "host_deselect ops cycles = act_bind (on_port (po_deselect ops cycles)) (\<lambda>_. forget ops)"

definition set_window :: "'p port_ops \<Rightarrow> int \<Rightarrow> ('p, unit) host_act" where
  "set_window ops window =
     act_bind (act_get h_window) (\<lambda>w.
     if w \<noteq> window then
       act_bind (act_mod (\<lambda>h. h\<lparr>h_window := window\<rparr>)) (\<lambda>_.
       act_bind (port_cycle ops (shl window 6)) set_uo)
     else act_return ())"

definition bounce :: "'p port_ops \<Rightarrow> ('p, unit) host_act" where
  "bounce ops = act_bind (act_get h_window) (\<lambda>w. set_window ops (w XOR 1))"

text \<open>The handshake of one nibble: at most \<open>timeout\<close> cycles with \<open>ui\<close> until a bit of
  \<open>flag\<close> was sampled high; \<open>note\<close> is what the caller does with every sample. The
  result is the first and the last sample, and whether the handshake completed.\<close>

fun handshake ::
  "'p port_ops \<Rightarrow> (int \<Rightarrow> ('p, unit) host_act) \<Rightarrow> int \<Rightarrow> int \<Rightarrow> nat \<Rightarrow> ('p, int \<times> int \<times> bool) host_act"
where
  "handshake ops note ui flag 0 = act_return (0, 0, False)"
| "handshake ops note ui flag (Suc n) =
     act_bind (port_cycle ops ui) (\<lambda>u.
     act_bind (note u) (\<lambda>_.
     if u AND flag \<noteq> 0 then act_return (u, u, True)
     else if n = 0 then act_return (u, u, False)
     else act_bind (handshake ops note ui flag n) (\<lambda>(_, v, ok). act_return (u, v, ok))))"

definition no_note :: "int \<Rightarrow> ('p, unit) host_act" where
  "no_note u = act_return ()"

definition budget :: "int option \<Rightarrow> ('p, int) host_act" where
  "budget timeout =
     act_bind (act_get (\<lambda>h. case timeout of None \<Rightarrow> h_timeout h | Some t \<Rightarrow> t)) (\<lambda>t.
     act_bind (act_require (1 \<le> t) (ValueError ''timeout must be at least one cycle'')) (\<lambda>_.
     act_return t))"

text \<open>The nibbles of a word; \<open>first\<close> is the first sample of the whole write.\<close>

fun write_nibbles ::
  "'p port_ops \<Rightarrow> int \<Rightarrow> int \<Rightarrow> int \<Rightarrow> int list \<Rightarrow> int option \<Rightarrow> ('p, int option) host_act" where
  "write_nibbles ops window word t [] first = act_return first"
| "write_nibbles ops window word t (n # ns) first =
     act_bind (handshake ops no_note ((shl window 6 OR UI_WVALID) OR (shr word (4 * n) AND 15))
       UO_WREADY (nat t))
     (\<lambda>(u, v, ok).
       if ok then write_nibbles ops window word t ns (Some (case first of None \<Rightarrow> u | Some f \<Rightarrow> f))
       else act_bind (set_uo v) (\<lambda>_. act_bind (bounce ops) (\<lambda>_.
            act_raise (HostTimeout ''write-ready stayed low''))))"

definition write_word :: "'p port_ops \<Rightarrow> int \<Rightarrow> int \<Rightarrow> int option \<Rightarrow> ('p, int) host_act" where
  "write_word ops window word timeout =
     act_bind (act_require (window \<in> {0, 1, 2} \<and> 0 \<le> word \<and> word \<le> 0xFFFFFFFF)
       (ValueError ''invalid host write'')) (\<lambda>_.
     act_bind (budget timeout) (\<lambda>t.
     act_bind (act_get h_window) (\<lambda>w.
     act_bind
       (if w \<noteq> window then
          act_bind (act_mod (\<lambda>h. h\<lparr>h_window := window\<rparr>)) (\<lambda>_.
          act_bind (port_cycle ops (shl window 6)) (\<lambda>u. act_return (Some u)))
        else act_return None) (\<lambda>first0.
     act_bind (write_nibbles ops window word t (py_range 8) first0) (\<lambda>first.
     act_bind (act_mod (\<lambda>h. h\<lparr>h_first_uo := (case first of None \<Rightarrow> 0 | Some f \<Rightarrow> f)\<rparr>)) (\<lambda>_.
     act_bind (port_cycle ops (shl window 6)) (\<lambda>u.
     act_bind (set_uo u) (\<lambda>_. act_return u))))))))"

text \<open>\<open>pauses[n]\<close> idle cycles before nibble \<open>n\<close>.\<close>

definition pause :: "'p port_ops \<Rightarrow> int \<Rightarrow> int list option \<Rightarrow> int \<Rightarrow> ('p, unit) host_act" where
  "pause ops idle_ui pauses n =
     (case pauses of
        None \<Rightarrow> act_return ()
      | Some ps \<Rightarrow>
          if n < int (length ps)
          then act_times (nat (ps ! nat n)) (act_bind (port_cycle ops idle_ui) set_uo)
          else act_return ())"

text \<open>The nibbles of a read: the word collected so far and the last sample.\<close>

fun read_nibbles ::
  "'p port_ops \<Rightarrow> int \<Rightarrow> int \<Rightarrow> int list option \<Rightarrow> int list \<Rightarrow> int \<Rightarrow> int \<Rightarrow> ('p, int \<times> int) host_act" where
  "read_nibbles ops window t pauses [] result uo = act_return (result, uo)"
| "read_nibbles ops window t pauses (n # ns) result uo =
     act_bind (pause ops (shl window 6) pauses n) (\<lambda>_.
     act_bind (handshake ops no_note (shl window 6 OR UI_RREADY) UO_RVALID (nat t)) (\<lambda>(_, v, ok).
       if ok then read_nibbles ops window t pauses ns (result OR shl (v AND 15) (4 * n)) v
       else act_bind (set_uo v) (\<lambda>_. act_bind (bounce ops) (\<lambda>_.
            act_raise (HostTimeout ''read-valid stayed low'')))))"

definition read_word :: "'p port_ops \<Rightarrow> int \<Rightarrow> int option \<Rightarrow> int list option \<Rightarrow> ('p, int) host_act" where
  "read_word ops window timeout pauses =
     act_bind (act_require (window \<in> {0, 3}) (ValueError ''invalid host read'')) (\<lambda>_.
     act_bind (budget timeout) (\<lambda>t.
     act_bind (set_window ops window) (\<lambda>_.
     act_bind (read_nibbles ops window t pauses (py_range 8) 0 0) (\<lambda>(result, uo).
     act_bind (set_uo uo) (\<lambda>_. act_return result)))))"

text \<open>\<open>try_write_word\<close> and \<open>try_read_word\<close>: a stalled nibble or a deliberate stop after
  fewer than eight nibbles abandons the transfer. \<open>self.uo\<close> is the last sample.\<close>

fun try_write_nibbles ::
  "'p port_ops \<Rightarrow> int \<Rightarrow> int \<Rightarrow> int \<Rightarrow> int list \<Rightarrow> ('p, bool) host_act" where
  "try_write_nibbles ops window word max_wait [] = act_return True"
| "try_write_nibbles ops window word max_wait (n # ns) =
     act_bind (handshake ops set_uo ((shl window 6 OR UI_WVALID) OR (shr word (4 * n) AND 15))
       UO_WREADY (nat (max_wait + 1))) (\<lambda>(_, v, ok).
     if ok then try_write_nibbles ops window word max_wait ns
     else act_bind (bounce ops) (\<lambda>_. act_return False))"

definition try_write_word :: "'p port_ops \<Rightarrow> int \<Rightarrow> int \<Rightarrow> int \<Rightarrow> int \<Rightarrow> ('p, bool) host_act" where
  "try_write_word ops window word max_wait n_nibbles =
     act_bind (set_window ops window) (\<lambda>_.
     act_bind (try_write_nibbles ops window word max_wait (py_range n_nibbles)) (\<lambda>ok.
     if \<not> ok then act_return False
     else if n_nibbles < 8 then act_bind (bounce ops) (\<lambda>_. act_return False)
     else act_bind (port_cycle ops (shl window 6)) (\<lambda>u.
          act_bind (set_uo u) (\<lambda>_. act_return True))))"

fun try_read_nibbles ::
  "'p port_ops \<Rightarrow> int \<Rightarrow> int \<Rightarrow> int list option \<Rightarrow> int list \<Rightarrow> int \<Rightarrow> ('p, int option) host_act" where
  "try_read_nibbles ops window max_wait pauses [] result = act_return (Some result)"
| "try_read_nibbles ops window max_wait pauses (n # ns) result =
     act_bind (pause ops (shl window 6) pauses n) (\<lambda>_.
     act_bind (handshake ops set_uo (shl window 6 OR UI_RREADY) UO_RVALID (nat (max_wait + 1)))
       (\<lambda>(_, v, ok).
     if ok then try_read_nibbles ops window max_wait pauses ns (result OR shl (v AND 15) (4 * n))
     else act_bind (bounce ops) (\<lambda>_. act_return None)))"

definition try_read_word ::
  "'p port_ops \<Rightarrow> int \<Rightarrow> int \<Rightarrow> int \<Rightarrow> int list option \<Rightarrow> ('p, int option) host_act" where
  "try_read_word ops window max_wait n_nibbles pauses =
     act_bind (set_window ops window) (\<lambda>_.
     act_bind (try_read_nibbles ops window max_wait pauses (py_range n_nibbles) 0) (\<lambda>result.
     case result of
       None \<Rightarrow> act_return None
     | Some word \<Rightarrow>
         if n_nibbles < 8 then act_bind (bounce ops) (\<lambda>_. act_return None)
         else act_return (Some word)))"

section \<open>Commands\<close>

text \<open>The acceptance that the library infers: from the payload, or from the FAULT pin before
  and after the word.\<close>

definition inferred :: "'p port_ops \<Rightarrow> int \<Rightarrow> int \<Rightarrow> int \<Rightarrow> 'p host \<Rightarrow> bool option" where
  "inferred ops op payload after h =
     (let known = static_acceptance h op payload in
      if known \<noteq> None \<or> po_uo_visible ops (h_port h) AND UO_FAULT = 0 then known
      else if after AND UO_FAULT \<noteq> 0
      then (if h_first_uo h AND UO_FAULT \<noteq> 0 then None else Some False)
      else Some True)"

definition record_accepted :: "'p port_ops \<Rightarrow> int \<Rightarrow> int \<Rightarrow> 'p host \<Rightarrow> 'p host" where
  "record_accepted ops op payload h =
     (if op = SELECT then h\<lparr>h_selected := payload\<rparr>
      else if op = READ_SELECT then h\<lparr>h_read_selected := payload\<rparr>
      else if op = OWN
      then h\<lparr>h_port := po_set_forbidden ops
              (po_forbidden ops (h_port h) OR ((payload AND 0xFF) AND NOT (shr payload 8 AND 0xFF)))
              (h_port h)\<rparr>
      else h)"

definition host_command ::
  "'p port_ops \<Rightarrow> int \<Rightarrow> int \<Rightarrow> bool option \<Rightarrow> ('p, bool option) host_act" where
  "host_command ops op payload check =
     act_bind (act_lift (command_word op payload)) (\<lambda>word.
     act_bind (write_word ops W_COMMAND word None) (\<lambda>after.
     act_bind (act_get (inferred ops op payload after)) (\<lambda>ok.
     act_bind (act_mod (\<lambda>h. h\<lparr>h_last_ok := ok\<rparr>)) (\<lambda>_.
     if ok = Some False then
       act_bind (act_get h_strict) (\<lambda>strict.
       if (case check of None \<Rightarrow> strict | Some c \<Rightarrow> c) then act_raise (CommandRejected op payload)
       else act_return ok)
     else act_bind (act_mod (record_accepted ops op payload)) (\<lambda>_. act_return ok)))))"

definition checked_mask :: "int \<Rightarrow> ('p, int) host_act" where
  "checked_mask msk =
     act_bind (act_get all_engines) (\<lambda>m.
     act_bind (act_require (0 \<le> msk \<and> msk \<le> m) (ValueError ''engine mask'')) (\<lambda>_.
     act_return msk))"

definition checked_engine :: "int \<Rightarrow> ('p, int) host_act" where
  "checked_engine engine =
     act_bind (act_get h_engines) (\<lambda>n.
     act_bind (act_require (0 \<le> engine \<and> engine < n) (ValueError ''engine number'')) (\<lambda>_.
     act_return engine))"

definition select :: "'p port_ops \<Rightarrow> int \<Rightarrow> ('p, bool option) host_act" where
  "select ops engine =
     act_bind (checked_engine engine) (\<lambda>e. host_command ops SELECT e None)"

definition use :: "'p port_ops \<Rightarrow> int option \<Rightarrow> ('p, unit) host_act" where
  "use ops engine =
     act_bind (act_get h_selected) (\<lambda>sel.
     case engine of
       None \<Rightarrow> act_return ()
     | Some e \<Rightarrow> if e \<noteq> sel then act_bind (select ops e) (\<lambda>_. act_return ()) else act_return ())"

definition begin_program :: "'p port_ops \<Rightarrow> int option \<Rightarrow> ('p, bool option) host_act" where
  "begin_program ops engine = act_bind (use ops engine) (\<lambda>_. host_command ops BEGIN 0 None)"

definition commit :: "'p port_ops \<Rightarrow> int \<Rightarrow> ('p, bool option) host_act" where
  "commit ops n =
     act_bind (act_require (0 < n \<and> n \<le> 0xFFFF) (ValueError ''COMMIT length'')) (\<lambda>_.
     host_command ops COMMIT n None)"

definition own :: "'p port_ops \<Rightarrow> int \<Rightarrow> int \<Rightarrow> int option \<Rightarrow> ('p, bool option) host_act" where
  "own ops pins open_drain engine =
     act_bind (use ops engine) (\<lambda>_.
     act_bind (act_lift (own_payload pins open_drain)) (\<lambda>p. host_command ops OWN p None))"

definition start_engines :: "'p port_ops \<Rightarrow> int \<Rightarrow> ('p, bool option) host_act" where
  "start_engines ops msk = act_bind (checked_mask msk) (\<lambda>m. host_command ops START m None)"

definition stop_engines :: "'p port_ops \<Rightarrow> int option \<Rightarrow> ('p, bool option) host_act" where
  "stop_engines ops msk =
     act_bind (case msk of None \<Rightarrow> act_get all_engines | Some m \<Rightarrow> checked_mask m) (\<lambda>m.
     host_command ops STOP m None)"

definition route :: "'p port_ops \<Rightarrow> int \<Rightarrow> int \<Rightarrow> int \<Rightarrow> bool \<Rightarrow> ('p, bool option) host_act" where
  "route ops source destination count enable =
     act_bind (checked_engine source) (\<lambda>_. act_bind (checked_engine destination) (\<lambda>_.
     act_bind (act_lift (route_payload source destination count enable)) (\<lambda>p.
     host_command ops ROUTE p None)))"

definition unroute :: "'p port_ops \<Rightarrow> int \<Rightarrow> ('p, bool option) host_act" where
  "unroute ops source =
     act_bind (checked_engine source) (\<lambda>s.
     act_bind (act_lift (route_payload s 0 0 False)) (\<lambda>p. host_command ops ROUTE p None))"

definition clear :: "'p port_ops \<Rightarrow> int \<Rightarrow> bool \<Rightarrow> ('p, bool option) host_act" where
  "clear ops msk host_fault =
     act_bind (checked_mask msk) (\<lambda>m.
     host_command ops CLEAR (m OR (if host_fault then CLEAR_HOST_FAULT else 0)) None)"

definition raise_event :: "'p port_ops \<Rightarrow> int \<Rightarrow> ('p, bool option) host_act" where
  "raise_event ops msk = act_bind (checked_mask msk) (\<lambda>m. host_command ops EVENT m None)"

definition flush :: "'p port_ops \<Rightarrow> int option \<Rightarrow> ('p, bool option) host_act" where
  "flush ops engine = act_bind (use ops engine) (\<lambda>_. host_command ops FLUSH 0 None)"

definition trigger :: "'p port_ops \<Rightarrow> int \<Rightarrow> int \<Rightarrow> bool \<Rightarrow> int option \<Rightarrow> ('p, bool option) host_act" where
  "trigger ops pin mode enable engine =
     act_bind (use ops engine) (\<lambda>_.
     act_bind (act_lift (trigger_payload pin mode enable)) (\<lambda>p. host_command ops TRIGGER p None))"

definition disable_trigger :: "'p port_ops \<Rightarrow> int option \<Rightarrow> ('p, bool option) host_act" where
  "disable_trigger ops engine = act_bind (use ops engine) (\<lambda>_. host_command ops TRIGGER 0 None)"

section \<open>Reads\<close>

definition read_status :: "'p port_ops \<Rightarrow> int \<Rightarrow> int option \<Rightarrow> ('p, int) host_act" where
  "read_status ops index timeout =
     act_bind (host_command ops READ_SELECT index None) (\<lambda>_.
     act_bind (act_mod (\<lambda>h. h\<lparr>h_window := 1\<rparr>)) (\<lambda>_.
     act_bind (port_cycle ops (shl 1 6)) (\<lambda>u.
     act_bind (set_uo u) (\<lambda>_.
     read_word ops W_COMMAND timeout None))))"

definition host_status :: "'p port_ops \<Rightarrow> int option \<Rightarrow> ('p, engine_status) host_act" where
  "host_status ops engine =
     act_bind (use ops engine) (\<lambda>_.
     act_bind (read_status ops RS_STATUS None) (\<lambda>w.
     act_bind (act_get h_selected) (\<lambda>sel. act_return (Status w (Some sel)))))"

definition host_timestamp :: "'p port_ops \<Rightarrow> ('p, int) host_act" where
  "host_timestamp ops = read_status ops RS_TIMESTAMP None"

definition read_of :: "'p port_ops \<Rightarrow> int \<Rightarrow> int option \<Rightarrow> ('p, int) host_act" where
  "read_of ops index engine = act_bind (use ops engine) (\<lambda>_. read_status ops index None)"

definition levels :: "'p port_ops \<Rightarrow> int option \<Rightarrow> ('p, int \<times> int) host_act" where
  "levels ops engine =
     act_bind (read_of ops RS_LEVELS engine) (\<lambda>w. act_return (split_levels w))"

definition host_pc :: "'p port_ops \<Rightarrow> int option \<Rightarrow> ('p, int) host_act" where
  "host_pc ops engine = read_of ops RS_PC engine"

definition event_pending :: "'p port_ops \<Rightarrow> int option \<Rightarrow> ('p, bool) host_act" where
  "event_pending ops engine =
     act_bind (read_of ops RS_EVENT engine) (\<lambda>w. act_return (w AND 1 \<noteq> 0))"

definition host_completed :: "'p port_ops \<Rightarrow> int option \<Rightarrow> ('p, int) host_act" where
  "host_completed ops engine = read_of ops RS_COUNT engine"

definition held_rx :: "'p port_ops \<Rightarrow> int option \<Rightarrow> ('p, int) host_act" where
  "held_rx ops engine = read_of ops RS_HELD_RX engine"

definition isa_version :: "'p port_ops \<Rightarrow> ('p, int) host_act" where
  "isa_version ops =
     act_bind (read_status ops RS_VERSION None) (\<lambda>v.
     act_bind (act_mod (\<lambda>h. h\<lparr>h_device_isa := Some v\<rparr>)) (\<lambda>_. act_return v))"

definition check_isa :: "'p port_ops \<Rightarrow> ('p, int) host_act" where
  "check_isa ops =
     act_bind (isa_version ops) (\<lambda>v.
     act_bind (act_get h_isa_versions) (\<lambda>vs.
     act_bind (act_require (v \<in> set vs) (IsaMismatch v)) (\<lambda>_. act_return v)))"

section \<open>Loading\<close>

definition load_program ::
  "'p port_ops \<Rightarrow> int \<Rightarrow> int list \<Rightarrow> int \<Rightarrow> int \<Rightarrow> bool \<Rightarrow> ('p, int) host_act" where
  "load_program ops engine words owned open_drain verify =
     act_bind (act_get (\<lambda>h. a_program_words (h_architecture h))) (\<lambda>capacity.
     act_bind (act_require (0 < length words \<and> int (length words) \<le> capacity)
       (ValueError ''program length'')) (\<lambda>_.
     act_bind (select ops engine) (\<lambda>_.
     act_bind (host_command ops BEGIN 0 None) (\<lambda>_.
     act_bind (act_lift (own_payload owned open_drain)) (\<lambda>p.
     act_bind (host_command ops OWN p None) (\<lambda>_.
     act_bind (act_for words (\<lambda>w. act_bind (write_word ops W_PROGRAM w None) (\<lambda>_. act_return ()))) (\<lambda>_.
     act_bind (host_command ops COMMIT (int (length words)) None) (\<lambda>_.
     act_bind
       (if verify then
          act_bind (host_status ops None) (\<lambda>s.
          act_require (s_committed s \<and> \<not> s_running s) (HostError ''image not committed''))
        else act_return ()) (\<lambda>_.
     act_return (int (length words)))))))))))"

section \<open>Queues\<close>

definition tx_write :: "'p port_ops \<Rightarrow> int list \<Rightarrow> int option \<Rightarrow> int option \<Rightarrow> ('p, int) host_act" where
  "tx_write ops words engine timeout =
     act_bind (use ops engine) (\<lambda>_.
     act_bind (act_for words (\<lambda>w. act_bind (write_word ops W_TX w timeout) (\<lambda>_. act_return ()))) (\<lambda>_.
     act_return (int (length words))))"

definition tx_try_write :: "'p port_ops \<Rightarrow> int \<Rightarrow> int \<Rightarrow> int option \<Rightarrow> ('p, bool) host_act" where
  "tx_try_write ops word max_wait engine =
     act_bind (use ops engine) (\<lambda>_. try_write_word ops W_TX word max_wait 8)"

definition rx_read :: "'p port_ops \<Rightarrow> int option \<Rightarrow> int option \<Rightarrow> ('p, int) host_act" where
  "rx_read ops engine timeout = act_bind (use ops engine) (\<lambda>_. read_word ops W_RX timeout None)"

fun read_words :: "'p port_ops \<Rightarrow> int option \<Rightarrow> nat \<Rightarrow> ('p, int list) host_act" where
  "read_words ops timeout 0 = act_return []"
| "read_words ops timeout (Suc n) =
     act_bind (read_word ops W_RX timeout None) (\<lambda>w.
     act_bind (read_words ops timeout n) (\<lambda>ws. act_return (w # ws)))"

definition rx_read_many :: "'p port_ops \<Rightarrow> int \<Rightarrow> int option \<Rightarrow> int option \<Rightarrow> ('p, int list) host_act" where
  "rx_read_many ops count engine timeout =
     act_bind (use ops engine) (\<lambda>_. read_words ops timeout (nat count))"

definition rx_try_read :: "'p port_ops \<Rightarrow> int \<Rightarrow> int option \<Rightarrow> ('p, int option) host_act" where
  "rx_try_read ops max_wait engine =
     act_bind (use ops engine) (\<lambda>_. try_read_word ops W_RX max_wait 8 None)"

text \<open>\<open>rx_drain\<close>: every round reads at least one word, so \<open>limit\<close> rounds are enough and the
  fuel \<open>nat limit\<close> never runs out before \<open>len(out) < limit\<close> fails.\<close>

fun drain_rounds :: "'p port_ops \<Rightarrow> int \<Rightarrow> nat \<Rightarrow> int list \<Rightarrow> ('p, int list) host_act" where
  "drain_rounds ops limit 0 out = act_return out"
| "drain_rounds ops limit (Suc fuel) out =
     (if \<not> int (length out) < limit then act_return out
      else act_bind (levels ops None) (\<lambda>(_, level).
           if level = 0 then act_return out
           else act_bind (read_words ops None (nat (min level (limit - int (length out))))) (\<lambda>ws.
                drain_rounds ops limit fuel (out @ ws))))"

definition rx_drain :: "'p port_ops \<Rightarrow> int option \<Rightarrow> int \<Rightarrow> ('p, int list) host_act" where
  "rx_drain ops engine limit =
     act_bind (use ops engine) (\<lambda>_. drain_rounds ops limit (nat limit) [])"

section \<open>Faults\<close>

record fault_report =
  f_statuses :: "engine_status list"
  f_fault_pin :: "bool option"
  f_faulted :: "engine_status list"
  f_host_fault :: "bool option"

definition FaultReport :: "engine_status list \<Rightarrow> bool option \<Rightarrow> fault_report" where
  "FaultReport statuses pin =
     (let faulted = filter s_faulted statuses in
      \<lparr>f_statuses = statuses, f_fault_pin = pin, f_faulted = faulted,
       f_host_fault = (case pin of
           None \<Rightarrow> None
         | Some p \<Rightarrow> if \<not> p then Some False else if faulted = [] then Some True else None)\<rparr>)"

definition report_ok :: "fault_report \<Rightarrow> bool" where
  "report_ok r \<longleftrightarrow> f_fault_pin r \<noteq> Some True \<and> f_faulted r = []"

definition report_repr :: "fault_report \<Rightarrow> string" where
  "report_repr r =
     (if report_ok r \<and> f_fault_pin r = None
      then ''<FaultReport no engine faults; host fault unknown (uo[7] not wired to this host)>''
      else if report_ok r then ''<FaultReport ok>''
      else ''<FaultReport '' @ join ''; ''
        (map (\<lambda>s. ''engine '' @ (case s_engine s of None \<Rightarrow> ''None'' | Some e \<Rightarrow> decimal e)
               @ '': fault '' @ decimal (s_fault s) @ '' ('' @ fault_name (s_fault s) @ '')'') (f_faulted r)
         @ (if f_host_fault r = Some True then [''sticky host fault (a rejected command)'']
            else if f_host_fault r = None \<and> f_fault_pin r = None
            then [''host fault unknown (uo[7] not wired to this host)'']
            else if f_host_fault r = None then [''host fault unknown (masked by engine faults)'']
            else [])) @ ''>'')"

fun read_statuses :: "'p port_ops \<Rightarrow> int list \<Rightarrow> ('p, engine_status list) host_act" where
  "read_statuses ops [] = act_return []"
| "read_statuses ops (e # es) =
     act_bind (select ops e) (\<lambda>_.
     act_bind (read_status ops RS_STATUS None) (\<lambda>w.
     act_bind (read_statuses ops es) (\<lambda>ss. act_return (Status w (Some e) # ss))))"

definition read_fault_report :: "'p port_ops \<Rightarrow> ('p, fault_report) host_act" where
  "read_fault_report ops =
     act_bind (act_get h_selected) (\<lambda>previous.
     act_bind (act_get h_engines) (\<lambda>n.
     act_bind (read_statuses ops (py_range n)) (\<lambda>ss.
     act_bind (act_get h_selected) (\<lambda>sel.
     act_bind (if previous \<noteq> sel then act_bind (select ops previous) (\<lambda>_. act_return ())
               else act_return ()) (\<lambda>_.
     act_get (\<lambda>h. FaultReport ss (if fault_visible ops h then Some (h_uo h AND UO_FAULT \<noteq> 0) else None)))))))"

definition faulted_mask :: "fault_report \<Rightarrow> int" where
  "faulted_mask r =
     fold (\<lambda>s m. m OR shl 1 (case s_engine s of None \<Rightarrow> 0 | Some e \<Rightarrow> e)) (f_faulted r) 0"

definition clear_faults :: "'p port_ops \<Rightarrow> int option \<Rightarrow> bool \<Rightarrow> ('p, bool option) host_act" where
  "clear_faults ops msk host_fault =
     act_bind (case msk of
                 None \<Rightarrow> act_bind (read_fault_report ops) (\<lambda>r. act_return (faulted_mask r))
               | Some m \<Rightarrow> act_return m) (\<lambda>m. clear ops m host_fault)"

definition raise_on_fault :: "'p port_ops \<Rightarrow> ('p, unit) host_act" where
  "raise_on_fault ops =
     act_bind (act_get fault_pin) (\<lambda>bad.
     if bad then act_bind (read_fault_report ops) (\<lambda>_. act_raise EngineFault)
     else act_return ())"

section \<open>Waiting\<close>

fun wait_until :: "'p port_ops \<Rightarrow> ('p, bool) host_act \<Rightarrow> int \<Rightarrow> nat \<Rightarrow> ('p, int) host_act" where
  "wait_until ops predicate n 0 = act_raise (HostTimeout ''timeout waiting for condition'')"
| "wait_until ops predicate n (Suc fuel) =
     act_bind (predicate) (\<lambda>ok.
     if ok then act_return n
     else act_bind (idle ops 1) (\<lambda>_. wait_until ops predicate (n + 1) fuel))"

fun wait_irq_loop :: "'p port_ops \<Rightarrow> int \<Rightarrow> nat \<Rightarrow> ('p, int) host_act" where
  "wait_irq_loop ops n 0 = act_raise (HostTimeout ''IRQ stayed low'')"
| "wait_irq_loop ops n (Suc fuel) =
     act_bind (idle ops 1) (\<lambda>u.
     if u AND UO_IRQ \<noteq> 0 then act_return n else wait_irq_loop ops (n + 1) fuel)"

definition wait_irq :: "'p port_ops \<Rightarrow> int option \<Rightarrow> ('p, int) host_act" where
  "wait_irq ops timeout =
     act_bind (act_get (\<lambda>h. po_uo_visible ops (h_port h))) (\<lambda>vis.
     act_bind (act_require (vis AND UO_IRQ \<noteq> 0) (HostError ''this port does not see uo[6]'')) (\<lambda>_.
     act_bind (act_get (\<lambda>h. case timeout of None \<Rightarrow> h_timeout h | Some t \<Rightarrow> t)) (\<lambda>t.
     wait_irq_loop ops 0 (nat t))))"

fun run_cycles :: "'p port_ops \<Rightarrow> int \<Rightarrow> bool \<Rightarrow> nat \<Rightarrow> ('p, unit) host_act" where
  "run_cycles ops ui watch_fault 0 = act_return ()"
| "run_cycles ops ui watch_fault (Suc n) =
     act_bind (port_cycle ops ui) (\<lambda>u.
     act_bind (set_uo u) (\<lambda>_.
     act_bind (if watch_fault \<and> u AND UO_FAULT \<noteq> 0 then raise_on_fault ops else act_return ()) (\<lambda>_.
     run_cycles ops ui watch_fault n)))"

definition host_run :: "'p port_ops \<Rightarrow> int \<Rightarrow> bool \<Rightarrow> ('p, int) host_act" where
  "host_run ops cycles watch_fault =
     act_bind (act_get h_window) (\<lambda>w.
     act_bind (run_cycles ops (shl w 6) watch_fault (nat cycles)) (\<lambda>_. act_get h_uo))"

definition host_free_run :: "'p port_ops \<Rightarrow> int \<Rightarrow> int option \<Rightarrow> ('p, int) host_act" where
  "host_free_run ops cycles freq_hz =
     act_bind (set_window ops 0) (\<lambda>_.
     act_bind
       (case freq_hz of
          Some f \<Rightarrow> if f \<noteq> 0 then on_port (po_free_run ops cycles f)
                    else act_bind (idle ops cycles) (\<lambda>_. act_return ())
        | None \<Rightarrow> act_bind (idle ops cycles) (\<lambda>_. act_return ())) (\<lambda>_. act_get h_uo))"

definition describe_status :: "engine_status \<Rightarrow> string" where
  "describe_status s =
     status_repr s @ (if s_faulted s then '' -> '' @ fault_name (s_fault s) else [])"

end
