(* ===== verification/Chip_Edge.thy ===== *)
theory Chip_Edge
  imports Chip_Props
begin

text \<open>
  One edge of the chip as the host sees it: the transfer registers after the edge as a
  function of the host's byte alone, the words an edge completes or hands out, and runs of
  edges with the words they delivered in each direction. The selections of the chip are a
  fold over the delivered words, and a program is loaded by the words delivered to it.
\<close>

section \<open>The host's part of the state after an edge\<close>

definition ui_window :: "int \<Rightarrow> int" where
  "ui_window ui = shr ui 6 AND 3"

definition collected :: "chip \<Rightarrow> int \<Rightarrow> int" where
  "collected r ui = r_write_word r OR shl (ui AND 15) (4 * r_write_index r)"

definition read_edge :: "chip \<Rightarrow> int \<Rightarrow> chip" where
  "read_edge r ui =
     (let r2 = present_read (window_change r (ui_window ui)) (ui_window ui) (ui_window ui \<noteq> r_window r)
      in if bit ui 5 \<and> ui_window ui = r_window r \<and> r_read_word r \<noteq> None
         then (if r_read_index r = 7
               then r2\<lparr>r_read_index := 0, r_read_word := None, r_read_engine := None\<rparr>
               else r2\<lparr>r_read_index := r_read_index r + 1\<rparr>)
         else r2)"

definition write_accepted :: "config \<Rightarrow> chip \<Rightarrow> int \<Rightarrow> bool" where
  "write_accepted cfg r ui \<longleftrightarrow> bit ui 4 \<and> ui_window ui = r_window r \<and> ready cfg r (ui_window ui)"

definition host_edge :: "config \<Rightarrow> chip \<Rightarrow> int \<Rightarrow> chip" where
  "host_edge cfg r ui =
     (let r3 = read_edge r ui in
      if write_accepted cfg r ui
      then (if r_write_index r = 7
            then fst (complete_word cfg (r3\<lparr>r_write_index := 0, r_write_word := 0\<rparr>) (ui_window ui)
                        (collected r ui) 0)
            else r3\<lparr>r_write_word := collected r ui, r_write_index := r_write_index r + 1\<rparr>)
      else r3)"

lemma present_read_frame [simp]:
  "r_read_select (present_read r v c) = r_read_select r"
  "r_host_fault (present_read r v c) = r_host_fault r"
  by (simp_all add: present_read_def split: prod.splits)

lemma window_change_frame [simp]:
  "r_read_select (window_change r v) = r_read_select r"
  "r_host_fault (window_change r v) = r_host_fault r"
  "v = r_window r \<Longrightarrow> window_change r v = r"
  by (simp_all add: window_change_def)

lemma read_edge_frame [simp]:
  "r_engines (read_edge r ui) = r_engines r" "r_selected (read_edge r ui) = r_selected r"
  "r_read_select (read_edge r ui) = r_read_select r" "r_host_fault (read_edge r ui) = r_host_fault r"
  "r_routes (read_edge r ui) = r_routes r"
  "r_window (read_edge r ui) = ui_window ui"
  by (simp_all add: read_edge_def Let_def)

lemma read_edge_write [simp]:
  "r_write_index (read_edge r ui) = (if ui_window ui = r_window r then r_write_index r else 0)"
  "r_write_word (read_edge r ui) = (if ui_window ui = r_window r then r_write_word r else 0)"
  by (simp_all add: read_edge_def Let_def window_change_def)

lemma complete_word_state:
  "fst (complete_word cfg r v w ext) = fst (complete_word cfg r v w 0)"
  by (simp add: complete_word_def Let_def split: prod.splits)

lemma ready_window: "ready cfg r v \<Longrightarrow> v = r_window r"
  by (simp add: ready_def Let_def)

lemma host_phase_edge:
  "fst (host_phase cfg r ui) = host_edge cfg r ui"
proof -
  define v where "v = ui_window ui"
  define pre where "pre = o_uo (outputs cfg r ui False True)"
  define r2 where "r2 = present_read (window_change r v) v (v \<noteq> r_window r)"
  define ext where "ext = trigger_events (window_change r v)"
  have pre4: "bit pre 4 \<longleftrightarrow> ready cfg r v"
    and pre5: "bit pre 5 \<longleftrightarrow> v = r_window r \<and> r_read_word r \<noteq> None"
    unfolding pre_def v_def ui_window_def by (rule outputs_uo_bits)+
  have idx: "r_read_index r2 = r_read_index r" if "v = r_window r"
    using that by (simp add: r2_def)
  have ar: "fst (accept_read r2 ui pre) = read_edge r ui"
  proof (cases "bit ui 5 \<and> v = r_window r \<and> r_read_word r \<noteq> None")
    case True
    then have "ui AND 32 \<noteq> 0 \<and> pre AND 32 \<noteq> 0" by (simp add: pre5 and_bit_iff)
    then show ?thesis
      using True idx
      by (simp only: accept_read_def if_True) (simp add: read_edge_def Let_def v_def [symmetric] r2_def)
  next
    case False
    then have "\<not> (ui AND 32 \<noteq> 0 \<and> pre AND 32 \<noteq> 0)" by (simp add: pre5 and_bit_iff)
    moreover have "read_edge r ui = r2"
      using False unfolding read_edge_def Let_def v_def [symmetric] r2_def [symmetric]
      by (simp only: if_False)
    ultimately show ?thesis by (simp only: accept_read_def if_False fst_conv)
  qed
  have "fst (accept_write cfg (read_edge r ui) v ui pre ext) = host_edge cfg r ui"
  proof (cases "bit ui 4 \<and> ready cfg r v")
    case True
    then have acc: "ui AND 16 \<noteq> 0 \<and> pre AND 16 \<noteq> 0" by (simp add: pre4 and_bit_iff)
    have v: "v = r_window r" using True ready_window by blast
    show ?thesis
      using acc True v complete_word_state [where ext = ext]
      by (simp only: accept_write_def if_True)
        (auto simp add: host_edge_def Let_def write_accepted_def v_def [symmetric] collected_def)
  next
    case False
    then have "\<not> (ui AND 16 \<noteq> 0 \<and> pre AND 16 \<noteq> 0)" by (simp add: pre4 and_bit_iff)
    moreover have "host_edge cfg r ui = read_edge r ui"
      using False unfolding host_edge_def Let_def write_accepted_def v_def [symmetric] by auto
    ultimately show ?thesis by (simp only: accept_write_def if_False fst_conv)
  qed
  then show ?thesis
    unfolding host_phase_def Let_def ui_window_def [symmetric] v_def [symmetric] pre_def [symmetric]
      ext_def [symmetric] r2_def [symmetric]
    using ar by (auto split: prod.splits)
qed

text \<open>The whole edge: the engines' part leaves the host's registers alone.\<close>

definition edge_from :: "config \<Rightarrow> chip \<Rightarrow> chip \<Rightarrow> bool" where
  "edge_from cfg r1 r' \<longleftrightarrow>
     host_fields r' = host_fields r1 \<and> (\<forall>i. engine_no cfg i \<longrightarrow> ctl_kept (eng r1 i) (eng r' i))"

lemma tick_edge:
  assumes "config_ok cfg" "wf_chip cfg r" "tick cfg r ui pins False True = Some (r', out)"
  shows "wf_chip cfg r'" "edge_from cfg (host_edge cfg r ui) r'"
proof -
  obtain r1 host_rx w where hp: "host_phase cfg r ui = (r1, host_rx, w)"
    by (cases "host_phase cfg r ui") auto
  have r1: "host_edge cfg r ui = r1" using host_phase_edge [of cfg r ui] hp by simp
  from wf_engine_phase [OF assms(1,2) wf_host_phase [OF assms(1,2) hp], of pins] assms(3)
  show "wf_chip cfg r'" "edge_from cfg (host_edge cfg r ui) r'"
    by (auto simp: tick_def hp Let_def reserved_engine_def edge_from_def r1)
qed

lemmas edge_fields = edge_from_def host_fields_def

section \<open>Words delivered by an edge\<close>

text \<open>The word that an edge completes, with the window it was written to, and the RX word
  whose last nibble the host took on that edge.\<close>

definition edge_word :: "config \<Rightarrow> chip \<Rightarrow> int \<Rightarrow> (int \<times> int) list" where
  "edge_word cfg r ui =
     (if write_accepted cfg r ui \<and> r_write_index r = 7 then [(ui_window ui, collected r ui)] else [])"

definition edge_pop :: "chip \<Rightarrow> int \<Rightarrow> int list" where
  "edge_pop r ui =
     (if bit ui 5 \<and> ui_window ui = 3 \<and> r_window r = 3 \<and> r_read_index r = 7
      then (case r_read_word r of None \<Rightarrow> [] | Some x \<Rightarrow> [x]) else [])"

text \<open>Runs of edges out of reset, with the words delivered to the chip and to the host.\<close>

inductive host_runs :: "config \<Rightarrow> chip \<Rightarrow> (int \<times> int) list \<Rightarrow> int list \<Rightarrow> chip \<Rightarrow> bool"
  for cfg where
  runs_nil: "host_runs cfg r [] [] r"
| runs_edge: "tick cfg r ui pins False True = Some (r', out) \<Longrightarrow> host_runs cfg r' ws xs r''
    \<Longrightarrow> host_runs cfg r (edge_word cfg r ui @ ws) (edge_pop r ui @ xs) r''"

inductive_cases host_runsE: "host_runs cfg r ws xs r'"

lemma host_runs_trans:
  "host_runs cfg r ws xs r' \<Longrightarrow> host_runs cfg r' ws' xs' r'' \<Longrightarrow> host_runs cfg r (ws @ ws') (xs @ xs') r''"
proof (induction rule: host_runs.induct)
  case (runs_edge r ui pins r' out ws xs r1)
  then show ?case using host_runs.runs_edge by fastforce
qed simp

lemma host_runs_one:
  "tick cfg r ui pins False True = Some (r', out) \<Longrightarrow> host_runs cfg r (edge_word cfg r ui) (edge_pop r ui) r'"
  using runs_edge [OF _ runs_nil] by fastforce

lemma host_runs_snoc:
  assumes "host_runs cfg r ws xs r'" "tick cfg r' ui pins False True = Some (r'', out)"
  shows "host_runs cfg r (ws @ edge_word cfg r' ui) (xs @ edge_pop r' ui) r''"
  by (rule host_runs_trans [OF assms(1) host_runs_one [OF assms(2)]])

lemma host_runs_wf:
  "host_runs cfg r ws xs r' \<Longrightarrow> config_ok cfg \<Longrightarrow> wf_chip cfg r \<Longrightarrow> wf_chip cfg r'"
  by (induction rule: host_runs.induct) (auto dest: tick_edge(1))

text \<open>A run of deliveries splits where the words split: the host's words arrive one at a time.\<close>

lemma edge_word_len: "edge_word cfg r ui = [] \<or> (\<exists>x. edge_word cfg r ui = [x])"
  by (simp add: edge_word_def)

lemma host_runs_split:
  assumes "host_runs cfg r ws xs r'" "ws = us @ vs"
  shows "\<exists>m xs1 xs2. host_runs cfg r us xs1 m \<and> host_runs cfg m vs xs2 r' \<and> xs = xs1 @ xs2"
  using assms
proof (induction arbitrary: us rule: host_runs.induct)
  case (runs_nil r)
  then show ?case by (auto intro: host_runs.runs_nil)
next
  case (runs_edge r ui pins r' out ws xs r'')
  show ?case
  proof (cases "us = []")
    case True
    then show ?thesis
      using host_runs.runs_edge [OF runs_edge.hyps(1,2)] host_runs.runs_nil [of cfg r] runs_edge.prems
      by fastforce
  next
    case False
    then obtain us' where us: "us = edge_word cfg r ui @ us'"
      using runs_edge.prems edge_word_len [of cfg r ui] by (cases us) auto
    then have "ws = us' @ vs" using runs_edge.prems by simp
    from runs_edge.IH [OF this] obtain m xs1 xs2 where m: "host_runs cfg r' us' xs1 m"
      "host_runs cfg m vs xs2 r''" "xs = xs1 @ xs2" by blast
    from host_runs.runs_edge [OF runs_edge.hyps(1) m(1)]
    have "host_runs cfg r us (edge_pop r ui @ xs1) m" by (simp add: us)
    then show ?thesis using m(2,3) by (metis append.assoc)
  qed
qed

section \<open>The selections\<close>

text \<open>The abstract machine of the host's selections: an engine number and a read index.\<close>

definition sel_step :: "config \<Rightarrow> int \<times> int \<Rightarrow> int \<times> int \<Rightarrow> int \<times> int" where
  "sel_step cfg ww sr =
     (case ww of (window, word) \<Rightarrow> case sr of (sel, rs) \<Rightarrow>
        let op = shr word 24; payload = word AND 0xFFFFFF in
        if window = 0 \<and> op = 0 \<and> payload < cfg_engines cfg then (payload, rs)
        else if window = 0 \<and> op = 8 \<and> payload \<le> 7 then (sel, payload) else (sel, rs))"

definition selections :: "chip \<Rightarrow> int \<times> int" where
  "selections r = (r_selected r, r_read_select r)"

lemma for_chosen_sel [simp]:
  "r_selected (for_chosen is f r) = r_selected r" "r_read_select (for_chosen is f r) = r_read_select r"
  by (induction "is" arbitrary: r) (simp_all add: for_chosen_def)

lemma selections_complete:
  "selections (fst (complete_word cfg r v word ext)) = sel_step cfg (v, word) (selections r)"
proof -
  have "selections (fst (command cfg r word)) = sel_step cfg (0, word) (selections r)"
    by (auto simp: command_def command_rejected_def command_effect_def selections_def sel_step_def Let_def)
  moreover have "selections (fst (program_word cfg r word)) = selections r"
    by (simp add: program_word_def selections_def Let_def)
  ultimately show ?thesis
    by (auto simp: complete_word_def Let_def sel_step_def split: prod.splits)
qed

lemma selections_edge:
  "selections (host_edge cfg r ui) = fold (sel_step cfg) (edge_word cfg r ui) (selections r)"
proof -
  have r3: "selections (read_edge r ui) = selections r" by (simp add: selections_def)
  have "selections ((read_edge r ui)\<lparr>r_write_index := 0, r_write_word := 0\<rparr>) = selections r"
    "selections ((read_edge r ui)\<lparr>r_write_word := a, r_write_index := b\<rparr>) = selections r" for a b
    using r3 by (simp_all add: selections_def)
  then show ?thesis
    using r3 by (simp add: host_edge_def edge_word_def Let_def selections_complete)
qed

lemma selections_runs:
  assumes "host_runs cfg r ws xs r'" "config_ok cfg" "wf_chip cfg r"
  shows "selections r' = fold (sel_step cfg) ws (selections r)"
  using assms
proof (induction rule: host_runs.induct)
  case (runs_edge r ui pins r' out ws xs r'')
  note e = tick_edge [OF runs_edge.prems runs_edge.hyps(1)]
  have "selections r' = selections (host_edge cfg r ui)"
    using e(2) by (simp add: edge_fields selections_def)
  then show ?case using runs_edge.IH [OF runs_edge.prems(1) e(1)] by (simp add: selections_edge)
qed simp

section \<open>Loading a program, word by word\<close>

lemma ctl_kept_refl [simp]: "ctl_kept e e"
  by (simp add: ctl_kept_def)

lemma ctl_kept_trans: "ctl_kept a b \<Longrightarrow> ctl_kept b c \<Longrightarrow> ctl_kept a c"
  by (simp add: ctl_kept_def)

text \<open>The engines after a command depend on the engines and the selected engine only.\<close>

lemma engines_for_chosen:
  "r_engines (for_chosen is f r) = fold (\<lambda>i es. es[nat i := f (es ! nat i)]) is (r_engines r)"
  by (induction "is" arbitrary: r) (simp_all add: for_chosen_def upd_eng_def eng_def)

lemma complete_word_engines_cong:
  assumes "r_engines a = r_engines b" "r_selected a = r_selected b"
  shows "r_engines (fst (complete_word cfg a v x ext)) = r_engines (fst (complete_word cfg b v x ext))"
proof -
  have e: "eng a = eng b" using assms(1) by (simp add: eng_def fun_eq_iff)
  have s: "sel_engine a = sel_engine b" using assms(2) e by (simp add: sel_engine_def)
  have rej: "command_rejected cfg a op p = command_rejected cfg b op p" for op p
  proof -
    have "other_owned a = other_owned b" by (simp only: other_owned_def e assms)
    then show ?thesis by (simp only: command_rejected_def e s)
  qed
  have up: "r_engines (upd_eng a i f) = r_engines (upd_eng b i f)" for i f
    using assms(1) e by (simp add: upd_eng_def)
  have ch: "r_engines (for_chosen is f a) = r_engines (for_chosen is f b)" for "is" f
    using assms(1) by (simp add: engines_for_chosen)
  have ch2: "r_engines (for_chosen is f (a\<lparr>r_host_fault := False\<rparr>)) = r_engines (for_chosen is f b)"
    "r_engines (for_chosen is f (b\<lparr>r_host_fault := False\<rparr>)) = r_engines (for_chosen is f b)" for "is" f
    using assms(1) by (simp_all add: engines_for_chosen)
  have eff: "r_engines (command_effect cfg a op p) = r_engines (command_effect cfg b op p)" for op p
    using assms e by (simp add: command_effect_def Let_def up ch ch2)
  have "r_engines (fst (command cfg a x)) = r_engines (fst (command cfg b x))"
    using assms(1) by (simp add: command_def Let_def rej eff)
  moreover have "r_engines (fst (program_word cfg a x)) = r_engines (fst (program_word cfg b x))"
    using assms(1) s by (simp add: program_word_def Let_def assms(2) up)
  ultimately show ?thesis
    using assms(1) by (cases "command cfg a x"; cases "command cfg b x") (simp add: complete_word_def Let_def)
qed

lemma edge_silent:
  assumes "edge_word cfg r ui = []"
  shows "r_engines (host_edge cfg r ui) = r_engines r"
  using assms by (auto simp: host_edge_def edge_word_def Let_def split: if_splits)

lemma runs_silent:
  assumes "host_runs cfg r ws xs r'" "ws = []" "config_ok cfg" "wf_chip cfg r" "engine_no cfg i"
  shows "ctl_kept (eng r i) (eng r' i)"
  using assms
proof (induction rule: host_runs.induct)
  case (runs_edge r ui pins r' out ws xs r'')
  note e = tick_edge [OF runs_edge.prems(2,3) runs_edge.hyps(1)]
  have w: "edge_word cfg r ui = []" "ws = []" using runs_edge.prems(1) by simp_all
  have "eng (host_edge cfg r ui) i = eng r i" using edge_silent [OF w(1)] by (simp add: eng_def)
  then have "ctl_kept (eng r i) (eng r' i)" using e(2) runs_edge.prems(4) by (auto simp: edge_from_def)
  then show ?case using runs_edge.IH [OF w(2) runs_edge.prems(2) e(1) runs_edge.prems(4)]
    by (rule ctl_kept_trans)
qed simp

lemma runs_one:
  assumes "host_runs cfg r ws xs r'" "ws = [(v, x)]" "config_ok cfg" "wf_chip cfg r"
  shows "\<exists>m. wf_chip cfg m \<and> selections m = selections r \<and> ready cfg m v \<and> 0 \<le> x \<and> x < 2 ^ 32
    \<and> (\<forall>i. engine_no cfg i \<longrightarrow> ctl_kept (eng r i) (eng m i)
         \<and> ctl_kept (eng (fst (complete_word cfg m v x 0)) i) (eng r' i))"
  using assms
proof (induction rule: host_runs.induct)
  case (runs_edge r ui pins r' out ws xs r'')
  note e = tick_edge [OF runs_edge.prems(2,3) runs_edge.hyps(1)]
  show ?case
  proof (cases "edge_word cfg r ui = []")
    case True
    then have ws: "ws = [(v, x)]" using runs_edge.prems(1) by simp
    from runs_edge.IH [OF ws runs_edge.prems(2) e(1)] obtain m where m: "wf_chip cfg m"
      "selections m = selections r'" "ready cfg m v" "0 \<le> x" "x < 2 ^ 32"
      "\<forall>i. engine_no cfg i \<longrightarrow> ctl_kept (eng r' i) (eng m i)
         \<and> ctl_kept (eng (fst (complete_word cfg m v x 0)) i) (eng r'' i)" by blast
    have "eng (host_edge cfg r ui) i = eng r i" for i
      using edge_silent [OF True] by (simp add: eng_def)
    then have "ctl_kept (eng r i) (eng r' i)" if "engine_no cfg i" for i
      using e(2) that by (auto simp: edge_from_def)
    then have k: "ctl_kept (eng r i) (eng m i)" if "engine_no cfg i" for i
      using that m(6) ctl_kept_trans by blast
    have "selections r' = selections r"
      using selections_edge [of cfg r ui] True e(2) by (simp add: edge_fields selections_def)
    then show ?thesis using m k by (intro exI [of _ m]) simp
  next
    case False
    then have w: "edge_word cfg r ui = [(v, x)]" "ws = []"
      using runs_edge.prems(1) edge_word_len [of cfg r ui] by auto
    then have acc: "write_accepted cfg r ui" "r_write_index r = 7" "v = ui_window ui" "x = collected r ui"
      by (auto simp: edge_word_def split: if_splits)
    have rdy: "ready cfg r v" using acc unfolding write_accepted_def by blast
    have h: "wf_host cfg r" using runs_edge.prems(3) by (simp add: wf_chip_def)
    have x: "0 \<le> x" "x < 2 ^ 32"
      using write_word_bound [OF h, of ui] acc(2,4) by (simp_all add: collected_def)
    let ?m = "(read_edge r ui)\<lparr>r_write_index := 0, r_write_word := 0\<rparr>"
    have "host_edge cfg r ui = fst (complete_word cfg ?m v x 0)"
      using acc by (simp add: host_edge_def Let_def)
    moreover have "r_engines (fst (complete_word cfg ?m v x 0)) = r_engines (fst (complete_word cfg r v x 0))"
      by (rule complete_word_engines_cong) simp_all
    ultimately have eq: "eng (host_edge cfg r ui) i = eng (fst (complete_word cfg r v x 0)) i" for i
      by (simp only: eng_def)
    have "ctl_kept (eng (fst (complete_word cfg r v x 0)) i) (eng r'' i)" if "engine_no cfg i" for i
    proof (rule ctl_kept_trans)
      show "ctl_kept (eng (fst (complete_word cfg r v x 0)) i) (eng r' i)"
        unfolding eq [symmetric] using e(2) that by (simp add: edge_from_def)
      show "ctl_kept (eng r' i) (eng r'' i)"
        by (rule runs_silent [OF runs_edge.hyps(2) w(2) runs_edge.prems(2) e(1) that])
    qed
    then show ?thesis
      using runs_edge.prems(3) rdy x by (intro exI [of _ r]) simp
  qed
qed simp

text \<open>An engine being loaded.\<close>

definition loading :: "chip \<Rightarrow> int \<Rightarrow> int list \<Rightarrow> bool" where
  "loading r e prog \<longleftrightarrow>
     r_selected r = e \<and> e_writing (eng r e) \<and> \<not> e_running (eng r e) \<and> e_program (eng r e) = prog"

definition loaded :: "chip \<Rightarrow> int \<Rightarrow> int list \<Rightarrow> bool" where
  "loaded r e prog \<longleftrightarrow>
     e_committed (eng r e) \<and> \<not> e_running (eng r e) \<and> e_program (eng r e) = prog"

lemma eng_upd_self: "engine_no cfg i \<Longrightarrow> length (r_engines r) = n_eng cfg \<Longrightarrow> eng (upd_eng r i f) i = f (eng r i)"
  by (simp add: eng_upd_eng engine_no_nat)

lemma wf_chip_basics:
  assumes "wf_chip cfg r"
  shows "engine_no cfg (r_selected r)" "length (r_engines r) = n_eng cfg"
  using assms by (auto simp: wf_chip_def wf_host_def wf_engines_def)

lemma shr24_shl: "0 \<le> p \<Longrightarrow> p < 2 ^ 24 \<Longrightarrow> shr (shl op 24 OR p) 24 = op"
  "0 \<le> p \<Longrightarrow> p < 2 ^ 24 \<Longrightarrow> (shl op 24 OR p) AND 0xFFFFFF = p"
proof -
  assume p: "0 \<le> p" "p < 2 ^ 24"
  have nb: "\<not> bit p n" if "24 \<le> n" for n
    using p take_bit_int_eq_self [of p 24] that by (metis bit_take_bit_iff leD)
  show "shr (shl op 24 OR p) 24 = op" by (rule bit_eqI) (auto simp: bit_simps nb)
  show "(shl op 24 OR p) AND 0xFFFFFF = p"
    unfolding and_m24_take by (rule bit_eqI) (use nb in \<open>auto simp: bit_simps not_le\<close>)
qed

lemma command_begin:
  assumes wf: "wf_chip cfg r"
  shows "loading (fst (complete_word cfg r 0 (shl 1 24) 0)) (r_selected r) []"
  using wf_chip_basics [OF wf] shr24_shl [of 0 1]
  by (simp add: complete_word_def command_def command_rejected_def command_effect_def Let_def
    loading_def eng_upd_self split: prod.splits)

lemma command_own:
  assumes wf: "wf_chip cfg r" and p: "0 \<le> p" "p < 2 ^ 24" and l: "loading r e prog"
  shows "loading (fst (complete_word cfg r 0 (shl 3 24 OR p) 0)) e prog"
  using wf_chip_basics [OF wf] shr24_shl [OF p, of 3] l
  by (auto simp: complete_word_def command_def command_effect_def Let_def loading_def eng_upd_self
    split: prod.splits)

lemma command_commit:
  assumes wf: "wf_chip cfg r" and l: "loading r e prog"
    and n: "prog \<noteq> []" "int (length prog) \<le> cfg_program_words cfg" "int (length prog) < 65536"
  shows "loaded (fst (complete_word cfg r 0 (shl 2 24 OR int (length prog)) 0)) e prog"
proof -
  have "shr (int (length prog)) 16 = 0" using n(3) by (simp add: drop_bit_eq_div)
  then show ?thesis
    using wf_chip_basics [OF wf] shr24_shl [of "int (length prog)" 2] l n
    by (simp add: complete_word_def command_def command_rejected_def command_effect_def Let_def
      loading_def loaded_def eng_upd_self sel_engine_def split: prod.splits)
qed

lemma program_word_loads:
  assumes wf: "wf_chip cfg r" and l: "loading r e prog" and rdy: "ready cfg r 1"
    and x: "0 \<le> x" "x < 2 ^ 32"
  shows "loading (fst (complete_word cfg r 1 x 0)) e (prog @ [x])"
proof -
  have "x AND 0xFFFFFFFF = x" using x by (simp add: and_m32_take take_bit_int_eq_self)
  then show ?thesis
    using wf_chip_basics [OF wf] l rdy
    by (auto simp: complete_word_def program_word_def Let_def loading_def eng_upd_self sel_engine_def
      ready_def)
qed

lemma loading_kept:
  "loading r e prog \<Longrightarrow> ctl_kept (eng r e) (eng r' e) \<Longrightarrow> r_selected r' = r_selected r
   \<Longrightarrow> loading r' e prog"
  by (auto simp: loading_def ctl_kept_def)

lemma loaded_kept: "loaded r e prog \<Longrightarrow> ctl_kept (eng r e) (eng r' e) \<Longrightarrow> loaded r' e prog"
  by (auto simp: loaded_def ctl_kept_def)

text \<open>A whole run that delivers one word, on an engine being loaded.\<close>

lemma runs_word:
  assumes run: "host_runs cfg r [(v, x)] xs r'" and cfg: "config_ok cfg" and wf: "wf_chip cfg r"
    and l: "loading r e prog"
    and step: "\<And>m. wf_chip cfg m \<Longrightarrow> loading m e prog \<Longrightarrow> ready cfg m v \<Longrightarrow> 0 \<le> x \<Longrightarrow> x < 2 ^ 32
        \<Longrightarrow> loading (fst (complete_word cfg m v x 0)) e prog'"
  shows "loading r' e prog'"
proof -
  obtain m where m: "wf_chip cfg m" "selections m = selections r" "ready cfg m v" "0 \<le> x" "x < 2 ^ 32"
    "\<And>i. engine_no cfg i \<Longrightarrow> ctl_kept (eng r i) (eng m i)
         \<and> ctl_kept (eng (fst (complete_word cfg m v x 0)) i) (eng r' i)"
    using runs_one [OF run refl cfg wf] by blast
  have e: "engine_no cfg e" using l wf_chip_basics(1) [OF wf] by (simp add: loading_def)
  have "loading m e prog"
    using l m(2,6) e by (intro loading_kept [OF l]) (simp_all add: selections_def)
  from step [OF m(1) this m(3-5)] have l': "loading (fst (complete_word cfg m v x 0)) e prog'" .
  have "selections r' = selections (fst (complete_word cfg m v x 0))"
    using selections_runs [OF run cfg wf] m(2) by (simp add: selections_complete)
  then have "r_selected r' = r_selected (fst (complete_word cfg m v x 0))"
    by (simp add: selections_def)
  then show ?thesis using l' m(6) e by (intro loading_kept [OF l']) simp_all
qed

text \<open>The words of a whole load: SELECT, BEGIN, OWN, the program, COMMIT.\<close>

definition load_words :: "int \<Rightarrow> int \<Rightarrow> int list \<Rightarrow> (int \<times> int) list" where
  "load_words e own prog =
     [(0, e), (0, shl 1 24), (0, shl 3 24 OR own)] @ map (\<lambda>x. (1, x)) prog
     @ [(0, shl 2 24 OR int (length prog))]"

lemma runs_program:
  assumes "host_runs cfg r (map (\<lambda>x. (1, x)) prog) xs r'" "config_ok cfg" "wf_chip cfg r"
    "loading r e done"
  shows "loading r' e (done @ prog)"
  using assms
proof (induction prog arbitrary: r xs "done")
  case Nil
  then have "ctl_kept (eng r e) (eng r' e)" "selections r' = selections r"
    using runs_silent [of cfg r "[]" xs r' e] selections_runs [of cfg r "[]" xs r']
      wf_chip_basics(1) [of cfg r] by (auto simp: loading_def)
  then show ?case using Nil.prems(4) by (simp add: loading_kept selections_def)
next
  case (Cons x prog)
  have "map (\<lambda>x. (1::int, x)) (x # prog) = [(1, x)] @ map (\<lambda>x. (1, x)) prog" by simp
  from host_runs_split [OF Cons.prems(1) this] obtain m xs1 xs2
    where m: "host_runs cfg r [(1, x)] xs1 m" "host_runs cfg m (map (\<lambda>x. (1, x)) prog) xs2 r'" by blast
  have "loading m e (done @ [x])"
    by (rule runs_word [OF m(1) Cons.prems(2-4)]) (rule program_word_loads)
  from Cons.IH [OF m(2) Cons.prems(2) host_runs_wf [OF m(1) Cons.prems(2,3)] this]
  show ?case by simp
qed

text \<open>The three commands that open a load leave the engine empty and ready for words.\<close>

lemma runs_open:
  assumes run: "host_runs cfg r [(0, e), (0, shl 1 24), (0, shl 3 24 OR own)] xs r'" and cfg: "config_ok cfg"
    and wf: "wf_chip cfg r" and e: "engine_no cfg e" and own: "0 \<le> own" "own < 2 ^ 24"
  shows "loading r' e []"
proof -
  obtain m1 xs1 xs1' where m1: "host_runs cfg r [(0, e)] xs1 m1"
    "host_runs cfg m1 [(0, shl 1 24), (0, shl 3 24 OR own)] xs1' r'"
    using host_runs_split [OF run, of "[(0, e)]"] by force
  obtain m2 xs2 xs2' where m2: "host_runs cfg m1 [(0, shl 1 24)] xs2 m2"
    "host_runs cfg m2 [(0, shl 3 24 OR own)] xs2' r'"
    using host_runs_split [OF m1(2), of "[(0, shl 1 24)]"] by force
  have wf1: "wf_chip cfg m1" by (rule host_runs_wf [OF m1(1) cfg wf])
  have wf2: "wf_chip cfg m2" by (rule host_runs_wf [OF m2(1) cfg wf1])
  have e4: "e < 4" "0 \<le> e" using e config_okD(1) [OF cfg] by (auto simp: engine_no_def)
  have sel1: "r_selected m1 = e"
  proof -
    have "shr e 24 = 0" "e AND 0xFFFFFF = e"
      using e4 by (simp_all add: drop_bit_eq_div and_m24_take take_bit_int_eq_self)
    then show ?thesis
      using selections_runs [OF m1(1) cfg wf] e by (simp add: selections_def sel_step_def engine_no_def)
  qed
  have l2: "loading m2 e []"
  proof -
    obtain m where m: "wf_chip cfg m" "selections m = selections m1"
      "\<And>i. engine_no cfg i \<Longrightarrow> ctl_kept (eng (fst (complete_word cfg m 0 (shl 1 24) 0)) i) (eng m2 i)"
      using runs_one [OF m2(1) refl cfg wf1] by blast
    have sm: "r_selected m = e" using m(2) sel1 by (simp add: selections_def)
    have "selections m2 = selections (fst (complete_word cfg m 0 (shl 1 24) 0))"
      using selections_runs [OF m2(1) cfg wf1] m(2) by (simp add: selections_complete)
    then have "r_selected m2 = r_selected (fst (complete_word cfg m 0 (shl 1 24) 0))"
      by (simp add: selections_def)
    then show ?thesis
      by (rule loading_kept [OF command_begin [OF m(1), unfolded sm] m(3) [OF e]])
  qed
  show ?thesis
    by (rule runs_word [OF m2(2) cfg wf2 l2]) (rule command_own [OF _ own])
qed

text \<open>COMMIT closes the load.\<close>

lemma runs_commit:
  assumes run: "host_runs cfg r [(0, shl 2 24 OR int (length prog))] xs r'" and cfg: "config_ok cfg"
    and wf: "wf_chip cfg r" and e: "engine_no cfg e" and l: "loading r e prog"
    and n: "prog \<noteq> []" "int (length prog) \<le> cfg_program_words cfg"
  shows "loaded r' e prog"
proof -
  have n16: "int (length prog) < 65536" using n(2) config_okD(3) [OF cfg] by auto
  obtain m where m: "wf_chip cfg m" "selections m = selections r"
    "\<And>i. engine_no cfg i \<Longrightarrow> ctl_kept (eng r i) (eng m i)
       \<and> ctl_kept (eng (fst (complete_word cfg m 0 (shl 2 24 OR int (length prog)) 0)) i) (eng r' i)"
    using runs_one [OF run refl cfg wf] by blast
  have "loading m e prog" using m(2) m(3) [OF e] by (intro loading_kept [OF l]) (simp_all add: selections_def)
  from command_commit [OF m(1) this n n16]
  show ?thesis by (rule loaded_kept) (use m(3) [OF e] in blast)
qed

text \<open>While an engine is being loaded and has room, the program window takes nibbles.\<close>

lemma loading_ready:
  assumes run: "host_runs cfg r [] xs m" and cfg: "config_ok cfg" and wf: "wf_chip cfg r"
    and l: "loading r e prog" and room: "int (length prog) < cfg_program_words cfg" and win: "r_window m = 1"
  shows "ready cfg m 1"
proof -
  have e: "engine_no cfg e" using l wf_chip_basics(1) [OF wf] by (simp add: loading_def)
  have "selections m = selections r" using selections_runs [OF run cfg wf] by simp
  then have "loading m e prog"
    by (intro loading_kept [OF l runs_silent [OF run refl cfg wf e]]) (simp add: selections_def)
  then show ?thesis using room win by (auto simp: ready_def loading_def sel_engine_def Let_def)
qed

end
