(* ===== verification/Chip_Transfer.thy ===== *)
theory Chip_Transfer
  imports Chip_Edge Host_Protocol
begin

text \<open>
  The transfer registers after an edge with one of the three bytes the host library drives: an
  idle byte of a window, a write nibble, a read. Every edge of the library is one of these, so
  the handshakes of the library are proved over these lemmas alone.
\<close>

section \<open>The library's bytes\<close>

definition idle_ui :: "int \<Rightarrow> int" where
  "idle_ui v = shl v 6"

definition write_ui :: "int \<Rightarrow> int \<Rightarrow> int" where
  "write_ui v nib = (shl v 6 OR 16) OR (nib AND 15)"

definition read_ui :: "int \<Rightarrow> int" where
  "read_ui v = shl v 6 OR 32"

lemma window_no: "0 \<le> (v::int) \<Longrightarrow> v \<le> 3 \<Longrightarrow> v = 0 \<or> v = 1 \<or> v = 2 \<or> v = 3"
  by presburger

lemma low_nibble_bit: "bit ((nib::int) AND 15) n \<longleftrightarrow> n < 4 \<and> bit nib n"
  by (simp add: and_15_take bit_take_bit_iff)

lemma ui_bits:
  assumes "0 \<le> v" "v \<le> 3"
  shows "ui_window (idle_ui v) = v" "\<not> bit (idle_ui v) 4" "\<not> bit (idle_ui v) 5"
    "ui_window (write_ui v nib) = v" "bit (write_ui v nib) 4" "\<not> bit (write_ui v nib) 5"
    "write_ui v nib AND 15 = nib AND 15"
    "ui_window (read_ui v) = v" "\<not> bit (read_ui v) 4" "bit (read_ui v) 5"
proof -
  have b16: "bit (16::int) n \<longleftrightarrow> n = 4" for n using bit_push_bit_iff_int [of 4 1 n] by (auto simp: bit_1_iff)
  have b32: "bit (32::int) n \<longleftrightarrow> n = 5" for n using bit_push_bit_iff_int [of 5 1 n] by (auto simp: bit_1_iff)
  have v: "take_bit 2 v = v" using assms by (simp add: take_bit_int_eq_self)
  have v2: "n < 2" if "bit v n" for n
    using v that by (metis bit_take_bit_iff)
  show "\<not> bit (idle_ui v) 4" "\<not> bit (idle_ui v) 5" "bit (write_ui v nib) 4" "\<not> bit (write_ui v nib) 5"
    "\<not> bit (read_ui v) 4" "bit (read_ui v) 5"
    by (simp_all add: idle_ui_def write_ui_def read_ui_def bit_or_iff bit_push_bit_iff_int
      low_nibble_bit b16 b32)
  show "ui_window (idle_ui v) = v"
    unfolding ui_window_def idle_ui_def and_3_take
    by (rule bit_eqI) (use v2 in \<open>auto simp: bit_take_bit_iff bit_drop_bit_eq bit_push_bit_iff_int
      not_le\<close>)
  show "ui_window (write_ui v nib) = v" "ui_window (read_ui v) = v"
    unfolding ui_window_def write_ui_def read_ui_def and_3_take
    by (rule bit_eqI; use v2 in \<open>auto simp: bit_take_bit_iff bit_drop_bit_eq bit_or_iff
      bit_push_bit_iff_int low_nibble_bit b16 b32 not_le\<close>)+
  show "write_ui v nib AND 15 = nib AND 15"
    unfolding write_ui_def
    by (rule bit_eqI) (auto simp: low_nibble_bit bit_or_iff bit_push_bit_iff_int b16)
qed

section \<open>An edge with an idle byte\<close>

lemma complete_word_frame [simp]:
  "r_window (fst (complete_word cfg r v x ext)) = r_window r"
  "r_write_index (fst (complete_word cfg r v x ext)) = r_write_index r"
  "r_read_index (fst (complete_word cfg r v x ext)) = r_read_index r"
  "r_read_word (fst (complete_word cfg r v x ext)) = r_read_word r"
proof -
  have "r_window (fst (program_word cfg r x)) = r_window r"
    "r_write_index (fst (program_word cfg r x)) = r_write_index r"
    "r_read_index (fst (program_word cfg r x)) = r_read_index r"
    "r_read_word (fst (program_word cfg r x)) = r_read_word r"
    by (simp_all add: program_word_def Let_def)
  moreover obtain r' a where "command cfg r x = (r', a)" by (cases "command cfg r x")
  moreover from this have "r_window r' = r_window r" "r_write_index r' = r_write_index r"
    "r_read_index r' = r_read_index r" "r_read_word r' = r_read_word r"
    using command_frame [of cfg r x] by simp_all
  ultimately show
    "r_window (fst (complete_word cfg r v x ext)) = r_window r"
    "r_write_index (fst (complete_word cfg r v x ext)) = r_write_index r"
    "r_read_index (fst (complete_word cfg r v x ext)) = r_read_index r"
    "r_read_word (fst (complete_word cfg r v x ext)) = r_read_word r"
    by (simp_all add: complete_word_def Let_def)
qed

text \<open>The host's registers after an edge are those of \<open>host_edge\<close>.\<close>

lemma edge_regs:
  assumes "edge_from cfg r1 r'"
  shows "r_window r' = r_window r1" "r_write_index r' = r_write_index r1"
    "r_write_word r' = r_write_word r1" "r_read_index r' = r_read_index r1"
    "r_read_word r' = r_read_word r1" "r_selected r' = r_selected r1"
    "r_read_select r' = r_read_select r1"
  using assms by (simp_all add: edge_fields)

lemma edge_idle:
  assumes cfg: "config_ok cfg" and wf: "wf_chip cfg r" and v: "0 \<le> v" "v \<le> 3"
    and t: "tick cfg r (idle_ui v) pins False True = Some (r', out)"
  shows "wf_chip cfg r'" "r_window r' = v"
    "r_window r \<noteq> v \<Longrightarrow> r_write_index r' = 0 \<and> r_read_index r' = 0 \<and> r_read_word r' = None"
    "r_window r = v \<Longrightarrow> r_write_index r' = r_write_index r \<and> r_write_word r' = r_write_word r
       \<and> r_read_index r' = r_read_index r
       \<and> r_read_word r' = r_read_word (present_read r v False)"
    "edge_word cfg r (idle_ui v) = []" "edge_pop r (idle_ui v) = []"
proof -
  note e = tick_edge [OF cfg wf t] and u = ui_bits(1-3) [OF v]
  have no: "\<not> write_accepted cfg r (idle_ui v)" by (simp add: write_accepted_def u)
  have he: "host_edge cfg r (idle_ui v) = present_read (window_change r v) v (v \<noteq> r_window r)"
    by (simp add: host_edge_def Let_def no read_edge_def u)
  show "wf_chip cfg r'" by (rule e(1))
  show "r_window r' = v" using edge_regs(1) [OF e(2)] by (simp add: he)
  show "r_window r \<noteq> v \<Longrightarrow> r_write_index r' = 0 \<and> r_read_index r' = 0 \<and> r_read_word r' = None"
    using edge_regs [OF e(2)] by (simp add: he present_read_changed) (simp add: window_change_def)
  show "r_window r = v \<Longrightarrow> r_write_index r' = r_write_index r \<and> r_write_word r' = r_write_word r
       \<and> r_read_index r' = r_read_index r
       \<and> r_read_word r' = r_read_word (present_read r v False)"
    using edge_regs [OF e(2)] by (simp add: he)
  show "edge_word cfg r (idle_ui v) = []" "edge_pop r (idle_ui v) = []"
    by (simp_all add: edge_word_def edge_pop_def no u)
qed

section \<open>An edge with a write nibble\<close>

lemma edge_write:
  assumes cfg: "config_ok cfg" and wf: "wf_chip cfg r" and v: "r_window r = v"
    and t: "tick cfg r (write_ui v nib) pins False True = Some (r', out)"
  shows "wf_chip cfg r'" "r_window r' = v" "r_read_index r' = r_read_index r"
    "\<not> ready cfg r v \<Longrightarrow> r_write_index r' = r_write_index r \<and> r_write_word r' = r_write_word r
       \<and> edge_word cfg r (write_ui v nib) = []"
    "ready cfg r v \<Longrightarrow> r_write_index r < 7 \<Longrightarrow> r_write_index r' = r_write_index r + 1
       \<and> r_write_word r' = r_write_word r OR shl (nib AND 15) (4 * r_write_index r)
       \<and> edge_word cfg r (write_ui v nib) = []"
    "ready cfg r v \<Longrightarrow> r_write_index r = 7 \<Longrightarrow> r_write_index r' = 0
       \<and> edge_word cfg r (write_ui v nib) = [(v, r_write_word r OR shl (nib AND 15) 28)]"
    "edge_pop r (write_ui v nib) = []"
proof -
  have v3: "0 \<le> v" "v \<le> 3" using wf v by (simp_all add: wf_chip_def wf_host_def)
  note e = tick_edge [OF cfg wf t] and u = ui_bits(4-7) [OF v3]
  have acc: "write_accepted cfg r (write_ui v nib) \<longleftrightarrow> ready cfg r v"
    using v by (simp add: write_accepted_def u)
  have re: "read_edge r (write_ui v nib) = present_read r v False"
    using v by (simp add: read_edge_def u)
  have col: "collected r (write_ui v nib) = r_write_word r OR shl (nib AND 15) (4 * r_write_index r)"
    by (simp add: collected_def u del: push_bit_and)
  have he: "host_edge cfg r (write_ui v nib) =
    (if ready cfg r v then (if r_write_index r = 7
       then fst (complete_word cfg ((present_read r v False)\<lparr>r_write_index := 0, r_write_word := 0\<rparr>) v
               (collected r (write_ui v nib)) 0)
       else (present_read r v False)\<lparr>r_write_word := collected r (write_ui v nib),
               r_write_index := r_write_index r + 1\<rparr>)
     else present_read r v False)"
    by (simp add: host_edge_def Let_def acc re u)
  note regs = edge_regs [OF e(2), unfolded he]
  show "wf_chip cfg r'" by (rule e(1))
  show "r_window r' = v" "r_read_index r' = r_read_index r" using regs v by simp_all
  show "\<not> ready cfg r v \<Longrightarrow> r_write_index r' = r_write_index r \<and> r_write_word r' = r_write_word r
       \<and> edge_word cfg r (write_ui v nib) = []"
    using regs by (simp add: edge_word_def acc)
  show "ready cfg r v \<Longrightarrow> r_write_index r < 7 \<Longrightarrow> r_write_index r' = r_write_index r + 1
       \<and> r_write_word r' = r_write_word r OR shl (nib AND 15) (4 * r_write_index r)
       \<and> edge_word cfg r (write_ui v nib) = []"
    using regs by (simp add: edge_word_def acc col del: push_bit_and)
  show "ready cfg r v \<Longrightarrow> r_write_index r = 7 \<Longrightarrow> r_write_index r' = 0
       \<and> edge_word cfg r (write_ui v nib) = [(v, r_write_word r OR shl (nib AND 15) 28)]"
    using regs by (simp add: edge_word_def acc col u del: push_bit_and)
  show "edge_pop r (write_ui v nib) = []" by (simp add: edge_pop_def u)
qed

section \<open>An edge with a read\<close>

lemma present_read_some: "r_read_word r = Some x \<Longrightarrow> present_read r v c = r"
  by (simp add: present_read_def split: prod.splits)

lemma edge_read:
  assumes cfg: "config_ok cfg" and wf: "wf_chip cfg r" and v: "r_window r = v"
    and t: "tick cfg r (read_ui v) pins False True = Some (r', out)"
  shows "wf_chip cfg r'" "r_window r' = v" "r_write_index r' = r_write_index r"
    "edge_word cfg r (read_ui v) = []"
    "r_read_word r = None \<Longrightarrow> r_read_index r' = r_read_index r
       \<and> r_read_word r' = r_read_word (present_read r v False) \<and> edge_pop r (read_ui v) = []"
    "r_read_word r = Some x \<Longrightarrow> r_read_index r < 7 \<Longrightarrow> r_read_index r' = r_read_index r + 1
       \<and> r_read_word r' = Some x \<and> edge_pop r (read_ui v) = []"
    "r_read_word r = Some x \<Longrightarrow> r_read_index r = 7 \<Longrightarrow> r_read_index r' = 0
       \<and> r_read_word r' = None \<and> edge_pop r (read_ui v) = (if v = 3 then [x] else [])"
proof -
  have v3: "0 \<le> v" "v \<le> 3" using wf v by (simp_all add: wf_chip_def wf_host_def)
  note e = tick_edge [OF cfg wf t] and u = ui_bits(8-10) [OF v3]
  have acc: "\<not> write_accepted cfg r (read_ui v)" by (simp add: write_accepted_def u)
  have he: "host_edge cfg r (read_ui v) =
    (if r_read_word r \<noteq> None
     then (if r_read_index r = 7
           then (present_read r v False)\<lparr>r_read_index := 0, r_read_word := None, r_read_engine := None\<rparr>
           else (present_read r v False)\<lparr>r_read_index := r_read_index r + 1\<rparr>)
     else present_read r v False)"
    using v by (simp add: host_edge_def Let_def acc read_edge_def u)
  note regs = edge_regs [OF e(2), unfolded he]
  show "wf_chip cfg r'" by (rule e(1))
  show "r_window r' = v" "r_write_index r' = r_write_index r"
    using regs v by (simp_all split: option.splits)
  show "edge_word cfg r (read_ui v) = []" by (simp add: edge_word_def acc)
  show "r_read_word r = None \<Longrightarrow> r_read_index r' = r_read_index r
       \<and> r_read_word r' = r_read_word (present_read r v False) \<and> edge_pop r (read_ui v) = []"
    using regs by (simp add: edge_pop_def)
  show "r_read_word r = Some x \<Longrightarrow> r_read_index r < 7 \<Longrightarrow> r_read_index r' = r_read_index r + 1
       \<and> r_read_word r' = Some x \<and> edge_pop r (read_ui v) = []"
    using regs by (simp add: edge_pop_def present_read_some)
  show "r_read_word r = Some x \<Longrightarrow> r_read_index r = 7 \<Longrightarrow> r_read_index r' = 0
       \<and> r_read_word r' = None \<and> edge_pop r (read_ui v) = (if v = 3 then [x] else [])"
    using regs v by (auto simp: edge_pop_def u)
qed

text \<open>What the second cycle in a window presents.\<close>

lemma present_read_word:
  "r_read_word (present_read r v False) = Some x \<Longrightarrow> r_read_word r = Some x
   \<or> (v = 0 \<and> x = status r) \<or> (v = 3 \<and> e_rx (sel_engine r) \<noteq> [] \<and> x = hd (e_rx (sel_engine r)))"
  by (cases "v = 0"; cases "v = 3 \<and> e_rx (sel_engine r) \<noteq> []"; cases "r_read_word r")
    (auto simp: present_read_def read_port_def split: if_splits)

lemma present_read_status: "r_read_word (present_read r 0 False) \<noteq> None"
  by (cases "r_read_word r") (auto simp: present_read_def read_port_def)

text \<open>The bits of the sample.\<close>

lemma sample_bits:
  assumes "r_window r = v" "0 \<le> v" "v \<le> 3" "ui_window ui = v"
  shows "o_uo (outputs cfg r ui False True) AND 16 \<noteq> 0 \<longleftrightarrow> ready cfg r v"
    "o_uo (outputs cfg r ui False True) AND 32 \<noteq> 0 \<longleftrightarrow> r_read_word r \<noteq> None"
    "r_read_word r = Some x \<Longrightarrow>
       o_uo (outputs cfg r ui False True) AND 15 = shr x (4 * r_read_index r) AND 15"
  using outputs_uo_bits [of cfg r ui] assms
  by (simp_all add: and_bit_iff ui_window_def mult.commute)

end
