(* ===== verification/Host_Link.thy ===== *)
theory Host_Link
  imports Host_Emulator Chip_Transfer
begin

text \<open>
  The host library against the chip. \<open>chip_port\<close> is the contract of a port: every cycle is one
  edge of the chip behind it and returns the sample before that edge. Inside it the
  handshakes, the word transfers and the commands of the library are proved once, for any
  port; the port on the reference model is an instance of it, with and without an environment
  that can raise.
\<close>

section \<open>Handshakes in general\<close>

lemma act_post_both:
  "act_post Q E (act_bind m f s) \<longleftrightarrow> act_post (\<lambda>a s'. act_post Q E (f a s')) E (m s)"
  by (auto simp: act_post_def act_bind_def split: sum.splits prod.splits)

lemma act_post_if:
  "(c \<Longrightarrow> act_post Q E (m s)) \<Longrightarrow> (\<not> c \<Longrightarrow> act_post Q E (n s)) \<Longrightarrow> act_post Q E ((if c then m else n) s)"
  by simp

text \<open>A note that only stores the sample.\<close>

definition quiet_note :: "(int \<Rightarrow> ('p, unit) host_act) \<Rightarrow> bool" where
  "quiet_note note \<longleftrightarrow> (\<forall>u h. \<exists>v. note u h = (Inr (), h\<lparr>h_uo := v\<rparr>))"

lemma quiet_notes [simp]: "quiet_note set_uo" "quiet_note no_note"
proof -
  show "quiet_note set_uo" by (auto simp: quiet_note_def set_uo_def)
  have "h = h\<lparr>h_uo := h_uo h\<rparr>" for h :: "'p host" by simp
  then show "quiet_note no_note" unfolding quiet_note_def no_note_def by (metis act_run(1))
qed

text \<open>\<open>I k\<close> holds after \<open>k\<close> cycles in which the bit was low.\<close>

lemma handshake_post:
  assumes step: "\<And>k h. I k h \<Longrightarrow>
      act_post (\<lambda>u h'. if u AND flag \<noteq> 0 then Q u h' else I (Suc k) h') E (port_cycle ops ui h)"
    and nt: "quiet_note note"
    and uo: "\<And>k h v. I k (h\<lparr>h_uo := v\<rparr>) = I k h" "\<And>u h v. Q u (h\<lparr>h_uo := v\<rparr>) = Q u h"
    and start: "I k h" "0 < n"
  shows "act_post (\<lambda>(u, v, ok) h'. if ok then Q v h' else I (k + n) h') E (handshake ops note ui flag n h)"
  using start
proof (induction n arbitrary: h k)
  case 0
  then show ?case by simp
next
  case (Suc n)
  let ?R = "\<lambda>(u, v, ok) h'. if ok then Q v h' else I (k + Suc n) h'"
  let ?rest = "\<lambda>u. if u AND flag \<noteq> 0 then act_return (u, u, True)
          else if n = 0 then act_return (u, u, False)
          else act_bind (handshake ops note ui flag n) (\<lambda>(_, v, ok). act_return (u, v, ok))"
  have rest: "act_post ?R E (?rest u s)" if "if u AND flag \<noteq> 0 then Q u s else I (Suc k) s" for u s
  proof (cases "u AND flag \<noteq> 0 \<or> n = 0")
    case True
    then show ?thesis using that by auto
  next
    case False
    then have "act_post (\<lambda>(u, v, ok) h'. if ok then Q v h' else I (Suc k + n) h') E (handshake ops note ui flag n s)"
      using that by (intro Suc.IH) simp_all
    then have "act_post ?R E (act_bind (handshake ops note ui flag n) (\<lambda>(_, v, ok). act_return (u, v, ok)) s)"
      unfolding act_post_both by (rule act_post_mono) auto
    then show ?thesis using False by simp
  qed
  have step': "act_post ?R E (act_bind (note u) (\<lambda>_. ?rest u) s)"
    if "if u AND flag \<noteq> 0 then Q u s else I (Suc k) s" for u s
  proof -
    obtain v where v: "note u s = (Inr (), s\<lparr>h_uo := v\<rparr>)" using nt by (auto simp: quiet_note_def)
    have "if u AND flag \<noteq> 0 then Q u (s\<lparr>h_uo := v\<rparr>) else I (Suc k) (s\<lparr>h_uo := v\<rparr>)" using that by (simp add: uo)
    from rest [OF this] show ?thesis unfolding act_post_both v act_post_simps .
  qed
  show ?case
    unfolding handshake.simps act_post_both [of _ _ "port_cycle ops ui"]
    by (rule act_post_mono [OF step [OF Suc.prems(1)]]) (rule step')
qed

section \<open>The contract of a port\<close>

locale chip_port =
  fixes cfg :: config
    and ops :: "'p port_ops"
    and chip_of :: "'p \<Rightarrow> chip"
    and good :: "'p \<Rightarrow> bool"
    and perr :: "host_error \<Rightarrow> bool"
  assumes cfg_ok: "config_ok cfg"
    and good_wf: "good p \<Longrightarrow> wf_chip cfg (chip_of p)"
    and cycle_law: "good p \<Longrightarrow> act_post
        (\<lambda>u p'. good p' \<and> u = o_uo (outputs cfg (chip_of p) ui False True)
           \<and> (\<exists>pins out. tick cfg (chip_of p) ui pins False True = Some (chip_of p', out)))
        (\<lambda>e _. perr e) (po_cycle ops ui p)"
    and forbidden_law: "good (po_set_forbidden ops m p) = good p"
      "chip_of (po_set_forbidden ops m p) = chip_of p"
    and restart_law: "good p \<Longrightarrow> 1 \<le> n \<Longrightarrow> act_post
        (\<lambda>_ p'. good p' \<and> chip_of p' = Chip.reset cfg) (\<lambda>e _. perr e) (po_reset ops n p)"
      "good p \<Longrightarrow> 1 \<le> n \<Longrightarrow> act_post
        (\<lambda>_ p'. good p' \<and> chip_of p' = Chip.reset cfg) (\<lambda>e _. perr e) (po_deselect ops n p)"
begin

abbreviation chip :: "'p host \<Rightarrow> chip" where
  "chip h \<equiv> chip_of (h_port h)"

text \<open>The library's own fields, which transfers leave alone.\<close>

definition same_lib :: "'p host \<Rightarrow> 'p host \<Rightarrow> bool" where
  "same_lib h h' \<longleftrightarrow>
     h_timeout h' = h_timeout h \<and> h_architecture h' = h_architecture h
     \<and> h_isa_versions h' = h_isa_versions h \<and> h_strict h' = h_strict h
     \<and> h_selected h' = h_selected h \<and> h_read_selected h' = h_read_selected h"

text \<open>\<open>h\<close> was reached from \<open>h0\<close> with the given words delivered in each direction.\<close>

definition reached :: "'p host \<Rightarrow> (int \<times> int) list \<Rightarrow> int list \<Rightarrow> 'p host \<Rightarrow> bool" where
  "reached h0 ws xs h \<longleftrightarrow>
     good (h_port h) \<and> host_runs cfg (chip h0) ws xs (chip h) \<and> same_lib h0 h"

text \<open>No transfer is under way, and the library knows the window.\<close>

definition linked :: "'p host \<Rightarrow> bool" where
  "linked h \<longleftrightarrow> good (h_port h) \<and> h_window h = r_window (chip h)
     \<and> r_write_index (chip h) = 0 \<and> r_read_index (chip h) = 0"

lemma chip_fields [simp]:
  "chip (h\<lparr>h_uo := a\<rparr>) = chip h" "chip (h\<lparr>h_window := b\<rparr>) = chip h"
  "chip (h\<lparr>h_first_uo := a\<rparr>) = chip h" "chip (h\<lparr>h_last_ok := c\<rparr>) = chip h"
  by simp_all

lemma same_lib_simps [simp]:
  "same_lib h h" "same_lib h (h'\<lparr>h_uo := a\<rparr>) = same_lib h h'"
  "same_lib h (h'\<lparr>h_port := p\<rparr>) = same_lib h h'" "same_lib h (h'\<lparr>h_window := b\<rparr>) = same_lib h h'"
  "same_lib h (h'\<lparr>h_first_uo := a\<rparr>) = same_lib h h'" "same_lib h (h'\<lparr>h_last_ok := c\<rparr>) = same_lib h h'"
  by (simp_all add: same_lib_def)

lemma same_lib_trans: "same_lib a b \<Longrightarrow> same_lib b c \<Longrightarrow> same_lib a c"
  by (simp add: same_lib_def)

lemma reached_fields [simp]:
  "reached h0 ws xs (h\<lparr>h_uo := a\<rparr>) = reached h0 ws xs h"
  "reached h0 ws xs (h\<lparr>h_window := b\<rparr>) = reached h0 ws xs h"
  "reached h0 ws xs (h\<lparr>h_first_uo := a\<rparr>) = reached h0 ws xs h"
  "reached h0 ws xs (h\<lparr>h_last_ok := c\<rparr>) = reached h0 ws xs h"
  by (simp_all add: reached_def)

lemma linked_fields [simp]:
  "linked (h\<lparr>h_uo := a\<rparr>) = linked h" "linked (h\<lparr>h_first_uo := a\<rparr>) = linked h"
  "linked (h\<lparr>h_last_ok := c\<rparr>) = linked h"
  by (simp_all add: linked_def)

lemma reached_refl: "good (h_port h) \<Longrightarrow> reached h [] [] h"
  by (simp add: reached_def runs_nil)

lemma reached_trans:
  "reached a ws xs b \<Longrightarrow> reached b vs ys c \<Longrightarrow> reached a (ws @ vs) (xs @ ys) c"
  by (auto simp: reached_def intro: host_runs_trans same_lib_trans)

lemma reached_wf: "reached h0 ws xs h \<Longrightarrow> wf_chip cfg (chip h)"
  by (simp add: reached_def good_wf)

lemma linked_window: "linked h \<Longrightarrow> 0 \<le> h_window h \<and> h_window h \<le> 3"
  using good_wf [of "h_port h"] by (auto simp: linked_def wf_chip_def wf_host_def)

text \<open>One cycle.\<close>

lemma cycle_post:
  assumes "reached h0 ws xs h"
    and Q: "\<And>p' pins out. good p' \<Longrightarrow> tick cfg (chip h) ui pins False True = Some (chip_of p', out)
        \<Longrightarrow> reached h0 (ws @ edge_word cfg (chip h) ui) (xs @ edge_pop (chip h) ui) (h\<lparr>h_port := p'\<rparr>)
        \<Longrightarrow> Q (o_uo (outputs cfg (chip h) ui False True)) (h\<lparr>h_port := p'\<rparr>)"
    and E: "\<And>e h'. perr e \<Longrightarrow> E e h'"
  shows "act_post Q E (port_cycle ops ui h)"
proof -
  have g: "good (h_port h)" using assms(1) by (simp add: reached_def)
  obtain r p' where c: "po_cycle ops ui (h_port h) = (r, p')" by (cases "po_cycle ops ui (h_port h)")
  show ?thesis
  proof (cases r)
    case (Inl e)
    then show ?thesis using cycle_law [OF g, of ui] c E by (simp add: port_cycle_def on_port_def)
  next
    case (Inr u)
    from cycle_law [OF g, of ui] c Inr obtain pins out where t: "good p'"
      "u = o_uo (outputs cfg (chip h) ui False True)"
      "tick cfg (chip h) ui pins False True = Some (chip_of p', out)"
      by auto
    have "reached h0 (ws @ edge_word cfg (chip h) ui) (xs @ edge_pop (chip h) ui) (h\<lparr>h_port := p'\<rparr>)"
      using assms(1) t by (auto simp: reached_def intro: host_runs_snoc)
    from Q [OF t(1,3) this] show ?thesis using c Inr t(2) by (simp add: port_cycle_def on_port_def)
  qed
qed

text \<open>An idle cycle in a window, which may be a new one.\<close>

lemma idle_post:
  assumes r: "reached h0 ws xs h" and v: "0 \<le> v" "v \<le> 3"
    and w: "v \<noteq> r_window (chip h) \<or> r_write_index (chip h) = 0 \<and> r_read_index (chip h) = 0"
    and Q: "\<And>u h'. reached h0 ws xs h' \<Longrightarrow> linked (h'\<lparr>h_window := v\<rparr>) \<Longrightarrow> h_window h' = h_window h \<Longrightarrow> Q u h'"
    and E: "\<And>e h'. perr e \<Longrightarrow> E e h'"
  shows "act_post Q E (port_cycle ops (shl v 6) h)"
proof (rule cycle_post [OF r _ E])
  fix p' pins out
  assume g: "good p'" and t: "tick cfg (chip h) (shl v 6) pins False True = Some (chip_of p', out)"
    and r': "reached h0 (ws @ edge_word cfg (chip h) (shl v 6)) (xs @ edge_pop (chip h) (shl v 6)) (h\<lparr>h_port := p'\<rparr>)"
  note e = edge_idle [OF cfg_ok reached_wf [OF r] v t [folded idle_ui_def]]
  have "reached h0 ws xs (h\<lparr>h_port := p'\<rparr>)"
    using r' e(5,6) by (simp add: idle_ui_def)
  moreover have "linked ((h\<lparr>h_port := p'\<rparr>)\<lparr>h_window := v\<rparr>)"
    using g e(2-4) w by (auto simp: linked_def)
  ultimately show "Q (o_uo (outputs cfg (chip h) (shl v 6) False True)) (h\<lparr>h_port := p'\<rparr>)"
    by (intro Q) simp_all
qed

lemma set_window_post:
  assumes r: "reached h0 ws xs h" and h: "h_window h = r_window (chip h)" and v: "0 \<le> v" "v \<le> 3"
    and w: "v \<noteq> h_window h \<or> r_write_index (chip h) = 0 \<and> r_read_index (chip h) = 0"
    and E: "\<And>e h'. perr e \<Longrightarrow> E e h'"
  shows "act_post (\<lambda>_ h'. reached h0 ws xs h' \<and> linked h' \<and> h_window h' = v) E (set_window ops v h)"
proof (cases "h_window h = v")
  case True
  have "good (h_port h)" using r by (simp add: reached_def)
  then show ?thesis using True r h w by (simp add: set_window_def act_post_both linked_def)
next
  case False
  let ?h = "h\<lparr>h_window := v\<rparr>"
  have "act_post (\<lambda>u h'. act_post (\<lambda>_ h'. reached h0 ws xs h' \<and> linked h' \<and> h_window h' = v) E (set_uo u h')) E
      (port_cycle ops (shl v 6) ?h)"
  proof (rule idle_post [where ws = ws and xs = xs and ?h0.0 = h0])
    show "reached h0 ws xs ?h" using r by simp
    show "v \<noteq> r_window (chip ?h) \<or> r_write_index (chip ?h) = 0 \<and> r_read_index (chip ?h) = 0"
      using False h by simp
    fix u h' assume "reached h0 ws xs h'" "linked (h'\<lparr>h_window := v\<rparr>)" "h_window h' = h_window ?h"
    then show "act_post (\<lambda>_ h'. reached h0 ws xs h' \<and> linked h' \<and> h_window h' = v) E (set_uo u h')"
      by (simp add: set_uo_def linked_def)
  qed (use v E in auto)
  then show ?thesis using False by (simp add: set_window_def act_post_both)
qed

lemma xor_1_window: "0 \<le> (w::int) \<Longrightarrow> w \<le> 3 \<Longrightarrow> 0 \<le> w XOR 1 \<and> w XOR 1 \<le> 3 \<and> w XOR 1 \<noteq> w"
  by (drule (1) window_no) auto

lemma bounce_post:
  assumes r: "reached h0 ws xs h" and h: "h_window h = r_window (chip h)"
    and E: "\<And>e h'. perr e \<Longrightarrow> E e h'"
  shows "act_post (\<lambda>_ h'. reached h0 ws xs h' \<and> linked h' \<and> h_window h' = h_window h XOR 1) E (bounce ops h)"
proof -
  have v: "0 \<le> h_window h" "h_window h \<le> 3"
    using reached_wf [OF r] h by (simp_all add: wf_chip_def wf_host_def)
  show ?thesis
    unfolding bounce_def act_post_both act_run act_post_simps
    by (rule set_window_post [OF r h]) (use xor_1_window [OF v] E in auto)
qed

section \<open>Writing a word\<close>

text \<open>The library is inside a write: \<open>n\<close> nibbles are accepted.\<close>

definition writing_at :: "'p host \<Rightarrow> int \<Rightarrow> int \<Rightarrow> nat \<Rightarrow> 'p host \<Rightarrow> bool" where
  "writing_at h0 v word n h \<longleftrightarrow>
     reached h0 [] [] h \<and> h_window h = v \<and> r_window (chip h) = v \<and> r_read_index (chip h) = 0
     \<and> r_write_index (chip h) = int n \<and> r_write_word (chip h) = take_bit (4 * n) word"

definition written :: "'p host \<Rightarrow> int \<Rightarrow> int \<Rightarrow> 'p host \<Rightarrow> bool" where
  "written h0 v word h \<longleftrightarrow> reached h0 [(v, word)] [] h \<and> linked h \<and> h_window h = v"

lemma writing_at_uo [simp]: "writing_at h0 v word n (h\<lparr>h_uo := a\<rparr>) = writing_at h0 v word n h"
  "written h0 v word (h\<lparr>h_uo := a\<rparr>) = written h0 v word h"
  by (simp_all add: writing_at_def written_def)

lemma nibble_join:
  "take_bit (4 * n) word OR push_bit (4 * n) (drop_bit (4 * n) word AND 15) = take_bit (4 * Suc n) (word::int)"
proof (rule bit_eqI)
  fix k
  show "bit (take_bit (4 * n) word OR push_bit (4 * n) (drop_bit (4 * n) word AND 15)) k
    = bit (take_bit (4 * Suc n) word) k"
    by (cases "k < 4 * n")
      (auto simp: bit_or_iff bit_take_bit_iff bit_push_bit_iff_int low_nibble_bit bit_drop_bit_eq not_less
        simp del: push_bit_and)
qed

text \<open>A moment of the write at which the window did not take nibbles.\<close>

definition blocked :: "chip \<Rightarrow> int \<Rightarrow> bool" where
  "blocked c0 v \<longleftrightarrow> (\<exists>m. host_runs cfg c0 [] [] m \<and> r_window m = v \<and> \<not> ready cfg m v)"

lemma not_blocked_commands: "\<not> blocked c0 0"
  by (auto simp: blocked_def ready_def)

abbreviation next_write :: "'p host \<Rightarrow> int \<Rightarrow> int \<Rightarrow> nat \<Rightarrow> 'p host \<Rightarrow> bool" where
  "next_write h0 v word n h \<equiv>
     (if n = 7 then written h0 v (take_bit 32 word) h else writing_at h0 v word (Suc n) h)"

lemma nibble_cycle:
  assumes w: "writing_at h0 v word n h" and n: "n \<le> 7"
  shows "act_post (\<lambda>u h'. if u AND UO_WREADY \<noteq> 0 then next_write h0 v word n h' else blocked (chip h0) v \<and> writing_at h0 v word n h')
    (\<lambda>e _. perr e) (port_cycle ops (write_ui v (shr word (4 * int n))) h)"
proof (rule cycle_post [where ws = "[]" and xs = "[]" and ?h0.0 = h0])
  let ?ui = "write_ui v (shr word (4 * int n))" and ?c = "chip h"
  show "reached h0 [] [] h" using w by (simp add: writing_at_def)
  fix p' pins out
  assume g: "good p'" and t: "tick cfg ?c ?ui pins False True = Some (chip_of p', out)"
    and r': "reached h0 ([] @ edge_word cfg ?c ?ui) ([] @ edge_pop ?c ?ui) (h\<lparr>h_port := p'\<rparr>)"
  have wf: "wf_chip cfg ?c" using w by (auto simp: writing_at_def intro: reached_wf)
  have win: "r_window ?c = v" and v: "0 \<le> v" "v \<le> 3" and idx: "r_write_index ?c = int n"
    and acc: "r_write_word ?c = take_bit (4 * n) word" and hw: "h_window h = v" and ri: "r_read_index ?c = 0"
    using w wf by (auto simp: writing_at_def wf_chip_def wf_host_def)
  note e = edge_write [OF cfg_ok wf win t]
  have rdy: "o_uo (outputs cfg ?c ?ui False True) AND UO_WREADY \<noteq> 0 \<longleftrightarrow> ready cfg ?c v"
    using sample_bits(1) [OF win v ui_bits(4) [OF v]] by simp
  have nat4: "nat (4 * int n) = 4 * n" by simp
  have join: "r_write_word ?c OR shl (shr word (4 * int n) AND 15) (4 * int n) = take_bit (4 * Suc n) word"
    unfolding acc nat4 by (rule nibble_join)
  show "if o_uo (outputs cfg ?c ?ui False True) AND UO_WREADY \<noteq> 0 then next_write h0 v word n (h\<lparr>h_port := p'\<rparr>)
    else blocked (chip h0) v \<and> writing_at h0 v word n (h\<lparr>h_port := p'\<rparr>)"
  proof (cases "ready cfg ?c v")
    case False
    have "blocked (chip h0) v"
      using False win w by (auto simp: blocked_def writing_at_def reached_def)
    moreover have "writing_at h0 v word n (h\<lparr>h_port := p'\<rparr>)"
      using r' e(2,3) e(4) [OF False] e(7) hw idx acc ri by (simp add: writing_at_def)
    ultimately show ?thesis using False rdy by simp
  next
    case ready: True
    have "next_write h0 v word n (h\<lparr>h_port := p'\<rparr>)"
    proof (cases "n = 7")
      case True
      have "r_write_word ?c OR shl (shr word (4 * int n) AND 15) 28 = take_bit 32 word"
        using join True by simp
      then show ?thesis
        using True r' e(2,3) e(6) [OF ready] e(7) hw idx g ri
        by (simp add: written_def linked_def)
    next
      case False
      then have "int n < 7" using n by simp
      then show ?thesis
        using False r' e(2,3) e(5) [OF ready] e(7) hw idx join ri by (simp add: writing_at_def)
    qed
    then show ?thesis using ready rdy by simp
  qed
qed

lemma write_nibbles_post:
  assumes "writing_at h0 v word n h" "n < 8" "1 \<le> t" "word = take_bit 32 word"
    and E: "\<And>e h'. perr e \<Longrightarrow> E e h'"
    and T: "\<And>h'. blocked (chip h0) v \<Longrightarrow> reached h0 [] [] h' \<Longrightarrow> linked h' \<Longrightarrow> E (HostTimeout ''write-ready stayed low'') h'"
  shows "act_post (\<lambda>first h'. written h0 v word h') E
      (write_nibbles ops v word t (map int [n..<8]) first h)"
  using assms(1,2)
proof (induction "8 - n" arbitrary: n h first)
  case 0
  then show ?case by simp
next
  case (Suc k)
  let ?ui = "write_ui v (shr word (4 * int n))"
  let ?R = "\<lambda>(first :: int option) h'. written h0 v word h'"
  have n7: "n \<le> 7" using Suc.prems by simp
  have upt: "map int [n..<8] = int n # map int [Suc n..<8]" using n7 by (simp add: upt_conv_Cons)
  have ui: "(shl v 6 OR UI_WVALID) OR (shr word (4 * int n) AND 15) = ?ui"
    by (simp add: write_ui_def)
  have hs: "act_post (\<lambda>(u, x, ok) h'. if ok then next_write h0 v word n h' else blocked (chip h0) v \<and> writing_at h0 v word n h') E
    (handshake ops no_note ?ui UO_WREADY (nat t) h)"
  proof -
    let ?I = "\<lambda>(k :: nat) h'. (0 < k \<longrightarrow> blocked (chip h0) v) \<and> writing_at h0 v word n h'"
    have "act_post (\<lambda>(u, x, ok) h'. if ok then next_write h0 v word n h' else ?I (0 + nat t) h') E
      (handshake ops no_note ?ui UO_WREADY (nat t) h)"
    proof (rule handshake_post [where I = ?I])
      fix k h assume "?I k h"
      then have "writing_at h0 v word n h" by simp
      from nibble_cycle [OF this n7] show "act_post (\<lambda>u h'. if u AND UO_WREADY \<noteq> 0 then next_write h0 v word n h'
          else ?I (Suc k) h') E (port_cycle ops ?ui h)"
        by (rule act_post_mono) (simp_all add: E)
    qed (use Suc.prems assms(3) in auto)
    then show ?thesis by (rule act_post_mono) (use assms(3) in \<open>auto split: if_splits\<close>)
  qed
  have fail: "act_post ?R E (act_bind (set_uo x) (\<lambda>_. act_bind (bounce ops) (\<lambda>_.
      act_raise (HostTimeout ''write-ready stayed low''))) h')"
    if "blocked (chip h0) v" "writing_at h0 v word n h'" for x h'
  proof -
    have "reached h0 [] [] (h'\<lparr>h_uo := x\<rparr>)" "h_window (h'\<lparr>h_uo := x\<rparr>) = r_window (chip (h'\<lparr>h_uo := x\<rparr>))"
      using that(2) by (simp_all add: writing_at_def)
    from bounce_post [where E = E, OF this E]
    have "act_post (\<lambda>_. E (HostTimeout ''write-ready stayed low'')) E (bounce ops (h'\<lparr>h_uo := x\<rparr>))"
      by (rule act_post_mono) (auto intro: T [OF that(1)])
    then show ?thesis by (simp add: act_post_both set_uo_def)
  qed
  have ok: "act_post ?R E (write_nibbles ops v word t (map int [Suc n..<8]) (Some f) h')"
    if "next_write h0 v word n h'" for f h'
  proof (cases "n = 7")
    case True
    then show ?thesis using that assms(4) by simp
  next
    case False
    then show ?thesis using that n7 Suc.hyps by (intro Suc.hyps(1)) simp_all
  qed
  show ?case
    unfolding upt write_nibbles.simps ui act_post_both [of _ _ "handshake ops no_note ?ui UO_WREADY (nat t)"]
  proof (rule act_post_mono [OF hs])
    fix a :: "int \<times> int \<times> bool" and h' assume a: "(case a of (u, x, ok) \<Rightarrow> \<lambda>h'. if ok then next_write h0 v word n h'
        else blocked (chip h0) v \<and> writing_at h0 v word n h') h'"
    obtain u x b where eq: "a = (u, x, b)" by (cases a)
    show "act_post ?R E ((case a of (u, x, ok) \<Rightarrow>
        if ok then write_nibbles ops v word t (map int [Suc n..<8])
                     (Some (case first of None \<Rightarrow> u | Some f \<Rightarrow> f))
        else act_bind (set_uo x) (\<lambda>_. act_bind (bounce ops) (\<lambda>_.
            act_raise (HostTimeout ''write-ready stayed low'')))) h')"
    proof (cases b)
      case True
      then show ?thesis using ok a by (simp add: eq)
    next
      case False
      then show ?thesis using fail a by (simp add: eq)
    qed
  qed simp
qed

text \<open>A word that was written was delivered exactly once; a write that timed out delivered
  nothing and left no partial transfer behind.\<close>

lemma write_word_post:
  assumes l: "linked h" and v: "v \<in> {0, 1, 2}" and word: "0 \<le> word" "word \<le> 0xFFFFFFFF"
    and t: "1 \<le> (case timeout of None \<Rightarrow> h_timeout h | Some t \<Rightarrow> t)"
    and E: "\<And>e h'. perr e \<Longrightarrow> E e h'"
    and T: "\<And>h'. blocked (chip h) v \<Longrightarrow> reached h [] [] h' \<Longrightarrow> linked h' \<Longrightarrow> E (HostTimeout ''write-ready stayed low'') h'"
  shows "act_post (\<lambda>u h'. written h v word h') E (write_word ops v word timeout h)"
proof -
  let ?R = "\<lambda>(u :: int) h'. written h v word h'"
  define tt where "tt = (case timeout of None \<Rightarrow> h_timeout h | Some t \<Rightarrow> t)"
  have v3: "0 \<le> v" "v \<le> 3" using v by auto
  have w32: "word = take_bit 32 word" using word by (simp add: take_bit_int_eq_self)
  have last: "act_post ?R E (act_bind (port_cycle ops (shl v 6)) (\<lambda>u. act_bind (set_uo u) (\<lambda>_. act_return u)) h')"
    if "written h v word h'" for h'
    unfolding act_post_both [of _ _ "port_cycle ops (shl v 6)"]
  proof (rule idle_post [where ?h0.0 = h and ws = "[(v, word)]" and xs = "[]"])
    fix u h'' assume "reached h [(v, word)] [] h''" "linked (h''\<lparr>h_window := v\<rparr>)" "h_window h'' = h_window h'"
    then show "act_post ?R E (act_bind (set_uo u) (\<lambda>_. act_return u) h'')"
      using that by (simp add: act_post_both set_uo_def written_def linked_def)
  qed (use that v3 E in \<open>auto simp: written_def linked_def\<close>)
  let ?tail = "\<lambda>first0. act_bind (write_nibbles ops v word tt (py_range 8) first0) (\<lambda>first.
     act_bind (act_mod (\<lambda>h. h\<lparr>h_first_uo := (case first of None \<Rightarrow> 0 | Some f \<Rightarrow> f)\<rparr>)) (\<lambda>_.
     act_bind (port_cycle ops (shl v 6)) (\<lambda>u. act_bind (set_uo u) (\<lambda>_. act_return u))))"
  have tail: "act_post ?R E (?tail f h')" if "writing_at h v word 0 h'" for f h'
  proof -
    have "act_post (\<lambda>first h'. written h v word h') E
        (write_nibbles ops v word tt (map int [0..<8]) f h')"
    proof (rule write_nibbles_post [OF that])
      show "1 \<le> tt" using t by (simp add: tt_def)
    qed (use w32 E T in auto)
    then have wn: "act_post (\<lambda>first h'. written h v word h') E
        (write_nibbles ops v word tt (py_range 8) f h')"
      by (simp add: py_range_def)
    show ?thesis
      unfolding act_post_both [of _ _ "write_nibbles ops v word tt (py_range 8) f"]
    proof (rule act_post_mono [OF wn])
      fix f h' assume "written h v word h'"
      then have "written h v word (h'\<lparr>h_first_uo := (case f of None \<Rightarrow> 0 | Some f \<Rightarrow> f)\<rparr>)"
        by (simp add: written_def)
      from last [OF this] show "act_post ?R E (act_bind (act_mod (\<lambda>h. h\<lparr>h_first_uo :=
          (case f of None \<Rightarrow> 0 | Some f \<Rightarrow> f)\<rparr>)) (\<lambda>_. act_bind (port_cycle ops (shl v 6))
          (\<lambda>u. act_bind (set_uo u) (\<lambda>_. act_return u))) h')"
        by (simp add: act_post_both [of _ _ "act_mod _"])
    qed simp
  qed
  have start: "writing_at h v word 0 h'" if "reached h [] [] h'" "linked h'" "h_window h' = v" for h'
  proof -
    have "r_write_word (chip h') = 0"
      using reached_wf [OF that(1)] that(2) by (auto simp: wf_chip_def wf_host_def linked_def)
    then show ?thesis using that by (simp add: writing_at_def linked_def)
  qed
  have good: "good (h_port h)" using l by (simp add: linked_def)
  have eq: "write_word ops v word timeout h = act_bind
       (if h_window h \<noteq> v then
          act_bind (act_mod (\<lambda>h. h\<lparr>h_window := v\<rparr>)) (\<lambda>_.
          act_bind (port_cycle ops (shl v 6)) (\<lambda>u. act_return (Some u)))
        else act_return None) ?tail h"
    using v word t by (simp add: write_word_def budget_def act_bind_run tt_def)
  show ?thesis
  proof (cases "h_window h = v")
    case True
    then show ?thesis
      unfolding eq using tail [OF start [OF reached_refl [OF good] l]] by simp
  next
    case False
    have "act_post (\<lambda>u h'. act_post ?R E (?tail (Some u) h')) E (port_cycle ops (shl v 6) (h\<lparr>h_window := v\<rparr>))"
    proof (rule idle_post [where ?h0.0 = h and ws = "[]" and xs = "[]"])
      show "reached h [] [] (h\<lparr>h_window := v\<rparr>)" using reached_refl [OF good] by simp
      show "v \<noteq> r_window (chip (h\<lparr>h_window := v\<rparr>)) \<or> r_write_index (chip (h\<lparr>h_window := v\<rparr>)) = 0
          \<and> r_read_index (chip (h\<lparr>h_window := v\<rparr>)) = 0"
        using l by (simp add: linked_def)
      fix u h' assume "reached h [] [] h'" "linked (h'\<lparr>h_window := v\<rparr>)" "h_window h' = h_window (h\<lparr>h_window := v\<rparr>)"
      then have "writing_at h v word 0 h'" by (intro start) (simp_all add: linked_def)
      then show "act_post ?R E (?tail (Some u) h')" by (rule tail)
    qed (use v3 E in auto)
    then show ?thesis
      unfolding eq using False by (simp add: act_post_both [of _ _ "act_bind _ _"] act_post_both [of _ _ "port_cycle _ _"]
        act_post_both [of _ _ "act_mod _"])
  qed
qed

section \<open>Reading a word\<close>

text \<open>What the chip offers to a read in window \<open>v\<close>: the selected status word, or the head of
  the selected RX queue. A read returns a word offered during the read, or, in window 0
  without a change of the window, the snapshot that was already presented.\<close>

definition offers :: "chip \<Rightarrow> int \<Rightarrow> int \<Rightarrow> bool" where
  "offers m v x \<longleftrightarrow> (v = 0 \<and> x = status m)
     \<or> (v = 3 \<and> e_rx (sel_engine m) \<noteq> [] \<and> x = hd (e_rx (sel_engine m)))"

definition offered :: "chip \<Rightarrow> int \<Rightarrow> int \<Rightarrow> bool" where
  "offered c0 v x \<longleftrightarrow> (\<exists>m. host_runs cfg c0 [] [] m \<and> offers m v x)
     \<or> (v = 0 \<and> r_window c0 = 0 \<and> r_read_word c0 = Some x)"

definition reading_at :: "'p host \<Rightarrow> int \<Rightarrow> nat \<Rightarrow> int \<Rightarrow> 'p host \<Rightarrow> bool" where
  "reading_at h0 v n result h \<longleftrightarrow>
     reached h0 [] [] h \<and> h_window h = v \<and> r_window (chip h) = v \<and> (v = 0 \<or> v = 3)
     \<and> r_write_index (chip h) = 0 \<and> r_read_index (chip h) = int n
     \<and> (0 < n \<longrightarrow> r_read_word (chip h) \<noteq> None) \<and> (n = 0 \<longrightarrow> result = 0)
     \<and> (\<forall>x. r_read_word (chip h) = Some x \<longrightarrow> result = take_bit (4 * n) x \<and> offered (chip h0) v x)"

definition has_read :: "'p host \<Rightarrow> int \<Rightarrow> int \<Rightarrow> 'p host \<Rightarrow> bool" where
  "has_read h0 v result h \<longleftrightarrow>
     (\<exists>x. reached h0 [] (if v = 3 then [x] else []) h \<and> linked h \<and> h_window h = v
        \<and> offered (chip h0) v x \<and> result = take_bit 32 x)"

lemma reading_uo [simp]:
  "reading_at h0 v n result (h\<lparr>h_uo := a\<rparr>) = reading_at h0 v n result h"
  "has_read h0 v result (h\<lparr>h_uo := a\<rparr>) = has_read h0 v result h"
  by (simp_all add: reading_at_def has_read_def)

text \<open>A word that becomes visible during the read is one that the chip offers.\<close>

lemma reading_presented:
  assumes r: "reading_at h0 v n result h" and x: "r_read_word (present_read (chip h) v False) = Some x"
  shows "result = take_bit (4 * n) x \<and> offered (chip h0) v x"
proof (cases "r_read_word (chip h)")
  case None
  then have "n = 0" using r by (auto simp: reading_at_def)
  moreover have "host_runs cfg (chip h0) [] [] (chip h)" using r by (simp add: reading_at_def reached_def)
  ultimately show ?thesis
    using r present_read_word [OF x] None by (auto simp: offered_def offers_def reading_at_def)
next
  case (Some y)
  then show ?thesis using r x by (simp add: present_read_some reading_at_def)
qed

abbreviation next_read :: "'p host \<Rightarrow> int \<Rightarrow> nat \<Rightarrow> int \<Rightarrow> int \<Rightarrow> 'p host \<Rightarrow> bool" where
  "next_read h0 v n result u h \<equiv>
     (let result' = result OR shl (u AND 15) (4 * int n) in
      if n = 7 then has_read h0 v result' h else reading_at h0 v (Suc n) result' h)"

lemma read_cycle:
  assumes r: "reading_at h0 v n result h" and n: "n \<le> 7"
  shows "act_post (\<lambda>u h'. if u AND UO_RVALID \<noteq> 0 then next_read h0 v n result u h' else reading_at h0 v n result h'
       \<and> r_read_word (chip h) = None \<and> (v = 0 \<longrightarrow> r_read_word (chip h') \<noteq> None))
    (\<lambda>e _. perr e) (port_cycle ops (read_ui v) h)"
proof (rule cycle_post [where ws = "[]" and xs = "[]" and ?h0.0 = h0])
  let ?ui = "read_ui v" and ?c = "chip h"
  show "reached h0 [] [] h" using r by (simp add: reading_at_def)
  fix p' pins out
  assume g: "good p'" and t: "tick cfg ?c ?ui pins False True = Some (chip_of p', out)"
    and r': "reached h0 ([] @ edge_word cfg ?c ?ui) ([] @ edge_pop ?c ?ui) (h\<lparr>h_port := p'\<rparr>)"
  have wf: "wf_chip cfg ?c" using r by (auto simp: reading_at_def intro: reached_wf)
  have win: "r_window ?c = v" and v: "0 \<le> v" "v \<le> 3" and idx: "r_read_index ?c = int n"
    and hw: "h_window h = v" and wi: "r_write_index ?c = 0" and v03: "v = 0 \<or> v = 3"
    using r wf by (auto simp: reading_at_def wf_chip_def wf_host_def)
  note e = edge_read [OF cfg_ok wf win t]
  note sb = sample_bits [OF win v ui_bits(8) [OF v], where cfg = cfg]
  show "if o_uo (outputs cfg ?c ?ui False True) AND UO_RVALID \<noteq> 0
    then next_read h0 v n result (o_uo (outputs cfg ?c ?ui False True)) (h\<lparr>h_port := p'\<rparr>)
    else reading_at h0 v n result (h\<lparr>h_port := p'\<rparr>) \<and> r_read_word ?c = None
      \<and> (v = 0 \<longrightarrow> r_read_word (chip (h\<lparr>h_port := p'\<rparr>)) \<noteq> None)"
  proof (cases "r_read_word ?c")
    case None
    then have "n = 0" using r by (auto simp: reading_at_def)
    then have "reading_at h0 v n result (h\<lparr>h_port := p'\<rparr>)"
      using r r' e(2-4) e(5) [OF None] reading_presented [OF r] hw idx wi v03
      by (simp add: reading_at_def)
    moreover have "v = 0 \<longrightarrow> r_read_word (chip_of p') \<noteq> None"
      using e(5) [OF None] present_read_status by auto
    ultimately show ?thesis using sb(2) None by simp
  next
    case (Some x)
    have acc: "result = take_bit (4 * n) x" "offered (chip h0) v x"
      using r Some by (simp_all add: reading_at_def)
    let ?u = "o_uo (outputs cfg ?c ?ui False True)"
    have join: "result OR shl (?u AND 15) (4 * int n) = take_bit (4 * Suc n) x"
      unfolding sb(3) [OF Some] idx acc(1)
    proof -
      have "nat (4 * int n) = 4 * n" by simp
      then show "take_bit (4 * n) x OR shl (shr x (4 * int n) AND 15) (4 * int n) = take_bit (4 * Suc n) x"
        by (simp only: nibble_join)
    qed
    have "next_read h0 v n result ?u (h\<lparr>h_port := p'\<rparr>)"
    proof (cases "n = 7")
      case True
      then show ?thesis
        using r' e(2-4) e(7) [OF Some] hw idx wi g join acc(2)
        unfolding Let_def join has_read_def
        by (auto simp: linked_def intro!: exI [of _ x])
    next
      case False
      then have "int n < 7" using n by simp
      then show ?thesis
        using False r' e(2-4) e(6) [OF Some] hw idx wi acc(2) v03
        unfolding Let_def join by (simp add: reading_at_def)
    qed
    then show ?thesis using sb(2) Some by simp
  qed
qed

lemma pause_post:
  assumes "reading_at h0 v n result h" and E: "\<And>e h'. perr e \<Longrightarrow> E e h'"
  shows "act_post (\<lambda>_ h'. reading_at h0 v n result h') E (pause ops (shl v 6) pauses k h)"
proof -
  have one: "act_post (\<lambda>_ h'. reading_at h0 v n result h') E (act_bind (port_cycle ops (shl v 6)) set_uo h)"
    if r: "reading_at h0 v n result h" for h
    unfolding act_post_both
  proof (rule cycle_post [where ws = "[]" and xs = "[]" and ?h0.0 = h0])
    show "reached h0 [] [] h" using r by (simp add: reading_at_def)
    have wf: "wf_chip cfg (chip h)" using r by (auto simp: reading_at_def intro: reached_wf)
    then have v: "0 \<le> v" "v \<le> 3" using r by (auto simp: reading_at_def)
    fix p' pins out
    assume g: "good p'" and t: "tick cfg (chip h) (shl v 6) pins False True = Some (chip_of p', out)"
      and r': "reached h0 ([] @ edge_word cfg (chip h) (shl v 6)) ([] @ edge_pop (chip h) (shl v 6)) (h\<lparr>h_port := p'\<rparr>)"
    note e = edge_idle [OF cfg_ok wf v t [folded idle_ui_def], unfolded idle_ui_def]
    have win: "r_window (chip h) = v" using r by (simp add: reading_at_def)
    have "r_read_word (present_read (chip h) v False) \<noteq> None" if "0 < n"
      using r that by (auto simp: reading_at_def present_read_some)
    then have "reading_at h0 v n result (h\<lparr>h_port := p'\<rparr>)"
      using r r' e(2) e(4) [OF win] e(5,6) reading_presented [OF r] by (simp add: reading_at_def)
    then show "act_post (\<lambda>_ h'. reading_at h0 v n result h') E
        (set_uo (o_uo (outputs cfg (chip h) (shl v 6) False True)) (h\<lparr>h_port := p'\<rparr>))"
      by (simp add: set_uo_def)
  qed (rule E)
  have "act_post (\<lambda>_ h'. reading_at h0 v n result h') E (act_times m (act_bind (port_cycle ops (shl v 6)) set_uo) h)"
    if "reading_at h0 v n result h" for m h
    using that
  proof (induction m arbitrary: h)
    case (Suc m)
    show ?case
      unfolding act_times.simps act_post_both [of _ _ "act_bind (port_cycle ops (shl v 6)) set_uo"]
      by (rule act_post_mono [OF one [OF Suc.prems]]) (rule Suc.IH)
  qed simp
  then show ?thesis using assms(1) by (simp add: pause_def split: option.splits)
qed

lemma read_nibbles_post:
  assumes "reading_at h0 v n result h" "n < 8" "1 \<le> t"
    and E: "\<And>e h'. perr e \<Longrightarrow> E e h'"
    and T: "\<And>h'. v = 3 \<or> t < 2 \<Longrightarrow> reached h0 [] [] h' \<Longrightarrow> linked h' \<Longrightarrow> E (HostTimeout ''read-valid stayed low'') h'"
  shows "act_post (\<lambda>a h'. has_read h0 v (fst a) h') E
      (read_nibbles ops v t pauses (map int [n..<8]) result uo h)"
  using assms(1,2)
proof (induction "8 - n" arbitrary: n h result uo)
  case 0
  then show ?case by simp
next
  case (Suc k)
  let ?R = "\<lambda>(a :: int \<times> int) h'. has_read h0 v (fst a) h'"
  have n7: "n \<le> 7" using Suc.prems by simp
  have upt: "map int [n..<8] = int n # map int [Suc n..<8]" using n7 by (simp add: upt_conv_Cons)
  have ui: "shl v 6 OR UI_RREADY = read_ui v" by (simp add: read_ui_def)
  have hs: "act_post (\<lambda>(u, x, ok) h'. if ok then next_read h0 v n result x h' else (v = 3 \<or> t < 2) \<and> reading_at h0 v n result h') E
    (handshake ops no_note (read_ui v) UO_RVALID (nat t) h')" if r: "reading_at h0 v n result h'" for h'
  proof -
    let ?I = "\<lambda>(k :: nat) h'. reading_at h0 v n result h' \<and> (v = 0 \<longrightarrow> k < 2)
      \<and> (v = 0 \<and> 0 < k \<longrightarrow> r_read_word (chip h') \<noteq> None)"
    have "act_post (\<lambda>(u, x, ok) h'. if ok then next_read h0 v n result x h' else ?I (0 + nat t) h') E
      (handshake ops no_note (read_ui v) UO_RVALID (nat t) h')"
    proof (rule handshake_post [where I = ?I])
      fix k h assume I: "?I k h"
      then have "reading_at h0 v n result h" by simp
      from read_cycle [OF this n7] show "act_post (\<lambda>u h'. if u AND UO_RVALID \<noteq> 0 then next_read h0 v n result u h'
          else ?I (Suc k) h') E (port_cycle ops (read_ui v) h)"
        by (rule act_post_mono) (use I in \<open>auto simp: E split: if_splits\<close>)
    qed (use r assms(3) in \<open>auto simp: Let_def\<close>)
    then show ?thesis
    proof (rule act_post_mono, goal_cases)
      case (1 a h1)
      then show ?case using r by (cases a) (auto simp: reading_at_def nat_less_iff split: if_splits)
    qed simp
  qed
  have fail: "act_post ?R E (act_bind (set_uo x) (\<lambda>_. act_bind (bounce ops) (\<lambda>_.
      act_raise (HostTimeout ''read-valid stayed low''))) h')"
    if "v = 3 \<or> t < 2" "reading_at h0 v n result h'" for x h'
  proof -
    have "reached h0 [] [] (h'\<lparr>h_uo := x\<rparr>)" "h_window (h'\<lparr>h_uo := x\<rparr>) = r_window (chip (h'\<lparr>h_uo := x\<rparr>))"
      using that(2) by (simp_all add: reading_at_def)
    from bounce_post [where E = E, OF this E]
    have "act_post (\<lambda>_. E (HostTimeout ''read-valid stayed low'')) E (bounce ops (h'\<lparr>h_uo := x\<rparr>))"
      by (rule act_post_mono) (auto intro: T [OF that(1)])
    then show ?thesis by (simp add: act_post_both set_uo_def)
  qed
  have ok: "act_post ?R E (read_nibbles ops v t pauses (map int [Suc n..<8])
      (result OR shl (x AND 15) (4 * int n)) x h')"
    if "next_read h0 v n result x h'" for x h'
  proof (cases "n = 7")
    case True
    then show ?thesis using that by (simp add: Let_def)
  next
    case False
    have "act_post (\<lambda>a h'. has_read h0 v (fst a) h') E (read_nibbles ops v t pauses (map int [Suc n..<8])
      (result OR shl (x AND 15) (4 * int n)) x h')"
      by (rule Suc.hyps(1)) (use False that n7 Suc.hyps(2) in \<open>simp_all add: Let_def del: push_bit_and\<close>)
    then show ?thesis .
  qed
  have "act_post ?R E (read_nibbles ops v t pauses (int n # map int [Suc n..<8]) result uo h)"
    unfolding read_nibbles.simps ui act_post_both [of _ _ "pause ops (shl v 6) pauses (int n)"]
  proof (rule act_post_mono [OF pause_post [OF Suc.prems(1) E]])
    fix a h' assume r: "reading_at h0 v n result h'"
    show "act_post ?R E (act_bind (handshake ops no_note (read_ui v) UO_RVALID (nat t)) (\<lambda>(_, v', ok).
       if ok then read_nibbles ops v t pauses (map int [Suc n..<8]) (result OR shl (v' AND 15) (4 * int n)) v'
       else act_bind (set_uo v') (\<lambda>_. act_bind (bounce ops) (\<lambda>_.
            act_raise (HostTimeout ''read-valid stayed low'')))) h')"
      unfolding act_post_both [of _ _ "handshake ops no_note (read_ui v) UO_RVALID (nat t)"]
    proof (rule act_post_mono [OF hs [OF r]])
      fix a :: "int \<times> int \<times> bool" and h'
      assume a: "(case a of (u, x, ok) \<Rightarrow> \<lambda>h'. if ok then next_read h0 v n result x h'
        else (v = 3 \<or> t < 2) \<and> reading_at h0 v n result h') h'"
      obtain u x b where eq: "a = (u, x, b)" by (cases a)
      show "act_post ?R E ((case a of (_, v', ok) \<Rightarrow>
         if ok then read_nibbles ops v t pauses (map int [Suc n..<8]) (result OR shl (v' AND 15) (4 * int n)) v'
         else act_bind (set_uo v') (\<lambda>_. act_bind (bounce ops) (\<lambda>_.
            act_raise (HostTimeout ''read-valid stayed low'')))) h')"
      proof (cases b)
        case True
        then show ?thesis using ok [of x h'] a by (simp add: eq del: push_bit_and)
      next
        case False
        then show ?thesis using fail [of h' x] a by (simp add: eq)
      qed
    qed simp
  qed simp
  then show ?case unfolding upt .
qed

text \<open>A read returns a word the chip offered, popped exactly once in the RX window; a read
  that times out pops nothing.\<close>

lemma read_word_post:
  assumes l: "linked h" and v: "v \<in> {0, 3}"
    and t: "1 \<le> (case timeout of None \<Rightarrow> h_timeout h | Some t \<Rightarrow> t)"
    and E: "\<And>e h'. perr e \<Longrightarrow> E e h'"
    and T: "\<And>h'. v = 3 \<or> (case timeout of None \<Rightarrow> h_timeout h | Some t \<Rightarrow> t) < 2 \<Longrightarrow> reached h [] [] h' \<Longrightarrow> linked h'
      \<Longrightarrow> E (HostTimeout ''read-valid stayed low'') h'"
  shows "act_post (\<lambda>result h'. has_read h v result h') E (read_word ops v timeout pauses h)"
proof -
  let ?R = "\<lambda>(result :: int) h'. has_read h v result h'"
  define tt where "tt = (case timeout of None \<Rightarrow> h_timeout h | Some t \<Rightarrow> t)"
  have v3: "0 \<le> v" "v \<le> 3" using v by auto
  have good: "good (h_port h)" using l by (simp add: linked_def)
  have eq: "read_word ops v timeout pauses h = act_bind (set_window ops v) (\<lambda>_.
     act_bind (read_nibbles ops v tt pauses (py_range 8) 0 0) (\<lambda>(result, uo).
     act_bind (set_uo uo) (\<lambda>_. act_return result))) h"
    using v t by (simp add: read_word_def budget_def act_bind_run tt_def)
  have sw: "act_post (\<lambda>_ h'. reading_at h v 0 0 h') E (set_window ops v h)"
  proof (cases "h_window h = v")
    case True
    have "offered (chip h) v x" if x: "r_read_word (chip h) = Some x" for x
    proof (cases "v = 0")
      case True
      then show ?thesis using l \<open>h_window h = v\<close> x by (auto simp: offered_def linked_def)
    next
      case False
      have "wf_reading (chip h)" using good_wf [OF good] by (simp add: wf_chip_def)
      then have "offers (chip h) 3 x"
        using x False v l True by (auto simp: wf_reading_def linked_def offers_def split: if_splits)
      then show ?thesis using False v runs_nil [of cfg "chip h"] by (auto simp: offered_def)
    qed
    then have "reading_at h v 0 0 h"
      using True l v reached_refl [OF good] by (auto simp: reading_at_def linked_def)
    then show ?thesis using True by (simp add: set_window_def act_post_both)
  next
    case False
    let ?h = "h\<lparr>h_window := v\<rparr>"
    have "act_post (\<lambda>u h'. act_post (\<lambda>_ h'. reading_at h v 0 0 h') E (set_uo u h')) E (port_cycle ops (shl v 6) ?h)"
    proof (rule cycle_post [where ws = "[]" and xs = "[]" and ?h0.0 = h])
      show "reached h [] [] ?h" using reached_refl [OF good] by simp
      fix p' pins out
      assume t: "tick cfg (chip ?h) (shl v 6) pins False True = Some (chip_of p', out)"
        and r': "reached h ([] @ edge_word cfg (chip ?h) (shl v 6)) ([] @ edge_pop (chip ?h) (shl v 6)) (?h\<lparr>h_port := p'\<rparr>)"
      note e = edge_idle [OF cfg_ok _ v3 t [folded idle_ui_def], unfolded idle_ui_def]
      have "wf_chip cfg (chip ?h)" using good_wf [OF good] by simp
      from e(2,3,5,6) [OF this] have "reading_at h v 0 0 (?h\<lparr>h_port := p'\<rparr>)"
        using False l r' v by (auto simp: reading_at_def linked_def)
      then show "act_post (\<lambda>_ h'. reading_at h v 0 0 h') E
          (set_uo (o_uo (outputs cfg (chip ?h) (shl v 6) False True)) (?h\<lparr>h_port := p'\<rparr>))"
        by (simp add: set_uo_def)
    qed (rule E)
    then show ?thesis using False by (simp add: set_window_def act_post_both)
  qed
  show ?thesis
    unfolding eq act_post_both [of _ _ "set_window ops v"]
  proof (rule act_post_mono [OF sw])
    fix a h' assume "reading_at h v 0 0 h'"
    then have "act_post (\<lambda>a h'. has_read h v (fst a) h') E
        (read_nibbles ops v tt pauses (map int [0..<8]) 0 0 h')"
    proof (rule read_nibbles_post)
      show "1 \<le> tt" using t by (simp add: tt_def)
    qed (use E T in \<open>auto simp: tt_def\<close>)
    then have rn: "act_post (\<lambda>a h'. has_read h v (fst a) h') E
        (read_nibbles ops v tt pauses (py_range 8) 0 0 h')" by (simp add: py_range_def)
    show "act_post ?R E (act_bind (read_nibbles ops v tt pauses (py_range 8) 0 0) (\<lambda>(result, uo).
     act_bind (set_uo uo) (\<lambda>_. act_return result)) h')"
      unfolding act_post_both [of _ _ "read_nibbles ops v tt pauses (py_range 8) 0 0"]
      by (rule act_post_mono [OF rn]) (auto simp: act_post_both set_uo_def)
  qed simp
qed

section \<open>Commands\<close>

text \<open>The library's record agrees with the chip.\<close>

definition in_sync :: "'p host \<Rightarrow> bool" where
  "in_sync h \<longleftrightarrow> linked h \<and> h_engines h = cfg_engines cfg \<and> 1 \<le> h_timeout h
     \<and> (h_selected h, h_read_selected h) = selections (chip h)"

text \<open>Words were delivered and the library is in step with the chip again.\<close>

definition done_with :: "'p host \<Rightarrow> (int \<times> int) list \<Rightarrow> 'p host \<Rightarrow> bool" where
  "done_with h ws h' \<longleftrightarrow> in_sync h' \<and> (\<exists>xs. host_runs cfg (chip h) ws xs (chip h'))
     \<and> h_timeout h' = h_timeout h \<and> h_architecture h' = h_architecture h \<and> h_strict h' = h_strict h
     \<and> h_isa_versions h' = h_isa_versions h"

lemma in_sync_linked: "in_sync h \<Longrightarrow> linked h"
  by (simp add: in_sync_def)

lemma in_sync_good: "in_sync h \<Longrightarrow> good (h_port h)"
  by (simp add: in_sync_def linked_def)

lemma in_sync_wf: "in_sync h \<Longrightarrow> wf_chip cfg (chip h)"
  by (rule good_wf [OF in_sync_good])

lemma done_with_refl: "in_sync h \<Longrightarrow> done_with h [] h"
  by (auto simp: done_with_def intro: runs_nil)

lemma done_with_trans: "done_with a ws b \<Longrightarrow> done_with b vs c \<Longrightarrow> done_with a (ws @ vs) c"
  by (auto simp: done_with_def intro: host_runs_trans)

lemma command_word_fields:
  assumes "command_word op payload = Inr word"
  shows "0 \<le> word" "word \<le> 0xFFFFFFFF" "shr word 24 = op" "word AND 0xFFFFFF = payload"
    "word = shl op 24 OR payload"
proof -
  have r: "0 \<le> op" "op \<le> 255" "0 \<le> payload" "payload < 2 ^ 24" and w: "word = shl op 24 OR payload"
    using assms by (auto simp: command_word_def push_bit_eq_mult split: if_splits)
  have hi: "0 \<le> shl op 24" "shl op 24 < 2 ^ 32" using r by (simp_all add: push_bit_eq_mult)
  have lo: "payload < 2 ^ 32" using r(4) by simp
  show "0 \<le> word" "word \<le> 0xFFFFFFFF" using or_lt_pow [OF hi r(3) lo] w by simp_all
  show "shr word 24 = op" "word AND 0xFFFFFF = payload" using shr24_shl [OF r(3,4)] w by simp_all
  show "word = shl op 24 OR payload" by (rule w)
qed

lemma done_with_deliver:
  assumes s: "in_sync h" and r: "reached h ws xs h'" and l: "linked h'"
    and keep: "fold (sel_step cfg) ws (selections (chip h)) = selections (chip h)"
  shows "done_with h ws h'"
proof -
  have "host_runs cfg (chip h) ws xs (chip h')" using r by (simp add: reached_def)
  from selections_runs [OF this cfg_ok in_sync_wf [OF s]] keep
  have "selections (chip h') = selections (chip h)" by simp
  then show ?thesis
    using s r l by (auto simp: done_with_def in_sync_def reached_def same_lib_def h_engines_def)
qed

lemma record_frame [simp]:
  "chip (record_accepted ops op payload h) = chip h"
  "h_window (record_accepted ops op payload h) = h_window h"
  "h_timeout (record_accepted ops op payload h) = h_timeout h"
  "h_architecture (record_accepted ops op payload h) = h_architecture h"
  "h_strict (record_accepted ops op payload h) = h_strict h"
  "h_isa_versions (record_accepted ops op payload h) = h_isa_versions h"
  "good (h_port (record_accepted ops op payload h)) = good (h_port h)"
  by (simp_all add: record_accepted_def forbidden_law)

text \<open>What the library then knows, for an inference \<open>ok\<close>.\<close>

definition after_command :: "int \<Rightarrow> int \<Rightarrow> bool option \<Rightarrow> 'p host \<Rightarrow> 'p host" where
  "after_command op payload ok h =
     (if ok = Some False then h\<lparr>h_last_ok := ok\<rparr> else record_accepted ops op payload (h\<lparr>h_last_ok := ok\<rparr>))"

lemma command_in_sync:
  assumes s: "in_sync h" and w: "written h 0 word h'" and cw: "command_word op payload = Inr word"
  shows "done_with h [(0, word)] (after_command op payload (inferred ops op payload u h') h')"
proof -
  let ?h = "after_command op payload (inferred ops op payload u h') h'"
  note f = command_word_fields [OF cw]
  have r: "reached h [(0, word)] [] h'" and l: "linked h'" using w by (simp_all add: written_def)
  have sel: "selections (chip h') = sel_step cfg (0, word) (h_selected h', h_read_selected h')"
    using selections_runs [of cfg "chip h" "[(0, word)]" "[]" "chip h'"] r s in_sync_wf [OF s] cfg_ok
    by (simp add: reached_def in_sync_def same_lib_def)
  have eng: "h_engines h' = cfg_engines cfg" "1 \<le> h_timeout h'"
    using s r by (auto simp: in_sync_def reached_def same_lib_def h_engines_def)
  have known: "inferred ops op payload u h' = Some (payload < cfg_engines cfg)" if "op = 0"
    using that eng by (simp add: inferred_def static_acceptance_def Let_def)
  have known8: "inferred ops op payload u h' = Some (payload \<le> 7)" if "op = 8"
    using that by (simp add: inferred_def static_acceptance_def Let_def)
  have same: "chip ?h = chip h'" "h_window ?h = h_window h'" "good (h_port ?h) = good (h_port h')"
    "h_timeout ?h = h_timeout h'" "h_architecture ?h = h_architecture h'" "h_strict ?h = h_strict h'"
    "h_isa_versions ?h = h_isa_versions h'"
    by (simp_all add: after_command_def)
  have "(h_selected ?h, h_read_selected ?h) = selections (chip h')"
    unfolding sel using f known known8
    by (auto simp: after_command_def record_accepted_def sel_step_def Let_def)
  then have "in_sync ?h"
    using l eng same by (simp add: in_sync_def linked_def h_engines_def)
  then show ?thesis
    using r s same by (auto simp: done_with_def reached_def same_lib_def)
qed

lemma after_command_window: "h_window (after_command op payload ok h) = h_window h"
  by (simp add: after_command_def)

lemma host_command_post:
  assumes s: "in_sync h"
    and V: "\<And>e. command_word op payload = Inl e \<Longrightarrow> E e h"
    and E: "\<And>e h'. perr e \<Longrightarrow> E e h'"
    and R: "\<And>h' word. command_word op payload = Inr word \<Longrightarrow> done_with h [(0, word)] h'
      \<Longrightarrow> (case check of None \<Rightarrow> h_strict h | Some c \<Rightarrow> c) \<Longrightarrow> \<not> (op = 8 \<and> payload \<le> 7)
      \<Longrightarrow> E (CommandRejected op payload) h'"
  shows "act_post (\<lambda>ok h'. \<exists>word. command_word op payload = Inr word \<and> done_with h [(0, word)] h'
      \<and> h_window h' = 0) E (host_command ops op payload check h)"
proof (cases "command_word op payload")
  case (Inl e)
  then show ?thesis using V by (simp add: host_command_def act_post_both)
next
  case (Inr word)
  note f = command_word_fields [OF Inr]
  have ww: "act_post (\<lambda>u h'. written h 0 word h') E (write_word ops W_COMMAND word None h)"
    unfolding W_COMMAND_def
    by (rule write_word_post) (use s f E not_blocked_commands in \<open>auto simp: in_sync_def\<close>)
  let ?Q = "\<lambda>(ok :: bool option) h'. done_with h [(0, word)] h' \<and> h_window h' = 0"
  let ?rest = "\<lambda>u. act_bind (act_get (inferred ops op payload u)) (\<lambda>ok.
       act_bind (act_mod (\<lambda>h. h\<lparr>h_last_ok := ok\<rparr>)) (\<lambda>_.
       if ok = Some False
       then act_bind (act_get h_strict) (\<lambda>strict.
            if case check of None \<Rightarrow> strict | Some c \<Rightarrow> c then act_raise (CommandRejected op payload) else act_return ok)
       else act_bind (act_mod (record_accepted ops op payload)) (\<lambda>_. act_return ok)))"
  have rest: "act_post ?Q E (?rest u h')" if w: "written h 0 word h'" for u h'
  proof -
    have win: "h_window h' = 0" using w by (simp add: written_def)
    let ?ok = "inferred ops op payload u h'"
    note d = command_in_sync [OF s w Inr, of u]
    show ?thesis
    proof (cases "?ok = Some False")
      case True
      have st: "\<not> (op = 8 \<and> payload \<le> 7)"
      proof
        assume "op = 8 \<and> payload \<le> 7"
        then have "static_acceptance h' op payload = Some True" by (simp add: static_acceptance_def)
        then have "?ok = Some True" by (auto simp: inferred_def Let_def)
        then show False using True by simp
      qed
      have "h_strict h' = h_strict h" using w by (simp add: written_def reached_def same_lib_def)
      then show ?thesis
        using True d R [OF Inr _ _ st] win
        by (cases check) (auto simp: act_post_both after_command_def)
    next
      case False
      then show ?thesis
        using d win by (simp add: act_post_both after_command_def)
    qed
  qed
  have "act_post ?Q E (act_bind (write_word ops W_COMMAND word None) ?rest h)"
    unfolding act_post_both [of _ _ "write_word ops _ _ _"]
  proof (rule act_post_mono [OF ww])
    fix u h' assume "written h 0 word h'"
    then show "act_post ?Q E (?rest u h')" by (rule rest)
  qed
  then have "act_post ?Q E (host_command ops op payload check h)"
    by (simp add: host_command_def Inr act_bind_run)
  then show ?thesis by (rule act_post_mono) (auto simp: Inr)
qed

section \<open>Reading a status word\<close>

text \<open>A status read returns a fresh word: one that the chip held during the read, of the
  index asked for and the engine selected.\<close>

definition status_read :: "'p host \<Rightarrow> int \<Rightarrow> int \<Rightarrow> 'p host \<Rightarrow> bool" where
  "status_read h index result h' \<longleftrightarrow>
     done_with h [(0, shl 8 24 OR index)] h'
     \<and> (\<exists>m xs. host_runs cfg (chip h) [(0, shl 8 24 OR index)] xs m \<and> wf_chip cfg m
          \<and> selections m = (h_selected h, index) \<and> result = take_bit 32 (status m))"

lemma read_status_post:
  assumes s: "in_sync h" and i: "0 \<le> index" "index \<le> 7"
    and t: "1 \<le> (case timeout of None \<Rightarrow> h_timeout h | Some t \<Rightarrow> t)"
    and E: "\<And>e h'. perr e \<Longrightarrow> E e h'"
    and T: "\<And>h' s. done_with h [(0, shl 8 24 OR index)] h'
      \<Longrightarrow> (case timeout of None \<Rightarrow> h_timeout h | Some t \<Rightarrow> t) < 2 \<Longrightarrow> E (HostTimeout s) h'"
  shows "act_post (status_read h index) E (read_status ops index timeout h)"
proof -
  let ?w = "shl 8 24 OR index"
  let ?Q = "\<lambda>(result :: int) h'. status_read h index result h'"
  have cw: "command_word READ_SELECT index = Inr ?w"
    using i by (simp add: command_word_def push_bit_eq_mult)
  have s24: "shr ?w 24 = 8" "?w AND 0xFFFFFF = index" using shr24_shl [of index 8] i by simp_all
  have hc: "act_post (\<lambda>ok h'. done_with h [(0, ?w)] h' \<and> h_window h' = 0) E
      (host_command ops READ_SELECT index None h)"
    by (rule act_post_mono [OF host_command_post [OF s, where E = E]]) (use cw E i in auto)
  let ?rest = "act_bind (act_mod (\<lambda>h. h\<lparr>h_window := 1\<rparr>)) (\<lambda>_.
     act_bind (port_cycle ops (shl 1 6)) (\<lambda>u. act_bind (set_uo u) (\<lambda>_. read_word ops W_COMMAND timeout None)))"
  have rd: "act_post ?Q E (read_word ops W_COMMAND timeout None h2)"
    if d: "done_with h [(0, ?w)] h1" and r: "reached h1 [] [] h2" and l: "linked h2" and win: "h_window h2 = 1"
    for h1 h2
  proof -
    have s1: "in_sync h1" using d by (simp add: done_with_def)
    have d2: "done_with h [(0, ?w)] h3" if "reached h2 [] xs h3" "linked h3" for xs h3
    proof -
      have "done_with h1 [] h3"
        by (rule done_with_deliver [OF s1 reached_trans [OF r that(1), simplified] that(2)]) simp
      from done_with_trans [OF d this] show ?thesis by simp
    qed
    have t2: "1 \<le> (case timeout of None \<Rightarrow> h_timeout h2 | Some t \<Rightarrow> t)"
      using t s d r by (auto simp: done_with_def in_sync_def reached_def same_lib_def split: option.splits)
    have "act_post (\<lambda>result h'. has_read h2 0 result h') E (read_word ops 0 timeout None h2)"
    proof (rule read_word_post [OF l _ t2 E])
      fix h3 assume lt: "0 = (3::int) \<or> (case timeout of None \<Rightarrow> h_timeout h2 | Some t \<Rightarrow> t) < 2"
        and "reached h2 [] [] h3" "linked h3"
      then have "done_with h [(0, ?w)] h3" by (blast intro: d2)
      moreover have "h_timeout h2 = h_timeout h" using d r by (simp add: done_with_def reached_def same_lib_def)
      ultimately show "E (HostTimeout ''read-valid stayed low'') h3"
        using lt by (intro T) (simp_all split: option.splits)
    qed simp_all
    then show ?thesis
      unfolding W_COMMAND_def
    proof (rule act_post_mono)
      fix result h3 assume "has_read h2 0 result h3"
      then obtain x where x: "reached h2 [] [] h3" "linked h3" "offered (chip h2) 0 x" "result = take_bit 32 x"
        by (auto simp: has_read_def)
      have "r_window (chip h2) \<noteq> 0" using l win by (simp add: linked_def)
      then obtain m where m: "host_runs cfg (chip h2) [] [] m" "x = status m"
        using x(3) by (auto simp: offered_def offers_def)
      obtain xs where run1: "host_runs cfg (chip h) [(0, ?w)] xs (chip h1)" using d by (auto simp: done_with_def)
      have "host_runs cfg (chip h1) [] [] m"
        using host_runs_trans [OF _ m(1), of "chip h1" "[]" "[]"] r by (simp add: reached_def)
      from host_runs_trans [OF run1 this] have run: "host_runs cfg (chip h) [(0, ?w)] xs m" by simp
      have "selections m = (h_selected h, index)"
        using selections_runs [OF run cfg_ok in_sync_wf [OF s]] s s24 i
        by (auto simp: in_sync_def sel_step_def Let_def selections_def)
      then show "status_read h index result h3"
        unfolding status_read_def using d2 [OF x(1,2)] run host_runs_wf [OF run cfg_ok in_sync_wf [OF s]] m(2) x(4)
        by blast
    qed auto
  qed
  have rest: "act_post ?Q E (?rest h1)" if d: "done_with h [(0, ?w)] h1" and w: "h_window h1 = 0" for h1
  proof -
    have l1: "linked h1" using d by (simp add: done_with_def in_sync_def)
    have g: "good (h_port h1)" using l1 by (simp add: linked_def)
    have "act_post (\<lambda>u h2. act_post ?Q E (act_bind (set_uo u) (\<lambda>_. read_word ops W_COMMAND timeout None) h2)) E
      (port_cycle ops (shl 1 6) (h1\<lparr>h_window := 1\<rparr>))"
    proof (rule idle_post [where ?h0.0 = h1 and ws = "[]" and xs = "[]"])
      show "reached h1 [] [] (h1\<lparr>h_window := 1\<rparr>)" using reached_refl [OF g] by simp
      show "1 \<noteq> r_window (chip (h1\<lparr>h_window := 1\<rparr>)) \<or> r_write_index (chip (h1\<lparr>h_window := 1\<rparr>)) = 0
        \<and> r_read_index (chip (h1\<lparr>h_window := 1\<rparr>)) = 0" using l1 w by (simp add: linked_def)
      fix u h2
      assume "reached h1 [] [] h2" "linked (h2\<lparr>h_window := 1\<rparr>)" "h_window h2 = h_window (h1\<lparr>h_window := 1\<rparr>)"
      then have "reached h1 [] [] (h2\<lparr>h_uo := u\<rparr>)" "linked (h2\<lparr>h_uo := u\<rparr>)" "h_window (h2\<lparr>h_uo := u\<rparr>) = 1"
        by (simp_all add: linked_def)
      from rd [OF d this] show "act_post ?Q E (act_bind (set_uo u) (\<lambda>_. read_word ops W_COMMAND timeout None) h2)"
        by (simp add: act_post_both [of _ _ "set_uo u"] set_uo_def)
    qed (use E in auto)
    then show ?thesis by (simp add: act_post_both [of _ _ "port_cycle _ _"] act_post_both [of _ _ "act_mod _"])
  qed
  show ?thesis
    unfolding read_status_def act_post_both [of _ _ "host_command _ _ _ _"]
  proof (rule act_post_mono [OF hc])
    fix ok h1 assume "done_with h [(0, ?w)] h1 \<and> h_window h1 = 0"
    then show "act_post ?Q E (?rest h1)" by (elim conjE) (rule rest)
  qed
qed

end

end
