(* ===== verification/Host_Props.thy ===== *)
theory Host_Props
  imports Host_Link
begin

text \<open>
  What the host library promises over any port: a program load leaves exactly the given
  program committed, and no sequence of library calls makes its record of the selections
  diverge from the chip. Both are proved over the port contract and then stated for the port
  on the reference model.
\<close>

section \<open>Sessions of library calls\<close>

text \<open>Calls of the library. Not among them are the raw transfers beside the commands: \<open>cycle\<close> with
  pins of the caller's choice, \<open>write_word\<close> into window 0 (a \<open>SELECT\<close> written this way bypasses the
  record), the abandoned transfers \<open>try_write_word\<close> and \<open>try_read_word\<close>, and \<open>free_run\<close>
  on the port's own clock. Every other method of the class issues calls of this list only.\<close>

datatype lib_call =
    Do_command int int "bool option"
  | Do_write int int "int option"
  | Do_read int "int option" "int list option"
  | Do_status int "int option"
  | Do_idle int
  | Do_window int
  | Do_bounce
  | Do_run int bool
  | Do_wait_irq "int option"
  | Do_fault_report
  | Do_drain "int option" int
  | Do_reset int
  | Do_deselect int

definition discard :: "('s, 'e, 'a) act \<Rightarrow> ('s, 'e, unit) act" where
  "discard m = act_bind m (\<lambda>_. act_return ())"

fun run_call :: "'p port_ops \<Rightarrow> lib_call \<Rightarrow> ('p, unit) host_act" where
  "run_call ops (Do_command op payload check) = discard (host_command ops op payload check)"
| "run_call ops (Do_write v word timeout) = discard (write_word ops v word timeout)"
| "run_call ops (Do_read v timeout pauses) = discard (read_word ops v timeout pauses)"
| "run_call ops (Do_status index timeout) = discard (read_status ops index timeout)"
| "run_call ops (Do_idle n) = discard (idle ops n)"
| "run_call ops (Do_window v) = set_window ops v"
| "run_call ops Do_bounce = bounce ops"
| "run_call ops (Do_run n watch) = discard (host_run ops n watch)"
| "run_call ops (Do_wait_irq timeout) = discard (wait_irq ops timeout)"
| "run_call ops Do_fault_report = discard (read_fault_report ops)"
| "run_call ops (Do_drain engine limit) = discard (rx_drain ops engine limit)"
| "run_call ops (Do_reset n) = host_reset ops n"
| "run_call ops (Do_deselect n) = host_deselect ops n"

definition budget_ok :: "int option \<Rightarrow> bool" where
  "budget_ok timeout = pred_option (\<lambda>t. 1 \<le> t) timeout"

fun valid_call :: "lib_call \<Rightarrow> bool" where
  "valid_call (Do_command op payload check) = True"
| "valid_call (Do_write v word timeout) \<longleftrightarrow> v \<in> {1, 2} \<and> 0 \<le> word \<and> word \<le> 0xFFFFFFFF \<and> budget_ok timeout"
| "valid_call (Do_read v timeout pauses) \<longleftrightarrow> v \<in> {0, 3} \<and> budget_ok timeout"
| "valid_call (Do_status index timeout) \<longleftrightarrow> 0 \<le> index \<and> index \<le> 7 \<and> budget_ok timeout"
| "valid_call (Do_idle n) = True"
| "valid_call (Do_window v) \<longleftrightarrow> 0 \<le> v \<and> v \<le> 3"
| "valid_call Do_bounce = True"
| "valid_call (Do_run n watch) = True"
| "valid_call (Do_wait_irq timeout) = True"
| "valid_call Do_fault_report = True"
| "valid_call (Do_drain engine limit) = True"
| "valid_call (Do_reset n) \<longleftrightarrow> 1 \<le> n"
| "valid_call (Do_deselect n) \<longleftrightarrow> 1 \<le> n"

text \<open>A session goes on after an exception of the library; an exception of the port ends it.\<close>

fun run_session :: "'p port_ops \<Rightarrow> (host_error \<Rightarrow> bool) \<Rightarrow> lib_call list \<Rightarrow> ('p, unit) host_act" where
  "run_session ops perr [] = act_return ()"
| "run_session ops perr (c # cs) = (\<lambda>h. case run_call ops c h of
      (Inl e, h') \<Rightarrow> if perr e then (Inl e, h') else run_session ops perr cs h'
    | (Inr _, h') \<Rightarrow> run_session ops perr cs h')"

lemma act_post_discard:
  "act_post (\<lambda>_ h'. P h') E (m h) \<Longrightarrow> act_post (\<lambda>_ h'. P h') E (discard m h)"
  unfolding discard_def act_post_both by (rule act_post_mono) auto

lemma budget_okD: "budget_ok t \<Longrightarrow> 1 \<le> (n::int) \<Longrightarrow> 1 \<le> (case t of None \<Rightarrow> n | Some t \<Rightarrow> t)"
  by (cases t) (simp_all add: budget_ok_def)

context chip_port begin

lemma quiet_cycle_in_sync:
  assumes s: "in_sync h \<and> h_window h = v"
  shows "act_post (\<lambda>u h'. in_sync (h'\<lparr>h_uo := u\<rparr>) \<and> h_window h' = v) (\<lambda>e h'. perr e) (port_cycle ops (shl v 6) h)"
proof (rule idle_post [where ?h0.0 = h and ws = "[]" and xs = "[]"])
  have l: "linked h" using s by (simp add: in_sync_def)
  show "reached h [] [] h" using s by (intro reached_refl in_sync_good) simp
  show "0 \<le> v" "v \<le> 3" using linked_window [OF l] s by simp_all
  show "v \<noteq> r_window (chip h) \<or> r_write_index (chip h) = 0 \<and> r_read_index (chip h) = 0"
    using l by (simp add: linked_def)
  fix u h' assume h': "reached h [] [] h'" "linked (h'\<lparr>h_window := v\<rparr>)" "h_window h' = h_window h"
  then have "linked h'" using s by (simp add: linked_def)
  with h' s have "in_sync h'" using done_with_deliver [of h "[]" "[]" h'] by (simp add: done_with_def)
  then show "in_sync (h'\<lparr>h_uo := u\<rparr>) \<and> h_window h' = v" using h'(3) s by (simp add: in_sync_def h_engines_def)
qed simp

lemma idle_in_sync:
  assumes "in_sync h"
  shows "act_post (\<lambda>u h'. in_sync h' \<and> h_uo h' = u) (\<lambda>e h'. perr e) (idle ops n h)"
proof -
  have one: "act_post (\<lambda>_ h'. in_sync h' \<and> h_window h' = v) (\<lambda>e h'. perr e)
      (act_bind (port_cycle ops (shl v 6)) set_uo h)"
    if s: "in_sync h \<and> h_window h = v" for h v
    unfolding act_post_both by (rule act_post_mono [OF quiet_cycle_in_sync [OF s]]) (simp_all add: set_uo_def)
  have "act_post (\<lambda>_ h'. in_sync h' \<and> h_window h' = v) (\<lambda>e h'. perr e)
      (act_times m (act_bind (port_cycle ops (shl v 6)) set_uo) h)"
    if "in_sync h \<and> h_window h = v" for m h v
    using that
  proof (induction m arbitrary: h)
    case (Suc m)
    show ?case
      unfolding act_times.simps act_post_both [of _ _ "act_bind (port_cycle ops (shl v 6)) set_uo"]
      by (rule act_post_mono [OF one [OF Suc.prems]], rule Suc.IH) auto
  qed simp
  then have "act_post (\<lambda>_ h'. in_sync h' \<and> h_window h' = h_window h) (\<lambda>e h'. perr e)
      (act_times (nat n) (act_bind (port_cycle ops (shl (h_window h) 6)) set_uo) h)"
    using assms by blast
  then show ?thesis
    unfolding idle_def act_bind_basic act_post_both [of _ _ "act_times _ _"]
    by (rule act_post_mono) auto
qed

text \<open>Actions that keep the record right, whether they return or raise.\<close>

definition syncs :: "('p, 'a) host_act \<Rightarrow> bool" where
  "syncs m \<longleftrightarrow> (\<forall>h. in_sync h \<longrightarrow> act_post (\<lambda>_ h'. in_sync h') (\<lambda>e h'. perr e \<or> in_sync h') (m h))"

lemma syncsI:
  "(\<And>h. in_sync h \<Longrightarrow> act_post (\<lambda>_ h'. in_sync h') (\<lambda>e h'. perr e \<or> in_sync h') (m h)) \<Longrightarrow> syncs m"
  by (simp add: syncs_def)

lemma syncs_bind [intro]: "syncs m \<Longrightarrow> (\<And>a. syncs (f a)) \<Longrightarrow> syncs (act_bind m f)"
  unfolding syncs_def by (intro allI impI, rule act_post_seq [where R = "\<lambda>_ h'. in_sync h'"]) auto

lemma syncs_basic [simp, intro!]:
  "syncs (act_return a)" "syncs (act_raise e)" "syncs (act_get k)" "syncs (act_require c e)"
  by (simp_all add: syncs_def)

lemma syncs_mono:
  assumes "\<And>h. in_sync h \<Longrightarrow> act_post (\<lambda>_ h'. in_sync h') (\<lambda>e h'. perr e) (m h)"
  shows "syncs m"
  by (rule syncsI, rule act_post_mono [OF assms]) auto

lemma syncs_command [simp, intro!]: "syncs (host_command ops op payload check)"
  by (rule syncsI, rule act_post_mono [OF host_command_post [where E = "\<lambda>e h'. perr e \<or> in_sync h'"]])
    (auto simp: done_with_def)

lemma syncs_select [simp, intro!]: "syncs (select ops e)"
  by (auto simp: select_def checked_engine_def intro!: syncs_bind)

lemma syncs_use [simp, intro!]: "syncs (use ops e)"
  by (auto simp: use_def intro!: syncs_bind split: option.split)

lemma transfer_in_sync:
  "in_sync h \<Longrightarrow> reached h [] [] h' \<Longrightarrow> linked h' \<Longrightarrow> in_sync h'"
  using done_with_deliver [of h "[]" "[]" h'] by (simp add: done_with_def)

lemma syncs_read_status [simp, intro!]:
  assumes "0 \<le> index" "index \<le> 7"
  shows "syncs (read_status ops index None)"
proof (rule syncsI)
  fix h assume s: "in_sync h"
  show "act_post (\<lambda>_ h'. in_sync h') (\<lambda>e h'. perr e \<or> in_sync h') (read_status ops index None h)"
    by (rule act_post_mono [OF read_status_post [OF s assms, where E = "\<lambda>e h'. perr e \<or> in_sync h'"]])
      (use s in \<open>auto simp: done_with_def status_read_def in_sync_def\<close>)
qed

lemma syncs_read_word:
  assumes "v \<in> {0, 3}" "pred_option (\<lambda>t. 1 \<le> t) timeout"
  shows "syncs (read_word ops v timeout pauses)"
proof (rule syncsI)
  fix h assume s: "in_sync h"
  show "act_post (\<lambda>_ h'. in_sync h') (\<lambda>e h'. perr e \<or> in_sync h') (read_word ops v timeout pauses h)"
  proof (rule act_post_mono [OF read_word_post [OF in_sync_linked [OF s], where E = "\<lambda>e h'. perr e \<or> in_sync h'"]])
    fix u h' assume "has_read h v u h'"
    then obtain xs where "reached h [] xs h'" "linked h'" by (auto simp: has_read_def)
    from done_with_deliver [OF s this] show "in_sync h'" by (simp add: done_with_def)
  next
    show "1 \<le> (case timeout of None \<Rightarrow> h_timeout h | Some t \<Rightarrow> t)"
      using s assms(2) by (cases timeout) (simp_all add: in_sync_def)
  qed (use assms s in \<open>auto intro: transfer_in_sync\<close>)
qed

lemma syncs_idle [simp, intro!]: "syncs (idle ops n)"
  by (rule syncs_mono, rule act_post_mono [OF idle_in_sync]) auto

lemma syncs_read_statuses: "syncs (read_statuses ops es)"
  by (induction es) (auto simp only: read_statuses.simps RS_STATUS_def intro!: syncs_bind syncs_basic syncs_read_status syncs_select)

lemma syncs_fault_report: "syncs (read_fault_report ops)"
  unfolding read_fault_report_def
  by (intro syncs_bind syncs_read_statuses) (auto intro!: syncs_bind)

lemma raise_on_fault_returns:
  assumes "in_sync h"
  shows "act_post (\<lambda>_ h'. h' = h) (\<lambda>e h'. perr e \<or> in_sync h') (raise_on_fault ops h)"
proof (cases "fault_pin h")
  case True
  have "act_post (\<lambda>_ h'. in_sync h') (\<lambda>e h'. perr e \<or> in_sync h') (read_fault_report ops h)"
    using syncs_fault_report assms by (simp add: syncs_def)
  then have "act_post (\<lambda>_ h'. h' = h) (\<lambda>e h'. perr e \<or> in_sync h')
      (act_bind (read_fault_report ops) (\<lambda>_. act_raise EngineFault) h)"
    unfolding act_post_both by (rule act_post_mono) auto
  then show ?thesis using True by (simp add: raise_on_fault_def)
qed (simp add: raise_on_fault_def)

lemma run_cycles_in_sync:
  assumes "in_sync h \<and> h_window h = v"
  shows "act_post (\<lambda>_ h'. in_sync h') (\<lambda>e h'. perr e \<or> in_sync h') (run_cycles ops (shl v 6) watch n h)"
  using assms
proof (induction n arbitrary: h)
  case (Suc n)
  show ?case
    unfolding run_cycles.simps act_post_both [of _ _ "port_cycle ops (shl v 6)"]
  proof (rule act_post_mono [OF quiet_cycle_in_sync [OF Suc.prems]])
    fix u h1 assume h1: "in_sync (h1\<lparr>h_uo := u\<rparr>) \<and> h_window h1 = v"
    have quiet: "act_post (\<lambda>_ h'. h' = h1\<lparr>h_uo := u\<rparr>) (\<lambda>e h'. perr e \<or> in_sync h')
        ((if watch \<and> u AND UO_FAULT \<noteq> 0 then raise_on_fault ops else act_return ()) (h1\<lparr>h_uo := u\<rparr>))"
      using raise_on_fault_returns [of "h1\<lparr>h_uo := u\<rparr>"] h1 by simp
    have "act_post (\<lambda>_ h'. in_sync h') (\<lambda>e h'. perr e \<or> in_sync h')
        (act_bind (if watch \<and> u AND UO_FAULT \<noteq> 0 then raise_on_fault ops else act_return ()) (\<lambda>_.
        run_cycles ops (shl v 6) watch n) (h1\<lparr>h_uo := u\<rparr>))"
      by (rule act_post_seq, rule quiet) (use Suc.IH [of "h1\<lparr>h_uo := u\<rparr>"] h1 in auto)
    then show "act_post (\<lambda>_ h'. in_sync h') (\<lambda>e h'. perr e \<or> in_sync h') (act_bind (set_uo u) (\<lambda>_.
        act_bind (if watch \<and> u AND UO_FAULT \<noteq> 0 then raise_on_fault ops else act_return ()) (\<lambda>_.
        run_cycles ops (shl v 6) watch n)) h1)"
      by (simp only: set_uo_def act_bind_basic)
  qed simp
qed simp

lemma syncs_run: "syncs (host_run ops n watch)"
proof (rule syncsI)
  fix h assume s: "in_sync h"
  show "act_post (\<lambda>_ h'. in_sync h') (\<lambda>e h'. perr e \<or> in_sync h') (host_run ops n watch h)"
    unfolding host_run_def act_bind_basic
    by (rule act_post_seq [OF run_cycles_in_sync]) (use s in simp_all)
qed

lemma syncs_wait_irq_loop: "syncs (wait_irq_loop ops n fuel)"
  by (induction fuel arbitrary: n) (auto intro!: syncs_bind)

lemma syncs_wait_irq: "syncs (wait_irq ops timeout)"
  unfolding wait_irq_def by (intro syncs_bind syncs_basic syncs_wait_irq_loop)

lemma syncs_read_words: "syncs (read_words ops None n)"
  by (induction n) (auto simp only: read_words.simps W_RX_def option.pred_inject intro!: syncs_bind syncs_basic syncs_read_word)

lemma syncs_drain_rounds: "syncs (drain_rounds ops limit fuel out)"
  by (induction fuel arbitrary: out)
    (auto simp: levels_def read_of_def RS_LEVELS_def intro!: syncs_bind syncs_read_words)

lemma syncs_drain: "syncs (rx_drain ops engine limit)"
  unfolding rx_drain_def by (intro syncs_bind syncs_drain_rounds syncs_use)

lemma restart_in_sync:
  assumes s: "in_sync h"
    and m: "act_post (\<lambda>_ p'. good p' \<and> chip_of p' = Chip.reset cfg) (\<lambda>e _. perr e) (m (h_port h))"
  shows "act_post (\<lambda>_ h'. in_sync h') (\<lambda>e h'. perr e) (act_bind (on_port m) (\<lambda>_. forget ops) h)"
  using m s
  by (cases "m (h_port h)")
    (auto simp: act_post_def act_bind_def on_port_def forget_def in_sync_def linked_def forbidden_law
      Chip.reset_def selections_def h_engines_def split: sum.splits)

lemma call_in_sync:
  assumes s: "in_sync h" and c: "valid_call c"
  shows "act_post (\<lambda>_ h'. in_sync h') (\<lambda>e h'. perr e \<or> in_sync h') (run_call ops c h)"
proof (cases c)
  case (Do_command op payload check)
  show ?thesis
    unfolding Do_command run_call.simps
    by (rule act_post_discard, rule act_post_mono [OF host_command_post [OF s,
        where E = "\<lambda>e h'. perr e \<or> in_sync h'"]]) (auto simp: done_with_def s)
next
  case (Do_write v word timeout)
  have v: "v \<in> {1, 2}" using c Do_write by simp
  show ?thesis
    unfolding Do_write run_call.simps
  proof (rule act_post_discard, rule act_post_mono [OF write_word_post [OF in_sync_linked [OF s],
      where E = "\<lambda>e h'. perr e \<or> in_sync h'"]])
    fix u h' assume "written h v word h'"
    then have "reached h [(v, word)] [] h'" "linked h'" by (simp_all add: written_def)
    from done_with_deliver [OF s this] v show "in_sync h'"
      by (auto simp: done_with_def sel_step_def Let_def selections_def)
  next
    show "1 \<le> (case timeout of None \<Rightarrow> h_timeout h | Some t \<Rightarrow> t)"
      using s c Do_write by (intro budget_okD) (simp_all add: in_sync_def)
  qed (use c Do_write s in \<open>auto intro: transfer_in_sync\<close>)
next
  case (Do_read v timeout pauses)
  show ?thesis
    unfolding Do_read run_call.simps
  proof (rule act_post_discard, rule act_post_mono [OF read_word_post [OF in_sync_linked [OF s],
      where E = "\<lambda>e h'. perr e \<or> in_sync h'"]])
    fix u h' assume "has_read h v u h'"
    then obtain xs where "reached h [] xs h'" "linked h'" by (auto simp: has_read_def)
    from done_with_deliver [OF s this] show "in_sync h'" by (simp add: done_with_def)
  next
    show "1 \<le> (case timeout of None \<Rightarrow> h_timeout h | Some t \<Rightarrow> t)"
      using s c Do_read by (intro budget_okD) (simp_all add: in_sync_def)
  qed (use c Do_read s in \<open>auto intro: transfer_in_sync\<close>)
next
  case (Do_status index timeout)
  show ?thesis
    unfolding Do_status run_call.simps
  proof (rule act_post_discard, rule act_post_mono [OF read_status_post [OF s,
      where E = "\<lambda>e h'. perr e \<or> in_sync h'"]])
    show "1 \<le> (case timeout of None \<Rightarrow> h_timeout h | Some t \<Rightarrow> t)"
      using s c Do_status by (intro budget_okD) (simp_all add: in_sync_def)
  qed (use c Do_status in \<open>auto simp: done_with_def status_read_def\<close>)
next
  case (Do_reset n)
  have "act_post (\<lambda>_ h'. in_sync h') (\<lambda>e h'. perr e) (run_call ops c h)"
    unfolding Do_reset run_call.simps host_reset_def
    by (rule restart_in_sync [OF s], rule restart_law(1) [OF in_sync_good [OF s]]) (use c Do_reset in simp)
  then show ?thesis by (rule act_post_mono) auto
next
  case (Do_deselect n)
  have "act_post (\<lambda>_ h'. in_sync h') (\<lambda>e h'. perr e) (run_call ops c h)"
    unfolding Do_deselect run_call.simps host_deselect_def
    by (rule restart_in_sync [OF s], rule restart_law(2) [OF in_sync_good [OF s]]) (use c Do_deselect in simp)
  then show ?thesis by (rule act_post_mono) auto
next
  case (Do_window v)
  have l: "linked h" by (rule in_sync_linked [OF s])
  show ?thesis
    unfolding Do_window run_call.simps
  proof (rule act_post_mono [OF set_window_post [OF reached_refl [OF in_sync_good [OF s]],
      where E = "\<lambda>e h'. perr e"]])
    fix u h' assume "reached h [] [] h' \<and> linked h' \<and> h_window h' = v"
    then show "in_sync h'" using s by (blast intro: transfer_in_sync)
  qed (use l c Do_window in \<open>auto simp: linked_def\<close>)
next
  case Do_bounce
  have l: "linked h" by (rule in_sync_linked [OF s])
  show ?thesis
    unfolding Do_bounce run_call.simps
  proof (rule act_post_mono [OF bounce_post [OF reached_refl [OF in_sync_good [OF s]],
      where E = "\<lambda>e h'. perr e"]])
    fix u h' assume "reached h [] [] h' \<and> linked h' \<and> h_window h' = h_window h XOR 1"
    then show "in_sync h'" using s by (blast intro: transfer_in_sync)
  qed (use l in \<open>auto simp: linked_def\<close>)
qed (use syncs_idle syncs_run syncs_wait_irq syncs_fault_report syncs_drain s in
  \<open>simp_all add: syncs_def act_post_discard\<close>)

lemma session_in_sync:
  assumes "in_sync h" "list_all valid_call cs"
  shows "act_post (\<lambda>_ h'. in_sync h') (\<lambda>e _. perr e) (run_session ops perr cs h)"
  using assms
proof (induction cs arbitrary: h)
  case (Cons c cs)
  have post: "act_post (\<lambda>_ h'. in_sync h') (\<lambda>e h'. perr e \<or> in_sync h') (run_call ops c h)"
    using Cons.prems by (intro call_in_sync) simp_all
  obtain res h' where rc: "run_call ops c h = (res, h')" by (cases "run_call ops c h")
  then show ?case using post Cons by (cases res) auto
qed simp

section \<open>Loading a program\<close>

text \<open>The exceptions a load can end with, apart from the port's: a rejected command, when the
  library is strict.\<close>

definition refused :: "'p host \<Rightarrow> host_error \<Rightarrow> 'p host \<Rightarrow> bool" where
  "refused h e h' \<longleftrightarrow> perr e \<or> (h_strict h \<and> (\<exists>op p. e = CommandRejected op p))"

lemma refused_mono: "done_with h ws h1 \<Longrightarrow> refused h1 e h' \<Longrightarrow> refused h e h'"
  by (auto simp: refused_def done_with_def)

lemma command_done:
  assumes "in_sync h" "command_word op payload = Inr word"
  shows "act_post (\<lambda>ok h'. done_with h [(0, word)] h') (refused h) (host_command ops op payload None h)"
  by (rule act_post_mono [OF host_command_post [OF assms(1), where E = "refused h"]])
    (use assms(2) in \<open>auto simp: refused_def\<close>)

lemma write_words_done:
  assumes "in_sync h" "\<forall>w \<in> set words. 0 \<le> w \<and> w \<le> 0xFFFFFFFF" "loading (chip h) e prog"
    "int (length prog + length words) \<le> cfg_program_words cfg"
  shows "act_post (\<lambda>_ h'. done_with h (map (\<lambda>w. (1, w)) words) h' \<and> loading (chip h') e (prog @ words))
    (refused h) (act_for words (\<lambda>w. act_bind (write_word ops W_PROGRAM w None) (\<lambda>_. act_return ())) h)"
  using assms
proof (induction words arbitrary: h prog)
  case Nil
  then show ?case by (simp add: done_with_refl)
next
  case (Cons w words)
  note s = Cons.prems(1) and wf = in_sync_wf [OF Cons.prems(1)] and l = Cons.prems(3)
  have nb: "\<not> blocked (chip h) 1"
    using loading_ready [OF _ cfg_ok wf l] Cons.prems(4) by (fastforce simp: blocked_def)
  have "act_post (\<lambda>u h'. written h 1 w h') (refused h) (write_word ops W_PROGRAM w None h)"
    unfolding W_PROGRAM_def
    by (rule write_word_post) (use Cons.prems nb in \<open>auto simp: in_sync_def refused_def\<close>)
  then have first: "act_post (\<lambda>_ h'. done_with h [(1, w)] h' \<and> loading (chip h') e (prog @ [w])) (refused h)
      (act_bind (write_word ops W_PROGRAM w None) (\<lambda>_. act_return ()) h)"
    unfolding act_post_both
  proof (rule act_post_mono)
    fix u h' assume wr: "written h 1 w h'"
    then have "done_with h [(1, w)] h'"
      by (intro done_with_deliver [OF s]) (auto simp: written_def sel_step_def Let_def selections_def)
    moreover have "loading (chip h') e (prog @ [w])"
    proof -
      have "host_runs cfg (chip h) [(1, w)] [] (chip h')" using wr by (simp add: written_def reached_def)
      from runs_word [OF this cfg_ok wf l] program_word_loads show ?thesis by blast
    qed
    ultimately show "act_post (\<lambda>_ h'. done_with h [(1, w)] h' \<and> loading (chip h') e (prog @ [w])) (refused h)
        (act_return () h')" by simp
  qed
  show ?case
    unfolding act_for.simps
  proof (rule act_post_seq [where m = "act_bind (write_word ops W_PROGRAM w None) (\<lambda>_. act_return ())", OF first])
    fix u h1 assume d: "done_with h [(1, w)] h1 \<and> loading (chip h1) e (prog @ [w])"
    have "act_post (\<lambda>_ h'. done_with h1 (map (\<lambda>w. (1, w)) words) h' \<and> loading (chip h') e ((prog @ [w]) @ words))
        (refused h1) (act_for words (\<lambda>w. act_bind (write_word ops W_PROGRAM w None) (\<lambda>_. act_return ())) h1)"
      using d Cons.prems by (intro Cons.IH) (auto simp: done_with_def)
    then show "act_post (\<lambda>_ h'. done_with h (map (\<lambda>w. (1, w)) (w # words)) h' \<and> loading (chip h') e (prog @ w # words))
        (refused h) (act_for words (\<lambda>w. act_bind (write_word ops W_PROGRAM w None) (\<lambda>_. act_return ())) h1)"
      by (rule act_post_mono) (use d in \<open>auto dest: done_with_trans refused_mono\<close>)
  qed
qed

text \<open>A status read of a loaded engine changes nothing about it.\<close>

lemma loaded_read_select:
  assumes run: "host_runs cfg r [(0, shl 8 24 OR 0)] xs r'" and wf: "wf_chip cfg r" and e: "engine_no cfg e"
    and l: "loaded r e prog"
  shows "loaded r' e prog"
proof -
  obtain m where m: "ctl_kept (eng r e) (eng m e)"
    "ctl_kept (eng (fst (complete_word cfg m 0 (shl 8 24 OR 0) 0)) e) (eng r' e)"
    using runs_one [OF run refl cfg_ok wf] e by blast
  have "eng (fst (complete_word cfg m 0 (shl 8 24 OR 0) 0)) e = eng m e"
    using shr24_shl [of 0 8]
    by (simp add: complete_word_def command_def command_rejected_def command_effect_def Let_def split: prod.splits)
  then show ?thesis using loaded_kept [OF loaded_kept [OF l m(1)]] m(2) by simp
qed

text \<open>The check of \<open>verify\<close> passes on a loaded engine.\<close>

definition verified :: "bool \<Rightarrow> ('p, unit) host_act" where
  "verified verify = (if verify then
          act_bind (host_status ops None) (\<lambda>s.
          act_require (s_committed s \<and> \<not> s_running s) (HostError ''image not committed''))
        else act_return ())"

lemma verified_post:
  assumes s: "in_sync h" and e: "engine_no cfg e" and l: "loaded (chip h) e prog"
    and sel: "h_selected h = e" and t: "verify \<longrightarrow> 2 \<le> h_timeout h"
  shows "act_post (\<lambda>_ h'. in_sync h' \<and> loaded (chip h') e prog) (\<lambda>e h'. perr e) (verified verify h)"
proof (cases verify)
  case False
  then show ?thesis using s l by (simp add: verified_def)
next
  case True
  let ?Q = "\<lambda>x h'. in_sync h' \<and> loaded (chip h') e prog \<and> (\<forall>sl. s_committed (Status x sl) \<and> \<not> s_running (Status x sl))"
  have "act_post (status_read h 0) (\<lambda>e _. perr e) (read_status ops 0 None h)"
    by (rule read_status_post [OF s]) (use s t True in \<open>auto simp: in_sync_def\<close>)
  then have rs: "act_post ?Q (\<lambda>e _. perr e) (read_status ops 0 None h)"
  proof (rule act_post_mono)
    fix x h' assume "status_read h 0 x h'"
    then obtain xs m ys where h': "in_sync h'" "host_runs cfg (chip h) [(0, shl 8 24 OR 0)] xs (chip h')"
      and m: "host_runs cfg (chip h) [(0, shl 8 24 OR 0)] ys m" "wf_chip cfg m" "selections m = (h_selected h, 0)"
        "x = take_bit 32 (status m)"
      by (auto simp: status_read_def done_with_def)
    note lk = loaded_read_select [OF _ in_sync_wf [OF s] e l]
    have "loaded m e prog" by (rule lk [OF m(1)])
    then have eng: "e_committed (sel_engine m)" "\<not> e_running (sel_engine m)"
      using m(3) sel by (simp_all add: loaded_def sel_engine_def selections_def)
    have rs0: "r_read_select m = 0" using m(3) by (simp add: selections_def)
    have st: "status m = of_bool (e_running (sel_engine m)) OR shl (of_bool (e_committed (sel_engine m))) 1
      OR shl (of_bool (e_stalled (sel_engine m))) 2 OR shl (of_bool (e_fault (sel_engine m) \<noteq> 0)) 3
      OR shl (e_fault (sel_engine m)) 8"
      using rs0 by (simp only: status_def Let_def if_True simp_thms)
    have "bit x 1" "\<not> bit x 0"
      unfolding m(4) st using eng by (simp_all only: bit_take_bit_iff bit_or_iff bit_push_bit_iff_int) simp_all
    moreover have "(x AND 2 \<noteq> 0) = bit x 1" "(x AND 1 \<noteq> 0) = bit x 0"
      using bit_iff_and_push_bit_not_eq_0 [of x 1] bit_iff_and_push_bit_not_eq_0 [of x 0] by simp_all
    ultimately show "?Q x h'" using h'(1) lk [OF h'(2)] by (simp add: Status_def)
  qed simp
  have eq: "verified verify h = act_bind (read_status ops 0 None) (\<lambda>w. act_bind (act_get h_selected) (\<lambda>sel.
      act_require (s_committed (Status w (Some sel)) \<and> \<not> s_running (Status w (Some sel)))
        (HostError ''image not committed''))) h"
    unfolding verified_def if_P [OF True] host_status_def use_def RS_STATUS_def act_bind_assoc
      act_bind_basic option.case act_bind_simps by (rule refl)
  show ?thesis
    unfolding eq act_post_both [of _ _ "read_status ops 0 None"]
    by (rule act_post_mono [OF rs]) auto
qed

lemma load_program_post:
  assumes s: "in_sync h" and e: "engine_no cfg engine"
    and words: "\<forall>w \<in> set words. 0 \<le> w \<and> w \<le> 0xFFFFFFFF" "words \<noteq> []" "int (length words) \<le> cfg_program_words cfg"
    and cap: "a_program_words (h_architecture h) = cfg_program_words cfg"
    and own: "own_payload owned open_drain = Inr p" and t: "verify \<longrightarrow> 2 \<le> h_timeout h"
  shows "act_post (\<lambda>n h'. n = int (length words) \<and> loaded (chip h') engine words \<and> in_sync h')
    (refused h) (load_program ops engine words owned open_drain verify h)"
proof -
  let ?R = "\<lambda>n h'. n = int (length words) \<and> loaded (chip h') engine words \<and> in_sync h'"
  let ?pl = "int (length words)"
  have plt: "?pl < 2 ^ 24" using words(3) config_okD(3) [OF cfg_ok] by auto
  have pr: "0 \<le> p" "p < 2 ^ 24"
  proof -
    have r: "0 \<le> owned" "owned < 2 ^ 24" "0 \<le> shl open_drain 8" "shl open_drain 8 < 2 ^ 24"
      and "p = owned OR shl open_drain 8"
      using own by (auto simp: own_payload_def push_bit_eq_mult split: if_splits)
    then show "0 \<le> p" "p < 2 ^ 24" using or_lt_pow [OF r] by simp_all
  qed
  have eng_ok: "0 \<le> engine" "engine < h_engines h" "engine < 4"
    using e s config_okD(1) [OF cfg_ok] by (auto simp: engine_no_def in_sync_def)
  have cw: "command_word SELECT engine = Inr engine" "command_word BEGIN 0 = Inr (shl 1 24)"
    "command_word OWN p = Inr (shl 3 24 OR p)" "command_word COMMIT ?pl = Inr (shl 2 24 OR ?pl)"
    using eng_ok pr plt by (simp_all add: command_word_def push_bit_eq_mult)
  have n: "0 < length words" using words(2) by simp
  have eq: "load_program ops engine words owned open_drain verify h =
    act_bind (host_command ops SELECT engine None) (\<lambda>_.
     act_bind (host_command ops BEGIN 0 None) (\<lambda>_.
     act_bind (host_command ops OWN p None) (\<lambda>_.
     act_bind (act_for words (\<lambda>w. act_bind (write_word ops W_PROGRAM w None) (\<lambda>_. act_return ()))) (\<lambda>_.
     act_bind (host_command ops COMMIT ?pl None) (\<lambda>_.
     act_bind (verified verify) (\<lambda>_. act_return ?pl)))))) h"
  proof -
    have "act_bind (act_lift (own_payload owned open_drain)) f = f p" for f :: "int \<Rightarrow> ('p, int) host_act"
      by (simp add: own fun_eq_iff)
    then show ?thesis
      using n words(3) cap eng_ok
      by (simp add: load_program_def select_def checked_engine_def act_bind_assoc verified_def)
  qed
  show ?thesis
    unfolding eq
  proof (rule act_post_seq, rule command_done [OF s cw(1)])
    fix ok h1 assume d1: "done_with h [(0, engine)] h1"
    then have s1: "in_sync h1" by (simp add: done_with_def)
    show "act_post ?R (refused h) (act_bind (host_command ops BEGIN 0 None) (\<lambda>_.
     act_bind (host_command ops OWN p None) (\<lambda>_.
     act_bind (act_for words (\<lambda>w. act_bind (write_word ops W_PROGRAM w None) (\<lambda>_. act_return ()))) (\<lambda>_.
     act_bind (host_command ops COMMIT ?pl None) (\<lambda>_.
     act_bind (verified verify) (\<lambda>_. act_return ?pl))))) h1)"
    proof (rule act_post_seq, rule act_post_mono [OF command_done [OF s1 cw(2)]])
      fix ok h2 assume d2: "done_with h1 [(0, shl 1 24)] h2"
      then have s2: "in_sync h2" by (simp add: done_with_def)
      note d12 = done_with_trans [OF d1 d2]
      show "act_post ?R (refused h) (act_bind (host_command ops OWN p None) (\<lambda>_.
       act_bind (act_for words (\<lambda>w. act_bind (write_word ops W_PROGRAM w None) (\<lambda>_. act_return ()))) (\<lambda>_.
       act_bind (host_command ops COMMIT ?pl None) (\<lambda>_.
       act_bind (verified verify) (\<lambda>_. act_return ?pl)))) h2)"
      proof (rule act_post_seq, rule act_post_mono [OF command_done [OF s2 cw(3)]])
        fix ok h3 assume d3: "done_with h2 [(0, shl 3 24 OR p)] h3"
        then have s3: "in_sync h3" by (simp add: done_with_def)
        have d13: "done_with h [(0, engine), (0, shl 1 24), (0, shl 3 24 OR p)] h3"
          using done_with_trans [OF d12 d3] by simp
        then obtain xs where "host_runs cfg (chip h) [(0, engine), (0, shl 1 24), (0, shl 3 24 OR p)] xs (chip h3)"
          by (auto simp: done_with_def)
        from runs_open [OF this cfg_ok in_sync_wf [OF s] e pr] have l3: "loading (chip h3) engine []" .
        show "act_post ?R (refused h) (act_bind (act_for words
              (\<lambda>w. act_bind (write_word ops W_PROGRAM w None) (\<lambda>_. act_return ()))) (\<lambda>_.
            act_bind (host_command ops COMMIT ?pl None) (\<lambda>_.
            act_bind (verified verify) (\<lambda>_. act_return ?pl))) h3)"
        proof (rule act_post_seq, rule act_post_mono [OF write_words_done [OF s3 words(1) l3]])
          show "int (length ([]::int list) + length words) \<le> cfg_program_words cfg" using words(3) by simp
          fix u h4 assume d4: "done_with h3 (map (\<lambda>w. (1, w)) words) h4 \<and> loading (chip h4) engine ([] @ words)"
          then have s4: "in_sync h4" and l4: "loading (chip h4) engine words" by (simp_all add: done_with_def)
          note d14 = done_with_trans [OF d13 conjunct1 [OF d4]]
          show "act_post ?R (refused h) (act_bind (host_command ops COMMIT ?pl None) (\<lambda>_.
                act_bind (verified verify) (\<lambda>_. act_return ?pl)) h4)"
          proof (rule act_post_seq, rule act_post_mono [OF command_done [OF s4 cw(4)]])
            fix ok h5 assume d5: "done_with h4 [(0, shl 2 24 OR ?pl)] h5"
            then have s5: "in_sync h5" by (simp add: done_with_def)
            obtain xs where run5: "host_runs cfg (chip h4) [(0, shl 2 24 OR ?pl)] xs (chip h5)"
              using d5 by (auto simp: done_with_def)
            have l5: "loaded (chip h5) engine words"
              by (rule runs_commit [OF run5 cfg_ok in_sync_wf [OF s4] e l4 words(2,3)])
            have "selections (chip h5) = selections (chip h4)"
              using selections_runs [OF run5 cfg_ok in_sync_wf [OF s4]] shr24_shl [of ?pl 2] plt
              by (simp add: sel_step_def Let_def selections_def)
            then have sel5: "h_selected h5 = engine"
              using s5 l4 by (simp add: in_sync_def loading_def selections_def)
            have t5: "verify \<longrightarrow> 2 \<le> h_timeout h5"
              using t done_with_trans [OF d14 d5] by (simp add: done_with_def)
            show "act_post ?R (refused h) (act_bind (verified verify) (\<lambda>_. act_return ?pl) h5)"
              unfolding act_post_both
              by (rule act_post_mono [OF verified_post [OF s5 e l5 sel5 t5]]) (auto simp: refused_def)
          qed (rule refused_mono [OF d14])
        qed (rule refused_mono [OF d13])
      qed (rule refused_mono [OF d12])
    qed (rule refused_mono [OF d1])
  qed
qed

end

section \<open>The port on the reference model\<close>

text \<open>The exceptions of a port: a pad fight, or an exception inside the model.\<close>

definition port_error :: "host_error \<Rightarrow> bool" where
  "port_error e \<longleftrightarrow> (\<exists>s. e = PadContention s) \<or> e = Model_Raised"

definition model_good :: "config \<Rightarrow> 'v model_port \<Rightarrow> bool" where
  "model_good cfg p \<longleftrightarrow> wf_chip cfg (mp_model p)"

text \<open>A port whose pads come from a supplier, or that has no environment, cannot raise.\<close>

definition steady :: "config \<Rightarrow> 'v model_port \<Rightarrow> bool" where
  "steady cfg p \<longleftrightarrow> wf_chip cfg (mp_model p) \<and> (mp_pins p \<noteq> None \<or> mp_env p = None)"

lemma resolve_pads_error: "resolve_pads a b c d e = Inl er \<Longrightarrow> port_error er"
  by (auto simp: resolve_pads_def port_error_def Let_def split: if_splits)

lemma resolve_pads_alone: "\<exists>pads. resolve_pads a b 0 0 e = Inr pads"
  by (simp add: resolve_pads_def)

text \<open>The pads of a cycle are resolved without touching the model.\<close>

definition kept_port :: "'v model_port \<Rightarrow> 'v model_port \<Rightarrow> bool" where
  "kept_port p p' \<longleftrightarrow> mp_model p' = mp_model p \<and> mp_pins p' = mp_pins p
     \<and> (mp_env p = None \<longrightarrow> mp_env p' = None)"

lemma kept_port_refl [simp]: "kept_port p p"
  by (simp add: kept_port_def)

lemma env_drive_post:
  "mp_env p \<noteq> None \<Longrightarrow> act_post (\<lambda>_ p'. kept_port p p') (\<lambda>e _. port_error e) (env_drive env_step env pads p)"
  by (auto simp: env_drive_def Let_def kept_port_def port_error_def split: prod.splits)

lemma model_pads_post:
  fixes p :: "'v model_port"
  shows "act_post (\<lambda>_ p'. kept_port p p')
     (\<lambda>e _. port_error e \<and> \<not> (mp_pins p \<noteq> None \<or> mp_env p = None)) (model_pads env_step post p)"
proof -
  let ?E = "\<lambda>e (_ :: 'v model_port). port_error e \<and> \<not> (mp_pins p \<noteq> None \<or> mp_env p = None)"
  let ?Q = "\<lambda>(_ :: int \<times> int) p'. kept_port p p'"
  consider (pins) "mp_pins p \<noteq> None" | (alone) "mp_pins p = None" "mp_env p = None"
    | (env) env where "mp_pins p = None" "mp_env p = Some env" by blast
  then show ?thesis
  proof cases
    case pins
    then show ?thesis by (auto simp: model_pads_def split: option.splits pin_source.splits)
  next
    case alone
    obtain pads where "resolve_pads (o_uio_out post) (o_uio_oe post) 0 0 (mp_pullups p) = Inr pads"
      using resolve_pads_alone by blast
    then show ?thesis using alone by (simp add: model_pads_def)
  next
    case env
    let ?r = "\<lambda>en val. resolve_pads (o_uio_out post) (o_uio_oe post) en val (mp_pullups p)"
    have lift: "act_post (\<lambda>a s. s = s0) ?E (act_lift (?r en val) s0)" for en val s0
      using resolve_pads_error env by (cases "?r en val") auto
    have rest: "act_post ?Q ?E (act_bind (act_mod (\<lambda>q. q\<lparr>mp_drive_en := en, mp_drive_val := val\<rparr>)) (\<lambda>_.
              act_bind (act_lift (?r en val)) (\<lambda>pads. act_return (pads, observed))) p')"
      if "kept_port p p'" for en val observed p'
      using that resolve_pads_error env by (cases "?r en val") (auto simp: kept_port_def)
    have drive: "act_post (\<lambda>_ p'. kept_port p p') ?E (env_drive env_step env observed p)" for observed
      by (rule act_post_mono [OF env_drive_post]) (use env in auto)
    show ?thesis
    proof (cases "?r (mp_drive_en p) (mp_drive_val p)")
      case (Inl e)
      then show ?thesis using resolve_pads_error [OF Inl] env by (simp add: model_pads_def)
    next
      case (Inr observed)
      have "act_post ?Q ?E (act_bind (env_drive env_step env observed) (\<lambda>(en, val).
              act_bind (act_mod (\<lambda>q. q\<lparr>mp_drive_en := en, mp_drive_val := val\<rparr>)) (\<lambda>_.
              act_bind (act_lift (?r en val)) (\<lambda>pads. act_return (pads, observed)))) p)"
        unfolding act_post_both [of _ _ "env_drive env_step env observed"]
      proof (rule act_post_mono [OF drive])
        fix a :: "int \<times> int" and p' assume "kept_port p p'"
        from rest [OF this] show "act_post ?Q ?E ((case a of (en, val) \<Rightarrow>
              act_bind (act_mod (\<lambda>q. q\<lparr>mp_drive_en := en, mp_drive_val := val\<rparr>)) (\<lambda>_.
              act_bind (act_lift (?r en val)) (\<lambda>pads. act_return (pads, observed)))) p')"
          by (cases a) simp
      qed simp
      then show ?thesis using env Inr by (simp add: model_pads_def)
    qed
  qed
qed

lemma model_step_post:
  fixes p :: "'v model_port"
  assumes cfg: "config_ok cfg" and wf: "wf_chip cfg (mp_model p)"
  shows "act_post (\<lambda>u p'. u = o_uo (outputs cfg (mp_model p) ui rst enabled)
      \<and> mp_pins p' = mp_pins p \<and> (mp_env p = None \<longrightarrow> mp_env p' = None)
      \<and> (\<exists>pins out. tick cfg (mp_model p) ui pins rst enabled = Some (mp_model p', out)))
    (\<lambda>e _. port_error e \<and> \<not> (mp_pins p \<noteq> None \<or> mp_env p = None)) (model_step cfg env_step ui rst enabled p)"
proof -
  let ?E = "\<lambda>e (_ :: 'v model_port). port_error e \<and> \<not> (mp_pins p \<noteq> None \<or> mp_env p = None)"
  let ?Q = "\<lambda>u p'. u = o_uo (outputs cfg (mp_model p) ui rst enabled)
      \<and> mp_pins p' = mp_pins p \<and> (mp_env p = None \<longrightarrow> mp_env p' = None)
      \<and> (\<exists>pins out. tick cfg (mp_model p) ui pins rst enabled = Some (mp_model p', out))"
  show ?thesis
    unfolding model_step_def act_bind_basic act_post_both [of _ _ "model_pads _ _"]
  proof (rule act_post_mono [OF model_pads_post], goal_cases)
    case (1 a p1)
    obtain pads observed where a: "a = (pads, observed)" by (cases a)
    have k: "mp_model p1 = mp_model p" "mp_pins p1 = mp_pins p" "mp_env p = None \<longrightarrow> mp_env p1 = None"
      using 1 by (simp_all add: kept_port_def)
    obtain m' out where t: "tick cfg (mp_model p) ui pads rst enabled = Some (m', out)"
      using wf_tick [OF cfg wf, of ui pads rst enabled] by blast
    show ?case using k t by (simp only: a prod.case act_bind_basic Let_def option.case) auto
  qed simp
qed

lemma model_restart_post:
  fixes p :: "'v model_port"
  assumes cfg: "config_ok cfg" and wf: "wf_chip cfg (mp_model p)" and r: "rst \<or> \<not> enabled" and n: "1 \<le> n"
  shows "act_post (\<lambda>_ p'. mp_model p' = Chip.reset cfg \<and> mp_pins p' = mp_pins p \<and> (mp_env p = None \<longrightarrow> mp_env p' = None))
    (\<lambda>e _. port_error e \<and> \<not> (mp_pins p \<noteq> None \<or> mp_env p = None))
    (act_times (nat n) (act_bind (model_step cfg env_step 0 rst enabled) (\<lambda>_. act_return ())) p)"
proof -
  let ?f = "act_bind (model_step cfg env_step 0 rst enabled) (\<lambda>_. act_return ())"
  let ?Q = "\<lambda>(p :: 'v model_port) (p' :: 'v model_port). mp_model p' = Chip.reset cfg \<and> mp_pins p' = mp_pins p \<and> (mp_env p = None \<longrightarrow> mp_env p' = None)"
  let ?E = "\<lambda>(p :: 'v model_port) (e :: host_error) (_ :: 'v model_port). port_error e \<and> \<not> (mp_pins p \<noteq> None \<or> mp_env p = None)"
  have one: "act_post (\<lambda>_ p'. ?Q p p') (?E p) (?f p)" if "wf_chip cfg (mp_model p)" for p :: "'v model_port"
    unfolding act_post_both [of _ _ "model_step _ _ _ _ _"]
    by (rule act_post_mono [OF model_step_post [OF cfg that]]) (use r in \<open>auto simp: tick_def\<close>)
  have "act_post (\<lambda>_ p'. ?Q p p') (?E p) (act_times (Suc k) ?f p)" if "wf_chip cfg (mp_model p)" for k and p :: "'v model_port"
    using that
  proof (induction k arbitrary: p)
    case 0
    show ?case unfolding act_times.simps act_bind_assoc act_bind_simps by (rule one [OF 0])
  next
    case (Suc k)
    show ?case
      unfolding act_times.simps(2) [of "Suc k"]
    proof (rule act_post_seq, rule one [OF Suc.prems])
      fix u p1 assume q: "?Q p p1"
      then have "wf_chip cfg (mp_model p1)" using wf_reset [OF cfg] by simp
      from Suc.IH [OF this] show "act_post (\<lambda>_ p'. ?Q p p') (?E p) (act_times (Suc k) ?f p1)"
        by (rule act_post_mono) (use q in auto)
    qed
  qed
  moreover obtain k where "nat n = Suc k" using n by (cases "nat n") auto
  ultimately show ?thesis using wf by simp
qed

lemma model_contract:
  fixes env_step :: "'v \<Rightarrow> int \<Rightarrow> int \<Rightarrow> 'v \<times> int \<times> int"
  assumes cfg: "config_ok cfg"
  shows "chip_port cfg (model_ops cfg env_step) mp_model (model_good cfg) port_error"
    "chip_port cfg (model_ops cfg env_step) mp_model (steady cfg) (\<lambda>_. False)"
proof -
  have cyc: "po_cycle (model_ops cfg env_step) ui = model_step cfg env_step ui False True" for ui
    by (simp add: model_ops_def model_cycle_def fun_eq_iff)
  have forb: "po_set_forbidden (model_ops cfg env_step) = (\<lambda>m p. p\<lparr>mp_forbidden := m\<rparr>)"
    by (simp add: model_ops_def)
  show "chip_port cfg (model_ops cfg env_step) mp_model (model_good cfg) port_error"
  proof
    fix p :: "'v model_port" and ui assume "model_good cfg p"
    then have wf: "wf_chip cfg (mp_model p)" by (simp add: model_good_def)
    show "act_post (\<lambda>u p'. model_good cfg p' \<and> u = o_uo (outputs cfg (mp_model p) ui False True)
           \<and> (\<exists>pins out. tick cfg (mp_model p) ui pins False True = Some (mp_model p', out)))
        (\<lambda>e _. port_error e) (po_cycle (model_ops cfg env_step) ui p)"
      unfolding cyc
      by (rule act_post_mono [OF model_step_post [OF cfg wf]]) (auto simp: model_good_def dest: tick_edge(1) [OF cfg wf])
    fix n :: int assume n: "1 \<le> n"
    note r = model_restart_post [OF cfg wf _ n, where env_step = env_step] and wr = wf_reset [OF cfg]
    show "act_post (\<lambda>_ p'. model_good cfg p' \<and> mp_model p' = Chip.reset cfg) (\<lambda>e _. port_error e) (po_reset (model_ops cfg env_step) n p)"
      "act_post (\<lambda>_ p'. model_good cfg p' \<and> mp_model p' = Chip.reset cfg) (\<lambda>e _. port_error e) (po_deselect (model_ops cfg env_step) n p)"
      unfolding model_ops_def model_reset_def model_deselect_def port_ops.simps
      by (rule act_post_mono [OF r]; use wr in \<open>simp add: model_good_def\<close>)+
  qed (use cfg in \<open>simp_all add: model_good_def forb\<close>)
  show "chip_port cfg (model_ops cfg env_step) mp_model (steady cfg) (\<lambda>_. False)"
  proof
    fix p :: "'v model_port" and ui assume s: "steady cfg p"
    then have wf: "wf_chip cfg (mp_model p)" by (simp add: steady_def)
    show "act_post (\<lambda>u p'. steady cfg p' \<and> u = o_uo (outputs cfg (mp_model p) ui False True)
           \<and> (\<exists>pins out. tick cfg (mp_model p) ui pins False True = Some (mp_model p', out)))
        (\<lambda>e _. False) (po_cycle (model_ops cfg env_step) ui p)"
      unfolding cyc
      by (rule act_post_mono [OF model_step_post [OF cfg wf]])
        (use s in \<open>auto simp: steady_def dest: tick_edge(1) [OF cfg wf]\<close>)
    fix n :: int assume n: "1 \<le> n"
    note r = model_restart_post [OF cfg wf _ n, where env_step = env_step] and wr = wf_reset [OF cfg]
    show "act_post (\<lambda>_ p'. steady cfg p' \<and> mp_model p' = Chip.reset cfg) (\<lambda>e _. False) (po_reset (model_ops cfg env_step) n p)"
      "act_post (\<lambda>_ p'. steady cfg p' \<and> mp_model p' = Chip.reset cfg) (\<lambda>e _. False) (po_deselect (model_ops cfg env_step) n p)"
      unfolding model_ops_def model_reset_def model_deselect_def port_ops.simps
      by (rule act_post_mono [OF r]; use wr s in \<open>auto simp: steady_def\<close>)+
  qed (use cfg in \<open>simp_all add: steady_def forb\<close>)
qed

text \<open>The design of record behind the port, with any environment, and with supplied pins.\<close>

interpretation model_port: chip_port default_config "model_ops default_config env_step" mp_model
    "model_good default_config" port_error for env_step
  by (rule model_contract(1) [OF default_config_ok])

interpretation steady_port: chip_port default_config "model_ops default_config env_step" mp_model
    "steady default_config" "\<lambda>_. False" for env_step
  by (rule model_contract(2) [OF default_config_ok])

end
