(* ===== verification/Chip_Queues.thy ===== *)
theory Chip_Queues
  imports Chip_Edge
begin

text \<open>
  The queues over one edge, from the host's side: the word a completed write sends, the word a
  completed read takes, the command that empties the queues; and the account of a queue over a run.
\<close>

section \<open>The host's part of an edge\<close>

text \<open>The host flushes engine \<open>i\<close>: it completes an accepted \<open>FLUSH\<close> command (10).\<close>

definition flushes :: "config \<Rightarrow> chip \<Rightarrow> int \<Rightarrow> int \<Rightarrow> bool" where
  "flushes cfg r ui i \<longleftrightarrow> i = r_selected r \<and> \<not> e_running (eng r i) \<and>
     (\<exists>word. edge_word cfg r ui = [(0, word)] \<and> shr word 24 = 10 \<and> word AND 0xFFFFFF = 0)"

definition host_sends :: "config \<Rightarrow> chip \<Rightarrow> int \<Rightarrow> (int \<times> int) option" where
  "host_sends cfg r ui = (case edge_word cfg r ui of
     [(v, x)] \<Rightarrow> if v = 2 then Some (r_selected r, x AND cfg_mask cfg) else None | _ \<Rightarrow> None)"

definition host_takes :: "chip \<Rightarrow> int \<Rightarrow> int option" where
  "host_takes r ui = (if edge_pop r ui = [] then None else Some (r_selected r))"

lemma host_phase_parts:
  assumes "host_phase cfg r ui = (r1, host_rx, w)"
  shows "r1 = host_edge cfg r ui" "w_tx w = host_sends cfg r ui"
    "host_rx = (if bit ui 5 \<and> ui_window ui = r_window r \<and> r_read_word r \<noteq> None \<and> r_read_index r = 7 then r_read_engine r else None)"
proof -
  define v where "v = ui_window ui"
  define pre where "pre = o_uo (outputs cfg r ui False True)"
  define r2 where "r2 = present_read (window_change r v) v (v \<noteq> r_window r)"
  define ext where "ext = trigger_events (window_change r v)"
  have pre4: "bit pre 4 \<longleftrightarrow> ready cfg r v" and pre5: "bit pre 5 \<longleftrightarrow> v = r_window r \<and> r_read_word r \<noteq> None"
    unfolding pre_def v_def ui_window_def by (rule outputs_uo_bits)+
  have hp: "host_phase cfg r ui = (case accept_read r2 ui pre of (r3, hr) \<Rightarrow>
      case accept_write cfg r3 v ui pre ext of (r4, w) \<Rightarrow> (r4, hr, w))"
    unfolding host_phase_def Let_def ui_window_def [symmetric] v_def [symmetric] pre_def [symmetric]
      ext_def [symmetric] r2_def [symmetric] ..
  obtain r3 hr where ar: "accept_read r2 ui pre = (r3, hr)" by (cases "accept_read r2 ui pre")
  have parts: "host_rx = hr" "accept_write cfg r3 v ui pre ext = (r1, w)"
    using assms hp by (simp_all add: ar split: prod.splits)
  show "r1 = host_edge cfg r ui" using host_phase_edge [of cfg r ui] assms by simp
  have same: "r_read_index r2 = r_read_index r \<and> r_read_engine r2 = r_read_engine r" if "v = r_window r" "r_read_word r \<noteq> None"
    using that by (auto simp: r2_def present_read_def split: prod.splits)
  have taken: "ui AND 32 \<noteq> 0 \<and> pre AND 32 \<noteq> 0 \<longleftrightarrow> bit ui 5 \<and> v = r_window r \<and> r_read_word r \<noteq> None"
    using pre5 by (simp add: and_bit_iff)
  show "host_rx = (if bit ui 5 \<and> ui_window ui = r_window r \<and> r_read_word r \<noteq> None \<and> r_read_index r = 7 then r_read_engine r else None)"
    using ar same unfolding accept_read_def taken parts(1) v_def [symmetric] by (auto split: if_splits)
  have r3: "r_write_index r3 = r_write_index r2" "r_write_word r3 = r_write_word r2" "r_selected r3 = r_selected r2"
    using ar by (auto simp: accept_read_def split: if_splits)
  have r2: "r_write_index r2 = r_write_index r \<and> r_write_word r2 = r_write_word r" if "v = r_window r"
    using that by (auto simp: r2_def present_read_def split: prod.splits)
  have sel: "r_selected r2 = r_selected r" by (auto simp: r2_def present_read_def window_change_def split: prod.splits)
  show "w_tx w = host_sends cfg r ui"
  proof (cases "bit ui 4 \<and> ready cfg r v")
    case False
    then have "\<not> (ui AND 16 \<noteq> 0 \<and> pre AND 16 \<noteq> 0)" by (simp add: pre4 and_bit_iff)
    moreover have "edge_word cfg r ui = []" using False by (auto simp: edge_word_def write_accepted_def v_def)
    ultimately show ?thesis using parts(2) by (auto simp: accept_write_def host_sends_def)
  next
    case True
    then have a: "ui AND 16 \<noteq> 0 \<and> pre AND 16 \<noteq> 0" by (simp add: pre4 and_bit_iff)
    have v: "v = r_window r" using True ready_window by blast
    have wa: "write_accepted cfg r ui" using True v by (simp add: write_accepted_def v_def)
    show ?thesis
      using parts(2) a wa r3 r2 [OF v] sel
      by (auto simp: accept_write_def Let_def host_sends_def edge_word_def complete_word_def collected_def v_def [symmetric]
        split: prod.splits if_splits)
  qed
qed

lemma upd_eng_queues:
  assumes "\<And>e. e_tx (f e) = e_tx e \<and> e_rx (f e) = e_rx e" "engine_no cfg i" "engine_no cfg j" "length (r_engines r) = n_eng cfg"
  shows "e_tx (eng (upd_eng r j f) i) = e_tx (eng r i) \<and> e_rx (eng (upd_eng r j f) i) = e_rx (eng r i)"
  using assms engine_no_nat [OF assms(2)] engine_no_nat [OF assms(3)] by (auto simp: eng_def upd_eng_def nth_list_update)

lemma command_queues:
  assumes len: "length (r_engines r) = n_eng cfg" and sel: "engine_no cfg (r_selected r)" and "engine_no cfg i"
  shows "(e_tx (eng (fst (command cfg r word)) i), e_rx (eng (fst (command cfg r word)) i)) =
     (if i = r_selected r \<and> \<not> e_running (eng r i) \<and> shr word 24 = 10 \<and> word AND 0xFFFFFF = 0 then ([], [])
      else (e_tx (eng r i), e_rx (eng r i)))"
proof -
  let ?op = "shr word 24" and ?p = "word AND 0xFFFFFF"
  have chosen: "e_tx (eng (for_chosen (chosen_engines cfg m) f r') i) = e_tx (eng r i) \<and>
      e_rx (eng (for_chosen (chosen_engines cfg m) f r') i) = e_rx (eng r i)"
    if "\<And>e. e_tx (f e) = e_tx e" "\<And>e. e_rx (f e) = e_rx e" "r_engines r' = r_engines r" for m f r'
    using that len assms(3) by (simp add: eng_for_chosen) (simp add: eng_def)
  have same: "(nat i = nat (r_selected r)) = (i = r_selected r)" using assms(3) sel by (auto simp: engine_no_def)
  show ?thesis
  proof (cases "?op = 10")
    case True
    have "command_rejected cfg r 10 ?p \<longleftrightarrow> ?p \<noteq> 0 \<or> e_running (sel_engine r)" by (simp add: command_rejected_def Let_def)
    then show ?thesis
      using True same len engine_no_nat [OF assms(3)]
      by (auto simp: command_def Let_def command_effect_def sel_engine_def eng_def upd_eng_def nth_list_update)
  next
    case False
    then have "e_tx (eng (command_effect cfg r ?op ?p) i) = e_tx (eng r i) \<and> e_rx (eng (command_effect cfg r ?op ?p) i) = e_rx (eng r i)"
      using chosen upd_eng_queues [OF _ assms(3) sel len] by (simp add: command_effect_def Let_def start_def)
    then show ?thesis using False by (simp add: command_def Let_def)
  qed
qed

lemma host_edge_queues:
  assumes "wf_chip cfg r" "engine_no cfg i"
  shows "(e_tx (eng (host_edge cfg r ui) i), e_rx (eng (host_edge cfg r ui) i)) =
     (if flushes cfg r ui i then ([], []) else (e_tx (eng r i), e_rx (eng r i)))"
proof -
  have len: "length (r_engines r) = n_eng cfg" and sel: "engine_no cfg (r_selected r)"
    using assms(1) by (simp_all add: wf_chip_def wf_engines_def wf_host_def)
  show ?thesis
  proof (cases "write_accepted cfg r ui \<and> r_write_index r = 7")
    case False
    then have "r_engines (host_edge cfg r ui) = r_engines r" "edge_word cfg r ui = []"
      by (auto simp: host_edge_def Let_def edge_word_def)
    then show ?thesis by (simp add: flushes_def eng_def)
  next
    case True
    define r3 where "r3 = (read_edge r ui)\<lparr>r_write_index := 0, r_write_word := 0\<rparr>"
    let ?w = "collected r ui"
    have he: "host_edge cfg r ui = fst (complete_word cfg r3 (ui_window ui) ?w 0)" and ew: "edge_word cfg r ui = [(ui_window ui, ?w)]"
      using True by (simp_all add: host_edge_def Let_def edge_word_def r3_def)
    have r3: "r_engines r3 = r_engines r" "r_selected r3 = r_selected r" by (simp_all add: r3_def)
    then have e: "eng r3 k = eng r k" for k by (simp add: eng_def)
    have len3: "length (r_engines r3) = n_eng cfg" and sel3: "engine_no cfg (r_selected r3)" using len sel r3 by simp_all
    note cq = command_queues [OF len3 sel3 assms(2), of ?w, unfolded e r3(2)]
    have pq: "e_tx (eng (fst (program_word cfg r3 ?w)) i) = e_tx (eng r i) \<and> e_rx (eng (fst (program_word cfg r3 ?w)) i) = e_rx (eng r i)"
    proof (cases "e_running (sel_engine r3) \<or> \<not> e_writing (sel_engine r3) \<or> int (length (e_program (sel_engine r3))) = cfg_program_words cfg")
      case True
      then have "eng (fst (program_word cfg r3 ?w)) i = eng r i" by (simp add: program_word_def Let_def e [symmetric])
      then show ?thesis by simp
    next
      case False
      then show ?thesis
        using upd_eng_queues [of "\<lambda>e. e\<lparr>e_program := e_program e @ [?w AND 0xFFFFFFFF]\<rparr>" cfg i "r_selected r3" r3] len3 sel3 assms(2)
        by (simp add: program_word_def Let_def e)
    qed
    have cw: "fst (complete_word cfg r3 v ?w 0) =
        (if v = 0 then fst (command cfg r3 ?w) else if v = 1 then fst (program_word cfg r3 ?w) else r3)" for v
      by (simp add: complete_word_def Let_def split: prod.splits)
    show ?thesis
    proof (cases "ui_window ui = 0")
      case True
      then have "host_edge cfg r ui = fst (command cfg r3 ?w)" by (simp add: he cw)
      moreover have "flushes cfg r ui i \<longleftrightarrow> i = r_selected r \<and> \<not> e_running (eng r i) \<and> shr ?w 24 = 10 \<and> ?w AND 0xFFFFFF = 0"
        by (simp add: flushes_def ew True)
      ultimately show ?thesis using cq by presburger
    next
      case False
      then have "\<not> flushes cfg r ui i" by (simp add: flushes_def ew)
      then show ?thesis using pq False by (simp add: he cw e)
    qed
  qed
qed

lemma host_takes_head:
  assumes "wf_chip cfg r" "host_phase cfg r ui = (r1, host_rx, w)"
  shows "host_rx = host_takes r ui" "edge_pop r ui \<noteq> [] \<Longrightarrow> edge_pop r ui = [hd (e_rx (eng r (r_selected r)))]"
proof -
  have wr: "wf_reading r" using assms(1) by (simp add: wf_chip_def)
  show "host_rx = host_takes r ui"
    using wr unfolding host_phase_parts(3) [OF assms(2)] host_takes_def edge_pop_def wf_reading_def
    by (auto split: option.splits if_splits)
  show "edge_pop r ui \<noteq> [] \<Longrightarrow> edge_pop r ui = [hd (e_rx (eng r (r_selected r)))]"
    using wr unfolding edge_pop_def wf_reading_def by (auto simp: sel_engine_def split: option.splits if_splits)
qed

section \<open>Words in order\<close>

text \<open>C3: No word of a queue is lost or duplicated. On every edge of a well-formed chip the queues of an
  engine change in this way and no other. The host's part empties both queues exactly when the host
  completes an accepted \<open>FLUSH\<close> for the engine while it does not run, and leaves them alone otherwise. Then
  the TX queue loses its head exactly when the engine issues a \<open>PULL\<close> (and is neither started nor
  stopped on this edge), and this head is in register 0 after the edge; it gains the word the host
  completes for it and then the word the mover brings. The RX queue loses its head exactly when the
  host takes the last nibble of a read of this engine, which presented this head, or when the mover takes
  it; it gains the engine's register 1 exactly when the engine issues a \<open>PUSH\<close> and there is room.
  The word the mover brings is the head of the source's queue, which loses it.\<close>

theorem queues_in_order:
  assumes "config_ok cfg" "wf_chip cfg r" "host_phase cfg r ui = (r1, host_rx, w)"
    "the_move cfg r r1 (reserved_engine r (shr ui 6 AND 3)) w = (r2, dma)"
    "tick cfg r ui pins False True = Some (r', out)" "engine_no cfg i"
  shows "(e_tx (eng r1 i), e_rx (eng r1 i)) = (if flushes cfg r ui i then ([], []) else (e_tx (eng r i), e_rx (eng r i)))
    \<and> w_tx w = host_sends cfg r ui \<and> host_rx = host_takes r ui
    \<and> (edge_pop r ui \<noteq> [] \<longrightarrow> edge_pop r ui = [hd (e_rx (eng r (r_selected r)))])
    \<and> queue_law cfg r1 r' host_rx w dma i
    \<and> (\<forall>s d x. dma = Some (s, d, x) \<longrightarrow> e_rx (eng r s) \<noteq> [] \<and> x = hd (e_rx (eng r s))
         \<and> taken host_rx dma s)"
proof -
  note mid = wf_host_phase [OF assms(1-3)]
  from wf_engine_phase [OF assms(1,2) mid, of pins] assms(3,4,5)
  have "\<forall>i. engine_no cfg i \<longrightarrow> queue_law cfg r1 r' host_rx w dma i"
    by (auto simp: tick_def Let_def reserved_engine_def)
  moreover have "e_rx (eng r s) \<noteq> [] \<and> x = hd (e_rx (eng r s))" if "dma = Some (s, d, x)" for s d x
    using assms(4) unfolding the_move_def
  proof (cases rule: dma_move_cases)
    case (move s' d' n)
    have "nat s < length (r_engines r)"
      using engine_no_nat [OF dma_order_engine [OF assms(1) move(1)]] move(7) that assms(2)
      by (simp add: wf_chip_def wf_engines_def)
    then show ?thesis using move that by (simp add: eng_def)
  qed (use that in simp)
  ultimately show ?thesis
    using assms(6) host_edge_queues [OF assms(2,6), of ui] host_takes_head [OF assms(2,3)]
    unfolding host_phase_parts(1,2) [OF assms(3)] by (auto simp: taken_def)
qed

lemma queues_in_order_witness:
  "\<exists>r1 host_rx w dma r' out. host_phase default_config (reset default_config) 0x80 = (r1, host_rx, w)
     \<and> tick default_config (reset default_config) 0x80 5 False True = Some (r', out)
     \<and> queue_law default_config r1 r' host_rx w dma 2"
proof -
  let ?c = default_config and ?r = "reset default_config"
  obtain r1 host_rx w where h: "host_phase ?c ?r 0x80 = (r1, host_rx, w)"
    by (cases "host_phase ?c ?r 0x80") auto
  obtain r2 dma where m: "the_move ?c ?r r1 (reserved_engine ?r (shr 0x80 6 AND 3)) w = (r2, dma)"
    by (cases "the_move ?c ?r r1 (reserved_engine ?r (shr 0x80 6 AND 3)) w") auto
  obtain r' out where t: "tick ?c ?r 0x80 5 False True = Some (r', out)"
    using wf_tick [OF default_config_ok wf_reset [OF default_config_ok]] by blast
  have "engine_no ?c 2" by (simp add: engine_no_def default_config_def)
  from queues_in_order [OF default_config_ok wf_reset [OF default_config_ok] h m t this] h t
  show ?thesis by blast
qed

section \<open>The account of an RX queue\<close>

text \<open>Over edges on which the host completes no word, each word that leaves the RX queue of the selected
  engine is taken by the host (\<open>True\<close>) or by the mover (\<open>False\<close>), and the queue before together with
  the words pushed meanwhile is what was taken followed by the queue after.\<close>

definition rx_account :: "chip \<Rightarrow> int list \<Rightarrow> chip \<Rightarrow> bool" where
  "rx_account r xs r' \<longleftrightarrow> r_selected r' = r_selected r \<and> (\<exists>took pushed.
     e_rx (sel_engine r) @ pushed = map snd took @ e_rx (sel_engine r') \<and> map snd (filter fst took) = xs \<and>
     (r_routes r ! nat (r_selected r) = None \<longrightarrow> list_all fst took \<and> r_routes r' ! nat (r_selected r) = None))"

lemma rx_account_refl: "rx_account r [] r"
  unfolding rx_account_def by (intro conjI exI [of _ "[]"]) auto

lemma rx_account_trans:
  assumes "rx_account r xs r1" "rx_account r1 ys r2"
  shows "rx_account r (xs @ ys) r2"
proof -
  obtain t1 p1 where 1: "e_rx (sel_engine r) @ p1 = map snd t1 @ e_rx (sel_engine r1)" "map snd (filter fst t1) = xs"
    "r_routes r ! nat (r_selected r) = None \<longrightarrow> list_all fst t1 \<and> r_routes r1 ! nat (r_selected r) = None"
    using assms(1) by (auto simp: rx_account_def)
  obtain t2 p2 where 2: "e_rx (sel_engine r1) @ p2 = map snd t2 @ e_rx (sel_engine r2)" "map snd (filter fst t2) = ys"
    "r_routes r1 ! nat (r_selected r1) = None \<longrightarrow> list_all fst t2 \<and> r_routes r2 ! nat (r_selected r1) = None"
    using assms(2) by (auto simp: rx_account_def)
  have sel: "r_selected r1 = r_selected r" "r_selected r2 = r_selected r" using assms by (simp_all add: rx_account_def)
  have "e_rx (sel_engine r) @ (p1 @ p2) = map snd (t1 @ t2) @ e_rx (sel_engine r2)"
    using 1(1) 2(1) by (metis append.assoc map_append)
  then show ?thesis unfolding rx_account_def using 1(2,3) 2(2,3) sel
    by (intro conjI exI [of _ "t1 @ t2"] exI [of _ "p1 @ p2"]) auto
qed

lemma edge_account:
  assumes "config_ok cfg" "wf_chip cfg r" "tick cfg r ui pins False True = Some (r', out)" "edge_word cfg r ui = []"
  shows "rx_account r (edge_pop r ui) r'"
proof -
  let ?i = "r_selected r"
  obtain r1 host_rx w where h: "host_phase cfg r ui = (r1, host_rx, w)" by (cases "host_phase cfg r ui") auto
  obtain r2 dma where m: "the_move cfg r r1 (reserved_engine r (shr ui 6 AND 3)) w = (r2, dma)"
    by (cases "the_move cfg r r1 (reserved_engine r (shr ui 6 AND 3)) w") auto
  have i: "engine_no cfg ?i" using assms(2) by (simp add: wf_chip_def wf_host_def)
  note mid = wf_host_phase [OF assms(1,2) h]
  have ql: "queue_law cfg r1 r' host_rx w dma ?i"
    using wf_engine_phase [OF assms(1,2) mid, of pins] assms(3) m h i by (auto simp: tick_def Let_def reserved_engine_def)
  have r1: "r1 = host_edge cfg r ui" by (rule host_phase_parts(1) [OF h])
  have rx1: "e_rx (eng r1 ?i) = e_rx (eng r ?i)"
    using host_edge_queues [OF assms(2) i, of ui] assms(4) by (simp add: r1 flushes_def)
  have "r_selected r' = r_selected r1" using tick_edge(2) [OF assms(1-3)] by (simp add: edge_fields r1)
  moreover have "r_selected r1 = ?i" using selections_edge [of cfg r ui] assms(4) by (simp add: selections_def r1)
  ultimately have sel: "r_selected r' = ?i" by simp
  note hd = host_takes_head [OF assms(2) h]
  let ?take = "taken host_rx dma ?i" and ?push = "if on_edge r1 ?i \<and> pushes cfg (eng r1 ?i) then [reg (eng r1 ?i) 1] else []"
  have q: "e_rx (eng r' ?i) = (if ?take then tl (e_rx (eng r ?i)) else e_rx (eng r ?i)) @ ?push" "?take \<longrightarrow> e_rx (eng r ?i) \<noteq> []"
    using ql by (simp_all add: queue_law_def rx1)
  let ?took = "if ?take then [(host_rx = Some ?i, hd (e_rx (eng r ?i)))] else []"
  have "e_rx (eng r ?i) @ ?push = map snd ?took @ e_rx (eng r' ?i)" using q by (cases "e_rx (eng r ?i)") auto
  moreover have "map snd (filter fst ?took) = edge_pop r ui"
    using hd by (auto simp: host_takes_def taken_def)
  moreover have "list_all fst ?took \<and> r_routes r' ! nat ?i = None" if n: "r_routes r ! nat ?i = None"
  proof -
    have n1: "r_routes r1 ! nat ?i = None"
      using n assms(4) by (auto simp: r1 host_edge_def Let_def edge_word_def split: if_splits)
    have r2: "dma \<noteq> Some (?i, d) \<and> r_routes r2 ! nat ?i = None" for d
      using m unfolding the_move_def
    proof (cases rule: dma_move_cases)
      case (move s d' n')
      have "s \<noteq> ?i" using move(2) n1 by auto
      moreover have "0 \<le> s" "0 \<le> ?i" using dma_order_engine [OF assms(1) move(1)] i by (simp_all add: engine_no_def)
      ultimately show ?thesis using move n1 by (auto simp: nth_list_update eq_nat_nat_iff)
    qed (use n1 in simp)
    have "r_routes r' = r_routes r2"
      using assms(3) h m by (auto simp: tick_def Let_def engine_phase_def the_move_def reserved_engine_def finish_edge_def
        bind_eq_Some_conv split: prod.splits)
    then show ?thesis using r2 by (auto simp: taken_def)
  qed
  ultimately show ?thesis unfolding rx_account_def sel_engine_def sel by (intro conjI exI [of _ ?took] exI [of _ ?push]) auto
qed

lemma runs_account:
  assumes "host_runs cfg r ws xs r'" "config_ok cfg" "wf_chip cfg r" "ws = []"
  shows "rx_account r xs r'"
  using assms
proof (induction rule: host_runs.induct)
  case (runs_edge r ui pins r' out ws xs r'')
  then have "edge_word cfg r ui = []" "ws = []" by simp_all
  then show ?case
    using edge_account [OF runs_edge.prems(1,2) runs_edge.hyps(1)] runs_edge.IH runs_edge.prems tick_edge(1) [OF runs_edge.prems(1,2) runs_edge.hyps(1)]
      rx_account_trans by blast
qed (rule rx_account_refl)

end
