(* ===== verification/Host_Claims.thy ===== *)
theory Host_Claims
  imports Host_Props Chip_Queues
begin

text \<open>
  The properties of the host library on the port of the reference model: delivery of written
  words, reads that pop exactly once, fresh status words and what they say about the engine,
  program loading, the library's record of the selections, and the payload encoders.
\<close>

section \<open>Vocabulary\<close>

text \<open>The library and the model are in step: no transfer is under way, the library knows the
  window and the selections, and the budget of a handshake is at least one cycle.\<close>

definition model_in_sync :: "config \<Rightarrow> 'v model_port host \<Rightarrow> bool" where
  "model_in_sync cfg h \<longleftrightarrow>
     (let c = mp_model (h_port h) in
      wf_chip cfg c \<and> h_window h = r_window c \<and> r_write_index c = 0 \<and> r_read_index c = 0
      \<and> h_engines h = cfg_engines cfg \<and> 1 \<le> h_timeout h
      \<and> h_selected h = r_selected c \<and> h_read_selected h = r_read_select c)"

definition no_env :: "'v model_port host \<Rightarrow> bool" where
  "no_env h \<longleftrightarrow> mp_pins (h_port h) \<noteq> None \<or> mp_env (h_port h) = None"

lemma model_sync_iff:
  fixes h :: "'v model_port host" and env_step :: "'v \<Rightarrow> int \<Rightarrow> int \<Rightarrow> 'v \<times> int \<times> int"
  assumes "config_ok cfg"
  shows "chip_port.in_sync cfg mp_model (model_good cfg) h \<longleftrightarrow> model_in_sync cfg h"
    "chip_port.in_sync cfg mp_model (steady cfg) h \<longleftrightarrow> model_in_sync cfg h \<and> no_env h"
  using chip_port.in_sync_def [OF model_contract(1) [OF assms, of env_step]]
    chip_port.linked_def [OF model_contract(1) [OF assms, of env_step]]
    chip_port.in_sync_def [OF model_contract(2) [OF assms, of env_step]]
    chip_port.linked_def [OF model_contract(2) [OF assms, of env_step]]
  by (auto simp: model_in_sync_def Let_def model_good_def steady_def no_env_def selections_def)

definition demo_host :: "unit model_port host" where
  "demo_host = new_host (new_model_port default_config None (Some (Pins_Int 0)) 255 False False)
     1000 DESIGN_ARCHITECTURE [2] True"

definition demo_env :: "unit \<Rightarrow> int \<Rightarrow> int \<Rightarrow> unit \<times> int \<times> int" where
  "demo_env env count pads = ((), 0, 0)"

lemma demo_in_sync: "model_in_sync default_config demo_host" "no_env demo_host"
  "h_timeout demo_host = 1000" "h_architecture demo_host = DESIGN_ARCHITECTURE"
  using wf_reset [OF default_config_ok]
  by (simp_all add: model_in_sync_def demo_host_def new_host_def new_model_port_def h_engines_def
    DESIGN_ARCHITECTURE_def default_config_def Let_def reset_def no_env_def)

text \<open>The budget that a call uses.\<close>

definition cycles_of :: "'p host \<Rightarrow> int option \<Rightarrow> int" where
  "cycles_of h timeout = (case timeout of None \<Rightarrow> h_timeout h | Some t \<Rightarrow> t)"

section \<open>Writes and reads\<close>

text \<open>C4: Writing a word through the nibble port delivers exactly that word, once, to the window it
  was written to, whatever the engines and the pins do meanwhile; a write whose handshake ran
  out of its cycle budget delivered nothing and left no partial transfer, which happens only when
  the window refused a nibble during the call, and never to a command. In both cases the library and the chip agree again afterwards.\<close>

theorem write_word_delivers:
  assumes "config_ok cfg" "model_in_sync cfg h" "no_env h" "v \<in> {0, 1, 2}"
    "0 \<le> word" "word \<le> 0xFFFFFFFF" "1 \<le> cycles_of h timeout"
    "write_word (model_ops cfg env_step) v word timeout h = (res, h')"
  shows "h_window h' = r_window (mp_model (h_port h'))
    \<and> r_write_index (mp_model (h_port h')) = 0 \<and> r_read_index (mp_model (h_port h')) = 0
    \<and> (case res of
         Inr _ \<Rightarrow> host_runs cfg (mp_model (h_port h)) [(v, word)] [] (mp_model (h_port h'))
       | Inl e \<Rightarrow> v \<noteq> 0 \<and> (\<exists>s. e = HostTimeout s)
           \<and> host_runs cfg (mp_model (h_port h)) [] [] (mp_model (h_port h'))
           \<and> (\<exists>m. host_runs cfg (mp_model (h_port h)) [] [] m \<and> r_window m = v \<and> \<not> ready cfg m v))"
proof -
  note P = model_contract(2) [OF assms(1), of env_step]
  note defs = chip_port.written_def [OF P] chip_port.linked_def [OF P] chip_port.reached_def [OF P]
  have "chip_port.in_sync cfg mp_model (steady cfg) h"
    using model_sync_iff(2) [OF assms(1)] assms(2,3) by blast
  then have l: "chip_port.linked mp_model (steady cfg) h" by (rule chip_port.in_sync_linked [OF P])
  have "act_post (\<lambda>u h'. chip_port.written cfg mp_model (steady cfg) h v word h')
    (\<lambda>e h'. (\<exists>s. e = HostTimeout s) \<and> chip_port.reached cfg mp_model (steady cfg) h [] [] h'
       \<and> chip_port.linked mp_model (steady cfg) h' \<and> chip_port.blocked cfg (mp_model (h_port h)) v)
    (write_word (model_ops cfg env_step) v word timeout h)"
    by (rule chip_port.write_word_post [OF P l assms(4-6)]) (use assms(7) in \<open>auto simp: cycles_of_def\<close>)
  moreover have "v \<noteq> 0" if "chip_port.blocked cfg (mp_model (h_port h)) v"
    using that chip_port.not_blocked_commands [OF P] by auto
  ultimately show ?thesis
    unfolding assms(8) by (cases res) (auto simp: defs chip_port.blocked_def [OF P])
qed

lemma write_word_delivers_witness:
  "\<exists>res h'. write_word (model_ops default_config demo_env) 2 0x1234 None demo_host = (res, h')
     \<and> r_write_index (mp_model (h_port h')) = 0"
proof -
  obtain res h' where w: "write_word (model_ops default_config demo_env) 2 0x1234 None demo_host = (res, h')"
    by (cases "write_word (model_ops default_config demo_env) 2 0x1234 None demo_host")
  from write_word_delivers [OF default_config_ok demo_in_sync(1,2) _ _ _ _ w] w show ?thesis
    by (auto simp: cycles_of_def demo_in_sync)
qed

text \<open>C5: Reading an RX word pops exactly one word, the one returned, and it is the head of the
  selected engine's queue at a moment of the read: the selection is the same before and after, and the
  queue before the call, followed by the words the engine pushes meanwhile, is the sequence of the words
  taken from it followed by the queue after the call, where the host takes this one word only and the
  mover takes none unless the engine has a route. A read whose handshake ran out of its
  budget took nothing. Idle cycles between the nibbles do not matter.\<close>

theorem rx_read_pops_once:
  assumes "config_ok cfg" "model_in_sync cfg h" "no_env h" "1 \<le> cycles_of h timeout"
    "read_word (model_ops cfg env_step) 3 timeout pauses h = (res, h')"
  shows "case res of
         Inr x \<Rightarrow> host_runs cfg (mp_model (h_port h)) [] [x] (mp_model (h_port h'))
           \<and> rx_account (mp_model (h_port h)) [x] (mp_model (h_port h'))
           \<and> (\<exists>m. host_runs cfg (mp_model (h_port h)) [] [] m \<and> e_rx (sel_engine m) \<noteq> []
                \<and> x = hd (e_rx (sel_engine m)))
       | Inl e \<Rightarrow> (\<exists>s. e = HostTimeout s)
           \<and> host_runs cfg (mp_model (h_port h)) [] [] (mp_model (h_port h'))
           \<and> rx_account (mp_model (h_port h)) [] (mp_model (h_port h'))"
proof -
  note P = model_contract(2) [OF assms(1), of env_step]
  note defs = chip_port.has_read_def [OF P] chip_port.linked_def [OF P] chip_port.reached_def [OF P]
  have "chip_port.in_sync cfg mp_model (steady cfg) h"
    using model_sync_iff(2) [OF assms(1)] assms(2,3) by blast
  then have l: "chip_port.linked mp_model (steady cfg) h" by (rule chip_port.in_sync_linked [OF P])
  have wf: "wf_chip cfg (mp_model (h_port h))" using assms(2) by (simp add: model_in_sync_def Let_def)
  have rd: "act_post (\<lambda>x h'. chip_port.has_read cfg mp_model (steady cfg) h 3 x h')
    (\<lambda>e h'. (\<exists>s. e = HostTimeout s) \<and> chip_port.reached cfg mp_model (steady cfg) h [] [] h')
    (read_word (model_ops cfg env_step) 3 timeout pauses h)"
    by (rule chip_port.read_word_post [OF P l]) (use assms(4) in \<open>auto simp: cycles_of_def\<close>)
  show ?thesis
  proof (cases res)
    case (Inl e)
    then have "(\<exists>s. e = HostTimeout s) \<and> host_runs cfg (mp_model (h_port h)) [] [] (mp_model (h_port h'))"
      using rd unfolding assms(5) by (auto simp: defs)
    then show ?thesis using Inl runs_account [OF _ assms(1) wf refl] by auto
  next
    case (Inr y)
    then obtain x where x: "host_runs cfg (mp_model (h_port h)) [] [x] (mp_model (h_port h'))"
      "chip_port.offered cfg (mp_model (h_port h)) 3 x" "y = take_bit 32 x"
      using rd unfolding assms(5) by (auto simp: defs)
    then obtain m where m: "host_runs cfg (mp_model (h_port h)) [] [] m" "e_rx (sel_engine m) \<noteq> []"
      "x = hd (e_rx (sel_engine m))"
      by (auto simp: chip_port.offered_def [OF P] chip_port.offers_def [OF P])
    have wfm: "wf_chip cfg m" by (rule host_runs_wf [OF m(1) assms(1) wf])
    then have "wf_engine cfg (sel_engine m)"
      unfolding sel_engine_def
      by (intro wf_engines_eng) (auto simp: wf_chip_def wf_host_def)
    then have "word_in cfg x" using m(2,3) by (cases "e_rx (sel_engine m)") (auto simp: wf_engine_def wf_queue_def)
    moreover have "(2::int) ^ nat (cfg_width cfg) \<le> 2 ^ 32"
      using config_okD(2) [OF assms(1)] by (intro power_increasing) auto
    ultimately have "y = x" using x(3) by (simp add: word_in_def take_bit_int_eq_self)
    then show ?thesis using Inr x(1) m runs_account [OF x(1) assms(1) wf refl] by auto
  qed
qed

lemma rx_read_pops_once_witness:
  "\<exists>res h'. read_word (model_ops default_config demo_env) 3 (Some 4) None demo_host = (res, h')
     \<and> (case res of Inr x \<Rightarrow> rx_account (mp_model (h_port demo_host)) [x] (mp_model (h_port h'))
        | Inl e \<Rightarrow> rx_account (mp_model (h_port demo_host)) [] (mp_model (h_port h')))"
proof -
  obtain res h' where w: "read_word (model_ops default_config demo_env) 3 (Some 4) None demo_host = (res, h')"
    by (cases "read_word (model_ops default_config demo_env) 3 (Some 4) None demo_host")
  from rx_read_pops_once [OF default_config_ok demo_in_sync(1,2) _ w] w show ?thesis
    by (auto simp: cycles_of_def split: sum.splits)
qed

section \<open>Status\<close>

lemma sel_engine_wf: "wf_chip cfg m \<Longrightarrow> wf_engine cfg (sel_engine m)"
  unfolding sel_engine_def by (intro wf_engines_eng) (auto simp: wf_chip_def wf_host_def)

lemma of_bool_bits:
  "bit ((of_bool b :: int)) n \<longleftrightarrow> b \<and> n = 0"
  by (auto simp: bit_1_iff)

lemma status_word_bits:
  assumes wf: "wf_chip cfg m" and rs: "r_read_select m = 0"
  shows "bit (take_bit 32 (status m)) 0 = e_running (sel_engine m)"
    "bit (take_bit 32 (status m)) 1 = e_committed (sel_engine m)"
    "bit (take_bit 32 (status m)) 2 = e_stalled (sel_engine m)"
    "bit (take_bit 32 (status m)) 3 = (e_fault (sel_engine m) \<noteq> 0)"
    "shr (take_bit 32 (status m)) 8 AND 0xFF = e_fault (sel_engine m)"
proof -
  let ?e = "sel_engine m"
  have f: "0 \<le> e_fault ?e" "e_fault ?e \<le> 255"
    using sel_engine_wf [OF wf] by (simp_all add: wf_engine_def wf_counters_def byte_def)
  have fb: "n < 8" if "bit (e_fault ?e) n" for n
  proof -
    have "take_bit 8 (e_fault ?e) = e_fault ?e" using f by (simp add: take_bit_int_eq_self)
    then show ?thesis using that by (metis bit_take_bit_iff)
  qed
  have st: "status m = of_bool (e_running ?e) OR shl (of_bool (e_committed ?e)) 1
      OR shl (of_bool (e_stalled ?e)) 2 OR shl (of_bool (e_fault ?e \<noteq> 0)) 3 OR shl (e_fault ?e) 8"
    using rs by (simp only: status_def Let_def if_True simp_thms)
  have b: "bit (status m) n \<longleftrightarrow> (n = 0 \<and> e_running ?e) \<or> (n = 1 \<and> e_committed ?e) \<or> (n = 2 \<and> e_stalled ?e)
      \<or> (n = 3 \<and> e_fault ?e \<noteq> 0) \<or> (8 \<le> n \<and> bit (e_fault ?e) (n - 8))" for n
    unfolding st by (simp only: bit_or_iff bit_push_bit_iff_int of_bool_bits) auto
  show "bit (take_bit 32 (status m)) 0 = e_running ?e" "bit (take_bit 32 (status m)) 1 = e_committed ?e"
    "bit (take_bit 32 (status m)) 2 = e_stalled ?e" "bit (take_bit 32 (status m)) 3 = (e_fault ?e \<noteq> 0)"
    by (simp_all add: bit_take_bit_iff b)
  show "shr (take_bit 32 (status m)) 8 AND 0xFF = e_fault ?e"
    unfolding and_255_take
    by (rule bit_eqI) (auto simp: bit_take_bit_iff bit_drop_bit_eq b dest: fb)
qed

lemma and_low_bits:
  "(x::int) AND 1 \<noteq> 0 \<longleftrightarrow> bit x 0" "x AND 2 \<noteq> 0 \<longleftrightarrow> bit x 1" "x AND 4 \<noteq> 0 \<longleftrightarrow> bit x 2"
  "x AND 8 \<noteq> 0 \<longleftrightarrow> bit x 3"
  using bit_iff_and_push_bit_not_eq_0 [of x 0] bit_iff_and_push_bit_not_eq_0 [of x 1]
    bit_iff_and_push_bit_not_eq_0 [of x 2] bit_iff_and_push_bit_not_eq_0 [of x 3]
  by (simp_all add: push_bit_eq_mult)

text \<open>The decoded status of a state.\<close>

definition reports :: "engine_status \<Rightarrow> engine \<Rightarrow> bool" where
  "reports s e \<longleftrightarrow> s_running s = e_running e \<and> s_committed s = e_committed e
     \<and> s_stalled s = e_stalled e \<and> s_faulted s = (e_fault e \<noteq> 0) \<and> s_fault s = e_fault e"

lemma status_reports:
  assumes "wf_chip cfg m" "r_read_select m = 0"
  shows "reports (Status (take_bit 32 (status m)) e) (sel_engine m)"
proof -
  note b = status_word_bits [OF assms]
  have "s_fault (Status (take_bit 32 (status m)) e) = e_fault (sel_engine m)"
  proof (cases "e_fault (sel_engine m) = 0")
    case True
    then have "\<not> bit (take_bit 32 (status m)) 3" using b(4) by simp
    then have "take_bit 32 (status m) AND 8 = 0" using and_low_bits(4) by blast
    then show ?thesis using True by (simp add: Status_def)
  next
    case False
    then have "take_bit 32 (status m) AND 8 \<noteq> 0" using b(4) and_low_bits(4) by blast
    then show ?thesis using b(5) by (simp only: Status_def if_True engine_status.select_convs simp_thms)
  qed
  then show ?thesis using b(1-4) and_low_bits unfolding reports_def
    by (simp only: Status_def engine_status.select_convs)
qed

text \<open>C6: Asking for the status of the selected engine always succeeds on a port that cannot raise
  (with a budget of two cycles per nibble or more), and the status is fresh, never a stale
  snapshot: its flags and fault code are those of that engine in a state of the chip during the
  call, after the library chose the status word.\<close>

theorem status_is_fresh:
  assumes "config_ok cfg" "model_in_sync cfg h" "no_env h" "2 \<le> h_timeout h"
  shows "\<exists>s h'. host_status (model_ops cfg env_step) None h = (Inr s, h') \<and> model_in_sync cfg h'
    \<and> s_engine s = Some (h_selected h)
    \<and> (\<exists>m xs. host_runs cfg (mp_model (h_port h)) [(0, shl 8 24 OR 0)] xs m
         \<and> r_selected m = h_selected h \<and> reports s (eng m (h_selected h)))"
proof -
  note P = model_contract(2) [OF assms(1), of env_step]
  have sync: "chip_port.in_sync cfg mp_model (steady cfg) h"
    using model_sync_iff(2) [OF assms(1)] assms(2,3) by blast
  have rs: "act_post (chip_port.status_read cfg mp_model (steady cfg) h 0) (\<lambda>_ _. False)
      (read_status (model_ops cfg env_step) 0 None h)"
    by (rule chip_port.read_status_post [OF P sync]) (use assms(4) in simp_all)
  obtain w h1 where r: "read_status (model_ops cfg env_step) 0 None h = (Inr w, h1)"
    using rs by (cases "read_status (model_ops cfg env_step) 0 None h"; cases "fst (read_status (model_ops cfg env_step) 0 None h)") auto
  let ?s = "Status w (Some (h_selected h1))"
  have st: "host_status (model_ops cfg env_step) None h = (Inr ?s, h1)"
    unfolding host_status_def use_def RS_STATUS_def act_bind_assoc act_bind_basic option.case act_bind_simps
    by (simp add: act_bind_run(1) [where m = "read_status (model_ops cfg env_step) 0 None", OF r])
  obtain m xs where d: "chip_port.done_with cfg mp_model (steady cfg) h [(0, shl 8 24 OR 0)] h1"
    and m: "host_runs cfg (mp_model (h_port h)) [(0, shl 8 24 OR 0)] xs m" "wf_chip cfg m"
      "selections m = (h_selected h, 0)" "w = take_bit 32 (status m)"
    using rs unfolding r by (auto simp: chip_port.status_read_def [OF P])
  have sync1: "model_in_sync cfg h1"
    using d model_sync_iff(2) [OF assms(1)] by (auto simp: chip_port.done_with_def [OF P])
  obtain ys where run: "host_runs cfg (mp_model (h_port h)) [(0, shl 8 24 OR 0)] ys (mp_model (h_port h1))"
    using d by (auto simp: chip_port.done_with_def [OF P])
  have "selections (mp_model (h_port h1)) = selections m"
    using selections_runs [OF run assms(1)] selections_runs [OF m(1) assms(1)] assms(2)
    by (simp add: model_in_sync_def Let_def)
  then have sel: "h_selected h1 = h_selected h"
    using sync1 m(3) by (simp add: model_in_sync_def Let_def selections_def)
  have "reports ?s (sel_engine m)" using status_reports [OF m(2)] m(3,4) by (simp add: selections_def)
  then have rep: "reports ?s (eng m (h_selected h))" using m(3) by (simp add: sel_engine_def selections_def)
  have "s_engine ?s = Some (h_selected h)" unfolding sel by (simp add: Status_def)
  moreover have "r_selected m = h_selected h" using m(3) by (simp add: selections_def)
  ultimately show ?thesis using sync1 rep m(1) st by blast
qed

lemma status_is_fresh_witness:
  "\<exists>s h'. host_status (model_ops default_config demo_env) None demo_host = (Inr s, h') \<and> s_engine s = Some 0"
  using status_is_fresh [OF default_config_ok demo_in_sync(1,2), of demo_env] demo_in_sync(1,3)
  by (auto simp: demo_host_def new_host_def)

section \<open>Loading a program\<close>

text \<open>C7: Loading a program into an engine ends, when the library does not raise on a rejected
  command, with exactly the given words as the engine's committed program and the engine halted,
  whatever it and the other engines were doing before; the optional verification passes. A strict
  library can only end otherwise by reporting a rejected command.\<close>

theorem load_program_loads:
  assumes "config_ok cfg" "model_in_sync cfg h" "no_env h"
    "a_program_words (h_architecture h) = cfg_program_words cfg" "engine_no cfg engine"
    "words \<noteq> []" "int (length words) \<le> cfg_program_words cfg" "\<forall>w \<in> set words. 0 \<le> w \<and> w \<le> 0xFFFFFFFF"
    "own_payload owned open_drain = Inr p" "2 \<le> h_timeout h"
    "load_program (model_ops cfg env_step) engine words owned open_drain verify h = (res, h')"
  shows "case res of
      Inr n \<Rightarrow> n = int (length words) \<and> loaded (mp_model (h_port h')) engine words \<and> model_in_sync cfg h'
    | Inl e \<Rightarrow> h_strict h \<and> (\<exists>op q. e = CommandRejected op q)"
proof -
  note P = model_contract(2) [OF assms(1), of env_step]
  have sync: "chip_port.in_sync cfg mp_model (steady cfg) h"
    using model_sync_iff(2) [OF assms(1)] assms(2,3) by blast
  have "act_post (\<lambda>n h'. n = int (length words) \<and> loaded (mp_model (h_port h')) engine words
        \<and> chip_port.in_sync cfg mp_model (steady cfg) h')
      (chip_port.refused (\<lambda>_. False) h)
      (load_program (model_ops cfg env_step) engine words owned open_drain verify h)"
    by (rule chip_port.load_program_post [OF P sync assms(5,8,6,7,4,9)]) (use assms(10) in simp)
  then show ?thesis
    unfolding assms(11) using model_sync_iff(2) [OF assms(1)]
    by (cases res) (auto simp: chip_port.refused_def [OF P])
qed

definition lax_host :: "unit model_port host" where
  "lax_host = demo_host\<lparr>h_strict := False\<rparr>"

lemma lax_in_sync: "model_in_sync default_config lax_host" "no_env lax_host"
  "h_timeout lax_host = 1000" "h_architecture lax_host = DESIGN_ARCHITECTURE" "\<not> h_strict lax_host"
  using demo_in_sync by (simp_all add: lax_host_def model_in_sync_def h_engines_def no_env_def)

lemma load_program_loads_witness:
  "\<exists>h'. load_program (model_ops default_config demo_env) 1 [0x04000003, 0x01000000] 0x0F 0 True lax_host = (Inr 2, h')
     \<and> loaded (mp_model (h_port h')) 1 [0x04000003, 0x01000000]"
proof -
  let ?lp = "load_program (model_ops default_config demo_env) 1 [0x04000003, 0x01000000] 0x0F 0 True lax_host"
  obtain res h' where r: "?lp = (res, h')" by (cases ?lp)
  have "own_payload 0x0F 0 = Inr 0x0F" by (simp add: own_payload_def)
  from load_program_loads [OF default_config_ok lax_in_sync(1,2) _ _ _ _ _ this _ r] lax_in_sync(3-5)
  have "case res of
      Inr n \<Rightarrow> n = 2 \<and> loaded (mp_model (h_port h')) 1 [0x04000003, 0x01000000]
        \<and> model_in_sync default_config h'
    | Inl e \<Rightarrow> False"
    by (simp add: default_config_def DESIGN_ARCHITECTURE_def engine_no_def split: sum.splits)
  then show ?thesis using r by (cases res) auto
qed

section \<open>The record of the selections\<close>

text \<open>C8: Whatever sequence of calls a client makes (commands of any kind, writes of program and TX
  words, reads, status reads, idling, runs and waits, fault reports, drains, window changes, and a
  reset or deselect of at least one cycle), and whatever exceptions the library raises on the way, its
  record of the selected engine, the selected status word and the window never diverges from
  the chip, and no transfer is left half done between the calls. Outside the statement are the raw
  transfers below the commands, which do not keep the record: \<open>write_word\<close> into window 0 with a
  selecting word, \<open>cycle\<close> with pins of the caller's choice, \<open>reset(0)\<close> and
  \<open>deselect(0)\<close>; and the abandoned transfers (\<open>try_write_word\<close>, \<open>try_read_word\<close>) and
  \<open>free_run\<close>, which are not treated.\<close>

theorem record_never_diverges:
  assumes "config_ok cfg" "model_in_sync cfg h" "no_env h" "list_all valid_call calls"
  shows "\<exists>h'. run_session (model_ops cfg env_step) (\<lambda>_. False) calls h = (Inr (), h') \<and> model_in_sync cfg h'"
proof -
  note P = model_contract(2) [OF assms(1), of env_step]
  have sync: "chip_port.in_sync cfg mp_model (steady cfg) h"
    using model_sync_iff(2) [OF assms(1)] assms(2,3) by blast
  from chip_port.session_in_sync [OF P sync assms(4)]
  show ?thesis
    using model_sync_iff(2) [OF assms(1)]
    by (cases "run_session (model_ops cfg env_step) (\<lambda>_. False) calls h";
        cases "fst (run_session (model_ops cfg env_step) (\<lambda>_. False) calls h)") auto
qed

lemma record_never_diverges_witness:
  "\<exists>h'. run_session (model_ops default_config demo_env) (\<lambda>_. False)
      [Do_command 0 3 None, Do_status 2 None, Do_command 0 9 None, Do_write 2 77 (Some 5), Do_reset 1,
       Do_read 3 (Some 4) None, Do_fault_report, Do_run 3 True, Do_wait_irq (Some 2), Do_drain (Some 1) 2]
      demo_host = (Inr (), h') \<and> h_selected h' = r_selected (mp_model (h_port h'))"
  using record_never_diverges [OF default_config_ok demo_in_sync(1,2), where env_step = demo_env and
      calls = "[Do_command 0 3 None, Do_status 2 None, Do_command 0 9 None, Do_write 2 77 (Some 5), Do_reset 1,
       Do_read 3 (Some 4) None, Do_fault_report, Do_run 3 True, Do_wait_irq (Some 2), Do_drain (Some 1) 2]"]
  by (auto simp: budget_ok_def model_in_sync_def Let_def)

section \<open>Encoders\<close>

lemma range_bits:
  fixes x :: int
  assumes "0 \<le> x" "x < 2 ^ k" "bit x n"
  shows "n < k"
  using assms take_bit_int_eq_self [of x k] by (metis bit_take_bit_iff)

lemma flag_push: "(if b then 16 else 0) = push_bit 4 (of_bool b :: int)"
  "(if b then 32 else 0) = push_bit 5 (of_bool b :: int)"
  by (simp_all add: push_bit_eq_mult)

lemmas field_bits = bit_take_bit_iff bit_drop_bit_eq bit_or_iff bit_push_bit_iff_int of_bool_bits

lemma route_fields:
  assumes "route_payload s d n en = Inr q"
  shows "q AND 3 = s" "shr q 2 AND 3 = d" "(q AND 16 \<noteq> 0) = en" "shr q 5 AND 65535 = n" "shr q 21 = 0"
proof -
  have q: "q = s OR push_bit 2 d OR push_bit 4 (of_bool en) OR push_bit 5 n"
    and r: "0 \<le> s" "s < 2 ^ 2" "0 \<le> d" "d < 2 ^ 2" "0 \<le> n" "n < 2 ^ 16"
    using assms by (auto simp: route_payload_def flag_push split: if_splits)
  note rb = range_bits [OF r(1,2)] range_bits [OF r(3,4)] range_bits [OF r(5,6)]
  have b: "bit q k \<longleftrightarrow> (k < 2 \<and> bit s k) \<or> (2 \<le> k \<and> k < 4 \<and> bit d (k - 2)) \<or> (k = 4 \<and> en)
      \<or> (5 \<le> k \<and> k < 21 \<and> bit n (k - 5))" for k
    unfolding q by (simp only: field_bits) (use rb in fastforce)
  show "q AND 3 = s" "shr q 2 AND 3 = d" "shr q 5 AND 65535 = n" "shr q 21 = 0"
    unfolding and_3_take and_65535_take
    by (rule bit_eqI; use rb in \<open>auto simp: field_bits b\<close>)+
  show "(q AND 16 \<noteq> 0) = en" by (simp add: and_bit_iff b)
qed

lemma own_fields:
  assumes "own_payload pins od = Inr q"
  shows "q AND 255 = pins" "shr q 8 AND 255 = od" "shr q 16 = 0"
proof -
  have q: "q = pins OR push_bit 8 od" and r: "0 \<le> pins" "pins < 2 ^ 8" "0 \<le> od" "od < 2 ^ 8"
    using assms by (auto simp: own_payload_def split: if_splits)
  note rb = range_bits [OF r(1,2)] range_bits [OF r(3,4)]
  show "q AND 255 = pins" "shr q 8 AND 255 = od" "shr q 16 = 0"
    unfolding and_255_take q by (rule bit_eqI; use rb in \<open>fastforce simp: field_bits\<close>)+
qed

lemma trigger_fields:
  assumes "trigger_payload pin mode en = Inr q"
  shows "q AND 7 = pin" "shr q 3 AND 3 = mode" "(q AND 32 \<noteq> 0) = en" "shr q 6 = 0"
proof -
  have q: "q = pin OR push_bit 3 mode OR push_bit 5 (of_bool en)"
    and r: "0 \<le> pin" "pin < 2 ^ 3" "0 \<le> mode" "mode < 2 ^ 2"
    using assms by (auto simp: trigger_payload_def flag_push split: if_splits)
  note rb = range_bits [OF r(1,2)] range_bits [OF r(3,4)]
  have b: "bit q k \<longleftrightarrow> (k < 3 \<and> bit pin k) \<or> (3 \<le> k \<and> k < 5 \<and> bit mode (k - 3)) \<or> (k = 5 \<and> en)" for k
    unfolding q by (simp only: field_bits) (use rb in fastforce)
  show "q AND 7 = pin" "shr q 3 AND 3 = mode" "shr q 6 = 0"
    unfolding and_7_take and_3_take by (rule bit_eqI; use rb in \<open>auto simp: field_bits b\<close>)+
  show "(q AND 32 \<noteq> 0) = en" by (simp add: and_bit_iff b)
qed

text \<open>C9: The payload encoders and the chip's decoder agree: the chip takes from an encoded ROUTE, OWN
  or TRIGGER payload exactly the fields the caller gave, so an accepted command has exactly the
  effect asked for (a route with a word count, or none; the owned and open-drain pins; the
  trigger's pin and mode, or none).\<close>

theorem encoders_agree_with_chip:
  "(route_payload s d n en = Inr q \<longrightarrow>
      command_effect cfg r 6 q = r\<lparr>r_routes := (r_routes r)[nat s := (if en \<and> n \<noteq> 0 then Some (d, n) else None)]\<rparr>
      \<and> (command_rejected cfg r 6 q \<longleftrightarrow> s \<ge> cfg_engines cfg \<or> d \<ge> cfg_engines cfg))
   \<and> (own_payload pins od = Inr q \<longrightarrow>
      command_effect cfg r 3 q = upd_eng r (r_selected r) (\<lambda>e. e\<lparr>e_ownership := pins, e_open_drain := od\<rparr>)
      \<and> (command_rejected cfg r 3 q \<longleftrightarrow> e_running (sel_engine r) \<or> pins AND other_owned r \<noteq> 0
           \<or> od AND NOT pins \<noteq> 0))
   \<and> (trigger_payload pin mode en = Inr q \<longrightarrow>
      command_effect cfg r 11 q = upd_eng r (r_selected r)
        (\<lambda>e. e\<lparr>e_trigger := (if en then Some (pin, mode) else None)\<rparr>)
      \<and> (command_rejected cfg r 11 q \<longleftrightarrow> e_running (sel_engine r)))"
proof (intro conjI impI)
  assume r6: "route_payload s d n en = Inr q"
  show "command_effect cfg r 6 q = r\<lparr>r_routes := (r_routes r)[nat s := (if en \<and> n \<noteq> 0 then Some (d, n) else None)]\<rparr>"
    "command_rejected cfg r 6 q \<longleftrightarrow> s \<ge> cfg_engines cfg \<or> d \<ge> cfg_engines cfg"
    using route_fields [OF r6] by (simp_all add: command_effect_def command_rejected_def Let_def)
next
  assume r3: "own_payload pins od = Inr q"
  show "command_effect cfg r 3 q = upd_eng r (r_selected r) (\<lambda>e. e\<lparr>e_ownership := pins, e_open_drain := od\<rparr>)"
    "command_rejected cfg r 3 q \<longleftrightarrow> e_running (sel_engine r) \<or> pins AND other_owned r \<noteq> 0
           \<or> od AND NOT pins \<noteq> 0"
    unfolding command_effect_def command_rejected_def Let_def own_fields [OF r3] by simp_all
next
  assume r11: "trigger_payload pin mode en = Inr q"
  show "command_effect cfg r 11 q = upd_eng r (r_selected r)
        (\<lambda>e. e\<lparr>e_trigger := (if en then Some (pin, mode) else None)\<rparr>)"
    "command_rejected cfg r 11 q \<longleftrightarrow> e_running (sel_engine r)"
    using trigger_fields [OF r11] by (simp_all add: command_effect_def command_rejected_def Let_def)
qed

lemma encoders_agree_with_chip_witness:
  "route_payload 1 2 40 True = Inr 1305
   \<and> r_routes (command_effect default_config (reset default_config) 6 1305) = [None, Some (2, 40), None, None]"
proof -
  have q: "route_payload 1 2 40 True = Inr 1305" by (simp add: route_payload_def)
  have "command_effect default_config (reset default_config) 6 1305 =
      (reset default_config)\<lparr>r_routes := (r_routes (reset default_config))[nat 1 := Some (2, 40)]\<rparr>"
    using encoders_agree_with_chip [of 1 2 40 True 1305 default_config "reset default_config" 0 0 0 0] q by simp
  then show ?thesis using q by (simp add: reset_def default_config_def numeral_eq_Suc)
qed

end
