(* ===== verification/Host_Image.thy ===== *)
theory Host_Image
  imports Host_Protocol
begin

text \<open>
  Firmware images: \<open>host/pe_host/image.py\<close>. The pure-Python SHA-256 with its message schedule
  and compression, the digest of the image words, the checks of the architecture object and of
  the image, the binding and ISA checks, and loading. The file system and the JSON parser are
  arguments: \<open>read_json\<close> returns \<open>None\<close> for \<open>OSError\<close> or \<open>ValueError\<close>, \<open>read_bytes\<close> for
  \<open>OSError\<close>; \<open>native\<close> is \<open>hashlib.sha256\<close> where the interpreter has it.
\<close>

section \<open>SHA-256\<close>

definition IMAGE_SCHEMA :: string where
  "IMAGE_SCHEMA = ''protocol-emulator.firmware-image.v1''"
definition SCENARIO_SCHEMA :: string where
  "SCENARIO_SCHEMA = ''protocol-emulator.firmware-scenario.v1''"
definition ARCHITECTURE_SCHEMA :: string where
  "ARCHITECTURE_SCHEMA = ''protocol-emulator.architecture.v1''"

text \<open>The round constants and the initial hash value, in decimal.\<close>

definition sha_K :: "int list" where
  "sha_K = [1116352408, 1899447441, 3049323471, 3921009573, 961987163, 1508970993, 2453635748, 2870763221,
     3624381080, 310598401, 607225278, 1426881987, 1925078388, 2162078206, 2614888103, 3248222580,
     3835390401, 4022224774, 264347078, 604807628, 770255983, 1249150122, 1555081692, 1996064986,
     2554220882, 2821834349, 2952996808, 3210313671, 3336571891, 3584528711, 113926993, 338241895,
     666307205, 773529912, 1294757372, 1396182291, 1695183700, 1986661051, 2177026350, 2456956037,
     2730485921, 2820302411, 3259730800, 3345764771, 3516065817, 3600352804, 4094571909, 275423344,
     430227734, 506948616, 659060556, 883997877, 958139571, 1322822218, 1537002063, 1747873779,
     1955562222, 2024104815, 2227730452, 2361852424, 2428436474, 2756734187, 3204031479, 3329325298]"

definition sha_init :: "int list" where
  "sha_init = [1779033703, 3144134277, 1013904242, 2773480762, 1359893119, 2600822924, 528734635, 1541459225]"

definition rotr :: "int \<Rightarrow> int \<Rightarrow> int" where
  "rotr x n = (shr x n OR shl x (32 - n)) AND 0xFFFFFFFF"

text \<open>Big-endian and little-endian packing, \<open>struct\<close> formats I and Q.\<close>

definition pack_be :: "nat \<Rightarrow> int \<Rightarrow> int list" where
  "pack_be n x = map (\<lambda>i. shr x (int (8 * (n - 1 - i))) AND 255) [0..<n]"

definition pack_le :: "nat \<Rightarrow> int \<Rightarrow> int list" where
  "pack_le n x = map (\<lambda>i. shr x (int (8 * i)) AND 255) [0..<n]"

fun unpack_be :: "int list \<Rightarrow> int list" where
  "unpack_be (a # b # c # d # rest) =
     (shl a 24 OR shl b 16 OR shl c 8 OR d) # unpack_be rest"
| "unpack_be _ = []"

definition sha_pad :: "int list \<Rightarrow> int list" where
  "sha_pad data = (let length' = int (length data) in
     data @ [0x80] @ replicate (nat ((55 - length') mod 64)) 0 @ pack_be 8 (length' * 8))"

definition sha_extend :: "int list \<Rightarrow> nat \<Rightarrow> int list" where
  "sha_extend w i =
     (let s0 = rotr (w ! (i - 15)) 7 XOR rotr (w ! (i - 15)) 18 XOR shr (w ! (i - 15)) 3;
          s1 = rotr (w ! (i - 2)) 17 XOR rotr (w ! (i - 2)) 19 XOR shr (w ! (i - 2)) 10
      in w @ [(w ! (i - 16) + s0 + w ! (i - 7) + s1) AND 0xFFFFFFFF])"

definition sha_schedule :: "int list \<Rightarrow> int list" where
  "sha_schedule block = foldl sha_extend (unpack_be block) [16..<64]"

fun sha_round :: "int list \<Rightarrow> int list \<Rightarrow> nat \<Rightarrow> int list" where
  "sha_round w [a, b, c, d, e, f, g, hh] i =
     (let t1 = (hh + (rotr e 6 XOR rotr e 11 XOR rotr e 25) + ((e AND f) XOR (NOT e AND g))
               + sha_K ! i + w ! i) AND 0xFFFFFFFF;
          t2 = ((rotr a 2 XOR rotr a 13 XOR rotr a 22)
               + ((a AND b) XOR (a AND c) XOR (b AND c))) AND 0xFFFFFFFF
      in [(t1 + t2) AND 0xFFFFFFFF, a, b, c, (d + t1) AND 0xFFFFFFFF, e, f, g])"
| "sha_round w s i = s"

definition sha_block :: "int list \<Rightarrow> int list \<Rightarrow> int list" where
  "sha_block h block =
     (let w = sha_schedule block;
          s = foldl (sha_round w) h [0..<64]
      in map2 (\<lambda>x y. (x + y) AND 0xFFFFFFFF) h s)"

function sha_blocks :: "int list \<Rightarrow> int list \<Rightarrow> int list" where
  "sha_blocks h data =
     (if data = [] then h else sha_blocks (sha_block h (take 64 data)) (drop 64 data))"
  by pat_completeness auto
termination by (relation "measure (length \<circ> snd)") auto

declare sha_blocks.simps [simp del]

definition sha256_py :: "int list \<Rightarrow> int list" where
  "sha256_py data = concat (map (pack_be 4) (sha_blocks sha_init (sha_pad data)))"

text \<open>\<open>binascii.hexlify\<close>.\<close>

definition hexlify :: "int list \<Rightarrow> string" where
  "hexlify bs = concat (map (\<lambda>b. [digit (nat (shr b 4)), digit (nat (b AND 15))]) bs)"

definition sha256_hex :: "(int list \<Rightarrow> int list) option \<Rightarrow> int list \<Rightarrow> string" where
  "sha256_hex native data =
     hexlify (case native of Some sha256 \<Rightarrow> sha256 data | None \<Rightarrow> sha256_py data)"

definition bytecode_sha256 :: "(int list \<Rightarrow> int list) option \<Rightarrow> int list \<Rightarrow> string" where
  "bytecode_sha256 native words = sha256_hex native (concat (map (pack_le 4) words))"

section \<open>Architecture objects\<close>

definition join_path :: "string \<Rightarrow> string \<Rightarrow> string" where
  "join_path directory name =
     (if directory = [] then name
      else if last directory = CHR ''/'' then directory @ name
      else directory @ ''/'' @ name)"

definition is_int :: "json \<Rightarrow> bool" where
  "is_int v = (case v of JInt _ \<Rightarrow> True | _ \<Rightarrow> False)"

definition int_of :: "json \<Rightarrow> int" where
  "int_of v = (case v of JInt i \<Rightarrow> i | _ \<Rightarrow> 0)"

fun first_missing :: "(string \<times> json) list \<Rightarrow> string list \<Rightarrow> string option" where
  "first_missing kvs [] = None"
| "first_missing kvs (key # keys) = (if obj_has kvs key then first_missing kvs keys else Some key)"

fun first_not_positive :: "(string \<times> json) list \<Rightarrow> string list \<Rightarrow> string option" where
  "first_not_positive kvs [] = None"
| "first_not_positive kvs (key # keys) =
     (if \<not> is_int (obj_get kvs key) \<or> int_of (obj_get kvs key) \<le> 0 then Some key
      else first_not_positive kvs keys)"

definition check_architecture :: "json \<Rightarrow> image_error + unit" where
  "check_architecture architecture = (case architecture of
     JObj kvs \<Rightarrow>
       (case first_missing kvs ARCHITECTURE_KEYS of
          Some key \<Rightarrow> Inl (Arch_lacks key)
        | None \<Rightarrow>
          (if \<not> py_eq (obj_get kvs ''schema_version'') (JStr ARCHITECTURE_SCHEMA)
           then Inl (Arch_unknown_schema (obj_get kvs ''schema_version''))
           else case first_not_positive kvs [''engine_count'', ''data_width'', ''program_words'', ''fifo_words''] of
             Some key \<Rightarrow> Inl (Arch_not_positive key)
           | None \<Rightarrow> Inr ()))
   | _ \<Rightarrow> Inl Arch_not_object)"

text \<open>A word that an ISA-3 device may run differently, with the reason.\<close>

definition isa3_reason :: "int \<Rightarrow> string option" where
  "isa3_reason word =
     (let op = shr word 24 in
      if op \<in> {24, 25} \<and> (word AND 0xFF) mod 8 \<noteq> 0
      then Some ((if op = 24 then ''SHL'' else ''SHR'') @ '' by '' @ decimal (word AND 0xFF)
                 @ '' is not a byte lane'')
      else if op \<in> {5, 11} \<and> (word AND 0xFFFFFF) \<ge> 128
      then Some (''target '' @ decimal (word AND 0xFFFFFF) @ '' is 128 or more'')
      else if op = 26 \<and> (word AND 0xFFFF) \<ge> 128
      then Some (''target '' @ decimal (word AND 0xFFFF) @ '' is 128 or more'')
      else None)"

definition isa3_differences :: "int list \<Rightarrow> (int \<times> string) list" where
  "isa3_differences words =
     concat (map (\<lambda>(pc, word). case isa3_reason word of None \<Rightarrow> [] | Some r \<Rightarrow> [(pc, r)])
       (zip (map int [0..<length words]) words))"

text \<open>The keys whose values differ. The message of a pair also shows the two values.\<close>

definition architecture_differences ::
  "(string \<times> json) list \<Rightarrow> (string \<times> json) list \<Rightarrow> string list \<Rightarrow> string list" where
  "architecture_differences image_arch device_arch ignore =
     filter (\<lambda>key. key \<notin> set ignore \<and> \<not> py_eq (obj_get image_arch key) (obj_get device_arch key))
       ARCHITECTURE_KEYS"

text \<open>The dictionary of an architecture record.\<close>

definition arch_object :: "architecture \<Rightarrow> (string \<times> json) list" where
  "arch_object a = [(''schema_version'', JStr (a_schema_version a)),
     (''engine_count'', JInt (a_engine_count a)), (''data_width'', JInt (a_data_width a)),
     (''program_words'', JInt (a_program_words a)), (''fifo_words'', JInt (a_fifo_words a)),
     (''issue'', JStr (a_issue a)), (''prefetch'', JBool (a_prefetch a))]"

section \<open>Images\<close>

record firmware_image =
  fi_path :: "string option"
  fi_name :: json
  fi_isa_version :: int
  fi_architecture :: "(string \<times> json) list"
  fi_engine :: int
  fi_owned_pins :: int
  fi_open_drain :: int
  fi_clock_hz :: json
  fi_source_sha256 :: json
  fi_bytecode_sha256 :: json
  fi_words :: "int list"
  fi_labels :: json
  fi_notes :: json
  fi_source_verified :: bool

definition IMAGE_KEYS :: "string list" where
  "IMAGE_KEYS = [''isa_version'', ''name'', ''architecture'', ''engine'', ''owned_pins'',
     ''open_drain'', ''source_sha256'', ''bytecode_sha256'', ''words'']"

definition object_of :: "json \<Rightarrow> (string \<times> json) list" where
  "object_of v = (case v of JObj kvs \<Rightarrow> kvs | _ \<Rightarrow> [])"

definition list_of :: "json \<Rightarrow> json list" where
  "list_of v = (case v of JList xs \<Rightarrow> xs | _ \<Rightarrow> [])"

definition is_mask :: "json \<Rightarrow> bool" where
  "is_mask v \<longleftrightarrow> is_int v \<and> 0 \<le> int_of v \<and> int_of v \<le> 255"

definition is_word :: "json \<Rightarrow> bool" where
  "is_word v \<longleftrightarrow> is_int v \<and> 0 \<le> int_of v \<and> int_of v \<le> 0xFFFFFFFF"

text \<open>\<open>_verify\<close> on the object's fields: whether the source was verified.\<close>

definition verify_image ::
  "(int list \<Rightarrow> int list) option \<Rightarrow> (string \<times> json) list \<Rightarrow> int list option
     \<Rightarrow> image_error + bool" where
  "verify_image native data source_bytes =
     and_then (raise_if (\<not> is_int (obj_get data ''isa_version'') \<or> int_of (obj_get data ''isa_version'') < 1)
       Isa_not_positive) (\<lambda>_.
     and_then (check_architecture (obj_get data ''architecture'')) (\<lambda>_.
     let arch = object_of (obj_get data ''architecture'');
         engine = obj_get data ''engine'';
         words = obj_get data ''words'';
         name = obj_get data ''name'' in
     and_then (raise_if (\<not> is_int engine \<or> \<not> (0 \<le> int_of engine
         \<and> int_of engine < int_of (obj_get arch ''engine_count''))) (Engine_outside engine)) (\<lambda>_.
     and_then (raise_if (\<not> is_mask (obj_get data ''owned_pins'')) (Not_a_mask ''owned_pins'')) (\<lambda>_.
     and_then (raise_if (\<not> is_mask (obj_get data ''open_drain'')) (Not_a_mask ''open_drain'')) (\<lambda>_.
     and_then (raise_if (int_of (obj_get data ''open_drain'') AND NOT (int_of (obj_get data ''owned_pins'')) \<noteq> 0)
       Open_drain_outside) (\<lambda>_.
     and_then (raise_if (list_of words = []) Words_not_list) (\<lambda>_.
     and_then (raise_if (int (length (list_of words)) > int_of (obj_get arch ''program_words''))
       (Words_exceed (length (list_of words)) (int_of (obj_get arch ''program_words'')))) (\<lambda>_.
     and_then (raise_if (\<not> list_all is_word (list_of words)) Word_outside) (\<lambda>_.
     let digest = bytecode_sha256 native (map int_of (list_of words)) in
     and_then (raise_if (\<not> py_eq (JStr digest) (obj_get data ''bytecode_sha256''))
       (Bytecode_mismatch name digest (obj_get data ''bytecode_sha256''))) (\<lambda>_.
     case source_bytes of
       None \<Rightarrow> Inr False
     | Some bytes \<Rightarrow>
         and_then (raise_if (\<not> py_eq (JStr (sha256_hex native bytes)) (obj_get data ''source_sha256''))
           (Source_mismatch name (sha256_hex native bytes) (obj_get data ''source_sha256''))) (\<lambda>_.
         Inr True)))))))))))"

definition check_binding ::
  "firmware_image \<Rightarrow> (string \<times> json) list option \<Rightarrow> string list \<Rightarrow> image_error + unit" where
  "check_binding img architecture ignore =
     (let device = (case architecture of None \<Rightarrow> arch_object DESIGN_ARCHITECTURE | Some a \<Rightarrow> a);
          diffs = architecture_differences (fi_architecture img) device ignore
      in if diffs \<noteq> [] then Inl (Bound_elsewhere (fi_name img) diffs) else Inr ())"

definition image_fields ::
  "(string \<times> json) list \<Rightarrow> string option \<Rightarrow> bool \<Rightarrow> firmware_image" where
  "image_fields data path verified =
     \<lparr>fi_path = path, fi_name = obj_get data ''name'',
      fi_isa_version = int_of (obj_get data ''isa_version''),
      fi_architecture = object_of (obj_get data ''architecture''),
      fi_engine = int_of (obj_get data ''engine''),
      fi_owned_pins = int_of (obj_get data ''owned_pins''),
      fi_open_drain = int_of (obj_get data ''open_drain''),
      fi_clock_hz = obj_get data ''clock_hz'', fi_source_sha256 = obj_get data ''source_sha256'',
      fi_bytecode_sha256 = obj_get data ''bytecode_sha256'',
      fi_words = map int_of (list_of (obj_get data ''words'')),
      fi_labels = obj_get_or data ''labels'' (JObj []), fi_notes = obj_get_or data ''notes'' (JList []),
      fi_source_verified = verified\<rparr>"

definition new_image ::
  "(int list \<Rightarrow> int list) option \<Rightarrow> json \<Rightarrow> int list option \<Rightarrow> string option
     \<Rightarrow> (string \<times> json) list option \<Rightarrow> image_error + firmware_image" where
  "new_image native json source_bytes path architecture = (case json of
     JObj data \<Rightarrow>
       and_then (raise_if (\<not> py_eq (obj_get data ''schema_version'') (JStr IMAGE_SCHEMA))
         (Image_bad_schema (obj_get data ''schema_version''))) (\<lambda>_.
       case first_missing data IMAGE_KEYS of
         Some key \<Rightarrow> Inl (Image_lacks key)
       | None \<Rightarrow>
           and_then (verify_image native data source_bytes) (\<lambda>verified.
           let img = image_fields data path verified in
           (case architecture of
              None \<Rightarrow> Inr img
            | Some a \<Rightarrow> and_then (check_binding img (Some a) []) (\<lambda>_. Inr img))))
   | _ \<Rightarrow> Inl Image_not_object)"

text \<open>The \<open>source\<close> argument of \<open>load\<close>: \<open>False\<close>, \<open>True\<close> or \<open>"required"\<close>.\<close>

datatype source_mode = Skip_source | Source_if_present | Source_required

definition IMAGE_SUFFIX :: string where "IMAGE_SUFFIX = ''.image.json''"

definition ends_with :: "string \<Rightarrow> string \<Rightarrow> bool" where
  "ends_with s suffix \<longleftrightarrow>
     length suffix \<le> length s \<and> drop (length s - length suffix) s = suffix"

definition source_path :: "string \<Rightarrow> string" where
  "source_path path = take (length path - length IMAGE_SUFFIX) path @ ''.source.json''"

definition load_image_file ::
  "(int list \<Rightarrow> int list) option \<Rightarrow> (string \<Rightarrow> json option) \<Rightarrow> (string \<Rightarrow> int list option)
     \<Rightarrow> string \<Rightarrow> source_mode \<Rightarrow> (string \<times> json) list option \<Rightarrow> image_error + firmware_image" where
  "load_image_file native read_json read_bytes path source architecture =
     (case read_json path of
        None \<Rightarrow> Inl (Cannot_read path)
      | Some data \<Rightarrow>
          (if source \<noteq> Skip_source \<and> ends_with path IMAGE_SUFFIX
           then case read_bytes (source_path path) of
                  Some bytes \<Rightarrow> new_image native data (Some bytes) (Some path) architecture
                | None \<Rightarrow>
                    if source = Source_required then Inl (Source_not_found (source_path path))
                    else new_image native data None (Some path) architecture
           else new_image native data None (Some path) architecture))"

definition image_check_isa :: "firmware_image \<Rightarrow> int \<Rightarrow> image_error + unit" where
  "image_check_isa img device_version =
     and_then (raise_if (device_version < fi_isa_version img)
       (Needs_isa (fi_name img) (fi_isa_version img) device_version)) (\<lambda>_.
     if device_version AND 0xFF = 3 \<and> fi_isa_version img < 3
     then (let found = isa3_differences (fi_words img) in
           if found \<noteq> [] then Inl (Not_isa3 (fi_name img) found) else Inr ())
     else Inr ())"

definition load_scenario ::
  "(string \<Rightarrow> json option) \<Rightarrow> string \<Rightarrow> (string \<times> json) list option
     \<Rightarrow> image_error + (string \<times> json) list" where
  "load_scenario read_json path architecture =
     (case read_json path of
        None \<Rightarrow> Inl (Scenario_cannot_read path)
      | Some json \<Rightarrow>
          (case json of JObj data \<Rightarrow>
          and_then (raise_if (\<not> py_eq (obj_get data ''schema_version'') (JStr SCENARIO_SCHEMA))
            (Scenario_bad_schema (obj_get data ''schema_version''))) (\<lambda>_.
          and_then (raise_if (\<not> obj_has data ''architecture'') (Raised ''KeyError'')) (\<lambda>_.
          and_then (check_architecture (obj_get data ''architecture'')) (\<lambda>_.
          let diffs = architecture_differences (object_of (obj_get data ''architecture''))
                (case architecture of None \<Rightarrow> arch_object DESIGN_ARCHITECTURE | Some a \<Rightarrow> a) []
          in if diffs \<noteq> [] then Inl (Scenario_bound_elsewhere diffs) else Inr data)))
          | _ \<Rightarrow> Inl (Raised ''AttributeError'')))"

end
