(* ===== verification/Host_Sha.thy ===== *)
theory Host_Sha
  imports Host_Image
begin

text \<open>
  The SHA-256 of \<open>image.py\<close> against FIPS 180-4. The standard is stated on 32-bit words: the
  functions of its section 4.1.2, the message schedule as a recursive function of the round
  number, the rounds on the eight working variables, and padding by the least number of zero
  bytes that completes a block. The code works on integers with masks; every operation on
  integers in range is the word operation, and the refinement follows by induction over the
  schedule, the rounds and the blocks.
\<close>

section \<open>The standard\<close>

text \<open>The constants of sections 4.2.2 and 5.3.3: the first 32 bits of the fractional parts of the cube
  roots of the first 64 primes, and of the square roots of the first eight.\<close>

definition is_prime :: "nat \<Rightarrow> bool" where
  "is_prime n \<longleftrightarrow> 2 \<le> n \<and> (\<forall>d. 2 \<le> d \<and> d < n \<longrightarrow> \<not> d dvd n)"

definition fips_primes :: "nat list" where
  "fips_primes = filter is_prime [2..<312]"

definition root_fraction :: "nat \<Rightarrow> nat \<Rightarrow> 32 word" where
  "root_fraction j p = of_nat (GREATEST r. r ^ j \<le> p * 2 ^ (32 * j))"

definition fips_K :: "nat \<Rightarrow> 32 word" where
  "fips_K t = root_fraction 3 (fips_primes ! t)"

definition fips_H :: "nat \<Rightarrow> 32 word" where
  "fips_H t = root_fraction 2 (fips_primes ! t)"

definition fips_ch :: "32 word \<Rightarrow> 32 word \<Rightarrow> 32 word \<Rightarrow> 32 word" where
  "fips_ch x y z = (x AND y) XOR (NOT x AND z)"
definition fips_maj :: "32 word \<Rightarrow> 32 word \<Rightarrow> 32 word \<Rightarrow> 32 word" where
  "fips_maj x y z = (x AND y) XOR (x AND z) XOR (y AND z)"
definition big_sigma0 :: "32 word \<Rightarrow> 32 word" where
  "big_sigma0 x = word_rotr 2 x XOR word_rotr 13 x XOR word_rotr 22 x"
definition big_sigma1 :: "32 word \<Rightarrow> 32 word" where
  "big_sigma1 x = word_rotr 6 x XOR word_rotr 11 x XOR word_rotr 25 x"
definition small_sigma0 :: "32 word \<Rightarrow> 32 word" where
  "small_sigma0 x = word_rotr 7 x XOR word_rotr 18 x XOR drop_bit 3 x"
definition small_sigma1 :: "32 word \<Rightarrow> 32 word" where
  "small_sigma1 x = word_rotr 17 x XOR word_rotr 19 x XOR drop_bit 10 x"

fun fips_W :: "32 word list \<Rightarrow> nat \<Rightarrow> 32 word" where
  "fips_W M t =
     (if t < 16 then M ! t
      else small_sigma1 (fips_W M (t - 2)) + fips_W M (t - 7) + small_sigma0 (fips_W M (t - 15))
           + fips_W M (t - 16))"

declare fips_W.simps [simp del]

type_synonym working = "32 word \<times> 32 word \<times> 32 word \<times> 32 word \<times> 32 word \<times> 32 word \<times> 32 word \<times> 32 word"

fun fips_round :: "32 word list \<Rightarrow> working \<Rightarrow> nat \<Rightarrow> working" where
  "fips_round M (a, b, c, d, e, f, g, h) t =
     (let T1 = h + big_sigma1 e + fips_ch e f g + fips_K t + fips_W M t;
          T2 = big_sigma0 a + fips_maj a b c
      in (T1 + T2, a, b, c, d + T1, e, f, g))"

fun working_add :: "working \<Rightarrow> working \<Rightarrow> working" where
  "working_add (a, b, c, d, e, f, g, h) (a', b', c', d', e', f', g', h') =
     (a + a', b + b', c + c', d + d', e + e', f + f', g + g', h + h')"

definition fips_compress :: "working \<Rightarrow> 32 word list \<Rightarrow> working" where
  "fips_compress H M = working_add H (foldl (fips_round M) H [0..<64])"

definition fips_initial :: working where
  "fips_initial = (fips_H 0, fips_H 1, fips_H 2, fips_H 3, fips_H 4, fips_H 5, fips_H 6, fips_H 7)"

text \<open>Padding a message of \<open>l\<close> bytes: a set bit, the least number of zeros that leaves 64 bits
  of a 512-bit block, and the length in bits.\<close>

definition fips_zeros :: "nat \<Rightarrow> nat" where
  "fips_zeros l = (LEAST k. (8 * l + 8 + 8 * k) mod 512 = 448)"

definition fips_pad :: "int list \<Rightarrow> int list" where
  "fips_pad m = m @ [0x80] @ replicate (fips_zeros (length m)) 0 @ pack_be 8 (8 * int (length m))"

text \<open>Bytes to big-endian words and to blocks of sixteen words.\<close>

definition word_at :: "int list \<Rightarrow> nat \<Rightarrow> 32 word" where
  "word_at bytes i = of_int (bytes ! (4 * i) * 2 ^ 24 + bytes ! (4 * i + 1) * 2 ^ 16
     + bytes ! (4 * i + 2) * 2 ^ 8 + bytes ! (4 * i + 3))"

definition fips_parse :: "int list \<Rightarrow> 32 word list list" where
  "fips_parse bytes = map (\<lambda>b. map (\<lambda>i. word_at bytes (16 * b + i)) [0..<16]) [0..<length bytes div 64]"

definition working_bytes :: "working \<Rightarrow> int list" where
  "working_bytes H = (case H of (a, b, c, d, e, f, g, h) \<Rightarrow>
     concat (map (\<lambda>x. pack_be 4 (uint x)) [a, b, c, d, e, f, g, h]))"

definition fips_sha256 :: "int list \<Rightarrow> int list" where
  "fips_sha256 m = working_bytes (foldl fips_compress fips_initial (fips_parse (fips_pad m)))"

section \<open>The constants\<close>

lemma prime_trial: "is_prime n \<longleftrightarrow> 2 \<le> n \<and> list_all (\<lambda>d. n < d * d \<or> n mod d \<noteq> 0) [2, 3, 5, 7, 11, 13, 17]"
  if "n < 312"
proof -
  let ?S = "{2, 3, 5, 7, 11, 13, 17} :: nat set"
  have small: "\<exists>q \<in> ?S. q dvd d" if "2 \<le> d" "d < 18" for d :: nat
  proof -
    have "\<forall>d \<in> set [2..<18]. \<exists>q \<in> ?S. q dvd d" by (simp add: upt_rec_numeral)
    from bspec [OF this, of d] show ?thesis using that unfolding set_upt atLeastLessThan_iff by blast
  qed
  have "\<exists>q \<in> ?S. q dvd n \<and> q * q \<le> n" if d: "2 \<le> d" "d < n" "d dvd n" for d
  proof -
    from d(3) obtain e where e: "n = d * e" by (rule dvdE)
    have e2: "2 \<le> e" using d e by (cases e; cases "e - 1") auto
    define m where "m = min d e"
    have "m * m \<le> d * e" unfolding m_def by (intro mult_mono) auto
    then have m: "m * m \<le> n" "2 \<le> m" "m dvd n" using e e2 d by (auto simp: m_def min_def)
    have "m < 18"
    proof (rule ccontr)
      assume "\<not> m < 18"
      then have "18 * 18 \<le> m * m" by (intro mult_mono) auto
      then show False using m(1) that \<open>n < 312\<close> by simp
    qed
    from small [OF m(2) this] obtain q where q: "q \<in> ?S" "q dvd m" by blast
    have "q \<le> m" using q(2) m(2) by (auto dest: dvd_imp_le)
    then have "q * q \<le> m * m" by (intro mult_mono) auto
    then show ?thesis using q m dvd_trans [OF q(2) m(3)] by (intro bexI [of _ q]) auto
  qed
  moreover have "\<not> is_prime n" if "q \<in> ?S" "q dvd n" "q * q \<le> n" for q
  proof -
    have "2 \<le> q" using that(1) by auto
    moreover have "q < n" using that(3) \<open>2 \<le> q\<close> mult_le_mono [of 2 q q q] by linarith
    ultimately show ?thesis using that(2) by (auto simp: is_prime_def)
  qed
  ultimately have "is_prime n \<longleftrightarrow> 2 \<le> n \<and> (\<forall>q \<in> ?S. \<not> (q dvd n \<and> q * q \<le> n))"
    unfolding is_prime_def by metis
  then show ?thesis by (simp add: dvd_eq_mod_eq_0 not_le disj_commute imp_conv_disj)
qed

lemma fips_primes_eq:
  "fips_primes = [2, 3, 5, 7, 11, 13, 17, 19, 23, 29, 31, 37, 41, 43, 47, 53, 59, 61, 67, 71, 73, 79, 83, 89, 97, 101,
    103, 107, 109, 113, 127, 131, 137, 139, 149, 151, 157, 163, 167, 173, 179, 181, 191, 193, 197,
    199, 211, 223, 227, 229, 233, 239, 241, 251, 257, 263, 269, 271, 277, 281, 283, 293, 307, 311]"
  unfolding fips_primes_def
  by (simp add: upt_rec_numeral prime_trial)

lemma root_fraction_eq:
  assumes "r ^ j \<le> p * 2 ^ (32 * j)" "p * 2 ^ (32 * j) < (r + 1) ^ j" "0 < j"
  shows "root_fraction j p = of_nat r"
proof -
  have "(GREATEST r. r ^ j \<le> p * 2 ^ (32 * j)) = r"
  proof (rule Greatest_equality)
    show "r ^ j \<le> p * 2 ^ (32 * j)" by (rule assms(1))
    fix y assume "y ^ j \<le> p * 2 ^ (32 * j)"
    then have "y ^ j < (r + 1) ^ j" using assms(2) by simp
    then show "y \<le> r" using power_less_imp_less_base [of y j "r + 1"] by simp
  qed
  then show ?thesis by (simp add: root_fraction_def)
qed

text \<open>The integer parts and the first 32 bits of the fractions of the roots.\<close>

definition cube_roots :: "nat list" where
  "cube_roots = [5411319704, 6194414737, 7344290767, 8215976869, 9551921755, 10098905585, 11043570340, 11460697813,
    12214315672, 13195500289, 13492127166, 14311783875, 14809980276, 15046980094, 15499789991,
    16133124468, 16720292289, 16907126662, 17444216262, 17784676812, 17950125167, 18429019306,
    18734950876, 19175934170, 19734090066, 20001703533, 20132865992, 20390182855, 20516441075,
    20764397895, 21588763473, 21813078375, 22141143685, 22248366392, 22769593852, 22871018771,
    23170020180, 23461497531, 23651862830, 23931792517, 24205322401, 24295138891, 24734567280,
    24820601251, 24990902297, 25075189284, 25569408389, 26045227120, 26200031510, 26276752392,
    26428864332, 26653801653, 26727943347, 27092625994, 27306805839, 27517677555, 27725365998,
    27793908591, 27997534228, 28131656200, 28198240250, 28526537963, 28973835255, 29099129074]"

lemma cube_roots:
  "list_all2 (\<lambda>p r. r ^ 3 \<le> p * 2 ^ (32 * 3) \<and> p * 2 ^ (32 * 3) < (r + 1) ^ 3) fips_primes cube_roots"
  unfolding fips_primes_eq cube_roots_def list_all2_Cons list_all2_Nil by simp

lemma cube_roots_table: "map of_nat cube_roots = (map of_int sha_K :: 32 word list)"
  unfolding cube_roots_def sha_K_def by simp

lemma table_is_fips:
  assumes "t < 64"
  shows "of_int (sha_K ! t) = fips_K t"
proof -
  have len: "length fips_primes = 64" "length cube_roots = 64" "length sha_K = 64"
    by (simp_all add: fips_primes_eq cube_roots_def sha_K_def)
  have "root_fraction 3 (fips_primes ! t) = of_nat (cube_roots ! t)"
    by (rule root_fraction_eq) (use list_all2_nthD [OF cube_roots] assms len in auto)
  also have "\<dots> = of_int (sha_K ! t)"
    using arg_cong [OF cube_roots_table, of "\<lambda>l. l ! t"] assms len by simp
  finally show ?thesis by (simp add: fips_K_def)
qed

lemma initial_is_fips: "sha_init = map uint [fips_H 0, fips_H 1, fips_H 2, fips_H 3, fips_H 4, fips_H 5, fips_H 6, fips_H 7]"
proof -
  note r = root_fraction_eq [where j = 2]
  have "root_fraction 2 2 = of_nat 6074000999" by (rule r) simp_all
  moreover have "root_fraction 2 3 = of_nat 7439101573" by (rule r) simp_all
  moreover have "root_fraction 2 5 = of_nat 9603838834" by (rule r) simp_all
  moreover have "root_fraction 2 7 = of_nat 11363415354" by (rule r) simp_all
  moreover have "root_fraction 2 11 = of_nat 14244795007" by (rule r) simp_all
  moreover have "root_fraction 2 13 = of_nat 15485724812" by (rule r) simp_all
  moreover have "root_fraction 2 17 = of_nat 17708603819" by (rule r) simp_all
  moreover have "root_fraction 2 19 = of_nat 18721328409" by (rule r) simp_all
  ultimately show ?thesis
    by (simp add: fips_H_def fips_primes_eq sha_init_def)
qed

section \<open>Operations on integers in range\<close>

lemma and_m32_uint: "(x::int) AND 0xFFFFFFFF = uint (of_int x :: 32 word)"
  by (simp add: and_m32_take unsigned_of_int)

lemma shr_uint: "drop_bit k (uint (w :: 32 word)) = uint (drop_bit k w)"
  by (rule bit_eqI) (auto simp: bit_simps dest: bit_imp_le_length)

lemma logic_uint:
  "uint (v :: 32 word) XOR uint w = uint (v XOR w)"
  "uint (v :: 32 word) AND uint w = uint (v AND w)"
  by (simp_all add: unsigned_xor_eq unsigned_and_eq)

lemma ch_uint: "NOT (uint (v :: 32 word)) AND uint w = uint (NOT v AND w)"
  by (rule bit_eqI) (auto simp: bit_simps dest: bit_imp_le_length)

lemma rotr_uint:
  assumes "0 < n" "n < 32"
  shows "rotr (uint (w :: 32 word)) n = uint (word_rotr (nat n) w)"
proof (rule bit_eqI)
  fix k
  obtain m where m: "n = int m" "0 < m" "m < 32" using assms by (cases n) auto
  have "bit (rotr (uint w) n) k \<longleftrightarrow>
      k < 32 \<and> (bit w (k + m) \<or> 32 - m \<le> k \<and> bit w (k - (32 - m)))"
    using m by (auto simp: rotr_def and_m32_take bit_simps nat_diff_distrib ac_simps)
  also have "\<dots> \<longleftrightarrow> k < 32 \<and> bit w ((k + m) mod 32)"
  proof (cases "k + m < 32")
    case True
    then show ?thesis by auto
  next
    case False
    then have "k < 32 \<Longrightarrow> (k + m) mod 32 = k - (32 - m)"
      using m by (simp add: mod_if)
    moreover have "\<not> bit w (k + m)" using False bit_imp_le_length [of w "k + m"] by auto
    ultimately show ?thesis using False by auto
  qed
  also have "\<dots> \<longleftrightarrow> bit (uint (word_rotr (nat n) w)) k"
    using m by (auto simp: bit_simps bit_word_rotr_iff)
  finally show "bit (rotr (uint w) n) k \<longleftrightarrow> bit (uint (word_rotr (nat n) w)) k" .
qed

lemmas int_word = rotr_uint shr_uint logic_uint ch_uint and_m32_uint

section \<open>The schedule\<close>

lemma extend_schedule:
  assumes "16 \<le> t"
  shows "sha_extend (map (\<lambda>i. uint (fips_W M i)) [0..<t]) t = map (\<lambda>i. uint (fips_W M i)) [0..<Suc t]"
proof -
  have "fips_W M t = small_sigma1 (fips_W M (t - 2)) + fips_W M (t - 7)
      + small_sigma0 (fips_W M (t - 15)) + fips_W M (t - 16)"
    using assms by (subst fips_W.simps) simp
  moreover have "t - 16 < t" "t - 15 < t" "t - 7 < t" "t - 2 < t" using assms by simp_all
  ultimately show ?thesis
    by (simp add: sha_extend_def int_word small_sigma0_def small_sigma1_def Let_def ac_simps)
qed

lemma schedule_words:
  assumes "unpack_be block = map uint M" "length M = 16"
  shows "sha_schedule block = map (\<lambda>t. uint (fips_W M t)) [0..<64]"
proof -
  have start: "map uint M = map (\<lambda>t. uint (fips_W M t)) [0..<16]"
    by (rule nth_equalityI) (use assms(2) in \<open>auto simp: fips_W.simps\<close>)
  have "16 \<le> n \<Longrightarrow>
      foldl sha_extend (map (\<lambda>t. uint (fips_W M t)) [0..<16]) [16..<n]
      = map (\<lambda>t. uint (fips_W M t)) [0..<n]" for n
  proof (induction n rule: dec_induct)
    case (step n)
    have "foldl sha_extend (map (\<lambda>t. uint (fips_W M t)) [0..<16]) [16..<Suc n]
        = sha_extend (map (\<lambda>t. uint (fips_W M t)) [0..<n]) n"
      using step by simp
    then show ?case using extend_schedule [OF step.hyps(1)] by simp
  qed simp
  from this [of 64] show ?thesis
    unfolding sha_schedule_def assms(1) start by simp
qed

section \<open>Rounds and blocks\<close>

fun regs_of :: "working \<Rightarrow> int list" where
  "regs_of (a, b, c, d, e, f, g, h) =
     [uint a, uint b, uint c, uint d, uint e, uint f, uint g, uint h]"

lemma sha_round_word:
  assumes "i < 64"
  shows "sha_round (map (\<lambda>t. uint (fips_W M t)) [0..<64]) (regs_of s) i = regs_of (fips_round M s i)"
proof -
  have w: "map (\<lambda>t. uint (fips_W M t)) [0..<64] ! i = uint (fips_W M i)" using assms by simp
  show ?thesis
  proof (cases s rule: regs_of.cases)
    case (1 a b c d e f g h)
    show ?thesis
      unfolding 1 regs_of.simps sha_round.simps fips_round.simps Let_def w
      by (simp add: int_word big_sigma0_def big_sigma1_def fips_ch_def fips_maj_def
        flip: table_is_fips [OF assms])
  qed
qed

lemma rounds_word:
  "n \<le> 64 \<Longrightarrow>
   foldl (sha_round (map (\<lambda>t. uint (fips_W M t)) [0..<64])) (regs_of s) [0..<n]
   = regs_of (foldl (fips_round M) s [0..<n])"
  by (induction n) (simp_all add: sha_round_word)

lemma sha_block_word:
  assumes "unpack_be block = map uint M" "length M = 16"
  shows "sha_block (regs_of H) block = regs_of (fips_compress H M)"
proof -
  have "map2 (\<lambda>x y. (x + y) AND 0xFFFFFFFF) (regs_of H) (regs_of S) = regs_of (working_add H S)" for S
    by (cases H rule: regs_of.cases, cases S rule: regs_of.cases) (simp add: and_m32_uint)
  then show ?thesis
    by (simp add: sha_block_def fips_compress_def Let_def schedule_words [OF assms] rounds_word)
qed

section \<open>Padding and the whole message\<close>

lemma zeros_of_code: "fips_zeros l = nat ((55 - int l) mod 64)"
proof -
  have "(8 * l + 8 + 8 * k) mod 512 = 8 * ((l + 1 + k) mod 64)" for k
    using mult_mod_right [of 8 "l + 1 + k" 64] by (simp add: algebra_simps)
  then have mod64: "(8 * l + 8 + 8 * k) mod 512 = 448 \<longleftrightarrow> (l + 1 + k) mod 64 = 56" for k
    by (simp only:) linarith
  have int64: "(l + 1 + k) mod 64 = 56 \<longleftrightarrow> int (l + 1 + k) mod 64 = 56 mod 64" for k
  proof -
    have "int (l + 1 + k) mod 64 = int ((l + 1 + k) mod 64)" by (simp add: zmod_int)
    moreover have "x = 56 \<longleftrightarrow> int x = 56 mod 64" for x by simp
    ultimately show ?thesis by (simp only:)
  qed
  have iff: "(8 * l + 8 + 8 * k) mod 512 = 448 \<longleftrightarrow> int k mod 64 = (55 - int l) mod 64" for k
    unfolding mod64 int64 mod_eq_dvd_iff by (simp add: algebra_simps)
  show ?thesis
    unfolding fips_zeros_def iff
  proof (rule Least_equality)
    show "int (nat ((55 - int l) mod 64)) mod 64 = (55 - int l) mod 64" by simp
  next
    fix k assume "int k mod 64 = (55 - int l) mod 64"
    moreover have "int k mod 64 \<le> int k" by (rule zmod_le_nonneg_dividend) simp
    ultimately show "nat ((55 - int l) mod 64) \<le> k" by simp
  qed
qed

lemma pad_is_fips: "sha_pad m = fips_pad m"
  by (simp add: sha_pad_def fips_pad_def zeros_of_code Let_def mult.commute)

lemma pad_blocks: "length (sha_pad m) mod 64 = 0"
proof -
  have "(int (length m) + 9 + (55 - int (length m)) mod 64) mod 64 = 0"
    by (simp add: mod_add_right_eq)
  moreover have "int (length (sha_pad m)) = int (length m) + 9 + (55 - int (length m)) mod 64"
    by (simp add: sha_pad_def pack_be_def Let_def)
  ultimately show ?thesis by presburger
qed

lemma pad_bytes:
  "list_all (\<lambda>b. 0 \<le> b \<and> b < 256) m \<Longrightarrow> list_all (\<lambda>b. 0 \<le> b \<and> b < 256) (sha_pad m)"
  by (auto simp: sha_pad_def pack_be_def Let_def list_all_iff and_255_take
    intro: order_less_le_trans [OF take_bit_int_less_exp])

definition word_of4 :: "int \<Rightarrow> int \<Rightarrow> int \<Rightarrow> int \<Rightarrow> 32 word" where
  "word_of4 a b c d = of_int (a * 2 ^ 24 + b * 2 ^ 16 + c * 2 ^ 8 + d)"

lemma or_bytes:
  assumes "0 \<le> a" "a < 256" "0 \<le> b" "b < 256" "0 \<le> c" "c < 256" "0 \<le> d" "d < (256::int)"
  shows "shl a 24 OR shl b 16 OR shl c 8 OR d = uint (word_of4 a b c d)"
proof -
  have or_add: "push_bit n x OR y = x * 2 ^ n + y" if "0 \<le> y" "y < 2 ^ n" for n and x y :: int
  proof -
    have y: "y = take_bit n y" using that by (simp add: take_bit_int_eq_self)
    have "push_bit n x AND y = 0" by (subst y, rule bit_eqI) (auto simp: bit_simps)
    then show ?thesis using disjunctive_add_eq_or [of "push_bit n x" y] by (simp add: push_bit_eq_mult)
  qed
  have cd: "shl c 8 OR d = c * 2 ^ 8 + d" using or_add [of d 8 c] assms by simp
  have bcd: "shl b 16 OR (c * 2 ^ 8 + d) = b * 2 ^ 16 + c * 2 ^ 8 + d"
    using or_add [of "c * 2 ^ 8 + d" 16 b] assms by simp
  have abcd: "shl a 24 OR (b * 2 ^ 16 + c * 2 ^ 8 + d) = a * 2 ^ 24 + b * 2 ^ 16 + c * 2 ^ 8 + d"
    using or_add [of "b * 2 ^ 16 + c * 2 ^ 8 + d" 24 a] assms by simp
  have "uint (word_of4 a b c d) = a * 2 ^ 24 + b * 2 ^ 16 + c * 2 ^ 8 + d"
    unfolding word_of4_def unsigned_of_int using assms by (simp add: take_bit_int_eq_self)
  then show ?thesis by (simp only: or.assoc cd bcd abcd)
qed

lemma unpack_words:
  "length xs = 4 * n \<Longrightarrow> list_all (\<lambda>b. 0 \<le> b \<and> b < 256) xs \<Longrightarrow>
   unpack_be xs = map (\<lambda>i. uint (word_at xs i)) [0..<n]"
proof (induction n arbitrary: xs)
  case (Suc n)
  then obtain a b c d ys where xs: "xs = a # b # c # d # ys"
    by (auto simp: numeral_eq_Suc length_Suc_conv)
  have "unpack_be ys = map (\<lambda>i. uint (word_at ys i)) [0..<n]"
    using Suc.prems xs by (intro Suc.IH) auto
  moreover have "word_at xs (Suc i) = word_at ys i" for i
    by (simp add: xs word_at_def numeral_eq_Suc)
  moreover have "shl a 24 OR shl b 16 OR shl c 8 OR d = uint (word_at xs 0)"
    using or_bytes [of a b c d] Suc.prems xs by (simp add: word_at_def word_of4_def)
  ultimately show ?case
    by (simp add: xs map_upt_Suc del: upt_Suc)
qed simp

lemma parse_step:
  assumes "64 \<le> length data"
  shows "fips_parse data = map (word_at data) [0..<16] # fips_parse (drop 64 data)"
proof -
  have blocks: "length data div 64 = Suc (length (drop 64 data) div 64)"
    using assms by (simp add: le_div_geq)
  have "word_at data (16 * Suc b + i) = word_at (drop 64 data) (16 * b + i)" for b i
    using assms by (simp add: word_at_def algebra_simps)
  then show ?thesis
    unfolding fips_parse_def blocks by (simp add: map_upt_Suc del: upt_Suc)
qed

lemma blocks_word:
  "length data mod 64 = 0 \<Longrightarrow> list_all (\<lambda>b. 0 \<le> b \<and> b < 256) data \<Longrightarrow>
   sha_blocks (regs_of H) data = regs_of (foldl fips_compress H (fips_parse data))"
proof (induction "length data" arbitrary: data H rule: less_induct)
  case less
  show ?case
  proof (cases "data = []")
    case True
    then show ?thesis by (simp add: sha_blocks.simps fips_parse_def)
  next
    case False
    then have len: "64 \<le> length data" using less.prems(1) by (auto dest: dvd_imp_le)
    let ?M = "map (word_at data) [0..<16]"
    have "unpack_be (take 64 data) = map uint ?M"
    proof -
      have "list_all (\<lambda>b. 0 \<le> b \<and> b < 256) (take 64 data)"
        using less.prems(2) by (auto simp: list_all_iff dest: in_set_takeD)
      then have "unpack_be (take 64 data) = map (\<lambda>i. uint (word_at (take 64 data) i)) [0..<16]"
        using len by (intro unpack_words) auto
      then show ?thesis by (simp add: word_at_def)
    qed
    then have step: "sha_block (regs_of H) (take 64 data) = regs_of (fips_compress H ?M)"
      by (rule sha_block_word) simp
    have "length (drop 64 data) mod 64 = 0" using less.prems(1) len by (simp add: le_mod_geq)
    moreover have "list_all (\<lambda>b. 0 \<le> b \<and> b < 256) (drop 64 data)"
      using less.prems(2) by (auto simp: list_all_iff dest: in_set_dropD)
    ultimately have "sha_blocks (regs_of (fips_compress H ?M)) (drop 64 data)
        = regs_of (foldl fips_compress (fips_compress H ?M) (fips_parse (drop 64 data)))"
      using False by (intro less.hyps) auto
    then show ?thesis
      using False by (simp add: sha_blocks.simps [of _ data] step parse_step [OF len])
  qed
qed

text \<open>C11: SHA-256. For every message of bytes, the pure-Python routine returns the digest FIPS 180-4
  defines: the same padding, message schedule, rounds and big-endian output, with all
  arithmetic modulo the word size although the code computes on unbounded integers. The constants are
  those of the standard too: the table and the initial value of the code are not used by the
  specification, which defines them from the roots of the first primes.\<close>

theorem sha256_py_is_fips:
  assumes "list_all (\<lambda>b. 0 \<le> b \<and> b < 256) m"
  shows "sha256_py m = fips_sha256 m"
proof -
  have init: "sha_init = regs_of fips_initial"
    by (simp add: initial_is_fips fips_initial_def)
  have "sha_blocks sha_init (sha_pad m)
      = regs_of (foldl fips_compress fips_initial (fips_parse (fips_pad m)))"
    unfolding init pad_is_fips [symmetric]
    by (rule blocks_word [OF pad_blocks pad_bytes [OF assms]])
  moreover have "concat (map (pack_be 4) (regs_of H)) = working_bytes H" for H
    by (cases H rule: regs_of.cases) (simp add: working_bytes_def)
  ultimately show ?thesis
    by (simp add: sha256_py_def fips_sha256_def)
qed

theorem sha256_py_is_fips_witness: "sha256_py [0x61, 0x62, 0x63] = fips_sha256 [0x61, 0x62, 0x63]"
  by (rule sha256_py_is_fips) simp

end
