(* ===== verification/Host_Image_Props.thy ===== *)
theory Host_Image_Props
  imports Host_Image
begin

text \<open>
  What image verification promises of an image, and the ISA check as a condition on its words.
\<close>

section \<open>What verification promises\<close>

definition image_ok :: "firmware_image \<Rightarrow> bool" where
  "image_ok img \<longleftrightarrow>
     1 \<le> fi_isa_version img
     \<and> 0 \<le> fi_engine img \<and> fi_engine img < int_of (obj_get (fi_architecture img) ''engine_count'')
     \<and> 0 \<le> fi_owned_pins img \<and> fi_owned_pins img \<le> 255
     \<and> 0 \<le> fi_open_drain img \<and> fi_open_drain img \<le> 255
     \<and> fi_open_drain img AND NOT (fi_owned_pins img) = 0
     \<and> fi_words img \<noteq> []
     \<and> int (length (fi_words img)) \<le> int_of (obj_get (fi_architecture img) ''program_words'')
     \<and> list_all (\<lambda>w. 0 \<le> w \<and> w \<le> 0xFFFFFFFF) (fi_words img)"

lemma verify_image_ok:
  assumes "verify_image native data source = Inr v"
  shows "image_ok (image_fields data path v)"
    "py_eq (JStr (bytecode_sha256 native (fi_words (image_fields data path v))))
       (fi_bytecode_sha256 (image_fields data path v))"
    "v \<longleftrightarrow> source \<noteq> None"
    "source = Some bytes \<Longrightarrow> py_eq (JStr (sha256_hex native bytes)) (fi_source_sha256 (image_fields data path v))"
  using assms
  by (auto simp: verify_image_def and_then_Inr_iff image_ok_def image_fields_def Let_def is_mask_def
    is_word_def list_all_iff split: option.splits)

lemma new_image_cases:
  assumes "new_image native json source path arch = Inr img"
  obtains data v where "json = JObj data" "verify_image native data source = Inr v"
    "img = image_fields data path v" "arch = None \<or> check_binding img arch [] = Inr ()"
proof -
  from assms have "\<exists>data v. json = JObj data \<and> verify_image native data source = Inr v
      \<and> img = image_fields data path v \<and> (arch = None \<or> check_binding img arch [] = Inr ())"
    by (cases arch) (auto simp: new_image_def and_then_Inr_iff Let_def split: json.splits option.splits)
  then show ?thesis using that by blast
qed

text \<open>C12: Image verification. Whenever the constructor accepts a JSON value, the image it builds
  has an existing engine, eight-bit pin masks with the open-drain pins among the owned ones, a
  non-empty program of 32-bit words that fits the architecture's store, a digest equal to the
  SHA-256 of the words, and the source digest checked exactly when source bytes were given; with
  a device architecture, no key differs.\<close>

theorem verified_image:
  assumes "new_image native json source path arch = Inr img"
  shows "image_ok img \<and> py_eq (JStr (bytecode_sha256 native (fi_words img))) (fi_bytecode_sha256 img)
    \<and> fi_source_verified img = (source \<noteq> None)
    \<and> (\<forall>bytes. source = Some bytes \<longrightarrow> py_eq (JStr (sha256_hex native bytes)) (fi_source_sha256 img))
    \<and> (\<forall>a. arch = Some a \<longrightarrow> architecture_differences (fi_architecture img) a [] = [])"
proof -
  from assms obtain data v where d: "json = JObj data" "verify_image native data source = Inr v"
    "img = image_fields data path v" "arch = None \<or> check_binding img arch [] = Inr ()"
    by (rule new_image_cases)
  from verify_image_ok(1,2) [OF d(2), of path] verify_image_ok(3) [OF d(2)]
    verify_image_ok(4) [OF d(2), where path = path] d(4) show ?thesis
    unfolding d(3)
    by (auto simp: check_binding_def Let_def image_fields_def split: if_splits)
qed

definition demo_image :: "int list \<Rightarrow> json" where
  "demo_image words = JObj [(''schema_version'', JStr IMAGE_SCHEMA), (''isa_version'', JInt 2),
     (''name'', JStr ''demo''), (''architecture'', JObj (arch_object DESIGN_ARCHITECTURE)),
     (''engine'', JInt 1), (''owned_pins'', JInt 15), (''open_drain'', JInt 1),
     (''source_sha256'', JStr ''''), (''bytecode_sha256'', JStr (bytecode_sha256 None words)),
     (''words'', JList (map JInt words))]"

lemma arch_object_get [simp]:
  "obj_get (arch_object a) ''schema_version'' = JStr (a_schema_version a)"
  "obj_get (arch_object a) ''engine_count'' = JInt (a_engine_count a)"
  "obj_get (arch_object a) ''data_width'' = JInt (a_data_width a)"
  "obj_get (arch_object a) ''program_words'' = JInt (a_program_words a)"
  "obj_get (arch_object a) ''fifo_words'' = JInt (a_fifo_words a)"
  "obj_get (arch_object a) ''issue'' = JStr (a_issue a)"
  "obj_get (arch_object a) ''prefetch'' = JBool (a_prefetch a)"
  by (simp_all add: obj_get_def arch_object_def)

lemma demo_architecture: "check_architecture (JObj (arch_object DESIGN_ARCHITECTURE)) = Inr ()"
proof -
  have "first_missing (arch_object DESIGN_ARCHITECTURE) ARCHITECTURE_KEYS = None"
    by (simp add: obj_has_def arch_object_def ARCHITECTURE_KEYS_def)
  then show ?thesis
    by (simp add: check_architecture_def ARCHITECTURE_SCHEMA_def DESIGN_ARCHITECTURE_def is_int_def int_of_def)
qed

lemma demo_image_accepted:
  "new_image None (demo_image [0x01000000]) None None (Some (arch_object DESIGN_ARCHITECTURE))
   = Inr (image_fields (object_of (demo_image [0x01000000])) None False)"
proof -
  obtain d where d: "d = object_of (demo_image [0x01000000])" by simp
  have g: "obj_get d ''schema_version'' = JStr IMAGE_SCHEMA" "obj_get d ''isa_version'' = JInt 2"
    "obj_get d ''architecture'' = JObj (arch_object DESIGN_ARCHITECTURE)"
    "obj_get d ''engine'' = JInt 1" "obj_get d ''owned_pins'' = JInt 15"
    "obj_get d ''open_drain'' = JInt 1" "obj_get d ''words'' = JList [JInt 0x01000000]"
    "obj_get d ''bytecode_sha256'' = JStr (bytecode_sha256 None [0x01000000])"
    by (simp_all add: d obj_get_def object_of_def demo_image_def)
  have eq: "demo_image [0x01000000] = JObj d" by (simp add: d object_of_def demo_image_def)
  have keys: "first_missing d IMAGE_KEYS = None"
    by (simp add: d obj_has_def object_of_def demo_image_def IMAGE_KEYS_def)
  have arch: "object_of (JObj (arch_object DESIGN_ARCHITECTURE)) = arch_object DESIGN_ARCHITECTURE"
    by (simp add: object_of_def)
  have "a_engine_count DESIGN_ARCHITECTURE = 4" "a_program_words DESIGN_ARCHITECTURE = 64"
    by (simp_all add: DESIGN_ARCHITECTURE_def)
  then have ver: "verify_image None d None = Inr False"
    by (simp add: verify_image_def g demo_architecture arch list_of_def is_int_def
      int_of_def is_mask_def is_word_def raise_if_def)
  have "fi_architecture (image_fields d None False) = arch_object DESIGN_ARCHITECTURE"
    by (simp add: image_fields_def g arch)
  then have "check_binding (image_fields d None False) (Some (arch_object DESIGN_ARCHITECTURE)) [] = Inr ()"
    by (simp add: check_binding_def architecture_differences_def ARCHITECTURE_KEYS_def)
  then show ?thesis
    unfolding d [symmetric] by (simp add: eq new_image_def g raise_if_def Let_def keys ver)
qed

lemma verified_image_witness:
  "image_ok (image_fields (object_of (demo_image [0x01000000])) None False)"
  using verified_image [OF demo_image_accepted] by blast

section \<open>The ISA check\<close>

text \<open>The condition of \<open>docs/isa.md\<close> on one word: shift counts are byte lanes and branch targets
  fit seven bits.\<close>

definition runs_on_isa3 :: "int \<Rightarrow> bool" where
  "runs_on_isa3 w \<longleftrightarrow>
     (shr w 24 = 24 \<or> shr w 24 = 25 \<longrightarrow> (w AND 0xFF) mod 8 = 0)
     \<and> (shr w 24 = 5 \<or> shr w 24 = 11 \<longrightarrow> (w AND 0xFFFFFF) < 128)
     \<and> (shr w 24 = 26 \<longrightarrow> (w AND 0xFFFF) < 128)"

lemma isa3_reason_iff: "isa3_reason w = None \<longleftrightarrow> runs_on_isa3 w"
  by (auto simp: isa3_reason_def runs_on_isa3_def Let_def)

lemma isa3_differences_set:
  "(pc, r) \<in> set (isa3_differences words) \<longleftrightarrow>
     (\<exists>i < length words. pc = int i \<and> isa3_reason (words ! i) = Some r)"
proof -
  have "zip (map int [0..<length words]) words = map (\<lambda>i. (int i, words ! i)) [0..<length words]"
    by (rule nth_equalityI) simp_all
  then show ?thesis
    by (force simp: isa3_differences_def split: option.splits)
qed

lemma isa3_differences_iff: "isa3_differences words = [] \<longleftrightarrow> list_all runs_on_isa3 words"
proof -
  have "isa3_differences words = [] \<longleftrightarrow> (\<forall>pc r. (pc, r) \<notin> set (isa3_differences words))"
    by (metis empty_iff empty_set list.set_intros(1) neq_Nil_conv surj_pair)
  also have "\<dots> \<longleftrightarrow> (\<forall>i < length words. isa3_reason (words ! i) = None)"
    by (auto simp: isa3_differences_set) (metis not_None_eq)
  finally show ?thesis by (simp add: isa3_reason_iff list_all_length)
qed

text \<open>The rule of \<open>docs/isa.md\<close>: the version of a device is in bits 7..0 of its word, the bits
  above are capabilities.\<close>

definition runs_unchanged :: "firmware_image \<Rightarrow> int \<Rightarrow> bool" where
  "runs_unchanged img v \<longleftrightarrow> fi_isa_version img \<le> v AND 0xFF
     \<and> (v AND 0xFF = 3 \<and> fi_isa_version img < 3 \<longrightarrow> list_all runs_on_isa3 (fi_words img))"

text \<open>C13: The ISA check compares the whole device word with the image's version and, when bits 7..0
  of the word say version 3, demands of an older image that it uses no shift count and no branch target
  that version 3 executes differently; it names the first condition that fails, and in the second case
  exactly the words that differ. Against the rule of the documentation, by which only bits 7..0 are a
  version: every image the rule admits is accepted, and the only other images accepted are those newer
  than bits 7..0 but not newer than the whole word. For a word without capability bits the
  check is the rule.\<close>

theorem image_check_isa_iff:
  assumes "0 \<le> v"
  shows "image_check_isa img v =
     (if v < fi_isa_version img then Inl (Needs_isa (fi_name img) (fi_isa_version img) v)
      else if v AND 0xFF = 3 \<and> fi_isa_version img < 3 \<and> \<not> list_all runs_on_isa3 (fi_words img)
      then Inl (Not_isa3 (fi_name img) (isa3_differences (fi_words img)))
      else Inr ())
   \<and> fst ` set (isa3_differences (fi_words img))
        = {pc. 0 \<le> pc \<and> nat pc < length (fi_words img) \<and> \<not> runs_on_isa3 (fi_words img ! nat pc)}
   \<and> (image_check_isa img v = Inr () \<longleftrightarrow>
        runs_unchanged img v \<or> v AND 0xFF < fi_isa_version img \<and> fi_isa_version img \<le> v)
   \<and> (v < 256 \<longrightarrow> image_check_isa img v = Inr () \<longleftrightarrow> runs_unchanged img v)"
proof -
  have code: "image_check_isa img v =
     (if v < fi_isa_version img then Inl (Needs_isa (fi_name img) (fi_isa_version img) v)
      else if v AND 0xFF = 3 \<and> fi_isa_version img < 3 \<and> \<not> list_all runs_on_isa3 (fi_words img)
      then Inl (Not_isa3 (fi_name img) (isa3_differences (fi_words img)))
      else Inr ())"
    by (simp add: image_check_isa_def raise_if_def isa3_differences_iff Let_def)
  have "v AND 0xFF \<le> v" using assms by (rule AND_upper1)
  then have rule: "image_check_isa img v = Inr () \<longleftrightarrow>
      runs_unchanged img v \<or> v AND 0xFF < fi_isa_version img \<and> fi_isa_version img \<le> v"
    unfolding code runs_unchanged_def by auto
  moreover have "v AND 0xFF = v" if "v < 256"
    using assms that by (simp add: and_255_take take_bit_int_eq_self)
  moreover have "fst ` set (isa3_differences (fi_words img))
        = {pc. 0 \<le> pc \<and> nat pc < length (fi_words img) \<and> \<not> runs_on_isa3 (fi_words img ! nat pc)}"
  proof (rule set_eqI)
    fix pc
    have "pc \<in> fst ` set (isa3_differences (fi_words img)) \<longleftrightarrow> (\<exists>r. (pc, r) \<in> set (isa3_differences (fi_words img)))"
      by force
    also have "\<dots> \<longleftrightarrow> (\<exists>i < length (fi_words img). pc = int i \<and> isa3_reason (fi_words img ! i) \<noteq> None)"
      unfolding isa3_differences_set by blast
    also have "\<dots> \<longleftrightarrow> 0 \<le> pc \<and> nat pc < length (fi_words img) \<and> \<not> runs_on_isa3 (fi_words img ! nat pc)"
      by (auto simp: isa3_reason_iff intro: exI [of _ "nat pc"])
    finally show "pc \<in> fst ` set (isa3_differences (fi_words img)) \<longleftrightarrow>
        pc \<in> {pc. 0 \<le> pc \<and> nat pc < length (fi_words img) \<and> \<not> runs_on_isa3 (fi_words img ! nat pc)}" by simp
  qed
  ultimately show ?thesis using code by auto
qed

definition shift_image :: firmware_image where
  "shift_image = (image_fields (object_of (demo_image [0x01000000])) None False)
     \<lparr>fi_isa_version := 2, fi_words := [0x18020003]\<rparr>"

lemma image_check_isa_iff_witness:
  "image_check_isa shift_image 3 = Inl (Not_isa3 (fi_name shift_image) [(0, ''SHL by 3 is not a byte lane'')])
   \<and> image_check_isa (shift_image\<lparr>fi_isa_version := 3\<rparr>) 0xF5F02 = Inr ()
   \<and> \<not> runs_unchanged (shift_image\<lparr>fi_isa_version := 3\<rparr>) 0xF5F02"
proof -
  have d: "isa3_differences (fi_words shift_image) = [(0, ''SHL by 3 is not a byte lane'')]"
    by (simp add: shift_image_def isa3_differences_def isa3_reason_def decimal_def digits.simps digit_def)
  then have "\<not> list_all runs_on_isa3 (fi_words shift_image)" by (simp add: isa3_differences_iff [symmetric])
  moreover have "fi_isa_version shift_image = 2" by (simp add: shift_image_def)
  moreover have "\<not> runs_unchanged (shift_image\<lparr>fi_isa_version := 3\<rparr>) 0xF5F02" by (simp add: runs_unchanged_def)
  ultimately show ?thesis
    using image_check_isa_iff [where v = 3 and img = shift_image]
      image_check_isa_iff [where v = "0xF5F02" and img = "shift_image\<lparr>fi_isa_version := 3\<rparr>"] d
    by simp
qed

end
