(* ===== verification/Host_Load.thy ===== *)
theory Host_Load
  imports Host_Image_Props Host_Claims
begin

text \<open>
  \<open>ProtocolEmulator.load_image\<close>: the checks of a firmware image are what lets \<open>load_program\<close>
  succeed on the device the image is bound to.
\<close>

section \<open>Loading an image\<close>

datatype image_source = Loaded firmware_image | From_path string

definition lift_image :: "image_error + 'a \<Rightarrow> ('p, 'a) host_act" where
  "lift_image r = act_lift (case r of Inl e \<Rightarrow> Inl (ImageError e) | Inr a \<Rightarrow> Inr a)"

lemma lift_image_bind [simp]:
  "act_bind (lift_image (Inr a)) f = f a"
  "act_bind (lift_image (Inl e)) f = act_raise (ImageError e)"
  by (simp_all add: lift_image_def fun_eq_iff)

definition load_image ::
  "'p port_ops \<Rightarrow> (int list \<Rightarrow> int list) option \<Rightarrow> (string \<Rightarrow> json option)
     \<Rightarrow> (string \<Rightarrow> int list option) \<Rightarrow> image_source \<Rightarrow> int option \<Rightarrow> bool \<Rightarrow> bool
     \<Rightarrow> ('p, firmware_image) host_act" where
  "load_image ops native read_json read_bytes source engine check verify =
     act_bind (case source of
         Loaded img \<Rightarrow> act_return img
       | From_path path \<Rightarrow> lift_image (load_image_file native read_json read_bytes path Source_if_present None)) (\<lambda>img.
     act_bind (act_get h_architecture) (\<lambda>arch.
     act_bind (lift_image (check_binding img (Some (arch_object arch)) [])) (\<lambda>_.
     act_bind
       (if check then
          act_bind (isa_version ops) (\<lambda>version.
          act_bind (act_get h_isa_versions) (\<lambda>versions.
          act_bind (act_require (version \<in> set versions) (IsaMismatch version)) (\<lambda>_.
          lift_image (image_check_isa img version))))
        else act_return ()) (\<lambda>_.
     act_bind (load_program ops (case engine of None \<Rightarrow> fi_engine img | Some e \<Rightarrow> e)
       (fi_words img) (fi_owned_pins img) (fi_open_drain img) verify) (\<lambda>_.
     act_return img)))))"

lemma py_eq_JInt: "py_eq v (JInt i) \<Longrightarrow> is_int v \<Longrightarrow> int_of v = i"
  by (cases v) (simp_all add: is_int_def int_of_def)

text \<open>An image bound to the host's architecture has its number of engines and program words.\<close>

lemma bound_image:
  assumes "check_binding img (Some (arch_object arch)) [] = Inr ()"
    "is_int (obj_get (fi_architecture img) ''program_words'')"
    "is_int (obj_get (fi_architecture img) ''engine_count'')"
  shows "int_of (obj_get (fi_architecture img) ''program_words'') = a_program_words arch"
    "int_of (obj_get (fi_architecture img) ''engine_count'') = a_engine_count arch"
  using assms
  by (auto simp: check_binding_def Let_def architecture_differences_def ARCHITECTURE_KEYS_def
    split: if_splits dest: py_eq_JInt)

lemma first_not_positive_None:
  "first_not_positive kvs keys = None \<longleftrightarrow>
     (\<forall>key \<in> set keys. is_int (obj_get kvs key) \<and> 0 < int_of (obj_get kvs key))"
  by (induction keys) auto

lemma checked_architecture:
  assumes "check_architecture v = Inr ()"
  obtains kvs where "v = JObj kvs"
    "\<forall>key \<in> {''engine_count'', ''data_width'', ''program_words'', ''fifo_words''}.
       is_int (obj_get kvs key) \<and> 0 < int_of (obj_get kvs key)"
proof -
  from assms obtain kvs where v: "v = JObj kvs" and
      n: "first_not_positive kvs [''engine_count'', ''data_width'', ''program_words'', ''fifo_words''] = None"
    by (auto simp: check_architecture_def split: json.splits option.splits if_splits)
  from that [OF v] n [unfolded first_not_positive_None] show ?thesis by simp
qed

text \<open>What the loading of a program needs to know of a verified image.\<close>

definition accepted_image :: "firmware_image \<Rightarrow> bool" where
  "accepted_image img \<longleftrightarrow>
     (\<exists>native json source path arch. new_image native json source path arch = Inr img)"

lemma accepted_image_ok:
  assumes "accepted_image img"
  shows "image_ok img" "is_int (obj_get (fi_architecture img) ''program_words'')"
    "is_int (obj_get (fi_architecture img) ''engine_count'')"
proof -
  from assms obtain native json source path arch
    where new: "new_image native json source path arch = Inr img"
    by (auto simp: accepted_image_def)
  then obtain data v where d: "verify_image native data source = Inr v" "img = image_fields data path v"
    by (rule new_image_cases) blast
  show "image_ok img" using verify_image_ok(1) [OF d(1), of path] d(2) by simp
  have "check_architecture (obj_get data ''architecture'') = Inr ()"
    using d(1) by (auto simp: verify_image_def and_then_Inr_iff)
  then obtain kvs where "obj_get data ''architecture'' = JObj kvs" "is_int (obj_get kvs ''program_words'')"
      "is_int (obj_get kvs ''engine_count'')"
    by (rule checked_architecture) auto
  then show "is_int (obj_get (fi_architecture img) ''program_words'')"
    "is_int (obj_get (fi_architecture img) ''engine_count'')"
    by (simp_all add: d(2) image_fields_def object_of_def)
qed

lemma masks_payload:
  "0 \<le> a \<Longrightarrow> a \<le> 255 \<Longrightarrow> 0 \<le> b \<Longrightarrow> b \<le> 255 \<Longrightarrow> own_payload a b = Inr (a OR shl b 8)"
  by (simp add: own_payload_def)

section \<open>The version read\<close>

lemma host_fields_kept:
  "h_timeout (h\<lparr>h_device_isa := v\<rparr>) = h_timeout h" "h_port (h\<lparr>h_device_isa := v\<rparr>) = h_port h"
  by simp_all

lemma isa_version_post:
  fixes h :: "'v model_port host" and env_step :: "'v \<Rightarrow> int \<Rightarrow> int \<Rightarrow> 'v \<times> int \<times> int"
  assumes "config_ok cfg" "model_in_sync cfg h" "no_env h" "2 \<le> h_timeout h"
  shows "act_post (\<lambda>v h'. v = 2 \<and> model_in_sync cfg h' \<and> no_env h' \<and> h_timeout h' = h_timeout h
      \<and> h_architecture h' = h_architecture h \<and> h_strict h' = h_strict h
      \<and> h_isa_versions h' = h_isa_versions h) (\<lambda>_ _. False)
    (isa_version (model_ops cfg env_step) h)"
proof -
  note P = model_contract(2) [OF assms(1), of env_step]
  have sync: "chip_port.in_sync cfg mp_model (steady cfg) h"
    using model_sync_iff(2) [OF assms(1)] assms(2,3) by blast
  have rs: "act_post (chip_port.status_read cfg mp_model (steady cfg) h 7) (\<lambda>_ _. False)
      (read_status (model_ops cfg env_step) 7 None h)"
    by (rule chip_port.read_status_post [OF P sync]) (use assms(4) in simp_all)
  have two: "v = 2 \<and> model_in_sync cfg h1 \<and> no_env h1 \<and> h_timeout h1 = h_timeout h
      \<and> h_architecture h1 = h_architecture h \<and> h_strict h1 = h_strict h
      \<and> h_isa_versions h1 = h_isa_versions h"
    if "chip_port.status_read cfg mp_model (steady cfg) h 7 v h1" for v h1
  proof -
    from that obtain m where d: "chip_port.done_with cfg mp_model (steady cfg) h [(0, shl 8 24 OR 7)] h1"
      and m: "selections m = (h_selected h, 7)" "v = take_bit 32 (status m)"
      by (auto simp: chip_port.status_read_def [OF P])
    have "status m = 2" using m(1) by (simp add: status_def selections_def Let_def)
    then have "v = 2" using m(2) by simp
    then show ?thesis
      using d model_sync_iff(2) [OF assms(1)] by (auto simp: chip_port.done_with_def [OF P])
  qed
  show ?thesis
    unfolding isa_version_def RS_VERSION_def
  proof (rule act_post_seq, rule rs)
    fix v h1 assume "chip_port.status_read cfg mp_model (steady cfg) h 7 v h1"
    from two [OF this]
    show "act_post (\<lambda>v h'. v = 2 \<and> model_in_sync cfg h' \<and> no_env h' \<and> h_timeout h' = h_timeout h
        \<and> h_architecture h' = h_architecture h \<and> h_strict h' = h_strict h
      \<and> h_isa_versions h' = h_isa_versions h) (\<lambda>_ _. False)
      (act_bind (act_mod (\<lambda>h. h\<lparr>h_device_isa := Some v\<rparr>)) (\<lambda>_. act_return v) h1)"
      by (elim conjE) (simp add: model_in_sync_def no_env_def Let_def h_engines_def)
  qed
qed

section \<open>Loading\<close>

definition image_target :: "firmware_image \<Rightarrow> int option \<Rightarrow> int" where
  "image_target img engine = (case engine of None \<Rightarrow> fi_engine img | Some e \<Rightarrow> e)"

text \<open>The outcomes of loading an image.\<close>

definition load_refused ::
  "firmware_image \<Rightarrow> bool \<Rightarrow> 'p host \<Rightarrow> host_error \<Rightarrow> bool" where
  "load_refused img check h e \<longleftrightarrow>
     (\<exists>d. e = ImageError d \<and> check_binding img (Some (arch_object (h_architecture h))) [] = Inl d)
     \<or> (check \<and> e = IsaMismatch 2 \<and> 2 \<notin> set (h_isa_versions h))
     \<or> (check \<and> 2 < fi_isa_version img \<and> e = ImageError (Needs_isa (fi_name img) (fi_isa_version img) 2))
     \<or> (h_strict h \<and> (\<exists>op q. e = CommandRejected op q))"

lemma check_isa_two:
  "image_check_isa img 2 =
     (if 2 < fi_isa_version img then Inl (Needs_isa (fi_name img) (fi_isa_version img) 2) else Inr ())"
  by (simp add: image_check_isa_def raise_if_def)

lemma program_post:
  fixes h :: "'v model_port host" and env_step :: "'v \<Rightarrow> int \<Rightarrow> int \<Rightarrow> 'v \<times> int \<times> int"
  assumes "config_ok cfg" "model_in_sync cfg h" "no_env h" "2 \<le> h_timeout h"
    "a_program_words (h_architecture h) = cfg_program_words cfg"
    "accepted_image img" "check_binding img (Some (arch_object (h_architecture h))) [] = Inr ()"
    "\<forall>e. engine = Some e \<longrightarrow> engine_no cfg e"
  shows "act_post (\<lambda>_ h'. loaded (mp_model (h_port h')) (image_target img engine) (fi_words img)
      \<and> model_in_sync cfg h') (\<lambda>e _. load_refused img check h e)
    (load_program (model_ops cfg env_step) (image_target img engine) (fi_words img)
       (fi_owned_pins img) (fi_open_drain img) verify h)"
proof -
  note P = model_contract(2) [OF assms(1), of env_step]
  note ok = accepted_image_ok [OF assms(6)]
  note bound = bound_image [OF assms(7) ok(2,3)]
  have sync: "chip_port.in_sync cfg mp_model (steady cfg) h"
    using model_sync_iff(2) [OF assms(1)] assms(2,3) by blast
  have engine: "engine_no cfg (image_target img engine)"
  proof (cases engine)
    case None
    then show ?thesis
      using ok(1) bound(2) assms(2)
      by (simp add: image_target_def image_ok_def engine_no_def model_in_sync_def h_engines_def Let_def)
  qed (use assms(8) in \<open>simp add: image_target_def\<close>)
  have "own_payload (fi_owned_pins img) (fi_open_drain img)
      = Inr (fi_owned_pins img OR shl (fi_open_drain img) 8)"
    using ok(1) by (intro masks_payload) (simp_all add: image_ok_def)
  note post = chip_port.load_program_post [OF P sync engine _ _ _ assms(5) this]
  show ?thesis
    by (rule act_post_mono [OF post])
      (use ok(1) assms(4,5) bound(1) model_sync_iff(2) [OF assms(1)] in
        \<open>auto simp: image_ok_def list_all_iff load_refused_def chip_port.refused_def [OF P]\<close>)
qed

text \<open>C10: Loading a firmware image. On a device in step with the library, loading an image that
  verification accepted leaves exactly the image's words committed on the target engine, halted;
  the only other outcomes are an architecture that differs in some key, a device version the
  library does not accept, an image newer than the device, and, for a strict library, a rejected
  command. The length, mask and engine checks of the loader never fail.\<close>

theorem load_image_loads:
  fixes h :: "'v model_port host" and env_step :: "'v \<Rightarrow> int \<Rightarrow> int \<Rightarrow> 'v \<times> int \<times> int"
  assumes "config_ok cfg" "model_in_sync cfg h" "no_env h" "2 \<le> h_timeout h"
    "a_program_words (h_architecture h) = cfg_program_words cfg" "accepted_image img"
    "\<forall>e. engine = Some e \<longrightarrow> engine_no cfg e"
    "load_image (model_ops cfg env_step) native read_json read_bytes (Loaded img) engine check verify h = (res, h')"
  shows "case res of
      Inr img' \<Rightarrow> img' = img \<and> loaded (mp_model (h_port h')) (image_target img engine) (fi_words img)
        \<and> model_in_sync cfg h'
    | Inl e \<Rightarrow> load_refused img check h e"
proof -
  let ?ops = "model_ops cfg env_step"
  let ?Q = "\<lambda>img' h'. img' = img \<and> loaded (mp_model (h_port h')) (image_target img engine) (fi_words img)
        \<and> model_in_sync cfg h'"
  let ?E = "\<lambda>e h'. load_refused img check h e"
  let ?load = "act_bind (load_program ?ops (image_target img engine) (fi_words img)
       (fi_owned_pins img) (fi_open_drain img) verify) (\<lambda>_. act_return img)"
  let ?step = "if check then
          act_bind (isa_version ?ops) (\<lambda>version.
          act_bind (act_get h_isa_versions) (\<lambda>versions.
          act_bind (act_require (version \<in> set versions) (IsaMismatch version)) (\<lambda>_.
          lift_image (image_check_isa img version))))
        else act_return ()"
  have eq: "load_image ?ops native read_json read_bytes (Loaded img) engine check verify h =
      act_bind (lift_image (check_binding img (Some (arch_object (h_architecture h))) []))
        (\<lambda>_. act_bind ?step (\<lambda>_. ?load)) h"
    by (simp add: load_image_def image_target_def)
  have load: "act_post ?Q ?E (?load h1)"
    if "model_in_sync cfg h1" "no_env h1" "h_timeout h1 = h_timeout h"
      "h_architecture h1 = h_architecture h" "h_strict h1 = h_strict h"
      "h_isa_versions h1 = h_isa_versions h" "check_binding img (Some (arch_object (h_architecture h))) [] = Inr ()" for h1
  proof (rule act_post_seq)
    show "act_post (\<lambda>_ h'. loaded (mp_model (h_port h')) (image_target img engine) (fi_words img)
      \<and> model_in_sync cfg h') ?E (load_program ?ops (image_target img engine) (fi_words img)
       (fi_owned_pins img) (fi_open_drain img) verify h1)"
      using program_post [OF assms(1) that(1,2) _ _ assms(6) _ assms(7), where env_step = env_step and check = check
          and verify = verify]
        that assms(4,5) by (simp add: load_refused_def)
  qed simp
  have "act_post ?Q ?E (load_image ?ops native read_json read_bytes (Loaded img) engine check verify h)"
    unfolding eq
  proof (cases "check_binding img (Some (arch_object (h_architecture h))) []")
    case (Inl e)
    then show "act_post ?Q ?E (act_bind (lift_image (check_binding img (Some (arch_object (h_architecture h))) []))
        (\<lambda>_. act_bind ?step (\<lambda>_. ?load)) h)"
      by (simp add: load_refused_def)
  next
    case (Inr u)
    have "act_post ?Q ?E (act_bind ?step (\<lambda>_. ?load) h)"
    proof (cases check)
      case False
      then show ?thesis using load [OF assms(2,3)] Inr by simp
    next
      case True
      have seq: "act_bind ?step (\<lambda>_. ?load) =
          act_bind (isa_version ?ops) (\<lambda>version.
          act_bind (act_get h_isa_versions) (\<lambda>versions.
          act_bind (act_require (version \<in> set versions) (IsaMismatch version)) (\<lambda>_.
          act_bind (lift_image (image_check_isa img version)) (\<lambda>_. ?load))))"
        using True by (simp add: act_bind_assoc)
      show ?thesis
        unfolding seq
      proof (rule act_post_seq, rule act_post_mono [OF isa_version_post [OF assms(1-4)]], assumption, blast)
        fix v :: int and h1 :: "'v model_port host" assume "v = 2 \<and> model_in_sync cfg h1 \<and> no_env h1 \<and> h_timeout h1 = h_timeout h
          \<and> h_architecture h1 = h_architecture h \<and> h_strict h1 = h_strict h
          \<and> h_isa_versions h1 = h_isa_versions h"
        then have v: "v = 2" and h1: "model_in_sync cfg h1" "no_env h1" "h_timeout h1 = h_timeout h"
          "h_architecture h1 = h_architecture h" "h_strict h1 = h_strict h"
          "h_isa_versions h1 = h_isa_versions h" by simp_all
        show "act_post ?Q ?E (act_bind (act_get h_isa_versions) (\<lambda>versions.
          act_bind (act_require (v \<in> set versions) (IsaMismatch v)) (\<lambda>_.
          act_bind (lift_image (image_check_isa img v)) (\<lambda>_. ?load))) h1)"
          using load [OF h1] Inr True h1(6)
          by (cases "2 < fi_isa_version img"; cases "2 \<in> set (h_isa_versions h)") (simp_all add: v check_isa_two load_refused_def)
      qed
    qed
    then show "act_post ?Q ?E (act_bind (lift_image (check_binding img (Some (arch_object (h_architecture h))) []))
        (\<lambda>_. act_bind ?step (\<lambda>_. ?load)) h)"
      unfolding Inr by simp
  qed
  then show ?thesis unfolding assms(8) by (cases res) simp_all
qed

lemma load_image_loads_witness:
  "\<exists>h'. load_image (model_ops default_config demo_env) None (\<lambda>_. None) (\<lambda>_. None)
       (Loaded (image_fields (object_of (demo_image [0x01000000])) None False)) None True True lax_host
     = (Inr (image_fields (object_of (demo_image [0x01000000])) None False), h')
     \<and> loaded (mp_model (h_port h')) 1 [0x01000000]"
proof -
  let ?img = "image_fields (object_of (demo_image [0x01000000])) None False"
  let ?run = "load_image (model_ops default_config demo_env) None (\<lambda>_. None) (\<lambda>_. None)
       (Loaded ?img) None True True lax_host"
  obtain res h' where r: "?run = (res, h')" by (cases ?run)
  have acc: "accepted_image ?img" unfolding accepted_image_def using demo_image_accepted by blast
  have img: "fi_words ?img = [0x01000000]" "fi_engine ?img = 1" "fi_isa_version ?img = 2"
    "fi_architecture ?img = arch_object DESIGN_ARCHITECTURE"
    by (simp_all add: image_fields_def object_of_def demo_image_def obj_get_def int_of_def list_of_def)
  have run: "case res of
      Inr img' \<Rightarrow> img' = ?img \<and> loaded (mp_model (h_port h')) (image_target ?img None) (fi_words ?img)
        \<and> model_in_sync default_config h'
    | Inl e \<Rightarrow> load_refused ?img True lax_host e"
    by (rule load_image_loads [OF default_config_ok lax_in_sync(1,2) _ _ acc _ r])
      (simp_all add: lax_in_sync default_config_def DESIGN_ARCHITECTURE_def)
  have "check_binding ?img (Some (arch_object DESIGN_ARCHITECTURE)) [] = Inr ()"
    by (simp add: check_binding_def img architecture_differences_def ARCHITECTURE_KEYS_def)
  moreover have "h_isa_versions lax_host = [2]"
    by (simp add: lax_host_def demo_host_def new_host_def)
  ultimately have "\<not> load_refused ?img True lax_host e" for e
    by (simp add: load_refused_def lax_in_sync img)
  with run have "res = Inr ?img \<and> loaded (mp_model (h_port h')) 1 [0x01000000]"
    by (cases res) (simp_all add: img image_target_def)
  then show ?thesis using r by blast
qed

end
