(* ===== verification/Host_Peers.thy ===== *)
theory Host_Peers
  imports Prelude
begin

text \<open>
  Software peers on the pads: \<open>host/pe_host/peers.py\<close>. Every peer is a record with a step that
  takes the cycle and the pad levels left by the previous edge and returns the pins it drives and
  their levels. \<open>Environment\<close> combines peers as a wired AND. \<open>SpiTarget\<close> needs a non-empty list
  of responses and \<open>I2CTarget\<close> of read bytes (Python raises \<open>ZeroDivisionError\<close> otherwise).
\<close>

section \<open>UART\<close>

record uart_source =
  us_pin :: int
  us_words :: "int list"
  us_bit_cycles :: int
  us_gap :: int
  us_start :: "int option"
  us_bad_stop :: "int list"

definition us_frame_cycles :: "uart_source \<Rightarrow> int" where
  "us_frame_cycles u = 10 * us_bit_cycles u + us_gap u"

definition us_end :: "uart_source \<Rightarrow> int option" where
  "us_end u = (case us_start u of None \<Rightarrow> None
     | Some s \<Rightarrow> Some (s + int (length (us_words u)) * us_frame_cycles u))"

definition us_level :: "uart_source \<Rightarrow> int \<Rightarrow> int" where
  "us_level u cycle = (case us_start u of
     None \<Rightarrow> 1
   | Some s \<Rightarrow>
       if cycle < s then 1
       else
         let frame = (cycle - s) div us_frame_cycles u;
             offset = (cycle - s) mod us_frame_cycles u;
             index = offset div us_bit_cycles u
         in if frame \<ge> int (length (us_words u)) then 1
            else if index = 0 then 0
            else if index \<le> 8 then bit_at (us_words u ! nat frame) (index - 1)
            else if index = 9 \<and> frame \<in> set (us_bad_stop u) then 0 else 1)"

definition us_step :: "uart_source \<Rightarrow> int \<Rightarrow> int \<Rightarrow> uart_source \<times> int \<times> int" where
  "us_step u cycle pads = (u, shl 1 (us_pin u), shl (us_level u cycle) (us_pin u))"

record uart_monitor =
  um_pin :: int
  um_bit_cycles :: int
  um_words :: "int list"
  um_errors :: "string list"
  um_previous :: int
  um_start :: "int option"
  um_bits :: "int list"

definition new_monitor :: "int \<Rightarrow> int \<Rightarrow> uart_monitor" where
  "new_monitor pin bit_cycles = \<lparr>um_pin = pin, um_bit_cycles = bit_cycles, um_words = [],
     um_errors = [], um_previous = 1, um_start = None, um_bits = []\<rparr>"

definition framing_error :: "int \<Rightarrow> string" where
  "framing_error start = ''framing error in frame starting at cycle '' @ decimal start"

definition frame_word :: "int list \<Rightarrow> int" where
  "frame_word bits = foldl (\<lambda>word i. word OR shl (bits ! nat (1 + i)) i) 0 (py_range 8)"

text \<open>The end of a frame: ten sampled bits.\<close>

definition um_frame :: "uart_monitor \<Rightarrow> int \<Rightarrow> uart_monitor" where
  "um_frame m start =
     m\<lparr>um_errors := (if um_bits m ! 0 \<noteq> 0 \<or> um_bits m ! 9 \<noteq> 1
                    then um_errors m @ [framing_error start] else um_errors m),
       um_words := um_words m @ [frame_word (um_bits m)],
       um_start := None\<rparr>"

definition um_sample :: "uart_monitor \<Rightarrow> int \<Rightarrow> int \<Rightarrow> uart_monitor" where
  "um_sample m cycle level =
     (let m1 = (case um_start m of
          None \<Rightarrow>
            if um_previous m \<noteq> 0 \<and> level = 0 then m\<lparr>um_start := Some cycle, um_bits := []\<rparr> else m
        | Some start \<Rightarrow>
            if (cycle - start) mod um_bit_cycles m = um_bit_cycles m div 2
            then let m' = m\<lparr>um_bits := um_bits m @ [level]\<rparr>
                 in if length (um_bits m') = 10 then um_frame m' start else m'
            else m)
      in m1\<lparr>um_previous := level\<rparr>)"

definition um_step :: "uart_monitor \<Rightarrow> int \<Rightarrow> int \<Rightarrow> uart_monitor \<times> int \<times> int" where
  "um_step m cycle pads = (um_sample m cycle (bit_at pads (um_pin m)), 0, 0)"

section \<open>SPI target\<close>

record spi_target =
  sp_mode :: int
  sp_responses :: "int list"
  sp_sck :: int
  sp_mosi :: int
  sp_miso :: int
  sp_cs :: int
  sp_received :: "int list"
  sp_violations :: "string list"
  sp_previous_sck :: "int option"
  sp_previous_cs :: int
  sp_shift_in :: int
  sp_bits_in :: int
  sp_out :: int
  sp_miso_level :: int
  sp_index :: int

definition new_spi :: "int \<Rightarrow> int list \<Rightarrow> int \<Rightarrow> int \<Rightarrow> int \<Rightarrow> int \<Rightarrow> spi_target" where
  "new_spi mode responses sck mosi miso cs =
     \<lparr>sp_mode = mode, sp_responses = responses, sp_sck = sck, sp_mosi = mosi, sp_miso = miso,
      sp_cs = cs, sp_received = [], sp_violations = [], sp_previous_sck = None,
      sp_previous_cs = 1, sp_shift_in = 0, sp_bits_in = 0, sp_out = 0, sp_miso_level = 1,
      sp_index = 0\<rparr>"

text \<open>CS falls: the response to shift out is loaded.\<close>

definition spi_select :: "spi_target \<Rightarrow> int \<Rightarrow> spi_target" where
  "spi_select t sck =
     (let cpol = bit_at (sp_mode t) 1; cpha = sp_mode t AND 1;
          out = sp_responses t ! nat (sp_index t mod int (length (sp_responses t))) AND 0xFF;
          t1 = t\<lparr>sp_out := out, sp_index := sp_index t + 1, sp_shift_in := 0, sp_bits_in := 0\<rparr>;
          t2 = (if sck \<noteq> cpol then t1\<lparr>sp_violations := sp_violations t1 @ [''SCK not idle at CS assertion'']\<rparr>
                else t1)
      in if cpha = 0 then t2\<lparr>sp_miso_level := bit_at out 7\<rparr> else t2)"

definition spi_release :: "spi_target \<Rightarrow> spi_target" where
  "spi_release t =
     (if sp_bits_in t mod 8 \<noteq> 0
      then t\<lparr>sp_violations := sp_violations t @ [''CS released after '' @ decimal (sp_bits_in t) @ '' bits'']\<rparr>
      else t)"

text \<open>A clock edge while selected: sample MOSI or change MISO.\<close>

definition spi_edge :: "spi_target \<Rightarrow> int \<Rightarrow> int \<Rightarrow> spi_target" where
  "spi_edge t sck mosi =
     (let cpol = bit_at (sp_mode t) 1; cpha = sp_mode t AND 1; leading = (sck \<noteq> cpol) in
      if leading \<noteq> (cpha \<noteq> 0)
      then (let s = (shl (sp_shift_in t) 1 OR mosi) AND 0xFF;
                t1 = t\<lparr>sp_shift_in := s, sp_bits_in := sp_bits_in t + 1\<rparr>
            in if sp_bits_in t1 mod 8 = 0 then t1\<lparr>sp_received := sp_received t1 @ [s]\<rparr> else t1)
      else if cpha \<noteq> 0
      then t\<lparr>sp_miso_level := bit_at (sp_out t) 7, sp_out := shl (sp_out t) 1 AND 0xFF\<rparr>
      else (let out = shl (sp_out t) 1 AND 0xFF
            in t\<lparr>sp_out := out, sp_miso_level := bit_at out 7\<rparr>))"

definition spi_update :: "spi_target \<Rightarrow> int \<Rightarrow> spi_target" where
  "spi_update t pads =
     (let cs = bit_at pads (sp_cs t); sck = bit_at pads (sp_sck t); mosi = bit_at pads (sp_mosi t);
          t1 = (if sp_previous_cs t \<noteq> 0 \<and> cs = 0 then spi_select t sck
                else if sp_previous_cs t = 0 \<and> cs \<noteq> 0 then spi_release t
                else if cs = 0 \<and> sp_previous_sck t \<noteq> None \<and> Some sck \<noteq> sp_previous_sck t
                then spi_edge t sck mosi
                else t)
      in t1\<lparr>sp_previous_cs := cs, sp_previous_sck := Some sck\<rparr>)"

definition spi_step :: "spi_target \<Rightarrow> int \<Rightarrow> int \<Rightarrow> spi_target \<times> int \<times> int" where
  "spi_step t cycle pads =
     (let t' = spi_update t pads in (t', shl 1 (sp_miso t), shl (sp_miso_level t') (sp_miso t)))"

section \<open>I2C target\<close>

datatype i2c_state = I2c_idle | I2c_address | I2c_write | I2c_ack | I2c_ignore | I2c_read
  | I2c_master_ack | I2c_wait_stop

record i2c_target =
  ic_address :: int
  ic_scl_pin :: int
  ic_sda_pin :: int
  ic_read_bytes :: "int list"
  ic_stretch_cycles :: int
  ic_nack_bytes :: "int list"
  ic_received :: "int list"
  ic_master_acks :: "bool list"
  ic_starts :: int
  ic_stops :: int
  ic_repeated_starts :: int
  ic_violations :: "string list"
  ic_state :: i2c_state
  ic_scl :: "int option"
  ic_sda :: int
  ic_bits :: int
  ic_byte :: int
  ic_sda_low :: bool
  ic_stretch :: int
  ic_reading :: bool
  ic_read_index :: int
  ic_tx :: int
  ic_ack_pending :: bool
  ic_in_transaction :: bool
  ic_byte_index :: int

definition new_i2c :: "int \<Rightarrow> int \<Rightarrow> int \<Rightarrow> int list \<Rightarrow> int \<Rightarrow> int list \<Rightarrow> i2c_target" where
  "new_i2c address scl sda read_bytes stretch nacks =
     \<lparr>ic_address = address, ic_scl_pin = scl, ic_sda_pin = sda, ic_read_bytes = read_bytes,
      ic_stretch_cycles = stretch, ic_nack_bytes = nacks, ic_received = [], ic_master_acks = [],
      ic_starts = 0, ic_stops = 0, ic_repeated_starts = 0, ic_violations = [], ic_state = I2c_idle,
      ic_scl = None, ic_sda = 1, ic_bits = 0, ic_byte = 0, ic_sda_low = False, ic_stretch = 0,
      ic_reading = False, ic_read_index = 0, ic_tx = 0, ic_ack_pending = False,
      ic_in_transaction = False, ic_byte_index = 0\<rparr>"

definition i2c_begin_byte :: "i2c_target \<Rightarrow> i2c_target" where
  "i2c_begin_byte t = t\<lparr>ic_bits := 0, ic_byte := 0\<rparr>"

definition i2c_start :: "i2c_target \<Rightarrow> i2c_target" where
  "i2c_start t =
     i2c_begin_byte (t\<lparr>
       ic_repeated_starts := (if ic_in_transaction t then ic_repeated_starts t + 1 else ic_repeated_starts t),
       ic_starts := ic_starts t + 1, ic_in_transaction := True, ic_state := I2c_address,
       ic_byte_index := 0, ic_sda_low := False\<rparr>)"

definition i2c_stop :: "i2c_target \<Rightarrow> int \<Rightarrow> i2c_target" where
  "i2c_stop t cycle =
     t\<lparr>ic_violations := (if ic_state t \<in> {I2c_address, I2c_write} \<and> ic_bits t \<notin> {0, 1}
          then ic_violations t @ [''STOP inside a byte at cycle '' @ decimal cycle]
          else ic_violations t),
       ic_stops := ic_stops t + 1, ic_in_transaction := False, ic_state := I2c_idle,
       ic_sda_low := False\<rparr>"

text \<open>A rising SCL edge samples SDA.\<close>

definition i2c_rise :: "i2c_target \<Rightarrow> int \<Rightarrow> i2c_target" where
  "i2c_rise t sda =
     (if ic_state t \<in> {I2c_address, I2c_write}
      then t\<lparr>ic_byte := (shl (ic_byte t) 1 OR sda) AND 0xFF, ic_bits := ic_bits t + 1\<rparr>
      else if ic_state t = I2c_read then t\<lparr>ic_bits := ic_bits t + 1\<rparr>
      else if ic_state t = I2c_master_ack
      then t\<lparr>ic_master_acks := ic_master_acks t @ [sda = 0], ic_ack_pending := (sda = 0)\<rparr>
      else t)"

text \<open>The next byte to send, at the read index.\<close>

definition i2c_next_tx :: "i2c_target \<Rightarrow> int" where
  "i2c_next_tx t =
     ic_read_bytes t ! nat (ic_read_index t mod int (length (ic_read_bytes t))) AND 0xFF"

definition i2c_serve :: "i2c_target \<Rightarrow> i2c_target" where
  "i2c_serve t = (let tx = i2c_next_tx t in
     t\<lparr>ic_state := I2c_read, ic_tx := tx, ic_bits := 0, ic_sda_low := (bit_at tx 7 = 0)\<rparr>)"

text \<open>A byte has arrived: acknowledge it or not.\<close>

definition i2c_byte_done :: "i2c_target \<Rightarrow> i2c_target" where
  "i2c_byte_done t =
     (let byte = ic_byte t;
          ack0 = (ic_byte_index t \<notin> set (ic_nack_bytes t));
          addressed = (ic_state t = I2c_address);
          ack = (ack0 \<and> (addressed \<longrightarrow> shr byte 1 = ic_address t));
          t1 = t\<lparr>ic_received := ic_received t @ [byte],
                 ic_reading := (if addressed then byte AND 1 \<noteq> 0 else ic_reading t),
                 ic_byte_index := ic_byte_index t + 1\<rparr>
      in if ack then t1\<lparr>ic_sda_low := True, ic_state := I2c_ack\<rparr>
         else t1\<lparr>ic_sda_low := False, ic_state := I2c_ignore\<rparr>)"

text \<open>A falling SCL edge is the only place where the target changes its own drive of SDA low.\<close>

definition i2c_fall :: "i2c_target \<Rightarrow> i2c_target" where
  "i2c_fall t0 =
     (let t = (if ic_stretch_cycles t0 \<noteq> 0 then t0\<lparr>ic_stretch := ic_stretch_cycles t0\<rparr> else t0);
          s = ic_state t in
      if s \<in> {I2c_address, I2c_write} \<and> ic_bits t = 8 then i2c_byte_done t
      else if s = I2c_ack then
        (if ic_reading t then i2c_serve t
         else i2c_begin_byte (t\<lparr>ic_state := I2c_write, ic_sda_low := False\<rparr>))
      else if s = I2c_read then
        (if ic_bits t < 8 then t\<lparr>ic_sda_low := (bit_at (ic_tx t) (7 - ic_bits t) = 0)\<rparr>
         else t\<lparr>ic_sda_low := False, ic_state := I2c_master_ack\<rparr>)
      else if s = I2c_master_ack then
        (if ic_ack_pending t then i2c_serve (t\<lparr>ic_read_index := ic_read_index t + 1\<rparr>)
         else t\<lparr>ic_read_index := ic_read_index t + 1, ic_state := I2c_wait_stop, ic_sda_low := False\<rparr>)
      else t)"

definition i2c_observe :: "i2c_target \<Rightarrow> int \<Rightarrow> int \<Rightarrow> int \<Rightarrow> int \<Rightarrow> i2c_target" where
  "i2c_observe t pscl scl sda cycle =
     (if pscl \<noteq> 0 \<and> scl \<noteq> 0 \<and> ic_sda t \<noteq> sda then (if sda = 0 then i2c_start t else i2c_stop t cycle)
      else if pscl = 0 \<and> scl \<noteq> 0 then i2c_rise t sda
      else if pscl \<noteq> 0 \<and> scl = 0 then i2c_fall t
      else t)"

definition i2c_step :: "i2c_target \<Rightarrow> int \<Rightarrow> int \<Rightarrow> i2c_target \<times> int \<times> int" where
  "i2c_step t cycle pads =
     (let scl = bit_at pads (ic_scl_pin t); sda = bit_at pads (ic_sda_pin t) in
      case ic_scl t of
        None \<Rightarrow> (t\<lparr>ic_scl := Some scl, ic_sda := sda\<rparr>, 0, 0)
      | Some pscl \<Rightarrow>
          let t1 = (i2c_observe t pscl scl sda cycle)\<lparr>ic_scl := Some scl, ic_sda := sda\<rparr>;
              en1 = (if ic_sda_low t1 then shl 1 (ic_sda_pin t) else 0)
          in if ic_stretch t1 \<noteq> 0
             then (t1\<lparr>ic_stretch := ic_stretch t1 - 1\<rparr>, en1 OR shl 1 (ic_scl_pin t), 0)
             else (t1, en1, 0))"

section \<open>Pad capture\<close>

record pad_capture =
  pc_first :: "int option"
  pc_start :: int
  pc_limit :: int
  pc_samples :: "int list"

definition pc_step :: "pad_capture \<Rightarrow> int \<Rightarrow> int \<Rightarrow> pad_capture \<times> int \<times> int" where
  "pc_step c cycle pads =
     (if cycle \<ge> pc_start c \<and> int (length (pc_samples c)) < pc_limit c
      then (c\<lparr>pc_first := (if pc_first c = None then Some cycle else pc_first c),
              pc_samples := pc_samples c @ [pads AND 0xFF]\<rparr>, 0, 0)
      else (c, 0, 0))"

section \<open>The environment\<close>

datatype peer =
    Passive
  | Uart_source uart_source
  | Uart_monitor uart_monitor
  | Spi_target spi_target
  | I2c_target i2c_target
  | Pad_capture pad_capture

fun peer_step :: "peer \<Rightarrow> int \<Rightarrow> int \<Rightarrow> peer \<times> int \<times> int" where
  "peer_step Passive cycle pads = (Passive, 0, 0)"
| "peer_step (Uart_source u) cycle pads = map_prod Uart_source id (us_step u cycle pads)"
| "peer_step (Uart_monitor m) cycle pads = map_prod Uart_monitor id (um_step m cycle pads)"
| "peer_step (Spi_target t) cycle pads = map_prod Spi_target id (spi_step t cycle pads)"
| "peer_step (I2c_target t) cycle pads = map_prod I2c_target id (i2c_step t cycle pads)"
| "peer_step (Pad_capture c) cycle pads = map_prod Pad_capture id (pc_step c cycle pads)"

fun peer_mask :: "peer \<Rightarrow> int" where
  "peer_mask (Uart_source u) = shl 1 (us_pin u)"
| "peer_mask (Spi_target t) = shl 1 (sp_miso t)"
| "peer_mask (I2c_target t) = shl 1 (ic_scl_pin t) OR shl 1 (ic_sda_pin t)"
| "peer_mask _ = 0"

record environment =
  en_peers :: "peer list"
  en_pullups :: int
  en_mask :: int

definition new_environment :: "peer list \<Rightarrow> int \<Rightarrow> environment" where
  "new_environment peers pullups =
     \<lparr>en_peers = peers, en_pullups = pullups, en_mask = foldl (\<lambda>m p. m OR peer_mask p) 0 peers\<rparr>"

fun env_drives :: "peer list \<Rightarrow> int \<Rightarrow> int \<Rightarrow> int \<Rightarrow> int \<Rightarrow> peer list \<times> int \<times> int" where
  "env_drives [] cycle pads en val = ([], en, val)"
| "env_drives (p # ps) cycle pads en val =
     (case peer_step p cycle pads of (p', e, v) \<Rightarrow>
      case (if e \<noteq> 0
            then env_drives ps cycle pads (en OR e) (val AND (v OR (NOT e AND 0xFF)))
            else env_drives ps cycle pads en val) of
        (ps', en', val') \<Rightarrow> (p' # ps', en', val'))"

definition environment_step :: "environment \<Rightarrow> int \<Rightarrow> int \<Rightarrow> environment \<times> int \<times> int" where
  "environment_step env cycle pads =
     (case env_drives (en_peers env) cycle pads 0 0xFF of
        (peers, en, val) \<Rightarrow> (env\<lparr>en_peers := peers\<rparr>, en, val AND en))"

end
