(* ===== verification/Host_Peers_Props.thy ===== *)
theory Host_Peers_Props
  imports Host_Peers
begin

text \<open>
  The peers keep their promises: what a UART monitor hears of a source, the wired AND of an
  environment, and an I2C target that only ever pulls its two lines low.
\<close>

section \<open>Listening to a line\<close>

primrec hear :: "(int \<Rightarrow> int) \<Rightarrow> int \<Rightarrow> nat \<Rightarrow> uart_monitor \<Rightarrow> uart_monitor" where
  "hear level c 0 m = m"
| "hear level c (Suc n) m = um_sample (hear level c n m) (c + int n) (level (c + int n))"

lemma hear_add: "hear level c (n + k) m = hear level (c + int n) k (hear level c n m)"
  by (induction k) (simp_all add: algebra_simps)

lemma divmod_step:
  assumes "0 < (B::int)"
  shows "(o' + 1) mod B = (if o' mod B + 1 = B then 0 else o' mod B + 1)"
    "(o' + 1) div B = (if o' mod B + 1 = B then o' div B + 1 else o' div B)"
proof -
  have o: "o' = B * (o' div B) + o' mod B" by simp
  have b: "0 \<le> o' mod B" "o' mod B < B" using assms by simp_all
  show "(o' + 1) mod B = (if o' mod B + 1 = B then 0 else o' mod B + 1)"
  proof (cases "o' mod B + 1 = B")
    case True
    then have "o' + 1 = B * (o' div B + 1) + 0" using o by (simp only: distrib_left, linarith?)
    then show ?thesis using True assms by (simp add: int_mod_pos_eq)
  next
    case False
    then have "o' + 1 = B * (o' div B) + (o' mod B + 1)" using o by simp
    then have "(o' + 1) mod B = o' mod B + 1"
      by (rule int_mod_pos_eq) (use False b in auto)
    then show ?thesis using False by simp
  qed
  show "(o' + 1) div B = (if o' mod B + 1 = B then o' div B + 1 else o' div B)"
  proof (cases "o' mod B + 1 = B")
    case True
    then have "o' + 1 = B * (o' div B + 1) + 0" using o by (simp only: distrib_left, linarith?)
    then show ?thesis using True assms by (intro trans [OF int_div_pos_eq]) auto
  next
    case False
    then have "o' + 1 = B * (o' div B) + (o' mod B + 1)" using o by simp
    then have "(o' + 1) div B = o' div B"
      by (rule int_div_pos_eq) (use False b in auto)
    then show ?thesis using False by simp
  qed
qed

text \<open>The bit a source sends in slot \<open>i\<close> of frame \<open>f\<close>.\<close>

definition slot_bit :: "uart_source \<Rightarrow> nat \<Rightarrow> int \<Rightarrow> int" where
  "slot_bit u f i = (if i = 0 then 0 else if i \<le> 8 then bit_at (us_words u ! f) (i - 1)
     else if i = 9 \<and> int f \<in> set (us_bad_stop u) then 0 else 1)"

lemma slot_bit_01: "slot_bit u f i = 0 \<or> slot_bit u f i = 1"
  by (simp add: slot_bit_def bit_at_of_bool)

lemma level_in_frame:
  assumes "us_start u = Some s" "f < length (us_words u)" "0 \<le> p" "p < us_frame_cycles u"
  shows "us_level u (s + int f * us_frame_cycles u + p) = slot_bit u f (p div us_bit_cycles u)"
proof -
  let ?F = "us_frame_cycles u"
  have "(s + int f * ?F + p - s) div ?F = int f" "(s + int f * ?F + p - s) mod ?F = p"
    using assms(3,4) by (auto simp: algebra_simps intro!: int_div_pos_eq int_mod_pos_eq)
  moreover have "0 \<le> int f * ?F" using assms(3,4) by simp
  then have "\<not> s + int f * ?F + p < s" using assms(3) by linarith
  ultimately show ?thesis
    using assms(1,2) by (simp add: us_level_def slot_bit_def)
qed

lemma level_before: "us_start u = Some s \<Longrightarrow> c < s \<Longrightarrow> us_level u c = 1"
  by (simp add: us_level_def)

lemma collect_bits:
  "foldl (\<lambda>word i. word OR shl (bit_at w i) i) 0 (map int [0..<k]) = take_bit k w"
proof (induction k)
  case (Suc k)
  have "take_bit (Suc k) w = take_bit k w OR push_bit k (of_bool (bit w k))"
    by (rule bit_eqI) (auto simp: bit_simps less_Suc_eq)
  then show ?case using Suc by (simp add: bit_at_of_bool)
qed simp

lemma frame_word_bits:
  assumes "bits = map (slot_bit u f) (map int [0..<10])"
  shows "frame_word bits = us_words u ! f AND 0xFF"
proof -
  have "bits ! nat (1 + i) = bit_at (us_words u ! f) i" if "i \<in> set (py_range 8)" for i
  proof -
    have "nat (1 + i) < 10" "0 \<le> i" using that by auto
    then show ?thesis using that by (simp add: assms slot_bit_def del: upt_Suc)
  qed
  then have "frame_word bits = foldl (\<lambda>word i. word OR shl (bit_at (us_words u ! f) i) i) 0 (py_range 8)"
    unfolding frame_word_def by (intro foldl_cong) simp_all
  then show ?thesis by (simp add: py_range_def collect_bits and_255_take)
qed

section \<open>One frame\<close>

text \<open>Samples taken up to offset \<open>p\<close> of a frame.\<close>

definition taken :: "int \<Rightarrow> int \<Rightarrow> int" where
  "taken B p = p div B + of_bool (B div 2 \<le> p mod B)"

definition in_frame :: "uart_source \<Rightarrow> nat \<Rightarrow> int \<Rightarrow> uart_monitor \<Rightarrow> int \<Rightarrow> uart_monitor \<Rightarrow> bool" where
  "in_frame u f c m p m' \<longleftrightarrow>
     um_pin m' = um_pin m \<and> um_bit_cycles m' = um_bit_cycles m
     \<and> um_previous m' = slot_bit u f (p div us_bit_cycles u)
     \<and> (if taken (us_bit_cycles u) p \<le> 9
        then um_start m' = Some c \<and> um_words m' = um_words m \<and> um_errors m' = um_errors m
          \<and> um_bits m' = map (slot_bit u f) (map int [0..<nat (taken (us_bit_cycles u) p)])
        else um_start m' = None \<and> um_words m' = um_words m @ [us_words u ! f AND 0xFF]
          \<and> um_errors m' = um_errors m
              @ (if int f \<in> set (us_bad_stop u) then [framing_error c] else []))"

lemma taken_step:
  assumes "2 \<le> B"
  shows "taken B (p + 1) = taken B p + of_bool ((p + 1) mod B = B div 2)"
    "(p + 1) mod B = B div 2 \<Longrightarrow> taken B p = (p + 1) div B"
proof -
  have B: "0 < B" and h: "1 \<le> B div 2" "B div 2 < B" using assms by auto
  have r: "0 \<le> p mod B" "p mod B < B" using B by simp_all
  show "taken B (p + 1) = taken B p + of_bool ((p + 1) mod B = B div 2)"
    using h r by (auto simp: taken_def divmod_step [OF B])
  show "(p + 1) mod B = B div 2 \<Longrightarrow> taken B p = (p + 1) div B"
    using h r by (auto simp: taken_def divmod_step [OF B] split: if_splits)
qed

lemma um_frame_simps [simp]:
  "um_pin (um_frame m c) = um_pin m" "um_bit_cycles (um_frame m c) = um_bit_cycles m"
  "um_start (um_frame m c) = None" "um_words (um_frame m c) = um_words m @ [frame_word (um_bits m)]"
  "um_errors (um_frame m c) = (if um_bits m ! 0 \<noteq> 0 \<or> um_bits m ! 9 \<noteq> 1
     then um_errors m @ [framing_error c] else um_errors m)"
  by (simp_all add: um_frame_def)

lemma in_frame_step:
  assumes i: "in_frame u f c m p m'" and B: "2 \<le> us_bit_cycles u" "um_bit_cycles m = us_bit_cycles u"
    and p: "0 \<le> p"
  shows "in_frame u f c m (p + 1) (um_sample m' (c + (p + 1)) (slot_bit u f ((p + 1) div us_bit_cycles u)))"
proof -
  let ?B = "us_bit_cycles u"
  let ?l = "slot_bit u f ((p + 1) div ?B)"
  let ?m = "um_sample m' (c + (p + 1)) ?l"
  have B0: "0 < ?B" using B by simp
  have q0: "0 \<le> p div ?B" using p B0 by (simp add: pos_imp_zdiv_nonneg_iff)
  have t0: "0 \<le> taken ?B p" using q0 by (simp add: taken_def)
  have bc: "um_bit_cycles m' = ?B" using i B by (simp add: in_frame_def)
  note step = taken_step [OF B(1), of p]
  consider (idle) "9 < taken ?B p" | (sample) "taken ?B p \<le> 9" "(p + 1) mod ?B = ?B div 2"
    | (hold) "taken ?B p \<le> 9" "(p + 1) mod ?B \<noteq> ?B div 2" by linarith
  then show ?thesis
  proof cases
    case idle
    then have pq: "9 \<le> p div ?B" by (simp add: taken_def of_bool_def split: if_splits)
    have nq: "p div ?B \<le> (p + 1) div ?B" by (simp add: divmod_step [OF B0])
    have "\<not> (um_previous m' \<noteq> 0 \<and> ?l = 0)"
      using i pq nq by (auto simp: in_frame_def slot_bit_def split: if_splits)
    moreover have "um_start m' = None" using i idle by (simp add: in_frame_def)
    ultimately show ?thesis
      using i idle step(1) by (auto simp: in_frame_def um_sample_def)
  next
    case hold
    have "um_start m' = Some c" using i hold by (simp add: in_frame_def)
    then show ?thesis
      using i hold step(1) bc by (simp add: in_frame_def um_sample_def)
  next
    case sample
    have st: "um_start m' = Some c" using i sample by (simp add: in_frame_def)
    have bits: "um_bits m' @ [?l] = map (slot_bit u f) (map int [0..<nat (taken ?B (p + 1))])"
      using i sample step t0 by (simp add: in_frame_def nat_add_distrib)
    have len: "length (um_bits m' @ [?l]) = 10 \<longleftrightarrow> taken ?B p = 9"
      unfolding bits using sample step t0 by auto
    show ?thesis
    proof (cases "taken ?B p = 9")
      case True
      have b10: "um_bits m' @ [?l] = map (slot_bit u f) (map int [0..<10])"
        using bits step(1) sample True by simp
      have "(map (slot_bit u f) (map int [0..<10])) ! 0 = 0"
        "(map (slot_bit u f) (map int [0..<10])) ! 9 = (if int f \<in> set (us_bad_stop u) then 0 else 1)"
        by (simp_all add: slot_bit_def)
      then show ?thesis
        using i sample step(1) True st bc len b10 frame_word_bits [OF b10]
        by (simp add: in_frame_def um_sample_def Let_def)
    next
      case False
      then show ?thesis
        using i sample step(1) st bc len bits
        by (simp add: in_frame_def um_sample_def Let_def)
    qed
  qed
qed

section \<open>A whole transmission\<close>

text \<open>A monitor between frames.\<close>

definition listening :: "uart_monitor \<Rightarrow> bool" where
  "listening m \<longleftrightarrow> um_start m = None \<and> um_previous m = 1"

definition uart_link :: "uart_source \<Rightarrow> uart_monitor \<Rightarrow> bool" where
  "uart_link u m \<longleftrightarrow> 2 \<le> us_bit_cycles u \<and> um_bit_cycles m = us_bit_cycles u \<and> 0 \<le> us_gap u
     \<and> (us_bad_stop u \<noteq> [] \<longrightarrow> 1 \<le> us_gap u) \<and> listening m"

lemma hear_frame:
  assumes l: "uart_link u m" and st: "us_start u = Some s" and f: "f < length (us_words u)"
    and p: "int n < us_frame_cycles u"
  shows "in_frame u f (s + int f * us_frame_cycles u) m (int n)
    (hear (us_level u) (s + int f * us_frame_cycles u) (Suc n) m)"
  using p
proof (induction n)
  case 0
  have "us_level u (s + int f * us_frame_cycles u) = slot_bit u f 0"
    using level_in_frame [OF st f, of 0] 0 by simp
  moreover have "1 \<le> us_bit_cycles u div 2" using l by (auto simp: uart_link_def)
  then have "taken (us_bit_cycles u) 0 = 0" by (simp add: taken_def)
  ultimately show ?case
    using l by (simp add: in_frame_def um_sample_def uart_link_def listening_def slot_bit_def)
next
  case (Suc n)
  let ?c = "s + int f * us_frame_cycles u"
  have ih: "in_frame u f ?c m (int n) (hear (us_level u) ?c (Suc n) m)"
    using Suc by simp
  have "us_level u (?c + (int n + 1)) = slot_bit u f ((int n + 1) div us_bit_cycles u)"
    using level_in_frame [OF st f, of "int n + 1"] Suc.prems by simp
  then show ?case
    using in_frame_step [OF ih] l by (simp add: uart_link_def ac_simps)
qed

lemma hear_one_frame:
  assumes l: "uart_link u m" and st: "us_start u = Some s" and f: "f < length (us_words u)"
  defines "m' \<equiv> hear (us_level u) (s + int f * us_frame_cycles u) (nat (us_frame_cycles u)) m"
  shows "uart_link u m' \<and> um_words m' = um_words m @ [us_words u ! f AND 0xFF]
    \<and> um_errors m' = um_errors m @ (if int f \<in> set (us_bad_stop u)
        then [framing_error (s + int f * us_frame_cycles u)] else [])"
proof -
  let ?B = "us_bit_cycles u" and ?F = "us_frame_cycles u"
  have B: "2 \<le> ?B" "0 \<le> us_gap u" and F: "?F = 10 * ?B + us_gap u"
    using l by (simp_all add: uart_link_def us_frame_cycles_def)
  define n where "n = nat (?F - 1)"
  have n: "int n = ?F - 1" "nat ?F = Suc n" using B F by (simp_all add: n_def)
  have i: "in_frame u f (s + int f * ?F) m (int n) m'"
    unfolding m'_def n(2) by (rule hear_frame [OF l st f]) (use n in simp)
  have "9 * ?B + ?B div 2 \<le> ?F - 1" using B F by linarith
  have q: "9 \<le> (?F - 1) div ?B"
    using zdiv_mono1 [of "9 * ?B" "?F - 1" ?B] B F by simp
  have t: "9 < taken ?B (?F - 1)"
  proof (cases "(?F - 1) div ?B = 9")
    case True
    then have "?F - 1 = ?B * 9 + (?F - 1) mod ?B" using mult_div_mod_eq [of ?B "?F - 1"] by simp
    then have "?B div 2 \<le> (?F - 1) mod ?B" using B F by linarith
    then show ?thesis using True by (simp add: taken_def)
  next
    case False
    then show ?thesis using q by (simp add: taken_def of_bool_def)
  qed
  have prev: "slot_bit u f ((?F - 1) div ?B) = 1"
  proof (cases "int f \<in> set (us_bad_stop u)")
    case True
    then have "1 \<le> us_gap u" using l by (auto simp: uart_link_def)
    then have "10 \<le> (?F - 1) div ?B"
      using zdiv_mono1 [of "10 * ?B" "?F - 1" ?B] B F by simp
    then show ?thesis by (simp add: slot_bit_def)
  next
    case False
    then show ?thesis using q by (simp add: slot_bit_def)
  qed
  show ?thesis
    using i t prev l by (simp add: in_frame_def n(1) uart_link_def listening_def)
qed

text \<open>The errors of the first \<open>k\<close> frames.\<close>

definition stop_errors :: "uart_source \<Rightarrow> int \<Rightarrow> nat \<Rightarrow> string list" where
  "stop_errors u s k = map (\<lambda>f. framing_error (s + int f * us_frame_cycles u))
     (filter (\<lambda>f. int f \<in> set (us_bad_stop u)) [0..<k])"

lemma hear_frames:
  assumes l: "uart_link u m" and st: "us_start u = Some s" and k: "k \<le> length (us_words u)"
  defines "m' \<equiv> hear (us_level u) s (k * nat (us_frame_cycles u)) m"
  shows "uart_link u m' \<and> um_words m' = um_words m @ map (\<lambda>w. w AND 0xFF) (take k (us_words u))
    \<and> um_errors m' = um_errors m @ stop_errors u s k"
  using k unfolding m'_def
proof (induction k)
  case 0
  then show ?case using l by (simp add: stop_errors_def)
next
  case (Suc k)
  let ?F = "us_frame_cycles u"
  let ?m = "hear (us_level u) s (k * nat ?F) m"
  have ih: "uart_link u ?m \<and> um_words ?m = um_words m @ map (\<lambda>w. w AND 0xFF) (take k (us_words u))
    \<and> um_errors ?m = um_errors m @ stop_errors u s k"
    using Suc by simp
  have F: "0 < ?F" using l by (simp add: uart_link_def us_frame_cycles_def)
  have eq: "hear (us_level u) s (Suc k * nat ?F) m = hear (us_level u) (s + int k * ?F) (nat ?F) ?m"
    using F hear_add [of "us_level u" s "k * nat ?F" "nat ?F" m] by (simp add: ac_simps)
  have "uart_link u ?m" using ih by simp
  from hear_one_frame [OF this st, of k] Suc.prems ih show ?case
    unfolding eq by (auto simp: take_Suc_conv_app_nth stop_errors_def)
qed

lemma hear_idle:
  assumes "listening m" "\<And>i. i < n \<Longrightarrow> level (c + int i) = 1"
  shows "listening (hear level c n m) \<and> hear level c n m = m"
  using assms(2)
proof (induction n)
  case (Suc n)
  then have "hear level c n m = m" by simp
  then show ?case using Suc.prems [of n] assms(1) by (simp add: um_sample_def listening_def)
qed (use assms(1) in simp)

text \<open>C14: UART round trip. A monitor listening with the source's bit period, for any period of at
  least two cycles and any number of idle cycles before the first start bit, has after the last
  frame received exactly the source's words, in order and reduced to eight bits, and has
  reported a framing error for exactly the frames sent with a low stop bit.\<close>

theorem uart_round_trip:
  assumes "uart_link u m" "us_start u = Some s" "c \<le> s"
  defines "m' \<equiv> hear (us_level u) c (nat (s - c) + length (us_words u) * nat (us_frame_cycles u)) m"
  shows "listening m' \<and> um_words m' = um_words m @ map (\<lambda>w. w AND 0xFF) (us_words u)
    \<and> um_errors m' = um_errors m @ stop_errors u s (length (us_words u))"
proof -
  have "hear (us_level u) c (nat (s - c)) m = m"
    by (rule conjunct2 [OF hear_idle])
      (use assms(1,2) level_before [OF assms(2)] in \<open>auto simp: uart_link_def\<close>)
  then have "m' = hear (us_level u) s (length (us_words u) * nat (us_frame_cycles u)) m"
    unfolding m'_def hear_add using assms(3) by simp
  then show ?thesis
    using hear_frames [OF assms(1,2), of "length (us_words u)"] by (simp add: uart_link_def)
qed

definition demo_source :: uart_source where
  "demo_source = \<lparr>us_pin = 1, us_words = [0x48, 0x169], us_bit_cycles = 4, us_gap = 4,
     us_start = Some 10, us_bad_stop = [1]\<rparr>"

lemma uart_round_trip_witness:
  "um_words (hear (us_level demo_source) 0 98 (new_monitor 0 4)) = [0x48, 0x69]"
  using uart_round_trip [of demo_source "new_monitor 0 4" 10 0]
  by (simp add: demo_source_def new_monitor_def uart_link_def listening_def us_frame_cycles_def)

section \<open>The wired AND\<close>

text \<open>The drives of the peers before they are combined.\<close>

definition drives :: "peer list \<Rightarrow> int \<Rightarrow> int \<Rightarrow> (int \<times> int) list" where
  "drives ps cycle pads = map (\<lambda>p. snd (peer_step p cycle pads)) ps"

lemma env_drives_bits:
  "env_drives ps cycle pads en val = (ps', en', val') \<Longrightarrow>
   ps' = map (\<lambda>p. fst (peer_step p cycle pads)) ps
   \<and> (\<forall>n. bit en' n \<longleftrightarrow> bit en n \<or> (\<exists>(e, v) \<in> set (drives ps cycle pads). bit e n))
   \<and> (\<forall>n < 8. bit val' n \<longleftrightarrow> bit val n \<and> (\<forall>(e, v) \<in> set (drives ps cycle pads). bit e n \<longrightarrow> bit v n))"
proof (induction ps arbitrary: en val ps')
  case Nil
  then show ?case by (simp add: drives_def)
next
  case (Cons p ps)
  obtain p' e v where step: "peer_step p cycle pads = (p', e, v)" by (cases "peer_step p cycle pads") auto
  show ?case
  proof (cases "e = 0")
    case True
    with Cons.prems step obtain qs where "env_drives ps cycle pads en val = (qs, en', val')" "ps' = p' # qs"
      by (auto split: prod.splits)
    with Cons.IH [OF this(1)] step True show ?thesis by (auto simp: drives_def)
  next
    case False
    with Cons.prems step obtain qs where
      "env_drives ps cycle pads (en OR e) (val AND (v OR (NOT e AND 0xFF))) = (qs, en', val')" "ps' = p' # qs"
      by (auto split: prod.splits)
    with Cons.IH [OF this(1)] step show ?thesis
      by (auto simp: drives_def bit_simps and_255_take)
  qed
qed

text \<open>C15: The environment is a wired AND. In every step each peer advances by its own step, a pad
  is driven exactly when some peer drives it, and a driven pad is high exactly when every peer
  that drives it drives it high; so one peer pulling low wins.\<close>

theorem environment_wired_and:
  "\<exists>en val. environment_step env cycle pads
     = (env\<lparr>en_peers := map (\<lambda>p. fst (peer_step p cycle pads)) (en_peers env)\<rparr>, en, val)
   \<and> (\<forall>n. bit en n \<longleftrightarrow> (\<exists>(e, v) \<in> set (drives (en_peers env) cycle pads). bit e n))
   \<and> (\<forall>n < 8. bit val n \<longleftrightarrow> bit en n \<and> (\<forall>(e, v) \<in> set (drives (en_peers env) cycle pads). bit e n \<longrightarrow> bit v n))"
proof -
  obtain ps' en val where r: "env_drives (en_peers env) cycle pads 0 0xFF = (ps', en, val)"
    by (cases "env_drives (en_peers env) cycle pads 0 0xFF") auto
  have b255: "bit (255 :: int) n \<longleftrightarrow> n < 8" for n by (simp add: mask_numerals bit_mask_iff)
  from env_drives_bits [OF r] r b255 show ?thesis
    by (auto simp: environment_step_def bit_and_iff)
qed

lemma environment_wired_and_witness:
  "bit (fst (snd (environment_step (new_environment [Uart_source demo_source] 255) 0 0))) 1"
proof -
  let ?env = "new_environment [Uart_source demo_source] 255"
  from environment_wired_and [of ?env 0 0] obtain en val where
    e: "environment_step ?env 0 0 = (?env\<lparr>en_peers := map (\<lambda>p. fst (peer_step p 0 0)) (en_peers ?env)\<rparr>, en, val)"
      "\<forall>n. bit en n \<longleftrightarrow> (\<exists>(e, v) \<in> set (drives (en_peers ?env) 0 0). bit e n)" by blast
  have "drives (en_peers ?env) 0 0 = [(2, 2)]"
    by (simp add: drives_def new_environment_def us_step_def us_level_def demo_source_def)
  then show ?thesis using e by (simp add: bit_simps)
qed

section \<open>I2C\<close>

definition i2c_mask :: "i2c_target \<Rightarrow> int" where
  "i2c_mask t = shl 1 (ic_scl_pin t) OR shl 1 (ic_sda_pin t)"

lemma i2c_pins [simp]:
  "ic_scl_pin (i2c_observe t a b c d) = ic_scl_pin t" "ic_sda_pin (i2c_observe t a b c d) = ic_sda_pin t"
  by (simp_all add: i2c_observe_def i2c_start_def i2c_stop_def i2c_rise_def i2c_fall_def i2c_serve_def
    i2c_byte_done_def i2c_begin_byte_def Let_def)

lemma i2c_sda_low:
  assumes "i2c_step t cycle pads = (t', en, val)"
  shows "ic_sda_low t' \<noteq> ic_sda_low t \<longrightarrow>
      (\<exists>p. ic_scl t = Some p \<and> p \<noteq> 0 \<and> bit_at pads (ic_scl_pin t) = 0)
      \<or> \<not> ic_sda_low t' \<and> (\<exists>p. ic_scl t = Some p \<and> p \<noteq> 0) \<and> bit_at pads (ic_scl_pin t) \<noteq> 0
        \<and> ic_sda t \<noteq> bit_at pads (ic_sda_pin t)"
    "ic_scl t' = Some (bit_at pads (ic_scl_pin t))" "ic_sda t' = bit_at pads (ic_sda_pin t)"
  using assms
  by (auto simp: i2c_step_def Let_def i2c_observe_def i2c_start_def i2c_stop_def i2c_rise_def
      i2c_begin_byte_def split: option.splits if_splits)

text \<open>The target on an open-drain bus: the line is low in every step before which the target pulled it,
  whatever the other devices do.\<close>

inductive on_bus :: "i2c_target \<Rightarrow> bool" where
  bus_new: "on_bus (new_i2c address scl sda read_bytes stretch nacks)"
| bus_step: "on_bus t \<Longrightarrow> (ic_sda_low t \<Longrightarrow> bit_at pads (ic_sda_pin t) = 0) \<Longrightarrow> i2c_step t cycle pads = (t', en, val)
    \<Longrightarrow> on_bus t'"

text \<open>While SCL is high and the target pulls SDA, it has seen SDA low.\<close>

lemma on_bus_seen: "on_bus t \<Longrightarrow> ic_sda_low t \<and> ic_scl t \<noteq> Some 0 \<Longrightarrow> ic_sda t = 0"
proof (induction rule: on_bus.induct)
  case (bus_step t pads cycle t' en val)
  note s = i2c_sda_low [OF bus_step.hyps(3)]
  show ?case
  proof (cases "ic_sda_low t")
    case True
    then show ?thesis using bus_step.hyps(2) s(3) by simp
  next
    case False
    then show ?thesis using s(1,2) bus_step.prems by auto
  qed
qed (simp add: new_i2c_def)

lemma i2c_enable:
  assumes "i2c_step t cycle pads = (t', en, val)" "ic_scl t = None \<longrightarrow> \<not> ic_sda_low t"
  shows "en = (if ic_sda_low t' then shl 1 (ic_sda_pin t) else 0)
      OR (if ic_scl t \<noteq> None \<and> ic_stretch (i2c_observe t (the (ic_scl t)) (bit_at pads (ic_scl_pin t)) (bit_at pads (ic_sda_pin t)) cycle) \<noteq> 0
          then shl 1 (ic_scl_pin t) else 0)"
  using assms
  by (auto simp: i2c_step_def Let_def simp del: push_bit_of_1 push_bit_eq_mult split: option.splits if_splits)

lemma on_bus_first: "on_bus t \<Longrightarrow> ic_scl t = None \<longrightarrow> \<not> ic_sda_low t"
proof (induction rule: on_bus.induct)
  case (bus_step t pads cycle t' en val)
  then show ?case using i2c_sda_low(2) by simp
qed (simp add: new_i2c_def)

lemma i2c_stretches:
  "ic_stretch (i2c_observe t pscl scl sda cycle) \<noteq> ic_stretch t \<Longrightarrow> pscl \<noteq> 0 \<and> scl = 0"
  by (auto simp: i2c_observe_def i2c_start_def i2c_stop_def i2c_rise_def i2c_begin_byte_def split: if_splits)

text \<open>C16: The I2C target is open drain and never makes a START or STOP. On a bus whose SDA line is low
  whenever the target pulled it in the step before, and whatever the other devices do, the target drives
  only low and only its two lines; it changes what it drives on SDA only in a step that observed SCL
  fall, never while SCL is high; and it pulls SCL low only from a step that observed SCL fall.\<close>

theorem i2c_drives_low:
  assumes "on_bus t" "ic_sda_low t \<longrightarrow> bit_at pads (ic_sda_pin t) = 0"
    "i2c_step t cycle pads = (t', en, val)" "0 \<le> ic_scl_pin t" "0 \<le> ic_sda_pin t" "ic_scl_pin t \<noteq> ic_sda_pin t"
  shows "val = 0 \<and> en AND NOT (i2c_mask t) = 0
    \<and> (bit en (nat (ic_sda_pin t)) \<longleftrightarrow> ic_sda_low t')
    \<and> (ic_sda_low t' \<noteq> ic_sda_low t \<longrightarrow>
         (\<exists>p. ic_scl t = Some p \<and> p \<noteq> 0) \<and> bit_at pads (ic_scl_pin t) = 0)
    \<and> (bit en (nat (ic_scl_pin t)) \<and> ic_stretch t = 0 \<longrightarrow>
         (\<exists>p. ic_scl t = Some p \<and> p \<noteq> 0) \<and> bit_at pads (ic_scl_pin t) = 0)"
proof -
  have "val = 0" using assms(3) by (auto simp: i2c_step_def Let_def split: option.splits if_splits)
  moreover note en = i2c_enable [OF assms(3) on_bus_first [OF assms(1)]]
  have "en AND NOT (i2c_mask t) = 0"
    unfolding en i2c_mask_def and_not_zero_iff bit_or_iff by (auto simp: bit_or_iff)
  moreover have bits: "bit (shl 1 p :: int) (nat q) \<longleftrightarrow> p = q" if "0 \<le> p" "0 \<le> q" for p q
    using that by (auto simp: push_bit_eq_mult bit_exp_iff eq_nat_nat_iff)
  have sda: "bit en (nat (ic_sda_pin t)) \<longleftrightarrow> ic_sda_low t'"
    unfolding en bit_or_iff using bits assms(4-6) by auto
  moreover have scl: "bit en (nat (ic_scl_pin t)) \<and> ic_stretch t = 0 \<longrightarrow>
         (\<exists>p. ic_scl t = Some p \<and> p \<noteq> 0) \<and> bit_at pads (ic_scl_pin t) = 0"
  proof
    assume a: "bit en (nat (ic_scl_pin t)) \<and> ic_stretch t = 0"
    then obtain y where y: "ic_scl t = Some y" "ic_stretch (i2c_observe t y (bit_at pads (ic_scl_pin t)) (bit_at pads (ic_sda_pin t)) cycle) \<noteq> 0"
      using bits assms(4-6) unfolding en bit_or_iff by (cases "ic_scl t") (auto split: if_splits)
    from i2c_stretches [of t y "bit_at pads (ic_scl_pin t)" "bit_at pads (ic_sda_pin t)" cycle] y a
    show "(\<exists>p. ic_scl t = Some p \<and> p \<noteq> 0) \<and> bit_at pads (ic_scl_pin t) = 0" by simp
  qed
  moreover have "(\<exists>p. ic_scl t = Some p \<and> p \<noteq> 0) \<and> bit_at pads (ic_scl_pin t) = 0"
    if ch: "ic_sda_low t' \<noteq> ic_sda_low t"
  proof (rule ccontr)
    assume "\<not> ?thesis"
    then have w: "\<not> ic_sda_low t'" "\<exists>p. ic_scl t = Some p \<and> p \<noteq> 0" "ic_sda t \<noteq> bit_at pads (ic_sda_pin t)"
      using i2c_sda_low(1) [OF assms(3)] ch by auto
    then have "ic_sda_low t" "ic_scl t \<noteq> Some 0" using ch by auto
    then show False using on_bus_seen [OF assms(1)] assms(2) w(3) by simp
  qed
  ultimately show ?thesis by blast
qed

text \<open>A target that acknowledges its address: it pulls SDA when SCL falls after the eighth bit.\<close>

definition wired_step :: "int \<Rightarrow> i2c_target \<Rightarrow> i2c_target" where
  "wired_step p t = fst (i2c_step t 0 (if ic_sda_low t then p AND NOT (shl 1 (ic_sda_pin t)) else p))"

definition addressed_target :: i2c_target where
  "addressed_target = fold wired_step [192, 64, 128, 192, 0, 64, 0, 64, 0, 64, 0, 64, 128, 192, 0, 64, 0, 64] (new_i2c 0x42 6 7 [0x5A] 0 [])"

lemma wired_on_bus:
  assumes "on_bus t" "0 \<le> ic_sda_pin t"
  shows "on_bus (wired_step p t)" "ic_sda_pin (wired_step p t) = ic_sda_pin t"
proof -
  let ?p = "if ic_sda_low t then p AND NOT (shl 1 (ic_sda_pin t)) else p"
  obtain t' en val where s: "i2c_step t 0 ?p = (t', en, val)" by (metis prod_cases3)
  have "bit_at (p AND NOT (shl 1 (ic_sda_pin t))) (ic_sda_pin t) = 0"
    using assms(2) by (intro bit_eqI) (auto simp: bit_at_def bit_simps bit_push_bit_iff_int)
  then show "on_bus (wired_step p t)"
    using bus_step [OF assms(1) _ s] s by (simp add: wired_step_def)
  show "ic_sda_pin (wired_step p t) = ic_sda_pin t"
    by (auto simp: wired_step_def i2c_step_def Let_def split: option.split)
qed

lemma i2c_drives_low_witness:
  "\<exists>t' en val. on_bus addressed_target \<and> \<not> ic_sda_low addressed_target
     \<and> i2c_step addressed_target 0 0 = (t', en, val) \<and> ic_sda_low t' \<and> bit en 7 \<and> val = 0"
proof -
  have b: "on_bus (fold wired_step ps t) \<and> ic_sda_pin (fold wired_step ps t) = ic_sda_pin t"
    if "on_bus t" "0 \<le> ic_sda_pin t" for ps t
    using that by (induction ps arbitrary: t) (simp_all add: wired_on_bus)
  have bus: "on_bus addressed_target"
    unfolding addressed_target_def by (rule conjunct1 [OF b]) (auto simp: new_i2c_def intro: bus_new [unfolded new_i2c_def])
  have st: "\<not> ic_sda_low addressed_target" "ic_scl_pin addressed_target = 6" "ic_sda_pin addressed_target = 7"
    "ic_sda_low (fst (i2c_step addressed_target 0 0))" by code_simp+
  obtain t' en val where s: "i2c_step addressed_target 0 0 = (t', en, val)" by (metis prod_cases3)
  from i2c_drives_low [OF bus _ s] st s bus show ?thesis by simp
qed

end
