(* ===== verification/Pio_Sim.thy ===== *)
theory Pio_Sim
  imports Prelude
begin

text \<open>
  The cycle-accurate interpreter of an RP2040/RP2350 PIO block: \<open>host/pio/sim.py\<close>. A block has
  four state machines, 32 instruction words, eight IRQ flags and the output levels and enables of
  a 32-pin window. A state machine's operations read and write the block, so they act on a pair of
  the machine and the block; a \<open>PioError\<close> ends the simulation.
\<close>

datatype pio_error = PioError string

definition M32 :: int where [simp]: "M32 = 0xFFFFFFFF"

definition ones :: "int \<Rightarrow> int" where
  "ones n = (if n \<ge> 32 then M32 else shl 1 n - 1)"

definition rotate_right :: "int \<Rightarrow> int \<Rightarrow> int" where
  "rotate_right v n =
     (let n = n AND 31 in if n \<noteq> 0 then (shr v n OR shl v (32 - n)) AND M32 else v AND M32)"

definition bit_reverse :: "int \<Rightarrow> int" where
  "bit_reverse v = foldl (\<lambda>out i. shl out 1 OR (shr v i AND 1)) 0 (py_range 32)"

section \<open>Configuration and state\<close>

record sm_config =
  k_clkdiv :: int
  k_wrap_bottom :: int
  k_wrap_top :: int
  k_sideset_count :: int
  k_sideset_opt :: bool
  k_sideset_pindir :: bool
  k_sideset_base :: int
  k_out_base :: int
  k_out_count :: int
  k_set_base :: int
  k_set_count :: int
  k_in_base :: int
  k_in_count :: int
  k_jmp_pin :: int
  k_in_shift_right :: bool
  k_out_shift_right :: bool
  k_autopush :: bool
  k_autopull :: bool
  k_push_thresh :: int
  k_pull_thresh :: int
  k_fjoin_tx :: bool
  k_fjoin_rx :: bool
  k_status_sel :: int
  k_status_n :: int

definition default_sm_config :: sm_config where
  "default_sm_config = \<lparr>k_clkdiv = 1, k_wrap_bottom = 0, k_wrap_top = 31, k_sideset_count = 0,
     k_sideset_opt = False, k_sideset_pindir = False, k_sideset_base = 0, k_out_base = 0,
     k_out_count = 0, k_set_base = 0, k_set_count = 5, k_in_base = 0, k_in_count = 0,
     k_jmp_pin = 0, k_in_shift_right = False, k_out_shift_right = False, k_autopush = False,
     k_autopull = False, k_push_thresh = 32, k_pull_thresh = 32, k_fjoin_tx = False,
     k_fjoin_rx = False, k_status_sel = 0, k_status_n = 0\<rparr>"

record state_machine =
  sm_index :: int
  sm_config :: sm_config
  sm_enabled :: bool
  sm_pc :: int
  sm_x :: int
  sm_y :: int
  sm_isr :: int
  sm_osr :: int
  sm_isr_count :: int
  sm_osr_count :: int
  sm_delay :: int
  sm_div_count :: int
  sm_forced :: "int option"
  sm_exec_next :: "int option"
  sm_tx :: "int list"
  sm_rx :: "int list"
  sm_stalled :: bool
  sm_rxstall :: bool
  sm_txstall :: bool
  sm_txover :: bool
  sm_executed :: int
  sm_last_pc :: "int option"

record pio_block =
  b_rp2350 :: bool
  b_gpio_base :: int
  b_mem :: "int list"
  b_irq :: int
  b_out :: int
  b_oe :: int
  b_input_sync_bypass :: int
  b_sync1 :: int
  b_sync2 :: int
  b_cycle :: int
  b_sms :: "state_machine list"

definition new_state_machine :: "int \<Rightarrow> state_machine" where
  "new_state_machine index = \<lparr>sm_index = index, sm_config = default_sm_config, sm_enabled = False,
     sm_pc = 0, sm_x = 0, sm_y = 0, sm_isr = 0, sm_osr = 0, sm_isr_count = 0, sm_osr_count = 32,
     sm_delay = 0, sm_div_count = 0, sm_forced = None, sm_exec_next = None, sm_tx = [], sm_rx = [],
     sm_stalled = False, sm_rxstall = False, sm_txstall = False, sm_txover = False,
     sm_executed = 0, sm_last_pc = None\<rparr>"

definition reset_state :: "state_machine \<Rightarrow> state_machine" where
  "reset_state s = (new_state_machine (sm_index s))\<lparr>sm_config := sm_config s, sm_enabled := sm_enabled s\<rparr>"

definition restart :: "state_machine \<Rightarrow> state_machine" where
  "restart s = s\<lparr>sm_isr := 0, sm_isr_count := 0, sm_osr_count := 32, sm_delay := 0,
     sm_div_count := 0, sm_stalled := False, sm_exec_next := None\<rparr>"

definition configure :: "state_machine \<Rightarrow> sm_config \<Rightarrow> state_machine" where
  "configure s config = (restart (s\<lparr>sm_config := config\<rparr>))\<lparr>sm_tx := [], sm_rx := []\<rparr>"

definition tx_depth :: "state_machine \<Rightarrow> int" where
  "tx_depth s = (if k_fjoin_tx (sm_config s) then 8 else if k_fjoin_rx (sm_config s) then 0 else 4)"

definition rx_depth :: "state_machine \<Rightarrow> int" where
  "rx_depth s = (if k_fjoin_rx (sm_config s) then 8 else if k_fjoin_tx (sm_config s) then 0 else 4)"

section \<open>The CPU side\<close>

definition sm_put :: "state_machine \<Rightarrow> int \<Rightarrow> state_machine \<times> bool" where
  "sm_put s word =
     (if int (length (sm_tx s)) \<ge> tx_depth s then (s\<lparr>sm_txover := True\<rparr>, False)
      else (s\<lparr>sm_tx := sm_tx s @ [word AND M32]\<rparr>, True))"

definition sm_get :: "state_machine \<Rightarrow> state_machine \<times> int option" where
  "sm_get s = (case sm_rx s of [] \<Rightarrow> (s, None) | w # ws \<Rightarrow> (s\<lparr>sm_rx := ws\<rparr>, Some w))"

definition sm_exec :: "state_machine \<Rightarrow> int \<Rightarrow> state_machine" where
  "sm_exec s instr = s\<lparr>sm_forced := Some (instr AND 0xFFFF)\<rparr>"

section \<open>Helpers\<close>

definition status_value :: "state_machine \<Rightarrow> pio_block \<Rightarrow> pio_error + int" where
  "status_value s b =
     (let c = sm_config s in
      if k_status_sel c = 0 then Inr (if int (length (sm_tx s)) < k_status_n c then M32 else 0)
      else if k_status_sel c = 1 then Inr (if int (length (sm_rx s)) < k_status_n c then M32 else 0)
      else if k_status_sel c = 2 \<and> b_rp2350 b
      then Inr (if has_bit (b_irq b) (k_status_n c AND 7) then M32 else 0)
      else Inl (PioError ''reserved STATUS_SEL''))"

definition pins_in :: "state_machine \<Rightarrow> pio_block \<Rightarrow> int \<Rightarrow> int" where
  "pins_in s b visible =
     (let v = rotate_right visible (k_in_base (sm_config s)) in
      if b_rp2350 b \<and> k_in_count (sm_config s) \<noteq> 0 then v AND ones (k_in_count (sm_config s)) else v)"

definition set_pin :: "int \<Rightarrow> int \<Rightarrow> int \<Rightarrow> int" where
  "set_pin pins pin level = (pins AND NOT (shl 1 pin)) OR shl level pin"

definition write_pins :: "pio_block \<Rightarrow> int \<Rightarrow> int \<Rightarrow> int \<Rightarrow> bool \<Rightarrow> pio_block" where
  "write_pins b base count v dirs =
     foldl (\<lambda>b i. let pin = (base + i) AND 31; level = shr v i AND 1 in
         if dirs then b\<lparr>b_oe := set_pin (b_oe b) pin level\<rparr>
         else b\<lparr>b_out := set_pin (b_out b) pin level\<rparr>) b (py_range count)"

definition irq_index :: "state_machine \<Rightarrow> pio_block \<Rightarrow> int \<Rightarrow> pio_error + int" where
  "irq_index s b index =
     (if b_rp2350 b \<and> index AND 0x08 \<noteq> 0
      then Inl (PioError ''IRQ index mode PREV/NEXT (RP2350) is not modelled'')
      else if index AND 0x10 \<noteq> 0 then Inr ((index AND 4) OR ((index + sm_index s) AND 3))
      else Inr (index AND 7))"

definition side_set :: "sm_config \<Rightarrow> int \<Rightarrow> int option" where
  "side_set c instr =
     (if k_sideset_count c = 0 \<and> \<not> k_sideset_opt c then None
      else
        let bits = k_sideset_count c + (if k_sideset_opt c then 1 else 0);
            field = shr instr 8 AND 0x1F
        in if k_sideset_opt c \<and> field AND 0x10 = 0 then None
           else Some (shr field (5 - bits) AND ones (k_sideset_count c)))"

definition delay_field :: "sm_config \<Rightarrow> int \<Rightarrow> int" where
  "delay_field c instr =
     (let bits = k_sideset_count c + (if k_sideset_opt c then 1 else 0)
      in shr instr 8 AND ones (5 - bits))"

definition refill :: "state_machine \<Rightarrow> state_machine" where
  "refill s = s\<lparr>sm_osr := hd (sm_tx s), sm_tx := tl (sm_tx s), sm_osr_count := 0\<rparr>"

definition background_pull :: "state_machine \<Rightarrow> state_machine" where
  "background_pull s =
     (if k_autopull (sm_config s) \<and> sm_osr_count s \<ge> k_pull_thresh (sm_config s) \<and> sm_tx s \<noteq> []
      then refill s else s)"

definition pio_shift_out :: "state_machine \<Rightarrow> int \<Rightarrow> state_machine \<times> int" where
  "pio_shift_out s n0 =
     (let n = (if n0 = 0 then 32 else n0);
          (data, osr) =
            (if k_out_shift_right (sm_config s)
             then (sm_osr s AND ones n, if n \<ge> 32 then 0 else shr (sm_osr s) n)
             else (if n < 32 then shr (sm_osr s) (32 - n) AND ones n else sm_osr s,
                   if n \<ge> 32 then 0 else shl (sm_osr s) n AND M32))
      in (s\<lparr>sm_osr := osr, sm_osr_count := min 32 (sm_osr_count s + n)\<rparr>, data))"

definition shift_in_value :: "state_machine \<Rightarrow> int \<Rightarrow> int \<Rightarrow> int \<times> int" where
  "shift_in_value s data0 n0 =
     (let n = (if n0 = 0 then 32 else n0); data = data0 AND ones n in
      if n \<ge> 32 then (data, 32)
      else
        let isr = (if k_in_shift_right (sm_config s) then shr (sm_isr s) n OR shl data (32 - n)
                   else (shl (sm_isr s) n OR data) AND M32)
        in (isr AND M32, min 32 (sm_isr_count s + n)))"

section \<open>Instructions\<close>

text \<open>The result of an instruction: the machine and the block, stalled and jumped.\<close>

type_synonym outcome = "pio_error + state_machine \<times> pio_block \<times> bool \<times> bool"

definition exec_jmp :: "state_machine \<Rightarrow> pio_block \<Rightarrow> int \<Rightarrow> int \<Rightarrow> outcome" where
  "exec_jmp s b low visible =
     (let c = sm_config s; cond = shr low 5 AND 7; addr = low AND 0x1F;
          (take', s1) =
            (if cond = 0 then (True, s)
             else if cond = 1 then (sm_x s = 0, s)
             else if cond = 2 then (sm_x s \<noteq> 0, s\<lparr>sm_x := (sm_x s - 1) AND M32\<rparr>)
             else if cond = 3 then (sm_y s = 0, s)
             else if cond = 4 then (sm_y s \<noteq> 0, s\<lparr>sm_y := (sm_y s - 1) AND M32\<rparr>)
             else if cond = 5 then (sm_x s \<noteq> sm_y s, s)
             else if cond = 6 then (has_bit visible (k_jmp_pin c), s)
             else (sm_osr_count s < k_pull_thresh c, s))
      in Inr (if take' then s1\<lparr>sm_pc := addr\<rparr> else s1, b, False, take'))"

definition pio_exec_wait :: "state_machine \<Rightarrow> pio_block \<Rightarrow> int \<Rightarrow> int \<Rightarrow> outcome" where
  "pio_exec_wait s b low visible =
     (let c = sm_config s; pol = shr low 7 AND 1; src = shr low 5 AND 3; index = low AND 0x1F in
      if src = 0 then Inr (s, b, bit_at visible index \<noteq> pol, False)
      else if src = 1 then Inr (s, b, bit_at visible ((k_in_base c + index) AND 31) \<noteq> pol, False)
      else if src = 2 then
        and_then (irq_index s b index) (\<lambda>flag.
        let level = bit_at (b_irq b) flag in
        if level = pol \<and> pol = 1
        then Inr (s, b\<lparr>b_irq := b_irq b AND NOT (shl 1 flag)\<rparr>, False, False)
        else Inr (s, b, level \<noteq> pol, False))
      else if b_rp2350 b
      then Inr (s, b, bit_at visible ((k_jmp_pin c + (index AND 3)) AND 31) \<noteq> pol, False)
      else Inl (PioError ''reserved WAIT source''))"

definition in_source :: "state_machine \<Rightarrow> pio_block \<Rightarrow> int \<Rightarrow> int \<Rightarrow> pio_error + int" where
  "in_source s b src visible =
     (if src = 0 then Inr (pins_in s b visible)
      else if src = 1 then Inr (sm_x s)
      else if src = 2 then Inr (sm_y s)
      else if src = 3 then Inr 0
      else if src = 6 then Inr (sm_isr s)
      else if src = 7 then Inr (sm_osr s)
      else Inl (PioError ''reserved IN source''))"

definition exec_in :: "state_machine \<Rightarrow> pio_block \<Rightarrow> int \<Rightarrow> int \<Rightarrow> outcome" where
  "exec_in s b low visible =
     and_then (in_source s b (shr low 5 AND 7) visible) (\<lambda>data.
     let (isr, count) = shift_in_value s data (low AND 0x1F) in
     if k_autopush (sm_config s) \<and> count \<ge> k_push_thresh (sm_config s)
     then (if int (length (sm_rx s)) \<ge> rx_depth s
           then Inr (s\<lparr>sm_rxstall := True\<rparr>, b, True, False)
           else Inr (s\<lparr>sm_rx := sm_rx s @ [isr], sm_isr := 0, sm_isr_count := 0\<rparr>, b, False, False))
     else Inr (s\<lparr>sm_isr := isr, sm_isr_count := count\<rparr>, b, False, False))"

definition exec_out :: "state_machine \<Rightarrow> pio_block \<Rightarrow> int \<Rightarrow> outcome" where
  "exec_out s b low =
     (let c = sm_config s; dest = shr low 5 AND 7; n = low AND 0x1F in
      if k_autopull c \<and> sm_osr_count s \<ge> k_pull_thresh c
      then Inr (if sm_tx s \<noteq> [] then refill s else s\<lparr>sm_txstall := True\<rparr>, b, True, False)
      else
        let (s1, data) = pio_shift_out s n;
            s2 = (if k_autopull c \<and> sm_osr_count s1 \<ge> k_pull_thresh c \<and> sm_tx s1 \<noteq> []
                  then refill s1 else s1);
            bits = (if n = 0 then 32 else n)
        in Inr (if dest = 0 then (s2, write_pins b (k_out_base c) (k_out_count c) data False, False, False)
                else if dest = 1 then (s2\<lparr>sm_x := data\<rparr>, b, False, False)
                else if dest = 2 then (s2\<lparr>sm_y := data\<rparr>, b, False, False)
                else if dest = 3 then (s2, b, False, False)
                else if dest = 4 then (s2, write_pins b (k_out_base c) (k_out_count c) data True, False, False)
                else if dest = 5 then (s2\<lparr>sm_pc := data AND 0x1F\<rparr>, b, False, True)
                else if dest = 6 then (s2\<lparr>sm_isr := data, sm_isr_count := bits\<rparr>, b, False, False)
                else (s2\<lparr>sm_exec_next := Some (data AND 0xFFFF)\<rparr>, b, False, False)))"

definition pio_exec_pull :: "state_machine \<Rightarrow> pio_block \<Rightarrow> bool \<Rightarrow> bool \<Rightarrow> outcome" where
  "pio_exec_pull s b if_flag block =
     Inr (if (if_flag \<or> k_autopull (sm_config s)) \<and> sm_osr_count s < k_pull_thresh (sm_config s)
          then (s, b, False, False)
          else if sm_tx s = []
          then (if block then (s\<lparr>sm_txstall := True\<rparr>, b, True, False)
                else (s\<lparr>sm_osr := sm_x s, sm_osr_count := 0\<rparr>, b, False, False))
          else (refill s, b, False, False))"

definition pio_exec_push :: "state_machine \<Rightarrow> pio_block \<Rightarrow> bool \<Rightarrow> bool \<Rightarrow> outcome" where
  "pio_exec_push s b if_flag block =
     Inr (if if_flag \<and> sm_isr_count s < k_push_thresh (sm_config s) then (s, b, False, False)
          else if int (length (sm_rx s)) \<ge> rx_depth s
          then (if block then (s\<lparr>sm_rxstall := True\<rparr>, b, True, False)
                else (s\<lparr>sm_rxstall := True, sm_isr := 0, sm_isr_count := 0\<rparr>, b, False, False))
          else (s\<lparr>sm_rx := sm_rx s @ [sm_isr s], sm_isr := 0, sm_isr_count := 0\<rparr>, b, False, False))"

definition exec_pushpull :: "state_machine \<Rightarrow> pio_block \<Rightarrow> int \<Rightarrow> outcome" where
  "exec_pushpull s b low =
     (if low AND 0x1F \<noteq> 0
      then Inl (if b_rp2350 b \<and> low AND 0x10 \<noteq> 0
                then PioError ''MOV to/from the RX FIFO registers (RP2350) is not modelled''
                else PioError ''reserved PUSH/PULL encoding'')
      else
        let if_flag = has_bit low 6; block = has_bit low 5 in
        if low AND 0x80 \<noteq> 0 then pio_exec_pull s b if_flag block else pio_exec_push s b if_flag block)"

definition mov_source :: "state_machine \<Rightarrow> pio_block \<Rightarrow> int \<Rightarrow> int \<Rightarrow> pio_error + int" where
  "mov_source s b src visible =
     (if src = 0 then Inr (pins_in s b visible)
      else if src = 1 then Inr (sm_x s)
      else if src = 2 then Inr (sm_y s)
      else if src = 3 then Inr 0
      else if src = 5 then status_value s b
      else if src = 6 then Inr (sm_isr s)
      else if src = 7 then Inr (sm_osr s)
      else Inl (PioError ''reserved MOV source''))"

definition mov_operation :: "int \<Rightarrow> int \<Rightarrow> pio_error + int" where
  "mov_operation operation v =
     (if operation = 1 then Inr (NOT v AND M32)
      else if operation = 2 then Inr (bit_reverse v)
      else if operation = 3 then Inl (PioError ''reserved MOV operation'')
      else Inr v)"

definition exec_mov :: "state_machine \<Rightarrow> pio_block \<Rightarrow> int \<Rightarrow> int \<Rightarrow> outcome" where
  "exec_mov s b low visible =
     (let c = sm_config s; dest = shr low 5 AND 7 in
      and_then (mov_source s b (low AND 7) visible) (\<lambda>v0.
      and_then (mov_operation (shr low 3 AND 3) v0) (\<lambda>v.
      if dest = 0 then Inr (s, write_pins b (k_out_base c) (k_out_count c) v False, False, False)
      else if dest = 1 then Inr (s\<lparr>sm_x := v\<rparr>, b, False, False)
      else if dest = 2 then Inr (s\<lparr>sm_y := v\<rparr>, b, False, False)
      else if dest = 3 then
        (if b_rp2350 b then Inr (s, write_pins b (k_out_base c) (k_out_count c) v True, False, False)
         else Inl (PioError ''MOV PINDIRS needs RP2350''))
      else if dest = 4 then Inr (s\<lparr>sm_exec_next := Some (v AND 0xFFFF)\<rparr>, b, False, False)
      else if dest = 5 then Inr (s\<lparr>sm_pc := v AND 0x1F\<rparr>, b, False, True)
      else if dest = 6 then Inr (s\<lparr>sm_isr := v, sm_isr_count := 0\<rparr>, b, False, False)
      else Inr (s\<lparr>sm_osr := v, sm_osr_count := 0\<rparr>, b, False, False))))"

definition exec_irq :: "state_machine \<Rightarrow> pio_block \<Rightarrow> int \<Rightarrow> outcome" where
  "exec_irq s b low =
     (let clear = has_bit low 6; wait = has_bit low 5 in
      and_then (irq_index s b (low AND 0x1F)) (\<lambda>flag.
      if sm_stalled s \<and> wait \<and> \<not> clear then Inr (s, b, has_bit (b_irq b) flag, False)
      else if clear then Inr (s, b\<lparr>b_irq := b_irq b AND NOT (shl 1 flag)\<rparr>, False, False)
      else Inr (s, b\<lparr>b_irq := b_irq b OR shl 1 flag\<rparr>, wait, False)))"

definition exec_set :: "state_machine \<Rightarrow> pio_block \<Rightarrow> int \<Rightarrow> outcome" where
  "exec_set s b low =
     (let c = sm_config s; dest = shr low 5 AND 7; data = low AND 0x1F in
      if dest = 0 then Inr (s, write_pins b (k_set_base c) (k_set_count c) data False, False, False)
      else if dest = 1 then Inr (s\<lparr>sm_x := data\<rparr>, b, False, False)
      else if dest = 2 then Inr (s\<lparr>sm_y := data\<rparr>, b, False, False)
      else if dest = 4 then Inr (s, write_pins b (k_set_base c) (k_set_count c) data True, False, False)
      else Inl (PioError ''reserved SET destination''))"

definition pio_execute :: "state_machine \<Rightarrow> pio_block \<Rightarrow> int \<Rightarrow> int \<Rightarrow> outcome" where
  "pio_execute s b instr visible =
     (let op = shr instr 13; low = instr AND 0xFF in
      if op = 0 then exec_jmp s b low visible
      else if op = 1 then pio_exec_wait s b low visible
      else if op = 2 then exec_in s b low visible
      else if op = 3 then exec_out s b low
      else if op = 4 then exec_pushpull s b low
      else if op = 5 then exec_mov s b low visible
      else if op = 6 then exec_irq s b low
      else exec_set s b low)"

section \<open>One clock\<close>

datatype instr_source = Forced_instr | Exec_instr | Mem_instr

text \<open>What a state machine issues, and the state before it executes.\<close>

definition fetch :: "state_machine \<Rightarrow> pio_block \<Rightarrow> int \<times> instr_source \<times> state_machine" where
  "fetch s b = (case sm_forced s of
     Some i \<Rightarrow> (i, Forced_instr, s)
   | None \<Rightarrow> (case sm_exec_next s of
       Some i \<Rightarrow> (i, Exec_instr, s\<lparr>sm_exec_next := None\<rparr>)
     | None \<Rightarrow> (b_mem b ! nat (sm_pc s), Mem_instr, s\<lparr>sm_last_pc := Some (sm_pc s)\<rparr>)))"

definition apply_side :: "sm_config \<Rightarrow> pio_block \<Rightarrow> int \<Rightarrow> pio_block" where
  "apply_side c b instr = (case side_set c instr of
     None \<Rightarrow> b
   | Some side \<Rightarrow> write_pins b (k_sideset_base c) (k_sideset_count c) side (k_sideset_pindir c))"

definition finish :: "state_machine \<Rightarrow> int \<Rightarrow> instr_source \<Rightarrow> bool \<Rightarrow> bool \<Rightarrow> state_machine" where
  "finish s instr source stalled jumped =
     (let c = sm_config s; s1 = s\<lparr>sm_stalled := stalled\<rparr> in
      if stalled
      then (case source of Forced_instr \<Rightarrow> s1\<lparr>sm_forced := Some instr\<rparr>
            | Exec_instr \<Rightarrow> s1\<lparr>sm_exec_next := Some instr\<rparr> | Mem_instr \<Rightarrow> s1)
      else
        let s2 = s1\<lparr>sm_executed := sm_executed s1 + 1\<rparr> in
        if source = Forced_instr then s2\<lparr>sm_forced := None\<rparr>
        else
          let s3 = s2\<lparr>sm_delay := (if sm_exec_next s2 \<noteq> None then 0 else delay_field c instr)\<rparr> in
          if source = Mem_instr \<and> \<not> jumped
          then s3\<lparr>sm_pc := (if sm_pc s3 = k_wrap_top c then k_wrap_bottom c else (sm_pc s3 + 1) AND 31)\<rparr>
          else s3)"

definition issue :: "state_machine \<Rightarrow> pio_block \<Rightarrow> int \<Rightarrow> pio_error + state_machine \<times> pio_block \<times> bool" where
  "issue s b visible =
     (let (instr, source, s1) = fetch s b in
      and_then (pio_execute s1 b instr visible) (\<lambda>(s2, b2, stalled, jumped).
      let b3 = apply_side (sm_config s2) b2 instr;
          s3 = (if sm_enabled s2 \<and> shr instr 13 \<noteq> 3 then background_pull s2 else s2)
      in Inr (finish s3 instr source stalled jumped, b3, True)))"

definition clock :: "state_machine \<Rightarrow> pio_block \<Rightarrow> int \<Rightarrow> pio_error + state_machine \<times> pio_block \<times> bool" where
  "clock s0 b visible =
     (let s = s0\<lparr>sm_last_pc := None\<rparr>; c = sm_config s in
      if \<not> sm_enabled s \<and> sm_forced s = None then Inr (s, b, False)
      else if sm_enabled s \<and> sm_forced s = None then
        let s1 = s\<lparr>sm_div_count := sm_div_count s + 1\<rparr> in
        if sm_div_count s1 < k_clkdiv c then Inr (s1, b, False)
        else
          let s2 = s1\<lparr>sm_div_count := 0\<rparr> in
          if sm_delay s2 \<noteq> 0
          then Inr (background_pull (s2\<lparr>sm_delay := sm_delay s2 - 1\<rparr>), b, False)
          else issue s2 b visible
      else issue s b visible)"

section \<open>The block\<close>

definition new_pio_block :: "bool \<Rightarrow> int \<Rightarrow> pio_block" where
  "new_pio_block rp2350 gpio_base = \<lparr>b_rp2350 = rp2350, b_gpio_base = gpio_base,
     b_mem = replicate 32 0, b_irq = 0, b_out = 0, b_oe = 0, b_input_sync_bypass = 0,
     b_sync1 = 0, b_sync2 = 0, b_cycle = 0, b_sms = map new_state_machine (py_range 4)\<rparr>"

definition pio_load :: "pio_block \<Rightarrow> int list \<Rightarrow> int \<Rightarrow> pio_error + pio_block" where
  "pio_load b instructions offset =
     (if offset + int (length instructions) > 32
      then Inl (PioError (''program does not fit at offset '' @ decimal offset))
      else Inr (b\<lparr>b_mem := foldl (\<lambda>mem (i, word). mem[nat (offset + int i) := word AND 0xFFFF])
                   (b_mem b) (zip [0..<length instructions] instructions)\<rparr>))"

fun clock_machines :: "nat list \<Rightarrow> pio_block \<Rightarrow> int \<Rightarrow> pio_error + pio_block" where
  "clock_machines [] b visible = Inr b"
| "clock_machines (i # is) b visible =
     and_then (clock (b_sms b ! i) b visible) (\<lambda>(s, b', _).
     clock_machines is (b'\<lparr>b_sms := (b_sms b')[i := s]\<rparr>) visible)"

definition pio_step :: "pio_block \<Rightarrow> int \<Rightarrow> pio_error + pio_block" where
  "pio_step b raw0 =
     (let raw = raw0 AND M32;
          visible = (b_sync2 b AND NOT (b_input_sync_bypass b)) OR (raw AND b_input_sync_bypass b)
      in and_then (clock_machines [0..<4] b visible) (\<lambda>b'.
         Inr (b'\<lparr>b_sync2 := b_sync1 b', b_sync1 := raw, b_cycle := b_cycle b' + 1\<rparr>)))"

end
