(* ===== verification/Pio_Asm.thy ===== *)
theory Pio_Asm
  imports Pio_Sim
begin

text \<open>
  The \<open>rp2.asm_pio\<close> assembler for CPython: \<open>host/pio/asm.py\<close>. A program function is the list of
  the calls its body makes, run twice by \<open>asm_pio\<close>: the first pass collects the labels, the
  second emits the words. The emitter is a state, its methods actions that may raise; a word that
  does not fit the \<open>array('H')\<close> raises \<open>OverflowError\<close>.
\<close>

datatype asm_error = PIOASMError string | OverflowError

text \<open>The initial levels of a pin group: absent, one value or a tuple.\<close>

datatype pin_init = No_init | One_init int | Many_init "int list"

definition init_count :: "pin_init \<Rightarrow> int" where
  "init_count p = (case p of No_init \<Rightarrow> 0 | One_init _ \<Rightarrow> 1 | Many_init xs \<Rightarrow> int (length xs))"

definition OUT_LOW :: int where "OUT_LOW = 2"
definition OUT_HIGH :: int where "OUT_HIGH = 3"
definition IN_LOW :: int where "IN_LOW = 0"
definition IN_HIGH :: int where "IN_HIGH = 1"
definition SHIFT_LEFT :: int where "SHIFT_LEFT = 0"
definition SHIFT_RIGHT :: int where "SHIFT_RIGHT = 1"
definition JOIN_NONE :: int where "JOIN_NONE = 0"
definition JOIN_TX :: int where "JOIN_TX = 1"
definition JOIN_RX :: int where "JOIN_RX = 2"

section \<open>The emitter\<close>

record asm_options =
  ao_out_init :: pin_init
  ao_set_init :: pin_init
  ao_sideset_init :: pin_init
  ao_side_pindir :: bool
  ao_in_shiftdir :: int
  ao_out_shiftdir :: int
  ao_autopush :: bool
  ao_autopull :: bool
  ao_push_thresh :: int
  ao_pull_thresh :: int
  ao_fifo_join :: int

text \<open>The program list: instructions, three offsets, EXECCTRL, SHIFTCTRL and the pin groups.\<close>

record pio_program =
  pp_instr :: "int list"
  pp_offsets :: "int list"
  pp_execctrl :: int
  pp_shiftctrl :: int
  pp_out_init :: pin_init
  pp_set_init :: pin_init
  pp_sideset_init :: pin_init

record emitter =
  em_labels :: "(string \<times> int) list"
  em_prog :: pio_program
  em_wrap_used :: bool
  em_sideset_count :: int
  em_pass :: int
  em_num_instr :: int
  em_num_sideset :: int
  em_delay_max :: int
  em_sideset_opt :: bool

type_synonym 'a asm_act = "(emitter, asm_error, 'a) act"

definition new_emitter :: "asm_options \<Rightarrow> emitter" where
  "new_emitter k =
     \<lparr>em_labels = [],
      em_prog = \<lparr>pp_instr = [], pp_offsets = [-1, -1, -1],
        pp_execctrl = shl (of_bool (ao_side_pindir k)) 29,
        pp_shiftctrl = shl (ao_fifo_join k) 30 OR shl (ao_pull_thresh k AND 0x1F) 25
          OR shl (ao_push_thresh k AND 0x1F) 20 OR shl (ao_out_shiftdir k) 19
          OR shl (ao_in_shiftdir k) 18 OR shl (of_bool (ao_autopull k)) 17
          OR shl (of_bool (ao_autopush k)) 16,
        pp_out_init = ao_out_init k, pp_set_init = ao_set_init k,
        pp_sideset_init = ao_sideset_init k\<rparr>,
      em_wrap_used = False, em_sideset_count = init_count (ao_sideset_init k), em_pass = 0,
      em_num_instr = 0, em_num_sideset = 0, em_delay_max = 31, em_sideset_opt = False\<rparr>"

definition or_execctrl :: "int \<Rightarrow> emitter \<Rightarrow> emitter" where
  "or_execctrl v e = e\<lparr>em_prog := (em_prog e)\<lparr>pp_execctrl := pp_execctrl (em_prog e) OR v\<rparr>\<rparr>"

definition emit_wrap_target :: "unit asm_act" where
  "emit_wrap_target = act_mod (\<lambda>e. or_execctrl (shl (em_num_instr e) 7) e)"

definition emit_wrap :: "unit asm_act" where
  "emit_wrap =
     act_bind (act_get em_num_instr) (\<lambda>n.
     act_bind (act_require (n \<noteq> 0) (PIOASMError ''wrap before any instruction'')) (\<lambda>_.
     act_mod (\<lambda>e. (or_execctrl (shl (em_num_instr e - 1) 12) e)\<lparr>em_wrap_used := True\<rparr>)))"

definition start_pass :: "int \<Rightarrow> unit asm_act" where
  "start_pass pass =
     act_bind (if pass = 1
       then act_bind (act_get (\<lambda>e. \<not> em_wrap_used e \<and> em_num_instr e \<noteq> 0)) (\<lambda>needs_wrap.
            act_bind (if needs_wrap then emit_wrap else act_return ()) (\<lambda>_.
            act_mod (\<lambda>e0. let e = e0\<lparr>em_delay_max := 31\<rparr> in
              if em_sideset_count e \<noteq> 0
              then let opt = (em_num_sideset e \<noteq> em_num_instr e);
                       e1 = e\<lparr>em_sideset_opt := opt\<rparr>;
                       e2 = (if opt then (or_execctrl (shl 1 30) e1)\<lparr>em_sideset_count := em_sideset_count e1 + 1\<rparr>
                             else e1)
                   in e2\<lparr>em_delay_max := shr (em_delay_max e2) (em_sideset_count e2)\<rparr>
              else e)))
       else act_return ()) (\<lambda>_.
     act_mod (\<lambda>e. e\<lparr>em_pass := pass, em_num_instr := 0, em_num_sideset := 0\<rparr>))"

text \<open>\<open>array('H')\<close> holds 16-bit values.\<close>

definition store_word :: "(int list \<Rightarrow> int list) \<Rightarrow> int \<Rightarrow> unit asm_act" where
  "store_word f v =
     act_bind (act_require (0 \<le> v \<and> v \<le> 0xFFFF) OverflowError) (\<lambda>_.
     act_mod (\<lambda>e. e\<lparr>em_prog := (em_prog e)\<lparr>pp_instr := f (pp_instr (em_prog e))\<rparr>\<rparr>))"

definition or_last :: "int \<Rightarrow> unit asm_act" where
  "or_last v =
     act_bind (act_get (\<lambda>e. last (pp_instr (em_prog e)))) (\<lambda>w.
     store_word (\<lambda>ws. butlast ws @ [w OR v]) (w OR v))"

definition emit_delay :: "int \<Rightarrow> unit asm_act" where
  "emit_delay delay =
     act_bind (act_get em_pass) (\<lambda>pass.
     if pass > 0
     then act_bind (act_get em_delay_max) (\<lambda>m.
          act_bind (act_require (\<not> delay > m) (PIOASMError ''delay too large'')) (\<lambda>_.
          or_last (shl delay 8)))
     else act_return ())"

definition emit_side :: "int \<Rightarrow> unit asm_act" where
  "emit_side v =
     act_bind (act_mod (\<lambda>e. e\<lparr>em_num_sideset := em_num_sideset e + 1\<rparr>)) (\<lambda>_.
     act_bind (act_get em_pass) (\<lambda>pass.
     if pass > 0
     then act_bind (act_get em_sideset_count) (\<lambda>n.
          act_bind (act_require (n \<noteq> 0) (PIOASMError ''no sideset'')) (\<lambda>_.
          act_bind (act_require (\<not> v \<ge> shl 1 n) (PIOASMError ''sideset too large'')) (\<lambda>_.
          act_bind (act_get em_sideset_opt) (\<lambda>opt.
          or_last (shl (of_bool opt) 12 OR shl v (13 - n))))))
     else act_return ()))"

definition emit_label :: "string \<Rightarrow> unit asm_act" where
  "emit_label label =
     act_bind (act_get em_pass) (\<lambda>pass.
     if pass = 0
     then act_bind (act_get (\<lambda>e. map_of (em_labels e) label = None)) (\<lambda>fresh.
          act_bind (act_require fresh (PIOASMError (''duplicate label '' @ label))) (\<lambda>_.
          act_mod (\<lambda>e. e\<lparr>em_labels := em_labels e @ [(label, em_num_instr e)]\<rparr>)))
     else act_return ())"

definition emit_word :: "int \<Rightarrow> string option \<Rightarrow> unit asm_act" where
  "emit_word instr label =
     act_bind (act_mod (\<lambda>e. e\<lparr>em_num_instr := em_num_instr e + 1\<rparr>)) (\<lambda>_.
     act_bind (act_get em_pass) (\<lambda>pass.
     if pass > 0
     then act_bind (case label of
              None \<Rightarrow> act_return 0
            | Some l \<Rightarrow>
                act_bind (act_get (\<lambda>e. map_of (em_labels e) l)) (\<lambda>addr.
                case addr of None \<Rightarrow> act_raise (PIOASMError (''unknown label '' @ l))
                | Some a \<Rightarrow> act_return a)) (\<lambda>address.
          store_word (\<lambda>ws. ws @ [instr OR address]) (instr OR address))
     else act_return ()))"

section \<open>Instructions\<close>

datatype pio_call =
    Nop
  | Jmp int string
  | Wait int int int
  | In int int
  | Out int int
  | Push int int
  | Pull int int
  | Mov int int
  | Irq int int
  | SetReg int int
  | Word int "string option"

definition emit_nop :: "unit asm_act" where
  "emit_nop = emit_word 0xA042 None"

definition emit_jmp :: "int \<Rightarrow> string \<Rightarrow> unit asm_act" where
  "emit_jmp cond label = emit_word (0x0000 OR shl cond 5) (Some label)"

definition emit_wait :: "int \<Rightarrow> int \<Rightarrow> int \<Rightarrow> unit asm_act" where
  "emit_wait polarity src0 index =
     (let src = (if src0 = 6 then 1 else if src0 \<noteq> 0 then 2 else src0)
      in emit_word (0x2000 OR shl polarity 7 OR shl src 5 OR index) None)"

definition bit_count_ok :: "int \<Rightarrow> unit asm_act" where
  "bit_count_ok data =
     act_require (0 < data \<and> data \<le> 32) (PIOASMError (''invalid bit count '' @ decimal data))"

definition emit_in :: "int \<Rightarrow> int \<Rightarrow> unit asm_act" where
  "emit_in src data = act_bind (bit_count_ok data) (\<lambda>_.
     emit_word (0x4000 OR shl src 5 OR (data AND 0x1F)) None)"

definition emit_out :: "int \<Rightarrow> int \<Rightarrow> unit asm_act" where
  "emit_out dest0 data =
     (let dest = (if dest0 = 8 then 7 else dest0) in
      act_bind (bit_count_ok data) (\<lambda>_.
      emit_word (0x6000 OR shl dest 5 OR (data AND 0x1F)) None))"

definition push_pull_bits :: "int \<Rightarrow> int \<Rightarrow> int" where
  "push_pull_bits v0 v2 = (let v = v0 OR v2 in (if v AND 1 = 0 then v OR 0x20 else v) AND 0x60)"

definition emit_push :: "int \<Rightarrow> int \<Rightarrow> unit asm_act" where
  "emit_push v v2 = emit_word (0x8000 OR push_pull_bits v v2) None"

definition emit_pull :: "int \<Rightarrow> int \<Rightarrow> unit asm_act" where
  "emit_pull v v2 = emit_word (0x8080 OR push_pull_bits v v2) None"

definition emit_mov :: "int \<Rightarrow> int \<Rightarrow> unit asm_act" where
  "emit_mov dest0 src =
     (let dest = (if dest0 = 8 then 4 else dest0) in emit_word (0xA000 OR shl dest 5 OR src) None)"

definition emit_irq :: "int \<Rightarrow> int \<Rightarrow> unit asm_act" where
  "emit_irq mode index = emit_word (0xC000 OR (mode AND 0x60) OR index) None"

definition emit_set :: "int \<Rightarrow> int \<Rightarrow> unit asm_act" where
  "emit_set dest data = emit_word (0xE000 OR shl dest 5 OR data) None"

text \<open>The names of the DSL.\<close>

definition PIO_FUNCS :: "string \<Rightarrow> int option" where
  "PIO_FUNCS = map_of [(''gpio'', 0), (''pins'', 0), (''x'', 1), (''y'', 2), (''null'', 3),
     (''pindirs'', 4), (''pc'', 5), (''status'', 5), (''isr'', 6), (''osr'', 7), (''exec'', 8),
     (''not_x'', 1), (''x_dec'', 2), (''not_y'', 3), (''y_dec'', 4), (''x_not_y'', 5),
     (''pin'', 6), (''not_osre'', 7), (''noblock'', 0x01), (''block'', 0x21), (''iffull'', 0x40),
     (''ifempty'', 0x40), (''clear'', 0x40)]"

definition dsl :: "string \<Rightarrow> int" where
  "dsl name = (case PIO_FUNCS name of Some v \<Rightarrow> v | None \<Rightarrow> 0)"

definition dsl_invert :: "int \<Rightarrow> int" where "dsl_invert x = x OR 0x08"
definition dsl_reverse :: "int \<Rightarrow> int" where "dsl_reverse x = x OR 0x10"
definition dsl_rel :: "int \<Rightarrow> int" where "dsl_rel x = x OR 0x10"

fun emit_call :: "pio_call \<Rightarrow> unit asm_act" where
  "emit_call Nop = emit_nop"
| "emit_call (Jmp cond label) = emit_jmp cond label"
| "emit_call (Wait polarity src index) = emit_wait polarity src index"
| "emit_call (In src data) = emit_in src data"
| "emit_call (Out dest data) = emit_out dest data"
| "emit_call (Push v v2) = emit_push v v2"
| "emit_call (Pull v v2) = emit_pull v v2"
| "emit_call (Mov dest src) = emit_mov dest src"
| "emit_call (Irq mode index) = emit_irq mode index"
| "emit_call (SetReg dest data) = emit_set dest data"
| "emit_call (Word instr label) = emit_word instr label"

datatype pio_suffix = Side int | Delay int

fun emit_suffix :: "pio_suffix \<Rightarrow> unit asm_act" where
  "emit_suffix (Side v) = emit_side v"
| "emit_suffix (Delay d) = emit_delay d"

datatype pio_stmt = Label string | Wrap_target | Wrap | Instr pio_call "pio_suffix list"

fun emit_stmt :: "pio_stmt \<Rightarrow> unit asm_act" where
  "emit_stmt (Label l) = emit_label l"
| "emit_stmt Wrap_target = emit_wrap_target"
| "emit_stmt Wrap = emit_wrap"
| "emit_stmt (Instr c suffixes) = act_bind (emit_call c) (\<lambda>_. act_for suffixes emit_suffix)"

definition asm_pio :: "asm_options \<Rightarrow> pio_stmt list \<Rightarrow> asm_error + pio_program \<times> (string \<times> int) list" where
  "asm_pio k body =
     fst (act_bind (start_pass 0) (\<lambda>_.
          act_bind (act_for body emit_stmt) (\<lambda>_.
          act_bind (start_pass 1) (\<lambda>_.
          act_bind (act_for body emit_stmt) (\<lambda>_.
          act_get (\<lambda>e. (em_prog e, em_labels e)))))) (new_emitter k))"

section \<open>Configuration from a program\<close>

definition from_program :: "pio_program \<Rightarrow> int \<Rightarrow> bool \<Rightarrow> sm_config" where
  "from_program prog offset rp2350 =
     (let execctrl = pp_execctrl prog; shiftctrl = pp_shiftctrl prog;
          thresh = (\<lambda>t. if t = 0 then 32 else t) in
      default_sm_config\<lparr>
        k_wrap_bottom := (shr execctrl 7 AND 0x1F) + offset,
        k_wrap_top := (shr execctrl 12 AND 0x1F) + offset,
        k_sideset_count := init_count (pp_sideset_init prog),
        k_sideset_opt := has_bit execctrl 30,
        k_sideset_pindir := has_bit execctrl 29,
        k_status_sel := (if rp2350 then shr execctrl 5 AND 3 else shr execctrl 4 AND 1),
        k_status_n := execctrl AND (if rp2350 then 0x1F else 0xF),
        k_in_shift_right := has_bit shiftctrl 18,
        k_out_shift_right := has_bit shiftctrl 19,
        k_autopush := has_bit shiftctrl 16,
        k_autopull := has_bit shiftctrl 17,
        k_push_thresh := thresh (shr shiftctrl 20 AND 0x1F),
        k_pull_thresh := thresh (shr shiftctrl 25 AND 0x1F),
        k_fjoin_tx := has_bit shiftctrl 30,
        k_fjoin_rx := has_bit shiftctrl 31\<rparr>)"

section \<open>Disassembly\<close>

definition JMP_COND :: "string list" where
  "JMP_COND = ['''', ''!x'', ''x--'', ''!y'', ''y--'', ''x!=y'', ''pin'', ''!osre'']"
definition SRC_IN :: "string list" where
  "SRC_IN = [''pins'', ''x'', ''y'', ''null'', ''reserved'', ''reserved'', ''isr'', ''osr'']"
definition DST_OUT :: "string list" where
  "DST_OUT = [''pins'', ''x'', ''y'', ''null'', ''pindirs'', ''pc'', ''isr'', ''exec'']"
definition DST_MOV :: "string list" where
  "DST_MOV = [''pins'', ''x'', ''y'', ''pindirs'', ''exec'', ''pc'', ''isr'', ''osr'']"
definition SRC_MOV :: "string list" where
  "SRC_MOV = [''pins'', ''x'', ''y'', ''null'', ''reserved'', ''status'', ''isr'', ''osr'']"
definition DST_SET :: "string list" where
  "DST_SET = [''pins'', ''x'', ''y'', ''reserved'', ''pindirs'', ''reserved'', ''reserved'', ''reserved'']"

definition low_text :: "int \<Rightarrow> string" where
  "low_text instr =
     (let op = shr instr 13; low = instr AND 0xFF;
          sel = nat (shr low 5 AND 7); n = low AND 0x1F; count = (if n = 0 then 32 else n) in
      if op = 0 then ''jmp '' @ (if sel \<noteq> 0 then JMP_COND ! sel @ '', '' else '''') @ decimal n
      else if op = 1 then ''wait '' @ decimal (shr low 7) @ '' ''
        @ [''gpio'', ''pin'', ''irq'', ''jmppin''] ! nat (shr low 5 AND 3) @ '' '' @ decimal n
      else if op = 2 then ''in '' @ SRC_IN ! sel @ '', '' @ decimal count
      else if op = 3 then ''out '' @ DST_OUT ! sel @ '', '' @ decimal count
      else if op = 4 then
        (if low AND 0x80 \<noteq> 0
         then ''pull'' @ (if low AND 0x40 \<noteq> 0 then '' ifempty'' else '''') @ '' ''
              @ (if low AND 0x20 \<noteq> 0 then ''block'' else ''noblock'')
         else ''push'' @ (if low AND 0x40 \<noteq> 0 then '' iffull'' else '''') @ '' ''
              @ (if low AND 0x20 \<noteq> 0 then ''block'' else ''noblock''))
      else if op = 5 then
        (if instr = 0xA042 then ''nop''
         else ''mov '' @ DST_MOV ! sel @ '', '' @ ['''', ''~'', ''::'', ''?''] ! nat (shr low 3 AND 3)
              @ SRC_MOV ! nat (low AND 7))
      else if op = 6 then
        ''irq '' @ (if low AND 0x40 \<noteq> 0 then ''clear'' else if low AND 0x20 \<noteq> 0 then ''wait'' else ''set'')
        @ '' '' @ decimal n
      else ''set '' @ DST_SET ! sel @ '', '' @ decimal n)"

definition disassemble :: "int \<Rightarrow> int \<Rightarrow> bool \<Rightarrow> string" where
  "disassemble instr sideset_count sideset_opt =
     (let field = shr instr 8 AND 0x1F;
          side_bits = sideset_count + (if sideset_opt then 1 else 0);
          delay = field AND (shl 1 (5 - side_bits) - 1);
          side = (if sideset_count \<noteq> 0 \<and> (\<not> sideset_opt \<or> field AND 0x10 \<noteq> 0)
                  then '' side '' @ decimal (shr field (5 - side_bits) AND (shl 1 sideset_count - 1))
                  else '''')
      in low_text instr @ side @ (if delay \<noteq> 0 then '' ['' @ decimal delay @ '']'' else ''''))"

end
