(* ===== verification/Lockstep_Program.thy ===== *)
theory Lockstep_Program
  imports Pio_Asm
begin

text \<open>
  The lockstep PIO program and the words its host puts: the first part of
  \<open>host/pe_host/ports/pio_lockstep.py\<close>, with the assembled form of the program, evaluated once
  and used by every later proof.
\<close>

section \<open>Addresses and operations\<close>

definition FRAME_CYCLES :: int where "FRAME_CYCLES = 6"
definition ADDR_RDB :: int where "ADDR_RDB = 7"
definition ADDR_WR :: int where "ADDR_WR = 14"
definition ADDR_HALT :: int where "ADDR_HALT = 19"
definition ADDR_CYC :: int where "ADDR_CYC = 21"
definition ADDR_FETCH :: int where "ADDR_FETCH = 24"
definition ADDR_RD :: int where "ADDR_RD = 31"

definition FIXED_FRAMES :: "int \<Rightarrow> int option" where
  "FIXED_FRAMES = map_of [(ADDR_CYC, 1), (ADDR_WR, 1), (ADDR_RD, 8), (ADDR_RDB, 9), (ADDR_HALT, 1)]"

definition EXECCTRL_STATUS :: int where "EXECCTRL_STATUS = 1"
definition INSTR_SET_Y_0 :: int where "INSTR_SET_Y_0 = 0xE040"
definition INSTR_JMP_FETCH :: int where "INSTR_JMP_FETCH = 0x0000 OR ADDR_FETCH"
definition Y_BITS :: int where "Y_BITS = 24"
definition Y_MASK :: int where "Y_MASK = shl 1 Y_BITS - 1"

definition op_cycle :: "int \<Rightarrow> int" where
  "op_cycle ui = ADDR_CYC OR shl (ui AND 0xFF) 5"
definition op_write :: "int \<Rightarrow> int" where
  "op_write ui = ADDR_WR OR shl (ui AND 0xFF) 5"
definition op_read :: "int \<Rightarrow> int" where
  "op_read ui = ADDR_RD OR shl (ui AND 0xFF) 5"
definition op_read_bubble :: "int \<Rightarrow> int" where
  "op_read_bubble ui = ADDR_RDB OR shl (ui AND 0xFF) 5 OR shl (ui AND 0xFF) 13"
definition OP_HALT :: int where "OP_HALT = ADDR_HALT"

section \<open>The program\<close>

definition lockstep_program :: "pio_stmt list" where
  "lockstep_program =
    [Label ''rv_low'',
       Instr (Jmp 0 ''hr_stall'') [Side 1],
     Label ''rv_high'',
       Instr (In (dsl ''x'') 4) [Side 1],
     Label ''hr_n1'',
       Instr Nop [Side 1],
       Instr (In (dsl ''pins'') 4) [Side 1],
       Instr (Out (dsl ''null'') 4) [Side 0, Delay 2],
       Instr (Jmp (dsl ''not_osre'') ''hr_n1'') [Side 1],
       Instr (Jmp 0 ''fetch'') [Side 1, Delay 1],
     Label ''rdb'',
       Instr (Out (dsl ''pins'') 8) [Side 0, Delay 2],
       Instr (Jmp 0 ''rd'') [Side 1, Delay 2],
     Label ''hr_stall'',
       Instr (Jmp (dsl ''y_dec'') ''hr_smp'') [Side 1],
     Label ''hr_smp'',
       Instr (Mov (dsl ''osr'') (dsl ''pins'')) [Side 1],
       Instr (Out (dsl ''x'') 4) [Side 0],
       Instr (Out (dsl ''null'') 1) [Side 0],
       Instr (Out (dsl ''pc'') 1) [Side 0],
     Label ''wr'',
       Instr (Out (dsl ''pins'') 8) [Side 0, Delay 2],
     Label ''hw_e'',
       Instr Nop [Side 1, Delay 1],
       Instr (Jmp (dsl ''pin'') ''fetch'') [Side 1],
       Instr (Jmp (dsl ''y_dec'') ''hw_h'') [Side 0],
     Label ''hw_h'',
       Instr (Jmp 0 ''hw_e'') [Side 0, Delay 1],
     Label ''halt'',
       Instr (Pull (dsl ''block'') 0) [Side 0, Delay 1],
       Instr (Jmp 0 ''cyc0'') [Side 0],
     Label ''cyc'',
       Instr (Out (dsl ''pins'') 8) [Side 0, Delay 2],
     Label ''cyc0'',
       Instr (In (dsl ''y'') 24) [Side 1, Delay 1],
       Instr (In (dsl ''pins'') 8) [Side 1],
     Wrap_target,
     Label ''fetch'',
       Instr (SetReg (dsl ''pins'') 0) [Side 0],
       Instr (Push (dsl ''iffull'') (dsl ''noblock'')) [Side 0],
       Instr (Mov (dsl ''x'') (dsl ''status'')) [Side 0],
       Instr (Jmp (dsl ''not_x'') ''disp'') [Side 1],
       Instr (Jmp (dsl ''y_dec'') ''fetch'') [Side 1, Delay 1],
     Wrap,
     Label ''disp'',
       Instr (Pull 0 0) [Side 1],
       Instr (Out (dsl ''pc'') 5) [Side 1],
     Label ''rd'',
       Instr (Out (dsl ''pins'') 8) [Side 0, Delay 2]]"

definition lockstep_options :: asm_options where
  "lockstep_options = \<lparr>ao_out_init = Many_init (replicate 8 OUT_LOW),
     ao_set_init = Many_init [OUT_LOW, OUT_LOW], ao_sideset_init = One_init OUT_LOW,
     ao_side_pindir = False, ao_in_shiftdir = SHIFT_RIGHT, ao_out_shiftdir = SHIFT_RIGHT,
     ao_autopush = False, ao_autopull = False, ao_push_thresh = 32, ao_pull_thresh = 32,
     ao_fifo_join = JOIN_NONE\<rparr>"

definition build_program :: "asm_error + pio_program" where
  "build_program = and_then (asm_pio lockstep_options lockstep_program) (\<lambda>(prog, labels).
     Inr (prog\<lparr>pp_execctrl := pp_execctrl prog OR EXECCTRL_STATUS\<rparr>))"

section \<open>The assembled program\<close>

definition LOCKSTEP_WORDS :: "int list" where
  "LOCKSTEP_WORDS = [4105, 20516, 45122, 20484, 25188, 4322, 4376, 25096, 4639, 4234, 45280, 24612,
     24673, 24737, 25096, 45378, 4312, 146, 271, 33184, 22, 25096, 20824, 20488, 57344, 32832,
     40997, 4157, 4504, 37024, 28837, 25096]"

definition LOCKSTEP_LABELS :: "(string \<times> int) list" where
  "LOCKSTEP_LABELS = [(''rv_low'', 0), (''rv_high'', 1), (''hr_n1'', 2), (''rdb'', 7),
     (''hr_stall'', 9), (''hr_smp'', 10), (''wr'', 14), (''hw_e'', 15), (''hw_h'', 18),
     (''halt'', 19), (''cyc'', 21), (''cyc0'', 22), (''fetch'', 24), (''disp'', 29), (''rd'', 31)]"

definition LOCKSTEP_PROG :: pio_program where
  "LOCKSTEP_PROG = \<lparr>pp_instr = LOCKSTEP_WORDS, pp_offsets = [- 1, - 1, - 1],
     pp_execctrl = 117760, pp_shiftctrl = 786432, pp_out_init = Many_init (replicate 8 2),
     pp_set_init = Many_init [2, 2], pp_sideset_init = One_init 2\<rparr>"

lemma assembled: "asm_pio lockstep_options lockstep_program = Inr (LOCKSTEP_PROG, LOCKSTEP_LABELS)"
  by code_simp

section \<open>Pin maps\<close>

record pin_map =
  pm_clk :: int
  pm_ui_in :: "int list"
  pm_uo_out :: "int list"

definition PIN_MAP_DB3 :: pin_map where
  "PIN_MAP_DB3 = \<lparr>pm_clk = 16, pm_ui_in = map (\<lambda>i. 17 + i) (py_range 8), pm_uo_out = map (\<lambda>i. 33 + i) (py_range 8)\<rparr>"

definition contiguous :: "int list \<Rightarrow> bool" where
  "contiguous run = list_all (\<lambda>(i, gpio). gpio = hd run + int i) (zip [0..<length run] run)"

text \<open>\<open>None\<close> stands for the \<open>HostError\<close>; the result is the base of the PIO window.\<close>

definition check_pin_map :: "pin_map \<Rightarrow> int option" where
  "check_pin_map m =
     (let ui = pm_ui_in m; uo = pm_uo_out m in
      if length ui \<noteq> 8 \<or> \<not> (6 \<le> length uo \<and> length uo \<le> 8) then None
      else if \<not> contiguous ui \<or> \<not> contiguous uo then None
      else
        let gpios = ui @ uo @ [pm_clk m];
            low = foldl min (hd gpios) gpios; high = foldl max (hd gpios) gpios;
            base = (if low \<ge> 16 then 16 else 0)
        in if high - base > 31 then None else Some base)"

end
