(* ===== verification/Pio_Pathcheck.thy ===== *)
theory Pio_Pathcheck
  imports Lockstep_Program
begin

text \<open>
  The exhaustive check of the clock and pin schedule: \<open>host/pio/pathcheck.py\<close>. A worklist of
  (instruction, frame slot) pairs is explored with both outcomes of every conditional jump and
  every handler an \<open>out pc\<close> can reach; errors are texts in the order the code appends them. An
  address outside the program is Python's \<open>IndexError\<close>.
\<close>

section \<open>One state\<close>

definition DRIVE_SLOT :: int where "DRIVE_SLOT = 3"
definition SAMPLE_SLOT :: int where "SAMPLE_SLOT = 2"
definition HIGH_SLOTS :: "int list" where "HIGH_SLOTS = [0, 1, 2]"

definition template_side :: "int \<Rightarrow> int" where
  "template_side slot = (if slot \<in> set HIGH_SLOTS then 1 else 0)"

definition py_quote :: "string \<Rightarrow> string" where
  "py_quote s = CHR 0x27 # s @ [CHR 0x27]"

definition at_instr :: "int \<Rightarrow> int \<Rightarrow> string" where
  "at_instr pc instr = decimal pc @ '' '' @ py_quote (disassemble instr 1 False)"

definition side_bit :: "int \<Rightarrow> int" where "side_bit instr = shr instr 12 AND 1"
definition delay_bits :: "int \<Rightarrow> int" where "delay_bits instr = shr instr 8 AND 0xF"

definition dest_of :: "int \<Rightarrow> int" where "dest_of instr = shr (instr AND 0xFF) 5 AND 7"

definition writes_pins :: "int \<Rightarrow> bool" where
  "writes_pins instr =
     (let op = shr instr 13 in
      op = 3 \<and> dest_of instr \<in> {0, 4} \<or> op = 7 \<and> dest_of instr \<in> {0, 4}
      \<or> op = 5 \<and> dest_of instr \<in> {0, 3})"

definition reads_pins :: "int \<Rightarrow> bool" where
  "reads_pins instr =
     (let op = shr instr 13 in
      op = 2 \<and> dest_of instr = 0 \<or> op = 5 \<and> (instr AND 0xFF) AND 7 = 0
      \<or> op = 0 \<and> dest_of instr = 6 \<or> op = 1)"

definition may_block :: "int \<Rightarrow> bool" where
  "may_block instr \<longleftrightarrow> shr instr 13 = 4 \<and> (instr AND 0xFF) AND 0x20 \<noteq> 0"

definition fall_through :: "int \<Rightarrow> int \<Rightarrow> int \<Rightarrow> int" where
  "fall_through wrap_bottom wrap_top pc = (if pc = wrap_top then wrap_bottom else (pc + 1) AND 31)"

definition side_errors :: "int \<Rightarrow> int \<Rightarrow> int \<Rightarrow> string list" where
  "side_errors pc instr slot =
     concat (map (\<lambda>k. let s = (slot + k) mod 6 in
       if template_side s \<noteq> side_bit instr
       then [at_instr pc instr @ '' at slot '' @ decimal slot @ '': side '' @ decimal (side_bit instr)
             @ '' over slot '' @ decimal s]
       else []) (py_range (delay_bits instr + 1)))"

definition pin_errors :: "int \<Rightarrow> int \<Rightarrow> int \<Rightarrow> string list" where
  "pin_errors pc instr slot =
     (if writes_pins instr \<and> slot \<noteq> DRIVE_SLOT
      then [at_instr pc instr @ '' drives ui_in at slot '' @ decimal slot] else [])
   @ (if reads_pins instr \<and> slot \<noteq> SAMPLE_SLOT
      then [at_instr pc instr @ '' samples uo_out at slot '' @ decimal slot] else [])"

text \<open>The successors of a state and the errors of its jump.\<close>

definition successors :: "int list \<Rightarrow> int \<Rightarrow> int \<Rightarrow> int \<Rightarrow> string list \<times> int list" where
  "successors handlers fall pc instr =
     (let op = shr instr 13; cond = dest_of instr; target = (instr AND 0xFF) AND 0x1F in
      if op = 0 then
        (if cond = 4 \<or> cond = 2
         then (if target \<noteq> fall then [at_instr pc instr @ '': X--/Y-- target differs from fall-through'']
               else [], [target])
         else if cond = 0 then ([], [target])
         else ([], [target, fall]))
      else if op = 3 \<and> cond = 5 then
        ([], if target = 5 then handlers else py_range (shl 1 target))
      else ([], [fall]))"

section \<open>The exploration\<close>

record path_acc =
  pa_seen :: "(int \<times> int) list"
  pa_errors :: "string list"
  pa_drives :: "int list"
  pa_samples :: "int list"
  pa_blocking :: "int list"

definition visit :: "int list \<Rightarrow> int \<Rightarrow> int \<Rightarrow> int \<Rightarrow> int \<Rightarrow> path_acc \<Rightarrow> path_acc" where
  "visit handlers fall instr pc slot acc =
     acc\<lparr>pa_seen := (pc, slot) # pa_seen acc,
         pa_errors := pa_errors acc @ side_errors pc instr slot @ pin_errors pc instr slot
           @ fst (successors handlers fall pc instr),
         pa_drives := (if writes_pins instr then List.insert pc (pa_drives acc) else pa_drives acc),
         pa_samples := (if reads_pins instr then List.insert pc (pa_samples acc) else pa_samples acc),
         pa_blocking := (if may_block instr then List.insert pc (pa_blocking acc) else pa_blocking acc)\<rparr>"

definition next_slot :: "int \<Rightarrow> int \<Rightarrow> int" where
  "next_slot instr slot = (slot + delay_bits instr + 1) mod 6"

text \<open>The worklist as a stack, its top first; \<open>Inl pc\<close> is the \<open>IndexError\<close>.\<close>

function explore ::
  "int list \<Rightarrow> int \<Rightarrow> int \<Rightarrow> int list \<Rightarrow> (int \<times> int) list \<Rightarrow> path_acc \<Rightarrow> int + path_acc" where
  "explore mem wb wt handlers [] acc = Inr acc"
| "explore mem wb wt handlers ((pc, slot) # todo) acc =
     (if (pc, slot) \<in> set (pa_seen acc) then explore mem wb wt handlers todo acc
      else if pc < 0 \<or> int (length mem) \<le> pc then Inl pc
      else
        let instr = mem ! nat pc; fall = fall_through wb wt pc;
            succ = map (\<lambda>t. (t, next_slot instr slot)) (snd (successors handlers fall pc instr))
        in explore mem wb wt handlers (rev succ @ todo) (visit handlers fall instr pc slot acc))"
  by pat_completeness auto

definition unseen :: "int list \<Rightarrow> (int \<times> int) list \<Rightarrow> path_acc \<Rightarrow> (int \<times> int) set" where
  "unseen mem todo acc = {0..<int (length mem)} \<times> ({0..<6} \<union> snd ` set todo) - set (pa_seen acc)"

lemma finite_unseen: "finite (unseen mem todo acc)"
  by (simp add: unseen_def)

lemma unseen_skip:
  "card (unseen mem todo acc) \<le> card (unseen mem (st # todo) acc)"
  by (rule card_mono [OF finite_unseen]) (auto simp: unseen_def)

lemma unseen_visit:
  assumes "(pc, slot) \<notin> set (pa_seen acc)" "0 \<le> pc" "pc < int (length mem)"
    "snd ` set succ \<subseteq> {0..<6}" "set (pa_seen acc') = insert (pc, slot) (set (pa_seen acc))"
  shows "card (unseen mem (succ @ todo) acc') < card (unseen mem ((pc, slot) # todo) acc)"
proof (rule psubset_card_mono [OF finite_unseen])
  have "unseen mem (succ @ todo) acc' \<subseteq> unseen mem ((pc, slot) # todo) acc"
    using assms(4,5) unfolding unseen_def by (auto 4 3)
  moreover have "(pc, slot) \<in> unseen mem ((pc, slot) # todo) acc"
    using assms by (auto simp: unseen_def)
  moreover have "(pc, slot) \<notin> unseen mem (succ @ todo) acc'"
    using assms by (auto simp: unseen_def)
  ultimately show "unseen mem (succ @ todo) acc' \<subset> unseen mem ((pc, slot) # todo) acc"
    by blast
qed

termination explore
proof (relation "measures [\<lambda>(mem, wb, wt, handlers, todo, acc). card (unseen mem todo acc),
    \<lambda>(mem, wb, wt, handlers, todo, acc). length todo]", goal_cases)
  case (2 mem wb wt handlers pc slot todo acc)
  then show ?case using unseen_skip [of mem todo acc "(pc, slot)"] by auto
next
  case (3 mem wb wt handlers pc slot todo acc instr fall succ)
  have "card (unseen mem (rev succ @ todo) (visit handlers fall instr pc slot acc))
      < card (unseen mem ((pc, slot) # todo) acc)"
    by (rule unseen_visit) (use 3 in \<open>auto simp: visit_def next_slot_def\<close>)
  then show ?case by simp
qed simp

section \<open>The report\<close>

record path_report =
  pr_errors :: "string list"
  pr_states :: int
  pr_reached :: "int list"
  pr_unreached :: "int list"
  pr_drives :: "int list"
  pr_samples :: "int list"
  pr_blocking :: "int list"
  pr_slots :: "(int \<times> int) list"

definition empty_acc :: path_acc where
  "empty_acc = \<lparr>pa_seen = [], pa_errors = [], pa_drives = [], pa_samples = [], pa_blocking = []\<rparr>"

definition default_handlers :: "int list" where
  "default_handlers = [ADDR_RD, ADDR_RDB, ADDR_WR, ADDR_HALT, ADDR_CYC]"

definition allowed_blocking :: "(string \<times> int) list \<Rightarrow> int list" where
  "allowed_blocking labels = (if labels = [] then []
     else [the (map_of labels ''disp''), the (map_of labels ''halt'')])"

definition check_program ::
  "pio_program \<Rightarrow> (string \<times> int) list \<Rightarrow> int list \<Rightarrow> int + path_report" where
  "check_program prog labels handlers =
     (let mem = pp_instr prog; execctrl = pp_execctrl prog;
          wb = shr execctrl 7 AND 0x1F; wt = shr execctrl 12 AND 0x1F in
      and_then (explore mem wb wt handlers [(ADDR_FETCH, DRIVE_SLOT)] empty_acc) (\<lambda>acc.
      let bad = filter (\<lambda>pc. pc \<notin> set (allowed_blocking labels)) (sort (pa_blocking acc));
          reached = sort (remdups (map fst (pa_seen acc)))
      in Inr \<lparr>pr_errors = pa_errors acc @ map (\<lambda>pc. at_instr pc (mem ! nat pc) @ '' blocks'') bad,
              pr_states = int (length (pa_seen acc)),
              pr_reached = reached,
              pr_unreached = filter (\<lambda>pc. pc \<notin> set reached) (map int [0..<length mem]),
              pr_drives = sort (pa_drives acc), pr_samples = sort (pa_samples acc),
              pr_blocking = sort (pa_blocking acc),
              pr_slots = sort_key fst (sort_key snd (pa_seen acc))\<rparr>))"

end
