(* ===== verification/Pio_Schedule.thy ===== *)
theory Pio_Schedule
  imports Pio_Pathcheck
begin

text \<open>
  The path check is sound for the simulator. The explored set is closed under the successors of
  its states, so every path the check describes obeys its rules; and every instruction the
  simulator executes moves to a successor, applies its side-set level and drives other pins only
  where the check allows it.
\<close>

section \<open>Closure of the exploration\<close>

definition path_next :: "int list \<Rightarrow> int \<Rightarrow> int \<Rightarrow> int list \<Rightarrow> int \<Rightarrow> int \<Rightarrow> (int \<times> int) list" where
  "path_next mem wb wt handlers pc slot =
     map (\<lambda>t. (t, next_slot (mem ! nat pc) slot))
       (snd (successors handlers (fall_through wb wt pc) pc (mem ! nat pc)))"

definition path_errors :: "int list \<Rightarrow> int \<Rightarrow> int \<Rightarrow> int list \<Rightarrow> int \<Rightarrow> int \<Rightarrow> string list" where
  "path_errors mem wb wt handlers pc slot =
     side_errors pc (mem ! nat pc) slot @ pin_errors pc (mem ! nat pc) slot
     @ fst (successors handlers (fall_through wb wt pc) pc (mem ! nat pc))"

inductive path_reach :: "int list \<Rightarrow> int \<Rightarrow> int \<Rightarrow> int list \<Rightarrow> int \<Rightarrow> int \<Rightarrow> bool"
  for mem wb wt handlers where
  path_start: "path_reach mem wb wt handlers ADDR_FETCH DRIVE_SLOT"
| path_step: "path_reach mem wb wt handlers pc slot \<Longrightarrow> (pc', slot') \<in> set (path_next mem wb wt handlers pc slot)
    \<Longrightarrow> path_reach mem wb wt handlers pc' slot'"

definition acc_ok :: "int list \<Rightarrow> int \<Rightarrow> int \<Rightarrow> int list \<Rightarrow> (int \<times> int) list \<Rightarrow> path_acc \<Rightarrow> bool" where
  "acc_ok mem wb wt handlers todo acc \<longleftrightarrow>
     (\<forall>(pc, slot) \<in> set (pa_seen acc).
        0 \<le> pc \<and> pc < int (length mem)
        \<and> set (path_next mem wb wt handlers pc slot) \<subseteq> set (pa_seen acc) \<union> set todo
        \<and> set (path_errors mem wb wt handlers pc slot) \<subseteq> set (pa_errors acc)
        \<and> (may_block (mem ! nat pc) \<longrightarrow> pc \<in> set (pa_blocking acc)))"

lemma visit_fields [simp]:
  "pa_seen (visit handlers fall instr pc slot acc) = (pc, slot) # pa_seen acc"
  "set (pa_errors (visit handlers fall instr pc slot acc)) = set (pa_errors acc)
     \<union> set (side_errors pc instr slot) \<union> set (pin_errors pc instr slot)
     \<union> set (fst (successors handlers fall pc instr))"
  "set (pa_blocking (visit handlers fall instr pc slot acc)) =
     (if may_block instr then insert pc (set (pa_blocking acc)) else set (pa_blocking acc))"
  by (auto simp: visit_def)

lemma acc_ok_visit:
  assumes "acc_ok mem wb wt handlers ((pc, slot) # todo) acc" "0 \<le> pc" "pc < int (length mem)"
  shows "acc_ok mem wb wt handlers (rev (path_next mem wb wt handlers pc slot) @ todo)
    (visit handlers (fall_through wb wt pc) (mem ! nat pc) pc slot acc)"
  unfolding acc_ok_def
proof (clarify)
  fix p q
  assume "(p, q) \<in> set (pa_seen (visit handlers (fall_through wb wt pc) (mem ! nat pc) pc slot acc))"
  then consider "p = pc" "q = slot" | "(p, q) \<in> set (pa_seen acc)" by auto
  then show "0 \<le> p \<and> p < int (length mem)
        \<and> set (path_next mem wb wt handlers p q)
            \<subseteq> set (pa_seen (visit handlers (fall_through wb wt pc) (mem ! nat pc) pc slot acc))
              \<union> set (rev (path_next mem wb wt handlers pc slot) @ todo)
        \<and> set (path_errors mem wb wt handlers p q)
            \<subseteq> set (pa_errors (visit handlers (fall_through wb wt pc) (mem ! nat pc) pc slot acc))
        \<and> (may_block (mem ! nat p) \<longrightarrow> p \<in> set (pa_blocking
             (visit handlers (fall_through wb wt pc) (mem ! nat pc) pc slot acc)))"
  proof cases
    case 1
    then show ?thesis using assms(2,3) by (auto simp: path_errors_def)
  next
    case 2
    with assms(1) have "0 \<le> p \<and> p < int (length mem)
        \<and> set (path_next mem wb wt handlers p q) \<subseteq> set (pa_seen acc) \<union> set ((pc, slot) # todo)
        \<and> set (path_errors mem wb wt handlers p q) \<subseteq> set (pa_errors acc)
        \<and> (may_block (mem ! nat p) \<longrightarrow> p \<in> set (pa_blocking acc))"
      unfolding acc_ok_def by blast
    then show ?thesis by auto
  qed
qed

lemma explore_closed:
  "explore mem wb wt handlers todo acc = Inr acc' \<Longrightarrow> acc_ok mem wb wt handlers todo acc \<Longrightarrow>
   acc_ok mem wb wt handlers [] acc' \<and> set (pa_seen acc) \<union> set todo \<subseteq> set (pa_seen acc')"
proof (induction mem wb wt handlers todo acc rule: explore.induct)
  case (2 mem wb wt handlers pc slot todo acc)
  show ?case
  proof (cases "(pc, slot) \<in> set (pa_seen acc)")
    case True
    have "set (pa_seen acc) \<union> set ((pc, slot) # todo) = set (pa_seen acc) \<union> set todo"
      using True by auto
    with 2(4) have ok: "acc_ok mem wb wt handlers todo acc"
      unfolding acc_ok_def by (simp only:)
    have "explore mem wb wt handlers todo acc = Inr acc'"
      using 2(3) True by simp
    from 2(1) [OF True this ok] True show ?thesis by auto
  next
    case False
    then have r: "0 \<le> pc" "pc < int (length mem)" using 2(3) by (auto split: if_splits)
    with False have nb: "\<not> (pc < 0 \<or> int (length mem) \<le> pc)" by simp
    have e: "explore mem wb wt handlers (rev (path_next mem wb wt handlers pc slot) @ todo)
        (visit handlers (fall_through wb wt pc) (mem ! nat pc) pc slot acc) = Inr acc'"
      using 2(3) False nb by (simp add: Let_def path_next_def)
    from 2(2) [OF False nb refl refl refl] e acc_ok_visit [OF 2(4) r]
    show ?thesis unfolding path_next_def by auto
  qed
qed simp

text \<open>What the rules say of one state.\<close>

definition state_rules :: "int list \<Rightarrow> int \<Rightarrow> int \<Rightarrow> int \<Rightarrow> int \<Rightarrow> bool" where
  "state_rules mem wb wt pc slot \<longleftrightarrow>
     (let instr = mem ! nat pc in
      0 \<le> pc \<and> pc < int (length mem)
      \<and> (\<forall>k. 0 \<le> k \<and> k \<le> delay_bits instr \<longrightarrow> template_side ((slot + k) mod 6) = side_bit instr)
      \<and> (writes_pins instr \<longrightarrow> slot = DRIVE_SLOT) \<and> (reads_pins instr \<longrightarrow> slot = SAMPLE_SLOT)
      \<and> (shr instr 13 = 0 \<and> dest_of instr \<in> {2, 4} \<longrightarrow>
           (instr AND 0xFF) AND 0x1F = fall_through wb wt pc))"

lemma no_path_errors:
  assumes "path_errors mem wb wt handlers pc slot = []" "0 \<le> pc" "pc < int (length mem)"
  shows "state_rules mem wb wt pc slot"
proof -
  let ?i = "mem ! nat pc"
  have e: "side_errors pc ?i slot = []" "pin_errors pc ?i slot = []"
    "fst (successors handlers (fall_through wb wt pc) pc ?i) = []"
    using assms(1) by (simp_all add: path_errors_def)
  have "\<forall>k. 0 \<le> k \<and> k \<le> delay_bits ?i \<longrightarrow> template_side ((slot + k) mod 6) = side_bit ?i"
  proof (intro allI impI)
    fix k assume k: "0 \<le> k \<and> k \<le> delay_bits ?i"
    let ?f = "\<lambda>k. let s = (slot + k) mod 6 in
       if template_side s \<noteq> side_bit ?i
       then [at_instr pc ?i @ '' at slot '' @ decimal slot @ '': side '' @ decimal (side_bit ?i)
             @ '' over slot '' @ decimal s]
       else []"
    have "\<forall>x \<in> set (py_range (delay_bits ?i + 1)). ?f x = []"
      using e(1) unfolding side_errors_def concat_eq_Nil_conv set_map by (rule_tac ballI) blast
    then have "?f k = []" using k by (simp only: set_py_range) simp
    then show "template_side ((slot + k) mod 6) = side_bit ?i" by (simp add: Let_def split: if_splits)
  qed
  moreover have "(writes_pins ?i \<longrightarrow> slot = DRIVE_SLOT) \<and> (reads_pins ?i \<longrightarrow> slot = SAMPLE_SLOT)"
    using e(2) by (simp add: pin_errors_def split: if_splits)
  moreover have "shr ?i 13 = 0 \<and> dest_of ?i \<in> {2, 4} \<longrightarrow> (?i AND 0xFF) AND 0x1F = fall_through wb wt pc"
    using e(3) by (simp add: successors_def Let_def split: if_splits)
  ultimately show ?thesis
    using assms(2,3) unfolding state_rules_def Let_def by blast
qed

definition rules_hold :: "pio_program \<Rightarrow> (string \<times> int) list \<Rightarrow> int list \<Rightarrow> bool" where
  "rules_hold prog labels handlers \<longleftrightarrow>
     (\<exists>r. check_program prog labels handlers = Inr r \<and> pr_errors r = [])"

abbreviation wrap_low :: "pio_program \<Rightarrow> int" where
  "wrap_low prog \<equiv> shr (pp_execctrl prog) 7 AND 0x1F"
abbreviation wrap_high :: "pio_program \<Rightarrow> int" where
  "wrap_high prog \<equiv> shr (pp_execctrl prog) 12 AND 0x1F"

lemma checked_states:
  assumes "check_program prog labels handlers = Inr r" "pr_errors r = []"
    "path_reach (pp_instr prog) (wrap_low prog) (wrap_high prog) handlers pc slot"
  shows "state_rules (pp_instr prog) (wrap_low prog) (wrap_high prog) pc slot
    \<and> (may_block (pp_instr prog ! nat pc) \<longrightarrow> pc \<in> set (allowed_blocking labels))"
proof -
  let ?mem = "pp_instr prog" and ?wb = "wrap_low prog" and ?wt = "wrap_high prog"
  from assms(1) obtain acc where acc:
    "explore ?mem ?wb ?wt handlers [(ADDR_FETCH, DRIVE_SLOT)] empty_acc = Inr acc"
    and r: "pr_errors r = pa_errors acc @ map (\<lambda>pc. at_instr pc (?mem ! nat pc) @ '' blocks'')
      (filter (\<lambda>pc. pc \<notin> set (allowed_blocking labels)) (sort (pa_blocking acc)))"
    by (auto simp: check_program_def and_then_Inr_iff Let_def)
  have "acc_ok ?mem ?wb ?wt handlers [(ADDR_FETCH, DRIVE_SLOT)] empty_acc"
    by (simp add: acc_ok_def empty_acc_def)
  from explore_closed [OF acc this] have ok: "acc_ok ?mem ?wb ?wt handlers [] acc"
    and start: "(ADDR_FETCH, DRIVE_SLOT) \<in> set (pa_seen acc)" by auto
  have seen: "(pc, slot) \<in> set (pa_seen acc)"
    using assms(3)
  proof (induction rule: path_reach.induct)
    case (path_step pc slot pc' slot')
    with ok show ?case by (force simp: acc_ok_def)
  qed (rule start)
  from ok seen have s: "0 \<le> pc" "pc < int (length ?mem)"
    "set (path_errors ?mem ?wb ?wt handlers pc slot) \<subseteq> set (pa_errors acc)"
    "may_block (?mem ! nat pc) \<longrightarrow> pc \<in> set (pa_blocking acc)"
    by (auto simp: acc_ok_def)
  have "pa_errors acc = []" using assms(2) r by simp
  with s have "path_errors ?mem ?wb ?wt handlers pc slot = []" by simp
  from no_path_errors [OF this s(1,2)] have "state_rules ?mem ?wb ?wt pc slot" .
  moreover have "filter (\<lambda>pc. pc \<notin> set (allowed_blocking labels)) (sort (pa_blocking acc)) = []"
    using assms(2) r by simp
  then have "\<forall>pc \<in> set (pa_blocking acc). pc \<in> set (allowed_blocking labels)"
    by (simp add: filter_empty_conv)
  ultimately show ?thesis using s(4) by blast
qed

lemma lockstep_checked:
  "map_sum id pr_errors (check_program LOCKSTEP_PROG LOCKSTEP_LABELS default_handlers) = Inr []"
  by code_simp

lemma lockstep_report:
  obtains r where "check_program LOCKSTEP_PROG LOCKSTEP_LABELS default_handlers = Inr r" "pr_errors r = []"
  using lockstep_checked
  by (cases "check_program LOCKSTEP_PROG LOCKSTEP_LABELS default_handlers") auto

end
