(* ===== verification/Pio_Clock.thy ===== *)
theory Pio_Clock
  imports Pio_Schedule
begin

text \<open>
  Simulation steps follow the checked paths. A run of a state machine with one side-set pin keeps
  the clock pin at the level of the frame slot, whatever the data, the pins and the queues do.
\<close>

section \<open>What an instruction leaves alone\<close>

lemma write_pins_frame [simp]:
  "b_mem (write_pins b base count v dirs) = b_mem b"
  "b_irq (write_pins b base count v dirs) = b_irq b"
  "b_rp2350 (write_pins b base count v dirs) = b_rp2350 b"
  "b_sms (write_pins b base count v dirs) = b_sms b"
proof -
  have "b_mem (foldl (\<lambda>b i. let pin = (base + i) AND 31; level = shr v i AND 1 in
         if dirs then b\<lparr>b_oe := set_pin (b_oe b) pin level\<rparr>
         else b\<lparr>b_out := set_pin (b_out b) pin level\<rparr>) b xs) = b_mem b
      \<and> b_irq (foldl (\<lambda>b i. let pin = (base + i) AND 31; level = shr v i AND 1 in
         if dirs then b\<lparr>b_oe := set_pin (b_oe b) pin level\<rparr>
         else b\<lparr>b_out := set_pin (b_out b) pin level\<rparr>) b xs) = b_irq b
      \<and> b_rp2350 (foldl (\<lambda>b i. let pin = (base + i) AND 31; level = shr v i AND 1 in
         if dirs then b\<lparr>b_oe := set_pin (b_oe b) pin level\<rparr>
         else b\<lparr>b_out := set_pin (b_out b) pin level\<rparr>) b xs) = b_rp2350 b
      \<and> b_sms (foldl (\<lambda>b i. let pin = (base + i) AND 31; level = shr v i AND 1 in
         if dirs then b\<lparr>b_oe := set_pin (b_oe b) pin level\<rparr>
         else b\<lparr>b_out := set_pin (b_out b) pin level\<rparr>) b xs) = b_sms b" for xs
    by (induction xs arbitrary: b) (simp_all add: Let_def)
  then show "b_mem (write_pins b base count v dirs) = b_mem b"
    "b_irq (write_pins b base count v dirs) = b_irq b"
    "b_rp2350 (write_pins b base count v dirs) = b_rp2350 b"
    "b_sms (write_pins b base count v dirs) = b_sms b"
    by (simp_all add: write_pins_def)
qed

lemma write_levels_oe [simp]: "b_oe (write_pins b base count v False) = b_oe b"
proof -
  have "b_oe (foldl (\<lambda>b i. let pin = (base + i) AND 31; level = shr v i AND 1 in
         if False then b\<lparr>b_oe := set_pin (b_oe b) pin level\<rparr>
         else b\<lparr>b_out := set_pin (b_out b) pin level\<rparr>) b xs) = b_oe b" for xs
    by (induction xs arbitrary: b) (simp_all add: Let_def)
  then show ?thesis by (simp add: write_pins_def)
qed

lemma write_dirs_out [simp]: "b_out (write_pins b base count v True) = b_out b"
proof -
  have "b_out (foldl (\<lambda>b i. let pin = (base + i) AND 31; level = shr v i AND 1 in
         if True then b\<lparr>b_oe := set_pin (b_oe b) pin level\<rparr>
         else b\<lparr>b_out := set_pin (b_out b) pin level\<rparr>) b xs) = b_out b" for xs
    by (induction xs arbitrary: b) (simp_all add: Let_def)
  then show ?thesis by (simp add: write_pins_def)
qed

lemma write_one_pin:
  "write_pins b base 1 v False = b\<lparr>b_out := set_pin (b_out b) (base AND 31) (v AND 1)\<rparr>"
  by (simp add: write_pins_def py_range_def Let_def)

definition kept :: "state_machine \<Rightarrow> state_machine \<Rightarrow> bool" where
  "kept s s' \<longleftrightarrow> sm_config s' = sm_config s \<and> sm_enabled s' = sm_enabled s \<and> sm_forced s' = sm_forced s
     \<and> sm_delay s' = sm_delay s \<and> sm_exec_next s' = sm_exec_next s
     \<and> sm_div_count s' = sm_div_count s"

lemma refill_kept [simp]:
  "kept s (refill s)" "sm_pc (refill s) = sm_pc s" "sm_stalled (refill s) = sm_stalled s"
  by (simp_all add: kept_def refill_def)

lemma background_kept:
  "kept s (background_pull s)" "sm_pc (background_pull s) = sm_pc s"
  "sm_stalled (background_pull s) = sm_stalled s"
  by (simp_all add: background_pull_def kept_def refill_def)

lemma pio_shift_out_kept:
  "pio_shift_out s n = (s', data) \<Longrightarrow> kept s s' \<and> sm_pc s' = sm_pc s \<and> sm_tx s' = sm_tx s"
  by (auto simp: pio_shift_out_def kept_def Let_def split: if_splits)

lemma pio_shift_out_range:
  assumes "pio_shift_out s n = (s', data)" "0 < n" "n < 32"
  shows "0 \<le> data \<and> data < 2 ^ nat n"
proof -
  have "ones n = mask (nat n)" using assms(2,3) by (simp add: ones_def mask_eq_exp_minus_1)
  moreover have "\<exists>x. data = x AND ones n"
    using assms by (auto simp: pio_shift_out_def Let_def split: if_splits)
  ultimately show ?thesis using and_mask_bounds by metis
qed

section \<open>Instructions the path check follows\<close>

text \<open>The check follows neither \<open>WAIT\<close> and \<open>IRQ\<close>, which may stall, nor \<open>MOV PC\<close>, \<open>OUT EXEC\<close> and
  \<open>MOV EXEC\<close>, which jump or insert an instruction, nor a 32-bit \<open>OUT PC\<close>.\<close>

definition followed :: "int \<Rightarrow> bool" where
  "followed instr \<longleftrightarrow> (let op = shr instr 13 in
     op \<in> {0, 2, 3, 4, 5, 7} \<and> \<not> (op = 5 \<and> dest_of instr \<in> {4, 5}) \<and> \<not> (op = 3 \<and> dest_of instr = 7)
     \<and> \<not> (op = 3 \<and> dest_of instr = 5 \<and> (instr AND 0xFF) AND 0x1F = 0))"

lemma dest_cases: "dest_of instr \<in> {0, 1, 2, 3, 4, 5, 6, 7}"
proof -
  have "0 \<le> dest_of instr" "dest_of instr < 8"
    using and_mask_bounds [of "shr (instr AND 0xFF) 5" 3] by (simp_all add: dest_of_def mask_eq_exp_minus_1)
  then show ?thesis by auto
qed

definition plain_config :: "sm_config \<Rightarrow> bool" where
  "plain_config c \<longleftrightarrow> k_clkdiv c \<le> 1 \<and> k_sideset_count c = 1 \<and> \<not> k_sideset_opt c \<and> \<not> k_sideset_pindir c
     \<and> \<not> k_autopush c \<and> \<not> k_autopull c \<and> 0 \<le> k_sideset_base c \<and> k_sideset_base c \<le> 31"

text \<open>Where an executed instruction leaves the program counter.\<close>

definition jump_ok :: "int \<Rightarrow> state_machine \<Rightarrow> state_machine \<Rightarrow> bool \<Rightarrow> bool" where
  "jump_ok instr s s' jumped \<longleftrightarrow>
     (if jumped
      then shr instr 13 = 0 \<and> sm_pc s' = (instr AND 0xFF) AND 0x1F
        \<or> shr instr 13 = 3 \<and> dest_of instr = 5
          \<and> 0 \<le> sm_pc s' \<and> sm_pc s' < 2 ^ nat ((instr AND 0xFF) AND 0x1F)
      else sm_pc s' = sm_pc s \<and> \<not> (shr instr 13 = 0 \<and> dest_of instr = 0)
        \<and> \<not> (shr instr 13 = 3 \<and> dest_of instr = 5))"

definition pulls :: "int \<Rightarrow> bool" where
  "pulls instr \<longleftrightarrow> shr instr 13 = 4 \<and> (instr AND 0xFF) AND 0x80 \<noteq> 0"

definition writes_dirs :: "int \<Rightarrow> bool" where
  "writes_dirs instr \<longleftrightarrow> (let op = shr instr 13 in
     op \<in> {3, 7} \<and> dest_of instr = 4 \<or> op = 5 \<and> dest_of instr = 3)"

definition executed_ok :: "int \<Rightarrow> state_machine \<Rightarrow> pio_block \<Rightarrow> state_machine \<Rightarrow> pio_block \<Rightarrow> bool \<Rightarrow> bool \<Rightarrow> bool" where
  "executed_ok instr s b s' b' stalled jumped \<longleftrightarrow>
     kept s s' \<and> b_mem b' = b_mem b \<and> b_sms b' = b_sms b
     \<and> (if stalled then may_block instr \<and> sm_pc s' = sm_pc s else jump_ok instr s s' jumped)
     \<and> (\<not> writes_pins instr \<longrightarrow> b_out b' = b_out b)
     \<and> (\<not> pulls instr \<longrightarrow> sm_tx s' = sm_tx s)
     \<and> (\<not> writes_dirs instr \<longrightarrow> b_oe b' = b_oe b)"

lemma exec_jmp_ok:
  assumes "exec_jmp s b (instr AND 0xFF) visible = Inr (s', b', stalled, jumped)" "shr instr 13 = 0"
  shows "executed_ok instr s b s' b' stalled jumped"
  using assms
  by (auto simp: exec_jmp_def Let_def executed_ok_def jump_ok_def kept_def dest_of_def
    split: if_splits)

lemma exec_in_ok:
  assumes "exec_in s b (instr AND 0xFF) visible = Inr (s', b', stalled, jumped)" "shr instr 13 = 2"
    "plain_config (sm_config s)"
  shows "executed_ok instr s b s' b' stalled jumped"
proof -
  have "\<not> k_autopush (sm_config s)" using assms(3) by (simp add: plain_config_def)
  moreover from assms(1) obtain data where
    "(let (isr, count) = shift_in_value s data ((instr AND 0xFF) AND 0x1F) in
     if k_autopush (sm_config s) \<and> count \<ge> k_push_thresh (sm_config s)
     then (if int (length (sm_rx s)) \<ge> rx_depth s
           then Inr (s\<lparr>sm_rxstall := True\<rparr>, b, True, False)
           else Inr (s\<lparr>sm_rx := sm_rx s @ [isr], sm_isr := 0, sm_isr_count := 0\<rparr>, b, False, False))
     else Inr (s\<lparr>sm_isr := isr, sm_isr_count := count\<rparr>, b, False, False))
     = (Inr (s', b', stalled, jumped) :: outcome)"
    by (auto simp only: exec_in_def and_then_Inr_iff)
  moreover obtain isr count where "shift_in_value s data ((instr AND 0xFF) AND 0x1F) = (isr, count)"
    by (cases "shift_in_value s data ((instr AND 0xFF) AND 0x1F)")
  ultimately have "s' = s\<lparr>sm_isr := isr, sm_isr_count := count\<rparr>" "b' = b" "\<not> stalled" "\<not> jumped"
    by simp_all
  then show ?thesis using assms(2) by (simp add: executed_ok_def jump_ok_def kept_def)
qed

lemma exec_out_ok:
  assumes "exec_out s b (instr AND 0xFF) = Inr (s', b', stalled, jumped)" "shr instr 13 = 3"
    "plain_config (sm_config s)" "followed instr"
  shows "executed_ok instr s b s' b' stalled jumped"
proof -
  let ?n = "(instr AND 0xFF) AND 0x1F"
  obtain s1 data where so: "pio_shift_out s ?n = (s1, data)" by (cases "pio_shift_out s ?n")
  note k = pio_shift_out_kept [OF so]
  have na: "\<not> k_autopull (sm_config s)" using assms(3) by (simp add: plain_config_def)
  have n: "0 \<le> ?n" "?n < 32" using and_mask_bounds [of "instr AND 0xFF" 5]
    by (simp_all add: mask_eq_exp_minus_1)
  have pc: "0 \<le> data AND 0x1F \<and> data AND 0x1F < 2 ^ nat ?n" if "dest_of instr = 5"
  proof -
    have "?n \<noteq> 0" using assms(2,4) that unfolding followed_def Let_def by blast
    then have "0 < ?n" using n(1) by linarith
    from pio_shift_out_range [OF so this n(2)] have d: "0 \<le> data" "data < 2 ^ nat ?n" by simp_all
    have "data AND 0x1F \<le> data" by (rule AND_upper1) (rule d(1))
    then show ?thesis using d by simp
  qed
  have "dest_of instr \<noteq> 7" using assms(2,4) by (auto simp: followed_def Let_def)
  then have "dest_of instr \<in> {0, 1, 2, 3, 4, 5, 6}" using dest_cases [of instr] by auto
  then show ?thesis
    using assms(1,2) k pc na so
    by (auto simp: exec_out_def Let_def executed_ok_def jump_ok_def kept_def dest_of_def writes_pins_def writes_dirs_def
      split: if_splits)
qed

lemma bit_five: "has_bit x 5 \<longleftrightarrow> x AND 0x20 \<noteq> 0"
proof -
  have "x AND 0x20 = push_bit 5 (of_bool (bit x 5))"
  proof (rule bit_eqI)
    fix n
    have "bit (0x20 :: int) n \<longleftrightarrow> n = 5" using bit_exp_iff [of 5 n, where 'a = int] by auto
    then show "bit (x AND 0x20) n \<longleftrightarrow> bit (push_bit 5 (of_bool (bit x 5)) :: int) n"
      by (auto simp: bit_simps)
  qed
  then show ?thesis by (simp add: has_bit_iff)
qed

lemma pio_exec_pull_frame:
  "pio_exec_pull s b f block = Inr (s', b', stalled, jumped) \<Longrightarrow>
   kept s s' \<and> sm_pc s' = sm_pc s \<and> b' = b \<and> (stalled \<longrightarrow> block) \<and> \<not> jumped"
  by (simp add: pio_exec_pull_def kept_def refill_def split: if_splits) auto

lemma pio_exec_push_frame:
  "pio_exec_push s b f block = Inr (s', b', stalled, jumped) \<Longrightarrow>
   kept s s' \<and> sm_pc s' = sm_pc s \<and> b' = b \<and> (stalled \<longrightarrow> block) \<and> \<not> jumped \<and> sm_tx s' = sm_tx s"
  by (simp add: pio_exec_push_def kept_def split: if_splits) auto

lemma exec_pushpull_ok:
  assumes "exec_pushpull s b (instr AND 0xFF) = Inr (s', b', stalled, jumped)" "shr instr 13 = 4"
  shows "executed_ok instr s b s' b' stalled jumped"
proof -
  let ?low = "instr AND 0xFF"
  have "pio_exec_pull s b (has_bit ?low 6) (has_bit ?low 5) = Inr (s', b', stalled, jumped) \<and> ?low AND 0x80 \<noteq> 0
      \<or> pio_exec_push s b (has_bit ?low 6) (has_bit ?low 5) = Inr (s', b', stalled, jumped)"
    using assms(1) unfolding exec_pushpull_def Let_def by (metis Inl_Inr_False)
  then have "kept s s' \<and> sm_pc s' = sm_pc s \<and> b' = b \<and> (stalled \<longrightarrow> has_bit ?low 5) \<and> \<not> jumped
      \<and> (?low AND 0x80 \<noteq> 0 \<or> sm_tx s' = sm_tx s)"
    using pio_exec_pull_frame pio_exec_push_frame by blast
  then show ?thesis using assms(2) bit_five [of ?low]
    by (auto simp add: executed_ok_def jump_ok_def may_block_def pulls_def)
qed

lemma exec_mov_ok:
  assumes "exec_mov s b (instr AND 0xFF) visible = Inr (s', b', stalled, jumped)" "shr instr 13 = 5"
    "followed instr"
  shows "executed_ok instr s b s' b' stalled jumped"
proof -
  let ?c = "sm_config s"
  have "dest_of instr \<noteq> 4" "dest_of instr \<noteq> 5" using assms(2,3) by (auto simp: followed_def Let_def)
  then have d: "dest_of instr \<in> {0, 1, 2, 3, 6, 7}" using dest_cases [of instr] by auto
  from assms(1) obtain v where v: "(if dest_of instr = 0 then Inr (s, write_pins b (k_out_base ?c) (k_out_count ?c) v False, False, False)
      else if dest_of instr = 1 then Inr (s\<lparr>sm_x := v\<rparr>, b, False, False)
      else if dest_of instr = 2 then Inr (s\<lparr>sm_y := v\<rparr>, b, False, False)
      else if dest_of instr = 3 then
        (if b_rp2350 b then Inr (s, write_pins b (k_out_base ?c) (k_out_count ?c) v True, False, False)
         else Inl (PioError ''MOV PINDIRS needs RP2350''))
      else if dest_of instr = 4 then Inr (s\<lparr>sm_exec_next := Some (v AND 0xFFFF)\<rparr>, b, False, False)
      else if dest_of instr = 5 then Inr (s\<lparr>sm_pc := v AND 0x1F\<rparr>, b, False, True)
      else if dest_of instr = 6 then Inr (s\<lparr>sm_isr := v, sm_isr_count := 0\<rparr>, b, False, False)
      else Inr (s\<lparr>sm_osr := v, sm_osr_count := 0\<rparr>, b, False, False)) = (Inr (s', b', stalled, jumped) :: outcome)"
    unfolding exec_mov_def Let_def and_then_Inr_iff dest_of_def by blast
  from d consider "dest_of instr = 0" | "dest_of instr = 1" | "dest_of instr = 2" | "dest_of instr = 3"
    | "dest_of instr = 6" | "dest_of instr = 7" by blast
  then show ?thesis
    by cases (use v assms(2) in \<open>auto simp: executed_ok_def jump_ok_def kept_def writes_pins_def writes_dirs_def
      split: if_splits\<close>)
qed

lemma exec_set_ok:
  assumes "exec_set s b (instr AND 0xFF) = Inr (s', b', stalled, jumped)" "shr instr 13 = 7"
  shows "executed_ok instr s b s' b' stalled jumped"
  using assms
  by (auto simp: exec_set_def Let_def executed_ok_def jump_ok_def kept_def dest_of_def
    writes_pins_def writes_dirs_def split: if_splits)

lemmas exec_ok = exec_jmp_ok exec_in_ok exec_out_ok exec_pushpull_ok exec_mov_ok exec_set_ok

lemma pio_execute_ok:
  assumes "pio_execute s b instr visible = Inr (s', b', stalled, jumped)" "followed instr"
    "plain_config (sm_config s)"
  shows "executed_ok instr s b s' b' stalled jumped"
proof -
  from assms(2) consider "shr instr 13 = 0" | "shr instr 13 = 2" | "shr instr 13 = 3"
    | "shr instr 13 = 4" | "shr instr 13 = 5" | "shr instr 13 = 7"
    by (auto simp: followed_def Let_def)
  then show ?thesis
    by cases (use assms in \<open>auto simp: pio_execute_def Let_def intro: exec_ok\<close>)
qed

section \<open>One clock\<close>

definition clk_bit :: "state_machine \<Rightarrow> nat" where
  "clk_bit s = nat (k_sideset_base (sm_config s))"

definition clk_level :: "state_machine \<Rightarrow> pio_block \<Rightarrow> int" where
  "clk_level s b = of_bool (bit (b_out b) (clk_bit s))"

text \<open>The side-set of a plain configuration writes the clock pin with bit 12.\<close>

lemma plain_side:
  assumes "plain_config c"
  shows "side_set c instr = Some (side_bit instr)" "delay_field c instr = delay_bits instr"
proof -
  have f: "shr (shr instr 8 AND 0x1F) 4 AND 1 = shr instr 12 AND 1"
    by (simp add: and_31_take and_1_take drop_bit_take_bit)
  have o: "ones 1 = 1" "ones 4 = 15" by (simp_all add: ones_def)
  show "side_set c instr = Some (side_bit instr)"
    using assms f by (simp add: side_set_def plain_config_def Let_def side_bit_def o)
  show "delay_field c instr = delay_bits instr"
    using assms by (simp add: delay_field_def plain_config_def Let_def delay_bits_def o)
qed

lemma side_bit_01: "side_bit instr = of_bool (bit instr 12)"
  using bit_at_of_bool [of instr 12] by (simp add: side_bit_def bit_at_def)

lemma set_pin_bit:
  "bit (set_pin pins pin (of_bool l)) n \<longleftrightarrow> (if n = nat pin then l else bit pins n)"
  by (auto simp: set_pin_def bit_simps)

lemma apply_side_plain:
  assumes "plain_config c"
  shows "apply_side c b instr = b\<lparr>b_out := set_pin (b_out b) (k_sideset_base c) (side_bit instr)\<rparr>"
proof -
  have "k_sideset_base c AND 31 = k_sideset_base c"
    using assms by (simp add: plain_config_def and_31_take take_bit_int_eq_self)
  moreover have "side_bit instr AND 1 = side_bit instr" by (simp add: side_bit_def)
  moreover have "k_sideset_count c = 1" "\<not> k_sideset_pindir c" using assms by (simp_all add: plain_config_def)
  ultimately show ?thesis
    by (simp add: apply_side_def plain_side [OF assms] write_one_pin)
qed

text \<open>A machine that runs a program from memory.\<close>

definition running :: "pio_program \<Rightarrow> state_machine \<Rightarrow> pio_block \<Rightarrow> bool" where
  "running prog s b \<longleftrightarrow>
     sm_enabled s \<and> sm_forced s = None \<and> sm_exec_next s = None \<and> sm_div_count s = 0
     \<and> plain_config (sm_config s) \<and> k_wrap_bottom (sm_config s) = wrap_low prog
     \<and> k_wrap_top (sm_config s) = wrap_high prog
     \<and> (\<forall>i < length (pp_instr prog). b_mem b ! i = pp_instr prog ! i)"

definition fetched :: "state_machine \<Rightarrow> pio_block \<Rightarrow> int" where
  "fetched s b = b_mem b ! nat (sm_pc s)"

text \<open>What one issued instruction does to the machine and the block.\<close>

definition issued_ok :: "pio_program \<Rightarrow> state_machine \<Rightarrow> pio_block \<Rightarrow> state_machine \<Rightarrow> pio_block \<Rightarrow> bool" where
  "issued_ok prog s b s' b' \<longleftrightarrow>
     (let instr = fetched s b in
      running prog s' b' \<and> clk_bit s' = clk_bit s \<and> clk_level s' b' = side_bit instr
      \<and> (\<not> writes_pins instr \<longrightarrow> (\<forall>p. p \<noteq> clk_bit s \<longrightarrow> bit (b_out b') p = bit (b_out b) p))
      \<and> (\<not> writes_dirs instr \<longrightarrow> b_oe b' = b_oe b) \<and> b_sms b' = b_sms b
      \<and> (if sm_stalled s' then may_block instr \<and> sm_pc s' = sm_pc s \<and> sm_delay s' = sm_delay s
         else sm_delay s' = delay_bits instr
           \<and> (shr instr 13 = 0 \<and> sm_pc s' = (instr AND 0xFF) AND 0x1F
              \<or> shr instr 13 = 3 \<and> dest_of instr = 5
                \<and> 0 \<le> sm_pc s' \<and> sm_pc s' < 2 ^ nat ((instr AND 0xFF) AND 0x1F)
              \<or> \<not> (shr instr 13 = 0 \<and> dest_of instr = 0) \<and> \<not> (shr instr 13 = 3 \<and> dest_of instr = 5)
                \<and> sm_pc s' = fall_through (wrap_low prog) (wrap_high prog) (sm_pc s))))"

lemma kept_simps:
  "kept s s' \<Longrightarrow> sm_config s' = sm_config s" "kept s s' \<Longrightarrow> sm_enabled s' = sm_enabled s"
  "kept s s' \<Longrightarrow> sm_forced s' = sm_forced s" "kept s s' \<Longrightarrow> sm_delay s' = sm_delay s"
  "kept s s' \<Longrightarrow> sm_exec_next s' = sm_exec_next s" "kept s s' \<Longrightarrow> sm_div_count s' = sm_div_count s"
  by (simp_all add: kept_def)

lemma no_background_pull: "plain_config (sm_config s) \<Longrightarrow> background_pull s = s"
  by (simp add: background_pull_def plain_config_def)

lemma issue_parts:
  assumes i: "issue s b visible = Inr (s', b', t)" and r: "running prog s b"
    and f: "followed (fetched s b)"
  obtains s2 b2 st j where
    "pio_execute (s\<lparr>sm_last_pc := Some (sm_pc s)\<rparr>) b (fetched s b) visible = Inr (s2, b2, st, j)"
    "executed_ok (fetched s b) (s\<lparr>sm_last_pc := Some (sm_pc s)\<rparr>) b s2 b2 st j"
    "s' = finish s2 (fetched s b) Mem_instr st j"
    "b' = b2\<lparr>b_out := set_pin (b_out b2) (k_sideset_base (sm_config s)) (side_bit (fetched s b))\<rparr>"
proof -
  let ?i = "fetched s b" and ?c = "sm_config s"
  have s: "sm_forced s = None" "sm_exec_next s = None" and c: "plain_config ?c" and en: "sm_enabled s"
    using r by (simp_all add: running_def)
  let ?s1 = "s\<lparr>sm_last_pc := Some (sm_pc s)\<rparr>"
  have fe: "fetch s b = (?i, Mem_instr, ?s1)" using s by (simp add: fetch_def fetched_def)
  from i fe obtain s2 b2 st j where e: "pio_execute ?s1 b ?i visible = Inr (s2, b2, st, j)"
    and b': "b' = apply_side (sm_config s2) b2 ?i"
    and s': "s' = finish (if sm_enabled s2 \<and> shr ?i 13 \<noteq> 3 then background_pull s2 else s2) ?i Mem_instr st j"
    by (auto simp: issue_def and_then_Inr_iff Let_def split: prod.splits)
  have x: "executed_ok ?i ?s1 b s2 b2 st j" using pio_execute_ok [OF e f] c by simp
  then have k: "sm_config s2 = ?c" by (simp add: executed_ok_def kept_def)
  with no_background_pull [of s2] c have "s' = finish s2 ?i Mem_instr st j" by (simp add: s')
  moreover have "b' = b2\<lparr>b_out := set_pin (b_out b2) (k_sideset_base ?c) (side_bit ?i)\<rparr>"
    unfolding b' k by (rule apply_side_plain [OF c])
  ultimately show thesis using e x that by blast
qed

lemma issue_ok:
  assumes i: "issue s b visible = Inr (s', b', t)" and r: "running prog s b"
    and f: "followed (fetched s b)"
  shows "issued_ok prog s b s' b'"
proof -
  let ?i = "fetched s b" and ?c = "sm_config s"
  let ?s1 = "s\<lparr>sm_last_pc := Some (sm_pc s)\<rparr>"
  have s: "sm_forced s = None" "sm_exec_next s = None" and c: "plain_config ?c" and en: "sm_enabled s"
    using r by (simp_all add: running_def)
  from i r f obtain s2 b2 st j where x: "executed_ok ?i ?s1 b s2 b2 st j"
    and fin: "s' = finish s2 ?i Mem_instr st j"
    and bb: "b' = b2\<lparr>b_out := set_pin (b_out b2) (k_sideset_base ?c) (side_bit ?i)\<rparr>"
    by (rule issue_parts)
  have k: "sm_config s2 = ?c" "sm_enabled s2" "sm_forced s2 = None" "sm_exec_next s2 = None"
    "sm_div_count s2 = sm_div_count s" "sm_delay s2 = sm_delay s"
    using x s en by (auto simp: executed_ok_def kept_def)
  have f': "sm_config s' = ?c" "sm_enabled s'" "sm_forced s' = None" "sm_exec_next s' = None"
    "sm_div_count s' = sm_div_count s" "sm_stalled s' = st"
    "st \<Longrightarrow> sm_pc s' = sm_pc s2 \<and> sm_delay s' = sm_delay s"
    "\<not> st \<Longrightarrow> sm_delay s' = delay_bits ?i
      \<and> sm_pc s' = (if j then sm_pc s2 else if sm_pc s2 = k_wrap_top ?c then k_wrap_bottom ?c
          else (sm_pc s2 + 1) AND 31)"
    using k by (auto simp: fin finish_def Let_def plain_side [OF c])
  have run: "running prog s' b'"
    using r f' bb x by (simp add: running_def executed_ok_def)
  have clk: "clk_bit s' = clk_bit s" "clk_level s' b' = side_bit ?i"
    by (simp_all add: clk_bit_def clk_level_def f' bb side_bit_01 set_pin_bit)
  have pins: "bit (b_out b') p = bit (b_out b) p" if "\<not> writes_pins ?i" "p \<noteq> clk_bit s" for p
    using that x by (simp add: bb side_bit_01 set_pin_bit clk_bit_def executed_ok_def)
  have wrap: "k_wrap_top ?c = wrap_high prog" "k_wrap_bottom ?c = wrap_low prog"
    using r by (simp_all add: running_def)
  have pc: "if sm_stalled s' then may_block ?i \<and> sm_pc s' = sm_pc s \<and> sm_delay s' = sm_delay s
      else sm_delay s' = delay_bits ?i
        \<and> (shr ?i 13 = 0 \<and> sm_pc s' = (?i AND 0xFF) AND 0x1F
           \<or> shr ?i 13 = 3 \<and> dest_of ?i = 5
             \<and> 0 \<le> sm_pc s' \<and> sm_pc s' < 2 ^ nat ((?i AND 0xFF) AND 0x1F)
           \<or> \<not> (shr ?i 13 = 0 \<and> dest_of ?i = 0) \<and> \<not> (shr ?i 13 = 3 \<and> dest_of ?i = 5)
             \<and> sm_pc s' = fall_through (wrap_low prog) (wrap_high prog) (sm_pc s))"
  proof (cases st)
    case True
    then show ?thesis using x f' by (simp add: executed_ok_def)
  next
    case False
    with x have "jump_ok ?i ?s1 s2 j" by (simp add: executed_ok_def)
    then show ?thesis
      using False f'(6,8) wrap by (cases j) (auto simp: jump_ok_def fall_through_def)
  qed
  have oe: "\<not> writes_dirs ?i \<longrightarrow> b_oe b' = b_oe b" and sms: "b_sms b' = b_sms b"
    using x by (simp_all add: bb executed_ok_def)
  show ?thesis
    unfolding issued_ok_def Let_def using run clk pins oe sms pc by blast
qed

end
