(* ===== verification/Pio_Run.thy ===== *)
theory Pio_Run
  imports Pio_Clock
begin

text \<open>
  Runs of the lockstep program. The CPU puts operation words and a dummy word after every
  \<open>HALT\<close>; it takes results whenever it likes. Every clock of such a run succeeds, gives the
  project clock the level of its frame slot, changes other pins in the drive slot only and
  stalls only at the two pulls.
\<close>

section \<open>The words of the program\<close>

definition legal :: "int \<Rightarrow> bool" where
  "legal instr \<longleftrightarrow> (let op = shr instr 13; low = instr AND 0xFF; d = dest_of instr in
     op = 0 \<or> op = 3 \<or> op = 2 \<and> d \<in> {0, 1, 2, 3, 6, 7} \<or> op = 4 \<and> low AND 0x1F = 0
     \<or> op = 5 \<and> d \<noteq> 3 \<and> low AND 7 \<in> {0, 1, 2, 3, 5, 6, 7} \<and> shr low 3 AND 3 \<noteq> 3
     \<or> op = 7 \<and> d \<in> {0, 1, 2, 4})"

lemma pio_execute_legal:
  assumes "legal instr" "k_status_sel (sm_config s) = 0"
  shows "\<not> isl (pio_execute s b instr visible)"
proof -
  let ?low = "instr AND 0xFF" and ?op = "shr instr 13"
  consider "?op = 0" | "?op = 3" | "?op = 2" "dest_of instr \<in> {0, 1, 2, 3, 6, 7}"
    | "?op = 4" "?low AND 0x1F = 0"
    | "?op = 5" "dest_of instr \<noteq> 3" "?low AND 7 \<in> {0, 1, 2, 3, 5, 6, 7}" "shr ?low 3 AND 3 \<noteq> 3"
    | "?op = 7" "dest_of instr \<in> {0, 1, 2, 4}"
    using assms(1) by (auto simp: legal_def Let_def)
  then show ?thesis
  proof cases
    case 1 then show ?thesis by (simp add: pio_execute_def exec_jmp_def Let_def split_def)
  next
    case 2 then show ?thesis by (simp add: pio_execute_def exec_out_def Let_def split_def)
  next
    case 3
    then have "\<exists>v. in_source s b (shr ?low 5 AND 7) visible = Inr v"
      by (auto simp: in_source_def dest_of_def)
    then show ?thesis using 3 by (auto simp: pio_execute_def exec_in_def Let_def split_def split: if_splits)
  next
    case 4
    then have "pio_execute s b instr visible = exec_pushpull s b ?low" by (simp add: pio_execute_def Let_def)
    then show ?thesis using 4 by (simp add: exec_pushpull_def pio_exec_pull_def pio_exec_push_def Let_def split: if_splits)
  next
    case 5
    have "\<exists>v. mov_source s b (?low AND 7) visible = Inr v"
      using 5(3) assms(2) by (auto simp: mov_source_def status_value_def Let_def)
    moreover have "\<exists>w. mov_operation (shr ?low 3 AND 3) v = Inr w" for v
      using 5(4) by (auto simp: mov_operation_def)
    ultimately obtain v w where "mov_source s b (?low AND 7) visible = Inr v"
      "mov_operation (shr ?low 3 AND 3) v = Inr w" by blast
    then have "exec_mov s b ?low visible = (
      if dest_of instr = 0 then Inr (s, write_pins b (k_out_base (sm_config s)) (k_out_count (sm_config s)) w False, False, False)
      else if dest_of instr = 1 then Inr (s\<lparr>sm_x := w\<rparr>, b, False, False)
      else if dest_of instr = 2 then Inr (s\<lparr>sm_y := w\<rparr>, b, False, False)
      else if dest_of instr = 4 then Inr (s\<lparr>sm_exec_next := Some (w AND 0xFFFF)\<rparr>, b, False, False)
      else if dest_of instr = 5 then Inr (s\<lparr>sm_pc := w AND 0x1F\<rparr>, b, False, True)
      else if dest_of instr = 6 then Inr (s\<lparr>sm_isr := w, sm_isr_count := 0\<rparr>, b, False, False)
      else Inr (s\<lparr>sm_osr := w, sm_osr_count := 0\<rparr>, b, False, False))"
      using 5(2) by (simp add: exec_mov_def Let_def dest_of_def)
    moreover have "pio_execute s b instr visible = exec_mov s b ?low visible"
      using 5(1) by (simp add: pio_execute_def Let_def)
    ultimately show ?thesis by (simp split: if_splits)
  next
    case 6
    then show ?thesis by (auto simp: pio_execute_def exec_set_def Let_def dest_of_def split: if_splits)
  qed
qed

abbreviation word_at :: "int \<Rightarrow> int" where "word_at pc \<equiv> LOCKSTEP_WORDS ! nat pc"

abbreviation nexts :: "int \<Rightarrow> int list" where
  "nexts pc \<equiv> snd (successors default_handlers (fall_through 24 28 pc) pc (word_at pc))"

lemma words_table:
  "list_all (\<lambda>pc. followed (word_at (int pc)) \<and> legal (word_at (int pc))
     \<and> (pulls (word_at (int pc)) \<longrightarrow> pc = 19 \<or> pc = 29)
     \<and> (30 \<in> set (nexts (int pc)) \<longrightarrow> pc = 29) \<and> (19 \<in> set (nexts (int pc)) \<longrightarrow> pc = 30)
     \<and> \<not> writes_dirs (word_at (int pc))
     \<and> (shr (word_at (int pc)) 13 = 3 \<and> dest_of (word_at (int pc)) = 5
         \<and> (word_at (int pc) AND 0xFF) AND 0x1F = 5 \<longrightarrow> pc = 30)) [0..<32]"
  by code_simp

lemma word_facts:
  assumes "0 \<le> pc" "pc < 32"
  shows "followed (word_at pc)" "legal (word_at pc)" "pulls (word_at pc) \<Longrightarrow> pc = 19 \<or> pc = 29"
    "30 \<in> set (nexts pc) \<Longrightarrow> pc = 29" "19 \<in> set (nexts pc) \<Longrightarrow> pc = 30"
    "\<not> writes_dirs (word_at pc)"
    "shr (word_at pc) 13 = 3 \<Longrightarrow> dest_of (word_at pc) = 5 \<Longrightarrow> (word_at pc AND 0xFF) AND 0x1F = 5 \<Longrightarrow> pc = 30"
proof -
  have n: "int (nat pc) = pc" using assms(1) by simp
  have "nat pc \<in> set [0..<32]" using assms by auto
  then have "followed (word_at (int (nat pc))) \<and> legal (word_at (int (nat pc)))
     \<and> (pulls (word_at (int (nat pc))) \<longrightarrow> nat pc = 19 \<or> nat pc = 29)
     \<and> (30 \<in> set (nexts (int (nat pc))) \<longrightarrow> nat pc = 29) \<and> (19 \<in> set (nexts (int (nat pc))) \<longrightarrow> nat pc = 30)
     \<and> \<not> writes_dirs (word_at (int (nat pc)))
     \<and> (shr (word_at (int (nat pc))) 13 = 3 \<and> dest_of (word_at (int (nat pc))) = 5
         \<and> (word_at (int (nat pc)) AND 0xFF) AND 0x1F = 5 \<longrightarrow> nat pc = 30)"
    using words_table unfolding list_all_iff by blast
  moreover have "nat pc = 19 \<longleftrightarrow> pc = 19" "nat pc = 29 \<longleftrightarrow> pc = 29" "nat pc = 30 \<longleftrightarrow> pc = 30"
    using assms(1) by linarith+
  ultimately have *: "followed (word_at pc) \<and> legal (word_at pc) \<and> (pulls (word_at pc) \<longrightarrow> pc = 19 \<or> pc = 29)
     \<and> (30 \<in> set (nexts pc) \<longrightarrow> pc = 29) \<and> (19 \<in> set (nexts pc) \<longrightarrow> pc = 30) \<and> \<not> writes_dirs (word_at pc)
     \<and> (shr (word_at pc) 13 = 3 \<and> dest_of (word_at pc) = 5 \<and> (word_at pc AND 0xFF) AND 0x1F = 5 \<longrightarrow> pc = 30)"
    unfolding n by blast
  from * show "followed (word_at pc)" by blast
  from * show "legal (word_at pc)" by blast
  from * show "pulls (word_at pc) \<Longrightarrow> pc = 19 \<or> pc = 29" by blast
  from * show "30 \<in> set (nexts pc) \<Longrightarrow> pc = 29" by blast
  from * show "19 \<in> set (nexts pc) \<Longrightarrow> pc = 30" by blast
  from * show "\<not> writes_dirs (word_at pc)" by blast
  from * show "shr (word_at pc) 13 = 3 \<Longrightarrow> dest_of (word_at pc) = 5
    \<Longrightarrow> (word_at pc AND 0xFF) AND 0x1F = 5 \<Longrightarrow> pc = 30" by blast
qed

lemma wraps [simp]: "pp_execctrl LOCKSTEP_PROG = 117760" "pp_instr LOCKSTEP_PROG = LOCKSTEP_WORDS"
  by (simp_all add: LOCKSTEP_PROG_def)

lemma length_words [simp]: "length LOCKSTEP_WORDS = 32"
  by (simp add: LOCKSTEP_WORDS_def)

text \<open>The words of the pulls and of the dispatch.\<close>

lemma key_words: "word_at 19 = 33184" "word_at 29 = 37024" "word_at 30 = 28837"
  by (simp_all add: LOCKSTEP_WORDS_def)

section \<open>The invariant of a run\<close>

abbreviation lock_reach :: "int \<Rightarrow> int \<Rightarrow> bool" where
  "lock_reach \<equiv> path_reach LOCKSTEP_WORDS 24 28 default_handlers"

definition lock_sm :: "state_machine \<Rightarrow> pio_block \<Rightarrow> bool" where
  "lock_sm s b \<longleftrightarrow> running LOCKSTEP_PROG s b \<and> k_out_shift_right (sm_config s)
     \<and> k_status_sel (sm_config s) = 0"

text \<open>Operation words, each \<open>HALT\<close> followed by the word that completes its pull; the flag says
  that the next word is that one.\<close>

fun puts_ok :: "bool \<Rightarrow> int list \<Rightarrow> bool" where
  "puts_ok waiting [] = True"
| "puts_ok True (w # ws) = puts_ok False ws"
| "puts_ok False (w # ws) = (w AND 0x1F \<in> set default_handlers \<and> puts_ok (w AND 0x1F = ADDR_HALT) ws)"

definition halting :: "state_machine \<Rightarrow> bool" where
  "halting s \<longleftrightarrow> sm_pc s = 30 \<and> sm_osr s AND 0x1F = ADDR_HALT \<or> sm_pc s = 19"

text \<open>The flag after some words: whether the next word put completes a \<open>HALT\<close>.\<close>

fun puts_end :: "bool \<Rightarrow> int list \<Rightarrow> bool" where
  "puts_end waiting [] = waiting"
| "puts_end True (w # ws) = puts_end False ws"
| "puts_end False (w # ws) = puts_end (w AND 0x1F = ADDR_HALT) ws"

lemma puts_ok_append: "puts_ok f (ws @ vs) \<longleftrightarrow> puts_ok f ws \<and> puts_ok (puts_end f ws) vs"
  by (induction f ws rule: puts_end.induct) auto

lemma puts_end_append: "puts_end f (ws @ vs) = puts_end (puts_end f ws) vs"
  by (induction f ws rule: puts_end.induct) auto

lemma puts_snoc:
  "puts_ok f (ws @ [w]) \<longleftrightarrow> puts_ok f ws \<and> (puts_end f ws \<or> w AND 0x1F \<in> set default_handlers)"
  "puts_end f (ws @ [w]) \<longleftrightarrow> \<not> puts_end f ws \<and> w AND 0x1F = ADDR_HALT"
  by (cases "puts_end f ws"; simp add: puts_ok_append puts_end_append)+

definition owes :: "state_machine \<Rightarrow> bool" where
  "owes s = puts_end (halting s) (sm_tx s)"

definition lock_inv :: "state_machine \<Rightarrow> pio_block \<Rightarrow> int \<Rightarrow> bool" where
  "lock_inv s b slot \<longleftrightarrow>
     lock_sm s b \<and> 0 \<le> slot \<and> slot < 6 \<and> lock_reach (sm_pc s) ((slot + sm_delay s) mod 6)
     \<and> 0 \<le> sm_delay s \<and> (sm_stalled s \<longrightarrow> sm_delay s = 0)
     \<and> (\<forall>k. 0 \<le> k \<and> k < sm_delay s \<longrightarrow> template_side ((slot + k) mod 6) = clk_level s b)
     \<and> puts_ok (halting s) (sm_tx s) \<and> (sm_pc s = 30 \<longrightarrow> sm_osr s AND 0x1F \<in> set default_handlers)"

lemma reach_rules:
  assumes "lock_reach pc slot"
  shows "state_rules LOCKSTEP_WORDS 24 28 pc slot" "may_block (word_at pc) \<Longrightarrow> pc = 29 \<or> pc = 19"
    "0 \<le> pc" "pc < 32"
proof -
  obtain r where r: "check_program LOCKSTEP_PROG LOCKSTEP_LABELS default_handlers = Inr r" "pr_errors r = []"
    by (rule lockstep_report)
  have "path_reach (pp_instr LOCKSTEP_PROG) (wrap_low LOCKSTEP_PROG) (wrap_high LOCKSTEP_PROG)
      default_handlers pc slot" using assms by simp
  from checked_states [OF r this] have *: "state_rules LOCKSTEP_WORDS 24 28 pc slot"
    "may_block (word_at pc) \<Longrightarrow> pc \<in> set (allowed_blocking LOCKSTEP_LABELS)" by simp_all
  then show "state_rules LOCKSTEP_WORDS 24 28 pc slot" by simp
  show "may_block (word_at pc) \<Longrightarrow> pc = 29 \<or> pc = 19"
    using *(2) by (simp add: allowed_blocking_def LOCKSTEP_LABELS_def)
  show "0 \<le> pc" "pc < 32" using *(1) by (simp_all add: state_rules_def Let_def)
qed

lemma successors_jmp:
  "shr i 13 = 0 \<Longrightarrow> (i AND 0xFF) AND 0x1F \<in> set (snd (successors h f pc i))"
  by (simp add: successors_def Let_def)

lemma successors_out:
  "shr i 13 = 3 \<Longrightarrow> dest_of i = 5 \<Longrightarrow> set (snd (successors h f pc i)) =
    (if (i AND 0xFF) AND 0x1F = 5 then set h else {0..<2 ^ nat ((i AND 0xFF) AND 0x1F)})"
  by (simp add: successors_def Let_def push_bit_eq_mult)

lemma successors_fall:
  assumes "\<not> (shr i 13 = 0 \<and> dest_of i = 0)" "\<not> (shr i 13 = 3 \<and> dest_of i = 5)"
    "shr i 13 = 0 \<and> dest_of i \<in> {2, 4} \<longrightarrow> (i AND 0xFF) AND 0x1F = f"
  shows "f \<in> set (snd (successors h f pc i))"
proof (cases "shr i 13 = 0")
  case True
  then show ?thesis using assms by (cases "dest_of i \<in> {2, 4}") (simp_all add: successors_def Let_def)
next
  case False
  then have "snd (successors h f pc i) = [f]" using assms(2) unfolding successors_def Let_def by auto
  then show ?thesis by simp
qed

text \<open>An issued instruction continues on a checked path.\<close>

lemma issued_next:
  assumes ok: "issued_ok LOCKSTEP_PROG s b s' b'" and ns: "\<not> sm_stalled s'"
    and w: "fetched s b = word_at (sm_pc s)"
    and r: "state_rules LOCKSTEP_WORDS 24 28 (sm_pc s) slot"
    and d: "sm_pc s = 30 \<Longrightarrow> sm_pc s' \<in> set default_handlers"
    and five: "shr (fetched s b) 13 = 3 \<and> dest_of (fetched s b) = 5 \<and> (fetched s b AND 0xFF) AND 0x1F = 5
      \<longrightarrow> sm_pc s = 30"
  shows "sm_pc s' \<in> set (nexts (sm_pc s))"
proof -
  let ?i = "fetched s b" and ?f = "fall_through 24 28 (sm_pc s)"
  have "shr ?i 13 = 0 \<and> sm_pc s' = (?i AND 0xFF) AND 0x1F
      \<or> shr ?i 13 = 3 \<and> dest_of ?i = 5 \<and> 0 \<le> sm_pc s' \<and> sm_pc s' < 2 ^ nat ((?i AND 0xFF) AND 0x1F)
      \<or> \<not> (shr ?i 13 = 0 \<and> dest_of ?i = 0) \<and> \<not> (shr ?i 13 = 3 \<and> dest_of ?i = 5) \<and> sm_pc s' = ?f"
    using ok ns by (simp add: issued_ok_def Let_def)
  then consider "shr ?i 13 = 0" "sm_pc s' = (?i AND 0xFF) AND 0x1F"
    | "shr ?i 13 = 3" "dest_of ?i = 5" "0 \<le> sm_pc s'" "sm_pc s' < 2 ^ nat ((?i AND 0xFF) AND 0x1F)"
    | "\<not> (shr ?i 13 = 0 \<and> dest_of ?i = 0)" "\<not> (shr ?i 13 = 3 \<and> dest_of ?i = 5)" "sm_pc s' = ?f"
    by blast
  then show ?thesis
  proof cases
    case 1
    then show ?thesis using successors_jmp [OF 1(1)] unfolding w by simp
  next
    case 2
    have "(?i AND 0xFF) AND 0x1F = 5 \<Longrightarrow> sm_pc s' \<in> set default_handlers" using five d 2(1,2) by blast
    then show ?thesis
      using 2(3,4) unfolding w [symmetric] successors_out [OF 2(1,2)] by simp
  next
    case 3
    have "shr ?i 13 = 0 \<and> dest_of ?i \<in> {2, 4} \<longrightarrow> (?i AND 0xFF) AND 0x1F = ?f"
      using r unfolding state_rules_def Let_def w by blast
    from successors_fall [OF 3(1,2) this] show ?thesis unfolding 3(3) w .
  qed
qed

section \<open>One issued instruction of the program\<close>

lemma lock_fetched:
  assumes "running LOCKSTEP_PROG s b" "0 \<le> sm_pc s" "sm_pc s < 32"
  shows "fetched s b = word_at (sm_pc s)"
  using assms by (simp add: running_def fetched_def nat_less_iff)

lemma pio_exec_pull_word:
  assumes "instr = 33184 \<or> instr = 37024" "plain_config (sm_config s)"
  shows "pio_execute s b instr visible = Inr (if sm_tx s = [] then (s\<lparr>sm_txstall := True\<rparr>, b, True, False)
    else (refill s, b, False, False))"
proof -
  have h: "has_bit 160 6 = False" "has_bit 160 5 = True" by (simp_all add: has_bit_def)
  have "pio_execute s b 33184 visible = pio_exec_pull s b False True"
    "pio_execute s b 37024 visible = pio_exec_pull s b False True"
    by (simp_all add: pio_execute_def exec_pushpull_def Let_def h)
  moreover have "\<not> k_autopull (sm_config s)" using assms(2) by (simp add: plain_config_def)
  ultimately show ?thesis using assms(1) by (elim disjE) (simp_all add: pio_exec_pull_def)
qed

lemma exec_dispatch_word:
  assumes "plain_config (sm_config s)" "k_out_shift_right (sm_config s)"
  shows "\<exists>s'. pio_execute s b 28837 visible = Inr (s', b, False, True)
    \<and> sm_pc s' = sm_osr s AND 0x1F \<and> sm_tx s' = sm_tx s"
proof -
  obtain s1 data where so: "pio_shift_out s 5 = (s1, data)" by (cases "pio_shift_out s 5")
  then have "data = sm_osr s AND 0x1F" using assms(2) by (auto simp: pio_shift_out_def Let_def ones_def)
  moreover have "sm_tx s1 = sm_tx s" using pio_shift_out_kept [OF so] by simp
  moreover have "pio_execute s b 28837 visible = Inr (s1\<lparr>sm_pc := data AND 31\<rparr>, b, False, True)"
    using so assms(1) by (simp add: pio_execute_def exec_out_def Let_def plain_config_def)
  ultimately show ?thesis by (simp add: and.assoc)
qed

lemma finish_more [simp]:
  "sm_tx (finish s i src st j) = sm_tx s" "sm_osr (finish s i src st j) = sm_osr s"
  "sm_stalled (finish s i src st j) = st" "sm_config (finish s i src st j) = sm_config s"
  by (auto simp: finish_def Let_def split: instr_source.splits)

text \<open>What the pulls, the dispatch and every other instruction do to the queue.\<close>

lemma issue_queue:
  assumes i: "issue s b visible = Inr (s', b', t)" and l: "lock_sm s b" and pc: "0 \<le> sm_pc s" "sm_pc s < 32"
  shows "sm_pc s = 19 \<or> sm_pc s = 29 \<Longrightarrow> (if sm_tx s = [] then sm_stalled s' \<and> sm_tx s' = []
      else \<not> sm_stalled s' \<and> sm_osr s' = hd (sm_tx s) \<and> sm_tx s' = tl (sm_tx s))"
    and "sm_pc s = 30 \<Longrightarrow> \<not> sm_stalled s' \<and> sm_pc s' = sm_osr s AND 0x1F \<and> sm_tx s' = sm_tx s"
    and "sm_pc s \<noteq> 19 \<Longrightarrow> sm_pc s \<noteq> 29 \<Longrightarrow> sm_tx s' = sm_tx s"
    and "sm_config s' = sm_config s"
proof -
  let ?s1 = "s\<lparr>sm_last_pc := Some (sm_pc s)\<rparr>"
  have run: "running LOCKSTEP_PROG s b" and sr: "k_out_shift_right (sm_config s)"
    using l by (simp_all add: lock_sm_def)
  then have c: "plain_config (sm_config s)" by (simp add: running_def)
  have w: "fetched s b = word_at (sm_pc s)" using run pc by (rule lock_fetched)
  note facts = word_facts [OF pc]
  have fo: "followed (fetched s b)" using facts(1) by (simp add: w)
  from i run fo obtain s2 b2 st j where
    e: "pio_execute ?s1 b (fetched s b) visible = Inr (s2, b2, st, j)"
    and x: "executed_ok (fetched s b) ?s1 b s2 b2 st j"
    and s': "s' = finish s2 (fetched s b) Mem_instr st j"
    by (rule issue_parts)
  show "sm_config s' = sm_config s" using x by (simp add: s' executed_ok_def kept_def)
  show "sm_tx s' = sm_tx s" if "sm_pc s \<noteq> 19" "sm_pc s \<noteq> 29"
    using x facts(3) that by (auto simp: s' w executed_ok_def)
  show "if sm_tx s = [] then sm_stalled s' \<and> sm_tx s' = []
      else \<not> sm_stalled s' \<and> sm_osr s' = hd (sm_tx s) \<and> sm_tx s' = tl (sm_tx s)"
    if p: "sm_pc s = 19 \<or> sm_pc s = 29"
  proof -
    have "fetched s b = 33184 \<or> fetched s b = 37024" using p key_words by (auto simp: w)
    then have "pio_execute ?s1 b (fetched s b) visible =
        Inr (if sm_tx ?s1 = [] then (?s1\<lparr>sm_txstall := True\<rparr>, b, True, False) else (refill ?s1, b, False, False))"
      by (rule pio_exec_pull_word) (simp add: c)
    with e show ?thesis by (auto simp: s' refill_def)
  qed
  show "\<not> sm_stalled s' \<and> sm_pc s' = sm_osr s AND 0x1F \<and> sm_tx s' = sm_tx s" if p: "sm_pc s = 30"
  proof -
    have "fetched s b = 28837" using p key_words by (simp add: w)
    with exec_dispatch_word [of ?s1 b visible] c sr e
    have "\<not> st" "j" "sm_pc s2 = sm_osr s AND 0x1F" "sm_tx s2 = sm_tx s" by auto
    then show ?thesis by (simp add: s' finish_def Let_def)
  qed
qed

section \<open>One clock of the program\<close>

definition next_lock_slot :: "state_machine \<Rightarrow> int \<Rightarrow> int" where
  "next_lock_slot s slot = (if sm_stalled s then slot else (slot + 1) mod 6)"

definition lock_step_ok :: "state_machine \<Rightarrow> pio_block \<Rightarrow> int \<Rightarrow> state_machine \<Rightarrow> pio_block \<Rightarrow> bool" where
  "lock_step_ok s b slot s' b' \<longleftrightarrow>
     lock_inv s' b' (next_lock_slot s' slot) \<and> clk_level s' b' = template_side slot
     \<and> sm_config s' = sm_config s \<and> b_oe b' = b_oe b \<and> b_sms b' = b_sms b
     \<and> (slot \<noteq> DRIVE_SLOT \<longrightarrow> (\<forall>p. p \<noteq> clk_bit s \<longrightarrow> bit (b_out b') p = bit (b_out b) p))
     \<and> (sm_stalled s' \<longrightarrow> sm_pc s' = 19 \<or> sm_pc s' = 29) \<and> owes s' = owes s"

lemma slot_shift: "((slot + 1) mod 6 + k) mod 6 = (slot + (1 + k)) mod (6::int)"
  by (metis add.assoc mod_add_left_eq)

lemma clock_delay:
  assumes "lock_inv s b slot" "sm_delay s \<noteq> 0"
  shows "clock s b visible = Inr (s\<lparr>sm_last_pc := None, sm_delay := sm_delay s - 1\<rparr>, b, False)"
    "lock_step_ok s b slot (s\<lparr>sm_last_pc := None, sm_delay := sm_delay s - 1\<rparr>) b"
proof -
  let ?s' = "s\<lparr>sm_last_pc := None, sm_delay := sm_delay s - 1\<rparr>"
  have run: "running LOCKSTEP_PROG s b" and st: "\<not> sm_stalled s" and d: "0 < sm_delay s"
    using assms by (auto simp: lock_inv_def lock_sm_def)
  then have c: "plain_config (sm_config s)" "sm_enabled s" "sm_forced s = None" "sm_div_count s = 0"
    by (simp_all add: running_def)
  have "background_pull ?s' = ?s'" by (rule no_background_pull) (simp add: c)
  moreover have "s\<lparr>sm_last_pc := None, sm_div_count := 0, sm_delay := sm_delay s - 1\<rparr> = ?s'"
    using c(4) by (cases s) simp
  moreover have "clock s b visible = Inr (background_pull
      (s\<lparr>sm_last_pc := None, sm_div_count := 0, sm_delay := sm_delay s - 1\<rparr>), b, False)"
    using c assms(2) by (simp add: clock_def Let_def plain_config_def)
  ultimately show "clock s b visible = Inr (?s', b, False)" by (simp only:)
  have "running LOCKSTEP_PROG ?s' b" using run by (simp add: running_def)
  moreover have "template_side (((slot + 1) mod 6 + k) mod 6) = clk_level s b"
    if "0 \<le> k" "k < sm_delay s - 1" for k
    using assms(1) that unfolding slot_shift lock_inv_def by simp
  moreover have "template_side slot = clk_level s b"
    using assms(1) d unfolding lock_inv_def by (metis add.right_neutral order_refl mod_pos_pos_trivial)
  ultimately show "lock_step_ok s b slot ?s' b"
    using assms(1) st d
    by (simp add: lock_step_ok_def lock_inv_def next_lock_slot_def lock_sm_def clk_level_def clk_bit_def
      halting_def owes_def slot_shift)
qed

text \<open>The FIFO part of the invariant.\<close>

lemma issue_puts:
  assumes "lock_inv s b slot" "issue s b visible = Inr (s', b', t)" "0 \<le> sm_pc s" "sm_pc s < 32"
    "sm_stalled s' \<Longrightarrow> sm_pc s' = sm_pc s"
    "\<not> sm_stalled s' \<Longrightarrow> sm_pc s' \<in> set (nexts (sm_pc s))"
    "sm_stalled s' \<Longrightarrow> sm_pc s = 19 \<or> sm_pc s = 29"
  shows "puts_ok (halting s') (sm_tx s') \<and> (sm_pc s' = 30 \<longrightarrow> sm_osr s' AND 0x1F \<in> set default_handlers)
    \<and> owes s' = owes s"
proof -
  have l: "lock_sm s b" and p: "puts_ok (halting s) (sm_tx s)"
    and o: "sm_pc s = 30 \<longrightarrow> sm_osr s AND 0x1F \<in> set default_handlers"
    using assms(1) by (simp_all add: lock_inv_def)
  note q = issue_queue [OF assms(2) l assms(3,4)]
  note f = word_facts [OF assms(3,4)]
  consider "sm_pc s = 19" | "sm_pc s = 29" | "sm_pc s = 30"
    | "sm_pc s \<noteq> 19" "sm_pc s \<noteq> 29" "sm_pc s \<noteq> 30" by blast
  then show ?thesis
  proof cases
    case 1
    have h: "halting s" using 1 by (simp add: halting_def)
    show ?thesis
    proof (cases "sm_tx s")
      case Nil
      with q(1) 1 have "sm_stalled s'" "sm_tx s' = []" by simp_all
      then show ?thesis using assms(5) 1 Nil by (simp add: owes_def halting_def)
    next
      case (Cons w ws)
      with q(1) 1 have ns: "\<not> sm_stalled s'" and t: "sm_tx s' = ws" by simp_all
      have "sm_pc s' \<noteq> 30" "sm_pc s' \<noteq> 19" using assms(6) [OF ns] f(4,5) 1 by force+
      then show ?thesis using p h Cons t by (simp add: halting_def owes_def)
    qed
  next
    case 2
    have h: "\<not> halting s" using 2 by (simp add: halting_def)
    show ?thesis
    proof (cases "sm_tx s")
      case Nil
      with q(1) 2 have "sm_stalled s'" "sm_tx s' = []" by simp_all
      then show ?thesis using assms(5) 2 Nil by (simp add: owes_def halting_def)
    next
      case (Cons w ws)
      with q(1) 2 have ns: "\<not> sm_stalled s'" and t: "sm_tx s' = ws" "sm_osr s' = w" by simp_all
      have "sm_pc s' \<noteq> 19" using assms(6) [OF ns] f(5) 2 by force
      then have nh: "sm_pc s' = 30 \<Longrightarrow> halting s' = (w AND 31 = ADDR_HALT)"
        by (simp add: halting_def t)
      have "nexts 29 = [30]" by code_simp
      then have "sm_pc s' = 30" using assms(6) [OF ns] 2 by simp
      then show ?thesis using p h Cons t nh by (simp add: owes_def)
    qed
  next
    case 3
    with q(2) have "sm_pc s' = sm_osr s AND 31" "sm_tx s' = sm_tx s" by simp_all
    moreover have "sm_osr s AND 31 \<noteq> 30" using o 3 by (auto simp: default_handlers_def
        ADDR_RD_def ADDR_RDB_def ADDR_WR_def ADDR_HALT_def ADDR_CYC_def)
    moreover have "halting s = (sm_osr s AND 31 = 19)" using 3 by (simp add: halting_def ADDR_HALT_def)
    ultimately show ?thesis using p by (simp add: halting_def owes_def)
  next
    case 4
    have ns: "\<not> sm_stalled s'" using assms(7) 4 by blast
    have "sm_pc s' \<noteq> 30" using assms(6) [OF ns] f(4) 4 by metis
    moreover have "sm_pc s' \<noteq> 19" using assms(6) [OF ns] f(5) 4 by metis
    ultimately show ?thesis using p q(3) 4 by (simp add: halting_def owes_def)
  qed
qed

lemma clock_issue:
  assumes inv: "lock_inv s b slot" and d: "sm_delay s = 0"
  shows "\<exists>s' b'. clock s b visible = Inr (s', b', True) \<and> lock_step_ok s b slot s' b'"
proof -
  let ?s = "s\<lparr>sm_last_pc := None\<rparr>" and ?i = "word_at (sm_pc s)"
  have l: "lock_sm s b" and slot: "0 \<le> slot" "slot < 6" using inv by (simp_all add: lock_inv_def)
  then have sm: "slot mod 6 = slot" by simp
  then have reach: "lock_reach (sm_pc s) slot" using inv d by (simp add: lock_inv_def)
  note rules = reach_rules [OF reach]
  note facts = word_facts [OF rules(3,4)]
  have run: "running LOCKSTEP_PROG s b" using l by (simp add: lock_sm_def)
  then have c: "plain_config (sm_config s)" "sm_enabled s" "sm_forced s = None" "sm_exec_next s = None"
    "sm_div_count s = 0" by (simp_all add: running_def)
  have inv': "lock_inv ?s b slot"
    using inv by (simp add: lock_inv_def lock_sm_def running_def halting_def clk_level_def clk_bit_def)
  have run': "running LOCKSTEP_PROG ?s b" and l': "lock_sm ?s b"
    using inv' by (simp_all add: lock_inv_def lock_sm_def)
  have pc': "0 \<le> sm_pc ?s" "sm_pc ?s < 32" using rules(3,4) by simp_all
  have w: "fetched ?s b = word_at (sm_pc ?s)" by (rule lock_fetched [OF run' pc'])
  have div: "s\<lparr>sm_last_pc := None, sm_div_count := 0\<rparr> = ?s" using c(5) by (cases s) simp
  have "clock s b visible = issue (s\<lparr>sm_last_pc := None, sm_div_count := 0\<rparr>) b visible"
    using c d by (simp add: clock_def Let_def plain_config_def)
  then have ck: "clock s b visible = issue ?s b visible" by (simp only: div)
  have "\<not> isl (pio_execute (?s\<lparr>sm_last_pc := Some (sm_pc s)\<rparr>) b ?i visible)"
    by (rule pio_execute_legal [OF facts(2)]) (use l in \<open>simp add: lock_sm_def\<close>)
  moreover have "fetch ?s b = (?i, Mem_instr, ?s\<lparr>sm_last_pc := Some (sm_pc s)\<rparr>)"
    using c w by (simp add: fetch_def fetched_def)
  ultimately obtain s' b' where iss: "issue ?s b visible = Inr (s', b', True)"
    by (cases "pio_execute (?s\<lparr>sm_last_pc := Some (sm_pc s)\<rparr>) b ?i visible")
      (auto simp: issue_def Let_def split: prod.splits)
  have ok: "issued_ok LOCKSTEP_PROG ?s b s' b'"
    by (rule issue_ok [OF iss run']) (simp add: w facts(1))
  have side: "template_side ((slot + k) mod 6) = side_bit ?i" if "0 \<le> k" "k \<le> delay_bits ?i" for k
    using rules(1) that by (simp add: state_rules_def Let_def)
  have db: "0 \<le> delay_bits ?i" by (simp add: delay_bits_def)
  have lev: "clk_level s' b' = side_bit ?i" and cfg: "running LOCKSTEP_PROG s' b'"
    and cb: "clk_bit s' = clk_bit s" and sms: "b_sms b' = b_sms b" and oe: "b_oe b' = b_oe b"
    using ok facts(6) by (simp_all add: issued_ok_def Let_def w clk_bit_def)
  have conf: "sm_config s' = sm_config s" using issue_queue(4) [OF iss l' pc'] by simp
  then have l2: "lock_sm s' b'" using l cfg by (simp add: lock_sm_def)
  have now: "template_side slot = side_bit ?i" using side [of 0] db slot by simp
  have stall: "may_block ?i \<and> sm_pc s' = sm_pc s \<and> sm_delay s' = 0" if "sm_stalled s'"
    using ok that d by (simp add: issued_ok_def Let_def w)
  have dly: "sm_delay s' = delay_bits ?i" if "\<not> sm_stalled s'"
    using ok that by (simp add: issued_ok_def Let_def w)
  have nx: "sm_pc s' \<in> set (nexts (sm_pc s))" if "\<not> sm_stalled s'"
  proof -
    have "sm_pc s' \<in> set default_handlers" if "sm_pc ?s = 30"
      using issue_queue(2) [OF iss l' pc' that] inv that by (simp add: lock_inv_def)
    then have "sm_pc s' \<in> set (nexts (sm_pc ?s))"
      using facts(7) rules(1) by (intro issued_next [OF ok that w, of slot]) (auto simp: w)
    then show ?thesis by simp
  qed
  have b19: "sm_pc s = 19 \<or> sm_pc s = 29" if "sm_stalled s'" using rules(2) stall [OF that] by blast
  have ow: "owes ?s = owes s" by (simp add: owes_def halting_def)
  have q: "puts_ok (halting s') (sm_tx s') \<and> (sm_pc s' = 30 \<longrightarrow> sm_osr s' AND 31 \<in> set default_handlers)
      \<and> owes s' = owes s"
    unfolding ow [symmetric] by (rule issue_puts [OF inv' iss pc']) (use stall nx b19 in auto)
  have pins: "\<forall>p. p \<noteq> clk_bit s \<longrightarrow> bit (b_out b') p = bit (b_out b) p" if "slot \<noteq> DRIVE_SLOT"
    using ok rules(1) that by (simp add: issued_ok_def Let_def w clk_bit_def state_rules_def)
  have "lock_inv s' b' (next_lock_slot s' slot)"
  proof (cases "sm_stalled s'")
    case True
    then show ?thesis using stall reach slot l2 q by (simp add: lock_inv_def next_lock_slot_def)
  next
    case False
    have "(sm_pc s', next_slot ?i slot) \<in> set (path_next LOCKSTEP_WORDS 24 28 default_handlers (sm_pc s) slot)"
      using nx [OF False] by (simp add: path_next_def)
    then have "lock_reach (sm_pc s') (next_slot ?i slot)" by (rule path_step [OF reach])
    moreover have "next_slot ?i slot = ((slot + 1) mod 6 + delay_bits ?i) mod 6"
      unfolding slot_shift by (simp add: next_slot_def ac_simps)
    moreover have "template_side (((slot + 1) mod 6 + k) mod 6) = clk_level s' b'"
      if "0 \<le> k" "k < delay_bits ?i" for k
      unfolding slot_shift lev using that by (intro side) auto
    ultimately show ?thesis
      using False dly [OF False] db slot l2 q by (simp add: lock_inv_def next_lock_slot_def)
  qed
  then have "lock_step_ok s b slot s' b'"
    using lev now conf oe sms pins b19 stall q by (auto simp: lock_step_ok_def)
  then show ?thesis using ck iss by auto
qed

lemma clock_lock:
  assumes "lock_inv s b slot"
  obtains s' b' t where "clock s b visible = Inr (s', b', t)" "lock_step_ok s b slot s' b'"
proof (cases "sm_delay s = 0")
  case True
  from clock_issue [OF assms True] show thesis using that by blast
next
  case False
  from clock_delay [OF assms False] show thesis using that by blast
qed

section \<open>The dispatch never stalls\<close>

text \<open>\<open>fetch\<close> reads the TX level before it jumps to the dispatch, so only \<open>HALT\<close> can stall.\<close>

definition disp_inv :: "state_machine \<Rightarrow> bool" where
  "disp_inv s \<longleftrightarrow> k_status_n (sm_config s) = 1 \<and> (sm_pc s = 27 \<and> sm_x s = 0 \<longrightarrow> sm_tx s \<noteq> [])
     \<and> (sm_pc s = 29 \<longrightarrow> sm_tx s \<noteq> [])"

lemma status_word: "word_at 26 = 40997" "word_at 27 = 4157"
  by (simp_all add: LOCKSTEP_WORDS_def)

lemma exec_status_word:
  assumes "k_status_sel (sm_config s) = 0" "k_status_n (sm_config s) = 1"
  shows "pio_execute s b 40997 visible = Inr (s\<lparr>sm_x := (if sm_tx s = [] then M32 else 0)\<rparr>, b, False, False)"
  using assms by (simp add: pio_execute_def exec_mov_def mov_source_def status_value_def mov_operation_def Let_def)

lemma exec_test_word:
  "pio_execute s b 4157 visible = Inr (if sm_x s = 0 then s\<lparr>sm_pc := 29\<rparr> else s, b, False, sm_x s = 0)"
  by (simp add: pio_execute_def exec_jmp_def Let_def)

lemma dispatch_table:
  "list_all (\<lambda>pc. (29 \<in> set (nexts (int pc)) \<longrightarrow> pc = 27) \<and> (27 \<in> set (nexts (int pc)) \<longrightarrow> pc = 26)) [0..<32]"
  by code_simp

lemma dispatch_preds:
  assumes "0 \<le> pc" "pc < 32"
  shows "29 \<in> set (nexts pc) \<Longrightarrow> pc = 27" "27 \<in> set (nexts pc) \<Longrightarrow> pc = 26"
proof -
  have n: "int (nat pc) = pc" using assms(1) by simp
  have "nat pc \<in> set [0..<32]" using assms by auto
  then have "(29 \<in> set (nexts (int (nat pc))) \<longrightarrow> nat pc = 27) \<and> (27 \<in> set (nexts (int (nat pc))) \<longrightarrow> nat pc = 26)"
    using dispatch_table unfolding list_all_iff by blast
  then have *: "(29 \<in> set (nexts pc) \<longrightarrow> nat pc = 27) \<and> (27 \<in> set (nexts pc) \<longrightarrow> nat pc = 26)"
    unfolding n .
  have "nat pc = 27 \<longleftrightarrow> pc = 27" "nat pc = 26 \<longleftrightarrow> pc = 26" using assms(1) by linarith+
  with * show "29 \<in> set (nexts pc) \<Longrightarrow> pc = 27" "27 \<in> set (nexts pc) \<Longrightarrow> pc = 26" by blast+
qed

lemma finish_x [simp]: "sm_x (finish s i src st j) = sm_x s"
  by (auto simp: finish_def Let_def split: instr_source.splits)

lemma issue_dispatch:
  assumes i: "issue s b visible = Inr (s', b', t)" and l: "lock_sm s b" and pc: "0 \<le> sm_pc s" "sm_pc s < 32"
    and n: "k_status_n (sm_config s) = 1"
  shows "sm_pc s = 26 \<Longrightarrow> sm_x s' = (if sm_tx s = [] then M32 else 0)"
    and "sm_pc s = 27 \<Longrightarrow> sm_x s \<noteq> 0 \<Longrightarrow> sm_pc s' = 28"
proof -
  let ?s1 = "s\<lparr>sm_last_pc := Some (sm_pc s)\<rparr>"
  have run: "running LOCKSTEP_PROG s b" and sel: "k_status_sel (sm_config s) = 0"
    using l by (simp_all add: lock_sm_def)
  then have w: "fetched s b = word_at (sm_pc s)" using pc by (intro lock_fetched)
  have fo: "followed (fetched s b)" using word_facts(1) [OF pc] by (simp add: w)
  from i run fo obtain s2 b2 st j where
    e: "pio_execute ?s1 b (fetched s b) visible = Inr (s2, b2, st, j)"
    and s': "s' = finish s2 (fetched s b) Mem_instr st j"
    by (rule issue_parts)
  show "sm_x s' = (if sm_tx s = [] then M32 else 0)" if "sm_pc s = 26"
    using e sel n exec_status_word [of ?s1 b visible] status_word by (auto simp: s' w that)
  show "sm_pc s' = 28" if p: "sm_pc s = 27" "sm_x s \<noteq> 0"
  proof -
    have "pio_execute ?s1 b (fetched s b) visible = Inr (?s1, b, False, False)"
      using exec_test_word [of ?s1 b visible] status_word p by (simp add: w)
    with e have "s2 = ?s1" "\<not> st" "\<not> j" by simp_all
    moreover have "k_wrap_top (sm_config s) = 28" using run by (simp add: running_def)
    ultimately show ?thesis using p(1) by (simp add: s' finish_def Let_def)
  qed
qed

lemma issue_path:
  assumes inv: "lock_inv s b slot" and d: "sm_delay s = 0" and i: "issue s b visible = Inr (s', b', t)"
  shows "lock_sm s b" "0 \<le> sm_pc s" "sm_pc s < 32"
    "\<not> sm_stalled s' \<Longrightarrow> sm_pc s' \<in> set (nexts (sm_pc s))"
    "sm_stalled s' \<Longrightarrow> sm_pc s' = sm_pc s \<and> (sm_pc s = 29 \<or> sm_pc s = 19)"
proof -
  show l: "lock_sm s b" using inv by (simp add: lock_inv_def)
  have slot: "0 \<le> slot" "slot < 6" using inv by (simp_all add: lock_inv_def)
  then have "slot mod 6 = slot" by simp
  then have reach: "lock_reach (sm_pc s) slot" using inv d by (simp add: lock_inv_def)
  note rules = reach_rules [OF reach]
  show pc: "0 \<le> sm_pc s" "sm_pc s < 32" using rules(3,4) .
  have run: "running LOCKSTEP_PROG s b" using l by (simp add: lock_sm_def)
  have w: "fetched s b = word_at (sm_pc s)" by (rule lock_fetched [OF run pc])
  note q = issue_queue [OF i l pc] and f = word_facts [OF pc]
  have ok: "issued_ok LOCKSTEP_PROG s b s' b'" by (rule issue_ok [OF i run]) (simp add: w f(1))
  show "sm_pc s' \<in> set (nexts (sm_pc s))" if "\<not> sm_stalled s'"
  proof -
    have "sm_pc s = 30 \<Longrightarrow> sm_pc s' \<in> set default_handlers" using q(2) inv by (simp add: lock_inv_def)
    then show ?thesis
      using f(7) rules(1) by (intro issued_next [OF ok that w, of slot]) (auto simp: w)
  qed
  show "sm_pc s' = sm_pc s \<and> (sm_pc s = 29 \<or> sm_pc s = 19)" if "sm_stalled s'"
    using ok that rules(2) by (simp add: issued_ok_def Let_def w)
qed

lemma clock_split:
  assumes inv: "lock_inv s b slot" and c: "clock s b visible = Inr (s', b', t)"
  obtains "sm_delay s \<noteq> 0" "s' = s\<lparr>sm_last_pc := None, sm_delay := sm_delay s - 1\<rparr>" "\<not> sm_stalled s"
  | "sm_delay s = 0" "issue (s\<lparr>sm_last_pc := None\<rparr>) b visible = Inr (s', b', t)"
    "lock_inv (s\<lparr>sm_last_pc := None\<rparr>) b slot"
proof (cases "sm_delay s = 0")
  case False
  have "\<not> sm_stalled s" using inv False by (auto simp: lock_inv_def)
  with clock_delay(1) [OF inv False, of visible] c False show thesis using that(1) by simp
next
  case True
  let ?s = "s\<lparr>sm_last_pc := None\<rparr>"
  have cf: "plain_config (sm_config s)" "sm_enabled s" "sm_forced s = None" "sm_div_count s = 0"
    using inv by (simp_all add: lock_inv_def lock_sm_def running_def)
  have div: "s\<lparr>sm_last_pc := None, sm_div_count := 0\<rparr> = ?s" using cf(4) by (cases s) simp
  have "clock s b visible = issue (s\<lparr>sm_last_pc := None, sm_div_count := 0\<rparr>) b visible"
    using cf True by (simp add: clock_def Let_def plain_config_def)
  then have "issue ?s b visible = Inr (s', b', t)" using c by (simp only: div)
  moreover have "lock_inv ?s b slot"
    using inv by (simp add: lock_inv_def lock_sm_def running_def halting_def clk_level_def clk_bit_def)
  ultimately show thesis using that(2) True by blast
qed

lemma step_disp:
  assumes inv: "lock_inv s b slot" and d: "sm_delay s = 0" and i: "issue s b visible = Inr (s', b', t)"
    and di: "disp_inv s"
  shows "disp_inv s' \<and> (sm_stalled s' \<longrightarrow> sm_pc s' = 19)"
proof -
  note p = issue_path [OF inv d i]
  have n: "k_status_n (sm_config s) = 1" using di by (simp add: disp_inv_def)
  note q = issue_queue [OF i p(1-3)] and x = issue_dispatch [OF i p(1-3) n]
  show ?thesis
  proof (cases "sm_stalled s'")
    case True
    note st = p(5) [OF this]
    moreover have "sm_pc s \<noteq> 29" using q(1) True di by (auto simp: disp_inv_def split: if_splits)
    ultimately show ?thesis using q(4) n by (simp add: disp_inv_def)
  next
    case False
    have "sm_tx s' \<noteq> []" if p': "sm_pc s' = 29"
    proof -
      have "sm_pc s = 27" using dispatch_preds(1) [OF p(2,3)] p(4) [OF False] p' by simp
      moreover have "sm_x s = 0" using x(2) calculation p' by force
      ultimately show ?thesis using di q(3) by (simp add: disp_inv_def)
    qed
    moreover have "sm_tx s' \<noteq> []" if p': "sm_pc s' = 27" "sm_x s' = 0"
    proof -
      have "sm_pc s = 26" using dispatch_preds(2) [OF p(2,3)] p(4) [OF False] p' by simp
      then show ?thesis using x(1) q(3) p'(2) by (auto split: if_splits)
    qed
    ultimately show ?thesis using q(4) n False by (simp add: disp_inv_def)
  qed
qed

lemma clock_disp:
  assumes inv: "lock_inv s b slot" and di: "disp_inv s" and c: "clock s b visible = Inr (s', b', t)"
  shows "disp_inv s' \<and> (sm_stalled s' \<longrightarrow> sm_pc s' = 19)"
  using inv c
proof (cases rule: clock_split)
  case 1
  then show ?thesis using di by (simp add: disp_inv_def)
next
  case 2
  from step_disp [OF 2(3) _ 2(2)] di 2(1) show ?thesis by (simp add: disp_inv_def)
qed

section \<open>Runs without HALT\<close>

definition no_halt :: "state_machine \<Rightarrow> bool" where
  "no_halt s \<longleftrightarrow> \<not> halting s \<and> (\<forall>w \<in> set (sm_tx s). w AND 0x1F \<noteq> ADDR_HALT)"

lemma step_no_halt:
  assumes inv: "lock_inv s b slot" and d: "sm_delay s = 0" and i: "issue s b visible = Inr (s', b', t)"
    and n: "no_halt s" and ns: "\<not> sm_stalled s'"
  shows "no_halt s'"
proof -
  note p = issue_path [OF inv d i]
  note q = issue_queue [OF i p(1-3)] and f = word_facts [OF p(2,3)]
  have p19: "sm_pc s \<noteq> 19" using n by (simp add: no_halt_def halting_def)
  show ?thesis
  proof (cases "sm_pc s = 29")
    case True
    then have "sm_tx s \<noteq> []" and o: "sm_osr s' = hd (sm_tx s)" "sm_tx s' = tl (sm_tx s)"
      using q(1) ns by (auto split: if_splits)
    then have "sm_osr s' AND 31 \<noteq> ADDR_HALT" "\<forall>w \<in> set (sm_tx s'). w AND 31 \<noteq> ADDR_HALT"
      using n by (cases "sm_tx s"; simp add: no_halt_def)+
    moreover have "sm_pc s' \<noteq> 19" using p(4) [OF ns] f(5) True by force
    ultimately show ?thesis by (simp add: no_halt_def halting_def)
  next
    case False
    then have t: "sm_tx s' = sm_tx s" using q(3) p19 by simp
    have "sm_pc s' \<noteq> 30" using p(4) [OF ns] f(4) False by metis
    moreover have "sm_pc s' \<noteq> 19"
    proof (cases "sm_pc s = 30")
      case True
      then show ?thesis using q(2) n by (simp add: no_halt_def halting_def ADDR_HALT_def)
    next
      case nf: False
      then show ?thesis using p(4) [OF ns] f(5) by metis
    qed
    ultimately show ?thesis using n t by (simp add: no_halt_def halting_def)
  qed
qed

lemma clock_no_halt:
  assumes inv: "lock_inv s b slot" and di: "disp_inv s" and n: "no_halt s"
    and c: "clock s b visible = Inr (s', b', t)"
  shows "no_halt s' \<and> \<not> sm_stalled s'"
  using inv c
proof (cases rule: clock_split)
  case 1
  then show ?thesis using n by (simp add: no_halt_def halting_def)
next
  case 2
  have s: "disp_inv (s\<lparr>sm_last_pc := None\<rparr>)" "no_halt (s\<lparr>sm_last_pc := None\<rparr>)"
    using di n by (simp_all add: disp_inv_def no_halt_def halting_def)
  have d: "sm_delay (s\<lparr>sm_last_pc := None\<rparr>) = 0" using 2(1) by simp
  have "sm_pc s \<noteq> 19" using n by (simp add: no_halt_def halting_def)
  then have "\<not> sm_stalled s'"
    using step_disp [OF 2(3) d 2(2) s(1)] issue_path(5) [OF 2(3) d 2(2)] by force
  then show ?thesis using step_no_halt [OF 2(3) d 2(2) s(2)] by blast
qed

end
