(* ===== verification/Pio_Paths.thy ===== *)
theory Pio_Paths
  imports Pio_Run
begin

text \<open>
  The path check against the simulator. A run starts at the fetch address in the drive slot; its
  clocks take any values of the pins, the CPU may fill and empty the FIFOs and move the other pins
  between them, and an \<open>out pc\<close> of five bits lands on one of the handlers. When the report has no
  error, every clock of every run obeys the frame schedule. The proof goes through the paths of
  the exploration: each instruction the simulator executes moves to a successor of its state.
\<close>

section \<open>Runs of the simulator\<close>

definition out_table :: "int \<Rightarrow> bool" where
  "out_table instr \<longleftrightarrow> shr instr 13 = 3 \<and> dest_of instr = 5 \<and> (instr AND 0xFF) AND 0x1F = 5"

inductive path_run :: "pio_program \<Rightarrow> int list \<Rightarrow> state_machine \<Rightarrow> pio_block \<Rightarrow> int \<Rightarrow> bool"
  for prog handlers where
  run_start: "running prog s b \<Longrightarrow> sm_pc s = ADDR_FETCH \<Longrightarrow> sm_delay s = 0
    \<Longrightarrow> path_run prog handlers s b DRIVE_SLOT"
| run_clock: "path_run prog handlers s b slot \<Longrightarrow> clock s b visible = Inr (s', b', t)
    \<Longrightarrow> (sm_delay s = 0 \<and> out_table (fetched s b) \<Longrightarrow> sm_pc s' \<in> set handlers)
    \<Longrightarrow> path_run prog handlers s' b' (next_lock_slot s' slot)"
| run_outside: "path_run prog handlers s b slot \<Longrightarrow> kept s s' \<Longrightarrow> sm_pc s' = sm_pc s
    \<Longrightarrow> sm_stalled s' = sm_stalled s \<Longrightarrow> b_mem b' = b_mem b \<Longrightarrow> clk_level s' b' = clk_level s b
    \<Longrightarrow> path_run prog handlers s' b' slot"

section \<open>Instructions that do not look at the pins\<close>

lemma pio_execute_blind:
  assumes "\<not> reads_pins instr"
  shows "pio_execute s b instr v = pio_execute s b instr v'"
proof -
  have jmp: "exec_jmp s b (instr AND 0xFF) v = exec_jmp s b (instr AND 0xFF) v'" if "shr instr 13 = 0"
    using assms that by (auto simp: reads_pins_def Let_def exec_jmp_def dest_of_def)
  have inn: "exec_in s b (instr AND 0xFF) v = exec_in s b (instr AND 0xFF) v'" if "shr instr 13 = 2"
    using assms that by (auto simp: reads_pins_def Let_def exec_in_def in_source_def dest_of_def)
  have mov: "exec_mov s b (instr AND 0xFF) v = exec_mov s b (instr AND 0xFF) v'" if "shr instr 13 = 5"
    using assms that by (auto simp: reads_pins_def Let_def exec_mov_def mov_source_def)
  have "shr instr 13 \<noteq> 1" using assms by (simp add: reads_pins_def Let_def)
  then show ?thesis using jmp inn mov by (simp add: pio_execute_def Let_def)
qed

lemma issue_blind: "\<not> reads_pins (fetched s b) \<Longrightarrow> running prog s b \<Longrightarrow> issue s b v = issue s b v'"
  using pio_execute_blind [of "fetched s b" "s\<lparr>sm_last_pc := Some (sm_pc s)\<rparr>" b v v']
  by (simp add: issue_def fetch_def fetched_def running_def)

section \<open>The invariant of a run\<close>

definition path_inv :: "pio_program \<Rightarrow> int list \<Rightarrow> state_machine \<Rightarrow> pio_block \<Rightarrow> int \<Rightarrow> bool" where
  "path_inv prog handlers s b slot \<longleftrightarrow>
     running prog s b \<and> 0 \<le> slot \<and> slot < 6
     \<and> path_reach (pp_instr prog) (wrap_low prog) (wrap_high prog) handlers (sm_pc s) ((slot + sm_delay s) mod 6)
     \<and> 0 \<le> sm_delay s \<and> (sm_stalled s \<longrightarrow> sm_delay s = 0)
     \<and> (\<forall>k. 0 \<le> k \<and> k < sm_delay s \<longrightarrow> template_side ((slot + k) mod 6) = clk_level s b)"

lemma successor_of_issue:
  assumes ok: "issued_ok prog s b s' b'" and ns: "\<not> sm_stalled s'"
    and w: "fetched s b = pp_instr prog ! nat (sm_pc s)"
    and r: "state_rules (pp_instr prog) (wrap_low prog) (wrap_high prog) (sm_pc s) slot"
    and d: "out_table (fetched s b) \<Longrightarrow> sm_pc s' \<in> set handlers"
  shows "sm_pc s' \<in> set (snd (successors handlers (fall_through (wrap_low prog) (wrap_high prog) (sm_pc s))
      (sm_pc s) (fetched s b)))"
proof -
  let ?i = "fetched s b" and ?f = "fall_through (wrap_low prog) (wrap_high prog) (sm_pc s)"
  have "shr ?i 13 = 0 \<and> sm_pc s' = (?i AND 0xFF) AND 0x1F
      \<or> shr ?i 13 = 3 \<and> dest_of ?i = 5 \<and> 0 \<le> sm_pc s' \<and> sm_pc s' < 2 ^ nat ((?i AND 0xFF) AND 0x1F)
      \<or> \<not> (shr ?i 13 = 0 \<and> dest_of ?i = 0) \<and> \<not> (shr ?i 13 = 3 \<and> dest_of ?i = 5) \<and> sm_pc s' = ?f"
    using ok ns by (simp add: issued_ok_def Let_def)
  then consider "shr ?i 13 = 0" "sm_pc s' = (?i AND 0xFF) AND 0x1F"
    | "shr ?i 13 = 3" "dest_of ?i = 5" "0 \<le> sm_pc s'" "sm_pc s' < 2 ^ nat ((?i AND 0xFF) AND 0x1F)"
    | "\<not> (shr ?i 13 = 0 \<and> dest_of ?i = 0)" "\<not> (shr ?i 13 = 3 \<and> dest_of ?i = 5)" "sm_pc s' = ?f"
    by blast
  then show ?thesis
  proof cases
    case 1
    then show ?thesis using successors_jmp [OF 1(1)] by simp
  next
    case 2
    then show ?thesis using d unfolding out_table_def successors_out [OF 2(1,2)] by simp
  next
    case 3
    have "shr ?i 13 = 0 \<and> dest_of ?i \<in> {2, 4} \<longrightarrow> (?i AND 0xFF) AND 0x1F = ?f"
      using r unfolding state_rules_def Let_def w by blast
    from successors_fall [OF 3(1,2) this] show ?thesis unfolding 3(3) .
  qed
qed

text \<open>What the theorem says of one clock.\<close>

definition clock_rules ::
  "pio_program \<Rightarrow> (string \<times> int) list \<Rightarrow> state_machine \<Rightarrow> pio_block \<Rightarrow> int \<Rightarrow> state_machine \<Rightarrow> pio_block \<Rightarrow> bool" where
  "clock_rules prog labels s b slot s' b' \<longleftrightarrow>
     clk_level s' b' = template_side slot
   \<and> (slot \<noteq> DRIVE_SLOT \<longrightarrow> b_oe b' = b_oe b \<and> (\<forall>p. p \<noteq> clk_bit s \<longrightarrow> bit (b_out b') p = bit (b_out b) p))
   \<and> (slot \<noteq> SAMPLE_SLOT \<longrightarrow> (\<forall>v v'. clock s b v = clock s b v'))
   \<and> (sm_stalled s' \<longrightarrow> sm_pc s \<in> set (allowed_blocking labels))
   \<and> (sm_delay s = 0 \<and> shr (fetched s b) 13 = 0 \<and> dest_of (fetched s b) \<in> {2, 4} \<longrightarrow>
        sm_pc s' = fall_through (wrap_low prog) (wrap_high prog) (sm_pc s))
   \<and> 0 \<le> sm_pc s \<and> sm_pc s < int (length (pp_instr prog)) \<and> 0 \<le> slot \<and> slot < 6"

lemma delay_clock:
  assumes inv: "path_inv prog handlers s b slot" and d: "sm_delay s \<noteq> 0"
  shows "clock s b visible = Inr (s\<lparr>sm_last_pc := None, sm_delay := sm_delay s - 1\<rparr>, b, False)"
    "path_inv prog handlers (s\<lparr>sm_last_pc := None, sm_delay := sm_delay s - 1\<rparr>) b ((slot + 1) mod 6)"
    "clk_level s b = template_side slot" "\<not> sm_stalled s"
proof -
  let ?s' = "s\<lparr>sm_last_pc := None, sm_delay := sm_delay s - 1\<rparr>"
  have run: "running prog s b" and pos: "0 < sm_delay s" using inv d by (auto simp: path_inv_def)
  show st: "\<not> sm_stalled s" using inv d by (auto simp: path_inv_def)
  have c: "plain_config (sm_config s)" "sm_enabled s" "sm_forced s = None" "sm_div_count s = 0"
    using run by (simp_all add: running_def)
  have "background_pull ?s' = ?s'" by (rule no_background_pull) (simp add: c)
  moreover have "s\<lparr>sm_last_pc := None, sm_div_count := 0, sm_delay := sm_delay s - 1\<rparr> = ?s'"
    using c(4) by (cases s) simp
  moreover have "clock s b visible = Inr (background_pull
      (s\<lparr>sm_last_pc := None, sm_div_count := 0, sm_delay := sm_delay s - 1\<rparr>), b, False)"
    using c d by (simp add: clock_def Let_def plain_config_def)
  ultimately show "clock s b visible = Inr (?s', b, False)" by (simp only:)
  show "clk_level s b = template_side slot"
    using inv pos unfolding path_inv_def by (metis add.right_neutral order_refl mod_pos_pos_trivial)
  have "running prog ?s' b" using run by (simp add: running_def)
  moreover have "template_side (((slot + 1) mod 6 + k) mod 6) = clk_level s b"
    if "0 \<le> k" "k < sm_delay s - 1" for k
    using inv that unfolding slot_shift path_inv_def by simp
  ultimately show "path_inv prog handlers ?s' b ((slot + 1) mod 6)"
    using inv st pos by (simp add: path_inv_def clk_level_def clk_bit_def slot_shift)
qed

lemma clock_issues:
  assumes "running prog s b" "sm_delay s = 0"
  shows "clock s b visible = issue (s\<lparr>sm_last_pc := None\<rparr>) b visible"
proof -
  have div: "s\<lparr>sm_last_pc := None, sm_div_count := 0\<rparr> = s\<lparr>sm_last_pc := None\<rparr>"
    using assms(1) by (cases s) (simp add: running_def)
  have "clock s b visible = issue (s\<lparr>sm_last_pc := None, sm_div_count := 0\<rparr>) b visible"
    using assms by (simp add: clock_def Let_def running_def plain_config_def)
  then show ?thesis by (simp only: div)
qed

lemma path_clock:
  assumes report: "check_program prog labels handlers = Inr r" "pr_errors r = []"
    and all: "list_all followed (pp_instr prog)" and inv: "path_inv prog handlers s b slot"
    and ck: "clock s b visible = Inr (s', b', t)"
  shows "clock_rules prog labels s b slot s' b'"
    "(sm_delay s = 0 \<and> out_table (fetched s b) \<longrightarrow> sm_pc s' \<in> set handlers)
      \<Longrightarrow> path_inv prog handlers s' b' (next_lock_slot s' slot)"
proof -
  let ?mem = "pp_instr prog" and ?wb = "wrap_low prog" and ?wt = "wrap_high prog"
  have run: "running prog s b" and slot: "0 \<le> slot" "slot < 6" using inv by (simp_all add: path_inv_def)
  have reach: "path_reach ?mem ?wb ?wt handlers (sm_pc s) ((slot + sm_delay s) mod 6)"
    using inv by (simp add: path_inv_def)
  note checked = checked_states [OF report reach]
  then have range: "0 \<le> sm_pc s" "sm_pc s < int (length ?mem)" by (simp_all add: state_rules_def Let_def)
  have goals: "clock_rules prog labels s b slot s' b' \<and>
    ((sm_delay s = 0 \<and> out_table (fetched s b) \<longrightarrow> sm_pc s' \<in> set handlers)
      \<longrightarrow> path_inv prog handlers s' b' (next_lock_slot s' slot))"
  proof (cases "sm_delay s = 0")
    case False
    note dc = delay_clock [OF inv False]
    have "s' = s\<lparr>sm_last_pc := None, sm_delay := sm_delay s - 1\<rparr>" "b' = b" using ck dc(1) by simp_all
    then show ?thesis
      using dc(2-4) False range slot dc(1)
      by (simp add: clock_rules_def next_lock_slot_def clk_level_def clk_bit_def)
  next
    case True
    let ?s = "s\<lparr>sm_last_pc := None\<rparr>" and ?i = "?mem ! nat (sm_pc s)"
    have run': "running prog ?s b" using run by (simp add: running_def)
    have n: "nat (sm_pc s) < length ?mem" using range by simp
    then have w: "fetched ?s b = ?i" "fetched s b = ?i" using run by (simp_all add: fetched_def running_def)
    have fol: "followed ?i" using all n by (simp add: list_all_length)
    have iss: "issue ?s b visible = Inr (s', b', t)" using ck clock_issues [OF run True] by simp
    have ok: "issued_ok prog ?s b s' b'" by (rule issue_ok [OF iss run']) (simp add: w fol)
    have sm: "(slot + sm_delay s) mod 6 = slot" using slot True by simp
    have rules: "state_rules ?mem ?wb ?wt (sm_pc s) slot"
      and blocks: "may_block ?i \<longrightarrow> sm_pc s \<in> set (allowed_blocking labels)"
      using checked unfolding sm by simp_all
    have side: "template_side ((slot + k) mod 6) = side_bit ?i" if "0 \<le> k" "k \<le> delay_bits ?i" for k
      using rules that by (simp add: state_rules_def Let_def)
    have db: "0 \<le> delay_bits ?i" by (simp add: delay_bits_def)
    have now: "template_side slot = side_bit ?i" using side [of 0] db slot by simp
    have lev: "clk_level s' b' = side_bit ?i" and cfg: "running prog s' b'"
      using ok by (simp_all add: issued_ok_def Let_def w)
    have quiet: "b_oe b' = b_oe b \<and> (\<forall>p. p \<noteq> clk_bit s \<longrightarrow> bit (b_out b') p = bit (b_out b) p)"
      if "slot \<noteq> DRIVE_SLOT"
    proof -
      have "\<not> writes_pins ?i" using rules that by (simp add: state_rules_def Let_def)
      moreover from this have "\<not> writes_dirs ?i" by (auto simp: writes_pins_def writes_dirs_def Let_def)
      ultimately show ?thesis using ok by (simp add: issued_ok_def Let_def w clk_bit_def)
    qed
    have blind: "clock s b v = clock s b v'" if "slot \<noteq> SAMPLE_SLOT" for v v'
      using rules that issue_blind [OF _ run', of v v'] unfolding clock_issues [OF run True]
      by (simp add: state_rules_def Let_def w)
    have stall: "may_block ?i \<and> sm_pc s' = sm_pc s \<and> sm_delay s' = 0" if "sm_stalled s'"
      using ok that True by (simp add: issued_ok_def Let_def w)
    have nb: "\<not> may_block ?i" if "shr ?i 13 = 0" using that by (simp add: may_block_def)
    have dec: "sm_pc s' = fall_through ?wb ?wt (sm_pc s)" if "shr ?i 13 = 0" "dest_of ?i \<in> {2, 4}"
    proof -
      have "\<not> sm_stalled s'" using stall nb [OF that(1)] by blast
      then have "sm_pc s' = (?i AND 0xFF) AND 0x1F \<or> sm_pc s' = fall_through ?wb ?wt (sm_pc s)"
        using ok that(1) unfolding issued_ok_def Let_def w by auto
      moreover have "(?i AND 0xFF) AND 0x1F = fall_through ?wb ?wt (sm_pc s)"
        using rules that unfolding state_rules_def Let_def by blast
      ultimately show ?thesis by metis
    qed
    have "clock_rules prog labels s b slot s' b'"
      unfolding clock_rules_def using lev now quiet blind stall blocks dec range slot w by auto
    moreover have "path_inv prog handlers s' b' (next_lock_slot s' slot)"
      if tab: "sm_delay s = 0 \<and> out_table (fetched s b) \<longrightarrow> sm_pc s' \<in> set handlers"
    proof (cases "sm_stalled s'")
      case st: True
      then show ?thesis using stall [OF st] reach True slot cfg by (simp add: path_inv_def next_lock_slot_def)
    next
      case False
      have dly: "sm_delay s' = delay_bits ?i" using ok False by (simp add: issued_ok_def Let_def w)
      have "sm_pc s' \<in> set (snd (successors handlers (fall_through ?wb ?wt (sm_pc ?s)) (sm_pc ?s) (fetched ?s b)))"
        by (rule successor_of_issue [OF ok False _ _]) (use rules tab True in \<open>simp_all add: w\<close>)
      then have "(sm_pc s', next_slot ?i slot) \<in> set (path_next ?mem ?wb ?wt handlers (sm_pc s) slot)"
        by (simp add: path_next_def w)
      then have "path_reach ?mem ?wb ?wt handlers (sm_pc s') (next_slot ?i slot)"
        using path_step reach unfolding sm by blast
      moreover have "next_slot ?i slot = ((slot + 1) mod 6 + delay_bits ?i) mod 6"
        unfolding slot_shift by (simp add: next_slot_def ac_simps)
      moreover have "template_side (((slot + 1) mod 6 + k) mod 6) = clk_level s' b'"
        if "0 \<le> k" "k < delay_bits ?i" for k
        unfolding slot_shift lev using that by (intro side) auto
      ultimately show ?thesis
        using False dly db slot cfg by (simp add: path_inv_def next_lock_slot_def)
    qed
    ultimately show ?thesis by blast
  qed
  then show "clock_rules prog labels s b slot s' b'" by blast
  show "(sm_delay s = 0 \<and> out_table (fetched s b) \<longrightarrow> sm_pc s' \<in> set handlers)
      \<Longrightarrow> path_inv prog handlers s' b' (next_lock_slot s' slot)" using goals by blast
qed

lemma run_invariant:
  assumes "path_run prog handlers s b slot" "check_program prog labels handlers = Inr r" "pr_errors r = []"
    "list_all followed (pp_instr prog)"
  shows "path_inv prog handlers s b slot"
  using assms
proof (induction rule: path_run.induct)
  case (run_start s b)
  then show ?case by (simp add: path_inv_def DRIVE_SLOT_def path_start [unfolded DRIVE_SLOT_def])
next
  case (run_clock s b slot visible s' b' t)
  from path_clock(2) [OF run_clock.prems run_clock.IH [OF run_clock.prems] run_clock.hyps(2)] run_clock.hyps(3)
  show ?case by blast
next
  case (run_outside s b slot s' b')
  then show ?case by (simp add: path_inv_def running_def kept_simps)
qed

text \<open>C17: The path check is exhaustive for the simulator. Take a program whose instructions are of
  the kinds the check follows (no \<open>WAIT\<close>, \<open>IRQ\<close>, \<open>MOV PC\<close>, no executed data and no 32-bit
  \<open>out pc\<close>), and a report without errors. Then in every run from the fetch address, whatever the pins
  and the CPU do and as long as every five-bit \<open>out pc\<close> lands on a listed handler, every clock has these
  properties: the clock pin has the level of the frame slot; outside the drive slot no other pin and
  no pin direction changes; outside the sample slot the result of the clock does not depend on the
  input pins; the machine stalls only at the allowed addresses; \<open>jmp x--\<close> and \<open>jmp y--\<close> go to the
  next instruction whichever way they are decided; and the fetch stays inside the program.\<close>

theorem path_check_sound:
  assumes "check_program prog labels handlers = Inr r" "pr_errors r = []" "list_all followed (pp_instr prog)"
    "path_run prog handlers s b slot" "clock s b visible = Inr (s', b', t)"
  shows "clk_level s' b' = template_side slot
   \<and> (slot \<noteq> DRIVE_SLOT \<longrightarrow> b_oe b' = b_oe b \<and> (\<forall>p. p \<noteq> clk_bit s \<longrightarrow> bit (b_out b') p = bit (b_out b) p))
   \<and> (slot \<noteq> SAMPLE_SLOT \<longrightarrow> (\<forall>v v'. clock s b v = clock s b v'))
   \<and> (sm_stalled s' \<longrightarrow> sm_pc s \<in> set (allowed_blocking labels))
   \<and> (sm_delay s = 0 \<and> shr (fetched s b) 13 = 0 \<and> dest_of (fetched s b) \<in> {2, 4} \<longrightarrow>
        sm_pc s' = fall_through (wrap_low prog) (wrap_high prog) (sm_pc s))
   \<and> 0 \<le> sm_pc s \<and> sm_pc s < int (length (pp_instr prog)) \<and> 0 \<le> slot \<and> slot < 6"
  using path_clock(1) [OF assms(1-3) run_invariant [OF assms(4,1-3)] assms(5)]
  unfolding clock_rules_def .

text \<open>The lockstep program on a state machine that has just been started.\<close>

definition started_sm :: state_machine where
  "started_sm = (new_state_machine 0)\<lparr>sm_enabled := True, sm_pc := ADDR_FETCH,
     sm_config := default_sm_config\<lparr>k_sideset_count := 1, k_wrap_bottom := wrap_low LOCKSTEP_PROG,
       k_wrap_top := wrap_high LOCKSTEP_PROG\<rparr>\<rparr>"

definition started_block :: pio_block where
  "started_block = (new_pio_block True 0)\<lparr>b_mem := LOCKSTEP_WORDS\<rparr>"

lemma path_check_sound_witness:
  "\<exists>s' b' t. clock started_sm started_block 0 = Inr (s', b', t) \<and> clk_level s' b' = 0 \<and> \<not> sm_stalled s'"
proof -
  obtain r where r: "check_program LOCKSTEP_PROG LOCKSTEP_LABELS default_handlers = Inr r" "pr_errors r = []"
    by (rule lockstep_report)
  have run: "running LOCKSTEP_PROG started_sm started_block"
    by (simp add: running_def started_sm_def started_block_def new_state_machine_def plain_config_def
      default_sm_config_def)
  then have p: "path_run LOCKSTEP_PROG default_handlers started_sm started_block DRIVE_SLOT"
    by (rule run_start) (simp_all add: started_sm_def new_state_machine_def)
  have f: "list_all followed (pp_instr LOCKSTEP_PROG)" by code_simp
  have "\<not> isl (clock started_sm started_block 0)" by code_simp
  then obtain s' b' t where c: "clock started_sm started_block 0 = Inr (s', b', t)"
    by (cases "clock started_sm started_block 0") auto
  from path_check_sound [OF r f p c] show ?thesis
    using c by (simp add: template_side_def DRIVE_SLOT_def HIGH_SLOTS_def allowed_blocking_def
      LOCKSTEP_LABELS_def started_sm_def ADDR_FETCH_def)
qed

end
