(* ===== verification/Pio_Board.thy ===== *)
theory Pio_Board
  imports Lockstep_Program Host_Port
begin

text \<open>
  An RP2 running the lockstep program, wired to a chip: \<open>host/pio/board.py\<close>. The board steps the
  PIO block one system clock at a time, connects its pins to the chip and records the schedule
  of the project clock and of \<open>ui_in\<close>. The chip is a parameter, a state with its two operations;
  \<open>ModelChip\<close> is the one on the reference model. The MicroPython stand-ins act on the board: a
  FIFO access that waits steps the board until the program moves, and may never return.
\<close>

datatype board_error = Board_Pio pio_error | Board_Host host_error | Board_Value string

definition board_err :: "('e \<Rightarrow> board_error) \<Rightarrow> 'e + 'a \<Rightarrow> board_error + 'a" where
  "board_err f r = map_sum f id r"

section \<open>Chips\<close>

record 'c chip_ops =
  ch_uo :: "'c \<Rightarrow> int \<Rightarrow> int \<Rightarrow> int \<Rightarrow> int"
  ch_edge :: "'c \<Rightarrow> int \<Rightarrow> int \<Rightarrow> int \<Rightarrow> int \<Rightarrow> host_error + 'c"

record 'v model_chip =
  mc_model :: chip
  mc_env :: "'v option"
  mc_pullups :: int
  mc_drive_en :: int
  mc_drive_val :: int
  mc_pads :: int

definition new_model_chip :: "architecture \<Rightarrow> 'v option \<Rightarrow> int \<Rightarrow> 'v model_chip" where
  "new_model_chip arch env pullups =
     \<lparr>mc_model = Chip.reset (config_from_architecture arch), mc_env = env, mc_pullups = pullups,
      mc_drive_en = 0, mc_drive_val = 0, mc_pads = pullups\<rparr>"

definition model_chip_uo :: "config \<Rightarrow> 'v model_chip \<Rightarrow> int \<Rightarrow> int \<Rightarrow> int \<Rightarrow> int" where
  "model_chip_uo cfg c ui rst_n ena =
     o_uo (Chip.outputs cfg (mc_model c) ui (rst_n = 0) (ena \<noteq> 0))"

definition model_chip_edge ::
  "config \<Rightarrow> ('v \<Rightarrow> int \<Rightarrow> int \<Rightarrow> 'v \<times> int \<times> int) \<Rightarrow> 'v model_chip \<Rightarrow> int \<Rightarrow> int \<Rightarrow> int \<Rightarrow> int
   \<Rightarrow> host_error + 'v model_chip" where
  "model_chip_edge cfg env_step c0 ui rst_n ena index =
     (let post = Chip.outputs cfg (mc_model c0) 0 False True;
          pads_of = (\<lambda>c. resolve_pads (o_uio_out post) (o_uio_oe post) (mc_drive_en c) (mc_drive_val c) (mc_pullups c))
      in and_then (case mc_env c0 of None \<Rightarrow> Inr c0
           | Some env \<Rightarrow> and_then (pads_of c0) (\<lambda>observed.
               let (env', en, val) = env_step env index observed
               in Inr (c0\<lparr>mc_env := Some env', mc_drive_en := en, mc_drive_val := val\<rparr>))) (\<lambda>c.
         and_then (pads_of c) (\<lambda>pads.
         case tick cfg (mc_model c) ui pads (rst_n = 0) (ena \<noteq> 0) of
           None \<Rightarrow> Inl Model_Raised
         | Some (m, _) \<Rightarrow> Inr (c\<lparr>mc_pads := pads, mc_model := m\<rparr>))))"

definition model_chip_ops ::
  "config \<Rightarrow> ('v \<Rightarrow> int \<Rightarrow> int \<Rightarrow> 'v \<times> int \<times> int) \<Rightarrow> 'v model_chip chip_ops" where
  "model_chip_ops cfg env_step =
     \<lparr>ch_uo = model_chip_uo cfg, ch_edge = model_chip_edge cfg env_step\<rparr>"

section \<open>The board\<close>

record 'c board =
  bd_gpio_base :: int
  bd_block :: pio_block
  bd_chip :: "'c option"
  bd_f_sys :: int
  bd_put_cycles :: int
  bd_get_cycles :: int
  bd_poll_cycles :: int
  bd_burst_cycles :: int
  bd_min_ui_spacing :: int
  bd_clk_bit :: int
  bd_ui_shift :: int
  bd_uo_shift :: int
  bd_uo_mask :: int
  bd_cycle :: int
  bd_rst_n :: int
  bd_ena :: int
  bd_clk :: int
  bd_ui :: int
  bd_uo :: int
  bd_edges :: int
  bd_last_edge :: "int option"
  bd_last_ui_change :: "int option"
  bd_periods :: "(int \<times> int) list"
  bd_halt_periods :: "(int \<times> int) list"
  bd_min_setup :: "int option"
  bd_min_hold :: "int option"
  bd_violations :: "string list"
  bd_trace :: "(int \<times> int \<times> int \<times> int) list"
  bd_trace_limit :: int
  bd_sm :: "nat option"
  bd_watch :: "(int \<times> int list) list"
  bd_halts :: "(int \<times> int) list"

definition driven_pins :: "pio_block \<Rightarrow> int" where
  "driven_pins b = b_out b AND b_oe b"

definition raw_pins :: "'c board \<Rightarrow> int" where
  "raw_pins bd = driven_pins (bd_block bd) OR shl (bd_uo bd AND bd_uo_mask bd) (bd_uo_shift bd)"

definition refresh :: "'c chip_ops \<Rightarrow> 'c board \<Rightarrow> 'c board" where
  "refresh ops bd = (case bd_chip bd of None \<Rightarrow> bd
     | Some c \<Rightarrow> bd\<lparr>bd_uo := ch_uo ops c (bd_ui bd) (bd_rst_n bd) (bd_ena bd)\<rparr>)"

text \<open>The keyword arguments of \<open>Board\<close>.\<close>

record board_options =
  bo_f_sys :: int
  bo_rp2350 :: bool
  bo_put_cycles :: int
  bo_get_cycles :: int
  bo_poll_cycles :: int
  bo_burst_cycles :: int
  bo_min_ui_spacing :: int
  bo_trace_limit :: int

definition default_board_options :: board_options where
  "default_board_options = \<lparr>bo_f_sys = 150000000, bo_rp2350 = True, bo_put_cycles = 12,
     bo_get_cycles = 12, bo_poll_cycles = 4, bo_burst_cycles = 2, bo_min_ui_spacing = 3,
     bo_trace_limit = 0\<rparr>"

definition new_board :: "'c chip_ops \<Rightarrow> 'c option \<Rightarrow> pin_map \<Rightarrow> board_options \<Rightarrow> board_error + 'c board" where
  "new_board ops chip pins k = (case check_pin_map pins of
     None \<Rightarrow> Inl (Board_Host (HostError ''lockstep port pin map''))
   | Some base \<Rightarrow> Inr (refresh ops
       \<lparr>bd_gpio_base = base, bd_block = new_pio_block (bo_rp2350 k) base, bd_chip = chip,
        bd_f_sys = bo_f_sys k, bd_put_cycles = bo_put_cycles k, bd_get_cycles = bo_get_cycles k,
        bd_poll_cycles = bo_poll_cycles k, bd_burst_cycles = bo_burst_cycles k,
        bd_min_ui_spacing = bo_min_ui_spacing k, bd_clk_bit = pm_clk pins - base,
        bd_ui_shift = hd (pm_ui_in pins) - base, bd_uo_shift = hd (pm_uo_out pins) - base,
        bd_uo_mask = shl 1 (int (length (pm_uo_out pins))) - 1, bd_cycle = 0, bd_rst_n = 1,
        bd_ena = 1, bd_clk = 0, bd_ui = 0, bd_uo = 0, bd_edges = 0, bd_last_edge = None,
        bd_last_ui_change = None, bd_periods = [], bd_halt_periods = [], bd_min_setup = None,
        bd_min_hold = None, bd_violations = [], bd_trace = [], bd_trace_limit = bo_trace_limit k,
        bd_sm = None, bd_watch = [], bd_halts = []\<rparr>))"

section \<open>One system clock\<close>

definition opt_min :: "int option \<Rightarrow> int \<Rightarrow> int option" where
  "opt_min m v = Some (case m of None \<Rightarrow> v | Some x \<Rightarrow> min x v)"

definition add_violation :: "string \<Rightarrow> 'c board \<Rightarrow> 'c board" where
  "add_violation v bd = bd\<lparr>bd_violations := bd_violations bd @ [v]\<rparr>"

definition note_ui_change :: "'c board \<Rightarrow> 'c board" where
  "note_ui_change bd =
     (let c = bd_cycle bd;
          bd1 = (case bd_last_edge bd of None \<Rightarrow> bd
            | Some e \<Rightarrow>
                let hold = c - e; bd0 = bd\<lparr>bd_min_hold := opt_min (bd_min_hold bd) hold\<rparr>
                in if hold < bd_min_ui_spacing bd
                   then add_violation (''ui_in changed '' @ decimal hold
                     @ '' clocks after a rising edge (cycle '' @ decimal c @ '')'') bd0
                   else bd0)
      in bd1\<lparr>bd_last_ui_change := Some c\<rparr>)"

definition note_setup :: "bool \<Rightarrow> 'c board \<Rightarrow> 'c board" where
  "note_setup ui_changed bd = (case bd_last_ui_change bd of None \<Rightarrow> bd
     | Some u \<Rightarrow>
         let setup = bd_cycle bd - u in
         if ui_changed then bd
         else
           let bd0 = bd\<lparr>bd_min_setup := opt_min (bd_min_setup bd) setup\<rparr>
           in if setup < bd_min_ui_spacing bd
              then add_violation (''ui_in changed '' @ decimal setup
                @ '' clocks before a rising edge (cycle '' @ decimal (bd_cycle bd) @ '')'') bd0
              else bd0)"

definition note_period :: "'c board \<Rightarrow> 'c board" where
  "note_period bd = (case bd_last_edge bd of None \<Rightarrow> bd
     | Some e \<Rightarrow>
         let period = bd_cycle bd - e in
         if period = FRAME_CYCLES
         then bd\<lparr>bd_periods := (period, (case map_of (bd_periods bd) period of None \<Rightarrow> 0 | Some n \<Rightarrow> n) + 1)
                # filter (\<lambda>kv. fst kv \<noteq> period) (bd_periods bd)\<rparr>
         else bd\<lparr>bd_halt_periods := bd_halt_periods bd @ [(e, period)]\<rparr>)"

definition note_rise :: "bool \<Rightarrow> 'c board \<Rightarrow> 'c board" where
  "note_rise ui_changed bd =
     (let bd1 = (if ui_changed then add_violation (''ui_in changed with the rising edge (cycle ''
                   @ decimal (bd_cycle bd) @ '')'') bd else bd);
          bd2 = note_period (note_setup ui_changed bd1)
      in bd2\<lparr>bd_last_edge := Some (bd_cycle bd)\<rparr>)"

definition clk_of :: "'c board \<Rightarrow> pio_block \<Rightarrow> int" where
  "clk_of bd b = shr (driven_pins b) (bd_clk_bit bd) AND 1"

definition ui_of :: "'c board \<Rightarrow> pio_block \<Rightarrow> int" where
  "ui_of bd b = shr (driven_pins b) (bd_ui_shift bd) AND 0xFF"

text \<open>\<open>core_step\<close> returns whether the clock rose, \<open>ui_in\<close> changed and the clock changed.\<close>

definition core_step :: "'c board \<Rightarrow> board_error + 'c board \<times> bool \<times> bool \<times> bool" where
  "core_step bd =
     and_then (board_err Board_Pio (pio_step (bd_block bd) (raw_pins bd))) (\<lambda>blk.
     let bd0 = bd\<lparr>bd_block := blk\<rparr>; clk = clk_of bd blk; ui = ui_of bd blk;
         rose = (clk \<noteq> 0 \<and> bd_clk bd = 0); ui_changed = (ui \<noteq> bd_ui bd);
         clk_changed = (clk \<noteq> bd_clk bd);
         bd1 = (if ui_changed then note_ui_change bd0 else bd0);
         bd2 = (if rose then note_rise ui_changed bd1 else bd1);
         bd3 = bd2\<lparr>bd_clk := clk, bd_ui := ui\<rparr>;
         bd4 = (if bd_trace_limit bd3 \<noteq> 0 \<and> (clk_changed \<or> ui_changed)
                   \<and> int (length (bd_trace bd3)) < bd_trace_limit bd3
                then bd3\<lparr>bd_trace := bd_trace bd3 @ [(bd_cycle bd, clk, ui, bd_uo bd3)]\<rparr> else bd3)
     in Inr (bd4\<lparr>bd_cycle := bd_cycle bd + 1\<rparr>, rose, ui_changed, clk_changed))"

definition bd_machine :: "'c board \<Rightarrow> nat \<Rightarrow> state_machine" where
  "bd_machine bd i = b_sms (bd_block bd) ! i"

definition note_watch :: "'c board \<Rightarrow> 'c board" where
  "note_watch bd = (case bd_sm bd of None \<Rightarrow> bd
     | Some i \<Rightarrow> bd\<lparr>bd_watch := map (\<lambda>(addr, counts).
         (addr, if sm_last_pc (bd_machine bd i) = Some addr then counts @ [bd_edges bd] else counts))
         (bd_watch bd)\<rparr>)"

definition chip_edge :: "'c chip_ops \<Rightarrow> 'c board \<Rightarrow> board_error + 'c board" where
  "chip_edge ops bd =
     and_then (case bd_chip bd of None \<Rightarrow> Inr bd
       | Some c \<Rightarrow> and_then (board_err Board_Host (ch_edge ops c (bd_ui bd) (bd_rst_n bd) (bd_ena bd) (bd_edges bd)))
           (\<lambda>c'. Inr (bd\<lparr>bd_chip := Some c'\<rparr>))) (\<lambda>bd1.
     Inr (bd1\<lparr>bd_edges := bd_edges bd1 + 1\<rparr>))"

definition board_step :: "'c chip_ops \<Rightarrow> 'c board \<Rightarrow> board_error + 'c board" where
  "board_step ops bd =
     and_then (core_step bd) (\<lambda>(bd1, rose, ui_changed, _).
     and_then (if rose then chip_edge ops bd1 else Inr bd1) (\<lambda>bd2.
     let bd3 = note_watch bd2
     in Inr (if rose \<or> ui_changed then refresh ops bd3 else bd3)))"

fun board_steps :: "'c chip_ops \<Rightarrow> nat \<Rightarrow> 'c board \<Rightarrow> board_error + 'c board" where
  "board_steps ops 0 bd = Inr bd"
| "board_steps ops (Suc n) bd = and_then (board_step ops bd) (board_steps ops n)"

definition advance :: "'c chip_ops \<Rightarrow> int \<Rightarrow> 'c board \<Rightarrow> board_error + 'c board" where
  "advance ops cycles bd = board_steps ops (nat cycles) bd"

definition bd_set_rst_n :: "'c chip_ops \<Rightarrow> bool \<Rightarrow> 'c board \<Rightarrow> 'c board" where
  "bd_set_rst_n ops level bd = refresh ops (bd\<lparr>bd_rst_n := of_bool level\<rparr>)"

definition bd_set_ena :: "'c chip_ops \<Rightarrow> bool \<Rightarrow> 'c board \<Rightarrow> 'c board" where
  "bd_set_ena ops level bd = refresh ops (bd\<lparr>bd_ena := of_bool level\<rparr>)"

definition time_us :: "'c board \<Rightarrow> int" where
  "time_us bd = bd_cycle bd * 1000000 div bd_f_sys bd"

section \<open>Reports\<close>

definition halted_between :: "'c board \<Rightarrow> int \<Rightarrow> int \<Rightarrow> bool" where
  "halted_between bd first stop = list_ex (\<lambda>(a, b). a \<le> stop \<and> b \<ge> first) (bd_halts bd)"

definition board_check :: "'c board \<Rightarrow> string list" where
  "board_check bd = bd_violations bd @ concat (map (\<lambda>(first, period).
     if halted_between bd first (first + period) then []
     else [''clock period '' @ decimal period @ '' system clocks at cycle '' @ decimal first
           @ '' outside a halt'']) (bd_halt_periods bd))"

definition opt_text :: "int option \<Rightarrow> string" where
  "opt_text v = (case v of None \<Rightarrow> ''None'' | Some n \<Rightarrow> decimal n)"

definition board_summary :: "'c board \<Rightarrow> string" where
  "board_summary bd =
     (let periods = join '', '' (map (\<lambda>(p, n). decimal n @ '' x '' @ decimal p @ '' clocks'')
            (sort_key fst (bd_periods bd)))
      in decimal (bd_edges bd) @ '' rising edges in '' @ decimal (bd_cycle bd)
         @ '' system clocks; periods: '' @ (if periods = '''' then ''none'' else periods) @ ''; ''
         @ decimal (int (length (bd_halt_periods bd))) @ '' halts; min setup ''
         @ opt_text (bd_min_setup bd) @ '', min hold '' @ opt_text (bd_min_hold bd)
         @ '' system clocks; '' @ decimal (int (length (bd_violations bd))) @ '' violations'')"

section \<open>The MicroPython stand-ins\<close>

definition upd_machine :: "nat \<Rightarrow> (state_machine \<Rightarrow> state_machine) \<Rightarrow> 'c board \<Rightarrow> 'c board" where
  "upd_machine i f bd = bd\<lparr>bd_block := (bd_block bd)\<lparr>b_sms := (b_sms (bd_block bd))[i := f (bd_machine bd i)]\<rparr>\<rparr>"

text \<open>The pin init values of one group: bit 1 is the direction, bit 0 the level.\<close>

definition init_values :: "pin_init \<Rightarrow> int list" where
  "init_values p = (case p of No_init \<Rightarrow> [] | One_init v \<Rightarrow> [v] | Many_init vs \<Rightarrow> vs)"

definition init_pin :: "int \<Rightarrow> int \<Rightarrow> pio_block \<Rightarrow> pio_block" where
  "init_pin pin v b =
     (let p = shl 1 (pin AND 31) in
      b\<lparr>b_oe := (b_oe b AND NOT p) OR (if has_bit v 1 then p else 0),
        b_out := (b_out b AND NOT p) OR (if v AND 1 \<noteq> 0 then p else 0)\<rparr>)"

definition init_pins :: "int \<Rightarrow> pin_init \<Rightarrow> pio_block \<Rightarrow> pio_block" where
  "init_pins pin_base p b = fold (\<lambda>(i, v). init_pin (pin_base + int i) v)
     (zip [0..<length (init_values p)] (init_values p)) b"

record fsm_pins =
  fp_sideset_base :: "int option"
  fp_out_base :: "int option"
  fp_set_base :: "int option"
  fp_in_base :: "int option"
  fp_jmp_pin :: "int option"

definition pin_index :: "'c board \<Rightarrow> int option \<Rightarrow> int" where
  "pin_index bd pin = (case pin of None \<Rightarrow> 0 | Some gpio \<Rightarrow> gpio - bd_gpio_base bd)"

definition fsm_config :: "'c board \<Rightarrow> pio_program \<Rightarrow> int \<Rightarrow> fsm_pins \<Rightarrow> sm_config" where
  "fsm_config bd prog offset pins =
     (from_program prog offset (b_rp2350 (bd_block bd)))\<lparr>
        k_out_base := pin_index bd (fp_out_base pins), k_out_count := init_count (pp_out_init prog),
        k_set_base := pin_index bd (fp_set_base pins), k_set_count := init_count (pp_set_init prog),
        k_sideset_base := pin_index bd (fp_sideset_base pins),
        k_in_base := pin_index bd (fp_in_base pins), k_jmp_pin := pin_index bd (fp_jmp_pin pins)\<rparr>"

definition fsm_init :: "int \<Rightarrow> pio_program \<Rightarrow> int option \<Rightarrow> fsm_pins \<Rightarrow> 'c board \<Rightarrow> board_error + 'c board" where
  "fsm_init sm_id prog freq pins bd =
     (let offset = 32 - int (length (pp_instr prog)); i = nat (sm_id mod 4) in
      and_then (raise_if (freq \<noteq> None \<and> freq \<noteq> Some (-1) \<and> freq \<noteq> Some (bd_f_sys bd))
        (Board_Value ''the board model runs the state machine at the system clock'')) (\<lambda>_.
      and_then (board_err Board_Pio (pio_load (bd_block bd) (pp_instr prog) offset)) (\<lambda>blk.
      let cfg = fsm_config bd prog offset pins;
          bd1 = upd_machine i (\<lambda>s. (configure (reset_state (s\<lparr>sm_enabled := False\<rparr>)) cfg)\<lparr>sm_pc := offset\<rparr>)
                  (bd\<lparr>bd_block := blk\<rparr>);
          blk1 = init_pins (k_sideset_base cfg) (pp_sideset_init prog)
                  (init_pins (k_set_base cfg) (pp_set_init prog)
                  (init_pins (k_out_base cfg) (pp_out_init prog) (bd_block bd1)))
      in Inr (bd1\<lparr>bd_block := blk1, bd_sm := Some i\<rparr>))))"

text \<open>Waiting for room or for a word: \<open>None\<close> when the program never moves.\<close>

partial_function (option) wait_room :: "'c chip_ops \<Rightarrow> nat \<Rightarrow> 'c board \<Rightarrow> (board_error + 'c board) option" where
  "wait_room ops i bd =
     (if int (length (sm_tx (bd_machine bd i))) \<ge> tx_depth (bd_machine bd i)
      then (case board_step ops bd of Inl e \<Rightarrow> Some (Inl e) | Inr bd' \<Rightarrow> wait_room ops i bd')
      else Some (Inr bd))"

partial_function (option) wait_word :: "'c chip_ops \<Rightarrow> nat \<Rightarrow> 'c board \<Rightarrow> (board_error + 'c board) option" where
  "wait_word ops i bd =
     (if sm_rx (bd_machine bd i) = []
      then (case board_step ops bd of Inl e \<Rightarrow> Some (Inl e) | Inr bd' \<Rightarrow> wait_word ops i bd')
      else Some (Inr bd))"

declare wait_room.simps [code] wait_word.simps [code]

definition and_go :: "('e + 'a) option \<Rightarrow> ('a \<Rightarrow> ('e + 'b) option) \<Rightarrow> ('e + 'b) option" where
  "and_go m f = (case m of None \<Rightarrow> None | Some (Inl e) \<Rightarrow> Some (Inl e) | Some (Inr a) \<Rightarrow> f a)"

fun put_words :: "'c chip_ops \<Rightarrow> nat \<Rightarrow> bool \<Rightarrow> int list \<Rightarrow> 'c board \<Rightarrow> (board_error + 'c board) option" where
  "put_words ops i first [] bd = Some (Inr bd)"
| "put_words ops i first (w # ws) bd =
     and_go (Some (if first then Inr bd else advance ops (bd_burst_cycles bd) bd)) (\<lambda>bd1.
     and_go (wait_room ops i bd1) (\<lambda>bd2.
     put_words ops i False ws (upd_machine i (\<lambda>s. fst (sm_put s w)) bd2)))"

definition fsm_put :: "'c chip_ops \<Rightarrow> nat \<Rightarrow> int list \<Rightarrow> 'c board \<Rightarrow> (board_error + 'c board) option" where
  "fsm_put ops i ws bd = and_go (Some (advance ops (bd_put_cycles bd) bd)) (put_words ops i True ws)"

definition fsm_get :: "'c chip_ops \<Rightarrow> nat \<Rightarrow> 'c board \<Rightarrow> (board_error + int option \<times> 'c board) option" where
  "fsm_get ops i bd =
     and_go (Some (advance ops (bd_get_cycles bd) bd)) (\<lambda>bd1.
     and_go (wait_word ops i bd1) (\<lambda>bd2.
     let (s, w) = sm_get (bd_machine bd2 i) in Some (Inr (w, upd_machine i (\<lambda>_. s) bd2))))"

definition fsm_rx_fifo :: "'c chip_ops \<Rightarrow> nat \<Rightarrow> 'c board \<Rightarrow> board_error + int \<times> 'c board" where
  "fsm_rx_fifo ops i bd = and_then (advance ops (bd_poll_cycles bd) bd)
     (\<lambda>bd1. Inr (int (length (sm_rx (bd_machine bd1 i))), bd1))"

definition fsm_tx_fifo :: "'c chip_ops \<Rightarrow> nat \<Rightarrow> 'c board \<Rightarrow> board_error + int \<times> 'c board" where
  "fsm_tx_fifo ops i bd = and_then (advance ops (bd_poll_cycles bd) bd)
     (\<lambda>bd1. Inr (int (length (sm_tx (bd_machine bd1 i))), bd1))"

definition fsm_exec :: "'c chip_ops \<Rightarrow> nat \<Rightarrow> int \<Rightarrow> 'c board \<Rightarrow> board_error + 'c board" where
  "fsm_exec ops i instr bd = board_step ops (upd_machine i (\<lambda>s. sm_exec s instr) bd)"

definition fsm_set_active :: "nat \<Rightarrow> bool \<Rightarrow> 'c board \<Rightarrow> 'c board" where
  "fsm_set_active i v = upd_machine i (\<lambda>s. s\<lparr>sm_enabled := v\<rparr>)"

definition fsm_restart :: "nat \<Rightarrow> 'c board \<Rightarrow> 'c board" where
  "fsm_restart i = upd_machine i restart"

definition fake_sleep_us :: "'c chip_ops \<Rightarrow> int \<Rightarrow> 'c board \<Rightarrow> board_error + 'c board" where
  "fake_sleep_us ops us bd = advance ops (us * bd_f_sys bd div 1000000) bd"

definition fake_sleep_ms :: "'c chip_ops \<Rightarrow> int \<Rightarrow> 'c board \<Rightarrow> board_error + 'c board" where
  "fake_sleep_ms ops ms = fake_sleep_us ops (1000 * ms)"

text \<open>\<open>HaltRecorder\<close> drives the reset and the enable and records the halt around them.\<close>

definition record_halt :: "'c board \<Rightarrow> 'c board" where
  "record_halt bd = bd\<lparr>bd_halts := bd_halts bd @ [(bd_cycle bd - FRAME_CYCLES, bd_cycle bd + 64)]\<rparr>"

definition halt_reset :: "'c chip_ops \<Rightarrow> bool \<Rightarrow> 'c board \<Rightarrow> 'c board" where
  "halt_reset ops active bd = bd_set_rst_n ops (\<not> active) (record_halt bd)"

definition halt_ena :: "'c chip_ops \<Rightarrow> bool \<Rightarrow> 'c board \<Rightarrow> 'c board" where
  "halt_ena ops level bd = bd_set_ena ops level (record_halt bd)"

text \<open>\<open>Rp2Backend._start\<close> on the board: load the program, force \<open>Y\<close> to zero and the program
  counter to the fetch address, and enable the state machine.\<close>

definition lockstep_pins :: "pin_map \<Rightarrow> fsm_pins" where
  "lockstep_pins m = \<lparr>fp_sideset_base = Some (pm_clk m), fp_out_base = Some (pm_ui_in m ! 0),
     fp_set_base = Some (pm_ui_in m ! 4), fp_in_base = Some (pm_uo_out m ! 0),
     fp_jmp_pin = Some (pm_uo_out m ! 4)\<rparr>"

definition backend_start :: "'c chip_ops \<Rightarrow> int \<Rightarrow> pio_program \<Rightarrow> pin_map \<Rightarrow> 'c board \<Rightarrow> board_error + 'c board" where
  "backend_start ops sm_id prog m bd =
     (let i = nat (sm_id mod 4) in
      and_then (fsm_init sm_id prog None (lockstep_pins m) bd) (\<lambda>bd1.
      and_then (fsm_exec ops i INSTR_SET_Y_0 bd1) (\<lambda>bd2.
      and_then (fsm_exec ops i INSTR_JMP_FETCH bd2) (\<lambda>bd3.
      Inr (fsm_set_active i True bd3)))))"

definition backend_restart :: "'c chip_ops \<Rightarrow> int \<Rightarrow> pio_program \<Rightarrow> pin_map \<Rightarrow> 'c board \<Rightarrow> board_error + 'c board" where
  "backend_restart ops sm_id prog m bd =
     backend_start ops sm_id prog m (fsm_set_active (nat (sm_id mod 4)) False bd)"

definition backend_release :: "'c chip_ops \<Rightarrow> nat \<Rightarrow> 'c board \<Rightarrow> board_error + 'c board" where
  "backend_release ops i bd = fsm_exec ops i INSTR_JMP_FETCH (fsm_set_active i False bd)"

end
