(* ===== verification/Pio_Board_Props.thy ===== *)
theory Pio_Board_Props
  imports Pio_Board Pio_Run
begin

text \<open>
  The board's schedule: with the lockstep program running, the board never records a violation.
  The invariant relates the frame slot of the program to what the board remembers of the last
  clock edge and the last change of \<open>ui_in\<close>.
\<close>

section \<open>One step of the block\<close>

definition idle_machine :: "state_machine \<Rightarrow> bool" where
  "idle_machine s \<longleftrightarrow> \<not> sm_enabled s \<and> sm_forced s = None"

lemma clock_idle: "idle_machine s \<Longrightarrow> clock s b visible = Inr (s\<lparr>sm_last_pc := None\<rparr>, b, False)"
  by (simp add: clock_def idle_machine_def Let_def)

lemma clock_machines_append:
  "clock_machines (xs @ ys) b v = and_then (clock_machines xs b v) (\<lambda>b'. clock_machines ys b' v)"
  by (induction xs arbitrary: b) (auto simp: and_then_def split: sum.splits prod.splits)

lemma clock_idle_list:
  "\<forall>j \<in> set js. idle_machine (b_sms b ! j) \<Longrightarrow>
   \<exists>xs. clock_machines js b v = Inr (b\<lparr>b_sms := xs\<rparr>) \<and> length xs = length (b_sms b)
     \<and> (\<forall>j. j \<notin> set js \<longrightarrow> xs ! j = b_sms b ! j)
     \<and> (\<forall>j \<in> set js. j < length xs \<longrightarrow> idle_machine (xs ! j))"
proof (induction js arbitrary: b)
  case Nil
  show ?case by (rule exI [of _ "b_sms b"]) simp
next
  case (Cons i js)
  let ?s = "(b_sms b ! i)\<lparr>sm_last_pc := None\<rparr>" and ?b = "b\<lparr>b_sms := (b_sms b)[i := (b_sms b ! i)\<lparr>sm_last_pc := None\<rparr>]\<rparr>"
  have ii: "idle_machine ?s" using Cons.prems by (simp add: idle_machine_def)
  have "\<forall>j \<in> set js. idle_machine (b_sms ?b ! j)"
  proof
    fix j assume "j \<in> set js"
    with Cons.prems ii show "idle_machine (b_sms ?b ! j)"
      by (cases "j = i"; cases "i < length (b_sms b)") (simp_all add: list_update_beyond)
  qed
  from Cons.IH [OF this] obtain xs where xs: "clock_machines js ?b v = Inr (?b\<lparr>b_sms := xs\<rparr>)"
    "length xs = length (b_sms b)" "\<forall>j. j \<notin> set js \<longrightarrow> xs ! j = b_sms ?b ! j"
    "\<forall>j \<in> set js. j < length xs \<longrightarrow> idle_machine (xs ! j)" by auto
  have e: "clock_machines (i # js) b v = Inr (b\<lparr>b_sms := xs\<rparr>)"
    using Cons.prems xs(1) by (simp add: clock_idle)
  have "idle_machine (xs ! i)" if "i < length xs"
    using xs that ii by (cases "i \<in> set js") simp_all
  then show ?case using e xs by (intro exI [of _ xs]) auto
qed

lemma lock_inv_sms [simp]: "lock_inv s (b\<lparr>b_sms := xs\<rparr>) slot = lock_inv s b slot"
  by (simp add: lock_inv_def lock_sm_def running_def clk_level_def)

lemma lock_inv_frame:
  "b_mem b' = b_mem b \<Longrightarrow> b_out b' = b_out b \<Longrightarrow> lock_inv s b' slot = lock_inv s b slot"
  by (simp add: lock_inv_def lock_sm_def running_def clk_level_def)

definition others_idle :: "nat \<Rightarrow> pio_block \<Rightarrow> bool" where
  "others_idle i b \<longleftrightarrow> i < 4 \<and> length (b_sms b) = 4 \<and> (\<forall>j < 4. j \<noteq> i \<longrightarrow> idle_machine (b_sms b ! j))"

lemma pio_step_one:
  assumes oi: "others_idle i b"
  obtains xs v where "xs ! i = b_sms b ! i"
    "\<And>s1 b1 t. clock (b_sms b ! i) (b\<lparr>b_sms := xs\<rparr>) v = Inr (s1, b1, t) \<Longrightarrow> b_sms b1 = xs \<Longrightarrow>
       \<exists>b'. pio_step b raw = Inr b' \<and> others_idle i b' \<and> b_sms b' ! i = s1 \<and> b_out b' = b_out b1
         \<and> b_oe b' = b_oe b1 \<and> b_mem b' = b_mem b1"
proof -
  define v where "v = (b_sync2 b AND NOT (b_input_sync_bypass b)) OR ((raw AND M32) AND b_input_sync_bypass b)"
  have i: "i < 4" "length (b_sms b) = 4" using oi by (simp_all add: others_idle_def)
  have "[0..<4] = [0..<i] @ [i..<4]" using upt_add_eq_append [of 0 i "4 - i"] i(1) by simp
  then have split: "[0..<4] = [0..<i] @ i # [Suc i..<4]" using i(1) by (simp add: upt_conv_Cons)
  have "\<forall>j \<in> set [0..<i]. idle_machine (b_sms b ! j)" using oi i(1) by (auto simp: others_idle_def)
  from clock_idle_list [OF this, of v] obtain xs where
    x: "clock_machines [0..<i] b v = Inr (b\<lparr>b_sms := xs\<rparr>)" "length xs = 4"
      "\<forall>j. j \<notin> set [0..<i] \<longrightarrow> xs ! j = b_sms b ! j" "\<forall>j < i. idle_machine (xs ! j)"
    using i by force
  have xi: "xs ! i = b_sms b ! i" using x(3) by simp
  have "\<exists>b'. pio_step b raw = Inr b' \<and> others_idle i b' \<and> b_sms b' ! i = s1 \<and> b_out b' = b_out b1
         \<and> b_oe b' = b_oe b1 \<and> b_mem b' = b_mem b1"
    if c: "clock (b_sms b ! i) (b\<lparr>b_sms := xs\<rparr>) v = Inr (s1, b1, t)" and sms: "b_sms b1 = xs" for s1 b1 t
  proof -
    let ?b2 = "b1\<lparr>b_sms := xs[i := s1]\<rparr>"
    have "\<forall>j \<in> set [Suc i..<4]. idle_machine (b_sms ?b2 ! j)"
      using oi x(3) by (auto simp: others_idle_def)
    from clock_idle_list [OF this, of v] obtain ys where
      y: "clock_machines [Suc i..<4] ?b2 v = Inr (b1\<lparr>b_sms := ys\<rparr>)" "length ys = 4"
        "\<forall>j. j \<notin> set [Suc i..<4] \<longrightarrow> ys ! j = xs[i := s1] ! j"
        "\<forall>j \<in> set [Suc i..<4]. j < 4 \<longrightarrow> idle_machine (ys ! j)"
      using x(2) by auto
    have yi: "ys ! i = s1" using y(3) x(2) i(1) by simp
    have m: "clock_machines [0..<4] b v = Inr (b1\<lparr>b_sms := ys\<rparr>)"
      using x(1) c y(1) sms xi by (simp add: split clock_machines_append)
    let ?b' = "b1\<lparr>b_sms := ys, b_sync2 := b_sync1 b1, b_sync1 := raw AND M32, b_cycle := b_cycle b1 + 1\<rparr>"
    have "pio_step b raw = Inr ?b'" using m by (simp add: pio_step_def Let_def v_def)
    moreover have "idle_machine (ys ! j)" if "j < 4" "j \<noteq> i" for j
      using y(3,4) x(4) that i(1) by (cases "j < i") auto
    then have "others_idle i ?b'" using y(2) i(1) by (simp add: others_idle_def)
    ultimately show ?thesis by (intro exI [of _ ?b'] conjI) (simp_all add: yi)
  qed
  then show thesis using that xi by blast
qed

lemma pio_step_lock:
  assumes inv: "lock_inv (b_sms b ! i) b slot" and oi: "others_idle i b"
  obtains b' where "pio_step b raw = Inr b'" "others_idle i b'"
    "lock_inv (b_sms b' ! i) b' (next_lock_slot (b_sms b' ! i) slot)"
    "clk_level (b_sms b' ! i) b' = template_side slot"
    "sm_config (b_sms b' ! i) = sm_config (b_sms b ! i)" "b_oe b' = b_oe b"
    "slot \<noteq> DRIVE_SLOT \<Longrightarrow> (\<forall>p. p \<noteq> clk_bit (b_sms b ! i) \<longrightarrow> bit (b_out b') p = bit (b_out b) p)"
    "disp_inv (b_sms b ! i) \<Longrightarrow> disp_inv (b_sms b' ! i)"
    "disp_inv (b_sms b ! i) \<Longrightarrow> no_halt (b_sms b ! i) \<Longrightarrow> no_halt (b_sms b' ! i) \<and> \<not> sm_stalled (b_sms b' ! i)"
    "owes (b_sms b' ! i) = owes (b_sms b ! i)"
proof -
  obtain xs v where xi: "xs ! i = b_sms b ! i" and step:
    "\<And>s1 b1 t. clock (b_sms b ! i) (b\<lparr>b_sms := xs\<rparr>) v = Inr (s1, b1, t) \<Longrightarrow> b_sms b1 = xs \<Longrightarrow>
       \<exists>b'. pio_step b raw = Inr b' \<and> others_idle i b' \<and> b_sms b' ! i = s1 \<and> b_out b' = b_out b1
         \<and> b_oe b' = b_oe b1 \<and> b_mem b' = b_mem b1"
    by (rule pio_step_one [OF oi]) blast
  have inv': "lock_inv (b_sms b ! i) (b\<lparr>b_sms := xs\<rparr>) slot" using inv by simp
  then obtain s1 b1 t where c: "clock (b_sms b ! i) (b\<lparr>b_sms := xs\<rparr>) v = Inr (s1, b1, t)"
    and ok: "lock_step_ok (b_sms b ! i) (b\<lparr>b_sms := xs\<rparr>) slot s1 b1" by (rule clock_lock)
  have "b_sms b1 = xs" using ok by (simp add: lock_step_ok_def)
  from step [OF c this] obtain b' where b': "pio_step b raw = Inr b'" "others_idle i b'" "b_sms b' ! i = s1"
    "b_out b' = b_out b1" "b_oe b' = b_oe b1" "b_mem b' = b_mem b1" by blast
  show thesis
  proof (rule that [OF b'(1,2)])
    have "lock_inv s1 b' sl = lock_inv s1 b1 sl" for sl by (rule lock_inv_frame) (simp_all add: b')
    then show "lock_inv (b_sms b' ! i) b' (next_lock_slot (b_sms b' ! i) slot)"
      using ok by (simp add: b' lock_step_ok_def)
    show "clk_level (b_sms b' ! i) b' = template_side slot"
      using ok by (simp add: b' lock_step_ok_def clk_level_def)
    show "sm_config (b_sms b' ! i) = sm_config (b_sms b ! i)" using ok by (simp add: b' lock_step_ok_def)
    show "b_oe b' = b_oe b" using ok by (simp add: b' lock_step_ok_def)
    show "owes (b_sms b' ! i) = owes (b_sms b ! i)" using ok by (simp add: b' lock_step_ok_def)
    show "\<forall>p. p \<noteq> clk_bit (b_sms b ! i) \<longrightarrow> bit (b_out b') p = bit (b_out b) p" if "slot \<noteq> DRIVE_SLOT"
      using ok that by (simp add: b' lock_step_ok_def)
    show "disp_inv (b_sms b' ! i)" if "disp_inv (b_sms b ! i)"
      using clock_disp [OF inv' that c] by (simp add: b')
    show "no_halt (b_sms b' ! i) \<and> \<not> sm_stalled (b_sms b' ! i)"
      if "disp_inv (b_sms b ! i)" "no_halt (b_sms b ! i)"
      using clock_no_halt [OF inv' that c] by (simp add: b')
  qed
qed

section \<open>The invariant of the board\<close>

definition spacing_ok :: "'c board \<Rightarrow> int \<Rightarrow> bool" where
  "spacing_ok bd slot \<longleftrightarrow>
     (\<forall>e. bd_last_edge bd = Some e \<longrightarrow> e < bd_cycle bd \<and> (slot \<in> {1, 2, 3} \<longrightarrow> slot \<le> bd_cycle bd - e))
     \<and> (\<forall>u. bd_last_ui_change bd = Some u \<longrightarrow> u < bd_cycle bd
          \<and> (slot \<in> {4, 5, 0} \<longrightarrow> (slot - 3) mod 6 \<le> bd_cycle bd - u))
     \<and> (slot \<in> {1, 2} \<longrightarrow> bd_clk bd = 1)"

definition board_inv :: "'c board \<Rightarrow> nat \<Rightarrow> int \<Rightarrow> bool" where
  "board_inv bd i slot \<longleftrightarrow>
     others_idle i (bd_block bd) \<and> lock_inv (bd_machine bd i) (bd_block bd) slot
     \<and> bd_clk_bit bd = k_sideset_base (sm_config (bd_machine bd i))
     \<and> bit (b_oe (bd_block bd)) (nat (bd_clk_bit bd))
     \<and> 0 \<le> bd_ui_shift bd \<and> \<not> (bd_ui_shift bd \<le> bd_clk_bit bd \<and> bd_clk_bit bd < bd_ui_shift bd + 8)
     \<and> bd_clk bd = clk_of bd (bd_block bd) \<and> bd_ui bd = ui_of bd (bd_block bd)
     \<and> bd_min_ui_spacing bd = 3 \<and> spacing_ok bd slot \<and> bd_violations bd = []"

lemma lock_inv_base:
  "lock_inv s b slot \<Longrightarrow> 0 \<le> k_sideset_base (sm_config s) \<and> k_sideset_base (sm_config s) \<le> 31"
  by (simp add: lock_inv_def lock_sm_def running_def plain_config_def)

lemma clk_of_level:
  assumes "bit (b_oe b) (nat (bd_clk_bit bd))" "nat (bd_clk_bit bd) = clk_bit s"
  shows "clk_of bd b = clk_level s b"
  using assms by (simp add: clk_of_def driven_pins_def clk_level_def and_1_take bit_simps
    take_bit_Suc_0 mod_2_eq_odd flip: bit_iff_odd_drop_bit)

lemma ui_of_cong:
  assumes "b_oe b' = b_oe b" "0 \<le> bd_ui_shift bd"
    "\<And>p. nat (bd_ui_shift bd) \<le> p \<Longrightarrow> p < nat (bd_ui_shift bd) + 8 \<Longrightarrow> bit (b_out b') p = bit (b_out b) p"
  shows "ui_of bd b' = ui_of bd b"
  unfolding ui_of_def driven_pins_def and_255_take
  by (rule bit_eqI) (use assms in \<open>auto simp: bit_simps\<close>)

lemma clk_of_same [simp]: "clk_of (bd\<lparr>bd_block := x\<rparr>) b = clk_of bd b"
  "ui_of (bd\<lparr>bd_block := x\<rparr>) b = ui_of bd b"
  by (simp_all add: clk_of_def ui_of_def)

text \<open>The bookkeeping of one step, without the block.\<close>

definition book :: "int \<Rightarrow> int \<Rightarrow> 'c board \<Rightarrow> 'c board" where
  "book clk ui bd =
     (let rose = (clk \<noteq> 0 \<and> bd_clk bd = 0); ui_changed = (ui \<noteq> bd_ui bd);
          bd1 = (if ui_changed then note_ui_change bd else bd);
          bd2 = (if rose then note_rise ui_changed bd1 else bd1)
      in bd2\<lparr>bd_clk := clk, bd_ui := ui\<rparr>)"

lemma add_violation_fields [simp]:
  "bd_cycle (add_violation v bd) = bd_cycle bd"
  "bd_min_ui_spacing (add_violation v bd) = bd_min_ui_spacing bd"
  "bd_block (add_violation v bd) = bd_block bd" "bd_clk_bit (add_violation v bd) = bd_clk_bit bd"
  "bd_ui_shift (add_violation v bd) = bd_ui_shift bd"
  "bd_last_edge (add_violation v bd) = bd_last_edge bd"
  "bd_last_ui_change (add_violation v bd) = bd_last_ui_change bd"
  by (simp_all add: add_violation_def)

lemma note_setup_fields [simp]:
  "bd_cycle (note_setup u bd) = bd_cycle bd"
  "bd_min_ui_spacing (note_setup u bd) = bd_min_ui_spacing bd"
  "bd_block (note_setup u bd) = bd_block bd" "bd_clk_bit (note_setup u bd) = bd_clk_bit bd"
  "bd_ui_shift (note_setup u bd) = bd_ui_shift bd"
  "bd_last_edge (note_setup u bd) = bd_last_edge bd"
  "bd_last_ui_change (note_setup u bd) = bd_last_ui_change bd"
  by (simp_all add: note_setup_def Let_def split: option.split)

lemma note_period_fields [simp]:
  "bd_cycle (note_period bd) = bd_cycle bd"
  "bd_min_ui_spacing (note_period bd) = bd_min_ui_spacing bd"
  "bd_block (note_period bd) = bd_block bd" "bd_clk_bit (note_period bd) = bd_clk_bit bd"
  "bd_ui_shift (note_period bd) = bd_ui_shift bd" "bd_last_edge (note_period bd) = bd_last_edge bd"
  "bd_last_ui_change (note_period bd) = bd_last_ui_change bd"
  "bd_violations (note_period bd) = bd_violations bd"
  by (simp_all add: note_period_def Let_def split: option.split)

lemma note_rise_fields [simp]:
  "bd_cycle (note_rise u bd) = bd_cycle bd"
  "bd_min_ui_spacing (note_rise u bd) = bd_min_ui_spacing bd"
  "bd_block (note_rise u bd) = bd_block bd" "bd_clk_bit (note_rise u bd) = bd_clk_bit bd"
  "bd_ui_shift (note_rise u bd) = bd_ui_shift bd"
  "bd_last_ui_change (note_rise u bd) = bd_last_ui_change bd"
  "bd_last_edge (note_rise u bd) = Some (bd_cycle bd)"
  by (simp_all add: note_rise_def Let_def)

lemma note_ui_change_fields [simp]:
  "bd_cycle (note_ui_change bd) = bd_cycle bd"
  "bd_min_ui_spacing (note_ui_change bd) = bd_min_ui_spacing bd"
  "bd_block (note_ui_change bd) = bd_block bd" "bd_clk_bit (note_ui_change bd) = bd_clk_bit bd"
  "bd_ui_shift (note_ui_change bd) = bd_ui_shift bd"
  "bd_last_edge (note_ui_change bd) = bd_last_edge bd"
  "bd_last_ui_change (note_ui_change bd) = Some (bd_cycle bd)"
  by (simp_all add: note_ui_change_def Let_def split: option.split)

lemma note_violations:
  "bd_violations (note_ui_change bd) = bd_violations bd"
    if "\<And>e. bd_last_edge bd = Some e \<Longrightarrow> bd_min_ui_spacing bd \<le> bd_cycle bd - e"
  using that by (cases "bd_last_edge bd") (simp_all add: note_ui_change_def Let_def linorder_not_less)

lemma rise_violations:
  "bd_violations (note_rise False bd) = bd_violations bd"
    if "\<And>u. bd_last_ui_change bd = Some u \<Longrightarrow> bd_min_ui_spacing bd \<le> bd_cycle bd - u"
  using that by (cases "bd_last_ui_change bd") (simp_all add: note_rise_def note_setup_def Let_def linorder_not_less)

lemma slots: "0 \<le> slot \<Longrightarrow> slot < 6 \<Longrightarrow> slot \<in> {0, 1, 2, 3, 4, 5}" for slot :: int
  by auto

text \<open>A step at frame slot \<open>slot\<close> that leaves the clock at the level of the slot, changes \<open>ui_in\<close> in
  the drive slot only and goes to the next slot or stays.\<close>

lemma book_ok:
  assumes sp: "spacing_ok bd slot" and v: "bd_violations bd = []" and m: "bd_min_ui_spacing bd = 3"
    and slot: "0 \<le> slot" "slot < 6" and clk: "clk = template_side slot"
    and ui: "slot \<noteq> DRIVE_SLOT \<Longrightarrow> ui = bd_ui bd" and n: "slot' = slot \<or> slot' = (slot + 1) mod 6"
  shows "spacing_ok ((book clk ui bd)\<lparr>bd_cycle := bd_cycle bd + 1\<rparr>) slot'"
    "bd_violations (book clk ui bd) = []"
proof -
  have s: "slot \<in> {0, 1, 2, 3, 4, 5}" using slots slot by blast
  consider "slot = 0" "clk = 1" "ui = bd_ui bd" | "slot \<in> {1, 2}" "clk = 1" "ui = bd_ui bd"
    | "slot = 3" "clk = 0" | "slot \<in> {4, 5}" "clk = 0" "ui = bd_ui bd"
    using s clk ui by (auto simp: template_side_def HIGH_SLOTS_def DRIVE_SLOT_def)
  then have "spacing_ok ((book clk ui bd)\<lparr>bd_cycle := bd_cycle bd + 1\<rparr>) slot' \<and> bd_violations (book clk ui bd) = []"
  proof cases
    case 1
    have "bd_violations (note_rise False bd) = []"
      by (subst rise_violations) (use sp 1 m v in \<open>auto simp: spacing_ok_def\<close>)
    then show ?thesis using 1 sp n v by (auto simp: book_def Let_def spacing_ok_def)
  next
    case 2
    then show ?thesis using sp n v by (auto simp: book_def Let_def spacing_ok_def)
  next
    case 3
    have "bd_violations (note_ui_change bd) = []"
      by (subst note_violations) (use sp 3 m v in \<open>auto simp: spacing_ok_def\<close>)
    then show ?thesis using 3 sp n v by (auto simp: book_def Let_def spacing_ok_def)
  next
    case 4
    then show ?thesis using sp n v by (auto simp: book_def Let_def spacing_ok_def)
  qed
  then show "spacing_ok ((book clk ui bd)\<lparr>bd_cycle := bd_cycle bd + 1\<rparr>) slot'"
    "bd_violations (book clk ui bd) = []" by simp_all
qed

section \<open>One step of the board\<close>

lemma core_step_book:
  assumes "pio_step (bd_block bd) (raw_pins bd) = Inr blk"
  obtains tr rose uc cc where "core_step bd = Inr ((book (clk_of bd blk) (ui_of bd blk)
      (bd\<lparr>bd_block := blk\<rparr>))\<lparr>bd_trace := tr, bd_cycle := bd_cycle bd + 1\<rparr>, rose, uc, cc)"
proof -
  have t: "(if c then x\<lparr>bd_trace := y\<rparr> else x) = x\<lparr>bd_trace := (if c then y else bd_trace x)\<rparr>"
    for c y and x :: "'a board" by simp
  show thesis
    using assms that by (simp add: core_step_def board_err_def book_def Let_def t)
qed

text \<open>Exact periods: no longer period yet, and the last edge is where the slot says.\<close>

definition exact_ok :: "'c board \<Rightarrow> int \<Rightarrow> bool" where
  "exact_ok bd slot \<longleftrightarrow> bd_halt_periods bd = []
     \<and> (\<forall>e. bd_last_edge bd = Some e \<longrightarrow> bd_cycle bd - e = (if slot = 0 then 6 else slot))
     \<and> (slot = 0 \<longrightarrow> bd_clk bd = 0) \<and> (slot \<in> {1, 2} \<longrightarrow> bd_clk bd = 1)"

lemma halt_period_fields [simp]:
  "bd_halt_periods (add_violation v bd) = bd_halt_periods bd"
  "bd_halt_periods (note_setup u bd) = bd_halt_periods bd"
  "bd_halt_periods (note_ui_change bd) = bd_halt_periods bd"
  "bd_clk (note_ui_change bd) = bd_clk bd"
  by (simp_all add: add_violation_def note_setup_def note_ui_change_def Let_def split: option.split)

lemma book_exact:
  assumes x: "exact_ok bd slot" and slot: "0 \<le> slot" "slot < 6" and clk: "clk = template_side slot"
    and ui: "slot \<noteq> DRIVE_SLOT \<Longrightarrow> ui = bd_ui bd"
  shows "exact_ok ((book clk ui bd)\<lparr>bd_cycle := bd_cycle bd + 1\<rparr>) ((slot + 1) mod 6)"
proof -
  have s: "slot \<in> {0, 1, 2, 3, 4, 5}" using slots slot by blast
  consider "slot = 0" "clk = 1" "ui = bd_ui bd" | "slot \<in> {1, 2}" "clk = 1" "ui = bd_ui bd"
    | "slot = 3" "clk = 0" | "slot \<in> {4, 5}" "clk = 0" "ui = bd_ui bd"
    using s clk ui by (auto simp: template_side_def HIGH_SLOTS_def DRIVE_SLOT_def)
  then show ?thesis
  proof cases
    case 1
    have "bd_halt_periods (note_rise False bd) = []"
      using x 1 by (cases "bd_last_edge bd")
        (simp_all add: exact_ok_def note_rise_def note_period_def FRAME_CYCLES_def)
    then show ?thesis using 1 x by (simp add: book_def Let_def exact_ok_def)
  next
    case 2
    then show ?thesis using x by (auto simp: book_def Let_def exact_ok_def)
  next
    case 3
    then show ?thesis using x by (simp add: book_def Let_def exact_ok_def)
  next
    case 4
    then show ?thesis using x by (auto simp: book_def Let_def exact_ok_def)
  qed
qed

lemma book_fields [simp]:
  "bd_block (book clk ui bd) = bd_block bd" "bd_clk_bit (book clk ui bd) = bd_clk_bit bd"
  "bd_ui_shift (book clk ui bd) = bd_ui_shift bd" "bd_clk (book clk ui bd) = clk" "bd_ui (book clk ui bd) = ui"
  "bd_min_ui_spacing (book clk ui bd) = bd_min_ui_spacing bd"
  by (simp_all add: book_def Let_def)

text \<open>The board of a run without halts.\<close>

definition exact_inv :: "'c board \<Rightarrow> nat \<Rightarrow> int \<Rightarrow> bool" where
  "exact_inv bd i slot \<longleftrightarrow> disp_inv (bd_machine bd i) \<and> no_halt (bd_machine bd i) \<and> exact_ok bd slot"

lemma core_step_inv:
  assumes inv: "board_inv bd i slot"
  obtains bd' rose uc cc where "core_step bd = Inr (bd', rose, uc, cc)"
    "board_inv bd' i (next_lock_slot (bd_machine bd' i) slot)"
    "exact_inv bd i slot \<Longrightarrow> exact_inv bd' i (next_lock_slot (bd_machine bd' i) slot)"
    "owes (bd_machine bd' i) = owes (bd_machine bd i)"
proof -
  let ?b = "bd_block bd" and ?s = "bd_machine bd i"
  have li: "lock_inv (b_sms ?b ! i) ?b slot" and oi: "others_idle i ?b"
    using inv by (simp_all add: board_inv_def bd_machine_def)
  have slot: "0 \<le> slot" "slot < 6" using li by (simp_all add: lock_inv_def)
  obtain b' where st: "pio_step ?b (raw_pins bd) = Inr b'" and oi': "others_idle i b'"
    and li': "lock_inv (b_sms b' ! i) b' (next_lock_slot (b_sms b' ! i) slot)"
    and lev: "clk_level (b_sms b' ! i) b' = template_side slot"
    and cfg: "sm_config (b_sms b' ! i) = sm_config (b_sms ?b ! i)" and oe: "b_oe b' = b_oe ?b"
    and pins: "slot \<noteq> DRIVE_SLOT \<Longrightarrow> (\<forall>p. p \<noteq> clk_bit (b_sms ?b ! i) \<longrightarrow> bit (b_out b') p = bit (b_out ?b) p)"
    and di: "disp_inv (b_sms ?b ! i) \<Longrightarrow> disp_inv (b_sms b' ! i)"
    and nh: "disp_inv (b_sms ?b ! i) \<Longrightarrow> no_halt (b_sms ?b ! i) \<Longrightarrow> no_halt (b_sms b' ! i) \<and> \<not> sm_stalled (b_sms b' ! i)"
    and owe: "owes (b_sms b' ! i) = owes (b_sms ?b ! i)"
    by (rule pio_step_lock [OF li oi]) blast
  obtain tr rose uc cc where cs: "core_step bd = Inr ((book (clk_of bd b') (ui_of bd b')
      (bd\<lparr>bd_block := b'\<rparr>))\<lparr>bd_trace := tr, bd_cycle := bd_cycle bd + 1\<rparr>, rose, uc, cc)"
    by (rule core_step_book [OF st])
  let ?bk = "book (clk_of bd b') (ui_of bd b') (bd\<lparr>bd_block := b'\<rparr>)"
  let ?bd' = "?bk\<lparr>bd_trace := tr, bd_cycle := bd_cycle bd + 1\<rparr>"
  have cb: "nat (bd_clk_bit bd) = clk_bit (b_sms b' ! i)" "clk_bit (b_sms ?b ! i) = clk_bit (b_sms b' ! i)"
    using inv cfg by (simp_all add: board_inv_def bd_machine_def clk_bit_def)
  have clk: "clk_of bd b' = template_side slot"
    using clk_of_level [of b' bd "b_sms b' ! i"] inv oe lev cb by (simp add: board_inv_def)
  have base: "0 \<le> bd_clk_bit bd" using lock_inv_base [OF li] inv by (simp add: board_inv_def bd_machine_def)
  have ui: "ui_of bd b' = bd_ui bd" if "slot \<noteq> DRIVE_SLOT"
  proof -
    have u0: "bd_ui bd = ui_of bd ?b" and sh: "0 \<le> bd_ui_shift bd"
      and sep: "\<not> (bd_ui_shift bd \<le> bd_clk_bit bd \<and> bd_clk_bit bd < bd_ui_shift bd + 8)"
      using inv unfolding board_inv_def by blast+
    have "bit (b_out b') p = bit (b_out ?b) p" if p: "nat (bd_ui_shift bd) \<le> p" "p < nat (bd_ui_shift bd) + 8" for p
    proof -
      have "p \<noteq> nat (bd_clk_bit bd)" using p sep base sh by linarith
      then show ?thesis using pins [OF \<open>slot \<noteq> DRIVE_SLOT\<close>] cb by simp
    qed
    from ui_of_cong [OF oe sh this] show ?thesis unfolding u0 by blast
  qed
  have n: "next_lock_slot (b_sms b' ! i) slot = slot \<or> next_lock_slot (b_sms b' ! i) slot = (slot + 1) mod 6"
    by (simp add: next_lock_slot_def)
  have inv0: "spacing_ok bd slot" "bd_violations bd = []" "bd_min_ui_spacing bd = 3"
    using inv unfolding board_inv_def by blast+
  have sp: "spacing_ok (bd\<lparr>bd_block := b'\<rparr>) slot" "bd_violations (bd\<lparr>bd_block := b'\<rparr>) = []"
    "bd_min_ui_spacing (bd\<lparr>bd_block := b'\<rparr>) = 3" "\<And>x. x = bd_ui bd \<Longrightarrow> x = bd_ui (bd\<lparr>bd_block := b'\<rparr>)"
    using inv0 by (simp_all add: spacing_ok_def)
  note bk = book_ok [OF sp(1-3) slot clk sp(4) n, OF ui]
  have tr_ok: "spacing_ok (x\<lparr>bd_trace := t, bd_cycle := n\<rparr>) sl = spacing_ok (x\<lparr>bd_cycle := n\<rparr>) sl"
    for x :: "'a board" and t n sl by (simp add: spacing_ok_def)
  have c: "bd_clk_bit bd = k_sideset_base (sm_config (b_sms ?b ! i))" "bit (b_oe ?b) (nat (bd_clk_bit bd))"
    "0 \<le> bd_ui_shift bd" "\<not> (bd_ui_shift bd \<le> bd_clk_bit bd \<and> bd_clk_bit bd < bd_ui_shift bd + 8)"
    using inv unfolding board_inv_def bd_machine_def by blast+
  have b1: "board_inv ?bd' i (next_lock_slot (b_sms b' ! i) slot)"
    unfolding board_inv_def
  proof (intro conjI)
    show "others_idle i (bd_block ?bd')" using oi' by simp
    show "lock_inv (bd_machine ?bd' i) (bd_block ?bd') (next_lock_slot (b_sms b' ! i) slot)"
      using li' by (simp add: bd_machine_def)
    show "bd_clk_bit ?bd' = k_sideset_base (sm_config (bd_machine ?bd' i))"
      using c(1) cfg by (simp add: bd_machine_def)
    show "bit (b_oe (bd_block ?bd')) (nat (bd_clk_bit ?bd'))" using c(2) oe by simp
    show "0 \<le> bd_ui_shift ?bd'" using c(3) by simp
    show "\<not> (bd_ui_shift ?bd' \<le> bd_clk_bit ?bd' \<and> bd_clk_bit ?bd' < bd_ui_shift ?bd' + 8)"
      using c(4) by simp
    show "bd_clk ?bd' = clk_of ?bd' (bd_block ?bd')" by (simp add: clk_of_def)
    show "bd_ui ?bd' = ui_of ?bd' (bd_block ?bd')" by (simp add: ui_of_def)
    show "bd_min_ui_spacing ?bd' = 3" using inv0 by simp
    show "spacing_ok ?bd' (next_lock_slot (b_sms b' ! i) slot)" using bk(1) by (simp add: tr_ok)
    show "bd_violations ?bd' = []" using bk(2) by simp
  qed
  have b2: "exact_inv ?bd' i (next_lock_slot (b_sms b' ! i) slot)" if x: "exact_inv bd i slot"
  proof -
    have d: "disp_inv (b_sms ?b ! i)" "no_halt (b_sms ?b ! i)" and e: "exact_ok (bd\<lparr>bd_block := b'\<rparr>) slot"
      using x by (simp_all add: exact_inv_def bd_machine_def exact_ok_def)
    have "exact_ok (?bk\<lparr>bd_cycle := bd_cycle (bd\<lparr>bd_block := b'\<rparr>) + 1\<rparr>) ((slot + 1) mod 6)"
      by (rule book_exact [OF e slot clk]) (use ui in simp)
    then show ?thesis using di [OF d(1)] nh [OF d]
      by (simp add: exact_inv_def bd_machine_def next_lock_slot_def exact_ok_def)
  qed
  have m: "bd_machine ?bd' i = b_sms b' ! i" by (simp add: bd_machine_def)
  have b3: "owes (bd_machine ?bd' i) = owes (bd_machine bd i)" using owe by (simp add: bd_machine_def)
  show thesis by (rule that [OF cs _ _ b3]) (simp_all only: m b1 b2)
qed

lemma board_inv_frame [simp]:
  "board_inv (bd\<lparr>bd_chip := c\<rparr>) i slot = board_inv bd i slot"
  "board_inv (bd\<lparr>bd_edges := n\<rparr>) i slot = board_inv bd i slot"
  "board_inv (bd\<lparr>bd_watch := w\<rparr>) i slot = board_inv bd i slot"
  "board_inv (bd\<lparr>bd_uo := u\<rparr>) i slot = board_inv bd i slot"
  "board_inv (bd\<lparr>bd_rst_n := n\<rparr>) i slot = board_inv bd i slot"
  "board_inv (bd\<lparr>bd_ena := n\<rparr>) i slot = board_inv bd i slot"
  "board_inv (bd\<lparr>bd_halts := h\<rparr>) i slot = board_inv bd i slot"
  by (simp_all add: board_inv_def bd_machine_def spacing_ok_def clk_of_def ui_of_def)

lemma exact_inv_frame [simp]:
  "exact_inv (bd\<lparr>bd_chip := c\<rparr>) i slot = exact_inv bd i slot"
  "exact_inv (bd\<lparr>bd_edges := n\<rparr>) i slot = exact_inv bd i slot"
  "exact_inv (bd\<lparr>bd_watch := w\<rparr>) i slot = exact_inv bd i slot"
  "exact_inv (bd\<lparr>bd_uo := u\<rparr>) i slot = exact_inv bd i slot"
  "exact_inv (bd\<lparr>bd_rst_n := n\<rparr>) i slot = exact_inv bd i slot"
  "exact_inv (bd\<lparr>bd_ena := n\<rparr>) i slot = exact_inv bd i slot"
  "exact_inv (bd\<lparr>bd_halts := h\<rparr>) i slot = exact_inv bd i slot"
  by (simp_all add: exact_inv_def bd_machine_def exact_ok_def)

lemma refresh_inv [simp]: "board_inv (refresh ops bd) i slot = board_inv bd i slot"
  "exact_inv (refresh ops bd) i slot = exact_inv bd i slot"
  by (simp_all add: refresh_def split: option.split)

lemma note_watch_inv [simp]: "board_inv (note_watch bd) i slot = board_inv bd i slot"
  "exact_inv (note_watch bd) i slot = exact_inv bd i slot"
  by (simp_all add: note_watch_def split: option.split)

lemma machine_frame [simp]:
  "bd_machine (refresh ops bd) i = bd_machine bd i" "bd_machine (note_watch bd) i = bd_machine bd i"
  by (simp_all add: refresh_def note_watch_def bd_machine_def split: option.split)

lemma chip_edge_inv:
  "chip_edge ops bd = Inr bd' \<Longrightarrow> board_inv bd' i slot = board_inv bd i slot \<and> exact_inv bd' i slot = exact_inv bd i slot
    \<and> bd_machine bd' i = bd_machine bd i"
  by (auto simp: chip_edge_def and_then_Inr_iff bd_machine_def split: option.splits)

lemma chip_edge_error: "chip_edge ops bd = Inl e \<Longrightarrow> \<exists>h. e = Board_Host h"
  by (auto simp: chip_edge_def and_then_def board_err_def split: option.splits sum.splits)
     (auto simp: map_sum_def split: sum.splits)

lemma board_step_inv:
  assumes "board_inv bd i slot"
  obtains (stepped) bd' slot' where "board_step ops bd = Inr bd'" "board_inv bd' i slot'"
      "exact_inv bd i slot \<Longrightarrow> exact_inv bd' i slot'" "owes (bd_machine bd' i) = owes (bd_machine bd i)"
    | (chip) h where "board_step ops bd = Inl (Board_Host h)"
proof -
  obtain bd1 rose uc cc where c: "core_step bd = Inr (bd1, rose, uc, cc)"
    and i1: "board_inv bd1 i (next_lock_slot (bd_machine bd1 i) slot)"
      "exact_inv bd i slot \<Longrightarrow> exact_inv bd1 i (next_lock_slot (bd_machine bd1 i) slot)"
      "owes (bd_machine bd1 i) = owes (bd_machine bd i)"
    by (rule core_step_inv [OF assms]) blast
  let ?m = "if rose then chip_edge ops bd1 else Inr bd1"
  have s: "board_step ops bd = and_then ?m (\<lambda>bd2. let bd3 = note_watch bd2
      in Inr (if rose \<or> uc then refresh ops bd3 else bd3))"
    by (simp add: board_step_def c)
  show thesis
  proof (cases ?m)
    case (Inl e)
    then obtain h where "e = Board_Host h" using chip_edge_error by (metis Inl_Inr_False)
    then show thesis using chip s Inl by simp
  next
    case (Inr bd2)
    then have "board_inv bd2 i sl = board_inv bd1 i sl \<and> exact_inv bd2 i sl = exact_inv bd1 i sl
        \<and> bd_machine bd2 i = bd_machine bd1 i" for sl
      using chip_edge_inv [of ops bd1 bd2] by (cases rose) auto
    moreover have "board_step ops bd = Inr (if rose \<or> uc then refresh ops (note_watch bd2) else note_watch bd2)"
      unfolding s Inr by (simp add: Let_def)
    ultimately show thesis using i1
      by (intro stepped [of "if rose \<or> uc then refresh ops (note_watch bd2) else note_watch bd2"
          "next_lock_slot (bd_machine bd1 i) slot"]) simp_all
  qed
qed

section \<open>The CPU\<close>

lemma upd_machine_at: "others_idle i (bd_block bd) \<Longrightarrow> bd_machine (upd_machine i f bd) i = f (bd_machine bd i)"
  by (simp add: upd_machine_def bd_machine_def others_idle_def)

lemma upd_machine_idle: "others_idle i (bd_block bd) \<Longrightarrow> others_idle i (bd_block (upd_machine i f bd))"
  by (simp add: upd_machine_def others_idle_def)

lemma upd_machine_inv:
  assumes inv: "board_inv bd i slot" and c: "sm_config (f (bd_machine bd i)) = sm_config (bd_machine bd i)"
    and l: "lock_inv (f (bd_machine bd i)) (bd_block bd) slot"
  shows "board_inv (upd_machine i f bd) i slot"
proof -
  have oi: "others_idle i (bd_block bd)" using inv by (simp add: board_inv_def)
  note m = upd_machine_at [OF oi, of f]
  let ?bd' = "upd_machine i f bd"
  have i1: "bd_clk_bit bd = k_sideset_base (sm_config (bd_machine bd i))"
    "bit (b_oe (bd_block bd)) (nat (bd_clk_bit bd))" "0 \<le> bd_ui_shift bd"
    "\<not> (bd_ui_shift bd \<le> bd_clk_bit bd \<and> bd_clk_bit bd < bd_ui_shift bd + 8)"
    "bd_clk bd = clk_of bd (bd_block bd)" "bd_ui bd = ui_of bd (bd_block bd)"
    "bd_min_ui_spacing bd = 3" "spacing_ok bd slot" "bd_violations bd = []"
    using inv unfolding board_inv_def by blast+
  show ?thesis
    unfolding board_inv_def
  proof (intro conjI)
    show "others_idle i (bd_block ?bd')" by (rule upd_machine_idle [OF oi])
    show "lock_inv (bd_machine ?bd' i) (bd_block ?bd') slot" unfolding m using l by (simp add: upd_machine_def)
    show "bd_clk_bit ?bd' = k_sideset_base (sm_config (bd_machine ?bd' i))"
      unfolding m c by (simp add: upd_machine_def i1(1))
    show "bit (b_oe (bd_block ?bd')) (nat (bd_clk_bit ?bd'))" using i1(2) by (simp add: upd_machine_def)
    show "0 \<le> bd_ui_shift ?bd'" using i1(3) by (simp add: upd_machine_def)
    show "\<not> (bd_ui_shift ?bd' \<le> bd_clk_bit ?bd' \<and> bd_clk_bit ?bd' < bd_ui_shift ?bd' + 8)"
      using i1(4) by (simp add: upd_machine_def)
    show "bd_clk ?bd' = clk_of ?bd' (bd_block ?bd')" "bd_ui ?bd' = ui_of ?bd' (bd_block ?bd')"
      using i1(5,6) by (simp_all add: upd_machine_def clk_of_def ui_of_def driven_pins_def)
    show "bd_min_ui_spacing ?bd' = 3" "bd_violations ?bd' = []" using i1(7,9) by (simp_all add: upd_machine_def)
    show "spacing_ok ?bd' slot" using i1(8) by (simp add: upd_machine_def spacing_ok_def)
  qed
qed

lemma sm_put_inv:
  assumes "lock_inv s b slot" "puts_ok (halting s) (sm_tx s @ [w AND M32])"
  shows "lock_inv (fst (sm_put s w)) b slot" "sm_config (fst (sm_put s w)) = sm_config s"
    "disp_inv s \<Longrightarrow> disp_inv (fst (sm_put s w))"
    "no_halt s \<Longrightarrow> w AND 0x1F \<noteq> ADDR_HALT \<Longrightarrow> no_halt (fst (sm_put s w))"
proof -
  have m: "(w AND 4294967295) AND 31 = w AND 31" by (simp add: and.assoc)
  show "lock_inv (fst (sm_put s w)) b slot" "sm_config (fst (sm_put s w)) = sm_config s"
    "disp_inv s \<Longrightarrow> disp_inv (fst (sm_put s w))"
    "no_halt s \<Longrightarrow> w AND 0x1F \<noteq> ADDR_HALT \<Longrightarrow> no_halt (fst (sm_put s w))"
    using assms m by (simp_all add: sm_put_def lock_inv_def lock_sm_def running_def halting_def
      clk_level_def clk_bit_def disp_inv_def no_halt_def)
qed

lemma sm_get_inv:
  assumes "lock_inv s b slot"
  shows "lock_inv (fst (sm_get s)) b slot" "sm_config (fst (sm_get s)) = sm_config s"
    "disp_inv s \<Longrightarrow> disp_inv (fst (sm_get s))" "no_halt s \<Longrightarrow> no_halt (fst (sm_get s))"
  using assms by (simp_all add: sm_get_def lock_inv_def lock_sm_def running_def halting_def
      clk_level_def clk_bit_def disp_inv_def no_halt_def split: list.split)

lemma put_board_inv:
  assumes "board_inv bd i slot" "puts_ok (halting (bd_machine bd i)) (sm_tx (bd_machine bd i) @ [w AND M32])"
  shows "board_inv (upd_machine i (\<lambda>s. fst (sm_put s w)) bd) i slot"
proof -
  have "lock_inv (bd_machine bd i) (bd_block bd) slot" using assms(1) by (simp add: board_inv_def)
  from sm_put_inv(1,2) [OF this assms(2)] show ?thesis
    by (intro upd_machine_inv [where f = "\<lambda>s. fst (sm_put s w)", OF assms(1)])
qed

lemma get_board_inv:
  assumes "board_inv bd i slot"
  shows "board_inv (upd_machine i (\<lambda>s. fst (sm_get s)) bd) i slot"
proof -
  have "lock_inv (bd_machine bd i) (bd_block bd) slot" using assms(1) by (simp add: board_inv_def)
  from sm_get_inv(1,2) [OF this] show ?thesis
    by (intro upd_machine_inv [where f = "\<lambda>s. fst (sm_get s)", OF assms(1)])
qed

text \<open>The board, the program and the CPU between two starts of the program: words put one by one when the
  FIFO has room, as \<open>StateMachine.put\<close> waits for it, the words put since the start being in the
  protocol of the program; a put to a full FIFO that is given up; results taken at any time, the reset and
  the enable driven at any time. \<open>ok\<close> restricts the words. A restart and a release of the state
  machine end the run: they are not steps of it.\<close>

inductive lockstep_run :: "'c chip_ops \<Rightarrow> nat \<Rightarrow> (int \<Rightarrow> bool) \<Rightarrow> 'c board \<Rightarrow> int list \<Rightarrow> 'c board \<Rightarrow> bool"
  for ops i ok bd0 where
  run_refl: "lockstep_run ops i ok bd0 [] bd0"
| run_step: "lockstep_run ops i ok bd0 ws bd \<Longrightarrow> board_step ops bd = Inr bd' \<Longrightarrow> lockstep_run ops i ok bd0 ws bd'"
| run_put: "lockstep_run ops i ok bd0 ws bd \<Longrightarrow> ok w \<Longrightarrow> puts_ok False (ws @ [w]) \<Longrightarrow>
    int (length (sm_tx (bd_machine bd i))) < tx_depth (bd_machine bd i) \<Longrightarrow>
    lockstep_run ops i ok bd0 (ws @ [w]) (upd_machine i (\<lambda>s. fst (sm_put s w)) bd)"
| run_full: "lockstep_run ops i ok bd0 ws bd \<Longrightarrow>
    \<not> int (length (sm_tx (bd_machine bd i))) < tx_depth (bd_machine bd i) \<Longrightarrow>
    lockstep_run ops i ok bd0 ws (upd_machine i (\<lambda>s. fst (sm_put s w)) bd)"
| run_get: "lockstep_run ops i ok bd0 ws bd \<Longrightarrow>
    lockstep_run ops i ok bd0 ws (upd_machine i (\<lambda>s. fst (sm_get s)) bd)"
| run_reset: "lockstep_run ops i ok bd0 ws bd \<Longrightarrow> lockstep_run ops i ok bd0 ws (halt_reset ops active bd)"
| run_ena: "lockstep_run ops i ok bd0 ws bd \<Longrightarrow> lockstep_run ops i ok bd0 ws (halt_ena ops level bd)"

inductive_cases lockstep_runE: "lockstep_run ops i ok bd0 ws bd"

lemma halt_ops_inv [simp]:
  "board_inv (halt_reset ops active bd) i slot = board_inv bd i slot"
  "board_inv (halt_ena ops level bd) i slot = board_inv bd i slot"
  "exact_inv (halt_reset ops active bd) i slot = exact_inv bd i slot"
  "exact_inv (halt_ena ops level bd) i slot = exact_inv bd i slot"
  by (simp_all add: halt_reset_def halt_ena_def bd_set_rst_n_def bd_set_ena_def record_halt_def)

lemma halt_machine:
  "bd_machine (halt_reset ops active bd) i = bd_machine bd i" "bd_machine (halt_ena ops level bd) i = bd_machine bd i"
  by (simp_all add: halt_reset_def halt_ena_def bd_set_rst_n_def bd_set_ena_def record_halt_def bd_machine_def)
    (simp_all add: refresh_def split: option.split)

text \<open>The words put decide what the program still waits for.\<close>

lemma owes_put:
  "int (length (sm_tx s)) < tx_depth s \<Longrightarrow> owes (fst (sm_put s w)) \<longleftrightarrow> \<not> owes s \<and> w AND 0x1F = ADDR_HALT"
  "\<not> int (length (sm_tx s)) < tx_depth s \<Longrightarrow> owes (fst (sm_put s w)) = owes s"
  "owes (fst (sm_get s)) = owes s"
  by (simp_all add: owes_def sm_put_def sm_get_def halting_def puts_snoc and.assoc split: list.split)

lemma sm_put_full: "\<not> int (length (sm_tx s)) < tx_depth s \<Longrightarrow> fst (sm_put s w) = s\<lparr>sm_txover := True\<rparr>"
  by (simp add: sm_put_def)

lemma full_board_inv:
  assumes "board_inv bd i slot" "\<not> int (length (sm_tx (bd_machine bd i))) < tx_depth (bd_machine bd i)"
  shows "board_inv (upd_machine i (\<lambda>s. fst (sm_put s w)) bd) i slot"
proof -
  have "lock_inv (bd_machine bd i) (bd_block bd) slot" using assms(1) by (simp add: board_inv_def)
  then show ?thesis
    by (intro upd_machine_inv [where f = "\<lambda>s. fst (sm_put s w)", OF assms(1)])
      (simp_all add: sm_put_full [OF assms(2)] lock_inv_def lock_sm_def running_def halting_def clk_level_def clk_bit_def)
qed

text \<open>A put in the protocol of the words put before it is one the program can take.\<close>

lemma put_in_protocol:
  assumes "lock_inv s b slot" "puts_ok False (ws @ [w])" "owes s = puts_end False ws"
  shows "puts_ok (halting s) (sm_tx s @ [w AND M32])"
  using assms by (simp add: puts_snoc owes_def lock_inv_def and.assoc)

lemma run_inv:
  assumes "lockstep_run ops i ok bd0 ws bd" "board_inv bd0 i slot" "\<not> owes (bd_machine bd0 i)"
  shows "(\<exists>slot'. board_inv bd i slot') \<and> owes (bd_machine bd i) = puts_end False ws"
  using assms(1)
proof (induction rule: lockstep_run.induct)
  case (run_step ws bd bd')
  then obtain sl where "board_inv bd i sl" by blast
  then show ?case by (cases rule: board_step_inv [where ops = ops]) (use run_step in auto)
next
  case (run_put ws bd w)
  then obtain sl where b: "board_inv bd i sl" by blast
  then have l: "lock_inv (bd_machine bd i) (bd_block bd) sl" "others_idle i (bd_block bd)" by (simp_all add: board_inv_def)
  have "puts_ok (halting (bd_machine bd i)) (sm_tx (bd_machine bd i) @ [w AND M32])"
    by (rule put_in_protocol [OF l(1) run_put.hyps(3)]) (use run_put.IH in blast)
  then show ?case
    using put_board_inv [OF b] owes_put(1) [OF run_put.hyps(4)] run_put.IH upd_machine_at [OF l(2)] by (auto simp: puts_snoc)
next
  case (run_full ws bd w)
  then obtain sl where b: "board_inv bd i sl" by blast
  then have l: "others_idle i (bd_block bd)" by (simp add: board_inv_def)
  show ?case
    using full_board_inv [OF b run_full.hyps(2)] owes_put(2) [OF run_full.hyps(2)] run_full.IH upd_machine_at [OF l] by auto
next
  case (run_get ws bd)
  then obtain sl where b: "board_inv bd i sl" by blast
  then have l: "others_idle i (bd_block bd)" by (simp add: board_inv_def)
  show ?case using get_board_inv [OF b] owes_put(3) run_get.IH upd_machine_at [OF l] by auto
next
  case (run_reset ws bd active)
  then show ?case by (simp add: halt_machine)
next
  case (run_ena ws bd level)
  then show ?case by (simp add: halt_machine)
qed (use assms(2,3) in auto)

lemma exact_upd:
  assumes "exact_inv bd i slot" "others_idle i (bd_block bd)" "disp_inv (f (bd_machine bd i))" "no_halt (f (bd_machine bd i))"
  shows "exact_inv (upd_machine i f bd) i slot"
  using assms upd_machine_at [OF assms(2), of f] by (simp add: exact_inv_def) (simp add: exact_ok_def upd_machine_def)

lemma run_exact:
  assumes "lockstep_run ops i (\<lambda>w. w AND 0x1F \<noteq> ADDR_HALT) bd0 ws bd" "board_inv bd0 i slot" "exact_inv bd0 i slot"
    "\<not> owes (bd_machine bd0 i)"
  shows "\<exists>slot'. board_inv bd i slot' \<and> exact_inv bd i slot'"
  using assms(1)
proof (induction rule: lockstep_run.induct)
  case (run_step ws bd bd')
  then obtain sl where "board_inv bd i sl" "exact_inv bd i sl" by blast
  then show ?case by (cases rule: board_step_inv [where ops = ops]) (use run_step.hyps(2) in auto)
next
  case (run_put ws bd w)
  then obtain sl where b: "board_inv bd i sl" "exact_inv bd i sl" by blast
  then have l: "lock_inv (bd_machine bd i) (bd_block bd) sl" "others_idle i (bd_block bd)"
    "disp_inv (bd_machine bd i)" "no_halt (bd_machine bd i)"
    by (simp_all add: board_inv_def exact_inv_def)
  have ow: "owes (bd_machine bd i) = puts_end False ws"
    using run_inv [OF run_put.hyps(1) assms(2,4)] by blast
  note ok = put_in_protocol [OF l(1) run_put.hyps(3) ow]
  note p = sm_put_inv [OF l(1) ok]
  have "board_inv (upd_machine i (\<lambda>s. fst (sm_put s w)) bd) i sl" by (rule put_board_inv [OF b(1) ok])
  moreover have "exact_inv (upd_machine i (\<lambda>s. fst (sm_put s w)) bd) i sl"
    by (rule exact_upd [where f = "\<lambda>s. fst (sm_put s w)", OF b(2) l(2) p(3) [OF l(3)] p(4) [OF l(4) run_put.hyps(2)]])
  ultimately show ?case by blast
next
  case (run_full ws bd w)
  then obtain sl where b: "board_inv bd i sl" "exact_inv bd i sl" by blast
  then have l: "others_idle i (bd_block bd)" "disp_inv (bd_machine bd i)" "no_halt (bd_machine bd i)"
    by (simp_all add: board_inv_def exact_inv_def)
  have "board_inv (upd_machine i (\<lambda>s. fst (sm_put s w)) bd) i sl" by (rule full_board_inv [OF b(1) run_full.hyps(2)])
  moreover have "exact_inv (upd_machine i (\<lambda>s. fst (sm_put s w)) bd) i sl"
    by (rule exact_upd [where f = "\<lambda>s. fst (sm_put s w)", OF b(2) l(1)])
      (use l in \<open>simp_all add: sm_put_full [OF run_full.hyps(2)] disp_inv_def no_halt_def halting_def\<close>)
  ultimately show ?case by blast
next
  case (run_get ws bd)
  then obtain sl where b: "board_inv bd i sl" "exact_inv bd i sl" by blast
  then have l: "lock_inv (bd_machine bd i) (bd_block bd) sl" "others_idle i (bd_block bd)"
    "disp_inv (bd_machine bd i)" "no_halt (bd_machine bd i)"
    by (simp_all add: board_inv_def exact_inv_def)
  note g = sm_get_inv [OF l(1)]
  have "board_inv (upd_machine i (\<lambda>s. fst (sm_get s)) bd) i sl" by (rule get_board_inv [OF b(1)])
  moreover have "exact_inv (upd_machine i (\<lambda>s. fst (sm_get s)) bd) i sl"
    by (rule exact_upd [where f = "\<lambda>s. fst (sm_get s)", OF b(2) l(2) g(3) [OF l(3)] g(4) [OF l(4)]])
  ultimately show ?case by blast
qed (use assms(2,3) in auto)

end
