(* ===== verification/Lockstep_Schedule.thy ===== *)
theory Lockstep_Schedule
  imports Pio_Board_Props
begin

text \<open>
  From power-up to any later point: the backend's start leaves the board in the invariant, so the
  schedule theorems hold of every run of the driver on the demo board's pin map.
\<close>

section \<open>The started program\<close>

abbreviation RUN_PROG :: pio_program where
  "RUN_PROG \<equiv> LOCKSTEP_PROG\<lparr>pp_execctrl := 117761\<rparr>"

lemma build_program_run: "build_program = Inr RUN_PROG"
  by (simp add: build_program_def assembled EXECCTRL_STATUS_def)

lemma db3: "check_pin_map PIN_MAP_DB3 = Some 16"
  by code_simp

lemma refresh_fields [simp]:
  "bd_block (refresh ops bd) = bd_block bd" "bd_clk_bit (refresh ops bd) = bd_clk_bit bd"
  "bd_ui_shift (refresh ops bd) = bd_ui_shift bd" "bd_gpio_base (refresh ops bd) = bd_gpio_base bd"
  "bd_clk (refresh ops bd) = bd_clk bd" "bd_ui (refresh ops bd) = bd_ui bd"
  "bd_last_edge (refresh ops bd) = bd_last_edge bd" "bd_violations (refresh ops bd) = bd_violations bd"
  "bd_last_ui_change (refresh ops bd) = bd_last_ui_change bd"
  "bd_halt_periods (refresh ops bd) = bd_halt_periods bd"
  "bd_min_ui_spacing (refresh ops bd) = bd_min_ui_spacing bd"
  "bd_halts (refresh ops bd) = bd_halts bd" "bd_chip (refresh ops bd) = bd_chip bd"
  by (simp_all add: refresh_def split: option.split)

text \<open>A board on which nothing has moved yet.\<close>

definition quiet :: "nat \<Rightarrow> 'c board \<Rightarrow> bool" where
  "quiet i bd \<longleftrightarrow> others_idle i (bd_block bd) \<and> b_out (bd_block bd) = 0 \<and> b_oe (bd_block bd) = 0x1FF
     \<and> b_mem (bd_block bd) = LOCKSTEP_WORDS \<and> bd_clk bd = 0 \<and> bd_ui bd = 0 \<and> bd_clk_bit bd = 0
     \<and> bd_ui_shift bd = 1 \<and> bd_last_edge bd = None \<and> bd_last_ui_change bd = None
     \<and> bd_halt_periods bd = [] \<and> bd_violations bd = [] \<and> bd_min_ui_spacing bd = 3"

lemma quiet_upd: "quiet i (upd_machine i f bd) = quiet i bd" if "others_idle i (bd_block bd)"
  using upd_machine_idle [OF that, of f] that by (simp add: quiet_def) (simp add: upd_machine_def)

lemma quiet_step:
  assumes q: "quiet i bd"
    and c: "\<And>xs v. \<exists>b1. clock (bd_machine bd i) ((bd_block bd)\<lparr>b_sms := xs\<rparr>) v = Inr (s1, b1, True)
      \<and> b_sms b1 = xs \<and> b_out b1 = 0 \<and> b_oe b1 = b_oe (bd_block bd) \<and> b_mem b1 = b_mem (bd_block bd)"
  shows "\<exists>bd'. board_step ops bd = Inr bd' \<and> quiet i bd' \<and> bd_machine bd' i = s1"
proof -
  have oi: "others_idle i (bd_block bd)" using q by (simp add: quiet_def)
  obtain xs v where step: "\<And>s1 b1 t. clock (b_sms (bd_block bd) ! i) ((bd_block bd)\<lparr>b_sms := xs\<rparr>) v = Inr (s1, b1, t)
      \<Longrightarrow> b_sms b1 = xs \<Longrightarrow> \<exists>b'. pio_step (bd_block bd) (raw_pins bd) = Inr b' \<and> others_idle i b'
        \<and> b_sms b' ! i = s1 \<and> b_out b' = b_out b1 \<and> b_oe b' = b_oe b1 \<and> b_mem b' = b_mem b1"
    by (rule pio_step_one [OF oi]) blast
  from c [of xs v] obtain b1 where b1: "clock (b_sms (bd_block bd) ! i) ((bd_block bd)\<lparr>b_sms := xs\<rparr>) v = Inr (s1, b1, True)"
    "b_sms b1 = xs" "b_out b1 = 0" "b_oe b1 = b_oe (bd_block bd)" "b_mem b1 = b_mem (bd_block bd)"
    unfolding bd_machine_def by blast
  from step [OF b1(1,2)] obtain b' where b': "pio_step (bd_block bd) (raw_pins bd) = Inr b'" "others_idle i b'"
    "b_sms b' ! i = s1" "b_out b' = 0" "b_oe b' = b_oe (bd_block bd)" "b_mem b' = b_mem (bd_block bd)"
    using b1 by auto
  have o: "clk_of bd b' = 0" "ui_of bd b' = 0" using b'(4) by (simp_all add: clk_of_def ui_of_def driven_pins_def)
  let ?bd = "bd\<lparr>bd_block := b', bd_clk := 0, bd_ui := 0, bd_cycle := bd_cycle bd + 1\<rparr>"
  have "core_step bd = Inr (?bd, False, False, False)"
    using q b'(1) o by (simp add: core_step_def board_err_def Let_def quiet_def)
  then have s: "board_step ops bd = Inr (note_watch ?bd)" by (simp add: board_step_def Let_def)
  have "quiet i (note_watch ?bd)"
    using q b' by (simp add: quiet_def note_watch_def split: option.split)
  moreover have "bd_machine (note_watch ?bd) i = s1"
    using b'(3) by (simp add: bd_machine_def note_watch_def split: option.split)
  ultimately show ?thesis using s by blast
qed

section \<open>The two forced instructions\<close>

lemma set_pin_zero: "set_pin 0 pin 0 = 0"
  by (simp add: set_pin_def)

lemma clock_forced_set_y:
  assumes "plain_config (sm_config s)" "\<not> sm_enabled s" "sm_forced s = Some 57408" "b_out b = 0"
  shows "clock s b v = Inr (s\<lparr>sm_last_pc := None, sm_y := 0, sm_stalled := False,
    sm_executed := sm_executed s + 1, sm_forced := None\<rparr>, b\<lparr>b_out := 0\<rparr>, True)"
proof -
  have "apply_side (sm_config s) b 57408 = b\<lparr>b_out := 0\<rparr>"
    using apply_side_plain [OF assms(1), of b 57408] assms(4) by (simp add: side_bit_def set_pin_zero)
  then show ?thesis
    using assms(2,3) by (simp add: clock_def issue_def fetch_def pio_execute_def exec_set_def finish_def Let_def)
qed

lemma clock_forced_jmp:
  assumes "plain_config (sm_config s)" "\<not> sm_enabled s" "sm_forced s = Some 24" "b_out b = 0"
  shows "clock s b v = Inr (s\<lparr>sm_last_pc := None, sm_pc := 24, sm_stalled := False,
    sm_executed := sm_executed s + 1, sm_forced := None\<rparr>, b\<lparr>b_out := 0\<rparr>, True)"
proof -
  have "apply_side (sm_config s) b 24 = b\<lparr>b_out := 0\<rparr>"
    using apply_side_plain [OF assms(1), of b 24] assms(4) by (simp add: side_bit_def set_pin_zero)
  then show ?thesis
    using assms(2,3) by (simp add: clock_def issue_def fetch_def pio_execute_def exec_jmp_def finish_def Let_def)
qed

lemma fsm_exec_set_y:
  assumes "quiet i bd" "plain_config (sm_config (bd_machine bd i))" "\<not> sm_enabled (bd_machine bd i)"
  shows "\<exists>bd'. fsm_exec ops i INSTR_SET_Y_0 bd = Inr bd' \<and> quiet i bd' \<and> bd_machine bd' i =
    (bd_machine bd i)\<lparr>sm_forced := None, sm_last_pc := None, sm_y := 0, sm_stalled := False,
      sm_executed := sm_executed (bd_machine bd i) + 1\<rparr>"
proof -
  have oi: "others_idle i (bd_block bd)" using assms(1) by (simp add: quiet_def)
  let ?bd = "upd_machine i (\<lambda>s. sm_exec s INSTR_SET_Y_0) bd"
  have m: "bd_machine ?bd i = (bd_machine bd i)\<lparr>sm_forced := Some 57408\<rparr>"
    by (simp add: upd_machine_at [OF oi] sm_exec_def INSTR_SET_Y_0_def)
  have o: "b_out (bd_block ?bd) = 0" using assms(1) by (simp add: upd_machine_def quiet_def)
  have q: "quiet i ?bd" using assms(1) quiet_upd [OF oi] by simp
  show ?thesis
    unfolding fsm_exec_def
    by (rule quiet_step [OF q])
      (use clock_forced_set_y [of "bd_machine ?bd i"] assms(2,3) o m in \<open>simp add: o\<close>)
qed

lemma fsm_exec_jmp:
  assumes "quiet i bd" "plain_config (sm_config (bd_machine bd i))" "\<not> sm_enabled (bd_machine bd i)"
  shows "\<exists>bd'. fsm_exec ops i INSTR_JMP_FETCH bd = Inr bd' \<and> quiet i bd' \<and> bd_machine bd' i =
    (bd_machine bd i)\<lparr>sm_forced := None, sm_last_pc := None, sm_pc := 24, sm_stalled := False,
      sm_executed := sm_executed (bd_machine bd i) + 1\<rparr>"
proof -
  have oi: "others_idle i (bd_block bd)" using assms(1) by (simp add: quiet_def)
  let ?bd = "upd_machine i (\<lambda>s. sm_exec s INSTR_JMP_FETCH) bd"
  have m: "bd_machine ?bd i = (bd_machine bd i)\<lparr>sm_forced := Some 24\<rparr>"
    by (simp add: upd_machine_at [OF oi] sm_exec_def INSTR_JMP_FETCH_def ADDR_FETCH_def)
  have o: "b_out (bd_block ?bd) = 0" using assms(1) by (simp add: upd_machine_def quiet_def)
  have q: "quiet i ?bd" using assms(1) quiet_upd [OF oi] by simp
  show ?thesis
    unfolding fsm_exec_def
    by (rule quiet_step [OF q])
      (use clock_forced_jmp [of "bd_machine ?bd i"] assms(2,3) o m in \<open>simp add: o\<close>)
qed

section \<open>The program in place\<close>

definition lockstep_config :: "bool \<Rightarrow> sm_config" where
  "lockstep_config rp2350 = default_sm_config\<lparr>k_wrap_bottom := 24, k_wrap_top := 28,
     k_sideset_count := 1, k_status_n := 1, k_in_shift_right := True, k_out_shift_right := True,
     k_out_base := 1, k_out_count := 8, k_set_base := 5, k_set_count := 2, k_in_base := 17,
     k_jmp_pin := 21\<rparr>"

lemma loaded_words:
  "foldl (\<lambda>mem (i, word). mem[nat (0 + int i) := word AND 0xFFFF]) (replicate 32 0)
     (zip [0..<length LOCKSTEP_WORDS] LOCKSTEP_WORDS) = LOCKSTEP_WORDS"
  by code_simp

lemma loaded_block:
  "pio_load (new_pio_block rp 16) (pp_instr RUN_PROG) 0 = Inr ((new_pio_block rp 16)\<lparr>b_mem := LOCKSTEP_WORDS\<rparr>)"
  using loaded_words by (simp add: pio_load_def new_pio_block_def LOCKSTEP_PROG_def)

lemma started_config:
  assumes "bd_gpio_base bd = 16"
  shows "fsm_config bd RUN_PROG 0 (lockstep_pins PIN_MAP_DB3) = lockstep_config (b_rp2350 (bd_block bd))"
  using assms
  by (simp add: fsm_config_def from_program_def lockstep_config_def default_sm_config_def lockstep_pins_def PIN_MAP_DB3_def
    pin_index_def LOCKSTEP_PROG_def init_count_def has_bit_def py_range_def upt_rec Let_def)

lemma started_pins:
  assumes "b_out b = 0" "b_oe b = 0"
  shows "init_pins 0 (One_init 2) (init_pins 5 (Many_init [2, 2]) (init_pins 1 (Many_init (replicate 8 2)) b))
    = b\<lparr>b_oe := 0x1FF, b_out := 0\<rparr>"
  using assms
  by (simp add: init_pins_def init_values_def init_pin_def has_bit_def numeral_eq_Suc upt_rec Let_def)

lemma plain_lockstep: "plain_config (lockstep_config rp)"
  by (simp add: plain_config_def lockstep_config_def default_sm_config_def)

lemma db3_fields:
  "pm_clk PIN_MAP_DB3 = 16" "hd (pm_ui_in PIN_MAP_DB3) = 17" "hd (pm_uo_out PIN_MAP_DB3) = 33"
  by (simp_all add: PIN_MAP_DB3_def py_range_def upt_rec)

lemma new_board_fields:
  assumes "new_board ops chip PIN_MAP_DB3 k = Inr bd"
  shows "bd_block bd = new_pio_block (bo_rp2350 k) 16" "bd_gpio_base bd = 16" "bd_clk_bit bd = 0"
    "bd_ui_shift bd = 1" "bd_clk bd = 0" "bd_ui bd = 0" "bd_last_edge bd = None"
    "bd_last_ui_change bd = None" "bd_halt_periods bd = []" "bd_violations bd = []"
    "bd_min_ui_spacing bd = bo_min_ui_spacing k" "bd_halts bd = []" "bd_chip bd = chip"
  using assms by (auto simp: new_board_def db3 db3_fields)

lemma fsm_init_quiet:
  assumes nb: "new_board ops chip PIN_MAP_DB3 k = Inr bd" and sp: "bo_min_ui_spacing k = 3"
  shows "\<exists>bd'. fsm_init sm_id RUN_PROG None (lockstep_pins PIN_MAP_DB3) bd = Inr bd'
    \<and> quiet (nat (sm_id mod 4)) bd'
    \<and> bd_machine bd' (nat (sm_id mod 4)) =
        (configure (reset_state ((new_state_machine (sm_id mod 4))\<lparr>sm_enabled := False\<rparr>))
          (lockstep_config (bo_rp2350 k)))\<lparr>sm_pc := 0\<rparr>"
proof -
  let ?i = "nat (sm_id mod 4)" and ?rp = "bo_rp2350 k"
  note f = new_board_fields [OF nb]
  have i: "?i < 4" by (simp add: nat_less_iff)
  have four: "py_range 4 = [0, 1, 2, 3]" by (simp add: py_range_def upt_rec)
  have nth: "map new_state_machine (py_range 4) ! ?i = new_state_machine (sm_id mod 4)"
    using i by simp
  let ?f = "\<lambda>s. (configure (reset_state (s\<lparr>sm_enabled := False\<rparr>)) (lockstep_config ?rp))\<lparr>sm_pc := 0\<rparr>"
  let ?blk = "(new_pio_block ?rp 16)\<lparr>b_mem := LOCKSTEP_WORDS\<rparr>"
  let ?bd1 = "upd_machine ?i ?f (bd\<lparr>bd_block := ?blk\<rparr>)"
  have load: "pio_load (bd_block bd) (pp_instr RUN_PROG) 0 = Inr ?blk" unfolding f(1) by (rule loaded_block)
  have len: "32 - int (length (pp_instr RUN_PROG)) = 0" by simp
  have cfg: "fsm_config bd RUN_PROG 0 (lockstep_pins PIN_MAP_DB3) = lockstep_config ?rp"
    using started_config [OF f(2)] by (simp add: f(1) new_pio_block_def)
  have b1: "b_out (bd_block ?bd1) = 0" "b_oe (bd_block ?bd1) = 0"
    by (simp_all add: upd_machine_def new_pio_block_def)
  have pins: "init_pins (k_sideset_base (lockstep_config ?rp)) (pp_sideset_init RUN_PROG)
      (init_pins (k_set_base (lockstep_config ?rp)) (pp_set_init RUN_PROG)
      (init_pins (k_out_base (lockstep_config ?rp)) (pp_out_init RUN_PROG) (bd_block ?bd1)))
      = (bd_block ?bd1)\<lparr>b_oe := 0x1FF, b_out := 0\<rparr>"
    using started_pins [OF b1] by (simp add: lockstep_config_def default_sm_config_def LOCKSTEP_PROG_def)
  let ?bd2 = "?bd1\<lparr>bd_block := (bd_block ?bd1)\<lparr>b_oe := 0x1FF, b_out := 0\<rparr>, bd_sm := Some ?i\<rparr>"
  have "fsm_init sm_id RUN_PROG None (lockstep_pins PIN_MAP_DB3) bd = Inr ?bd2"
    using pins unfolding fsm_init_def Let_def len load cfg by (simp add: board_err_def raise_if_def)
  moreover have "idle_machine (new_state_machine n)" for n
    by (simp add: idle_machine_def new_state_machine_def)
  then have "others_idle ?i (bd_block ?bd2)"
    using i by (simp add: others_idle_def upd_machine_def new_pio_block_def)
  then have "quiet ?i ?bd2" using f sp by (simp add: quiet_def) (simp add: upd_machine_def)
  moreover have "bd_machine ?bd2 ?i = ?f (new_state_machine (sm_id mod 4))"
    using i nth by (simp add: bd_machine_def upd_machine_def new_pio_block_def)
  ultimately show ?thesis by blast
qed

lemma lock_sm_start:
  assumes "sm_config s = lockstep_config rp" "sm_enabled s" "sm_forced s = None" "sm_exec_next s = None"
    "sm_div_count s = 0" "b_mem b = LOCKSTEP_WORDS"
  shows "lock_sm s b"
proof -
  have "k_wrap_bottom (sm_config s) = wrap_low LOCKSTEP_PROG" "k_wrap_top (sm_config s) = wrap_high LOCKSTEP_PROG"
    by (simp_all add: assms(1) lockstep_config_def)
  moreover have "\<forall>i < length (pp_instr LOCKSTEP_PROG). b_mem b ! i = pp_instr LOCKSTEP_PROG ! i"
    unfolding assms(6) by simp
  moreover have "plain_config (sm_config s)" unfolding assms(1) by (rule plain_lockstep)
  ultimately have "running LOCKSTEP_PROG s b" unfolding running_def using assms(2-5) by blast
  then show ?thesis by (simp add: lock_sm_def assms(1) lockstep_config_def default_sm_config_def)
qed

lemma lockstep_base: "k_sideset_base (lockstep_config rp) = 0"
  by (simp add: lockstep_config_def default_sm_config_def)

lemma started_machine:
  assumes "sm_config s = lockstep_config rp" "sm_enabled s" "sm_tx s = []" "sm_delay s = 0"
    "sm_exec_next s = None" "\<not> sm_stalled s" "sm_div_count s = 0" "sm_pc s = 24" "sm_forced s = None"
    "b_mem b = LOCKSTEP_WORDS"
  shows "lock_inv s b DRIVE_SLOT" "disp_inv s" "no_halt s"
proof -
  have "lock_sm s b" using assms by (intro lock_sm_start [of s rp]) simp_all
  moreover have "lock_reach 24 3" using path_start [of LOCKSTEP_WORDS 24 28 default_handlers]
    by (simp add: ADDR_FETCH_def DRIVE_SLOT_def)
  ultimately show "lock_inv s b DRIVE_SLOT" using assms by (simp add: lock_inv_def DRIVE_SLOT_def)
  show "disp_inv s" "no_halt s"
    using assms by (simp_all add: disp_inv_def no_halt_def halting_def lockstep_config_def)
qed

lemma quiet_exact:
  assumes "quiet i bd" "disp_inv (bd_machine bd i)" "no_halt (bd_machine bd i)"
  shows "exact_inv bd i DRIVE_SLOT"
  using assms by (simp add: exact_inv_def exact_ok_def quiet_def DRIVE_SLOT_def)

lemma quiet_inv:
  assumes q: "quiet i bd" and l: "lock_inv (bd_machine bd i) (bd_block bd) DRIVE_SLOT"
    and c: "bd_clk_bit bd = k_sideset_base (sm_config (bd_machine bd i))"
  shows "board_inv bd i DRIVE_SLOT"
  unfolding board_inv_def
proof (intro conjI)
  show "others_idle i (bd_block bd)" using q by (simp add: quiet_def)
  show "lock_inv (bd_machine bd i) (bd_block bd) DRIVE_SLOT" by (rule l)
  show "bd_clk_bit bd = k_sideset_base (sm_config (bd_machine bd i))" by (rule c)
  show "bit (b_oe (bd_block bd)) (nat (bd_clk_bit bd))" using q by (simp add: quiet_def)
  show "0 \<le> bd_ui_shift bd" "\<not> (bd_ui_shift bd \<le> bd_clk_bit bd \<and> bd_clk_bit bd < bd_ui_shift bd + 8)"
    using q by (simp_all add: quiet_def)
  show "bd_clk bd = clk_of bd (bd_block bd)" "bd_ui bd = ui_of bd (bd_block bd)"
    using q by (simp_all add: quiet_def clk_of_def ui_of_def driven_pins_def)
  show "bd_min_ui_spacing bd = 3" "bd_violations bd = []" using q by (simp_all add: quiet_def)
  show "spacing_ok bd DRIVE_SLOT" using q by (simp add: spacing_ok_def quiet_def DRIVE_SLOT_def)
qed

lemma started_fresh:
  assumes nb: "new_board ops chip PIN_MAP_DB3 k = Inr bd" and sp: "bo_min_ui_spacing k = 3"
  obtains bd' where "backend_start ops sm_id RUN_PROG PIN_MAP_DB3 bd = Inr bd'"
    "board_inv bd' (nat (sm_id mod 4)) DRIVE_SLOT" "exact_inv bd' (nat (sm_id mod 4)) DRIVE_SLOT"
    "sm_tx (bd_machine bd' (nat (sm_id mod 4))) = []"
    "sm_config (bd_machine bd' (nat (sm_id mod 4))) = lockstep_config (bo_rp2350 k)"
    "\<not> halting (bd_machine bd' (nat (sm_id mod 4)))"
proof -
  let ?i = "nat (sm_id mod 4)" and ?c = "lockstep_config (bo_rp2350 k)"
  obtain b1 where b1: "fsm_init sm_id RUN_PROG None (lockstep_pins PIN_MAP_DB3) bd = Inr b1" "quiet ?i b1"
    "bd_machine b1 ?i = (configure (reset_state ((new_state_machine (sm_id mod 4))\<lparr>sm_enabled := False\<rparr>)) ?c)\<lparr>sm_pc := 0\<rparr>"
    using fsm_init_quiet [OF nb sp] by blast
  have m1: "sm_config (bd_machine b1 ?i) = ?c" "\<not> sm_enabled (bd_machine b1 ?i)"
    "sm_tx (bd_machine b1 ?i) = []" "sm_delay (bd_machine b1 ?i) = 0" "sm_exec_next (bd_machine b1 ?i) = None"
    "sm_div_count (bd_machine b1 ?i) = 0"
    by (simp_all add: b1(3) configure_def restart_def reset_state_def new_state_machine_def)
  have p1: "plain_config (sm_config (bd_machine b1 ?i))" unfolding m1 by (rule plain_lockstep)
  obtain b2 where b2: "fsm_exec ops ?i INSTR_SET_Y_0 b1 = Inr b2" "quiet ?i b2"
    and m2: "bd_machine b2 ?i = (bd_machine b1 ?i)\<lparr>sm_forced := None, sm_last_pc := None, sm_y := 0,
      sm_stalled := False, sm_executed := sm_executed (bd_machine b1 ?i) + 1\<rparr>"
    using fsm_exec_set_y [OF b1(2) p1 m1(2)] by blast
  have p2: "plain_config (sm_config (bd_machine b2 ?i))" "\<not> sm_enabled (bd_machine b2 ?i)"
    using p1 m1 by (simp_all add: m2)
  obtain b3 where b3: "fsm_exec ops ?i INSTR_JMP_FETCH b2 = Inr b3" "quiet ?i b3"
    and m3: "bd_machine b3 ?i = (bd_machine b2 ?i)\<lparr>sm_forced := None, sm_last_pc := None, sm_pc := 24,
      sm_stalled := False, sm_executed := sm_executed (bd_machine b2 ?i) + 1\<rparr>"
    using fsm_exec_jmp [OF b2(2) p2] by blast
  let ?bd = "fsm_set_active ?i True b3"
  have oi: "others_idle ?i (bd_block b3)" using b3(2) by (simp add: quiet_def)
  have m: "bd_machine ?bd ?i = (bd_machine b3 ?i)\<lparr>sm_enabled := True\<rparr>"
    unfolding fsm_set_active_def by (rule upd_machine_at [OF oi])
  have q: "quiet ?i ?bd" using b3(2) quiet_upd [OF oi] by (simp add: fsm_set_active_def)
  have s: "sm_config (bd_machine ?bd ?i) = ?c" "sm_enabled (bd_machine ?bd ?i)" "sm_tx (bd_machine ?bd ?i) = []"
    "sm_delay (bd_machine ?bd ?i) = 0" "sm_exec_next (bd_machine ?bd ?i) = None" "\<not> sm_stalled (bd_machine ?bd ?i)"
    "sm_div_count (bd_machine ?bd ?i) = 0" "sm_pc (bd_machine ?bd ?i) = 24" "sm_forced (bd_machine ?bd ?i) = None"
    using m1 by (simp_all add: m m3 m2)
  have mem: "b_mem (bd_block ?bd) = LOCKSTEP_WORDS" using q unfolding quiet_def by blast
  note inv = started_machine [OF s mem]
  have "bd_clk_bit ?bd = k_sideset_base (sm_config (bd_machine ?bd ?i))"
    using q unfolding quiet_def s(1) lockstep_base by simp
  from quiet_inv [OF q inv(1) this] have "board_inv ?bd ?i DRIVE_SLOT" .
  moreover have "exact_inv ?bd ?i DRIVE_SLOT" by (rule quiet_exact [OF q inv(2,3)])
  moreover have "backend_start ops sm_id RUN_PROG PIN_MAP_DB3 bd = Inr ?bd"
    by (simp add: backend_start_def Let_def b1(1) b2(1) b3(1))
  moreover have "\<not> halting (bd_machine ?bd ?i)" unfolding halting_def s(8) by simp
  ultimately show thesis using s(1,3) by (intro that [of ?bd])
qed

lemma started:
  assumes "new_board ops chip PIN_MAP_DB3 k = Inr bd" "bo_min_ui_spacing k = 3"
  obtains bd' where "backend_start ops sm_id RUN_PROG PIN_MAP_DB3 bd = Inr bd'"
    "board_inv bd' (nat (sm_id mod 4)) DRIVE_SLOT" "exact_inv bd' (nat (sm_id mod 4)) DRIVE_SLOT"
    "\<not> owes (bd_machine bd' (nat (sm_id mod 4)))"
proof (rule started_fresh [OF assms, of sm_id])
  fix bd'
  assume s: "backend_start ops sm_id RUN_PROG PIN_MAP_DB3 bd = Inr bd'"
    "board_inv bd' (nat (sm_id mod 4)) DRIVE_SLOT" "exact_inv bd' (nat (sm_id mod 4)) DRIVE_SLOT"
    and m: "sm_tx (bd_machine bd' (nat (sm_id mod 4))) = []" "\<not> halting (bd_machine bd' (nat (sm_id mod 4)))"
  have "\<not> owes (bd_machine bd' (nat (sm_id mod 4)))" unfolding owes_def using m by simp
  from that [OF s this] show thesis .
qed

section \<open>The schedule\<close>

text \<open>C18: On the demo board's pins, from a start of the program until its next restart or release:
  whatever words are put, as long as they keep the program's protocol (an operation's word begins
  with the address of its handler, a HALT's word is followed by one more word), whenever they are put,
  whatever the chip answers and whenever the reset and the enable move, the running program never
  changes ui_in within three system clocks of a rising edge of the project clock, and no instruction
  of it fails: only the chip's own edge can raise. \<open>port_keeps_protocol\<close> shows that the port keeps
  this protocol. A restart puts the pins back at any phase, and is outside.\<close>

theorem lockstep_schedule_clean:
  assumes "build_program = Inr prog" "new_board ops chip PIN_MAP_DB3 k = Inr b0" "bo_min_ui_spacing k = 3"
    "backend_start ops sm_id prog PIN_MAP_DB3 b0 = Inr bd0"
    "lockstep_run ops (nat (sm_id mod 4)) (\<lambda>_. True) bd0 ws bd"
  shows "bd_violations bd = [] \<and> (\<forall>e. board_step ops bd = Inl e \<longrightarrow> (\<exists>h. e = Board_Host h))"
proof -
  have p: "prog = RUN_PROG" using assms(1) by (simp add: build_program_run)
  obtain b1 where b1: "backend_start ops sm_id RUN_PROG PIN_MAP_DB3 b0 = Inr b1"
    and inv: "board_inv b1 (nat (sm_id mod 4)) DRIVE_SLOT" "\<not> owes (bd_machine b1 (nat (sm_id mod 4)))"
    by (rule started [OF assms(2,3)])
  have "b1 = bd0" using b1 assms(4) by (simp only: p sum.inject)
  then obtain slot where s: "board_inv bd (nat (sm_id mod 4)) slot"
    using run_inv [OF assms(5)] inv by blast
  have "\<exists>h. e = Board_Host h" if "board_step ops bd = Inl e" for e
    by (rule board_step_inv [OF s, of ops]) (use that in auto)
  then show ?thesis using s by (simp add: board_inv_def)
qed

text \<open>C19: The project clock is exact. In a run whose words are not HALT, every period between two
  rising edges is FRAME_CYCLES system clocks, whatever the data and the state of the queues, and
  the board's own check finds no problem.\<close>

theorem lockstep_clock_period:
  assumes "build_program = Inr prog" "new_board ops chip PIN_MAP_DB3 k = Inr b0" "bo_min_ui_spacing k = 3"
    "backend_start ops sm_id prog PIN_MAP_DB3 b0 = Inr bd0"
    "lockstep_run ops (nat (sm_id mod 4)) (\<lambda>w. w AND 0x1F \<noteq> ADDR_HALT) bd0 ws bd"
  shows "bd_halt_periods bd = [] \<and> board_check bd = []"
proof -
  have p: "prog = RUN_PROG" using assms(1) by (simp add: build_program_run)
  obtain b1 where b1: "backend_start ops sm_id RUN_PROG PIN_MAP_DB3 b0 = Inr b1"
    and inv: "board_inv b1 (nat (sm_id mod 4)) DRIVE_SLOT" "exact_inv b1 (nat (sm_id mod 4)) DRIVE_SLOT"
      "\<not> owes (bd_machine b1 (nat (sm_id mod 4)))"
    by (rule started [OF assms(2,3)])
  have "b1 = bd0" using b1 assms(4) by (simp only: p sum.inject)
  then obtain slot where "board_inv bd (nat (sm_id mod 4)) slot" "exact_inv bd (nat (sm_id mod 4)) slot"
    using run_exact [OF assms(5)] inv by blast
  then show ?thesis by (simp add: board_inv_def exact_inv_def exact_ok_def board_check_def)
qed

definition open_chip :: "unit chip_ops" where
  "open_chip = \<lparr>ch_uo = (\<lambda>_ _ _ _. 0x10), ch_edge = (\<lambda>c _ _ _ _. Inr c)\<rparr>"

lemma demo_run:
  "\<exists>b0 bd0 bd. new_board open_chip (Some ()) PIN_MAP_DB3 default_board_options = Inr b0
     \<and> backend_start open_chip 8 RUN_PROG PIN_MAP_DB3 b0 = Inr bd0
     \<and> lockstep_run open_chip (nat (8 mod 4)) (\<lambda>w. w AND 0x1F \<noteq> ADDR_HALT) bd0 [op_cycle 0x41] bd
     \<and> lockstep_run open_chip (nat (8 mod 4)) (\<lambda>_. True) bd0 [op_cycle 0x41] bd
     \<and> sm_tx (bd_machine bd 0) = [op_cycle 0x41]"
proof -
  obtain b0 where b0: "new_board open_chip (Some ()) PIN_MAP_DB3 default_board_options = Inr b0"
    by (simp add: new_board_def db3)
  have sp: "bo_min_ui_spacing default_board_options = 3" by (simp add: default_board_options_def)
  obtain bd0 where s: "backend_start open_chip 8 RUN_PROG PIN_MAP_DB3 b0 = Inr bd0"
    "board_inv bd0 (nat (8 mod 4)) DRIVE_SLOT"
    and fresh: "sm_tx (bd_machine bd0 0) = []" "sm_config (bd_machine bd0 0) = lockstep_config True"
      "\<not> halting (bd_machine bd0 0)"
    using started_fresh [OF b0 sp, of 8] by (auto simp: default_board_options_def)
  have d: "tx_depth (bd_machine bd0 0) = 4"
    by (simp add: tx_depth_def fresh(2) lockstep_config_def default_sm_config_def)
  let ?bd = "upd_machine 0 (\<lambda>s. fst (sm_put s (op_cycle 0x41))) bd0"
  have w: "op_cycle 0x41 AND M32 = 2101" "op_cycle 0x41 = 2101" "op_cycle 0x41 AND 31 = ADDR_CYC"
    by (simp_all add: op_cycle_def ADDR_CYC_def)
  have ok: "puts_ok False ([] @ [op_cycle 0x41])"
    using w(3) by (simp add: default_handlers_def ADDR_CYC_def)
  have room: "int (length (sm_tx (bd_machine bd0 0))) < tx_depth (bd_machine bd0 0)" using fresh(1) d by simp
  have "lockstep_run open_chip 0 P bd0 [op_cycle 0x41] ?bd" if "P (op_cycle 0x41)" for P
    using run_put [where ws = "[]" and ok = P and w = "op_cycle 0x41" and bd = bd0, OF run_refl that ok room] by simp
  moreover have "others_idle 0 (bd_block bd0)" using s(2) by (simp add: board_inv_def)
  then have "sm_tx (bd_machine ?bd 0) = [op_cycle 0x41]"
    using fresh d w by (simp add: upd_machine_at sm_put_def)
  ultimately show ?thesis
    using b0 s(1) w by (intro exI [of _ b0] exI [of _ bd0] exI [of _ ?bd])
      (simp add: ADDR_HALT_def ADDR_CYC_def)
qed

lemma lockstep_schedule_clean_witness:
  "\<exists>bd. sm_tx (bd_machine bd 0) = [op_cycle 0x41] \<and> bd_violations (bd :: unit board) = []"
proof -
  obtain b0 bd0 and bd :: "unit board" where r:
    "new_board open_chip (Some ()) PIN_MAP_DB3 default_board_options = Inr b0"
    "backend_start open_chip 8 RUN_PROG PIN_MAP_DB3 b0 = Inr bd0"
    "lockstep_run open_chip (nat (8 mod 4)) (\<lambda>_. True) bd0 [op_cycle 0x41] bd" "sm_tx (bd_machine bd 0) = [op_cycle 0x41]"
    using demo_run by blast
  have "bo_min_ui_spacing default_board_options = 3" by (simp add: default_board_options_def)
  from lockstep_schedule_clean [OF build_program_run r(1) this r(2,3)] r(4) show ?thesis by blast
qed

lemma lockstep_clock_period_witness:
  "\<exists>bd. sm_tx (bd_machine bd 0) = [op_cycle 0x41] \<and> board_check (bd :: unit board) = []"
proof -
  obtain b0 bd0 and bd :: "unit board" where r:
    "new_board open_chip (Some ()) PIN_MAP_DB3 default_board_options = Inr b0"
    "backend_start open_chip 8 RUN_PROG PIN_MAP_DB3 b0 = Inr bd0"
    "lockstep_run open_chip (nat (8 mod 4)) (\<lambda>w. w AND 0x1F \<noteq> ADDR_HALT) bd0 [op_cycle 0x41] bd"
    "sm_tx (bd_machine bd 0) = [op_cycle 0x41]"
    using demo_run by blast
  have "bo_min_ui_spacing default_board_options = 3" by (simp add: default_board_options_def)
  from lockstep_clock_period [OF build_program_run r(1) this r(2,3)] r(4) show ?thesis by blast
qed

end
