(* ===== verification/Lockstep_Port.thy ===== *)
theory Lockstep_Port
  imports Lockstep_Program Host_Emulator
begin

text \<open>
  The host port on the lockstep program: \<open>LockstepPort\<close> of \<open>host/pe_host/ports/pio_lockstep.py\<close>.
  The backend is a parameter: its state and the calls the port makes. Result entries are mutable
  lists that the port and its callers share, so they live in a heap of the port's state and are
  named by their address.
\<close>

section \<open>The backend\<close>

record 'b backend_ops =
  be_put :: "int \<Rightarrow> ('b, host_error, unit) act"
  be_put_many :: "int list \<Rightarrow> ('b, host_error, unit) act"
  be_wait_tx_space :: "int \<Rightarrow> int \<Rightarrow> ('b, host_error, bool) act"
  be_get :: "int \<Rightarrow> ('b, host_error, int option) act"
  be_wait_halted :: "int \<Rightarrow> ('b, host_error, bool) act"
  be_restart :: "('b, host_error, unit) act"
  be_set_reset :: "bool \<Rightarrow> ('b, host_error, unit) act"
  be_set_ena :: "int \<Rightarrow> ('b, host_error, unit) act"
  be_has_ena :: bool
  be_ticks_us :: "('b, host_error, int) act"
  be_ticks_diff :: "int \<Rightarrow> int \<Rightarrow> int"
  be_sleep_us :: "int \<Rightarrow> ('b, host_error, unit) act"
  be_release :: "('b, host_error, unit) act"
  be_uo_visible :: int
  be_frame_hz :: int

section \<open>State\<close>

datatype op_kind = Stamp | Data

record result_entry =
  re_kind :: op_kind
  re_sigma :: int
  re_put_ticks :: int
  re_value :: "int option"
  re_get_ticks :: "int option"

record 'b lockstep_port =
  lp_backend :: 'b
  lp_env :: bool
  lp_count :: int
  lp_watchdog_us :: int
  lp_window :: int
  lp_sigma :: int
  lp_d :: int
  lp_results :: "nat list"
  lp_outstanding :: int
  lp_last_stamp :: "(int \<times> int \<times> int) option"
  lp_count_exact :: bool
  lp_restarts :: int
  lp_last_result :: "int option"
  lp_forbidden :: int
  lp_heap :: "result_entry list"

type_synonym ('b, 'a) port_act = "('b lockstep_port, host_error, 'a) act"

definition LP_RX_DEPTH :: int where "LP_RX_DEPTH = 4"
definition LP_TX_DEPTH :: int where "LP_TX_DEPTH = 4"
definition LP_WATCHDOG_US :: int where "LP_WATCHDOG_US = 2000000"

definition new_lockstep_port :: "'b \<Rightarrow> int option \<Rightarrow> 'b lockstep_port" where
  "new_lockstep_port backend watchdog = \<lparr>lp_backend = backend, lp_env = False, lp_count = 0,
     lp_watchdog_us = (case watchdog of None \<Rightarrow> LP_WATCHDOG_US | Some w \<Rightarrow> w), lp_window = 0,
     lp_sigma = 0, lp_d = 0, lp_results = [], lp_outstanding = 0, lp_last_stamp = None,
     lp_count_exact = True, lp_restarts = 0, lp_last_result = None, lp_forbidden = 0, lp_heap = []\<rparr>"

definition on_backend :: "('b, host_error, 'a) act \<Rightarrow> ('b, 'a) port_act" where
  "on_backend m = (\<lambda>p. case m (lp_backend p) of (r, b) \<Rightarrow> (r, p\<lparr>lp_backend := b\<rparr>))"

section \<open>Accounting\<close>

definition check_env :: "('b, unit) port_act" where
  "check_env = act_bind (act_get lp_env) (\<lambda>env.
     act_require (\<not> env)
       (HostError (''the lockstep port runs a free clock: software peers need ''
       @ ''host-supplied edges; attach real peripherals instead'')))"

text \<open>An operation with no entry in \<open>FIXED_FRAMES\<close> is a \<open>KeyError\<close>; the port puts none.\<close>

definition account :: "'b backend_ops \<Rightarrow> int \<Rightarrow> op_kind option \<Rightarrow> ('b, nat option) port_act" where
  "account be word kind = (case FIXED_FRAMES (word AND 0x1F) of
     None \<Rightarrow> act_raise (KeyError (word AND 0x1F))
   | Some fixed \<Rightarrow>
       act_bind (act_mod (\<lambda>p. p\<lparr>lp_sigma := lp_sigma p + 1 + fixed\<rparr>)) (\<lambda>_.
       case kind of None \<Rightarrow> act_return None
       | Some k \<Rightarrow>
           act_bind (act_mod (\<lambda>p. p\<lparr>lp_outstanding := lp_outstanding p + 1\<rparr>)) (\<lambda>_.
           act_bind (on_backend (be_ticks_us be)) (\<lambda>t.
           act_bind (act_get (\<lambda>p. length (lp_heap p))) (\<lambda>r.
           act_bind (act_mod (\<lambda>p. p\<lparr>lp_heap := lp_heap p @ [\<lparr>re_kind = k, re_sigma = lp_sigma p,
               re_put_ticks = t, re_value = None, re_get_ticks = None\<rparr>], lp_results := lp_results p @ [r]\<rparr>)) (\<lambda>_.
           act_return (Some r)))))))"

definition lp_recover :: "'b backend_ops \<Rightarrow> ('b, unit) port_act" where
  "lp_recover be = act_bind (on_backend (be_restart be)) (\<lambda>_.
     act_mod (\<lambda>p. p\<lparr>lp_restarts := lp_restarts p + 1, lp_count_exact := False, lp_results := [],
       lp_outstanding := 0, lp_window := 0, lp_d := 0, lp_sigma := 0, lp_last_stamp := None\<rparr>))"

definition lp_timeout :: "'b backend_ops \<Rightarrow> ('b, 'a) port_act" where
  "lp_timeout be = act_bind (lp_recover be) (\<lambda>_.
     act_bind (act_get lp_watchdog_us) (\<lambda>us.
     act_raise (HostTimeout (''lockstep port: nothing moved for '' @ decimal us
       @ '' us (a handshake that never completed); the state machine was restarted''))))"

text \<open>The count from a stamp: \<open>d24\<close> is the low 24 bits of the frames counted by \<open>Y\<close>.\<close>

definition stamp_bounds :: "'b backend_ops \<Rightarrow> int \<Rightarrow> int \<Rightarrow> int \<Rightarrow> int \<times> int \<times> int \<Rightarrow> int \<times> int" where
  "stamp_bounds be sigma put_t get_t prev = (case prev of (last_sigma, last_put, last_get) \<Rightarrow>
     let ops = sigma - last_sigma in
     ((be_ticks_diff be put_t last_get - 1) * be_frame_hz be div 1000000 - ops - 2,
      (be_ticks_diff be get_t last_put + 1) * be_frame_hz be div 1000000 - ops + 2))"

text \<open>\<open>while delta < low: delta += 2 ** 24\<close>.\<close>

function raise_delta :: "int \<Rightarrow> int \<Rightarrow> int" where
  "raise_delta delta low = (if delta < low then raise_delta (delta + shl 1 Y_BITS) low else delta)"
  by pat_completeness auto

termination raise_delta
  by (relation "measure (\<lambda>(delta, low). nat (low - delta))") (auto simp: Y_BITS_def)

declare raise_delta.simps [simp del]

definition stamp_delta :: "int \<Rightarrow> int \<Rightarrow> int" where
  "stamp_delta v d = (((- (v AND Y_MASK)) AND Y_MASK) - d) AND Y_MASK"

definition lp_stamp :: "'b backend_ops \<Rightarrow> result_entry \<Rightarrow> int \<Rightarrow> int \<Rightarrow> 'b lockstep_port \<Rightarrow> 'b lockstep_port" where
  "lp_stamp be e v get_t p0 =
     (let p = p0\<lparr>lp_last_result := Some v\<rparr>; delta0 = stamp_delta v (lp_d p);
          (delta, exact) = (case lp_last_stamp p of None \<Rightarrow> (delta0, lp_count_exact p)
             | Some prev \<Rightarrow>
                 let (low, high) = stamp_bounds be (re_sigma e) (re_put_ticks e) get_t prev
                 in (raise_delta delta0 low, lp_count_exact p \<and> \<not> high - low \<ge> shl 1 Y_BITS));
          d = lp_d p + delta
      in p\<lparr>lp_count_exact := exact, lp_d := d, lp_last_stamp := Some (re_sigma e, re_put_ticks e, get_t),
           lp_count := d + re_sigma e\<rparr>)"

definition pending :: "'b lockstep_port \<Rightarrow> nat \<Rightarrow> bool" where
  "pending p r \<longleftrightarrow> re_value (lp_heap p ! r) = None"

definition collect_one :: "'b backend_ops \<Rightarrow> ('b, nat) port_act" where
  "collect_one be =
     act_bind (act_get (\<lambda>p. find (pending p) (lp_results p))) (\<lambda>first. case first of
       None \<Rightarrow> act_raise (HostError ''no pending result'')
     | Some r \<Rightarrow>
         act_bind (act_get lp_watchdog_us) (\<lambda>us.
         act_bind (on_backend (be_get be us)) (\<lambda>got. case got of
           None \<Rightarrow> lp_timeout be
         | Some v \<Rightarrow>
             act_bind (act_mod (\<lambda>p. p\<lparr>lp_outstanding := lp_outstanding p - 1,
               lp_heap := (lp_heap p)[r := (lp_heap p ! r)\<lparr>re_value := Some v\<rparr>]\<rparr>)) (\<lambda>_.
             act_bind (on_backend (be_ticks_us be)) (\<lambda>t.
             act_bind (act_mod (\<lambda>p. p\<lparr>lp_heap := (lp_heap p)[r := (lp_heap p ! r)\<lparr>re_get_ticks := Some t\<rparr>]\<rparr>)) (\<lambda>_.
             act_bind (act_mod (\<lambda>p. if re_kind (lp_heap p ! r) = Stamp then lp_stamp be (lp_heap p ! r) v t p else p)) (\<lambda>_.
             act_return r)))))))"

text \<open>The two waiting loops. Every pass collects one pending entry, so the number of entries
  bounds the passes.\<close>

fun collect_down :: "'b backend_ops \<Rightarrow> nat \<Rightarrow> int \<Rightarrow> ('b, unit) port_act" where
  "collect_down be n results =
     act_bind (act_get (\<lambda>p. lp_outstanding p + results > LP_RX_DEPTH)) (\<lambda>more.
     if \<not> more then act_return ()
     else case n of 0 \<Rightarrow> act_return ()
       | Suc m \<Rightarrow> act_bind (collect_one be) (\<lambda>_. collect_down be m results))"

declare collect_down.simps [simp del]

definition make_room :: "'b backend_ops \<Rightarrow> int \<Rightarrow> ('b, unit) port_act" where
  "make_room be results = act_bind (act_get (\<lambda>p. nat (lp_outstanding p + results - LP_RX_DEPTH)))
     (\<lambda>n. collect_down be n results)"

fun collect_until :: "'b backend_ops \<Rightarrow> nat \<Rightarrow> nat \<Rightarrow> ('b, unit) port_act" where
  "collect_until be n r =
     act_bind (act_get (\<lambda>p. pending p r)) (\<lambda>more.
     if \<not> more then act_return ()
     else case n of 0 \<Rightarrow> act_return ()
       | Suc m \<Rightarrow> act_bind (collect_one be) (\<lambda>_. collect_until be m r))"

declare collect_until.simps [simp del]

text \<open>\<open>list.remove\<close> takes the first equal entry.\<close>

fun remove_equal :: "result_entry list \<Rightarrow> result_entry \<Rightarrow> nat list \<Rightarrow> nat list option" where
  "remove_equal heap e [] = None"
| "remove_equal heap e (r # rs) =
     (if heap ! r = e then Some rs else map_option ((#) r) (remove_equal heap e rs))"

definition lp_wait :: "'b backend_ops \<Rightarrow> nat \<Rightarrow> ('b, int) port_act" where
  "lp_wait be r =
     act_bind (act_get (\<lambda>p. Suc (length (lp_results p)))) (\<lambda>n.
     act_bind (collect_until be n r) (\<lambda>_.
     act_bind (act_get (\<lambda>p. remove_equal (lp_heap p) (lp_heap p ! r) (lp_results p))) (\<lambda>rest.
     act_bind (act_require (rest \<noteq> None) (ValueError ''list.remove(x): x not in list'')) (\<lambda>_.
     act_bind (act_mod (\<lambda>p. p\<lparr>lp_results := the rest\<rparr>)) (\<lambda>_.
     act_get (\<lambda>p. the (re_value (lp_heap p ! r))))))))"

section \<open>Submitting operations\<close>

type_synonym port_op = "int \<times> op_kind option \<times> bool"

text \<open>Words that are glued to the next one stay in one chunk; other boundaries are free.\<close>

fun add_chunk :: "port_op list list \<Rightarrow> port_op list \<Rightarrow> port_op list list" where
  "add_chunk chunks chunk =
     (if chunks \<noteq> [] \<and> int (length (last chunks) + length chunk) \<le> LP_TX_DEPTH
      then butlast chunks @ [last chunks @ chunk] else chunks @ [chunk])"

declare add_chunk.simps [simp del]

fun make_chunks :: "port_op list list \<Rightarrow> port_op list \<Rightarrow> port_op list \<Rightarrow> port_op list list" where
  "make_chunks chunks chunk [] = chunks"
| "make_chunks chunks chunk (op # ops) =
     (if \<not> snd (snd op) \<or> ops = [] then make_chunks (add_chunk chunks (chunk @ [op])) [] ops
      else make_chunks chunks (chunk @ [op]) ops)"

fun account_all :: "'b backend_ops \<Rightarrow> port_op list \<Rightarrow> ('b, nat option list) port_act" where
  "account_all be [] = act_return []"
| "account_all be ((word, kind, _) # ops) =
     act_bind (account be word kind) (\<lambda>e.
     act_bind (account_all be ops) (\<lambda>es. act_return (e # es)))"

definition chunk_results :: "port_op list \<Rightarrow> int" where
  "chunk_results chunk = int (length (filter (\<lambda>op. fst (snd op) \<noteq> None) chunk))"

definition submit_chunk :: "'b backend_ops \<Rightarrow> port_op list \<Rightarrow> ('b, nat option list) port_act" where
  "submit_chunk be chunk =
     act_bind (act_require (\<not> int (length chunk) > LP_TX_DEPTH)
       (HostError ''glued operations exceed the TX FIFO'')) (\<lambda>_.
     act_bind (make_room be (chunk_results chunk)) (\<lambda>_.
     act_bind (act_get lp_watchdog_us) (\<lambda>us.
     act_bind (on_backend (be_wait_tx_space be (int (length chunk)) us)) (\<lambda>space.
     act_bind (if space then act_return () else lp_timeout be) (\<lambda>_.
     act_bind (account_all be chunk) (\<lambda>entries.
     act_bind (on_backend (if length chunk = 1 then be_put be (fst (hd chunk)) else be_put_many be (map fst chunk))) (\<lambda>_.
     act_return entries)))))))"

fun submit_chunks :: "'b backend_ops \<Rightarrow> port_op list list \<Rightarrow> ('b, nat option list) port_act" where
  "submit_chunks be [] = act_return []"
| "submit_chunks be (c # cs) =
     act_bind (submit_chunk be c) (\<lambda>es.
     act_bind (submit_chunks be cs) (\<lambda>fs. act_return (es @ fs)))"

definition submit :: "'b backend_ops \<Rightarrow> port_op list \<Rightarrow> ('b, nat option list) port_act" where
  "submit be ops = submit_chunks be (make_chunks [] [] ops)"

definition dispatch :: "'b backend_ops \<Rightarrow> int \<Rightarrow> op_kind option \<Rightarrow> ('b, nat option) port_act" where
  "dispatch be word kind = act_bind (submit be [(word, kind, False)]) (\<lambda>es. act_return (hd es))"

definition lp_sample :: "'b backend_ops \<Rightarrow> int \<Rightarrow> int \<Rightarrow> int \<Rightarrow> int" where
  "lp_sample be ui window v =
     (let uo = shr v 24 AND be_uo_visible be in if shr ui 6 \<noteq> window then uo AND 0xC0 else uo)"

section \<open>The port interface\<close>

definition lp_cycle :: "'b backend_ops \<Rightarrow> int \<Rightarrow> ('b, int) port_act" where
  "lp_cycle be ui =
     act_bind check_env (\<lambda>_.
     act_bind (act_get lp_window) (\<lambda>window.
     act_bind (dispatch be (op_cycle ui) (Some Stamp)) (\<lambda>entry.
     act_bind (act_mod (\<lambda>p. p\<lparr>lp_window := shr ui 6\<rparr>)) (\<lambda>_.
     act_bind (lp_wait be (the entry)) (\<lambda>v. act_return (lp_sample be ui window v))))))"

datatype run_kind = Cyc | Rd | Wr | Unknown_kind

fun run_words :: "int \<Rightarrow> (run_kind \<times> int) list \<Rightarrow> host_error + (port_op \<times> int \<times> int) list \<times> int" where
  "run_words window [] = Inr ([], window)"
| "run_words window ((kind, ui) # ops) =
     (let new = shr ui 6 in
      and_then (case kind of
          Cyc \<Rightarrow> Inr (op_cycle ui, Some Stamp, False)
        | Rd \<Rightarrow> Inr (if new = window then op_read ui else op_read_bubble ui, Some Data, False)
        | Wr \<Rightarrow> if new \<noteq> window then Inl (HostError ''wr operation must not change the window'')
               else Inr (op_write ui, None, False)
        | Unknown_kind \<Rightarrow> Inl (ValueError ''unknown operation'')) (\<lambda>op.
      and_then (run_words new ops) (\<lambda>(rest, final). Inr ((op, ui, window) # rest, final))))"

text \<open>A sample stays next to the transfer it brackets.\<close>

definition glued :: "run_kind \<Rightarrow> run_kind \<Rightarrow> bool" where
  "glued a b \<longleftrightarrow> (a, b) \<in> {(Cyc, Wr), (Wr, Cyc), (Rd, Cyc)}"

fun glue_words :: "run_kind list \<Rightarrow> port_op list \<Rightarrow> port_op list" where
  "glue_words (a # b # ks) ((w, k, g) # ops) = (w, k, g \<or> glued a b) # glue_words (b # ks) ops"
| "glue_words ks ops = ops"

fun gather :: "'b backend_ops \<Rightarrow> ((int \<times> int) \<times> nat option) list \<Rightarrow> ('b, int list) port_act" where
  "gather be [] = act_return []"
| "gather be (((ui, before), None) # es) = gather be es"
| "gather be (((ui, before), Some r) # es) =
     act_bind (lp_wait be r) (\<lambda>v.
     act_bind (act_get (\<lambda>p. re_kind (lp_heap p ! r))) (\<lambda>k.
     act_bind (gather be es) (\<lambda>out.
     act_return ((if k = Stamp then lp_sample be ui before v else v) # out))))"

definition run_ops :: "'b backend_ops \<Rightarrow> (run_kind \<times> int) list \<Rightarrow> ('b, int list) port_act" where
  "run_ops be ops =
     act_bind check_env (\<lambda>_.
     act_bind (act_get lp_window) (\<lambda>window.
     act_bind (act_lift (run_words window ops)) (\<lambda>(words, final).
     act_bind (act_mod (\<lambda>p. p\<lparr>lp_window := final\<rparr>)) (\<lambda>_.
     act_bind (submit be (glue_words (map fst ops) (map fst words))) (\<lambda>entries.
     gather be (zip (map snd words) entries))))))"

definition lp_halt :: "'b backend_ops \<Rightarrow> ('b, nat) port_act" where
  "lp_halt be =
     act_bind (dispatch be OP_HALT (Some Stamp)) (\<lambda>entry.
     act_bind (act_get lp_watchdog_us) (\<lambda>us.
     act_bind (on_backend (be_wait_halted be us)) (\<lambda>ok.
     if ok then act_return (the entry) else lp_timeout be)))"

definition lp_release_halt :: "'b backend_ops \<Rightarrow> nat \<Rightarrow> ('b, unit) port_act" where
  "lp_release_halt be entry = act_bind (on_backend (be_put be 0)) (\<lambda>_.
     act_bind (lp_wait be entry) (\<lambda>_. act_return ()))"

definition halted_change :: "'b backend_ops \<Rightarrow> ('b, host_error, unit) act \<Rightarrow> ('b, unit) port_act" where
  "halted_change be change = act_bind (lp_halt be) (\<lambda>entry.
     act_bind (on_backend change) (\<lambda>_. lp_release_halt be entry))"

definition halted_span ::
  "'b backend_ops \<Rightarrow> ('b, host_error, unit) act \<Rightarrow> ('b, host_error, unit) act \<Rightarrow> int \<Rightarrow> ('b, unit) port_act" where
  "halted_span be change restore cycles =
     act_bind (halted_change be change) (\<lambda>_.
     act_bind (run_ops be (replicate (nat (max 1 cycles)) (Cyc, 0))) (\<lambda>_.
     act_bind (halted_change be restore) (\<lambda>_.
     act_mod (\<lambda>p. p\<lparr>lp_window := 0\<rparr>))))"

definition lp_reset :: "'b backend_ops \<Rightarrow> int \<Rightarrow> ('b, unit) port_act" where
  "lp_reset be cycles = halted_span be (be_set_reset be True) (be_set_reset be False) cycles"

definition lp_deselect :: "'b backend_ops \<Rightarrow> int \<Rightarrow> ('b, unit) port_act" where
  "lp_deselect be cycles =
     (if be_has_ena be then halted_span be (be_set_ena be 0) (be_set_ena be 1) cycles
      else act_raise (HostError ''port pio_lockstep cannot drive ena (deselection)''))"

text \<open>Every cycle adds at least two frames, so the frames asked for bound the passes.\<close>

fun frames_loop :: "'b backend_ops \<Rightarrow> nat \<Rightarrow> int \<Rightarrow> int \<Rightarrow> int \<Rightarrow> ('b, int) port_act" where
  "frames_loop be n ui stop uo =
     act_bind (act_get (\<lambda>p. stop - lp_count p)) (\<lambda>remaining.
     if remaining \<le> 0 then act_return uo
     else case n of 0 \<Rightarrow> act_return uo
       | Suc m \<Rightarrow>
           act_bind (if remaining > 8
             then on_backend (be_sleep_us be (remaining * 1000000 div be_frame_hz be)) else act_return ()) (\<lambda>_.
           act_bind (lp_cycle be ui) (\<lambda>u. frames_loop be m ui stop u)))"

declare frames_loop.simps [simp del]

definition wait_frames :: "'b backend_ops \<Rightarrow> int \<Rightarrow> int option \<Rightarrow> ('b, int) port_act" where
  "wait_frames be frames ui0 =
     act_bind (act_get (\<lambda>p. case ui0 of None \<Rightarrow> shl (lp_window p) 6 | Some u \<Rightarrow> u)) (\<lambda>ui.
     act_bind (lp_cycle be ui) (\<lambda>uo.
     act_bind (act_get (\<lambda>p. lp_count p + frames)) (\<lambda>stop.
     frames_loop be (nat frames) ui stop uo)))"

definition lp_free_run :: "'b backend_ops \<Rightarrow> int \<Rightarrow> int \<Rightarrow> ('b, unit) port_act" where
  "lp_free_run be cycles freq_hz = act_bind (wait_frames be cycles (Some 0)) (\<lambda>_. act_return ())"

definition lp_release :: "'b backend_ops \<Rightarrow> ('b, unit) port_act" where
  "lp_release be = on_backend (be_release be)"

text \<open>The port object that the host library gets.\<close>

definition lockstep_ops :: "'b backend_ops \<Rightarrow> 'b lockstep_port port_ops" where
  "lockstep_ops be =
     \<lparr>po_cycle = lp_cycle be, po_reset = lp_reset be, po_deselect = lp_deselect be,
      po_free_run = lp_free_run be, po_uo_visible = (\<lambda>_. be_uo_visible be), po_count = lp_count,
      po_forbidden = lp_forbidden, po_set_forbidden = (\<lambda>m p. p\<lparr>lp_forbidden := m\<rparr>)\<rparr>"

end
