(* ===== verification/Lockstep_Port_Props.thy ===== *)
theory Lockstep_Port_Props
  imports Lockstep_Port Complex_Main
begin

text \<open>
  The port's order and its count. Operations reach the backend in order, in chunks that fit the
  TX FIFO, with at most four results outstanding; results come back in the order of their
  operations; and the count of clock edges is exact as long as the port says so.
\<close>

section \<open>Chunks\<close>

abbreviation op_glue :: "port_op \<Rightarrow> bool" where "op_glue op \<equiv> snd (snd op)"

text \<open>The groups that must stay together.\<close>

fun groups :: "port_op list \<Rightarrow> port_op list \<Rightarrow> port_op list list" where
  "groups chunk [] = []"
| "groups chunk (op # ops) =
     (if \<not> op_glue op \<or> ops = [] then (chunk @ [op]) # groups [] ops else groups (chunk @ [op]) ops)"

lemma add_chunk_Nil: "add_chunk [] chunk = [chunk]"
  by (simp add: add_chunk.simps)

lemma add_chunk_snoc:
  "add_chunk (cs @ [d]) chunk =
     (if length d + length chunk \<le> 4 then cs @ [d @ chunk] else cs @ [d, chunk])"
  by (auto simp: add_chunk.simps LP_TX_DEPTH_def)

lemma concat_add_chunk: "concat (add_chunk chunks chunk) = concat chunks @ chunk"
  by (cases chunks rule: rev_cases) (simp_all add: add_chunk_Nil add_chunk_snoc)

lemma concat_make_chunks:
  "ops \<noteq> [] \<Longrightarrow> concat (make_chunks chunks chunk ops) = concat chunks @ chunk @ ops"
proof (induction chunks chunk ops rule: make_chunks.induct)
  case (2 chunks chunk op ops)
  then show ?case by (cases "ops = []") (auto simp: concat_add_chunk)
qed simp

lemma chunks_concat: "concat (make_chunks [] [] ops) = ops"
  by (cases ops) (use concat_make_chunks [of ops "[]" "[]"] in auto)

lemma add_chunk_short:
  "\<forall>c \<in> set chunks. length c \<le> 4 \<Longrightarrow> length chunk \<le> 4 \<Longrightarrow> \<forall>c \<in> set (add_chunk chunks chunk). length c \<le> 4"
  by (cases chunks rule: rev_cases) (simp_all add: add_chunk_Nil add_chunk_snoc ball_Un)

lemma make_chunks_short:
  "\<forall>c \<in> set chunks. length c \<le> 4 \<Longrightarrow> \<forall>g \<in> set (groups chunk ops). length g \<le> 4 \<Longrightarrow>
   \<forall>c \<in> set (make_chunks chunks chunk ops). length c \<le> 4"
  proof (induction chunks chunk ops rule: make_chunks.induct)
  case (2 chunks chunk op ops)
  show ?case
  proof (cases "\<not> op_glue op \<or> ops = []")
    case True
    then have l: "length (chunk @ [op]) \<le> 4" "\<forall>g \<in> set (groups [] ops). length g \<le> 4"
      using 2(4) by simp_all
    show ?thesis using 2(1) [OF True add_chunk_short [OF 2(3) l(1)] l(2)] True
      by (simp only: make_chunks.simps if_True)
  next
    case False
    then show ?thesis using 2(2) [OF False 2(3)] 2(4) by (simp only: make_chunks.simps groups.simps if_False simp_thms)
  qed
qed (simp only: make_chunks.simps)

text \<open>Only the last chunk may end with a glued word.\<close>

definition chunk_ends :: "port_op list list \<Rightarrow> bool" where
  "chunk_ends chunks \<longleftrightarrow> (\<forall>c \<in> set chunks. c \<noteq> []) \<and> (\<forall>c \<in> set (butlast chunks). \<not> op_glue (last c))"

lemma add_chunk_ends:
  assumes "chunk_ends chunks" "chunks \<noteq> [] \<Longrightarrow> \<not> op_glue (last (last chunks))" "chunk \<noteq> []"
  shows "chunk_ends (add_chunk chunks chunk)" "last (last (add_chunk chunks chunk)) = last chunk"
    "add_chunk chunks chunk \<noteq> []"
  using assms
  by (cases chunks rule: rev_cases; auto simp: add_chunk_Nil add_chunk_snoc chunk_ends_def butlast_append)+

lemma make_chunks_ends:
  "chunk_ends chunks \<Longrightarrow> (chunks \<noteq> [] \<Longrightarrow> \<not> op_glue (last (last chunks))) \<Longrightarrow>
   chunk_ends (make_chunks chunks chunk ops)"
proof (induction chunks chunk ops rule: make_chunks.induct)
  case (2 chunks chunk op ops)
  note a = add_chunk_ends [OF 2(3,4), of "chunk @ [op]"]
  show ?case
  proof (cases "\<not> op_glue op \<or> ops = []")
    case True
    show ?thesis
    proof (cases "ops = []")
      case True
      then show ?thesis using a(1) by simp
    next
      case False
      with True have "\<not> op_glue op" by simp
      then show ?thesis using 2(1) [OF \<open>\<not> op_glue op \<or> ops = []\<close>] a True by simp
    qed
  next
    case False
    then show ?thesis using 2(2) [OF False 2(3,4)] by simp
  qed
qed simp

section \<open>A backend with a log\<close>

text \<open>What reaches the FIFOs: the words of a put, and every word a get returns.\<close>

datatype port_event = Put "int list" | Got int

definition lift_log :: "('b, host_error, 'a) act \<Rightarrow> ('b \<times> port_event list, host_error, 'a) act" where
  "lift_log m = (\<lambda>(b, l). case m b of (r, b') \<Rightarrow> (r, b', l))"

definition log_on :: "('a \<Rightarrow> port_event list) \<Rightarrow> ('b, host_error, 'a) act
    \<Rightarrow> ('b \<times> port_event list, host_error, 'a) act" where
  "log_on f m = (\<lambda>(b, l). case m b of (Inr a, b') \<Rightarrow> (Inr a, b', l @ f a) | (Inl e, b') \<Rightarrow> (Inl e, b', l))"

definition log_got :: "int option \<Rightarrow> port_event list" where
  "log_got v = (case v of None \<Rightarrow> [] | Some w \<Rightarrow> [Got w])"

definition logged :: "'b backend_ops \<Rightarrow> ('b \<times> port_event list) backend_ops" where
  "logged be = \<lparr>be_put = (\<lambda>w. log_on (\<lambda>_. [Put [w]]) (be_put be w)),
     be_put_many = (\<lambda>ws. log_on (\<lambda>_. [Put ws]) (be_put_many be ws)),
     be_wait_tx_space = (\<lambda>n us. lift_log (be_wait_tx_space be n us)),
     be_get = (\<lambda>us. log_on log_got (be_get be us)),
     be_wait_halted = (\<lambda>us. lift_log (be_wait_halted be us)), be_restart = lift_log (be_restart be),
     be_set_reset = (\<lambda>v. lift_log (be_set_reset be v)), be_set_ena = (\<lambda>v. lift_log (be_set_ena be v)),
     be_has_ena = be_has_ena be, be_ticks_us = lift_log (be_ticks_us be),
     be_ticks_diff = be_ticks_diff be, be_sleep_us = (\<lambda>us. lift_log (be_sleep_us be us)),
     be_release = lift_log (be_release be), be_uo_visible = be_uo_visible be,
     be_frame_hz = be_frame_hz be\<rparr>"

text \<open>Result words taken out never exceed those put in, and no more than the RX FIFO holds are
  outstanding. A WR word has no result.\<close>

definition results_of :: "int list \<Rightarrow> int" where
  "results_of ws = int (length (filter (\<lambda>w. w AND 0x1F \<noteq> ADDR_WR) ws))"

fun rx_level :: "int \<Rightarrow> port_event list \<Rightarrow> int" where
  "rx_level n [] = n"
| "rx_level n (Put ws # es) = rx_level (n + results_of ws) es"
| "rx_level n (Got v # es) = rx_level (n - 1) es"

fun rx_safe :: "int \<Rightarrow> port_event list \<Rightarrow> bool" where
  "rx_safe n [] \<longleftrightarrow> True"
| "rx_safe n (Put ws # es) \<longleftrightarrow> n + results_of ws \<le> 4 \<and> rx_safe (n + results_of ws) es"
| "rx_safe n (Got v # es) \<longleftrightarrow> 1 \<le> n \<and> rx_safe (n - 1) es"

fun puts_of :: "port_event list \<Rightarrow> int list list" where
  "puts_of [] = []"
| "puts_of (Put ws # es) = ws # puts_of es"
| "puts_of (Got v # es) = puts_of es"

fun gots_of :: "port_event list \<Rightarrow> int list" where
  "gots_of [] = []"
| "gots_of (Put ws # es) = gots_of es"
| "gots_of (Got v # es) = v # gots_of es"

lemma rx_level_append: "rx_level n (a @ b) = rx_level (rx_level n a) b"
  by (induction n a rule: rx_level.induct) simp_all

lemma rx_safe_append: "rx_safe n (a @ b) \<longleftrightarrow> rx_safe n a \<and> rx_safe (rx_level n a) b"
  by (induction n a rule: rx_level.induct) simp_all

lemma puts_gots_append: "puts_of (a @ b) = puts_of a @ puts_of b" "gots_of (a @ b) = gots_of a @ gots_of b"
  by (induction a rule: puts_of.induct) simp_all

definition traced :: "port_event list \<Rightarrow> port_event list \<Rightarrow> int list \<Rightarrow> int list \<Rightarrow> int \<Rightarrow> bool" where
  "traced l0 l ws vs n \<longleftrightarrow> (\<exists>evs. l = l0 @ evs \<and> concat (puts_of evs) = ws \<and> gots_of evs = vs \<and>
     (\<forall>c \<in> set (puts_of evs). length c \<le> 4) \<and> rx_safe 0 evs \<and> rx_level 0 evs = n)"

lemma traced_put:
  assumes "traced l0 l ws vs n" "n + results_of c \<le> 4" "length c \<le> 4"
  shows "traced l0 (l @ [Put c]) (ws @ c) vs (n + results_of c)"
proof -
  obtain evs where "l = l0 @ evs" "concat (puts_of evs) = ws" "gots_of evs = vs"
    "\<forall>c \<in> set (puts_of evs). length c \<le> 4" "rx_safe 0 evs" "rx_level 0 evs = n"
    using assms(1) unfolding traced_def by blast
  then show ?thesis unfolding traced_def using assms(2,3)
    by (intro exI [of _ "evs @ [Put c]"]) (simp add: puts_gots_append rx_safe_append rx_level_append ball_Un)
qed

lemma traced_got:
  assumes "traced l0 l ws vs n" "1 \<le> n"
  shows "traced l0 (l @ [Got v]) ws (vs @ [v]) (n - 1)"
proof -
  obtain evs where "l = l0 @ evs" "concat (puts_of evs) = ws" "gots_of evs = vs"
    "\<forall>c \<in> set (puts_of evs). length c \<le> 4" "rx_safe 0 evs" "rx_level 0 evs = n"
    using assms(1) unfolding traced_def by blast
  then show ?thesis unfolding traced_def using assms(2)
    by (intro exI [of _ "evs @ [Got v]"]) (simp add: puts_gots_append rx_safe_append rx_level_append)
qed

text \<open>What the port relies on: a backend that keeps a log of its puts and gets.\<close>

locale logging_backend =
  fixes be :: "'b backend_ops" and log :: "'b \<Rightarrow> port_event list"
  assumes put_log: "be_put be w b = (Inr u, b') \<Longrightarrow> log b' = log b @ [Put [w]]"
    and put_many_log: "be_put_many be ws b = (Inr u, b') \<Longrightarrow> log b' = log b @ [Put ws]"
    and get_log: "be_get be us b = (Inr v, b') \<Longrightarrow> log b' = log b @ log_got v"
    and ticks_log: "be_ticks_us be b = (r, b') \<Longrightarrow> log b' = log b"
    and space_log: "be_wait_tx_space be n us b = (q, b') \<Longrightarrow> log b' = log b"

lemma lift_log_keeps: "lift_log m b = (r, b') \<Longrightarrow> snd b' = snd b"
  by (auto simp: lift_log_def split: prod.splits)

lemma log_on_logs: "log_on f m b = (Inr a, b') \<Longrightarrow> snd b' = snd b @ f a"
  by (auto simp: log_on_def split: prod.splits sum.splits)

interpretation logs: logging_backend "logged be" snd for be :: "'b backend_ops"
  by unfold_locales (auto simp: logged_def dest: lift_log_keeps log_on_logs)

section \<open>The result queue\<close>

definition fifo :: "nat \<Rightarrow> 'b lockstep_port \<Rightarrow> op_kind list \<Rightarrow> int list \<Rightarrow> nat \<Rightarrow> bool" where
  "fifo h p es vs j \<longleftrightarrow> length (lp_heap p) = h + length es \<and>
     (\<forall>k < length es. re_kind (lp_heap p ! (h + k)) = es ! k \<and>
        re_value (lp_heap p ! (h + k)) = (if k < length vs then Some (vs ! k) else None)) \<and>
     lp_results p = [h + j..<h + length es] \<and> j \<le> length vs \<and> length vs \<le> length es \<and>
     lp_outstanding p = int (length es) - int (length vs)"

lemma fifo_first:
  assumes "fifo h p es vs j" "length vs < length es"
  shows "find (pending p) (lp_results p) = Some (h + length vs)"
proof -
  have k: "\<And>k. k < length es \<Longrightarrow> pending p (h + k) \<longleftrightarrow> \<not> k < length vs"
    using assms(1) by (simp add: fifo_def pending_def)
  have "\<forall>i < length vs - j. \<not> pending p (h + j + i)"
  proof (intro allI impI)
    fix i assume "i < length vs - j"
    then show "\<not> pending p (h + j + i)" using k [of "j + i"] assms by (simp add: fifo_def add.assoc)
  qed
  then show ?thesis
    using assms k [of "length vs"] unfolding find_Some_iff fifo_def
    by (intro exI [of _ "length vs - j"]) auto
qed

lemma fifo_empty:
  assumes "fifo h p es vs j" "\<not> length vs < length es"
  shows "find (pending p) (lp_results p) = None"
proof -
  have "\<And>k. k < length es \<Longrightarrow> \<not> pending p (h + k)"
    using assms by (simp add: fifo_def pending_def)
  then show ?thesis using assms
    unfolding find_None_iff fifo_def by (metis atLeastLessThan_iff le_Suc_ex nat_add_left_cancel_less add_leD1 set_upt)
qed

lemma fifo_collect:
  assumes "fifo h p es vs j" "length vs < length es" "lp_heap p' = (lp_heap p)[h + length vs := e]"
    "re_kind e = es ! length vs" "re_value e = Some v" "lp_results p' = lp_results p"
    "lp_outstanding p' = lp_outstanding p - 1"
  shows "fifo h p' es (vs @ [v]) j"
  using assms unfolding fifo_def by (auto simp: nth_list_update nth_append less_Suc_eq)

lemma fifo_account:
  assumes "fifo h p es vs j" "lp_heap p' = lp_heap p @ [e]" "re_kind e = k" "re_value e = None"
    "lp_results p' = lp_results p @ [length (lp_heap p)]" "lp_outstanding p' = lp_outstanding p + 1"
  shows "fifo h p' (es @ [k]) vs j"
proof -
  have n: "length (lp_heap p) = h + length es" "j \<le> length es" using assms(1) by (simp_all add: fifo_def)
  have "\<forall>q < length (es @ [k]). re_kind (lp_heap p' ! (h + q)) = (es @ [k]) ! q \<and>
      re_value (lp_heap p' ! (h + q)) = (if q < length vs then Some (vs ! q) else None)"
    using assms n by (auto simp: fifo_def nth_append less_Suc_eq)
  then show ?thesis using assms n unfolding fifo_def by simp
qed

lemma fifo_same:
  assumes "fifo h p es vs j" "lp_heap p' = lp_heap p" "lp_results p' = lp_results p"
    "lp_outstanding p' = lp_outstanding p"
  shows "fifo h p' es vs j"
  using assms by (simp add: fifo_def)

lemma fifo_wait:
  assumes "fifo h p es vs j" "j < length vs"
  shows "remove_equal (lp_heap p) (lp_heap p ! (h + j)) (lp_results p) = Some [h + Suc j..<h + length es]"
    "re_value (lp_heap p ! (h + j)) = Some (vs ! j)" "re_kind (lp_heap p ! (h + j)) = es ! j"
    "fifo h (p\<lparr>lp_results := [h + Suc j..<h + length es]\<rparr>) es vs (Suc j)"
proof -
  have r: "lp_results p = (h + j) # [h + Suc j..<h + length es]"
    using assms by (simp add: fifo_def upt_rec)
  show "remove_equal (lp_heap p) (lp_heap p ! (h + j)) (lp_results p) = Some [h + Suc j..<h + length es]"
    by (simp add: r)
qed (use assms in \<open>simp_all add: fifo_def\<close>)

lemma lp_stamp_frame [simp]:
  "lp_heap (lp_stamp be e v t p) = lp_heap p" "lp_results (lp_stamp be e v t p) = lp_results p"
  "lp_outstanding (lp_stamp be e v t p) = lp_outstanding p" "lp_backend (lp_stamp be e v t p) = lp_backend p"
  by (simp_all add: lp_stamp_def Let_def split: option.splits prod.splits)

lemma post_backend:
  "(\<And>a b. m (lp_backend p) = (Inr a, b) \<Longrightarrow> Q a (p\<lparr>lp_backend := b\<rparr>)) \<Longrightarrow> ok_post Q (on_backend m p)"
  by (cases "m (lp_backend p)") (auto simp: on_backend_def act_post_def split: sum.splits)

lemma ok_backend:
  assumes "\<And>a b. m (lp_backend p) = (Inr a, b) \<Longrightarrow> ok_post Q (f a (p\<lparr>lp_backend := b\<rparr>))"
  shows "ok_post Q (act_bind (on_backend m) f p)"
  by (rule act_post_seq [OF post_backend [where Q = "\<lambda>a p'. ok_post Q (f a p')"]]) (rule assms, assumption+)

lemma lp_timeout_raises: "ok_post Q (lp_timeout be p)"
  by (auto simp: lp_timeout_def act_post_def act_bind_def split: sum.splits prod.splits)

section \<open>Operations in order\<close>

text \<open>The kinds of the results of a list of operations, and the entries they get.\<close>

fun op_kinds :: "port_op list \<Rightarrow> op_kind list" where
  "op_kinds [] = []"
| "op_kinds ((w, None, g) # ops) = op_kinds ops"
| "op_kinds ((w, Some k, g) # ops) = k # op_kinds ops"

fun op_entries :: "nat \<Rightarrow> port_op list \<Rightarrow> nat option list" where
  "op_entries r [] = []"
| "op_entries r ((w, None, g) # ops) = None # op_entries r ops"
| "op_entries r ((w, Some k, g) # ops) = Some r # op_entries (Suc r) ops"

definition kinded :: "port_op \<Rightarrow> bool" where
  "kinded op \<longleftrightarrow> (fst (snd op) = None \<longleftrightarrow> fst op AND 0x1F = ADDR_WR)"

lemma op_kinds_append: "op_kinds (a @ b) = op_kinds a @ op_kinds b"
  by (induction a rule: op_kinds.induct) simp_all

lemma op_entries_append: "op_entries r (a @ b) = op_entries r a @ op_entries (r + length (op_kinds a)) b"
  by (induction r a rule: op_entries.induct) simp_all

lemma op_kinds_results: "chunk_results chunk = int (length (op_kinds chunk))"
  by (induction chunk rule: op_kinds.induct) (simp_all add: chunk_results_def)

lemma kinded_results: "\<forall>op \<in> set chunk. kinded op \<Longrightarrow> results_of (map fst chunk) = int (length (op_kinds chunk))"
  by (induction chunk rule: op_kinds.induct) (simp_all add: results_of_def kinded_def)

text \<open>The answers to a list of operations, from the words of the RX FIFO in order.\<close>

fun answers :: "'b backend_ops \<Rightarrow> ((int \<times> int) \<times> op_kind option) list \<Rightarrow> int list \<Rightarrow> int list" where
  "answers be [] vs = []"
| "answers be ((m, None) # ms) vs = answers be ms vs"
| "answers be (((ui, before), Some k) # ms) (v # vs) =
     (if k = Stamp then lp_sample be ui before v else v) # answers be ms vs"
| "answers be (((ui, before), Some k) # ms) [] = []"

lemma drop_nth_append: "j < length a \<Longrightarrow> drop j (a @ b) = a ! j # drop (Suc j) (a @ b)"
  using Cons_nth_drop_Suc [of j "a @ b"] by (simp add: nth_append)

lemma glue_words_same:
  "map fst (glue_words ks ops) = map fst ops" "map (fst \<circ> snd) (glue_words ks ops) = map (fst \<circ> snd) ops"
  "length (glue_words ks ops) = length ops"
  "(\<forall>op \<in> set (glue_words ks ops). kinded op) \<longleftrightarrow> (\<forall>op \<in> set ops. kinded op)"
  by (induction ks ops rule: glue_words.induct) (simp_all add: kinded_def)

lemma check_env_run: "\<not> lp_env p \<Longrightarrow> act_bind check_env f p = f () p"
  by (simp add: check_env_def act_bind_assoc)

lemma check_env_raises: "lp_env p \<Longrightarrow> ok_post Q (act_bind check_env f p)"
  by (simp add: check_env_def act_bind_assoc)

context logging_backend
begin

definition port_ok :: "port_event list \<Rightarrow> nat \<Rightarrow> 'b lockstep_port \<Rightarrow> op_kind list \<Rightarrow> int list \<Rightarrow> int list \<Rightarrow> nat \<Rightarrow> bool" where
  "port_ok l0 h p es ws vs j \<longleftrightarrow>
     fifo h p es vs j \<and> traced l0 (log (lp_backend p)) ws vs (lp_outstanding p)"

lemma collect_one_ok:
  assumes "port_ok l0 h p es ws vs j"
  shows "ok_post (\<lambda>r p'. length vs < length es \<and> (\<exists>v. port_ok l0 h p' es ws (vs @ [v]) j)) (collect_one be p)"
proof (cases "length vs < length es")
  case False
  have "fifo h p es vs j" using assms by (simp add: port_ok_def)
  from fifo_empty [OF this False] show ?thesis by (simp add: collect_one_def)
next
  case True
  have fi: "fifo h p es vs j" and tr: "traced l0 (log (lp_backend p)) ws vs (lp_outstanding p)"
    using assms by (simp_all add: port_ok_def)
  let ?r = "h + length vs"
  have n: "?r < length (lp_heap p)" "re_kind (lp_heap p ! ?r) = es ! length vs"
    "1 \<le> lp_outstanding p" using fi True by (simp_all add: fifo_def)
  have fin: "port_ok l0 h p' es ws (vs @ [v]) j"
    if "lp_heap p' = (lp_heap p)[?r := (lp_heap p ! ?r)\<lparr>re_value := Some v, re_get_ticks := Some t\<rparr>]"
      "lp_results p' = lp_results p" "lp_outstanding p' = lp_outstanding p - 1"
      "log (lp_backend p') = log (lp_backend p) @ [Got v]" for p' v t
    using fifo_collect [OF fi True that(1) _ _ that(2,3), of v] traced_got [OF tr n(3), of v] n(2) that(3,4)
    by (simp add: port_ok_def)
  show ?thesis
    unfolding collect_one_def
  proof (simp add: fifo_first [OF fi True], rule ok_backend)
    fix got b
    assume g: "be_get be (lp_watchdog_us p) (lp_backend p) = (Inr got, b)"
    show "ok_post (\<lambda>r p'. length vs < length es \<and> (\<exists>v. port_ok l0 h p' es ws (vs @ [v]) j))
       ((case got of None \<Rightarrow> lp_timeout be
         | Some v \<Rightarrow>
             act_bind (act_mod (\<lambda>p. p\<lparr>lp_outstanding := lp_outstanding p - 1,
               lp_heap := (lp_heap p)[?r := (lp_heap p ! ?r)\<lparr>re_value := Some v\<rparr>]\<rparr>)) (\<lambda>_.
             act_bind (on_backend (be_ticks_us be)) (\<lambda>t.
             act_bind (act_mod (\<lambda>p. p\<lparr>lp_heap := (lp_heap p)[?r := (lp_heap p ! ?r)\<lparr>re_get_ticks := Some t\<rparr>]\<rparr>)) (\<lambda>_.
             act_bind (act_mod (\<lambda>p. if re_kind (lp_heap p ! ?r) = Stamp then lp_stamp be (lp_heap p ! ?r) v t p else p)) (\<lambda>_.
             act_return ?r))))) (p\<lparr>lp_backend := b\<rparr>))"
    proof (cases got)
      case None
      then show ?thesis by (simp add: lp_timeout_raises)
    next
      case (Some v)
      show ?thesis
      proof (simp add: Some, rule ok_backend, simp add: n, intro conjI impI exI [of _ v])
        fix t b'
        assume t: "be_ticks_us be b = (Inr t, b')"
        have l: "log b' = log (lp_backend p) @ [Got v]"
          using get_log [OF g] ticks_log [OF t] by (simp add: Some log_got_def)
        note ready_now = fin [where t = t and v = v]
        show "length vs < length es" "length vs < length es" by (rule True)+
        show "port_ok l0 h (lp_stamp be ((lp_heap p ! ?r)\<lparr>re_value := Some v, re_get_ticks := Some t\<rparr>) v t
          (p\<lparr>lp_outstanding := lp_outstanding p - 1, lp_backend := b', lp_heap := (lp_heap p)[?r :=
             (lp_heap p ! ?r)\<lparr>re_value := Some v, re_get_ticks := Some t\<rparr>]\<rparr>)) es ws (vs @ [v]) j"
          by (rule ready_now) (simp_all add: l)
        show "port_ok l0 h (p\<lparr>lp_outstanding := lp_outstanding p - 1, lp_backend := b', lp_heap := (lp_heap p)[?r :=
             (lp_heap p ! ?r)\<lparr>re_value := Some v, re_get_ticks := Some t\<rparr>]\<rparr>) es ws (vs @ [v]) j"
          by (rule ready_now) (simp_all add: l)
      qed
    qed
  qed
qed

lemma collect_down_ok:
  "port_ok l0 h p es ws vs j \<Longrightarrow> nat (lp_outstanding p + k - 4) \<le> n \<Longrightarrow>
   ok_post (\<lambda>_ p'. lp_outstanding p' + k \<le> 4 \<and> (\<exists>vs'. port_ok l0 h p' es ws (vs @ vs') j)) (collect_down be n k p)"
proof (induction n arbitrary: p vs)
  case 0
  then show ?case by (auto simp: collect_down.simps [of be 0] LP_RX_DEPTH_def intro!: exI [of _ "[]"])
next
  case (Suc n)
  show ?case
  proof (cases "lp_outstanding p + k > 4")
    case False
    then show ?thesis using Suc.prems
      by (auto simp: collect_down.simps [of be "Suc n"] LP_RX_DEPTH_def intro!: exI [of _ "[]"])
  next
    case True
    have o: "lp_outstanding p = int (length es) - int (length vs)"
      using Suc.prems(1) by (simp add: port_ok_def fifo_def)
    show ?thesis
      unfolding collect_down.simps [of be "Suc n"]
    proof (simp add: LP_RX_DEPTH_def True, rule act_post_seq, rule collect_one_ok [OF Suc.prems(1)], elim conjE exE)
      fix r p' v
      assume ok: "port_ok l0 h p' es ws (vs @ [v]) j"
      then have "lp_outstanding p' = lp_outstanding p - 1" using o by (simp add: port_ok_def fifo_def)
      then have "nat (lp_outstanding p' + k - 4) \<le> n" using Suc.prems(2) True by linarith
      from Suc.IH [OF ok this]
      show "ok_post (\<lambda>_ p'. lp_outstanding p' + k \<le> 4 \<and> (\<exists>vs'. port_ok l0 h p' es ws (vs @ vs') j)) (collect_down be n k p')"
        by (rule act_post_mono) (auto simp: ac_simps)
    qed
  qed
qed

lemma make_room_ok:
  assumes "port_ok l0 h p es ws vs j"
  shows "ok_post (\<lambda>_ p'. lp_outstanding p' + k \<le> 4 \<and> (\<exists>vs'. port_ok l0 h p' es ws (vs @ vs') j)) (make_room be k p)"
  using collect_down_ok [OF assms order_refl, of k] by (simp add: make_room_def LP_RX_DEPTH_def)

lemma collect_until_ok:
  assumes "port_ok l0 h p es ws vs j" "j < length es"
  shows "ok_post (\<lambda>_ p'. \<exists>vs'. port_ok l0 h p' es ws (vs @ vs') j \<and> j < length (vs @ vs')) (collect_until be (Suc n) (h + j) p)"
proof (cases "j < length vs")
  case True
  then have "\<not> pending p (h + j)" using assms by (simp add: port_ok_def fifo_def pending_def)
  then show ?thesis using assms True
    by (auto simp: collect_until.simps [of be "Suc n"] intro!: exI [of _ "[]"])
next
  case False
  then have p: "pending p (h + j)" "j = length vs" using assms by (simp_all add: port_ok_def fifo_def pending_def)
  show ?thesis
    unfolding collect_until.simps [of be "Suc n"]
  proof (simp add: p(1), rule act_post_seq, rule collect_one_ok [OF assms(1)], elim conjE exE)
    fix r p' v
    assume ok: "port_ok l0 h p' es ws (vs @ [v]) j"
    then have "\<not> pending p' (h + j)" using p(2) assms(2) by (simp add: port_ok_def fifo_def pending_def)
    then show "ok_post (\<lambda>_ p'. \<exists>vs'. port_ok l0 h p' es ws (vs @ vs') j \<and> j < length vs + length vs') (collect_until be n (h + j) p')"
      using ok p(2) by (auto simp: collect_until.simps [of be n] intro!: exI [of _ "[v]"])
  qed
qed

lemma lp_wait_ok:
  assumes "port_ok l0 h p es ws vs j" "j < length es"
  shows "ok_post (\<lambda>v p'. \<exists>vs'. port_ok l0 h p' es ws (vs @ vs') (Suc j) \<and> j < length (vs @ vs') \<and> v = (vs @ vs') ! j \<and>
     re_kind (lp_heap p' ! (h + j)) = es ! j) (lp_wait be (h + j) p)"
proof (simp only: lp_wait_def act_bind_basic, rule act_post_seq, rule collect_until_ok [OF assms], elim conjE exE)
  fix u p' vs'
  assume ok: "port_ok l0 h p' es ws (vs @ vs') j" and j: "j < length (vs @ vs')"
  then have f: "fifo h p' es (vs @ vs') j" by (simp add: port_ok_def)
  show "ok_post (\<lambda>v p'. \<exists>vs'. port_ok l0 h p' es ws (vs @ vs') (Suc j) \<and> j < length (vs @ vs') \<and> v = (vs @ vs') ! j \<and>
     re_kind (lp_heap p' ! (h + j)) = es ! j)
     (act_bind (act_get (\<lambda>p. remove_equal (lp_heap p) (lp_heap p ! (h + j)) (lp_results p))) (\<lambda>rest.
     act_bind (act_require (rest \<noteq> None) (ValueError ''list.remove(x): x not in list'')) (\<lambda>_.
     act_bind (act_mod (\<lambda>p. p\<lparr>lp_results := the rest\<rparr>)) (\<lambda>_.
     act_get (\<lambda>p. the (re_value (lp_heap p ! (h + j))))))) p')"
    using fifo_wait [OF f j] ok j by (auto simp: port_ok_def intro!: exI [of _ vs'])
qed

lemma account_ok:
  assumes "fifo h p es vs j" "log (lp_backend p) = l" "lp_watchdog_us p = us"
  shows "ok_post (\<lambda>e p'. fifo h p' (es @ op_kinds [(w, kind, g)]) vs j \<and> log (lp_backend p') = l \<and>
     [e] = op_entries (h + length es) [(w, kind, g)]) (account be w kind p)"
proof (cases "FIXED_FRAMES (w AND 0x1F)")
  case None
  then show ?thesis by (simp add: account_def)
next
  case (Some n)
  show ?thesis
  proof (cases kind)
    case None
    have "fifo h (p\<lparr>lp_sigma := lp_sigma p + 1 + n\<rparr>) es vs j" by (rule fifo_same [OF assms(1)]) simp_all
    then show ?thesis using Some None assms(2) by (simp add: account_def)
  next
    case (Some k)
    have len: "length (lp_heap p) = h + length es" using assms(1) by (simp add: fifo_def)
    show ?thesis
    proof (simp add: account_def \<open>FIXED_FRAMES (w AND 0x1F) = Some n\<close> Some, rule ok_backend, simp, intro conjI)
      fix t b
      assume t: "be_ticks_us be (lp_backend p) = (Inr t, b)"
      show "fifo h (p\<lparr>lp_sigma := lp_sigma p + 1 + n, lp_outstanding := lp_outstanding p + 1, lp_backend := b,
          lp_heap := lp_heap p @ [\<lparr>re_kind = k, re_sigma = lp_sigma p + 1 + n, re_put_ticks = t, re_value = None,
            re_get_ticks = None\<rparr>], lp_results := lp_results p @ [length (lp_heap p)]\<rparr>) (es @ [k]) vs j"
        by (rule fifo_account [OF assms(1)], simp, simp_all)
      show "log b = l" using ticks_log [OF t] assms(2) by simp
      show "length (lp_heap p) = h + length es" by (rule len)
    qed
  qed
qed

lemma account_all_ok:
  assumes "fifo h p es vs j" "log (lp_backend p) = l"
  shows "ok_post (\<lambda>en p'. fifo h p' (es @ op_kinds ops) vs j \<and> log (lp_backend p') = l \<and>
     en = op_entries (h + length es) ops) (account_all be ops p)"
  using assms
proof (induction ops arbitrary: p es)
  case (Cons op ops)
  obtain w kind g where op: "op = (w, kind, g)" by (cases op) auto
  have e: "op_entries r (op # ops) = op_entries r [op] @ op_entries (r + length (op_kinds [op])) ops" for r
    using op_entries_append [of r "[op]" ops] by simp
  have k: "op_kinds (op # ops) = op_kinds [op] @ op_kinds ops"
    using op_kinds_append [of "[op]" ops] by simp
  show ?case
    unfolding op account_all.simps e [unfolded op] k [unfolded op]
  proof (rule act_post_seq, rule account_ok [OF Cons.prems refl, where g = g], elim conjE)
    fix e p'
    assume a: "fifo h p' (es @ op_kinds [(w, kind, g)]) vs j" "log (lp_backend p') = l"
      "[e] = op_entries (h + length es) [(w, kind, g)]"
    show "ok_post (\<lambda>en p'. fifo h p' (es @ op_kinds [(w, kind, g)] @ op_kinds ops) vs j \<and> log (lp_backend p') = l \<and>
        en = op_entries (h + length es) [(w, kind, g)] @ op_entries (h + length es + length (op_kinds [(w, kind, g)])) ops)
      (act_bind (account_all be ops) (\<lambda>es. act_return (e # es)) p')"
      by (rule act_post_seq, rule Cons.IH [OF a(1,2)]) (simp add: a(3) [symmetric] ac_simps)
  qed
qed simp

lemma submit_chunk_ok:
  assumes "port_ok l0 h p es ws vs j" "\<forall>op \<in> set chunk. kinded op"
  shows "ok_post (\<lambda>en p'. (\<exists>vs'. port_ok l0 h p' (es @ op_kinds chunk) (ws @ map fst chunk) (vs @ vs') j) \<and>
     en = op_entries (h + length es) chunk) (submit_chunk be chunk p)"
proof (cases "length chunk \<le> 4")
  case False
  then show ?thesis by (simp add: submit_chunk_def LP_TX_DEPTH_def)
next
  case True
  then have sz: "\<not> LP_TX_DEPTH < int (length chunk)" by (simp add: LP_TX_DEPTH_def)
  show ?thesis
    unfolding submit_chunk_def act_bind_basic
  proof (simp only: sz not_False_eq_True if_True, rule act_post_seq, rule make_room_ok [OF assms(1)],
      elim conjE exE, rule ok_backend)
    fix u p1 vs' space b
    assume room: "lp_outstanding p1 + chunk_results chunk \<le> 4" and ok: "port_ok l0 h p1 es ws (vs @ vs') j"
      and sp: "be_wait_tx_space be (int (length chunk)) (lp_watchdog_us p1) (lp_backend p1) = (Inr space, b)"
    let ?p = "p1\<lparr>lp_backend := b\<rparr>"
    let ?Q = "\<lambda>en p'. (\<exists>vs'. port_ok l0 h p' (es @ op_kinds chunk) (ws @ map fst chunk) (vs @ vs') j) \<and>
     en = op_entries (h + length es) chunk"
    have f: "fifo h ?p es (vs @ vs') j" using ok by (auto simp: port_ok_def intro: fifo_same)
    have l: "log (lp_backend ?p) = log (lp_backend p1)" using space_log [OF sp] by simp
    have put: "ok_post ?Q (act_bind (on_backend (if length chunk = 1 then be_put be (fst (hd chunk)) else be_put_many be (map fst chunk)))
         (\<lambda>_. act_return en) p2)"
      if p2: "fifo h p2 (es @ op_kinds chunk) (vs @ vs') j" "log (lp_backend p2) = log (lp_backend p1)"
        "en = op_entries (h + length es) chunk" for en p2
    proof (rule ok_backend)
      fix v b2
      assume m: "(if length chunk = 1 then be_put be (fst (hd chunk)) else be_put_many be (map fst chunk)) (lp_backend p2) = (Inr v, b2)"
      have "length chunk = 1 \<Longrightarrow> map fst chunk = [fst (hd chunk)]" by (cases chunk) auto
      then have lg: "log b2 = log (lp_backend p1) @ [Put (map fst chunk)]"
        using m put_log put_many_log p2(2) by (auto split: if_splits)
      have "traced l0 (log (lp_backend p1)) ws (vs @ vs') (lp_outstanding p1)" using ok by (simp add: port_ok_def)
      then have t: "traced l0 (log b2) (ws @ map fst chunk) (vs @ vs') (lp_outstanding p1 + int (length (op_kinds chunk)))"
        using traced_put [of l0 "log (lp_backend p1)" ws "vs @ vs'" "lp_outstanding p1" "map fst chunk"]
          room True kinded_results [OF assms(2)] by (simp add: lg op_kinds_results)
      have "lp_outstanding p2 = lp_outstanding p1 + int (length (op_kinds chunk))"
        using p2(1) ok by (simp add: port_ok_def fifo_def)
      then show "ok_post ?Q (act_return en (p2\<lparr>lp_backend := b2\<rparr>))"
        using t p2 fifo_same [OF p2(1), of "p2\<lparr>lp_backend := b2\<rparr>"] by (auto simp: port_ok_def)
    qed
    show "ok_post ?Q (act_bind (if space then act_return () else lp_timeout be)
       (\<lambda>_. act_bind (account_all be chunk) (\<lambda>entries.
          act_bind (on_backend (if length chunk = 1 then be_put be (fst (hd chunk)) else be_put_many be (map fst chunk)))
            (\<lambda>_. act_return entries))) ?p)"
    proof (cases space)
      case True
      show ?thesis
        by (simp only: True if_True act_bind_simps,
          rule act_post_seq, rule account_all_ok [OF f l], elim conjE, rule put)
    next
      case False
      show ?thesis by (simp only: False if_False,
          rule act_post_seq, rule lp_timeout_raises [where Q = "\<lambda>_ _. False"]) simp
    qed
  qed
qed

lemma submit_chunks_ok:
  assumes "port_ok l0 h p es ws vs j" "\<forall>op \<in> set (concat cs). kinded op"
  shows "ok_post (\<lambda>en p'. (\<exists>vs'. port_ok l0 h p' (es @ op_kinds (concat cs)) (ws @ map fst (concat cs)) (vs @ vs') j) \<and>
     en = op_entries (h + length es) (concat cs)) (submit_chunks be cs p)"
  using assms
proof (induction cs arbitrary: p es ws vs)
  case Nil
  then show ?case by (auto intro!: exI [of _ "[]"])
next
  case (Cons c cs)
  have k: "\<forall>op \<in> set c. kinded op" "\<forall>op \<in> set (concat cs). kinded op" using Cons.prems(2) by auto
  show ?case
    unfolding submit_chunks.simps
  proof (rule act_post_seq, rule submit_chunk_ok [OF Cons.prems(1) k(1)], elim conjE exE)
    fix en p1 vs1
    assume ok: "port_ok l0 h p1 (es @ op_kinds c) (ws @ map fst c) (vs @ vs1) j"
      and en: "en = op_entries (h + length es) c"
    show "ok_post (\<lambda>en p'. (\<exists>vs'. port_ok l0 h p' (es @ op_kinds (concat (c # cs))) (ws @ map fst (concat (c # cs))) (vs @ vs') j) \<and>
        en = op_entries (h + length es) (concat (c # cs)))
      (act_bind (submit_chunks be cs) (\<lambda>fs. act_return (en @ fs)) p1)"
    proof (rule act_post_seq, rule Cons.IH [OF ok k(2)], elim conjE exE)
      fix fs p2 vs2
      assume ok2: "port_ok l0 h p2 ((es @ op_kinds c) @ op_kinds (concat cs)) ((ws @ map fst c) @ map fst (concat cs)) ((vs @ vs1) @ vs2) j"
        and fs: "fs = op_entries (h + length (es @ op_kinds c)) (concat cs)"
      have "\<exists>vs'. port_ok l0 h p2 (es @ op_kinds (concat (c # cs))) (ws @ map fst (concat (c # cs))) (vs @ vs') j"
        by (rule exI [of _ "vs1 @ vs2"]) (use ok2 in \<open>simp add: op_kinds_append\<close>)
      then show "ok_post (\<lambda>en p'. (\<exists>vs'. port_ok l0 h p' (es @ op_kinds (concat (c # cs))) (ws @ map fst (concat (c # cs))) (vs @ vs') j) \<and>
          en = op_entries (h + length es) (concat (c # cs))) (act_return (en @ fs) p2)"
        by (simp add: en fs op_entries_append ac_simps)
    qed
  qed
qed

lemma submit_ok:
  assumes "port_ok l0 h p es ws vs j" "\<forall>op \<in> set ops. kinded op"
  shows "ok_post (\<lambda>en p'. (\<exists>vs'. port_ok l0 h p' (es @ op_kinds ops) (ws @ map fst ops) (vs @ vs') j) \<and>
     en = op_entries (h + length es) ops) (submit be ops p)"
  using submit_chunks_ok [OF assms(1), of "make_chunks [] [] ops"] assms(2)
  by (simp add: submit_def chunks_concat)

text \<open>\<open>j\<close> results have been handed out; the rest belong to the operations \<open>ops\<close>.\<close>

lemma gather_ok:
  assumes "port_ok l0 h p es ws vs j" "drop j es = op_kinds ops" "length ms = length ops"
  shows "ok_post (\<lambda>out p'. \<exists>vs'. port_ok l0 h p' es ws (vs @ vs') (length es) \<and>
     out = answers be (zip ms (map (fst \<circ> snd) ops)) (drop j (vs @ vs')))
     (gather be (zip ms (op_entries (h + j) ops)) p)"
  using assms
proof (induction ops arbitrary: p vs j ms)
  case Nil
  then have "j = length es" by (auto simp: port_ok_def fifo_def)
  then show ?case using Nil by (auto intro!: exI [of _ "[]"])
next
  case (Cons op ops)
  obtain w kind g where op: "op = (w, kind, g)" by (cases op) auto
  obtain ui before ms' where ms: "ms = (ui, before) # ms'" "length ms' = length ops"
    using Cons.prems(3) by (cases ms) auto
  show ?case
  proof (cases kind)
    case None
    then show ?thesis using Cons.IH [OF Cons.prems(1) _ ms(2)] Cons.prems(2) by (simp add: op ms)
  next
    case (Some k)
    then have d: "drop j es = k # op_kinds ops" using Cons.prems(2) by (simp add: op)
    then have j: "j < length es" "es ! j = k" "drop (Suc j) es = op_kinds ops"
      by (metis drop_eq_Nil linorder_not_less list.distinct(1), metis hd_drop_conv_nth drop_eq_Nil linorder_not_less list.distinct(1) list.sel(1),
        metis drop_Suc tl_drop list.sel(3))
    let ?Q = "\<lambda>out p'. \<exists>vs'. port_ok l0 h p' es ws (vs @ vs') (length es) \<and>
      out = answers be (zip ms (map (fst \<circ> snd) (op # ops))) (drop j (vs @ vs'))"
    have "ok_post ?Q (act_bind (lp_wait be (h + j)) (\<lambda>v.
       act_bind (act_get (\<lambda>p. re_kind (lp_heap p ! (h + j)))) (\<lambda>k.
       act_bind (gather be (zip ms' (op_entries (h + Suc j) ops))) (\<lambda>out.
       act_return ((if k = Stamp then lp_sample be ui before v else v) # out)))) p)"
    proof (rule act_post_seq, rule lp_wait_ok [OF Cons.prems(1) j(1)], elim conjE exE, simp only: act_bind_basic)
      fix v p1 vs1
      assume ok: "port_ok l0 h p1 es ws (vs @ vs1) (Suc j)" and l: "j < length (vs @ vs1)"
        and v: "v = (vs @ vs1) ! j" and k: "re_kind (lp_heap p1 ! (h + j)) = es ! j"
      show "ok_post ?Q (act_bind (gather be (zip ms' (op_entries (h + Suc j) ops)))
         (\<lambda>out. act_return ((if es ! j = Stamp then lp_sample be ui before ((vs @ vs1) ! j) else (vs @ vs1) ! j) # out)) p1)"
      proof (rule act_post_seq, rule Cons.IH [OF ok j(3) ms(2)], elim conjE exE)
        fix out p2 vs2
        assume ok2: "port_ok l0 h p2 es ws ((vs @ vs1) @ vs2) (length es)"
          and out: "out = answers be (zip ms' (map (fst \<circ> snd) ops)) (drop (Suc j) ((vs @ vs1) @ vs2))"
        have "drop j ((vs @ vs1) @ vs2) = (vs @ vs1) ! j # drop (Suc j) ((vs @ vs1) @ vs2)"
          by (rule drop_nth_append [OF l])
        then show "ok_post ?Q (act_return ((if es ! j = Stamp then lp_sample be ui before ((vs @ vs1) ! j) else (vs @ vs1) ! j) # out) p2)"
          using ok2 by (auto simp: ms op Some j(2) out intro!: exI [of _ "vs1 @ vs2"])
      qed
    qed
    then show ?thesis by (simp add: op ms Some comp_def)
  qed
qed

lemma run_ops_ok:
  assumes "lp_results p = []" "lp_outstanding p = 0" "run_words (lp_window p) ops = Inr (words, final)"
    "\<forall>w \<in> set words. kinded (fst w)"
  shows "ok_post (\<lambda>out p'. \<exists>es vs. port_ok (log (lp_backend p)) (length (lp_heap p)) p' es (map (fst \<circ> fst) words) vs (length es) \<and>
     out = answers be (map (\<lambda>(op, m). (m, fst (snd op))) words) vs) (run_ops be ops p)"
proof -
  let ?ops = "glue_words (map fst ops) (map fst words)" and ?p = "p\<lparr>lp_window := final\<rparr>"
  have g: "map fst ?ops = map (fst \<circ> fst) words" "map (fst \<circ> snd) ?ops = map (fst \<circ> snd \<circ> fst) words"
    "length (map snd words) = length ?ops" "\<forall>op \<in> set ?ops. kinded op"
    using glue_words_same [of "map fst ops" "map fst words"] assms(4) by simp_all
  have start: "port_ok (log (lp_backend p)) (length (lp_heap p)) ?p [] [] [] 0"
    using assms(1,2) by (simp add: port_ok_def fifo_def traced_def)
  have z: "zip (map snd words) (map (fst \<circ> snd) ?ops) = map (\<lambda>(op, m). (m, fst (snd op))) words"
    unfolding g by (induction words) auto
  let ?Q = "\<lambda>out p'. \<exists>es vs. port_ok (log (lp_backend p)) (length (lp_heap p)) p' es (map (fst \<circ> fst) words) vs (length es) \<and>
     out = answers be (map (\<lambda>(op, m). (m, fst (snd op))) words) vs"
  have sub: "ok_post ?Q (act_bind (submit be ?ops) (\<lambda>entries. gather be (zip (map snd words) entries)) ?p)"
  proof (rule act_post_seq, rule submit_ok [OF start g(4)], elim conjE exE)
    fix en p1 vs1
    assume ok: "port_ok (log (lp_backend p)) (length (lp_heap p)) p1 ([] @ op_kinds ?ops) ([] @ map fst ?ops) ([] @ vs1) 0"
      and en: "en = op_entries (length (lp_heap p) + length []) ?ops"
    have ok': "port_ok (log (lp_backend p)) (length (lp_heap p)) p1 (op_kinds ?ops) (map fst ?ops) vs1 0"
      using ok by simp
    have e: "en = op_entries (length (lp_heap p) + 0) ?ops" using en by simp
    show "ok_post ?Q (gather be (zip (map snd words) en) p1)"
      unfolding e by (rule act_post_mono [OF gather_ok [OF ok' _ g(3)]]) (auto simp: z g(1))
  qed
  show ?thesis
  proof (cases "lp_env p")
    case True
    then show ?thesis unfolding run_ops_def by (rule check_env_raises)
  next
    case False
    then show ?thesis using sub by (simp add: run_ops_def check_env_run assms(3))
  qed
qed

end

section \<open>Words of the operations\<close>

lemma op_words_low:
  "op_cycle ui AND 0x1F = ADDR_CYC" "op_write ui AND 0x1F = ADDR_WR" "op_read ui AND 0x1F = ADDR_RD"
  "op_read_bubble ui AND 0x1F = ADDR_RDB"
  by (simp_all add: op_cycle_def op_write_def op_read_def op_read_bubble_def bit.conj_disj_distrib2
    and.assoc ADDR_CYC_def ADDR_WR_def ADDR_RD_def ADDR_RDB_def)

lemma run_words_kinded:
  "run_words window ops = Inr (words, final) \<Longrightarrow> w \<in> set words \<Longrightarrow> kinded (fst w)"
proof (induction window ops arbitrary: words rule: run_words.induct)
  case (2 window kind ui ops)
  then show ?case
    by (auto simp: Let_def and_then_Inr_iff kinded_def op_words_low ADDR_CYC_def ADDR_WR_def ADDR_RD_def ADDR_RDB_def
      split: run_kind.splits if_splits)
qed simp

section \<open>Answers in order\<close>

text \<open>C20: on any backend, the operations of a \<open>run_ops\<close> reach the TX FIFO in order in puts of at
  most four words, at no time are more than four results outstanding, and every returned value is
  read from the result word of its own operation.\<close>

theorem run_ops_in_order:
  assumes "lp_results p = []" "lp_outstanding p = 0" "run_words (lp_window p) ops = Inr (words, final)"
    "run_ops (logged be) ops p = (Inr out, p')"
  shows "\<exists>evs. snd (lp_backend p') = snd (lp_backend p) @ evs \<and> concat (puts_of evs) = map (fst \<circ> fst) words \<and>
     (\<forall>c \<in> set (puts_of evs). length c \<le> 4) \<and> rx_safe 0 evs \<and> rx_level 0 evs = 0 \<and>
     out = answers (logged be) (map (\<lambda>(op, m). (m, fst (snd op))) words) (gots_of evs) \<and>
     lp_results p' = [] \<and> lp_outstanding p' = 0"
proof -
  have "\<forall>w \<in> set words. kinded (fst w)" using run_words_kinded [OF assms(3)] by blast
  from act_postD(1) [OF logs.run_ops_ok [OF assms(1-3) this] assms(4)]
  obtain es vs where ok: "logs.port_ok (snd (lp_backend p)) (length (lp_heap p)) p' es (map (fst \<circ> fst) words) vs (length es)"
    and out: "out = answers (logged be) (map (\<lambda>(op, m). (m, fst (snd op))) words) vs" by blast
  have f: "lp_results p' = []" "lp_outstanding p' = 0"
    using ok by (simp_all add: logs.port_ok_def fifo_def)
  have "traced (snd (lp_backend p)) (snd (lp_backend p')) (map (fst \<circ> fst) words) vs 0"
    using ok f by (simp add: logs.port_ok_def)
  then show ?thesis unfolding traced_def using out f by blast
qed

text \<open>A backend that answers from a list of result words.\<close>

definition script :: "int list backend_ops" where
  "script = \<lparr>be_put = (\<lambda>_. act_return ()), be_put_many = (\<lambda>_. act_return ()),
     be_wait_tx_space = (\<lambda>_ _. act_return True),
     be_get = (\<lambda>_ l. case l of [] \<Rightarrow> (Inr None, []) | v # vs \<Rightarrow> (Inr (Some v), vs)),
     be_wait_halted = (\<lambda>_. act_return True), be_restart = act_return (),
     be_set_reset = (\<lambda>_. act_return ()), be_set_ena = (\<lambda>_. act_return ()), be_has_ena = True,
     be_ticks_us = act_return 0, be_ticks_diff = (\<lambda>a b. a - b), be_sleep_us = (\<lambda>_. act_return ()),
     be_release = act_return (), be_uo_visible = 0xFF, be_frame_hz = 25000000\<rparr>"

definition script_port :: "int list \<Rightarrow> (int list \<times> port_event list) lockstep_port" where
  "script_port vs = new_lockstep_port (vs, []) None"

definition script_ops :: "(run_kind \<times> int) list" where
  "script_ops = [(Cyc, 0), (Wr, 1), (Wr, 2), (Cyc, 0), (Rd, 3), (Cyc, 0)]"

lemma script_words:
  "run_words 0 script_ops =
     Inr ([((op_cycle 0, Some Stamp, False), 0, 0), ((op_write 1, None, False), 1, 0),
       ((op_write 2, None, False), 2, 0), ((op_cycle 0, Some Stamp, False), 0, 0),
       ((op_read 3, Some Data, False), 3, 0), ((op_cycle 0, Some Stamp, False), 0, 0)], 0)"
  by (simp add: script_ops_def)

lemma script_runs:
  "fst (run_ops (logged script) script_ops (script_port [0x11000000, 0x22FFFFFF, 7, 0x33000000])) = Inr [0x11, 0x22, 7, 0x33]"
  by code_simp

theorem run_ops_in_order_witness:
  "\<exists>evs. concat (puts_of evs) = [op_cycle 0, op_write 1, op_write 2, op_cycle 0, op_read 3, op_cycle 0] \<and>
     rx_safe 0 evs \<and> rx_level 0 evs = 0"
proof -
  let ?p = "script_port [0x11000000, 0x22FFFFFF, 7, 0x33000000]"
  have p: "lp_results ?p = []" "lp_outstanding ?p = 0" "lp_window ?p = 0"
    by (simp_all add: script_port_def new_lockstep_port_def)
  obtain p' where r: "run_ops (logged script) script_ops ?p = (Inr [0x11, 0x22, 7, 0x33], p')"
    using script_runs by (metis prod.collapse)
  have w: "run_words (lp_window ?p) script_ops = run_words 0 script_ops" by (simp only: p(3))
  from run_ops_in_order [OF p(1,2) w [unfolded script_words] r] show ?thesis by auto
qed

end
