(* ===== verification/Lockstep_Protocol.thy ===== *)
theory Lockstep_Protocol
  imports Lockstep_Port_Props Pio_Run
begin

text \<open>
  The port keeps the protocol of the program: the words it hands to the backend between two
  restarts of the state machine are operation words whose low five bits name a handler, and a HALT
  is always followed by its second word. The schedule of the program is proved of runs whose words
  keep this protocol.
\<close>

section \<open>A backend whose words are noted\<close>

text \<open>The words put since each start of the program, the latest start first; and whether a call of the
  backend has raised. A put that raises has put an unknown part of its words, so nothing is claimed
  after one.\<close>

record 'b noted =
  nt_backend :: 'b
  nt_runs :: "int list list"
  nt_raised :: bool

definition jot :: "(int list list \<Rightarrow> int list list) \<Rightarrow> ('b, host_error, 'a) act \<Rightarrow> ('b noted, host_error, 'a) act" where
  "jot f m = (\<lambda>n. case m (nt_backend n) of
     (Inr a, b) \<Rightarrow> (Inr a, n\<lparr>nt_backend := b, nt_runs := f (nt_runs n)\<rparr>)
   | (Inl e, b) \<Rightarrow> (Inl e, n\<lparr>nt_backend := b, nt_raised := True\<rparr>))"

fun add_words :: "int list \<Rightarrow> int list list \<Rightarrow> int list list" where
  "add_words ws [] = [ws]"
| "add_words ws (r # rs) = (r @ ws) # rs"

definition noting :: "'b backend_ops \<Rightarrow> 'b noted backend_ops" where
  "noting be = \<lparr>be_put = (\<lambda>w. jot (add_words [w]) (be_put be w)),
     be_put_many = (\<lambda>ws. jot (add_words ws) (be_put_many be ws)),
     be_wait_tx_space = (\<lambda>n us. jot id (be_wait_tx_space be n us)),
     be_get = (\<lambda>us. jot id (be_get be us)),
     be_wait_halted = (\<lambda>us. jot id (be_wait_halted be us)), be_restart = jot ((#) []) (be_restart be),
     be_set_reset = (\<lambda>v. jot id (be_set_reset be v)), be_set_ena = (\<lambda>v. jot id (be_set_ena be v)),
     be_has_ena = be_has_ena be, be_ticks_us = jot id (be_ticks_us be),
     be_ticks_diff = be_ticks_diff be, be_sleep_us = (\<lambda>us. jot id (be_sleep_us be us)),
     be_release = jot id (be_release be), be_uo_visible = be_uo_visible be,
     be_frame_hz = be_frame_hz be\<rparr>"

text \<open>Every run of the program got words of the protocol, every earlier one was left by a restart, and
  the present one waits for the second word of a HALT exactly when \<open>halt\<close>.\<close>

definition in_protocol :: "bool \<Rightarrow> 'b noted \<Rightarrow> bool" where
  "in_protocol halt n \<longleftrightarrow> nt_raised n \<or> (nt_runs n \<noteq> [] \<and> (\<forall>r \<in> set (nt_runs n). puts_ok False r)
     \<and> puts_end False (hd (nt_runs n)) = halt)"

abbreviation proto :: "bool \<Rightarrow> 'b noted lockstep_port \<Rightarrow> bool" where
  "proto halt p \<equiv> in_protocol halt (lp_backend p)"

section \<open>The calls of the backend\<close>

lemma on_jot:
  assumes "\<And>b. in_protocol h n \<Longrightarrow> Q ((n\<lparr>nt_backend := b, nt_runs := f (nt_runs n)\<rparr>) :: 'b noted)"
    and "proto h p" "lp_backend p = n"
  shows "act_post (\<lambda>_ p'. Q (lp_backend p')) (\<lambda>_. proto e) (on_backend (jot f m) p)"
  using assms by (auto simp: on_backend_def jot_def act_post_def in_protocol_def split: prod.splits sum.splits)

lemma on_id:
  "proto h p \<Longrightarrow> act_post (\<lambda>_. proto h) (\<lambda>_. proto e) (on_backend (jot id m) p)"
  by (rule on_jot [where Q = "in_protocol h"]) (auto simp: in_protocol_def)

lemma on_restart:
  "proto h p \<Longrightarrow> act_post (\<lambda>_. proto False) (\<lambda>_. proto e) (on_backend (jot ((#) []) m) p)"
  by (rule on_jot [where Q = "in_protocol False"]) (auto simp: in_protocol_def)

lemma add_in_protocol:
  "in_protocol h n \<Longrightarrow> puts_ok h ws \<Longrightarrow> in_protocol (puts_end h ws) (n\<lparr>nt_backend := b, nt_runs := add_words ws (nt_runs n)\<rparr>)"
  by (cases "nt_runs n") (auto simp: in_protocol_def puts_ok_append puts_end_append)

lemma on_put:
  "proto h p \<Longrightarrow> puts_ok h ws \<Longrightarrow>
   act_post (\<lambda>_. proto (puts_end h ws)) (\<lambda>_. proto e) (on_backend (jot (add_words ws) m) p)"
  by (rule on_jot [where Q = "in_protocol (puts_end h ws)"]) (auto intro: add_in_protocol)

lemmas on_ops = on_id on_restart

lemma noting_fields [simp]:
  "be_put (noting be) w = jot (add_words [w]) (be_put be w)"
  "be_put_many (noting be) ws = jot (add_words ws) (be_put_many be ws)"
  "be_wait_tx_space (noting be) n us = jot id (be_wait_tx_space be n us)"
  "be_get (noting be) us = jot id (be_get be us)"
  "be_wait_halted (noting be) us = jot id (be_wait_halted be us)"
  "be_restart (noting be) = jot ((#) []) (be_restart be)"
  "be_set_reset (noting be) v = jot id (be_set_reset be v)" "be_set_ena (noting be) l = jot id (be_set_ena be l)"
  "be_has_ena (noting be) = be_has_ena be" "be_ticks_us (noting be) = jot id (be_ticks_us be)"
  "be_sleep_us (noting be) us = jot id (be_sleep_us be us)"
  by (simp_all add: noting_def)

text \<open>A call that leaves the program between two operations, whether it returns or raises.\<close>

definition keeps :: "('b noted, 'a) port_act \<Rightarrow> bool" where
  "keeps m \<longleftrightarrow> (\<forall>p. proto False p \<longrightarrow> act_post (\<lambda>_. proto False) (\<lambda>_. proto False) (m p))"

lemma keepsI: "(\<And>p. proto False p \<Longrightarrow> act_post (\<lambda>_. proto False) (\<lambda>_. proto False) (m p)) \<Longrightarrow> keeps m"
  by (simp add: keeps_def)

lemma keepsD: "keeps m \<Longrightarrow> proto False p \<Longrightarrow> act_post (\<lambda>_. proto False) (\<lambda>_. proto False) (m p)"
  by (simp add: keeps_def)

lemma keeps_bind: "keeps m \<Longrightarrow> (\<And>a. keeps (f a)) \<Longrightarrow> keeps (act_bind m f)"
  by (blast intro: keepsI act_post_seq dest: keepsD)

lemma keeps_get: "keeps (act_get g)" "keeps (act_return a)" "keeps (act_raise e)" "keeps (act_require c e)"
  "keeps (act_lift r)"
  by (auto simp: act_post_def split: sum.splits intro: keepsI)

lemma keeps_backend: "keeps (on_backend (jot id m))" "keeps (on_backend (jot ((#) []) m))"
  by (auto intro: keepsI on_id on_restart)

lemma keeps_mod: "(\<And>p. lp_backend (g p) = lp_backend p) \<Longrightarrow> keeps (act_mod g)"
  by (simp add: keepsI)

lemma keeps_if: "keeps m \<Longrightarrow> keeps m' \<Longrightarrow> keeps (if c then m else m')"
  by simp

lemma keeps_option: "keeps m \<Longrightarrow> (\<And>x. keeps (f x)) \<Longrightarrow> keeps (case r of None \<Rightarrow> m | Some x \<Rightarrow> f x)"
  by (cases r) simp_all

lemma keeps_prod: "(\<And>a b. keeps (f a b)) \<Longrightarrow> keeps (case r of (a, b) \<Rightarrow> f a b)"
  by (cases r) simp

lemmas keeps_rules = keeps_bind keeps_get keeps_backend keeps_mod keeps_if keeps_option keeps_prod

section \<open>The port\<close>

lemma recover_keeps: "proto h p \<Longrightarrow> act_post (\<lambda>_. proto False) (\<lambda>_. proto False) (lp_recover (noting be) p)"
  unfolding lp_recover_def noting_fields by (rule act_post_seq, erule on_restart) simp

lemma timeout_keeps: "proto h p \<Longrightarrow> act_post Q (\<lambda>_. proto False) (lp_timeout (noting be) p)"
  unfolding lp_timeout_def by (rule act_post_seq, erule recover_keeps) simp

lemma keeps_timeout: "keeps (lp_timeout (noting be))"
  by (rule keepsI) (rule timeout_keeps)

lemma stamp_backend [simp]: "lp_backend (lp_stamp be e v t p) = lp_backend p"
  by (simp add: lp_stamp_def Let_def split: option.split prod.split)

lemma keeps_account: "keeps (account (noting be) word kind)"
  unfolding account_def noting_fields by (intro keeps_rules) simp_all

lemma keeps_collect_one: "keeps (collect_one (noting be))"
  unfolding collect_one_def noting_fields by (intro keeps_rules keeps_timeout) simp_all

lemma keeps_collect_down: "keeps (collect_down (noting be) n results)"
proof (induction n)
  case 0
  show ?case unfolding collect_down.simps [of _ 0] nat.case by (intro keeps_rules)
next
  case (Suc n)
  show ?case unfolding collect_down.simps [of _ "Suc n"] nat.case
    by (intro keeps_rules keeps_collect_one Suc.IH)
qed

lemma keeps_collect_until: "keeps (collect_until (noting be) n r)"
proof (induction n)
  case 0
  show ?case unfolding collect_until.simps [of _ 0] nat.case by (intro keeps_rules)
next
  case (Suc n)
  show ?case unfolding collect_until.simps [of _ "Suc n"] nat.case
    by (intro keeps_rules keeps_collect_one Suc.IH)
qed

lemma keeps_make_room: "keeps (make_room (noting be) results)"
  unfolding make_room_def by (intro keeps_rules keeps_collect_down)

lemma keeps_wait: "keeps (lp_wait (noting be) r)"
  unfolding lp_wait_def by (intro keeps_rules keeps_collect_until) simp

lemma keeps_account_all: "keeps (account_all (noting be) ops)"
proof (induction ops)
  case (Cons op ops)
  obtain w k g where op: "op = (w, k, g)" by (cases op)
  show ?case unfolding op account_all.simps by (intro keeps_rules keeps_account Cons.IH)
qed (simp only: account_all.simps keeps_get)

lemma keeps_gather: "keeps (gather (noting be) es)"
proof (induction es)
  case (Cons e es)
  obtain ui before r where e: "e = ((ui, before), r)" by (metis prod.collapse)
  show ?case
  proof (cases r)
    case None
    show ?thesis unfolding e None gather.simps by (rule Cons.IH)
  next
    case (Some k)
    show ?thesis unfolding e Some gather.simps by (intro keeps_rules keeps_wait Cons.IH)
  qed
qed (simp only: gather.simps keeps_get)

section \<open>The words of a call\<close>

text \<open>A call that hands the words \<open>ws\<close> to the backend when it returns.\<close>

definition puts :: "int list \<Rightarrow> ('b noted, 'a) port_act \<Rightarrow> bool" where
  "puts ws m \<longleftrightarrow> (\<forall>p. proto False p \<longrightarrow> puts_ok False ws \<longrightarrow>
     act_post (\<lambda>_. proto (puts_end False ws)) (\<lambda>_. proto False) (m p))"

lemma puts_submit_chunk: "puts (map fst chunk) (submit_chunk (noting be) chunk)"
  unfolding puts_def
proof (intro allI impI)
  fix p :: "'a noted lockstep_port"
  assume p: "proto False p" and ok: "puts_ok False (map fst chunk)"
  let ?put = "on_backend (if length chunk = 1 then be_put (noting be) (fst (hd chunk)) else be_put_many (noting be) (map fst chunk))"
  have put: "act_post (\<lambda>_. proto (puts_end False (map fst chunk))) (\<lambda>_. proto False) (?put q)" if "proto False q" for q
  proof (cases "length chunk = 1")
    case True
    then have "[fst (hd chunk)] = map fst chunk" by (cases chunk) simp_all
    then show ?thesis using on_put [OF that ok] True by simp
  next
    case False
    then show ?thesis using on_put [OF that ok] by simp
  qed
  show "act_post (\<lambda>_. proto (puts_end False (map fst chunk))) (\<lambda>_. proto False) (submit_chunk (noting be) chunk p)"
    unfolding submit_chunk_def
    by (rule act_post_seq, rule keepsD [OF keeps_get(4) p])
      (rule act_post_seq, erule keepsD [OF keeps_make_room], rule act_post_seq, erule keepsD [OF keeps_get(1)],
       rule act_post_seq, simp only: noting_fields, erule keepsD [OF keeps_backend(1)],
       rule act_post_seq, erule keepsD [OF keeps_if [OF keeps_get(2) keeps_timeout]],
       rule act_post_seq, erule keepsD [OF keeps_account_all],
       rule act_post_seq, erule put, simp)
qed

text \<open>Words of operations other than a HALT leave the program between operations.\<close>

definition op_word :: "int \<Rightarrow> bool" where
  "op_word w \<longleftrightarrow> w AND 0x1F \<in> set default_handlers \<and> w AND 0x1F \<noteq> ADDR_HALT"

lemma op_words_ok: "\<forall>w \<in> set ws. op_word w \<Longrightarrow> puts_ok False ws \<and> \<not> puts_end False ws"
  by (induction ws) (simp_all add: op_word_def)

lemma op_word_ops: "op_word (op_cycle ui)" "op_word (op_write ui)" "op_word (op_read ui)" "op_word (op_read_bubble ui)"
  by (simp_all add: op_word_def op_words_low default_handlers_def ADDR_CYC_def ADDR_WR_def ADDR_RD_def ADDR_RDB_def
    ADDR_HALT_def)

lemma keeps_submit_chunks:
  "\<forall>c \<in> set cs. \<forall>op \<in> set c. op_word (fst op) \<Longrightarrow> keeps (submit_chunks (noting be) cs)"
proof (induction cs)
  case (Cons c cs)
  then have "puts_ok False (map fst c)" "\<not> puts_end False (map fst c)" using op_words_ok [of "map fst c"] by auto
  then have "keeps (submit_chunk (noting be) c)"
    using puts_submit_chunk [of c be] by (auto simp: puts_def intro: keepsI)
  then show ?case unfolding submit_chunks.simps using Cons by (intro keeps_rules) simp_all
qed (simp only: submit_chunks.simps keeps_get)

lemma keeps_submit: "\<forall>op \<in> set ops. op_word (fst op) \<Longrightarrow> keeps (submit (noting be) ops)"
  unfolding submit_def
  by (rule keeps_submit_chunks) (metis chunks_concat in_set_conv_nth UN_I set_concat)

lemma keeps_cycle: "keeps (lp_cycle (noting be) ui)"
  unfolding lp_cycle_def dispatch_def check_env_def
  by (intro keeps_rules keeps_submit keeps_wait) (simp_all add: op_word_ops)

lemma keeps_lift: "(\<And>a. r = Inr a \<Longrightarrow> keeps (f a)) \<Longrightarrow> keeps (act_bind (act_lift r) f)"
  by (cases r) (auto intro!: keepsI dest: keepsD)

lemma run_words_op: "run_words window ops = Inr (words, final) \<Longrightarrow> w \<in> set words \<Longrightarrow> op_word (fst (fst w))"
proof (induction window ops arbitrary: words rule: run_words.induct)
  case (2 window kind ui ops)
  then show ?case
    by (auto simp: Let_def and_then_Inr_iff op_word_ops split: run_kind.splits if_splits)
qed simp

lemma glue_words_fst: "map fst (glue_words ks ops) = map fst ops"
  by (induction ks ops rule: glue_words.induct) simp_all

lemma keeps_env: "keeps check_env"
  unfolding check_env_def by (intro keeps_rules)

lemma keeps_run_ops: "keeps (run_ops (noting be) ops)"
  unfolding run_ops_def
proof (rule keeps_bind, rule keeps_env, rule keeps_bind, rule keeps_get, rule keeps_lift)
  fix window a assume a: "run_words window ops = Inr a"
  obtain words final where w: "a = (words, final)" by (cases a)
  have "\<forall>x \<in> set (map fst (glue_words (map fst ops) (map fst words))). op_word x"
    using run_words_op [OF a [unfolded w]] unfolding glue_words_fst by auto
  then have "keeps (submit (noting be) (glue_words (map fst ops) (map fst words)))"
    by (intro keeps_submit) simp
  then show "keeps (case a of (words, final) \<Rightarrow>
      act_bind (act_mod (\<lambda>p. p\<lparr>lp_window := final\<rparr>)) (\<lambda>_.
      act_bind (submit (noting be) (glue_words (map fst ops) (map fst words))) (\<lambda>entries.
      gather (noting be) (zip (map snd words) entries))))"
    unfolding w prod.case by (intro keeps_bind keeps_mod keeps_gather) simp_all
qed

section \<open>Halting\<close>

lemma halt_word: "puts_ok False [OP_HALT]" "puts_end False [OP_HALT]"
  by (simp_all add: OP_HALT_def ADDR_HALT_def default_handlers_def)

lemma halt_waits:
  assumes "proto False p"
  shows "act_post (\<lambda>_. proto True) (\<lambda>_. proto False) (lp_halt (noting be) p)"
proof -
  have "act_post (\<lambda>_. proto True) (\<lambda>_. proto False) (submit_chunk (noting be) [(OP_HALT, Some Stamp, False)] q)"
    if "proto False q" for q :: "'a noted lockstep_port"
    using puts_submit_chunk [of "[(OP_HALT, Some Stamp, False)]" be] that halt_word by (simp add: puts_def)
  then have "act_post (\<lambda>_. proto True) (\<lambda>_. proto False) (dispatch (noting be) OP_HALT (Some Stamp) p)"
    unfolding dispatch_def submit_def
    by (simp add: add_chunk.simps) (intro act_post_seq [where R = "\<lambda>_. proto True"], auto simp: assms act_post_seq)
  then show ?thesis
    unfolding lp_halt_def noting_fields
    by (rule act_post_seq)
      (simp, rule act_post_seq, erule on_id, auto intro: timeout_keeps)
qed

lemma release_resumes:
  assumes "proto True p"
  shows "act_post (\<lambda>_. proto False) (\<lambda>_. proto False) (lp_release_halt (noting be) r p)"
proof -
  have "puts_ok True [0]" "\<not> puts_end True [0]" by simp_all
  with on_put [OF assms, of "[0]"]
  have put: "act_post (\<lambda>_. proto False) (\<lambda>_. proto False) (on_backend (jot (add_words [0]) (be_put be 0)) p)" by simp
  show ?thesis
    unfolding lp_release_halt_def noting_fields
    by (rule act_post_seq, rule put, rule act_post_seq, erule keepsD [OF keeps_wait]) simp
qed

lemma keeps_change: "keeps (halted_change (noting be) (jot id m))"
  unfolding halted_change_def
  by (rule keepsI, rule act_post_seq, erule halt_waits, rule act_post_seq, erule on_id, erule release_resumes)

lemma keeps_span: "keeps (halted_span (noting be) (jot id m) (jot id m') cycles)"
  unfolding halted_span_def by (intro keeps_rules keeps_change keeps_run_ops) simp

lemma keeps_frames: "keeps (frames_loop (noting be) n ui stop uo)"
proof (induction n arbitrary: uo)
  case 0
  show ?case unfolding frames_loop.simps [of _ 0] nat.case by (intro keeps_rules)
next
  case (Suc n)
  show ?case unfolding frames_loop.simps [of _ "Suc n"] nat.case noting_fields
    by (intro keeps_rules keeps_cycle Suc.IH)
qed

lemma keeps_wait_frames: "keeps (wait_frames (noting be) frames ui)"
  unfolding wait_frames_def by (intro keeps_rules keeps_cycle keeps_frames)

section \<open>Sessions\<close>

text \<open>The calls of the port while the program runs; each may raise, and the host may go on with the port
  after it has.\<close>

datatype port_call = Call_cycle int | Call_run_ops "(run_kind \<times> int) list" | Call_reset int
  | Call_deselect int | Call_wait_frames int "int option" | Call_free_run int int

fun do_port_call :: "'b backend_ops \<Rightarrow> port_call \<Rightarrow> 'b lockstep_port \<Rightarrow> (host_error + unit) \<times> 'b lockstep_port" where
  "do_port_call be (Call_cycle ui) = act_bind (lp_cycle be ui) (\<lambda>_. act_return ())"
| "do_port_call be (Call_run_ops ops) = act_bind (run_ops be ops) (\<lambda>_. act_return ())"
| "do_port_call be (Call_reset n) = lp_reset be n"
| "do_port_call be (Call_deselect n) = lp_deselect be n"
| "do_port_call be (Call_wait_frames n ui) = act_bind (wait_frames be n ui) (\<lambda>_. act_return ())"
| "do_port_call be (Call_free_run n hz) = lp_free_run be n hz"

fun port_session :: "'b backend_ops \<Rightarrow> port_call list \<Rightarrow> 'b lockstep_port \<Rightarrow> 'b lockstep_port" where
  "port_session be [] p = p"
| "port_session be (c # cs) p = port_session be cs (snd (do_port_call be c p))"

lemma keeps_call: "keeps (do_port_call (noting be) c)"
proof (cases c)
  case (Call_reset n)
  show ?thesis unfolding Call_reset do_port_call.simps lp_reset_def noting_fields by (rule keeps_span)
next
  case (Call_deselect n)
  show ?thesis unfolding Call_deselect do_port_call.simps lp_deselect_def noting_fields
    by (intro keeps_if keeps_span keeps_get)
next
  case (Call_cycle ui)
  show ?thesis unfolding Call_cycle do_port_call.simps by (intro keeps_rules keeps_cycle)
next
  case (Call_run_ops ops)
  show ?thesis unfolding Call_run_ops do_port_call.simps by (intro keeps_bind keeps_get keeps_run_ops)
next
  case (Call_wait_frames n ui)
  show ?thesis unfolding Call_wait_frames do_port_call.simps by (intro keeps_rules keeps_wait_frames)
next
  case (Call_free_run n hz)
  show ?thesis unfolding Call_free_run do_port_call.simps lp_free_run_def by (intro keeps_rules keeps_wait_frames)
qed

lemma session_keeps: "proto False p \<Longrightarrow> proto False (port_session (noting be) cs p)"
proof (induction cs arbitrary: p)
  case (Cons c cs)
  have "proto False (snd (do_port_call (noting be) c p))"
    using keepsD [OF keeps_call Cons.prems, of be c] by (auto simp: act_post_def split: sum.splits prod.splits)
  from Cons.IH [OF this] show ?case by simp
qed simp

definition fresh_port :: "'b \<Rightarrow> int option \<Rightarrow> 'b noted lockstep_port" where
  "fresh_port b watchdog = new_lockstep_port \<lparr>nt_backend = b, nt_runs = [[]], nt_raised = False\<rparr> watchdog"

lemma fresh_proto: "proto False (fresh_port b watchdog)"
  by (simp add: fresh_port_def new_lockstep_port_def in_protocol_def)

text \<open>C40: The port keeps the FIFO protocol of its program. From a freshly started program, after any
  sequence of calls (cycles, batches, resets, deselections, waits, free runs), each of which may return or
  time out and restart the state machine, and as long as no call of the backend itself raises: between
  two starts of the program every word put names the handler of an operation, except the one that
  follows a HALT; and every HALT of the present run has been given its second word, so that the program
  is between two operations when a call ends.\<close>

theorem port_keeps_protocol:
  assumes "lp_backend (port_session (noting be) cs (fresh_port b watchdog)) = n" "\<not> nt_raised n"
  shows "nt_runs n \<noteq> [] \<and> (\<forall>r \<in> set (nt_runs n). puts_ok False r) \<and> \<not> puts_end False (hd (nt_runs n))"
  using session_keeps [OF fresh_proto, of be cs b watchdog] assms by (simp add: in_protocol_def)

definition demo_session :: "port_call list" where
  "demo_session = [Call_cycle 0x41, Call_reset 1, Call_cycle 0x40]"

lemma demo_words:
  "lp_backend (port_session (noting script) demo_session (fresh_port [1, 2, 3, 4, 5] None)) =
     \<lparr>nt_backend = [], nt_runs = [[op_cycle 0x41, OP_HALT, 0, op_cycle 0, OP_HALT, 0, op_cycle 0x40]],
       nt_raised = False\<rparr>"
  by code_simp

theorem port_keeps_protocol_witness:
  "puts_ok False [op_cycle 0x41, OP_HALT, 0, op_cycle 0, OP_HALT, 0, op_cycle 0x40]"
  using port_keeps_protocol [OF demo_words] by simp

text \<open>A reset on a backend without reset control raises only after the HALT, which keeps waiting: the word
  of the next cycle is taken for its second word.\<close>

definition no_reset :: "int list backend_ops" where
  "no_reset = script\<lparr>be_set_reset := (\<lambda>_. act_raise (HostError ''no reset control for this board''))\<rparr>"

lemma reset_without_control:
  "nt_runs (lp_backend (port_session (noting no_reset) [Call_reset 1, Call_cycle 0x41] (fresh_port [1, 2] None))) =
     [[OP_HALT, op_cycle 0x41]]"
  by code_simp

end
