(* ===== verification/Lockstep_Count.thy ===== *)
theory Lockstep_Count
  imports Lockstep_Port_Props Complex_Main
begin

text \<open>
  The count of clock edges. A stamp carries the low 24 bits of the frames counted by \<open>Y\<close>; the
  microsecond clock of the host resolves the wraps. The count is exact as long as the port says so,
  and \<open>wait_frames\<close> waits for it.
\<close>

section \<open>Wraps\<close>

lemma raise_delta_mod: "raise_delta delta low mod 2 ^ 24 = delta mod 2 ^ 24"
proof (induction delta low rule: raise_delta.induct)
  case (1 delta low)
  then show ?case by (subst raise_delta.simps) (simp add: Y_BITS_def push_bit_eq_mult)
qed

lemma raise_delta_low: "low \<le> raise_delta delta low" "delta \<le> raise_delta delta low"
proof (induction delta low rule: raise_delta.induct)
  case (1 delta low)
  {
    case 1
    then show ?case using \<open>delta < low \<Longrightarrow> low \<le> raise_delta (delta + shl 1 Y_BITS) low\<close>
      by (subst raise_delta.simps) simp
  next
    case 2
    then show ?case using \<open>delta < low \<Longrightarrow> delta + shl 1 Y_BITS \<le> raise_delta (delta + shl 1 Y_BITS) low\<close>
      by (subst raise_delta.simps) (auto simp: Y_BITS_def push_bit_eq_mult)
  }
qed

lemma raise_delta_high: "raise_delta delta low < max (delta + 1) (low + 2 ^ 24)"
proof (induction delta low rule: raise_delta.induct)
  case (1 delta low)
  then show ?case by (subst raise_delta.simps) (auto simp: Y_BITS_def push_bit_eq_mult max_def)
qed

text \<open>The one value in a window shorter than a wrap.\<close>

lemma raise_delta_unique:
  assumes "0 \<le> x" "low \<le> x" "x \<le> high" "high - low < 2 ^ 24"
  shows "raise_delta (x mod 2 ^ 24) low = x"
proof -
  let ?r = "raise_delta (x mod 2 ^ 24) low"
  have m: "?r mod 2 ^ 24 = x mod 2 ^ 24" using raise_delta_mod [of "x mod 2 ^ 24" low] by simp
  obtain k where k: "?r = x + 2 ^ 24 * k" using m by (metis mod_eqE mult.commute add.commute diff_add_cancel dvd_def mod_eq_dvd_iff)
  have lo: "low \<le> ?r" "x mod 2 ^ 24 \<le> ?r" by (rule raise_delta_low)+
  have hi: "?r < max (x mod 2 ^ 24 + 1) (low + 2 ^ 24)" by (rule raise_delta_high)
  have xm: "x mod 2 ^ 24 \<le> x" "0 \<le> x mod 2 ^ 24" using assms(1) by (simp_all add: zmod_le_nonneg_dividend)
  have "k \<le> 0"
  proof (rule ccontr)
    assume "\<not> k \<le> 0"
    then have "x + 2 ^ 24 \<le> ?r" using k by simp
    then show False using hi xm assms by (simp add: max_def split: if_splits)
  qed
  moreover have "0 \<le> k"
  proof (rule ccontr)
    assume "\<not> 0 \<le> k"
    then have "?r \<le> x - 2 ^ 24" using k by simp
    then show False using lo assms by linarith
  qed
  ultimately show ?thesis using k by simp
qed

text \<open>The low bits in a stamp.\<close>

lemma stamp_delta_mod: "stamp_delta v d = (- v - d) mod 2 ^ 24"
proof -
  have a: "x AND Y_MASK = x mod 2 ^ 24" for x :: int
  proof -
    have "Y_MASK = mask 24" by (simp add: Y_MASK_def Y_BITS_def mask_eq_exp_minus_1)
    then show ?thesis by (metis take_bit_eq_mask take_bit_eq_mod)
  qed
  show ?thesis unfolding stamp_delta_def a by (simp add: mod_diff_left_eq mod_minus_eq)
qed

lemma neg_mod:
  assumes "v mod m = (- y) mod (m::int)"
  shows "(- v - x) mod m = (y - x) mod m"
proof -
  have "m dvd v - - y" using assms by (simp only: mod_eq_dvd_iff)
  then have "m dvd - (v - - y)" by (simp only: dvd_minus_iff)
  also have "- (v - - y) = (- v - x) - (y - x)" by simp
  finally show ?thesis by (simp only: mod_eq_dvd_iff)
qed

section \<open>The count is exact\<close>

text \<open>MicroPython's clock: \<open>ticks_us\<close> is the whole microseconds of a real time modulo \<open>2 ^ 30\<close>, and
  \<open>ticks_diff\<close> takes the difference into the signed range of that width.\<close>

definition ticks :: "real \<Rightarrow> int" where "ticks t = \<lfloor>t\<rfloor> mod 2 ^ 30"

definition mp_ticks_diff :: "int \<Rightarrow> int \<Rightarrow> int" where
  "mp_ticks_diff a b = (a - b + 2 ^ 29) mod 2 ^ 30 - 2 ^ 29"

lemma ticks_diff_floor:
  assumes "x - y < 2 ^ 29 - 1" "y - x < 2 ^ 29 - (1::real)"
  shows "mp_ticks_diff (ticks x) (ticks y) = \<lfloor>x\<rfloor> - \<lfloor>y\<rfloor>"
proof -
  have "(ticks x - ticks y + 2 ^ 29) mod 2 ^ 30 = (\<lfloor>x\<rfloor> - \<lfloor>y\<rfloor> + 2 ^ 29) mod 2 ^ 30"
    unfolding ticks_def by (metis mod_add_left_eq mod_diff_eq)
  moreover have "x - y < 536870911" "y - x < 536870911" using assms by simp_all
  then have "0 \<le> \<lfloor>x\<rfloor> - \<lfloor>y\<rfloor> + 536870912" "\<lfloor>x\<rfloor> - \<lfloor>y\<rfloor> + 536870912 < 1073741824" by linarith+
  ultimately show ?thesis by (simp add: mp_ticks_diff_def)
qed

text \<open>What a stamp tells: frame \<open>f\<close> is the sampled one and \<open>y\<close> of the frames up to it were
  counted by \<open>Y\<close>; its time \<open>t\<close> lies between the put and the get.\<close>

record stamp_truth =
  tr_put :: real
  tr_time :: real
  tr_get :: real
  tr_y :: int

definition stamp_of :: "stamp_truth \<Rightarrow> int \<Rightarrow> result_entry \<Rightarrow> int \<Rightarrow> int \<Rightarrow> bool" where
  "stamp_of s sigma e v get_t \<longleftrightarrow> tr_put s \<le> tr_time s \<and> tr_time s \<le> tr_get s \<and>
     re_sigma e = sigma \<and> re_put_ticks e = ticks (tr_put s) \<and> get_t = ticks (tr_get s) \<and>
     v mod 2 ^ 24 = (- tr_y s) mod 2 ^ 24"

text \<open>Two stamps in order, less than half a period of the clock apart (nearly nine minutes).\<close>

definition in_reach :: "stamp_truth \<Rightarrow> stamp_truth \<Rightarrow> bool" where
  "in_reach s s' \<longleftrightarrow> tr_put s \<le> tr_put s' \<and> tr_get s \<le> tr_get s' \<and> tr_get s' - tr_put s < 2 ^ 29 - 1"

text \<open>The frames between two samples follow the clock to within one frame.\<close>

definition paced :: "real \<Rightarrow> stamp_truth \<Rightarrow> int \<Rightarrow> stamp_truth \<Rightarrow> int \<Rightarrow> bool" where
  "paced hz s sigma s' sigma' \<longleftrightarrow>
     \<bar>of_int ((tr_y s' + sigma') - (tr_y s + sigma)) - (tr_time s' - tr_time s) * hz / 1000000\<bar> \<le> 1"

lemma floor_scale:
  fixes x :: real
  assumes "0 < hz"
  shows "of_int n \<le> x \<Longrightarrow> n * hz div 1000000 \<le> \<lfloor>x * of_int hz / 1000000\<rfloor>"
    "x \<le> of_int n \<Longrightarrow> \<lfloor>x * of_int hz / 1000000\<rfloor> \<le> n * hz div 1000000"
proof -
  have e: "n * hz div 1000000 = \<lfloor>of_int n * of_int hz / (1000000::real)\<rfloor>"
    by (metis floor_divide_of_int_eq of_int_mult of_int_numeral)
  show "n * hz div 1000000 \<le> \<lfloor>x * of_int hz / 1000000\<rfloor>" if "of_int n \<le> x"
    unfolding e using assms that by (intro floor_mono divide_right_mono mult_right_mono) simp_all
  show "\<lfloor>x * of_int hz / 1000000\<rfloor> \<le> n * hz div 1000000" if "x \<le> of_int n"
    unfolding e using assms that by (intro floor_mono divide_right_mono mult_right_mono) simp_all
qed

lemma stamp_window:
  assumes "stamp_of s sigma e0 v0 g0" "stamp_of s' sigma' e v g" "paced (of_int (be_frame_hz be)) s sigma s' sigma'"
    and "0 < be_frame_hz be" "be_ticks_diff be = mp_ticks_diff" "in_reach s s'"
    and "stamp_bounds be sigma' (re_put_ticks e) g (sigma, re_put_ticks e0, g0) = (low, high)"
  shows "low \<le> tr_y s' - tr_y s" "tr_y s' - tr_y s \<le> high"
proof -
  let ?hz = "be_frame_hz be" and ?dt = "tr_time s' - tr_time s"
  define x where "x = ?dt * of_int ?hz / (1000000::real)"
  have p: "\<bar>of_int ((tr_y s' + sigma') - (tr_y s + sigma)) - x\<bar> \<le> 1"
    using assms(3) unfolding paced_def x_def .
  have order: "tr_put s \<le> tr_time s" "tr_time s \<le> tr_get s" "tr_put s' \<le> tr_time s'" "tr_time s' \<le> tr_get s'"
    "tr_put s \<le> tr_put s'" "tr_get s \<le> tr_get s'" "tr_get s' - tr_put s < 2 ^ 29 - 1"
    using assms(1,2,6) by (simp_all add: stamp_of_def in_reach_def)
  let ?lo = "mp_ticks_diff (re_put_ticks e) g0" and ?hi = "mp_ticks_diff g (re_put_ticks e0)"
  have d: "?lo = \<lfloor>tr_put s'\<rfloor> - \<lfloor>tr_get s\<rfloor>" "?hi = \<lfloor>tr_get s'\<rfloor> - \<lfloor>tr_put s\<rfloor>"
  proof -
    have "mp_ticks_diff (ticks (tr_put s')) (ticks (tr_get s)) = \<lfloor>tr_put s'\<rfloor> - \<lfloor>tr_get s\<rfloor>"
      "mp_ticks_diff (ticks (tr_get s')) (ticks (tr_put s)) = \<lfloor>tr_get s'\<rfloor> - \<lfloor>tr_put s\<rfloor>"
      using order by (auto intro!: ticks_diff_floor)
    then show "?lo = \<lfloor>tr_put s'\<rfloor> - \<lfloor>tr_get s\<rfloor>" "?hi = \<lfloor>tr_get s'\<rfloor> - \<lfloor>tr_put s\<rfloor>"
      using assms(1,2) by (simp_all add: stamp_of_def)
  qed
  have t: "of_int (?lo - 1) \<le> ?dt" "?dt \<le> of_int (?hi + 1)"
    using order unfolding d by linarith+
  have f: "(?lo - 1) * ?hz div 1000000 \<le> \<lfloor>x\<rfloor>" "\<lfloor>x\<rfloor> \<le> (?hi + 1) * ?hz div 1000000"
    unfolding x_def by (rule floor_scale [OF assms(4)] t)+
  have b: "low = (?lo - 1) * ?hz div 1000000 - (sigma' - sigma) - 2"
    "high = (?hi + 1) * ?hz div 1000000 - (sigma' - sigma) + 2"
    using assms(7) by (simp_all add: stamp_bounds_def Let_def assms(5))
  show "low \<le> tr_y s' - tr_y s" "tr_y s' - tr_y s \<le> high"
    using p f unfolding b by linarith+
qed

text \<open>C21: the count after a stamp that follows an earlier one. If the count was right at the earlier
  stamp, the two were taken in order less than half a period of MicroPython's microsecond clock apart,
  and the frames between the two sampled edges follow the clock to within one, then the port's count is
  the exact number of the edge sampled second whenever the port still says it is exact, however often
  the 24 bits of \<open>Y\<close> have wrapped in between. The time stamps are MicroPython's, which wrap too. The
  statement is not about the first stamp after a start, nor about longer pauses: there the
  port's word cannot be trusted (\<open>first_stamp_wrap\<close> and \<open>long_pause_wrap\<close> below).\<close>

theorem stamp_count_exact:
  assumes "stamp_of s sigma e0 v0 g0" "lp_last_stamp p = Some (sigma, re_put_ticks e0, g0)" "lp_d p = tr_y s"
    and "stamp_of s' sigma' e v g" "in_reach s s'" "paced (of_int (be_frame_hz be)) s sigma s' sigma'"
    and "tr_y s \<le> tr_y s'" "0 < be_frame_hz be" "be_ticks_diff be = mp_ticks_diff"
    and "lp_count_exact (lp_stamp be e v g p)"
  shows "lp_count (lp_stamp be e v g p) = tr_y s' + sigma' \<and> lp_d (lp_stamp be e v g p) = tr_y s'"
proof -
  obtain low high where b: "stamp_bounds be sigma' (re_put_ticks e) g (sigma, re_put_ticks e0, g0) = (low, high)"
    by fastforce
  have e: "re_sigma e = sigma'" using assms(4) by (simp add: stamp_of_def)
  note w = stamp_window [OF assms(1,4,6,8,9,5) b]
  have h: "high - low < 2 ^ 24"
    using assms(10) by (simp add: lp_stamp_def Let_def assms(2) e b Y_BITS_def push_bit_eq_mult)
  have "(- v - tr_y s) mod 2 ^ 24 = (tr_y s' - tr_y s) mod 2 ^ 24"
    by (rule neg_mod) (use assms(4) in \<open>simp only: stamp_of_def\<close>)
  then have "raise_delta (stamp_delta v (lp_d p)) low = tr_y s' - tr_y s"
    using raise_delta_unique [OF _ w h] assms(7) by (simp add: stamp_delta_mod assms(3))
  then show ?thesis
    using assms(3) by (simp_all add: lp_stamp_def Let_def assms(2) e b)
qed

text \<open>A second at 25 MHz, in which \<open>Y\<close> wraps once, and MicroPython's clock too.\<close>

theorem stamp_count_exact_witness:
  "\<exists>e p. lp_count (lp_stamp (script\<lparr>be_ticks_diff := mp_ticks_diff\<rparr>) e (2 ^ 25 - 24999998) 500000 p) = 25000002
     \<and> re_put_ticks e = 500000 \<and> lp_last_stamp p = Some (2, 2 ^ 30 - 500000, 2 ^ 30 - 500000)"
proof -
  let ?be = "script\<lparr>be_ticks_diff := mp_ticks_diff\<rparr>"
  let ?s = "\<lparr>tr_put = 2 ^ 30 - 500000, tr_time = 2 ^ 30 - 500000, tr_get = 2 ^ 30 - 500000, tr_y = 0\<rparr>"
    and ?s' = "\<lparr>tr_put = 2 ^ 30 + 500000, tr_time = 2 ^ 30 + 500000, tr_get = 2 ^ 30 + 500000, tr_y = 24999998\<rparr>"
  let ?prev = "\<lparr>re_kind = Stamp, re_sigma = 2, re_put_ticks = 2 ^ 30 - 500000, re_value = Some 0, re_get_ticks = None\<rparr>"
    and ?e = "\<lparr>re_kind = Stamp, re_sigma = 4, re_put_ticks = 500000, re_value = None, re_get_ticks = None\<rparr>"
  let ?p = "(new_lockstep_port [] None)\<lparr>lp_last_stamp := Some (2, re_put_ticks ?prev, 2 ^ 30 - 500000), lp_d := 0\<rparr>"
  have hz: "be_frame_hz ?be = 25000000" and td: "be_ticks_diff ?be = mp_ticks_diff"
    by (simp_all add: script_def)
  have a: "stamp_of ?s 2 ?prev 0 (2 ^ 30 - 500000)" "lp_last_stamp ?p = Some (2, re_put_ticks ?prev, 2 ^ 30 - 500000)"
    "lp_d ?p = tr_y ?s" "stamp_of ?s' 4 ?e (2 ^ 25 - 24999998) 500000" "in_reach ?s ?s'"
    "paced (of_int (be_frame_hz ?be)) ?s 2 ?s' 4" "tr_y ?s \<le> tr_y ?s'" "0 < be_frame_hz ?be"
    subgoal by (simp add: stamp_of_def ticks_def)
    subgoal by simp
    subgoal by simp
    subgoal by (simp add: stamp_of_def ticks_def)
    subgoal by (simp add: in_reach_def)
    subgoal by (simp add: paced_def hz)
    subgoal by simp
    subgoal by (simp add: hz)
    done
  have x: "lp_count_exact (lp_stamp ?be ?e (2 ^ 25 - 24999998) 500000 ?p)"
    by (simp add: lp_stamp_def stamp_bounds_def Let_def new_lockstep_port_def Y_BITS_def push_bit_eq_mult td hz
      mp_ticks_diff_def)
  from stamp_count_exact [OF a td x] show ?thesis by (intro exI [of _ ?e] exI [of _ ?p]) simp
qed

text \<open>Without an earlier stamp there is no bound: on a new port a first stamp after a wrap of \<open>Y\<close>
  (0.67 s at 25 MHz) gives a count that is short by the wrap, and the port still calls it exact.\<close>

lemma first_stamp_wrap:
  fixes b :: 'b
  assumes "v mod 2 ^ 24 = (- (2 ^ 24 + 5)) mod 2 ^ 24"
  shows "lp_count_exact (lp_stamp be e v t (new_lockstep_port b w)) \<and>
    lp_count (lp_stamp be e v t (new_lockstep_port b w)) = 5 + re_sigma e"
proof -
  have "stamp_delta v 0 = 5"
    using assms neg_mod [of v "2 ^ 24" "2 ^ 24 + 5" 0] by (simp add: stamp_delta_mod)
  then show ?thesis by (simp add: lp_stamp_def Let_def new_lockstep_port_def)
qed

text \<open>A pause of a whole period of the microsecond clock (18 minutes) between two stamps does not
  exist for \<open>ticks_diff\<close>: the frames counted by \<open>Y\<close> are taken modulo its 24 bits, and the count stays
  short by the rest although the port calls it exact.\<close>

lemma long_pause_wrap:
  assumes "stamp_of s sigma e0 v0 g0" "lp_last_stamp p = Some (sigma, re_put_ticks e0, g0)" "lp_d p = tr_y s"
    and "stamp_of s' (sigma + 2) e v g" "tr_put s' = tr_put s + 2 ^ 30" "tr_get s' = tr_get s + 2 ^ 30"
    and "tr_put s = tr_get s" "be_frame_hz be = 25000000" "be_ticks_diff be = mp_ticks_diff" "lp_count_exact p"
    and "0 \<le> tr_y s" "tr_y s \<le> tr_y s'"
  shows "lp_count_exact (lp_stamp be e v g p) \<and>
    lp_count (lp_stamp be e v g p) = tr_y s + (tr_y s' - tr_y s) mod 2 ^ 24 + sigma + 2"
proof -
  have g: "re_put_ticks e = g0" "g = re_put_ticks e0" "re_put_ticks e0 = g0" "re_sigma e = sigma + 2"
    using assms(1,4-7) by (simp_all add: stamp_of_def ticks_def)
  have "stamp_delta v (tr_y s) = (tr_y s' - tr_y s) mod 2 ^ 24"
    unfolding stamp_delta_mod by (rule neg_mod) (use assms(4) in \<open>simp only: stamp_of_def\<close>)
  then have sd: "stamp_delta v (tr_y s) = (tr_y s' - tr_y s) mod 2 ^ 24" .
  have nn: "0 \<le> (tr_y s' - tr_y s) mod 2 ^ 24" by simp
  have "raise_delta ((tr_y s' - tr_y s) mod 2 ^ 24) (- 29) = (tr_y s' - tr_y s) mod 2 ^ 24"
    using nn by (subst raise_delta.simps) auto
  then show ?thesis
    using assms(10) by (simp add: lp_stamp_def Let_def assms(2,3,8,9) g sd stamp_bounds_def mp_ticks_diff_def Y_BITS_def
      push_bit_eq_mult)
qed

section \<open>Waiting for frames\<close>

text \<open>Nothing is pending and the count belongs to the last stamp.\<close>

definition settled :: "'b lockstep_port \<Rightarrow> bool" where
  "settled p \<longleftrightarrow> lp_results p = [] \<and> lp_outstanding p = 0 \<and>
     (\<forall>s a b. lp_last_stamp p = Some (s, a, b) \<longrightarrow> lp_count p = lp_d p + s \<and> s \<le> lp_sigma p)"

lemma stamp_delta_nonneg: "0 \<le> stamp_delta v d"
  by (simp add: stamp_delta_mod)

lemma lp_stamp_fields:
  "lp_last_stamp (lp_stamp be e v t p) = Some (re_sigma e, re_put_ticks e, t)"
  "lp_count (lp_stamp be e v t p) = lp_d (lp_stamp be e v t p) + re_sigma e"
  "lp_d p \<le> lp_d (lp_stamp be e v t p)" "lp_sigma (lp_stamp be e v t p) = lp_sigma p"
  using stamp_delta_nonneg [of v "lp_d p"] order_trans [OF stamp_delta_nonneg raise_delta_low(2)]
  by (auto simp: lp_stamp_def Let_def split: option.splits prod.splits)

lemma lp_stamp_d_mono: "d \<le> lp_d p \<Longrightarrow> d \<le> lp_d (lp_stamp be e v t p)"
  using lp_stamp_fields(3) order_trans by blast

lemma act_bind_Pair: "act_bind (Pair (Inr a)) f = f a"
  by (simp add: act_bind_def fun_eq_iff)

lemma account_stamp:
  assumes "w AND 0x1F = ADDR_CYC" "lp_results p = []" "lp_outstanding p = 0"
  shows "ok_post (\<lambda>e p'. e = Some (length (lp_heap p)) \<and> lp_results p' = [length (lp_heap p)] \<and> lp_outstanding p' = 1 \<and>
     (\<exists>t. lp_heap p' = lp_heap p @ [\<lparr>re_kind = Stamp, re_sigma = lp_sigma p + 2, re_put_ticks = t, re_value = None, re_get_ticks = None\<rparr>]) \<and>
     lp_sigma p' = lp_sigma p + 2 \<and> lp_last_stamp p' = lp_last_stamp p \<and> lp_d p' = lp_d p \<and> lp_count p' = lp_count p)
     (account be w (Some Stamp) p)"
proof -
  have f: "FIXED_FRAMES (w AND 0x1F) = Some 1" by (simp only: assms(1)) (simp add: FIXED_FRAMES_def ADDR_CYC_def)
  show ?thesis
    by (simp add: account_def f, rule ok_backend) (simp add: assms)
qed

text \<open>What one cycle leaves: a settled port, two frames or more later.\<close>

definition cycled :: "int \<Rightarrow> (int \<times> int \<times> int) option \<Rightarrow> int \<Rightarrow> int \<Rightarrow> 'b lockstep_port \<Rightarrow> bool" where
  "cycled sigma st d count p' \<longleftrightarrow> settled p' \<and> lp_last_stamp p' \<noteq> None \<and> lp_sigma p' = sigma + 2 \<and>
     d \<le> lp_d p' \<and> lp_count p' = lp_d p' + sigma + 2"

lemma wait_stamp:
  assumes "lp_heap p = h @ [\<lparr>re_kind = Stamp, re_sigma = lp_sigma p, re_put_ticks = t, re_value = None, re_get_ticks = None\<rparr>]"
    "lp_results p = [length h]" "lp_outstanding p = 1"
  shows "ok_post (\<lambda>_ p'. settled p' \<and> lp_last_stamp p' \<noteq> None \<and> lp_sigma p' = lp_sigma p \<and> lp_d p \<le> lp_d p' \<and>
     lp_count p' = lp_d p' + lp_sigma p) (lp_wait be (length h) p)"
proof -
  let ?Q = "\<lambda>_ p'. lp_results p' = [length h] \<and> \<not> pending p' (length h) \<and> lp_outstanding p' = 0 \<and>
     lp_last_stamp p' \<noteq> None \<and> (\<forall>s a b. lp_last_stamp p' = Some (s, a, b) \<longrightarrow> s = lp_sigma p) \<and>
     lp_sigma p' = lp_sigma p \<and> lp_d p \<le> lp_d p' \<and> lp_count p' = lp_d p' + lp_sigma p"
  have pend: "pending p (length h)" using assms(1) by (simp add: pending_def)
  have one: "ok_post ?Q (collect_one be p)"
    unfolding collect_one_def
    apply (simp add: assms(2) pend)
    apply (rule ok_backend)
    subgoal for got b
      apply (cases got)
       apply (simp add: lp_timeout_raises)
      apply simp
      apply (rule ok_backend)
      apply (simp add: assms lp_stamp_fields lp_stamp_d_mono pending_def)
      done
    done
  have "ok_post ?Q (collect_until be (Suc (Suc 0)) (length h) p)"
    unfolding collect_until.simps [of be "Suc (Suc 0)"] act_bind_basic
    apply (simp only: pend not_True_eq_False if_False nat.case)
    apply (rule act_post_seq)
     apply (rule one)
    apply (simp add: collect_until.simps [of be "Suc 0"])
    done
  then show ?thesis
    unfolding lp_wait_def act_bind_basic assms(2) list.size add_0_left
    by (elim act_post_seq) (simp add: settled_def)
qed

lemma lp_cycle_ok:
  fixes p :: "'b lockstep_port"
  assumes "settled p"
  shows "ok_post (\<lambda>_ p'. settled p' \<and> lp_last_stamp p' \<noteq> None \<and> lp_d p \<le> lp_d p' \<and> lp_sigma p' = lp_sigma p + 2 \<and>
     lp_count p' = lp_d p' + lp_sigma p + 2) (lp_cycle be ui p)"
proof (cases "lp_env p")
  case True
  then show ?thesis unfolding lp_cycle_def by (rule check_env_raises)
next
  case False
  have idle: "lp_results p = []" "lp_outstanding p = 0" using assms by (simp_all add: settled_def)
  have room: "make_room be 1 p = (Inr (), p)"
    using idle by (simp add: make_room_def collect_down.simps [of be 0] LP_RX_DEPTH_def)
  have one: "submit be [(w, Some Stamp, False)] = submit_chunk be [(w, Some Stamp, False)]" for w
    by (simp add: submit_def add_chunk_Nil act_bind_def fun_eq_iff split: sum.splits prod.splits)
  let ?Q = "\<lambda>e p'. e = Some (length (lp_heap p)) \<and> lp_results p' = [length (lp_heap p)] \<and> lp_outstanding p' = 1 \<and>
     (\<exists>t. lp_heap p' = lp_heap p @ [\<lparr>re_kind = Stamp, re_sigma = lp_sigma p + 2, re_put_ticks = t, re_value = None, re_get_ticks = None\<rparr>]) \<and>
     lp_sigma p' = lp_sigma p + 2 \<and> lp_last_stamp p' = lp_last_stamp p \<and> lp_d p' = lp_d p \<and> lp_count p' = lp_count p"
  have put: "ok_post ?Q (dispatch be (op_cycle ui) (Some Stamp) p)"
    unfolding dispatch_def one submit_chunk_def
    apply (simp add: LP_TX_DEPTH_def chunk_results_def act_bind_assoc act_bind_run(1) [where m = "make_room be 1", OF room])
    apply (rule ok_backend)
    subgoal for space b
      apply (cases space)
       apply (simp add: act_bind_Pair)
       apply (rule act_post_seq)
        apply (rule account_stamp)
          apply (simp_all add: idle op_words_low)
       apply (rule ok_backend)
       apply simp
      apply (rule act_post_seq)
       apply (rule lp_timeout_raises [where Q = "\<lambda>_ _. False"])
      apply simp
      done
    done
  show ?thesis
    unfolding lp_cycle_def check_env_run [OF False] act_bind_basic
  proof (rule act_post_seq, rule put, elim conjE exE)
    fix e and p1 :: "'b lockstep_port" and t
    assume e: "e = Some (length (lp_heap p))" and h: "lp_heap p1 = lp_heap p @ [\<lparr>re_kind = Stamp, re_sigma = lp_sigma p + 2, re_put_ticks = t, re_value = None, re_get_ticks = None\<rparr>]"
      and r: "lp_results p1 = [length (lp_heap p)]" "lp_outstanding p1 = 1" "lp_sigma p1 = lp_sigma p + 2" "lp_d p1 = lp_d p"
    let ?p = "p1\<lparr>lp_window := shr ui 6\<rparr>"
    have w: "ok_post (\<lambda>_ p'. settled p' \<and> lp_last_stamp p' \<noteq> None \<and> lp_sigma p' = lp_sigma ?p \<and> lp_d ?p \<le> lp_d p' \<and>
       lp_count p' = lp_d p' + lp_sigma ?p) (lp_wait be (length (lp_heap p)) ?p)"
      by (rule wait_stamp) (simp_all add: h r)
    show "ok_post (\<lambda>_ p'. settled p' \<and> lp_last_stamp p' \<noteq> None \<and> lp_d p \<le> lp_d p' \<and> lp_sigma p' = lp_sigma p + 2 \<and>
       lp_count p' = lp_d p' + lp_sigma p + 2) (act_bind (lp_wait be (the e)) (\<lambda>v. act_return (lp_sample be ui (lp_window p) v)) ?p)"
      unfolding e option.sel by (rule act_post_seq, rule w) (simp add: r)
  qed
qed

text \<open>Every pass adds two frames at least, so the passes are enough.\<close>

lemma frames_loop_ok:
  assumes "settled p" "lp_last_stamp p \<noteq> None" "nat (stop - lp_count p) \<le> n"
  shows "ok_post (\<lambda>_ p'. stop \<le> lp_count p') (frames_loop be n ui stop uo p)"
  using assms
proof (induction n arbitrary: p uo)
  case 0
  then show ?case by (simp add: frames_loop.simps [of be 0])
next
  case (Suc n)
  show ?case
  proof (cases "stop \<le> lp_count p")
    case True
    then show ?thesis by (simp add: frames_loop.simps [of be "Suc n"])
  next
    case False
    have c: "lp_count p \<le> lp_d p + lp_sigma p" using Suc.prems by (auto simp: settled_def)
    have loop: "ok_post (\<lambda>_ p'. stop \<le> lp_count p') (act_bind (lp_cycle be ui) (\<lambda>u. frames_loop be n ui stop u) p1)"
      if p1: "settled p1" "lp_d p1 = lp_d p" "lp_sigma p1 = lp_sigma p" for p1
      by (rule act_post_seq, rule lp_cycle_ok [OF p1(1)], elim conjE, rule Suc.IH)
        (use c p1 Suc.prems(3) False in auto)
    have nap: "ok_post (\<lambda>_ p1. settled p1 \<and> lp_d p1 = lp_d p \<and> lp_sigma p1 = lp_sigma p)
       ((if b then on_backend (be_sleep_us be us) else act_return ()) p)" for b us
      using Suc.prems(1) post_backend [where p = p and m = "be_sleep_us be us" and
        Q = "\<lambda>_ p1. settled p1 \<and> lp_d p1 = lp_d p \<and> lp_sigma p1 = lp_sigma p"] by (simp add: settled_def)
    have go: "\<not> stop - lp_count p \<le> 0" using False by simp
    show ?thesis
      unfolding frames_loop.simps [of be "Suc n"] act_bind_basic
      by (simp only: go if_False nat.case, rule act_post_seq, rule nap, elim conjE, rule loop)
  qed
qed

text \<open>C22: on a settled port, a \<open>wait_frames\<close> that returns has waited: the count of the last sample is
  at least \<open>frames\<close> above that of its first cycle, within the passes the model allows.\<close>

theorem wait_frames_waits:
  assumes "settled p" "wait_frames be frames ui p = (Inr uo, p')"
  shows "\<exists>u p1. lp_cycle be (case ui of None \<Rightarrow> shl (lp_window p) 6 | Some w \<Rightarrow> w) p = (Inr u, p1) \<and>
     lp_count p1 + frames \<le> lp_count p'"
proof -
  let ?ui = "case ui of None \<Rightarrow> shl (lp_window p) 6 | Some w \<Rightarrow> w"
  from assms(2) obtain u p1 where c: "lp_cycle be ?ui p = (Inr u, p1)"
    and f: "frames_loop be (nat frames) ?ui (lp_count p1 + frames) u p1 = (Inr uo, p')"
    by (cases "lp_cycle be ?ui p") (auto simp: wait_frames_def act_bind_def split: sum.splits)
  from act_postD(1) [OF lp_cycle_ok [OF assms(1)] c] have s: "settled p1" "lp_last_stamp p1 \<noteq> None" by simp_all
  have "lp_count p1 + frames \<le> lp_count p'"
    using act_postD(1) [OF frames_loop_ok [OF s] f] by simp
  then show ?thesis using c by blast
qed

lemma script_waits:
  "fst (wait_frames script 5 None (new_lockstep_port [0, 0xFFFFFF, 0xFFFFFE, 0xFFFFFD] None)) = Inr 0"
  by code_simp

theorem wait_frames_waits_witness:
  "\<exists>u p1. lp_cycle script 0 (new_lockstep_port [0, 0xFFFFFF, 0xFFFFFE, 0xFFFFFD] None) = (Inr u, p1) \<and>
     lp_count p1 + 5 \<le> lp_count (snd (wait_frames script 5 None (new_lockstep_port [0, 0xFFFFFF, 0xFFFFFE, 0xFFFFFD] None)))"
proof -
  let ?p = "new_lockstep_port [0, 0xFFFFFF, 0xFFFFFE, 0xFFFFFD::int] None"
  have s: "settled ?p" "lp_window ?p = 0" by (simp_all add: settled_def new_lockstep_port_def)
  have "wait_frames script 5 None ?p = (Inr 0, snd (wait_frames script 5 None ?p))"
    using script_waits by (metis prod.collapse)
  from wait_frames_waits [OF s(1) this] show ?thesis by (simp add: s(2))
qed

end
