(* ===== verification/Fpga_Bridge.thy ===== *)
theory Fpga_Bridge
  imports Host_Image
begin

text \<open>
  The PC host of the FPGA prototype, \<open>fpga/host/pe_host.py\<close>: the byte protocol of the UART bridge
  and the chip's host protocol on top of it. The transport is a parameter: its state, \<open>write\<close> and
  \<open>read\<close> with the timeout already given. Bytes are integers. Messages are kept as the values they
  show; what \<open>log\<close> prints is left out.
\<close>

section \<open>Errors\<close>

datatype bridge_exn =
    No_reply int
  | Short_reply int int
  | Bridge_timeout int int
  | Bad_window int
  | Port_owned int
  | Unknown_command int
  | Needs_newer_isa string json int
  | Invalid_command
  | Unsupported_image string
  | Source_identity string
  | Bytecode_identity string
  | Byte_range
  | Int_overflow
  | Index_outside
  | Bad_key string
  | Bad_type
  | Cannot_open string
  | Check_failure string

section \<open>Constants and words\<close>

definition BR_SELECT :: int where "BR_SELECT = 0"
definition BR_BEGIN :: int where "BR_BEGIN = 1"
definition BR_COMMIT :: int where "BR_COMMIT = 2"
definition BR_OWN :: int where "BR_OWN = 3"
definition BR_START :: int where "BR_START = 4"
definition BR_STOP :: int where "BR_STOP = 5"
definition BR_ROUTE :: int where "BR_ROUTE = 6"
definition BR_READ_SELECT :: int where "BR_READ_SELECT = 8"
definition BR_STATUS :: int where "BR_STATUS = 0"
definition BR_TIMESTAMP :: int where "BR_TIMESTAMP = 1"
definition BR_LEVELS :: int where "BR_LEVELS = 2"
definition BR_PC :: int where "BR_PC = 3"
definition BR_COUNT :: int where "BR_COUNT = 5"
definition BR_VERSION :: int where "BR_VERSION = 7"
definition BR_ISA_VERSION :: int where "BR_ISA_VERSION = 2"
definition BR_SET :: int where "BR_SET = 2"
definition BR_DIR :: int where "BR_DIR = 3"
definition BR_JMP :: int where "BR_JMP = 5"
definition MAX_IN_FLIGHT :: int where "MAX_IN_FLIGHT = 48"

definition fpga_instruction :: "int \<Rightarrow> int \<Rightarrow> int \<Rightarrow> int \<Rightarrow> int" where
  "fpga_instruction op a b c = shl op 24 OR shl a 16 OR shl b 8 OR c"

definition fpga_immediate :: "int \<Rightarrow> int \<Rightarrow> int" where
  "fpga_immediate op value = shl op 24 OR (value AND 0xFFFFFF)"

text \<open>\<open>int.from_bytes(_, "little")\<close>, \<open>to_bytes(4, "little")\<close> and \<open>bytes([_, _])\<close>.\<close>

fun le_value :: "int list \<Rightarrow> int" where
  "le_value [] = 0"
| "le_value (b # bs) = b + 256 * le_value bs"

definition le_bytes :: "int \<Rightarrow> bridge_exn + int list" where
  "le_bytes x = (if 0 \<le> x \<and> x < 2 ^ 32 then Inr (pack_le 4 x) else Inl Int_overflow)"

definition two_bytes :: "int \<Rightarrow> int \<Rightarrow> bridge_exn + int list" where
  "two_bytes a b = (if 0 \<le> a \<and> a < 256 \<and> 0 \<le> b \<and> b < 256 then Inr [a, b] else Inl Byte_range)"

definition byte_at :: "int list \<Rightarrow> nat \<Rightarrow> bridge_exn + int" where
  "byte_at r i = (if i < length r then Inr (r ! i) else Inl Index_outside)"

definition slice :: "int list \<Rightarrow> nat \<Rightarrow> nat \<Rightarrow> int list" where
  "slice r a b = take (b - a) (drop a r)"

section \<open>The transport\<close>

record 't transport =
  tr_write :: "int list \<Rightarrow> ('t, bridge_exn, unit) act"
  tr_read :: "int \<Rightarrow> ('t, bridge_exn, int list) act"

section \<open>Framing\<close>

definition bridge_more :: "'t transport \<Rightarrow> int \<Rightarrow> ('t, bridge_exn, int list) act" where
  "bridge_more t count = act_bind (tr_read t count) (\<lambda>data.
     act_bind (act_require (int (length data) = count) (Short_reply (int (length data)) count)) (\<lambda>_.
     act_return data))"

text \<open>V, S, C, R/K, T, Q, P and U by their codes.\<close>

definition bridge_reply :: "'t transport \<Rightarrow> int \<Rightarrow> ('t, bridge_exn, int list) act" where
  "bridge_reply t cmd =
     act_bind (tr_read t 1) (\<lambda>head.
     act_bind (act_require (head \<noteq> []) (No_reply cmd)) (\<lambda>_.
     let code = hd head; more = (\<lambda>n. act_bind (bridge_more t n) (\<lambda>d. act_return (head @ d))) in
     if cmd = 86 \<and> code = 86 then more 9
     else if cmd = 83 \<and> code = 83 then more 6
     else if cmd = 67 \<and> code = 67 then more 4
     else if cmd = 82 \<and> code = 75 then more 4
     else if code = 84 then more 1
     else if cmd = 81 \<and> code = 81 then more 38
     else if cmd = 80 \<and> code = 80 then more 96
     else if cmd = 85 \<and> code = 85 then
       act_bind (bridge_more t 2) (\<lambda>n.
       act_bind (bridge_more t (9 * le_value n + 2)) (\<lambda>d. act_return (head @ n @ d)))
     else act_return head))"

definition bridge_check :: "int \<Rightarrow> int list \<Rightarrow> bridge_exn + int list" where
  "bridge_check cmd reply = and_then (byte_at reply 0) (\<lambda>code.
     if code = 84 then and_then (byte_at reply 1) (\<lambda>n. Inl (Bridge_timeout cmd n))
     else if code = 69 then Inl (Bad_window cmd)
     else if code = 68 then Inl (Port_owned cmd)
     else if code = 63 then Inl (Unknown_command cmd)
     else Inr reply)"

text \<open>The frames of one write: the inner loop of \<open>transact\<close>.\<close>

fun take_chunk :: "int \<Rightarrow> int list list \<Rightarrow> int list list \<Rightarrow> int list list \<times> int list list" where
  "take_chunk size' chunk [] = (chunk, [])"
| "take_chunk size' chunk (f # fs) =
     (if chunk = [] \<or> size' + int (length f) \<le> MAX_IN_FLIGHT
      then take_chunk (size' + int (length f)) (chunk @ [f]) fs else (chunk, f # fs))"

lemma take_chunk_concat: "take_chunk n chunk fs = (c, rest) \<Longrightarrow> c @ rest = chunk @ fs"
  by (induction n chunk fs rule: take_chunk.induct) (auto split: if_splits)

lemma take_chunk_grows: "take_chunk n chunk fs = (c, rest) \<Longrightarrow> length chunk \<le> length c"
  by (induction n chunk fs rule: take_chunk.induct) (auto split: if_splits)

lemma take_chunk_shorter: "fs \<noteq> [] \<Longrightarrow> take_chunk 0 [] fs = (c, rest) \<Longrightarrow> length rest < length fs"
proof -
  assume fs: "fs \<noteq> []" and t: "take_chunk 0 [] fs = (c, rest)"
  obtain f gs where f: "fs = f # gs" using fs by (cases fs) auto
  have "1 \<le> length c" using take_chunk_grows [of "int (length f)" "[f]" gs c rest] t by (simp add: f)
  moreover have "c @ rest = fs" using take_chunk_concat [OF t] by simp
  ultimately show "length rest < length fs" by (auto dest: arg_cong [where f = length])
qed

fun read_replies :: "'t transport \<Rightarrow> int list list \<Rightarrow> ('t, bridge_exn, int list list) act" where
  "read_replies t [] = act_return []"
| "read_replies t (f # fs) =
     act_bind (act_require (f \<noteq> []) Index_outside) (\<lambda>_.
     act_bind (bridge_reply t (hd f)) (\<lambda>r.
     act_bind (read_replies t fs) (\<lambda>rs. act_return (r # rs))))"

fun check_replies :: "int list list \<Rightarrow> int list list \<Rightarrow> bridge_exn + int list list" where
  "check_replies (f # fs) (r # rs) = and_then (bridge_check (hd f) r) (\<lambda>r.
     and_then (check_replies fs rs) (\<lambda>rs. Inr (r # rs)))"
| "check_replies _ _ = Inr []"

definition transact_chunk :: "'t transport \<Rightarrow> int list list \<Rightarrow> ('t, bridge_exn, int list list) act" where
  "transact_chunk t chunk =
     act_bind (tr_write t (concat chunk)) (\<lambda>_.
     act_bind (read_replies t chunk) (\<lambda>raw. act_lift (check_replies chunk raw)))"

function transact :: "'t transport \<Rightarrow> int list list \<Rightarrow> ('t, bridge_exn, int list list) act" where
  "transact t fs =
     (if fs = [] then act_return []
      else let (chunk, rest) = take_chunk 0 [] fs in
        act_bind (transact_chunk t chunk) (\<lambda>rs.
        act_bind (transact t rest) (\<lambda>rs'. act_return (rs @ rs'))))"
  by pat_completeness auto

termination transact
  by (relation "measure (length \<circ> snd)") (auto dest: take_chunk_shorter [OF _ sym])

declare transact.simps [simp del]

definition bridge_one :: "'t transport \<Rightarrow> int list \<Rightarrow> ('t, bridge_exn, int list) act" where
  "bridge_one t frame = act_bind (transact t [frame]) (\<lambda>rs.
     if rs = [] then act_raise Index_outside else act_return (hd rs))"

section \<open>Commands of the bridge\<close>

record bridge_version =
  bv_protocol :: int
  bv_board :: int
  bv_clock :: int
  bv_clk_hz :: int
  bv_baud_div :: int

definition has_scope :: "bridge_version \<Rightarrow> bool" where
  "has_scope v \<longleftrightarrow> bv_protocol v \<ge> 2"

record bridge_sample =
  bs_uo :: int
  bs_uio_pad :: int
  bs_uio_oe :: int
  bs_uio_out :: int
  bs_ui :: int
  bs_flags :: int

definition decode_version :: "int list \<Rightarrow> bridge_exn + bridge_version" where
  "decode_version r = and_then (byte_at r 1) (\<lambda>a. and_then (byte_at r 2) (\<lambda>b. and_then (byte_at r 3) (\<lambda>c.
     Inr \<lparr>bv_protocol = a, bv_board = b, bv_clock = c, bv_clk_hz = le_value (slice r 4 8),
       bv_baud_div = le_value (slice r 8 10)\<rparr>)))"

definition version :: "'t transport \<Rightarrow> ('t, bridge_exn, bridge_version) act" where
  "version t = act_bind (bridge_one t [86]) (\<lambda>r. act_lift (decode_version r))"

text \<open>\<open>Sample(*r[1:7])\<close> fails unless there are six bytes.\<close>

definition decode_sample :: "int list \<Rightarrow> bridge_exn + bridge_sample" where
  "decode_sample r = (case slice r 1 7 of
     [a, b, c, d, e, f] \<Rightarrow> Inr \<lparr>bs_uo = a, bs_uio_pad = b, bs_uio_oe = c, bs_uio_out = d, bs_ui = e, bs_flags = f\<rparr>
   | _ \<Rightarrow> Inl Bad_type)"

definition sample :: "'t transport \<Rightarrow> ('t, bridge_exn, bridge_sample) act" where
  "sample t = act_bind (bridge_one t [83]) (\<lambda>r. act_lift (decode_sample r))"

definition cycles :: "'t transport \<Rightarrow> ('t, bridge_exn, int) act" where
  "cycles t = act_bind (bridge_one t [67]) (\<lambda>r. act_return (le_value (slice r 1 5)))"

definition ignore_result :: "('t, 'e, 'a) act \<Rightarrow> ('t, 'e, unit) act" where
  "ignore_result m = act_bind m (\<lambda>_. act_return ())"

definition set_limit :: "'t transport \<Rightarrow> int \<Rightarrow> ('t, bridge_exn, unit) act" where
  "set_limit t n = act_bind (act_lift (le_bytes n)) (\<lambda>bs. ignore_result (bridge_one t (76 # bs)))"

definition bridge_reset :: "'t transport \<Rightarrow> int \<Rightarrow> ('t, bridge_exn, unit) act" where
  "bridge_reset t n = act_bind (act_lift (two_bytes 88 n)) (\<lambda>f. ignore_result (bridge_one t f))"

definition set_ena :: "'t transport \<Rightarrow> bool \<Rightarrow> ('t, bridge_exn, unit) act" where
  "set_ena t on = act_bind (act_lift (two_bytes 78 (of_bool on))) (\<lambda>f. ignore_result (bridge_one t f))"

definition write_frame :: "int \<Rightarrow> int \<Rightarrow> bridge_exn + int list" where
  "write_frame window word = and_then (two_bytes 87 window) (\<lambda>h.
     and_then (le_bytes (word AND 0xFFFFFFFF)) (\<lambda>bs. Inr (h @ bs)))"

definition bridge_write :: "'t transport \<Rightarrow> int \<Rightarrow> int \<Rightarrow> ('t, bridge_exn, unit) act" where
  "bridge_write t window word = act_bind (act_lift (write_frame window word)) (\<lambda>f. ignore_result (bridge_one t f))"

fun write_frames :: "int \<Rightarrow> int list \<Rightarrow> bridge_exn + int list list" where
  "write_frames window [] = Inr []"
| "write_frames window (w # ws) = and_then (write_frame window w) (\<lambda>f.
     and_then (write_frames window ws) (\<lambda>fs. Inr (f # fs)))"

definition write_many :: "'t transport \<Rightarrow> int \<Rightarrow> int list \<Rightarrow> ('t, bridge_exn, unit) act" where
  "write_many t window ws = act_bind (act_lift (write_frames window ws)) (\<lambda>fs. ignore_result (transact t fs))"

definition bridge_read :: "'t transport \<Rightarrow> int \<Rightarrow> bool \<Rightarrow> ('t, bridge_exn, int) act" where
  "bridge_read t window bounce =
     act_bind (act_lift (two_bytes 82 (window OR (if bounce then 0x80 else 0)))) (\<lambda>f.
     act_bind (bridge_one t f) (\<lambda>r. act_return (le_value (slice r 1 5))))"

section \<open>The chip over the bridge\<close>

definition fc_reset :: "'t transport \<Rightarrow> ('t, bridge_exn, unit) act" where
  "fc_reset t = bridge_reset t 4"

definition fc_command :: "'t transport \<Rightarrow> int \<Rightarrow> int \<Rightarrow> ('t, bridge_exn, unit) act" where
  "fc_command t opcode payload =
     act_bind (act_require (0 \<le> opcode \<and> opcode \<le> 255 \<and> 0 \<le> payload \<and> payload < shl 1 24) Invalid_command) (\<lambda>_.
     bridge_write t 0 (shl opcode 24 OR payload))"

definition fc_status :: "'t transport \<Rightarrow> int \<Rightarrow> ('t, bridge_exn, int) act" where
  "fc_status t selection = act_bind (fc_command t BR_READ_SELECT selection) (\<lambda>_. bridge_read t 0 True)"

record fpga_engine_status =
  es_running :: int
  es_committed :: int
  es_stalled :: int
  es_fault :: int
  es_tx_level :: int
  es_rx_level :: int
  es_pc :: int
  es_count :: int

definition fc_engine_status :: "'t transport \<Rightarrow> int \<Rightarrow> ('t, bridge_exn, fpga_engine_status) act" where
  "fc_engine_status t engine =
     act_bind (fc_command t BR_SELECT engine) (\<lambda>_.
     act_bind (fc_status t BR_STATUS) (\<lambda>st.
     act_bind (fc_status t BR_LEVELS) (\<lambda>levels.
     act_bind (fc_status t BR_PC) (\<lambda>pc.
     act_bind (fc_status t BR_COUNT) (\<lambda>count.
     act_return \<lparr>es_running = st AND 1, es_committed = shr st 1 AND 1, es_stalled = shr st 2 AND 1,
       es_fault = (if st AND 8 \<noteq> 0 then shr st 8 AND 0xFF else 0), es_tx_level = levels AND 0xFFFF,
       es_rx_level = shr levels 16, es_pc = pc, es_count = count\<rparr>)))))"

text \<open>The engine and the ownership may be values of an image, checked where they are used.\<close>

definition fc_load_words :: "'t transport \<Rightarrow> bridge_exn + int \<Rightarrow> bridge_exn + int \<Rightarrow> int list \<Rightarrow> ('t, bridge_exn, unit) act" where
  "fc_load_words t engine own words =
     act_bind (act_lift engine) (\<lambda>e.
     act_bind (fc_command t BR_SELECT e) (\<lambda>_.
     act_bind (fc_command t BR_BEGIN 0) (\<lambda>_.
     act_bind (act_lift own) (\<lambda>pins.
     act_bind (fc_command t BR_OWN pins) (\<lambda>_.
     act_bind (write_many t 1 words) (\<lambda>_.
     fc_command t BR_COMMIT (int (length words))))))))"

definition fc_load :: "'t transport \<Rightarrow> int \<Rightarrow> int list \<Rightarrow> int \<Rightarrow> int \<Rightarrow> ('t, bridge_exn, unit) act" where
  "fc_load t engine words ownership open_drain =
     fc_load_words t (Inr engine) (Inr (ownership OR shl open_drain 8)) words"

definition push_tx :: "'t transport \<Rightarrow> int \<Rightarrow> int list \<Rightarrow> ('t, bridge_exn, unit) act" where
  "push_tx t engine words = act_bind (fc_command t BR_SELECT engine) (\<lambda>_. write_many t 2 words)"

fun fc_read_words :: "'t transport \<Rightarrow> nat \<Rightarrow> ('t, bridge_exn, int list) act" where
  "fc_read_words t 0 = act_return []"
| "fc_read_words t (Suc n) = act_bind (bridge_read t 3 False) (\<lambda>w.
     act_bind (fc_read_words t n) (\<lambda>ws. act_return (w # ws)))"

definition fc_pop_rx :: "'t transport \<Rightarrow> int \<Rightarrow> int \<Rightarrow> ('t, bridge_exn, int list) act" where
  "fc_pop_rx t engine count = act_bind (fc_command t BR_SELECT engine) (\<lambda>_. fc_read_words t (nat count))"

definition fc_route :: "'t transport \<Rightarrow> int \<Rightarrow> int \<Rightarrow> int \<Rightarrow> ('t, bridge_exn, unit) act" where
  "fc_route t source destination count =
     fc_command t BR_ROUTE (source OR shl destination 2 OR 16 OR shl count 5)"

section \<open>Firmware images\<close>

text \<open>\<open>image[key]\<close>, an integer operand and the words of an image.\<close>

definition item :: "json \<Rightarrow> string \<Rightarrow> bridge_exn + json" where
  "item v key = (case v of
     JObj kvs \<Rightarrow> (case map_of kvs key of None \<Rightarrow> Inl (Bad_key key) | Some w \<Rightarrow> Inr w)
   | _ \<Rightarrow> Inl Bad_type)"

definition json_int :: "json \<Rightarrow> bridge_exn + int" where
  "json_int v = (case v of JInt i \<Rightarrow> Inr i | JBool b \<Rightarrow> Inr (of_bool b) | _ \<Rightarrow> Inl Bad_type)"

text \<open>A float passes the comparisons of \<open>command\<close> but not its \<open>|\<close>.\<close>

definition json_payload :: "json \<Rightarrow> bridge_exn + int" where
  "json_payload v = (case v of
     JFloat m k \<Rightarrow> Inl (if 0 \<le> m \<and> m < 2 ^ 24 * 2 ^ k then Bad_type else Invalid_command)
   | _ \<Rightarrow> json_int v)"

fun all_ints :: "json list \<Rightarrow> bridge_exn + int list" where
  "all_ints [] = Inr []"
| "all_ints (v # vs) = and_then (json_int v) (\<lambda>i. and_then (all_ints vs) (\<lambda>js. Inr (i # js)))"

definition json_ints :: "json \<Rightarrow> bridge_exn + int list" where
  "json_ints v = (case v of
     JList vs \<Rightarrow> all_ints vs
   | JObj kvs \<Rightarrow> if kvs = [] then Inr [] else Inl Bad_type
   | JStr s \<Rightarrow> if s = [] then Inr [] else Inl Bad_type
   | _ \<Rightarrow> Inl Bad_type)"

fun words_payload :: "json list \<Rightarrow> bridge_exn + int list" where
  "words_payload [] = Inr []"
| "words_payload (v # vs) = and_then (json_int v) (\<lambda>i. and_then (le_bytes i) (\<lambda>bs.
     and_then (words_payload vs) (\<lambda>rest. Inr (bs @ rest))))"

definition image_payload :: "json \<Rightarrow> bridge_exn + int list" where
  "image_payload v = (case v of JList vs \<Rightarrow> words_payload vs | _ \<Rightarrow> json_ints v)"

text \<open>\<open>read_json\<close> and \<open>read_bytes\<close> read a file of the firmware directory.\<close>

definition bridge_load_image ::
  "(string \<Rightarrow> bridge_exn + json) \<Rightarrow> (string \<Rightarrow> bridge_exn + int list) \<Rightarrow> string \<Rightarrow> bridge_exn + json" where
  "bridge_load_image read_json read_bytes name =
     and_then (read_json (name @ ''.image.json'')) (\<lambda>img.
     and_then (item img ''schema_version'') (\<lambda>schema.
     and_then (raise_if (\<not> py_eq (JStr ''protocol-emulator.firmware-image.v1'') schema) (Unsupported_image name)) (\<lambda>_.
     and_then (read_bytes (name @ ''.source.json'')) (\<lambda>source.
     and_then (item img ''source_sha256'') (\<lambda>digest.
     and_then (raise_if (\<not> py_eq (JStr (sha256_hex None source)) digest) (Source_identity name)) (\<lambda>_.
     and_then (item img ''words'') (\<lambda>words.
     and_then (image_payload words) (\<lambda>payload.
     and_then (item img ''bytecode_sha256'') (\<lambda>digest.
     and_then (raise_if (\<not> py_eq (JStr (sha256_hex None payload)) digest) (Bytecode_identity name)) (\<lambda>_.
     Inr img))))))))))"

text \<open>\<open>version < image["isa_version"]\<close>.\<close>

definition isa_newer :: "int \<Rightarrow> json \<Rightarrow> bridge_exn + bool" where
  "isa_newer have_isa v = (case number_of v of None \<Rightarrow> Inl Bad_type | Some (m, k) \<Rightarrow> Inr (have_isa * 2 ^ k < m))"

definition load_firmware ::
  "(string \<Rightarrow> bridge_exn + json) \<Rightarrow> (string \<Rightarrow> bridge_exn + int list) \<Rightarrow> 't transport \<Rightarrow> string \<Rightarrow> int option
     \<Rightarrow> ('t, bridge_exn, json) act" where
  "load_firmware read_json read_bytes t name engine =
     act_bind (act_lift (bridge_load_image read_json read_bytes name)) (\<lambda>img.
     act_bind (fc_status t BR_VERSION) (\<lambda>have_isa.
     act_bind (act_lift (item img ''isa_version'')) (\<lambda>isa.
     act_bind (act_lift (isa_newer have_isa isa)) (\<lambda>newer.
     act_bind (act_require (\<not> newer) (Needs_newer_isa name isa have_isa)) (\<lambda>_.
     act_bind (act_lift (case engine of None \<Rightarrow> item img ''engine'' | Some e \<Rightarrow> Inr (JInt e))) (\<lambda>e.
     act_bind (act_lift (item img ''words'')) (\<lambda>words.
     act_bind (act_lift (item img ''owned_pins'')) (\<lambda>pins.
     act_bind (act_lift (item img ''open_drain'')) (\<lambda>drain.
     act_bind (act_lift (json_ints words)) (\<lambda>ws.
     act_bind (fc_load_words t (json_payload e)
       (and_then (json_int pins) (\<lambda>a. and_then (json_int drain) (\<lambda>d. Inr (a OR shl d 8)))) ws) (\<lambda>_.
     act_return img)))))))))))"

section \<open>Bring-up tests\<close>

definition expect :: "bool \<Rightarrow> string \<Rightarrow> ('t, bridge_exn, unit) act" where
  "expect condition message = act_require condition (Check_failure message)"

text \<open>The timestamp of the core between two cycle counts of the bridge.\<close>

definition stamp_samples :: "'t transport \<Rightarrow> ('t, bridge_exn, int \<times> int \<times> int) act" where
  "stamp_samples t = act_bind (cycles t) (\<lambda>before.
     act_bind (fc_status t BR_TIMESTAMP) (\<lambda>stamp.
     act_bind (cycles t) (\<lambda>after. act_return (before, stamp, after))))"

definition stamps_agree :: "int \<times> int \<times> int \<Rightarrow> int \<times> int \<times> int \<Rightarrow> bool" where
  "stamps_agree s0 s1 = (case s0 of (b0, t0, a0) \<Rightarrow> case s1 of (b1, t1, a1) \<Rightarrow>
     let dt = (t1 - t0) AND 0xFFFFFFFF; lo = (b1 - a0) AND 0xFFFFFFFF; hi = (a1 - b0) AND 0xFFFFFFFF
     in lo \<le> dt \<and> dt \<le> hi)"

definition engine_idle :: "'t transport \<Rightarrow> int \<Rightarrow> ('t, bridge_exn, unit) act" where
  "engine_idle t engine = act_bind (fc_engine_status t engine) (\<lambda>st.
     expect (es_running st = 0 \<and> es_committed st = 0 \<and> es_fault st = 0 \<and> es_tx_level st = 0 \<and> es_rx_level st = 0)
       ''not idle after reset'')"

definition drive_test :: "'t transport \<Rightarrow> int \<Rightarrow> ('t, bridge_exn, bridge_sample) act" where
  "drive_test t pattern =
     act_bind (fc_load t 0 [fpga_immediate BR_DIR 0xFF, fpga_immediate BR_SET pattern, fpga_immediate BR_JMP 2] 0xFF 0) (\<lambda>_.
     act_bind (fc_command t BR_START 1) (\<lambda>_.
     act_bind (sample t) (\<lambda>s.
     act_bind (expect (bs_uio_oe s = 0xFF \<and> bs_uio_out s = pattern \<and> bs_uio_pad s = pattern) ''drive'') (\<lambda>_.
     act_bind (fc_command t BR_STOP 1) (\<lambda>_.
     act_bind (sample t) (\<lambda>s.
     act_bind (expect (bs_uio_oe s = 0) ''pins not released after STOP'') (\<lambda>_. act_return s)))))))"

definition open_drain_test :: "'t transport \<Rightarrow> int \<Rightarrow> (bridge_sample \<Rightarrow> bool) \<Rightarrow> string \<Rightarrow> ('t, bridge_exn, unit) act" where
  "open_drain_test t level good message =
     act_bind (fc_load t 0 [fpga_immediate BR_DIR 0x80, fpga_immediate BR_SET level, fpga_immediate BR_JMP 2] 0x80 0x80) (\<lambda>_.
     act_bind (fc_command t BR_START 1) (\<lambda>_.
     act_bind (sample t) (\<lambda>s.
     act_bind (expect (good s) message) (\<lambda>_.
     fc_command t BR_STOP 1))))"

text \<open>The last sample of the drive test is the one whose released pads are checked.\<close>

definition fpga_selftest :: "'t transport \<Rightarrow> ('t, bridge_exn, unit) act" where
  "fpga_selftest t =
     act_bind (fc_reset t) (\<lambda>_.
     act_bind (fc_status t BR_VERSION) (\<lambda>have_isa.
     act_bind (expect (have_isa = BR_ISA_VERSION) ''ISA version'') (\<lambda>_.
     act_bind (act_for [0, 1, 2, 3] (engine_idle t)) (\<lambda>_.
     act_bind (stamp_samples t) (\<lambda>s0.
     act_bind (stamp_samples t) (\<lambda>s1.
     act_bind (expect (stamps_agree s0 s1) ''timestamp'') (\<lambda>_.
     act_bind (sample t) (\<lambda>s.
     act_bind (expect (bs_uio_oe s = 0) ''pins driven after reset'') (\<lambda>_.
     act_bind (drive_test t 0xA5) (\<lambda>_.
     act_bind (drive_test t 0x5A) (\<lambda>s.
     act_bind (expect (bs_uio_pad s = 0xFF) ''released pads'') (\<lambda>_.
     act_bind (open_drain_test t 0 (\<lambda>s. bs_uio_oe s = 0x80 \<and> bs_uio_pad s AND 0x80 = 0) ''open-drain low'') (\<lambda>_.
     act_bind (open_drain_test t 0x80 (\<lambda>s. bs_uio_oe s = 0 \<and> bs_uio_pad s AND 0x80 \<noteq> 0) ''open-drain release'') (\<lambda>_.
     fc_reset t))))))))))))))"

text \<open>The wait of \<open>loopback\<close> polls until the level is reached or the deadline of the clock is over:
  \<open>late k\<close> is the comparison after poll \<open>k\<close>. \<open>fuel\<close> bounds the polls.\<close>

fun wait_level :: "'t transport \<Rightarrow> (nat \<Rightarrow> bool) \<Rightarrow> nat \<Rightarrow> nat \<Rightarrow> int \<Rightarrow> ('t, bridge_exn, unit) act" where
  "wait_level t late k fuel level = act_bind (fc_engine_status t 2) (\<lambda>st.
     if es_rx_level st \<ge> level \<or> late k then act_return ()
     else case fuel of 0 \<Rightarrow> act_return () | Suc n \<Rightarrow> wait_level t late (Suc k) n level)"

declare wait_level.simps [simp del]

definition fpga_loopback ::
  "(string \<Rightarrow> bridge_exn + json) \<Rightarrow> (string \<Rightarrow> bridge_exn + int list) \<Rightarrow> (nat \<Rightarrow> bool) \<Rightarrow> nat
     \<Rightarrow> 't transport \<Rightarrow> int list \<Rightarrow> ('t, bridge_exn, unit) act" where
  "fpga_loopback read_json read_bytes late fuel t message =
     (let words = take 8 message in
     act_bind (fc_reset t) (\<lambda>_.
     act_bind (act_for [''uart-tx'', ''uart-rx'', ''spi-controller-mode0'']
       (\<lambda>name. ignore_result (load_firmware read_json read_bytes t name None))) (\<lambda>_.
     act_bind (push_tx t 0 words) (\<lambda>_.
     act_bind (fc_route t 1 2 (int (length words))) (\<lambda>_.
     act_bind (fc_command t BR_START 7) (\<lambda>_.
     act_bind (wait_level t late 0 fuel (int (length words))) (\<lambda>_.
     act_bind (fc_command t BR_STOP 7) (\<lambda>_.
     act_bind (fc_engine_status t 1) (\<lambda>uart.
     act_bind (fc_engine_status t 2) (\<lambda>spi.
     act_bind (fc_pop_rx t 2 (es_rx_level spi)) (\<lambda>got.
     act_bind (expect (es_fault uart = 0 \<or> es_fault uart = 3) ''UART RX engine fault'') (\<lambda>_.
     act_bind (expect (es_fault spi = 0) ''SPI engine fault'') (\<lambda>_.
     act_bind (expect (got = words) ''engine 2 RX'') (\<lambda>_.
     fc_reset t))))))))))))))"

end
