(* ===== verification/Fpga_Bridge_Props.thy ===== *)
theory Fpga_Bridge_Props
  imports Fpga_Bridge
begin

text \<open>
  The bridge protocol over a serial line. A device answers every frame with one whole reply; the
  host then gets the replies of its frames in order, never overruns the receive FIFO, and an error
  reply leaves nothing behind for the next transaction.
\<close>

section \<open>Frames and replies\<close>

text \<open>The length of a frame by its command byte (\<open>L\<close> and \<open>U\<close> 5, \<open>W\<close> 6, \<open>A\<close> 10, \<open>R\<close>, \<open>X\<close>, \<open>N\<close> 2).\<close>

definition frame_len :: "int \<Rightarrow> nat" where
  "frame_len cmd = (if cmd = 76 \<or> cmd = 85 then 5 else if cmd = 65 then 10 else if cmd = 87 then 6 else if cmd \<in> {82, 88, 78} then 2 else 1)"

definition framed :: "int list \<Rightarrow> bool" where
  "framed f \<longleftrightarrow> f \<noteq> [] \<and> length f = frame_len (hd f)"

definition reply_rest :: "int \<Rightarrow> int list \<Rightarrow> int" where
  "reply_rest cmd r =
     (if cmd = 86 \<and> hd r = 86 then 9 else if cmd = 83 \<and> hd r = 83 then 6
      else if cmd = 67 \<and> hd r = 67 then 4 else if cmd = 82 \<and> hd r = 75 then 4
      else if hd r = 84 then 1 else if cmd = 81 \<and> hd r = 81 then 38
      else if cmd = 80 \<and> hd r = 80 then 96
      else if cmd = 85 \<and> hd r = 85 then 2 + (9 * le_value (slice r 1 3) + 2) else 0)"

definition whole :: "int \<Rightarrow> int list \<Rightarrow> bool" where
  "whole cmd r \<longleftrightarrow> r \<noteq> [] \<and> int (length r) = 1 + reply_rest cmd r \<and>
     (cmd = 85 \<and> hd r = 85 \<longrightarrow> 3 \<le> length r)"

text \<open>A device: its reply to a frame and its next state.\<close>

type_synonym 'd device = "int list \<Rightarrow> 'd \<Rightarrow> int list \<times> 'd"

fun serve :: "'d device \<Rightarrow> int list list \<Rightarrow> 'd \<Rightarrow> int list list \<times> 'd" where
  "serve respond [] d = ([], d)"
| "serve respond (f # fs) d =
     (let (r, d1) = respond f d; (rs, d2) = serve respond fs d1 in (r # rs, d2))"

definition answers_whole :: "'d device \<Rightarrow> bool" where
  "answers_whole respond \<longleftrightarrow> (\<forall>f d. framed f \<longrightarrow> whole (hd f) (fst (respond f d)))"

lemma serve_append:
  "serve respond (fs @ gs) d =
     (fst (serve respond fs d) @ fst (serve respond gs (snd (serve respond fs d))),
      snd (serve respond gs (snd (serve respond fs d))))"
  by (induction fs arbitrary: d) (auto simp: Let_def split: prod.splits)

lemma serve_length: "length (fst (serve respond fs d)) = length fs"
  by (induction fs arbitrary: d) (simp_all add: Let_def case_prod_unfold)

section \<open>The line\<close>

text \<open>What the host relies on. The bytes of frames written get the bytes of their replies.\<close>

locale bridge_line =
  fixes t :: "'t transport" and respond :: "'d device" and pending :: "'t \<Rightarrow> int list"
    and dev :: "'t \<Rightarrow> 'd" and sent :: "'t \<Rightarrow> int list list"
  assumes write_law: "\<forall>f \<in> set fs. framed f \<Longrightarrow> \<exists>s'. tr_write t (concat fs) s = (Inr (), s') \<and>
      pending s' = pending s @ concat (fst (serve respond fs (dev s))) \<and>
      dev s' = snd (serve respond fs (dev s)) \<and> sent s' = sent s @ [concat fs]"
    and read_law: "\<exists>s'. tr_read t n s = (Inr (take (nat n) (pending s)), s') \<and>
      pending s' = drop (nat n) (pending s) \<and> dev s' = dev s \<and> sent s' = sent s"

text \<open>A serial line in front of any device.\<close>

record 'd line =
  ln_dev :: 'd
  ln_in :: "int list"
  ln_sent :: "int list list"

function split_frames :: "int list \<Rightarrow> int list list" where
  "split_frames bs = (if bs = [] then [] else
     take (frame_len (hd bs)) bs # split_frames (drop (frame_len (hd bs)) bs))"
  by pat_completeness auto

termination split_frames
  by (relation "measure length") (auto simp: frame_len_def)

declare split_frames.simps [simp del]

lemma split_concat: "\<forall>f \<in> set fs. framed f \<Longrightarrow> split_frames (concat fs) = fs"
proof (induction fs)
  case (Cons f fs)
  then have "f \<noteq> []" "length f = frame_len (hd f)" "split_frames (concat fs) = fs"
    by (simp_all add: framed_def)
  then show ?case by (subst split_frames.simps) (simp add: hd_append)
qed (simp add: split_frames.simps)

definition line_transport :: "'d device \<Rightarrow> 'd line transport" where
  "line_transport respond =
     \<lparr>tr_write = (\<lambda>data s. let (rs, d) = serve respond (split_frames data) (ln_dev s) in
        (Inr (), s\<lparr>ln_dev := d, ln_in := ln_in s @ concat rs, ln_sent := ln_sent s @ [data]\<rparr>)),
      tr_read = (\<lambda>n s. (Inr (take (nat n) (ln_in s)), s\<lparr>ln_in := drop (nat n) (ln_in s)\<rparr>))\<rparr>"

interpretation lines: bridge_line "line_transport respond" respond ln_in ln_dev ln_sent
  for respond :: "'d device"
  by unfold_locales (auto simp: line_transport_def split_concat split: prod.splits)

section \<open>Chunks\<close>

lemma take_chunk_bound:
  "take_chunk n chunk fs = (c, rest) \<Longrightarrow> n = int (length (concat chunk)) \<Longrightarrow>
   n \<le> MAX_IN_FLIGHT \<or> length chunk \<le> 1 \<Longrightarrow>
   int (length (concat c)) \<le> MAX_IN_FLIGHT \<or> length c \<le> 1"
proof (induction n chunk fs rule: take_chunk.induct)
  case (2 n chunk f fs)
  then show ?case
    by (cases "chunk = [] \<or> n + int (length f) \<le> MAX_IN_FLIGHT") auto
qed auto

lemma framed_short: "framed f \<Longrightarrow> length f \<le> 10"
  by (simp add: framed_def frame_len_def split: if_splits)

lemma chunk_fits:
  assumes "take_chunk 0 [] fs = (c, rest)" "\<forall>f \<in> set fs. framed f"
  shows "int (length (concat c)) \<le> MAX_IN_FLIGHT"
proof -
  have "c @ rest = fs" using take_chunk_concat [OF assms(1)] by simp
  then have fr: "\<forall>f \<in> set c. framed f" using assms(2) by auto
  from take_chunk_bound [OF assms(1)] consider "int (length (concat c)) \<le> MAX_IN_FLIGHT" | "length c \<le> 1"
    by auto
  then show ?thesis
  proof cases
    case 2
    then consider "c = []" | f where "c = [f]" by (cases c) auto
    then show ?thesis using fr by cases (auto simp: MAX_IN_FLIGHT_def dest: framed_short)
  qed
qed

section \<open>Errors\<close>

text \<open>The errors among the replies, in order.\<close>

fun reply_errors :: "int list list \<Rightarrow> int list list \<Rightarrow> bridge_exn list" where
  "reply_errors (f # fs) (r # rs) =
     (case bridge_check (hd f) r of Inl e \<Rightarrow> e # reply_errors fs rs | Inr _ \<Rightarrow> reply_errors fs rs)"
| "reply_errors _ _ = []"

lemma bridge_check_same: "bridge_check cmd r = Inr r' \<Longrightarrow> r' = r"
  by (auto simp: bridge_check_def and_then_Inr_iff split: if_splits)

definition checked :: "int list list \<Rightarrow> int list list \<Rightarrow> bridge_exn + int list list" where
  "checked fs rs = (case reply_errors fs rs of [] \<Rightarrow> Inr rs | e # _ \<Rightarrow> Inl e)"

lemma check_replies_errors:
  "length fs = length rs \<Longrightarrow> check_replies fs rs = checked fs rs"
proof (induction fs rs rule: check_replies.induct)
  case (1 f fs r rs)
  then show ?case
    by (cases "bridge_check (hd f) r") (auto simp: checked_def dest: bridge_check_same split: list.splits)
qed (auto simp: checked_def)

lemma reply_errors_append:
  "length fs = length rs \<Longrightarrow> reply_errors (fs @ gs) (rs @ qs) = reply_errors fs rs @ reply_errors gs qs"
  by (induction fs rs rule: reply_errors.induct) (auto split: sum.splits)

section \<open>Transactions\<close>

context bridge_line
begin

definition moved :: "'t \<Rightarrow> int list \<Rightarrow> 't \<Rightarrow> bool" where
  "moved s rest s' \<longleftrightarrow> pending s' = rest \<and> dev s' = dev s \<and> sent s' = sent s"

lemma read_moved:
  assumes "pending s = a @ rest" "int (length a) = n"
  obtains s' where "tr_read t n s = (Inr a, s')" "moved s rest s'"
proof -
  obtain s' where "tr_read t n s = (Inr (take (nat n) (pending s)), s')" "moved s (drop (nat n) (pending s)) s'"
    using read_law unfolding moved_def by blast
  then show ?thesis using assms by (intro that [of s']) auto
qed

lemma moved_trans: "moved s a s' \<Longrightarrow> moved s' b s'' \<Longrightarrow> moved s b s''"
  by (simp add: moved_def)

lemma more_moved:
  assumes "pending s = a @ rest" "int (length a) = n"
  obtains s' where "bridge_more t n s = (Inr a, s')" "moved s rest s'"
proof -
  obtain s' where r: "tr_read t n s = (Inr a, s')" "moved s rest s'" using read_moved [OF assms] .
  then show ?thesis using assms(2) by (intro that [of s']) (simp_all add: bridge_more_def act_bind_run)
qed

lemma reply_moved:
  assumes "pending s = r @ rest" "whole cmd r"
  obtains s' where "bridge_reply t cmd s = (Inr r, s')" "moved s rest s'"
proof -
  obtain c bs where r: "r = c # bs" using assms(2) by (cases r) (auto simp: whole_def)
  obtain s1 where s1: "tr_read t 1 s = (Inr [c], s1)" "moved s (bs @ rest) s1"
    using read_moved [of s "[c]" "bs @ rest" 1] assms(1) by (auto simp: r)
  have n: "int (length bs) = reply_rest cmd r" using assms(2) by (simp add: whole_def r)
  have p1: "pending s1 = bs @ rest" using s1(2) by (simp add: moved_def)
  obtain s2 where s2: "bridge_more t (int (length bs)) s1 = (Inr bs, s2)" "moved s1 rest s2"
    using more_moved [OF p1 refl] .
  have m: "moved s rest s2" using moved_trans [OF s1(2) s2(2)] .
  show ?thesis
  proof (cases "cmd = 85 \<and> c = 85")
    case False
    show ?thesis
    proof (cases "bs = []")
      case True
      then have "bridge_reply t cmd s = (Inr r, s1)"
        using False n unfolding bridge_reply_def
        by (auto simp: act_bind_run(1) [where m = "tr_read t 1", OF s1(1)] Let_def r reply_rest_def True split: if_splits)
      then show ?thesis using that s1(2) True by simp
    next
      case ne: False
      then have "bridge_reply t cmd s = (Inr r, s2)"
        using False n s2(1) unfolding bridge_reply_def
        by (auto simp: act_bind_run(1) [where m = "tr_read t 1", OF s1(1)] Let_def r reply_rest_def
          act_bind_run(1) [where m = "bridge_more t n" for n] split: if_splits)
      then show ?thesis using that m by simp
    qed
  next
    case True
    obtain a b cs where bs: "bs = a # b # cs"
      using assms(2) True by (cases bs; cases "tl bs") (auto simp: whole_def r)
    have p: "pending s1 = [a, b] @ (cs @ rest)" using p1 by (simp add: bs)
    obtain s3 where s3: "bridge_more t 2 s1 = (Inr [a, b], s3)" "moved s1 (cs @ rest) s3"
      using more_moved [OF p] by auto
    have k: "int (length cs) = 9 * le_value [a, b] + 2"
      using n True by (simp add: r bs reply_rest_def slice_def)
    have p3: "pending s3 = cs @ rest" using s3(2) by (simp add: moved_def)
    obtain s4 where s4: "bridge_more t (9 * le_value [a, b] + 2) s3 = (Inr cs, s4)" "moved s3 rest s4"
      using more_moved [OF p3 k] .
    have "bridge_reply t cmd s = (Inr r, s4)"
      using True s4(1) unfolding bridge_reply_def
      by (simp add: act_bind_run(1) [where m = "tr_read t 1", OF s1(1)] act_bind_run(1) [where m = "bridge_more t 2", OF s3(1)] Let_def r bs act_bind_run)
    then show ?thesis using that moved_trans [OF moved_trans [OF s1(2) s3(2)] s4(2)] by simp
  qed
qed

lemma read_replies_moved:
  assumes "list_all2 (\<lambda>f r. f \<noteq> [] \<and> whole (hd f) r) fs rs" "pending s = concat rs @ rest"
  obtains s' where "read_replies t fs s = (Inr rs, s')" "moved s rest s'"
  using assms
proof (induction fs rs arbitrary: s thesis rule: list_all2_induct)
  case Nil
  then show ?case by (simp add: moved_def)
next
  case (Cons f fs r rs)
  have p: "pending s = r @ (concat rs @ rest)" using Cons.prems(2) by simp
  obtain s1 where s1: "bridge_reply t (hd f) s = (Inr r, s1)" "moved s (concat rs @ rest) s1"
    using reply_moved [OF p] Cons.hyps(1) by blast
  have "pending s1 = concat rs @ rest" using s1(2) by (simp add: moved_def)
  then obtain s2 where s2: "read_replies t fs s1 = (Inr rs, s2)" "moved s1 rest s2"
    using Cons.IH by blast
  have "read_replies t (f # fs) s = (Inr (r # rs), s2)"
    using Cons.hyps(1) by (simp add: act_bind_run(1) [where m = "bridge_reply t (hd f)", OF s1(1)]
      act_bind_run(1) [where m = "read_replies t fs", OF s2(1)])
  then show ?case using Cons.prems(1) moved_trans [OF s1(2) s2(2)] by blast
qed

lemma served_whole:
  assumes "answers_whole respond" "\<forall>f \<in> set fs. framed f"
  shows "list_all2 (\<lambda>f r. f \<noteq> [] \<and> whole (hd f) r) fs (fst (serve respond fs d))"
  using assms(2)
proof (induction fs arbitrary: d)
  case (Cons f fs)
  then show ?case using assms(1)
    by (auto simp: Let_def case_prod_unfold answers_whole_def framed_def)
qed simp

lemma chunk_moved:
  assumes "answers_whole respond" "\<forall>f \<in> set c. framed f" "pending s = []"
  obtains s' where "transact_chunk t c s = (checked c (fst (serve respond c (dev s))), s')"
    "pending s' = []" "dev s' = snd (serve respond c (dev s))" "sent s' = sent s @ [concat c]"
proof -
  let ?rs = "fst (serve respond c (dev s))"
  obtain s1 where s1: "tr_write t (concat c) s = (Inr (), s1)" "pending s1 = pending s @ concat ?rs"
    "dev s1 = snd (serve respond c (dev s))" "sent s1 = sent s @ [concat c]"
    using write_law [OF assms(2)] by blast
  have p: "pending s1 = concat ?rs @ []" using s1(2) assms(3) by simp
  obtain s2 where s2: "read_replies t c s1 = (Inr ?rs, s2)" "moved s1 [] s2"
    using read_replies_moved [OF served_whole [OF assms(1,2)] p] .
  have "transact_chunk t c s = (checked c ?rs, s2)"
    by (simp add: transact_chunk_def act_bind_run(1) [where m = "tr_write t (concat c)", OF s1(1)]
      act_bind_run(1) [where m = "read_replies t c", OF s2(1)] check_replies_errors serve_length)
  then show ?thesis using that s2(2) s1 by (simp add: moved_def)
qed

text \<open>What a transaction leaves after \<open>n\<close> frames: an empty line, the device after these frames and
  writes that fit the receive FIFO.\<close>

definition after :: "'t \<Rightarrow> int list list \<Rightarrow> 't \<Rightarrow> bool" where
  "after s fs s' \<longleftrightarrow> pending s' = [] \<and> dev s' = snd (serve respond fs (dev s)) \<and>
     (\<exists>ws. sent s' = sent s @ ws \<and> concat ws = concat fs \<and> (\<forall>w \<in> set ws. int (length w) \<le> MAX_IN_FLIGHT))"

lemma after_trans: "after s fs s' \<Longrightarrow> after s' gs s'' \<Longrightarrow> after s (fs @ gs) s''"
  unfolding after_def by (auto simp: serve_append)

lemma transact_serves:
  assumes "answers_whole respond"
  shows "\<forall>f \<in> set fs. framed f \<Longrightarrow> pending s = [] \<Longrightarrow>
     \<exists>n s'. n \<le> length fs \<and> after s (take n fs) s' \<and>
       transact t fs s = (checked (take n fs) (fst (serve respond (take n fs) (dev s))), s') \<and>
       (reply_errors (take n fs) (fst (serve respond (take n fs) (dev s))) = [] \<longrightarrow> n = length fs)"
proof (induction fs arbitrary: s rule: length_induct)
  case (1 fs)
  show ?case
  proof (cases "fs = []")
    case True
    then show ?thesis using 1(3) by (simp add: transact.simps [of t "[]"] checked_def after_def)
  next
    case False
    obtain c rest where tc: "take_chunk 0 [] fs = (c, rest)" by fastforce
    have fs: "fs = c @ rest" using take_chunk_concat [OF tc] by simp
    have fr: "\<forall>f \<in> set c. framed f" "\<forall>f \<in> set rest. framed f" using 1(2) fs by auto
    have lt: "length rest < length fs" using take_chunk_shorter [OF False tc] .
    let ?rs = "fst (serve respond c (dev s))"
    obtain s1 where s1: "transact_chunk t c s = (checked c ?rs, s1)"
      "pending s1 = []" "dev s1 = snd (serve respond c (dev s))" "sent s1 = sent s @ [concat c]"
      using chunk_moved [OF assms fr(1) 1(3)] .
    have a1: "after s c s1" using s1 chunk_fits [OF tc 1(2)] by (auto simp: after_def)
    show ?thesis
    proof (cases "reply_errors c ?rs")
      case (Cons e es)
      then have "transact t fs s = (Inl e, s1)"
        using s1(1) False by (subst transact.simps) (simp add: tc checked_def act_bind_run)
      then show ?thesis
        by (intro exI [of _ "length c"] exI [of _ s1]) (use a1 Cons in \<open>simp add: fs checked_def\<close>)
    next
      case Nil
      from 1(1) lt fr(2) s1(2) obtain n s2 where n: "n \<le> length rest" "after s1 (take n rest) s2"
        "transact t rest s1 = (checked (take n rest) (fst (serve respond (take n rest) (dev s1))), s2)"
        "reply_errors (take n rest) (fst (serve respond (take n rest) (dev s1))) = [] \<longrightarrow> n = length rest"
        by blast
      let ?qs = "fst (serve respond (take n rest) (dev s1))"
      have tk: "take (length c + n) fs = c @ take n rest" by (simp add: fs)
      have sv: "fst (serve respond (c @ take n rest) (dev s)) = ?rs @ ?qs"
        by (simp add: serve_append s1(3))
      have er: "reply_errors (c @ take n rest) (?rs @ ?qs) = reply_errors (take n rest) ?qs"
        by (simp add: reply_errors_append serve_length Nil)
      have ch: "transact_chunk t c s = (Inr ?rs, s1)" using s1(1) Nil by (simp add: checked_def)
      have step: "transact t fs s = act_bind (transact t rest) (\<lambda>qs. act_return (?rs @ qs)) s1"
        by (subst transact.simps) (simp add: False tc act_bind_run(1) [where m = "transact_chunk t c", OF ch])
      have eq: "transact t fs s = (checked (c @ take n rest) (?rs @ ?qs), s2)"
      proof (cases "reply_errors (take n rest) ?qs")
        case Nil
        then have "transact t rest s1 = (Inr ?qs, s2)" using n(3) by (simp add: checked_def)
        then show ?thesis by (simp add: step checked_def er Nil act_bind_run)
      next
        case (Cons e es)
        then have "transact t rest s1 = (Inl e, s2)" using n(3) by (simp add: checked_def)
        then show ?thesis by (simp add: step checked_def er Cons act_bind_run)
      qed
      have len: "length fs = length c + length rest" by (simp add: fs)
      show ?thesis
      proof (intro exI conjI)
        show "length c + n \<le> length fs" using n(1) len by simp
        show "after s (take (length c + n) fs) s2" unfolding tk by (rule after_trans [OF a1 n(2)])
        show "transact t fs s = (checked (take (length c + n) fs) (fst (serve respond (take (length c + n) fs) (dev s))), s2)"
          unfolding tk sv by (rule eq)
        show "reply_errors (take (length c + n) fs) (fst (serve respond (take (length c + n) fs) (dev s))) = [] \<longrightarrow>
            length c + n = length fs"
          unfolding tk sv er len using n(4) by (simp only: add_left_cancel)
      qed
    qed
  qed
qed

end

section \<open>Transactions keep in step\<close>

text \<open>C24: with a device that answers each frame with one whole reply, a transaction on an empty line
  runs the device on a prefix of the frames in order, in writes of at most 48 bytes; it returns
  their replies, or raises the error of the first error reply among them, and returns only after
  the last frame; in both cases no byte of a reply is left on the line.\<close>

theorem transact_in_step:
  assumes "answers_whole respond" "\<forall>f \<in> set fs. framed f" "ln_in s = []"
  shows "\<exists>n s'. n \<le> length fs \<and> ln_in s' = [] \<and>
     ln_dev s' = snd (serve respond (take n fs) (ln_dev s)) \<and>
     (\<exists>ws. ln_sent s' = ln_sent s @ ws \<and> concat ws = concat (take n fs) \<and> (\<forall>w \<in> set ws. int (length w) \<le> 48)) \<and>
     transact (line_transport respond) fs s =
       (checked (take n fs) (fst (serve respond (take n fs) (ln_dev s))), s') \<and>
     (reply_errors (take n fs) (fst (serve respond (take n fs) (ln_dev s))) = [] \<longrightarrow> n = length fs)"
  using lines.transact_serves [OF assms] unfolding lines.after_def MAX_IN_FLIGHT_def by blast

text \<open>A device that keeps the frames, answers reads with a constant and refuses window 3.\<close>

definition recorder :: "int list list device" where
  "recorder f d = (if f = [87, 3, 0, 0, 0, 0] then [69] else if hd f = 82 then [75, 1, 2, 3, 4] else [75], d @ [f])"

lemma recorder_whole: "answers_whole recorder"
  unfolding answers_whole_def recorder_def whole_def reply_rest_def by (auto simp: framed_def)

theorem transact_in_step_witness:
  "\<exists>n s'. transact (line_transport recorder) [[82, 0], [87, 3, 0, 0, 0, 0]] \<lparr>ln_dev = [], ln_in = [], ln_sent = []\<rparr>
     = (checked (take n [[82, 0], [87, 3, 0, 0, 0, 0]])
         (fst (serve recorder (take n [[82, 0], [87, 3, 0, 0, 0, 0]]) [])), s') \<and> ln_in s' = []"
proof -
  let ?s = "\<lparr>ln_dev = [], ln_in = [], ln_sent = []\<rparr> :: int list list line"
  have f: "\<forall>f \<in> set [[82, 0], [87, 3, 0, 0, 0, 0]]. framed (f :: int list)"
    by (simp add: framed_def frame_len_def)
  have i: "ln_in ?s = []" by simp
  from transact_in_step [OF recorder_whole f i] show ?thesis by auto
qed

section \<open>Loading a program\<close>

text \<open>The host words of a load and the frame that carries a word.\<close>

definition load_script :: "int \<Rightarrow> int list \<Rightarrow> int \<Rightarrow> int \<Rightarrow> (int \<times> int) list" where
  "load_script engine words ownership open_drain =
     [(0, shl BR_SELECT 24 OR engine), (0, shl BR_BEGIN 24), (0, shl BR_OWN 24 OR (ownership OR shl open_drain 8))]
     @ map (\<lambda>w. (1, w AND 0xFFFFFFFF)) words @ [(0, shl BR_COMMIT 24 OR int (length words))]"

definition word_frame :: "int \<times> int \<Rightarrow> int list" where
  "word_frame p = 87 # fst p # pack_le 4 (snd p)"

text \<open>What a bridge makes of a W frame.\<close>

definition decode_frame :: "int list \<Rightarrow> int \<times> int" where
  "decode_frame f = (f ! 1, le_value (drop 2 f))"

lemma le_value_pack: "0 \<le> x \<Longrightarrow> le_value (pack_le n x) = x mod 256 ^ n"
proof (induction n arbitrary: x)
  case (Suc n)
  have s: "pack_le (Suc n) x = x mod 256 # pack_le n (x div 256)"
  proof -
    have "pack_le (Suc n) x = (x AND 255) # map (\<lambda>i. shr x (int (8 * Suc i)) AND 255) [0..<n]"
      by (simp add: pack_le_def upt_conv_Cons map_Suc_upt [symmetric] comp_def del: upt_Suc)
    moreover have "shr x (int (8 * Suc i)) = shr (x div 256) (int (8 * i))" for i
      by (simp add: drop_bit_eq_div nat_add_distrib power_add zdiv_zmult2_eq)
    moreover have "x AND 255 = x mod 256" using take_bit_eq_mask [of 8 x] by (simp add: take_bit_eq_mod mask_eq_exp_minus_1)
    ultimately show ?thesis by (simp add: pack_le_def)
  qed
  have "x mod (256 * 256 ^ n) = 256 * (x div 256 mod 256 ^ n) + x mod 256"
    by (rule zmod_zmult2_eq) simp
  then show ?case using Suc by (simp add: s)
qed (simp add: pack_le_def)

text \<open>The words of a load reach the device.\<close>

definition word_ok :: "int \<times> int \<Rightarrow> bool" where
  "word_ok p \<longleftrightarrow> 0 \<le> snd p \<and> snd p < 2 ^ 32"

lemma frame_word_frame: "word_ok p \<Longrightarrow> decode_frame (word_frame p) = p"
  by (cases p) (simp add: word_ok_def decode_frame_def word_frame_def le_value_pack numeral_eq_Suc)

lemma hd_word_frame: "hd (word_frame p) = 87"
  by (simp add: word_frame_def)

lemma word_frame_framed: "framed (word_frame p)"
  by (simp add: framed_def word_frame_def frame_len_def pack_le_def)

lemma and_word: "0 \<le> w AND (0xFFFFFFFF::int)" "w AND (0xFFFFFFFF::int) < 2 ^ 32"
  unfolding and_m32_take by (rule take_bit_nonnegative) (rule take_bit_int_less_exp)

lemma write_frame_word:
  "0 \<le> window \<Longrightarrow> window < 256 \<Longrightarrow> write_frame window w = Inr (word_frame (window, w AND 0xFFFFFFFF))"
  using and_word [of w] by (simp add: write_frame_def two_bytes_def le_bytes_def word_frame_def)

lemma write_frames_words:
  "0 \<le> window \<Longrightarrow> window < 256 \<Longrightarrow>
   write_frames window ws = Inr (map (\<lambda>w. word_frame (window, w AND 0xFFFFFFFF)) ws)"
  by (induction ws) (simp_all add: write_frame_word)

context bridge_line
begin

lemma transact_ok:
  assumes "answers_whole respond" "\<forall>f \<in> set fs. framed f" "pending s = []"
  shows "ok_post (\<lambda>rs s'. after s fs s' \<and> rs = fst (serve respond fs (dev s))) (transact t fs s)"
proof -
  obtain n s' where n: "n \<le> length fs" "after s (take n fs) s'"
    "transact t fs s = (checked (take n fs) (fst (serve respond (take n fs) (dev s))), s')"
    "reply_errors (take n fs) (fst (serve respond (take n fs) (dev s))) = [] \<longrightarrow> n = length fs"
    using transact_serves [OF assms] by blast
  show ?thesis
  proof (cases "reply_errors (take n fs) (fst (serve respond (take n fs) (dev s)))")
    case Nil
    then have tk: "take n fs = fs" using mp [OF n(4) Nil] by (simp only: take_all_iff order_refl)
    show ?thesis using n(2) Nil unfolding n(3) tk by (simp add: checked_def)
  next
    case (Cons e es)
    then show ?thesis unfolding n(3) by (simp add: checked_def)
  qed
qed

lemma one_ok:
  assumes "answers_whole respond" "framed f" "pending s = []"
  shows "ok_post (\<lambda>r s'. after s [f] s') (bridge_one t f s)"
proof -
  have "ok_post (\<lambda>rs s'. after s [f] s' \<and> rs = fst (serve respond [f] (dev s))) (transact t [f] s)"
    by (rule transact_ok) (use assms in simp_all)
  then show ?thesis unfolding bridge_one_def
    by (elim act_post_seq) (simp split: prod.splits)
qed

lemma command_ok:
  assumes "answers_whole respond" "pending s = []"
  shows "ok_post (\<lambda>_ s'. after s [word_frame (0, shl opcode 24 OR payload)] s' \<and> word_ok (0, shl opcode 24 OR payload))
     (fc_command t opcode payload s)"
proof (cases "0 \<le> opcode \<and> opcode \<le> 255 \<and> 0 \<le> payload \<and> payload < shl 1 24")
  case False
  then show ?thesis by (auto simp: fc_command_def)
next
  case True
  then have b: "0 \<le> push_bit 24 opcode" "push_bit 24 opcode < 2 ^ 32" "payload < 2 ^ 32" "0 \<le> payload"
    by (simp_all add: push_bit_eq_mult)
  then have w: "0 \<le> shl opcode 24 OR payload" "shl opcode 24 OR payload < 2 ^ 32"
    using OR_upper [of "push_bit 24 opcode" 32 payload] by simp_all
  then have id: "(shl opcode 24 OR payload) AND 0xFFFFFFFF = shl opcode 24 OR payload"
    using take_bit_int_eq_self_iff [of 32 "shl opcode 24 OR payload"] by (simp add: and_m32_take)
  have "ok_post (\<lambda>_ s'. after s [word_frame (0, shl opcode 24 OR payload)] s')
     (ignore_result (bridge_one t (word_frame (0, shl opcode 24 OR payload))) s)"
    unfolding ignore_result_def by (rule act_post_seq, rule one_ok [OF assms(1) word_frame_framed assms(2)]) simp
  then show ?thesis
    using True w by (auto simp: fc_command_def bridge_write_def write_frame_word id [simplified] word_ok_def elim!: act_post_mono)
qed

lemma load_ok:
  assumes "answers_whole respond" "pending s = []"
  shows "ok_post (\<lambda>_ s'. after s (map word_frame (load_script engine words ownership open_drain)) s' \<and>
       (\<forall>p \<in> set (load_script engine words ownership open_drain). word_ok p))
     (fc_load t engine words ownership open_drain s)"
proof -
  let ?ws = "map (\<lambda>w. word_frame (1, w AND 0xFFFFFFFF)) words"
  have split_script: "map word_frame (load_script engine words ownership open_drain) =
      (([word_frame (0, shl BR_SELECT 24 OR engine)] @ [word_frame (0, shl BR_BEGIN 24 OR 0)]) @
       [word_frame (0, shl BR_OWN 24 OR (ownership OR shl open_drain 8))]) @ ?ws @
       [word_frame (0, shl BR_COMMIT 24 OR int (length words))]"
    by (simp add: load_script_def)
  have many: "ok_post (\<lambda>_ s'. after s1 ?ws s') (write_many t 1 words s1)" if "pending s1 = []" for s1
  proof -
    have "ok_post (\<lambda>_ s'. after s1 ?ws s') (ignore_result (transact t ?ws) s1)"
      unfolding ignore_result_def
      by (rule act_post_seq, rule transact_ok [OF assms(1) _ that]) (auto simp: word_frame_framed)
    then show ?thesis by (simp add: write_many_def write_frames_words)
  qed
  have empty: "after s0 fs s1 \<Longrightarrow> pending s1 = []" for s0 fs s1 by (simp add: after_def)
  show ?thesis
    unfolding fc_load_def fc_load_words_def split_script act_bind_basic
    apply (rule act_post_seq, rule command_ok [OF assms], elim conjE)
    apply (rule act_post_seq, rule command_ok [OF assms(1)], erule empty, elim conjE)
    apply (rule act_post_seq, rule command_ok [OF assms(1)], erule empty, elim conjE)
    apply (rule act_post_seq, rule many, erule empty)
    apply (rule act_post_mono, rule command_ok [OF assms(1)], erule empty)
     apply (intro conjI)
      apply (rule after_trans, rule after_trans, rule after_trans, assumption+)
      apply (rule after_trans, assumption, elim conjE, assumption)
     apply (auto simp: load_script_def word_ok_def and_word)
    done
qed

end

text \<open>C25: a load that returns has run the device on exactly the host words of the load, in order:
  SELECT, BEGIN, OWN, the program words in window 1, COMMIT with their number.\<close>

theorem fpga_load_words:
  assumes "answers_whole respond" "ln_in s = []"
    "fc_load (line_transport respond) engine words ownership open_drain s = (Inr u, s')"
  shows "\<exists>fs. ln_dev s' = snd (serve respond fs (ln_dev s)) \<and> ln_in s' = [] \<and>
     map (\<lambda>f. (hd f, decode_frame f)) fs = map (\<lambda>p. (87, p)) (load_script engine words ownership open_drain)"
proof -
  let ?fs = "map word_frame (load_script engine words ownership open_drain)"
  from act_postD(1) [OF lines.load_ok [OF assms(1,2)] assms(3)]
  have a: "lines.after respond s ?fs s'" and ok: "\<forall>p \<in> set (load_script engine words ownership open_drain). word_ok p"
    by blast+
  have "map (\<lambda>f. (hd f, decode_frame f)) ?fs = map (\<lambda>p. (87, p)) (load_script engine words ownership open_drain)"
    using ok by (simp add: frame_word_frame hd_word_frame)
  then show ?thesis using a unfolding lines.after_def by blast
qed

theorem fpga_load_words_witness:
  "\<exists>fs. ln_dev (snd (fc_load (line_transport recorder) 1 [0x01000000, 0xFF] 3 0 \<lparr>ln_dev = [], ln_in = [], ln_sent = []\<rparr>))
       = snd (serve recorder fs []) \<and>
     map decode_frame fs = [(0, 1), (0, 0x01000000), (0, 0x03000003), (1, 0x01000000), (1, 0xFF), (0, 0x02000002)]"
proof -
  let ?s = "\<lparr>ln_dev = [], ln_in = [], ln_sent = []\<rparr> :: int list list line"
  let ?r = "fc_load (line_transport recorder) 1 [0x01000000, 0xFF] 3 0 ?s"
  have "fst ?r = Inr ()" by code_simp
  then have r: "?r = (Inr (), snd ?r)" by (metis prod.collapse)
  have i: "ln_in ?s = []" by simp
  from fpga_load_words [OF recorder_whole i r] obtain fs where
    fs: "ln_dev (snd ?r) = snd (serve recorder fs (ln_dev ?s))"
    "map (\<lambda>f. (hd f, decode_frame f)) fs = map (\<lambda>p. (87, p)) (load_script 1 [0x01000000, 0xFF] 3 0)" by blast
  have "map decode_frame fs = map snd (map (\<lambda>f. (hd f, decode_frame f)) fs)" by simp
  also have "\<dots> = load_script 1 [0x01000000, 0xFF] 3 0" unfolding fs(2) by (simp add: comp_def)
  also have "\<dots> = [(0, 1), (0, 0x01000000), (0, 0x03000003), (1, 0x01000000), (1, 0xFF), (0, 0x02000002)]"
    by (simp add: load_script_def BR_SELECT_def BR_BEGIN_def BR_OWN_def BR_COMMIT_def)
  finally show ?thesis using fs(1) by auto
qed

section \<open>The timestamp check\<close>

text \<open>C26: the timestamp check of the self test decides exactly. Take two timestamps of the chip, the
  second \<open>d\<close> counts after the first, each read at a cycle between two readings of the bridge's
  counter, wherever the two 32-bit counters stand and however long the line takes (less than a wrap). The
  check accepts exactly when \<open>d\<close> lies between the least and the greatest number of cycles that can
  have passed; so it accepts every timestamp that counts the cycles, and what it accepts differs
  from the cycles passed by no more than the two pairs of readings lie apart. A timestamp that stands
  still or runs at another rate is rejected as soon as the readings are close enough to tell.\<close>

theorem stamps_agree_sound:
  assumes "b0 \<le> t0" "t0 \<le> a0" "a0 \<le> b1" "b1 \<le> t1" "t1 \<le> a1" "a1 - b0 < 2 ^ 32" "0 \<le> d" "d < 2 ^ 32"
    and "agree = stamps_agree ((b0 + c) mod 2 ^ 32, k mod 2 ^ 32, (a0 + c) mod 2 ^ 32)
     ((b1 + c) mod 2 ^ 32, (k + d) mod 2 ^ 32, (a1 + c) mod 2 ^ 32)"
  shows "(agree \<longleftrightarrow> b1 - a0 \<le> d \<and> d \<le> a1 - b0) \<and> (d = t1 - t0 \<longrightarrow> agree) \<and>
     (agree \<longrightarrow> \<bar>d - (t1 - t0)\<bar> \<le> (a0 - b0) + (a1 - b1))"
proof -
  have w: "((x + j) mod 2 ^ 32 - (y + j) mod 2 ^ 32) AND 0xFFFFFFFF = x - y"
    if "0 \<le> x - y" "x - y < 2 ^ 32" for x y j :: int
  proof -
    have "((x + j) mod 2 ^ 32 - (y + j) mod 2 ^ 32) mod 2 ^ 32 = (x - y) mod 2 ^ 32"
      by (simp add: mod_diff_eq)
    then show ?thesis using that by (simp add: and_m32_take take_bit_eq_mod)
  qed
  have e: "((b1 + c) mod 2 ^ 32 - (a0 + c) mod 2 ^ 32) AND 0xFFFFFFFF = b1 - a0"
    "((a1 + c) mod 2 ^ 32 - (b0 + c) mod 2 ^ 32) AND 0xFFFFFFFF = a1 - b0"
    by (rule w; use assms(1-6) in linarith)+
  have t: "((k + d) mod 2 ^ 32 - k mod 2 ^ 32) AND 0xFFFFFFFF = d"
    using w [of d 0 k] assms(7,8) by (simp add: add.commute)
  have "agree \<longleftrightarrow> b1 - a0 \<le> d \<and> d \<le> a1 - b0"
    unfolding assms(9) stamps_agree_def prod.case Let_def e t by simp
  then show ?thesis using assms(1-5) by auto
qed

theorem stamps_agree_sound_witness:
  "\<not> stamps_agree ((0 + 4294967290) mod 2 ^ 32, 8 mod 2 ^ 32, (2 + 4294967290) mod 2 ^ 32)
     ((10 + 4294967290) mod 2 ^ 32, (8 + 0) mod 2 ^ 32, (12 + 4294967290) mod 2 ^ 32)
   \<and> stamps_agree ((0 + 4294967290) mod 2 ^ 32, 4294967295 mod 2 ^ 32, (2 + 4294967290) mod 2 ^ 32)
     ((10 + 4294967290) mod 2 ^ 32, (4294967295 + 10) mod 2 ^ 32, (12 + 4294967290) mod 2 ^ 32)"
  using stamps_agree_sound [of 0 1 2 10 11 12 0 _ "4294967290" 8, OF _ _ _ _ _ _ _ _ refl]
    stamps_agree_sound [of 0 1 2 10 11 12 10 _ "4294967290" 4294967295, OF _ _ _ _ _ _ _ _ refl]
  by simp

end
