(* ===== verification/Fpga_Scope.thy ===== *)
theory Fpga_Scope
  imports Fpga_Bridge
begin

text \<open>
  The client of the on-board capture unit, \<open>fpga/host/pe_scope.py\<close>: channel names, the CRC of a
  record block, the status reply, the 72-bit records and their full stamps, the waveforms of a
  finished capture and the capture-unit commands over a bridge. \<open>fclk_hz\<close> and \<open>meta\<close>, which a
  capture only carries along, its JSON file and what \<open>log\<close> prints are left out.
\<close>

section \<open>Status and records\<close>

record scope_status =
  ss_version :: int
  ss_state :: int
  ss_flags :: int
  ss_aw :: int
  ss_channels :: int
  ss_records :: int
  ss_lost :: int
  ss_start_stamp :: int
  ss_end_stamp :: int
  ss_now :: int
  ss_enable :: int
  ss_trigger :: int
  ss_mode :: int
  ss_limit :: int

record scope_record =
  sr_stamp :: int
  sr_kind :: int
  sr_mask :: int
  sr_values :: int

definition SCOPE_VERSION :: int where "SCOPE_VERSION = 1"
definition K_CHANGE :: int where "K_CHANGE = 0"
definition K_START :: int where "K_START = 1"
definition K_MARK :: int where "K_MARK = 2"
definition K_END :: int where "K_END = 3"
definition STAMP_BITS :: nat where "STAMP_BITS = 22"
definition MARK_INTERVAL :: int where "MARK_INTERVAL = push_bit 21 1"
definition RECORD_BYTES :: nat where "RECORD_BYTES = 9"

text \<open>\<open>ScopeError\<close> by its messages, and the exceptions of the bridge and of Python.\<close>

datatype scope_exn =
    Line_exn bridge_exn
  | Unknown_channel string
  | Bad_status_reply nat
  | Unexpected_unit int int
  | Implausible_status scope_status
  | First_not_start int
  | First_stamp int int
  | Second_start nat
  | After_end nat
  | No_advance nat
  | Bad_marker nat int int
  | Empty_change nat
  | Wrong_end_stamp int int
  | Not_enabled int
  | Mask_outside nat int
  | Unmasked_change nat int int int
  | Activity_differs int int int
  | Empty_capture
  | Limit_range
  | Wrong_count int int int
  | Crc_mismatch int int
  | Gave_up string scope_exn nat

text \<open>\<open>except ScopeError\<close> and \<open>except RuntimeError\<close>, which also catches \<open>BridgeError\<close>.\<close>

definition is_scope_error :: "scope_exn \<Rightarrow> bool" where
  "is_scope_error e = (case e of Line_exn _ \<Rightarrow> False | _ \<Rightarrow> True)"

definition is_bridge_error :: "bridge_exn \<Rightarrow> bool" where
  "is_bridge_error e = (case e of
     No_reply _ \<Rightarrow> True | Short_reply _ _ \<Rightarrow> True | Bridge_timeout _ _ \<Rightarrow> True | Bad_window _ \<Rightarrow> True
   | Port_owned _ \<Rightarrow> True | Unknown_command _ \<Rightarrow> True | _ \<Rightarrow> False)"

definition is_runtime_error :: "scope_exn \<Rightarrow> bool" where
  "is_runtime_error e = (case e of Line_exn b \<Rightarrow> is_bridge_error b | _ \<Rightarrow> True)"

section \<open>Channels\<close>

definition CHANNELS :: "string list" where
  "CHANNELS = map (\<lambda>i. ''uio'' @ decimal i) (py_range 8) @ map (\<lambda>i. ''uo'' @ decimal i) (py_range 8)
     @ map (\<lambda>i. ''ui'' @ decimal i) (py_range 8)"

definition ALIASES :: "(string \<times> string) list" where
  "ALIASES = [(''wvalid'', ''ui4''), (''rready'', ''ui5''), (''wready'', ''uo4''), (''rvalid'', ''uo5''),
     (''event'', ''uo6''), (''fault'', ''uo7'')]"

text \<open>\<open>str.strip\<close> and \<open>str.split(",")\<close>.\<close>

definition py_space :: "char \<Rightarrow> bool" where
  "py_space c \<longleftrightarrow> (of_char c :: nat) \<in> {9, 10, 11, 12, 13, 28, 29, 30, 31, 32, 133, 160}"

definition strip :: "string \<Rightarrow> string" where
  "strip s = rev (dropWhile py_space (rev (dropWhile py_space s)))"

fun split_comma :: "string \<Rightarrow> string list" where
  "split_comma [] = [[]]"
| "split_comma (c # cs) = (if c = CHR '','' then [] # split_comma cs
     else case split_comma cs of s # ss \<Rightarrow> (c # s) # ss | [] \<Rightarrow> [[c]])"

fun index_of :: "string \<Rightarrow> string list \<Rightarrow> int option" where
  "index_of k [] = None"
| "index_of k (x # xs) = (if x = k then Some 0 else map_option (\<lambda>i. i + 1) (index_of k xs))"

definition channel_index :: "string \<Rightarrow> scope_exn + int" where
  "channel_index name =
     (let key = (case map_of ALIASES (strip name) of Some k \<Rightarrow> k | None \<Rightarrow> strip name)
      in case index_of key CHANNELS of None \<Rightarrow> Inl (Unknown_channel name) | Some i \<Rightarrow> Inr i)"

fun mask_of_names :: "int \<Rightarrow> string list \<Rightarrow> scope_exn + int" where
  "mask_of_names m [] = Inr m"
| "mask_of_names m (n # ns) = and_then (channel_index n) (\<lambda>i. mask_of_names (m OR shl 1 i) ns)"

text \<open>The argument is \<open>None\<close>, a comma-separated string or a list of names.\<close>

datatype channel_arg = No_names | Comma_names string | Name_list "string list"

definition channel_mask :: "channel_arg \<Rightarrow> scope_exn + int" where
  "channel_mask arg = (case arg of
     No_names \<Rightarrow> Inr 0
   | Comma_names s \<Rightarrow> if s = [] then Inr 0 else mask_of_names 0 [n \<leftarrow> split_comma s. strip n \<noteq> []]
   | Name_list ns \<Rightarrow> mask_of_names 0 ns)"

definition mask_names :: "int \<Rightarrow> string list" where
  "mask_names m = [CHANNELS ! nat i. i \<leftarrow> py_range 24, has_bit m i]"

section \<open>The CRC of a block\<close>

text \<open>\<open>binascii.crc_hqx(data, 0xFFFF)\<close>: polynomial 0x1021, most significant bit first.\<close>

definition crc_bit :: "int \<Rightarrow> int" where
  "crc_bit c = (if c AND 0x8000 \<noteq> 0 then (shl c 1 XOR 0x1021) AND 0xFFFF else shl c 1 AND 0xFFFF)"

definition crc_byte :: "int \<Rightarrow> int \<Rightarrow> int" where
  "crc_byte c b = (crc_bit ^^ 8) (c XOR shl b 8)"

definition crc16 :: "int list \<Rightarrow> int" where
  "crc16 data = foldl crc_byte 0xFFFF data"

section \<open>The status reply\<close>

definition parse_status :: "int list \<Rightarrow> scope_exn + scope_status" where
  "parse_status reply =
     (if length reply \<noteq> 39 \<or> reply ! 0 \<noteq> 81 then Inl (Bad_status_reply (length reply))
      else let le = (\<lambda>a b. le_value (slice reply a b)) in
        Inr \<lparr>ss_version = reply ! 1, ss_state = reply ! 2, ss_flags = reply ! 3, ss_aw = reply ! 4,
          ss_channels = reply ! 5, ss_records = le 6 8, ss_lost = le 8 12, ss_start_stamp = le 12 18,
          ss_end_stamp = le 18 24, ss_now = le 24 30, ss_enable = le 30 33, ss_trigger = le 33 36,
          ss_mode = reply ! 36, ss_limit = le 37 39\<rparr>)"

definition plausible_status :: "scope_status \<Rightarrow> bool" where
  "plausible_status st \<longleftrightarrow> 0 \<le> ss_state st \<and> ss_state st \<le> 5 \<and> 2 \<le> ss_aw st \<and> ss_aw st \<le> 15 \<and> ss_flags st < 16
     \<and> ss_records st \<le> ss_limit st \<and> ss_limit st \<le> shl 1 (ss_aw st) \<and> ss_limit st \<ge> 2 \<and> ss_mode st < 4
     \<and> ss_enable st < shl 1 24 \<and> ss_trigger st < shl 1 24"

definition check_status :: "scope_status \<Rightarrow> scope_exn + scope_status" where
  "check_status st =
     and_then (raise_if (ss_version st \<noteq> SCOPE_VERSION \<or> ss_channels st \<noteq> 24)
       (Unexpected_unit (ss_version st) (ss_channels st))) (\<lambda>_.
     and_then (raise_if (\<not> plausible_status st) (Implausible_status st)) (\<lambda>_. Inr st))"

definition depth :: "scope_status \<Rightarrow> int" where "depth st = shl 1 (ss_aw st)"
definition scope_full :: "scope_status \<Rightarrow> bool" where "scope_full st \<longleftrightarrow> ss_flags st AND 1 \<noteq> 0"
definition scope_halted :: "scope_status \<Rightarrow> bool" where "scope_halted st \<longleftrightarrow> ss_flags st AND 2 \<noteq> 0"
definition scope_forced :: "scope_status \<Rightarrow> bool" where "scope_forced st \<longleftrightarrow> ss_flags st AND 4 \<noteq> 0"
definition core_view :: "scope_status \<Rightarrow> bool" where "core_view st \<longleftrightarrow> ss_flags st AND 8 \<noteq> 0"
definition finished :: "scope_status \<Rightarrow> bool" where "finished st \<longleftrightarrow> ss_state st = 3 \<or> ss_state st = 4"

definition state_name :: "scope_status \<Rightarrow> string" where
  "state_name st = (case map_of [(0, ''idle''), (1, ''wait''), (2, ''run''), (3, ''full''), (4, ''done''), (5, ''settling'')]
     (ss_state st) of Some s \<Rightarrow> s | None \<Rightarrow> decimal (ss_state st))"

definition or_dash :: "string \<Rightarrow> string" where
  "or_dash s = (if s = [] then ''-'' else s)"

definition describe :: "scope_status \<Rightarrow> string" where
  "describe st = ''capture unit v'' @ decimal (ss_version st) @ '': state '' @ state_name st @ '', ''
     @ decimal (ss_records st) @ ''/'' @ decimal (ss_limit st) @ '' records (depth '' @ decimal (depth st) @ ''), lost ''
     @ decimal (ss_lost st) @ '', enable '' @ or_dash (join '','' (mask_names (ss_enable st)))
     @ '', trigger '' @ or_dash (join '','' (mask_names (ss_trigger st))) @ '', ''
     @ (if core_view st then ''core'' else ''pad'') @ '' view of uio''
     @ (if scope_full st then '', full'' else '''') @ (if scope_halted st then '', halted'' else '''')"

section \<open>Records\<close>

definition unpack :: "int \<Rightarrow> scope_record" where
  "unpack raw = \<lparr>sr_stamp = raw AND (push_bit STAMP_BITS 1 - 1), sr_kind = shr raw 22 AND 3,
     sr_mask = shr raw 24 AND 0xFFFFFF, sr_values = shr raw 48 AND 0xFFFFFF\<rparr>"

definition pack :: "scope_record \<Rightarrow> int" where
  "pack r = shl (sr_values r AND 0xFFFFFF) 48 OR shl (sr_mask r AND 0xFFFFFF) 24 OR shl (sr_kind r AND 3) 22
     OR (sr_stamp r AND (push_bit STAMP_BITS 1 - 1))"

definition stamp_period :: int where
  "stamp_period = push_bit STAMP_BITS 1"

definition decode_first :: "int \<Rightarrow> int \<Rightarrow> scope_exn + scope_record" where
  "decode_first start_stamp word = (let r = unpack word in
     and_then (raise_if (sr_kind r \<noteq> K_START) (First_not_start (sr_kind r))) (\<lambda>_.
     and_then (raise_if (sr_stamp r \<noteq> start_stamp mod stamp_period) (First_stamp (sr_stamp r) start_stamp)) (\<lambda>_.
     Inr (r\<lparr>sr_stamp := start_stamp\<rparr>))))"

definition decode_step :: "nat \<Rightarrow> scope_record \<Rightarrow> int \<Rightarrow> scope_exn + scope_record" where
  "decode_step i prev word = (let r = unpack word; delta = (sr_stamp r - sr_stamp prev) mod stamp_period;
       full = sr_stamp prev + delta in
     and_then (raise_if (sr_kind r = K_START) (Second_start i)) (\<lambda>_.
     and_then (raise_if (sr_kind prev = K_END) (After_end i)) (\<lambda>_.
     and_then (raise_if (delta = 0) (No_advance i)) (\<lambda>_.
     and_then (raise_if (sr_kind r = K_MARK \<and> (sr_mask r \<noteq> 0 \<or> full mod MARK_INTERVAL \<noteq> 0))
       (Bad_marker i full (sr_mask r))) (\<lambda>_.
     and_then (raise_if (sr_kind r = K_CHANGE \<and> sr_mask r = 0) (Empty_change i)) (\<lambda>_.
     Inr (r\<lparr>sr_stamp := full\<rparr>)))))))"

fun decode_rest :: "nat \<Rightarrow> scope_record \<Rightarrow> int list \<Rightarrow> scope_exn + scope_record list" where
  "decode_rest i prev [] = Inr []"
| "decode_rest i prev (w # ws) = and_then (decode_step i prev w) (\<lambda>r.
     and_then (decode_rest (Suc i) r ws) (\<lambda>rs. Inr (r # rs)))"

definition decode_loop :: "int list \<Rightarrow> int \<Rightarrow> scope_exn + scope_record list" where
  "decode_loop raw start_stamp = (case raw of [] \<Rightarrow> Inr []
   | w # ws \<Rightarrow> and_then (decode_first start_stamp w) (\<lambda>r.
       and_then (decode_rest 1 r ws) (\<lambda>rs. Inr (r # rs))))"

definition ends_wrongly :: "scope_record list \<Rightarrow> int option \<Rightarrow> bool" where
  "ends_wrongly out end_stamp = (case end_stamp of None \<Rightarrow> False
   | Some e \<Rightarrow> out \<noteq> [] \<and> sr_kind (List.last out) = K_END \<and> sr_stamp (List.last out) mod shl 1 48 \<noteq> e)"

definition decode :: "int list \<Rightarrow> int \<Rightarrow> int option \<Rightarrow> scope_exn + scope_record list" where
  "decode raw start_stamp end_stamp = and_then (decode_loop raw start_stamp) (\<lambda>out.
     and_then (raise_if (ends_wrongly out end_stamp)
       (Wrong_end_stamp (sr_stamp (List.last out)) (the end_stamp))) (\<lambda>_. Inr out))"

section \<open>Captures\<close>

record capture =
  cp_status :: scope_status
  cp_raw :: "int list"
  cp_activity :: "int list"
  cp_records :: "scope_record list"

definition enabled_of :: "int \<Rightarrow> int list" where
  "enabled_of en = [i \<leftarrow> py_range 24. has_bit en i]"

definition enabled :: "capture \<Rightarrow> int list" where
  "enabled c = enabled_of (ss_enable (cp_status c))"

definition complete :: "capture \<Rightarrow> bool" where
  "complete c \<longleftrightarrow> cp_records c \<noteq> [] \<and> sr_kind (List.last (cp_records c)) = K_END"

definition window :: "capture \<Rightarrow> (int \<times> int) option" where
  "window c = (if cp_records c = [] then None
     else Some (sr_stamp (hd (cp_records c)), sr_stamp (List.last (cp_records c))))"

definition initial :: "capture \<Rightarrow> int \<Rightarrow> int" where
  "initial c ch = bit_at (sr_values (hd (cp_records c)) XOR sr_mask (hd (cp_records c))) ch"

definition channel_edges :: "int \<Rightarrow> scope_record list \<Rightarrow> (int \<times> int) list" where
  "channel_edges ch rs = [(sr_stamp r, bit_at (sr_values r) ch). r \<leftarrow> rs, has_bit (sr_mask r) ch]"

definition edges :: "capture \<Rightarrow> int \<Rightarrow> scope_exn + (int \<times> int) list" where
  "edges c ch = and_then (raise_if (ch \<notin> set (enabled c)) (Not_enabled ch)) (\<lambda>_. Inr (channel_edges ch (cp_records c)))"

text \<open>\<open>Capture.check\<close>: the levels of the enabled channels change as the masks say, and the activity
  counters agree with the records.\<close>

fun check_levels :: "int \<Rightarrow> nat \<Rightarrow> int \<Rightarrow> scope_record list \<Rightarrow> scope_exn + unit" where
  "check_levels en i level [] = Inr ()"
| "check_levels en i level (r # rs) =
     and_then (raise_if (sr_mask r AND NOT en \<noteq> 0) (Mask_outside i (sr_mask r))) (\<lambda>_.
     and_then (raise_if ((level XOR sr_values r) AND en \<noteq> sr_mask r)
       (Unmasked_change i level (sr_values r AND en) (sr_mask r))) (\<lambda>_.
     check_levels en (Suc i) (sr_values r AND en) rs))"

definition edge_count :: "int \<Rightarrow> scope_record list \<Rightarrow> int" where
  "edge_count ch rs = int (length [r \<leftarrow> rs. has_bit (sr_mask r) ch])"

fun check_activity :: "int list \<Rightarrow> scope_record list \<Rightarrow> int list \<Rightarrow> scope_exn + unit" where
  "check_activity act rs [] = Inr ()"
| "check_activity act rs (ch # chs) = (let n = edge_count ch rs in
     and_then (if act = [] then Inr () else if length act \<le> nat ch then Inl (Line_exn Index_outside)
       else raise_if (act ! nat ch \<noteq> n \<and> act ! nat ch \<noteq> 0xFFFFFFFF) (Activity_differs ch (act ! nat ch) n)) (\<lambda>_.
     check_activity act rs chs))"

definition check_records :: "int \<Rightarrow> int list \<Rightarrow> scope_record list \<Rightarrow> scope_exn + unit" where
  "check_records en act rs = (case rs of [] \<Rightarrow> Inr ()
   | r0 # _ \<Rightarrow> and_then (check_levels en 0 ((sr_values r0 XOR sr_mask r0) AND en) rs) (\<lambda>_.
       check_activity act rs (enabled_of en)))"

definition new_capture :: "scope_status \<Rightarrow> int list \<Rightarrow> int list \<Rightarrow> scope_exn + capture" where
  "new_capture st raw act =
     and_then (decode raw (ss_start_stamp st) (if finished st then Some (ss_end_stamp st) else None)) (\<lambda>rs.
     and_then (check_records (ss_enable st) act rs) (\<lambda>_.
     Inr \<lparr>cp_status = st, cp_raw = raw, cp_activity = act, cp_records = rs\<rparr>))"

text \<open>The lines of \<open>write_vcd\<close>; \<open>hz\<close> is the text of \<open>fclk_hz\<close>. Identifiers are the characters from
  number 37 on, one per channel.\<close>

definition vcd_ids :: "int list \<Rightarrow> int \<Rightarrow> char" where
  "vcd_ids chans ch = char_of (37 + the (map_of (rev (zip chans [0..<length chans])) ch))"

definition vcd_change :: "(int \<Rightarrow> char) \<Rightarrow> int list \<Rightarrow> nat \<Rightarrow> scope_record \<Rightarrow> string list" where
  "vcd_change ids chans i r =
     (let ls = (if i = 0 then [''1!''] else []) @
        [decimal (bit_at (sr_values r) ch) @ [ids ch]. ch \<leftarrow> chans, has_bit (sr_mask r) ch]
      in if ls = [] then [] else (''#'' @ decimal (sr_stamp r)) # ls)"

fun vcd_changes :: "(int \<Rightarrow> char) \<Rightarrow> int list \<Rightarrow> nat \<Rightarrow> scope_record list \<Rightarrow> string list" where
  "vcd_changes ids chans i [] = []"
| "vcd_changes ids chans i (r # rs) = vcd_change ids chans i r @ vcd_changes ids chans (Suc i) rs"

definition write_vcd :: "string \<Rightarrow> capture \<Rightarrow> int list option \<Rightarrow> scope_exn + string list" where
  "write_vcd hz c channels =
     (let chans = sort (case channels of None \<Rightarrow> enabled c | Some chs \<Rightarrow> chs); ids = vcd_ids chans in
      case window c of None \<Rightarrow> Inl Empty_capture
      | Some (w0, w1) \<Rightarrow> Inr
         ([''$version pe_scope 1 $end'',
           ''$comment pe_scope tick=cycle fclk_hz='' @ hz @ '' window='' @ decimal w0 @ ''..'' @ decimal w1
             @ '' lost='' @ decimal (ss_lost (cp_status c)) @ '' view=''
             @ (if core_view (cp_status c) then ''core'' else ''pad'') @ '' $end'',
           ''$timescale 1ns $end'', ''$scope module pe_scope $end'', ''$var wire 1 ! window $end'']
          @ map (\<lambda>ch. ''$var wire 1 '' @ [ids ch] @ '' '' @ CHANNELS ! nat ch @ '' $end'') chans
          @ [''$upscope $end'', ''$enddefinitions $end'']
          @ [''#'' @ decimal (max (w0 - 1) 0), ''$dumpvars'', ''0!'']
          @ map (\<lambda>ch. decimal (initial c ch) @ [ids ch]) chans @ [''$end'']
          @ vcd_changes ids chans 0 (cp_records c)
          @ [''#'' @ decimal (w1 + 1), ''0!'']))"

section \<open>The commands of the capture unit\<close>

text \<open>The transport as \<open>Scope\<close> uses it: \<open>flush_input\<close> where it has one, and \<open>read(4096, 0.1)\<close>.\<close>

record 't scope_link =
  sl_transport :: "'t transport"
  sl_flush :: "('t, bridge_exn, unit) act option"
  sl_poll :: "('t, bridge_exn, int list) act"

record 't scope =
  sc_line :: 't
  sc_crc_retries :: int
  sc_link_retries :: int

definition on_line :: "('t, bridge_exn, 'a) act \<Rightarrow> ('t scope, scope_exn, 'a) act" where
  "on_line m = (\<lambda>s. case m (sc_line s) of
     (Inl e, t) \<Rightarrow> (Inl (Line_exn e), s\<lparr>sc_line := t\<rparr>) | (Inr a, t) \<Rightarrow> (Inr a, s\<lparr>sc_line := t\<rparr>))"

definition act_catch :: "('s, 'e, 'a) act \<Rightarrow> ('e \<Rightarrow> ('s, 'e, 'a) act) \<Rightarrow> ('s, 'e, 'a) act" where
  "act_catch m h = (\<lambda>s. case m s of (Inl e, s') \<Rightarrow> h e s' | (Inr a, s') \<Rightarrow> (Inr a, s'))"

fun drain_polls :: "'t scope_link \<Rightarrow> nat \<Rightarrow> ('t, bridge_exn, unit) act" where
  "drain_polls lk 0 = act_return ()"
| "drain_polls lk (Suc n) = act_bind (sl_poll lk) (\<lambda>d. if d = [] then act_return () else drain_polls lk n)"

definition drain :: "'t scope_link \<Rightarrow> ('t scope, scope_exn, unit) act" where
  "drain lk = on_line (case sl_flush lk of Some f \<Rightarrow> f | None \<Rightarrow> drain_polls lk 256)"

definition count_link_retry :: "('t scope, scope_exn, unit) act" where
  "count_link_retry = act_mod (\<lambda>s. s\<lparr>sc_link_retries := sc_link_retries s + 1\<rparr>)"

text \<open>\<open>_read\<close>: at most \<open>retries + 1\<close> attempts; the last argument counts the repeats left.\<close>

fun attempts :: "'t scope_link \<Rightarrow> string \<Rightarrow> ('t scope, scope_exn, 'a) act \<Rightarrow> nat \<Rightarrow> nat \<Rightarrow> ('t scope, scope_exn, 'a) act" where
  "attempts lk what fn retries left = act_catch fn (\<lambda>e.
     if \<not> is_runtime_error e then act_raise e
     else case left of 0 \<Rightarrow> act_raise (Gave_up what e (retries + 1))
     | Suc n \<Rightarrow> act_bind count_link_retry (\<lambda>_. act_bind (drain lk) (\<lambda>_. attempts lk what fn retries n)))"

declare attempts.simps [simp del]

definition scope_read :: "'t scope_link \<Rightarrow> string \<Rightarrow> nat \<Rightarrow> ('t scope, scope_exn, 'a) act \<Rightarrow> ('t scope, scope_exn, 'a) act" where
  "scope_read lk what retries fn = attempts lk what fn retries retries"

definition RETRIES :: nat where "RETRIES = 3"
definition CHUNK :: nat where "CHUNK = 512"

definition int_bytes :: "nat \<Rightarrow> int \<Rightarrow> bridge_exn + int list" where
  "int_bytes n x = (if 0 \<le> x \<and> x < 256 ^ n then Inr (pack_le n x) else Inl Int_overflow)"

definition line_lift :: "bridge_exn + 'a \<Rightarrow> ('t scope, scope_exn, 'a) act" where
  "line_lift r = on_line (act_lift r)"

definition scope_one :: "'t scope_link \<Rightarrow> int list \<Rightarrow> ('t scope, scope_exn, int list) act" where
  "scope_one lk frame = on_line (bridge_one (sl_transport lk) frame)"

definition arm :: "'t scope_link \<Rightarrow> int \<Rightarrow> int \<Rightarrow> bool \<Rightarrow> bool \<Rightarrow> int \<Rightarrow> ('t scope, scope_exn, unit) act" where
  "arm lk enable trigger wait core limit =
     act_bind (act_require (0 \<le> limit \<and> limit < shl 1 16) Limit_range) (\<lambda>_.
     act_bind (line_lift (int_bytes 3 enable)) (\<lambda>e.
     act_bind (line_lift (int_bytes 3 trigger)) (\<lambda>t.
     act_bind (line_lift (int_bytes 2 limit)) (\<lambda>l.
     ignore_result (scope_one lk ([65] @ e @ t @ [of_bool wait OR shl (of_bool core) 1] @ l))))))"

definition force :: "'t scope_link \<Rightarrow> ('t scope, scope_exn, unit) act" where
  "force lk = ignore_result (scope_one lk [70])"

definition halt :: "'t scope_link \<Rightarrow> ('t scope, scope_exn, unit) act" where
  "halt lk = ignore_result (scope_one lk [72])"

definition scope_get_status :: "'t scope_link \<Rightarrow> ('t scope, scope_exn, scope_status) act" where
  "scope_get_status lk = scope_read lk ''status'' RETRIES
     (act_bind (scope_one lk [81]) (\<lambda>r. act_lift (and_then (parse_status r) check_status)))"

definition activity :: "'t scope_link \<Rightarrow> ('t scope, scope_exn, int list) act" where
  "activity lk = scope_read lk ''activity counters'' RETRIES
     (act_bind (scope_one lk [80]) (\<lambda>r. act_return (map (\<lambda>i. le_value (slice r (1 + 4 * i) (5 + 4 * i))) [0..<24])))"

definition block_records :: "int list \<Rightarrow> nat \<Rightarrow> int list" where
  "block_records body n = map (\<lambda>i. le_value (slice body (RECORD_BYTES * i) (RECORD_BYTES * (i + 1)))) [0..<n]"

definition dump_get :: "'t scope_link \<Rightarrow> int \<Rightarrow> int \<Rightarrow> int option \<Rightarrow> ('t scope, scope_exn, int list) act" where
  "dump_get lk first count want =
     act_bind (line_lift (int_bytes 2 first)) (\<lambda>f.
     act_bind (line_lift (int_bytes 2 count)) (\<lambda>c.
     act_bind (scope_one lk ([85] @ f @ c)) (\<lambda>r.
     let n = le_value (slice r 1 3) in
     act_bind (act_require (\<not> (n > count \<or> (case want of None \<Rightarrow> False | Some x \<Rightarrow> n \<noteq> x)))
       (Wrong_count first n (case want of None \<Rightarrow> count | Some x \<Rightarrow> x))) (\<lambda>_.
     let body = slice r 3 (3 + RECORD_BYTES * nat n); crc = le_value (drop (3 + RECORD_BYTES * nat n) r) in
     if crc16 body \<noteq> crc then
       act_bind (act_mod (\<lambda>s. s\<lparr>sc_crc_retries := sc_crc_retries s + 1\<rparr>)) (\<lambda>_. act_raise (Crc_mismatch first n))
     else act_return (block_records body (nat n))))))"

definition dump :: "'t scope_link \<Rightarrow> int \<Rightarrow> int \<Rightarrow> nat option \<Rightarrow> int option \<Rightarrow> ('t scope, scope_exn, int list) act" where
  "dump lk first count retries want =
     scope_read lk (''records '' @ decimal first @ ''..'' @ decimal (first + count - 1))
       (case retries of None \<Rightarrow> RETRIES | Some n \<Rightarrow> n) (dump_get lk first count want)"

text \<open>Every dump adds at least one record, so \<open>count\<close> passes are enough.\<close>

fun read_loop :: "'t scope_link \<Rightarrow> nat \<Rightarrow> int \<Rightarrow> int list \<Rightarrow> ('t scope, scope_exn, int list) act" where
  "read_loop lk 0 count out = act_return out"
| "read_loop lk (Suc k) count out =
     (if int (length out) < count then
        let n = min (int CHUNK) (count - int (length out)) in
        act_bind (dump lk (int (length out)) n None (Some n)) (\<lambda>ws. read_loop lk k count (out @ ws))
      else act_return out)"

definition read_all :: "'t scope_link \<Rightarrow> int \<Rightarrow> ('t scope, scope_exn, int list) act" where
  "read_all lk count = read_loop lk (nat count) count []"

text \<open>One attempt of \<open>collect\<close>, and \<open>collect\<close> with its single repeat.\<close>

definition collect_once :: "'t scope_link \<Rightarrow> scope_status \<Rightarrow> ('t scope, scope_exn, capture) act" where
  "collect_once lk st = act_bind (read_all lk (ss_records st)) (\<lambda>raw.
     act_bind (activity lk) (\<lambda>act. act_lift (new_capture st raw act)))"

definition halt_again :: "'t scope_link \<Rightarrow> (scope_status \<Rightarrow> bool) \<Rightarrow> scope_status \<Rightarrow> ('t scope, scope_exn, scope_status) act" where
  "halt_again lk cond st = (if cond st then act_bind (halt lk) (\<lambda>_. scope_get_status lk) else act_return st)"

definition scope_collect :: "'t scope_link \<Rightarrow> ('t scope, scope_exn, capture) act" where
  "scope_collect lk =
     act_bind (scope_get_status lk) (\<lambda>st.
     act_bind (halt_again lk (\<lambda>st. ss_state st = 1 \<or> ss_state st = 2 \<or> ss_state st = 5) st) (\<lambda>st.
     act_bind (halt_again lk (\<lambda>st. ss_state st = 3) st) (\<lambda>st.
     act_catch (collect_once lk st) (\<lambda>e.
       if \<not> is_scope_error e then act_raise e
       else act_bind count_link_retry (\<lambda>_. act_bind (drain lk) (\<lambda>_.
         act_bind (scope_get_status lk) (collect_once lk)))))))"

text \<open>The polling loop of \<open>run\<close>: \<open>late k\<close> is the comparison with the deadline after poll \<open>k\<close>, \<open>rest\<close> the
  call of \<open>sleep\<close>, \<open>fuel\<close> a bound on the polls.\<close>

fun run_polls :: "'t scope_link \<Rightarrow> (nat \<Rightarrow> bool) \<Rightarrow> ('t scope, scope_exn, unit) act \<Rightarrow> nat \<Rightarrow> nat \<Rightarrow> ('t scope, scope_exn, unit) act" where
  "run_polls lk late rest k fuel = act_bind (scope_get_status lk) (\<lambda>st.
     if finished st \<or> late k then act_return ()
     else case fuel of 0 \<Rightarrow> act_return ()
     | Suc n \<Rightarrow> act_bind rest (\<lambda>_. run_polls lk late rest (Suc k) n))"

declare run_polls.simps [simp del]

definition scope_run :: "'t scope_link \<Rightarrow> (nat \<Rightarrow> bool) \<Rightarrow> ('t scope, scope_exn, unit) act \<Rightarrow> nat
    \<Rightarrow> int \<Rightarrow> int \<Rightarrow> bool \<Rightarrow> bool \<Rightarrow> int \<Rightarrow> ('t scope, scope_exn, unit) act option \<Rightarrow> ('t scope, scope_exn, capture) act" where
  "scope_run lk late rest fuel enable trigger wait core limit before =
     act_bind (arm lk enable trigger wait core limit) (\<lambda>_.
     act_bind (case before of None \<Rightarrow> act_return () | Some f \<Rightarrow> f) (\<lambda>_.
     act_bind (run_polls lk late rest 0 fuel) (\<lambda>_. scope_collect lk)))"

end
