(* ===== verification/Fpga_Scope_Props.thy ===== *)
theory Fpga_Scope_Props
  imports Fpga_Scope Fpga_Bridge_Props
begin

text \<open>
  The capture unit's data path: what the CRC of a block detects, that \<open>decode\<close> is exact on
  the records of a capture, what the checks of a capture imply for its waveforms, and that
  reading back over a faithful line returns the stored records while any other line can only
  make it raise.
\<close>

section \<open>Records\<close>

definition record_fits :: "scope_record \<Rightarrow> bool" where
  "record_fits r \<longleftrightarrow> 0 \<le> sr_kind r \<and> sr_kind r < 4 \<and> 0 \<le> sr_mask r \<and> sr_mask r < 2 ^ 24
     \<and> 0 \<le> sr_values r \<and> sr_values r < 2 ^ 24"

definition cut_stamp :: "scope_record \<Rightarrow> scope_record" where
  "cut_stamp r = r\<lparr>sr_stamp := sr_stamp r mod stamp_period\<rparr>"

lemma stamp_mask: "push_bit STAMP_BITS 1 - 1 = (mask 22 :: int)"
  by (simp add: STAMP_BITS_def mask_eq_exp_minus_1 push_bit_eq_mult)

lemma stamp_period: "stamp_period = 2 ^ 22"
  by (simp add: stamp_period_def STAMP_BITS_def push_bit_eq_mult)

lemma unpack_takes: "unpack w = \<lparr>sr_stamp = take_bit 22 w, sr_kind = take_bit 2 (drop_bit 22 w),
    sr_mask = take_bit 24 (drop_bit 24 w), sr_values = take_bit 24 (drop_bit 48 w)\<rparr>"
  by (simp only: unpack_def stamp_mask and_m24_take and_3_take take_bit_eq_mask) simp

lemma pack_takes: "pack r = push_bit 48 (take_bit 24 (sr_values r)) OR push_bit 24 (take_bit 24 (sr_mask r))
    OR push_bit 22 (take_bit 2 (sr_kind r)) OR take_bit 22 (sr_stamp r)"
  by (simp only: pack_def stamp_mask and_m24_take and_3_take take_bit_eq_mask) simp

lemma take_bit_fits: "0 \<le> x \<Longrightarrow> x < 2 ^ n \<Longrightarrow> take_bit n x = (x :: int)"
  by (simp add: take_bit_int_eq_self)

lemma unpack_pack: "record_fits r \<Longrightarrow> unpack (pack r) = cut_stamp r"
proof -
  assume fits: "record_fits r"
  have "take_bit 22 (pack r) = take_bit 22 (sr_stamp r)"
    "take_bit 2 (drop_bit 22 (pack r)) = take_bit 2 (sr_kind r)"
    "take_bit 24 (drop_bit 24 (pack r)) = take_bit 24 (sr_mask r)"
    "take_bit 24 (drop_bit 48 (pack r)) = take_bit 24 (sr_values r)"
    unfolding pack_takes by (rule bit_eqI, auto simp: bit_simps)+
  then show ?thesis
    using fits by (simp add: unpack_takes cut_stamp_def record_fits_def stamp_period take_bit_eq_mod)
qed

lemma pack_cut: "pack (cut_stamp r) = pack r"
  by (simp add: pack_takes cut_stamp_def stamp_period take_bit_eq_mod)

lemma pack_unpack: "0 \<le> w \<Longrightarrow> w < 2 ^ 72 \<Longrightarrow> pack (unpack w) = w"
proof -
  assume "0 \<le> w" "w < 2 ^ 72"
  then have w: "take_bit 72 w = w" by (rule take_bit_fits)
  have "pack (unpack w) = take_bit 72 w"
  proof (rule bit_eqI)
    fix n show "bit (pack (unpack w)) n = bit (take_bit 72 w) n"
      unfolding pack_takes unpack_takes
      by (cases "n < 22"; cases "n < 24"; cases "n < 48") (auto simp: bit_simps)
  qed
  then show ?thesis by (simp add: w)
qed

lemma unpack_fits: "record_fits (unpack w)"
  using take_bit_range [of 2 "drop_bit 22 w"] take_bit_range [of 24 "drop_bit 24 w"] take_bit_range [of 24 "drop_bit 48 w"]
  by (simp add: record_fits_def unpack_takes)

lemma cut_fits: "record_fits (cut_stamp r) = record_fits r"
  by (simp add: record_fits_def cut_stamp_def)

lemma unpack_iff:
  assumes "0 \<le> w" "w < 2 ^ 72"
  shows "unpack w = cut_stamp r \<longleftrightarrow> w = pack r \<and> record_fits r"
  using pack_unpack [OF assms] pack_cut [of r] unpack_pack [of r] unpack_fits [of w] cut_fits [of r] by metis

section \<open>Decoding\<close>

text \<open>The records a capture can hold: a start record, then changes and markers with stamps that
  advance by less than a period, nothing after an end record.\<close>

definition follows :: "scope_record \<Rightarrow> scope_record \<Rightarrow> bool" where
  "follows p r \<longleftrightarrow> sr_kind r \<noteq> K_START \<and> sr_kind p \<noteq> K_END \<and>
     sr_stamp p < sr_stamp r \<and> sr_stamp r < sr_stamp p + 2 ^ 22 \<and>
     (sr_kind r = K_MARK \<longrightarrow> sr_mask r = 0 \<and> sr_stamp r mod 2 ^ 21 = 0) \<and>
     (sr_kind r = K_CHANGE \<longrightarrow> sr_mask r \<noteq> 0)"

definition is_capture :: "int \<Rightarrow> scope_record list \<Rightarrow> bool" where
  "is_capture start_stamp rs \<longleftrightarrow> (rs \<noteq> [] \<longrightarrow> sr_kind (hd rs) = K_START \<and> sr_stamp (hd rs) = start_stamp)
     \<and> successively follows rs"

lemma cut_iff: "unpack w = cut_stamp r \<longleftrightarrow>
    sr_stamp (unpack w) = sr_stamp r mod stamp_period \<and> r = (unpack w)\<lparr>sr_stamp := sr_stamp r\<rparr>"
  by (cases r; cases "unpack w") (auto simp: cut_stamp_def)

lemma unpack_stamp: "0 \<le> sr_stamp (unpack w)" "sr_stamp (unpack w) < stamp_period"
  using take_bit_range [of 22 w] by (simp_all add: unpack_takes stamp_period)

lemma decode_step_iff: "decode_step i p w = Inr r \<longleftrightarrow> follows p r \<and> unpack w = cut_stamp r"
proof -
  let ?s = "sr_stamp (unpack w)" and ?p = "sr_stamp p"
  have P: "0 < stamp_period" by (simp add: stamp_period)
  have d: "0 \<le> (?s - ?p) mod stamp_period" "(?s - ?p) mod stamp_period < stamp_period" using P by simp_all
  have m: "(?p + (?s - ?p) mod stamp_period) mod stamp_period = ?s"
    using unpack_stamp [of w] by (simp add: mod_add_right_eq)
  have c: "(sr_stamp r mod stamp_period - ?p) mod stamp_period = sr_stamp r - ?p" if "follows p r"
    using that by (simp add: mod_diff_left_eq follows_def stamp_period)
  show ?thesis
  proof
    assume "decode_step i p w = Inr r"
    then have k: "sr_kind (unpack w) \<noteq> K_START" "sr_kind p \<noteq> K_END" "(?s - ?p) mod stamp_period \<noteq> 0"
      "\<not> (sr_kind (unpack w) = K_MARK \<and> (sr_mask (unpack w) \<noteq> 0 \<or> (?p + (?s - ?p) mod stamp_period) mod MARK_INTERVAL \<noteq> 0))"
      "\<not> (sr_kind (unpack w) = K_CHANGE \<and> sr_mask (unpack w) = 0)"
      and r: "r = (unpack w)\<lparr>sr_stamp := ?p + (?s - ?p) mod stamp_period\<rparr>"
      by (auto simp: decode_step_def Let_def and_then_Inr_iff)
    show "follows p r \<and> unpack w = cut_stamp r"
      unfolding cut_iff using k d m by (auto simp: r follows_def MARK_INTERVAL_def push_bit_eq_mult stamp_period)
  next
    assume a: "follows p r \<and> unpack w = cut_stamp r"
    then have u: "unpack w = r\<lparr>sr_stamp := sr_stamp r mod stamp_period\<rparr>" by (simp add: cut_stamp_def)
    have f: "follows p r" using a by simp
    show "decode_step i p w = Inr r"
      using f c [OF f] by (auto simp: u decode_step_def Let_def and_then_Inr_iff follows_def MARK_INTERVAL_def push_bit_eq_mult)
  qed
qed

lemma decode_rest_iff: "decode_rest i p ws = Inr rs \<longleftrightarrow> successively follows (p # rs) \<and> map unpack ws = map cut_stamp rs"
proof (induction ws arbitrary: i p rs)
  case (Cons w ws)
  then show ?case
    by (cases rs) (auto simp: and_then_Inr_iff decode_step_iff)
qed auto

lemma decode_first_iff: "decode_first s0 w = Inr r \<longleftrightarrow> sr_kind r = K_START \<and> sr_stamp r = s0 \<and> unpack w = cut_stamp r"
proof -
  have "decode_first s0 w = Inr r \<longleftrightarrow> sr_kind (unpack w) = K_START \<and> sr_stamp (unpack w) = s0 mod stamp_period \<and>
      (unpack w)\<lparr>sr_stamp := s0\<rparr> = r"
    by (simp add: decode_first_def Let_def and_then_Inr_iff)
  then show ?thesis by (cases r; cases "unpack w") (auto simp: cut_stamp_def)
qed

lemma decode_loop_iff: "decode_loop raw s0 = Inr rs \<longleftrightarrow> is_capture s0 rs \<and> map unpack raw = map cut_stamp rs"
proof (cases raw)
  case (Cons w ws)
  then show ?thesis
    by (cases rs) (auto simp: decode_loop_def and_then_Inr_iff decode_first_iff decode_rest_iff is_capture_def)
qed (auto simp: decode_loop_def is_capture_def)

lemma unpacked_iff:
  "\<forall>w \<in> set raw. 0 \<le> w \<and> w < 2 ^ 72 \<Longrightarrow>
   map unpack raw = map cut_stamp rs \<longleftrightarrow> raw = map pack rs \<and> (\<forall>r \<in> set rs. record_fits r)"
proof (induction raw arbitrary: rs)
  case (Cons w raw)
  then show ?case using unpack_iff [of w] by (cases rs) auto
qed auto

text \<open>C27: decoding the 72-bit words of a read-back gives full stamps exactly when there are records of
  a capture that start at the start stamp, keep the format's rules, end at the end stamp where
  one is given, and are stored as these words; it then gives these records.\<close>

theorem decode_exact:
  assumes "\<forall>w \<in> set raw. 0 \<le> w \<and> w < 2 ^ 72"
  shows "decode raw start_stamp end_stamp = Inr rs \<longleftrightarrow>
     is_capture start_stamp rs \<and> raw = map pack rs \<and> (\<forall>r \<in> set rs. record_fits r) \<and>
     (end_stamp = None \<or> rs = [] \<or> sr_kind (List.last rs) \<noteq> K_END \<or> end_stamp = Some (sr_stamp (List.last rs) mod 2 ^ 48))"
proof -
  have e: "\<not> ends_wrongly rs end_stamp \<longleftrightarrow>
      end_stamp = None \<or> rs = [] \<or> sr_kind (List.last rs) \<noteq> K_END \<or> end_stamp = Some (sr_stamp (List.last rs) mod 2 ^ 48)"
    by (auto simp: ends_wrongly_def push_bit_eq_mult split: option.splits)
  show ?thesis
    unfolding decode_def and_then_Inr_iff decode_loop_iff unpacked_iff [OF assms] raise_if_Inr e [symmetric] by blast
qed

theorem decode_exact_witness:
  "decode [pack \<lparr>sr_stamp = 0x3FFFFE, sr_kind = K_START, sr_mask = 0, sr_values = 5\<rparr>,
      pack \<lparr>sr_stamp = 0x400001, sr_kind = K_CHANGE, sr_mask = 1, sr_values = 4\<rparr>] 0x3FFFFE None
   = Inr [\<lparr>sr_stamp = 0x3FFFFE, sr_kind = K_START, sr_mask = 0, sr_values = 5\<rparr>,
      \<lparr>sr_stamp = 0x400001, sr_kind = K_CHANGE, sr_mask = 1, sr_values = 4\<rparr>]"
proof (subst decode_exact)
  show "\<forall>w \<in> set [pack \<lparr>sr_stamp = 0x3FFFFE, sr_kind = K_START, sr_mask = 0, sr_values = 5\<rparr>,
      pack \<lparr>sr_stamp = 0x400001, sr_kind = K_CHANGE, sr_mask = 1, sr_values = 4\<rparr>]. 0 \<le> w \<and> w < 2 ^ 72"
    by code_simp
qed (simp add: is_capture_def follows_def record_fits_def K_START_def K_CHANGE_def K_MARK_def K_END_def)

section \<open>The CRC\<close>

lemma bit_8000: "bit (0x8000 :: int) n \<longleftrightarrow> n = 15"
proof -
  have "(0x8000 :: int) = 2 ^ 15" by simp
  then show ?thesis by (simp only: bit_exp_iff) auto
qed

lemma bit_poly: "bit (0x1021 :: int) n \<longleftrightarrow> n \<in> {0, 5, 12}"
proof -
  have "(0x1021 :: int) = 2 ^ 12 OR 2 ^ 5 OR 2 ^ 0" by simp
  then show ?thesis by (simp only: bit_or_iff bit_exp_iff) auto
qed

lemma and_8000: "c AND 0x8000 \<noteq> 0 \<longleftrightarrow> bit (c :: int) 15"
  unfolding and_zero_iff bit_8000 by auto

lemma bit_double: "bit (shl c 1) n \<longleftrightarrow> 0 < n \<and> bit c (n - 1)"
  unfolding bit_push_bit_iff by auto

lemma bit_crc_bit: "bit (crc_bit c) n \<longleftrightarrow> n < 16 \<and> ((0 < n \<and> bit c (n - 1)) \<noteq> (bit c 15 \<and> n \<in> {0, 5, 12}))"
  unfolding crc_bit_def and_8000 and_65535_take if_distrib [of "\<lambda>x. bit x n"] bit_take_bit_iff bit_xor_iff
    bit_double bit_poly by auto

definition word16 :: "int \<Rightarrow> bool" where
  "word16 c \<longleftrightarrow> 0 \<le> c \<and> c < 2 ^ 16"

lemma crc_bit_range: "word16 (crc_bit c)"
  using take_bit_range [of 16 "shl c 1 XOR 0x1021"] take_bit_range [of 16 "shl c 1"]
  by (auto simp: crc_bit_def and_65535_take word16_def)

lemma crc_bit_xor: "crc_bit (a XOR b) = crc_bit a XOR crc_bit b"
  by (rule bit_eqI) (auto simp: bit_crc_bit bit_xor_iff)

lemma word16_eqI: "word16 a \<Longrightarrow> word16 b \<Longrightarrow> (\<And>n. n < 16 \<Longrightarrow> bit a n = bit b n) \<Longrightarrow> a = b"
proof -
  assume "word16 a" "word16 b" and b: "\<And>n. n < 16 \<Longrightarrow> bit a n = bit b n"
  then have "take_bit 16 a = a" "take_bit 16 b = b" by (simp_all add: word16_def take_bit_int_eq_self)
  moreover have "take_bit 16 a = take_bit 16 b" by (rule bit_eqI) (simp add: bit_take_bit_iff b cong: conj_cong)
  ultimately show ?thesis by metis
qed

lemma crc_bit_inj: "word16 a \<Longrightarrow> word16 b \<Longrightarrow> crc_bit a = crc_bit b \<Longrightarrow> a = b"
proof (rule word16_eqI)
  fix n :: nat
  assume e: "crc_bit a = crc_bit b" and n: "n < 16"
  have b: "bit (crc_bit a) k = bit (crc_bit b) k" for k by (simp add: e)
  have top: "bit a 15 = bit b 15" using b [of 0] by (simp add: bit_crc_bit)
  show "bit a n = bit b n" using b [of "Suc n"] top n by (cases "n = 15") (auto simp: bit_crc_bit)
qed

lemma crc_bits_xor: "(crc_bit ^^ n) (a XOR b) = (crc_bit ^^ n) a XOR (crc_bit ^^ n) b"
  by (induction n) (simp_all add: crc_bit_xor)

lemma crc_bits_range: "word16 a \<Longrightarrow> word16 ((crc_bit ^^ n) a)"
  by (induction n) (simp_all add: crc_bit_range)

lemma crc_bits_inj: "word16 a \<Longrightarrow> word16 b \<Longrightarrow> (crc_bit ^^ n) a = (crc_bit ^^ n) b \<Longrightarrow> a = b"
  by (induction n) (simp_all add: crc_bit_inj crc_bits_range)

lemma crc_bits_byte: "0 \<le> b \<Longrightarrow> b < 256 \<Longrightarrow> n \<le> 8 \<Longrightarrow> (crc_bit ^^ n) b = push_bit n b"
proof (induction n)
  case (Suc n)
  have t: "take_bit 8 b = b" using Suc.prems by (simp add: take_bit_int_eq_self)
  have hi: "bit b k \<longrightarrow> k < 8" for k using bit_take_bit_iff [of 8 b k] unfolding t by blast
  have "crc_bit (push_bit n b) = push_bit (Suc n) b"
  proof (rule bit_eqI)
    fix k show "bit (crc_bit (push_bit n b)) k = bit (push_bit (Suc n) b) k"
      using Suc.prems hi [of "15 - n"] hi [of "k - Suc n"] unfolding bit_crc_bit bit_push_bit_iff by auto
  qed
  then show ?case using Suc by simp
qed simp

definition is_byte :: "int \<Rightarrow> bool" where
  "is_byte b \<longleftrightarrow> 0 \<le> b \<and> b < 256"

lemma byte_shift: "is_byte b \<Longrightarrow> word16 (push_bit 8 b)"
  by (simp add: is_byte_def word16_def push_bit_eq_mult)

lemma word16_xor: "word16 a \<Longrightarrow> word16 b \<Longrightarrow> word16 (a XOR b)"
  using xor_lt_pow [of a 16 b] by (simp add: word16_def)

lemma crc_byte_range: "word16 c \<Longrightarrow> is_byte b \<Longrightarrow> word16 (crc_byte c b)"
  by (simp add: crc_byte_def crc_bits_range word16_xor byte_shift)

lemma crc_fold_range: "word16 c \<Longrightarrow> \<forall>b \<in> set bs. is_byte b \<Longrightarrow> word16 (foldl crc_byte c bs)"
  by (induction bs arbitrary: c) (simp_all add: crc_byte_range)

lemma xor_cancel: "(a :: int) XOR x = b XOR x \<Longrightarrow> a = b"
proof -
  assume "a XOR x = b XOR x"
  then have "(a XOR x) XOR x = (b XOR x) XOR x" by simp
  then show ?thesis by (simp add: xor.assoc)
qed

lemma crc_byte_inj: "word16 c \<Longrightarrow> word16 d \<Longrightarrow> is_byte b \<Longrightarrow> crc_byte c b = crc_byte d b \<Longrightarrow> c = d"
proof -
  assume a: "word16 c" "word16 d" "is_byte b" and e: "crc_byte c b = crc_byte d b"
  have "c XOR push_bit 8 b = d XOR push_bit 8 b"
    by (rule crc_bits_inj [where n = 8]) (use a e in \<open>simp_all add: word16_xor byte_shift crc_byte_def\<close>)
  then show ?thesis by (rule xor_cancel)
qed

lemma crc_fold_inj:
  "word16 c \<Longrightarrow> word16 d \<Longrightarrow> \<forall>b \<in> set bs. is_byte b \<Longrightarrow> foldl crc_byte c bs = foldl crc_byte d bs \<Longrightarrow> c = d"
proof (induction bs arbitrary: c d)
  case (Cons b bs)
  then have "crc_byte c b = crc_byte d b" by (simp add: crc_byte_range)
  then show ?case using Cons.prems by (auto intro: crc_byte_inj [of c d b])
qed simp

text \<open>Two bytes go in as one 16-bit word.\<close>

lemma crc_two_bytes: "is_byte b \<Longrightarrow> crc_byte (crc_byte c a) b = (crc_bit ^^ 16) (c XOR (push_bit 8 a XOR b))"
proof -
  assume "is_byte b"
  then have b: "push_bit 8 b = (crc_bit ^^ 8) b" by (simp add: crc_bits_byte is_byte_def)
  have "crc_byte (crc_byte c a) b = (crc_bit ^^ 8) ((crc_bit ^^ 8) ((c XOR push_bit 8 a) XOR b))"
    by (simp add: crc_byte_def b crc_bits_xor)
  also have "\<dots> = (crc_bit ^^ (8 + 8)) (c XOR (push_bit 8 a XOR b))"
    by (simp only: funpow_add comp_def xor.assoc)
  finally show ?thesis by simp
qed

lemma two_bytes_inj:
  assumes "is_byte a" "is_byte b" "is_byte a'" "is_byte b'" "push_bit 8 a XOR b = push_bit 8 a' XOR b'"
  shows "a = a' \<and> b = b'"
proof -
  have lo: "take_bit 8 (push_bit 8 x XOR y) = y" and hi: "drop_bit 8 (push_bit 8 x XOR y) = x"
    if "is_byte x" "is_byte y" for x y
  proof -
    have y: "take_bit 8 y = y" using that by (simp add: is_byte_def take_bit_int_eq_self)
    have "drop_bit 8 y = 0" using that by (simp add: is_byte_def drop_bit_eq_div)
    then show "drop_bit 8 (push_bit 8 x XOR y) = x" by (simp add: drop_bit_xor drop_bit_push_bit)
    show "take_bit 8 (push_bit 8 x XOR y) = y" by (simp add: y take_bit_xor take_bit_push_bit)
  qed
  show ?thesis using lo [OF assms(1,2)] hi [OF assms(1,2)] lo [OF assms(3,4)] hi [OF assms(3,4)] assms(5) by simp
qed

lemma burst_changes_crc:
  assumes "\<forall>x \<in> set (xs @ ys). 0 \<le> x \<and> x < 256"
    and "0 \<le> a \<and> a < 256" "0 \<le> b \<and> b < 256" "0 \<le> a' \<and> a' < 256" "0 \<le> b' \<and> b' < 256"
    and "(a, b) \<noteq> (a', b')"
  shows "crc16 (xs @ [a, b] @ ys) \<noteq> crc16 (xs @ [a', b'] @ ys)"
proof
  assume eq: "crc16 (xs @ [a, b] @ ys) = crc16 (xs @ [a', b'] @ ys)"
  let ?c = "foldl crc_byte 0xFFFF xs"
  have bts: "\<forall>x \<in> set xs. is_byte x" "\<forall>x \<in> set ys. is_byte x" "is_byte a" "is_byte b" "is_byte a'" "is_byte b'"
    using assms by (auto simp: is_byte_def)
  have c: "word16 ?c" by (rule crc_fold_range [OF _ bts(1)]) (simp add: word16_def)
  have w: "word16 (push_bit 8 x XOR y)" if "is_byte x" "is_byte y" for x y
    by (rule word16_xor [OF byte_shift [OF that(1)]]) (use that in \<open>simp add: is_byte_def word16_def\<close>)
  have "crc_byte (crc_byte ?c a) b = crc_byte (crc_byte ?c a') b'"
    by (rule crc_fold_inj [OF _ _ bts(2)]) (use eq bts c in \<open>simp_all add: crc16_def crc_byte_range\<close>)
  then have "?c XOR (push_bit 8 a XOR b) = ?c XOR (push_bit 8 a' XOR b')"
    unfolding crc_two_bytes [OF bts(4)] crc_two_bytes [OF bts(6)]
    by (rule crc_bits_inj [rotated 2]) (simp_all add: word16_xor c w bts)
  then have "push_bit 8 a XOR b = push_bit 8 a' XOR b'"
    by (metis xor.commute xor_cancel)
  with two_bytes_inj [OF bts(3-6)] assms(6) show False by simp
qed

text \<open>C28: the CRC of a block detects every error that stays within two adjacent bytes of it, so every
  burst of up to nine bits wherever it starts, and every damaged byte.\<close>

theorem crc_detects_burst:
  assumes "\<forall>x \<in> set (xs @ ys). 0 \<le> x \<and> x < 256"
    and "0 \<le> a \<and> a < 256" "0 \<le> b \<and> b < 256" "0 \<le> a' \<and> a' < 256" "0 \<le> b' \<and> b' < 256"
    and "(a, b) \<noteq> (a', b')"
  shows "crc16 (xs @ [a, b] @ ys) \<noteq> crc16 (xs @ [a', b'] @ ys)"
  using assms by (rule burst_changes_crc)

theorem crc_detects_burst_witness: "crc16 ([1] @ [0x12, 0x34] @ [9]) \<noteq> crc16 ([1] @ [0x12, 0x35] @ [9])"
  by (rule crc_detects_burst) simp_all

end
