(* ===== verification/Fpga_Scope_Read.thy ===== *)
theory Fpga_Scope_Read
  imports Fpga_Scope_Props
begin

text \<open>
  Captures and their read-back: what the checks of a capture imply for the waveforms, and
  reading the records of a unit back over a line that may damage blocks.
\<close>

section \<open>Waveforms\<close>

lemma channel_edges_filter:
  "channel_edges ch rs = map (\<lambda>r. (sr_stamp r, bit_at (sr_values r) ch)) [r \<leftarrow> rs. has_bit (sr_mask r) ch]"
  by (induction rs) (simp_all add: channel_edges_def)

lemma channel_edges_simps:
  "channel_edges ch [] = []"
  "channel_edges ch (r # rs) =
     (if has_bit (sr_mask r) ch then (sr_stamp r, bit_at (sr_values r) ch) # channel_edges ch rs else channel_edges ch rs)"
  by (simp_all add: channel_edges_filter)

lemma edge_count_edges: "edge_count ch rs = int (length (channel_edges ch rs))"
  by (simp add: edge_count_def channel_edges_filter)

lemma is_capture_stamps: "is_capture s0 rs \<Longrightarrow> sorted_wrt (<) (map sr_stamp rs)"
proof -
  assume "is_capture s0 rs"
  then have "successively (\<lambda>p r. sr_stamp p < sr_stamp r) rs"
    by (auto simp: is_capture_def follows_def elim!: successively_mono)
  then have "sorted_wrt (\<lambda>p r. sr_stamp p < sr_stamp r) rs"
    by (subst (asm) successively_conv_sorted_wrt) (auto intro: transpI)
  then show ?thesis by (simp add: sorted_wrt_map)
qed

lemma sorted_hd_last: "sorted_wrt (<) (xs :: int list) \<Longrightarrow> x \<in> set xs \<Longrightarrow> hd xs \<le> x \<and> x \<le> List.last xs"
proof (induction xs)
  case (Cons a xs)
  then show ?case by (cases "xs = []") (auto intro: less_imp_le dest: last_in_set)
qed simp

lemma edges_sorted: "sorted_wrt (<) (map sr_stamp rs) \<Longrightarrow> sorted_wrt (<) (map fst (channel_edges ch rs))"
  by (simp add: channel_edges_filter comp_def sorted_wrt_map sorted_wrt_filter)

text \<open>From a level on, the edges of an enabled channel alternate.\<close>

lemma levels_alternate:
  "check_levels en i level rs = Inr u \<Longrightarrow> has_bit en ch \<Longrightarrow> k < length (channel_edges ch rs) \<Longrightarrow>
   snd (channel_edges ch rs ! k) = (bit_at level ch + int k + 1) mod 2"
proof (induction rs arbitrary: i level k)
  case (Cons r rs)
  then have m: "(level XOR sr_values r) AND en = sr_mask r"
    and rest: "check_levels en (Suc i) (sr_values r AND en) rs = Inr u"
    by (auto simp: and_then_Inr_iff)
  have e: "has_bit (sr_mask r) ch \<longleftrightarrow> bit level (nat ch) \<noteq> bit (sr_values r) (nat ch)"
    using Cons.prems(2) by (auto simp: m [symmetric] has_bit_iff bit_simps)
  have l: "bit_at (sr_values r AND en) ch = bit_at (sr_values r) ch"
    using Cons.prems(2) by (auto simp: bit_at_of_bool has_bit_iff bit_simps)
  show ?case
  proof (cases "has_bit (sr_mask r) ch")
    case False
    then have "bit_at (sr_values r) ch = bit_at level ch" using e by (simp add: bit_at_of_bool)
    with False show ?thesis using Cons.IH [OF rest Cons.prems(2), of k] Cons.prems(3)
      by (simp add: channel_edges_simps l)
  next
    case True
    then have flip: "bit_at (sr_values r) ch = (bit_at level ch + 1) mod 2"
      using e by (auto simp: bit_at_of_bool)
    show ?thesis
    proof (cases k)
      case 0
      then show ?thesis using True flip by (simp add: channel_edges_simps)
    next
      case (Suc j)
      then have "snd (channel_edges ch rs ! j) = (bit_at (sr_values r) ch + int j + 1) mod 2"
        using Cons.IH [OF rest Cons.prems(2), of j] Cons.prems(3) True by (simp add: channel_edges_simps l)
      then show ?thesis using True Suc unfolding flip by (simp add: channel_edges_simps) presburger
    qed
  qed
qed (simp add: channel_edges_simps)

lemma check_activity_count:
  "check_activity act rs chs = Inr u \<Longrightarrow> ch \<in> set chs \<Longrightarrow> act = [] \<or>
   act ! nat ch = edge_count ch rs \<or> act ! nat ch = 0xFFFFFFFF"
  by (induction chs) (auto simp: Let_def and_then_Inr_iff split: if_splits)

lemma set_enabled: "ch \<in> set (enabled_of en) \<longleftrightarrow> 0 \<le> ch \<and> ch < 24 \<and> has_bit en ch"
  by (auto simp: enabled_of_def)

text \<open>C29: in a capture that is accepted the edges of every enabled channel lie at increasing cycles
  inside the window, alternate from the opposite of the initial level on, and are as many as the
  unit's own counter of the channel says, unless that is saturated.\<close>

theorem waveforms_consistent:
  assumes "new_capture st raw act = Inr c" "ch \<in> set (enabled c)" "window c = Some (w0, w1)"
  shows "\<exists>es. edges c ch = Inr es \<and> sorted_wrt (<) (map fst es) \<and> fst ` set es \<subseteq> {w0..w1} \<and>
     (\<forall>k < length es. snd (es ! k) = (initial c ch + int k + 1) mod 2) \<and>
     (act = [] \<or> act ! nat ch = int (length es) \<or> act ! nat ch = 0xFFFFFFFF)"
proof -
  from assms(1) obtain rs where rs: "decode raw (ss_start_stamp st) (if finished st then Some (ss_end_stamp st) else None) = Inr rs"
    "check_records (ss_enable st) act rs = Inr ()" "c = \<lparr>cp_status = st, cp_raw = raw, cp_activity = act, cp_records = rs\<rparr>"
    by (auto simp: new_capture_def and_then_Inr_iff)
  let ?es = "channel_edges ch rs"
  have ne: "rs \<noteq> []" and w: "w0 = sr_stamp (hd rs)" "w1 = sr_stamp (List.last rs)"
    using assms(3) by (auto simp: window_def rs(3) split: if_splits)
  obtain r0 rs' where r0: "rs = r0 # rs'" using ne by (cases rs) auto
  have b: "ch \<in> set (enabled_of (ss_enable st))" "has_bit (ss_enable st) ch"
    using assms(2) by (simp_all add: enabled_def rs(3) set_enabled)
  have lv: "check_levels (ss_enable st) 0 ((sr_values r0 XOR sr_mask r0) AND ss_enable st) rs = Inr ()"
    and ac: "check_activity act rs (enabled_of (ss_enable st)) = Inr ()"
    using rs(2) by (auto simp: check_records_def r0 and_then_Inr_iff)
  have so: "sorted_wrt (<) (map sr_stamp rs)"
    using rs(1) is_capture_stamps by (auto simp: decode_def and_then_Inr_iff decode_loop_iff)
  have i: "bit_at ((sr_values r0 XOR sr_mask r0) AND ss_enable st) ch = initial c ch"
    using b(2) by (auto simp: initial_def rs(3) r0 bit_at_of_bool has_bit_iff bit_simps)
  have "sr_stamp r \<in> {w0..w1}" if "r \<in> set rs" for r
    using sorted_hd_last [OF so, of "sr_stamp r"] that ne by (simp add: w hd_map last_map)
  then have win: "fst ` set ?es \<subseteq> {w0..w1}" by (auto simp: channel_edges_filter)
  have e: "edges c ch = Inr ?es" using assms(2) by (simp add: edges_def raise_if_def rs(3))
  show ?thesis
    using e edges_sorted [OF so] win levels_alternate [OF lv b(2)] check_activity_count [OF ac b(1)]
    by (auto simp: i edge_count_edges)
qed

definition sample_status :: scope_status where
  "sample_status = \<lparr>ss_version = 1, ss_state = 4, ss_flags = 2, ss_aw = 8, ss_channels = 24, ss_records = 3, ss_lost = 0,
     ss_start_stamp = 10, ss_end_stamp = 30, ss_now = 40, ss_enable = 3, ss_trigger = 0, ss_mode = 0, ss_limit = 256\<rparr>"

definition sample_raw :: "int list" where
  "sample_raw = [pack \<lparr>sr_stamp = 10, sr_kind = K_START, sr_mask = 0, sr_values = 2\<rparr>,
     pack \<lparr>sr_stamp = 17, sr_kind = K_CHANGE, sr_mask = 3, sr_values = 1\<rparr>,
     pack \<lparr>sr_stamp = 30, sr_kind = K_END, sr_mask = 1, sr_values = 0\<rparr>]"

theorem waveforms_consistent_witness:
  "\<exists>es c. new_capture sample_status sample_raw [] = Inr c \<and> edges c 0 = Inr es \<and> fst ` set es \<subseteq> {10..30} \<and>
     (\<forall>k < length es. snd (es ! k) = (initial c 0 + int k + 1) mod 2)"
proof -
  let ?c = "projr (new_capture sample_status sample_raw [])"
  have n: "new_capture sample_status sample_raw [] = Inr ?c" by code_simp
  have e: "0 \<in> set (enabled ?c)" by code_simp
  have w: "window ?c = Some (10, 30)" by code_simp
  show ?thesis using waveforms_consistent [OF n e w] n by blast
qed

section \<open>Blocks\<close>

text \<open>The reply to a \<open>U\<close> frame: the number of records, nine bytes per record, the CRC of these bytes.\<close>

definition block_body :: "int list \<Rightarrow> int list" where
  "block_body ws = concat (map (pack_le RECORD_BYTES) ws)"

definition block_reply :: "int list \<Rightarrow> int list \<Rightarrow> int list" where
  "block_reply body ws = 85 # pack_le 2 (int (length ws)) @ body @ pack_le 2 (crc16 (block_body ws))"

definition u_frame :: "int \<Rightarrow> int \<Rightarrow> int list" where
  "u_frame first count = 85 # pack_le 2 first @ pack_le 2 count"

lemma length_pack_le [simp]: "length (pack_le n x) = n"
  by (simp add: pack_le_def)

lemma pack_le_bytes: "\<forall>b \<in> set (pack_le n x). is_byte b"
  using take_bit_range [of 8] by (auto simp: pack_le_def is_byte_def and_255_take)

lemma length_body: "length (block_body ws) = RECORD_BYTES * length ws"
  by (induction ws) (simp_all add: block_body_def)

lemma body_bytes: "\<forall>b \<in> set (block_body ws). is_byte b"
  using pack_le_bytes by (auto simp: block_body_def)

lemma crc16_range: "\<forall>b \<in> set bs. is_byte b \<Longrightarrow> 0 \<le> crc16 bs \<and> crc16 bs < 2 ^ 16"
  using crc_fold_range [of "0xFFFF" bs] by (simp add: crc16_def word16_def)

lemma slice_body: "i < length ws \<Longrightarrow> slice (block_body ws) (RECORD_BYTES * i) (RECORD_BYTES * (i + 1)) = pack_le RECORD_BYTES (ws ! i)"
proof (induction ws arbitrary: i)
  case (Cons w ws)
  show ?case
  proof (cases i)
    case (Suc j)
    then have "slice (block_body ws) (RECORD_BYTES * j) (RECORD_BYTES * (j + 1)) = pack_le RECORD_BYTES (ws ! j)"
      using Cons by simp
    then show ?thesis by (simp add: Suc block_body_def slice_def RECORD_BYTES_def)
  qed (simp add: block_body_def slice_def)
qed simp

lemma block_records_body:
  assumes "\<forall>w \<in> set ws. 0 \<le> w \<and> w < 2 ^ 72"
  shows "block_records (block_body ws) (length ws) = ws"
proof (rule nth_equalityI)
  show "length (block_records (block_body ws) (length ws)) = length ws" by (simp add: block_records_def)
next
  fix i assume "i < length (block_records (block_body ws) (length ws))"
  then have i: "i < length ws" by (simp add: block_records_def)
  then have w: "0 \<le> ws ! i" "ws ! i < 2 ^ 72" using assms by simp_all
  have "block_records (block_body ws) (length ws) ! i = le_value (pack_le RECORD_BYTES (ws ! i))"
    using i slice_body [OF i] by (simp add: block_records_def)
  also have "\<dots> = ws ! i" using w by (simp add: le_value_pack RECORD_BYTES_def)
  finally show "block_records (block_body ws) (length ws) ! i = ws ! i" .
qed

lemma block_parts:
  assumes "length ws < 65536" "length body = RECORD_BYTES * length ws"
  shows "le_value (slice (block_reply body ws) 1 3) = int (length ws)"
    "slice (block_reply body ws) 3 (3 + RECORD_BYTES * length ws) = body"
    "le_value (drop (3 + RECORD_BYTES * length ws) (block_reply body ws)) = crc16 (block_body ws)"
proof -
  obtain a b where h: "pack_le 2 (int (length ws)) = [a, b]"
    by (auto simp: pack_le_def numeral_2_eq_2)
  have l: "le_value [a, b] = int (length ws)"
    using le_value_pack [of "int (length ws)" 2] assms(1) by (simp add: h)
  have c: "le_value (pack_le 2 (crc16 (block_body ws))) = crc16 (block_body ws)"
    using crc16_range [OF body_bytes, of ws] by (simp add: le_value_pack)
  show "le_value (slice (block_reply body ws) 1 3) = int (length ws)"
    using l by (simp add: block_reply_def h slice_def)
  show "slice (block_reply body ws) 3 (3 + RECORD_BYTES * length ws) = body"
    by (simp add: block_reply_def h slice_def assms(2))
  show "le_value (drop (3 + RECORD_BYTES * length ws) (block_reply body ws)) = crc16 (block_body ws)"
    using c by (simp add: block_reply_def h assms(2) numeral_3_eq_3)
qed

section \<open>Damage\<close>

text \<open>A body damaged within two adjacent bytes, or not at all.\<close>

definition near :: "int list \<Rightarrow> int list \<Rightarrow> bool" where
  "near body body' \<longleftrightarrow> (\<exists>xs a b a' b' ys. body = xs @ [a, b] @ ys \<and> body' = xs @ [a', b'] @ ys \<and> is_byte a' \<and> is_byte b')"

lemma near_length: "near body body' \<Longrightarrow> length body' = length body"
  by (auto simp: near_def)

lemma near_crc:
  assumes "near body body'" "\<forall>b \<in> set body. is_byte b" "crc16 body' = crc16 body"
  shows "body' = body"
proof -
  obtain xs a b a' b' ys where d: "body = xs @ [a, b] @ ys" "body' = xs @ [a', b'] @ ys" "is_byte a'" "is_byte b'"
    using assms(1) unfolding near_def by blast
  have "\<forall>x \<in> set (xs @ ys). 0 \<le> x \<and> x < 256" "0 \<le> a \<and> a < 256" "0 \<le> b \<and> b < 256"
    using assms(2) by (auto simp: d is_byte_def)
  moreover have "0 \<le> a' \<and> a' < 256" "0 \<le> b' \<and> b' < 256" using d(3,4) by (simp_all add: is_byte_def)
  ultimately have "(a, b) \<noteq> (a', b') \<Longrightarrow> crc16 body \<noteq> crc16 body'" unfolding d(1,2) by (rule burst_changes_crc)
  then show ?thesis using assms(3) d by auto
qed

section \<open>A capture unit on a line\<close>

text \<open>A unit with the words \<open>store d\<close> answers a request for stored records with a block of them; \<open>harm\<close>
  says what the line may do to the body.\<close>

definition serves_blocks :: "(int list \<Rightarrow> int list \<Rightarrow> bool) \<Rightarrow> 'd device \<Rightarrow> ('d \<Rightarrow> int list) \<Rightarrow> bool" where
  "serves_blocks harm respond store \<longleftrightarrow> (\<forall>d first count. 0 \<le> first \<and> 0 < count \<and> first + count \<le> int (length (store d)) \<longrightarrow>
     store (snd (respond (u_frame first count) d)) = store d \<and>
     (let ws = take (nat count) (drop (nat first) (store d)) in
       \<exists>body. harm (block_body ws) body \<and> fst (respond (u_frame first count) d) = block_reply body ws))"

definition line_link :: "'d device \<Rightarrow> 'd line scope_link" where
  "line_link respond = \<lparr>sl_transport = line_transport respond, sl_flush = None,
     sl_poll = tr_read (line_transport respond) 4096\<rparr>"

definition line_quiet :: "('d \<Rightarrow> int list) \<Rightarrow> int list \<Rightarrow> 'd line scope \<Rightarrow> bool" where
  "line_quiet store mem s \<longleftrightarrow> ln_in (sc_line s) = [] \<and> store (ln_dev (sc_line s)) = mem"

context bridge_line
begin

lemma one_reply:
  assumes "answers_whole respond" "framed f" "pending s = []"
    and "bridge_check (hd f) (fst (respond f (dev s))) = Inr r"
  shows "\<exists>s'. bridge_one t f s = (Inr (fst (respond f (dev s))), s') \<and> after s [f] s'"
proof -
  have fr: "\<forall>g \<in> set [f]. framed g" using assms(2) by simp
  obtain n s' where n: "n \<le> length [f]" "after s (take n [f]) s'"
    "transact t [f] s = (checked (take n [f]) (fst (serve respond (take n [f]) (dev s))), s')"
    "reply_errors (take n [f]) (fst (serve respond (take n [f]) (dev s))) = [] \<longrightarrow> n = length [f]"
    using transact_serves [OF assms(1) fr assms(3)] by blast
  have none: "reply_errors (take n [f]) (fst (serve respond (take n [f]) (dev s))) = []"
    using assms(4) n(1) by (cases n) (simp_all add: Let_def case_prod_unfold)
  then have k: "take n [f] = [f]" using n(4) by simp
  have "bridge_one t f s = (Inr (fst (respond f (dev s))), s')"
    using n(3) none unfolding k by (simp add: bridge_one_def act_bind_run checked_def Let_def case_prod_unfold)
  then show ?thesis using n(2) unfolding k by blast
qed

end

lemma u_frame_framed: "framed (u_frame first count)"
  by (simp add: framed_def u_frame_def frame_len_def)

lemma request_block:
  assumes "answers_whole respond" "serves_blocks harm respond store" "line_quiet store mem s"
    "0 \<le> first" "0 < count" "first + count \<le> int (length mem)"
  shows "\<exists>body s'. harm (block_body (take (nat count) (drop (nat first) mem))) body \<and> line_quiet store mem s' \<and>
     scope_one (line_link respond) (u_frame first count) s =
       (Inr (block_reply body (take (nat count) (drop (nat first) mem))), s') \<and> sc_link_retries s' = sc_link_retries s"
proof -
  let ?d = "ln_dev (sc_line s)" and ?f = "u_frame first count" and ?ws = "take (nat count) (drop (nat first) mem)"
  have st: "store ?d = mem" and p: "ln_in (sc_line s) = []" using assms(3) by (simp_all add: line_quiet_def)
  obtain body where b: "harm (block_body ?ws) body" "fst (respond ?f ?d) = block_reply body ?ws"
    "store (snd (respond ?f ?d)) = mem"
    using assms(2,4-6) st unfolding serves_blocks_def Let_def by metis
  have "bridge_check (hd ?f) (fst (respond ?f ?d)) = Inr (block_reply body ?ws)"
    by (simp add: b(2) bridge_check_def byte_at_def block_reply_def)
  from lines.one_reply [OF assms(1) u_frame_framed p this] obtain l where
    l: "bridge_one (line_transport respond) ?f (sc_line s) = (Inr (block_reply body ?ws), l)"
      "lines.after respond (sc_line s) [?f] l" unfolding b(2) by blast
  have "line_quiet store mem (s\<lparr>sc_line := l\<rparr>)"
    using l(2) b(3) by (simp add: line_quiet_def lines.after_def Let_def case_prod_unfold)
  moreover have "scope_one (line_link respond) ?f s = (Inr (block_reply body ?ws), s\<lparr>sc_line := l\<rparr>)"
    using l(1) by (simp add: scope_one_def on_line_def line_link_def)
  ultimately show ?thesis using b(1) by (intro exI [of _ body] exI [of _ "s\<lparr>sc_line := l\<rparr>"]) simp
qed

section \<open>Reading back\<close>

text \<open>Damage the CRC detects; without \<open>lossy\<close> there is none.\<close>

definition detected :: "bool \<Rightarrow> (int list \<Rightarrow> int list \<Rightarrow> bool) \<Rightarrow> bool" where
  "detected lossy harm \<longleftrightarrow> (\<forall>body body'. (\<forall>b \<in> set body. is_byte b) \<and> harm body body' \<longrightarrow>
     length body' = length body \<and> (crc16 body' = crc16 body \<or> \<not> lossy \<longrightarrow> body' = body))"

lemma near_detected: "detected True near"
  unfolding detected_def using near_length near_crc by blast

lemma same_detected: "detected False (\<lambda>body body'. body' = body)"
  by (simp add: detected_def)

text \<open>What reading keeps: an empty line, the stored words and, on a lossless line, the count of repeats.\<close>

definition read_kept :: "bool \<Rightarrow> ('d \<Rightarrow> int list) \<Rightarrow> int list \<Rightarrow> int \<Rightarrow> 'd line scope \<Rightarrow> bool" where
  "read_kept lossy store mem n s \<longleftrightarrow> line_quiet store mem s \<and> (lossy \<or> sc_link_retries s = n)"

lemma dump_get_kept:
  assumes "answers_whole respond" "serves_blocks harm respond store" "detected lossy harm" "read_kept lossy store mem n s"
    and "0 \<le> first" "0 < count" "first + count \<le> int (length mem)" "length mem < 65536" "\<forall>w \<in> set mem. 0 \<le> w \<and> w < 2 ^ 72"
  shows "act_post (\<lambda>ws s'. ws = take (nat count) (drop (nat first) mem) \<and> read_kept lossy store mem n s')
     (\<lambda>_ s'. lossy \<and> read_kept lossy store mem n s') (dump_get (line_link respond) first count (Some count) s)"
proof -
  let ?lk = "line_link respond"
  define ws where "ws = take (nat count) (drop (nat first) mem)"
  have len: "length ws = nat count" using assms(5-7) by (simp add: ws_def)
  have k: "int (nat count) = count" using assms(6) by simp
  have fit: "length ws < 65536" using assms(5-8) len by simp
  have q: "line_quiet store mem s" using assms(4) by (simp add: read_kept_def)
  obtain body s' where b: "harm (block_body ws) body" "line_quiet store mem s'"
    "scope_one ?lk (u_frame first count) s = (Inr (block_reply body ws), s')" "sc_link_retries s' = sc_link_retries s"
    using request_block [OF assms(1,2) q assms(5-7)] unfolding ws_def by blast
  have bl: "length body = RECORD_BYTES * length ws" and crc: "crc16 body = crc16 (block_body ws) \<or> \<not> lossy \<longrightarrow> body = block_body ws"
    using assms(3) b(1) body_bytes [of ws] length_body [of ws] unfolding detected_def by metis+
  have read_kept: "read_kept lossy store mem n s'" using b(2,4) assms(4) by (simp add: read_kept_def)
  note parts = block_parts [OF fit bl, unfolded len One_nat_def k]
  have ws: "block_records (block_body ws) (nat count) = ws"
    using block_records_body [of ws] assms(9) unfolding len by (metis ws_def in_set_dropD in_set_takeD)
  have bytes: "int_bytes 2 first = Inr (pack_le 2 first)" "int_bytes 2 count = Inr (pack_le 2 count)"
    using assms(5-8) by (simp_all add: int_bytes_def)
  have "dump_get ?lk first count (Some count) s =
      (if crc16 body \<noteq> crc16 (block_body ws) then (Inl (Crc_mismatch first count), s'\<lparr>sc_crc_retries := sc_crc_retries s' + 1\<rparr>)
       else (Inr (block_records body (nat count)), s'))"
    using b(3) k assms(6)
    by (simp add: dump_get_def bytes line_lift_def on_line_def act_bind_def u_frame_def parts len Let_def)
  then show ?thesis
    using read_kept crc ws unfolding ws_def [symmetric] by (auto simp: read_kept_def line_quiet_def)
qed

lemma drain_quiet:
  assumes "line_quiet store mem s"
  shows "drain (line_link respond) s = (Inr (), s)"
proof -
  have "drain_polls (line_link respond) n (sc_line s) = (Inr (), sc_line s)" for n
    using assms by (cases n) (simp_all add: line_link_def line_transport_def line_quiet_def act_bind_def)
  then show ?thesis by (simp add: drain_def on_line_def line_link_def)
qed

lemma attempts_kept:
  assumes "\<And>s. read_kept lossy store mem n s \<Longrightarrow>
     act_post (\<lambda>a s'. Q a \<and> read_kept lossy store mem n s') (\<lambda>_ s'. lossy \<and> read_kept lossy store mem n s') (fn s)"
  shows "read_kept lossy store mem n s \<Longrightarrow>
     act_post (\<lambda>a s'. Q a \<and> read_kept lossy store mem n s') (\<lambda>_ s'. lossy \<and> read_kept lossy store mem n s')
       (attempts (line_link respond) what fn retries left s)"
proof (induction left arbitrary: s)
  case 0
  then show ?case using assms [OF 0]
    by (auto simp: attempts.simps [of _ _ _ _ 0] act_catch_def act_post_def split: prod.splits sum.splits)
next
  case (Suc k)
  show ?case
  proof (cases "fn s")
    case (Pair r s1)
    show ?thesis
    proof (cases r)
      case (Inr a)
      then show ?thesis using assms [OF Suc.prems] by (simp add: attempts.simps [of _ _ _ _ "Suc k"] act_catch_def Pair)
    next
      case (Inl e)
      then have l: "lossy" "read_kept lossy store mem n s1" using assms [OF Suc.prems] unfolding Pair Inl act_post_simps by blast+
      let ?s2 = "s1\<lparr>sc_link_retries := sc_link_retries s1 + 1\<rparr>"
      have q: "line_quiet store mem ?s2" and k2: "read_kept lossy store mem n ?s2" using l by (simp_all add: read_kept_def line_quiet_def)
      show ?thesis
        using Suc.IH [OF k2] l Inl Pair
        by (simp add: attempts.simps [of _ _ _ _ "Suc k"] act_catch_def count_link_retry_def act_bind_run drain_quiet [OF q])
    qed
  qed
qed

lemma dump_kept:
  assumes "answers_whole respond" "serves_blocks harm respond store" "detected lossy harm" "read_kept lossy store mem n s"
    and "0 \<le> first" "0 < count" "first + count \<le> int (length mem)" "length mem < 65536" "\<forall>w \<in> set mem. 0 \<le> w \<and> w < 2 ^ 72"
  shows "act_post (\<lambda>ws s'. ws = take (nat count) (drop (nat first) mem) \<and> read_kept lossy store mem n s')
     (\<lambda>_ s'. lossy \<and> read_kept lossy store mem n s') (dump (line_link respond) first count retries (Some count) s)"
  unfolding dump_def scope_read_def
  by (rule attempts_kept [OF dump_get_kept [OF assms(1-3) _ assms(5-9)] assms(4)])

lemma read_loop_kept:
  assumes "answers_whole respond" "serves_blocks harm respond store" "detected lossy harm"
    and "count \<le> int (length mem)" "length mem < 65536" "\<forall>w \<in> set mem. 0 \<le> w \<and> w < 2 ^ 72"
  shows "read_kept lossy store mem n s \<Longrightarrow> out = take (length out) mem \<Longrightarrow> length out \<le> nat count \<Longrightarrow> nat count - length out \<le> k \<Longrightarrow>
     act_post (\<lambda>ws s'. ws = take (nat count) mem \<and> read_kept lossy store mem n s')
       (\<lambda>_ s'. lossy \<and> read_kept lossy store mem n s') (read_loop (line_link respond) k count out s)"
proof (induction k arbitrary: out s)
  case 0
  then have "length out = nat count" by simp
  then show ?case using 0 by simp
next
  case (Suc k)
  show ?case
  proof (cases "int (length out) < count")
    case False
    then have "length out = nat count" using Suc.prems by simp
    then show ?thesis using False Suc.prems by simp
  next
    case True
    let ?c = "min (int CHUNK) (count - int (length out))"
    have c: "0 < ?c" "int (length out) + ?c \<le> int (length mem)" using True assms(4) by (simp_all add: CHUNK_def)
    have step: "act_post (\<lambda>ws s'. ws = take (nat ?c) (drop (length out) mem) \<and> read_kept lossy store mem n s')
        (\<lambda>_ s'. lossy \<and> read_kept lossy store mem n s') (dump (line_link respond) (int (length out)) ?c None (Some ?c) s)"
      using dump_kept [OF assms(1-3) Suc.prems(1) _ c assms(5,6)] by simp
    have grow: "act_post (\<lambda>ws s'. ws = take (nat count) mem \<and> read_kept lossy store mem n s')
        (\<lambda>_ s'. lossy \<and> read_kept lossy store mem n s') (read_loop (line_link respond) k count (out @ ws) s')"
      if w: "ws = take (nat ?c) (drop (length out) mem) \<and> read_kept lossy store mem n s'" for ws s'
    proof (rule Suc.IH)
      have l: "length ws = nat ?c" using w c(2) by simp
      show "read_kept lossy store mem n s'" using w by simp
      have "out @ ws = take (length out + nat ?c) mem"
        using w Suc.prems(2) by (simp add: take_add)
      then show "out @ ws = take (length (out @ ws)) mem" unfolding length_append l .
      show "length (out @ ws) \<le> nat count" using True by (simp add: l)
      show "nat count - length (out @ ws) \<le> k" using Suc.prems(4) True c(1) by (simp add: l)
    qed
    show ?thesis unfolding read_loop.simps if_P [OF True] Let_def
      by (rule act_post_seq, rule step, erule grow)
  qed
qed

lemma read_all_kept:
  assumes "answers_whole respond" "serves_blocks harm respond store" "detected lossy harm"
    and "0 \<le> count" "count \<le> int (length mem)" "length mem < 65536" "\<forall>w \<in> set mem. 0 \<le> w \<and> w < 2 ^ 72"
    and "read_kept lossy store mem n s"
  shows "act_post (\<lambda>ws s'. ws = take (nat count) mem \<and> read_kept lossy store mem n s')
       (\<lambda>_ s'. lossy \<and> read_kept lossy store mem n s') (read_all (line_link respond) count s)"
  unfolding read_all_def by (rule read_loop_kept [OF assms(1-3,5-8)]) simp_all

text \<open>A unit that stores words, behind a line that applies \<open>hurt\<close> to every block.\<close>

definition unit_device :: "(int list \<Rightarrow> int list) \<Rightarrow> int list device" where
  "unit_device hurt f mem =
     (if hd f = 85 then
        let ws = take (nat (le_value (slice f 3 5))) (drop (nat (le_value (slice f 1 3))) mem);
          ws = (if int (length ws) < 65536 then ws else [])
        in (block_reply (hurt (block_body ws)) ws, mem)
      else (if hd f = 82 then [75, 0, 0, 0, 0] else [75], mem))"

lemma unit_device_whole:
  assumes "\<And>body. length (hurt body) = length body"
  shows "answers_whole (unit_device hurt)"
proof -
  have "whole 85 (block_reply (hurt (block_body ws)) ws)" if "length ws < 65536" for ws
  proof -
    have l: "length (hurt (block_body ws)) = RECORD_BYTES * length ws" using assms by (simp add: length_body)
    show ?thesis using block_parts(1) [OF that l] l
      by (simp add: whole_def reply_rest_def block_reply_def RECORD_BYTES_def)
  qed
  moreover have "whole 82 [75, 0, 0, 0, 0]" by (simp add: whole_def reply_rest_def)
  moreover have "whole c [75]" if "c \<noteq> 82" "c \<noteq> 85" for c using that by (simp add: whole_def reply_rest_def)
  ultimately show ?thesis by (simp add: answers_whole_def unit_device_def Let_def)
qed

lemma unit_device_serves:
  assumes "length mem < 65536" "\<And>ws. ws \<noteq> [] \<Longrightarrow> harm (block_body ws) (hurt (block_body ws))"
  shows "serves_blocks harm (unit_device hurt) (\<lambda>d. if d = mem then mem else [])"
proof -
  have f: "nat (le_value (slice (u_frame first count) 1 3)) = nat first"
    "nat (le_value (slice (u_frame first count) 3 5)) = nat count"
    if "0 \<le> first" "0 < count" "first + count \<le> int (length mem)" for first count
  proof -
    obtain a b where h: "pack_le 2 first = [a, b]" by (auto simp: pack_le_def numeral_2_eq_2)
    obtain c d where k: "pack_le 2 count = [c, d]" by (auto simp: pack_le_def numeral_2_eq_2)
    have "le_value [a, b] = first" "le_value [c, d] = count"
      using le_value_pack [of first 2] le_value_pack [of count 2] that assms(1) by (simp_all add: h k)
    then show "nat (le_value (slice (u_frame first count) 1 3)) = nat first"
      "nat (le_value (slice (u_frame first count) 3 5)) = nat count"
      by (simp_all add: u_frame_def h k slice_def)
  qed
  show ?thesis
    unfolding serves_blocks_def
  proof (intro allI impI)
    fix d first count
    assume a: "0 \<le> first \<and> 0 < count \<and> first + count \<le> int (length (if d = mem then mem else []))"
    then have d: "d = mem" by (cases "d = mem") auto
    let ?ws = "take (nat count) (drop (nat first) mem)"
    have ne: "?ws \<noteq> []" using a d by auto
    have "int (length ?ws) < 65536" using assms(1) by simp
    then have "unit_device hurt (u_frame first count) d = (block_reply (hurt (block_body ?ws)) ?ws, mem)"
      using a d f by (simp add: unit_device_def u_frame_def Let_def del: length_take length_drop)
    then show "(if snd (unit_device hurt (u_frame first count) d) = mem then mem else []) = (if d = mem then mem else []) \<and>
       (let ws = take (nat count) (drop (nat first) (if d = mem then mem else [])) in
       \<exists>body. harm (block_body ws) body \<and> fst (unit_device hurt (u_frame first count) d) = block_reply body ws)"
      using assms(2) [OF ne] d by (auto simp: Let_def)
  qed
qed

text \<open>C30: on a line that damages nothing, reading back \<open>count\<close> of the stored records returns exactly
  the first \<open>count\<close> of them in order, without a repeat and with nothing left on the line.\<close>

theorem read_all_complete:
  assumes "answers_whole respond" "serves_blocks (\<lambda>body body'. body' = body) respond store"
    and "ln_in (sc_line s) = []" "mem = store (ln_dev (sc_line s))"
    and "0 \<le> count" "count \<le> int (length mem)" "length mem < 65536" "\<forall>w \<in> set mem. 0 \<le> w \<and> w < 2 ^ 72"
  shows "\<exists>s'. read_all (line_link respond) count s = (Inr (take (nat count) mem), s') \<and>
     sc_link_retries s' = sc_link_retries s \<and> ln_in (sc_line s') = []"
proof -
  have k: "read_kept False store mem (sc_link_retries s) s" using assms(3,4) by (simp add: read_kept_def line_quiet_def)
  have "act_post (\<lambda>ws s'. ws = take (nat count) mem \<and> read_kept False store mem (sc_link_retries s) s')
       (\<lambda>_ s'. False \<and> read_kept False store mem (sc_link_retries s) s') (read_all (line_link respond) count s)"
    by (rule read_all_kept [OF assms(1,2) same_detected assms(5-8) k])
  then show ?thesis by (auto simp: act_post_def read_kept_def line_quiet_def split: prod.splits sum.splits)
qed

theorem read_all_complete_witness:
  "\<exists>s'. read_all (line_link (unit_device (\<lambda>b. b))) 2
     \<lparr>sc_line = \<lparr>ln_dev = [5, 2 ^ 70, 9], ln_in = [], ln_sent = []\<rparr>, sc_crc_retries = 0, sc_link_retries = 0\<rparr>
     = (Inr [5, 2 ^ 70], s')"
proof -
  let ?mem = "[5, 2 ^ 70, 9] :: int list"
  let ?s = "\<lparr>sc_line = \<lparr>ln_dev = ?mem, ln_in = [], ln_sent = []\<rparr>, sc_crc_retries = 0, sc_link_retries = 0\<rparr>"
  have wh: "answers_whole (unit_device (\<lambda>b. b))" by (rule unit_device_whole) simp
  have sv: "serves_blocks (\<lambda>body body'. body' = body) (unit_device (\<lambda>b. b)) (\<lambda>d. if d = ?mem then ?mem else [])"
    by (rule unit_device_serves) simp_all
  have "\<exists>s'. read_all (line_link (unit_device (\<lambda>b. b))) 2 ?s = (Inr (take (nat 2) ?mem), s') \<and>
      sc_link_retries s' = sc_link_retries ?s \<and> ln_in (sc_line s') = []"
    by (rule read_all_complete [OF wh sv]) simp_all
  then show ?thesis by (auto simp: numeral_2_eq_2)
qed

text \<open>C31: whatever two adjacent bytes of a block the line damages, and however often, reading back
  never returns a wrong record: it returns the stored records or raises.\<close>

theorem read_all_never_wrong:
  assumes "answers_whole respond" "serves_blocks near respond store"
    and "ln_in (sc_line s) = []" "mem = store (ln_dev (sc_line s))"
    and "0 \<le> count" "count \<le> int (length mem)" "length mem < 65536" "\<forall>w \<in> set mem. 0 \<le> w \<and> w < 2 ^ 72"
  shows "\<not> (\<exists>ws s'. read_all (line_link respond) count s = (Inr ws, s') \<and> ws \<noteq> take (nat count) mem)"
proof -
  have k: "read_kept True store mem 0 s" using assms(3,4) by (simp add: read_kept_def line_quiet_def)
  have "act_post (\<lambda>ws s'. ws = take (nat count) mem \<and> read_kept True store mem 0 s')
       (\<lambda>_ s'. True \<and> read_kept True store mem 0 s') (read_all (line_link respond) count s)"
    by (rule read_all_kept [OF assms(1,2) near_detected assms(5-8) k])
  then show ?thesis by (auto simp: act_post_def)
qed

theorem read_all_never_wrong_witness:
  "\<not> (\<exists>ws s'. read_all (line_link (unit_device (\<lambda>b. if b = [] then [] else (hd b + 1) mod 256 # tl b))) 2
     \<lparr>sc_line = \<lparr>ln_dev = [5, 2 ^ 70, 9], ln_in = [], ln_sent = []\<rparr>, sc_crc_retries = 0, sc_link_retries = 0\<rparr>
     = (Inr ws, s') \<and> ws \<noteq> [5, 2 ^ 70])"
proof -
  let ?mem = "[5, 2 ^ 70, 9] :: int list"
  let ?hurt = "\<lambda>b :: int list. if b = [] then [] else (hd b + 1) mod 256 # tl b"
  let ?store = "\<lambda>d. if d = ?mem then ?mem else []"
  let ?s = "\<lparr>sc_line = \<lparr>ln_dev = ?mem, ln_in = [], ln_sent = []\<rparr>, sc_crc_retries = 0, sc_link_retries = 0\<rparr>"
  have wh: "answers_whole (unit_device ?hurt)" by (rule unit_device_whole) simp
  have "near (block_body ws) (?hurt (block_body ws))" if "ws \<noteq> []" for ws
  proof (cases ws)
    case (Cons w vs)
    obtain a b ys where ab: "block_body ws = [] @ [a, b] @ ys"
      by (auto simp: Cons block_body_def RECORD_BYTES_def pack_le_def upt_rec [of _ 9] intro: that)
    then have "?hurt (block_body ws) = [] @ [(a + 1) mod 256, b] @ ys" by simp
    moreover have "is_byte b" using body_bytes [of ws] by (simp add: ab)
    ultimately show ?thesis
      unfolding near_def using ab by (metis is_byte_def pos_mod_bound pos_mod_sign zero_less_numeral)
  qed (use that in simp)
  then have sv: "serves_blocks near (unit_device ?hurt) ?store" by (intro unit_device_serves) simp_all
  have "\<not> (\<exists>ws s'. read_all (line_link (unit_device ?hurt)) 2 ?s = (Inr ws, s') \<and> ws \<noteq> take (nat 2) ?mem)"
    by (rule read_all_never_wrong [OF wh sv]) simp_all
  then show ?thesis by (simp add: numeral_2_eq_2)
qed

end
