(* ===== verification/Fpga_Scope_Collect.thy ===== *)
theory Fpga_Scope_Collect
  imports Fpga_Scope_Read
begin

text \<open>
  What \<open>collect\<close> and \<open>run\<close> hand out over any transport, however it misbehaves: every read command
  returns the value of one attempt that passed its checks.
\<close>

lemma on_line_ok: "ok_post (\<lambda>_ _. True) r"
  by (simp add: act_post_def split: prod.splits sum.splits)

lemma catch_ok:
  assumes "ok_post (\<lambda>a _. Q a) (m s)" "\<And>e s. ok_post (\<lambda>a _. Q a) (h e s)"
  shows "ok_post (\<lambda>a _. Q a) (act_catch m h s)"
proof (cases "m s")
  case (Pair r s')
  then show ?thesis using assms(1) assms(2) by (cases r) (simp_all add: act_catch_def)
qed

lemma attempts_ok:
  assumes "\<And>s. ok_post (\<lambda>a _. Q a) (fn s)"
  shows "ok_post (\<lambda>a _. Q a) (attempts lk what fn retries left s)"
proof (induction left arbitrary: s)
  case 0
  show ?case unfolding attempts.simps [of _ _ _ _ 0] by (rule catch_ok [OF assms]) simp
next
  case (Suc k)
  have "ok_post (\<lambda>a _. Q a) (act_bind count_link_retry (\<lambda>_. act_bind (drain lk) (\<lambda>_. attempts lk what fn retries k)) s')" for s'
    by (rule act_post_seq, rule on_line_ok, rule act_post_seq, rule on_line_ok, rule Suc.IH)
  then show ?case unfolding attempts.simps [of _ _ _ _ "Suc k"] by (intro catch_ok [OF assms]) simp
qed

lemma status_ok: "ok_post (\<lambda>st _. check_status st = Inr st) (scope_get_status lk s)"
  unfolding scope_get_status_def scope_read_def
proof (rule attempts_ok)
  fix s
  have "check_status st' = Inr st \<Longrightarrow> st' = st" for st' st by (auto simp: check_status_def and_then_Inr_iff)
  then show "ok_post (\<lambda>st _. check_status st = Inr st) (act_bind (scope_one lk [81]) (\<lambda>r. act_lift (and_then (parse_status r) check_status)) s)"
    by (intro act_post_seq [where R = "\<lambda>_ _. True"] on_line_ok) (auto simp: act_post_def and_then_Inr_iff split: sum.splits)
qed

lemma dump_ok: "ok_post (\<lambda>ws _. int (length ws) = max n 0) (dump lk first count retries (Some n) s)"
  unfolding dump_def scope_read_def
proof (rule attempts_ok)
  fix s show "ok_post (\<lambda>ws _. int (length ws) = max n 0) (dump_get lk first count (Some n) s)"
    unfolding dump_get_def Let_def
    by (rule act_post_seq, rule on_line_ok, rule act_post_seq, rule on_line_ok, rule act_post_seq, rule on_line_ok)
      (simp add: block_records_def)
qed

lemma read_loop_ok:
  "length out \<le> nat count \<Longrightarrow> nat count - length out \<le> k \<Longrightarrow>
   ok_post (\<lambda>ws _. length ws = nat count) (read_loop lk k count out s)"
proof (induction k arbitrary: out s)
  case (Suc k)
  show ?case
  proof (cases "int (length out) < count")
    case True
    show ?thesis unfolding read_loop.simps if_P [OF True] Let_def
    proof (rule act_post_seq, rule dump_ok, rule Suc.IH)
      fix ws :: "int list" assume w: "int (length ws) = max (min (int CHUNK) (count - int (length out))) 0"
      show "length (out @ ws) \<le> nat count" "nat count - length (out @ ws) \<le> k"
        using w True Suc.prems by (auto simp: CHUNK_def)
    qed
  qed (use Suc.prems in auto)
qed auto

definition accepted :: "capture \<Rightarrow> bool" where
  "accepted c \<longleftrightarrow> check_status (cp_status c) = Inr (cp_status c) \<and> length (cp_raw c) = nat (ss_records (cp_status c)) \<and>
     new_capture (cp_status c) (cp_raw c) (cp_activity c) = Inr c"

lemma collect_once_ok: "check_status st = Inr st \<Longrightarrow> ok_post (\<lambda>c _. accepted c) (collect_once lk st s)"
  unfolding collect_once_def read_all_def
  by (rule act_post_seq, rule read_loop_ok, simp, simp, rule act_post_seq, rule on_line_ok)
    (auto simp: act_post_def accepted_def new_capture_def and_then_Inr_iff split: sum.splits)

lemma halt_again_ok: "check_status st = Inr st \<Longrightarrow> ok_post (\<lambda>st _. check_status st = Inr st) (halt_again lk cond st s)"
  unfolding halt_again_def by (cases "cond st") (simp_all, rule act_post_seq, rule on_line_ok, rule status_ok)

lemma collect_ok: "ok_post (\<lambda>c _. accepted c) (scope_collect lk s)"
  unfolding scope_collect_def
proof (rule act_post_seq, rule status_ok, rule act_post_seq, erule halt_again_ok, rule act_post_seq, erule halt_again_ok,
    rule catch_ok, erule collect_once_ok)
  fix e s
  have "ok_post (\<lambda>c _. accepted c) (act_bind count_link_retry (\<lambda>_. act_bind (drain lk) (\<lambda>_.
      act_bind (scope_get_status lk) (collect_once lk))) s)"
    by (rule act_post_seq, rule on_line_ok, rule act_post_seq, rule on_line_ok, rule act_post_seq, rule status_ok,
        erule collect_once_ok)
  then show "ok_post (\<lambda>c _. accepted c) ((if \<not> is_scope_error e then act_raise e
      else act_bind count_link_retry (\<lambda>_. act_bind (drain lk) (\<lambda>_. act_bind (scope_get_status lk) (collect_once lk)))) s)"
    by simp
qed

text \<open>C32: whatever the transport delivers, a capture that \<open>run\<close> returns has a plausible status of a
  capture unit, as many raw records as the status says, and records and counters that pass
  every check of a capture.\<close>

theorem run_returns_accepted:
  assumes "scope_run lk late rest fuel enable trigger wait core limit before s = (Inr c, s')"
  shows "check_status (cp_status c) = Inr (cp_status c) \<and> length (cp_raw c) = nat (ss_records (cp_status c)) \<and>
     new_capture (cp_status c) (cp_raw c) (cp_activity c) = Inr c"
proof -
  have "ok_post (\<lambda>c _. accepted c) (scope_run lk late rest fuel enable trigger wait core limit before s)"
    unfolding scope_run_def
    by (rule act_post_seq, rule on_line_ok, rule act_post_seq, rule on_line_ok, rule act_post_seq, rule on_line_ok, rule collect_ok)
  then show ?thesis using assms by (simp add: accepted_def)
qed

text \<open>A unit whose capture is over: it answers Q, P and U.\<close>

definition status_reply :: "scope_status \<Rightarrow> int list" where
  "status_reply st = 81 # [ss_version st, ss_state st, ss_flags st, ss_aw st, ss_channels st]
     @ pack_le 2 (ss_records st) @ pack_le 4 (ss_lost st) @ pack_le 6 (ss_start_stamp st) @ pack_le 6 (ss_end_stamp st)
     @ pack_le 6 (ss_now st) @ pack_le 3 (ss_enable st) @ pack_le 3 (ss_trigger st) @ [ss_mode st] @ pack_le 2 (ss_limit st)"

definition done_status :: scope_status where
  "done_status = sample_status\<lparr>ss_records := 1\<rparr>"

definition done_device :: "int list device" where
  "done_device f mem = (if hd f = 81 then (status_reply done_status, mem)
     else if hd f = 80 then (80 # concat (replicate 24 [0xFF, 0xFF, 0xFF, 0xFF]), mem)
     else unit_device (\<lambda>b. b) f mem)"

lemma length_status_reply: "length (status_reply st) = 39"
  by (simp add: status_reply_def)

lemma done_whole: "answers_whole done_device"
proof -
  have "answers_whole (unit_device (\<lambda>b. b))" by (rule unit_device_whole) simp
  moreover have "whole 81 (status_reply done_status)"
    unfolding whole_def length_status_reply by (simp add: status_reply_def reply_rest_def)
  moreover have "whole 80 (80 # concat (replicate 24 [0xFF, 0xFF, 0xFF, 0xFF]))"
    by (simp add: whole_def reply_rest_def length_concat sum_list_replicate)
  ultimately show ?thesis by (simp add: answers_whole_def done_device_def)
qed

definition done_mem :: "int list" where
  "done_mem = take 1 sample_raw"

definition done_good :: "int list line scope \<Rightarrow> bool" where
  "done_good s \<longleftrightarrow> ln_in (sc_line s) = [] \<and> ln_dev (sc_line s) = done_mem"

text \<open>Operations that succeed.\<close>

abbreviation succeeds :: "('a \<Rightarrow> bool) \<Rightarrow> (scope_exn + 'a) \<times> int list line scope \<Rightarrow> bool" where
  "succeeds Q r \<equiv> act_post (\<lambda>a s'. Q a \<and> done_good s') (\<lambda>_ _. False) r"

lemma attempts_first: "act_post Q (\<lambda>_ _. False) (fn s) \<Longrightarrow> act_post Q (\<lambda>_ _. False) (attempts lk what fn retries left s)"
  by (cases "fn s"; cases "fst (fn s)"; cases left) (simp_all add: attempts.simps act_catch_def)

lemma done_one:
  assumes "done_good s" "framed f" "hd f \<noteq> 85" "bridge_check (hd f) (fst (done_device f done_mem)) = Inr r"
  shows "succeeds (\<lambda>r'. r' = fst (done_device f done_mem)) (scope_one (line_link done_device) f s)"
proof -
  have p: "ln_in (sc_line s) = []" and d: "ln_dev (sc_line s) = done_mem" using assms(1) by (simp_all add: done_good_def)
  have c: "bridge_check (hd f) (fst (done_device f (ln_dev (sc_line s)))) = Inr r" using assms(4) d by simp
  have "snd (done_device f done_mem) = done_mem" using assms(3) by (simp add: done_device_def unit_device_def)
  then show ?thesis using lines.one_reply [OF done_whole assms(2) p c] d
    by (auto simp: scope_one_def on_line_def line_link_def done_good_def lines.after_def Let_def case_prod_unfold)
qed

lemma done_frames: "framed [81]" "framed [80]" "framed (65 # pack_le 3 x @ pack_le 3 y @ m # pack_le 2 z)"
  by (simp_all add: framed_def frame_len_def)

lemma done_get_status: "done_good s \<Longrightarrow> succeeds (\<lambda>st. st = done_status) (scope_get_status (line_link done_device) s)"
proof -
  assume g: "done_good s"
  have c: "bridge_check (hd [81]) (fst (done_device [81] done_mem)) = Inr (fst (done_device [81] done_mem))" by code_simp
  have v: "and_then (parse_status (fst (done_device [81] done_mem))) check_status = Inr done_status" by code_simp
  show ?thesis unfolding scope_get_status_def scope_read_def
    by (rule attempts_first, rule act_post_seq, rule done_one [OF g done_frames(1) _ c]) (simp_all add: v)
qed

lemma done_activity: "done_good s \<Longrightarrow> succeeds (\<lambda>act. act = replicate 24 0xFFFFFFFF) (activity (line_link done_device) s)"
proof -
  assume g: "done_good s"
  have c: "bridge_check (hd [80]) (fst (done_device [80] done_mem)) = Inr (fst (done_device [80] done_mem))" by code_simp
  have v: "map (\<lambda>i. le_value (slice (fst (done_device [80] done_mem)) (1 + 4 * i) (5 + 4 * i))) [0..<24] = replicate 24 0xFFFFFFFF"
    by code_simp
  show ?thesis unfolding activity_def scope_read_def
    by (rule attempts_first, rule act_post_seq, rule done_one [OF g done_frames(2) _ c]) (simp_all only: act_run act_post_simps v, simp_all)
qed

lemma done_arm: "done_good s \<Longrightarrow> succeeds (\<lambda>_. True) (arm (line_link done_device) 3 0 False False 0 s)"
proof -
  assume g: "done_good s"
  let ?f = "65 # pack_le 3 3 @ pack_le 3 0 @ 0 # pack_le 2 0"
  have c: "bridge_check (hd ?f) (fst (done_device ?f done_mem)) = Inr [75]" by code_simp
  have "succeeds (\<lambda>_. True) (ignore_result (scope_one (line_link done_device) ?f) s)"
    unfolding ignore_result_def by (rule act_post_seq, rule done_one [OF g done_frames(3) _ c]) simp_all
  then show ?thesis by (simp add: arm_def int_bytes_def line_lift_def on_line_def act_bind_def)
qed

lemma done_read: "done_good s \<Longrightarrow> succeeds (\<lambda>ws. ws = done_mem) (read_all (line_link done_device) 1 s)"
proof -
  assume g: "done_good s"
  let ?store = "\<lambda>d. if d = done_mem then done_mem else []"
  have m: "length done_mem = 1" "\<forall>w \<in> set done_mem. 0 \<le> w \<and> w < 2 ^ 72" by code_simp+
  have u: "serves_blocks (\<lambda>body body'. body' = body) (unit_device (\<lambda>b. b)) ?store"
    by (rule unit_device_serves) (simp_all add: m(1))
  then have sv: "serves_blocks (\<lambda>body body'. body' = body) done_device ?store"
    by (simp add: serves_blocks_def done_device_def u_frame_def)
  have k: "read_kept False ?store done_mem (sc_link_retries s) s" using g by (simp add: read_kept_def line_quiet_def done_good_def)
  have "act_post (\<lambda>ws s'. ws = take (nat 1) done_mem \<and> read_kept False ?store done_mem (sc_link_retries s) s')
       (\<lambda>_ s'. False \<and> read_kept False ?store done_mem (sc_link_retries s) s') (read_all (line_link done_device) 1 s)"
    by (rule read_all_kept [OF done_whole sv same_detected _ _ _ m(2) k]) (simp_all add: m(1))
  then show ?thesis
    by (rule act_post_mono) (auto simp: m(1) read_kept_def line_quiet_def done_good_def split: if_splits dest: arg_cong [where f = length])
qed

definition done_run :: "(scope_exn + capture) \<times> int list line scope" where
  "done_run = scope_run (line_link done_device) (\<lambda>_. False) (act_return ()) 0 3 0 False False 0 None
     \<lparr>sc_line = \<lparr>ln_dev = done_mem, ln_in = [], ln_sent = []\<rparr>, sc_crc_retries = 0, sc_link_retries = 0\<rparr>"

lemma done_collects: "succeeds (\<lambda>c. cp_raw c = done_mem) done_run"
proof -
  let ?act = "replicate 24 0xFFFFFFFF"
  obtain c where c: "new_capture done_status done_mem ?act = Inr c" "cp_raw c = done_mem"
  proof -
    have "(case new_capture done_status done_mem ?act of Inl _ \<Rightarrow> False | Inr c \<Rightarrow> cp_raw c = done_mem)" by code_simp
    then show ?thesis using that by (auto split: sum.splits)
  qed
  have st: "ss_state done_status = 4" "ss_records done_status = 1" by (simp_all add: done_status_def sample_status_def)
  have "succeeds (\<lambda>c. cp_raw c = done_mem) (collect_once (line_link done_device) done_status s)" if "done_good s" for s
    unfolding collect_once_def st
    by (rule act_post_seq, rule done_read [OF that], elim conjE, rule act_post_seq, erule done_activity) (simp add: c)
  then have once: "succeeds (\<lambda>c. cp_raw c = done_mem) (act_catch (collect_once (line_link done_device) done_status) h s)"
    if "done_good s" for s h
    using that by (fastforce simp: act_catch_def act_post_def split: prod.splits sum.splits)
  have coll: "succeeds (\<lambda>c. cp_raw c = done_mem) (scope_collect (line_link done_device) s)" if "done_good s" for s
    unfolding scope_collect_def
    by (rule act_post_seq, rule done_get_status [OF that]) (simp add: halt_again_def st once)
  have poll: "succeeds (\<lambda>_. True) (run_polls (line_link done_device) (\<lambda>_. False) (act_return ()) 0 0 s)" if "done_good s" for s
    unfolding run_polls.simps [of _ _ _ 0]
    by (rule act_post_seq, rule done_get_status [OF that]) (simp add: finished_def st)
  show ?thesis
    unfolding done_run_def scope_run_def
    by (rule act_post_seq, rule done_arm, simp add: done_good_def, simp, rule act_post_seq, rule poll, simp, rule coll, simp)
qed

theorem run_returns_accepted_witness:
  "\<exists>c. fst done_run = Inr c \<and> cp_raw c = done_mem \<and> length (cp_raw c) = nat (ss_records (cp_status c))"
proof -
  obtain c s' where c: "done_run = (Inr c, s')" "cp_raw c = done_mem"
    using done_collects by (auto simp: act_post_def split: prod.splits sum.splits)
  from run_returns_accepted [OF c(1) [unfolded done_run_def]] show ?thesis
    by (intro exI [of _ c]) (simp add: c)
qed

end
