(* ===== verification/Lockstep_Backend.thy ===== *)
theory Lockstep_Backend
  imports Lockstep_Port Pio_Board_Props
begin

text \<open>
  \<open>Rp2Backend\<close> of \<open>host/pe_host/ports/pio_lockstep.py\<close>: the port's backend on a state machine of an
  RP2. The MicroPython modules are a parameter, the calls the backend makes of them. The polling
  loops have fuel; on a clock that follows the polls a bound is enough, and the board simulation
  has such a clock.
\<close>

section \<open>The modules\<close>

text \<open>What the loops poll.\<close>

record 's poll_ops =
  pl_tx_fifo :: "('s, host_error, int) act"
  pl_rx_fifo :: "('s, host_error, int) act"
  pl_ticks_us :: "('s, host_error, int) act"
  pl_ticks_diff :: "int \<Rightarrow> int \<Rightarrow> int"
  pl_sleep_us :: "int \<Rightarrow> ('s, host_error, unit) act"

record 's rp2_ops = "'s poll_ops" +
  rp_freq :: "('s, host_error, int) act"
  rp_remove_program :: "int \<Rightarrow> ('s, host_error, unit) act"
  rp_gpio_window :: "int \<Rightarrow> int \<Rightarrow> ('s, host_error, unit) act"
  rp_pin_in :: "int \<Rightarrow> ('s, host_error, unit) act"
  rp_machine :: "int \<Rightarrow> pio_program \<Rightarrow> fsm_pins \<Rightarrow> ('s, host_error, unit) act"
  rp_exec :: "int \<Rightarrow> ('s, host_error, unit) act"
  rp_active :: "bool \<Rightarrow> ('s, host_error, unit) act"
  rp_put :: "int list \<Rightarrow> ('s, host_error, unit) act"
  rp_get :: "('s, host_error, int) act"

section \<open>The backend\<close>

record 's rp2_backend =
  rb_ops :: "'s rp2_ops"
  rb_pins :: pin_map
  rb_gpio_base :: int
  rb_reset :: "(bool \<Rightarrow> ('s, host_error, unit) act) option"
  rb_ena :: "(int \<Rightarrow> ('s, host_error, unit) act) option"
  rb_f_sys :: int
  rb_frame_hz :: int
  rb_uo_visible :: int
  rb_sm_id :: int
  rb_prog :: pio_program
  rb_polls :: nat

fun contains :: "string \<Rightarrow> string \<Rightarrow> bool" where
  "contains w [] \<longleftrightarrow> w = []"
| "contains w (c # cs) \<longleftrightarrow> take (length w) (c # cs) = w \<or> contains w cs"

text \<open>\<open>machine_name\<close> is \<open>os.uname().machine\<close>, if the call does not raise.\<close>

definition is_rp2350 :: "string option \<Rightarrow> bool" where
  "is_rp2350 machine_name = (case machine_name of None \<Rightarrow> False | Some n \<Rightarrow> contains ''RP2350'' n)"

definition rb_start :: "'s rp2_backend \<Rightarrow> bool \<Rightarrow> ('s, host_error, unit) act" where
  "rb_start rb first = (let o' = rb_ops rb; m = rb_pins rb in
     act_bind (if first then
         act_bind (rp_remove_program o' (rb_sm_id rb div 4)) (\<lambda>_.
         act_bind (if rb_gpio_base rb \<noteq> 0 then rp_gpio_window o' (rb_sm_id rb div 4) 16 else act_return ()) (\<lambda>_.
         act_for (pm_uo_out m) (rp_pin_in o')))
       else act_return ()) (\<lambda>_.
     act_bind (rp_machine o' (rb_sm_id rb) (rb_prog rb) (lockstep_pins m)) (\<lambda>_.
     act_bind (rp_exec o' INSTR_SET_Y_0) (\<lambda>_.
     act_bind (rp_exec o' INSTR_JMP_FETCH) (\<lambda>_.
     rp_active o' True)))))"

definition new_rp2_backend ::
  "'s rp2_ops \<Rightarrow> pin_map \<Rightarrow> (bool \<Rightarrow> ('s, host_error, unit) act) option \<Rightarrow> (int \<Rightarrow> ('s, host_error, unit) act) option
     \<Rightarrow> int option \<Rightarrow> string option \<Rightarrow> nat \<Rightarrow> ('s, host_error, 's rp2_backend) act" where
  "new_rp2_backend ops pins reset' ena sm_id machine_name polls =
     act_bind (act_lift (case check_pin_map pins of
         None \<Rightarrow> Inl (HostError ''lockstep port pin map'') | Some base \<Rightarrow> Inr base)) (\<lambda>base.
     act_bind (rp_freq ops) (\<lambda>f_sys.
     act_bind (act_lift (case build_program of
         Inl _ \<Rightarrow> Inl (HostError ''PIOASMError'') | Inr prog \<Rightarrow> Inr prog)) (\<lambda>prog.
     let rb = \<lparr>rb_ops = ops, rb_pins = pins, rb_gpio_base = base, rb_reset = reset', rb_ena = ena,
         rb_f_sys = f_sys, rb_frame_hz = f_sys div FRAME_CYCLES,
         rb_uo_visible = shl 1 (int (length (pm_uo_out pins))) - 1,
         rb_sm_id = (case sm_id of Some i \<Rightarrow> i | None \<Rightarrow> if is_rp2350 machine_name then 8 else 4),
         rb_prog = prog, rb_polls = polls\<rparr>
     in act_bind (rb_start rb True) (\<lambda>_. act_return rb))))"

section \<open>Polling\<close>

text \<open>\<open>while busy(): if ticks_diff(ticks_us(), start) > timeout: return False\<close>; what the poll read
  is done when it is over.\<close>

fun poll_until :: "('s, 'm) poll_ops_scheme \<Rightarrow> ('s, host_error, int) act \<Rightarrow> (int \<Rightarrow> bool) \<Rightarrow> int \<Rightarrow> int \<Rightarrow> nat
     \<Rightarrow> ('s, host_error, bool) act" where
  "poll_until p poll busy t0 timeout fuel = act_bind poll (\<lambda>n.
     if \<not> busy n then act_return True
     else act_bind (pl_ticks_us p) (\<lambda>now.
       if pl_ticks_diff p now t0 > timeout then act_return False
       else case fuel of 0 \<Rightarrow> act_return False | Suc m \<Rightarrow> poll_until p poll busy t0 timeout m))"

declare poll_until.simps [simp del]

definition rb_wait_tx_space :: "('s, 'm) poll_ops_scheme \<Rightarrow> nat \<Rightarrow> int \<Rightarrow> int \<Rightarrow> ('s, host_error, bool) act" where
  "rb_wait_tx_space p polls words timeout = act_bind (pl_tx_fifo p) (\<lambda>n.
     if n + words \<le> 4 then act_return True
     else act_bind (pl_ticks_us p) (\<lambda>t0.
       poll_until p (pl_tx_fifo p) (\<lambda>n. n + words > 4) t0 timeout polls))"

definition rb_get :: "'s rp2_ops \<Rightarrow> nat \<Rightarrow> int \<Rightarrow> ('s, host_error, int option) act" where
  "rb_get ops polls timeout = act_bind (pl_rx_fifo ops) (\<lambda>n.
     act_bind (if n \<noteq> 0 then act_return True
       else act_bind (pl_ticks_us ops) (\<lambda>t0.
         poll_until ops (pl_rx_fifo ops) (\<lambda>n. n = 0) t0 timeout polls)) (\<lambda>ok.
     if ok then act_bind (rp_get ops) (\<lambda>w. act_return (Some w)) else act_return None))"

definition rb_wait_halted :: "('s, 'm) poll_ops_scheme \<Rightarrow> nat \<Rightarrow> int \<Rightarrow> ('s, host_error, bool) act" where
  "rb_wait_halted p polls timeout = act_bind (pl_ticks_us p) (\<lambda>t0.
     act_bind (poll_until p (pl_tx_fifo p) (\<lambda>n. n \<noteq> 0) t0 timeout polls) (\<lambda>ok.
     if ok then act_bind (pl_sleep_us p 2) (\<lambda>_. act_return True) else act_return False))"

definition rb_restart :: "'s rp2_backend \<Rightarrow> ('s, host_error, unit) act" where
  "rb_restart rb = act_bind (rp_active (rb_ops rb) False) (\<lambda>_. rb_start rb False)"

definition rb_set_reset :: "'s rp2_backend \<Rightarrow> bool \<Rightarrow> ('s, host_error, unit) act" where
  "rb_set_reset rb active = (case rb_reset rb of
     None \<Rightarrow> act_raise (HostError ''no reset control for this board'') | Some f \<Rightarrow> f active)"

definition rb_set_ena :: "'s rp2_backend \<Rightarrow> int \<Rightarrow> ('s, host_error, unit) act" where
  "rb_set_ena rb level = (case rb_ena rb of
     None \<Rightarrow> act_raise (HostError ''no ena control for this board'') | Some f \<Rightarrow> f level)"

definition rb_release :: "'s rp2_backend \<Rightarrow> ('s, host_error, unit) act" where
  "rb_release rb = act_bind (rp_active (rb_ops rb) False) (\<lambda>_. rp_exec (rb_ops rb) INSTR_JMP_FETCH)"

text \<open>The backend as the port sees it.\<close>

definition rp2_backend_ops :: "'s rp2_backend \<Rightarrow> 's backend_ops" where
  "rp2_backend_ops rb = (let o' = rb_ops rb in
     \<lparr>be_put = (\<lambda>w. rp_put o' [w]), be_put_many = rp_put o',
      be_wait_tx_space = rb_wait_tx_space o' (rb_polls rb), be_get = rb_get o' (rb_polls rb),
      be_wait_halted = rb_wait_halted o' (rb_polls rb), be_restart = rb_restart rb,
      be_set_reset = rb_set_reset rb, be_set_ena = rb_set_ena rb, be_has_ena = (rb_ena rb \<noteq> None),
      be_ticks_us = pl_ticks_us o', be_ticks_diff = pl_ticks_diff o', be_sleep_us = pl_sleep_us o',
      be_release = rb_release rb, be_uo_visible = rb_uo_visible rb, be_frame_hz = rb_frame_hz rb\<rparr>)"

section \<open>The loops end\<close>

text \<open>A clock of whole cycles that every poll moves on.\<close>

locale polled =
  fixes p :: "('s, 'm) poll_ops_scheme" and cyc :: "'s \<Rightarrow> int" and f :: int and good :: "'s \<Rightarrow> bool"
  assumes tx_law: "good s \<Longrightarrow> pl_tx_fifo p s = (Inr n, s') \<Longrightarrow> good s' \<and> cyc s + 1 \<le> cyc s'"
    and rx_law: "good s \<Longrightarrow> pl_rx_fifo p s = (Inr n, s') \<Longrightarrow> good s' \<and> cyc s + 1 \<le> cyc s'"
    and ticks_law: "good s \<Longrightarrow> pl_ticks_us p s = (Inr (cyc s * 1000000 div f), s)"
    and diff_law: "pl_ticks_diff p a b = a - b"
    and rate_law: "good s \<Longrightarrow> 0 < f"
begin

definition stop_cycle :: "int \<Rightarrow> int \<Rightarrow> int" where
  "stop_cycle t0 timeout = (t0 + timeout + 1) * f div 1000000 + 1"

lemma late:
  assumes rate: "0 < f" and "stop_cycle t0 timeout \<le> c"
  shows "c * 1000000 div f - t0 > timeout"
proof -
  have "(t0 + timeout + 1) * f div 1000000 < c" using assms(2) by (simp add: stop_cycle_def)
  then have "(t0 + timeout + 1) * f \<le> c * 1000000" by linarith
  then have "(t0 + timeout + 1) * f div f \<le> c * 1000000 div f"
    using rate by (rule zdiv_mono1)
  then have "t0 + timeout + 1 \<le> c * 1000000 div f" using rate by simp
  then show ?thesis by simp
qed

lemma poll_enough:
  assumes "\<And>s n s'. good s \<Longrightarrow> poll s = (Inr n, s') \<Longrightarrow> good s' \<and> cyc s + 1 \<le> cyc s'"
  shows "good s \<Longrightarrow> nat (stop_cycle t0 timeout - cyc s) \<le> n \<Longrightarrow> n \<le> m \<Longrightarrow>
    poll_until p poll busy t0 timeout m s = poll_until p poll busy t0 timeout n s"
proof (induction n arbitrary: s m)
  case 0
  show ?case
  proof (cases "poll s")
    case (Pair r s')
    show ?thesis
    proof (cases r)
      case (Inr k)
      then have g: "good s'" "cyc s + 1 \<le> cyc s'" using assms [OF 0(1)] Pair by simp_all
      then have "pl_ticks_diff p (cyc s' * 1000000 div f) t0 > timeout"
        using late [OF rate_law [OF g(1)], of t0 timeout "cyc s'"] 0(2) by (simp add: diff_law)
      then show ?thesis
        by (simp add: poll_until.simps [of p poll busy t0 timeout m] poll_until.simps [of p poll busy t0 timeout 0]
          act_bind_def Pair Inr ticks_law [OF g(1)])
    qed (simp add: poll_until.simps [of p poll busy t0 timeout m] poll_until.simps [of p poll busy t0 timeout 0]
          act_bind_def Pair)
  qed
next
  case (Suc n)
  obtain m' where m: "m = Suc m'" "n \<le> m'" using Suc.prems(3) by (cases m) auto
  show ?case
  proof (cases "poll s")
    case (Pair r s')
    show ?thesis
    proof (cases r)
      case (Inr k)
      then have g: "good s'" "cyc s + 1 \<le> cyc s'" using assms [OF Suc.prems(1)] Pair by simp_all
      have "nat (stop_cycle t0 timeout - cyc s') \<le> n" using Suc.prems(2) g(2) by linarith
      from Suc.IH [OF g(1) this m(2)]
      show ?thesis
        by (simp add: m poll_until.simps [of p poll busy t0 timeout "Suc m'"] poll_until.simps [of p poll busy t0 timeout "Suc n"]
          act_bind_def Pair Inr ticks_law [OF g(1)])
    qed (simp add: m poll_until.simps [of p poll busy t0 timeout "Suc m'"] poll_until.simps [of p poll busy t0 timeout "Suc n"]
          act_bind_def Pair)
  qed
qed

text \<open>What a poll that is over tells: the FIFO was ready, or the timeout has passed.\<close>

lemma poll_tells:
  assumes "\<And>s n s'. good s \<Longrightarrow> poll s = (Inr n, s') \<Longrightarrow> good s' \<and> cyc s + 1 \<le> cyc s'"
  shows "good s \<Longrightarrow> nat (stop_cycle t0 timeout - cyc s) \<le> n \<Longrightarrow>
    ok_post (\<lambda>ok s'. if ok then \<exists>s1 k. poll s1 = (Inr k, s') \<and> \<not> busy k
      else cyc s' * 1000000 div f - t0 > timeout) (poll_until p poll busy t0 timeout n s)"
proof (induction n arbitrary: s)
  case 0
  show ?case
  proof (cases "poll s")
    case (Pair r s')
    show ?thesis
    proof (cases r)
      case (Inr k)
      then have g: "good s'" "cyc s + 1 \<le> cyc s'" using assms [OF 0(1)] Pair by simp_all
      have "cyc s' * 1000000 div f - t0 > timeout" by (rule late [OF rate_law [OF g(1)]]) (use 0(2) g(2) in linarith)
      then show ?thesis using Pair Inr
        by (auto simp: poll_until.simps [of p poll busy t0 timeout 0] act_bind_def ticks_law [OF g(1)] diff_law)
    qed (simp add: poll_until.simps [of p poll busy t0 timeout 0] act_bind_def Pair)
  qed
next
  case (Suc n)
  show ?case
  proof (cases "poll s")
    case (Pair r s')
    show ?thesis
    proof (cases r)
      case (Inr k)
      then have g: "good s'" "cyc s + 1 \<le> cyc s'" using assms [OF Suc.prems(1)] Pair by simp_all
      have "nat (stop_cycle t0 timeout - cyc s') \<le> n" using Suc.prems(2) g(2) by linarith
      from Suc.IH [OF g(1) this] show ?thesis using Pair Inr
        by (auto simp: poll_until.simps [of p poll busy t0 timeout "Suc n"] act_bind_def ticks_law [OF g(1)] diff_law)
    qed (simp add: poll_until.simps [of p poll busy t0 timeout "Suc n"] act_bind_def Pair)
  qed
qed

text \<open>What a wait promises the port: it returns, and the answer is true of the FIFO.\<close>

lemma halted_ok:
  assumes "good s"
  shows "\<exists>N. \<forall>n \<ge> N. rb_wait_halted p n timeout s = rb_wait_halted p N timeout s"
proof -
  let ?t = "cyc s * 1000000 div f"
  let ?N = "nat (stop_cycle ?t timeout - cyc s)"
  have e: "n \<ge> ?N \<Longrightarrow> poll_until p (pl_tx_fifo p) busy ?t timeout n s = poll_until p (pl_tx_fifo p) busy ?t timeout ?N s" for n busy
    by (rule poll_enough [OF tx_law assms order_refl])
  have w: "rb_wait_halted p n timeout s = act_bind (poll_until p (pl_tx_fifo p) (\<lambda>n. n \<noteq> 0) ?t timeout n)
      (\<lambda>ok. if ok then act_bind (pl_sleep_us p 2) (\<lambda>_. act_return True) else act_return False) s" for n
    by (simp only: rb_wait_halted_def act_bind_run(1) [where m = "pl_ticks_us p", OF ticks_law [OF assms]])
  show ?thesis
  proof (intro exI [of _ ?N] allI impI)
    fix n assume n: "?N \<le> n"
    show "rb_wait_halted p n timeout s = rb_wait_halted p ?N timeout s"
      unfolding w act_bind_def e [OF n] ..
  qed
qed

lemma tx_space_ok:
  assumes "good s"
  shows "\<exists>N. (\<forall>n \<ge> N. rb_wait_tx_space p n words timeout s = rb_wait_tx_space p N words timeout s) \<and>
     ok_post (\<lambda>ok s'. ok \<longrightarrow> (\<exists>s1 k. pl_tx_fifo p s1 = (Inr k, s') \<and> k + words \<le> 4)) (rb_wait_tx_space p N words timeout s)"
proof (cases "pl_tx_fifo p s")
  case (Pair r s1)
  show ?thesis
  proof (cases r)
    case (Inl e)
    then show ?thesis using Pair by (simp add: rb_wait_tx_space_def act_bind_def)
  next
    case (Inr k)
    have g: "good s1" using tx_law [OF assms] Pair Inr by blast
    let ?t = "cyc s1 * 1000000 div f"
    let ?N = "nat (stop_cycle ?t timeout - cyc s1)"
    let ?busy = "\<lambda>n. n + words > 4"
    have e: "n \<ge> ?N \<Longrightarrow> poll_until p (pl_tx_fifo p) ?busy ?t timeout n s1 = poll_until p (pl_tx_fifo p) ?busy ?t timeout ?N s1" for n
      by (rule poll_enough [OF tx_law g order_refl])
    have w: "rb_wait_tx_space p n words timeout s =
        (if k + words \<le> 4 then (Inr True, s1) else poll_until p (pl_tx_fifo p) ?busy ?t timeout n s1)" for n
      by (simp add: rb_wait_tx_space_def act_bind_def Pair Inr ticks_law [OF g])
    have t: "ok_post (\<lambda>ok s'. ok \<longrightarrow> (\<exists>s1 k. pl_tx_fifo p s1 = (Inr k, s') \<and> k + words \<le> 4))
        (poll_until p (pl_tx_fifo p) ?busy ?t timeout ?N s1)"
      by (rule act_post_mono [OF poll_tells [OF tx_law g order_refl]]) (auto simp: not_less split: if_splits)
    show ?thesis
    proof (intro exI [of _ ?N] conjI allI impI)
      show "rb_wait_tx_space p n words timeout s = rb_wait_tx_space p ?N words timeout s" if "?N \<le> n" for n
        unfolding w e [OF that] ..
      show "ok_post (\<lambda>ok s'. ok \<longrightarrow> (\<exists>s1 k. pl_tx_fifo p s1 = (Inr k, s') \<and> k + words \<le> 4)) (rb_wait_tx_space p ?N words timeout s)"
        unfolding w using t Pair Inr by auto
    qed
  qed
qed

end

text \<open>The outcomes of \<open>get\<close>: an exception of a poll, a word of a queue that a poll found filled, or
  nothing after the timeout.\<close>

definition get_outcome :: "'s rp2_ops \<Rightarrow> ('s \<Rightarrow> int) \<Rightarrow> int \<Rightarrow> int \<Rightarrow> 's \<Rightarrow> (host_error + int option) \<times> 's \<Rightarrow> bool" where
  "get_outcome p cyc f timeout s r \<longleftrightarrow> (\<exists>e s'. r = (Inl e, s')) \<or>
     (\<exists>s1 k s2. pl_rx_fifo p s1 = (Inr k, s2) \<and> k \<noteq> 0 \<and> r = act_bind (rp_get p) (\<lambda>w. act_return (Some w)) s2) \<or>
     (\<exists>s'. r = (Inr None, s') \<and> cyc s' * 1000000 div f - cyc s * 1000000 div f > timeout)"

lemma get_ok:
  assumes P: "polled p cyc f good" and g: "good s"
  shows "\<exists>N. \<forall>n \<ge> N. rb_get p n timeout s = rb_get p N timeout s \<and> get_outcome p cyc f timeout s (rb_get p n timeout s)"
proof (cases "pl_rx_fifo p s")
  case (Pair r s1)
  show ?thesis
  proof (cases r)
    case (Inl e)
    then show ?thesis using Pair by (auto simp: rb_get_def act_bind_def get_outcome_def)
  next
    case (Inr k)
    have g1: "good s1" "cyc s + 1 \<le> cyc s1" using polled.rx_law [OF P g] Pair Inr by blast+
    have f: "0 < f" by (rule polled.rate_law [OF P g])
    let ?t = "cyc s1 * 1000000 div f"
    let ?N = "nat (polled.stop_cycle f ?t timeout - cyc s1)"
    let ?poll = "\<lambda>n. poll_until p (pl_rx_fifo p) (\<lambda>n. n = 0) ?t timeout n s1"
    have e: "?poll n = ?poll ?N" if "?N \<le> n" for n
      by (rule polled.poll_enough [OF P polled.rx_law [OF P] g1(1) order_refl that])
    have w: "rb_get p n timeout s = (if k \<noteq> 0 then act_bind (rp_get p) (\<lambda>w. act_return (Some w)) s1
        else act_bind (\<lambda>_. ?poll n) (\<lambda>ok. if ok then act_bind (rp_get p) (\<lambda>w. act_return (Some w)) else act_return None) s1)" for n
      by (simp add: rb_get_def act_bind_def Pair Inr polled.ticks_law [OF P g1(1)])
    have t: "cyc s * 1000000 div f \<le> ?t" using g1(2) f by (intro zdiv_mono1) auto
    have out: "get_outcome p cyc f timeout s (rb_get p ?N timeout s)"
    proof (cases "k = 0")
      case False
      then show ?thesis using Pair Inr unfolding w get_outcome_def by auto
    next
      case True
      have "ok_post (\<lambda>ok s'. if ok then \<exists>s1 k. pl_rx_fifo p s1 = (Inr k, s') \<and> k \<noteq> 0
          else cyc s' * 1000000 div f - ?t > timeout) (?poll ?N)"
        by (rule polled.poll_tells [OF P polled.rx_law [OF P] g1(1) order_refl])
      then show ?thesis
        using True t unfolding w get_outcome_def by (cases "?poll ?N"; cases "fst (?poll ?N)") (auto simp: act_bind_def split: if_splits)
    qed
    show ?thesis
    proof (intro exI [of _ ?N] allI impI)
      fix n assume n: "?N \<le> n"
      have "rb_get p n timeout s = rb_get p ?N timeout s" unfolding w e [OF n] ..
      with out show "rb_get p n timeout s = rb_get p ?N timeout s \<and> get_outcome p cyc f timeout s (rb_get p n timeout s)"
        by simp
    qed
  qed
qed

section \<open>The board\<close>

text \<open>A call of a board stand-in; after an exception the board is left out of account.\<close>

fun host_err :: "board_error \<Rightarrow> host_error" where
  "host_err (Board_Host e) = e"
| "host_err (Board_Pio e) = HostError ''PIOError''"
| "host_err (Board_Value m) = ValueError m"

definition board_act :: "('c board \<Rightarrow> board_error + 'a \<times> 'c board) \<Rightarrow> ('c board, host_error, 'a) act" where
  "board_act m = (\<lambda>bd. case m bd of Inl e \<Rightarrow> (Inl (host_err e), bd) | Inr (a, bd') \<Rightarrow> (Inr a, bd'))"

definition board_poll :: "'c chip_ops \<Rightarrow> nat \<Rightarrow> 'c board poll_ops" where
  "board_poll ops i =
     \<lparr>pl_tx_fifo = board_act (fsm_tx_fifo ops i), pl_rx_fifo = board_act (fsm_rx_fifo ops i),
      pl_ticks_us = act_get time_us, pl_ticks_diff = (\<lambda>a b. a - b),
      pl_sleep_us = (\<lambda>us. board_act (\<lambda>bd. map_sum id (Pair ()) (fake_sleep_us ops us bd)))\<rparr>"

text \<open>The clock of the board and what its polls cost.\<close>

definition clockwork :: "'c board \<Rightarrow> int \<times> int \<times> int" where
  "clockwork bd = (bd_cycle bd, bd_poll_cycles bd, bd_f_sys bd)"

lemma note_clock [simp]:
  "bd_poll_cycles (add_violation v bd) = bd_poll_cycles bd" "bd_f_sys (add_violation v bd) = bd_f_sys bd"
  "bd_poll_cycles (note_setup u bd) = bd_poll_cycles bd" "bd_f_sys (note_setup u bd) = bd_f_sys bd"
  "bd_poll_cycles (note_period bd) = bd_poll_cycles bd" "bd_f_sys (note_period bd) = bd_f_sys bd"
  by (simp_all add: add_violation_def note_setup_def note_period_def Let_def split: option.split)

lemma note_clock2 [simp]:
  "bd_poll_cycles (note_rise u bd) = bd_poll_cycles bd" "bd_f_sys (note_rise u bd) = bd_f_sys bd"
  "bd_poll_cycles (note_ui_change bd) = bd_poll_cycles bd" "bd_f_sys (note_ui_change bd) = bd_f_sys bd"
  "bd_poll_cycles (note_watch bd) = bd_poll_cycles bd" "bd_f_sys (note_watch bd) = bd_f_sys bd" "bd_cycle (note_watch bd) = bd_cycle bd"
  "bd_poll_cycles (refresh ops bd) = bd_poll_cycles bd" "bd_f_sys (refresh ops bd) = bd_f_sys bd" "bd_cycle (refresh ops bd) = bd_cycle bd"
  by (simp_all add: note_rise_def note_ui_change_def note_watch_def refresh_def Let_def split: option.split)

lemma book_clock:
  "bd_poll_cycles (book clk ui bd) = bd_poll_cycles bd" "bd_f_sys (book clk ui bd) = bd_f_sys bd" "bd_cycle (book clk ui bd) = bd_cycle bd"
  by (simp_all add: book_def Let_def)

lemma core_step_clock:
  assumes "core_step bd = Inr (bd', x)"
  shows "clockwork bd' = (bd_cycle bd + 1, bd_poll_cycles bd, bd_f_sys bd)"
proof -
  obtain blk where "pio_step (bd_block bd) (raw_pins bd) = Inr blk"
    using assms by (cases "pio_step (bd_block bd) (raw_pins bd)") (simp_all add: core_step_def board_err_def)
  from core_step_book [OF this] obtain tr rose uc cc where "core_step bd = Inr ((book (clk_of bd blk) (ui_of bd blk)
      (bd\<lparr>bd_block := blk\<rparr>))\<lparr>bd_trace := tr, bd_cycle := bd_cycle bd + 1\<rparr>, rose, uc, cc)" .
  then show ?thesis using assms by (auto simp: clockwork_def book_clock)
qed

lemma chip_edge_clock: "chip_edge ops bd = Inr bd' \<Longrightarrow> clockwork bd' = clockwork bd"
  by (auto simp: chip_edge_def and_then_Inr_iff clockwork_def split: option.splits)

lemma board_step_clock:
  assumes "board_step ops bd = Inr bd'"
  shows "clockwork bd' = (bd_cycle bd + 1, bd_poll_cycles bd, bd_f_sys bd)"
proof -
  obtain bd1 rose uc cc bd2 where c: "core_step bd = Inr (bd1, rose, uc, cc)"
    and e: "(if rose then chip_edge ops bd1 else Inr bd1) = Inr bd2"
    and bd': "bd' = (if rose \<or> uc then refresh ops (note_watch bd2) else note_watch bd2)"
    using assms by (auto simp: board_step_def and_then_Inr_iff Let_def)
  have "clockwork bd2 = clockwork bd1" using e chip_edge_clock by (auto split: if_splits)
  then show ?thesis using core_step_clock [OF c] bd' by (simp add: clockwork_def)
qed

lemma board_steps_clock:
  "board_steps ops n bd = Inr bd' \<Longrightarrow> clockwork bd' = (bd_cycle bd + int n, bd_poll_cycles bd, bd_f_sys bd)"
proof (induction n arbitrary: bd)
  case (Suc n)
  then obtain bd1 where b: "board_step ops bd = Inr bd1" "board_steps ops n bd1 = Inr bd'"
    by (auto simp: and_then_Inr_iff)
  show ?case using Suc.IH [OF b(2)] board_step_clock [OF b(1)] by (simp add: clockwork_def)
qed (simp add: clockwork_def)

definition clocked :: "int \<Rightarrow> 'c board \<Rightarrow> bool" where
  "clocked f bd \<longleftrightarrow> 1 \<le> bd_poll_cycles bd \<and> bd_f_sys bd = f \<and> 0 < f"

lemma advance_clocked:
  assumes "clocked f bd" "advance ops (bd_poll_cycles bd) bd = Inr bd'"
  shows "clocked f bd' \<and> bd_cycle bd + 1 \<le> bd_cycle bd'"
  using board_steps_clock [of ops "nat (bd_poll_cycles bd)" bd bd'] assms
  by (simp add: advance_def clocked_def clockwork_def)

interpretation board_clock: polled "board_poll ops i" bd_cycle f "clocked f"
  for ops :: "'c chip_ops" and i :: nat and f :: int
proof
  fix s s' :: "'c board" and n :: int
  assume g: "clocked f s"
  show "0 < f" using g by (simp add: clocked_def)
  show "pl_ticks_us (board_poll ops i) s = (Inr (bd_cycle s * 1000000 div f), s)"
    using g by (simp add: board_poll_def time_us_def clocked_def)
  show "clocked f s' \<and> bd_cycle s + 1 \<le> bd_cycle s'" if "pl_tx_fifo (board_poll ops i) s = (Inr n, s')"
    using that advance_clocked [OF g]
    by (auto simp: board_poll_def board_act_def fsm_tx_fifo_def and_then_Inr_iff split: sum.splits)
  show "clocked f s' \<and> bd_cycle s + 1 \<le> bd_cycle s'" if "pl_rx_fifo (board_poll ops i) s = (Inr n, s')"
    using that advance_clocked [OF g]
    by (auto simp: board_poll_def board_act_def fsm_rx_fifo_def and_then_Inr_iff split: sum.splits)
qed (simp add: board_poll_def)

section \<open>Waiting on the board\<close>

text \<open>Modules whose polls are those of the board.\<close>

definition polls_board :: "'c chip_ops \<Rightarrow> nat \<Rightarrow> 'c board rp2_ops \<Rightarrow> bool" where
  "polls_board ops i p \<longleftrightarrow> poll_ops.truncate p = board_poll ops i"

lemma board_polled:
  assumes "polls_board ops i p"
  shows "polled p bd_cycle f (clocked f)"
proof -
  have e: "pl_tx_fifo p = pl_tx_fifo (board_poll ops i)" "pl_rx_fifo p = pl_rx_fifo (board_poll ops i)"
    "pl_ticks_us p = pl_ticks_us (board_poll ops i)" "pl_ticks_diff p = pl_ticks_diff (board_poll ops i)"
    using assms unfolding polls_board_def by (metis poll_ops.select_convs poll_ops.truncate_def)+
  have "polled (board_poll ops i) bd_cycle f (clocked f)" by (rule board_clock.polled_axioms)
  then show ?thesis unfolding polled_def e .
qed

text \<open>C23: on the board all three polling loops of the backend end: past some number of polls more fuel
  changes nothing. A wait for TX space that says yes has left room for the words. A \<open>get\<close>, on any
  modules that poll this board, takes a word only after a poll that found the RX queue filled, and gives
  up only when the timeout has passed.\<close>

theorem board_waits_end:
  assumes "1 \<le> bd_poll_cycles bd" "0 < bd_f_sys bd" "polls_board ops i p"
  shows "\<exists>N. (\<forall>n \<ge> N. rb_wait_tx_space (board_poll ops i) n words timeout bd = rb_wait_tx_space (board_poll ops i) N words timeout bd \<and>
       rb_wait_halted (board_poll ops i) n timeout bd = rb_wait_halted (board_poll ops i) N timeout bd \<and>
       rb_get p n timeout bd = rb_get p N timeout bd) \<and>
     (\<forall>bd'. rb_wait_tx_space (board_poll ops i) N words timeout bd = (Inr True, bd') \<longrightarrow>
        int (length (sm_tx (bd_machine bd' i))) + words \<le> 4) \<and>
     ((\<exists>e bd'. rb_get p N timeout bd = (Inl e, bd')) \<or>
      (\<exists>bd'. sm_rx (bd_machine bd' i) \<noteq> [] \<and> rb_get p N timeout bd = act_bind (rp_get p) (\<lambda>w. act_return (Some w)) bd') \<or>
      (\<exists>bd'. rb_get p N timeout bd = (Inr None, bd') \<and>
         bd_cycle bd' * 1000000 div bd_f_sys bd - bd_cycle bd * 1000000 div bd_f_sys bd > timeout))"
proof -
  have g: "clocked (bd_f_sys bd) bd" using assms by (simp add: clocked_def)
  obtain N where N: "\<forall>n \<ge> N. rb_wait_tx_space (board_poll ops i) n words timeout bd = rb_wait_tx_space (board_poll ops i) N words timeout bd"
    and post: "ok_post (\<lambda>ok s'. ok \<longrightarrow> (\<exists>s1 k. pl_tx_fifo (board_poll ops i) s1 = (Inr k, s') \<and> k + words \<le> 4))
      (rb_wait_tx_space (board_poll ops i) N words timeout bd)"
    using board_clock.tx_space_ok [OF g] by blast
  obtain M where M: "\<forall>n \<ge> M. rb_wait_halted (board_poll ops i) n timeout bd = rb_wait_halted (board_poll ops i) M timeout bd"
    using board_clock.halted_ok [OF g] by blast
  obtain L where L: "\<forall>n \<ge> L. rb_get p n timeout bd = rb_get p L timeout bd \<and>
      get_outcome p bd_cycle (bd_f_sys bd) timeout bd (rb_get p n timeout bd)"
    using get_ok [OF board_polled [OF assms(3)] g] by blast
  have tx: "k = int (length (sm_tx (bd_machine s' i)))" if "pl_tx_fifo (board_poll ops i) s1 = (Inr k, s')" for s1 k s'
    using that by (auto simp: board_poll_def board_act_def fsm_tx_fifo_def and_then_Inr_iff split: sum.splits)
  have "pl_rx_fifo p = pl_rx_fifo (board_poll ops i)"
    using assms(3) unfolding polls_board_def by (metis poll_ops.select_convs(2) poll_ops.truncate_def)
  then have rx: "k = int (length (sm_rx (bd_machine s' i)))" if "pl_rx_fifo p s1 = (Inr k, s')" for s1 k s'
    using that by (auto simp: board_poll_def board_act_def fsm_rx_fifo_def and_then_Inr_iff split: sum.splits)
  let ?m = "max N (max M L)"
  have le: "N \<le> ?m" "M \<le> ?m" "L \<le> ?m" by simp_all
  have same: "rb_wait_tx_space (board_poll ops i) n words timeout bd = rb_wait_tx_space (board_poll ops i) ?m words timeout bd \<and>
       rb_wait_halted (board_poll ops i) n timeout bd = rb_wait_halted (board_poll ops i) ?m timeout bd \<and>
       rb_get p n timeout bd = rb_get p ?m timeout bd" if "?m \<le> n" for n
    using N M L le order_trans [OF _ that] by metis
  have room: "int (length (sm_tx (bd_machine bd' i))) + words \<le> 4"
    if "rb_wait_tx_space (board_poll ops i) ?m words timeout bd = (Inr True, bd')" for bd'
  proof -
    have "rb_wait_tx_space (board_poll ops i) N words timeout bd = (Inr True, bd')" using that N le(1) by metis
    from act_postD(1) [OF post this] show ?thesis using tx by metis
  qed
  have "get_outcome p bd_cycle (bd_f_sys bd) timeout bd (rb_get p ?m timeout bd)" using L le(3) by blast
  then have got: "(\<exists>e bd'. rb_get p ?m timeout bd = (Inl e, bd')) \<or>
      (\<exists>bd'. sm_rx (bd_machine bd' i) \<noteq> [] \<and> rb_get p ?m timeout bd = act_bind (rp_get p) (\<lambda>w. act_return (Some w)) bd') \<or>
      (\<exists>bd'. rb_get p ?m timeout bd = (Inr None, bd') \<and>
         bd_cycle bd' * 1000000 div bd_f_sys bd - bd_cycle bd * 1000000 div bd_f_sys bd > timeout)"
    unfolding get_outcome_def using rx by fastforce
  show ?thesis using same room got by blast
qed

lemma new_board_clock:
  "new_board ops chip pins k = Inr bd \<Longrightarrow> bd_poll_cycles bd = bo_poll_cycles k \<and> bd_f_sys bd = bo_f_sys k"
  by (auto simp: new_board_def split: option.splits)

text \<open>The demo board with a chip that does nothing.\<close>

definition idle_chip :: "unit chip_ops" where
  "idle_chip = \<lparr>ch_uo = (\<lambda>_ _ _ _. 0), ch_edge = (\<lambda>c _ _ _ _. Inr c)\<rparr>"

lemma db3_pins: "check_pin_map PIN_MAP_DB3 = Some 16"
  by code_simp

definition idle_rp2 :: "unit board rp2_ops" where
  "idle_rp2 = poll_ops.extend (board_poll idle_chip 0)
     \<lparr>rp_freq = act_return 150000000, rp_remove_program = (\<lambda>_. act_return ()), rp_gpio_window = (\<lambda>_ _. act_return ()),
      rp_pin_in = (\<lambda>_. act_return ()), rp_machine = (\<lambda>_ _ _. act_return ()), rp_exec = (\<lambda>_. act_return ()),
      rp_active = (\<lambda>_. act_return ()), rp_put = (\<lambda>_. act_return ()), rp_get = act_return 0\<rparr>"

theorem board_waits_end_witness:
  "\<exists>bd N. new_board idle_chip None PIN_MAP_DB3 default_board_options = Inr bd \<and>
     (\<forall>n \<ge> N. rb_wait_halted (board_poll idle_chip 0) n 2000000 bd = rb_wait_halted (board_poll idle_chip 0) N 2000000 bd \<and>
        rb_get idle_rp2 n 2000000 bd = rb_get idle_rp2 N 2000000 bd)"
proof -
  obtain bd where bd: "new_board idle_chip None PIN_MAP_DB3 default_board_options = Inr bd"
    by (simp add: new_board_def db3_pins)
  have c: "1 \<le> bd_poll_cycles bd" "0 < bd_f_sys bd"
    using new_board_clock [OF bd] by (simp_all add: default_board_options_def)
  have "polls_board idle_chip 0 idle_rp2"
    by (simp add: polls_board_def idle_rp2_def poll_ops.extend_def poll_ops.truncate_def)
  from board_waits_end [OF c this, of 1 2000000] bd show ?thesis by blast
qed

end
