(* ===== verification/Timing_Model.thy ===== *)
theory Timing_Model
  imports Engine
begin

text \<open>
  The static timing analyser, \<open>tools/timing/pe_timing.py\<close>: the decoded instruction with its static
  checks and costs, the abstract engine state and the exploration of a segment, which executes
  a program abstractly from one synchronization boundary to the next and records the issue,
  pad and sample events with their exact cycles. The texts of warnings are left out.
\<close>

section \<open>Pads\<close>

definition P0 :: int where "P0 = 1"
definition P1 :: int where "P1 = 2"
definition PZ :: int where "PZ = 4"

definition pad_levels :: "int \<Rightarrow> int" where
  "pad_levels m =
     (let l0 = (if m AND P0 \<noteq> 0 then 1 else 0);
          l1 = (if m AND P1 \<noteq> 0 then l0 OR 2 else l0)
      in if m AND PZ \<noteq> 0 then l1 OR 3 else l1)"

text \<open>The values a bit may have: one where the known mask has it, else both.\<close>

definition bit_choices :: "int \<Rightarrow> int \<Rightarrow> int \<Rightarrow> int list" where
  "bit_choices known vals pin = (if has_bit known pin then [bit_at vals pin] else [0, 1])"

definition pad1 :: "int \<Rightarrow> int \<Rightarrow> int \<Rightarrow> int \<Rightarrow> int" where
  "pad1 v d open_drain pin =
     (if has_bit open_drain pin then (if d \<noteq> 0 \<and> v = 0 then P0 else PZ)
      else (if d \<noteq> 0 then (if v \<noteq> 0 then P1 else P0) else PZ))"

definition pad_mask :: "int \<Rightarrow> int \<Rightarrow> int \<Rightarrow> int \<Rightarrow> int \<Rightarrow> int \<Rightarrow> int" where
  "pad_mask pin vk vb dk db open_drain =
     foldl (OR) 0 [pad1 v d open_drain pin. d \<leftarrow> bit_choices dk db pin, v \<leftarrow> bit_choices vk vb pin]"

section \<open>Programs\<close>

record arch =
  ar_engines :: int
  ar_width :: int
  ar_program_words :: int
  ar_fifo_words :: int
  ar_fused :: bool
  ar_prefetch :: bool

record ins =
  in_pc :: int
  in_word :: int
  in_op :: int
  in_a :: int
  in_b :: int
  in_c :: int
  in_imm24 :: int
  in_imm16 :: int

definition MNEMONICS :: "string list" where
  "MNEMONICS = [''NOP'', ''HALT'', ''SET'', ''DIR'', ''WAIT'', ''JMP'', ''PULL'', ''PUSH'', ''OUT'', ''IN'',
     ''COUNT'', ''LOOP'', ''LIMIT'', ''WAITPIN'', ''SIGNAL'', ''WAITEVENT'', ''PINS'', ''XFER'',
     ''MOV'', ''LOAD'', ''ADD'', ''XOR'', ''AND'', ''OR'', ''SHL'', ''SHR'', ''JZ'', ''NOT'', ''TIME'', ''FAULT'']"

definition NOP :: int where "NOP = 0"
definition HALT :: int where "HALT = 1"
definition SET :: int where "SET = 2"
definition DIR :: int where "DIR = 3"
definition WAIT :: int where "WAIT = 4"
definition JMP :: int where "JMP = 5"
definition PULL :: int where "PULL = 6"
definition PUSH :: int where "PUSH = 7"
definition OUT :: int where "OUT = 8"
definition IN :: int where "IN = 9"
definition COUNT :: int where "COUNT = 10"
definition LOOP :: int where "LOOP = 11"
definition LIMIT :: int where "LIMIT = 12"
definition WAITPIN :: int where "WAITPIN = 13"
definition SIGNAL :: int where "SIGNAL = 14"
definition WAITEVENT :: int where "WAITEVENT = 15"
definition PINS :: int where "PINS = 16"
definition XFER :: int where "XFER = 17"
definition MOV :: int where "MOV = 18"
definition LOAD :: int where "LOAD = 19"
definition ADD :: int where "ADD = 20"
definition OP_XOR :: int where "OP_XOR = 21"
definition OP_AND :: int where "OP_AND = 22"
definition OP_OR :: int where "OP_OR = 23"
definition OP_SHL :: int where "OP_SHL = 24"
definition OP_SHR :: int where "OP_SHR = 25"
definition JZ :: int where "JZ = 26"
definition OP_NOT :: int where "OP_NOT = 27"
definition TIME :: int where "TIME = 28"
definition FAULT :: int where "FAULT = 29"

lemmas op_defs = NOP_def HALT_def SET_def DIR_def WAIT_def JMP_def PULL_def PUSH_def OUT_def IN_def COUNT_def
  LOOP_def LIMIT_def WAITPIN_def SIGNAL_def WAITEVENT_def PINS_def XFER_def MOV_def LOAD_def ADD_def OP_XOR_def
  OP_AND_def OP_OR_def OP_SHL_def OP_SHR_def JZ_def OP_NOT_def TIME_def FAULT_def

definition REG_NAMES :: "string list" where
  "REG_NAMES = [''tx'', ''rx'', ''x'', ''y'']"

definition RESET_LIMIT :: int where "RESET_LIMIT = 65535"
definition LOOPBACK_LATENCY :: int where "LOOPBACK_LATENCY = 3"

definition decode_ins :: "int \<Rightarrow> int \<Rightarrow> ins" where
  "decode_ins word pc = (let w = word AND 0xFFFFFFFF in
     \<lparr>in_pc = pc, in_word = w, in_op = shr w 24, in_a = shr w 16 AND 255, in_b = shr w 8 AND 255,
      in_c = w AND 255, in_imm24 = w AND 0xFFFFFF, in_imm16 = w AND 65535\<rparr>)"

definition mnemonic :: "ins \<Rightarrow> string" where
  "mnemonic i = (if in_op i < int (length MNEMONICS) then MNEMONICS ! nat (in_op i) else ''OP'' @ decimal (in_op i))"

text \<open>\<open>Ins.text\<close>; labels map an address to a name.\<close>

definition target_text :: "(int \<times> string) list \<Rightarrow> int \<Rightarrow> string" where
  "target_text labels v = decimal v @ (case map_of labels v of
     Some n \<Rightarrow> if n = [] then [] else '' <'' @ n @ ''>'' | None \<Rightarrow> [])"

definition reg_name :: "int \<Rightarrow> string" where
  "reg_name i = REG_NAMES ! nat (i AND 3)"

definition ins_text :: "(int \<times> string) list \<Rightarrow> ins \<Rightarrow> string" where
  "ins_text labels i =
     (let op = in_op i; a = in_a i; b = in_b i; c = in_c i; imm24 = in_imm24 i; imm16 = in_imm16 i; m = mnemonic i in
      if op \<in> {NOP, HALT, PULL, WAITEVENT} then m
      else if op \<in> {SET, DIR} then m @ '' 0x'' @ hex_pad 2 imm24
      else if op \<in> {WAIT, COUNT, LIMIT, FAULT} then m @ '' '' @ decimal (if op \<noteq> COUNT then imm24 else imm16)
      else if op \<in> {JMP, LOOP} then m @ '' '' @ target_text labels imm24
      else if op = PUSH then (if a \<noteq> 0 then ''PUSH strict'' else ''PUSH'')
      else if op \<in> {OUT, IN} then m @ '' pin'' @ decimal a @ '' '' @ (if c \<noteq> 0 then ''msb'' else ''lsb'')
      else if op = WAITPIN then ''WAITPIN pin'' @ decimal a @ ''=='' @ decimal b
      else if op = SIGNAL then ''SIGNAL 0x'' @ hex_pad 1 imm24
      else if op = PINS then ''PINS clk=pin'' @ decimal (imm24 AND 7) @ '' tx=pin'' @ decimal (shr imm24 3 AND 7)
        @ '' rx=pin'' @ decimal (shr imm24 6 AND 7)
      else if op = XFER then ''XFER bits='' @ decimal a @ '' half='' @ decimal b @ '' ''
        @ join ''/'' ([''CPOL'' @ decimal (c AND 1), ''CPHA'' @ decimal (shr c 1 AND 1),
             if c AND 4 \<noteq> 0 then ''MSB'' else ''LSB'']
           @ (if c AND 8 \<noteq> 0 then [''drive''] else []) @ (if c AND 16 \<noteq> 0 then [''sample''] else []))
      else if op \<in> {MOV, ADD, OP_XOR, OP_AND, OP_OR} then m @ '' '' @ reg_name a @ '', '' @ reg_name b
      else if op = LOAD then ''LOAD '' @ reg_name a @ '', '' @ decimal imm16
      else if op = JZ then ''JZ '' @ reg_name a @ '', '' @ target_text labels imm16
      else if op \<in> {OP_SHL, OP_SHR} then m @ '' '' @ reg_name a @ '', '' @ decimal c
      else if op \<in> {OP_NOT, TIME} then m @ '' '' @ reg_name a
      else m @ '' a='' @ decimal a @ '' b='' @ decimal b @ '' c='' @ decimal c)"

definition static_fault :: "ins \<Rightarrow> arch \<Rightarrow> int \<Rightarrow> int" where
  "static_fault i ar ownership =
     (let op = in_op i; a = in_a i; b = in_b i; c = in_c i; imm24 = in_imm24 i;
          owned = (\<lambda>invalid. if invalid then 1
            else if (op \<in> {SET, DIR} \<and> imm24 AND NOT ownership \<noteq> 0) \<or> (op = OUT \<and> shr ownership a AND 1 = 0) then 1
            else 0)
      in if op \<in> {NOP, HALT, PULL, WAITEVENT} then owned (imm24 \<noteq> 0)
         else if op = PUSH then owned (a > 1 \<or> b \<noteq> 0 \<or> c \<noteq> 0)
         else if op \<in> {SET, DIR} then owned (shr imm24 8 \<noteq> 0)
         else if op \<in> {OUT, IN} then owned (a > 7 \<or> b \<noteq> 0 \<or> c > 1)
         else if op = COUNT then owned (a \<noteq> 0)
         else if op = LIMIT then owned (imm24 = 0)
         else if op = WAITPIN then owned (a > 7 \<or> b > 1 \<or> c \<noteq> 0)
         else if op = SIGNAL then owned (shr imm24 (ar_engines ar) \<noteq> 0)
         else if op = PINS then owned (shr imm24 9 \<noteq> 0)
         else if op = XFER then owned (\<not> ar_fused ar \<or> \<not> (1 \<le> a \<and> a \<le> ar_width ar) \<or> b = 0 \<or> c > 31)
         else if op \<in> {MOV, ADD, OP_XOR, OP_AND, OP_OR} then owned (a > 3 \<or> b > 3 \<or> c \<noteq> 0)
         else if op \<in> {LOAD, JZ} then owned (a > 3)
         else if op \<in> {OP_SHL, OP_SHR} then owned (a > 3 \<or> b \<noteq> 0 \<or> c \<ge> ar_width ar)
         else if op \<in> {OP_NOT, TIME} then owned (a > 3 \<or> b \<noteq> 0 \<or> c \<noteq> 0)
         else if op = FAULT then owned (\<not> (0 < imm24 \<and> imm24 \<le> 255))
         else if op \<in> {WAIT, JMP, LOOP} then owned False
         else 1)"

definition blocking_class :: "ins \<Rightarrow> string" where
  "blocking_class i =
     (if in_op i = PULL then ''tx_fifo_unbounded''
      else if in_op i = PUSH \<and> in_a i = 0 then ''rx_fifo_unbounded''
      else if in_op i = WAITPIN then ''pin_limit''
      else if in_op i = WAITEVENT then ''event_limit''
      else ''none'')"

definition minimum_cycles :: "ins \<Rightarrow> int" where
  "minimum_cycles i =
     (if in_op i = WAIT then in_imm24 i + 1
      else if in_op i = XFER then 2 * in_a i * in_b i + 1 else 1)"

record tprogram =
  tp_arch :: arch
  tp_ownership :: int
  tp_open_drain :: int
  tp_words :: "int list"

text \<open>\<open>self.ins[pc]\<close> and \<open>self.faults[pc]\<close>.\<close>

definition ins_at :: "tprogram \<Rightarrow> int \<Rightarrow> ins" where
  "ins_at p pc = decode_ins (tp_words p ! nat pc) pc"

definition fault_at :: "tprogram \<Rightarrow> int \<Rightarrow> int" where
  "fault_at p pc = static_fault (ins_at p pc) (tp_arch p) (tp_ownership p)"

definition width_mask :: "tprogram \<Rightarrow> int" where
  "width_mask p = shl 1 (ar_width (tp_arch p)) - 1"

section \<open>The abstract state\<close>

record astate =
  as_pc :: int
  as_repeat :: "int option"
  as_limit :: int
  as_regs :: "int option list"
  as_xpins :: "int \<times> int \<times> int"
  as_vk :: int
  as_vb :: int
  as_dk :: int
  as_db :: int

definition START_STATE :: astate where
  "START_STATE = \<lparr>as_pc = 0, as_repeat = Some 0, as_limit = RESET_LIMIT, as_regs = [Some 0, Some 0, Some 0, Some 0],
     as_xpins = (0, 0, 0), as_vk = 0xFF, as_vb = 0, as_dk = 0xFF, as_db = 0\<rparr>"

definition drive_bit :: "astate \<Rightarrow> int \<Rightarrow> int option \<Rightarrow> astate" where
  "drive_bit st pin b = (let m = shl 1 pin in case b of
     None \<Rightarrow> st\<lparr>as_vk := as_vk st AND NOT m, as_vb := as_vb st AND NOT m\<rparr>
   | Some v \<Rightarrow> st\<lparr>as_vk := as_vk st OR m, as_vb := (as_vb st AND NOT m) OR (if v \<noteq> 0 then m else 0)\<rparr>)"

definition present_bit :: "int option \<Rightarrow> bool \<Rightarrow> int \<Rightarrow> int option" where
  "present_bit tx msb width = map_option (\<lambda>v. if msb then shr v (width - 1) AND 1 else v AND 1) tx"

definition shift_reg :: "int option \<Rightarrow> bool \<Rightarrow> int \<Rightarrow> int option" where
  "shift_reg tx msb m = map_option (\<lambda>v. (if msb then shl v 1 else shr v 1) AND m) tx"

definition abs_shift_out :: "int option \<Rightarrow> bool \<Rightarrow> int \<Rightarrow> int \<Rightarrow> int option \<times> int option" where
  "abs_shift_out tx msb width m = (present_bit tx msb width, shift_reg tx msb m)"

definition lift2 :: "(int \<Rightarrow> int \<Rightarrow> int) \<Rightarrow> int option \<Rightarrow> int option \<Rightarrow> int option" where
  "lift2 f x y = (case (x, y) of (Some v, Some w) \<Rightarrow> Some (f v w) | _ \<Rightarrow> None)"

definition abs_alu :: "ins \<Rightarrow> int option list \<Rightarrow> int \<Rightarrow> int option list" where
  "abs_alu i regs m =
     (let op = in_op i; a = in_a i; b = in_b i; x = regs ! nat a; y = (if b < 4 then regs ! nat b else None);
          put = (\<lambda>v. regs[nat a := v])
      in if op = MOV then put y
         else if op = LOAD then put (Some (in_imm16 i))
         else if op = ADD then put (lift2 (\<lambda>v w. (v + w) AND m) x y)
         else if op = OP_XOR then put (if a = b then Some 0 else lift2 (XOR) x y)
         else if op = OP_AND then put (if x = Some 0 \<or> y = Some 0 then Some 0 else lift2 (AND) x y)
         else if op = OP_OR then put (if x = Some m \<or> y = Some m then Some m else lift2 (OR) x y)
         else if op = OP_SHL then put (map_option (\<lambda>v. shl v (in_c i) AND m) x)
         else if op = OP_SHR then put (map_option (\<lambda>v. shr v (in_c i)) x)
         else if op = OP_NOT then put (map_option (\<lambda>v. v XOR m) x)
         else if op = TIME then put None
         else regs)"

definition join_value :: "'a option \<Rightarrow> 'a option \<Rightarrow> 'a option" where
  "join_value x y = (if x = y then x else None)"

definition join_states :: "astate \<Rightarrow> astate \<Rightarrow> astate" where
  "join_states a b =
     (let vk = as_vk a AND as_vk b AND NOT (as_vb a XOR as_vb b);
          dk = as_dk a AND as_dk b AND NOT (as_db a XOR as_db b)
      in \<lparr>as_pc = as_pc a, as_repeat = join_value (as_repeat a) (as_repeat b), as_limit = max (as_limit a) (as_limit b),
          as_regs = map (\<lambda>(x, y). join_value x y) (zip (as_regs a) (as_regs b)), as_xpins = as_xpins a,
          as_vk = vk AND 0xFF, as_vb = as_vb a AND vk, as_dk = dk AND 0xFF, as_db = as_db a AND dk\<rparr>)"

section \<open>Events\<close>

datatype ev_kind = Anchor | Issue | Pad | Sample | Inter | Arrive

record tevent =
  ev_t :: int
  ev_kind :: ev_kind
  ev_pin :: int
  ev_pc :: int
  ev_before :: int
  ev_after :: int
  ev_cause :: string

definition new_event :: "int \<Rightarrow> ev_kind \<Rightarrow> int \<Rightarrow> int \<Rightarrow> string \<Rightarrow> tevent" where
  "new_event t k pin pc cause = \<lparr>ev_t = t, ev_kind = k, ev_pin = pin, ev_pc = pc, ev_before = 0, ev_after = 0, ev_cause = cause\<rparr>"

definition pad_event :: "int \<Rightarrow> int \<Rightarrow> int \<Rightarrow> int \<Rightarrow> int \<Rightarrow> string \<Rightarrow> tevent" where
  "pad_event t pin pc old new cause =
     \<lparr>ev_t = t, ev_kind = Pad, ev_pin = pin, ev_pc = pc, ev_before = old, ev_after = new, ev_cause = cause\<rparr>"

definition state_pad :: "tprogram \<Rightarrow> astate \<Rightarrow> int \<Rightarrow> int" where
  "state_pad p st pin = pad_mask pin (as_vk st) (as_vb st) (as_dk st) (as_db st) (tp_open_drain p)"

definition owned_pin :: "tprogram \<Rightarrow> int \<Rightarrow> bool" where
  "owned_pin p pin \<longleftrightarrow> shr (tp_ownership p) pin AND 1 \<noteq> 0"

definition pads :: "tprogram \<Rightarrow> astate \<Rightarrow> int list" where
  "pads p st = map (\<lambda>pin. if owned_pin p pin then state_pad p st pin else 0) (py_range 8)"

text \<open>\<open>_pad_events\<close>: the bit that is not written keeps its concrete value.\<close>

definition may_change :: "int \<Rightarrow> astate \<Rightarrow> astate \<Rightarrow> int \<Rightarrow> bool \<Rightarrow> bool" where
  "may_change od old new pin value =
     (let vs = bit_choices (as_vk old) (as_vb old) pin; ds = bit_choices (as_dk old) (as_db old) pin in
      if value then
        list_ex (\<lambda>v. list_ex (\<lambda>d. list_ex (\<lambda>w. pad1 v d od pin \<noteq> pad1 w d od pin)
          (bit_choices (as_vk new) (as_vb new) pin)) ds) vs
      else
        list_ex (\<lambda>v. list_ex (\<lambda>d. list_ex (\<lambda>e. pad1 v d od pin \<noteq> pad1 v e od pin)
          (bit_choices (as_dk new) (as_db new) pin)) ds) vs)"

definition pad_events :: "tprogram \<Rightarrow> int \<Rightarrow> int \<Rightarrow> string \<Rightarrow> astate \<Rightarrow> astate \<Rightarrow> int \<Rightarrow> bool \<Rightarrow> tevent list" where
  "pad_events p t pc cause old new pins value =
     [pad_event t pin pc (state_pad p old pin) (state_pad p new pin) cause.
        pin \<leftarrow> py_range 8, shr (pins AND tp_ownership p) pin AND 1 \<noteq> 0 \<and> may_change (tp_open_drain p) old new pin value]"

definition release_events :: "tprogram \<Rightarrow> astate \<Rightarrow> int \<Rightarrow> int \<Rightarrow> string \<Rightarrow> tevent list" where
  "release_events p st t pc cause =
     [pad_event t pin pc (state_pad p st pin) PZ cause. pin \<leftarrow> py_range 8, owned_pin p pin \<and> state_pad p st pin \<noteq> PZ]"

text \<open>\<open>_wait_min_stall\<close>: the events are searched up to the first one after cycle \<open>x\<close>.\<close>

fun state_before :: "int \<Rightarrow> int \<Rightarrow> int \<Rightarrow> tevent list \<Rightarrow> int" where
  "state_before x pin s [] = s"
| "state_before x pin s (e # es) =
     (if ev_t e > x then s
      else state_before x pin (if ev_kind e = Pad \<and> ev_pin e = pin then ev_after e else s) es)"

fun min_stall_from :: "int list \<Rightarrow> tevent list \<Rightarrow> int \<Rightarrow> int \<Rightarrow> int \<Rightarrow> int list \<Rightarrow> int option" where
  "min_stall_from li ev pin want t_arr [] = None"
| "min_stall_from li ev pin want t_arr (stall # ss) =
     (let x = t_arr - LOOPBACK_LATENCY + stall in
      if x < 0 then Some stall
      else if pad_levels (state_before x pin (li ! nat pin) ev) AND want \<noteq> 0 then Some stall
      else min_stall_from li ev pin want t_arr ss)"

definition wait_min_stall :: "int list \<Rightarrow> tevent list \<Rightarrow> int \<Rightarrow> int \<Rightarrow> int \<Rightarrow> int option" where
  "wait_min_stall li ev pin level t_arr = min_stall_from li ev pin (shl 1 level) t_arr (py_range LOOPBACK_LATENCY)"

section \<open>Transfers\<close>

text \<open>The state of the loop of \<open>_xfer\<close>: the abstract state, \<open>tx\<close>, \<open>rx\<close> and the new events.\<close>

type_synonym xfer_state = "astate \<times> int option \<times> int option \<times> tevent list"

definition drive_data :: "tprogram \<Rightarrow> int \<Rightarrow> int \<Rightarrow> int \<Rightarrow> int option \<Rightarrow> astate \<Rightarrow> astate \<times> tevent list" where
  "drive_data p t pc txp b cur = (let nxt = drive_bit cur txp b in
     (nxt, pad_events p t pc ''XFER-data'' cur nxt (shl 1 txp) True))"

text \<open>The data pin at a transition; the two cases of the code exclude each other by \<open>cpha\<close>.\<close>

definition xfer_data :: "tprogram \<Rightarrow> ins \<Rightarrow> int \<Rightarrow> int \<Rightarrow> int \<Rightarrow> astate \<Rightarrow> int option \<Rightarrow> astate \<times> int option \<times> tevent list" where
  "xfer_data p i now txp k cur tx =
     (let c = in_c i; cpha = has_bit c 1; msb = has_bit c 2; drive = has_bit c 3; active = (k mod 2 = 0);
          width = ar_width (tp_arch p); m = width_mask p in
      if drive \<and> cpha \<and> active then
        let (b, tx') = abs_shift_out tx msb width m; (nxt, es) = drive_data p now (in_pc i) txp b cur in (nxt, tx', es)
      else if drive \<and> \<not> cpha \<and> \<not> active then
        let tx' = shift_reg tx msb m in
        if k < 2 * in_a i - 1
        then let (nxt, es) = drive_data p now (in_pc i) txp (present_bit tx' msb width) cur in (nxt, tx', es)
        else (cur, tx', [])
      else (cur, tx, []))"

definition xfer_edge :: "tprogram \<Rightarrow> ins \<Rightarrow> int \<Rightarrow> int \<times> int \<times> int \<Rightarrow> int \<Rightarrow> xfer_state \<Rightarrow> xfer_state" where
  "xfer_edge p i t xpins k s =
     (case (xpins, s) of ((clock, txp, rxp), (cur, tx, rx, ev)) \<Rightarrow>
      let c = in_c i; cpol = has_bit c 0; cpha = has_bit c 1; sample = has_bit c 4;
          now = t + (k + 1) * in_b i; active = (k mod 2 = 0);
          cur1 = drive_bit cur clock (Some (of_bool (cpol \<noteq> active)));
          ev1 = pad_events p now (in_pc i) ''XFER-clk'' cur cur1 (shl 1 clock) True;
          (cur2, tx2, ev2) = xfer_data p i now txp k cur1 tx;
          sampled = sample \<and> (if cpha then \<not> active else active)
      in (cur2, tx2, if sampled then None else rx,
          ev @ ev1 @ ev2 @ (if sampled then [new_event now Sample rxp (in_pc i) ''XFER''] else [])))"

definition abs_xfer :: "tprogram \<Rightarrow> astate \<Rightarrow> int \<Rightarrow> ins \<Rightarrow> (astate \<times> int \<times> tevent list) option" where
  "abs_xfer p st t i =
     (case as_xpins st of (clock, txp, rxp) \<Rightarrow>
      let c = in_c i; cpol = has_bit c 0; cpha = has_bit c 1; msb = has_bit c 2; drive = has_bit c 3;
          required = shl 1 clock OR (if drive then shl 1 txp else 0)
      in if required AND NOT (tp_ownership p) \<noteq> 0 \<or> (drive \<and> clock = txp) then None
         else let tx = as_regs st ! 0; rx = as_regs st ! 1;
                cur1 = drive_bit st clock (Some (of_bool cpol));
                ev1 = pad_events p t (in_pc i) ''XFER-clk'' st cur1 (shl 1 clock) True;
                (cur2, ev2) = (if drive \<and> \<not> cpha
                  then let (nxt, es) = drive_data p t (in_pc i) txp (present_bit tx msb (ar_width (tp_arch p))) cur1
                       in (nxt, ev1 @ es) else (cur1, ev1));
                (cur, tx', rx', ev) = fold (xfer_edge p i t (as_xpins st)) (py_range (2 * in_a i)) (cur2, tx, rx, ev2)
              in Some (cur\<lparr>as_regs := tx' # rx' # drop 2 (as_regs st)\<rparr>, 2 * in_a i * in_b i + 1, ev))"

section \<open>Segments\<close>

datatype vend = E_boundary int int | E_halt int | E_fault int int | E_periodic int int | E_budget int

record variant =
  v_events :: "tevent list"
  v_end :: vend
  v_exit :: "astate option"
  v_wait_min :: "int option"
  v_loop_from :: "nat option"
  v_cfaults :: "(int \<times> int \<times> int) list"

definition v_t_end :: "variant \<Rightarrow> int" where
  "v_t_end v = (case v_end v of E_boundary t _ \<Rightarrow> t | E_halt t \<Rightarrow> t | E_fault t _ \<Rightarrow> t | E_periodic t _ \<Rightarrow> t | E_budget t \<Rightarrow> t)"

definition issues :: "variant \<Rightarrow> (int \<times> int) list" where
  "issues v = [(ev_t e, ev_pc e). e \<leftarrow> v_events v, ev_kind e = Issue \<or> ev_kind e = Arrive]"

record tlimits =
  max_variants :: nat
  max_events :: nat
  total_events :: nat

record tpath =
  pt_st :: astate
  pt_t :: int
  pt_ev :: "tevent list"
  pt_li :: "int list"
  pt_seen :: "(astate \<times> int \<times> nat) list"
  pt_cf :: "(int \<times> int \<times> int) list"

text \<open>What an instruction that neither blocks nor ends the path does: the next state without its
  program counter, the next address, the cost, its events and conditional faults, and a fork with
  the state of the other outcome. \<open>None\<close> is a transfer that faults.\<close>

record abs_effect =
  ae_st :: astate
  ae_pc :: int
  ae_dt :: int
  ae_ev :: "tevent list"
  ae_cf :: "(int \<times> int \<times> int) list"
  ae_fork :: "astate option"

definition plain_effect :: "astate \<Rightarrow> astate \<Rightarrow> abs_effect" where
  "plain_effect st new = \<lparr>ae_st = new, ae_pc = as_pc st + 1, ae_dt = 1, ae_ev = [], ae_cf = [], ae_fork = None\<rparr>"

definition abs_exec :: "tprogram \<Rightarrow> astate \<Rightarrow> int \<Rightarrow> ins \<Rightarrow> abs_effect option" where
  "abs_exec p st t i =
     (let op = in_op i; pc = as_pc st; regs = as_regs st; eff = plain_effect st in
      if op = SET then let new = st\<lparr>as_vk := 0xFF, as_vb := in_imm24 i AND 0xFF\<rparr> in
        Some ((eff new)\<lparr>ae_ev := pad_events p t pc ''SET'' st new 0xFF True\<rparr>)
      else if op = DIR then let new = st\<lparr>as_dk := 0xFF, as_db := in_imm24 i AND 0xFF\<rparr> in
        Some ((eff new)\<lparr>ae_ev := pad_events p t pc ''DIR'' st new 0xFF False\<rparr>)
      else if op = WAIT then Some ((eff st)\<lparr>ae_dt := in_imm24 i + 1\<rparr>)
      else if op = JMP then Some ((eff st)\<lparr>ae_pc := in_imm24 i\<rparr>)
      else if op = PUSH then
        Some ((eff st)\<lparr>ae_ev := [new_event t Inter (-1) pc ''push_strict''], ae_cf := [(t, pc, 4)]\<rparr>)
      else if op = OUT then
        let (b, tx) = abs_shift_out (regs ! 0) (in_c i \<noteq> 0) (ar_width (tp_arch p)) (width_mask p);
            new = (drive_bit st (in_a i) b)\<lparr>as_regs := tx # drop 1 regs\<rparr>
        in Some ((eff new)\<lparr>ae_ev := pad_events p t pc ''OUT'' st new (shl 1 (in_a i)) True\<rparr>)
      else if op = IN then
        Some ((eff (st\<lparr>as_regs := [regs ! 0, None, regs ! 2, regs ! 3]\<rparr>))\<lparr>ae_ev := [new_event t Sample (in_a i) pc ''IN'']\<rparr>)
      else if op = COUNT then Some (eff (st\<lparr>as_repeat := Some (in_imm16 i)\<rparr>))
      else if op = LOOP then
        (case as_repeat st of
           None \<Rightarrow> Some ((eff st)\<lparr>ae_fork := Some (st\<lparr>as_pc := in_imm24 i\<rparr>)\<rparr>)
         | Some r \<Rightarrow> if r \<noteq> 0 then Some ((eff (st\<lparr>as_repeat := Some (r - 1)\<rparr>))\<lparr>ae_pc := in_imm24 i\<rparr>) else Some (eff st))
      else if op = LIMIT then Some (eff (st\<lparr>as_limit := in_imm24 i\<rparr>))
      else if op = SIGNAL then Some ((eff st)\<lparr>ae_ev := [new_event t Inter (-1) pc ''signal'']\<rparr>)
      else if op = PINS then
        Some (eff (st\<lparr>as_xpins := (in_imm24 i AND 7, shr (in_imm24 i) 3 AND 7, shr (in_imm24 i) 6 AND 7)\<rparr>))
      else if op = XFER then
        map_option (\<lambda>(new, dt, ev). (eff new)\<lparr>ae_dt := dt, ae_ev := ev\<rparr>) (abs_xfer p st t i)
      else if op \<in> {MOV, LOAD, ADD, OP_XOR, OP_AND, OP_OR, OP_SHL, OP_SHR, OP_NOT, TIME} then
        Some ((eff (st\<lparr>as_regs := abs_alu i regs (width_mask p)\<rparr>))
          \<lparr>ae_ev := if op = TIME then [new_event t Inter (-1) pc ''time''] else []\<rparr>)
      else if op = JZ then
        (case regs ! nat (in_a i) of
           None \<Rightarrow> Some ((eff st)\<lparr>ae_fork := Some (st\<lparr>as_pc := in_imm16 i, as_regs := regs[nat (in_a i) := Some 0]\<rparr>)\<rparr>)
         | Some v \<Rightarrow> if v = 0 then Some ((eff st)\<lparr>ae_pc := in_imm16 i\<rparr>) else Some (eff st))
      else Some (eff st))"

text \<open>One round of the inner loop of \<open>_segment\<close>: the path ends in a variant, or goes on, perhaps with
  a fork, which is itself a variant when it closes a loop.\<close>

datatype seg_result = Ends variant bool | Goes tpath "(variant + tpath) option"

definition soft_here :: "int list \<Rightarrow> astate \<Rightarrow> ins \<Rightarrow> bool" where
  "soft_here soft st i \<longleftrightarrow> as_pc st \<in> set soft \<and>
     ((in_op i = JZ \<and> as_regs st ! nat (in_a i) = None) \<or> (in_op i = LOOP \<and> as_repeat st = None))"

definition blocks :: "ins \<Rightarrow> bool" where
  "blocks i \<longleftrightarrow> in_op i \<in> {PULL, WAITPIN, WAITEVENT} \<or> (in_op i = PUSH \<and> in_a i = 0)"

definition ended :: "tpath \<Rightarrow> tevent list \<Rightarrow> vend \<Rightarrow> variant" where
  "ended pt ev e = \<lparr>v_events = ev, v_end = e, v_exit = None, v_wait_min = None, v_loop_from = None, v_cfaults = pt_cf pt\<rparr>"

definition fork_path :: "tpath \<Rightarrow> tevent list \<Rightarrow> (int \<times> int \<times> int) list \<Rightarrow> astate \<Rightarrow> variant + tpath" where
  "fork_path pt ev cf st =
     (let t = pt_t pt + 1; child = pt\<lparr>pt_st := st, pt_t := t, pt_ev := ev, pt_cf := cf\<rparr> in
      if as_pc st \<le> as_pc (pt_st pt) then
        (case map_of (pt_seen pt) st of
           Some (t0, idx) \<Rightarrow> Inl \<lparr>v_events = ev, v_end = E_periodic t0 (t - t0), v_exit = None, v_wait_min = None,
               v_loop_from = Some idx, v_cfaults = cf\<rparr>
         | None \<Rightarrow> Inr (child\<lparr>pt_seen := (st, t, length ev) # pt_seen pt\<rparr>))
      else Inr child)"

definition seg_step :: "tprogram \<Rightarrow> tlimits \<Rightarrow> int list \<Rightarrow> nat \<Rightarrow> tpath \<Rightarrow> seg_result" where
  "seg_step p lim soft used pt =
     (let st = pt_st pt; t = pt_t pt; ev = pt_ev pt; pc = as_pc st; i = ins_at p pc;
          issue = ev @ [new_event t Issue (-1) pc (mnemonic i)]; arrive = ev @ [new_event t Arrive (-1) pc (mnemonic i)] in
      if length ev > max_events lim \<or> used + length ev > total_events lim then
        Ends ((ended pt ev (E_budget t))\<lparr>v_cfaults := []\<rparr>) True
      else if \<not> (0 \<le> pc \<and> pc < int (length (tp_words p))) then
        Ends (ended pt (ev @ [new_event t Issue (-1) pc ''PC-RANGE''] @ release_events p st t pc ''fault2'') (E_fault t 2)) False
      else if fault_at p pc \<noteq> 0 then
        Ends (ended pt (issue @ release_events p st t pc ''fault1'') (E_fault t 1)) False
      else if soft_here soft st i then
        Ends ((ended pt arrive (E_boundary t pc))\<lparr>v_exit := Some st, v_wait_min := Some 0\<rparr>) False
      else if blocks i then
        Ends ((ended pt arrive (E_boundary t pc))\<lparr>v_exit := Some st, v_wait_min :=
          (if in_op i = WAITPIN \<and> owned_pin p (in_a i) then wait_min_stall (pt_li pt) arrive (in_a i) (in_b i) t else Some 0)\<rparr>) False
      else if in_op i = HALT then
        Ends (ended pt (issue @ release_events p st t pc ''HALT'') (E_halt t)) False
      else if in_op i = FAULT then
        Ends (ended pt (issue @ release_events p st t pc (''fault'' @ decimal (in_imm24 i))) (E_fault t (in_imm24 i))) False
      else case abs_exec p st t i of
        None \<Rightarrow> Ends (ended pt (issue @ release_events p st t pc ''fault1'') (E_fault t 1)) False
      | Some ef \<Rightarrow>
          let ev' = issue @ ae_ev ef; cf' = pt_cf pt @ ae_cf ef; new = (ae_st ef)\<lparr>as_pc := ae_pc ef\<rparr>; t' = t + ae_dt ef;
              fork = map_option (fork_path pt ev' cf') (ae_fork ef);
              nx = pt\<lparr>pt_st := new, pt_t := t', pt_ev := ev', pt_cf := cf'\<rparr>
          in if ae_pc ef \<le> pc then
               (case map_of (pt_seen pt) new of
                  Some (t0, idx) \<Rightarrow> Ends ((ended pt ev' (E_periodic t0 (t' - t0)))\<lparr>v_loop_from := Some idx, v_cfaults := cf'\<rparr>) False
                | None \<Rightarrow> Goes (nx\<lparr>pt_seen := (new, t', length ev') # pt_seen pt\<rparr>) fork)
             else Goes nx fork)"

text \<open>The loops of \<open>_segment\<close>. \<open>cur\<close> is the path of the inner loop; the stack is popped from its head.
  \<open>used\<close> is \<open>self.total_events\<close>, which counts the last variant after every path.\<close>

record seg_state =
  sg_cur :: "tpath option"
  sg_stack :: "tpath list"
  sg_out :: "variant list"
  sg_incomplete :: bool
  sg_used :: nat

definition room :: "tlimits \<Rightarrow> tpath \<Rightarrow> nat" where
  "room lim pt = Suc (max_events lim) - length (pt_ev pt)"

definition seg_weight :: "tlimits \<Rightarrow> seg_state \<Rightarrow> nat" where
  "seg_weight lim s = sum_list (map (\<lambda>pt. 3 ^ room lim pt) (sg_stack s))
     + (case sg_cur s of None \<Rightarrow> 0 | Some pt \<Rightarrow> 3 ^ room lim pt)"

definition seg_round :: "tprogram \<Rightarrow> tlimits \<Rightarrow> int list \<Rightarrow> tpath \<Rightarrow> seg_state \<Rightarrow> seg_state" where
  "seg_round p lim soft pt s =
     (case seg_step p lim soft (sg_used s) pt of
        Ends v inc \<Rightarrow> s\<lparr>sg_cur := None, sg_out := sg_out s @ [v], sg_incomplete := sg_incomplete s \<or> inc,
          sg_used := sg_used s + length (v_events v)\<rparr>
      | Goes nx fork \<Rightarrow> (case fork of
          None \<Rightarrow> s\<lparr>sg_cur := Some nx\<rparr>
        | Some (Inl v) \<Rightarrow> s\<lparr>sg_cur := Some nx, sg_out := sg_out s @ [v]\<rparr>
        | Some (Inr child) \<Rightarrow> s\<lparr>sg_cur := Some nx, sg_stack := child # sg_stack s\<rparr>))"

lemma goes_longer:
  assumes "seg_step p lim soft used pt = Goes nx fork"
  shows "length (pt_ev pt) \<le> max_events lim \<and> length (pt_ev pt) < length (pt_ev nx) \<and>
     (\<forall>child. fork = Some (Inr child) \<longrightarrow> length (pt_ev pt) < length (pt_ev child))"
  using assms unfolding seg_step_def Let_def
  by (auto simp: fork_path_def Let_def split: if_splits option.splits)

lemma room_smaller: "length (pt_ev pt) \<le> max_events lim \<Longrightarrow> length (pt_ev pt) < length (pt_ev q) \<Longrightarrow> room lim q < room lim pt"
  by (simp add: room_def)

lemma pow_smaller: "a < n \<Longrightarrow> b < n \<Longrightarrow> (3::nat) ^ a + 3 ^ b < 3 ^ n"
proof -
  assume "a < n" "b < n"
  then obtain k where n: "n = Suc k" and "a \<le> k" "b \<le> k" by (cases n) auto
  then have "(3::nat) ^ a \<le> 3 ^ k" "(3::nat) ^ b \<le> 3 ^ k" by (simp_all add: power_increasing)
  moreover have "(0::nat) < 3 ^ k" by simp
  ultimately show ?thesis unfolding n power_Suc by linarith
qed

lemma round_lighter:
  assumes "sg_cur s = Some pt"
  shows "seg_weight lim (seg_round p lim soft pt s) < seg_weight lim s"
proof (cases "seg_step p lim soft (sg_used s) pt")
  case (Ends v inc)
  then show ?thesis using assms by (simp add: seg_round_def seg_weight_def)
next
  case (Goes nx fork)
  note l = goes_longer [OF Goes]
  then have r: "room lim nx < room lim pt" by (intro room_smaller) auto
  then have "(3::nat) ^ room lim nx < 3 ^ room lim pt" by simp
  moreover have "(3::nat) ^ room lim nx + 3 ^ room lim child < 3 ^ room lim pt" if "fork = Some (Inr child)" for child
    using l that r by (intro pow_smaller room_smaller) auto
  ultimately show ?thesis using assms Goes
    by (auto simp: seg_round_def seg_weight_def split: option.splits sum.splits)
qed

function seg_loop :: "tprogram \<Rightarrow> tlimits \<Rightarrow> int list \<Rightarrow> seg_state \<Rightarrow> seg_state" where
  "seg_loop p lim soft s =
     (case sg_cur s of
        Some pt \<Rightarrow> seg_loop p lim soft (seg_round p lim soft pt s)
      | None \<Rightarrow> (case sg_stack s of
          [] \<Rightarrow> s
        | pt # rest \<Rightarrow>
            if length (sg_out s) \<ge> max_variants lim then s\<lparr>sg_incomplete := True\<rparr>
            else seg_loop p lim soft (s\<lparr>sg_cur := Some pt, sg_stack := rest\<rparr>)))"
  by pat_completeness auto

termination seg_loop
  by (relation "measures [\<lambda>(p, lim, soft, s). seg_weight lim s, \<lambda>(p, lim, soft, s). length (sg_stack s)]")
    (simp_all add: round_lighter, simp add: seg_weight_def)

declare seg_loop.simps [simp del]

definition segment :: "tprogram \<Rightarrow> tlimits \<Rightarrow> int list \<Rightarrow> nat \<Rightarrow> astate \<Rightarrow> int \<Rightarrow> int \<Rightarrow> variant list \<times> bool \<times> nat" where
  "segment p lim soft used st t0 bpc =
     (let first = \<lparr>pt_st = st, pt_t = t0, pt_ev = [new_event 0 Anchor bpc (as_pc st) []], pt_li = pads p st,
            pt_seen = [], pt_cf = []\<rparr>;
          s = seg_loop p lim soft \<lparr>sg_cur = None, sg_stack = [first], sg_out = [], sg_incomplete = False, sg_used = used\<rparr>
      in (sg_out s, sg_incomplete s, sg_used s))"

end
