(* ===== verification/Timing_Graph.thy ===== *)
theory Timing_Graph
  imports Timing_Model
begin

text \<open>
  The boundary graph of a program: the class \<open>Analysis\<close> of \<open>tools/timing/pe_timing.py\<close>. Its nodes
  are the synchronization boundaries with their contexts; each is explored segment by segment, and
  when a boundary has too many contexts, further ones are joined into one over-approximate node.
\<close>

section \<open>Nodes\<close>

datatype nkey = K_start | K_context int astate | K_wide int

record tnode =
  nd_kind :: string
  nd_bpc :: int
  nd_state :: astate
  nd_min_stall :: int
  nd_max_stall :: "int option"
  nd_deadlock :: bool
  nd_variants :: "variant list"
  nd_succs :: "nkey option list"
  nd_incomplete :: bool
  nd_widened :: bool
  nd_preds :: nat
  nd_stall_set :: bool
  nd_dirty :: bool

text \<open>A stall of \<open>None\<close> cycles is \<open>INF\<close>; \<open>nd_succs\<close> holds the fields \<open>succ\<close> of the variants.\<close>

definition new_node :: "string \<Rightarrow> int \<Rightarrow> astate \<Rightarrow> tnode" where
  "new_node kind bpc st = \<lparr>nd_kind = kind, nd_bpc = bpc, nd_state = st, nd_min_stall = 0, nd_max_stall = Some 0,
     nd_deadlock = False, nd_variants = [], nd_succs = [], nd_incomplete = False, nd_widened = False, nd_preds = 0,
     nd_stall_set = False, nd_dirty = False\<rparr>"

definition BLOCK_BRANCH :: string where
  "BLOCK_BRANCH = ''branch''"

definition node_kind :: "tprogram \<Rightarrow> int list \<Rightarrow> int \<Rightarrow> string" where
  "node_kind p soft bpc = (if bpc \<in> set soft then BLOCK_BRANCH else blocking_class (ins_at p bpc))"

text \<open>The last line of \<open>_soft_branches\<close>: the branches among the instructions on a cycle.\<close>

definition soft_branches :: "tprogram \<Rightarrow> int list \<Rightarrow> int list" where
  "soft_branches p cyc = filter (\<lambda>pc. in_op (ins_at p pc) \<in> {JZ, LOOP}) cyc"

definition branch_starts :: "tprogram \<Rightarrow> tnode \<Rightarrow> astate list" where
  "branch_starts p n =
     (let st = nd_state n; i = ins_at p (nd_bpc n) in
      if in_op i = JZ then
        [st\<lparr>as_pc := in_imm16 i, as_regs := (as_regs st)[nat (in_a i) := Some 0]\<rparr>, st\<lparr>as_pc := in_pc i + 1\<rparr>]
      else [st\<lparr>as_pc := in_imm24 i\<rparr>, st\<lparr>as_pc := in_pc i + 1, as_repeat := Some 0\<rparr>])"

definition start_states :: "tprogram \<Rightarrow> tnode \<Rightarrow> astate list" where
  "start_states p n =
     (if nd_kind n = ''start'' then [START_STATE]
      else if nd_kind n = BLOCK_BRANCH then branch_starts p n
      else let st = nd_state n; i = ins_at p (nd_bpc n) in
        [st\<lparr>as_pc := nd_bpc n + 1, as_regs := if in_op i = PULL then None # drop 1 (as_regs st) else as_regs st\<rparr>])"

definition stall_bounds :: "tprogram \<Rightarrow> variant \<Rightarrow> tnode \<Rightarrow> tnode" where
  "stall_bounds p v n =
     (let i = ins_at p (nd_bpc n); limit = as_limit (nd_state n) in
      if nd_kind n = BLOCK_BRANCH then n\<lparr>nd_max_stall := Some 0, nd_min_stall := 0, nd_stall_set := True\<rparr>
      else if in_op i \<in> {PULL, PUSH} then n\<lparr>nd_max_stall := None, nd_min_stall := 0, nd_stall_set := True\<rparr>
      else
        let forced = (in_op i = WAITPIN \<and> owned_pin p (in_a i));
            minimum = (if forced then (case v_wait_min v of None \<Rightarrow> limit - 1 | Some w \<Rightarrow> w) else 0)
        in n\<lparr>nd_max_stall := Some (limit - 1), nd_deadlock := nd_deadlock n \<or> (forced \<and> v_wait_min v = None),
             nd_min_stall := if nd_stall_set n then min (nd_min_stall n) minimum else minimum, nd_stall_set := True\<rparr>)"

section \<open>The graph\<close>

record glimits =
  max_contexts :: nat
  segment_limits :: tlimits

record graph =
  g_nodes :: "nkey \<Rightarrow> tnode option"
  g_order :: "nkey list"
  g_queue :: "nkey list"
  g_contexts :: "int \<Rightarrow> astate list"
  g_wide :: "int \<Rightarrow> astate option"
  g_total :: nat
  g_truncated :: bool
  g_pins_differ :: bool

text \<open>\<open>g_pins_differ\<close> says that the warning about differing \<open>PINS\<close> was given.\<close>

definition put_node :: "nkey \<Rightarrow> tnode \<Rightarrow> graph \<Rightarrow> graph" where
  "put_node key n g = g\<lparr>g_nodes := (g_nodes g)(key \<mapsto> n)\<rparr>"

definition alter_node :: "nkey \<Rightarrow> (tnode \<Rightarrow> tnode) \<Rightarrow> graph \<Rightarrow> graph" where
  "alter_node key f g = g\<lparr>g_nodes := (g_nodes g)(key := map_option f (g_nodes g key))\<rparr>"

definition widen :: "tprogram \<Rightarrow> int list \<Rightarrow> int \<Rightarrow> astate \<Rightarrow> graph \<Rightarrow> graph" where
  "widen p soft bpc st g =
     (let old = g_wide g bpc;
          joined = (case old of None \<Rightarrow> st | Some o1 \<Rightarrow> join_states o1 st);
          g1 = g\<lparr>g_pins_differ := g_pins_differ g \<or> (old \<noteq> None \<and> as_xpins joined \<noteq> as_xpins st)\<rparr>;
          n = g_nodes g (K_wide bpc)
      in if n = None \<or> Some joined \<noteq> old then
           let fresh = (new_node (node_kind p soft bpc) bpc joined)\<lparr>nd_widened := True, nd_dirty := n \<noteq> None,
                 nd_preds := (case n of None \<Rightarrow> 0 | Some m \<Rightarrow> nd_preds m),
                 nd_min_stall := (case n of None \<Rightarrow> 0 | Some m \<Rightarrow> nd_min_stall m),
                 nd_stall_set := (case n of None \<Rightarrow> False | Some m \<Rightarrow> nd_stall_set m)\<rparr>
           in put_node (K_wide bpc) fresh (g1\<lparr>g_wide := (g_wide g1)(bpc \<mapsto> joined)\<rparr>)
         else g1)"

definition node_for :: "tprogram \<Rightarrow> nat \<Rightarrow> int list \<Rightarrow> int \<Rightarrow> astate \<Rightarrow> variant \<Rightarrow> graph \<Rightarrow> nkey \<times> graph" where
  "node_for p contexts soft bpc st v g =
     (let (key, g1) =
        (if g_nodes g (K_context bpc st) \<noteq> None then (K_context bpc st, g)
         else if length (g_contexts g bpc) < contexts then
           (K_context bpc st, put_node (K_context bpc st) (new_node (node_kind p soft bpc) bpc st)
              (g\<lparr>g_contexts := (g_contexts g)(bpc := g_contexts g bpc @ [st])\<rparr>))
         else (K_wide bpc, widen p soft bpc st g))
      in (key, alter_node key (stall_bounds p v) g1))"

section \<open>Exploration\<close>

text \<open>The end of the loop over the variants: the successor is appended to the order, or queued again
  when it was widened.\<close>

definition enqueue :: "nkey \<Rightarrow> graph \<Rightarrow> graph" where
  "enqueue key g =
     (let dirty = (case g_nodes g key of None \<Rightarrow> False | Some n \<Rightarrow> nd_dirty n);
          g1 = alter_node key (\<lambda>n. n\<lparr>nd_preds := nd_preds n + 1, nd_dirty := False\<rparr>) g
      in if key \<notin> set (g_order g) then g1\<lparr>g_order := g_order g @ [key], g_queue := g_queue g @ [key]\<rparr>
         else if dirty then g1\<lparr>g_queue := g_queue g @ [key]\<rparr> else g1)"

text \<open>A node that was replaced meanwhile has no variants, so its successors are not set.\<close>

definition link_variant :: "tprogram \<Rightarrow> nat \<Rightarrow> int list \<Rightarrow> nkey \<Rightarrow> nat \<times> variant \<Rightarrow> graph \<Rightarrow> graph" where
  "link_variant p contexts soft key kv g =
     (case (v_end (snd kv), v_exit (snd kv)) of
        (E_boundary t bpc, Some st) \<Rightarrow>
          (let (sk, g1) = node_for p contexts soft bpc st (snd kv) g
           in enqueue sk (alter_node key (\<lambda>n. n\<lparr>nd_succs := (nd_succs n)[fst kv := Some sk]\<rparr>) g1))
      | _ \<Rightarrow> g)"

fun segments :: "tprogram \<Rightarrow> tlimits \<Rightarrow> int list \<Rightarrow> int \<Rightarrow> nat \<Rightarrow> astate list \<Rightarrow> variant list \<times> bool \<times> nat" where
  "segments p lim soft bpc used [] = ([], False, used)"
| "segments p lim soft bpc used (st # sts) =
     (let (vs, inc, used1) = segment p lim soft used st 1 bpc;
          (vs', inc', used2) = segments p lim soft bpc used1 sts
      in (vs @ vs', inc \<or> inc', used2))"

definition explore_node :: "tprogram \<Rightarrow> glimits \<Rightarrow> int list \<Rightarrow> nkey \<Rightarrow> tnode \<Rightarrow> graph \<Rightarrow> graph" where
  "explore_node p lim soft key n g =
     (let (vs, inc, total') = segments p (segment_limits lim) soft (nd_bpc n) (g_total g) (start_states p n);
          n' = n\<lparr>nd_variants := vs, nd_incomplete := inc, nd_succs := replicate (length vs) None\<rparr>
      in fold (link_variant p (max_contexts lim) soft key) (enumerate 0 vs) ((put_node key n' g)\<lparr>g_total := total'\<rparr>))"

definition explore_step :: "tprogram \<Rightarrow> glimits \<Rightarrow> int list \<Rightarrow> nkey \<Rightarrow> graph \<Rightarrow> graph" where
  "explore_step p lim soft key g =
     (let n = the (g_nodes g key) in
      if nd_deadlock n then g
      else if g_total g > total_events (segment_limits lim) then
        alter_node key (\<lambda>n. n\<lparr>nd_incomplete := True\<rparr>) (g\<lparr>g_truncated := True\<rparr>)
      else explore_node p lim soft key n g)"

text \<open>A segment with variants uses up part of the budget, so that the exploration ends.\<close>

definition eventful :: "seg_state \<Rightarrow> bool" where
  "eventful s \<longleftrightarrow> (\<forall>pt \<in> set_option (sg_cur s) \<union> set (sg_stack s). pt_ev pt \<noteq> [])"

lemma step_events:
  assumes "pt_ev pt \<noteq> []"
  shows "case seg_step p lim soft used pt of Ends v inc \<Rightarrow> v_events v \<noteq> []
    | Goes nx fork \<Rightarrow> pt_ev nx \<noteq> [] \<and> (\<forall>c. fork = Some (Inr c) \<longrightarrow> pt_ev c \<noteq> [])"
  using assms unfolding seg_step_def Let_def by (auto simp: ended_def fork_path_def Let_def split: option.splits)

lemma round_used:
  assumes "sg_cur s = Some pt" "eventful s"
  shows "eventful (seg_round p lim soft pt s) \<and> sg_used s \<le> sg_used (seg_round p lim soft pt s) \<and>
     (sg_cur (seg_round p lim soft pt s) = None \<longrightarrow> sg_used s < sg_used (seg_round p lim soft pt s))"
proof -
  have "pt_ev pt \<noteq> []" using assms by (simp add: eventful_def)
  from step_events [OF this, of p lim soft "sg_used s"] show ?thesis
    using assms by (auto simp: seg_round_def eventful_def split: seg_result.splits option.splits sum.splits)
qed

lemma loop_used:
  "eventful s \<Longrightarrow> sg_used s \<le> sg_used (seg_loop p lim soft s) \<and> (sg_cur s \<noteq> None \<longrightarrow> sg_used s < sg_used (seg_loop p lim soft s)) \<and>
     (sg_out (seg_loop p lim soft s) \<noteq> sg_out s \<longrightarrow> sg_used s < sg_used (seg_loop p lim soft s))"
proof (induction p lim soft s rule: seg_loop.induct)
  case (1 p lim soft s)
  note u = seg_loop.simps [of p lim soft s]
  show ?case
  proof (cases "sg_cur s")
    case (Some pt)
    note r = round_used [OF Some 1(3), of p lim soft]
    have ih: "sg_used (seg_round p lim soft pt s) \<le> sg_used (seg_loop p lim soft (seg_round p lim soft pt s)) \<and>
        (sg_cur (seg_round p lim soft pt s) \<noteq> None \<longrightarrow>
          sg_used (seg_round p lim soft pt s) < sg_used (seg_loop p lim soft (seg_round p lim soft pt s)))"
      using 1(2) [OF Some] r by blast
    have "seg_loop p lim soft s = seg_loop p lim soft (seg_round p lim soft pt s)" using Some by (simp add: u)
    moreover have "sg_used s < sg_used (seg_loop p lim soft (seg_round p lim soft pt s))"
      using ih r by (cases "sg_cur (seg_round p lim soft pt s)") auto
    ultimately show ?thesis by auto
  next
    case None
    show ?thesis
    proof (cases "sg_stack s")
      case (Cons pt rest)
      have "eventful (s\<lparr>sg_cur := Some pt, sg_stack := rest\<rparr>)" using 1(3) Cons by (auto simp: eventful_def)
      then show ?thesis using 1(1) [OF None Cons] None Cons by (auto simp: u)
    qed (use None in \<open>simp add: u\<close>)
  qed
qed

lemma segment_used:
  assumes "segment p lim soft used st t0 bpc = (vs, inc, used')"
  shows "used \<le> used' \<and> (vs \<noteq> [] \<longrightarrow> used < used')"
proof -
  let ?s = "\<lparr>sg_cur = None, sg_stack = [\<lparr>pt_st = st, pt_t = t0, pt_ev = [new_event 0 Anchor bpc (as_pc st) []],
      pt_li = pads p st, pt_seen = [], pt_cf = []\<rparr>], sg_out = [], sg_incomplete = False, sg_used = used\<rparr>"
  have "eventful ?s" by (simp add: eventful_def)
  from loop_used [OF this, of p lim soft] show ?thesis using assms by (auto simp: segment_def Let_def)
qed

lemma segments_used: "segments p lim soft bpc used sts = (vs, inc, used') \<Longrightarrow> used \<le> used' \<and> (vs \<noteq> [] \<longrightarrow> used < used')"
proof (induction sts arbitrary: used vs inc used')
  case (Cons st sts)
  obtain v1 i1 u1 where s: "segment p lim soft used st 1 bpc = (v1, i1, u1)" by (cases "segment p lim soft used st 1 bpc")
  obtain v2 i2 u2 where ss: "segments p lim soft bpc u1 sts = (v2, i2, u2)" by (cases "segments p lim soft bpc u1 sts")
  show ?case using Cons.prems segment_used [OF s] Cons.IH [OF ss] by (auto simp: s ss)
qed simp

lemma same_total [simp]:
  "g_total (put_node key n g) = g_total g" "g_total (alter_node key f g) = g_total g" "g_total (widen p soft bpc st g) = g_total g"
  "g_total (snd (node_for p k soft bpc st v g)) = g_total g" "g_total (enqueue key g) = g_total g"
  by (auto simp: put_node_def alter_node_def widen_def node_for_def enqueue_def Let_def split: if_splits)

lemma link_total [simp]: "g_total (link_variant p k soft key kv g) = g_total g"
proof -
  have "g_total g1 = g_total g" if "node_for p k soft bpc st v g = (sk, g1)" for bpc st v sk g1
    using same_total(4) [of p k soft bpc st v g] that by simp
  then show ?thesis by (auto simp: link_variant_def split: vend.splits option.splits prod.splits)
qed

lemma links_total [simp]: "g_total (fold (link_variant p k soft key) kvs g) = g_total g"
  by (induction kvs arbitrary: g) simp_all

lemma step_used:
  "g_total g < g_total (explore_step p lim soft key g) \<and> g_total g \<le> total_events (segment_limits lim) \<or>
   g_total (explore_step p lim soft key g) = g_total g \<and> g_queue (explore_step p lim soft key g) = g_queue g"
proof -
  let ?n = "the (g_nodes g key)"
  obtain vs inc u where s: "segments p (segment_limits lim) soft (nd_bpc ?n) (g_total g) (start_states p ?n) = (vs, inc, u)"
    by (cases "segments p (segment_limits lim) soft (nd_bpc ?n) (g_total g) (start_states p ?n)")
  show ?thesis
    using segments_used [OF s] by (cases vs) (auto simp: explore_step_def explore_node_def s Let_def alter_node_def put_node_def)
qed

function explore_loop :: "tprogram \<Rightarrow> glimits \<Rightarrow> int list \<Rightarrow> graph \<Rightarrow> graph" where
  "explore_loop p lim soft g =
     (case g_queue g of
        [] \<Rightarrow> g
      | key # rest \<Rightarrow> explore_loop p lim soft (explore_step p lim soft key (g\<lparr>g_queue := rest\<rparr>)))"
  by pat_completeness auto

termination explore_loop
proof (relation "measures [\<lambda>(p, lim, soft, g). Suc (total_events (segment_limits lim)) - g_total g, \<lambda>(p, lim, soft, g). length (g_queue g)]")
  fix p lim soft key rest and g :: graph
  assume "g_queue g = key # rest"
  then show "((p, lim, soft, explore_step p lim soft key (g\<lparr>g_queue := rest\<rparr>)), (p, lim, soft, g))
    \<in> measures [\<lambda>(p, lim, soft, g). Suc (total_events (segment_limits lim)) - g_total g, \<lambda>(p, lim, soft, g). length (g_queue g)]"
    using step_used [of "g\<lparr>g_queue := rest\<rparr>" p lim soft key] by auto
qed simp

declare explore_loop.simps [simp del]

definition start_graph :: graph where
  "start_graph = \<lparr>g_nodes = [K_start \<mapsto> new_node ''start'' (-1) START_STATE], g_order = [K_start], g_queue = [K_start],
     g_contexts = (\<lambda>b. []), g_wide = (\<lambda>b. None), g_total = 0, g_truncated = False, g_pins_differ = False\<rparr>"

text \<open>\<open>_explore\<close>; \<open>cyc\<close> holds the instructions \<open>_cyclic\<close> finds on a cycle.\<close>

definition explore_graph :: "tprogram \<Rightarrow> glimits \<Rightarrow> int list \<Rightarrow> graph" where
  "explore_graph p lim cyc = explore_loop p lim (soft_branches p cyc) start_graph"

end
