(* ===== verification/Timing_Sound.thy ===== *)
theory Timing_Sound
  imports Timing_Model
begin

text \<open>
  The abstract execution of the timing analyser against the engine of the reference model: an
  instruction takes exactly the cycles the analyser gives it, the abstract state stays an
  abstraction of the engine's, and a pad changes only at a cycle with a pad event that allows it.
\<close>

section \<open>The engine behind a program\<close>

definition config_of :: "arch \<Rightarrow> config" where
  "config_of ar = \<lparr>cfg_engines = ar_engines ar, cfg_width = ar_width ar, cfg_program_words = ar_program_words ar,
     cfg_fifo_words = ar_fifo_words ar, cfg_fused = ar_fused ar, cfg_prefetch = ar_prefetch ar\<rparr>"

definition prog_ok :: "tprogram \<Rightarrow> bool" where
  "prog_ok p \<longleftrightarrow> config_ok (config_of (tp_arch p)) \<and> (\<forall>w \<in> set (tp_words p). 0 \<le> w \<and> w < 2 ^ 32)"

definition holds_program :: "tprogram \<Rightarrow> engine \<Rightarrow> bool" where
  "holds_program p e \<longleftrightarrow> e_program e = tp_words p \<and> e_committed e \<and> e_ownership e = tp_ownership p \<and> e_open_drain e = tp_open_drain p"

text \<open>A cycle of the engine: its step, and then whatever the chip does to its queues, its mailbox and its
  stalled flag.\<close>

definition touched :: "engine \<Rightarrow> engine \<Rightarrow> bool" where
  "touched e e' \<longleftrightarrow> (\<exists>tx rx ev tr stalled.
     e' = e\<lparr>e_tx := tx, e_rx := rx, e_event := ev, e_trigger := tr, e_stalled := stalled\<rparr>)"

definition moves :: "config \<Rightarrow> engine \<Rightarrow> engine \<Rightarrow> bool" where
  "moves cfg e e' \<longleftrightarrow> (\<exists>sync2 timestamp tx_available rx_space e1 pop push signal.
     step cfg sync2 timestamp e tx_available rx_space = Some (e1, pop, push, signal) \<and> touched e1 e')"

definition issuing :: "engine \<Rightarrow> bool" where
  "issuing e \<longleftrightarrow> e_running e \<and> e_wait e = 0 \<and> e_transfer e = None"

text \<open>The pad of an owned pin.\<close>

definition pad_now :: "tprogram \<Rightarrow> engine \<Rightarrow> int \<Rightarrow> int" where
  "pad_now p e pin =
     (if \<not> has_bit (e_direction e AND NOT (tp_open_drain p AND e_values e)) pin then PZ
      else if has_bit (e_values e AND NOT (tp_open_drain p)) pin then P1 else P0)"

lemma pad_now_pad1:
  "pad_now p e pin = pad1 (bit_at (e_values e) pin) (bit_at (e_direction e) pin) (tp_open_drain p) pin"
  by (auto simp: pad_now_def pad1_def has_bit_iff bit_at_of_bool bit_simps)

section \<open>Abstraction\<close>

definition known_bits :: "int \<Rightarrow> int \<Rightarrow> int \<Rightarrow> bool" where
  "known_bits k v x \<longleftrightarrow> (\<forall>pin \<in> {0..<8}. has_bit k pin \<longrightarrow> has_bit v pin = has_bit x pin)"

definition known_regs :: "tprogram \<Rightarrow> int option list \<Rightarrow> int list \<Rightarrow> bool" where
  "known_regs p as rs \<longleftrightarrow> length as = 4 \<and> length rs = 4 \<and>
     (\<forall>i < 4. 0 \<le> rs ! i \<and> rs ! i < 2 ^ nat (ar_width (tp_arch p)) \<and> (as ! i = None \<or> as ! i = Some (rs ! i)))"

definition small_pins :: "int \<times> int \<times> int \<Rightarrow> bool" where
  "small_pins x = (case x of (a, b, c) \<Rightarrow> 0 \<le> a \<and> a < 8 \<and> 0 \<le> b \<and> b < 8 \<and> 0 \<le> c \<and> c < 8)"

definition represents :: "tprogram \<Rightarrow> astate \<Rightarrow> engine \<Rightarrow> bool" where
  "represents p st e \<longleftrightarrow> e_pc e = as_pc st \<and> known_regs p (as_regs st) (e_regs e) \<and>
     (as_repeat st = None \<or> as_repeat st = Some (e_repeat e)) \<and> e_limit e \<le> as_limit st \<and>
     e_pins e = as_xpins st \<and> small_pins (e_pins e) \<and>
     known_bits (as_vk st) (as_vb st) (e_values e) \<and> known_bits (as_dk st) (as_db st) (e_direction e)"

lemma touched_simps:
  assumes "touched e e'"
  shows "represents p st e' = represents p st e" "holds_program p e' = holds_program p e" "issuing e' = issuing e"
    "pad_now p e' = pad_now p e" "e_fault e' = e_fault e" "e_running e' = e_running e" "e_wait e' = e_wait e"
    "e_transfer e' = e_transfer e" "e_direction e' = e_direction e" "e_pc e' = e_pc e" "e_blocked e' = e_blocked e"
    "e_limit e' = e_limit e" "e_values e' = e_values e" "e_pins e' = e_pins e" "e_regs e' = e_regs e"
    "e_repeat e' = e_repeat e"
  using assms by (auto simp: touched_def represents_def holds_program_def issuing_def pad_now_pad1 fun_eq_iff)

section \<open>Static checks\<close>

lemma and_word32: "0 \<le> w \<Longrightarrow> w < 2 ^ 32 \<Longrightarrow> (w::int) AND 0xFFFFFFFF = w"
  by (simp add: and_m32_take take_bit_int_eq_self)

lemma ins_fields:
  assumes "0 \<le> w" "w < 2 ^ 32"
  shows "in_op (decode_ins w pc) = word_op w" "in_a (decode_ins w pc) = word_a w" "in_b (decode_ins w pc) = word_b w"
    "in_c (decode_ins w pc) = word_c w" "in_imm24 (decode_ins w pc) = word_imm24 w" "in_imm16 (decode_ins w pc) = word_imm16 w"
    "in_pc (decode_ins w pc) = pc"
  using and_word32 [OF assms] by (simp_all add: decode_ins_def word_fields Let_def)

lemma shr_and_1: "shr x i AND 1 = 0 \<longleftrightarrow> \<not> has_bit x i"
  by (simp add: has_bit_def)

lemma opcode_cases:
  fixes x :: int
  obtains "x = 0" | "x = 1" | "x = 2" | "x = 3" | "x = 4" | "x = 5" | "x = 6" | "x = 7" | "x = 8" | "x = 9" | "x = 10" | "x = 11" | "x = 12" | "x = 13" | "x = 14" | "x = 15" | "x = 16" | "x = 17" | "x = 18" | "x = 19" | "x = 20" | "x = 21" | "x = 22" | "x = 23" | "x = 24" | "x = 25" | "x = 26" | "x = 27" | "x = 28" | "x = 29" | "x \<notin> {0, 1, 2, 3, 4, 5, 6, 7, 8, 9, 10, 11, 12, 13, 14, 15, 16, 17, 18, 19, 20, 21, 22, 23, 24, 25, 26, 27, 28, 29}"
  by blast

lemma static_fault_check:
  assumes "0 \<le> w" "w < 2 ^ 32"
  shows "static_fault (decode_ins w pc) ar own = (case operand_check (config_of ar) w of
     Some code \<Rightarrow> code | None \<Rightarrow> if ownership_check own w then PIN_OWNERSHIP else 0)"
  unfolding static_fault_def operand_check_def ownership_check_def Let_def ins_fields [OF assms] op_defs
  by (cases "word_op w" rule: opcode_cases) (simp_all add: config_of_def shr_and_1)

section \<open>Known bits and pads\<close>

lemma known_bits_iff: "known_bits k v x \<longleftrightarrow> (\<forall>n < 8. bit k n \<longrightarrow> bit v n = bit x n)"
proof -
  have "(\<forall>pin \<in> {0..<8}. Q (nat pin)) \<longleftrightarrow> (\<forall>n < (8::nat). Q n)" for Q
    by (metis atLeastLessThan_iff int_nat_eq nat_int nat_less_iff of_nat_0_le_iff zless_nat_eq_int_zless of_nat_less_numeral_iff nat_numeral zless_nat_conj)
  then show ?thesis by (simp add: known_bits_def has_bit_iff)
qed

lemma known_all: "known_bits 0xFF (x AND 0xFF) x"
  by (auto simp: known_bits_iff and_255_take bit_simps)

definition knows :: "astate \<Rightarrow> engine \<Rightarrow> bool" where
  "knows st e \<longleftrightarrow> known_bits (as_vk st) (as_vb st) (e_values e) \<and> known_bits (as_dk st) (as_db st) (e_direction e)"

lemma drive_known:
  assumes "known_bits (as_vk st) (as_vb st) x" "b = None \<or> b = Some (v AND 1)"
  shows "known_bits (as_vk (drive_bit st pin b)) (as_vb (drive_bit st pin b)) ((x AND NOT (shl 1 pin)) OR shl (v AND 1) pin)"
proof -
  have one: "bit (v AND 1) n \<longleftrightarrow> n = 0 \<and> odd v" for n by (auto simp: bit_simps bit_1_iff and_1_take)
  show ?thesis
    using assms by (cases b) (auto simp: known_bits_iff drive_bit_def Let_def bit_simps bit_1_iff one even_iff_mod_2_eq_zero
      and_one_eq split: if_splits)
qed

lemma drive_bit_rest:
  "as_dk (drive_bit st pin b) = as_dk st" "as_db (drive_bit st pin b) = as_db st" "as_regs (drive_bit st pin b) = as_regs st"
  "as_pc (drive_bit st pin b) = as_pc st" "as_repeat (drive_bit st pin b) = as_repeat st"
  "as_limit (drive_bit st pin b) = as_limit st" "as_xpins (drive_bit st pin b) = as_xpins st"
  by (simp_all add: drive_bit_def Let_def split: option.splits)

lemma drive_knows: "knows st e \<Longrightarrow> b = None \<or> b = Some (v AND 1) \<Longrightarrow> knows (drive_bit st pin b) (drive e pin v)"
  using drive_known [of st "e_values e" b v pin] by (simp add: knows_def drive_def drive_bit_rest)

lemma choices_have: "known_bits k v x \<Longrightarrow> pin \<in> {0..<8} \<Longrightarrow> bit_at x pin \<in> set (bit_choices k v pin)"
  by (cases "has_bit k pin") (auto simp: bit_choices_def known_bits_def bit_at_of_bool has_bit_iff)

lemma foldl_or_keeps: "a AND m = m \<Longrightarrow> foldl (OR) a xs AND m = (m::int)"
proof (induction xs arbitrary: a)
  case (Cons x xs)
  have "(a OR x) AND m = m" using Cons.prems by (simp add: bit_eq_iff bit_simps) blast
  then show ?case using Cons.IH by simp
qed simp

lemma foldl_or_member: "m \<in> set xs \<Longrightarrow> foldl (OR) a xs AND m = (m::int)"
proof (induction xs arbitrary: a)
  case (Cons x xs)
  show ?case
  proof (cases "m = x")
    case True
    have "(a OR x) AND x = x" by (rule bit_eqI) (auto simp: bit_simps)
    then show ?thesis using foldl_or_keeps [of "a OR x" x xs] True by simp
  qed (use Cons in simp)
qed simp

lemma pad_in_mask:
  assumes "knows st e" "pin \<in> {0..<8}"
  shows "state_pad p st pin AND pad_now p e pin = pad_now p e pin"
  unfolding state_pad_def pad_mask_def
  by (rule foldl_or_member) (use choices_have assms in \<open>force simp: knows_def pad_now_pad1\<close>)

text \<open>An event that allows the pad change from one engine state to the next.\<close>

definition allows :: "tprogram \<Rightarrow> int \<Rightarrow> int \<Rightarrow> engine \<Rightarrow> engine \<Rightarrow> tevent \<Rightarrow> bool" where
  "allows p t pin e e' ev \<longleftrightarrow> ev_kind ev = Pad \<and> ev_t ev = t \<and> ev_pin ev = pin \<and>
     ev_before ev AND pad_now p e pin = pad_now p e pin \<and> ev_after ev AND pad_now p e' pin = pad_now p e' pin"

definition explained :: "tprogram \<Rightarrow> int \<Rightarrow> tevent list \<Rightarrow> engine \<Rightarrow> engine \<Rightarrow> bool" where
  "explained p t evs e e' \<longleftrightarrow> (\<forall>pin \<in> {0..<8}. owned_pin p pin \<and> pad_now p e pin \<noteq> pad_now p e' pin \<longrightarrow>
     (\<exists>ev \<in> set evs. allows p t pin e e' ev))"

lemma explained_same: "(\<And>pin. pin \<in> {0..<8} \<Longrightarrow> pad_now p e pin = pad_now p e' pin) \<Longrightarrow> explained p t evs e e'"
  by (simp add: explained_def)

lemma explained_more: "explained p t evs e e' \<Longrightarrow> set evs \<subseteq> set evs' \<Longrightarrow> explained p t evs' e e'"
  unfolding explained_def by blast

lemma explained_chain:
  assumes "explained p t evs e e1" "explained p t evs' e1 e2"
    "\<And>pin. pin \<in> {0..<8} \<Longrightarrow> pad_now p e pin = pad_now p e1 pin \<or> pad_now p e1 pin = pad_now p e2 pin"
  shows "explained p t (evs @ evs') e e2"
  unfolding explained_def
proof (intro ballI impI)
  fix pin :: int assume a: "pin \<in> {0..<8}" "owned_pin p pin \<and> pad_now p e pin \<noteq> pad_now p e2 pin"
  from assms(3) [OF a(1)] show "\<exists>ev \<in> set (evs @ evs'). allows p t pin e e2 ev"
  proof
    assume "pad_now p e pin = pad_now p e1 pin"
    then show ?thesis using assms(2) a unfolding explained_def allows_def by fastforce
  next
    assume "pad_now p e1 pin = pad_now p e2 pin"
    then show ?thesis using assms(1) a unfolding explained_def allows_def by fastforce
  qed
qed

lemma pad_events_explain:
  assumes "knows st e" "knows st' e'"
    and "if value then e_direction e' = e_direction e else e_values e' = e_values e"
    and "\<And>pin. pin \<in> {0..<8} \<Longrightarrow> \<not> has_bit pins pin \<Longrightarrow> pad_now p e' pin = pad_now p e pin"
  shows "explained p t (pad_events p t pc cause st st' pins value) e e'"
  unfolding explained_def
proof (intro ballI impI)
  fix pin :: int assume pin: "pin \<in> {0..<8}" and ch: "owned_pin p pin \<and> pad_now p e pin \<noteq> pad_now p e' pin"
  let ?ev = "pad_event t pin pc (state_pad p st pin) (state_pad p st' pin) cause"
  have "has_bit pins pin" using assms(4) [OF pin] ch by metis
  then have "shr (pins AND tp_ownership p) pin AND 1 \<noteq> 0"
    using ch unfolding has_bit_def [symmetric] owned_pin_def by (simp add: has_bit_iff bit_simps)
  moreover have "may_change (tp_open_drain p) st st' pin value"
  proof -
    have c: "bit_at (e_values e) pin \<in> set (bit_choices (as_vk st) (as_vb st) pin)"
      "bit_at (e_direction e) pin \<in> set (bit_choices (as_dk st) (as_db st) pin)"
      "bit_at (e_values e') pin \<in> set (bit_choices (as_vk st') (as_vb st') pin)"
      "bit_at (e_direction e') pin \<in> set (bit_choices (as_dk st') (as_db st') pin)"
      using assms(1,2) pin by (auto simp: knows_def intro: choices_have)
    show ?thesis
    proof (cases "value")
      case True
      then show ?thesis using c(1-3) ch assms(3) unfolding may_change_def Let_def list_ex_iff pad_now_pad1 by auto
    next
      case False
      then show ?thesis using c(1,2,4) ch assms(3) unfolding may_change_def Let_def list_ex_iff pad_now_pad1 by auto
    qed
  qed
  ultimately have "?ev \<in> set (pad_events p t pc cause st st' pins value)"
    using pin by (auto simp: pad_events_def)
  moreover have "allows p t pin e e' ?ev"
    using pad_in_mask [OF assms(1) pin] pad_in_mask [OF assms(2) pin] by (simp add: allows_def pad_event_def)
  ultimately show "\<exists>ev \<in> set (pad_events p t pc cause st st' pins value). allows p t pin e e' ev" by blast
qed

lemma release_explain:
  assumes "knows st e" "e_direction e' = 0"
  shows "explained p t (release_events p st t pc cause) e e'"
  unfolding explained_def
proof (intro ballI impI)
  fix pin :: int assume pin: "pin \<in> {0..<8}" and ch: "owned_pin p pin \<and> pad_now p e pin \<noteq> pad_now p e' pin"
  let ?ev = "pad_event t pin pc (state_pad p st pin) PZ cause"
  have z: "pad_now p e' pin = PZ" using assms(2) by (simp add: pad_now_pad1 pad1_def bit_at_def)
  have "state_pad p st pin \<noteq> PZ"
  proof
    assume "state_pad p st pin = PZ"
    then have "PZ AND pad_now p e pin = pad_now p e pin" using pad_in_mask [OF assms(1) pin, of p] by simp
    then have "pad_now p e pin = PZ" by (auto simp: pad_now_pad1 pad1_def PZ_def P0_def P1_def split: if_splits)
    with z ch show False by simp
  qed
  then have "?ev \<in> set (release_events p st t pc cause)" using pin ch by (auto simp: release_events_def)
  moreover have "allows p t pin e e' ?ev"
    using pad_in_mask [OF assms(1) pin] z by (simp add: allows_def pad_event_def)
  ultimately show "\<exists>ev \<in> set (release_events p st t pc cause). allows p t pin e e' ev" by blast
qed

end
