(* ===== verification/Timing_Exec.thy ===== *)
theory Timing_Exec
  imports Timing_Sound
begin

text \<open>
  One instruction of one cycle: what the abstract execution gives is what the engine does.
\<close>

section \<open>Registers\<close>

abbreviation W :: "tprogram \<Rightarrow> nat" where
  "W p \<equiv> nat (ar_width (tp_arch p))"

lemma width_16_32: "prog_ok p \<Longrightarrow> ar_width (tp_arch p) = 16 \<or> ar_width (tp_arch p) = 32"
  by (auto simp: prog_ok_def config_ok_def config_of_def)

lemma masks: "cfg_mask (config_of (tp_arch p)) = mask (W p)" "width_mask p = mask (W p)"
  by (simp_all add: cfg_mask_def width_mask_def config_of_def mask_eq_exp_minus_1 push_bit_eq_mult)

lemma cfg_width_of: "cfg_width (config_of ar) = ar_width ar"
  by (simp add: config_of_def)

lemma and_mask_fits: "0 \<le> x AND (mask n :: int)" "x AND mask n < 2 ^ n"
  by (simp_all add: and_mask_bounds)

lemma known_reg: "known_regs p as rs \<Longrightarrow> i < 4 \<Longrightarrow> 0 \<le> rs ! i \<and> rs ! i < 2 ^ W p \<and> (as ! i = None \<or> as ! i = Some (rs ! i))"
  by (simp add: known_regs_def)

lemma known_put:
  "known_regs p as rs \<Longrightarrow> 0 \<le> v \<Longrightarrow> v < 2 ^ W p \<Longrightarrow> x = None \<or> x = Some v \<Longrightarrow> known_regs p (as[i := x]) (rs[i := v])"
  by (cases "i < 4") (auto simp: known_regs_def nth_list_update)

lemma known_list: "known_regs p as rs \<Longrightarrow> x # drop 1 as = as[0 := x] \<and> [as ! 0, x, as ! 2, as ! 3] = as[1 := x]"
proof -
  assume "known_regs p as rs"
  then have "length as = Suc (Suc (Suc (Suc 0)))" by (simp add: known_regs_def)
  then obtain a b c d where "as = [a, b, c, d]" by (auto simp: length_Suc_conv)
  then show ?thesis by simp
qed

section \<open>The outcome of an instruction\<close>

definition scalars :: "astate \<Rightarrow> engine \<Rightarrow> bool" where
  "scalars st e \<longleftrightarrow> (as_repeat st = None \<or> as_repeat st = Some (e_repeat e)) \<and> e_limit e \<le> as_limit st \<and>
     e_pins e = as_xpins st \<and> small_pins (e_pins e)"

lemma represents_parts:
  "represents p st e \<longleftrightarrow> e_pc e = as_pc st \<and> known_regs p (as_regs st) (e_regs e) \<and> scalars st e \<and> knows st e"
  by (auto simp: represents_def scalars_def knows_def)

definition goes_to :: "tprogram \<Rightarrow> int \<Rightarrow> abs_effect \<Rightarrow> engine \<Rightarrow> engine \<Rightarrow> bool" where
  "goes_to p t ef e e' \<longleftrightarrow> issuing e' \<and> holds_program p e' \<and> explained p t (ae_ev ef) e e' \<and>
     (represents p ((ae_st ef)\<lparr>as_pc := ae_pc ef\<rparr>) e' \<or> (\<exists>f. ae_fork ef = Some f \<and> represents p f e'))"

lemma goes_toI:
  assumes "issuing e2" "holds_program p e2" "explained p t (ae_ev ef) e e2"
    "known_regs p (as_regs (ae_st ef)) (e_regs e2)" "scalars (ae_st ef) e2" "knows (ae_st ef) e2"
  shows "goes_to p t ef e (e2\<lparr>e_pc := ae_pc ef, e_completed := c\<rparr>)"
  using assms by (auto simp: goes_to_def represents_parts issuing_def holds_program_def explained_def scalars_def knows_def
    allows_def pad_now_pad1)

definition exec_case :: "tprogram \<Rightarrow> astate \<Rightarrow> engine \<Rightarrow> int \<Rightarrow> bool" where
  "exec_case p st e w \<longleftrightarrow> prog_ok p \<and> represents p st e \<and> issuing e \<and> holds_program p e \<and> 0 \<le> w \<and> w < 2 ^ 32 \<and>
     operand_check (config_of (tp_arch p)) w = None \<and> \<not> ownership_check (tp_ownership p) w"

definition ins_of :: "engine \<Rightarrow> int \<Rightarrow> ins" where
  "ins_of e w = decode_ins w (e_pc e)"

lemma ins_of_fields:
  assumes "exec_case p st e w"
  shows "in_op (ins_of e w) = word_op w" "in_a (ins_of e w) = word_a w" "in_b (ins_of e w) = word_b w"
    "in_c (ins_of e w) = word_c w" "in_imm24 (ins_of e w) = word_imm24 w" "in_imm16 (ins_of e w) = word_imm16 w"
    "in_pc (ins_of e w) = e_pc e"
  using assms ins_fields [of w "e_pc e"] by (simp_all add: ins_of_def exec_case_def)

lemma exec_caseD:
  assumes "exec_case p st e w"
  shows "e_pc e = as_pc st" "known_regs p (as_regs st) (e_regs e)" "scalars st e" "knows st e" "issuing e" "holds_program p e"
  using assms by (simp_all add: exec_case_def represents_parts)

abbreviation run_word :: "tprogram \<Rightarrow> int \<Rightarrow> int \<Rightarrow> engine \<Rightarrow> int \<Rightarrow> bool \<Rightarrow> bool \<Rightarrow> step_result" where
  "run_word p \<equiv> execute (config_of (tp_arch p))"

lemmas exec_unfold = abs_exec_def plain_effect_def execute_def retire_def quiet_def Let_def op_defs

text \<open>Instructions that leave registers and pads alone.\<close>

definition same_core :: "engine \<Rightarrow> engine \<Rightarrow> bool" where
  "same_core e e' \<longleftrightarrow> e_values e' = e_values e \<and> e_direction e' = e_direction e \<and> e_running e' = e_running e \<and>
     e_wait e' = e_wait e \<and> e_transfer e' = e_transfer e \<and> e_program e' = e_program e \<and> e_committed e' = e_committed e \<and>
     e_ownership e' = e_ownership e \<and> e_open_drain e' = e_open_drain e"

lemma same_coreD:
  assumes "same_core e e'"
  shows "issuing e' = issuing e" "holds_program p e' = holds_program p e" "knows st e' = knows st e" "pad_now p e' pin = pad_now p e pin"
    "explained p t evs e e'"
  using assms by (simp_all add: same_core_def issuing_def holds_program_def knows_def pad_now_pad1 explained_def fun_eq_iff)

lemma goes_to_core:
  assumes "exec_case p st e w" "same_core e e1"
    and "\<exists>st'. (st' = (ae_st ef)\<lparr>as_pc := ae_pc ef\<rparr> \<or> ae_fork ef = Some st') \<and> e_pc e1 = as_pc st' \<and>
       known_regs p (as_regs st') (e_regs e1) \<and> scalars st' e1 \<and> knows st' e"
  shows "goes_to p t ef e e1"
  using assms same_coreD [OF assms(2)] exec_caseD [OF assms(1)] unfolding goes_to_def represents_parts by blast

lemma goes_to_fork:
  assumes "exec_case p st e w" "same_core e e1" "ae_fork ef = Some st'" "e_pc e1 = as_pc st'"
    "known_regs p (as_regs st') (e_regs e1)" "scalars st' e1" "knows st' e"
  shows "goes_to p t ef e e1"
  using goes_to_core [OF assms(1,2)] assms(3-) by blast

lemma small_fields: "small_pins (x AND 7, shr x 3 AND 7, shr x 6 AND 7)"
  using and_range [of 7 8] by (simp add: small_pins_def)

lemma exec_control:
  assumes c: "exec_case p st e w" and op: "word_op w \<in> {0, 5, 10, 12, 14, 16}"
    and r: "run_word p s ts e w ta rs = Some (e1, pop, push, sig)"
  shows "\<exists>ef. abs_exec p st t (ins_of e w) = Some ef \<and> ae_dt ef = 1 \<and> goes_to p t ef e e1"
proof -
  note d = exec_caseD [OF c] and f = ins_of_fields [OF c]
  from op consider "word_op w = 0" | "word_op w = 5" | "word_op w = 10" | "word_op w = 12"
    | "word_op w = 14" | "word_op w = 16" by blast
  then show ?thesis
    by cases (use r d small_fields in \<open>auto simp: exec_unfold f scalars_def knows_def same_core_def
      intro!: goes_to_core [OF c]\<close>)
qed

lemma exec_loop:
  assumes c: "exec_case p st e w" and op: "word_op w = 11"
    and r: "run_word p s ts e w ta rs = Some (e1, pop, push, sig)"
  shows "\<exists>ef. abs_exec p st t (ins_of e w) = Some ef \<and> ae_dt ef = 1 \<and> goes_to p t ef e e1"
proof -
  note d = exec_caseD [OF c] and f = ins_of_fields [OF c]
  show ?thesis
  proof (cases "as_repeat st")
    case None
    show ?thesis
    proof (cases "e_repeat e = 0")
      case True
      then show ?thesis using None r d op by (auto simp: exec_unfold f scalars_def knows_def same_core_def intro!: goes_to_core [OF c])
    next
      case False
      then show ?thesis using None r d op by (auto simp: exec_unfold f scalars_def knows_def same_core_def intro!: goes_to_fork [OF c])
    qed
  next
    case (Some k)
    then have "k = e_repeat e" using d(3) by (auto simp: scalars_def)
    then show ?thesis using Some r d op by (auto simp: exec_unfold f scalars_def knows_def same_core_def
      split: if_splits intro!: goes_to_core [OF c])
  qed
qed

lemma operand_ok:
  assumes "exec_case p st e w"
  shows "word_op w = 26 \<Longrightarrow> word_a w < 4" "word_op w \<in> {8, 9} \<Longrightarrow> word_a w < 8" "word_op w \<in> {2, 3} \<Longrightarrow> shr (word_imm24 w) 8 = 0"
    "word_op w \<in> {18, 20, 21, 22, 23} \<Longrightarrow> word_a w < 4 \<and> word_b w < 4" "word_op w = 19 \<Longrightarrow> word_a w < 4"
    "word_op w \<in> {24, 25} \<Longrightarrow> word_a w < 4" "word_op w \<in> {27, 28} \<Longrightarrow> word_a w < 4"
    "0 \<le> word_a w" "0 \<le> word_b w" "0 \<le> word_c w"
    "word_op w = 8 \<Longrightarrow> has_bit (tp_ownership p) (word_a w)"
  using assms by (auto simp: exec_case_def operand_check_def ownership_check_def Let_def word_a_def word_b_def word_c_def split: if_splits)

lemma exec_jz:
  assumes c: "exec_case p st e w" and op: "word_op w = 26"
    and r: "run_word p s ts e w ta rs = Some (e1, pop, push, sig)"
  shows "\<exists>ef. abs_exec p st t (ins_of e w) = Some ef \<and> ae_dt ef = 1 \<and> goes_to p t ef e e1"
proof -
  note d = exec_caseD [OF c] and f = ins_of_fields [OF c]
  have a: "nat (word_a w) < 4" using operand_ok(1,8) [OF c] op by simp
  note k = known_reg [OF d(2) a]
  show ?thesis
  proof (cases "as_regs st ! nat (word_a w)")
    case None
    show ?thesis
    proof (cases "reg e (word_a w) = 0")
      case True
      have "known_regs p ((as_regs st)[nat (word_a w) := Some (reg e (word_a w))]) (e_regs e)"
        using known_put [OF d(2), of "e_regs e ! nat (word_a w)" "Some (e_regs e ! nat (word_a w))" "nat (word_a w)"] k
        by (simp add: reg_def list_update_id)
      then show ?thesis using True None r d op
        by (auto simp: exec_unfold f scalars_def knows_def same_core_def intro!: goes_to_fork [OF c])
    next
      case False
      then show ?thesis using None r d op
        by (auto simp: exec_unfold f scalars_def knows_def same_core_def intro!: goes_to_core [OF c])
    qed
  next
    case (Some v)
    then have "v = reg e (word_a w)" using k by (simp add: reg_def)
    then show ?thesis using Some r d op by (auto simp: exec_unfold f scalars_def knows_def same_core_def
      split: if_splits intro!: goes_to_core [OF c])
  qed
qed

lemma exec_strict_push:
  assumes c: "exec_case p st e w" and op: "word_op w = 7" "word_a w \<noteq> 0"
    and r: "run_word p s ts e w ta rs = Some (e1, pop, push, sig)"
  shows "\<exists>ef. abs_exec p st t (ins_of e w) = Some ef \<and> ae_dt ef = 1 \<and>
     (goes_to p t ef e e1 \<or> (e_fault e1 = 4 \<and> \<not> e_running e1 \<and> (t, as_pc st, 4) \<in> set (ae_cf ef)))"
proof -
  note d = exec_caseD [OF c] and f = ins_of_fields [OF c]
  show ?thesis
  proof (cases rs)
    case True
    then show ?thesis using r d op by (auto simp: exec_unfold exec_push_def f scalars_def knows_def same_core_def
      intro!: goes_to_core [OF c])
  next
    case False
    then show ?thesis using r op by (auto simp: exec_unfold exec_push_def fail_def f)
  qed
qed

section \<open>Pads and registers\<close>

lemma goes_to_pads:
  assumes "exec_case p st e w" "issuing e1" "holds_program p e1" "explained p t (ae_ev ef) e e1" "e_pc e1 = ae_pc ef"
    "known_regs p (as_regs (ae_st ef)) (e_regs e1)" "scalars (ae_st ef) e1" "knows (ae_st ef) e1"
  shows "goes_to p t ef e e1"
  using assms by (auto simp: goes_to_def represents_parts scalars_def knows_def)

lemma has_255: "pin \<in> {0..<8} \<Longrightarrow> has_bit 0xFF pin"
  unfolding has_bit_iff mask_numerals(6) bit_mask_iff by auto

lemma exec_set_dir:
  assumes c: "exec_case p st e w" and op: "word_op w \<in> {2, 3}"
    and r: "run_word p s ts e w ta rs = Some (e1, pop, push, sig)"
  shows "\<exists>ef. abs_exec p st t (ins_of e w) = Some ef \<and> ae_dt ef = 1 \<and> goes_to p t ef e e1"
proof -
  note d = exec_caseD [OF c] and f = ins_of_fields [OF c]
  from op consider "word_op w = 2" | "word_op w = 3" by blast
  then show ?thesis
  proof cases
    case 1
    let ?new = "st\<lparr>as_vk := 0xFF, as_vb := word_imm24 w AND 0xFF\<rparr>"
    have e1: "e1 = e\<lparr>e_values := word_imm24 w, e_pc := e_pc e + 1, e_completed := (e_completed e + 1) AND 0xFFFFFFFF\<rparr>"
      using r 1 by (simp add: exec_unfold)
    have k: "knows ?new e1" using d(4) known_all by (simp add: knows_def e1)
    have "explained p t (pad_events p t (as_pc st) ''SET'' st ?new 0xFF True) e e1"
      by (rule pad_events_explain [OF d(4) k]) (simp_all add: e1 has_255)
    then show ?thesis using 1 d k by (auto simp: exec_unfold f e1 scalars_def issuing_def holds_program_def intro!: goes_to_pads [OF c])
  next
    case 2
    let ?new = "st\<lparr>as_dk := 0xFF, as_db := word_imm24 w AND 0xFF\<rparr>"
    have e1: "e1 = e\<lparr>e_direction := word_imm24 w, e_pc := e_pc e + 1, e_completed := (e_completed e + 1) AND 0xFFFFFFFF\<rparr>"
      using r 2 by (simp add: exec_unfold)
    have k: "knows ?new e1" using d(4) known_all by (simp add: knows_def e1)
    have "explained p t (pad_events p t (as_pc st) ''DIR'' st ?new 0xFF False) e e1"
      by (rule pad_events_explain [OF d(4) k]) (simp_all add: e1 has_255)
    then show ?thesis using 2 d k by (auto simp: exec_unfold f e1 scalars_def issuing_def holds_program_def intro!: goes_to_pads [OF c])
  qed
qed

lemma present_known:
  assumes "tx = None \<or> tx = Some (reg e 0)"
  shows "present_bit tx msb (ar_width (tp_arch p)) = None \<or>
     present_bit tx msb (ar_width (tp_arch p)) = Some (out_bit (config_of (tp_arch p)) e msb AND 1)"
  using assms by (auto simp: present_bit_def out_bit_def cfg_width_of)

lemma shift_known:
  assumes "tx = None \<or> tx = Some (reg e 0)"
  shows "shift_reg tx msb (width_mask p) = None \<or>
     shift_reg tx msb (width_mask p) = Some (shifted_tx (config_of (tp_arch p)) e msb)"
  using assms by (auto simp: shift_reg_def shifted_tx_def masks)

lemma shifted_fits: "0 \<le> shifted_tx (config_of (tp_arch p)) e msb" "shifted_tx (config_of (tp_arch p)) e msb < 2 ^ W p"
  by (simp_all add: shifted_tx_def masks and_mask_fits)

text \<open>A drive changes the pad of its pin only.\<close>

lemma drive_pads: "pin \<in> {0..<8} \<Longrightarrow> 0 \<le> q \<Longrightarrow> pin \<noteq> q \<Longrightarrow> pad_now p (drive e q v) pin = pad_now p e pin"
proof -
  assume a: "pin \<in> {0..<8}" "0 \<le> q" "pin \<noteq> q"
  then have n: "nat pin \<noteq> nat q" by auto
  have "bit (v AND 1) k \<longleftrightarrow> k = 0 \<and> odd v" for k by (auto simp: bit_simps bit_1_iff and_1_take)
  then have "bit (e_values (drive e q v)) (nat pin) = bit (e_values e) (nat pin)"
    using n by (auto simp: drive_def bit_simps bit_1_iff)
  then show ?thesis by (simp add: pad_now_pad1 bit_at_of_bool drive_def)
qed

lemma has_shl: "pin \<in> {0..<8} \<Longrightarrow> 0 \<le> q \<Longrightarrow> \<not> has_bit (shl 1 q) pin \<Longrightarrow> pin \<noteq> q"
  by (auto simp: has_bit_iff bit_simps bit_1_iff)

lemma drive_explained:
  assumes "knows st e" "0 \<le> q" "b = None \<or> b = Some (v AND 1)"
  shows "explained p t (pad_events p t pc cause st (drive_bit st q b) (shl 1 q) True) e (drive e q v)"
  by (rule pad_events_explain [OF assms(1) drive_knows [OF assms(1,3)]])
    (use drive_pads has_shl assms(2) in \<open>auto simp: drive_def\<close>)

lemma exec_drive:
  assumes c: "exec_case p st e w" and op: "word_op w = 8"
    and r: "run_word p s ts e w ta rs = Some (e1, pop, push, sig)"
  shows "\<exists>ef. abs_exec p st t (ins_of e w) = Some ef \<and> ae_dt ef = 1 \<and> goes_to p t ef e e1"
proof -
  note d = exec_caseD [OF c] and f = ins_of_fields [OF c]
  let ?cfg = "config_of (tp_arch p)" and ?msb = "word_c w \<noteq> 0" and ?a = "word_a w"
  let ?b = "present_bit (as_regs st ! 0) ?msb (ar_width (tp_arch p))" and ?x = "shift_reg (as_regs st ! 0) ?msb (width_mask p)"
  let ?e2 = "drive e ?a (out_bit ?cfg e ?msb)"
  let ?new = "(drive_bit st ?a ?b)\<lparr>as_regs := ?x # drop 1 (as_regs st)\<rparr>"
  have tx: "as_regs st ! 0 = None \<or> as_regs st ! 0 = Some (reg e 0)" using known_reg [OF d(2), of 0] by (simp add: reg_def)
  have sh: "shifted_tx ?cfg ?e2 ?msb = shifted_tx ?cfg e ?msb" by (simp add: shifted_tx_def reg_def drive_def)
  have so: "shift_out ?cfg e ?a ?msb = set_reg ?e2 0 (shifted_tx ?cfg e ?msb)" by (simp only: shift_out_def Let_def sh)
  have "run_word p s ts e w ta rs = retire (shift_out ?cfg e ?a ?msb) (e_pc e + 1) False False 0"
    using op by (simp add: execute_def Let_def)
  then have e1: "e1 = (set_reg ?e2 0 (shifted_tx ?cfg e ?msb))\<lparr>e_pc := e_pc e + 1, e_completed := (e_completed e + 1) AND 0xFFFFFFFF\<rparr>"
    using r unfolding so retire_def by (auto simp: set_reg_def drive_def)
  have rg: "known_regs p (as_regs ?new) (e_regs e1)"
    using known_put [OF d(2) shifted_fits shift_known [OF tx], where i = 0] known_list [OF d(2), of ?x]
    by (simp add: e1 set_reg_def drive_def)
  have k2: "knows (drive_bit st ?a ?b) ?e2" by (rule drive_knows [OF d(4) present_known [OF tx]])
  then have k: "knows ?new e1" by (simp add: knows_def e1 set_reg_def)
  have ex: "explained p t (pad_events p t (as_pc st) ''OUT'' st ?new (shl 1 ?a) True) e e1"
    by (rule pad_events_explain [OF d(4) k])
      (use drive_pads has_shl operand_ok(8) [OF c] in \<open>auto simp: e1 set_reg_def drive_def pad_now_pad1\<close>)
  have sc: "scalars ?new e1" using d(3) by (auto simp: scalars_def e1 set_reg_def drive_def drive_bit_rest)
  have "issuing e1" "holds_program p e1" using d(5,6) by (simp_all add: e1 set_reg_def drive_def issuing_def holds_program_def)
  then show ?thesis using op ex rg k sc d(1)
    by (auto simp: exec_unfold f abs_shift_out_def e1 intro!: goes_to_pads [OF c])
qed

lemma goes_to_regs:
  assumes c: "exec_case p st e w" and v: "0 \<le> v" "v < 2 ^ W p" "x = None \<or> x = Some v"
    and "ae_fork ef = None" "ae_pc ef = as_pc st + 1" "ae_st ef = st\<lparr>as_regs := (as_regs st)[nat r := x]\<rparr>"
  shows "goes_to p t ef e ((set_reg e r v)\<lparr>e_pc := as_pc st + 1, e_completed := n\<rparr>)"
  using known_put [OF exec_caseD(2) [OF c] v] exec_caseD [OF c] assms(5-)
  by (auto simp: set_reg_def scalars_def knows_def same_core_def intro!: goes_to_core [OF c])

lemma exec_sample:
  assumes c: "exec_case p st e w" and op: "word_op w = 9"
    and r: "run_word p s ts e w ta rs = Some (e1, pop, push, sig)"
  shows "\<exists>ef. abs_exec p st t (ins_of e w) = Some ef \<and> ae_dt ef = 1 \<and> goes_to p t ef e e1"
proof -
  note d = exec_caseD [OF c] and f = ins_of_fields [OF c]
  obtain v where e1: "e1 = (set_reg e 1 (v AND mask (W p)))\<lparr>e_pc := e_pc e + 1, e_completed := (e_completed e + 1) AND 0xFFFFFFFF\<rparr>"
    using r op by (auto simp: exec_unfold shift_in_def masks set_reg_def)
  show ?thesis using op d(1) known_list [OF d(2), of None]
    by (auto simp: exec_unfold f e1 intro!: goes_to_regs [OF c, where x = None] and_mask_fits)
qed

lemma or_full: "0 \<le> v \<Longrightarrow> v < 2 ^ n \<Longrightarrow> v OR mask n = (mask n :: int)" "0 \<le> v \<Longrightarrow> v < 2 ^ n \<Longrightarrow> mask n OR v = (mask n :: int)"
proof -
  assume "0 \<le> v" "v < 2 ^ n"
  then have "take_bit n v = v" by (simp add: take_bit_int_eq_self)
  then have "bit v k \<Longrightarrow> k < n" for k using bit_take_bit_iff [of n v k] by simp
  then show "v OR mask n = mask n" "mask n OR v = mask n" by (auto intro!: bit_eqI simp: bit_or_iff bit_mask_iff)
qed

lemma fits_ops:
  assumes "0 \<le> x" "x < 2 ^ n" "0 \<le> y" "(y::int) < 2 ^ n"
  shows "0 \<le> x XOR y" "x XOR y < 2 ^ n" "0 \<le> x AND y" "x AND y < 2 ^ n" "0 \<le> x OR y" "x OR y < 2 ^ n"
  using xor_lt_pow [OF assms] or_lt_pow [OF assms] and_range [OF assms(3,4), of x] by simp_all

lemma mask_fits: "0 \<le> (mask n :: int)" "(mask n :: int) < 2 ^ n"
  by (simp_all add: mask_eq_exp_minus_1)

lemma shr_fits: "0 \<le> x \<Longrightarrow> x < 2 ^ n \<Longrightarrow> 0 \<le> shr x k \<and> shr x k < (2 ^ n :: int)"
proof -
  assume x: "0 \<le> x" "x < 2 ^ n"
  then have "shr x k \<le> x" using zdiv_mono2 [of x 1 "2 ^ nat k"] by (simp add: drop_bit_eq_div)
  with x show ?thesis by simp
qed

text \<open>The value an instruction of the ALU group writes, and what the analyser knows of it.\<close>

definition alu_value :: "tprogram \<Rightarrow> int \<Rightarrow> engine \<Rightarrow> int \<Rightarrow> int" where
  "alu_value p ts e w = reg (exec_alu (config_of (tp_arch p)) ts e (word_op w) (word_a w) (word_b w) (word_c w) (word_imm16 w)) (word_a w)"

lemma alu_known:
  assumes c: "exec_case p st e w" and op: "word_op w \<in> {18, 19, 20, 21, 22, 23, 24, 25, 27, 28}"
  shows "\<exists>v x. exec_alu (config_of (tp_arch p)) ts e (word_op w) (word_a w) (word_b w) (word_c w) (word_imm16 w) = set_reg e (word_a w) v \<and>
     abs_alu (ins_of e w) (as_regs st) (width_mask p) = (as_regs st)[nat (word_a w) := x] \<and>
     0 \<le> v \<and> v < 2 ^ W p \<and> (x = None \<or> x = Some v)"
proof -
  note d = exec_caseD [OF c] and f = ins_of_fields [OF c] and ok = operand_ok [OF c]
  have wd: "W p = 16 \<or> W p = 32" using c width_16_32 [of p] by (auto simp: exec_case_def)
  let ?x = "reg e (word_a w)" and ?y = "reg e (word_b w)"
  have a: "nat (word_a w) < 4" using ok op by auto
  have x: "0 \<le> ?x" "?x < 2 ^ W p" "as_regs st ! nat (word_a w) = None \<or> as_regs st ! nat (word_a w) = Some ?x"
    using known_reg [OF d(2) a] by (simp_all add: reg_def)
  have y: "word_b w < 4 \<and> 0 \<le> ?y \<and> ?y < 2 ^ W p \<and> (as_regs st ! nat (word_b w) = None \<or> as_regs st ! nat (word_b w) = Some ?y)"
    if "word_op w \<in> {18, 20, 21, 22, 23}"
  proof -
    have b: "word_b w < 4" "nat (word_b w) < 4" using ok(4) [OF that] ok(9) by auto
    show ?thesis using known_reg [OF d(2) b(2)] b(1) by (simp add: reg_def)
  qed
  have i16: "0 \<le> word_imm16 w" "word_imm16 w < 2 ^ W p"
  proof -
    have r: "0 \<le> word_imm16 w" "word_imm16 w < 2 ^ 16" unfolding word_imm16_def and_65535_take by (simp_all only: take_bit_range)
    moreover have "(2::int) ^ 16 \<le> 2 ^ W p" using wd by auto
    ultimately show "0 \<le> word_imm16 w" "word_imm16 w < 2 ^ W p" by linarith+
  qed
  note u = exec_alu_def abs_alu_def Let_def f masks op_defs lift2_def
  from op consider "word_op w = 18" | "word_op w = 19" | "word_op w = 20" | "word_op w = 21" | "word_op w = 22" | "word_op w = 23"
    | "word_op w = 24" | "word_op w = 25" | "word_op w = 27" | "word_op w = 28" by blast
  then show ?thesis
  proof cases
    case 1
    then show ?thesis using y by (intro exI [of _ ?y] exI [of _ "as_regs st ! nat (word_b w)"]) (simp add: u)
  next
    case 2
    then show ?thesis using i16 by (intro exI [of _ "word_imm16 w"] exI [of _ "Some (word_imm16 w)"]) (simp add: u)
  next
    case 3
    show ?thesis using 3 x y
      by (intro exI [of _ "(?x + ?y) AND mask (W p)"] exI conjI) (auto simp: u and_mask_fits split: option.splits)
  next
    case 4
    show ?thesis using 4 x y fits_ops [of ?x "W p" ?y]
      by (intro exI [of _ "?x XOR ?y"] exI [of _ "if word_a w = word_b w then Some 0
          else lift2 (XOR) (as_regs st ! nat (word_a w)) (as_regs st ! nat (word_b w))"]) (auto simp: u split: option.splits)
  next
    case 5
    show ?thesis using 5 x y fits_ops [of ?x "W p" ?y]
      by (intro exI [of _ "?x AND ?y"] exI [of _ "if as_regs st ! nat (word_a w) = Some 0 \<or> as_regs st ! nat (word_b w) = Some 0 then Some 0
          else lift2 (AND) (as_regs st ! nat (word_a w)) (as_regs st ! nat (word_b w))"]) (auto simp: u split: option.splits)
  next
    case 6
    let ?A = "as_regs st ! nat (word_a w)" and ?B = "as_regs st ! nat (word_b w)"
    let ?v = "if ?A = Some (mask (W p)) \<or> ?B = Some (mask (W p)) then Some (mask (W p)) else lift2 (OR) ?A ?B"
    have full: "?x = mask (W p) \<Longrightarrow> ?x OR ?y = mask (W p)" "?y = mask (W p) \<Longrightarrow> ?x OR ?y = mask (W p)"
      using or_full [of ?x "W p"] or_full [of ?y "W p"] x y 6 by auto
    have v: "?v = None \<or> ?v = Some (?x OR ?y)"
    proof (cases "?A = Some (mask (W p)) \<or> ?B = Some (mask (W p))")
      case True
      then have "?x OR ?y = mask (W p)" using x(3) y 6 full by auto
      then show ?thesis using True by simp
    next
      case False
      then show ?thesis using x(3) y 6 by (auto simp: lift2_def)
    qed
    have "abs_alu (ins_of e w) (as_regs st) (width_mask p) = (as_regs st)[nat (word_a w) := ?v]"
      using 6 y by (simp add: abs_alu_def Let_def f masks op_defs)
    moreover have "exec_alu (config_of (tp_arch p)) ts e (word_op w) (word_a w) (word_b w) (word_c w) (word_imm16 w)
        = set_reg e (word_a w) (?x OR ?y)" using 6 by (simp add: exec_alu_def)
    ultimately show ?thesis using v fits_ops(5,6) [of ?x "W p" ?y] x(1,2) y 6 by blast
  next
    case 7
    show ?thesis using 7 x by (intro exI [of _ "shl ?x (word_c w) AND mask (W p)"] exI conjI) (auto simp: u and_mask_fits)
  next
    case 8
    show ?thesis using 8 x shr_fits [of ?x "W p" "word_c w"] by (intro exI [of _ "shr ?x (word_c w)"] exI conjI) (auto simp: u)
  next
    case 9
    show ?thesis using 9 x fits_ops [of ?x "W p" "mask (W p)"] mask_fits [of "W p"]
      by (intro exI [of _ "?x XOR mask (W p)"] exI conjI) (auto simp: u)
  next
    case 10
    then show ?thesis by (intro exI [of _ "ts AND mask (W p)"] exI conjI) (auto simp: u and_mask_fits)
  qed
qed

lemma exec_alu_op:
  assumes c: "exec_case p st e w" and op: "word_op w \<in> {18, 19, 20, 21, 22, 23, 24, 25, 27, 28}"
    and r: "run_word p s ts e w ta rs = Some (e1, pop, push, sig)"
  shows "\<exists>ef. abs_exec p st t (ins_of e w) = Some ef \<and> ae_dt ef = 1 \<and> goes_to p t ef e e1"
proof -
  note d = exec_caseD [OF c] and f = ins_of_fields [OF c]
  obtain v x where v: "exec_alu (config_of (tp_arch p)) ts e (word_op w) (word_a w) (word_b w) (word_c w) (word_imm16 w) = set_reg e (word_a w) v"
    "abs_alu (ins_of e w) (as_regs st) (width_mask p) = (as_regs st)[nat (word_a w) := x]" "0 \<le> v" "v < 2 ^ W p" "x = None \<or> x = Some v"
    using alu_known [OF c op] by blast
  have ne: "word_op w \<notin> {0, 1, 2, 3, 4, 5, 6, 7, 8, 9, 10, 11, 12, 13, 14, 15, 16, 17, 26}" using op by auto
  have "run_word p s ts e w ta rs = retire (set_reg e (word_a w) v) (e_pc e + 1) False False 0"
    using op ne by (simp add: execute_def Let_def v(1))
  then have e1: "e1 = (set_reg e (word_a w) v)\<lparr>e_pc := as_pc st + 1, e_completed := (e_completed e + 1) AND 0xFFFFFFFF\<rparr>"
    using r d(1) by (auto simp: retire_def set_reg_def)
  have "abs_exec p st t (ins_of e w) = Some ((plain_effect st (st\<lparr>as_regs := (as_regs st)[nat (word_a w) := x]\<rparr>))
      \<lparr>ae_ev := if word_op w = TIME then [new_event t Inter (-1) (as_pc st) ''time''] else []\<rparr>)"
    using op ne by (simp add: abs_exec_def Let_def f v(2) op_defs)
  then show ?thesis using goes_to_regs [OF c v(3-5)] by (auto simp: plain_effect_def e1)
qed

end
