(* ===== verification/Timing_Xfer.thy ===== *)
theory Timing_Xfer
  imports Timing_Exec
begin

text \<open>
  The instructions that take more than one cycle: \<open>WAIT\<close> and the fused transfer \<open>XFER\<close>, whose pin
  transitions happen every half period.
\<close>

section \<open>Runs\<close>

definition run_of :: "tprogram \<Rightarrow> (nat \<Rightarrow> engine) \<Rightarrow> bool" where
  "run_of p es \<longleftrightarrow> (\<forall>k. moves (config_of (tp_arch p)) (es k) (es (Suc k)))"

text \<open>Waiting.\<close>

lemma wait_cycle:
  assumes "moves cfg e e'" "e_running e" "e_wait e \<noteq> 0"
  shows "e_running e' \<and> e_wait e' = e_wait e - 1 \<and> e_transfer e' = e_transfer e \<and> holds_program p e' = holds_program p e \<and>
     represents p st e' = represents p st e \<and> pad_now p e' = pad_now p e"
proof -
  obtain e1 where e1: "e1 = e\<lparr>e_stalled := False, e_wait := e_wait e - 1\<rparr>" "touched e1 e'"
    using assms by (auto simp: moves_def step_def Let_def quiet_def)
  show ?thesis unfolding touched_simps [OF e1(2)] using assms(2)
    by (simp add: e1(1) holds_program_def represents_def pad_now_pad1 fun_eq_iff)
qed

lemma wait_run:
  assumes "run_of p es" "e_running (es k)" "e_transfer (es k) = None" "e_wait (es k) = int m"
  shows "(\<forall>j < m. e_running (es (k + j)) \<and> \<not> issuing (es (k + j)) \<and> pad_now p (es (k + Suc j)) = pad_now p (es (k + j))) \<and>
     issuing (es (k + m)) \<and> holds_program p (es (k + m)) = holds_program p (es k) \<and> represents p st (es (k + m)) = represents p st (es k)"
  using assms(2-)
proof (induction m arbitrary: k)
  case 0
  then show ?case by (simp add: issuing_def)
next
  case (Suc m)
  have "moves (config_of (tp_arch p)) (es k) (es (Suc k))" using assms(1) by (simp add: run_of_def)
  note w = wait_cycle [OF this Suc.prems(1)]
  have nx: "e_running (es (Suc k))" "e_transfer (es (Suc k)) = None" "e_wait (es (Suc k)) = int m"
    using w Suc.prems by auto
  have f: "\<forall>j < Suc m. e_running (es (k + j)) \<and> \<not> issuing (es (k + j)) \<and> pad_now p (es (k + Suc j)) = pad_now p (es (k + j))"
  proof (intro allI impI)
    fix j assume "j < Suc m"
    then show "e_running (es (k + j)) \<and> \<not> issuing (es (k + j)) \<and> pad_now p (es (k + Suc j)) = pad_now p (es (k + j))"
      using Suc.IH [OF nx] w Suc.prems by (cases j) (auto simp: issuing_def)
  qed
  show ?case using f Suc.IH [OF nx] w Suc.prems by simp
qed

section \<open>The data pin\<close>

definition eng_data :: "config \<Rightarrow> transfer \<Rightarrow> int \<Rightarrow> engine \<Rightarrow> engine" where
  "eng_data c t txp e =
     (let active = (t_transitions t mod 2 = 0); cpha = has_bit (t_flags t) 1; msb = has_bit (t_flags t) 2; drv = has_bit (t_flags t) 3 in
      if drv \<and> cpha \<and> active then shift_out c e txp msb
      else if drv \<and> \<not> cpha \<and> \<not> active then
        (let f = set_reg e 0 (shifted_tx c e msb) in
         if t_transitions t < 2 * t_bits t - 1 then drive f txp (out_bit c f msb) else f)
      else e)"

definition eng_sample :: "config \<Rightarrow> int \<Rightarrow> transfer \<Rightarrow> int \<Rightarrow> engine \<Rightarrow> engine" where
  "eng_sample c sync2 t rxp e =
     (let active = (t_transitions t mod 2 = 0); cpha = has_bit (t_flags t) 1 in
      if has_bit (t_flags t) 4 \<and> (if cpha then \<not> active else active) then shift_in c sync2 e rxp (has_bit (t_flags t) 2) else e)"

lemma transfer_edge_parts:
  assumes "e_pins e = (clock, txp, rxp)"
  shows "transfer_edge c sync2 e t =
     (let e4 = eng_sample c sync2 t rxp (eng_data c t txp (drive e clock (of_bool (has_bit (t_flags t) 0 \<noteq> (t_transitions t mod 2 = 0)))));
          k = t_transitions t + 1
      in if k = 2 * t_bits t
         then e4\<lparr>e_transfer := None, e_pc := e_pc e4 + 1, e_completed := (e_completed e4 + 1) AND 0xFFFFFFFF\<rparr>
         else e4\<lparr>e_transfer := Some (t\<lparr>t_transitions := k, t_remaining := t_half_period t\<rparr>)\<rparr>)"
  by (cases "has_bit (t_flags t) 1"; cases "has_bit (t_flags t) 3"; cases "t_transitions t mod 2 = 0")
    (simp_all only: transfer_edge_def assms prod.case Let_def eng_data_def eng_sample_def if_True if_False simp_thms)

text \<open>What stays of an engine whose values and registers change.\<close>

definition same_but :: "engine \<Rightarrow> engine \<Rightarrow> bool" where
  "same_but e e' \<longleftrightarrow> (\<exists>v r. e' = e\<lparr>e_values := v, e_regs := r\<rparr>)"

lemma same_but_trans: "same_but e e1 \<Longrightarrow> same_but e1 e2 \<Longrightarrow> same_but e e2"
  unfolding same_but_def by fastforce

lemma same_but_drive: "same_but e (drive e q v)"
  by (cases e) (auto simp: same_but_def drive_def)

lemma same_but_reg: "same_but e (set_reg e q v)"
  by (cases e) (auto simp: same_but_def set_reg_def)

lemma same_but_simps:
  assumes "same_but e e'"
  shows "e_pc e' = e_pc e" "e_running e' = e_running e" "e_wait e' = e_wait e" "e_transfer e' = e_transfer e"
    "holds_program p e' = holds_program p e" "scalars st e' = scalars st e" "e_pins e' = e_pins e" "e_direction e' = e_direction e"
  using assms by (auto simp: same_but_def holds_program_def scalars_def)

text \<open>What a change of values and registers may do within a cycle: pads change on the pins \<open>qs\<close> only.\<close>

definition stage :: "tprogram \<Rightarrow> int \<Rightarrow> int set \<Rightarrow> tevent list \<Rightarrow> engine \<Rightarrow> engine \<Rightarrow> bool" where
  "stage p now qs evs e e' \<longleftrightarrow> same_but e e' \<and> explained p now evs e e' \<and>
     (\<forall>pin \<in> {0..<8}. pin \<notin> qs \<longrightarrow> pad_now p e' pin = pad_now p e pin)"

lemma stage_refl: "stage p now qs evs e e"
proof -
  have "same_but e e" by (cases e) (auto simp: same_but_def)
  then show ?thesis by (simp add: stage_def explained_def)
qed

lemma stage_more: "stage p now qs evs e e' \<Longrightarrow> set evs \<subseteq> set evs' \<Longrightarrow> stage p now qs evs' e e'"
  unfolding stage_def using explained_more by blast

lemma stage_trans:
  assumes "stage p now qs evs e e1" "stage p now rs evs' e1 e2" "qs \<inter> rs = {}"
  shows "stage p now (qs \<union> rs) (evs @ evs') e e2"
proof -
  have one: "pad_now p e pin = pad_now p e1 pin \<or> pad_now p e1 pin = pad_now p e2 pin" if pin: "pin \<in> {0..<8}" for pin
  proof (cases "pin \<in> qs")
    case True
    then have "pin \<notin> rs" using assms(3) by blast
    then show ?thesis using assms(2) pin unfolding stage_def by metis
  next
    case False
    then show ?thesis using assms(1) pin unfolding stage_def by metis
  qed
  have "explained p now (evs @ evs') e e2"
    by (rule explained_chain [of p now evs e e1 evs' e2, OF _ _ one]) (use assms in \<open>simp_all add: stage_def\<close>)
  then show ?thesis using assms same_but_trans by (auto simp: stage_def)
qed

lemma stage_regs: "same_but e e' \<Longrightarrow> e_values e' = e_values e \<Longrightarrow> stage p now qs evs e e'"
  using same_but_simps(8) [of e e'] by (simp add: stage_def explained_def pad_now_pad1)

lemma stage_set_reg: "stage p now qs evs e (set_reg e r v)"
  by (rule stage_regs [OF same_but_reg]) (simp add: set_reg_def)

lemma stage_drive:
  assumes "knows st e" "0 \<le> q" "b = None \<or> b = Some (v AND 1)"
  shows "stage p now {q} (pad_events p now pc cause st (drive_bit st q b) (shl 1 q) True) e (drive e q v)"
  using drive_explained [OF assms] drive_pads [OF _ assms(2)] same_but_drive by (simp add: stage_def)

definition tx_known :: "tprogram \<Rightarrow> int option \<Rightarrow> engine \<Rightarrow> bool" where
  "tx_known p tx e \<longleftrightarrow> length (e_regs e) = 4 \<and> 0 \<le> reg e 0 \<and> reg e 0 < 2 ^ W p \<and> (tx = None \<or> tx = Some (reg e 0))"

lemma tx_known_drive: "tx_known p tx (drive e q v) = tx_known p tx e"
  by (simp add: tx_known_def drive_def reg_def)

lemma tx_known_shift:
  assumes "tx_known p tx e"
  shows "tx_known p (shift_reg tx msb (width_mask p)) (set_reg e 0 (shifted_tx (config_of (tp_arch p)) e msb))"
  using assms shifted_fits [of p e msb] shift_known [of tx e msb p] by (auto simp: tx_known_def set_reg_def reg_def)

lemma knows_reg: "knows st (set_reg e r v) = knows st e"
  by (simp add: knows_def set_reg_def)

lemma reg_rest:
  "drop 1 (e_regs (set_reg e 0 v)) = drop 1 (e_regs e)" "scalars st (set_reg e r v) = scalars st e"
  by (simp_all add: set_reg_def scalars_def)

lemma data_sound:
  assumes "knows cur e" "tx_known p tx e" "0 \<le> txp" "t_flags t = in_c i" "t_transitions t = k" "t_bits t = in_a i"
    and "xfer_data p i now txp k cur tx = (cur', tx', evs)"
    and "e' = eng_data (config_of (tp_arch p)) t txp e"
  shows "knows cur' e' \<and> tx_known p tx' e' \<and> stage p now (if has_bit (in_c i) 3 then {txp} else {}) evs e e' \<and> drop 1 (e_regs e') = drop 1 (e_regs e) \<and>
     as_regs cur' = as_regs cur \<and> as_pc cur' = as_pc cur \<and>
     as_xpins cur' = as_xpins cur \<and> as_limit cur' = as_limit cur \<and> as_repeat cur' = as_repeat cur"
proof -
  let ?c = "config_of (tp_arch p)" and ?msb = "has_bit (in_c i) 2" and ?w = "ar_width (tp_arch p)"
  have tk: "tx = None \<or> tx = Some (reg e 0)" using assms(2) by (simp add: tx_known_def)
  note a = assms(4-6)
  consider (lead) "has_bit (in_c i) 3" "has_bit (in_c i) 1" "k mod 2 = 0"
    | (trail) "has_bit (in_c i) 3" "\<not> has_bit (in_c i) 1" "k mod 2 \<noteq> 0"
    | (none) "\<not> (has_bit (in_c i) 3 \<and> has_bit (in_c i) 1 \<and> k mod 2 = 0)"
        "\<not> (has_bit (in_c i) 3 \<and> \<not> has_bit (in_c i) 1 \<and> k mod 2 \<noteq> 0)" by argo
  then show ?thesis
  proof cases
    case lead
    let ?d = "drive e txp (out_bit ?c e ?msb)"
    have sx: "shifted_tx ?c ?d ?msb = shifted_tx ?c e ?msb" by (simp add: shifted_tx_def reg_def drive_def)
    have e': "e' = set_reg ?d 0 (shifted_tx ?c ?d ?msb)"
      using lead by (simp add: assms(8) eng_data_def a shift_out_def Let_def)
    have m: "cur' = drive_bit cur txp (present_bit tx ?msb ?w)" "tx' = shift_reg tx ?msb (width_mask p)"
      "evs = pad_events p now (in_pc i) ''XFER-data'' cur cur' (shl 1 txp) True"
      using assms(7) lead by (auto simp: xfer_data_def abs_shift_out_def drive_data_def Let_def)
    have "stage p now {txp} evs e ?d" unfolding m(3,1) by (rule stage_drive [OF assms(1,3) present_known [OF tk]])
    moreover have "stage p now {} [] ?d e'" unfolding e' by (rule stage_set_reg)
    ultimately have "stage p now ({txp} \<union> {}) (evs @ []) e e'" by (rule stage_trans) simp
    moreover have "knows cur' e'" unfolding e' knows_reg m(1) by (rule drive_knows [OF assms(1) present_known [OF tk]])
    moreover have "tx_known p tx' e'" unfolding e' m(2) by (rule tx_known_shift) (simp add: tx_known_drive assms(2))
    ultimately show ?thesis using lead by (simp add: m(1) drive_bit_rest e' reg_rest del: One_nat_def) (simp add: set_reg_def drive_def)
  next
    case trail
    let ?f = "set_reg e 0 (shifted_tx ?c e ?msb)"
    have f: "tx_known p (shift_reg tx ?msb (width_mask p)) ?f" "knows cur ?f" "stage p now {} [] e ?f"
      using tx_known_shift [OF assms(2)] assms(1) stage_set_reg by (simp_all add: knows_reg)
    show ?thesis
    proof (cases "k < 2 * in_a i - 1")
      case False
      then have "e' = ?f" "cur' = cur" "tx' = shift_reg tx ?msb (width_mask p)" "evs = []"
        using assms(7,8) trail a by (auto simp: eng_data_def xfer_data_def Let_def)
      then show ?thesis using f stage_set_reg by (simp add: reg_rest del: One_nat_def)
    next
      case True
      let ?b = "present_bit (shift_reg tx ?msb (width_mask p)) ?msb ?w"
      have e': "e' = drive ?f txp (out_bit ?c ?f ?msb)"
        using trail True by (simp add: assms(8) eng_data_def a Let_def)
      have m: "cur' = drive_bit cur txp ?b" "tx' = shift_reg tx ?msb (width_mask p)"
        "evs = pad_events p now (in_pc i) ''XFER-data'' cur cur' (shl 1 txp) True"
        using assms(7) trail True by (auto simp: xfer_data_def drive_data_def Let_def)
      have b: "?b = None \<or> ?b = Some (out_bit ?c ?f ?msb AND 1)"
        by (rule present_known) (use f(1) in \<open>simp add: tx_known_def\<close>)
      have "stage p now {txp} evs ?f e'" unfolding m(3,1) e' by (rule stage_drive [OF f(2) assms(3) b])
      with f(3) have "stage p now ({} \<union> {txp}) ([] @ evs) e e'" by (rule stage_trans) simp
      moreover have "knows cur' e'" unfolding e' m(1) by (rule drive_knows [OF f(2) b])
      moreover have "tx_known p tx' e'" unfolding e' m(2) tx_known_drive by (rule f(1))
      ultimately show ?thesis using trail by (simp add: m(1) drive_bit_rest e' reg_rest del: One_nat_def) (simp add: set_reg_def drive_def)
    qed
  next
    case none
    then have "e' = e" "cur' = cur" "tx' = tx" "evs = []"
      using assms(7,8) a by (auto simp: eng_data_def xfer_data_def Let_def split: if_splits)
    then show ?thesis using assms(1,2) stage_refl by simp
  qed
qed

section \<open>A transfer\<close>

definition in_xfer :: "tprogram \<Rightarrow> astate \<Rightarrow> ins \<Rightarrow> int \<Rightarrow> int \<Rightarrow> xfer_state \<Rightarrow> engine \<Rightarrow> bool" where
  "in_xfer p st i k rem s e = (case s of (cur, tx, rx, ev) \<Rightarrow>
     e_running e \<and> e_wait e = 0 \<and> holds_program p e \<and> e_pc e = as_pc st \<and>
     e_transfer e = Some \<lparr>t_bits = in_a i, t_half_period = in_b i, t_flags = in_c i, t_remaining = rem, t_transitions = k\<rparr> \<and>
     knows cur e \<and> known_regs p (tx # rx # drop 2 (as_regs st)) (e_regs e) \<and> scalars st e \<and>
     as_xpins cur = as_xpins st \<and> as_limit cur = as_limit st \<and> as_repeat cur = as_repeat st)"

definition xfer_done :: "tprogram \<Rightarrow> astate \<Rightarrow> xfer_state \<Rightarrow> engine \<Rightarrow> bool" where
  "xfer_done p st s e = (case s of (cur, tx, rx, ev) \<Rightarrow> issuing e \<and> holds_program p e \<and>
     represents p (cur\<lparr>as_regs := tx # rx # drop 2 (as_regs st), as_pc := as_pc st + 1\<rparr>) e)"

lemma in_xfer_touched: "touched e e' \<Longrightarrow> in_xfer p st i k rem s e' = in_xfer p st i k rem s e"
  using touched_simps [of e e'] by (auto simp: in_xfer_def knows_def scalars_def split: prod.splits)

lemma explained_touched: "touched e1 e' \<Longrightarrow> explained p t evs e e' = explained p t evs e e1"
  using touched_simps(4) [of e1 e' p] by (simp add: explained_def allows_def)

lemma known_tx: "known_regs p (tx # rest) (e_regs e) \<Longrightarrow> tx_known p tx e"
  using known_reg [of p "tx # rest" "e_regs e" 0] by (auto simp: known_regs_def tx_known_def reg_def)

lemma known_retx:
  assumes "known_regs p (tx # rest) rs" "tx_known p tx' e'" "drop 1 (e_regs e') = drop 1 rs"
  shows "known_regs p (tx' # rest) (e_regs e')"
proof -
  obtain r rs' where rs: "rs = r # rs'" using assms(1) by (cases rs) (auto simp: known_regs_def)
  obtain q where q: "e_regs e' = q # rs'" using assms(2,3) rs by (cases "e_regs e'") (auto simp: tx_known_def)
  show ?thesis unfolding known_regs_def
  proof (intro conjI allI impI)
    show "length (tx' # rest) = 4" "length (e_regs e') = 4" using assms(1,2) by (simp_all add: known_regs_def tx_known_def)
    fix i :: nat assume i: "i < 4"
    have "0 \<le> e_regs e' ! i \<and> e_regs e' ! i < 2 ^ W p \<and> ((tx' # rest) ! i = None \<or> (tx' # rest) ! i = Some (e_regs e' ! i))"
      using known_reg [OF assms(1) i] assms(2) by (cases i) (auto simp: rs q tx_known_def reg_def)
    then show "0 \<le> e_regs e' ! i" "e_regs e' ! i < 2 ^ W p" "(tx' # rest) ! i = None \<or> (tx' # rest) ! i = Some (e_regs e' ! i)"
      by simp_all
  qed
qed

lemma sample_sound:
  assumes "known_regs p (tx # rx # rest) (e_regs e)"
  shows "\<exists>e'. eng_sample (config_of (tp_arch p)) s2 t rxp e = e' \<and> stage p now {} [] e e' \<and> (knows st e' = knows st e) \<and>
     known_regs p (tx # (if has_bit (t_flags t) 4 \<and> (if has_bit (t_flags t) 1 then t_transitions t mod 2 \<noteq> 0 else t_transitions t mod 2 = 0)
       then None else rx) # rest) (e_regs e') \<and> scalars sx e' = scalars sx e"
proof (cases "has_bit (t_flags t) 4 \<and> (if has_bit (t_flags t) 1 then t_transitions t mod 2 \<noteq> 0 else t_transitions t mod 2 = 0)")
  case True
  obtain v where v: "eng_sample (config_of (tp_arch p)) s2 t rxp e = set_reg e 1 (v AND mask (W p))"
    using True by (auto simp: eng_sample_def Let_def shift_in_def masks)
  have "known_regs p ((tx # rx # rest)[1 := None]) ((e_regs e)[1 := v AND mask (W p)])"
    by (rule known_put [OF assms]) (simp_all add: and_mask_fits)
  then show ?thesis using True stage_set_reg by (simp add: v knows_reg reg_rest) (simp add: set_reg_def)
next
  case False
  then have "eng_sample (config_of (tp_arch p)) s2 t rxp e = e" by (auto simp: eng_sample_def Let_def split: if_splits)
  then show ?thesis using False assms stage_refl by (simp del: if_split add: if_not_P)
qed

lemma edge_stage:
  assumes "in_xfer p st i k rem (cur, tx, rx, ev) e" "as_xpins st = (clock, txp, rxp)" "has_bit (in_c i) 3 \<longrightarrow> clock \<noteq> txp"
    and "xfer_edge p i t (as_xpins st) k (cur, tx, rx, ev) = (cur', tx', rx', ev')"
    and "tr = \<lparr>t_bits = in_a i, t_half_period = in_b i, t_flags = in_c i, t_remaining = 0, t_transitions = k\<rparr>"
    and "e4 = eng_sample (config_of (tp_arch p)) s2 tr rxp (eng_data (config_of (tp_arch p)) tr txp
           (drive e clock (of_bool (has_bit (in_c i) 0 \<noteq> (k mod 2 = 0)))))"
  shows "same_but e e4 \<and> explained p (t + (k + 1) * in_b i) ev' e e4 \<and> knows cur' e4 \<and> set ev \<subseteq> set ev' \<and>
     known_regs p (tx' # rx' # drop 2 (as_regs st)) (e_regs e4) \<and> scalars st e4 \<and>
     as_xpins cur' = as_xpins st \<and> as_limit cur' = as_limit st \<and> as_repeat cur' = as_repeat st"
proof -
  let ?now = "t + (k + 1) * in_b i" and ?v = "of_bool (has_bit (in_c i) 0 \<noteq> (k mod 2 = 0)) :: int"
  let ?cur1 = "drive_bit cur clock (Some ?v)" and ?e1 = "drive e clock ?v"
  let ?ev1 = "pad_events p ?now (in_pc i) ''XFER-clk'' cur ?cur1 (shl 1 clock) True"
  note x = assms(1) [unfolded in_xfer_def prod.case]
  have pins: "0 \<le> clock" "0 \<le> txp" using x assms(2) by (auto simp: scalars_def small_pins_def)
  have b: "Some ?v = None \<or> Some ?v = Some (?v AND 1)" by simp
  have s1: "stage p ?now {clock} ?ev1 e ?e1" by (rule stage_drive [OF _ pins(1) b]) (use x in simp)
  have k1: "knows ?cur1 ?e1" by (rule drive_knows [OF _ b]) (use x in simp)
  have t1: "tx_known p tx ?e1" using known_tx [of p tx "rx # drop 2 (as_regs st)" e] x by (simp add: tx_known_drive)
  obtain cur2 tx2 ev2 where d: "xfer_data p i ?now txp k ?cur1 tx = (cur2, tx2, ev2)" by (cases "xfer_data p i ?now txp k ?cur1 tx")
  define e2 where "e2 = eng_data (config_of (tp_arch p)) tr txp ?e1"
  have d2: "knows cur2 e2 \<and> tx_known p tx2 e2 \<and> stage p ?now (if has_bit (in_c i) 3 then {txp} else {}) ev2 ?e1 e2 \<and>
      drop 1 (e_regs e2) = drop 1 (e_regs ?e1) \<and> as_regs cur2 = as_regs ?cur1 \<and> as_pc cur2 = as_pc ?cur1 \<and>
      as_xpins cur2 = as_xpins ?cur1 \<and> as_limit cur2 = as_limit ?cur1 \<and> as_repeat cur2 = as_repeat ?cur1"
    by (rule data_sound [OF k1 t1 pins(2) _ _ _ d e2_def]) (simp_all add: assms(5))
  have r1: "e_regs ?e1 = e_regs e" by (simp add: drive_def)
  have *: "known_regs p (tx2 # rx # drop 2 (as_regs st)) (e_regs e2)"
    by (rule known_retx [where rs = "e_regs e"]) (use x d2 r1 in auto)
  have tr: "t_flags tr = in_c i" "t_transitions tr = k" and e4: "eng_sample (config_of (tp_arch p)) s2 tr rxp e2 = e4"
    using assms(5,6) by (simp_all add: e2_def)
  have s3: "stage p ?now {} [] e2 e4" "knows cur2 e4 = knows cur2 e2" "scalars st e4 = scalars st e2"
    "known_regs p (tx2 # (if has_bit (in_c i) 4 \<and> (if has_bit (in_c i) 1 then k mod 2 \<noteq> 0 else k mod 2 = 0) then None else rx)
       # drop 2 (as_regs st)) (e_regs e4)"
    using sample_sound [OF *, of s2 tr rxp ?now cur2 st] unfolding e4 tr by blast+
  have "stage p ?now ({clock} \<union> (if has_bit (in_c i) 3 then {txp} else {})) (?ev1 @ ev2) e e2"
    by (rule stage_trans [OF s1]) (use d2 assms(3) in auto)
  then have s4: "stage p ?now (({clock} \<union> (if has_bit (in_c i) 3 then {txp} else {})) \<union> {}) ((?ev1 @ ev2) @ []) e e4"
    by (rule stage_trans [OF _ s3(1)]) simp
  have res: "cur' = cur2" "tx' = tx2" "rx' = (if has_bit (in_c i) 4 \<and> (if has_bit (in_c i) 1 then k mod 2 \<noteq> 0 else k mod 2 = 0) then None else rx)"
    "set ev \<subseteq> set ev'" "set (?ev1 @ ev2) \<subseteq> set ev'"
    using assms(4) d unfolding xfer_edge_def assms(2) by (auto simp: Let_def)
  have "explained p ?now ev' e e4" using s4 explained_more [OF _ res(5)] by (simp add: stage_def)
  moreover have "same_but e e4" using s4 by (simp add: stage_def)
  ultimately show ?thesis
    using res s3 d2 x same_but_simps(6) [of e e4 st] by (simp add: drive_bit_rest)
qed

end
