(* ===== verification/Timing_Run.thy ===== *)
theory Timing_Run
  imports Timing_Xfer
begin

text \<open>
  Whole instructions on the engine: the cycles of a transfer and of a wait, and the theorem that
  an instruction takes the cycles of its abstract execution.
\<close>

section \<open>Spans of cycles\<close>

definition covers :: "tprogram \<Rightarrow> (nat \<Rightarrow> engine) \<Rightarrow> nat \<Rightarrow> nat \<Rightarrow> int \<Rightarrow> tevent list \<Rightarrow> bool" where
  "covers p es k n t evs \<longleftrightarrow> (\<forall>j < n. explained p (t + int j) evs (es (k + j)) (es (k + Suc j)))"

definition busy :: "(nat \<Rightarrow> engine) \<Rightarrow> nat \<Rightarrow> nat \<Rightarrow> bool" where
  "busy es k n \<longleftrightarrow> (\<forall>j < n. e_running (es (k + j)) \<and> \<not> issuing (es (k + j)))"

lemma covers_more: "covers p es k n t evs \<Longrightarrow> set evs \<subseteq> set evs' \<Longrightarrow> covers p es k n t evs'"
  unfolding covers_def using explained_more by blast

lemma covers_trans:
  assumes "covers p es k n t evs" "covers p es (k + n) m (t + int n) evs"
  shows "covers p es k (n + m) t evs"
  unfolding covers_def
proof (intro allI impI)
  fix j assume j: "j < n + m"
  show "explained p (t + int j) evs (es (k + j)) (es (k + Suc j))"
  proof (cases "j < n")
    case False
    then obtain i where "j = n + i" "i < m" using j by (metis add_diff_inverse_nat nat_add_left_cancel_less)
    then show ?thesis using assms(2) by (simp add: covers_def add.assoc)
  qed (use assms(1) in \<open>simp add: covers_def\<close>)
qed

lemma covers_one: "explained p t evs (es k) (es (Suc k)) \<Longrightarrow> covers p es k (Suc 0) t evs"
  by (simp add: covers_def)

lemma busy_trans: "busy es k n \<Longrightarrow> busy es (k + n) m \<Longrightarrow> busy es k (n + m)"
  unfolding busy_def by (metis add.assoc add_diff_inverse_nat nat_add_left_cancel_less)

lemma busy_one: "e_running (es k) \<Longrightarrow> \<not> issuing (es k) \<Longrightarrow> busy es k (Suc 0)"
  by (simp add: busy_def)

section \<open>Half periods\<close>

lemma in_xfer_busy: "in_xfer p st i q rem s e \<Longrightarrow> e_running e \<and> \<not> issuing e"
  by (auto simp: in_xfer_def issuing_def split: prod.splits)

lemma count_cycle:
  assumes "moves (config_of (tp_arch p)) e e'" "in_xfer p st i q rem s e" "rem \<noteq> 1"
  shows "in_xfer p st i q (rem - 1) s e' \<and> pad_now p e' = pad_now p e"
proof -
  obtain cur tx rx ev where s: "s = (cur, tx, rx, ev)" by (cases s)
  note x = assms(2) [unfolded in_xfer_def s prod.case]
  obtain e1 where e1: "e1 = e\<lparr>e_stalled := False, e_transfer := Some \<lparr>t_bits = in_a i, t_half_period = in_b i,
      t_flags = in_c i, t_remaining = rem - 1, t_transitions = q\<rparr>\<rparr>" "touched e1 e'"
    using assms x by (auto simp: moves_def step_def step_transfer_def Let_def quiet_def)
  show ?thesis unfolding in_xfer_touched [OF e1(2)] touched_simps [OF e1(2)] s
    using x by (auto simp add: e1(1) in_xfer_def holds_program_def knows_def scalars_def pad_now_pad1 fun_eq_iff)
qed

lemma half_count:
  assumes "run_of p es" "in_xfer p st i q (int r + 1) s (es m)"
  shows "covers p es m r t evs \<and> busy es m r \<and> in_xfer p st i q 1 s (es (m + r))"
  using assms(2)
proof (induction r arbitrary: m t)
  case 0
  then show ?case by (simp add: covers_def busy_def)
next
  case (Suc r)
  have mv: "moves (config_of (tp_arch p)) (es m) (es (Suc m))" using assms(1) by (simp add: run_of_def)
  have c: "in_xfer p st i q (int r + 1) s (es (Suc m)) \<and> pad_now p (es (Suc m)) = pad_now p (es m)"
    using count_cycle [OF mv Suc.prems] by (simp add: add.commute)
  then have "explained p t evs (es m) (es (Suc m))" by (simp add: explained_same)
  note one = covers_one [where es = es, OF this] busy_one [where es = es and k = m]
  show ?case
    using Suc.IH [of "Suc m" "t + 1"] c in_xfer_busy [OF Suc.prems] one
      covers_trans [of p es m "Suc 0" t evs r] busy_trans [of es m "Suc 0" r] by auto
qed

lemma edge_cycle:
  assumes "moves (config_of (tp_arch p)) e e'" "in_xfer p st i q 1 (cur, tx, rx, ev) e" "as_xpins st = (clock, txp, rxp)"
    and "has_bit (in_c i) 3 \<longrightarrow> clock \<noteq> txp"
    and "xfer_edge p i t (as_xpins st) q (cur, tx, rx, ev) = (cur', tx', rx', ev')"
  shows "explained p (t + (q + 1) * in_b i) ev' e e' \<and> set ev \<subseteq> set ev' \<and>
     (if q + 1 = 2 * in_a i then xfer_done p st (cur', tx', rx', ev') e'
      else in_xfer p st i (q + 1) (in_b i) (cur', tx', rx', ev') e')"
proof -
  let ?c = "config_of (tp_arch p)" and ?e = "e\<lparr>e_stalled := False\<rparr>"
  let ?tr = "\<lparr>t_bits = in_a i, t_half_period = in_b i, t_flags = in_c i, t_remaining = 0, t_transitions = q\<rparr>"
  note x = assms(2) [unfolded in_xfer_def prod.case]
  have pins: "e_pins ?e = (clock, txp, rxp)" using x assms(3) by (simp add: scalars_def)
  obtain s2 e1 where e1: "e1 = transfer_edge ?c s2 ?e ?tr" "touched e1 e'"
    using assms x by (auto simp: moves_def step_def step_transfer_def Let_def quiet_def)
  define e4 where "e4 = eng_sample ?c s2 ?tr rxp (eng_data ?c ?tr txp (drive ?e clock (of_bool (has_bit (in_c i) 0 \<noteq> (q mod 2 = 0)))))"
  have ix: "in_xfer p st i q 1 (cur, tx, rx, ev) ?e"
    using x by (auto simp add: in_xfer_def holds_program_def knows_def scalars_def)
  note g = edge_stage [OF ix assms(3-5) refl e4_def]
  have e1': "e1 = (if q + 1 = 2 * in_a i
      then e4\<lparr>e_transfer := None, e_pc := e_pc e4 + 1, e_completed := (e_completed e4 + 1) AND 0xFFFFFFFF\<rparr>
      else e4\<lparr>e_transfer := Some (?tr\<lparr>t_transitions := q + 1, t_remaining := in_b i\<rparr>)\<rparr>)"
    unfolding e1(1) transfer_edge_parts [OF pins] by (simp add: e4_def Let_def)
  have f: "e_running e4" "e_wait e4 = 0" "holds_program p e4" "e_pc e4 = as_pc st"
    using g same_but_simps [of ?e e4] x by (simp_all add: holds_program_def)
  have pn: "pad_now p e1 = pad_now p e4" by (simp add: e1' pad_now_pad1 fun_eq_iff)
  have "explained p (t + (q + 1) * in_b i) ev' e e1"
    using g pn by (simp add: explained_def allows_def pad_now_pad1)
  moreover have "if q + 1 = 2 * in_a i then xfer_done p st (cur', tx', rx', ev') e1
      else in_xfer p st i (q + 1) (in_b i) (cur', tx', rx', ev') e1"
    using g f x by (auto simp: e1' xfer_done_def in_xfer_def issuing_def holds_program_def represents_parts scalars_def knows_def)
  moreover have "xfer_done p st (cur', tx', rx', ev') e' = xfer_done p st (cur', tx', rx', ev') e1"
    using touched_simps [OF e1(2)] by (simp add: xfer_done_def)
  ultimately show ?thesis using g by (simp add: in_xfer_touched [OF e1(2)] explained_touched [OF e1(2)])
qed

section \<open>A whole transfer\<close>

abbreviation xfer_edges :: "tprogram \<Rightarrow> ins \<Rightarrow> int \<Rightarrow> astate \<Rightarrow> int \<Rightarrow> nat \<Rightarrow> xfer_state \<Rightarrow> xfer_state" where
  "xfer_edges p i t st q n \<equiv> fold (xfer_edge p i t (as_xpins st)) (map (\<lambda>k. q + int k) [0..<n])"

lemma edges_Suc: "xfer_edges p i t st q (Suc n) s = xfer_edges p i t st (q + 1) n (xfer_edge p i t (as_xpins st) q s)"
proof -
  have "map (\<lambda>k. q + int k) [0..<Suc n] = q # map (\<lambda>k. q + 1 + int k) [0..<n]"
    unfolding upt_conv_Cons [OF zero_less_Suc] map_Suc_upt [symmetric] by (simp add: o_def)
  then show ?thesis by (simp del: upt_Suc)
qed

lemma half_period:
  assumes "run_of p es" "in_xfer p st i q (in_b i) (cur, tx, rx, ev) (es m)" "as_xpins st = (clock, txp, rxp)"
    and "has_bit (in_c i) 3 \<longrightarrow> clock \<noteq> txp" "in_b i = int b" "0 < b"
    and "xfer_edge p i t (as_xpins st) q (cur, tx, rx, ev) = (cur', tx', rx', ev')"
  shows "covers p es m b (t + 1 + q * in_b i) ev' \<and> busy es m b \<and> set ev \<subseteq> set ev' \<and>
     (if q + 1 = 2 * in_a i then xfer_done p st (cur', tx', rx', ev') (es (m + b))
      else in_xfer p st i (q + 1) (in_b i) (cur', tx', rx', ev') (es (m + b)))"
proof -
  obtain r where b: "b = Suc r" using assms(6) by (cases b) auto
  then have r: "in_b i = int r + 1" using assms(5) by simp
  note h = half_count [OF assms(1,2) [unfolded r], of "t + 1 + q * in_b i" ev']
  have mv: "moves (config_of (tp_arch p)) (es (m + r)) (es (Suc (m + r)))" using assms(1) by (simp add: run_of_def)
  note e = edge_cycle [OF mv conjunct2 [OF conjunct2 [OF h]] assms(3,4,7)]
  have "t + 1 + q * in_b i + int r = t + (q + 1) * in_b i" by (simp add: r algebra_simps)
  then have "covers p es (m + r) (Suc 0) (t + 1 + q * in_b i + int r) ev'" using conjunct1 [OF e] covers_one by metis
  then have "covers p es m b (t + 1 + q * in_b i) ev'" using h covers_trans [of p es m r _ ev' "Suc 0"] by (simp add: b)
  moreover have "busy es (m + r) (Suc 0)" using h in_xfer_busy by (intro busy_one) blast+
  then have "busy es m b" using h busy_trans [of es m r "Suc 0"] by (simp add: b)
  ultimately show ?thesis using e by (simp add: b)
qed

lemma transfer_run:
  assumes "run_of p es" "in_xfer p st i q (in_b i) s (es m)" "as_xpins st = (clock, txp, rxp)"
    and "has_bit (in_c i) 3 \<longrightarrow> clock \<noteq> txp" "in_b i = int b" "0 < b" "q + int (Suc n) = 2 * in_a i"
    and "xfer_edges p i t st q (Suc n) s = (cur', tx', rx', ev')"
  shows "set (snd (snd (snd s))) \<subseteq> set ev' \<and> covers p es m (Suc n * b) (t + 1 + q * in_b i) ev' \<and> busy es m (Suc n * b) \<and>
     xfer_done p st (cur', tx', rx', ev') (es (m + Suc n * b))"
  using assms(2,7,8)
proof (induction n arbitrary: m q s)
  case 0
  obtain cur tx rx ev where s: "s = (cur, tx, rx, ev)" by (cases s)
  have "xfer_edge p i t (as_xpins st) q (cur, tx, rx, ev) = (cur', tx', rx', ev')" using "0.prems"(3) by (simp add: s)
  note h = half_period [OF assms(1) "0.prems"(1) [unfolded s] assms(3-6) this]
  then show ?case using "0.prems"(2) by (simp add: s)
next
  case (Suc n)
  obtain cur tx rx ev where s: "s = (cur, tx, rx, ev)" by (cases s)
  obtain cur1 tx1 rx1 ev1 where s1: "xfer_edge p i t (as_xpins st) q (cur, tx, rx, ev) = (cur1, tx1, rx1, ev1)"
    by (cases "xfer_edge p i t (as_xpins st) q (cur, tx, rx, ev)")
  note h = half_period [OF assms(1) Suc.prems(1) [unfolded s] assms(3-6) s1]
  have x: "in_xfer p st i (q + 1) (in_b i) (cur1, tx1, rx1, ev1) (es (m + b))" using h Suc.prems(2) by simp
  have q: "q + 1 + int (Suc n) = 2 * in_a i" using Suc.prems(2) by simp
  have "xfer_edges p i t st (q + 1) (Suc n) (cur1, tx1, rx1, ev1) = (cur', tx', rx', ev')"
    using Suc.prems(3) s1 unfolding s edges_Suc by simp
  note ih = Suc.IH [OF x q this]
  have ev: "set ev \<subseteq> set ev'" "set ev1 \<subseteq> set ev'" using h ih by auto
  have t: "t + 1 + (q + 1) * in_b i = t + 1 + q * in_b i + int b" by (simp add: assms(5) algebra_simps)
  have c: "covers p es m (b + Suc n * b) (t + 1 + q * in_b i) ev'"
    using covers_trans covers_more [OF _ ev(2)] h ih unfolding t by blast
  have bs: "busy es m (b + Suc n * b)" using busy_trans h ih by blast
  have n: "Suc (Suc n) * b = b + Suc n * b" by simp
  show ?case unfolding n using c bs ih ev by (simp add: s add.assoc)
qed

section \<open>The issue of a transfer\<close>

lemma xfer_checks:
  assumes "exec_case p st e w" "word_op w = 17"
  shows "1 \<le> word_a w" "0 < word_b w"
proof -
  have "\<not> (\<not> (1 \<le> word_a w \<and> word_a w \<le> cfg_width (config_of (tp_arch p))) \<or> word_b w = 0)"
    using assms by (auto simp: exec_case_def operand_check_def Let_def split: if_splits)
  moreover have "0 \<le> word_b w" using operand_ok(9) [OF assms(1)] .
  ultimately show "1 \<le> word_a w" "0 < word_b w" by auto
qed

lemma flag_bits: "(c AND 8 \<noteq> 0) = has_bit c 3" "(c AND 4 \<noteq> 0) = has_bit c 2" "(c AND 2 = 0) = (\<not> has_bit c 1)"
  "of_bool (has_bit c 0) = c AND 1" for c :: int
proof -
  have p: "push_bit 3 1 = (8::int)" "push_bit 2 1 = (4::int)" "push_bit 1 1 = (2::int)" by (simp_all add: push_bit_eq_mult)
  show "(c AND 8 \<noteq> 0) = has_bit c 3" "(c AND 4 \<noteq> 0) = has_bit c 2" "(c AND 2 = 0) = (\<not> has_bit c 1)"
    unfolding p [symmetric] bit_iff_and_push_bit_not_eq_0 [symmetric] has_bit_iff by (simp_all add: bit_iff_and_push_bit_not_eq_0)
  show "of_bool (has_bit c 0) = c AND 1" by (auto simp: has_bit_iff bit_0 and_one_eq odd_iff_mod_2_eq_one)
qed

definition xfer_start :: "tprogram \<Rightarrow> astate \<Rightarrow> int \<Rightarrow> ins \<Rightarrow> xfer_state" where
  "xfer_start p st t i = (case as_xpins st of (clock, txp, rxp) \<Rightarrow>
     let c = in_c i; tx = as_regs st ! 0; cur1 = drive_bit st clock (Some (c AND 1));
         ev1 = pad_events p t (in_pc i) ''XFER-clk'' st cur1 (shl 1 clock) True;
         cur2 = drive_bit cur1 txp (present_bit tx (has_bit c 2) (ar_width (tp_arch p)))
     in if has_bit c 3 \<and> \<not> has_bit c 1
        then (cur2, tx, as_regs st ! 1, ev1 @ pad_events p t (in_pc i) ''XFER-data'' cur1 cur2 (shl 1 txp) True)
        else (cur1, tx, as_regs st ! 1, ev1))"

definition xfer_faults :: "tprogram \<Rightarrow> int \<Rightarrow> int \<Rightarrow> int \<Rightarrow> bool" where
  "xfer_faults p clock txp c \<longleftrightarrow> (shl 1 clock OR (if has_bit c 3 then shl 1 txp else 0)) AND NOT (tp_ownership p) \<noteq> 0 \<or> (has_bit c 3 \<and> clock = txp)"

lemma abs_xfer_start:
  assumes "as_xpins st = (clock, txp, rxp)"
  shows "abs_xfer p st t i =
     (if xfer_faults p clock txp (in_c i)
      then None
      else case xfer_edges p i t st 0 (nat (2 * in_a i)) (xfer_start p st t i) of (cur, tx', rx', ev) \<Rightarrow>
        Some (cur\<lparr>as_regs := tx' # rx' # drop 2 (as_regs st)\<rparr>, 2 * in_a i * in_b i + 1, ev))"
  by (simp add: abs_xfer_def assms xfer_start_def drive_data_def Let_def flag_bits(4) py_range_def xfer_faults_def)

lemma xfer_begins:
  assumes c: "exec_case p st e w" and op: "word_op w = 17" and x: "as_xpins st = (clock, txp, rxp)"
    and r: "run_word p s ts e w ta rs = Some (e1, pop, push, sig)"
  shows "if xfer_faults p clock txp (word_c w)
     then e1 = fail e 1
     else in_xfer p st (ins_of e w) 0 (word_b w) (xfer_start p st t (ins_of e w)) e1 \<and>
       explained p t (snd (snd (snd (xfer_start p st t (ins_of e w))))) e e1"
proof -
  note d = exec_caseD [OF c] and f = ins_of_fields [OF c]
  let ?i = "ins_of e w" and ?c = "word_c w"
  have own: "e_ownership e = tp_ownership p" and pins: "e_pins e = (clock, txp, rxp)"
    using d(3,6) x by (simp_all add: holds_program_def scalars_def)
  have run: "run_word p s ts e w ta rs = exec_xfer (config_of (tp_arch p)) e (word_a w) (word_b w) ?c"
    using op by (simp add: execute_def Let_def)
  note ex = r [unfolded run exec_xfer_def pins prod.case Let_def flag_bits own, folded xfer_faults_def]
  show ?thesis
  proof (cases "xfer_faults p clock txp ?c")
    case True
    have "e1 = fail e 1" using ex unfolding if_P [OF True] by (simp add: quiet_def)
    then show ?thesis using True by simp
  next
    case False
    let ?e1 = "drive e clock (?c AND 1)" and ?cur1 = "drive_bit st clock (Some (?c AND 1))"
    let ?ev1 = "pad_events p t (e_pc e) ''XFER-clk'' st ?cur1 (shl 1 clock) True"
    let ?tr = "\<lparr>t_bits = word_a w, t_half_period = word_b w, t_flags = ?c, t_remaining = word_b w, t_transitions = 0\<rparr>"
    have cp: "0 \<le> clock" "0 \<le> txp" using d(3) pins by (auto simp: scalars_def small_pins_def)
    have b1: "Some (?c AND 1) = None \<or> Some (?c AND 1) = Some ((?c AND 1) AND 1)" by simp
    have s1: "stage p t {clock} ?ev1 e ?e1" by (rule stage_drive [OF d(4) cp(1) b1])
    have k1: "knows ?cur1 ?e1" by (rule drive_knows [OF d(4) b1])
    have regs: "as_regs st ! 0 # as_regs st ! 1 # drop 2 (as_regs st) = as_regs st"
      using d(2) by (simp add: known_regs_def Cons_nth_drop_Suc numeral_2_eq_2)
    have done_: "in_xfer p st ?i 0 (word_b w) (cur, as_regs st ! 0, as_regs st ! 1, ev) (e2\<lparr>e_transfer := Some ?tr\<rparr>) \<and>
        explained p t ev e (e2\<lparr>e_transfer := Some ?tr\<rparr>)"
      if "stage p t qs ev e e2" "knows cur e2" "e_regs e2 = e_regs e"
        "as_xpins cur = as_xpins st" "as_limit cur = as_limit st" "as_repeat cur = as_repeat st" for cur ev qs e2
    proof -
      have sb: "same_but e e2" using that(1) by (simp add: stage_def)
      have k: "known_regs p (as_regs st ! 0 # as_regs st ! 1 # drop 2 (as_regs st)) (e_regs e2)"
        using d(2) that(3) regs by simp
      have sc: "scalars st e2" "holds_program p e2" using d(3,6) same_but_simps(5,6) [OF sb] by simp_all
      have "explained p t ev e (e2\<lparr>e_transfer := Some ?tr\<rparr>)"
        using that(1) by (simp add: stage_def explained_def allows_def pad_now_pad1)
      moreover have "in_xfer p st ?i 0 (word_b w) (cur, as_regs st ! 0, as_regs st ! 1, ev) (e2\<lparr>e_transfer := Some ?tr\<rparr>)"
        using k sc that(2,4-6) d(1,5) same_but_simps(1-3) [OF sb]
        by (auto simp add: in_xfer_def f issuing_def holds_program_def knows_def scalars_def)
      ultimately show ?thesis by simp
    qed
    show ?thesis
    proof (cases "has_bit ?c 3 \<and> \<not> has_bit ?c 1")
      case two: True
      let ?b = "present_bit (as_regs st ! 0) (has_bit ?c 2) (ar_width (tp_arch p))"
      let ?e2 = "drive ?e1 txp (out_bit (config_of (tp_arch p)) ?e1 (has_bit ?c 2))" and ?cur2 = "drive_bit ?cur1 txp ?b"
      have tk: "as_regs st ! 0 = None \<or> as_regs st ! 0 = Some (reg ?e1 0)"
        using known_reg [OF d(2), of 0] by (auto simp: reg_def drive_def)
      note b2 = present_known [OF tk, of "has_bit ?c 2" p]
      have s2: "stage p t {txp} (pad_events p t (e_pc e) ''XFER-data'' ?cur1 ?cur2 (shl 1 txp) True) ?e1 ?e2"
        by (rule stage_drive [OF k1 cp(2) b2])
      have "{clock} \<inter> {txp} = {}" using False two by (auto simp: xfer_faults_def)
      note s12 = stage_trans [OF s1 s2 this]
      have e1: "e1 = ?e2\<lparr>e_transfer := Some ?tr\<rparr>" using ex False two by (simp add: quiet_def)
      have st: "xfer_start p st t ?i = (?cur2, as_regs st ! 0, as_regs st ! 1,
          ?ev1 @ pad_events p t (e_pc e) ''XFER-data'' ?cur1 ?cur2 (shl 1 txp) True)"
        using two by (simp add: xfer_start_def x f Let_def)
      have rg: "e_regs ?e2 = e_regs e" by (simp add: drive_def)
      show ?thesis unfolding e1 st if_not_P [OF False] snd_conv by (rule done_ [OF s12 drive_knows [OF k1 b2] rg]) (simp_all add: drive_bit_rest)
    next
      case one: False
      have e1: "e1 = ?e1\<lparr>e_transfer := Some ?tr\<rparr>" using ex False one by (auto simp: quiet_def)
      have st: "xfer_start p st t ?i = (?cur1, as_regs st ! 0, as_regs st ! 1, ?ev1)"
        using one by (auto simp add: xfer_start_def x f Let_def)
      have rg: "e_regs ?e1 = e_regs e" by (simp add: drive_def)
      show ?thesis unfolding e1 st if_not_P [OF False] snd_conv by (rule done_ [OF s1 k1 rg]) (simp_all add: drive_bit_rest)
    qed
  qed
qed

end
