(* ===== verification/Timing_Instr.thy ===== *)
theory Timing_Instr
  imports Timing_Run
begin

text \<open>
  One instruction of a program on the running engine, from the cycle it is issued in to the next
  issue, and the theorem that the analyser's abstract execution describes it.
\<close>

section \<open>Issue\<close>

definition ins_word :: "tprogram \<Rightarrow> int \<Rightarrow> int" where
  "ins_word p pc = tp_words p ! nat pc"

definition in_range :: "tprogram \<Rightarrow> int \<Rightarrow> bool" where
  "in_range p pc \<longleftrightarrow> 0 \<le> pc \<and> pc < int (length (tp_words p))"

text \<open>An engine at the issue of an instruction.\<close>

definition at_issue :: "tprogram \<Rightarrow> astate \<Rightarrow> engine \<Rightarrow> bool" where
  "at_issue p st e \<longleftrightarrow> issuing e \<and> holds_program p e \<and> represents p st e"

lemma ins_word_ok: "prog_ok p \<Longrightarrow> in_range p pc \<Longrightarrow> 0 \<le> ins_word p pc \<and> ins_word p pc < 2 ^ 32"
  unfolding prog_ok_def in_range_def ins_word_def by (metis nat_less_iff nth_mem)

lemma fault_at_check:
  assumes "prog_ok p" "in_range p pc"
  shows "fault_at p pc = (case operand_check (config_of (tp_arch p)) (ins_word p pc) of
     Some code \<Rightarrow> code | None \<Rightarrow> if ownership_check (tp_ownership p) (ins_word p pc) then 1 else 0)"
  using static_fault_check [of "ins_word p pc" pc "tp_arch p" "tp_ownership p"] ins_word_ok [OF assms]
  by (simp add: fault_at_def ins_at_def ins_word_def)

lemma operand_code: "operand_check c w = Some code \<Longrightarrow> code = 1"
  by (cases "word_op w" rule: opcode_cases) (simp_all add: operand_check_def Let_def split: if_splits)

definition stopped :: "engine \<Rightarrow> bool" where
  "stopped e \<longleftrightarrow> \<not> e_running e \<and> e_direction e = 0"

lemma stopped_fail: "stopped (fail e c)"
  by (simp add: stopped_def fail_def)

lemma unstalled: "issuing (e\<lparr>e_stalled := False\<rparr>) = issuing e" "holds_program p (e\<lparr>e_stalled := False\<rparr>) = holds_program p e"
  "represents p st (e\<lparr>e_stalled := False\<rparr>) = represents p st e" "pad_now p (e\<lparr>e_stalled := False\<rparr>) = pad_now p e"
  by (simp_all add: issuing_def holds_program_def represents_def pad_now_pad1 fun_eq_iff)

lemma explained_unstalled: "explained p t evs (e\<lparr>e_stalled := False\<rparr>) e' = explained p t evs e e'"
  unfolding explained_def allows_def unstalled by simp

text \<open>The three ways to leave an issue cycle.\<close>

lemma issue_cases:
  assumes "moves (config_of (tp_arch p)) e e'" "prog_ok p" "at_issue p st e"
  obtains
    (range) e1 where "\<not> in_range p (as_pc st)" "e1 = fail (e\<lparr>e_stalled := False\<rparr>) 2" "touched e1 e'"
  | (static) e1 where "in_range p (as_pc st)" "fault_at p (as_pc st) \<noteq> 0" "e1 = fail (e\<lparr>e_stalled := False\<rparr>) 1" "touched e1 e'"
  | (exec) s ts ta rs e1 pop push sig where "in_range p (as_pc st)" "fault_at p (as_pc st) = 0"
      "exec_case p st (e\<lparr>e_stalled := False\<rparr>) (ins_word p (as_pc st))"
      "ins_of (e\<lparr>e_stalled := False\<rparr>) (ins_word p (as_pc st)) = ins_at p (as_pc st)"
      "run_word p s ts (e\<lparr>e_stalled := False\<rparr>) (ins_word p (as_pc st)) ta rs = Some (e1, pop, push, sig)" "touched e1 e'"
proof -
  let ?e = "e\<lparr>e_stalled := False\<rparr>" and ?w = "ins_word p (as_pc st)" and ?c = "config_of (tp_arch p)"
  have a: "issuing e" "holds_program p e" "represents p st e" using assms(3) by (simp_all add: at_issue_def)
  obtain s ts ta rs e1 pop push sig where m: "step ?c s ts e ta rs = Some (e1, pop, push, sig)" "touched e1 e'"
    using assms(1) by (auto simp: moves_def)
  have st: "step ?c s ts e ta rs = (if \<not> in_range p (as_pc st) then quiet (fail ?e 2)
      else case operand_check ?c ?w of Some code \<Rightarrow> quiet (fail ?e code)
      | None \<Rightarrow> if ownership_check (tp_ownership p) ?w then quiet (fail ?e 1) else run_word p s ts ?e ?w ta rs)"
    using a unfolding in_range_def ins_word_def by (simp add: step_def Let_def issuing_def holds_program_def represents_def)
  show thesis
  proof (cases "in_range p (as_pc st)")
    case False
    then have "e1 = fail ?e 2" using st m by (simp add: quiet_def)
    then show ?thesis using False m(2) range by blast
  next
    case True
    note fc = fault_at_check [OF assms(2) True]
    show ?thesis
    proof (cases "fault_at p (as_pc st) = 0")
      case False
      have "e1 = fail ?e 1"
      proof (cases "operand_check ?c ?w")
        case None
        then have "ownership_check (tp_ownership p) ?w" using False fc by (simp split: if_splits)
        then show ?thesis using m(1) None True by (simp add: st quiet_def)
      next
        case (Some code)
        then show ?thesis using m(1) True operand_code [OF Some] by (simp add: st quiet_def)
      qed
      then show ?thesis using True False m(2) static by blast
    next
      case z: True
      have oc: "operand_check ?c ?w = None"
      proof (cases "operand_check ?c ?w")
        case (Some code)
        then show ?thesis using operand_code [OF Some] fc z by simp
      qed
      then have ow: "\<not> ownership_check (tp_ownership p) ?w" using fc z by (simp split: if_splits)
      have "exec_case p st ?e ?w"
        using assms(2) a oc ow ins_word_ok [OF assms(2) True] by (simp add: exec_case_def unstalled)
      moreover have "ins_of ?e ?w = ins_at p (as_pc st)"
        using a by (simp add: ins_of_def ins_at_def represents_def ins_word_def)
      moreover have "run_word p s ts ?e ?w ta rs = Some (e1, pop, push, sig)" using m(1) True oc ow by (simp add: st)
      ultimately show ?thesis using True z m(2) exec by blast
    qed
  qed
qed

lemma exec_issue:
  assumes "moves (config_of (tp_arch p)) e e'" "prog_ok p" "at_issue p st e" "in_range p (as_pc st)" "fault_at p (as_pc st) = 0"
  obtains s ts ta rs e1 pop push sig where "exec_case p st (e\<lparr>e_stalled := False\<rparr>) (ins_word p (as_pc st))"
    "ins_of (e\<lparr>e_stalled := False\<rparr>) (ins_word p (as_pc st)) = ins_at p (as_pc st)"
    "run_word p s ts (e\<lparr>e_stalled := False\<rparr>) (ins_word p (as_pc st)) ta rs = Some (e1, pop, push, sig)" "touched e1 e'"
  using assms(1-3)
proof (cases rule: issue_cases)
  case (exec s ts ta rs e1 pop push sig)
  then show ?thesis using that by blast
qed (use assms(4,5) in simp_all)

section \<open>The run of an instruction\<close>

definition runs_to :: "tprogram \<Rightarrow> (nat \<Rightarrow> engine) \<Rightarrow> nat \<Rightarrow> int \<Rightarrow> abs_effect \<Rightarrow> bool" where
  "runs_to p es k t ef \<longleftrightarrow> (\<exists>n. ae_dt ef = int (Suc n) \<and> covers p es k (Suc n) t (ae_ev ef) \<and> busy es (Suc k) n \<and>
     (at_issue p ((ae_st ef)\<lparr>as_pc := ae_pc ef\<rparr>) (es (k + Suc n)) \<or>
      (\<exists>f. n = 0 \<and> ae_fork ef = Some f \<and> at_issue p f (es (k + Suc n)))))"

definition stops_with :: "tprogram \<Rightarrow> (nat \<Rightarrow> engine) \<Rightarrow> nat \<Rightarrow> int \<Rightarrow> astate \<Rightarrow> int \<Rightarrow> bool" where
  "stops_with p es k t st c \<longleftrightarrow> stopped (es (Suc k)) \<and> e_fault (es (Suc k)) = c \<and>
     (\<forall>pc cause. explained p t (release_events p st t pc cause) (es k) (es (Suc k)))"

lemma goes_to_runs:
  assumes "goes_to p t ef ((es k)\<lparr>e_stalled := False\<rparr>) e1" "touched e1 (es (Suc k))" "ae_dt ef = 1"
  shows "runs_to p es k t ef"
proof -
  have "explained p t (ae_ev ef) (es k) (es (Suc k))"
    using assms(1) by (simp add: goes_to_def explained_touched [OF assms(2)] explained_unstalled)
  then have "covers p es k (Suc 0) t (ae_ev ef)" by (rule covers_one)
  moreover have "busy es (Suc k) 0" by (simp add: busy_def)
  ultimately show ?thesis using assms(1,3) touched_simps [OF assms(2)]
    unfolding runs_to_def goes_to_def at_issue_def by (intro exI [of _ 0]) auto
qed

lemma fail_stops:
  assumes "at_issue p st (es k)" "touched e1 (es (Suc k))" "e_fault e1 = c" "stopped e1"
  shows "stops_with p es k t st c"
proof -
  have kn: "knows st (es k)" using assms(1) by (simp add: at_issue_def represents_parts)
  have "e_direction (es (Suc k)) = 0" using assms(4) touched_simps(9) [OF assms(2)] by (simp add: stopped_def)
  then show ?thesis using assms(3,4) touched_simps [OF assms(2)] release_explain [OF kn]
    by (simp add: stops_with_def stopped_def)
qed

text \<open>An instruction that ends the program.\<close>

lemma halt_stops:
  assumes "exec_case p st ((es k)\<lparr>e_stalled := False\<rparr>) w" "run_word p s ts ((es k)\<lparr>e_stalled := False\<rparr>) w ta rs = Some (e1, pop, push, sig)"
    and "touched e1 (es (Suc k))" "at_issue p st (es k)"
  shows "word_op w = 1 \<Longrightarrow> stops_with p es k t st (e_fault (es k))"
    "word_op w = 29 \<Longrightarrow> stops_with p es k t st (word_imm24 w)"
proof -
  assume "word_op w = 1"
  then have "e_fault e1 = e_fault (es k)" "stopped e1" using assms(2) by (auto simp: execute_def Let_def retire_def stopped_def)
  then show "stops_with p es k t st (e_fault (es k))" by (rule fail_stops [OF assms(4,3)])
next
  assume "word_op w = 29"
  then have "e1 = fail ((es k)\<lparr>e_stalled := False\<rparr>) (word_imm24 w)" using assms(2) by (simp add: execute_def Let_def quiet_def)
  then show "stops_with p es k t st (word_imm24 w)"
    using fail_stops [OF assms(4,3)] by (simp add: fail_def stopped_def)
qed

text \<open>\<open>WAIT\<close>.\<close>

lemma wait_runs:
  assumes "run_of p es" "exec_case p st ((es k)\<lparr>e_stalled := False\<rparr>) w" "word_op w = 4"
    and "run_word p s ts ((es k)\<lparr>e_stalled := False\<rparr>) w ta rs = Some (e1, pop, push, sig)" "touched e1 (es (Suc k))"
  shows "\<exists>ef. abs_exec p st t (ins_of ((es k)\<lparr>e_stalled := False\<rparr>) w) = Some ef \<and> runs_to p es k t ef"
proof -
  let ?e = "(es k)\<lparr>e_stalled := False\<rparr>"
  note d = exec_caseD [OF assms(2)] and f = ins_of_fields [OF assms(2)]
  let ?st = "st\<lparr>as_pc := as_pc st + 1\<rparr>"
  obtain n where n: "word_imm24 w = int n" using zero_le_imp_eq_int [of "word_imm24 w"]
    by (auto simp: word_imm24_def)
  have e1: "e1 = ?e\<lparr>e_wait := int n, e_pc := as_pc st + 1, e_completed := (e_completed ?e + 1) AND 0xFFFFFFFF\<rparr>"
    using assms(3,4) d(1) by (simp add: execute_def Let_def retire_def n)
  have r1: "represents p ?st e1" "holds_program p e1" "e_running e1" "e_transfer e1 = None" "e_wait e1 = int n"
    using d by (auto simp: e1 represents_parts holds_program_def scalars_def knows_def issuing_def)
  note t = touched_simps [OF assms(5)]
  have s1: "e_running (es (Suc k))" "e_transfer (es (Suc k)) = None" "e_wait (es (Suc k)) = int n"
    using r1 t by simp_all
  note w = wait_run [OF assms(1) s1, of ?st]
  let ?ef = "(plain_effect st st)\<lparr>ae_dt := int n + 1\<rparr>"
  have same: "pad_now p (es (k + Suc j)) = pad_now p (es (k + j))" if "j < Suc n" for j
  proof (cases j)
    case 0
    have "pad_now p e1 = pad_now p (es k)" by (simp add: e1 pad_now_pad1 fun_eq_iff)
    then show ?thesis using 0 t(4) by simp
  next
    case (Suc i)
    then show ?thesis using that w by simp
  qed
  then have "covers p es k (Suc n) t (ae_ev ?ef)" unfolding covers_def by (simp add: explained_same)
  moreover have "busy es (Suc k) n" using w by (simp add: busy_def)
  moreover have "at_issue p ((ae_st ?ef)\<lparr>as_pc := ae_pc ?ef\<rparr>) (es (k + Suc n))"
    using w r1 t by (simp add: at_issue_def plain_effect_def)
  ultimately have "runs_to p es k t ?ef" unfolding runs_to_def by (intro exI [of _ n]) simp
  moreover have "abs_exec p st t (ins_of ?e w) = Some ?ef" using assms(3) by (simp add: abs_exec_def Let_def f op_defs n)
  ultimately show ?thesis by blast
qed

text \<open>\<open>XFER\<close>.\<close>

lemma xfer_runs:
  assumes "run_of p es" "exec_case p st ((es k)\<lparr>e_stalled := False\<rparr>) w" "word_op w = 17" "at_issue p st (es k)"
    and "run_word p s ts ((es k)\<lparr>e_stalled := False\<rparr>) w ta rs = Some (e1, pop, push, sig)" "touched e1 (es (Suc k))"
  shows "case abs_exec p st t (ins_of ((es k)\<lparr>e_stalled := False\<rparr>) w) of
     None \<Rightarrow> stops_with p es k t st 1 | Some ef \<Rightarrow> runs_to p es k t ef"
proof -
  let ?e = "(es k)\<lparr>e_stalled := False\<rparr>" and ?i = "ins_of ((es k)\<lparr>e_stalled := False\<rparr>) w"
  note f = ins_of_fields [OF assms(2)]
  obtain clock txp rxp where x: "as_xpins st = (clock, txp, rxp)" by (cases "as_xpins st")
  note b = xfer_begins [OF assms(2,3) x assms(5), of t]
  have ae: "abs_exec p st t ?i = map_option (\<lambda>(new, dt, ev). (plain_effect st new)\<lparr>ae_dt := dt, ae_ev := ev\<rparr>) (abs_xfer p st t ?i)"
    using assms(3) by (simp add: abs_exec_def Let_def f op_defs)
  note ax = abs_xfer_start [OF x, of p t ?i, folded xfer_faults_def]
  show ?thesis
  proof (cases "xfer_faults p clock txp (word_c w)")
    case True
    then have "e1 = fail ?e 1" using b by simp
    then have "stops_with p es k t st 1" using fail_stops [OF assms(4,6)] by (simp add: fail_def stopped_def)
    then show ?thesis using True by (simp add: ae ax f)
  next
    case False
    obtain n where n: "nat (2 * word_a w) = Suc n" using xfer_checks(1) [OF assms(2,3)] by (cases "nat (2 * word_a w)") auto
    obtain hb where hb: "word_b w = int hb" "0 < hb" using xfer_checks(2) [OF assms(2,3)] by (metis nat_0_le of_nat_0_less_iff order_less_imp_le)
    obtain cur tx rx ev where ed: "xfer_edges p ?i t st 0 (Suc n) (xfer_start p st t ?i) = (cur, tx, rx, ev)"
      by (cases "xfer_edges p ?i t st 0 (Suc n) (xfer_start p st t ?i)")
    have ix: "in_xfer p st ?i 0 (in_b ?i) (xfer_start p st t ?i) (es (Suc k))"
      and ex: "explained p t (snd (snd (snd (xfer_start p st t ?i)))) (es k) (es (Suc k))"
      using False b by (simp_all add: in_xfer_touched [OF assms(6)] explained_touched [OF assms(6)] explained_unstalled f)
    have "has_bit (in_c ?i) 3 \<longrightarrow> clock \<noteq> txp" using False by (auto simp: xfer_faults_def f)
    moreover have "0 + int (Suc n) = 2 * in_a ?i" using n by (simp add: f)
    ultimately have tr: "set (snd (snd (snd (xfer_start p st t ?i)))) \<subseteq> set ev \<and> covers p es (Suc k) (Suc n * hb) (t + 1) ev \<and>
        busy es (Suc k) (Suc n * hb) \<and> xfer_done p st (cur, tx, rx, ev) (es (Suc k + Suc n * hb))"
      using transfer_run [OF assms(1) ix x _ _ hb(2) _ ed] by (simp add: f hb)
    let ?ef = "(plain_effect st (cur\<lparr>as_regs := tx # rx # drop 2 (as_regs st)\<rparr>))\<lparr>ae_dt := 2 * word_a w * word_b w + 1, ae_ev := ev\<rparr>"
    have "covers p es k (Suc 0) t ev" using covers_one [OF ex] covers_more tr by blast
    then have "covers p es k (Suc (Suc n * hb)) t ev" using covers_trans [of p es k "Suc 0" t ev "Suc n * hb"] tr by simp
    moreover have "ae_dt ?ef = int (Suc (Suc n * hb))"
    proof -
      have "2 * word_a w = int (Suc n)" using n by simp
      then show ?thesis by (simp add: hb algebra_simps)
    qed
    moreover have "at_issue p ((ae_st ?ef)\<lparr>as_pc := ae_pc ?ef\<rparr>) (es (k + Suc (Suc n * hb)))"
      using tr by (simp add: xfer_done_def at_issue_def plain_effect_def)
    ultimately have "runs_to p es k t ?ef" unfolding runs_to_def using tr by (intro exI [of _ "Suc n * hb"]) (simp add: plain_effect_def)
    moreover have "abs_exec p st t ?i = Some ?ef" using False n ed by (simp add: ae ax f)
    ultimately show ?thesis by simp
  qed
qed

section \<open>Every instruction\<close>

lemma ops_left:
  fixes x :: int
  assumes "x \<noteq> 1" "x \<noteq> 29" "x \<notin> {6, 13, 15}" "0 \<le> x" "x < 30"
  obtains "x \<in> {0, 5, 10, 12, 14, 16}" | "x = 11" | "x = 26" | "x = 7" | "x \<in> {2, 3}" | "x = 8" | "x = 9"
    | "x \<in> {18, 19, 20, 21, 22, 23, 24, 25, 27, 28}" | "x = 4" | "x = 17"
proof -
  have "x \<in> {0, 1, 2, 3, 4, 5, 6, 7, 8, 9, 10, 11, 12, 13, 14, 15, 16, 17, 18, 19, 20, 21, 22, 23, 24, 25, 26, 27, 28, 29}"
    using assms(4,5) by simp presburger
  then show thesis using assms(1-3) that by (cases x rule: opcode_cases) simp_all
qed

lemma exec_case_op: "exec_case p st e w \<Longrightarrow> 0 \<le> word_op w \<and> word_op w < 30"
  by (cases "word_op w" rule: opcode_cases) (auto simp: exec_case_def operand_check_def Let_def)

theorem instruction_sound:
  assumes "run_of p es" "prog_ok p" "at_issue p st (es k)"
    and "in_range p (as_pc st)" "fault_at p (as_pc st) = 0"
    and i: "i = ins_at p (as_pc st)" "\<not> blocks i" "in_op i \<noteq> HALT" "in_op i \<noteq> FAULT"
  shows "case abs_exec p st t i of
     None \<Rightarrow> stops_with p es k t st 1
   | Some ef \<Rightarrow> runs_to p es k t ef \<or> (ae_dt ef = 1 \<and> (t, as_pc st, 4) \<in> set (ae_cf ef) \<and> stops_with p es k t st 4)"
proof -
  have mv: "moves (config_of (tp_arch p)) (es k) (es (Suc k))" using assms(1) by (simp add: run_of_def)
  let ?e = "(es k)\<lparr>e_stalled := False\<rparr>" and ?w = "ins_word p (as_pc st)"
  obtain s ts ta rs e1 pop push sig where x: "exec_case p st ?e ?w" "ins_of ?e ?w = i"
      "run_word p s ts ?e ?w ta rs = Some (e1, pop, push, sig)" "touched e1 (es (Suc k))"
    using exec_issue [OF mv assms(2-5)] unfolding i(1) by blast
  note f = ins_of_fields [OF x(1), unfolded x(2)]
  have one: ?thesis if "\<exists>ef. abs_exec p st t (ins_of ?e ?w) = Some ef \<and> ae_dt ef = 1 \<and> goes_to p t ef ?e e1"
    using that goes_to_runs [of p t _ es k e1, OF _ x(4)] x(2) by auto
  have op: "word_op ?w \<noteq> 1" "word_op ?w \<noteq> 29" "word_op ?w \<notin> {6, 13, 15}" "0 \<le> word_op ?w" "word_op ?w < 30"
    using i f exec_case_op [OF x(1)] by (auto simp: blocks_def op_defs)
  from ops_left [OF op] show ?thesis
  proof cases
    case 1
    then show ?thesis by (intro one exec_control [OF x(1) _ x(3)])
  next
    case 2
    then show ?thesis by (intro one exec_loop [OF x(1) _ x(3)])
  next
    case 3
    then show ?thesis by (intro one exec_jz [OF x(1) _ x(3)])
  next
    case 4
    then have a: "word_a ?w \<noteq> 0" using i(2) f by (auto simp: blocks_def op_defs)
    obtain ef where ef: "abs_exec p st t i = Some ef" "ae_dt ef = 1"
      "goes_to p t ef ?e e1 \<or> (e_fault e1 = 4 \<and> \<not> e_running e1 \<and> (t, as_pc st, 4) \<in> set (ae_cf ef))"
      using exec_strict_push [OF x(1) 4 a x(3), of t] x(2) by auto
    have "stops_with p es k t st 4" if "e_fault e1 = 4" "\<not> e_running e1"
      using that fail_stops [OF assms(3) x(4)] x(3) 4 a exec_caseD(5) [OF x(1)]
      by (auto simp: execute_def Let_def exec_push_def retire_def quiet_def fail_def stopped_def issuing_def split: if_splits)
    then show ?thesis using ef goes_to_runs [of p t _ es k e1, OF _ x(4)] by auto
  next
    case 5
    then show ?thesis by (intro one exec_set_dir [OF x(1) _ x(3)])
  next
    case 6
    then show ?thesis by (intro one exec_drive [OF x(1) _ x(3)])
  next
    case 7
    then show ?thesis by (intro one exec_sample [OF x(1) _ x(3)])
  next
    case 8
    then show ?thesis by (intro one exec_alu_op [OF x(1) _ x(3)])
  next
    case 9
    then show ?thesis using wait_runs [OF assms(1) x(1) _ x(3,4), of t] x(2) by auto
  next
    case 10
    then show ?thesis using xfer_runs [OF assms(1) x(1) _ assms(3) x(3,4), of t] x(2) by (auto split: option.splits)
  qed
qed

end
