(* ===== verification/Timing_Segment.thy ===== *)
theory Timing_Segment
  imports Timing_Instr
begin

text \<open>
  Soundness of the exploration of a segment: whatever the engine does from a represented state, it
  follows one of the variants, cycle for cycle.
\<close>

section \<open>Issues\<close>

definition issue_list :: "tevent list \<Rightarrow> (int \<times> int) list" where
  "issue_list evs = [(ev_t e, ev_pc e). e \<leftarrow> evs, ev_kind e = Issue \<or> ev_kind e = Arrive]"

definition issued_at :: "(nat \<Rightarrow> engine) \<Rightarrow> int \<Rightarrow> nat \<Rightarrow> (int \<times> int) list" where
  "issued_at es t0 m = [(t0 + int j, e_pc (es j)). j \<leftarrow> [0..<m], issuing (es j)]"

lemma issues_list: "issues v = issue_list (v_events v)"
  by (simp add: issues_def issue_list_def)

lemma issue_list_simps [simp]:
  "issue_list [] = []" "issue_list (evs @ evs') = issue_list evs @ issue_list evs'"
  "issue_list (new_event t Issue q pc c # evs) = (t, pc) # issue_list evs"
  "issue_list (new_event t Arrive q pc c # evs) = (t, pc) # issue_list evs"
  "issue_list (new_event t Anchor q pc c # evs) = issue_list evs"
  by (simp_all add: issue_list_def new_event_def)

lemma issue_list_none: "(\<And>e. e \<in> set evs \<Longrightarrow> ev_kind e \<noteq> Issue \<and> ev_kind e \<noteq> Arrive) \<Longrightarrow> issue_list evs = []"
  unfolding issue_list_def by (induction evs) auto

lemma pad_kinds: "issue_list (pad_events p t pc c st st' pins val) = []" "issue_list (release_events p st t pc c) = []"
  by (rule issue_list_none; auto simp: pad_events_def release_events_def pad_event_def split: if_splits)+

lemma issued_Suc: "issued_at es t0 (Suc m) = issued_at es t0 m @ (if issuing (es m) then [(t0 + int m, e_pc (es m))] else [])"
  by (simp add: issued_at_def)

lemma issued_busy: "busy es m n \<Longrightarrow> issued_at es t0 (m + n) = issued_at es t0 m"
proof (induction n)
  case (Suc n)
  then show ?case by (simp add: busy_def issued_Suc)
qed simp

lemma issued_run:
  assumes "issuing (es m)" "busy es (Suc m) n"
  shows "issued_at es t0 (m + Suc n) = issued_at es t0 m @ [(t0 + int m, e_pc (es m))]"
  using issued_busy [OF assms(2), of t0] assms(1) by (simp add: issued_Suc)

text \<open>The events of an instruction are pad changes, samples and interactions.\<close>

lemma data_kinds: "xfer_data p i now txp k cur tx = (cur', tx', evs) \<Longrightarrow> issue_list evs = []"
  by (auto simp: xfer_data_def abs_shift_out_def drive_data_def Let_def pad_kinds split: if_splits)

lemma edge_kinds:
  assumes "xfer_edge p i t xpins k s = s'" "issue_list (snd (snd (snd s))) = []"
  shows "issue_list (snd (snd (snd s'))) = []"
proof -
  obtain clock txp rxp where x: "xpins = (clock, txp, rxp)" by (cases xpins)
  obtain cur tx rx ev where s: "s = (cur, tx, rx, ev)" by (cases s)
  let ?cur1 = "drive_bit cur clock (Some (of_bool (has_bit (in_c i) 0 \<noteq> (k mod 2 = 0))))"
  obtain c2 t2 e2 where d: "xfer_data p i (t + (k + 1) * in_b i) txp k ?cur1 tx = (c2, t2, e2)"
    by (cases "xfer_data p i (t + (k + 1) * in_b i) txp k ?cur1 tx")
  have "issue_list [new_event (t + (k + 1) * in_b i) Sample rxp (in_pc i) ''XFER''] = []"
    by (simp add: issue_list_def new_event_def)
  then show ?thesis using assms data_kinds [OF d] d by (auto simp: x s xfer_edge_def Let_def pad_kinds)
qed

lemma edges_kinds:
  "fold (xfer_edge p i t xpins) ks s = s' \<Longrightarrow> issue_list (snd (snd (snd s))) = [] \<Longrightarrow> issue_list (snd (snd (snd s'))) = []"
proof (induction ks arbitrary: s)
  case (Cons k ks)
  then show ?case using edge_kinds [OF refl] by simp
qed simp

lemma xfer_kinds:
  assumes "abs_xfer p st t i = Some (new, dt, ev)"
  shows "issue_list ev = []"
proof -
  obtain clock txp rxp where x: "as_xpins st = (clock, txp, rxp)" by (cases "as_xpins st")
  have st: "issue_list (snd (snd (snd (xfer_start p st t i)))) = []"
    by (simp add: xfer_start_def x Let_def pad_kinds)
  let ?ed = "xfer_edges p i t st 0 (nat (2 * in_a i)) (xfer_start p st t i)"
  obtain cur tx rx ev' where ed: "?ed = (cur, tx, rx, ev')" by (cases ?ed)
  have "ev = ev'" using assms ed abs_xfer_start [OF x, of p t i] by (simp split: if_splits)
  then show ?thesis using edges_kinds [OF ed st] by simp
qed

lemma exec_kinds: "abs_exec p st t i = Some ef \<Longrightarrow> issue_list (ae_ev ef) = []"
  by (cases "in_op i" rule: opcode_cases)
    (auto simp: abs_exec_def plain_effect_def Let_def op_defs pad_kinds xfer_kinds abs_shift_out_def issue_list_def [of "[_]"]
      new_event_def split: option.splits if_splits)

section \<open>Following a variant\<close>

text \<open>Up to cycle \<open>m\<close>, the run issues exactly the instructions of the events, at their cycles, and every
  pad change has its event.\<close>

definition agrees :: "tprogram \<Rightarrow> (nat \<Rightarrow> engine) \<Rightarrow> int \<Rightarrow> nat \<Rightarrow> tevent list \<Rightarrow> bool" where
  "agrees p es t0 m evs \<longleftrightarrow> covers p es 0 m t0 evs \<and> issue_list evs = issued_at es t0 m"

text \<open>The run stops at a strict push onto a full queue, at a cycle the path lists.\<close>

definition faulted :: "tprogram \<Rightarrow> (nat \<Rightarrow> engine) \<Rightarrow> int \<Rightarrow> tevent list \<Rightarrow> (int \<times> int \<times> int) list \<Rightarrow> bool" where
  "faulted p es t0 evs cf \<longleftrightarrow> (\<exists>m pc c. (t0 + int m, pc, c) \<in> set cf \<and> e_pc (es m) = pc \<and>
     stopped (es (Suc m)) \<and> e_fault (es (Suc m)) = c \<and> covers p es 0 m t0 evs \<and>
     take (length (issued_at es t0 (Suc m))) (issue_list evs) = issued_at es t0 (Suc m))"

definition end_reached :: "tprogram \<Rightarrow> (nat \<Rightarrow> engine) \<Rightarrow> int \<Rightarrow> nat \<Rightarrow> variant \<Rightarrow> bool" where
  "end_reached p es t0 m v = (case v_end v of
     E_boundary t pc \<Rightarrow> t = t0 + int m \<and> covers p es 0 m t0 (v_events v) \<and> issues v = issued_at es t0 m @ [(t, pc)] \<and>
       (\<exists>st. v_exit v = Some st \<and> as_pc st = pc \<and> at_issue p st (es m))
   | E_halt t \<Rightarrow> t = t0 + int m \<and> agrees p es t0 (Suc m) (v_events v) \<and> stopped (es (Suc m)) \<and>
       e_fault (es (Suc m)) = e_fault (es m)
   | E_fault t c \<Rightarrow> t = t0 + int m \<and> agrees p es t0 (Suc m) (v_events v) \<and> stopped (es (Suc m)) \<and> e_fault (es (Suc m)) = c
   | E_periodic t q \<Rightarrow> agrees p es t0 m (v_events v) \<and>
       (\<exists>j st. j < m \<and> t = t0 + int j \<and> q = int (m - j) \<and> at_issue p st (es j) \<and> at_issue p st (es m))
   | E_budget t \<Rightarrow> False)"

definition follows_variant :: "tprogram \<Rightarrow> (nat \<Rightarrow> engine) \<Rightarrow> int \<Rightarrow> variant \<Rightarrow> bool" where
  "follows_variant p es t0 v \<longleftrightarrow> (\<exists>m. end_reached p es t0 m v) \<or> faulted p es t0 (v_events v) (v_cfaults v)"

section \<open>Tracking a path\<close>

definition tracks :: "tprogram \<Rightarrow> (nat \<Rightarrow> engine) \<Rightarrow> int \<Rightarrow> nat \<Rightarrow> tpath \<Rightarrow> bool" where
  "tracks p es t0 m pt \<longleftrightarrow> pt_t pt = t0 + int m \<and> at_issue p (pt_st pt) (es m) \<and> agrees p es t0 m (pt_ev pt) \<and>
     (\<forall>(st, t, idx) \<in> set (pt_seen pt). \<exists>j \<le> m. t = t0 + int j \<and> at_issue p st (es j))"

definition alive :: "tprogram \<Rightarrow> (nat \<Rightarrow> engine) \<Rightarrow> int \<Rightarrow> tpath \<Rightarrow> bool" where
  "alive p es t0 pt \<longleftrightarrow> (\<exists>m. tracks p es t0 m pt) \<or> faulted p es t0 (pt_ev pt) (pt_cf pt)"

lemma faulted_more: "faulted p es t0 evs cf \<Longrightarrow> faulted p es t0 (evs @ evs') (cf @ cf')"
proof -
  assume "faulted p es t0 evs cf"
  then obtain m pc c where f: "(t0 + int m, pc, c) \<in> set cf" "e_pc (es m) = pc" "stopped (es (Suc m))" "e_fault (es (Suc m)) = c"
    "covers p es 0 m t0 evs" "take (length (issued_at es t0 (Suc m))) (issue_list evs) = issued_at es t0 (Suc m)"
    unfolding faulted_def by blast
  have "length (issued_at es t0 (Suc m)) \<le> length (issue_list evs)"
    using arg_cong [OF f(6), of length] by simp
  then have "take (length (issued_at es t0 (Suc m))) (issue_list (evs @ evs')) = issued_at es t0 (Suc m)" using f(6) by simp
  moreover have "covers p es 0 m t0 (evs @ evs')" using covers_more [OF f(5)] by simp
  ultimately show ?thesis unfolding faulted_def using f(1-4) by (intro exI [of _ m] exI [of _ pc] exI [of _ c]) auto
qed

lemma issue_now: "at_issue p st (es m) \<Longrightarrow> issued_at es t0 (Suc m) = issued_at es t0 m @ [(t0 + int m, as_pc st)]"
  by (simp add: issued_Suc at_issue_def represents_def)

lemma agrees_stop:
  assumes "tracks p es t0 m pt" "stops_with p es m (pt_t pt) (pt_st pt) c"
    and "evs = pt_ev pt @ [new_event (pt_t pt) Issue (-1) (as_pc (pt_st pt)) mn] @ release_events p (pt_st pt) (pt_t pt) pc cause"
  shows "agrees p es t0 (Suc m) evs \<and> pt_t pt = t0 + int m \<and> stopped (es (Suc m)) \<and> e_fault (es (Suc m)) = c"
proof -
  have t: "pt_t pt = t0 + int m" and a: "at_issue p (pt_st pt) (es m)" and g: "agrees p es t0 m (pt_ev pt)"
    using assms(1) by (simp_all add: tracks_def)
  have "explained p (t0 + int m) (release_events p (pt_st pt) (pt_t pt) pc cause) (es m) (es (Suc m))"
    using assms(2) by (simp add: stops_with_def t)
  then have "covers p es m (Suc 0) (t0 + int m) evs" by (intro covers_one) (auto simp: assms(3) intro: explained_more)
  moreover have "covers p es 0 m t0 evs" by (rule covers_more [of p es 0 m t0 "pt_ev pt"]) (use g in \<open>auto simp: agrees_def assms(3)\<close>)
  ultimately have "covers p es 0 (Suc m) t0 evs" using covers_trans [of p es 0 m t0 evs "Suc 0"] by simp
  moreover have "issue_list evs = issued_at es t0 (Suc m)"
    using g issue_now [of p "pt_st pt" es m t0, OF a] by (simp add: assms(3) agrees_def pad_kinds t)
  ultimately show ?thesis using assms(2) t by (simp add: agrees_def stops_with_def)
qed

lemma follows_fault:
  assumes "tracks p es t0 m pt" "stops_with p es m (pt_t pt) (pt_st pt) c"
  shows "follows_variant p es t0 (ended pt ((pt_ev pt @ [new_event (pt_t pt) Issue (-1) (as_pc (pt_st pt)) mn])
     @ release_events p (pt_st pt) (pt_t pt) pc cause) (E_fault (pt_t pt) c))"
  using agrees_stop [OF assms refl, of mn pc cause]
  unfolding follows_variant_def end_reached_def ended_def by auto

lemma follows_halt:
  assumes "tracks p es t0 m pt" "stops_with p es m (pt_t pt) (pt_st pt) (e_fault (es m))"
  shows "follows_variant p es t0 (ended pt ((pt_ev pt @ [new_event (pt_t pt) Issue (-1) (as_pc (pt_st pt)) mn])
     @ release_events p (pt_st pt) (pt_t pt) pc cause) (E_halt (pt_t pt)))"
  using agrees_stop [OF assms refl, of mn pc cause]
  unfolding follows_variant_def end_reached_def ended_def by auto

lemma follows_boundary:
  assumes "tracks p es t0 m pt"
  shows "follows_variant p es t0 ((ended pt (pt_ev pt @ [new_event (pt_t pt) Arrive (-1) (as_pc (pt_st pt)) mn])
     (E_boundary (pt_t pt) (as_pc (pt_st pt))))\<lparr>v_exit := Some (pt_st pt), v_wait_min := w\<rparr>)"
proof -
  have g: "agrees p es t0 m (pt_ev pt)" "pt_t pt = t0 + int m" "at_issue p (pt_st pt) (es m)" using assms by (simp_all add: tracks_def)
  have "covers p es 0 m t0 (pt_ev pt @ [new_event (pt_t pt) Arrive (-1) (as_pc (pt_st pt)) mn])"
    by (rule covers_more [of p es 0 m t0 "pt_ev pt"]) (use g in \<open>auto simp: agrees_def\<close>)
  then show ?thesis using g by (auto simp: follows_variant_def end_reached_def ended_def issues_list agrees_def)
qed

lemma agrees_run:
  assumes "agrees p es t0 m evs" "at_issue p st (es m)" "covers p es m (Suc n) (t0 + int m) evs'" "busy es (Suc m) n" "issue_list evs' = []"
    and "all = evs @ [new_event (t0 + int m) Issue (-1) (as_pc st) mn] @ evs'"
  shows "agrees p es t0 (m + Suc n) all"
proof -
  have "covers p es m (Suc n) (t0 + int m) all" by (rule covers_more [OF assms(3)]) (auto simp: assms(6))
  moreover have "covers p es 0 m t0 all" by (rule covers_more [of p es 0 m t0 evs]) (use assms(1,6) in \<open>auto simp: agrees_def\<close>)
  ultimately have "covers p es 0 (m + Suc n) t0 all" using covers_trans [of p es 0 m t0 all "Suc n"] by simp
  moreover have "issue_list all = issued_at es t0 (m + Suc n)"
    using assms(1,2,5) issued_run [of es m n t0] assms(4) by (simp add: assms(6) agrees_def at_issue_def represents_def)
  ultimately show ?thesis by (simp add: agrees_def)
qed

section \<open>One round\<close>

lemma step_extends:
  "case seg_step p lim soft used pt of
     Ends v inc \<Rightarrow> inc \<or> (\<exists>x y. v_events v = pt_ev pt @ x \<and> v_cfaults v = pt_cf pt @ y)
   | Goes nx fork \<Rightarrow> \<exists>x y. pt_ev nx = pt_ev pt @ x \<and> pt_cf nx = pt_cf pt @ y"
  unfolding seg_step_def Let_def by (auto simp: ended_def split: option.splits)

lemma loop_closed:
  assumes "tracks p es t0 m pt" "at_issue p new (es k)" "m < k" "agrees p es t0 k evs" "map_of (pt_seen pt) new = Some (tb, idx)"
    and "v_events v = evs" "v_end v = E_periodic tb (t0 + int k - tb)"
  shows "follows_variant p es t0 v"
proof -
  have "(new, tb, idx) \<in> set (pt_seen pt)" using assms(5) by (rule map_of_SomeD)
  then obtain j where "j \<le> m" "tb = t0 + int j" "at_issue p new (es j)" using assms(1) by (auto simp: tracks_def)
  then show ?thesis using assms(2-4,6,7) unfolding follows_variant_def end_reached_def
    by (intro disjI1 exI [of _ k]) (auto intro!: exI [of _ j] exI [of _ new])
qed

lemma tracks_next:
  assumes "tracks p es t0 m pt" "at_issue p new (es k)" "m < k" "agrees p es t0 k evs"
    and "q = pt\<lparr>pt_st := new, pt_t := t0 + int k, pt_ev := evs, pt_cf := cf\<rparr>"
  shows "alive p es t0 q" "alive p es t0 (q\<lparr>pt_seen := (new, t0 + int k, idx) # pt_seen pt\<rparr>)"
proof -
  have "tracks p es t0 k q" "tracks p es t0 k (q\<lparr>pt_seen := (new, t0 + int k, idx) # pt_seen pt\<rparr>)"
    using assms by (fastforce simp: tracks_def)+
  then show "alive p es t0 q" "alive p es t0 (q\<lparr>pt_seen := (new, t0 + int k, idx) # pt_seen pt\<rparr>)" by (auto simp: alive_def)
qed

lemma fork_sound:
  assumes "tracks p es t0 m pt" "at_issue p f (es (Suc m))" "agrees p es t0 (Suc m) evs"
  shows "case fork_path pt evs cf f of Inl v \<Rightarrow> follows_variant p es t0 v | Inr c \<Rightarrow> alive p es t0 c"
proof -
  have t: "pt_t pt + 1 = t0 + int (Suc m)" using assms(1) by (simp add: tracks_def)
  note n = tracks_next [OF assms(1,2) lessI assms(3) refl]
  show ?thesis
    unfolding fork_path_def Let_def t using n loop_closed [OF assms(1,2) lessI assms(3)]
    by (auto split: option.splits)
qed

lemma exec_round:
  assumes "run_of p es" "tracks p es t0 m pt" "abs_exec p (pt_st pt) (pt_t pt) i = Some ef"
    and "runs_to p es m (pt_t pt) ef"
    and evs: "evs = pt_ev pt @ [new_event (pt_t pt) Issue (-1) (as_pc (pt_st pt)) mn] @ ae_ev ef"
    and new: "new = (ae_st ef)\<lparr>as_pc := ae_pc ef\<rparr>"
  obtains (on) k where "m < k" "pt_t pt + ae_dt ef = t0 + int k" "at_issue p new (es k)" "agrees p es t0 k evs"
  | (branch) f where "ae_fork ef = Some f" "at_issue p f (es (Suc m))" "agrees p es t0 (Suc m) evs"
proof -
  have t: "pt_t pt = t0 + int m" and a: "at_issue p (pt_st pt) (es m)" and g: "agrees p es t0 m (pt_ev pt)"
    using assms(2) by (simp_all add: tracks_def)
  obtain n where n: "ae_dt ef = int (Suc n)" "covers p es m (Suc n) (pt_t pt) (ae_ev ef)" "busy es (Suc m) n"
    "at_issue p new (es (m + Suc n)) \<or> (\<exists>f. n = 0 \<and> ae_fork ef = Some f \<and> at_issue p f (es (m + Suc n)))"
    using assms(4) unfolding runs_to_def new by blast
  have ag: "agrees p es t0 (m + Suc n) evs"
    by (rule agrees_run [OF g a n(2) [unfolded t] n(3) exec_kinds [OF assms(3)]]) (simp add: evs t)
  from n(4) show thesis
  proof
    assume "at_issue p new (es (m + Suc n))"
    then show thesis using on [of "m + Suc n"] ag n(1) t by simp
  next
    assume "\<exists>f. n = 0 \<and> ae_fork ef = Some f \<and> at_issue p f (es (m + Suc n))"
    then show thesis using branch ag by auto
  qed
qed

definition result_sound :: "tprogram \<Rightarrow> (nat \<Rightarrow> engine) \<Rightarrow> int \<Rightarrow> seg_result \<Rightarrow> bool" where
  "result_sound p es t0 r = (case r of
     Ends v inc \<Rightarrow> inc \<or> follows_variant p es t0 v
   | Goes nx fork \<Rightarrow> alive p es t0 nx \<or> (\<exists>v. fork = Some (Inl v) \<and> follows_variant p es t0 v) \<or> (\<exists>c. fork = Some (Inr c) \<and> alive p es t0 c))"

lemma faulted_round: "faulted p es t0 (pt_ev pt) (pt_cf pt) \<Longrightarrow> result_sound p es t0 (seg_step p lim soft used pt)"
  using step_extends [where p = p and lim = lim and soft = soft and used = used and pt = pt] faulted_more [of p es t0 "pt_ev pt" "pt_cf pt"]
  by (auto simp: result_sound_def follows_variant_def alive_def split: seg_result.splits)

lemma fork_pc: "abs_exec p st t i = Some ef \<Longrightarrow> ae_fork ef = Some f \<Longrightarrow> ae_pc ef = as_pc st + 1"
  by (cases "in_op i" rule: opcode_cases)
    (auto simp: abs_exec_def plain_effect_def Let_def op_defs abs_shift_out_def split: option.splits if_splits)

lemma strict_faulted:
  assumes "tracks p es t0 m pt" "stops_with p es m (pt_t pt) (pt_st pt) c" "(pt_t pt, as_pc (pt_st pt), c) \<in> set cf" "issue_list evs' = []"
    and "evs = pt_ev pt @ [new_event (pt_t pt) Issue (-1) (as_pc (pt_st pt)) mn] @ evs'"
  shows "faulted p es t0 evs (cf' @ cf)"
proof -
  have t: "pt_t pt = t0 + int m" and a: "at_issue p (pt_st pt) (es m)" and g: "agrees p es t0 m (pt_ev pt)"
    using assms(1) by (simp_all add: tracks_def)
  have "covers p es 0 m t0 evs" by (rule covers_more [of p es 0 m t0 "pt_ev pt"]) (use g in \<open>auto simp: agrees_def assms(5)\<close>)
  moreover have "issue_list evs = issued_at es t0 (Suc m)"
    using g issue_now [of p "pt_st pt" es m t0, OF a] assms(4) by (simp add: assms(5) agrees_def t)
  ultimately show ?thesis unfolding faulted_def using assms(2,3) a t
    by (intro exI [of _ m] exI [of _ "as_pc (pt_st pt)"] exI [of _ c]) (simp add: stops_with_def at_issue_def represents_def)
qed

lemma tracked_round:
  assumes "run_of p es" "prog_ok p" "tracks p es t0 m pt"
  shows "result_sound p es t0 (seg_step p lim soft used pt)"
proof -
  let ?st = "pt_st pt" and ?t = "pt_t pt" and ?i = "ins_at p (as_pc (pt_st pt))" and ?pc = "as_pc (pt_st pt)"
  let ?mn = "mnemonic (ins_at p (as_pc (pt_st pt)))"
  have a: "at_issue p ?st (es m)" using assms(3) by (simp add: tracks_def)
  have mv: "moves (config_of (tp_arch p)) (es m) (es (Suc m))" using assms(1) by (simp add: run_of_def)
  note ff = follows_fault [OF assms(3)] and sd = seg_step_def Let_def in_range_def [symmetric]
  consider (budget) "length (pt_ev pt) > max_events lim \<or> used + length (pt_ev pt) > total_events lim"
    | (range) "\<not> (length (pt_ev pt) > max_events lim \<or> used + length (pt_ev pt) > total_events lim)" "\<not> in_range p ?pc"
    | (inside) "\<not> (length (pt_ev pt) > max_events lim \<or> used + length (pt_ev pt) > total_events lim)" "in_range p ?pc" by blast
  then show ?thesis
  proof cases
    case budget
    then show ?thesis by (simp add: result_sound_def sd)
  next
    case range
    obtain e1 where e1: "e1 = fail ((es m)\<lparr>e_stalled := False\<rparr>) 2" "touched e1 (es (Suc m))"
      using mv assms(2) a by (cases rule: issue_cases) (use range in auto)
    have "stops_with p es m ?t ?st 2" by (rule fail_stops [OF a e1(2)]) (simp_all add: e1(1) fail_def stopped_def)
    from ff [OF this, of "''PC-RANGE''" ?pc "''fault2''"] show ?thesis using range by (simp add: result_sound_def sd)
  next
    case inside
    note sd = sd inside(2) if_not_P [OF inside(1)]
    show ?thesis
    proof (cases "fault_at p ?pc = 0")
      case False
      obtain e1 where e1: "e1 = fail ((es m)\<lparr>e_stalled := False\<rparr>) 1" "touched e1 (es (Suc m))"
        using mv assms(2) a by (cases rule: issue_cases) (use inside False in auto)
      have "stops_with p es m ?t ?st 1" by (rule fail_stops [OF a e1(2)]) (simp_all add: e1(1) fail_def stopped_def)
      from ff [OF this, of ?mn ?pc "''fault1''"] show ?thesis using False by (simp add: result_sound_def sd)
    next
      case ok: True
      show ?thesis
      proof (cases "soft_here soft ?st ?i \<or> blocks ?i")
        case True
        then show ?thesis using ok follows_boundary [OF assms(3), where mn = ?mn] by (auto simp add: result_sound_def sd)
      next
        case False
        obtain s ts ta rs e1 pop push sig where x: "exec_case p ?st ((es m)\<lparr>e_stalled := False\<rparr>) (ins_word p ?pc)"
          "ins_of ((es m)\<lparr>e_stalled := False\<rparr>) (ins_word p ?pc) = ?i"
          "run_word p s ts ((es m)\<lparr>e_stalled := False\<rparr>) (ins_word p ?pc) ta rs = Some (e1, pop, push, sig)" "touched e1 (es (Suc m))"
          using exec_issue [OF mv assms(2) a inside(2) ok] by blast
        note f = ins_of_fields [OF x(1), unfolded x(2)]
        note stops = halt_stops [OF x(1,3,4) a]
        consider (halt) "in_op ?i = HALT" | (fault) "in_op ?i = FAULT" | (run) "in_op ?i \<noteq> HALT" "in_op ?i \<noteq> FAULT" by blast
        then show ?thesis
        proof cases
          case halt
          then have "stops_with p es m ?t ?st (e_fault (es m))" using stops(1) f by (simp add: op_defs)
          from follows_halt [OF assms(3) this, of ?mn ?pc "''HALT''"] show ?thesis using halt ok False by (simp add: result_sound_def sd)
        next
          case fault
          then have "stops_with p es m ?t ?st (in_imm24 ?i)" using stops(2) f by (simp add: op_defs)
          from ff [OF this, of ?mn ?pc "''fault'' @ decimal (in_imm24 ?i)"] show ?thesis using fault ok False
            by (simp add: result_sound_def sd) (simp add: op_defs)
        next
          case run
          note ins = instruction_sound [OF assms(1,2) a inside(2) ok refl _ run, of ?t]
          show ?thesis
          proof (cases "abs_exec p ?st ?t ?i")
            case None
            then have "stops_with p es m ?t ?st 1" using ins False by simp
            from ff [OF this, of ?mn ?pc "''fault1''"] show ?thesis using None run ok False by (simp add: result_sound_def sd)
          next
            case (Some ef)
            let ?evs = "(pt_ev pt @ [new_event ?t Issue (-1) ?pc ?mn]) @ ae_ev ef" and ?cf = "pt_cf pt @ ae_cf ef"
            let ?new = "(ae_st ef)\<lparr>as_pc := ae_pc ef\<rparr>" and ?t' = "?t + ae_dt ef"
            let ?nx = "pt\<lparr>pt_st := ?new, pt_t := ?t', pt_ev := ?evs, pt_cf := ?cf\<rparr>"
            have step: "seg_step p lim soft used pt =
               (if ae_pc ef \<le> ?pc then
                 (case map_of (pt_seen pt) ?new of
                    Some (tb, idx) \<Rightarrow> Ends ((ended pt ?evs (E_periodic tb (?t' - tb)))\<lparr>v_loop_from := Some idx, v_cfaults := ?cf\<rparr>) False
                  | None \<Rightarrow> Goes (?nx\<lparr>pt_seen := (?new, ?t', length ?evs) # pt_seen pt\<rparr>)
                      (map_option (fork_path pt ?evs ?cf) (ae_fork ef)))
                else Goes ?nx (map_option (fork_path pt ?evs ?cf) (ae_fork ef)))"
              using Some run ok False by (simp add: sd split: option.split)
            have ev: "?evs = pt_ev pt @ [new_event ?t Issue (-1) ?pc ?mn] @ ae_ev ef" by simp
            from ins [unfolded Some option.case] False consider (runs) "runs_to p es m ?t ef"
              | (strict) "ae_dt ef = 1" "(?t, ?pc, 4) \<in> set (ae_cf ef)" "stops_with p es m ?t ?st 4" by auto
            then show ?thesis
            proof cases
              case runs
              show ?thesis
              proof (cases rule: exec_round [OF assms(1,3) Some runs ev refl])
                case (1 k)
                note nx = tracks_next [OF assms(3) 1(3,1,4) refl, where cf = ?cf] and cl = loop_closed [OF assms(3) 1(3,1,4)]
                show ?thesis unfolding step 1(2) using nx cl by (auto simp: result_sound_def ended_def split: option.splits)
              next
                case (2 f)
                then show ?thesis using fork_sound [OF assms(3) 2(2,3), of ?cf] fork_pc [OF Some 2(1)]
                  by (auto simp: step result_sound_def split: sum.splits)
              qed
            next
              case strict
              have "faulted p es t0 ?evs ?cf" by (rule strict_faulted [OF assms(3) strict(3,2) exec_kinds [OF Some]]) simp
              then show ?thesis by (auto simp: step result_sound_def follows_variant_def alive_def ended_def split: option.splits)
            qed
          qed
        qed
      qed
    qed
  qed
qed

lemma round_sound:
  assumes "run_of p es" "prog_ok p" "alive p es t0 pt"
  shows "result_sound p es t0 (seg_step p lim soft used pt)"
  using assms(3) tracked_round [OF assms(1,2)] faulted_round by (auto simp: alive_def)

section \<open>The exploration\<close>

definition live :: "tprogram \<Rightarrow> (nat \<Rightarrow> engine) \<Rightarrow> int \<Rightarrow> seg_state \<Rightarrow> bool" where
  "live p es t0 s \<longleftrightarrow> sg_incomplete s \<or> (\<exists>v \<in> set (sg_out s). follows_variant p es t0 v) \<or>
     (\<exists>pt \<in> set_option (sg_cur s) \<union> set (sg_stack s). alive p es t0 pt)"

lemma seg_round_live:
  assumes "run_of p es" "prog_ok p" "sg_cur s = Some pt" "live p es t0 s"
  shows "live p es t0 (seg_round p lim soft pt s)"
proof -
  let ?r = "seg_step p lim soft (sg_used s) pt"
  have out: "set (sg_out s) \<subseteq> set (sg_out (seg_round p lim soft pt s))" "set (sg_stack s) \<subseteq> set (sg_stack (seg_round p lim soft pt s))"
    "sg_incomplete s \<Longrightarrow> sg_incomplete (seg_round p lim soft pt s)"
    by (auto simp: seg_round_def split: seg_result.splits option.splits sum.splits)
  consider (kept) "sg_incomplete s \<or> (\<exists>v \<in> set (sg_out s). follows_variant p es t0 v) \<or> (\<exists>q \<in> set (sg_stack s). alive p es t0 q)"
    | (now) "alive p es t0 pt" using assms(3,4) by (auto simp: live_def)
  then show ?thesis
  proof cases
    case kept
    then show ?thesis using out by (auto simp: live_def)
  next
    case now
    from round_sound [OF assms(1,2) now, of lim soft "sg_used s"]
    show ?thesis by (cases ?r) (auto simp: result_sound_def seg_round_def live_def split: option.splits sum.splits)
  qed
qed

lemma seg_loop_live:
  "run_of p es \<Longrightarrow> prog_ok p \<Longrightarrow> live p es t0 s \<Longrightarrow>
     sg_incomplete (seg_loop p lim soft s) \<or> (\<exists>v \<in> set (sg_out (seg_loop p lim soft s)). follows_variant p es t0 v)"
proof (induction p lim soft s rule: seg_loop.induct)
  case (1 p lim soft s)
  show ?case
  proof (cases "sg_cur s")
    case (Some pt)
    then show ?thesis using 1 seg_round_live [OF 1(3,4) Some 1(5)] by (simp add: seg_loop.simps [of p lim soft s])
  next
    case None
    show ?thesis
    proof (cases "sg_stack s")
      case Nil
      then show ?thesis using None 1(5) by (simp add: seg_loop.simps [of p lim soft s] live_def)
    next
      case (Cons pt rest)
      have "live p es t0 (s\<lparr>sg_cur := Some pt, sg_stack := rest\<rparr>)" using 1(5) None Cons by (auto simp: live_def)
      then show ?thesis using 1(1) [OF None Cons] 1(3,4) None Cons by (simp add: seg_loop.simps [of p lim soft s])
    qed
  qed
qed

theorem segment_follows:
  assumes "run_of p es" "prog_ok p" "at_issue p st (es 0)" "segment p lim soft used st t0 bpc = (vs, False, total')"
  shows "\<exists>v \<in> set vs. follows_variant p es t0 v"
proof -
  let ?pt = "\<lparr>pt_st = st, pt_t = t0, pt_ev = [new_event 0 Anchor bpc (as_pc st) []], pt_li = pads p st, pt_seen = [], pt_cf = []\<rparr>"
  have "tracks p es t0 0 ?pt" using assms(3) by (simp add: tracks_def agrees_def covers_def issued_at_def)
  then have "live p es t0 \<lparr>sg_cur = None, sg_stack = [?pt], sg_out = [], sg_incomplete = False, sg_used = used\<rparr>"
    by (auto simp: live_def alive_def)
  from seg_loop_live [OF assms(1,2) this, of lim soft] show ?thesis using assms(4) by (auto simp: segment_def Let_def)
qed

end
