(* ===== verification/Timing_Wait.thy ===== *)
theory Timing_Wait
  imports Timing_Segment
begin

text \<open>
  The blocking instructions on the engine: one attempt completes, stalls or times out, and a bounded
  wait is over within its limit.
\<close>

section \<open>One attempt\<close>

definition waits :: "ins \<Rightarrow> bool" where
  "waits i \<longleftrightarrow> in_op i = WAITPIN \<or> in_op i = WAITEVENT"

text \<open>The state after a blocking instruction, as \<open>_explore\<close> starts the next segment.\<close>

definition after_block :: "ins \<Rightarrow> astate \<Rightarrow> astate" where
  "after_block i st = st\<lparr>as_pc := as_pc st + 1, as_regs := if in_op i = PULL then None # drop 1 (as_regs st) else as_regs st\<rparr>"

lemma after_keep: "in_op i \<noteq> PULL \<Longrightarrow> after_block i st = st\<lparr>as_pc := as_pc st + 1\<rparr>"
  by (cases st) (simp add: after_block_def)

definition stalls :: "ins \<Rightarrow> engine \<Rightarrow> engine \<Rightarrow> bool" where
  "stalls i e e' \<longleftrightarrow> e_limit e' = e_limit e \<and>
     (if waits i then e_blocked e' = e_blocked e + 1 \<and> e_blocked e' < e_limit e else e_blocked e' = e_blocked e)"

lemma attempt_states:
  assumes "at_issue p st e" "e1 = e\<lparr>e_stalled := s, e_blocked := b, e_event := v\<rparr>"
  shows "at_issue p st e1" "pad_now p e1 = pad_now p e"
    "at_issue p (st\<lparr>as_pc := as_pc st + 1\<rparr>) (e1\<lparr>e_pc := as_pc st + 1, e_completed := c\<rparr>)"
  using assms by (auto simp: at_issue_def issuing_def holds_program_def represents_def pad_now_pad1 fun_eq_iff)

lemma at_issue_touched: "touched e1 e' \<Longrightarrow> at_issue p st e' = at_issue p st e1"
  using touched_simps [of e1 e'] by (simp add: at_issue_def)

lemma block_cases:
  assumes "moves (config_of (tp_arch p)) e e'" "prog_ok p" "at_issue p st e" "in_range p (as_pc st)" "fault_at p (as_pc st) = 0"
    and i: "i = ins_at p (as_pc st)" "blocks i" and tx: "\<forall>x \<in> set (e_tx e). 0 \<le> x \<and> x < 2 ^ W p"
  obtains (completes) "at_issue p (after_block i st) e'" "pad_now p e' = pad_now p e"
  | (stall) "at_issue p st e'" "pad_now p e' = pad_now p e" "stalls i e e'"
  | (timeout) "waits i" "e_limit e \<le> e_blocked e + 1" "stopped e'" "e_fault e' = 3"
proof -
  let ?e = "e\<lparr>e_stalled := False\<rparr>" and ?w = "ins_word p (as_pc st)"
  obtain s ts ta rs e1 pop push sig where x: "exec_case p st ?e ?w" "ins_of ?e ?w = i"
      "run_word p s ts ?e ?w ta rs = Some (e1, pop, push, sig)" "touched e1 e'"
    using exec_issue [OF assms(1-5)] unfolding i(1) by blast
  note f = ins_of_fields [OF x(1), unfolded x(2)] and d = exec_caseD [OF x(1)] and t = touched_simps [OF x(4)]
  note at = at_issue_touched [OF x(4)] and st = attempt_states [OF assms(3)]
  have pc: "e_pc e = as_pc st" using d(1) by simp
  have fin: thesis if "at_issue p (after_block i st) e1" "pad_now p e1 = pad_now p e" using completes that at t(4) by simp
  have again: thesis if "at_issue p st e1" "pad_now p e1 = pad_now p e" "stalls i e e1"
  proof -
    have "stalls i e e' = stalls i e e1" unfolding stalls_def t(11,12) ..
    then show thesis using stall that at t(4) by simp
  qed
  from i(2) f consider (pull) "word_op ?w = 6" | (push) "word_op ?w = 7" "word_a ?w = 0" | (wait) "word_op ?w = 13 \<or> word_op ?w = 15"
    by (auto simp: blocks_def op_defs)
  then show thesis
  proof cases
    case pull
    have run: "exec_pull ?e ta = Some (e1, pop, push, sig)" using x(3) pull by (simp add: execute_def Let_def)
    show thesis
    proof (cases ta)
      case False
      then have e1: "e1 = e\<lparr>e_stalled := True, e_blocked := e_blocked e, e_event := e_event e\<rparr>"
        using run by (cases e) (auto simp: exec_pull_def quiet_def)
      have "stalls i e e1" using pull f by (simp add: e1 stalls_def waits_def op_defs)
      then show thesis by (rule again [OF st(1,2) [OF e1]])
    next
      case True
      obtain v rest where v: "e_tx e = v # rest" using run True by (auto simp: exec_pull_def split: list.splits)
      have e1: "e1 = (set_reg ?e 0 v)\<lparr>e_pc := as_pc st + 1, e_completed := (e_completed e + 1) AND 0xFFFFFFFF\<rparr>"
        using run True v pc by (auto simp: exec_pull_def retire_def set_reg_def)
      have "known_regs p (None # drop 1 (as_regs st)) (e_regs e1)"
        using known_put [OF d(2), of v None 0] known_list [OF d(2), of None] tx v by (simp add: e1 set_reg_def)
      then have "at_issue p (after_block i st) e1"
        using assms(3) pull f by (auto simp: at_issue_def after_block_def op_defs e1 set_reg_def issuing_def holds_program_def represents_def)
      then show thesis using fin by (simp add: e1 set_reg_def pad_now_pad1 fun_eq_iff)
    qed
  next
    case push
    have run: "exec_push ?e 0 rs = Some (e1, pop, push, sig)" using x(3) push by (simp add: execute_def Let_def)
    show thesis
    proof (cases rs)
      case False
      then have e1: "e1 = e\<lparr>e_stalled := True, e_blocked := e_blocked e, e_event := e_event e\<rparr>"
        using run by (cases e) (auto simp: exec_push_def quiet_def)
      have "stalls i e e1" using push f by (simp add: e1 stalls_def waits_def op_defs)
      then show thesis by (rule again [OF st(1,2) [OF e1]])
    next
      case True
      let ?e1 = "e\<lparr>e_stalled := False, e_blocked := e_blocked e, e_event := e_event e\<rparr>"
      have e1: "e1 = ?e1\<lparr>e_pc := as_pc st + 1, e_completed := (e_completed e + 1) AND 0xFFFFFFFF\<rparr>"
        using run True pc by (cases e) (auto simp: exec_push_def retire_def)
      have "pad_now p e1 = pad_now p e" by (simp add: e1 pad_now_pad1 fun_eq_iff)
      moreover have np: "in_op i \<noteq> PULL" using push f by (simp add: op_defs)
      ultimately show thesis using fin st(3) [OF refl] unfolding e1 after_keep [OF np] by blast
    qed
  next
    case wait
    have w: "waits i" "in_op i \<noteq> PULL" using wait f by (auto simp: waits_def op_defs)
    define ready where "ready \<longleftrightarrow> (if word_op ?w = 13 then bit_at s (word_a ?w) = word_b ?w else e_event e)"
    have run: "(if \<not> ready then quiet (if e_limit e \<le> e_blocked e + 1 then fail (?e\<lparr>e_blocked := e_blocked e + 1, e_stalled := True\<rparr>) 3
        else ?e\<lparr>e_blocked := e_blocked e + 1, e_stalled := True\<rparr>)
      else retire (?e\<lparr>e_blocked := 0, e_event := if word_op ?w = 15 then False else e_event e\<rparr>) (as_pc st + 1) False False 0)
        = Some (e1, pop, push, sig)"
      using x(3) wait pc by (cases e) (auto simp: execute_def Let_def exec_wait_def ready_def)
    consider (out) "\<not> ready" "e_limit e \<le> e_blocked e + 1" | (on) "\<not> ready" "\<not> e_limit e \<le> e_blocked e + 1" | (ready) ready by blast
    then show thesis
    proof cases
      case out
      then have "e1 = fail (?e\<lparr>e_blocked := e_blocked e + 1, e_stalled := True\<rparr>) 3" using run by (simp add: quiet_def)
      then show thesis using timeout w out t by (simp add: fail_def stopped_def)
    next
      case on
      then have e1: "e1 = e\<lparr>e_stalled := True, e_blocked := e_blocked e + 1, e_event := e_event e\<rparr>"
        using run by (cases e) (auto simp: quiet_def)
      have "stalls i e e1" using w on by (simp add: e1 stalls_def)
      then show thesis by (rule again [OF st(1,2) [OF e1]])
    next
      case ready
      let ?e1 = "e\<lparr>e_stalled := False, e_blocked := 0, e_event := if word_op ?w = 15 then False else e_event e\<rparr>"
      have e1: "e1 = ?e1\<lparr>e_pc := as_pc st + 1, e_completed := (e_completed e + 1) AND 0xFFFFFFFF\<rparr>"
        using ready run by (auto simp: retire_def)
      have "pad_now p e1 = pad_now p e" by (simp add: e1 pad_now_pad1 fun_eq_iff)
      then show thesis using fin st(3) [OF refl] unfolding e1 after_keep [OF w(2)] by blast
    qed
  qed
qed

section \<open>A bounded wait\<close>

text \<open>The boundary is passed after \<open>k\<close> stalls: the pads stay, and then the instruction completes or faults.\<close>

definition passes_after :: "tprogram \<Rightarrow> (nat \<Rightarrow> engine) \<Rightarrow> nat \<Rightarrow> astate \<Rightarrow> nat \<Rightarrow> bool" where
  "passes_after p es m st k \<longleftrightarrow>
     (\<forall>j \<le> k. at_issue p st (es (m + j)) \<and> pad_now p (es (m + j)) = pad_now p (es m)) \<and>
     ((at_issue p (after_block (ins_at p (as_pc st)) st) (es (m + Suc k)) \<and> pad_now p (es (m + Suc k)) = pad_now p (es m)) \<or>
      (stopped (es (m + Suc k)) \<and> e_fault (es (m + Suc k)) = 3))"

lemma passes_step:
  assumes "at_issue p st (es m)" "pad_now p (es (Suc m)) = pad_now p (es m)" "passes_after p es (Suc m) st k"
  shows "passes_after p es m st (Suc k)"
proof -
  have "at_issue p st (es (m + j)) \<and> pad_now p (es (m + j)) = pad_now p (es m)" if "j \<le> Suc k" for j
    using assms that unfolding passes_after_def by (cases j) auto
  then show ?thesis using assms(2,3) by (auto simp: passes_after_def)
qed

definition fed :: "tprogram \<Rightarrow> (nat \<Rightarrow> engine) \<Rightarrow> bool" where
  "fed p es \<longleftrightarrow> (\<forall>k. \<forall>x \<in> set (e_tx (es k)). 0 \<le> x \<and> x < 2 ^ W p)"

lemma wait_passes:
  assumes "run_of p es" "prog_ok p" "fed p es" "in_range p (as_pc st)" "fault_at p (as_pc st) = 0" "waits (ins_at p (as_pc st))"
    and "at_issue p st (es m)" "nat (e_limit (es m) - e_blocked (es m)) = n"
  shows "\<exists>k. k < max 1 n \<and> passes_after p es m st k"
  using assms(7,8)
proof (induction n arbitrary: m rule: less_induct)
  case (less n)
  have mv: "moves (config_of (tp_arch p)) (es m) (es (Suc m))" using assms(1) by (simp add: run_of_def)
  have b: "blocks (ins_at p (as_pc st))" using assms(6) by (auto simp: waits_def blocks_def)
  have tx: "\<forall>x \<in> set (e_tx (es m)). 0 \<le> x \<and> x < 2 ^ W p" using assms(3) by (auto simp: fed_def)
  show ?case
  proof (cases rule: block_cases [OF mv assms(2) less.prems(1) assms(4,5) refl b tx])
    case 1
    then show ?thesis using less.prems(1) by (intro exI [of _ 0]) (auto simp: passes_after_def)
  next
    case 2
    let ?n = "nat (e_limit (es (Suc m)) - e_blocked (es (Suc m)))"
    have s: "e_limit (es (Suc m)) = e_limit (es m)" "e_blocked (es (Suc m)) = e_blocked (es m) + 1" "e_blocked (es (Suc m)) < e_limit (es m)"
      using 2(3) assms(6) by (simp_all add: stalls_def)
    then have n: "?n < n" "0 < ?n" using less.prems(2) by auto
    obtain k where "k < max 1 ?n" "passes_after p es (Suc m) st k" using less.IH [OF n(1) 2(1) refl] by blast
    then show ?thesis using passes_step [of p st es m k, OF less.prems(1) 2(2)] n by (intro exI [of _ "Suc k"]) auto
  next
    case 3
    then show ?thesis using less.prems(1) by (intro exI [of _ 0]) (auto simp: passes_after_def)
  qed
qed

end
