(* ===== verification/Timing_Closed.thy ===== *)
theory Timing_Closed
  imports Timing_Graph Timing_Wait
begin

text \<open>
  The boundary graph is closed: every explored node has the variants of its segments, and each
  boundary it reaches is a node whose context covers the state of arrival.
\<close>

section \<open>Covering states\<close>

definition below :: "tprogram \<Rightarrow> astate \<Rightarrow> astate \<Rightarrow> bool" where
  "below p s s' \<longleftrightarrow> (\<forall>e. represents p s e \<longrightarrow> represents p s' e)"

lemma below_refl [simp]: "below p s s"
  by (simp add: below_def)

lemma below_trans: "below p s s1 \<Longrightarrow> below p s1 s2 \<Longrightarrow> below p s s2"
  by (simp add: below_def)

lemma below_issue: "below p s s' \<Longrightarrow> at_issue p s e \<Longrightarrow> at_issue p s' e"
  by (simp add: below_def at_issue_def)

lemma join_bits:
  assumes "known_bits k1 v1 x \<or> known_bits k2 v2 x"
  shows "known_bits ((k1 AND k2 AND NOT (v1 XOR v2)) AND 0xFF) (v1 AND (k1 AND k2 AND NOT (v1 XOR v2))) x"
  using assms by (auto simp: known_bits_iff and_255_take bit_simps)

lemma join_regs:
  assumes "known_regs p as rs \<or> known_regs p bs rs" "length as = 4" "length bs = 4"
  shows "known_regs p (map (\<lambda>(x, y). join_value x y) (zip as bs)) rs"
  using assms by (auto simp: known_regs_def join_value_def)

text \<open>A join covers both states, when they select the same pins at the same address.\<close>

lemma join_covers:
  assumes "as_pc a = as_pc b" "as_xpins a = as_xpins b" "length (as_regs a) = 4" "length (as_regs b) = 4"
  shows "below p a (join_states a b)" "below p b (join_states a b)"
proof -
  have "represents p (join_states a b) e" if "represents p a e \<or> represents p b e" for e
  proof -
    have "known_regs p (as_regs a) (e_regs e) \<or> known_regs p (as_regs b) (e_regs e)" using that by (auto simp: represents_def)
    note r = join_regs [OF this assms(3,4)]
    have "known_bits (as_vk a) (as_vb a) (e_values e) \<or> known_bits (as_vk b) (as_vb b) (e_values e)"
      "known_bits (as_dk a) (as_db a) (e_direction e) \<or> known_bits (as_dk b) (as_db b) (e_direction e)"
      using that by (auto simp: represents_def)
    note k = join_bits [OF this(1)] join_bits [OF this(2)]
    have "as_repeat (join_states a b) = None \<or> as_repeat (join_states a b) = Some (e_repeat e)"
      using that by (auto simp: represents_def join_states_def Let_def join_value_def)
    then show ?thesis using that r k assms(1,2) by (auto simp: represents_def join_states_def Let_def)
  qed
  then show "below p a (join_states a b)" "below p b (join_states a b)" by (auto simp: below_def)
qed

text \<open>The state at a boundary.\<close>

definition place_ok :: "tprogram \<Rightarrow> int list \<Rightarrow> int \<Rightarrow> astate \<Rightarrow> bool" where
  "place_ok p soft b st \<longleftrightarrow> as_pc st = b \<and> in_range p b \<and> fault_at p b = 0 \<and> length (as_regs st) = 4 \<and>
     (soft_here soft st (ins_at p b) \<or> blocks (ins_at p b))"

definition exit_ok :: "tprogram \<Rightarrow> int list \<Rightarrow> variant \<Rightarrow> bool" where
  "exit_ok p soft v \<longleftrightarrow> (\<forall>t b. v_end v = E_boundary t b \<longrightarrow> (\<exists>s. v_exit v = Some s \<and> place_ok p soft b s))"

lemma place_join:
  assumes "place_ok p soft b s" "place_ok p soft b s'"
  shows "place_ok p soft b (join_states s s')"
proof -
  have a: "0 \<le> in_a (ins_at p b)" by (simp add: ins_at_def decode_ins_def Let_def)
  have "soft_here soft (join_states s s') (ins_at p b)" if "soft_here soft s (ins_at p b) \<or> soft_here soft s' (ins_at p b)"
    "nat (in_a (ins_at p b)) < 4 \<or> in_op (ins_at p b) \<noteq> JZ"
    using that assms by (auto simp: soft_here_def place_ok_def join_states_def Let_def join_value_def)
  moreover have "nat (in_a (ins_at p b)) < 4" if "in_op (ins_at p b) = JZ"
  proof -
    have "fault_at p b = 0" using assms(1) by (simp add: place_ok_def)
    then show ?thesis using that a by (auto simp: fault_at_def static_fault_def Let_def op_defs split: if_splits)
  qed
  ultimately show ?thesis using assms by (auto simp: place_ok_def join_states_def Let_def)
qed

section \<open>Boundaries of a segment\<close>

lemma exec_length:
  assumes "abs_exec p st t i = Some ef" "length (as_regs st) = 4"
  shows "length (as_regs (ae_st ef)) = 4 \<and> (\<forall>f. ae_fork ef = Some f \<longrightarrow> length (as_regs f) = 4)"
proof -
  have x: "length (as_regs new) = 4" if "abs_xfer p st t i = Some (new, dt, ev)" for new dt ev
    using that assms(2) by (auto simp: abs_xfer_def Let_def split: prod.splits if_splits)
  show ?thesis
    using assms x by (cases "in_op i" rule: opcode_cases)
      (auto simp: abs_exec_def plain_effect_def Let_def op_defs abs_shift_out_def drive_bit_rest abs_alu_def split: option.splits if_splits)
qed

definition path_ok :: "tpath \<Rightarrow> bool" where
  "path_ok pt \<longleftrightarrow> length (as_regs (pt_st pt)) = 4"

lemma step_exits:
  assumes "path_ok pt"
  shows "case seg_step p lim soft used pt of Ends v inc \<Rightarrow> exit_ok p soft v
    | Goes nx fork \<Rightarrow> path_ok nx \<and> (\<forall>v. fork = Some (Inl v) \<longrightarrow> exit_ok p soft v) \<and> (\<forall>c. fork = Some (Inr c) \<longrightarrow> path_ok c)"
  using assms exec_length [of p "pt_st pt" "pt_t pt" "ins_at p (as_pc (pt_st pt))"] unfolding seg_step_def Let_def
  by (auto simp: ended_def fork_path_def Let_def exit_ok_def place_ok_def path_ok_def in_range_def split: option.splits)

definition exits_ok :: "tprogram \<Rightarrow> int list \<Rightarrow> seg_state \<Rightarrow> bool" where
  "exits_ok p soft s \<longleftrightarrow> (\<forall>v \<in> set (sg_out s). exit_ok p soft v) \<and> (\<forall>pt \<in> set_option (sg_cur s) \<union> set (sg_stack s). path_ok pt)"

lemma round_exits:
  assumes "sg_cur s = Some pt" "exits_ok p soft s"
  shows "exits_ok p soft (seg_round p lim soft pt s)"
proof -
  have "path_ok pt" using assms by (simp add: exits_ok_def)
  from step_exits [OF this, where p = p and lim = lim and soft = soft and used = "sg_used s"] show ?thesis
    using assms by (auto simp: seg_round_def exits_ok_def split: seg_result.splits option.splits sum.splits)
qed

lemma loop_exits: "exits_ok p soft s \<Longrightarrow> exits_ok p soft (seg_loop p lim soft s)"
proof (induction p lim soft s rule: seg_loop.induct)
  case (1 p lim soft s)
  note u = seg_loop.simps [of p lim soft s]
  show ?case
  proof (cases "sg_cur s")
    case (Some pt)
    then show ?thesis using 1(2) [OF Some] round_exits [OF Some 1(3)] by (simp add: u)
  next
    case None
    show ?thesis
    proof (cases "sg_stack s")
      case (Cons pt rest)
      have "exits_ok p soft (s\<lparr>sg_cur := Some pt, sg_stack := rest\<rparr>)" using 1(3) Cons by (auto simp: exits_ok_def)
      then show ?thesis using 1(1) [OF None Cons] 1(3) None Cons by (auto simp: u exits_ok_def)
    qed (use None 1(3) in \<open>simp add: u\<close>)
  qed
qed

lemma segment_exits:
  assumes "segment p lim soft used st t0 bpc = (vs, inc, used')" "length (as_regs st) = 4" "v \<in> set vs"
  shows "exit_ok p soft v"
proof -
  let ?s = "\<lparr>sg_cur = None, sg_stack = [\<lparr>pt_st = st, pt_t = t0, pt_ev = [new_event 0 Anchor bpc (as_pc st) []],
      pt_li = pads p st, pt_seen = [], pt_cf = []\<rparr>], sg_out = [], sg_incomplete = False, sg_used = used\<rparr>"
  have "exits_ok p soft ?s" using assms(2) by (simp add: exits_ok_def path_ok_def)
  from loop_exits [OF this, where lim = lim] show ?thesis using assms(1,3) by (auto simp: segment_def Let_def exits_ok_def)
qed

lemma segments_exits:
  "segments p lim soft bpc used sts = (vs, inc, used') \<Longrightarrow> (\<forall>st \<in> set sts. length (as_regs st) = 4) \<Longrightarrow> v \<in> set vs \<Longrightarrow> exit_ok p soft v"
proof (induction sts arbitrary: used vs inc used')
  case (Cons st sts)
  obtain v1 i1 u1 where s: "segment p lim soft used st 1 bpc = (v1, i1, u1)" by (cases "segment p lim soft used st 1 bpc")
  obtain v2 i2 u2 where ss: "segments p lim soft bpc u1 sts = (v2, i2, u2)" by (cases "segments p lim soft bpc u1 sts")
  show ?case using Cons.prems segment_exits [OF s] Cons.IH [OF ss] by (auto simp: s ss)
qed simp

lemma segments_found:
  "segments p lim soft bpc used sts = (vs, False, used') \<Longrightarrow> s \<in> set sts \<Longrightarrow>
     \<exists>u ws u'. segment p lim soft u s 1 bpc = (ws, False, u') \<and> set ws \<subseteq> set vs"
proof (induction sts arbitrary: used vs used')
  case (Cons st sts)
  obtain v1 i1 u1 where s: "segment p lim soft used st 1 bpc = (v1, i1, u1)" by (cases "segment p lim soft used st 1 bpc")
  obtain v2 i2 u2 where ss: "segments p lim soft bpc u1 sts = (v2, i2, u2)" by (cases "segments p lim soft bpc u1 sts")
  have v: "vs = v1 @ v2" "\<not> i1" "\<not> i2" using Cons.prems(1) by (simp_all add: s ss)
  show ?case
  proof (cases "s = st")
    case True
    then show ?thesis using s v by auto
  next
    case False
    then have "\<exists>u ws u'. segment p lim soft u s 1 bpc = (ws, False, u') \<and> set ws \<subseteq> set v2"
      using Cons.IH [of u1 v2 u2] Cons.prems(2) ss v by auto
    then show ?thesis using v by fastforce
  qed
qed simp

end
