(* ===== verification/Timing_Cover.thy ===== *)
theory Timing_Cover
  imports Timing_Closed
begin

text \<open>
  The invariant of the exploration: the nodes are well-formed, and every node out of the queue is
  closed under its variants.
\<close>

section \<open>Well-formed graphs\<close>

definition node_ok :: "tprogram \<Rightarrow> int list \<Rightarrow> (int \<Rightarrow> astate option) \<Rightarrow> nkey \<Rightarrow> tnode \<Rightarrow> bool" where
  "node_ok p soft wide key n = (case key of
     K_start \<Rightarrow> nd_kind n = ''start''
   | K_context b st \<Rightarrow> nd_bpc n = b \<and> nd_kind n = node_kind p soft b \<and> place_ok p soft b (nd_state n) \<and> nd_state n = st
   | K_wide b \<Rightarrow> nd_bpc n = b \<and> nd_kind n = node_kind p soft b \<and> place_ok p soft b (nd_state n) \<and> wide b = Some (nd_state n))"

definition nodes_ok :: "tprogram \<Rightarrow> int list \<Rightarrow> graph \<Rightarrow> bool" where
  "nodes_ok p soft g \<longleftrightarrow> (\<forall>key n. g_nodes g key = Some n \<longrightarrow> node_ok p soft (g_wide g) key n) \<and>
     (\<forall>b. g_wide g b \<noteq> None \<longrightarrow> g_nodes g (K_wide b) \<noteq> None)"

definition graph_ok :: "tprogram \<Rightarrow> int list \<Rightarrow> graph \<Rightarrow> bool" where
  "graph_ok p soft g \<longleftrightarrow> nodes_ok p soft g \<and> (\<forall>key. g_nodes g key \<noteq> None \<longleftrightarrow> key \<in> set (g_order g)) \<and>
     set (g_queue g) \<subseteq> set (g_order g)"

text \<open>What a round leaves of a node that is not replaced.\<close>

definition keeps :: "tnode \<Rightarrow> tnode \<Rightarrow> bool" where
  "keeps n n' \<longleftrightarrow> nd_bpc n' = nd_bpc n \<and> nd_kind n' = nd_kind n \<and> nd_state n' = nd_state n \<and> nd_variants n' = nd_variants n \<and>
     nd_incomplete n' = nd_incomplete n \<and> (nd_deadlock n \<longrightarrow> nd_deadlock n')"

lemma keeps_refl [simp]: "keeps n n"
  by (simp add: keeps_def)

lemma keeps_trans: "keeps n n1 \<Longrightarrow> keeps n1 n2 \<Longrightarrow> keeps n n2"
  by (simp add: keeps_def)

lemma keeps_bounds: "keeps n (stall_bounds p v n)" "nd_succs (stall_bounds p v n) = nd_succs n" "nd_dirty (stall_bounds p v n) = nd_dirty n"
  by (auto simp: keeps_def stall_bounds_def Let_def)

lemma keeps_node_ok: "keeps n n' \<Longrightarrow> node_ok p soft w key n' = node_ok p soft w key n"
  by (cases key) (auto simp: keeps_def node_ok_def)

definition grown :: "tprogram \<Rightarrow> tnode \<Rightarrow> tnode \<Rightarrow> bool" where
  "grown p n n' \<longleftrightarrow> nd_bpc n' = nd_bpc n \<and> below p (nd_state n) (nd_state n')"

lemma keeps_grown: "keeps n n' \<Longrightarrow> grown p n n'"
  by (simp add: keeps_def grown_def)

lemma grown_trans: "grown p n n1 \<Longrightarrow> grown p n1 n2 \<Longrightarrow> grown p n n2"
  using below_trans by (auto simp: grown_def)

section \<open>Finding a node\<close>

definition same_lists :: "graph \<Rightarrow> graph \<Rightarrow> bool" where
  "same_lists g g' \<longleftrightarrow> g_order g' = g_order g \<and> g_queue g' = g_queue g \<and> g_truncated g' = g_truncated g"

text \<open>The node of a key is new, changed, or replaced by one that is dirty and covers it.\<close>

definition placed :: "tprogram \<Rightarrow> int list \<Rightarrow> int \<Rightarrow> astate \<Rightarrow> nkey \<Rightarrow> graph \<Rightarrow> graph \<Rightarrow> bool" where
  "placed p soft b s sk g g' \<longleftrightarrow> (\<exists>n'. g_nodes g' = (g_nodes g)(sk \<mapsto> n') \<and> nodes_ok p soft g' \<and> same_lists g g' \<and>
     nd_bpc n' = b \<and> below p s (nd_state n') \<and>
     (\<forall>n. g_nodes g sk = Some n \<longrightarrow> grown p n n' \<and>
        ((nd_dirty n' \<and> nd_variants n' = [] \<and> nd_succs n' = []) \<or> (keeps n n' \<and> nd_succs n' = nd_succs n))))"

lemma wide_nodes_ok:
  assumes "nodes_ok p soft g" "node_ok p soft ((g_wide g)(b \<mapsto> j)) (K_wide b) f"
    and "g_nodes g' = (g_nodes g)(K_wide b \<mapsto> f)" "g_wide g' = (g_wide g)(b \<mapsto> j)"
  shows "nodes_ok p soft g'"
  unfolding nodes_ok_def assms(3,4)
proof (intro conjI allI impI)
  fix key m assume m: "((g_nodes g)(K_wide b \<mapsto> f)) key = Some m"
  show "node_ok p soft ((g_wide g)(b \<mapsto> j)) key m"
  proof (cases "key = K_wide b")
    case True
    then show ?thesis using m assms(2) by simp
  next
    case False
    then have "node_ok p soft (g_wide g) key m" using m assms(1) by (simp add: nodes_ok_def)
    then show ?thesis using False by (cases key) (auto simp: node_ok_def)
  qed
next
  fix c assume "((g_wide g)(b \<mapsto> j)) c \<noteq> None"
  then show "((g_nodes g)(K_wide b \<mapsto> f)) (K_wide c) \<noteq> None" using assms(1) by (auto simp: nodes_ok_def split: if_splits)
qed

lemma widen_placed:
  assumes "nodes_ok p soft g" "place_ok p soft b s" "\<not> g_pins_differ (widen p soft b s g)"
  shows "placed p soft b s (K_wide b) g (widen p soft b s g)"
proof (cases "g_wide g b")
  case None
  have nn: "g_nodes g (K_wide b) = None"
  proof (cases "g_nodes g (K_wide b)")
    case (Some n)
    then have "node_ok p soft (g_wide g) (K_wide b) n" using assms(1) by (simp add: nodes_ok_def)
    then show ?thesis using None by (simp add: node_ok_def)
  qed
  let ?f = "(new_node (node_kind p soft b) b s)\<lparr>nd_widened := True, nd_dirty := False, nd_preds := 0,
      nd_min_stall := 0, nd_stall_set := False\<rparr>"
  have w: "g_nodes (widen p soft b s g) = (g_nodes g)(K_wide b \<mapsto> ?f)" "g_wide (widen p soft b s g) = (g_wide g)(b \<mapsto> s)"
    "same_lists g (widen p soft b s g)"
    using None nn by (auto simp: widen_def Let_def put_node_def same_lists_def)
  have "node_ok p soft ((g_wide g)(b \<mapsto> s)) (K_wide b) ?f" using assms(2) by (simp add: node_ok_def new_node_def)
  then have "nodes_ok p soft (widen p soft b s g)" by (rule wide_nodes_ok [OF assms(1) _ w(1,2)])
  then show ?thesis unfolding placed_def using w nn by (intro exI [of _ ?f]) (auto simp: new_node_def)
next
  case (Some old)
  obtain n where n: "g_nodes g (K_wide b) = Some n" using assms(1) Some by (auto simp: nodes_ok_def)
  then have no: "node_ok p soft (g_wide g) (K_wide b) n" using assms(1) by (simp add: nodes_ok_def)
  then have st: "nd_state n = old" "nd_bpc n = b" "nd_kind n = node_kind p soft b" "place_ok p soft b old" using Some by (simp_all add: node_ok_def)
  let ?j = "join_states old s"
  have px: "as_xpins old = as_xpins s" using assms(3) Some by (auto simp: widen_def Let_def put_node_def join_states_def split: if_splits)
  have cov: "below p old ?j" "below p s ?j" using join_covers [of old s p] px st(4) assms(2) by (simp_all add: place_ok_def)
  show ?thesis
  proof (cases "?j = old")
    case True
    then have "widen p soft b s g = g" using Some n px by (cases g) (auto simp: widen_def Let_def)
    then show ?thesis unfolding placed_def using assms(1) n st cov(2) True
      by (intro exI [of _ n]) (auto simp: same_lists_def grown_def)
  next
    case False
    let ?f = "(new_node (node_kind p soft b) b ?j)\<lparr>nd_widened := True, nd_dirty := True, nd_preds := nd_preds n,
        nd_min_stall := nd_min_stall n, nd_stall_set := nd_stall_set n\<rparr>"
    have w: "g_nodes (widen p soft b s g) = (g_nodes g)(K_wide b \<mapsto> ?f)" "g_wide (widen p soft b s g) = (g_wide g)(b \<mapsto> ?j)"
      "same_lists g (widen p soft b s g)"
      using Some n False by (auto simp: widen_def Let_def put_node_def same_lists_def)
    have "place_ok p soft b ?j" by (rule place_join [OF st(4) assms(2)])
    then have "node_ok p soft ((g_wide g)(b \<mapsto> ?j)) (K_wide b) ?f" by (simp add: node_ok_def new_node_def)
    then have "nodes_ok p soft (widen p soft b s g)" by (rule wide_nodes_ok [OF assms(1) _ w(1,2)])
    then show ?thesis unfolding placed_def using w n st cov
      by (intro exI [of _ ?f]) (auto simp: grown_def new_node_def)
  qed
qed

lemma context_placed:
  assumes "nodes_ok p soft g" "place_ok p soft b s" "g_nodes g (K_context b s) = None"
  shows "placed p soft b s (K_context b s) g
     (put_node (K_context b s) (new_node (node_kind p soft b) b s) (g\<lparr>g_contexts := cs\<rparr>))"
proof -
  let ?n = "new_node (node_kind p soft b) b s" and ?g = "put_node (K_context b s) (new_node (node_kind p soft b) b s) (g\<lparr>g_contexts := cs\<rparr>)"
  have "node_ok p soft (g_wide g) (K_context b s) ?n" using assms(2) by (simp add: node_ok_def new_node_def)
  then have "nodes_ok p soft ?g" using assms(1) by (auto simp: nodes_ok_def put_node_def)
  then show ?thesis unfolding placed_def using assms(3)
    by (intro exI [of _ ?n]) (auto simp: put_node_def same_lists_def new_node_def)
qed

lemma found_placed:
  assumes "nodes_ok p soft g" "g_nodes g (K_context b s) = Some n"
  shows "placed p soft b s (K_context b s) g g"
proof -
  have "node_ok p soft (g_wide g) (K_context b s) n" using assms by (simp add: nodes_ok_def)
  then have "nd_bpc n = b" "nd_state n = s" by (simp_all add: node_ok_def)
  then show ?thesis unfolding placed_def using assms
    by (intro exI [of _ n]) (auto simp: same_lists_def grown_def)
qed

lemma altered_placed:
  assumes "placed p soft b s sk g g1"
  shows "placed p soft b s sk g (alter_node sk (stall_bounds p v) g1)"
proof -
  obtain n' where n: "g_nodes g1 = (g_nodes g)(sk \<mapsto> n')" "nodes_ok p soft g1" "same_lists g g1" "nd_bpc n' = b" "below p s (nd_state n')"
    "\<And>n. g_nodes g sk = Some n \<Longrightarrow> grown p n n' \<and>
        ((nd_dirty n' \<and> nd_variants n' = [] \<and> nd_succs n' = []) \<or> (keeps n n' \<and> nd_succs n' = nd_succs n))"
    using assms unfolding placed_def by blast
  let ?n = "stall_bounds p v n'"
  note k = keeps_bounds [where p = p and v = v and n = n']
  have kb: "nd_bpc ?n = nd_bpc n'" "nd_state ?n = nd_state n'" "nd_variants ?n = nd_variants n'" using k(1) by (simp_all add: keeps_def)
  have "node_ok p soft (g_wide g1) sk n'" using n(1,2) by (simp add: nodes_ok_def)
  then have "nodes_ok p soft (alter_node sk (stall_bounds p v) g1)"
    using n(1,2) keeps_node_ok [OF k(1)] by (auto simp: nodes_ok_def alter_node_def)
  moreover have "g_nodes (alter_node sk (stall_bounds p v) g1) = (g_nodes g)(sk \<mapsto> ?n)" using n(1) by (simp add: alter_node_def)
  moreover have "same_lists g (alter_node sk (stall_bounds p v) g1)" using n(3) by (simp add: same_lists_def alter_node_def)
  moreover have "grown p m ?n \<and> ((nd_dirty ?n \<and> nd_variants ?n = [] \<and> nd_succs ?n = []) \<or> (keeps m ?n \<and> nd_succs ?n = nd_succs m))"
    if "g_nodes g sk = Some m" for m
    using n(6) [OF that] k kb keeps_trans [OF _ k(1)] by (auto simp: grown_def)
  ultimately show ?thesis unfolding placed_def using n(4,5) kb by (intro exI [of _ ?n]) auto
qed

lemma node_for_placed:
  assumes "nodes_ok p soft g" "place_ok p soft b s" "node_for p c soft b s v g = (sk, g')" "\<not> g_pins_differ g'"
  shows "placed p soft b s sk g g'"
proof -
  consider (found) n where "g_nodes g (K_context b s) = Some n"
    | (new) "g_nodes g (K_context b s) = None" "length (g_contexts g b) < c"
    | (wide) "g_nodes g (K_context b s) = None" "\<not> length (g_contexts g b) < c" by (cases "g_nodes g (K_context b s)") auto
  then show ?thesis
  proof cases
    case found
    then have r: "sk = K_context b s" "g' = alter_node sk (stall_bounds p v) g" using assms(3) by (auto simp: node_for_def)
    show ?thesis unfolding r(2) by (rule altered_placed) (simp add: r(1) found_placed [OF assms(1) found])
  next
    case new
    then have r: "sk = K_context b s" "g' = alter_node sk (stall_bounds p v) (put_node (K_context b s) (new_node (node_kind p soft b) b s)
        (g\<lparr>g_contexts := (g_contexts g)(b := g_contexts g b @ [s])\<rparr>))" using assms(3) by (auto simp: node_for_def)
    show ?thesis unfolding r(2) by (rule altered_placed) (simp add: r(1) context_placed [OF assms(1,2) new(1)])
  next
    case wide
    then have r: "sk = K_wide b" "g' = alter_node sk (stall_bounds p v) (widen p soft b s g)" using assms(3) by (auto simp: node_for_def)
    have "\<not> g_pins_differ (widen p soft b s g)" using assms(4) by (simp add: r alter_node_def)
    then show ?thesis unfolding r(2) by (intro altered_placed) (simp add: r(1) widen_placed [OF assms(1,2)])
  qed
qed

end
