(* ===== verification/Timing_Link.thy ===== *)
theory Timing_Link
  imports Timing_Cover
begin

text \<open>
  A round of the exploration: the variants of a node are linked to their successors, and what was
  closed before stays closed.
\<close>

section \<open>Links\<close>

definition leads :: "tprogram \<Rightarrow> graph \<Rightarrow> int \<Rightarrow> astate \<Rightarrow> nkey \<Rightarrow> bool" where
  "leads p g b s sk \<longleftrightarrow> sk \<in> set (g_order g) \<and> (\<exists>n. g_nodes g sk = Some n \<and> nd_bpc n = b \<and> below p s (nd_state n))"

definition var_linked :: "tprogram \<Rightarrow> graph \<Rightarrow> tnode \<Rightarrow> nat \<Rightarrow> bool" where
  "var_linked p g n j \<longleftrightarrow> (\<forall>t b s. v_end (nd_variants n ! j) = E_boundary t b \<and> v_exit (nd_variants n ! j) = Some s \<longrightarrow>
     (\<exists>sk. nd_succs n ! j = Some sk \<and> leads p g b s sk))"

text \<open>What one link leaves of the graph.\<close>

definition onward :: "tprogram \<Rightarrow> nkey \<Rightarrow> nat \<Rightarrow> graph \<Rightarrow> graph \<Rightarrow> bool" where
  "onward p key k g g' \<longleftrightarrow> set (g_order g) \<subseteq> set (g_order g') \<and> set (g_queue g) \<subseteq> set (g_queue g') \<and>
     set (g_order g') \<subseteq> set (g_order g) \<union> set (g_queue g') \<and> g_truncated g' = g_truncated g \<and>
     (\<forall>m n. g_nodes g m = Some n \<longrightarrow> (\<exists>n'. g_nodes g' m = Some n' \<and> grown p n n' \<and>
        (m \<in> set (g_queue g') \<or> (keeps n n' \<and> (nd_succs n' = nd_succs n \<or> (m = key \<and> (\<exists>x. nd_succs n' = (nd_succs n)[k := x])))))))"

lemma leads_onward: "leads p g b s sk \<Longrightarrow> onward p key k g g' \<Longrightarrow> leads p g' b s sk"
  unfolding leads_def onward_def grown_def using below_trans by (metis subsetD)

definition set_succ :: "nat \<Rightarrow> nkey \<Rightarrow> tnode \<Rightarrow> tnode" where
  "set_succ k sk n = n\<lparr>nd_succs := (nd_succs n)[k := Some sk]\<rparr>"

definition met :: "tnode \<Rightarrow> tnode" where
  "met n = n\<lparr>nd_preds := nd_preds n + 1, nd_dirty := False\<rparr>"

lemma keeps_links: "keeps n (set_succ k sk n)" "keeps n (met n)" "nd_succs (met n) = nd_succs n" "nd_dirty (set_succ k sk n) = nd_dirty n"
  "nd_succs (set_succ k sk n) = (nd_succs n)[k := Some sk]"
  by (simp_all add: keeps_def set_succ_def met_def)

lemma link_nodes:
  assumes "g_nodes g key = Some nk" "g_nodes g1 = (g_nodes g)(sk \<mapsto> n1)" "same_lists g g1"
    and "g' = enqueue sk (alter_node key (\<lambda>n. n\<lparr>nd_succs := (nd_succs n)[k := Some sk]\<rparr>) g1)"
  shows "g_nodes g' = (\<lambda>m. if m = sk then Some (met (if sk = key then set_succ k sk n1 else n1))
       else if m = key then Some (set_succ k sk nk) else g_nodes g m)"
    "g_order g' = (if sk \<notin> set (g_order g) then g_order g @ [sk] else g_order g)"
    "g_queue g' = (if sk \<notin> set (g_order g) \<or> nd_dirty n1 then g_queue g @ [sk] else g_queue g)"
    "g_truncated g' = g_truncated g" "g_wide g' = g_wide g1" "g_pins_differ g' = g_pins_differ g1"
  using assms by (auto simp: enqueue_def alter_node_def same_lists_def Let_def met_def set_succ_def fun_eq_iff)

lemma link_boundary:
  assumes ok: "graph_ok p soft g" and key: "g_nodes g key = Some nk" and v: "v_end v = E_boundary t b" "v_exit v = Some s"
    and s: "place_ok p soft b s" and g': "g' = link_variant p c soft key (k, v) g" and px: "\<not> g_pins_differ g'"
  shows "graph_ok p soft g' \<and> onward p key k g g' \<and> (key \<in> set (g_queue g') \<or>
     (\<forall>n'. g_nodes g' key = Some n' \<and> k < length (nd_succs nk) \<longrightarrow> (\<exists>sk. nd_succs n' ! k = Some sk \<and> leads p g' b s sk)))"
proof -
  obtain sk g1 where nf: "node_for p c soft b s v g = (sk, g1)" by (cases "node_for p c soft b s v g")
  have g'2: "g' = enqueue sk (alter_node key (\<lambda>n. n\<lparr>nd_succs := (nd_succs n)[k := Some sk]\<rparr>) g1)"
    using g' v nf by (simp add: link_variant_def)
  have nok: "nodes_ok p soft g" and dom: "\<And>m. g_nodes g m \<noteq> None \<longleftrightarrow> m \<in> set (g_order g)" and q: "set (g_queue g) \<subseteq> set (g_order g)"
    using ok by (auto simp: graph_ok_def)
  have "\<not> g_pins_differ g1" using px unfolding g'2 by (simp add: enqueue_def alter_node_def Let_def split: if_splits)
  then have "placed p soft b s sk g g1" by (rule node_for_placed [OF nok s nf])
  then obtain n1 where n1: "g_nodes g1 = (g_nodes g)(sk \<mapsto> n1)" "nodes_ok p soft g1" "same_lists g g1" "nd_bpc n1 = b" "below p s (nd_state n1)"
    and old: "\<And>n. g_nodes g sk = Some n \<Longrightarrow> grown p n n1 \<and>
        ((nd_dirty n1 \<and> nd_variants n1 = [] \<and> nd_succs n1 = []) \<or> (keeps n n1 \<and> nd_succs n1 = nd_succs n))"
    unfolding placed_def by blast
  note ln = link_nodes [OF key n1(1,3) g'2]
  let ?n = "met (if sk = key then set_succ k sk n1 else n1)"
  have kn: "keeps n1 ?n" by (simp add: keeps_def set_succ_def met_def)
  have skn: "g_nodes g' sk = Some ?n" by (simp add: ln(1))
  have ok': "graph_ok p soft g'"
  proof -
    have a: "node_ok p soft (g_wide g1) m n" if "g_nodes g' m = Some n" for m n
    proof (cases "m = sk")
      case True
      then show ?thesis using that skn n1(1,2) keeps_node_ok [OF kn] by (simp add: nodes_ok_def)
    next
      case False
      then have "\<exists>n0. g_nodes g1 m = Some n0 \<and> keeps n0 n" using that key n1(1) keeps_links(1) by (auto simp: ln(1) split: if_splits)
      then show ?thesis using n1(2) keeps_node_ok by (auto simp: nodes_ok_def)
    qed
    have d: "g_nodes g' m \<noteq> None \<longleftrightarrow> g_nodes g1 m \<noteq> None" for m using key n1(1) by (auto simp: ln(1))
    then have "nodes_ok p soft g'" using a n1(2) unfolding nodes_ok_def ln(5) by blast
    moreover have "g_nodes g' m \<noteq> None \<longleftrightarrow> m \<in> set (g_order g')" for m using d [of m] dom [of m] n1(1) by (auto simp: ln(2))
    moreover have "set (g_queue g') \<subseteq> set (g_order g')" using q by (auto simp: ln(2,3))
    ultimately show ?thesis by (simp add: graph_ok_def)
  qed
  have on: "onward p key k g g'"
    unfolding onward_def
  proof (intro conjI allI impI)
    show "set (g_order g) \<subseteq> set (g_order g')" "set (g_queue g) \<subseteq> set (g_queue g')" "g_truncated g' = g_truncated g"
      "set (g_order g') \<subseteq> set (g_order g) \<union> set (g_queue g')" by (auto simp: ln)
    fix m n assume m: "g_nodes g m = Some n"
    show "\<exists>n'. g_nodes g' m = Some n' \<and> grown p n n' \<and>
        (m \<in> set (g_queue g') \<or> (keeps n n' \<and> (nd_succs n' = nd_succs n \<or> (m = key \<and> (\<exists>x. nd_succs n' = (nd_succs n)[k := x])))))"
    proof (cases "m = sk")
      case False
      then have n': "g_nodes g' m = Some (if m = key then set_succ k sk nk else n)" using m by (simp add: ln(1))
      show ?thesis unfolding n' using m key keeps_links(1,5) keeps_grown by auto
    next
      case True
      note o = old [OF m [unfolded True]]
      have gr: "grown p n ?n" using o keeps_grown [OF kn] grown_trans by blast
      show ?thesis
      proof (cases "nd_dirty n1")
        case True
        then show ?thesis using gr skn \<open>m = sk\<close> by (auto simp: ln(3))
      next
        case False
        then have "keeps n n1" "nd_succs n1 = nd_succs n" using o by auto
        then have "keeps n ?n" "nd_succs ?n = nd_succs n \<or> (m = key \<and> nd_succs ?n = (nd_succs n)[k := Some sk])"
          using keeps_trans [OF _ kn] True by (auto simp: keeps_links(3,5))
        then show ?thesis using gr skn True by auto
      qed
    qed
  qed
  have ld: "leads p g' b s sk"
    using skn kn n1(4,5) dom by (auto simp: leads_def ln(2) keeps_def)
  have "\<exists>sk. nd_succs n' ! k = Some sk \<and> leads p g' b s sk"
    if "key \<notin> set (g_queue g')" "g_nodes g' key = Some n'" "k < length (nd_succs nk)" for n'
  proof (cases "sk = key")
    case False
    then have "n' = set_succ k sk nk" using that(2) by (simp add: ln(1))
    then show ?thesis using ld that(3) by (simp add: keeps_links(5))
  next
    case True
    then have "\<not> nd_dirty n1" using that(1) by (auto simp: ln(3))
    then have "nd_succs n1 = nd_succs nk" using old key True by auto
    then have "nd_succs n' ! k = Some sk" using that(2,3) True skn by (simp add: keeps_links(3,5))
    then show ?thesis using ld by blast
  qed
  then show ?thesis using ok' on by blast
qed

lemma onward_refl: "graph_ok p soft g \<Longrightarrow> onward p key k g g"
  by (auto simp: onward_def grown_def)

lemma link_step:
  assumes "graph_ok p soft g" "g_nodes g key = Some nk" "exit_ok p soft v" "g' = link_variant p c soft key (k, v) g" "\<not> g_pins_differ g'"
  shows "graph_ok p soft g' \<and> onward p key k g g' \<and> (key \<in> set (g_queue g') \<or>
     (\<forall>n' t b s. g_nodes g' key = Some n' \<and> k < length (nd_succs nk) \<and> v_end v = E_boundary t b \<and> v_exit v = Some s \<longrightarrow>
        (\<exists>sk. nd_succs n' ! k = Some sk \<and> leads p g' b s sk)))"
proof (cases "v_end v")
  case (E_boundary t b)
  then obtain s where "v_exit v = Some s" "place_ok p soft b s" using assms(3) by (auto simp: exit_ok_def)
  then show ?thesis using link_boundary [OF assms(1,2) E_boundary _ _ assms(4,5)] E_boundary by auto
qed (use assms onward_refl in \<open>auto simp: link_variant_def\<close>)

lemma link_pins: "g_pins_differ g \<Longrightarrow> g_pins_differ (link_variant p c soft key kv g)"
  by (auto simp: link_variant_def node_for_def enqueue_def alter_node_def put_node_def widen_def Let_def split: vend.splits option.splits prod.splits if_splits)

section \<open>Settled nodes\<close>

text \<open>A node is settled when it is not to be explored, or when it has the variants of all its segments and each
  of them leads to a node that covers it.\<close>

definition searched :: "tprogram \<Rightarrow> glimits \<Rightarrow> int list \<Rightarrow> tnode \<Rightarrow> bool" where
  "searched p lim soft n \<longleftrightarrow> (\<forall>s \<in> set (start_states p n). \<exists>u vs u'.
     segment p (segment_limits lim) soft u s 1 (nd_bpc n) = (vs, False, u') \<and> set vs \<subseteq> set (nd_variants n))"

definition node_settled :: "tprogram \<Rightarrow> glimits \<Rightarrow> int list \<Rightarrow> graph \<Rightarrow> nkey \<Rightarrow> bool" where
  "node_settled p lim soft g key \<longleftrightarrow> (\<exists>n. g_nodes g key = Some n \<and> (nd_deadlock n \<or> nd_incomplete n \<or>
     (searched p lim soft n \<and> (\<forall>j < length (nd_variants n). var_linked p g n j))))"

lemma searched_keeps: "keeps n n' \<Longrightarrow> searched p lim soft n' = searched p lim soft n"
  by (simp add: keeps_def searched_def start_states_def branch_starts_def)

lemma settled_onward:
  assumes "node_settled p lim soft g m" "onward p key k g g'" "m \<noteq> key"
  shows "m \<in> set (g_queue g') \<or> node_settled p lim soft g' m"
proof -
  obtain n where n: "g_nodes g m = Some n" "nd_deadlock n \<or> nd_incomplete n \<or>
     (searched p lim soft n \<and> (\<forall>j < length (nd_variants n). var_linked p g n j))" using assms(1) by (auto simp: node_settled_def)
  obtain n' where n': "g_nodes g' m = Some n'" "m \<in> set (g_queue g') \<or> (keeps n n' \<and> nd_succs n' = nd_succs n)"
    using assms(2,3) n(1) unfolding onward_def by blast
  show ?thesis
  proof (cases "m \<in> set (g_queue g')")
    case False
    then have k: "keeps n n'" "nd_succs n' = nd_succs n" using n' by auto
    have "var_linked p g' n' j" if "var_linked p g n j" for j
      using that k leads_onward [OF _ assms(2)] unfolding var_linked_def keeps_def by fastforce
    then have "nd_deadlock n' \<or> nd_incomplete n' \<or> (searched p lim soft n' \<and> (\<forall>j < length (nd_variants n'). var_linked p g' n' j))"
      using n(2) k(1) searched_keeps [OF k(1)] by (auto simp: keeps_def)
    then show ?thesis using n'(1) by (auto simp: node_settled_def)
  qed simp
qed

definition others_settled :: "tprogram \<Rightarrow> glimits \<Rightarrow> int list \<Rightarrow> nkey \<Rightarrow> graph \<Rightarrow> bool" where
  "others_settled p lim soft key g \<longleftrightarrow> (\<forall>m \<in> set (g_order g). m \<noteq> key \<longrightarrow> m \<in> set (g_queue g) \<or> node_settled p lim soft g m)"

lemma others_onward:
  assumes "others_settled p lim soft key g" "onward p key k g g'"
  shows "others_settled p lim soft key g'"
  unfolding others_settled_def
proof (intro ballI impI)
  fix m assume m: "m \<in> set (g_order g')" "m \<noteq> key"
  show "m \<in> set (g_queue g') \<or> node_settled p lim soft g' m"
  proof (cases "m \<in> set (g_order g)")
    case True
    then consider "m \<in> set (g_queue g)" | "node_settled p lim soft g m" using assms(1) m(2) by (auto simp: others_settled_def)
    then show ?thesis
    proof cases
      case 1
      then show ?thesis using assms(2) by (auto simp: onward_def)
    next
      case 2
      then show ?thesis using settled_onward [OF _ assms(2) m(2)] by blast
    qed
  next
    case False
    then show ?thesis using assms(2) m(1) by (auto simp: onward_def)
  qed
qed

text \<open>The state of the loop over the variants: the first \<open>k\<close> are linked.\<close>

definition linking :: "tprogram \<Rightarrow> glimits \<Rightarrow> int list \<Rightarrow> nkey \<Rightarrow> tnode \<Rightarrow> nat \<Rightarrow> graph \<Rightarrow> bool" where
  "linking p lim soft key n k g \<longleftrightarrow> graph_ok p soft g \<and> others_settled p lim soft key g \<and>
     (\<exists>n'. g_nodes g key = Some n' \<and> (key \<in> set (g_queue g) \<or>
        (keeps n n' \<and> length (nd_succs n') = length (nd_variants n) \<and> (\<forall>j < k. var_linked p g n' j))))"

lemma linking_step:
  assumes l: "linking p lim soft key n k g" and v: "v = nd_variants n ! k" "k < length (nd_variants n)" "exit_ok p soft v"
    and g': "g' = link_variant p c soft key (k, v) g" "\<not> g_pins_differ g'"
  shows "linking p lim soft key n (Suc k) g' \<and> g_truncated g' = g_truncated g"
proof -
  obtain n1 where n1: "g_nodes g key = Some n1" "key \<in> set (g_queue g) \<or>
      (keeps n n1 \<and> length (nd_succs n1) = length (nd_variants n) \<and> (\<forall>j < k. var_linked p g n1 j))"
    and ok: "graph_ok p soft g" and os: "others_settled p lim soft key g" using l by (auto simp: linking_def)
  note st = link_step [OF ok n1(1) v(3) g']
  then have on: "onward p key k g g'" by simp
  obtain n2 where n2: "g_nodes g' key = Some n2" "key \<in> set (g_queue g') \<or>
      (keeps n1 n2 \<and> (nd_succs n2 = nd_succs n1 \<or> (\<exists>x. nd_succs n2 = (nd_succs n1)[k := x])))"
    using on n1(1) unfolding onward_def by blast
  have "keeps n n2 \<and> length (nd_succs n2) = length (nd_variants n) \<and> (\<forall>j < Suc k. var_linked p g' n2 j)" if nq: "key \<notin> set (g_queue g')"
  proof -
    have "key \<notin> set (g_queue g)" using on nq by (auto simp: onward_def)
    then have a: "keeps n n1" "length (nd_succs n1) = length (nd_variants n)" "\<forall>j < k. var_linked p g n1 j" using n1(2) by auto
    have b: "keeps n1 n2" "length (nd_succs n2) = length (nd_succs n1)" "\<And>j. j \<noteq> k \<Longrightarrow> nd_succs n2 ! j = nd_succs n1 ! j"
      using n2(2) nq by auto
    have var: "nd_variants n2 = nd_variants n" "nd_variants n1 = nd_variants n" using a(1) b(1) by (simp_all add: keeps_def)
    have "var_linked p g' n2 j" if "j < k" for j
      using a(3) that b(3) [of j] leads_onward [OF _ on] unfolding var_linked_def var by fastforce
    moreover have "var_linked p g' n2 k"
      using st nq n2(1) v(1,2) a(2) unfolding var_linked_def var by auto
    ultimately show ?thesis using a b keeps_trans less_Suc_eq by auto
  qed
  then show ?thesis using st others_onward [OF os on] n2(1) on by (auto simp: linking_def onward_def)
qed

lemma linking_all:
  assumes "linking p lim soft key n 0 g" "\<forall>v \<in> set (nd_variants n). exit_ok p soft v" "k \<le> length (nd_variants n)"
    and "g' = fold (link_variant p c soft key) (take k (enumerate 0 (nd_variants n))) g" "\<not> g_pins_differ g'"
  shows "linking p lim soft key n k g' \<and> g_truncated g' = g_truncated g"
  using assms(3-)
proof (induction k arbitrary: g')
  case (Suc k)
  let ?kvs = "enumerate 0 (nd_variants n)"
  have k: "k < length ?kvs" "k < length (nd_variants n)" using Suc.prems(1) by simp_all
  have "take (Suc k) ?kvs = take k ?kvs @ [(k, nd_variants n ! k)]" using k by (simp add: take_Suc_conv_app_nth nth_enumerate_eq)
  then have g': "g' = link_variant p c soft key (k, nd_variants n ! k) (fold (link_variant p c soft key) (take k ?kvs) g)"
    using Suc.prems(2) by simp
  then have "\<not> g_pins_differ (fold (link_variant p c soft key) (take k ?kvs) g)" using Suc.prems(3) link_pins by blast
  then have ih: "linking p lim soft key n k (fold (link_variant p c soft key) (take k ?kvs) g) \<and>
      g_truncated (fold (link_variant p c soft key) (take k ?kvs) g) = g_truncated g"
    using Suc.IH [OF _ refl] k by simp
  have "exit_ok p soft (nd_variants n ! k)" using assms(2) k by simp
  then show ?case using linking_step [OF conjunct1 [OF ih] refl k(2) _ g' Suc.prems(3)] ih by simp
qed (use assms(1) in simp)

end
