(* ===== verification/Timing_Explore.thy ===== *)
theory Timing_Explore
  imports Timing_Link
begin

text \<open>
  The exploration ends with a closed graph, and every run of the engine from one boundary to the
  next is a variant of its node.
\<close>

section \<open>The invariant of the exploration\<close>

definition explored :: "tprogram \<Rightarrow> glimits \<Rightarrow> int list \<Rightarrow> graph \<Rightarrow> bool" where
  "explored p lim soft g \<longleftrightarrow> graph_ok p soft g \<and> (\<forall>m \<in> set (g_order g). m \<in> set (g_queue g) \<or> node_settled p lim soft g m)"

definition cut_short :: "graph \<Rightarrow> bool" where
  "cut_short g \<longleftrightarrow> g_truncated g \<or> g_pins_differ g"

lemma explored_start: "explored p lim soft start_graph"
  by (auto simp: explored_def graph_ok_def nodes_ok_def node_ok_def start_graph_def new_node_def)

lemma start_lengths:
  assumes "node_ok p soft w key n"
  shows "\<forall>s \<in> set (start_states p n). length (as_regs s) = 4"
  using assms by (cases key)
    (auto simp: node_ok_def start_states_def branch_starts_def Let_def START_STATE_def place_ok_def)

text \<open>The variants of a node are put in place.\<close>

lemma put_settled:
  assumes "node_settled p lim soft g m" "m \<noteq> key" "g_nodes g key = Some n" "nd_state n' = nd_state n" "nd_bpc n' = nd_bpc n"
    and "g_nodes g' = (g_nodes g)(key \<mapsto> n')" "g_order g' = g_order g"
  shows "node_settled p lim soft g' m"
proof -
  have "leads p g' b s sk" if "leads p g b s sk" for b s sk
    using that assms(3-7) by (auto simp: leads_def)
  then have "var_linked p g' m' j" if "var_linked p g m' j" for m' j using that unfolding var_linked_def by blast
  then show ?thesis using assms(1,2,6) by (auto simp: node_settled_def)
qed

lemma explore_node_settles:
  assumes ok: "graph_ok p soft g" and os: "others_settled p lim soft key g" and n: "g_nodes g key = Some n" and nd: "\<not> nd_deadlock n"
    and g': "g' = explore_node p lim soft key n g" "\<not> g_pins_differ g'"
  shows "explored p lim soft g' \<and> g_truncated g' = g_truncated g"
proof -
  obtain vs inc u where s: "segments p (segment_limits lim) soft (nd_bpc n) (g_total g) (start_states p n) = (vs, inc, u)"
    by (cases "segments p (segment_limits lim) soft (nd_bpc n) (g_total g) (start_states p n)")
  let ?n = "n\<lparr>nd_variants := vs, nd_incomplete := inc, nd_succs := replicate (length vs) None\<rparr>"
  let ?g = "(put_node key ?n g)\<lparr>g_total := u\<rparr>"
  have nok: "node_ok p soft (g_wide g) key n" using ok n by (simp add: graph_ok_def nodes_ok_def)
  have "node_ok p soft (g_wide g) key ?n" using nok by (cases key) (simp_all add: node_ok_def)
  then have ok1: "graph_ok p soft ?g" using ok n by (auto simp: graph_ok_def nodes_ok_def put_node_def)
  have "others_settled p lim soft key ?g"
    unfolding others_settled_def
  proof (intro ballI impI)
    fix m assume "m \<in> set (g_order ?g)" "m \<noteq> key"
    then show "m \<in> set (g_queue ?g) \<or> node_settled p lim soft ?g m"
      using os put_settled [OF _ _ n, of p lim soft m ?n ?g] by (auto simp: others_settled_def put_node_def)
  qed
  then have l0: "linking p lim soft key ?n 0 ?g" using ok1 by (simp add: linking_def put_node_def)
  have ex: "\<forall>v \<in> set (nd_variants ?n). exit_ok p soft v" using segments_exits [OF s start_lengths [OF nok]] by simp
  have fg: "g' = fold (link_variant p (max_contexts lim) soft key) (take (length vs) (enumerate 0 (nd_variants ?n))) ?g"
    by (simp add: g'(1) explore_node_def s)
  have l: "linking p lim soft key ?n (length vs) g' \<and> g_truncated g' = g_truncated ?g"
    by (rule linking_all [OF l0 ex _ fg g'(2)]) simp
  then obtain n' where n': "g_nodes g' key = Some n'" "key \<in> set (g_queue g') \<or> (keeps ?n n' \<and> (\<forall>j < length vs. var_linked p g' n' j))"
    by (auto simp: linking_def)
  have "key \<in> set (g_queue g') \<or> node_settled p lim soft g' key"
  proof (cases "key \<in> set (g_queue g')")
    case False
    then have k: "keeps ?n n'" "\<forall>j < length vs. var_linked p g' n' j" using n'(2) by auto
    have var: "nd_variants n' = vs" "nd_incomplete n' = inc" using k(1) by (simp_all add: keeps_def)
    have "searched p lim soft ?n" if "\<not> inc"
      using that segments_found [of p "segment_limits lim" soft "nd_bpc n" "g_total g" "start_states p n" vs u] s
      by (auto simp: searched_def start_states_def branch_starts_def)
    then show ?thesis using n'(1) k var searched_keeps [OF k(1)] by (auto simp: node_settled_def)
  qed simp
  then show ?thesis using l by (auto simp: explored_def linking_def others_settled_def put_node_def)
qed

lemma step_cut: "cut_short g \<Longrightarrow> cut_short (explore_step p lim soft key g)"
proof -
  have "cut_short (fold (link_variant p c soft key) kvs h)" if "cut_short h" for c kvs and h :: graph
    using that
  proof (induction kvs arbitrary: h)
    case (Cons kv kvs)
    have "g_truncated (link_variant p c soft key kv h) = g_truncated h"
      by (auto simp: link_variant_def node_for_def enqueue_def alter_node_def put_node_def widen_def Let_def
        split: vend.splits option.splits prod.splits if_splits)
    then have "cut_short (link_variant p c soft key kv h)"
      using Cons.prems link_pins [where kv = kv and g = h] by (auto simp only: cut_short_def)
    then show ?case using Cons.IH by simp
  qed simp
  then show "cut_short g \<Longrightarrow> cut_short (explore_step p lim soft key g)"
    by (auto simp: explore_step_def explore_node_def Let_def cut_short_def alter_node_def put_node_def split: prod.splits)
qed

lemma step_explored:
  assumes "cut_short g \<or> explored p lim soft g" "g_queue g = key # rest"
  shows "cut_short (explore_step p lim soft key (g\<lparr>g_queue := rest\<rparr>)) \<or> explored p lim soft (explore_step p lim soft key (g\<lparr>g_queue := rest\<rparr>))"
proof (cases "cut_short (explore_step p lim soft key (g\<lparr>g_queue := rest\<rparr>))")
  case False
  let ?g = "g\<lparr>g_queue := rest\<rparr>"
  have "\<not> cut_short ?g" using False step_cut by blast
  then have ex: "explored p lim soft g" using assms(1) by (simp add: cut_short_def)
  then have ok: "graph_ok p soft ?g" using assms(2) by (auto simp: explored_def graph_ok_def nodes_ok_def)
  have sett: "node_settled p lim soft ?g m = node_settled p lim soft g m" for m by (simp add: node_settled_def var_linked_def leads_def)
  have os: "others_settled p lim soft key ?g" using ex assms(2) by (auto simp: others_settled_def explored_def sett)
  have "g_nodes g key \<noteq> None" using ex assms(2) unfolding explored_def graph_ok_def by auto
  then obtain n where n: "g_nodes g key = Some n" by auto
  show ?thesis
  proof (cases "nd_deadlock n")
    case True
    then have "node_settled p lim soft ?g key" using n by (auto simp: node_settled_def)
    then have "explored p lim soft ?g" using ok os by (auto simp: explored_def others_settled_def)
    then show ?thesis using True n by (simp add: explore_step_def)
  next
    case nd: False
    show ?thesis
    proof (cases "g_total g > total_events (segment_limits lim)")
      case True
      then show ?thesis using nd n False by (simp add: explore_step_def alter_node_def cut_short_def)
    next
      case le: False
      then have st: "explore_step p lim soft key ?g = explore_node p lim soft key n ?g" using nd n by (simp add: explore_step_def)
      then have "\<not> g_pins_differ (explore_node p lim soft key n ?g)" using False by (simp add: cut_short_def)
      then show ?thesis using explore_node_settles [OF ok os _ nd refl] n st by simp
    qed
  qed
qed simp

lemma loop_explored:
  "cut_short g \<or> explored p lim soft g \<Longrightarrow>
     cut_short (explore_loop p lim soft g) \<or> (explored p lim soft (explore_loop p lim soft g) \<and> g_queue (explore_loop p lim soft g) = [])"
proof (induction p lim soft g rule: explore_loop.induct)
  case (1 p lim soft g)
  show ?case
  proof (cases "g_queue g")
    case Nil
    then show ?thesis using 1(2) by (simp add: explore_loop.simps [of p lim soft g])
  next
    case (Cons key rest)
    then show ?thesis using 1(1) [OF Cons] step_explored [OF 1(2) Cons] by (simp add: explore_loop.simps [of p lim soft g])
  qed
qed

lemma explore_settled:
  assumes "g = explore_graph p lim cyc" "\<not> cut_short g"
  shows "graph_ok p (soft_branches p cyc) g \<and> (\<forall>m \<in> set (g_order g). node_settled p lim (soft_branches p cyc) g m)"
  using loop_explored [of start_graph p lim "soft_branches p cyc"] explored_start [of p lim "soft_branches p cyc"] assms
  by (auto simp: explore_graph_def explored_def)

end
