(* ===== verification/Timing_Chip.thy ===== *)
theory Timing_Chip
  imports Timing_Wait Chip_Edge
begin

text \<open>
  The runs of the timing analyser on the chip: as long as the host does not command an engine, the
  edges of the chip move it exactly as the analyser assumes, whatever pins, queues and mailboxes do.
\<close>

section \<open>One edge\<close>

definition undisturbed :: "config \<Rightarrow> chip \<Rightarrow> int \<Rightarrow> int \<Rightarrow> bool" where
  "undisturbed cfg r ui i \<longleftrightarrow> (let r1 = host_edge cfg r ui in
     eng r1 i = eng r i \<and> i \<notin> r_starts r1 \<and> i \<notin> r_stops r1)"

lemma touched_append:
  assumes "touched e e'"
  shows "touched e (e'\<lparr>e_tx := q\<rparr>)" "touched e (e'\<lparr>e_rx := q\<rparr>)" "touched e (e'\<lparr>e_event := b\<rparr>)" "touched e (e'\<lparr>e_stalled := b\<rparr>)"
proof -
  obtain tx rx ev tr s where e': "e' = e\<lparr>e_tx := tx, e_rx := rx, e_event := ev, e_trigger := tr, e_stalled := s\<rparr>"
    using assms by (auto simp: touched_def)
  show "touched e (e'\<lparr>e_tx := q\<rparr>)" unfolding touched_def e'
    by (rule exI [of _ q], rule exI [of _ rx], rule exI [of _ ev], rule exI [of _ tr], rule exI [of _ s]) simp
  show "touched e (e'\<lparr>e_rx := q\<rparr>)" unfolding touched_def e'
    by (rule exI [of _ tx], rule exI [of _ q], rule exI [of _ ev], rule exI [of _ tr], rule exI [of _ s]) simp
  show "touched e (e'\<lparr>e_event := b\<rparr>)" unfolding touched_def e'
    by (rule exI [of _ tx], rule exI [of _ rx], rule exI [of _ b], rule exI [of _ tr], rule exI [of _ s]) simp
  show "touched e (e'\<lparr>e_stalled := b\<rparr>)" unfolding touched_def e'
    by (rule exI [of _ tx], rule exI [of _ rx], rule exI [of _ ev], rule exI [of _ tr], rule exI [of _ b]) simp
qed

lemma touched_refl: "touched e e"
  unfolding touched_def by (cases e) auto

lemma change_touches: "apply_change e ch tk sg = Some e' \<Longrightarrow> touched e e'"
  by (auto simp: apply_change_def pop_tx_def pop_rx_def Let_def touched_refl bind_eq_Some_conv split: prod.splits if_splits list.splits
    intro!: touched_append)

lemma append_touches: "touched e (es ! j) \<Longrightarrow> j < length es \<Longrightarrow> touched e (append_tx es i x ! j)"
  using touched_append(1) by (auto simp: append_tx_nth)

lemma finish_touches:
  assumes "nat i < length es" "touched e (es ! nat i)"
  shows "touched e (eng (finish_edge cfg r es t m pins) i)"
  using assms by (auto simp: finish_edge_def Let_def eng_def intro!: touched_append append_touches split: option.splits prod.splits)

lemma chip_moves:
  assumes "config_ok cfg" "wf_chip cfg r" "tick cfg r ui pins False True = Some (r', out)" "engine_no cfg i" "undisturbed cfg r ui i"
  shows "moves cfg (eng r i) (eng r' i)"
proof -
  obtain r1 host_rx w where hp: "host_phase cfg r ui = (r1, host_rx, w)" by (cases "host_phase cfg r ui") auto
  have r1: "host_edge cfg r ui = r1" using host_phase_edge [of cfg r ui] hp by simp
  have u: "eng r1 i = eng r i" "i \<notin> r_starts r1" "i \<notin> r_stops r1" using assms(5) by (simp_all add: undisturbed_def Let_def r1)
  define txc where "txc = map (\<lambda>e. int (length (e_tx e))) (r_engines r)"
  define rxc where "rxc = map (\<lambda>e. int (length (e_rx e))) (r_engines r)"
  obtain r2 dma steps es where ph: "step_engines cfg r2 (map e_event (r_engines r)) txc rxc = Some steps"
    and dm: "\<exists>heads reserved. dma_move cfg r1 txc rxc heads reserved w = (r2, dma)"
    and ch: "\<exists>signals. apply_changes steps host_rx dma signals = Some es"
    and r': "\<exists>t. r' = finish_edge cfg r2 es t dma pins"
    using assms(3) unfolding tick_def hp Let_def engine_phase_def txc_def [symmetric] rxc_def [symmetric]
    by (auto simp: bind_eq_Some_conv split: prod.splits) (metis (lifting))
  have r2: "eng r2 i = eng r1 i" "r_starts r2 = r_starts r1" "r_stops r2 = r_stops r1" "r_engines r2 = r_engines r1"
    using dm by (auto elim!: dma_move_cases simp: eng_def)
  have len: "length (r_engines r) = n_eng cfg" using assms(2) by (simp add: wf_chip_def wf_engines_def)
  have len2: "length (r_engines r2) = n_eng cfg"
    using wf_host_phase [OF assms(1,2) hp] wf_core_len r2(4) by (auto simp: mid_ok_def)
  have i: "nat i < n_eng cfg" "int (nat i) = i" using engine_no_nat [OF assms(4)] assms(4) by (auto simp: engine_no_def)
  have "py_range (int (length (r_engines r2))) ! nat i = i" "nat i < length (py_range (int (length (r_engines r2))))"
    using i len2 by (simp_all add: py_range_def)
  with those_map_nth [OF ph [unfolded step_engines_def], of "nat i"]
  have se: "step_engine cfg r2 (map e_event (r_engines r)) txc rxc i = Some (steps ! nat i)" by simp
  have ev: "map e_event (r_engines r) ! nat i = e_event (eng r i)" using i len by (simp add: eng_def)
  have "(eng r2 i)\<lparr>e_event := map e_event (r_engines r) ! nat i\<rparr> = eng r i" unfolding ev r2(1) u(1) by (cases "eng r i") simp
  then have st: "step cfg (r_sync2 r2) (r_timestamp r2) (eng r i) (txc ! nat i \<noteq> 0) (rxc ! nat i < cfg_fifo_words cfg) = Some (steps ! nat i)"
    using se u r2 by (simp add: step_engine_def)
  have ls: "length steps = n_eng cfg"
  proof -
    have "length (the (those xs)) = length xs" if "those xs \<noteq> None" for xs :: "(engine \<times> change) option list"
      using that by (induction xs) (auto split: option.splits)
    from this [of "map (step_engine cfg r2 (map e_event (r_engines r)) txc rxc) (py_range (int (length (r_engines r2))))"]
    show ?thesis using ph len2 by (simp add: step_engines_def py_range_def)
  qed
  obtain signals where sg: "apply_changes steps host_rx dma signals = Some es" using ch by blast
  have pr: "py_range (int (length steps)) ! nat i = i" "nat i < length (py_range (int (length steps)))" using i ls by (simp_all add: py_range_def)
  obtain e1 pop push sgn where e1: "steps ! nat i = (e1, pop, push, sgn)" by (cases "steps ! nat i") auto
  have "apply_change e1 (pop, push, sgn) (host_rx = Some i \<or> (\<exists>d. dma = Some (i, d))) (has_bit signals i) = Some (es ! nat i)"
    using those_map_nth [OF sg [unfolded apply_changes_def] pr(2)] pr(1) e1 by simp
  then have t: "touched e1 (es ! nat i)" by (rule change_touches)
  have "length es = n_eng cfg"
  proof -
    have "length (the (those xs)) = length xs" if "those xs \<noteq> None" for xs :: "engine option list"
      using that by (induction xs) (auto split: option.splits)
    from this [of "map (\<lambda>i. case steps ! nat i of (e, ch) \<Rightarrow>
              apply_change e ch (host_rx = Some i \<or> (\<exists>d. dma = Some (i, d))) (has_bit signals i)) (py_range (int (length steps)))"]
    show ?thesis using sg ls by (simp add: apply_changes_def py_range_def)
  qed
  then have "touched e1 (eng r' i)" using r' finish_touches [OF _ t] i by auto
  then show ?thesis using st e1 unfolding moves_def by (intro exI conjI) auto
qed

section \<open>Runs\<close>

text \<open>The edges of a chip on which the host does not disturb the engine.\<close>

definition chip_run :: "config \<Rightarrow> (nat \<Rightarrow> chip) \<Rightarrow> int \<Rightarrow> bool" where
  "chip_run cfg rs i \<longleftrightarrow> wf_chip cfg (rs 0) \<and>
     (\<forall>k. \<exists>ui pins out. tick cfg (rs k) ui pins False True = Some (rs (Suc k), out) \<and> undisturbed cfg (rs k) ui i)"

lemma chip_run_wf: "config_ok cfg \<Longrightarrow> chip_run cfg rs i \<Longrightarrow> wf_chip cfg (rs k)"
  by (induction k) (auto simp: chip_run_def intro: tick_edge(1))

lemma chip_run_moves:
  assumes "config_ok cfg" "chip_run cfg rs i" "engine_no cfg i"
  shows "moves cfg (eng (rs k) i) (eng (rs (Suc k)) i)"
proof -
  obtain ui pins out where "tick cfg (rs k) ui pins False True = Some (rs (Suc k), out)" "undisturbed cfg (rs k) ui i"
    using assms(2) unfolding chip_run_def by blast
  then show ?thesis using chip_moves [OF assms(1) chip_run_wf [OF assms(1,2)]] assms(3) by blast
qed

lemma wf_fed:
  assumes "\<And>k. wf_engine (config_of (tp_arch p)) (es k)"
  shows "fed p es"
  using assms by (auto simp: fed_def wf_engine_def wf_queue_def word_in_def list_all_iff cfg_width_of)

lemma chip_run_fed:
  assumes "config_ok (config_of (tp_arch p))" "chip_run (config_of (tp_arch p)) rs i" "engine_no (config_of (tp_arch p)) i"
  shows "fed p (\<lambda>k. eng (rs k) i)"
proof -
  have "wf_engine (config_of (tp_arch p)) (eng (rs k) i)" for k
    using chip_run_wf [OF assms(1,2)] assms(3) wf_engines_eng by (auto simp: wf_chip_def)
  then show ?thesis by (rule wf_fed)
qed

text \<open>A started engine is in the state the analyser starts from.\<close>

lemma start_at_issue: "holds_program p e \<Longrightarrow> at_issue p START_STATE (start e)"
proof -
  assume "holds_program p e"
  have "known_bits 255 0 0" by (simp add: known_bits_def)
  moreover have "known_regs p [Some 0, Some 0, Some 0, Some 0] [0, 0, 0, 0]"
    by (auto simp: known_regs_def less_Suc_eq numeral_eq_Suc)
  ultimately show ?thesis using \<open>holds_program p e\<close>
    by (simp add: at_issue_def issuing_def holds_program_def represents_def start_def START_STATE_def RESET_LIMIT_def small_pins_def)
qed

text \<open>The pads the analyser speaks of are those the chip drives: an owned pin of an engine that drives has the
  enable and the level of the chip's outputs.\<close>

lemma pad_on_chip:
  assumes "holds_program p e" "drives e" "owned_pin p pin"
  shows "pad_now p e pin = (if has_bit (pad_enables e) pin then (if has_bit (pad_values e) pin then P1 else P0) else PZ)"
proof -
  have "bit (tp_ownership p) (nat pin)"
    using assms(3) bit_at_of_bool [of "tp_ownership p" pin] by (simp add: owned_pin_def bit_at_def split: if_splits)
  then show ?thesis
    using assms(1,2) by (auto simp: pad_now_def pad_enables_def pad_values_def holds_program_def has_bit_iff bit_simps)
qed

end
