(* ===== verification/Timing_Props.thy ===== *)
theory Timing_Props
  imports Timing_Explore Timing_Chip
begin

text \<open>
  The properties of the timing analyser: what its segments and its boundary graph say of the runs
  of an engine, and how an engine of the chip makes such a run.
\<close>

section \<open>A run to try the properties on\<close>

text \<open>An engine stepped on its own, without input.\<close>

primrec engine_run :: "config \<Rightarrow> engine \<Rightarrow> nat \<Rightarrow> engine" where
  "engine_run c e 0 = e"
| "engine_run c e (Suc k) = (case step c 0 0 (engine_run c e k) False True of Some (e', _) \<Rightarrow> e' | None \<Rightarrow> engine_run c e k)"

definition demo :: "int list \<Rightarrow> tprogram" where
  "demo ws = \<lparr>tp_arch = \<lparr>ar_engines = 2, ar_width = 16, ar_program_words = 32, ar_fifo_words = 8, ar_fused = True, ar_prefetch = False\<rparr>,
     tp_ownership = 1, tp_open_drain = 0, tp_words = ws\<rparr>"

definition demo_engine :: "int list \<Rightarrow> engine" where
  "demo_engine ws = start (new_engine\<lparr>e_program := ws, e_committed := True, e_ownership := 1\<rparr>)"

definition demo_limits :: tlimits where
  "demo_limits = \<lparr>max_variants = 9, max_events = 40, total_events = 99\<rparr>"

abbreviation demo_run :: "int list \<Rightarrow> nat \<Rightarrow> engine" where
  "demo_run ws \<equiv> engine_run (config_of (tp_arch (demo ws))) (demo_engine ws)"

text \<open>\<open>DIR 1; SET 1; WAIT 2; HALT\<close>, and \<open>WAITPIN 3, 1; HALT\<close>.\<close>

definition pulse_words :: "int list" where
  "pulse_words = [0x03000001, 0x02000001, 0x04000002, 0x01000000]"

definition wait_words :: "int list" where
  "wait_words = [0x0D030100, 0x01000000]"

lemma step_no_tx: "step c s ts e False rs \<noteq> None"
proof -
  have "execute c s ts e' w False rs \<noteq> None" for e' w
    by (cases "word_op w" rule: opcode_cases)
      (auto simp: execute_def Let_def retire_def quiet_def exec_pull_def exec_push_def exec_wait_def exec_xfer_def split: prod.splits)
  then show ?thesis by (auto simp: step_def Let_def quiet_def split: option.splits)
qed

lemma engine_run_moves: "moves c (engine_run c e k) (engine_run c e (Suc k))"
proof -
  obtain e' pop push sig where "step c 0 0 (engine_run c e k) False True = Some (e', pop, push, sig)"
    using step_no_tx [of c 0 0 "engine_run c e k" True] by (cases "step c 0 0 (engine_run c e k) False True") auto
  then show ?thesis unfolding moves_def using touched_refl [of e'] by (intro exI conjI) auto
qed

lemma demo_runs: "run_of (demo ws) (demo_run ws)"
  by (simp add: run_of_def engine_run_moves del: engine_run.simps)

lemma demo_started: "at_issue (demo ws) START_STATE (demo_run ws 0)"
proof -
  have "holds_program (demo ws) (new_engine\<lparr>e_program := ws, e_committed := True, e_ownership := 1\<rparr>)"
    by (simp add: holds_program_def demo_def new_engine_def)
  from start_at_issue [OF this] show ?thesis by (simp add: demo_engine_def)
qed

lemma demo_ok: "\<forall>w \<in> set ws. 0 \<le> w \<and> w < 2 ^ 32 \<Longrightarrow> prog_ok (demo ws)"
  by (simp add: prog_ok_def demo_def config_of_def config_ok_def)

section \<open>Segments\<close>

text \<open>C33: The exploration of a segment is sound for the engine of the reference model: when the budget suffices,
  every run of an engine from a state the abstract state represents follows one of the variants. It
  issues exactly the instructions of the variant, at exactly their cycles, until it arrives at the
  boundary, halts, faults or closes the loop as the variant says (or stops with fault 4 at a strict
  push the variant lists), and whenever an owned pad changes, the variant has a pad event at that
  cycle and pin whose sets contain the old and the new state.\<close>

theorem segment_covers_run:
  assumes "run_of p es" "prog_ok p" "at_issue p st (es 0)" "segment p lim soft used st t0 bpc = (vs, False, used')"
  shows "\<exists>v \<in> set vs. follows_variant p es t0 v"
  by (rule segment_follows [OF assms])

lemma segment_covers_run_witness:
  "\<exists>v \<in> set (fst (segment (demo pulse_words) demo_limits [] 0 START_STATE 1 (-1))).
     follows_variant (demo pulse_words) (demo_run pulse_words) 1 v"
proof (rule segment_covers_run [OF demo_runs demo_ok demo_started])
  show "\<forall>w \<in> set pulse_words. 0 \<le> w \<and> w < 2 ^ 32" by (simp add: pulse_words_def)
  have "\<not> fst (snd (segment (demo pulse_words) demo_limits [] 0 START_STATE 1 (-1)))" by code_simp
  then show "segment (demo pulse_words) demo_limits [] 0 START_STATE 1 (-1) =
      (fst (segment (demo pulse_words) demo_limits [] 0 START_STATE 1 (-1)), False,
       snd (snd (segment (demo pulse_words) demo_limits [] 0 START_STATE 1 (-1))))"
    by (simp add: prod_eq_iff)
qed

section \<open>The boundary graph\<close>

lemma node_covers:
  assumes "g = explore_graph p lim cyc" "\<not> cut_short g" "g_nodes g key = Some n" "\<not> nd_deadlock n" "\<not> nd_incomplete n"
  shows "searched p lim (soft_branches p cyc) n" "\<forall>j < length (nd_variants n). var_linked p g n j"
proof -
  have "node_settled p lim (soft_branches p cyc) g key"
    using explore_settled [OF assms(1,2)] assms(3) by (auto simp: graph_ok_def)
  then show "searched p lim (soft_branches p cyc) n" "\<forall>j < length (nd_variants n). var_linked p g n j"
    using assms(3-5) by (auto simp: node_settled_def)
qed

text \<open>C34: The boundary graph covers the engine from boundary to boundary: when the exploration was not cut short,
  every run from a start state of a complete node follows one of the node's variants, and every
  boundary at which a variant ends is a node of the graph at that address whose context represents
  whatever the arrival state represents, also where contexts were joined.\<close>

theorem graph_covers_runs:
  assumes "g = explore_graph p lim cyc" "\<not> cut_short g" "g_nodes g key = Some n" "\<not> nd_deadlock n" "\<not> nd_incomplete n"
    and "prog_ok p" "run_of p es" "s \<in> set (start_states p n)" "at_issue p s (es 0)"
  shows "\<exists>v \<in> set (nd_variants n). follows_variant p es 1 v \<and>
     (\<forall>t b st. v_end v = E_boundary t b \<and> v_exit v = Some st \<longrightarrow>
        (\<exists>sk m. g_nodes g sk = Some m \<and> nd_bpc m = b \<and> (\<forall>e. at_issue p st e \<longrightarrow> at_issue p (nd_state m) e)))"
proof -
  note c = node_covers [OF assms(1-5)]
  obtain u vs u' where seg: "segment p (segment_limits lim) (soft_branches p cyc) u s 1 (nd_bpc n) = (vs, False, u')"
    "set vs \<subseteq> set (nd_variants n)" using c(1) assms(8) unfolding searched_def by blast
  obtain v where v: "v \<in> set (nd_variants n)" "follows_variant p es 1 v"
    using segment_follows [OF assms(7,6,9) seg(1)] seg(2) by blast
  then obtain j where "j < length (nd_variants n)" "nd_variants n ! j = v" by (metis in_set_conv_nth)
  then have "var_linked p g n j" "nd_variants n ! j = v" using c(2) by auto
  then have "\<exists>sk m. g_nodes g sk = Some m \<and> nd_bpc m = b \<and> (\<forall>e. at_issue p st e \<longrightarrow> at_issue p (nd_state m) e)"
    if "v_end v = E_boundary t b" "v_exit v = Some st" for t b st
    using that below_issue unfolding var_linked_def leads_def by blast
  then show ?thesis using v by blast
qed

abbreviation demo_graph :: "int list \<Rightarrow> graph" where
  "demo_graph ws \<equiv> explore_graph (demo ws) \<lparr>max_contexts = 2, segment_limits = demo_limits\<rparr> []"

abbreviation demo_node :: "int list \<Rightarrow> tnode" where
  "demo_node ws \<equiv> the (g_nodes (demo_graph ws) K_start)"

lemma graph_covers_runs_witness:
  "\<exists>v \<in> set (nd_variants (demo_node wait_words)). follows_variant (demo wait_words) (demo_run wait_words) 1 v \<and>
     (\<forall>t b st. v_end v = E_boundary t b \<and> v_exit v = Some st \<longrightarrow>
        (\<exists>sk m. g_nodes (demo_graph wait_words) sk = Some m \<and> nd_bpc m = b \<and>
           (\<forall>e. at_issue (demo wait_words) st e \<longrightarrow> at_issue (demo wait_words) (nd_state m) e)))"
proof (rule graph_covers_runs [OF refl _ _ _ _ demo_ok demo_runs _ demo_started])
  show "\<not> cut_short (demo_graph wait_words)" "\<not> nd_deadlock (demo_node wait_words)" "\<not> nd_incomplete (demo_node wait_words)"
    "START_STATE \<in> set (start_states (demo wait_words) (demo_node wait_words))" by code_simp+
  have "\<not> Option.is_none (g_nodes (demo_graph wait_words) K_start)" by code_simp
  then show "g_nodes (demo_graph wait_words) K_start = Some (demo_node wait_words)" by (simp add: Option.is_none_def)
  show "\<forall>w \<in> set wait_words. 0 \<le> w \<and> w < 2 ^ 32" by (simp add: wait_words_def)
qed

section \<open>Boundaries\<close>

lemma branch_passes:
  assumes mv: "moves (config_of (tp_arch p)) e e'" and ok: "prog_ok p" and a: "at_issue p st e" "in_range p (as_pc st)" "fault_at p (as_pc st) = 0"
    and i: "in_op (ins_at p (as_pc st)) \<in> {JZ, LOOP}" and n: "nd_state n = st" "nd_bpc n = as_pc st"
    and unknown: "in_op (ins_at p (as_pc st)) = LOOP \<longrightarrow> as_repeat st = None"
  shows "\<exists>s \<in> set (branch_starts p n). at_issue p s e'"
proof -
  let ?e = "e\<lparr>e_stalled := False\<rparr>" and ?w = "ins_word p (as_pc st)" and ?i = "ins_at p (as_pc st)"
  obtain s ts ta rs e1 pop push sig where x: "exec_case p st ?e ?w" "ins_of ?e ?w = ?i"
      "run_word p s ts ?e ?w ta rs = Some (e1, pop, push, sig)" "touched e1 e'"
    using exec_issue [OF mv ok a] by blast
  note f = ins_of_fields [OF x(1), unfolded x(2)] and d = exec_caseD [OF x(1)] and at = at_issue_touched [OF x(4)]
  have rep: "represents p st e" "issuing e" "holds_program p e" "e_pc e = as_pc st" using a(1) d(1) by (simp_all add: at_issue_def)
  consider (jz) "word_op ?w = 26" | (loop) "word_op ?w = 11" using i f by (auto simp: op_defs)
  then show ?thesis
  proof cases
    case jz
    have e1: "e1 = ?e\<lparr>e_pc := if reg e (word_a ?w) = 0 then word_imm16 ?w else as_pc st + 1, e_completed := (e_completed e + 1) AND 0xFFFFFFFF\<rparr>"
      using x(3) jz rep(4) by (auto simp: execute_def Let_def retire_def reg_def split: if_splits)
    let ?to = "st\<lparr>as_pc := word_imm16 ?w, as_regs := (as_regs st)[nat (word_a ?w) := Some 0]\<rparr>" and ?on = "st\<lparr>as_pc := as_pc st + 1\<rparr>"
    have st: "set (branch_starts p n) = {?to, ?on}" using jz f rep(4) by (auto simp: branch_starts_def n op_defs)
    show ?thesis
    proof (cases "reg e (word_a ?w) = 0")
      case True
      have "nat (word_a ?w) < 4" using operand_ok(1,8) [OF x(1)] jz by simp
      then have "known_regs p ((as_regs st)[nat (word_a ?w) := Some 0]) (e_regs e)"
        using known_put [OF d(2), of 0 "Some 0" "nat (word_a ?w)"] True list_update_id [of "e_regs e" "nat (word_a ?w)"] by (simp add: reg_def)
      then have "at_issue p ?to e1"
        using rep True by (auto simp: at_issue_def e1 issuing_def holds_program_def represents_def)
      then show ?thesis using st at by auto
    next
      case False
      then have "at_issue p ?on e1" using rep by (auto simp: at_issue_def e1 issuing_def holds_program_def represents_def)
      then show ?thesis using st at by auto
    qed
  next
    case loop
    have e1: "e1 = ?e\<lparr>e_repeat := if e_repeat e \<noteq> 0 then e_repeat e - 1 else 0, e_pc := if e_repeat e \<noteq> 0 then word_imm24 ?w else as_pc st + 1,
        e_completed := (e_completed e + 1) AND 0xFFFFFFFF\<rparr>"
      using x(3) loop rep(4) by (cases e) (auto simp: execute_def Let_def retire_def)
    let ?to = "st\<lparr>as_pc := word_imm24 ?w\<rparr>" and ?on = "st\<lparr>as_pc := as_pc st + 1, as_repeat := Some 0\<rparr>"
    have st: "set (branch_starts p n) = {?to, ?on}" using loop f rep(4) by (auto simp: branch_starts_def n op_defs)
    show ?thesis
    proof (cases "e_repeat e = 0")
      case True
      then have "at_issue p ?on e1" using rep by (auto simp: at_issue_def e1 issuing_def holds_program_def represents_def)
      then show ?thesis using st at by auto
    next
      case False
      have "as_repeat st = None" using unknown f loop by (simp add: op_defs)
      then have "at_issue p ?to e1" using rep False by (auto simp: at_issue_def e1 issuing_def holds_program_def represents_def)
      then show ?thesis using st at by auto
    qed
  qed
qed

text \<open>C35: At a node of the graph, one cycle of the engine either passes the boundary into one of the node's start
  states, from which its segments are explored, or stalls there with its pads unchanged (never at a
  branch), or times out with fault 3 (at a \<open>WAITPIN\<close> or a \<open>WAITEVENT\<close> only).\<close>

theorem boundary_is_covered:
  assumes "g = explore_graph p lim cyc" "\<not> cut_short g" "g_nodes g key = Some n" "key \<noteq> K_start"
    and "prog_ok p" "run_of p es" "fed p es" "at_issue p (nd_state n) (es k)"
  shows "(\<exists>s \<in> set (start_states p n). at_issue p s (es (Suc k))) \<or>
     (nd_kind n \<noteq> BLOCK_BRANCH \<and> at_issue p (nd_state n) (es (Suc k)) \<and> pad_now p (es (Suc k)) = pad_now p (es k)) \<or>
     (waits (ins_at p (nd_bpc n)) \<and> stopped (es (Suc k)) \<and> e_fault (es (Suc k)) = 3)"
proof -
  let ?soft = "soft_branches p cyc" and ?i = "ins_at p (nd_bpc n)" and ?st = "nd_state n"
  have mv: "moves (config_of (tp_arch p)) (es k) (es (Suc k))" using assms(6) by (simp add: run_of_def)
  have "node_ok p ?soft (g_wide g) key n" using explore_settled [OF assms(1,2)] assms(3) by (simp add: graph_ok_def nodes_ok_def)
  then have pl: "place_ok p ?soft (nd_bpc n) ?st" and kind: "nd_kind n = node_kind p ?soft (nd_bpc n)"
    using assms(4) by (auto simp: node_ok_def split: nkey.splits)
  have pc: "as_pc ?st = nd_bpc n" and ir: "in_range p (as_pc ?st)" "fault_at p (as_pc ?st) = 0" using pl by (auto simp: place_ok_def)
  have no_start: "nd_kind n \<noteq> ''start''"
    by (simp add: kind node_kind_def BLOCK_BRANCH_def blocking_class_def)
  show ?thesis
  proof (cases "nd_bpc n \<in> set ?soft")
    case True
    then have op: "in_op ?i \<in> {JZ, LOOP}" by (simp add: soft_branches_def)
    then have "soft_here ?soft ?st ?i" using pl by (auto simp: place_ok_def blocks_def op_defs)
    then have unk: "in_op (ins_at p (as_pc ?st)) = LOOP \<longrightarrow> as_repeat ?st = None" by (auto simp: soft_here_def op_defs pc)
    have op': "in_op (ins_at p (as_pc ?st)) \<in> {JZ, LOOP}" using op by (simp only: pc)
    have "\<exists>s \<in> set (branch_starts p n). at_issue p s (es (Suc k))"
      by (rule branch_passes [OF mv assms(5,8) ir op' refl pc [symmetric] unk])
    then show ?thesis using True no_start kind by (simp add: start_states_def node_kind_def)
  next
    case False
    then have nb: "nd_kind n \<noteq> BLOCK_BRANCH" by (simp add: kind node_kind_def BLOCK_BRANCH_def blocking_class_def)
    have bl: "blocks ?i" using pl False by (auto simp: place_ok_def soft_here_def pc)
    have tx: "\<forall>x \<in> set (e_tx (es k)). 0 \<le> x \<and> x < 2 ^ W p" using assms(7) by (simp add: fed_def)
    have ss: "start_states p n = [after_block ?i ?st]" using no_start nb by (simp add: start_states_def after_block_def pc Let_def)
    show ?thesis
      by (cases rule: block_cases [OF mv assms(5,8) ir, of ?i, unfolded pc, OF refl bl tx]) (use nb ss in auto)
  qed
qed

definition demo_key :: nkey where
  "demo_key = K_context 0 START_STATE"

abbreviation demo_wait :: tnode where
  "demo_wait \<equiv> the (g_nodes (demo_graph wait_words) demo_key)"

lemma engine_run_wf: "config_ok c \<Longrightarrow> wf_engine c e \<Longrightarrow> wf_engine c (engine_run c e k)"
proof (induction k)
  case (Suc k)
  then show ?case using good_step [of c "engine_run c e k" False True 0 0]
    by (auto simp: good_result_def split: option.splits)
qed simp

lemma demo_wf: "wf_engine (config_of (tp_arch (demo wait_words))) (demo_engine wait_words)"
  by (simp add: wf_engine_def wf_program_def wf_regs_def wf_queue_def wf_parts word_in_def demo_engine_def start_def new_engine_def
    demo_def config_of_def wait_words_def)

lemma demo_fed: "fed (demo wait_words) (demo_run wait_words)"
proof (rule wf_fed)
  have "config_ok (config_of (tp_arch (demo wait_words)))" by (simp add: demo_def config_of_def config_ok_def)
  then show "wf_engine (config_of (tp_arch (demo wait_words))) (demo_run wait_words k)" for k by (rule engine_run_wf [OF _ demo_wf])
qed

lemma boundary_is_covered_witness:
  "(\<exists>s \<in> set (start_states (demo wait_words) demo_wait). at_issue (demo wait_words) s (demo_run wait_words (Suc 0))) \<or>
     (nd_kind demo_wait \<noteq> BLOCK_BRANCH \<and> at_issue (demo wait_words) (nd_state demo_wait) (demo_run wait_words (Suc 0)) \<and>
        pad_now (demo wait_words) (demo_run wait_words (Suc 0)) = pad_now (demo wait_words) (demo_run wait_words 0)) \<or>
     (waits (ins_at (demo wait_words) (nd_bpc demo_wait)) \<and> stopped (demo_run wait_words (Suc 0)) \<and>
        e_fault (demo_run wait_words (Suc 0)) = 3)"
proof (rule boundary_is_covered [OF refl _ _ _ demo_ok demo_runs demo_fed])
  show "\<not> cut_short (demo_graph wait_words)" by code_simp
  have "\<not> Option.is_none (g_nodes (demo_graph wait_words) demo_key)" by code_simp
  then show "g_nodes (demo_graph wait_words) demo_key = Some demo_wait" by (simp add: Option.is_none_def)
  show "\<forall>w \<in> set wait_words. 0 \<le> w \<and> w < 2 ^ 32" by (simp add: wait_words_def)
  have "nd_state demo_wait = START_STATE" by code_simp
  then show "at_issue (demo wait_words) (nd_state demo_wait) (demo_run wait_words 0)" by (simp only: demo_started)
qed (simp add: demo_key_def)

text \<open>C36: A bounded wait is over within its limit: an engine that arrives at a \<open>WAITPIN\<close> or a \<open>WAITEVENT\<close> stays there,
  with its pads unchanged, for fewer stalled cycles than the \<open>LIMIT\<close> of the abstract state (the node's
  \<open>max_stall\<close> is one less), and then completes it or stops with the timeout fault 3.\<close>

theorem wait_within_limit:
  assumes "run_of p es" "prog_ok p" "fed p es" "in_range p (as_pc st)" "fault_at p (as_pc st) = 0" "waits (ins_at p (as_pc st))"
    and "at_issue p st (es m)" "0 \<le> e_blocked (es m)"
  shows "\<exists>k. int k < max 1 (as_limit st) \<and> passes_after p es m st k"
proof -
  obtain k where k: "k < max 1 (nat (e_limit (es m) - e_blocked (es m)))" "passes_after p es m st k"
    using wait_passes [OF assms(1-7) refl] by blast
  have "e_limit (es m) \<le> as_limit st" using assms(7) by (simp add: at_issue_def represents_def)
  then have "int k < max 1 (as_limit st)" using k(1) assms(8) by auto
  then show ?thesis using k(2) by blast
qed

lemma wait_within_limit_witness:
  "\<exists>k. int k < max 1 65535 \<and> passes_after (demo wait_words) (demo_run wait_words) 0 START_STATE k"
proof -
  have w: "\<forall>w \<in> set wait_words. 0 \<le> w \<and> w < 2 ^ 32" by (simp add: wait_words_def)
  have "in_range (demo wait_words) (as_pc START_STATE)" "fault_at (demo wait_words) (as_pc START_STATE) = 0"
    "waits (ins_at (demo wait_words) (as_pc START_STATE))" "0 \<le> e_blocked (demo_run wait_words 0)" by code_simp+
  from wait_within_limit [OF demo_runs demo_ok [OF w] demo_fed this(1-3) demo_started this(4)]
  show ?thesis by (simp add: START_STATE_def RESET_LIMIT_def)
qed

section \<open>Instructions\<close>

lemma abs_cycles: "abs_exec p st t i = Some ef \<Longrightarrow> ae_dt ef = minimum_cycles i"
  by (cases "in_op i" rule: opcode_cases)
    (auto simp: abs_exec_def plain_effect_def minimum_cycles_def Let_def op_defs abs_shift_out_def abs_xfer_def split: option.splits prod.splits if_splits)

text \<open>C37: An instruction that neither blocks nor ends the program takes exactly \<open>minimum_cycles\<close> on the engine:
  the next instruction issues that many cycles later and none in between, unless the engine stops on its first cycle with
  fault 1 (a transfer on pins it may not use) or 4 (a strict push onto a full queue).\<close>

theorem instruction_takes_cycles:
  assumes "run_of p es" "prog_ok p" "at_issue p st (es k)" "in_range p (as_pc st)" "fault_at p (as_pc st) = 0"
    and "\<not> blocks (ins_at p (as_pc st))" "in_op (ins_at p (as_pc st)) \<noteq> HALT" "in_op (ins_at p (as_pc st)) \<noteq> FAULT"
  shows "(\<exists>n. minimum_cycles (ins_at p (as_pc st)) = int (Suc n) \<and> busy es (Suc k) n \<and> issuing (es (k + Suc n))) \<or>
     (stopped (es (Suc k)) \<and> (e_fault (es (Suc k)) = 1 \<or> e_fault (es (Suc k)) = 4))"
proof (cases "abs_exec p st 0 (ins_at p (as_pc st))")
  case None
  then show ?thesis using instruction_sound [OF assms(1-5) refl assms(6-8), of 0] by (simp add: stops_with_def)
next
  case (Some ef)
  then show ?thesis
    using instruction_sound [OF assms(1-5) refl assms(6-8), of 0] abs_cycles [OF Some]
    by (auto simp: stops_with_def runs_to_def at_issue_def)
qed

definition pause_words :: "int list" where
  "pause_words = [0x04000002, 0x01000000]"

lemma instruction_takes_cycles_witness:
  "busy (demo_run pause_words) 1 2 \<and> issuing (demo_run pause_words 3)"
proof -
  have w: "\<forall>w \<in> set pause_words. 0 \<le> w \<and> w < 2 ^ 32" by (simp add: pause_words_def)
  have "in_range (demo pause_words) (as_pc START_STATE)" "fault_at (demo pause_words) (as_pc START_STATE) = 0"
    "\<not> blocks (ins_at (demo pause_words) (as_pc START_STATE))" "in_op (ins_at (demo pause_words) (as_pc START_STATE)) \<noteq> HALT"
    "in_op (ins_at (demo pause_words) (as_pc START_STATE)) \<noteq> FAULT" by code_simp+
  note t = instruction_takes_cycles [OF demo_runs demo_ok [OF w] demo_started this]
  have m: "minimum_cycles (ins_at (demo pause_words) (as_pc START_STATE)) = 3" by code_simp
  have f: "e_fault (demo_run pause_words (Suc 0)) = 0" by code_simp
  from t [unfolded m f] obtain n where n: "3 = int (Suc n)" "busy (demo_run pause_words) (Suc 0) n"
    "issuing (demo_run pause_words (0 + Suc n))" by (auto simp del: engine_run.simps)
  then have "n = 2" by simp
  then show ?thesis using n by (simp add: numeral_3_eq_3 del: engine_run.simps)
qed

text \<open>C38: The static checks of the analyser are those of the reference model: on every instruction word, \<open>static_fault\<close> is the
  fault the engine's operand and ownership checks raise when the word is issued, and 0 when they let it pass.\<close>

theorem static_check_agrees:
  assumes "0 \<le> w" "w < 2 ^ 32"
  shows "static_fault (decode_ins w pc) ar own = (case operand_check (config_of ar) w of
     Some code \<Rightarrow> code | None \<Rightarrow> if ownership_check own w then PIN_OWNERSHIP else 0)"
  by (rule static_fault_check [OF assms])

lemma static_check_agrees_witness:
  "static_fault (decode_ins 0x08020001 7) (tp_arch (demo [])) 1 = 1"
proof -
  have "operand_check (config_of (tp_arch (demo []))) 0x08020001 = None" "ownership_check 1 0x08020001" by code_simp+
  then show ?thesis using static_check_agrees [of "0x08020001" 7 "tp_arch (demo [])" 1] by simp
qed

section \<open>The chip\<close>

text \<open>C39: An engine of the chip makes such a run: on a well-formed chip, on whose edges the host neither commands nor
  programs the engine, its states are a run of the analyser's engine, whatever the pins, the mover, the
  other engines and the host's queue words do, and its TX queue holds words of its width only.\<close>

theorem chip_makes_run:
  assumes "config_ok (config_of (tp_arch p))" "chip_run (config_of (tp_arch p)) rs i" "engine_no (config_of (tp_arch p)) i"
  shows "run_of p (\<lambda>k. eng (rs k) i) \<and> fed p (\<lambda>k. eng (rs k) i)"
  using chip_run_moves [OF assms] chip_run_fed [OF assms] by (simp add: run_of_def)

primrec quiet_chip :: "config \<Rightarrow> chip \<Rightarrow> nat \<Rightarrow> chip" where
  "quiet_chip c r 0 = r"
| "quiet_chip c r (Suc k) = (case tick c (quiet_chip c r k) 0 0 False True of Some (r', _) \<Rightarrow> r' | None \<Rightarrow> quiet_chip c r k)"

lemma quiet_chip_run:
  assumes "config_ok c" "wf_chip c r"
  shows "chip_run c (quiet_chip c r) i"
proof -
  have wf: "wf_chip c (quiet_chip c r k)" for k
  proof (induction k)
    case (Suc k)
    then show ?case using tick_edge(1) [OF assms(1) Suc] by (auto split: option.splits)
  qed (simp add: assms(2))
  have "\<exists>ui pins out. tick c (quiet_chip c r k) ui pins False True = Some (quiet_chip c r (Suc k), out) \<and>
      undisturbed c (quiet_chip c r k) ui i" for k
  proof -
    let ?r = "quiet_chip c r k"
    obtain r' out where t: "tick c ?r 0 0 False True = Some (r', out)" using wf_tick [OF assms(1) wf] by blast
    have he: "host_edge c ?r 0 = read_edge ?r 0" by (simp add: host_edge_def write_accepted_def Let_def)
    have "r_starts (read_edge ?r 0) = r_starts ?r" "r_stops (read_edge ?r 0) = r_stops ?r"
      by (simp_all add: read_edge_def Let_def present_read_def window_change_def split: prod.splits)
    then have "undisturbed c ?r 0 i" using wf [of k] by (simp add: undisturbed_def Let_def he wf_chip_def eng_def)
    then show ?thesis using t by (intro exI [of _ 0] exI [of _ out]) simp
  qed
  then show ?thesis unfolding chip_run_def using assms(2) by simp
qed

text \<open>The chip with engine 1 started on the program.\<close>

definition demo_chip :: "int list \<Rightarrow> chip" where
  "demo_chip ws = upd_eng (reset (config_of (tp_arch (demo ws)))) 1 (\<lambda>e. demo_engine ws)"

lemma chip_makes_run_witness:
  "run_of (demo wait_words) (\<lambda>k. eng (quiet_chip (config_of (tp_arch (demo wait_words))) (demo_chip wait_words) k) 1) \<and>
   fed (demo wait_words) (\<lambda>k. eng (quiet_chip (config_of (tp_arch (demo wait_words))) (demo_chip wait_words) k) 1)"
proof (rule chip_makes_run)
  show c: "config_ok (config_of (tp_arch (demo wait_words)))" by (simp add: demo_def config_of_def config_ok_def)
  show "engine_no (config_of (tp_arch (demo wait_words))) 1" by (simp add: demo_def config_of_def engine_no_def)
  have "wf_chip (config_of (tp_arch (demo wait_words))) (demo_chip wait_words)" (is "wf_chip ?c _")
  proof -
    have "wf_engines ?c [new_engine, demo_engine wait_words]"
      using demo_wf wf_new_engine [OF c]
      by (auto simp: wf_engines_def n_eng_def disjoint_pins_def less_Suc_eq numeral_2_eq_2 demo_def config_of_def new_engine_def)
    moreover have "r_engines (demo_chip wait_words) = [new_engine, demo_engine wait_words]"
      by (simp add: demo_chip_def upd_eng_def eng_def reset_def demo_def config_of_def numeral_2_eq_2)
    ultimately show ?thesis using wf_reset [OF c]
      by (simp add: wf_chip_def demo_chip_def upd_eng_def wf_host_def wf_mover_def wf_pins_def wf_reading_def reset_def n_eng_def)
  qed
  then show "chip_run (config_of (tp_arch (demo wait_words)))
      (quiet_chip (config_of (tp_arch (demo wait_words))) (demo_chip wait_words)) 1" by (rule quiet_chip_run [OF c])
qed

section \<open>A deadlock that is none\<close>

text \<open>\<open>DIR 1; PULL; SET 1; JZ tx, 5; SET 0; LOAD tx, 0; SET 0; WAITPIN 0, 1; HALT\<close>: at the \<open>WAITPIN\<close> the engine's own
  pin has been low for longer than the loopback on one path, on the other it has just been high.\<close>

definition race_words :: "int list" where
  "race_words = [0x03000001, 0x06000000, 0x02000001, 0x1A000005, 0x02000000, 0x13000000, 0x02000000, 0x0D000100, 0x01000000]"

definition race_node :: tnode where
  "race_node = (let g = demo_graph race_words in the (g_nodes g (g_order g ! 2)))"

text \<open>A chip without host whose pads are read back as its pins.\<close>

primrec loop_chip :: "config \<Rightarrow> chip \<Rightarrow> nat \<Rightarrow> chip" where
  "loop_chip c r 0 = r"
| "loop_chip c r (Suc k) =
     (let s = loop_chip c r k; out = outputs c s 0 False True in
      case tick c s 0 (o_uio_out out AND o_uio_oe out) False True of Some (r', _) \<Rightarrow> r' | None \<Rightarrow> s)"

definition race_engine :: "nat \<Rightarrow> engine" where
  "race_engine k = eng (loop_chip (config_of (tp_arch (demo race_words)))
     (upd_eng (demo_chip race_words) 1 (\<lambda>e. e\<lparr>e_tx := [0]\<rparr>)) k) 1"

definition node_view :: "tnode \<Rightarrow> int \<times> bool \<times> nat" where
  "node_view n = (nd_bpc n, nd_deadlock n, length (nd_variants n))"

definition engine_view :: "engine \<Rightarrow> bool \<times> int \<times> int \<times> int" where
  "engine_view e = (e_running e, e_pc e, e_fault e, e_completed e)"

lemma race_node_seen: "node_view race_node = (7, True, 0)"
  by code_simp

lemma race_engine_seen: "engine_view (race_engine 8) = (False, 9, 0, 8)"
  by code_simp

text \<open>The deadlock mark of a node is not a guaranteed timeout: it is set for every way of reaching the node
  once one of them forces the opposite level. The exploration of this program leaves the \<open>WAITPIN\<close> at
  address 7 marked and unexplored, and yet the engine of the chip, with the word 0 in its queue and its
  pads looped back, passes it without a stall and halts after 8 edges without a fault.\<close>

lemma deadlock_mark_not_sound:
  "nd_bpc race_node = 7 \<and> nd_deadlock race_node \<and> nd_variants race_node = [] \<and>
   \<not> e_running (race_engine 8) \<and> e_pc (race_engine 8) = 9 \<and> e_fault (race_engine 8) = 0 \<and> e_completed (race_engine 8) = 8"
  using race_node_seen race_engine_seen by (simp add: node_view_def engine_view_def)

end
