(* ===== verification/Spec2Isabelle.thy ===== *)
theory Spec2Isabelle
  imports Chip_Props Host_Claims Host_Sha Host_Load Host_Peers_Props Pio_Paths Lockstep_Schedule Lockstep_Protocol Lockstep_Count Fpga_Bridge_Props Fpga_Scope_Collect Lockstep_Backend
  Timing_Props
begin

text \<open>
  A development for the protocol-emulator chip and the Python programs around it.

  The chip runs up to four small engines over eight protocol pins and talks to a host through a
  nibble port. The host library speaks that port over one of several drivers; on a demo board the
  driver is a PIO program that clocks the chip in lockstep; on an FPGA prototype it is a byte
  protocol over a serial line, with a capture unit beside it. The theories follow these parts.

  \<^bold>\<open>The chip\<close> (\<open>test/model/reference.py\<close>, the executable specification of the RTL). \<open>Engine\<close>: one
  engine with its thirty instructions, \<open>_step\<close>, the fused transfer and the operand and ownership
  checks. \<open>Chip\<close>: \<open>Reference\<close>, that is commands, the nibble port, the mover between queues, and
  \<open>tick\<close>. \<open>Engine_Inv\<close>, \<open>Chip_Inv\<close>, \<open>Chip_Edge\<close>, \<open>Chip_Transfer\<close>: the well-formedness invariant of
  every operation and what an edge does to the queues. \<open>Chip_Props\<close>: no edge raises, one driver per
  pad. \<open>Chip_Queues\<close>: the exact law of the queues, saying for every word that leaves or enters one which
  instruction, host transfer, mover or \<open>FLUSH\<close> moves it, and the account of a queue over many edges.

  \<^bold>\<open>The host library\<close> (\<open>host/pe_host\<close>). \<open>Host_Protocol\<close> has the constants, encoders, decoders and
  exceptions (\<open>protocol.py\<close>, \<open>errors.py\<close>); \<open>Host_Port\<close> the port contract and the driver that runs the
  reference model (\<open>ports/base.py\<close>, \<open>ports/model.py\<close>); \<open>Host_Emulator\<close> \<open>ProtocolEmulator\<close> over any port
  (\<open>host.py\<close>), each method a function of the port operations it is given. \<open>Host_Link\<close> states what
  the host relies on in its driver as a locale, interpreted on the model port with the chip
  behind it; \<open>Host_Props\<close> and \<open>Host_Claims\<close> prove the handshakes, reads, commands and loading inside it.
  \<open>Host_Json\<close>, \<open>Host_Image\<close>, \<open>Host_Image_Props\<close>, \<open>Host_Sha\<close> and \<open>Host_Load\<close> are the firmware images of \<open>image.py\<close>:
  SHA-256 against the standard (whose constants are defined from the roots of primes and compared with the
  tables of the code), verification, binding, the ISA check against the documented rule, and loading.
  \<open>Host_Peers\<close>, \<open>Host_Peers_Props\<close> are the simulated peers of \<open>peers.py\<close> and the wired-AND environment.

  \<^bold>\<open>The lockstep driver\<close> (\<open>host/pio\<close>, \<open>ports/pio_lockstep.py\<close>). \<open>Pio_Sim\<close>, \<open>Pio_Asm\<close>, \<open>Pio_Pathcheck\<close> and
  \<open>Pio_Board\<close> are the PIO interpreter, the assembler, the exhaustive path check and the board simulation;
  \<open>Pio_Schedule\<close>, \<open>Pio_Clock\<close>, \<open>Pio_Run\<close> and \<open>Pio_Paths\<close> prove that a passed path check bounds every run of the
  interpreter. \<open>Lockstep_Program\<close> is the assembled program; \<open>Pio_Board_Props\<close> and \<open>Lockstep_Schedule\<close> prove its
  schedule on the board's pins, from a start of the program to its next restart or release and for words
  in the program's protocol; \<open>Lockstep_Protocol\<close> shows that the port puts no other words.
  \<open>Lockstep_Port\<close> is \<open>LockstepPort\<close> over a backend, \<open>Lockstep_Port_Props\<close> and \<open>Lockstep_Count\<close> its operation
  order, cycle count (with MicroPython's wrapping clock) and waits over a locale of backends; \<open>Lockstep_Backend\<close> is the MicroPython backend and the bound of
  its polling loops on the board.

  \<^bold>\<open>The FPGA prototype\<close> (\<open>fpga/host\<close>). \<open>Fpga_Bridge\<close> is \<open>pe_host.py\<close>, \<open>Fpga_Scope\<close> is \<open>pe_scope.py\<close>.
  \<open>Fpga_Bridge_Props\<close> has the locale of a transport in front of a device, interpreted on a serial line in
  front of any device, and shows that transactions keep in step, that loads deliver their
  words and what the timestamp check accepts and rejects. \<open>Fpga_Scope_Props\<close>: what the block CRC detects and that the record decoder is exact;
  \<open>Fpga_Scope_Read\<close>: consistency of waveforms and reading back over faithful and damaging lines;
  \<open>Fpga_Scope_Collect\<close>: what a whole capture run may return.

  \<^bold>\<open>The timing analyser\<close> (\<open>tools/timing/pe_timing.py\<close>). \<open>Timing_Model\<close> has the decoded instruction with its static
  checks and costs, the abstract state and \<open>_segment\<close>, which executes a program abstractly from one
  synchronization boundary to the next; \<open>Timing_Graph\<close> is the class \<open>Analysis\<close>, the graph of boundaries and
  contexts. The reference engine is the concrete side: \<open>Timing_Sound\<close> says when an abstract state represents
  an engine and what a pad shows (\<open>Timing_Chip\<close> compares it with the pads of the chip), \<open>Timing_Exec\<close>, \<open>Timing_Xfer\<close>, \<open>Timing_Run\<close> and \<open>Timing_Instr\<close> relate single instructions, transfers
  and runs, \<open>Timing_Segment\<close> the loops of a segment. \<open>Timing_Wait\<close> treats the boundaries themselves.
  \<open>Timing_Closed\<close>, \<open>Timing_Cover\<close>, \<open>Timing_Link\<close> and \<open>Timing_Explore\<close> are the invariants of the worklist: at its end every
  explored node is linked to nodes that represent its exits. \<open>Timing_Chip\<close> connects the engine's runs
  with the edges of the chip, and \<open>Timing_Props\<close> has the properties.

  \<^bold>\<open>Conventions.\<close> \<open>Prelude\<close> has the shared vocabulary. Python integers are \<open>int\<close>; a method that
  mutates objects and may raise is an \<open>act\<close>, a function from the state to a result or exception and
  the state it leaves; exceptions are datatypes with one constructor per message.

  \<^bold>\<open>Bounds and fuel.\<close> A loop that the code bounds itself recurs on that bound: retries, the frames of a
  transaction, the words of a queue, the delays of an instruction. Loops that poll a clock take the
  comparison with the deadline as a parameter and a bound on the polls: \<open>wait_level\<close> and \<open>run_polls\<close> give up when it
  is used up, as the code does at its deadline; for \<open>poll_until\<close> the board simulation yields a
  bound that is proved to be enough. The worklist of the path check has no fuel: it terminates because every
  round visits a new instruction and slot or shortens the list. The waits of the host library take the
  caller's limit as fuel. \<open>read_loop\<close> has a pass for every record, and every pass adds
  one. The loops of the timing analyser have no fuel: a path of a segment ends at \<open>max_events\<close> and a fork
  has less room than its parent, and every explored node uses up part of the budget \<open>total_events\<close>. The
  theorems hold for all limits, those about the graph for explorations the budgets did not cut short;
  \<open>demo_limits\<close> is only for the witnesses.

  \<^bold>\<open>Not modelled.\<close> The RTL and its OCaml generator, the SystemVerilog proofs, floorplans and macros are not
  Python. The drivers for MicroPython pins, the Tiny Tapeout SDK, cocotb and recordings, the vendor tool
  scripts, the equivalence and depth checks, sweeps and campaigns only call libraries or processes
  outside the repository. \<open>LockstepEmulator\<close> overrides methods of the modelled host class one by one to
  save frames. Of the timing analyser the event-distance queries, reports and image files are left
  out; the instructions on a cycle (\<open>_cyclic\<close>) are an argument, and the properties hold for every list of
  them. Files, serial ports and clocks are parameters; printed and logged text is left out.
  The statistics of \<open>demo/pe_capture.py\<close> work on floating-point numbers.
\<close>

end
